(* ===== verification/Prelude.thy ===== *)
theory Prelude
  imports Main "HOL-Library.Word" "HOL-Library.Monad_Syntax"
begin

unbundle bit_operations_syntax

text \<open>
  Shared vocabulary of the development: the C integer types as words, byte buffers,
  return codes, the conventions for pointers and out-of-bounds accesses, and the generic
  lemmas on words and lists that the component theories use.

  Conventions used everywhere:
  \<^item> a C pointer argument is an \<open>option\<close>: \<open>None\<close> is NULL, \<open>Some v\<close> points at a cell
    holding \<open>v\<close>; an operation that writes through a pointer returns the new contents;
  \<^item> a byte buffer is a list of octets; a store at an offset is \<open>buf_put\<close>, which
    lengthens the list when it leaves the buffer, so that staying in bounds is the
    statement that the length is unchanged;
  \<^item> a load from received data goes through \<open>rd8\<close> and friends, whose result is
    \<open>None\<close> when the access leaves the buffer, so that memory safety of a parser is the
    statement that it never evaluates to \<open>None\<close>.
\<close>

section \<open>Machine types and return codes\<close>

type_synonym u8 = "8 word"
type_synonym u16 = "16 word"
type_synonym u32 = "32 word"
type_synonym u64 = "64 word"
type_synonym u128 = "128 word"
type_synonym bytes = "u8 list"

abbreviation NGX_RTC_OK :: int where "NGX_RTC_OK \<equiv> 0"
abbreviation NGX_RTC_ERR_INVALID :: int where "NGX_RTC_ERR_INVALID \<equiv> - 1"
abbreviation NGX_RTC_ERR_TOO_SMALL :: int where "NGX_RTC_ERR_TOO_SMALL \<equiv> - 2"
abbreviation NGX_RTC_ERR_TOO_LARGE :: int where "NGX_RTC_ERR_TOO_LARGE \<equiv> - 3"
abbreviation NGX_RTC_ERR_PARSE :: int where "NGX_RTC_ERR_PARSE \<equiv> - 4"
abbreviation NGX_RTC_ERR_NEED_MORE :: int where "NGX_RTC_ERR_NEED_MORE \<equiv> - 5"
abbreviation NGX_RTC_AGAIN :: int where "NGX_RTC_AGAIN \<equiv> - 6"

text \<open>nginx's own return codes.\<close>

abbreviation NGX_OK :: int where "NGX_OK \<equiv> 0"
abbreviation NGX_ERROR :: int where "NGX_ERROR \<equiv> - 1"
abbreviation NGX_AGAIN :: int where "NGX_AGAIN \<equiv> - 2"
abbreviation NGX_BUSY :: int where "NGX_BUSY \<equiv> - 3"
abbreviation NGX_DECLINED :: int where "NGX_DECLINED \<equiv> - 5"

named_theorems bytes_simps "length and element facts about buffers"
named_theorems in_range "successful loads"

section \<open>Buffers\<close>

text \<open>\<open>memcpy(buf + off, src, length src)\<close>.\<close>

definition buf_put :: "nat \<Rightarrow> 'a list \<Rightarrow> 'a list \<Rightarrow> 'a list" where
  "buf_put off src buf = take off buf @ src @ drop (off + length src) buf"

text \<open>\<open>length\<close> octets at offset \<open>off\<close>.\<close>

definition buf_get :: "nat \<Rightarrow> nat \<Rightarrow> 'a list \<Rightarrow> 'a list" where
  "buf_get off n buf = take n (drop off buf)"

lemma length_buf_put [simp, bytes_simps]:
  "off + length src \<le> length buf \<Longrightarrow> length (buf_put off src buf) = length buf"
  by (simp add: buf_put_def)

lemma nth_buf_put:
  assumes "off + length src \<le> length buf" "i < length buf"
  shows "buf_put off src buf ! i =
    (if off \<le> i \<and> i < off + length src then src ! (i - off) else buf ! i)"
  using assms by (auto simp: buf_put_def nth_append)

lemma length_buf_get [simp, bytes_simps]: "off + n \<le> length buf \<Longrightarrow> length (buf_get off n buf) = n"
  by (simp add: buf_get_def)

lemma nth_buf_get: "off + n \<le> length buf \<Longrightarrow> i < n \<Longrightarrow> buf_get off n buf ! i = buf ! (off + i)"
  by (simp add: buf_get_def)

lemma buf_get_put_same [simp]:
  "off + length src \<le> length buf \<Longrightarrow> n = length src \<Longrightarrow> buf_get off n (buf_put off src buf) = src"
  by (simp add: buf_get_def buf_put_def)

lemma buf_put_Nil [simp]: "off \<le> length buf \<Longrightarrow> buf_put off [] buf = buf"
  by (simp add: buf_put_def)

lemma buf_get_put_other:
  assumes "off + length src \<le> length buf" "off' + n \<le> length buf"
    and "off' + n \<le> off \<or> off + length src \<le> off'"
  shows "buf_get off' n (buf_put off src buf) = buf_get off' n buf"
  using assms by (intro nth_equalityI) (auto simp: nth_buf_get nth_buf_put)

section \<open>C strings\<close>

text \<open>The contents of a C string in an array.\<close>

definition cstr :: "bytes \<Rightarrow> bytes" where
  "cstr b = takeWhile (\<lambda>c. c \<noteq> 0) b"

lemma takeWhile_all: "(\<And>x. x \<in> set xs \<Longrightarrow> P x) \<Longrightarrow> takeWhile P xs = xs"
  by (simp add: takeWhile_eq_all_conv)

lemma cstr_nonzero: "0 \<notin> set (cstr b)"
  unfolding cstr_def using set_takeWhileD by fastforce

lemma cstr_id: "0 \<notin> set b \<Longrightarrow> cstr b = b"
  unfolding cstr_def by (rule takeWhile_all) auto

lemma cstr_append_0: "0 \<notin> set b \<Longrightarrow> cstr (b @ 0 # r) = b"
  by (induction b) (auto simp: cstr_def)

text \<open>ASCII literals, and \<^verbatim>\<open>%u\<close>.\<close>

definition ascii :: "string \<Rightarrow> bytes" where
  "ascii s = map of_char s"

fun dec :: "nat \<Rightarrow> bytes" where
  "dec n = (if n < 10 then [0x30 + of_nat n] else dec (n div 10) @ [0x30 + of_nat (n mod 10)])"

declare dec.simps [simp del]

section \<open>Loads that check the bounds\<close>

definition rd8 :: "bytes \<Rightarrow> nat \<Rightarrow> u8 option" where
  "rd8 b i = (if i < length b then Some (b ! i) else None)"

lemma rd8_in [simp, in_range]: "i < length b \<Longrightarrow> rd8 b i = Some (b ! i)"
  by (simp add: rd8_def)

lemma rd8_out [simp]: "length b \<le> i \<Longrightarrow> rd8 b i = None"
  by (simp add: rd8_def)

lemma rd8_None_iff: "rd8 b i = None \<longleftrightarrow> length b \<le> i"
  by (simp add: rd8_def)

section \<open>Big-endian words\<close>

definition be16 :: "u8 \<Rightarrow> u8 \<Rightarrow> u16" where
  "be16 a b = push_bit 8 (ucast a) OR ucast b"

definition be24 :: "u8 \<Rightarrow> u8 \<Rightarrow> u8 \<Rightarrow> u32" where
  "be24 a b c = push_bit 16 (ucast a) OR push_bit 8 (ucast b) OR ucast c"

definition be32 :: "u8 \<Rightarrow> u8 \<Rightarrow> u8 \<Rightarrow> u8 \<Rightarrow> u32" where
  "be32 a b c d = push_bit 24 (ucast a) OR push_bit 16 (ucast b) OR push_bit 8 (ucast c) OR ucast d"

definition to_be16 :: "u16 \<Rightarrow> bytes" where
  "to_be16 v = [ucast (drop_bit 8 v AND 0xff), ucast (v AND 0xff)]"

definition to_be32 :: "u32 \<Rightarrow> bytes" where
  "to_be32 v = [ucast (drop_bit 24 v AND 0xff), ucast (drop_bit 16 v AND 0xff),
     ucast (drop_bit 8 v AND 0xff), ucast (v AND 0xff)]"

lemma length_to_be [simp]: "length (to_be16 v) = 2" "length (to_be32 w) = 4"
  by (simp_all add: to_be16_def to_be32_def)

lemma ucast_and_ff [simp]: "ucast (x AND 0xff) = (ucast (x :: 'a::len word) :: u8)"
proof -
  have m: "(0xff :: 'a word) = mask 8" by (simp add: mask_eq_exp_minus_1)
  show ?thesis unfolding m
    by (rule bit_word_eqI) (auto simp: bit_simps dest: bit_imp_le_length)
qed

lemma be16_split [simp]: "be16 (ucast (drop_bit 8 v)) (ucast v) = v"
proof (rule bit_word_eqI)
  fix n assume "n < LENGTH(16)"
  then show "bit (be16 (ucast (drop_bit 8 v)) (ucast v)) n = bit v n"
    by (cases "n < 8") (simp_all add: be16_def bit_simps not_less less_diff_conv2)
qed

lemma be32_split [simp]:
  "be32 (ucast (drop_bit 24 v)) (ucast (drop_bit 16 v)) (ucast (drop_bit 8 v)) (ucast v) = v"
proof (rule bit_word_eqI)
  fix n assume n: "n < LENGTH(32)"
  consider "n < 8" | "8 \<le> n \<and> n < 16" | "16 \<le> n \<and> n < 24" | "24 \<le> n" by linarith
  then show "bit (be32 (ucast (drop_bit 24 v)) (ucast (drop_bit 16 v))
     (ucast (drop_bit 8 v)) (ucast v)) n = bit v n"
    using n by cases (simp_all add: be32_def bit_simps not_less less_diff_conv2)
qed

lemma be24_split:
  "be24 (ucast (drop_bit 16 v)) (ucast (drop_bit 8 v)) (ucast v) = take_bit 24 v"
proof (rule bit_word_eqI)
  fix n assume n: "n < LENGTH(32)"
  consider "n < 8" | "8 \<le> n \<and> n < 16" | "16 \<le> n \<and> n < 24" | "24 \<le> n" by linarith
  then show "bit (be24 (ucast (drop_bit 16 v)) (ucast (drop_bit 8 v)) (ucast v)) n
      = bit (take_bit 24 v) n"
    using n by cases (simp_all add: be24_def bit_simps not_less less_diff_conv2)
qed

text \<open>Big-endian loads, and a load of \<open>n\<close> octets.\<close>

definition rd16 :: "bytes \<Rightarrow> nat \<Rightarrow> u16 option" where
  "rd16 b i = do { h \<leftarrow> rd8 b i; l \<leftarrow> rd8 b (i + 1); Some (be16 h l) }"

definition rd24 :: "bytes \<Rightarrow> nat \<Rightarrow> u32 option" where
  "rd24 b i = do { x \<leftarrow> rd8 b i; y \<leftarrow> rd8 b (i + 1); z \<leftarrow> rd8 b (i + 2); Some (be24 x y z) }"

definition rd32 :: "bytes \<Rightarrow> nat \<Rightarrow> u32 option" where
  "rd32 b i = do { x \<leftarrow> rd8 b i; y \<leftarrow> rd8 b (i + 1); z \<leftarrow> rd8 b (i + 2); w \<leftarrow> rd8 b (i + 3); Some (be32 x y z w) }"

definition rdn :: "bytes \<Rightarrow> nat \<Rightarrow> nat \<Rightarrow> bytes option" where
  "rdn b i n = (if i + n \<le> length b then Some (buf_get i n b) else None)"

lemma rd16_in [simp, in_range]: "i + 2 \<le> length b \<Longrightarrow> rd16 b i = Some (be16 (b ! i) (b ! (i + 1)))"
  by (simp add: rd16_def)

lemma rd24_in [simp, in_range]: "i + 3 \<le> length b \<Longrightarrow> rd24 b i = Some (be24 (b ! i) (b ! (i + 1)) (b ! (i + 2)))"
  by (simp add: rd24_def)

lemma rd32_in [simp, in_range]:
  "i + 4 \<le> length b \<Longrightarrow> rd32 b i = Some (be32 (b ! i) (b ! (i + 1)) (b ! (i + 2)) (b ! (i + 3)))"
  by (simp add: rd32_def)

lemma rdn_in [simp, in_range]: "i + n \<le> length b \<Longrightarrow> rdn b i n = Some (buf_get i n b)"
  by (simp add: rdn_def)

text \<open>Loads from the middle of a concatenation.\<close>

lemma rd16_at: "rd16 (xs @ to_be16 v @ ys) (length xs) = Some v"
  by (simp add: nth_append to_be16_def)

lemma rd32_at: "rd32 (xs @ to_be32 v @ ys) (length xs) = Some v"
  by (simp add: nth_append to_be32_def numeral_2_eq_2 numeral_3_eq_3)

lemma rdn_at: "rdn (xs @ ys @ zs) (length xs) (length ys) = Some ys"
  by (simp add: buf_get_def)

lemma buf_put_append:
  "off \<le> length s \<Longrightarrow> buf_put (off + length xs) ys (buf_put off xs s) = buf_put off (xs @ ys) s"
  by (simp add: buf_put_def ac_simps)

text \<open>The object representation of a \<^verbatim>\<open>uint32_t\<close> on the little-endian host.\<close>

definition u32_mem :: "u32 \<Rightarrow> bytes" where
  "u32_mem v = [ucast v, ucast (drop_bit 8 v), ucast (drop_bit 16 v), ucast (drop_bit 24 v)]"

definition mem_u32 :: "bytes \<Rightarrow> u32" where
  "mem_u32 bs = be32 (bs ! 3) (bs ! 2) (bs ! 1) (bs ! 0)"

lemma length_u32_mem [simp]: "length (u32_mem v) = 4"
  by (simp add: u32_mem_def)

lemma u32_mem_ne [simp]: "u32_mem v \<noteq> []"
  by (simp add: u32_mem_def)

lemma mem_u32_mem [simp]: "mem_u32 (u32_mem v @ xs) = v"
  by (simp add: mem_u32_def u32_mem_def)

lemma mem_u32_mem' [simp]: "mem_u32 (u32_mem v) = v"
  using mem_u32_mem [of v "[]"] by simp

section \<open>Masks, remainders and modular distance\<close>

text \<open>Masking with a power of two minus one is the remainder.\<close>

lemma unat_and_mask: "unat (x AND mask n) = unat (x :: 'a::len word) mod 2 ^ n"
  by (metis take_bit_eq_mask take_bit_eq_mod unsigned_take_bit_eq)

lemma unat_exp_word: "n < LENGTH('a) \<Longrightarrow> unat (2 ^ n :: 'a::len word) = 2 ^ n"
  using unat_of_nat [of "2 ^ n", where ?'a = 'a] by (simp add: mod_less power_strict_increasing)

lemma unat_u16_less: "unat (x :: u16) < 65536"
  using unsigned_less [of x, where ?'a = nat] by simp

lemma unat_u32_less: "unat (x :: u32) < 4294967296"
  using unsigned_less [of x, where ?'a = nat] by simp

text \<open>Reading a word as two's complement.\<close>

lemma sint_u16: "sint (w :: u16) = (if unat w < 32768 then int (unat w) else int (unat w) - 65536)"
proof -
  have shift: "(u + 32768) mod 65536 - 32768 = (if u < 32768 then u else u - 65536)"
    if "0 \<le> u" "u < 65536" for u :: int
    using that by (cases "u < 32768") (simp_all add: mod_pos_pos_trivial mod_pos_geq)
  have i: "int (unat w) = uint w" by simp
  have "sint w = (uint w + 32768) mod 65536 - 32768"
    by (simp add: sint_uint signed_take_bit_eq_take_bit_shift take_bit_eq_mod)
  also have "\<dots> = (if uint w < 32768 then uint w else uint w - 65536)"
    using unat_u16_less [of w] i by (intro shift) linarith+
  finally have "sint w = (if uint w < 32768 then uint w else uint w - 65536)" .
  moreover have "uint w < 32768 \<longleftrightarrow> unat w < 32768" using i by linarith
  ultimately show ?thesis by simp
qed

lemma sint_u32: "sint (w :: u32) = (if unat w < 2147483648 then int (unat w) else int (unat w) - 4294967296)"
proof -
  have shift: "(u + 2147483648) mod 4294967296 - 2147483648 = (if u < 2147483648 then u else u - 4294967296)"
    if "0 \<le> u" "u < 4294967296" for u :: int
    using that by (cases "u < 2147483648") (simp_all add: mod_pos_pos_trivial mod_pos_geq)
  have i: "int (unat w) = uint w" by simp
  have "sint w = (uint w + 2147483648) mod 4294967296 - 2147483648"
    by (simp add: sint_uint signed_take_bit_eq_take_bit_shift take_bit_eq_mod)
  also have "\<dots> = (if uint w < 2147483648 then uint w else uint w - 4294967296)"
    using unat_u32_less [of w] i by (intro shift) linarith+
  finally have "sint w = (if uint w < 2147483648 then uint w else uint w - 4294967296)" .
  moreover have "uint w < 2147483648 \<longleftrightarrow> unat w < 2147483648" using i by linarith
  ultimately show ?thesis by simp
qed

lemma sint_pos_u16: "sint (w :: u16) > 0 \<longleftrightarrow> 0 < unat w \<and> unat w < 32768"
proof (cases "unat w < 32768")
  case True
  then have "sint w = int (unat w)" by (simp only: sint_u16 if_True)
  then show ?thesis using True by linarith
next
  case False
  then have "sint w = int (unat w) - 65536" by (simp only: sint_u16 if_False)
  then show ?thesis using False unat_u16_less [of w] by linarith
qed

lemma sint_pos_u32: "sint (w :: u32) > 0 \<longleftrightarrow> 0 < unat w \<and> unat w < 2147483648"
proof (cases "unat w < 2147483648")
  case True
  then have "sint w = int (unat w)" by (simp only: sint_u32 if_True)
  then show ?thesis using True by linarith
next
  case False
  then have "sint w = int (unat w) - 4294967296" by (simp only: sint_u32 if_False)
  then show ?thesis using False unat_u32_less [of w] by linarith
qed

text \<open>Two words that agree under a mask differ by a multiple of the mask's modulus.\<close>

lemma unat_diff_mod:
  "k \<le> LENGTH('a) \<Longrightarrow> unat (x :: 'a::len word) mod 2 ^ k = unat y mod 2 ^ k \<Longrightarrow> unat (x - y) mod 2 ^ k = 0"
proof -
  assume k: "k \<le> LENGTH('a)" and eq: "unat x mod 2 ^ k = unat y mod 2 ^ k"
  have dvd: "(2 ^ k :: nat) dvd 2 ^ LENGTH('a)" using k by (rule le_imp_power_dvd)
  from eq have "(2 ^ k :: int) dvd int (unat x) - int (unat y)"
    by (metis mod_eq_dvd_iff of_nat_mod of_nat_numeral of_nat_power)
  then have "(2 ^ k :: int) dvd uint x - uint y" by simp
  then have "take_bit k (uint x - uint y) = 0" by (simp add: take_bit_eq_mod)
  then have "take_bit k (uint (x - y)) = 0"
    using k by (simp add: uint_word_arith_bintrs min_absorb1 take_bit_take_bit)
  then have "take_bit k (unat (x - y)) = 0"
    by (metis of_nat_0_eq_iff of_nat_take_bit uint_nat)
  then show ?thesis by (simp add: take_bit_eq_mod)
qed

section \<open>Rounding up to a power of two\<close>

text \<open>One smearing step doubles the distance over which a set bit is copied down.\<close>

lemma smear_step:
  assumes "\<And>i. bit x i \<longleftrightarrow> (\<exists>j<m. bit w (i + j))"
  shows "bit (x OR drop_bit m (x :: 'a::len word)) i \<longleftrightarrow> (\<exists>j<2 * m. bit w (i + j))"
proof -
  have "bit (x OR drop_bit m x) i \<longleftrightarrow> bit x i \<or> bit x (m + i)"
    by (simp add: bit_or_iff bit_drop_bit_eq)
  also have "\<dots> \<longleftrightarrow> (\<exists>j<m. bit w (i + j)) \<or> (\<exists>j<m. bit w (i + (m + j)))"
    by (simp add: assms ac_simps)
  also have "\<dots> \<longleftrightarrow> (\<exists>j<2 * m. bit w (i + j))" (is "?l \<longleftrightarrow> ?r")
  proof
    assume ?l
    then show ?r
    proof
      assume "\<exists>j<m. bit w (i + j)"
      then obtain j where "j < m" "bit w (i + j)" by blast
      then have "j < 2 * m \<and> bit w (i + j)" by simp
      then show ?r by blast
    next
      assume "\<exists>j<m. bit w (i + (m + j))"
      then obtain j where "j < m" "bit w (i + (m + j))" by blast
      then have "m + j < 2 * m \<and> bit w (i + (m + j))" by simp
      then show ?r by blast
    qed
  next
    assume ?r
    then obtain j where j: "j < 2 * m" "bit w (i + j)" by blast
    show ?l
    proof (cases "j < m")
      case True with j show ?thesis by blast
    next
      case False
      then have "j - m < m" "bit w (i + (m + (j - m)))" using j by auto
      then show ?thesis by blast
    qed
  qed
  finally show ?thesis .
qed

lemma smeared_mask:
  fixes w s :: "'a::len word"
  assumes s: "\<And>i. bit s i \<longleftrightarrow> (\<exists>j<LENGTH('a). bit w (i + j))"
    and w: "unat w < 2 ^ n" and n: "n \<le> LENGTH('a)" and top: "n = 0 \<or> bit w (n - 1)"
  shows "s = mask n"
proof (rule bit_word_eqI)
  fix i assume i: "i < LENGTH('a)"
  have above: "\<not> bit w m" if "n \<le> m" for m
  proof
    assume b: "bit w m"
    have "unat w < 2 ^ m" using w that by (meson less_le_trans one_le_numeral power_increasing)
    moreover have "bit (unat w) m" using b bit_imp_le_length [OF b] by (simp add: bit_unsigned_iff)
    ultimately show False by (simp add: bit_iff_odd)
  qed
  show "bit s i = bit (mask n :: 'a word) i"
  proof (cases "i < n")
    case True
    then have "bit w (i + (n - 1 - i))" "n - 1 - i < LENGTH('a)" using top n by auto
    then show ?thesis using True i unfolding s bit_mask_iff by auto
  next
    case False
    then show ?thesis using above unfolding s bit_mask_iff by auto
  qed
qed

text \<open>Rounding up: smearing \<open>v - 1\<close> and adding one gives the power of two of \<open>v\<close>'s band.\<close>

lemma smeared_pow2:
  fixes v s :: "'a::len word"
  assumes s: "\<And>i. bit s i \<longleftrightarrow> (\<exists>j<LENGTH('a). bit (v - 1) (i + j))"
    and v: "0 < unat v" "unat v \<le> 2 ^ n" "2 ^ n < 2 * unat v" and n: "n < LENGTH('a)"
  shows "s + 1 = 2 ^ n"
proof -
  have vm1: "unat (v - 1) = unat v - 1" using v(1) by (metis gr_implies_not0 unat_0 unat_minus_one)
  have "n = 0 \<or> bit (v - 1) (n - 1)"
  proof (cases n)
    case (Suc m)
    then have "2 ^ m \<le> unat (v - 1)" "unat (v - 1) < 2 * 2 ^ m" using v vm1 by simp_all
    then have "unat (v - 1) div 2 ^ m = 1" by (simp add: div_nat_eqI)
    then have "bit (unat (v - 1)) m" by (simp add: bit_iff_odd)
    then show ?thesis using Suc by (simp add: bit_unsigned_iff)
  qed simp
  then have "s = mask n" using n v vm1 by (intro smeared_mask [OF s]) auto
  then show ?thesis by (simp add: mask_eq_exp_minus_1)
qed

text \<open>Every positive number up to \<open>2 ^ m\<close> lies in exactly one power-of-two band.\<close>

lemma pow2_band:
  assumes "0 < v" "v \<le> 2 ^ m"
  shows "\<exists>n\<le>m. v \<le> 2 ^ n \<and> 2 ^ n < 2 * (v :: nat)"
proof -
  define n where "n = (LEAST n. v \<le> 2 ^ n)"
  have le: "v \<le> 2 ^ n" unfolding n_def using assms(2) by (rule LeastI)
  have nm: "n \<le> m" unfolding n_def using assms(2) by (rule Least_le)
  have "2 ^ n < 2 * v"
  proof (cases n)
    case 0 then show ?thesis using assms(1) by simp
  next
    case (Suc m)
    then have "\<not> v \<le> 2 ^ m" using not_less_Least n_def by (metis lessI)
    then show ?thesis using Suc by simp
  qed
  with le nm show ?thesis by blast
qed

end
