(* ===== verification/Ring.thy ===== *)
theory Ring
  imports Prelude
begin

text \<open>
  The bounded rings of \<^verbatim>\<open>src/ngx_rtc_ring.c\<close>: the fixed-slot ring
  \<^verbatim>\<open>ngx_rtc_ring_t\<close> with monotonic 32-bit head and tail counters, and the byte arena
  \<^verbatim>\<open>ngx_rtc_vring_t\<close> whose entries carry a 4-byte length prefix. Both are shown to
  refine a bounded first-in first-out queue, stated once as the locale \<open>fifo\<close> and
  interpreted on the two implementations.
  The allocator is an argument: \<open>calloc\<close> either returns zeroed memory or NULL.
\<close>

section \<open>The queue interface\<close>

text \<open>
  A client run: each step either offers an element (\<open>Some x\<close>) or asks for one (\<open>None\<close>).
  The result is the elements accepted, the elements delivered and the final queue.
\<close>

fun fifo_run ::
  "('a \<Rightarrow> 'q \<Rightarrow> 'q option) \<Rightarrow> ('q \<Rightarrow> ('a \<times> 'q) option) \<Rightarrow> 'a option list \<Rightarrow> 'q \<Rightarrow> 'a list \<times> 'a list \<times> 'q" where
  "fifo_run push pop [] q = ([], [], q)"
| "fifo_run push pop (Some x # ops) q =
     (case push x q of
        None \<Rightarrow> fifo_run push pop ops q
      | Some q' \<Rightarrow> (let (ins, outs, r) = fifo_run push pop ops q' in (x # ins, outs, r)))"
| "fifo_run push pop (None # ops) q =
     (case pop q of
        None \<Rightarrow> fifo_run push pop ops q
      | Some (x, q') \<Rightarrow> (let (ins, outs, r) = fifo_run push pop ops q' in (ins, x # outs, r)))"

locale fifo =
  fixes invar :: "'q \<Rightarrow> bool"
    and contents :: "'q \<Rightarrow> 'a list"
    and valid :: "'q \<Rightarrow> 'a \<Rightarrow> bool"
    and push :: "'a \<Rightarrow> 'q \<Rightarrow> 'q option"
    and pop :: "'q \<Rightarrow> ('a \<times> 'q) option"
  assumes push_invar: "invar q \<Longrightarrow> valid q x \<Longrightarrow> push x q = Some q' \<Longrightarrow> invar q'"
    and push_contents: "invar q \<Longrightarrow> valid q x \<Longrightarrow> push x q = Some q' \<Longrightarrow> contents q' = contents q @ [x]"
    and push_valid: "invar q \<Longrightarrow> valid q x \<Longrightarrow> push x q = Some q' \<Longrightarrow> valid q' = valid q"
    and pop_invar: "invar q \<Longrightarrow> pop q = Some (x, q') \<Longrightarrow> invar q'"
    and pop_contents: "invar q \<Longrightarrow> pop q = Some (x, q') \<Longrightarrow> contents q = x # contents q'"
    and pop_valid: "invar q \<Longrightarrow> pop q = Some (x, q') \<Longrightarrow> valid q' = valid q"
    and pop_None: "invar q \<Longrightarrow> pop q = None \<longleftrightarrow> contents q = []"
begin

lemma run_fifo:
  assumes "invar q" "\<And>x. Some x \<in> set ops \<Longrightarrow> valid q x" "fifo_run push pop ops q = (ins, outs, q')"
  shows "invar q' \<and> contents q @ ins = outs @ contents q'"
  using assms
proof (induction ops arbitrary: q ins outs q')
  case Nil
  then show ?case by simp
next
  case (Cons op ops)
  consider (skip) "fifo_run push pop ops q = (ins, outs, q')"
    | (enq) x r ins' where "op = Some x" "push x q = Some r" "fifo_run push pop ops r = (ins', outs, q')"
        "ins = x # ins'"
    | (out) x r outs' where "pop q = Some (x, r)" "fifo_run push pop ops r = (ins, outs', q')"
        "outs = x # outs'"
    using Cons.prems(3) by (cases op) (auto split: option.splits prod.splits)
  then show ?case
  proof cases
    case skip
    then show ?thesis using Cons by simp
  next
    case enq
    have vx: "valid q x" using Cons.prems(2) enq by simp
    have r: "invar r" "contents r = contents q @ [x]" "valid r = valid q"
      using push_invar push_contents push_valid Cons.prems(1) vx enq(2) by blast+
    show ?thesis using Cons.IH [OF r(1) _ enq(3)] Cons.prems(2) r enq by auto
  next
    case out
    have r: "invar r" "contents q = x # contents r" "valid r = valid q"
      using pop_invar pop_contents pop_valid Cons.prems(1) out(1) by blast+
    show ?thesis using Cons.IH [OF r(1) _ out(2)] Cons.prems(2) r out by auto
  qed
qed

text \<open>Popping returns what is queued, oldest first.\<close>

lemma pop_hd: "invar q \<Longrightarrow> contents q = x # xs \<Longrightarrow> \<exists>q'. pop q = Some (x, q') \<and> contents q' = xs \<and> invar q'"
  using pop_None pop_contents pop_invar by (cases "pop q") fastforce+

end

section \<open>Fixed-slot ring\<close>

record ngx_rtc_ring =
  r_buf :: "bytes option"
  r_capacity :: u32
  r_elem_size :: u32
  r_head :: u32
  r_tail :: u32

definition ngx_rtc_ring_next_pow2 :: "u32 \<Rightarrow> u32" where
  "ngx_rtc_ring_next_pow2 v0 =
     (let v = v0 - 1;
          v = v OR drop_bit 1 v;
          v = v OR drop_bit 2 v;
          v = v OR drop_bit 4 v;
          v = v OR drop_bit 8 v;
          v = v OR drop_bit 16 v
      in v + 1)"

text \<open>\<open>calloc_ok\<close> says whether the allocation succeeds; the block is zeroed.\<close>

definition ngx_rtc_ring_init ::
  "bool \<Rightarrow> ngx_rtc_ring option \<Rightarrow> u32 \<Rightarrow> u32 \<Rightarrow> int \<times> ngx_rtc_ring option" where
  "ngx_rtc_ring_init calloc_ok r capacity elem_size =
     (case r of
        None \<Rightarrow> (- 1, None)
      | Some ring \<Rightarrow>
          if capacity = 0 \<or> elem_size = 0 then (- 1, r)
          else let capacity = ngx_rtc_ring_next_pow2 capacity in
            if \<not> calloc_ok then (- 1, Some (ring\<lparr>r_buf := None\<rparr>))
            else (0, Some \<lparr>r_buf = Some (replicate (unat capacity * unat elem_size) 0),
                           r_capacity = capacity, r_elem_size = elem_size,
                           r_head = 0, r_tail = 0\<rparr>))"

definition ngx_rtc_ring_destroy :: "ngx_rtc_ring option \<Rightarrow> ngx_rtc_ring option" where
  "ngx_rtc_ring_destroy r =
     map_option (\<lambda>_. \<lparr>r_buf = None, r_capacity = 0, r_elem_size = 0, r_head = 0, r_tail = 0\<rparr>) r"

definition ngx_rtc_ring_full :: "ngx_rtc_ring option \<Rightarrow> bool" where
  "ngx_rtc_ring_full r =
     (case r of
        None \<Rightarrow> True
      | Some ring \<Rightarrow> r_buf ring = None \<or> r_head ring - r_tail ring \<ge> r_capacity ring)"

definition ngx_rtc_ring_empty :: "ngx_rtc_ring option \<Rightarrow> bool" where
  "ngx_rtc_ring_empty r =
     (case r of
        None \<Rightarrow> True
      | Some ring \<Rightarrow> r_buf ring = None \<or> r_head ring = r_tail ring)"

definition ngx_rtc_ring_count :: "ngx_rtc_ring option \<Rightarrow> u32" where
  "ngx_rtc_ring_count r =
     (case r of
        None \<Rightarrow> 0
      | Some ring \<Rightarrow> if r_buf ring = None then 0 else r_head ring - r_tail ring)"

definition ngx_rtc_ring_push ::
  "ngx_rtc_ring option \<Rightarrow> bytes option \<Rightarrow> int \<times> ngx_rtc_ring option" where
  "ngx_rtc_ring_push r elem =
     (case (r, elem) of
        (Some ring, Some e) \<Rightarrow>
          (case r_buf ring of
             None \<Rightarrow> (- 1, r)
           | Some buf \<Rightarrow>
               if ngx_rtc_ring_full r then (- 1, r)
               else let idx = (r_head ring AND (r_capacity ring - 1)) * r_elem_size ring in
                 (0, Some (ring\<lparr>r_buf := Some (buf_put (unat idx) (take (unat (r_elem_size ring)) e) buf),
                                r_head := r_head ring + 1\<rparr>)))
      | _ \<Rightarrow> (- 1, r))"

text \<open>Pop stores the element through \<open>elem\<close>, whose old contents must have room for it.\<close>

definition ngx_rtc_ring_pop ::
  "ngx_rtc_ring option \<Rightarrow> bytes option \<Rightarrow> int \<times> ngx_rtc_ring option \<times> bytes option" where
  "ngx_rtc_ring_pop r elem =
     (case (r, elem) of
        (Some ring, Some e) \<Rightarrow>
          (case r_buf ring of
             None \<Rightarrow> (- 1, r, elem)
           | Some buf \<Rightarrow>
               if ngx_rtc_ring_empty r then (- 1, r, elem)
               else let idx = (r_tail ring AND (r_capacity ring - 1)) * r_elem_size ring in
                 (0, Some (ring\<lparr>r_tail := r_tail ring + 1\<rparr>),
                  Some (buf_put 0 (buf_get (unat idx) (unat (r_elem_size ring)) buf) e)))
      | _ \<Rightarrow> (- 1, r, elem))"

subsection \<open>Rounding the capacity up\<close>

definition smear :: "u32 \<Rightarrow> u32" where
  "smear v =
     (let v = v OR drop_bit 1 v;
          v = v OR drop_bit 2 v;
          v = v OR drop_bit 4 v;
          v = v OR drop_bit 8 v
      in v OR drop_bit 16 v)"

lemma next_pow2_smear: "ngx_rtc_ring_next_pow2 v = smear (v - 1) + 1"
  by (simp add: ngx_rtc_ring_next_pow2_def smear_def Let_def)

lemma bit_smear: "bit (smear w) i \<longleftrightarrow> (\<exists>j<32. bit w (i + j))"
proof -
  have s0: "\<And>i. bit w i \<longleftrightarrow> (\<exists>j<1. bit w (i + j))" by simp
  note s1 = smear_step [OF s0]
  note s2 = smear_step [OF s1]
  note s3 = smear_step [OF s2]
  note s4 = smear_step [OF s3]
  note s5 = smear_step [OF s4]
  show ?thesis using s5 by (simp add: smear_def Let_def)
qed

lemma next_pow2_exact:
  assumes v: "0 < unat v" "unat v \<le> 2 ^ n" "2 ^ n < 2 * unat v" and n: "n \<le> 31"
  shows "ngx_rtc_ring_next_pow2 v = 2 ^ n"
  unfolding next_pow2_smear by (rule smeared_pow2 [OF _ v]) (use n in \<open>simp_all add: bit_smear\<close>)

subsection \<open>The ring as a queue of slots\<close>

definition ring_slot :: "ngx_rtc_ring \<Rightarrow> u32 \<Rightarrow> bytes" where
  "ring_slot r i =
     buf_get (unat (i AND (r_capacity r - 1)) * unat (r_elem_size r)) (unat (r_elem_size r)) (the (r_buf r))"

definition ring_contents :: "ngx_rtc_ring \<Rightarrow> bytes list" where
  "ring_contents r = map (\<lambda>i. ring_slot r (r_tail r + word_of_nat i)) [0..<unat (r_head r - r_tail r)]"

definition ring_wf :: "ngx_rtc_ring \<Rightarrow> bool" where
  "ring_wf r \<longleftrightarrow>
     (\<exists>k<32. r_capacity r = 2 ^ k) \<and> 0 < r_elem_size r \<and>
     unat (r_capacity r) * unat (r_elem_size r) < 2 ^ 32 \<and>
     (\<exists>b. r_buf r = Some b \<and> length b = unat (r_capacity r) * unat (r_elem_size r)) \<and>
     r_head r - r_tail r \<le> r_capacity r"

lemma ring_wfE:
  assumes "ring_wf r"
  obtains k b where "k < 32" "r_capacity r = 2 ^ k" "unat (r_capacity r) = 2 ^ k"
    "r_buf r = Some b" "length b = 2 ^ k * unat (r_elem_size r)"
    "2 ^ k * unat (r_elem_size r) < 2 ^ 32" "unat (r_head r - r_tail r) \<le> 2 ^ k"
    "0 < unat (r_elem_size r)"
proof -
  from assms obtain k where k: "k < 32" "r_capacity r = 2 ^ k" unfolding ring_wf_def by blast
  have "unat (2 ^ k :: u32) = 2 ^ k" using k(1) by (simp add: unat_exp_word)
  then show ?thesis
    using assms k that unfolding ring_wf_def
    by (metis unat_gt_0 word_gt_0 word_le_nat_alt)
qed

lemma mask_capacity: "(x AND ((2 ^ k :: u32) - 1)) = x AND mask k"
  by (simp add: mask_eq_exp_minus_1)

lemma slot_index_bound:
  assumes "k < 32" "0 < es"
  shows "unat (x AND ((2 ^ k :: u32) - 1)) * es + es \<le> 2 ^ k * es"
proof -
  have "unat (x AND ((2 ^ k :: u32) - 1)) < 2 ^ k" by (simp add: mask_capacity unat_and_mask)
  then have "Suc (unat (x AND ((2 ^ k :: u32) - 1))) \<le> 2 ^ k" by (rule Suc_leI)
  then have "Suc (unat (x AND ((2 ^ k :: u32) - 1))) * es \<le> 2 ^ k * es" by (rule mult_le_mono1)
  then show ?thesis by simp
qed

text \<open>The byte index of a slot, computed in 32 bits, does not wrap for a well-formed ring.\<close>

lemma unat_slot_index:
  assumes "k < 32" "0 < unat es" "2 ^ k * unat es < 2 ^ 32"
  shows "unat ((x AND ((2 ^ k :: u32) - 1)) * es) = unat (x AND (2 ^ k - 1)) * unat es"
proof -
  have "unat (x AND ((2 ^ k :: u32) - 1)) * unat es < 2 ^ 32"
    using slot_index_bound [of k "unat es" x] assms by linarith
  then show ?thesis using unat_mult_lem [of "x AND ((2 ^ k :: u32) - 1)" es] by simp
qed

text \<open>Two live positions less than the capacity apart use different slots.\<close>

lemma slot_index_distinct:
  assumes "k < 32" "0 < unat (x - y)" "unat (x - y) < 2 ^ k"
  shows "unat (x AND ((2 ^ k :: u32) - 1)) \<noteq> unat (y AND (2 ^ k - 1))"
proof
  assume "unat (x AND ((2 ^ k :: u32) - 1)) = unat (y AND (2 ^ k - 1))"
  then have "unat x mod 2 ^ k = unat y mod 2 ^ k" by (simp add: mask_capacity unat_and_mask)
  then have "unat (x - y) mod 2 ^ k = 0" using assms(1) by (intro unat_diff_mod) auto
  then show False using assms by simp
qed

lemma ring_slot_put_other:
  assumes wf: "ring_wf r" and d: "0 < unat (h - i)" "unat (h - i) < unat (r_capacity r)"
    and e: "length e = unat (r_elem_size r)" and b: "r_buf r = Some b"
  shows "ring_slot (r\<lparr>r_buf := Some (buf_put (unat ((h AND (r_capacity r - 1)) * r_elem_size r)) e b),
      r_head := h'\<rparr>) i = ring_slot r i"
proof -
  from wf obtain k b' where k: "k < 32" "r_capacity r = 2 ^ k" "unat (r_capacity r) = 2 ^ k"
    "r_buf r = Some b'" "length b' = 2 ^ k * unat (r_elem_size r)"
    "2 ^ k * unat (r_elem_size r) < 2 ^ 32" "0 < unat (r_elem_size r)" by (elim ring_wfE)
  have ne: "unat (h AND (2 ^ k - 1)) \<noteq> unat (i AND (2 ^ k - 1))"
    using slot_index_distinct k d by simp
  have sep: "m * es + es \<le> n * es \<or> n * es + es \<le> m * es" if "m \<noteq> n" for m n es :: nat
    using that mult_le_mono1 [of "Suc m" n es] mult_le_mono1 [of "Suc n" m es] by (cases m n rule: linorder_cases) auto
  show ?thesis
    unfolding ring_slot_def using k b e
    by (simp add: unat_slot_index buf_get_put_other [OF _ _ sep] slot_index_bound
        buf_get_put_other sep [OF ne [symmetric]])
qed

lemma ring_slot_put_same:
  assumes wf: "ring_wf r" and e: "length e = unat (r_elem_size r)" and b: "r_buf r = Some b"
  shows "ring_slot (r\<lparr>r_buf := Some (buf_put (unat ((h AND (r_capacity r - 1)) * r_elem_size r)) e b),
      r_head := h'\<rparr>) h = e"
proof -
  from wf obtain k b' where k: "k < 32" "r_capacity r = 2 ^ k" "unat (r_capacity r) = 2 ^ k"
    "r_buf r = Some b'" "length b' = 2 ^ k * unat (r_elem_size r)"
    "2 ^ k * unat (r_elem_size r) < 2 ^ 32" "0 < unat (r_elem_size r)" by (elim ring_wfE)
  then show ?thesis unfolding ring_slot_def using b e
    by (simp add: unat_slot_index slot_index_bound)
qed

lemma ring_contents_length: "length (ring_contents r) = unat (r_head r - r_tail r)"
  by (simp add: ring_contents_def)

lemma ring_contents_push:
  assumes wf: "ring_wf r" and e: "length e = unat (r_elem_size r)" and b: "r_buf r = Some b"
    and room: "r_head r - r_tail r < r_capacity r"
  shows "ring_contents (r\<lparr>r_buf := Some (buf_put (unat ((r_head r AND (r_capacity r - 1)) * r_elem_size r)) e b),
      r_head := r_head r + 1\<rparr>) = ring_contents r @ [e]" (is "ring_contents ?r = _")
proof -
  let ?n = "unat (r_head r - r_tail r)"
  have n: "?n < unat (r_capacity r)" using room by (simp add: word_less_nat_alt)
  have "?n + 1 < 2 ^ 32" using n unat_u32_less [of "r_capacity r"] by simp
  then have "unat (r_head r - r_tail r + 1) = ?n + 1"
    using unat_add_lem [of "r_head r - r_tail r" 1] by simp
  then have suc: "unat (r_head ?r - r_tail ?r) = Suc ?n" by (simp add: algebra_simps)
  have old: "ring_slot ?r (r_tail r + word_of_nat i) = ring_slot r (r_tail r + word_of_nat i)"
    if "i < ?n" for i
  proof -
    have i: "unat (word_of_nat i :: u32) = i"
      using that n unat_u32_less [of "r_capacity r"] by (simp add: unat_of_nat)
    have "unat (r_head r - r_tail r - word_of_nat i) = ?n - unat (word_of_nat i :: u32)"
      using that i by (intro unat_sub) (simp add: word_le_nat_alt)
    then have "unat (r_head r - (r_tail r + word_of_nat i)) = ?n - i"
      by (simp only: i diff_diff_eq)
    then show ?thesis using that n by (intro ring_slot_put_other wf e b) auto
  qed
  have new: "ring_slot ?r (r_tail r + word_of_nat ?n) = e"
    using ring_slot_put_same [OF wf e b] by simp
  show ?thesis unfolding ring_contents_def suc using old new by simp
qed

lemma ring_contents_pop:
  assumes "r_head r \<noteq> r_tail r"
  shows "ring_contents r = ring_slot r (r_tail r) # ring_contents (r\<lparr>r_tail := r_tail r + 1\<rparr>)"
proof -
  let ?n = "unat (r_head r - r_tail r)"
  have pos: "0 < ?n" using assms by (simp add: unat_gt_0)
  have "unat (r_head r - r_tail r - 1) = ?n - 1"
    using assms by (intro unat_minus_one) simp
  then have n1: "unat (r_head r - (r_tail r + 1)) = ?n - 1" by (simp add: algebra_simps)
  have cons: "[0..<?n] = 0 # map Suc [0..<?n - 1]" using pos by (simp add: map_Suc_upt upt_conv_Cons)
  show ?thesis unfolding ring_contents_def cons
    by (simp add: n1 ring_slot_def o_def add.assoc)
qed

text \<open>The two operations as a client with correctly sized buffers sees them.\<close>

definition ring_enq :: "bytes \<Rightarrow> ngx_rtc_ring \<Rightarrow> ngx_rtc_ring option" where
  "ring_enq x q = (let (rc, q') = ngx_rtc_ring_push (Some q) (Some x) in if rc = 0 then q' else None)"

definition ring_deq :: "ngx_rtc_ring \<Rightarrow> (bytes \<times> ngx_rtc_ring) option" where
  "ring_deq q =
     (case ngx_rtc_ring_pop (Some q) (Some (replicate (unat (r_elem_size q)) 0)) of
        (rc, Some q', Some e) \<Rightarrow> if rc = 0 then Some (e, q') else None
      | _ \<Rightarrow> None)"

definition ring_elem :: "ngx_rtc_ring \<Rightarrow> bytes \<Rightarrow> bool" where
  "ring_elem q x \<longleftrightarrow> length x = unat (r_elem_size q)"

lemma ring_enq_eq:
  assumes "ring_wf q" "ring_elem q x" "r_buf q = Some b"
  shows "ring_enq x q =
    (if r_head q - r_tail q < r_capacity q
     then Some (q\<lparr>r_buf := Some (buf_put (unat ((r_head q AND (r_capacity q - 1)) * r_elem_size q)) x b),
                  r_head := r_head q + 1\<rparr>)
     else None)"
  using assms
  by (auto simp: ring_enq_def ngx_rtc_ring_push_def ngx_rtc_ring_full_def ring_elem_def Let_def not_less)

lemma ring_deq_eq:
  assumes "ring_wf q"
  shows "ring_deq q =
    (if r_head q = r_tail q then None else Some (ring_slot q (r_tail q), q\<lparr>r_tail := r_tail q + 1\<rparr>))"
  using assms
proof (rule ring_wfE)
  fix k b assume k: "k < 32" "r_capacity q = 2 ^ k" "unat (r_capacity q) = 2 ^ k" "r_buf q = Some b"
    "length b = 2 ^ k * unat (r_elem_size q)" "2 ^ k * unat (r_elem_size q) < 2 ^ 32"
    "0 < unat (r_elem_size q)"
  have "length (buf_get (unat ((r_tail q AND (2 ^ k - 1)) * r_elem_size q)) (unat (r_elem_size q)) b)
      = unat (r_elem_size q)"
    using k by (simp add: unat_slot_index slot_index_bound)
  then show ?thesis
    using k by (simp add: ring_deq_def ngx_rtc_ring_pop_def ngx_rtc_ring_empty_def Let_def ring_slot_def
        unat_slot_index buf_put_def)
qed

lemma ring_wf_push:
  assumes wf: "ring_wf q" and x: "ring_elem q x" and b: "r_buf q = Some b"
    and room: "r_head q - r_tail q < r_capacity q"
  shows "ring_wf (q\<lparr>r_buf := Some (buf_put (unat ((r_head q AND (r_capacity q - 1)) * r_elem_size q)) x b),
                  r_head := r_head q + 1\<rparr>)"
proof -
  from wf obtain k where k: "k < 32" "r_capacity q = 2 ^ k" "unat (r_capacity q) = 2 ^ k"
    "length b = 2 ^ k * unat (r_elem_size q)" "2 ^ k * unat (r_elem_size q) < 2 ^ 32"
    "0 < unat (r_elem_size q)" using b by (elim ring_wfE) auto
  have "r_head q + 1 - r_tail q \<le> r_capacity q"
    using inc_le [OF room] by (simp add: algebra_simps)
  then show ?thesis using wf k x unfolding ring_wf_def ring_elem_def
    by (auto simp: unat_slot_index slot_index_bound)
qed

lemma ring_wf_pop:
  assumes wf: "ring_wf q" and ne: "r_head q \<noteq> r_tail q"
  shows "ring_wf (q\<lparr>r_tail := r_tail q + 1\<rparr>)"
proof -
  have "unat (r_head q - r_tail q - 1) = unat (r_head q - r_tail q) - 1"
    using ne by (intro unat_minus_one) simp
  then have "r_head q - (r_tail q + 1) \<le> r_head q - r_tail q"
    by (simp add: word_le_nat_alt algebra_simps)
  then show ?thesis using wf unfolding ring_wf_def by auto
qed

interpretation rg: fifo ring_wf ring_contents ring_elem ring_enq ring_deq
proof unfold_locales
  fix q x q' assume wf: "ring_wf q" and x: "ring_elem q x" and push: "ring_enq x q = Some q'"
  obtain b where b: "r_buf q = Some b" using wf by (elim ring_wfE)
  from push have room: "r_head q - r_tail q < r_capacity q"
    and q': "q' = q\<lparr>r_buf := Some (buf_put (unat ((r_head q AND (r_capacity q - 1)) * r_elem_size q)) x b),
                  r_head := r_head q + 1\<rparr>"
    unfolding ring_enq_eq [OF wf x b] by (auto split: if_splits)
  show "ring_wf q'" unfolding q' by (rule ring_wf_push [OF wf x b room])
  show "ring_contents q' = ring_contents q @ [x]"
    unfolding q' using x by (intro ring_contents_push wf b room) (simp add: ring_elem_def)
  show "ring_elem q' = ring_elem q" unfolding q' by (rule ext) (simp add: ring_elem_def)
next
  fix q x q' assume wf: "ring_wf q" and pop: "ring_deq q = Some (x, q')"
  from pop have ne: "r_head q \<noteq> r_tail q" and x: "x = ring_slot q (r_tail q)"
    and q': "q' = q\<lparr>r_tail := r_tail q + 1\<rparr>"
    unfolding ring_deq_eq [OF wf] by (auto split: if_splits)
  show "ring_wf q'" unfolding q' by (rule ring_wf_pop [OF wf ne])
  show "ring_contents q = x # ring_contents q'" unfolding q' x by (rule ring_contents_pop [OF ne])
  show "ring_elem q' = ring_elem q" unfolding q' by (rule ext) (simp add: ring_elem_def)
next
  fix q assume wf: "ring_wf q"
  have "ring_contents q = [] \<longleftrightarrow> r_head q = r_tail q"
    by (metis length_0_conv right_minus_eq ring_contents_length unat_eq_zero)
  then show "ring_deq q = None \<longleftrightarrow> ring_contents q = []" by (simp add: ring_deq_eq [OF wf])
qed

section \<open>Variable-length byte ring\<close>

record ngx_rtc_vring =
  v_buf :: "bytes option"
  v_capacity :: u32
  v_head :: u32
  v_tail :: u32
  v_bytes :: u32

definition ngx_rtc_vring_write_at :: "bytes \<Rightarrow> u32 \<Rightarrow> u32 \<Rightarrow> bytes \<Rightarrow> u32 \<Rightarrow> bytes" where
  "ngx_rtc_vring_write_at buf capacity off src n =
     (let first = capacity - off;
          first = (if first > n then n else first);
          buf = buf_put (unat off) (take (unat first) src) buf
      in if first < n then buf_put 0 (take (unat (n - first)) (drop (unat first) src)) buf else buf)"

definition ngx_rtc_vring_read_at :: "bytes \<Rightarrow> u32 \<Rightarrow> u32 \<Rightarrow> u32 \<Rightarrow> bytes" where
  "ngx_rtc_vring_read_at buf capacity off n =
     (let first = capacity - off;
          first = (if first > n then n else first)
      in buf_get (unat off) (unat first) buf @
         (if first < n then buf_get 0 (unat (n - first)) buf else []))"

definition ngx_rtc_vring_init ::
  "bool \<Rightarrow> ngx_rtc_vring option \<Rightarrow> u32 \<Rightarrow> int \<times> ngx_rtc_vring option" where
  "ngx_rtc_vring_init calloc_ok r capacity =
     (case r of
        None \<Rightarrow> (- 1, None)
      | Some ring \<Rightarrow>
          if capacity = 0 then (- 1, r)
          else if \<not> calloc_ok then (- 1, Some (ring\<lparr>v_buf := None\<rparr>))
          else (0, Some \<lparr>v_buf = Some (replicate (unat capacity) 0), v_capacity = capacity,
                         v_head = 0, v_tail = 0, v_bytes = 0\<rparr>))"

definition ngx_rtc_vring_destroy :: "ngx_rtc_vring option \<Rightarrow> ngx_rtc_vring option" where
  "ngx_rtc_vring_destroy r =
     map_option (\<lambda>_. \<lparr>v_buf = None, v_capacity = 0, v_head = 0, v_tail = 0, v_bytes = 0\<rparr>) r"

definition ngx_rtc_vring_empty :: "ngx_rtc_vring option \<Rightarrow> bool" where
  "ngx_rtc_vring_empty r =
     (case r of None \<Rightarrow> True | Some ring \<Rightarrow> v_buf ring = None \<or> v_bytes ring = 0)"

definition ngx_rtc_vring_push ::
  "ngx_rtc_vring option \<Rightarrow> bytes option \<Rightarrow> u32 \<Rightarrow> int \<times> ngx_rtc_vring option" where
  "ngx_rtc_vring_push r data len =
     (case (r, data) of
        (Some ring, Some d) \<Rightarrow>
          (case v_buf ring of
             None \<Rightarrow> (- 1, r)
           | Some buf \<Rightarrow>
               if len = 0 then (- 1, r)
               else let total = 4 + len in
                 if v_bytes ring + total > v_capacity ring then (- 1, r)
                 else let buf = ngx_rtc_vring_write_at buf (v_capacity ring) (v_head ring) (u32_mem len) 4;
                          buf = ngx_rtc_vring_write_at buf (v_capacity ring)
                                  ((v_head ring + 4) mod v_capacity ring) d len
                      in (0, Some (ring\<lparr>v_buf := Some buf,
                                        v_head := (v_head ring + total) mod v_capacity ring,
                                        v_bytes := v_bytes ring + total\<rparr>)))
      | _ \<Rightarrow> (- 1, r))"

definition ngx_rtc_vring_pop ::
  "ngx_rtc_vring option \<Rightarrow> bytes option \<Rightarrow> u32 \<Rightarrow> u32 option \<Rightarrow>
   int \<times> ngx_rtc_vring option \<times> bytes option \<times> u32 option" where
  "ngx_rtc_vring_pop r out out_cap out_len =
     (case (r, out, out_len) of
        (Some ring, Some ob, Some _) \<Rightarrow>
          (case v_buf ring of
             None \<Rightarrow> (- 1, r, out, out_len)
           | Some buf \<Rightarrow>
               if v_bytes ring = 0 then (- 1, r, out, out_len)
               else let len = mem_u32 (ngx_rtc_vring_read_at buf (v_capacity ring) (v_tail ring) 4) in
                 if len > out_cap then (- 1, r, out, out_len)
                 else let ob = buf_put 0 (ngx_rtc_vring_read_at buf (v_capacity ring)
                                 ((v_tail ring + 4) mod v_capacity ring) len) ob;
                          total = 4 + len
                      in (0, Some (ring\<lparr>v_tail := (v_tail ring + total) mod v_capacity ring,
                                        v_bytes := v_bytes ring - total\<rparr>), Some ob, Some len))
      | _ \<Rightarrow> (- 1, r, out, out_len))"

subsection \<open>The arena read around its end\<close>

definition arc :: "'a list \<Rightarrow> nat \<Rightarrow> nat \<Rightarrow> 'a list" where
  "arc b off n = map (\<lambda>i. b ! ((off + i) mod length b)) [0..<n]"

lemma length_arc [simp]: "length (arc b off n) = n"
  by (simp add: arc_def)

lemma arc_0 [simp]: "arc b off 0 = []"
  by (simp add: arc_def)

lemma nth_arc: "i < n \<Longrightarrow> arc b off n ! i = b ! ((off + i) mod length b)"
  by (simp add: arc_def)

lemma arc_append: "arc b off (m + n) = arc b off m @ arc b ((off + m) mod length b) n"
proof -
  have "[0..<m + n] = [0..<m] @ map (\<lambda>i. i + m) [0..<n]"
    using upt_add_eq_append [of 0 m n] map_add_upt [of m n] by (simp add: add.commute)
  then show ?thesis by (simp add: arc_def mod_add_left_eq mod_add_right_eq o_def ac_simps)
qed

lemma take_arc: "m \<le> n \<Longrightarrow> take m (arc b off n) = arc b off m"
  by (intro nth_equalityI) (auto simp: nth_arc)

lemma drop_arc: "m \<le> n \<Longrightarrow> drop m (arc b off n) = arc b ((off + m) mod length b) (n - m)"
  by (intro nth_equalityI) (auto simp: nth_arc mod_add_left_eq add.assoc)

lemma mod_lt_twice: "(x :: nat) < 2 * c \<Longrightarrow> x mod c = (if x < c then x else x - c)"
  by (simp add: le_mod_geq)

lemma first_chunk:
  fixes capacity off n :: u32
  assumes "off < capacity"
  shows "unat (if capacity - off > n then n else capacity - off) = min (unat n) (unat capacity - unat off)"
  using assms by (auto simp: word_less_nat_alt unat_sub word_le_nat_alt min_def)

lemma read_at_arc:
  assumes "length buf = unat capacity" "off < capacity" "n \<le> capacity"
  shows "ngx_rtc_vring_read_at buf capacity off n = arc buf (unat off) (unat n)"
proof -
  let ?c = "unat capacity" and ?o = "unat off" and ?n = "unat n"
  let ?first = "if capacity - off > n then n else capacity - off"
  have f: "unat ?first = min ?n (?c - ?o)" by (rule first_chunk [OF assms(2)])
  have o: "?o < ?c" and n: "?n \<le> ?c" using assms by (simp_all add: word_less_nat_alt word_le_nat_alt)
  have rest: "unat (n - ?first) = ?n - min ?n (?c - ?o)"
    using f by (subst unat_sub) (simp_all add: word_le_nat_alt)
  have "ngx_rtc_vring_read_at buf capacity off n
      = buf_get ?o (min ?n (?c - ?o)) buf @ buf_get 0 (?n - min ?n (?c - ?o)) buf"
    using f rest unfolding ngx_rtc_vring_read_at_def Let_def
    by (auto simp: word_less_nat_alt buf_get_def)
  also have "\<dots> = arc buf ?o ?n"
    using assms(1) o n
    by (intro nth_equalityI)
       (auto simp: nth_arc nth_append nth_buf_get mod_lt_twice min_def less_diff_conv add.commute)
  finally show ?thesis .
qed

lemma nth_write_at:
  assumes "length buf = unat capacity" "off < capacity" "n \<le> capacity" "unat n \<le> length src"
    and j: "j < unat capacity"
  shows "ngx_rtc_vring_write_at buf capacity off src n ! j =
    (let d = (j + unat capacity - unat off) mod unat capacity in if d < unat n then src ! d else buf ! j)"
    and "length (ngx_rtc_vring_write_at buf capacity off src n) = length buf"
proof -
  let ?c = "unat capacity" and ?o = "unat off" and ?n = "unat n"
  let ?first = "if capacity - off > n then n else capacity - off"
  have f: "unat ?first = min ?n (?c - ?o)" by (rule first_chunk [OF assms(2)])
  have o: "?o < ?c" and n: "?n \<le> ?c" using assms by (simp_all add: word_less_nat_alt word_le_nat_alt)
  have rest: "unat (n - ?first) = ?n - min ?n (?c - ?o)"
    using f by (subst unat_sub) (simp_all add: word_le_nat_alt)
  have w: "ngx_rtc_vring_write_at buf capacity off src n
      = buf_put 0 (take (?n - min ?n (?c - ?o)) (drop (min ?n (?c - ?o)) src))
          (buf_put ?o (take (min ?n (?c - ?o)) src) buf)"
    using f rest unfolding ngx_rtc_vring_write_at_def Let_def
    by (auto simp: word_less_nat_alt buf_put_def)
  have l1: "length (buf_put ?o (take (min ?n (?c - ?o)) src) buf) = length buf"
    using assms(1,4) o by simp
  show "length (ngx_rtc_vring_write_at buf capacity off src n) = length buf"
    unfolding w using l1 assms(1,4) o n by (subst length_buf_put) simp_all
  have d: "(j + ?c - ?o) mod ?c = (if j < ?o then j + ?c - ?o else j - ?o)"
    using o j by (auto simp: mod_lt_twice)
  have p2: "buf_put 0 (take (?n - min ?n (?c - ?o)) (drop (min ?n (?c - ?o)) src))
          (buf_put ?o (take (min ?n (?c - ?o)) src) buf) ! j
      = (if j < ?n - min ?n (?c - ?o) then src ! (min ?n (?c - ?o) + j)
         else buf_put ?o (take (min ?n (?c - ?o)) src) buf ! j)"
    using l1 assms(1,4) o n j by (subst nth_buf_put) (auto simp: min_def)
  have p1: "buf_put ?o (take (min ?n (?c - ?o)) src) buf ! j
      = (if ?o \<le> j \<and> j < ?o + min ?n (?c - ?o) then src ! (j - ?o) else buf ! j)"
    using assms(1,4) o n j by (subst nth_buf_put) (auto simp: min_def)
  show "ngx_rtc_vring_write_at buf capacity off src n ! j =
    (let d = (j + ?c - ?o) mod ?c in if d < ?n then src ! d else buf ! j)"
    unfolding w p1 p2 d Let_def
  proof (cases "?n \<le> ?c - ?o")
    case True
    then show "(if j < ?n - min ?n (?c - ?o) then src ! (min ?n (?c - ?o) + j)
        else if ?o \<le> j \<and> j < ?o + min ?n (?c - ?o) then src ! (j - ?o) else buf ! j) =
      (if (if j < ?o then j + ?c - ?o else j - ?o) < ?n
        then src ! (if j < ?o then j + ?c - ?o else j - ?o) else buf ! j)"
      using o j by auto
  next
    case False
    moreover have "?c - ?o + j = j + ?c - ?o" using o by simp
    ultimately show "(if j < ?n - min ?n (?c - ?o) then src ! (min ?n (?c - ?o) + j)
        else if ?o \<le> j \<and> j < ?o + min ?n (?c - ?o) then src ! (j - ?o) else buf ! j) =
      (if (if j < ?o then j + ?c - ?o else j - ?o) < ?n
        then src ! (if j < ?o then j + ?c - ?o else j - ?o) else buf ! j)"
      using o j n by (auto simp: min_def less_diff_conv)
  qed
qed

text \<open>Writing at the end of a live arc extends it.\<close>

lemma arc_write_at:
  assumes "length buf = unat capacity" "tail < unat capacity" "unat off = (tail + m) mod unat capacity"
    and "off < capacity" "m + unat n \<le> unat capacity" "length src = unat n"
  shows "arc (ngx_rtc_vring_write_at buf capacity off src n) tail (m + unat n) = arc buf tail m @ src"
proof (rule nth_equalityI)
  have n: "n \<le> capacity" using assms(5) by (simp add: word_le_nat_alt)
  note w = nth_write_at [OF assms(1,4) n, of src]
  fix i assume i: "i < length (arc (ngx_rtc_vring_write_at buf capacity off src n) tail (m + unat n))"
  let ?c = "unat capacity"
  have c0: "0 < ?c" using assms(2) by simp
  have j: "(tail + i) mod ?c < ?c" using c0 by simp
  have idx: "arc (ngx_rtc_vring_write_at buf capacity off src n) tail (m + unat n) ! i
      = ngx_rtc_vring_write_at buf capacity off src n ! ((tail + i) mod ?c)"
    using i w(2) [OF _ j] assms(1,6) by (simp add: nth_arc)
  have d: "((tail + i) mod ?c + ?c - unat off) mod ?c = (if i < m then i + ?c - m else i - m)"
    using i assms(2,3,5) by (auto simp: mod_lt_twice)
  show "arc (ngx_rtc_vring_write_at buf capacity off src n) tail (m + unat n) ! i = (arc buf tail m @ src) ! i"
    unfolding idx w(1) [OF eq_refl [OF assms(6) [symmetric]] j] Let_def d
    using i assms(1,2,5,6) by (auto simp: nth_append nth_arc)
qed (simp add: assms(6))

subsection \<open>The arena as a queue of entries\<close>

definition vring_entry :: "bytes \<Rightarrow> bytes" where
  "vring_entry e = u32_mem (word_of_nat (length e)) @ e"

function vring_entries :: "bytes \<Rightarrow> bytes list" where
  "vring_entries bs =
     (if bs = [] then []
      else buf_get 4 (unat (mem_u32 bs)) bs # vring_entries (drop (4 + unat (mem_u32 bs)) bs))"
  by pat_completeness auto
termination
  by (relation "measure length") auto

declare vring_entries.simps [simp del]

lemma length_vring_entry [simp]: "length (vring_entry e) = 4 + length e"
  by (simp add: vring_entry_def)

lemma vring_entry_ne [simp]: "vring_entry e \<noteq> []"
  by (metis length_vring_entry list.size(3) not_add_less1 zero_less_numeral)

lemma vring_entries_Nil [simp]: "vring_entries [] = []"
  by (simp add: vring_entries.simps)

lemma vring_entries_Cons:
  assumes "length e < 2 ^ 32"
  shows "vring_entries (vring_entry e @ bs) = e # vring_entries bs"
  using assms
  by (subst vring_entries.simps) (simp add: vring_entry_def buf_get_def unat_of_nat)

lemma vring_entries_concat:
  "(\<And>e. e \<in> set es \<Longrightarrow> length e < 2 ^ 32) \<Longrightarrow> vring_entries (concat (map vring_entry es)) = es"
  by (induction es) (simp_all add: vring_entries_Cons)

definition vring_live :: "ngx_rtc_vring \<Rightarrow> bytes" where
  "vring_live r = arc (the (v_buf r)) (unat (v_tail r)) (unat (v_bytes r))"

definition vring_contents :: "ngx_rtc_vring \<Rightarrow> bytes list" where
  "vring_contents r = vring_entries (vring_live r)"

definition vring_wf :: "ngx_rtc_vring \<Rightarrow> bool" where
  "vring_wf r \<longleftrightarrow>
     (\<exists>b. v_buf r = Some b \<and> length b = unat (v_capacity r)) \<and>
     unat (v_capacity r) \<le> 2 ^ 31 \<and> v_tail r < v_capacity r \<and> v_bytes r \<le> v_capacity r \<and>
     unat (v_head r) = (unat (v_tail r) + unat (v_bytes r)) mod unat (v_capacity r) \<and>
     vring_live r = concat (map vring_entry (vring_contents r)) \<and>
     (\<forall>e\<in>set (vring_contents r). e \<noteq> [] \<and> length e < 2 ^ 32)"

text \<open>
  Entries a client may offer: not empty, and short enough that the 32-bit sum
  \<open>bytes + 4 + len\<close> of the capacity test cannot wrap.
\<close>

definition vring_elem :: "ngx_rtc_vring \<Rightarrow> bytes \<Rightarrow> bool" where
  "vring_elem q x \<longleftrightarrow> x \<noteq> [] \<and> length x + 4 + unat (v_capacity q) < 2 ^ 32"

definition vring_enq :: "bytes \<Rightarrow> ngx_rtc_vring \<Rightarrow> ngx_rtc_vring option" where
  "vring_enq x q =
     (let (rc, q') = ngx_rtc_vring_push (Some q) (Some x) (word_of_nat (length x)) in if rc = 0 then q' else None)"

definition vring_deq :: "ngx_rtc_vring \<Rightarrow> (bytes \<times> ngx_rtc_vring) option" where
  "vring_deq q =
     (case ngx_rtc_vring_pop (Some q) (Some (replicate (unat (v_capacity q)) 0)) (v_capacity q) (Some 0) of
        (rc, Some q', Some e, Some n) \<Rightarrow> if rc = 0 then Some (take (unat n) e, q') else None
      | _ \<Rightarrow> None)"

lemma vring_push_step:
  assumes wf: "vring_wf q" and x: "vring_elem q x" and push: "vring_enq x q = Some q'"
  shows "vring_wf q'" "vring_contents q' = vring_contents q @ [x]" "v_capacity q' = v_capacity q"
proof -
  let ?c = "unat (v_capacity q)" and ?t = "unat (v_tail q)" and ?m = "unat (v_bytes q)"
  let ?len = "word_of_nat (length x) :: u32"
  from wf obtain b where b: "v_buf q = Some b" "length b = ?c" and c: "?c \<le> 2 ^ 31" "?t < ?c" "?m \<le> ?c"
    and h: "unat (v_head q) = (?t + ?m) mod ?c"
    unfolding vring_wf_def by (auto simp: word_less_nat_alt word_le_nat_alt)
  have len: "unat ?len = length x" using x by (simp add: vring_elem_def unat_of_nat)
  have tot: "unat (4 + ?len) = 4 + length x"
    using x len by (subst unat_plus_if') (auto simp: vring_elem_def)
  have sum: "unat (v_bytes q + (4 + ?len)) = ?m + (4 + length x)"
    using x tot c(3) by (subst unat_plus_if') (auto simp: vring_elem_def)
  have len0: "?len \<noteq> 0" using x len by (metis length_0_conv unat_0 vring_elem_def)
  let ?b1 = "ngx_rtc_vring_write_at b (v_capacity q) (v_head q) (u32_mem ?len) 4"
  let ?h1 = "(v_head q + 4) mod v_capacity q"
  let ?b2 = "ngx_rtc_vring_write_at ?b1 (v_capacity q) ?h1 x ?len"
  have fit: "?m + (4 + length x) \<le> ?c"
    and q': "q' = q\<lparr>v_buf := Some ?b2, v_head := (v_head q + (4 + ?len)) mod v_capacity q,
       v_bytes := v_bytes q + (4 + ?len)\<rparr>"
    using push b len0 sum
    by (auto simp: vring_enq_def ngx_rtc_vring_push_def Let_def word_less_nat_alt not_less split: if_splits)
  have hc: "unat (v_head q) < ?c" using h c by simp
  have uh: "unat ((v_head q + d) mod v_capacity q) = (?t + ?m + unat d) mod ?c" if "unat d \<le> ?c" for d
  proof -
    have "unat (v_head q + d) = unat (v_head q) + unat d"
      using hc c(1) that by (subst unat_plus_if') auto
    then show ?thesis by (simp add: unat_mod_distrib h mod_add_left_eq)
  qed
  have h1: "unat ?h1 = (?t + (?m + 4)) mod ?c" using uh [of 4] fit by (simp add: add.assoc)
  have h1c: "?h1 < v_capacity q" using h1 c(2) by (simp add: word_less_nat_alt)
  have b1: "length ?b1 = ?c"
    using nth_write_at(2) [OF b(2), of "v_head q" 4 "u32_mem ?len" 0] hc fit b(2)
    by (simp add: word_less_nat_alt word_le_nat_alt)
  have b2: "length ?b2 = ?c"
    using nth_write_at(2) [OF b1 h1c, of ?len x 0] fit len b1 c(2) by (simp add: word_le_nat_alt)
  have a1: "arc ?b1 ?t (?m + 4) = arc b ?t ?m @ u32_mem ?len"
    using arc_write_at [OF b(2) c(2) h, of 4 "u32_mem ?len"] hc fit by (simp add: word_less_nat_alt)
  have a2: "arc ?b2 ?t (?m + 4 + length x) = arc ?b1 ?t (?m + 4) @ x"
    using arc_write_at [OF b1 c(2) h1 h1c, of ?len x] fit len by simp
  have bytes': "unat (v_bytes q') = ?m + 4 + length x" using sum by (simp add: q')
  have live: "vring_live q' = vring_live q @ vring_entry x"
    using a1 a2 bytes' b by (simp add: vring_live_def q' vring_entry_def)
  have all: "\<forall>e\<in>set (vring_contents q @ [x]). e \<noteq> [] \<and> length e < 2 ^ 32"
    using wf x unfolding vring_wf_def vring_elem_def by auto
  have live': "vring_live q' = concat (map vring_entry (vring_contents q @ [x]))"
    using wf unfolding live vring_wf_def by simp
  then show cont: "vring_contents q' = vring_contents q @ [x]"
    unfolding vring_contents_def [of q'] using all by (metis vring_entries_concat)
  show "v_capacity q' = v_capacity q" by (simp add: q')
  have "unat (v_head q') = (?t + ?m + (4 + length x)) mod ?c"
    using uh [of "4 + ?len"] fit tot by (simp add: q')
  then show "vring_wf q'"
    unfolding vring_wf_def cont using live' all b2 c bytes' fit
    by (simp add: q' word_less_nat_alt word_le_nat_alt add.assoc)
qed

lemma vring_pop_any:
  assumes wf: "vring_wf q" and ne: "vring_contents q = e # es"
  shows "\<exists>q'. vring_deq q = Some (e, q') \<and> vring_wf q' \<and> vring_contents q' = es \<and> v_capacity q' = v_capacity q
    \<and> (\<forall>ob cap l. length e \<le> unat cap \<longrightarrow>
         ngx_rtc_vring_pop (Some q) (Some ob) cap (Some l) = (0, Some q', Some (buf_put 0 e ob), Some (word_of_nat (length e))))"
proof -
  let ?c = "unat (v_capacity q)" and ?t = "unat (v_tail q)" and ?m = "unat (v_bytes q)"
  let ?len = "word_of_nat (length e) :: u32"
  from wf obtain b where b: "v_buf q = Some b" "length b = ?c" and c: "?c \<le> 2 ^ 31" "?t < ?c" "?m \<le> ?c"
    and h: "unat (v_head q) = (?t + ?m) mod ?c"
    unfolding vring_wf_def by (auto simp: word_less_nat_alt word_le_nat_alt)
  have live: "arc b ?t ?m = vring_entry e @ concat (map vring_entry es)"
    using wf b unfolding vring_wf_def ne vring_live_def by simp
  have m: "?m = 4 + length e + length (concat (map vring_entry es))"
    using arg_cong [OF live, of length] by simp
  have es: "\<forall>e\<in>set (e # es). e \<noteq> [] \<and> length e < 2 ^ 32" using wf ne unfolding vring_wf_def by simp
  have len: "unat ?len = length e" using es by (simp add: unat_of_nat)
  have tot: "unat (4 + ?len) = 4 + length e" using len m c by (subst unat_plus_if') auto
  have ut: "unat ((v_tail q + d) mod v_capacity q) = (?t + unat d) mod ?c" if "unat d \<le> ?c" for d
    using c that by (simp add: unat_mod_distrib unat_plus_if')
  have r4: "ngx_rtc_vring_read_at b (v_capacity q) (v_tail q) 4 = u32_mem ?len"
  proof -
    have "ngx_rtc_vring_read_at b (v_capacity q) (v_tail q) 4 = take 4 (arc b ?t ?m)"
      using b c m by (subst read_at_arc) (simp_all add: word_less_nat_alt word_le_nat_alt take_arc)
    then show ?thesis unfolding live by (simp add: vring_entry_def)
  qed
  have t4: "unat ((v_tail q + 4) mod v_capacity q) = (?t + 4) mod ?c" using ut [of 4] m c by simp
  have rd: "ngx_rtc_vring_read_at b (v_capacity q) ((v_tail q + 4) mod v_capacity q) ?len = e"
  proof -
    have "ngx_rtc_vring_read_at b (v_capacity q) ((v_tail q + 4) mod v_capacity q) ?len
        = take (length e) (drop 4 (arc b ?t ?m))"
      using b c m t4 len
      by (subst read_at_arc) (simp_all add: word_less_nat_alt word_le_nat_alt take_arc drop_arc)
    then show ?thesis unfolding live by (simp add: vring_entry_def)
  qed
  let ?q = "q\<lparr>v_tail := (v_tail q + (4 + ?len)) mod v_capacity q, v_bytes := v_bytes q - (4 + ?len)\<rparr>"
  have "v_bytes q \<noteq> 0" using m by auto
  moreover have "\<not> ?len > v_capacity q" using len m c by (simp add: word_less_nat_alt)
  ultimately have deq: "vring_deq q = Some (e, ?q)"
    using b r4 rd len m c by (simp add: vring_deq_def ngx_rtc_vring_pop_def Let_def buf_put_def)
  have any: "ngx_rtc_vring_pop (Some q) (Some ob) cap (Some l) = (0, Some ?q, Some (buf_put 0 e ob), Some ?len)" if "length e \<le> unat cap" for ob cap l
  proof -
    have "\<not> ?len > cap" using that len by (simp add: word_less_nat_alt)
    then show ?thesis using b r4 rd \<open>v_bytes q \<noteq> 0\<close> by (simp add: ngx_rtc_vring_pop_def Let_def)
  qed
  have mb: "unat (v_bytes q - (4 + ?len)) = ?m - (4 + length e)"
    using tot m by (subst unat_sub) (simp_all add: word_le_nat_alt)
  have t': "unat ((v_tail q + (4 + ?len)) mod v_capacity q) = (?t + (4 + length e)) mod ?c"
    using ut [of "4 + ?len"] tot m c by simp
  have "vring_live ?q = drop (4 + length e) (arc b ?t ?m)"
    using b m mb t' by (simp add: vring_live_def drop_arc)
  then have live': "vring_live ?q = concat (map vring_entry es)" unfolding live by simp
  then have cont: "vring_contents ?q = es"
    unfolding vring_contents_def using es vring_entries_concat [of es] by simp
  have "vring_wf ?q"
    unfolding vring_wf_def cont using live' es b c mb t' h m
    by (simp add: word_less_nat_alt word_le_nat_alt mod_add_left_eq add.assoc)
  with deq cont any show ?thesis by auto
qed

lemma vring_pop_step:
  assumes "vring_wf q" "vring_contents q = e # es"
  shows "\<exists>q'. vring_deq q = Some (e, q') \<and> vring_wf q' \<and> vring_contents q' = es \<and> v_capacity q' = v_capacity q"
  using vring_pop_any [OF assms] by blast

lemma vring_deq_Nil: "vring_wf q \<Longrightarrow> vring_contents q = [] \<Longrightarrow> vring_deq q = None"
proof -
  assume wf: "vring_wf q" and "vring_contents q = []"
  then have "vring_live q = []" unfolding vring_wf_def by simp
  then have "v_bytes q = 0" by (metis length_arc list.size(3) unat_eq_zero vring_live_def)
  then show ?thesis using wf by (auto simp: vring_wf_def vring_deq_def ngx_rtc_vring_pop_def)
qed

interpretation vrg: fifo vring_wf vring_contents vring_elem vring_enq vring_deq
proof unfold_locales
  fix q x q' assume wf: "vring_wf q" and x: "vring_elem q x" and push: "vring_enq x q = Some q'"
  show "vring_wf q'" "vring_contents q' = vring_contents q @ [x]"
    by (rule vring_push_step [OF wf x push])+
  show "vring_elem q' = vring_elem q"
    using vring_push_step(3) [OF wf x push] by (intro ext) (simp add: vring_elem_def)
next
  fix q x q' assume wf: "vring_wf q" and pop: "vring_deq q = Some (x, q')"
  then obtain e es where ne: "vring_contents q = e # es"
    using vring_deq_Nil by (cases "vring_contents q") auto
  from vring_pop_step [OF wf ne] pop
  show "vring_wf q'" "vring_contents q = x # vring_contents q'" "vring_elem q' = vring_elem q"
    using ne by (auto simp: vring_elem_def)
next
  fix q assume wf: "vring_wf q"
  show "vring_deq q = None \<longleftrightarrow> vring_contents q = []"
    using vring_deq_Nil [OF wf] vring_pop_step [OF wf] by (cases "vring_contents q") auto
qed

section \<open>Properties\<close>

lemma ring_init_wf:
  assumes "0 < unat cap" "unat cap \<le> 2 ^ 31" "es \<noteq> 0"
    and "unat (ngx_rtc_ring_next_pow2 cap) * unat es < 2 ^ 32"
    and "ngx_rtc_ring_init True (Some r0) cap es = (0, Some q)"
  shows "ring_wf q \<and> ring_contents q = [] \<and> r_elem_size q = es \<and> r_capacity q = ngx_rtc_ring_next_pow2 cap"
proof -
  obtain n where "n \<le> 31" "ngx_rtc_ring_next_pow2 cap = 2 ^ n"
    using pow2_band [OF assms(1,2)] next_pow2_exact assms(1) by blast
  then have "\<exists>k<32. ngx_rtc_ring_next_pow2 cap = 2 ^ k" by (intro exI [of _ n]) simp
  moreover have "cap \<noteq> 0" using assms(1) by auto
  ultimately show ?thesis using assms(3-5)
    by (auto simp: ngx_rtc_ring_init_def Let_def ring_wf_def ring_contents_def word_gt_0)
qed

lemma vring_init_wf:
  assumes "0 < unat cap" "unat cap \<le> 2 ^ 31" "ngx_rtc_vring_init True (Some r0) cap = (0, Some q)"
  shows "vring_wf q \<and> vring_contents q = [] \<and> v_capacity q = cap"
proof -
  have "cap \<noteq> 0" using assms(1) by auto
  then show ?thesis using assms
    by (auto simp: ngx_rtc_vring_init_def vring_wf_def vring_contents_def vring_live_def word_less_nat_alt)
qed

text \<open>
  The capacity rounding of \<^verbatim>\<open>ngx_rtc_ring_next_pow2\<close> returns, for every request from 1 to
  \<open>2 ^ 31\<close>, the least power of two that is not below the request.
\<close>

theorem next_pow2_least:
  assumes "0 < unat v" "unat v \<le> 2 ^ 31"
  shows "\<exists>n\<le>31. ngx_rtc_ring_next_pow2 v = 2 ^ n \<and> unat v \<le> 2 ^ n \<and> (\<forall>m. unat v \<le> 2 ^ m \<longrightarrow> n \<le> m)"
proof -
  obtain n where n: "n \<le> 31" "unat v \<le> 2 ^ n" "2 ^ n < 2 * unat v" using pow2_band [OF assms] by blast
  have "n \<le> m" if "unat v \<le> 2 ^ m" for m
  proof (rule ccontr)
    assume "\<not> n \<le> m"
    then have "Suc m \<le> n" by simp
    then have "(2 :: nat) ^ Suc m \<le> 2 ^ n" by (rule power_increasing) simp
    with that n(3) show False by simp
  qed
  then show ?thesis using next_pow2_exact [OF assms(1) n(2,3,1)] n(1,2) by blast
qed

theorem next_pow2_least_witness:
  "\<exists>n\<le>31. ngx_rtc_ring_next_pow2 1000 = 2 ^ n \<and> (1000 :: nat) \<le> 2 ^ n \<and> (\<forall>m. 1000 \<le> (2 :: nat) ^ m \<longrightarrow> n \<le> m)"
  using next_pow2_least [of 1000] by simp

text \<open>
  C31: on a ring made by \<^verbatim>\<open>ngx_rtc_ring_init\<close>, every interleaving of pushes and pops delivers
  exactly the accepted elements, in order: what was accepted is what was delivered followed by
  what is still queued, whatever the head and tail counters wrapped to.
\<close>

theorem ring_fifo:
  assumes "0 < unat cap" "unat cap \<le> 2 ^ 31" "es \<noteq> 0"
    and "unat (ngx_rtc_ring_next_pow2 cap) * unat es < 2 ^ 32"
    and "ngx_rtc_ring_init True (Some r0) cap es = (0, Some q)"
    and "\<forall>x. Some x \<in> set ops \<longrightarrow> length x = unat es"
    and "fifo_run ring_enq ring_deq ops q = (ins, outs, q')"
  shows "ins = outs @ ring_contents q' \<and> ring_wf q'"
  using rg.run_fifo [of q ops ins outs q'] ring_init_wf [OF assms(1-5)] assms(6,7)
  by (simp add: ring_elem_def)

definition ring_demo :: ngx_rtc_ring where
  "ring_demo = \<lparr>r_buf = Some [0, 0], r_capacity = 2, r_elem_size = 1, r_head = 0, r_tail = 0\<rparr>"

theorem ring_fifo_witness:
  "\<exists>q'. fifo_run ring_enq ring_deq [Some [7], Some [9], None, Some [5], Some [6], None] ring_demo
     = ([[7], [9], [5]], [[7], [9]], q') \<and> [[7], [9], [5]] = [[7], [9]] @ ring_contents q'"
proof -
  have init: "ngx_rtc_ring_init True (Some ring_demo) 2 1 = (0, Some ring_demo)" by code_simp
  obtain q' where run: "fifo_run ring_enq ring_deq [Some [7], Some [9], None, Some [5], Some [6], None] ring_demo
     = ([[7], [9], [5]], [[7], [9]], q')"
    by (rule that) code_simp
  have "ngx_rtc_ring_next_pow2 2 = 2" by code_simp
  then have "unat (ngx_rtc_ring_next_pow2 2) * unat (1 :: u32) < 2 ^ 32" by simp
  with ring_fifo [OF _ _ _ _ init _ run] run show ?thesis by (intro exI [of _ q']) simp
qed

text \<open>
  A push on a well-formed ring succeeds exactly when fewer than \<^verbatim>\<open>capacity\<close> elements are
  queued, then appends the element, and otherwise returns -1 and leaves the ring as it was; a
  pop on an empty ring returns -1 and changes nothing.
\<close>

theorem ring_push_outcome:
  assumes "ring_wf q" "length e = unat (r_elem_size q)"
  shows "(if length (ring_contents q) < unat (r_capacity q)
          then \<exists>q'. ngx_rtc_ring_push (Some q) (Some e) = (0, Some q') \<and> ring_wf q' \<and>
                 ring_contents q' = ring_contents q @ [e]
          else ngx_rtc_ring_push (Some q) (Some e) = (- 1, Some q)) \<and>
         (ring_contents q = [] \<longrightarrow> ngx_rtc_ring_pop (Some q) out = (- 1, Some q, out))"
proof -
  obtain b where b: "r_buf q = Some b" using assms(1) by (elim ring_wfE)
  have elem: "ring_elem q e" using assms(2) by (simp add: ring_elem_def)
  have n: "length (ring_contents q) < unat (r_capacity q) \<longleftrightarrow> r_head q - r_tail q < r_capacity q"
    by (simp add: ring_contents_length word_less_nat_alt)
  have empty: "r_head q = r_tail q" if "ring_contents q = []"
    using that by (metis length_0_conv right_minus_eq ring_contents_length unat_eq_zero)
  show ?thesis
    using assms b n ring_wf_push [OF assms(1) elem b] ring_contents_push [OF assms b] empty
    by (auto simp: ngx_rtc_ring_push_def ngx_rtc_ring_full_def ngx_rtc_ring_pop_def ngx_rtc_ring_empty_def
        Let_def not_less split: option.splits)
qed

theorem ring_push_outcome_witness:
  "\<exists>q'. ngx_rtc_ring_push (Some ring_demo) (Some [7]) = (0, Some q') \<and> ring_wf q' \<and>
     ring_contents q' = ring_contents ring_demo @ [[7]]"
proof -
  have wf: "ring_wf ring_demo"
    unfolding ring_wf_def by (auto simp: ring_demo_def intro: exI [of _ 1])
  have len: "length [7 :: u8] = unat (r_elem_size ring_demo)" by (simp add: ring_demo_def)
  have room: "length (ring_contents ring_demo) < unat (r_capacity ring_demo)"
    by (simp add: ring_contents_def ring_demo_def)
  show ?thesis using ring_push_outcome [OF wf len] room by simp
qed

text \<open>
  C17: on an arena made by \<^verbatim>\<open>ngx_rtc_vring_init\<close>, every interleaving of pushes and pops of
  variable-length entries delivers exactly the accepted entries, byte for byte and in order,
  also where a length prefix or a payload wraps around the end of the arena.
\<close>

theorem vring_fifo:
  assumes "0 < unat cap" "unat cap \<le> 2 ^ 31"
    and "ngx_rtc_vring_init True (Some r0) cap = (0, Some q)"
    and "\<forall>x. Some x \<in> set ops \<longrightarrow> x \<noteq> [] \<and> length x + 4 + unat cap < 2 ^ 32"
    and "fifo_run vring_enq vring_deq ops q = (ins, outs, q')"
  shows "ins = outs @ vring_contents q' \<and> vring_wf q'"
  using vrg.run_fifo [of q ops ins outs q'] vring_init_wf [OF assms(1-3)] assms(4,5)
  by (simp add: vring_elem_def)

definition vring_demo :: ngx_rtc_vring where
  "vring_demo = \<lparr>v_buf = Some (replicate 13 0), v_capacity = 13, v_head = 0, v_tail = 0, v_bytes = 0\<rparr>"

theorem vring_fifo_witness:
  "\<exists>q'. fifo_run vring_enq vring_deq [Some [1, 2, 3], Some [4], None, Some [8, 9], Some [5, 6, 7]] vring_demo
     = ([[1, 2, 3], [4], [8, 9]], [[1, 2, 3]], q') \<and>
     [[1, 2, 3], [4], [8, 9]] = [[1, 2, 3]] @ vring_contents q'"
proof -
  have init: "ngx_rtc_vring_init True (Some vring_demo) 13 = (0, Some vring_demo)" by code_simp
  obtain q' where run: "fifo_run vring_enq vring_deq
      [Some [1, 2, 3], Some [4], None, Some [8, 9], Some [5, 6, 7]] vring_demo
     = ([[1, 2, 3], [4], [8, 9]], [[1, 2, 3]], q')"
    by (rule that) code_simp
  show ?thesis using vring_fifo [OF _ _ init _ run] run by (intro exI [of _ q']) simp
qed

end
