(* ===== verification/Jitter.thy ===== *)
theory Jitter
  imports Prelude
begin

text \<open>
  The WHIP uplink reorder buffer of \<^verbatim>\<open>src/ngx_rtc_jitter.c\<close>: 128 slots indexed by the low
  bits of the 16-bit RTP sequence number, a next expected sequence number and a gap deadline.
  The fixed slot array is a function on indices, only ever used below 128. The emit callback
  is a function on the caller's opaque state, which the operations thread through. The scan of
  \<^verbatim>\<open>ngx_rtc_jitter_skip_gap\<close> has no bound of its own, so it is a partial function with
  \<open>None\<close> for a scan that never ends; that it always ends is proved.
\<close>

section \<open>State\<close>

record ngx_rtc_jitter_slot =
  js_data :: bytes
  js_len :: u16
  js_is_gop_start :: u8
  js_valid :: bool

record ngx_rtc_jitter =
  j_slots :: "nat \<Rightarrow> ngx_rtc_jitter_slot"
  j_next_seq :: u16
  j_pending :: u16
  j_initialized :: bool
  j_gap_ts :: u32
  j_gap_timeout_ms :: u32
  j_n_cached :: u32
  j_n_skipped :: u32
  j_n_stale :: u32
  j_n_reanchor :: u32

text \<open>\<open>opaque\<close>, packet octets, \<open>is_gop_start\<close> to the callback's code and the new \<open>opaque\<close>.\<close>

type_synonym 'o jitter_emit_fn = "'o \<Rightarrow> bytes \<Rightarrow> u8 \<Rightarrow> int \<times> 'o"

abbreviation NGX_RTC_MAX_RTP_PKT :: u32 where "NGX_RTC_MAX_RTP_PKT \<equiv> 1214"
abbreviation NGX_RTC_JITTER_TIMEOUT_MS :: u32 where "NGX_RTC_JITTER_TIMEOUT_MS \<equiv> 50"

section \<open>Operations\<close>

definition ngx_rtc_jitter_seq_gt :: "u16 \<Rightarrow> u16 \<Rightarrow> bool" where
  "ngx_rtc_jitter_seq_gt a b \<longleftrightarrow> sint (a - b) > 0"

text \<open>Slot index \<^verbatim>\<open>seq & (NGX_RTC_JITTER_CAP - 1u)\<close> and the octets a slot holds.\<close>

definition jidx :: "u16 \<Rightarrow> nat" where
  "jidx s = unat (s AND (128 - 1))"

definition slot_pkt :: "ngx_rtc_jitter_slot \<Rightarrow> bytes" where
  "slot_pkt slot = take (unat (js_len slot)) (js_data slot)"

definition valid_set :: "ngx_rtc_jitter \<Rightarrow> nat set" where
  "valid_set j = {i. i < 128 \<and> js_valid (j_slots j i)}"

lemma finite_valid_set [simp]: "finite (valid_set j)"
  by (simp add: valid_set_def)

lemma jidx_less [simp]: "jidx s < 128"
proof -
  have "s AND (128 - 1) = s AND mask 7" by (simp add: mask_eq_exp_minus_1)
  then show ?thesis by (simp add: jidx_def unat_and_mask)
qed

text \<open>One turn of the drain loop: consume the slot of \<open>next_seq\<close>.\<close>

definition jitter_consume :: "ngx_rtc_jitter \<Rightarrow> ngx_rtc_jitter" where
  "jitter_consume j =
     (let i = jidx (j_next_seq j) in
      j\<lparr>j_slots := (j_slots j)(i := (j_slots j i)\<lparr>js_valid := False\<rparr>),
        j_pending := (if j_pending j > 0 then j_pending j - 1 else j_pending j),
        j_next_seq := j_next_seq j + 1\<rparr>)"

lemma valid_set_consume: "valid_set (jitter_consume j) = valid_set j - {jidx (j_next_seq j)}"
  by (auto simp: valid_set_def jitter_consume_def Let_def)

function jitter_drain_loop :: "'o jitter_emit_fn \<Rightarrow> ngx_rtc_jitter \<Rightarrow> 'o \<Rightarrow> ngx_rtc_jitter \<times> 'o" where
  "jitter_drain_loop cb j opaque =
     (let slot = j_slots j (jidx (j_next_seq j)) in
      if \<not> js_valid slot then (j, opaque)
      else let (_, opaque') = cb opaque (slot_pkt slot) (js_is_gop_start slot)
           in jitter_drain_loop cb (jitter_consume j) opaque')"
  by pat_completeness auto
termination
proof (relation "measure (\<lambda>(cb, j, opaque). card (valid_set j))")
  fix cb :: "'o jitter_emit_fn" and j :: ngx_rtc_jitter and opaque x slot rc opaque'
  assume "slot = j_slots j (jidx (j_next_seq j))" "\<not> \<not> js_valid slot"
  then have "jidx (j_next_seq j) \<in> valid_set j" by (simp add: valid_set_def)
  then have "card (valid_set (jitter_consume j)) < card (valid_set j)"
    unfolding valid_set_consume by (intro card_Diff1_less finite_valid_set)
  then show "((cb, jitter_consume j, opaque'), (cb, j, opaque))
      \<in> measure (\<lambda>(cb, j, opaque). card (valid_set j))"
    by simp
qed simp

declare jitter_drain_loop.simps [simp del]

definition ngx_rtc_jitter_drain :: "ngx_rtc_jitter \<Rightarrow> 'o jitter_emit_fn \<Rightarrow> 'o \<Rightarrow> ngx_rtc_jitter \<times> 'o" where
  "ngx_rtc_jitter_drain j cb opaque =
     (let (j, opaque) = jitter_drain_loop cb j opaque
      in (if j_pending j = 0 then j\<lparr>j_gap_ts := 0\<rparr> else j, opaque))"

partial_function (option) jitter_skip_loop :: "ngx_rtc_jitter \<Rightarrow> ngx_rtc_jitter option" where
  "jitter_skip_loop j =
     (if js_valid (j_slots j (jidx (j_next_seq j))) then Some j
      else jitter_skip_loop (j\<lparr>j_next_seq := j_next_seq j + 1, j_n_skipped := j_n_skipped j + 1\<rparr>))"

definition ngx_rtc_jitter_skip_gap ::
  "ngx_rtc_jitter \<Rightarrow> 'o jitter_emit_fn \<Rightarrow> 'o \<Rightarrow> (ngx_rtc_jitter \<times> 'o) option" where
  "ngx_rtc_jitter_skip_gap j cb opaque =
     (case jitter_skip_loop j of
        None \<Rightarrow> None
      | Some j \<Rightarrow> Some (ngx_rtc_jitter_drain j cb opaque))"

definition jitter_zero :: ngx_rtc_jitter where
  "jitter_zero = \<lparr>j_slots = (\<lambda>_. \<lparr>js_data = replicate 1214 0, js_len = 0, js_is_gop_start = 0, js_valid = False\<rparr>),
     j_next_seq = 0, j_pending = 0, j_initialized = False, j_gap_ts = 0, j_gap_timeout_ms = 0,
     j_n_cached = 0, j_n_skipped = 0, j_n_stale = 0, j_n_reanchor = 0\<rparr>"

definition ngx_rtc_jitter_reset :: "ngx_rtc_jitter \<Rightarrow> ngx_rtc_jitter" where
  "ngx_rtc_jitter_reset j = jitter_zero\<lparr>j_gap_timeout_ms := j_gap_timeout_ms j\<rparr>"

definition jitter_timeout :: "ngx_rtc_jitter \<Rightarrow> u32" where
  "jitter_timeout j = (if j_gap_timeout_ms j \<noteq> 0 then j_gap_timeout_ms j else NGX_RTC_JITTER_TIMEOUT_MS)"

text \<open>Caching a packet that is ahead of its turn.\<close>

definition jitter_cache :: "ngx_rtc_jitter \<Rightarrow> bytes \<Rightarrow> u32 \<Rightarrow> u16 \<Rightarrow> u8 \<Rightarrow> u32 \<Rightarrow> ngx_rtc_jitter" where
  "jitter_cache j rtp len seq is_gop_start now =
     (let slot = j_slots j (jidx seq);
          slot' = \<lparr>js_data = buf_put 0 (take (unat len) rtp) (js_data slot), js_len = ucast len,
                   js_is_gop_start = (if is_gop_start \<noteq> 0 then 1 else 0), js_valid = True\<rparr>
      in j\<lparr>j_pending := (if js_valid slot then j_pending j else j_pending j + 1),
           j_slots := (j_slots j)(jidx seq := slot'),
           j_n_cached := j_n_cached j + 1,
           j_gap_ts := (if j_gap_ts j = 0 then now else j_gap_ts j)\<rparr>)"

definition ngx_rtc_jitter_push ::
  "ngx_rtc_jitter option \<Rightarrow> bytes option \<Rightarrow> u32 \<Rightarrow> u16 \<Rightarrow> u8 \<Rightarrow> u32 \<Rightarrow> 'o jitter_emit_fn option \<Rightarrow> 'o \<Rightarrow>
   (int \<times> ngx_rtc_jitter option \<times> 'o) option" where
  "ngx_rtc_jitter_push jp rtpp len seq is_gop_start now cbp opaque =
     (case (jp, rtpp, cbp) of
        (Some j, Some rtp, Some cb) \<Rightarrow>
          if len = 0 \<or> len > NGX_RTC_MAX_RTP_PKT then Some (NGX_RTC_ERR_INVALID, jp, opaque)
          else
            let timeout = jitter_timeout j;
                j = (if \<not> j_initialized j then j\<lparr>j_next_seq := seq, j_initialized := True\<rparr> else j)
            in
            if seq = j_next_seq j then
              (let (_, opaque) = cb opaque (take (unat len) rtp) is_gop_start;
                   (j, opaque) = ngx_rtc_jitter_drain (j\<lparr>j_next_seq := j_next_seq j + 1\<rparr>) cb opaque
               in if j_pending j > 0 \<and> now - j_gap_ts j \<ge> timeout
                  then map_option (\<lambda>(j, opaque). (NGX_RTC_OK, Some j, opaque)) (ngx_rtc_jitter_skip_gap j cb opaque)
                  else Some (NGX_RTC_OK, Some j, opaque))
            else if ngx_rtc_jitter_seq_gt seq (j_next_seq j) then
              (if seq - j_next_seq j \<ge> 128 then
                 (let j = ngx_rtc_jitter_reset j;
                      j = j\<lparr>j_n_reanchor := j_n_reanchor j + 1, j_next_seq := seq, j_initialized := True\<rparr>;
                      (_, opaque) = cb opaque (take (unat len) rtp) is_gop_start
                  in Some (NGX_RTC_OK, Some (j\<lparr>j_next_seq := j_next_seq j + 1\<rparr>), opaque))
               else
                 let j = jitter_cache j rtp len seq is_gop_start now
                 in if now - j_gap_ts j \<ge> timeout
                    then map_option (\<lambda>(j, opaque). (NGX_RTC_OK, Some j, opaque)) (ngx_rtc_jitter_skip_gap j cb opaque)
                    else Some (NGX_RTC_OK, Some j, opaque))
            else Some (NGX_RTC_OK, Some (j\<lparr>j_n_stale := j_n_stale j + 1\<rparr>), opaque)
      | _ \<Rightarrow> Some (NGX_RTC_ERR_INVALID, jp, opaque))"

section \<open>The window and its invariant\<close>

text \<open>
  The slot \<open>d\<close> places after the next expected packet. Slots do not record their sequence
  number: it is implied by the distance from \<open>next_seq\<close>, which is what the invariant says.
\<close>

definition win :: "ngx_rtc_jitter \<Rightarrow> nat \<Rightarrow> ngx_rtc_jitter_slot" where
  "win j d = j_slots j (jidx (j_next_seq j + word_of_nat d))"

definition window_ok :: "(u16 \<Rightarrow> bytes \<Rightarrow> bool) \<Rightarrow> ngx_rtc_jitter \<Rightarrow> bool" where
  "window_ok Q j \<longleftrightarrow>
     (\<forall>d<128. js_valid (win j d) \<longrightarrow> Q (j_next_seq j + word_of_nat d) (slot_pkt (win j d))) \<and>
     (\<forall>i<128. length (js_data (j_slots j i)) = 1214) \<and>
     unat (j_pending j) = card (valid_set j)"

definition jitter_ok :: "(u16 \<Rightarrow> bytes \<Rightarrow> bool) \<Rightarrow> ngx_rtc_jitter \<Rightarrow> bool" where
  "jitter_ok Q j \<longleftrightarrow> window_ok Q j \<and> \<not> js_valid (win j 0) \<and> (\<not> j_initialized j \<longrightarrow> j_pending j = 0)"

lemma jidx_mod: "jidx s = unat s mod 128"
proof -
  have "s AND (128 - 1) = s AND mask 7" by (simp add: mask_eq_exp_minus_1)
  then show ?thesis by (simp add: jidx_def unat_and_mask)
qed

lemma jidx_add_mod: "jidx (s + word_of_nat d) = (unat s + d) mod 128"
proof -
  have "unat (s + word_of_nat d) mod 128 = ((unat s + d mod 65536) mod 65536) mod 128"
    by (simp add: unat_word_ariths unat_of_nat)
  also have "\<dots> = (unat s + d mod 65536) mod 128" by (rule mod_mod_cancel) simp
  also have "\<dots> = (unat s + (d mod 65536) mod 128) mod 128" by (simp add: mod_add_right_eq)
  also have "(d mod 65536) mod 128 = d mod 128" by (rule mod_mod_cancel) simp
  finally show ?thesis by (simp add: jidx_mod mod_add_right_eq)
qed

lemma jidx_add_128 [simp]: "jidx (s + word_of_nat (d + 128)) = jidx (s + word_of_nat d)"
  by (simp add: jidx_add_mod add.assoc [symmetric] del: of_nat_add)

lemma jidx_add_inj:
  "d < 128 \<Longrightarrow> d' < 128 \<Longrightarrow> jidx (s + word_of_nat d) = jidx (s + word_of_nat d') \<longleftrightarrow> d = d'"
proof -
  assume d: "d < 128" "d' < 128"
  have le: "x = y" if "x \<le> y" "y < 128" "(unat s + x) mod 128 = (unat s + y) mod 128" for x y
  proof -
    have "(128 :: nat) dvd (unat s + y) - (unat s + x)"
      using that by (metis mod_eq_dvd_iff_nat add_le_cancel_left)
    then show ?thesis using that by (auto dest: dvd_imp_le)
  qed
  show ?thesis
    using d le [of d d'] le [of d' d] by (cases "d \<le> d'") (auto simp: jidx_add_mod)
qed

text \<open>The 128 window positions reach every slot.\<close>

lemma jidx_onto: "i < 128 \<Longrightarrow> \<exists>d<128. jidx (s + word_of_nat d) = i"
proof -
  assume i: "i < 128"
  let ?r = "unat s mod 128"
  have "(unat s + (i + 128 - ?r) mod 128) mod 128 = (?r + (i + 128 - ?r)) mod 128"
    by (simp only: mod_add_left_eq mod_add_right_eq)
  also have "?r + (i + 128 - ?r) = i + 128"
    using mod_less_divisor [of 128 "unat s"] by linarith
  finally have "(unat s + (i + 128 - ?r) mod 128) mod 128 = i" using i by simp
  then show ?thesis by (intro exI [of _ "(i + 128 - unat s mod 128) mod 128"]) (simp add: jidx_add_mod)
qed

lemma win_consume:
  "d < 128 \<Longrightarrow> win (jitter_consume j) d = (if d = 127 then (win j 0)\<lparr>js_valid := False\<rparr> else win j (Suc d))"
proof -
  assume d: "d < 128"
  have next_eq: "j_next_seq j + 1 + word_of_nat d = j_next_seq j + word_of_nat (Suc d)" by simp
  show ?thesis
  proof (cases "d = 127")
    case True
    have "jidx (j_next_seq j + word_of_nat (0 + 128)) = jidx (j_next_seq j + word_of_nat 0)"
      by (rule jidx_add_128)
    then show ?thesis
      using True by (simp add: win_def jitter_consume_def Let_def add.assoc)
  next
    case False
    then have "jidx (j_next_seq j + word_of_nat (Suc d)) \<noteq> jidx (j_next_seq j + word_of_nat 0)"
      using d by (subst jidx_add_inj) auto
    then show ?thesis using False
      by (simp only: win_def jitter_consume_def Let_def) (simp add: add.assoc)
  qed
qed

lemma window_ok_consume:
  assumes ok: "window_ok Q j" and v: "js_valid (win j 0)"
  shows "window_ok Q (jitter_consume j)" and "Q (j_next_seq j) (slot_pkt (win j 0))"
    and "card (valid_set (jitter_consume j)) < card (valid_set j)"
proof -
  have mem: "jidx (j_next_seq j) \<in> valid_set j" using v by (simp add: valid_set_def win_def)
  show card: "card (valid_set (jitter_consume j)) < card (valid_set j)"
    unfolding valid_set_consume using mem by (intro card_Diff1_less finite_valid_set)
  have "unat (j_pending j) = card (valid_set j)" using ok by (simp add: window_ok_def)
  moreover have "card (valid_set (jitter_consume j)) = card (valid_set j) - 1"
    unfolding valid_set_consume using mem by (rule card_Diff_singleton)
  ultimately have pend: "unat (j_pending (jitter_consume j)) = card (valid_set (jitter_consume j))"
    using card by (auto simp: jitter_consume_def Let_def unat_minus_one word_gt_0 unat_gt_0)
  have q: "Q (j_next_seq (jitter_consume j) + word_of_nat d) (slot_pkt (win (jitter_consume j) d))"
    if "d < 128" "js_valid (win (jitter_consume j) d)" for d
  proof -
    from that have "d \<noteq> 127" "Suc d < 128" "js_valid (win j (Suc d))" by (auto simp: win_consume split: if_splits)
    then have "Q (j_next_seq j + word_of_nat (Suc d)) (slot_pkt (win j (Suc d)))"
      using ok unfolding window_ok_def by blast
    then show ?thesis using that \<open>d \<noteq> 127\<close>
      by (simp add: win_consume) (simp add: jitter_consume_def Let_def add.assoc)
  qed
  have len: "length (js_data (j_slots (jitter_consume j) i)) = 1214" if "i < 128" for i
    using ok that by (simp add: window_ok_def jitter_consume_def Let_def)
  show "window_ok Q (jitter_consume j)" unfolding window_ok_def using q len pend by blast
  show "Q (j_next_seq j) (slot_pkt (win j 0))"
  proof -
    have "js_valid (win j 0) \<longrightarrow> Q (j_next_seq j + word_of_nat 0) (slot_pkt (win j 0))"
      using ok unfolding window_ok_def by (meson zero_less_numeral)
    then show ?thesis using v by simp
  qed
qed

definition same_meta :: "ngx_rtc_jitter \<Rightarrow> ngx_rtc_jitter \<Rightarrow> bool" where
  "same_meta j j' \<longleftrightarrow> j_gap_timeout_ms j' = j_gap_timeout_ms j \<and> j_initialized j' = j_initialized j \<and>
     j_n_reanchor j' = j_n_reanchor j \<and> j_n_stale j' = j_n_stale j \<and> j_n_cached j' = j_n_cached j"

lemma same_meta_trans: "same_meta a b \<Longrightarrow> same_meta b c \<Longrightarrow> same_meta a c"
  by (simp add: same_meta_def)

text \<open>The callback that records what it is given.\<close>

definition collect :: "(bytes \<times> u8) list jitter_emit_fn" where
  "collect out p g = (0, out @ [(p, g)])"

text \<open>Emitted packets matched with the consecutive sequence numbers from \<open>s\<close>.\<close>

definition consec :: "u16 \<Rightarrow> nat \<Rightarrow> u16 list" where
  "consec s n = map (\<lambda>k. s + word_of_nat k) [0..<n]"

lemma consec_0 [simp]: "consec s 0 = []"
  by (simp add: consec_def)

lemma length_consec [simp]: "length (consec s n) = n"
  by (simp add: consec_def)

lemma consec_Suc: "consec s (Suc n) = s # consec (s + 1) n"
  by (simp add: consec_def upt_conv_Cons map_Suc_upt [symmetric] o_def add.assoc del: upt_Suc)

lemma drain_loop_spec:
  assumes "window_ok Q j"
  shows "\<exists>j' em. jitter_drain_loop collect j out = (j', out @ em) \<and> window_ok Q j' \<and> \<not> js_valid (win j' 0) \<and>
     j_next_seq j' = j_next_seq j + word_of_nat (length em) \<and> length em \<le> card (valid_set j) \<and>
     list_all2 Q (consec (j_next_seq j) (length em)) (map fst em) \<and>
     same_meta j j' \<and> j_gap_ts j' = j_gap_ts j \<and> (em = [] \<longrightarrow> \<not> js_valid (win j 0)) \<and>
     card (valid_set j') = card (valid_set j) - length em"
  using assms
proof (induction "card (valid_set j)" arbitrary: j out rule: less_induct)
  case less
  show ?case
  proof (cases "js_valid (win j 0)")
    case False
    then have "jitter_drain_loop collect j out = (j, out)"
      by (simp add: jitter_drain_loop.simps win_def)
    then show ?thesis using False less.prems by (simp add: same_meta_def)
  next
    case True
    let ?p = "(slot_pkt (win j 0), js_is_gop_start (win j 0))"
    note step = window_ok_consume [OF less.prems True]
    obtain j' em where ih: "jitter_drain_loop collect (jitter_consume j) (out @ [?p]) = (j', (out @ [?p]) @ em)"
      "window_ok Q j'" "\<not> js_valid (win j' 0)"
      "j_next_seq j' = j_next_seq (jitter_consume j) + word_of_nat (length em)"
      "length em \<le> card (valid_set (jitter_consume j))"
      "list_all2 Q (consec (j_next_seq (jitter_consume j)) (length em)) (map fst em)"
      "same_meta (jitter_consume j) j'" "j_gap_ts j' = j_gap_ts (jitter_consume j)"
      "card (valid_set j') = card (valid_set (jitter_consume j)) - length em"
      using less.hyps [OF step(3,1), of "out @ [?p]"] by blast
    have eq: "jitter_drain_loop collect j out = (j', out @ ?p # em)"
      using True ih(1) by (subst jitter_drain_loop.simps) (simp add: win_def collect_def Let_def)
    have nx: "j_next_seq (jitter_consume j) = j_next_seq j + 1" "j_gap_ts (jitter_consume j) = j_gap_ts j"
      by (simp_all add: jitter_consume_def Let_def)
    have meta: "same_meta j j'"
      by (rule same_meta_trans [OF _ ih(7)]) (simp add: same_meta_def jitter_consume_def Let_def)
    have "card (valid_set (jitter_consume j)) = card (valid_set j) - 1"
      using True unfolding valid_set_consume
      by (intro card_Diff_singleton) (simp add: valid_set_def win_def)
    then show ?thesis
      using eq ih step nx meta
      by (intro exI [of _ j'] exI [of _ "?p # em"]) (auto simp: consec_Suc add.assoc)
  qed
qed

lemma drain_spec:
  assumes "window_ok Q j"
  shows "\<exists>j' em. ngx_rtc_jitter_drain j collect out = (j', out @ em) \<and> window_ok Q j' \<and> \<not> js_valid (win j' 0) \<and>
     j_next_seq j' = j_next_seq j + word_of_nat (length em) \<and> length em \<le> 128 \<and>
     list_all2 Q (consec (j_next_seq j) (length em)) (map fst em) \<and>
     same_meta j j' \<and> (j_pending j' \<noteq> 0 \<longrightarrow> j_gap_ts j' = j_gap_ts j) \<and> (em = [] \<longrightarrow> \<not> js_valid (win j 0)) \<and>
     card (valid_set j') = card (valid_set j) - length em \<and> length em \<le> card (valid_set j) \<and>
     (j_pending j' = 0 \<longrightarrow> j_gap_ts j' = 0)"
proof -
  obtain j' em where d: "jitter_drain_loop collect j out = (j', out @ em)" "window_ok Q j'" "\<not> js_valid (win j' 0)"
     "j_next_seq j' = j_next_seq j + word_of_nat (length em)" "length em \<le> card (valid_set j)"
     "list_all2 Q (consec (j_next_seq j) (length em)) (map fst em)"
     "same_meta j j'" "j_gap_ts j' = j_gap_ts j" "em = [] \<longrightarrow> \<not> js_valid (win j 0)"
     "card (valid_set j') = card (valid_set j) - length em"
    using drain_loop_spec [OF assms] by blast
  let ?j = "if j_pending j' = 0 then j'\<lparr>j_gap_ts := 0\<rparr> else j'"
  have "card (valid_set j) \<le> card {..<128 :: nat}" by (rule card_mono) (auto simp: valid_set_def)
  then have "length em \<le> 128" using d(5) by simp
  moreover have "ngx_rtc_jitter_drain j collect out = (?j, out @ em)"
    using d(1) by (simp add: ngx_rtc_jitter_drain_def)
  ultimately show ?thesis using d
    by (intro exI [of _ ?j] exI [of _ em]) (auto simp: window_ok_def win_def valid_set_def same_meta_def)
qed

text \<open>Moving the window past positions that hold nothing.\<close>

lemma win_shift:
  "win (j\<lparr>j_next_seq := j_next_seq j + word_of_nat d, j_n_skipped := k\<rparr>) e = win j (d + e)"
  by (simp add: win_def add.assoc)

lemma window_ok_shift:
  assumes ok: "window_ok Q j" and inv: "\<And>k. k < d \<Longrightarrow> \<not> js_valid (win j k)" and d: "d \<le> 128"
  shows "window_ok Q (j\<lparr>j_next_seq := j_next_seq j + word_of_nat d, j_n_skipped := m\<rparr>)" (is "window_ok Q ?j")
proof -
  have q: "Q (j_next_seq ?j + word_of_nat e) (slot_pkt (win ?j e))" if e: "e < 128" "js_valid (win ?j e)" for e
  proof (cases "d + e < 128")
    case True
    then have "Q (j_next_seq j + word_of_nat (d + e)) (slot_pkt (win j (d + e)))"
      using e ok unfolding window_ok_def win_shift by blast
    then show ?thesis by (simp add: win_shift add.assoc)
  next
    case False
    then obtain f where f: "d + e = f + 128" by (metis add.commute le_Suc_ex linorder_not_less)
    have "win j (d + e) = win j f" unfolding win_def f by (simp only: jidx_add_128)
    moreover have "f < d" using f e(1) by simp
    ultimately show ?thesis using e(2) inv by (simp add: win_shift)
  qed
  have "valid_set ?j = valid_set j" by (simp add: valid_set_def)
  with q ok show ?thesis unfolding window_ok_def by simp
qed

lemma skip_loop_eq:
  "js_valid (win j d) \<Longrightarrow> (\<And>k. k < d \<Longrightarrow> \<not> js_valid (win j k)) \<Longrightarrow>
   jitter_skip_loop j = Some (j\<lparr>j_next_seq := j_next_seq j + word_of_nat d,
                               j_n_skipped := j_n_skipped j + word_of_nat d\<rparr>)"
proof (induction d arbitrary: j)
  case 0
  then show ?case by (simp add: jitter_skip_loop.simps win_def)
next
  case (Suc d)
  let ?j = "j\<lparr>j_next_seq := j_next_seq j + 1, j_n_skipped := j_n_skipped j + 1\<rparr>"
  have w: "win ?j k = win j (Suc k)" for k by (simp add: win_def add.assoc)
  have "jitter_skip_loop ?j = Some (?j\<lparr>j_next_seq := j_next_seq ?j + word_of_nat d,
                               j_n_skipped := j_n_skipped ?j + word_of_nat d\<rparr>)"
    by (rule Suc.IH) (use Suc.prems in \<open>auto simp: w\<close>)
  moreover have "\<not> js_valid (win j 0)" using Suc.prems(2) by blast
  ultimately show ?case by (subst jitter_skip_loop.simps) (simp add: win_def add.assoc)
qed

lemma pending_first:
  assumes "window_ok Q j" "j_pending j \<noteq> 0"
  obtains d where "d < 128" "js_valid (win j d)" "\<And>k. k < d \<Longrightarrow> \<not> js_valid (win j k)"
proof -
  have "0 < card (valid_set j)" using assms unfolding window_ok_def by (metis unat_eq_zero neq0_conv)
  then obtain i where "i \<in> valid_set j" by (auto simp: card_gt_0_iff)
  then have "i < 128" "js_valid (j_slots j i)" by (auto simp: valid_set_def)
  then obtain e where e: "e < 128" "js_valid (win j e)" unfolding win_def using jidx_onto by metis
  define d where "d = (LEAST d. js_valid (win j d))"
  have "js_valid (win j d)" unfolding d_def using e(2) by (rule LeastI)
  moreover have "d < 128" using Least_le [of "\<lambda>d. js_valid (win j d)", OF e(2)] e(1) by (simp add: d_def)
  moreover have "\<not> js_valid (win j k)" if "k < d" for k using that not_less_Least by (auto simp: d_def)
  ultimately show ?thesis using that by blast
qed

lemma skip_gap_spec:
  assumes ok: "window_ok Q j" and d: "d < 128" "js_valid (win j d)" "\<And>k. k < d \<Longrightarrow> \<not> js_valid (win j k)"
  shows "\<exists>j' em. ngx_rtc_jitter_skip_gap j collect out = Some (j', out @ em) \<and> window_ok Q j' \<and>
     \<not> js_valid (win j' 0) \<and> em \<noteq> [] \<and> length em \<le> 128 \<and>
     j_next_seq j' = j_next_seq j + word_of_nat (d + length em) \<and>
     list_all2 Q (consec (j_next_seq j + word_of_nat d) (length em)) (map fst em) \<and> same_meta j j'"
proof -
  let ?j = "j\<lparr>j_next_seq := j_next_seq j + word_of_nat d, j_n_skipped := j_n_skipped j + word_of_nat d\<rparr>"
  have okj: "window_ok Q ?j" by (rule window_ok_shift) (use ok d in auto)
  have v: "js_valid (win ?j 0)" using d(2) by (simp add: win_shift)
  have skip: "jitter_skip_loop j = Some ?j" by (rule skip_loop_eq) (use d in auto)
  obtain j' em where dr: "ngx_rtc_jitter_drain ?j collect out = (j', out @ em)" "window_ok Q j'" "\<not> js_valid (win j' 0)"
     "j_next_seq j' = j_next_seq ?j + word_of_nat (length em)" "length em \<le> 128"
     "list_all2 Q (consec (j_next_seq ?j) (length em)) (map fst em)"
     "same_meta ?j j'" "em = [] \<longrightarrow> \<not> js_valid (win ?j 0)"
    using drain_spec [OF okj] by blast
  have "same_meta j j'" by (rule same_meta_trans [OF _ dr(7)]) (simp add: same_meta_def)
  moreover have "ngx_rtc_jitter_skip_gap j collect out = Some (j', out @ em)"
    using skip dr(1) by (simp add: ngx_rtc_jitter_skip_gap_def)
  ultimately show ?thesis using dr v
    by (intro exI [of _ j'] exI [of _ em]) (auto simp: add.assoc)
qed

section \<open>One push\<close>

text \<open>
  What one push emits, relative to the expected sequence number \<open>base\<close>: packets at strictly
  increasing offsets below \<open>2 ^ 15\<close>, after which the expectation is one past the last of them.
\<close>

definition emits :: "(u16 \<Rightarrow> bytes \<Rightarrow> bool) \<Rightarrow> u16 \<Rightarrow> u16 \<Rightarrow> (bytes \<times> u8) list \<Rightarrow> bool" where
  "emits Q base nxt em \<longleftrightarrow>
     (\<exists>ds. sorted_wrt (<) ds \<and> (\<forall>d\<in>set ds. d < 2 ^ 15) \<and>
        list_all2 Q (map (\<lambda>d. base + word_of_nat d) ds) (map fst em) \<and>
        nxt = (if ds = [] then base else base + word_of_nat (Suc (last ds))))"

lemma consec_upt: "consec (s + word_of_nat d) n = map (\<lambda>k. s + word_of_nat k) [d..<d + n]"
proof -
  have "[d..<d + n] = map (\<lambda>i. i + d) [0..<n]" using map_add_upt [of d n] by (simp add: add.commute)
  then show ?thesis by (simp add: consec_def o_def ac_simps)
qed

lemma emits_Nil: "emits Q base base []"
  by (simp add: emits_def)

lemma emits_consec:
  assumes "list_all2 Q (consec (base + word_of_nat d) (length em)) (map fst em)" "em \<noteq> []" "d + length em \<le> 2 ^ 15"
  shows "emits Q base (base + word_of_nat (d + length em)) em"
proof -
  have "last [d..<d + length em] = d + length em - 1" using assms(2) by (simp add: last_upt)
  then show ?thesis
    unfolding emits_def using assms
    by (intro exI [of _ "[d..<d + length em]"]) (auto simp: consec_upt sorted_wrt_upt simp del: of_nat_add of_nat_Suc)
qed

lemma emits_append:
  assumes "list_all2 Q (consec base n) (map fst em)" "n = length em" "0 < n"
    and "list_all2 Q (consec (base + word_of_nat (n + d)) (length em')) (map fst em')" "em' \<noteq> []"
    and "n + d + length em' \<le> 2 ^ 15"
  shows "emits Q base (base + word_of_nat (n + d + length em')) (em @ em')"
proof -
  let ?ds = "[0..<n] @ [n + d..<n + d + length em']"
  have "last ?ds = n + d + length em' - 1" using assms(5) by (simp add: last_upt)
  moreover have "consec base n = map (\<lambda>k. base + word_of_nat k) [0..<n]" by (simp add: consec_def)
  ultimately show ?thesis
    unfolding emits_def using assms
    by (intro exI [of _ ?ds])
       (auto simp: consec_upt sorted_wrt_append sorted_wrt_upt list_all2_appendI simp del: of_nat_add of_nat_Suc)
qed

lemma push_inorder:
  assumes ok: "window_ok Q j" "\<not> js_valid (win j 0)" and q: "Q (j_next_seq j) p"
    and dr: "ngx_rtc_jitter_drain (j\<lparr>j_next_seq := j_next_seq j + 1\<rparr>) collect (out @ [(p, g)]) = (j2, out2)"
  shows "\<exists>j' em. (if b \<and> j_pending j2 > 0 then ngx_rtc_jitter_skip_gap j2 collect out2 else Some (j2, out2))
      = Some (j', out @ em) \<and> window_ok Q j' \<and> \<not> js_valid (win j' 0) \<and> same_meta j j' \<and>
     emits Q (j_next_seq j) (j_next_seq j') em"
proof -
  let ?j = "j\<lparr>j_next_seq := j_next_seq j + 1\<rparr>"
  have "window_ok Q (j\<lparr>j_next_seq := j_next_seq j + word_of_nat 1, j_n_skipped := j_n_skipped j\<rparr>)"
    by (rule window_ok_shift) (use ok in auto)
  then have okj: "window_ok Q ?j" by simp
  obtain em where d: "out2 = (out @ [(p, g)]) @ em" "window_ok Q j2" "\<not> js_valid (win j2 0)"
     "j_next_seq j2 = j_next_seq j + 1 + word_of_nat (length em)" "length em \<le> 128"
     "list_all2 Q (consec (j_next_seq j + 1) (length em)) (map fst em)" "same_meta ?j j2"
    using drain_spec [OF okj, of "out @ [(p, g)]"] dr by auto
  let ?n = "Suc (length em)"
  have c: "list_all2 Q (consec (j_next_seq j) ?n) (map fst ((p, g) # em))"
    using d(6) q by (simp add: consec_Suc)
  have nx: "j_next_seq j2 = j_next_seq j + word_of_nat ?n" using d(4) by (simp add: add.assoc)
  have meta: "same_meta j j2" by (rule same_meta_trans [OF _ d(7)]) (simp add: same_meta_def)
  show ?thesis
  proof (cases "b \<and> j_pending j2 > 0")
    case False
    have "emits Q (j_next_seq j) (j_next_seq j + word_of_nat (0 + length ((p, g) # em))) ((p, g) # em)"
      by (rule emits_consec) (use c d(5) in simp_all)
    then show ?thesis using False d meta nx
      by (intro exI [of _ j2] exI [of _ "(p, g) # em"]) auto
  next
    case True
    then have "j_pending j2 \<noteq> 0" by auto
    then obtain k where k: "k < 128" "js_valid (win j2 k)" "\<And>l. l < k \<Longrightarrow> \<not> js_valid (win j2 l)"
      using pending_first [OF d(2)] by blast
    obtain j' em' where s: "ngx_rtc_jitter_skip_gap j2 collect out2 = Some (j', out2 @ em')" "window_ok Q j'"
       "\<not> js_valid (win j' 0)" "em' \<noteq> []" "length em' \<le> 128"
       "j_next_seq j' = j_next_seq j2 + word_of_nat (k + length em')"
       "list_all2 Q (consec (j_next_seq j2 + word_of_nat k) (length em')) (map fst em')" "same_meta j2 j'"
      using skip_gap_spec [OF d(2) k] by blast
    have "list_all2 Q (consec (j_next_seq j + word_of_nat (?n + k)) (length em')) (map fst em')"
      using s(7) nx by (simp add: add.assoc)
    then have "emits Q (j_next_seq j) (j_next_seq j + word_of_nat (?n + k + length em')) (((p, g) # em) @ em')"
      by (intro emits_append c) (use s d(5) k in auto)
    moreover have "j_next_seq j' = j_next_seq j + word_of_nat (?n + k + length em')"
      using s(6) nx by (simp add: ac_simps)
    ultimately have "emits Q (j_next_seq j) (j_next_seq j') (((p, g) # em) @ em')" by (simp only:)
    then show ?thesis using True d(1) s(1-3) same_meta_trans [OF meta s(8)]
      by (intro exI [of _ j'] exI [of _ "((p, g) # em) @ em'"]) auto
  qed
qed

lemma slot_pkt_put:
  assumes "unat len \<le> 1214" "unat len \<le> length rtp" "length dat = 1214"
  shows "slot_pkt \<lparr>js_data = buf_put 0 (take (unat len) rtp) dat, js_len = ucast len,
     js_is_gop_start = g, js_valid = v\<rparr> = take (unat (len :: u32)) rtp"
proof -
  have "unat (ucast len :: u16) = unat len"
    using assms(1) by (simp add: unsigned_ucast_eq take_bit_nat_eq_self)
  then show ?thesis using assms by (simp add: slot_pkt_def buf_put_def min_absorb2)
qed

lemma window_ok_cache:
  assumes ok: "window_ok Q j" and seq: "seq = j_next_seq j + word_of_nat d" "d < 128"
    and len: "unat len \<le> 1214" "unat len \<le> length rtp" and q: "Q seq (take (unat len) rtp)"
  shows "window_ok Q (jitter_cache j rtp len seq g now)" (is "window_ok Q ?j")
    and "js_valid (win (jitter_cache j rtp len seq g now) d)"
    and "e < 128 \<Longrightarrow> e \<noteq> d \<Longrightarrow> win (jitter_cache j rtp len seq g now) e = win j e"
proof -
  have nx: "j_next_seq ?j = j_next_seq j" by (simp add: jitter_cache_def Let_def)
  show v: "js_valid (win ?j d)" unfolding win_def nx seq(1) [symmetric] by (simp add: jitter_cache_def Let_def)
  have other: "win ?j e = win j e" if "e < 128" "e \<noteq> d" for e
  proof -
    have "jidx (j_next_seq j + word_of_nat e) \<noteq> jidx seq"
      unfolding seq(1) using that seq(2) by (subst jidx_add_inj) auto
    then show ?thesis unfolding win_def nx by (simp add: jitter_cache_def Let_def)
  qed
  then show "e < 128 \<Longrightarrow> e \<noteq> d \<Longrightarrow> win ?j e = win j e" .
  have pk: "slot_pkt (win ?j d) = take (unat len) rtp"
    unfolding win_def nx seq(1) [symmetric] using ok len
    by (simp add: jitter_cache_def Let_def window_ok_def slot_pkt_put)
  have qq: "Q (j_next_seq ?j + word_of_nat e) (slot_pkt (win ?j e))" if "e < 128" "js_valid (win ?j e)" for e
    using that ok other q pk seq unfolding nx window_ok_def by (cases "e = d") auto
  have lens: "length (js_data (j_slots ?j i)) = 1214" if "i < 128" for i
    using that ok len by (simp add: window_ok_def jitter_cache_def Let_def)
  have vs: "valid_set ?j = insert (jidx seq) (valid_set j)"
    by (auto simp: valid_set_def jitter_cache_def Let_def)
  have "valid_set j \<subseteq> {..<128}" by (auto simp: valid_set_def)
  then have "card (valid_set j) \<le> 128" using card_mono [of "{..<128 :: nat}"] by simp
  then have "unat (j_pending j + 1) = unat (j_pending j) + 1"
    using ok by (subst unat_plus_if') (simp add: window_ok_def)
  moreover have "js_valid (j_slots j (jidx seq)) \<longleftrightarrow> jidx seq \<in> valid_set j" by (simp add: valid_set_def)
  ultimately have "unat (j_pending ?j) = card (valid_set ?j)"
    using ok unfolding vs by (simp add: window_ok_def jitter_cache_def Let_def card_insert_if)
  with qq lens show "window_ok Q ?j" unfolding window_ok_def by blast
qed

lemma push_ahead:
  assumes ok: "window_ok Q j" "\<not> js_valid (win j 0)" and seq: "seq = j_next_seq j + word_of_nat d" "0 < d" "d < 128"
    and len: "unat len \<le> 1214" "unat len \<le> length rtp" and q: "Q seq (take (unat len) rtp)"
  shows "\<exists>j' em. (if b then ngx_rtc_jitter_skip_gap (jitter_cache j rtp len seq g now) collect out
        else Some (jitter_cache j rtp len seq g now, out)) = Some (j', out @ em) \<and>
     window_ok Q j' \<and> \<not> js_valid (win j' 0) \<and> j_initialized j' = j_initialized j \<and>
     j_n_reanchor j' = j_n_reanchor j \<and> emits Q (j_next_seq j) (j_next_seq j') em"
proof -
  let ?j = "jitter_cache j rtp len seq g now"
  note c = window_ok_cache [OF ok(1) seq(1,3) len q, where g = g and now = now]
  have v0: "\<not> js_valid (win ?j 0)" using c(3) [of 0] seq ok(2) by simp
  have nx: "j_next_seq ?j = j_next_seq j" "j_initialized ?j = j_initialized j" "j_n_reanchor ?j = j_n_reanchor j"
    by (simp_all add: jitter_cache_def Let_def)
  show ?thesis
  proof (cases b)
    case False
    then show ?thesis using c(1) v0 nx by (intro exI [of _ ?j] exI [of _ "[]"]) (simp add: emits_Nil)
  next
    case True
    have "jidx (j_next_seq ?j + word_of_nat d) \<in> valid_set ?j"
      using c(2) by (simp add: valid_set_def win_def)
    then have "0 < card (valid_set ?j)" by (auto simp: card_gt_0_iff)
    then have "j_pending ?j \<noteq> 0" using c(1) by (auto simp: window_ok_def)
    then obtain k where k: "k < 128" "js_valid (win ?j k)" "\<And>l. l < k \<Longrightarrow> \<not> js_valid (win ?j l)"
      using pending_first [OF c(1)] by blast
    obtain j' em where s: "ngx_rtc_jitter_skip_gap ?j collect out = Some (j', out @ em)" "window_ok Q j'"
       "\<not> js_valid (win j' 0)" "em \<noteq> []" "length em \<le> 128"
       "j_next_seq j' = j_next_seq ?j + word_of_nat (k + length em)"
       "list_all2 Q (consec (j_next_seq ?j + word_of_nat k) (length em)) (map fst em)" "same_meta ?j j'"
      using skip_gap_spec [OF c(1) k] by blast
    have "emits Q (j_next_seq j) (j_next_seq j + word_of_nat (k + length em)) em"
      by (rule emits_consec) (use s k nx in auto)
    then show ?thesis using True s nx
      by (intro exI [of _ j'] exI [of _ em]) (auto simp: same_meta_def)
  qed
qed

lemma seq_gt_iff: "ngx_rtc_jitter_seq_gt a b \<longleftrightarrow> 0 < unat (a - b) \<and> unat (a - b) < 2 ^ 15"
  by (simp add: ngx_rtc_jitter_seq_gt_def sint_pos_u16)

lemma window_ok_reset: "window_ok Q (ngx_rtc_jitter_reset j)" "\<not> js_valid (win (ngx_rtc_jitter_reset j) d)"
  by (simp_all add: ngx_rtc_jitter_reset_def jitter_zero_def window_ok_def win_def valid_set_def)

text \<open>The state after the first packet anchored the expectation.\<close>

definition anchored :: "ngx_rtc_jitter \<Rightarrow> u16 \<Rightarrow> ngx_rtc_jitter" where
  "anchored j seq = (if \<not> j_initialized j then j\<lparr>j_next_seq := seq, j_initialized := True\<rparr> else j)"

lemma anchored_ok:
  assumes "jitter_ok Q j"
  shows "window_ok Q (anchored j seq)" "\<not> js_valid (win (anchored j seq) 0)" "j_initialized (anchored j seq)"
    and "j_next_seq (anchored j seq) = (if j_initialized j then j_next_seq j else seq)"
proof -
  have none: "\<not> js_valid (j_slots j i)" if "\<not> j_initialized j" "i < 128" for i
  proof -
    have "unat (j_pending j) = card (valid_set j)" "j_pending j = 0"
      using assms that unfolding jitter_ok_def window_ok_def by blast+
    then have "card (valid_set j) = 0" by simp
    then show ?thesis using that by (auto simp: valid_set_def)
  qed
  show "window_ok Q (anchored j seq)"
    using assms none by (auto simp: jitter_ok_def window_ok_def anchored_def win_def valid_set_def)
  show "\<not> js_valid (win (anchored j seq) 0)"
    using assms none by (auto simp: jitter_ok_def anchored_def win_def)
qed (auto simp: anchored_def)

lemma push_step:
  assumes ok: "jitter_ok Q j" and len: "0 < unat len" "unat len \<le> 1214" "unat len \<le> length rtp"
    and q: "Q seq (take (unat len) rtp)"
  shows "\<exists>j' em. ngx_rtc_jitter_push (Some j) (Some rtp) len seq g now (Some collect) out
        = Some (NGX_RTC_OK, Some j', out @ em) \<and> jitter_ok Q j' \<and> j_initialized j' \<and>
     emits Q (if j_initialized j then j_next_seq j else seq) (j_next_seq j') em \<and>
     (j_n_reanchor j' = j_n_reanchor j \<or> j_n_reanchor j' = 1)"
proof -
  let ?a = "anchored j seq" and ?p = "take (unat len) rtp"
  note a = anchored_ok [OF ok, where seq = seq]
  have guard: "len \<noteq> 0" "\<not> len > NGX_RTC_MAX_RTP_PKT" using len by (auto simp: word_less_nat_alt)
  have reanchor: "j_n_reanchor ?a = j_n_reanchor j" by (simp add: anchored_def)
  have fold: "(if \<not> j_initialized j then j\<lparr>j_next_seq := seq, j_initialized := True\<rparr> else j) = ?a"
    by (simp add: anchored_def)
  note unf = ngx_rtc_jitter_push_def prod.case option.case Let_def fold
  consider (same) "seq = j_next_seq ?a"
    | (far) "seq \<noteq> j_next_seq ?a" "ngx_rtc_jitter_seq_gt seq (j_next_seq ?a)" "seq - j_next_seq ?a \<ge> 128"
    | (near) "seq \<noteq> j_next_seq ?a" "ngx_rtc_jitter_seq_gt seq (j_next_seq ?a)" "\<not> seq - j_next_seq ?a \<ge> 128"
    | (stale) "seq \<noteq> j_next_seq ?a" "\<not> ngx_rtc_jitter_seq_gt seq (j_next_seq ?a)" by blast
  then show ?thesis
  proof cases
    case same
    obtain j2 out2 where dr: "ngx_rtc_jitter_drain (?a\<lparr>j_next_seq := j_next_seq ?a + 1\<rparr>) collect (out @ [(?p, g)]) = (j2, out2)"
      by fastforce
    have q': "Q (j_next_seq ?a) ?p" using q same by simp
    obtain j' em where r: "(if now - j_gap_ts j2 \<ge> jitter_timeout j \<and> j_pending j2 > 0
        then ngx_rtc_jitter_skip_gap j2 collect out2 else Some (j2, out2)) = Some (j', out @ em)"
      "window_ok Q j'" "\<not> js_valid (win j' 0)" "same_meta ?a j'" "emits Q (j_next_seq ?a) (j_next_seq j') em"
      using push_inorder [OF a(1,2) q' dr, of "now - j_gap_ts j2 \<ge> jitter_timeout j"] by blast
    have "ngx_rtc_jitter_push (Some j) (Some rtp) len seq g now (Some collect) out
        = Some (NGX_RTC_OK, Some j', out @ em)"
      using r(1) dr guard unfolding unf same [symmetric]
      by (auto simp: collect_def conj_commute split: if_splits)
    then show ?thesis using r a(3,4) reanchor by (auto simp: jitter_ok_def same_meta_def)
  next
    case near
    have d: "0 < unat (seq - j_next_seq ?a)" "unat (seq - j_next_seq ?a) < 128"
      using near by (auto simp: seq_gt_iff word_le_nat_alt)
    have sq: "seq = j_next_seq ?a + word_of_nat (unat (seq - j_next_seq ?a))" by simp
    let ?b = "now - j_gap_ts (jitter_cache ?a rtp len seq g now) \<ge> jitter_timeout j"
    obtain j' em where r: "(if ?b then ngx_rtc_jitter_skip_gap (jitter_cache ?a rtp len seq g now) collect out
        else Some (jitter_cache ?a rtp len seq g now, out)) = Some (j', out @ em)"
      "window_ok Q j'" "\<not> js_valid (win j' 0)" "j_initialized j' = j_initialized ?a"
      "j_n_reanchor j' = j_n_reanchor ?a" "emits Q (j_next_seq ?a) (j_next_seq j') em"
      using push_ahead [where b = ?b, OF a(1,2) sq d len(2,3) q] by blast
    have "ngx_rtc_jitter_push (Some j) (Some rtp) len seq g now (Some collect) out
        = Some (NGX_RTC_OK, Some j', out @ em)"
      using r(1) near guard unfolding unf by (simp split: if_splits)
    then show ?thesis using r a(3,4) reanchor by (auto simp: jitter_ok_def)
  next
    case far
    let ?r = "(ngx_rtc_jitter_reset ?a)\<lparr>j_n_reanchor := 1, j_next_seq := seq + 1, j_initialized := True\<rparr>"
    have "ngx_rtc_jitter_push (Some j) (Some rtp) len seq g now (Some collect) out
        = Some (NGX_RTC_OK, Some ?r, out @ [(?p, g)])"
      using far guard unfolding unf by (simp add: collect_def ngx_rtc_jitter_reset_def jitter_zero_def)
    moreover have "jitter_ok Q ?r"
      using window_ok_reset(1) [where Q = Q and j = ?a] by (simp add: jitter_ok_def window_ok_def win_def valid_set_def
          ngx_rtc_jitter_reset_def jitter_zero_def)
    moreover have "emits Q (j_next_seq ?a) (seq + 1) [(?p, g)]"
    proof -
      have "unat (seq - j_next_seq ?a) < 2 ^ 15" using far by (simp add: seq_gt_iff)
      then show ?thesis unfolding emits_def using q
        by (intro exI [of _ "[unat (seq - j_next_seq ?a)]"]) simp
    qed
    ultimately show ?thesis using a(4) by (intro exI [of _ ?r] exI [of _ "[(?p, g)]"]) simp
  next
    case stale
    have "ngx_rtc_jitter_push (Some j) (Some rtp) len seq g now (Some collect) out
        = Some (NGX_RTC_OK, Some (?a\<lparr>j_n_stale := j_n_stale ?a + 1\<rparr>), out @ [])"
      using stale guard unfolding unf by simp
    then show ?thesis using a reanchor emits_Nil [of Q "j_next_seq ?a"]
      by (intro exI [of _ "?a\<lparr>j_n_stale := j_n_stale ?a + 1\<rparr>"] exI [of _ "[]"])
         (simp add: jitter_ok_def window_ok_def win_def valid_set_def)
  qed
qed

section \<open>A stream of pushes\<close>

text \<open>An arriving packet: sequence number, octets, GOP flag, arrival time in milliseconds.\<close>

record jitter_arrival =
  a_seq :: u16
  a_rtp :: bytes
  a_gop :: u8
  a_now :: u32

fun jitter_run :: "jitter_arrival list \<Rightarrow> ngx_rtc_jitter \<Rightarrow> (bytes \<times> u8) list \<Rightarrow> (ngx_rtc_jitter \<times> (bytes \<times> u8) list) option" where
  "jitter_run [] j out = Some (j, out)"
| "jitter_run (a # as) j out =
     (case ngx_rtc_jitter_push (Some j) (Some (a_rtp a)) (word_of_nat (length (a_rtp a))) (a_seq a) (a_gop a) (a_now a)
        (Some collect) out of
        Some (_, Some j', out') \<Rightarrow> jitter_run as j' out'
      | _ \<Rightarrow> None)"

text \<open>A step forward in the 16-bit sequence space, by less than half of it.\<close>

definition seq_forward :: "u16 \<Rightarrow> u16 \<Rightarrow> bool" where
  "seq_forward a b \<longleftrightarrow> 0 < unat (b - a) \<and> unat (b - a) \<le> 2 ^ 15"

lemma seq_forward_offsets:
  "d < d' \<Longrightarrow> d' < d + 2 ^ 15 + 1 \<Longrightarrow> seq_forward (s + word_of_nat d) (s + word_of_nat d')"
proof -
  assume d: "d < d'" "d' < d + 2 ^ 15 + 1"
  have "s + word_of_nat d' - (s + word_of_nat d) = (word_of_nat (d' - d) :: u16)"
    using d by (simp add: of_nat_diff)
  moreover have "unat (word_of_nat (d' - d) :: u16) = d' - d" using d by (simp add: unat_of_nat del: of_nat_diff)
  ultimately show ?thesis using d unfolding seq_forward_def by simp
qed

lemma forward_offsets:
  "sorted_wrt (<) ds \<Longrightarrow> \<forall>d\<in>set ds. d < 2 ^ 15 \<Longrightarrow> successively seq_forward (map (\<lambda>d. s + word_of_nat d) ds)"
proof (induction ds)
  case (Cons d ds)
  show ?case
  proof (cases ds)
    case (Cons e es)
    then have "seq_forward (s + word_of_nat d) (s + word_of_nat e)"
      using Cons.prems by (intro seq_forward_offsets) auto
    then show ?thesis using Cons.IH Cons.prems Cons by simp
  qed simp
qed simp

text \<open>Emitting after \<open>ss\<close>, with the expectation one past the last of them, keeps the order.\<close>

lemma emits_extend:
  assumes "successively seq_forward ss" "list_all2 Q ss (map fst out)" "ss \<noteq> [] \<Longrightarrow> base = last ss + 1"
    and "emits Q base nxt em"
  obtains ss' where "successively seq_forward ss'" "list_all2 Q ss' (map fst (out @ em))" "ss' \<noteq> [] \<Longrightarrow> nxt = last ss' + 1"
    and "ss' \<noteq> [] \<or> nxt = base"
proof -
  obtain ds where ds: "sorted_wrt (<) ds" "\<forall>d\<in>set ds. d < 2 ^ 15"
    "list_all2 Q (map (\<lambda>d. base + word_of_nat d) ds) (map fst em)"
    "nxt = (if ds = [] then base else base + word_of_nat (Suc (last ds)))"
    using assms(4) unfolding emits_def by blast
  let ?ss = "ss @ map (\<lambda>d. base + word_of_nat d) ds"
  have "seq_forward (last ss) (base + word_of_nat (hd ds))" if "ss \<noteq> []" "ds \<noteq> []"
  proof -
    have "hd ds < 2 ^ 15" using ds(2) that by simp
    then have "seq_forward (last ss + word_of_nat 0) (last ss + word_of_nat (Suc (hd ds)))"
      by (intro seq_forward_offsets) simp_all
    then show ?thesis using assms(3) that by (simp add: add.assoc)
  qed
  then have "successively seq_forward ?ss"
    using assms(1) forward_offsets [OF ds(1,2), of base] by (cases ds) (auto simp: successively_append_iff)
  moreover have "list_all2 Q ?ss (map fst (out @ em))"
    using assms(2) ds(3) by (simp add: list_all2_appendI)
  moreover have "nxt = last ?ss + 1" if "?ss \<noteq> []"
    using that assms(3) ds(4) by (auto simp: last_map add.assoc)
  ultimately show ?thesis using that [of ?ss] ds(4) by auto
qed

definition arrivals_ok :: "jitter_arrival list \<Rightarrow> bool" where
  "arrivals_ok as \<longleftrightarrow> (\<forall>a\<in>set as. a_rtp a \<noteq> [] \<and> length (a_rtp a) \<le> 1214)"

lemma run_ordered:
  assumes "arrivals_ok as" "\<forall>a\<in>set as. Q (a_seq a) (a_rtp a)" "jitter_ok Q j"
    and "successively seq_forward ss" "list_all2 Q ss (map fst out)" "ss \<noteq> [] \<Longrightarrow> j_initialized j \<and> j_next_seq j = last ss + 1"
  shows "\<exists>j' out' ss'. jitter_run as j out = Some (j', out') \<and> jitter_ok Q j' \<and> successively seq_forward ss' \<and>
     list_all2 Q ss' (map fst out') \<and> (ss' \<noteq> [] \<longrightarrow> j_next_seq j' = last ss' + 1)"
  using assms
proof (induction as arbitrary: j out ss)
  case Nil
  then show ?case by auto
next
  case (Cons a as)
  let ?len = "word_of_nat (length (a_rtp a)) :: u32"
  have len: "0 < unat ?len" "unat ?len \<le> 1214" "unat ?len \<le> length (a_rtp a)" "take (unat ?len) (a_rtp a) = a_rtp a"
    using Cons.prems(1) by (auto simp: arrivals_ok_def unat_of_nat)
  have q: "Q (a_seq a) (take (unat ?len) (a_rtp a))" using Cons.prems(2) len(4) by simp
  let ?base = "if j_initialized j then j_next_seq j else a_seq a"
  obtain j1 em where st: "ngx_rtc_jitter_push (Some j) (Some (a_rtp a)) ?len (a_seq a) (a_gop a) (a_now a) (Some collect) out
        = Some (NGX_RTC_OK, Some j1, out @ em)" "jitter_ok Q j1" "j_initialized j1" "emits Q ?base (j_next_seq j1) em"
    using push_step [OF Cons.prems(3) len(1-3) q] by blast
  have b: "ss \<noteq> [] \<Longrightarrow> ?base = last ss + 1" using Cons.prems(6) by simp
  obtain ss1 where ss1: "successively seq_forward ss1" "list_all2 Q ss1 (map fst (out @ em))"
      "ss1 \<noteq> [] \<Longrightarrow> j_next_seq j1 = last ss1 + 1"
    using emits_extend [OF Cons.prems(4,5) b st(4)] by blast
  have "\<exists>j' out' ss'. jitter_run as j1 (out @ em) = Some (j', out') \<and> jitter_ok Q j' \<and> successively seq_forward ss' \<and>
     list_all2 Q ss' (map fst out') \<and> (ss' \<noteq> [] \<longrightarrow> j_next_seq j' = last ss' + 1)"
    using Cons.prems(1,2) ss1 st by (intro Cons.IH) (auto simp: arrivals_ok_def)
  then show ?case using st(1) by simp
qed

text \<open>A buffer that has just been reset.\<close>

definition jitter_fresh :: "u32 \<Rightarrow> ngx_rtc_jitter" where
  "jitter_fresh timeout = ngx_rtc_jitter_reset (jitter_zero\<lparr>j_gap_timeout_ms := timeout\<rparr>)"

lemma jitter_ok_fresh: "jitter_ok Q (jitter_fresh timeout)"
  by (simp add: jitter_fresh_def jitter_ok_def window_ok_reset) (simp add: ngx_rtc_jitter_reset_def jitter_zero_def)

text \<open>
  C14. From a reset buffer, every sequence of valid pushes returns (the gap scan always ends), and
  the packets given to the callback are packets that were pushed, in strictly forward sequence
  order: each is ahead of the one before it by at most half of the sequence space.
\<close>

theorem jitter_run_ordered:
  assumes "arrivals_ok as"
  shows "\<exists>j' out ss. jitter_run as (jitter_fresh timeout) [] = Some (j', out) \<and>
     list_all2 (\<lambda>s p. \<exists>a\<in>set as. a_seq a = s \<and> a_rtp a = p) ss (map fst out) \<and> successively seq_forward ss"
  using run_ordered [OF assms, where Q = "\<lambda>s p. \<exists>a\<in>set as. a_seq a = s \<and> a_rtp a = p"
      and j = "jitter_fresh timeout" and ss = "[]" and out = "[]"] by (fastforce simp: jitter_ok_fresh)

definition sample_arrivals :: "jitter_arrival list" where
  "sample_arrivals = [\<lparr>a_seq = 65535, a_rtp = [1], a_gop = 1, a_now = 1000\<rparr>, \<lparr>a_seq = 2, a_rtp = [4], a_gop = 0, a_now = 1001\<rparr>,
     \<lparr>a_seq = 0, a_rtp = [2], a_gop = 0, a_now = 1002\<rparr>, \<lparr>a_seq = 1, a_rtp = [3], a_gop = 0, a_now = 1003\<rparr>]"

theorem jitter_run_ordered_witness:
  "arrivals_ok sample_arrivals \<and>
   (\<exists>j' out ss. jitter_run sample_arrivals (jitter_fresh 0) [] = Some (j', out) \<and>
     list_all2 (\<lambda>s p. \<exists>a\<in>set sample_arrivals. a_seq a = s \<and> a_rtp a = p) ss (map fst out) \<and> successively seq_forward ss)"
proof -
  have ok: "arrivals_ok sample_arrivals" by (simp add: arrivals_ok_def sample_arrivals_def)
  show ?thesis using ok jitter_run_ordered [OF ok, of 0] by blast
qed

section \<open>Reordering without loss\<close>

lemma jitter_ok_mono: "jitter_ok Q j \<Longrightarrow> (\<And>s p. Q s p \<Longrightarrow> Q' s p) \<Longrightarrow> jitter_ok Q' j"
  by (auto simp: jitter_ok_def window_ok_def)

text \<open>
  The packets with offsets \<open>P\<close> from \<open>s\<close> have arrived, the first \<open>k\<close> offsets have been emitted in
  order and all others are cached; no deadline is due at the times from \<open>t\<close> on.
\<close>

definition arrived :: "u16 \<Rightarrow> (nat \<Rightarrow> jitter_arrival) \<Rightarrow> nat set \<Rightarrow> u16 \<Rightarrow> bytes \<Rightarrow> bool" where
  "arrived s arr P q p \<longleftrightarrow> (\<exists>i\<in>P. q = s + word_of_nat i \<and> p = a_rtp (arr i))"

definition reorder_inv ::
  "u16 \<Rightarrow> (nat \<Rightarrow> jitter_arrival) \<Rightarrow> nat \<Rightarrow> nat \<Rightarrow> nat \<Rightarrow> nat set \<Rightarrow> nat \<Rightarrow> ngx_rtc_jitter \<Rightarrow> (bytes \<times> u8) list \<Rightarrow> bool" where
  "reorder_inv s arr n t0 t P k j out \<longleftrightarrow>
     jitter_ok (arrived s arr P) j \<and> j_initialized j \<and> j_next_seq j = s + word_of_nat k \<and> k \<le> n \<and>
     map fst out = map (\<lambda>i. a_rtp (arr i)) [0..<k] \<and> {..<k} \<subseteq> P \<and> P \<subseteq> {..<n} \<and>
     card P = k + unat (j_pending j) \<and> (j_pending j = 0 \<longrightarrow> j_gap_ts j = 0) \<and>
     (j_pending j \<noteq> 0 \<longrightarrow> t0 \<le> unat (j_gap_ts j) \<and> unat (j_gap_ts j) \<le> t)"

lemma offset_eq: "i < 1000 \<Longrightarrow> i' < 1000 \<Longrightarrow> s + word_of_nat i = s + (word_of_nat i' :: u16) \<longleftrightarrow> i = i'"
proof -
  assume "i < 1000" "i' < 1000"
  then have "unat (word_of_nat i :: u16) = i" "unat (word_of_nat i' :: u16) = i'" by (simp_all add: unat_of_nat)
  then show ?thesis by (metis add_left_cancel)
qed

lemma arrived_consec:
  assumes "list_all2 (arrived s arr P) (consec (s + word_of_nat k) m) ps" "P \<subseteq> {..<n}" "n \<le> 128" "k \<le> 129" "m \<le> 128"
  shows "ps = map (\<lambda>i. a_rtp (arr i)) [k..<k + m]" "{k..<k + m} \<subseteq> P"
proof -
  have len: "length ps = m" using list_all2_lengthD [OF assms(1)] by simp
  have at: "k + l \<in> P \<and> ps ! l = a_rtp (arr (k + l))" if l: "l < m" for l
  proof -
    have "arrived s arr P (s + word_of_nat k + word_of_nat l) (ps ! l)"
      using list_all2_nthD [OF assms(1)] l by (simp add: consec_def)
    then obtain i where i: "i \<in> P" "s + word_of_nat (k + l) = s + word_of_nat i" "ps ! l = a_rtp (arr i)"
      by (auto simp: arrived_def add.assoc)
    have "i = k + l" using offset_eq [of "k + l" i s] i(1,2) assms l by auto
    then show ?thesis using i by simp
  qed
  show "ps = map (\<lambda>i. a_rtp (arr i)) [k..<k + m]"
    by (rule nth_equalityI) (use len at in auto)
  show "{k..<k + m} \<subseteq> P"
  proof
    fix x assume "x \<in> {k..<k + m}"
    then show "x \<in> P" using at [of "x - k"] by auto
  qed
qed

lemma no_deadline:
  assumes "t0 \<le> unat g" "unat g \<le> t" "t \<le> unat (now :: u32)" "unat now < t0 + unat timeout"
  shows "\<not> timeout \<le> now - g"
  using assms by (simp add: word_le_nat_alt word_less_nat_alt unat_sub)

lemma reorder_prep:
  assumes inv: "reorder_inv s arr n t0 t P k j out" and i: "i < n" "i \<notin> P"
    and arr: "a_seq (arr i) = s + word_of_nat i" "a_rtp (arr i) \<noteq> []" "length (a_rtp (arr i)) \<le> 1214"
  defines "len \<equiv> word_of_nat (length (a_rtp (arr i))) :: u32" and "Q \<equiv> arrived s arr (insert i P)"
  shows "len \<noteq> 0" "\<not> len > NGX_RTC_MAX_RTP_PKT" "unat len = length (a_rtp (arr i))"
    and "jitter_ok Q j" "Q (a_seq (arr i)) (a_rtp (arr i))" "k \<le> i"
    and "insert i P \<subseteq> {..<n}" "finite P" "window_ok Q j" "\<not> js_valid (win j 0)" "unat (j_pending j) = card (valid_set j)"
proof -
  note I = inv [unfolded reorder_inv_def]
  show l: "unat len = length (a_rtp (arr i))" using arr by (simp add: len_def unat_of_nat)
  show "len \<noteq> 0" "\<not> len > NGX_RTC_MAX_RTP_PKT" using l arr by (auto simp: word_less_nat_alt)
  show ok: "jitter_ok Q j" by (rule jitter_ok_mono [where Q = "arrived s arr P"]) (use I in \<open>auto simp: arrived_def Q_def\<close>)
  show "Q (a_seq (arr i)) (a_rtp (arr i))" using arr by (auto simp: arrived_def Q_def)
  show "k \<le> i" using I i by (meson lessThan_iff not_less subsetD)
  show "insert i P \<subseteq> {..<n}" "finite P" using I i by (auto intro: finite_subset)
  show "window_ok Q j" "\<not> js_valid (win j 0)" "unat (j_pending j) = card (valid_set j)"
    using ok by (auto simp: jitter_ok_def window_ok_def)
qed

lemma reorder_next:
  assumes inv: "reorder_inv s arr n t0 t P k j out" and n: "n \<le> 128" and i: "i < n" "i \<notin> P"
    and arr: "a_seq (arr i) = s + word_of_nat i" "a_rtp (arr i) \<noteq> []" "length (a_rtp (arr i)) \<le> 1214"
    and time: "0 < t0" "t0 \<le> t" "t \<le> unat (a_now (arr i))" "unat (a_now (arr i)) < t0 + unat (jitter_timeout j)" and k: "i = k"
  shows "\<exists>j' out' k'. ngx_rtc_jitter_push (Some j) (Some (a_rtp (arr i))) (word_of_nat (length (a_rtp (arr i))))
      (a_seq (arr i)) (a_gop (arr i)) (a_now (arr i)) (Some collect) out = Some (NGX_RTC_OK, Some j', out') \<and>
     reorder_inv s arr n t0 (unat (a_now (arr i))) (insert i P) k' j' out' \<and> jitter_timeout j' = jitter_timeout j"
proof -
  let ?a = "arr i" and ?Q = "arrived s arr (insert i P)"
  let ?len = "word_of_nat (length (a_rtp ?a)) :: u32"
  note I = inv [unfolded reorder_inv_def]
  note pre = reorder_prep [OF inv i arr]
  note len = pre(1-3) and P' = pre(7,8) and win = pre(9-11)
  have fold: "(if \<not> j_initialized j then j\<lparr>j_next_seq := a_seq ?a, j_initialized := True\<rparr> else j) = j"
    using I by simp
  note unf = ngx_rtc_jitter_push_def prod.case option.case Let_def fold
  let ?j = "j\<lparr>j_next_seq := j_next_seq j + 1\<rparr>"
  have sq: "a_seq ?a = j_next_seq j" using k arr I by simp
  have "window_ok ?Q (j\<lparr>j_next_seq := j_next_seq j + word_of_nat 1, j_n_skipped := j_n_skipped j\<rparr>)"
    by (rule window_ok_shift) (use win in auto)
  then have okj: "window_ok ?Q ?j" by simp
  obtain j' em where d: "ngx_rtc_jitter_drain ?j collect (out @ [(a_rtp ?a, a_gop ?a)]) = (j', (out @ [(a_rtp ?a, a_gop ?a)]) @ em)"
    "window_ok ?Q j'" "\<not> js_valid (win j' 0)" "j_next_seq j' = j_next_seq ?j + word_of_nat (length em)" "length em \<le> 128"
    "list_all2 ?Q (consec (j_next_seq ?j) (length em)) (map fst em)" "same_meta ?j j'"
    "j_pending j' \<noteq> 0 \<longrightarrow> j_gap_ts j' = j_gap_ts ?j" "card (valid_set j') = card (valid_set ?j) - length em"
    "length em \<le> card (valid_set ?j)" "j_pending j' = 0 \<longrightarrow> j_gap_ts j' = 0"
    using drain_spec [OF okj, of "out @ [(a_rtp ?a, a_gop ?a)]"] by blast
  have nx: "j_next_seq ?j = s + word_of_nat (k + 1)" using I by (simp add: add.assoc)
  have vs: "valid_set ?j = valid_set j" by (simp add: valid_set_def)
  note em = arrived_consec [OF d(6) [unfolded nx] P'(1) n, of]
  have e: "map fst em = map (\<lambda>i. a_rtp (arr i)) [k + 1..<k + 1 + length em]" "{k + 1..<k + 1 + length em} \<subseteq> insert i P"
    using em d(5) I n by auto
  have pend: "unat (j_pending j') = card (valid_set j')" using d(2) by (simp add: window_ok_def)
  have "k + 1 + length em \<le> n"
    using e(2) P' I i k by (cases "length em") (auto simp: subset_iff dest: spec [of _ "k + length em"])
  moreover have "{..<k + 1 + length em} \<subseteq> insert i P"
  proof
    fix x assume "x \<in> {..<k + 1 + length em}"
    then consider "x < k" | "x = k" | "x \<in> {k + 1..<k + 1 + length em}" by fastforce
    then show "x \<in> insert i P" using e(2) I k by cases auto
  qed
  moreover have "map fst ((out @ [(a_rtp ?a, a_gop ?a)]) @ em) = map (\<lambda>i. a_rtp (arr i)) [0..<k + 1 + length em]"
    using e(1) I k upt_add_eq_append [of 0 "k + 1" "length em"] by simp
  moreover have late: "j_pending j' \<noteq> 0 \<Longrightarrow> t0 \<le> unat (j_gap_ts j') \<and> unat (j_gap_ts j') \<le> t"
  proof -
    assume p: "j_pending j' \<noteq> 0"
    then have "0 < card (valid_set j)" using pend d(9,10) vs by (metis diff_is_0_eq' gr0I le_zero_eq unat_eq_zero)
    then have "j_pending j \<noteq> 0" using win(3) by auto
    then show ?thesis using d(8) p I by simp
  qed
  moreover have "card (insert i P) = k + 1 + length em + unat (j_pending j')"
    using I P' i pend d(9,10) win(3) vs by simp
  ultimately have "reorder_inv s arr n t0 (unat (a_now ?a)) (insert i P) (k + 1 + length em) j'
      ((out @ [(a_rtp ?a, a_gop ?a)]) @ em)"
    using d nx I P' time unfolding reorder_inv_def
    by (auto simp: jitter_ok_def same_meta_def add.assoc)
  moreover have "ngx_rtc_jitter_push (Some j) (Some (a_rtp ?a)) ?len (a_seq ?a) (a_gop ?a) (a_now ?a) (Some collect) out
      = Some (NGX_RTC_OK, Some j', (out @ [(a_rtp ?a, a_gop ?a)]) @ em)"
  proof -
    have "\<not> (j_pending j' > 0 \<and> a_now ?a - j_gap_ts j' \<ge> jitter_timeout j)"
      using late no_deadline [of t0 "j_gap_ts j'" t "a_now ?a" "jitter_timeout j"] time by auto
    then show ?thesis using d(1) len sq unfolding unf by (auto simp: collect_def)
  qed
  moreover have "jitter_timeout j' = jitter_timeout j"
    using d(7) by (simp add: same_meta_def jitter_timeout_def)
  ultimately show ?thesis by blast
qed

lemma reorder_ahead:
  assumes inv: "reorder_inv s arr n t0 t P k j out" and n: "n \<le> 128" and i: "i < n" "i \<notin> P"
    and arr: "a_seq (arr i) = s + word_of_nat i" "a_rtp (arr i) \<noteq> []" "length (a_rtp (arr i)) \<le> 1214"
    and time: "0 < t0" "t0 \<le> t" "t \<le> unat (a_now (arr i))" "unat (a_now (arr i)) < t0 + unat (jitter_timeout j)" and k: "i \<noteq> k"
  shows "\<exists>j' out' k'. ngx_rtc_jitter_push (Some j) (Some (a_rtp (arr i))) (word_of_nat (length (a_rtp (arr i))))
      (a_seq (arr i)) (a_gop (arr i)) (a_now (arr i)) (Some collect) out = Some (NGX_RTC_OK, Some j', out') \<and>
     reorder_inv s arr n t0 (unat (a_now (arr i))) (insert i P) k' j' out' \<and> jitter_timeout j' = jitter_timeout j"
proof -
  let ?a = "arr i" and ?Q = "arrived s arr (insert i P)"
  let ?len = "word_of_nat (length (a_rtp ?a)) :: u32"
  note I = inv [unfolded reorder_inv_def]
  note pre = reorder_prep [OF inv i arr]
  note len = pre(1-3) and P' = pre(7,8) and win = pre(9-11)
  have fold: "(if \<not> j_initialized j then j\<lparr>j_next_seq := a_seq ?a, j_initialized := True\<rparr> else j) = j"
    using I by simp
  note unf = ngx_rtc_jitter_push_def prod.case option.case Let_def fold
  have d: "0 < i - k" "i - k < 128" using pre(6) k i n by auto
  have L: "unat ?len \<le> 1214" using len(3) arr(3) by simp
  let ?j = "jitter_cache j (a_rtp ?a) ?len (a_seq ?a) (a_gop ?a) (a_now ?a)"
  have sq: "a_seq ?a = j_next_seq j + word_of_nat (i - k)" using arr I pre(6) by (simp add: of_nat_diff)
  have q': "?Q (a_seq ?a) (take (unat ?len) (a_rtp ?a))" using pre(5) len(3) by simp
  have w: "window_ok ?Q ?j" "js_valid (win ?j (i - k))" "\<And>e. e < 128 \<Longrightarrow> e \<noteq> i - k \<Longrightarrow> win ?j e = win j e"
    using window_ok_cache [OF win(1) sq d(2) L _ q'] len(3) by auto
  have new: "\<not> js_valid (j_slots j (jidx (a_seq ?a)))"
  proof
    assume "js_valid (j_slots j (jidx (a_seq ?a)))"
    then have "arrived s arr P (j_next_seq j + word_of_nat (i - k)) (slot_pkt (win j (i - k)))"
      using I d(2) unfolding sq by (auto simp: jitter_ok_def window_ok_def win_def)
    then obtain i' where "i' \<in> P" "s + word_of_nat i = s + word_of_nat i'"
      using sq arr by (auto simp: arrived_def)
    then show False using offset_eq [of i i' s] i n P' by auto
  qed
  have c: "j_pending ?j = j_pending j + 1" "j_gap_ts ?j = (if j_gap_ts j = 0 then a_now ?a else j_gap_ts j)"
    "j_next_seq ?j = j_next_seq j" "j_initialized ?j" "jitter_timeout ?j = jitter_timeout j"
    using new I by (simp_all add: jitter_cache_def Let_def jitter_timeout_def)
  have "valid_set j \<subseteq> {..<128}" by (auto simp: valid_set_def)
  then have "card (valid_set j) \<le> 128" using card_mono [of "{..<128 :: nat}"] by simp
  then have p1: "unat (j_pending ?j) = unat (j_pending j) + 1"
    using win(3) c(1) by (simp add: unat_plus_if')
  have gap: "t0 \<le> unat (j_gap_ts ?j) \<and> unat (j_gap_ts ?j) \<le> unat (a_now ?a)"
  proof (cases "j_gap_ts j = 0")
    case True
    then have "j_gap_ts ?j = a_now ?a" using c(2) by simp
    then show ?thesis using time by simp
  next
    case False
    then have "j_pending j \<noteq> 0" "j_gap_ts ?j = j_gap_ts j" using I c(2) by auto
    then show ?thesis using I time by (auto intro: le_trans)
  qed
  have far: "ngx_rtc_jitter_seq_gt (a_seq ?a) (j_next_seq j)" "\<not> a_seq ?a - j_next_seq j \<ge> 128" "a_seq ?a \<noteq> j_next_seq j"
  proof -
    have u: "unat (a_seq ?a - j_next_seq j) = i - k" using d sq by (simp add: unat_of_nat del: of_nat_diff)
    then show "ngx_rtc_jitter_seq_gt (a_seq ?a) (j_next_seq j)" using d by (simp add: seq_gt_iff)
    show "\<not> a_seq ?a - j_next_seq j \<ge> 128" using u d by (simp add: word_le_nat_alt)
    show "a_seq ?a \<noteq> j_next_seq j" using u d by auto
  qed
  have "ngx_rtc_jitter_push (Some j) (Some (a_rtp ?a)) ?len (a_seq ?a) (a_gop ?a) (a_now ?a) (Some collect) out
      = Some (NGX_RTC_OK, Some ?j, out)"
    using len far no_deadline [OF _ _ order_refl time(4), of "j_gap_ts ?j"] gap unfolding unf by simp
  moreover have "reorder_inv s arr n t0 (unat (a_now ?a)) (insert i P) k ?j out"
  proof -
    have "\<not> js_valid (win ?j 0)" using w(3) [of 0] d win(2) by simp
    then have "jitter_ok ?Q ?j" using w(1) c(4) by (simp add: jitter_ok_def)
    moreover have "j_pending ?j \<noteq> 0" using p1 by auto
    ultimately show ?thesis using I P' i c p1 gap unfolding reorder_inv_def by auto
  qed
  ultimately show ?thesis using c(5) by blast
qed

lemma reorder_run:
  assumes "n \<le> 128" "\<And>i. i < n \<Longrightarrow> a_seq (arr i) = s + word_of_nat i" "\<And>i. i < n \<Longrightarrow> a_rtp (arr i) \<noteq> [] \<and> length (a_rtp (arr i)) \<le> 1214"
    and "0 < t0" "t0 \<le> t"
  shows "reorder_inv s arr n t0 t P k j out \<Longrightarrow> distinct offs \<Longrightarrow> set offs \<inter> P = {} \<Longrightarrow> set offs \<subseteq> {..<n} \<Longrightarrow>
     sorted (map (\<lambda>i. unat (a_now (arr i))) offs) \<Longrightarrow> \<forall>i\<in>set offs. t \<le> unat (a_now (arr i)) \<and>
     unat (a_now (arr i)) < t0 + unat (jitter_timeout j) \<Longrightarrow>
     \<exists>j' out' k' t'. jitter_run (map arr offs) j out = Some (j', out') \<and> reorder_inv s arr n t0 t' (P \<union> set offs) k' j' out'"
  using assms(5)
proof (induction offs arbitrary: P k j out t)
  case Nil
  then show ?case by auto
next
  case (Cons i offs)
  have pre: "i < n" "i \<notin> P" "t \<le> unat (a_now (arr i))" "unat (a_now (arr i)) < t0 + unat (jitter_timeout j)"
    using Cons.prems by auto
  obtain j1 out1 k1 where st: "ngx_rtc_jitter_push (Some j) (Some (a_rtp (arr i))) (word_of_nat (length (a_rtp (arr i))))
      (a_seq (arr i)) (a_gop (arr i)) (a_now (arr i)) (Some collect) out = Some (NGX_RTC_OK, Some j1, out1)"
     "reorder_inv s arr n t0 (unat (a_now (arr i))) (insert i P) k1 j1 out1" "jitter_timeout j1 = jitter_timeout j"
    using assms(2-4) pre reorder_next [OF Cons.prems(1) assms(1) pre(1,2)]
      reorder_ahead [OF Cons.prems(1) assms(1) pre(1,2)] Cons.prems(7) by (cases "i = k") blast+
  have "\<exists>j' out' k' t'. jitter_run (map arr offs) j1 out1 = Some (j', out') \<and>
      reorder_inv s arr n t0 t' (insert i P \<union> set offs) k' j' out'"
    by (rule Cons.IH [OF st(2)]) (use Cons.prems st(3) in auto)
  then show ?case using st(1) by simp
qed

text \<open>When every offset has arrived nothing is left in the buffer.\<close>

lemma reorder_complete:
  assumes inv: "reorder_inv s arr n t0 t {..<n} k j out" and n: "n \<le> 128"
  shows "k = n" "j_pending j = 0"
proof -
  note I = inv [unfolded reorder_inv_def]
  have c: "n = k + unat (j_pending j)" "unat (j_pending j) = card (valid_set j)"
    using I by (auto simp: jitter_ok_def window_ok_def)
  have sub: "valid_set j \<subseteq> (\<lambda>d. jidx (j_next_seq j + word_of_nat d)) ` {1..<n - k}"
  proof
    fix x assume x: "x \<in> valid_set j"
    then obtain d where d: "d < 128" "jidx (j_next_seq j + word_of_nat d) = x"
      using jidx_onto [of x "j_next_seq j"] by (auto simp: valid_set_def)
    then have v: "js_valid (win j d)" using x by (simp add: win_def valid_set_def)
    then have "arrived s arr {..<n} (j_next_seq j + word_of_nat d) (slot_pkt (win j d))"
      using I d(1) by (auto simp: jitter_ok_def window_ok_def)
    then obtain i where "i < n" "s + word_of_nat (k + d) = s + word_of_nat i"
      using I by (auto simp: arrived_def add.assoc)
    then have "k + d < n" using offset_eq [of "k + d" i s] c(1) d(1) n by auto
    moreover have "d \<noteq> 0"
    proof
      assume "d = 0"
      then show False using v I by (simp add: jitter_ok_def)
    qed
    ultimately show "x \<in> (\<lambda>d. jidx (j_next_seq j + word_of_nat d)) ` {1..<n - k}" using d(2) by auto
  qed
  have "card (valid_set j) \<le> card {1..<n - k}"
    using card_mono [OF _ sub] card_image_le [of "{1..<n - k}"] by (meson finite_atLeastLessThan finite_imageI le_trans)
  then have p: "unat (j_pending j) = 0" using c by (cases "n - k") auto
  then show "j_pending j = 0" by (simp add: unat_eq_zero)
  show "k = n" using c p by simp
qed

lemma run_anchored:
  assumes "a_rtp a \<noteq> []" "length (a_rtp a) \<le> 1214"
  shows "jitter_run (a # as) (anchored j (a_seq a)) out = jitter_run (a # as) j out"
proof -
  let ?len = "word_of_nat (length (a_rtp a)) :: u32"
  have "unat ?len = length (a_rtp a)" using assms by (simp add: unat_of_nat)
  then have "?len \<noteq> 0" "\<not> ?len > NGX_RTC_MAX_RTP_PKT" using assms by (auto simp: word_less_nat_alt)
  then show ?thesis by (simp add: ngx_rtc_jitter_push_def anchored_def jitter_timeout_def)
qed

text \<open>
  C13. Reordering is undone without loss: \<open>n \<le> 128\<close> consecutive packets that arrive in any order
  with the first one first, before the gap deadline, come out complete and in sequence order, and
  nothing stays in the buffer.
\<close>

theorem jitter_reorders:
  assumes "n \<le> 128" "distinct (0 # offs)" "set (0 # offs) = {..<n}"
    and "\<And>i. i < n \<Longrightarrow> a_seq (arr i) = s + word_of_nat i"
    and "\<And>i. i < n \<Longrightarrow> a_rtp (arr i) \<noteq> [] \<and> length (a_rtp (arr i)) \<le> 1214"
    and "sorted (map (\<lambda>i. unat (a_now (arr i))) (0 # offs))" "0 < unat (a_now (arr 0))"
    and "\<And>i. i < n \<Longrightarrow> unat (a_now (arr i)) < unat (a_now (arr 0)) + unat (jitter_timeout (jitter_fresh timeout))"
  shows "\<exists>j' out. jitter_run (map arr (0 # offs)) (jitter_fresh timeout) [] = Some (j', out) \<and>
     map fst out = map (\<lambda>i. a_rtp (arr i)) [0..<n] \<and> j_pending j' = 0"
proof -
  let ?j = "anchored (jitter_fresh timeout) (a_seq (arr 0))" and ?t = "unat (a_now (arr 0))"
  have n0: "0 < n" using assms(3) by auto
  have f: "\<not> j_initialized (jitter_fresh timeout)" "j_pending (jitter_fresh timeout) = 0" "j_gap_ts (jitter_fresh timeout) = 0"
    by (simp_all add: jitter_fresh_def ngx_rtc_jitter_reset_def jitter_zero_def)
  have inv: "reorder_inv s arr n ?t ?t {} 0 ?j []"
    using anchored_ok [OF jitter_ok_fresh [where timeout = timeout], where seq = "a_seq (arr 0)"] f assms(4) [OF n0]
    unfolding reorder_inv_def by (simp add: jitter_ok_def) (simp add: anchored_def)
  have timeout: "jitter_timeout ?j = jitter_timeout (jitter_fresh timeout)" by (simp add: anchored_def jitter_timeout_def)
  have due: "\<forall>i\<in>set (0 # offs). ?t \<le> unat (a_now (arr i)) \<and> unat (a_now (arr i)) < ?t + unat (jitter_timeout ?j)"
    unfolding timeout
  proof
    fix i assume i: "i \<in> set (0 # offs)"
    then have "i < n" using assms(3) by blast
    then show "?t \<le> unat (a_now (arr i)) \<and> unat (a_now (arr i)) < ?t + unat (jitter_timeout (jitter_fresh timeout))"
      using i assms(6) assms(8) [of i] by auto
  qed
  have "\<exists>j' out k t'. jitter_run (map arr (0 # offs)) ?j [] = Some (j', out) \<and>
      reorder_inv s arr n ?t t' ({} \<union> set (0 # offs)) k j' out"
    by (rule reorder_run [OF assms(1,4,5,7) order_refl inv assms(2) _ _ assms(6) due]) (use assms(3) in blast)+
  then obtain j' out k t' where r: "jitter_run (map arr (0 # offs)) ?j [] = Some (j', out)"
      "reorder_inv s arr n ?t t' ({} \<union> set (0 # offs)) k j' out" by blast
  have "k = n" "j_pending j' = 0" using reorder_complete [of s arr n ?t t' k j' out] r(2) assms(1,3) by auto
  moreover have "map fst out = map (\<lambda>i. a_rtp (arr i)) [0..<k]" using r(2) by (simp add: reorder_inv_def)
  ultimately show ?thesis using r(1) run_anchored [of "arr 0"] assms(5) [OF n0] by simp
qed

definition sample_arr :: "nat \<Rightarrow> jitter_arrival" where
  "sample_arr i = \<lparr>a_seq = 65534 + word_of_nat i, a_rtp = [word_of_nat i], a_gop = 0,
     a_now = (if i = 0 then 7 else if i = 3 then 8 else 9)\<rparr>"

theorem jitter_reorders_witness:
  "\<exists>j' out. jitter_run (map sample_arr [0, 3, 1, 2]) (jitter_fresh 0) [] = Some (j', out) \<and>
     map fst out = map (\<lambda>i. a_rtp (sample_arr i)) [0..<4] \<and> j_pending j' = 0"
proof -
  have t: "unat (jitter_timeout (jitter_fresh 0)) = 50"
    by (simp add: jitter_timeout_def jitter_fresh_def ngx_rtc_jitter_reset_def jitter_zero_def)
  have s4: "set (0 # [3, 1, 2]) = {..<4 :: nat}" by auto
  show ?thesis
    by (rule jitter_reorders [of 4 "[3, 1, 2]" sample_arr 65534 0, OF _ _ s4]) (auto simp: sample_arr_def t)
qed

section \<open>Gap deadline and diagnostics\<close>

text \<open>
  The gap deadline bounds how long a loss can hold packets back: once the first cached packet
  has waited for the timeout, the next packet cached ahead of the expected one skips the gap,
  emits at least one packet, and leaves the expectation after the last packet emitted.
\<close>

theorem jitter_deadline:
  assumes ok: "jitter_ok Q j" "j_initialized j" and len: "0 < unat len" "unat len \<le> 1214" "unat len \<le> length rtp"
    and seq: "seq = j_next_seq j + word_of_nat d" "0 < d" "d < 128" and q: "Q seq (take (unat len) rtp)"
    and due: "j_gap_ts j \<noteq> 0" "jitter_timeout j \<le> now - j_gap_ts j"
  shows "\<exists>j' em k. ngx_rtc_jitter_push (Some j) (Some rtp) len seq g now (Some collect) out
        = Some (NGX_RTC_OK, Some j', out @ em) \<and> em \<noteq> [] \<and> k \<le> d \<and>
     list_all2 Q (consec (j_next_seq j + word_of_nat k) (length em)) (map fst em) \<and>
     j_next_seq j' = j_next_seq j + word_of_nat (k + length em)"
proof -
  let ?j = "jitter_cache j rtp len seq g now"
  have win: "window_ok Q j" using ok by (simp add: jitter_ok_def)
  note c = window_ok_cache [OF win seq(1,3) len(2,3) q, where g = g and now = now]
  have nx: "j_next_seq ?j = j_next_seq j" "j_gap_ts ?j = j_gap_ts j" using due by (simp_all add: jitter_cache_def Let_def)
  have "jidx (j_next_seq ?j + word_of_nat d) \<in> valid_set ?j" using c(2) by (simp add: valid_set_def win_def)
  then have "0 < card (valid_set ?j)" by (auto simp: card_gt_0_iff)
  then have "j_pending ?j \<noteq> 0" using c(1) by (auto simp: window_ok_def)
  then obtain k where k: "k < 128" "js_valid (win ?j k)" "\<And>l. l < k \<Longrightarrow> \<not> js_valid (win ?j l)"
    using pending_first [OF c(1)] by blast
  then have "k \<le> d" using c(2) by (meson not_less)
  obtain j' em where s: "ngx_rtc_jitter_skip_gap ?j collect out = Some (j', out @ em)" "em \<noteq> []"
     "j_next_seq j' = j_next_seq ?j + word_of_nat (k + length em)"
     "list_all2 Q (consec (j_next_seq ?j + word_of_nat k) (length em)) (map fst em)"
    using skip_gap_spec [OF c(1) k] by blast
  have u: "unat (seq - j_next_seq j) = d" using seq by (simp add: unat_of_nat)
  have "ngx_rtc_jitter_seq_gt seq (j_next_seq j)" "\<not> seq - j_next_seq j \<ge> 128" "seq \<noteq> j_next_seq j"
    using u seq by (auto simp: seq_gt_iff word_le_nat_alt)
  moreover have "len \<noteq> 0" "\<not> len > NGX_RTC_MAX_RTP_PKT" using len by (auto simp: word_less_nat_alt)
  ultimately have "ngx_rtc_jitter_push (Some j) (Some rtp) len seq g now (Some collect) out
        = Some (NGX_RTC_OK, Some j', out @ em)"
    using s(1) ok(2) due(2) nx(2) by (simp add: ngx_rtc_jitter_push_def Let_def)
  then show ?thesis using s nx(1) \<open>k \<le> d\<close> by auto
qed

definition sample_waiting :: ngx_rtc_jitter where
  "sample_waiting = (jitter_fresh 0)\<lparr>j_next_seq := 9, j_initialized := True, j_gap_ts := 100\<rparr>"

lemma jitter_ok_waiting: "jitter_ok (\<lambda>_ _. True) sample_waiting"
  by (simp add: sample_waiting_def jitter_ok_def window_ok_def win_def valid_set_def jitter_fresh_def
      ngx_rtc_jitter_reset_def jitter_zero_def)

theorem jitter_deadline_witness:
  "\<exists>j' em k. ngx_rtc_jitter_push (Some sample_waiting) (Some [7]) 1 12 0 150 (Some collect) []
        = Some (NGX_RTC_OK, Some j', [] @ em) \<and> em \<noteq> [] \<and> k \<le> 3 \<and>
     list_all2 (\<lambda>_ _. True) (consec (j_next_seq sample_waiting + word_of_nat k) (length em)) (map fst em) \<and>
     j_next_seq j' = j_next_seq sample_waiting + word_of_nat (k + length em)"
  by (rule jitter_deadline [OF jitter_ok_waiting])
     (simp_all add: sample_waiting_def jitter_timeout_def jitter_fresh_def ngx_rtc_jitter_reset_def jitter_zero_def)

lemma run_reanchor:
  assumes "arrivals_ok as" "jitter_ok (\<lambda>_ _. True) j" "j_n_reanchor j \<le> 1" "jitter_run as j out = Some (j', out')"
  shows "j_n_reanchor j' \<le> 1"
  using assms
proof (induction as arbitrary: j out)
  case (Cons a as)
  let ?len = "word_of_nat (length (a_rtp a)) :: u32"
  have len: "0 < unat ?len" "unat ?len \<le> 1214" "unat ?len \<le> length (a_rtp a)"
    using Cons.prems(1) by (auto simp: arrivals_ok_def unat_of_nat)
  obtain j1 em where st: "ngx_rtc_jitter_push (Some j) (Some (a_rtp a)) ?len (a_seq a) (a_gop a) (a_now a) (Some collect) out
        = Some (NGX_RTC_OK, Some j1, out @ em)" "jitter_ok (\<lambda>_ _. True) j1" "j_n_reanchor j1 = j_n_reanchor j \<or> j_n_reanchor j1 = 1"
    using push_step [OF Cons.prems(2) len TrueI] by blast
  then have "j_n_reanchor j1 \<le> 1" using Cons.prems(3) by auto
  moreover have "jitter_run as j1 (out @ em) = Some (j', out')" using Cons.prems(4) st(1) by simp
  ultimately show ?case using Cons.IH [OF _ st(2)] Cons.prems(1) by (simp add: arrivals_ok_def)
qed simp

text \<open>
  The re-anchor counter saturates at one: re-anchoring resets the whole buffer, its diagnostic
  counters included, before it counts itself.
\<close>

theorem jitter_reanchor_saturates:
  assumes "arrivals_ok as" "jitter_run as (jitter_fresh timeout) [] = Some (j, out)"
  shows "j_n_reanchor j \<le> 1"
  by (rule run_reanchor [OF assms(1) jitter_ok_fresh _ assms(2)])
     (simp add: jitter_fresh_def ngx_rtc_jitter_reset_def jitter_zero_def)

definition sample_jumps :: "jitter_arrival list" where
  "sample_jumps = [\<lparr>a_seq = 1, a_rtp = [1], a_gop = 0, a_now = 5\<rparr>, \<lparr>a_seq = 501, a_rtp = [1], a_gop = 0, a_now = 5\<rparr>,
     \<lparr>a_seq = 1001, a_rtp = [1], a_gop = 0, a_now = 5\<rparr>]"

theorem jitter_reanchor_saturates_witness:
  "\<exists>j out. jitter_run sample_jumps (jitter_fresh 0) [] = Some (j, out) \<and> length out = 3 \<and> j_n_reanchor j \<le> 1"
proof -
  have ok: "arrivals_ok sample_jumps" by (simp add: arrivals_ok_def sample_jumps_def)
  have "map_option (\<lambda>(j, out). length out) (jitter_run sample_jumps (jitter_fresh 0) []) = Some 3" by code_simp
  then obtain j out where r: "jitter_run sample_jumps (jitter_fresh 0) [] = Some (j, out)" "length out = 3" by auto
  show ?thesis using r jitter_reanchor_saturates [OF ok r(1)] by blast
qed

end
