(* ===== verification/AvSync.thy ===== *)
theory AvSync
  imports Prelude
begin

text \<open>
  The mapping from RTP timestamps to the NTP wall clock of \<^verbatim>\<open>src/ngx_rtc_avsync.c\<close>: two sender
  reports anchor a line, and a timestamp is placed on it with a rational slope. NTP times are
  64-bit, RTP timestamps 32-bit with wrap-aware distance, and the product that applies the slope is
  formed in 128 bits, all of which the model keeps.
\<close>

section \<open>State and operations\<close>

record ngx_rtc_avsync =
  as_has_anchor :: bool
  as_has_slope :: bool
  as_ntp_cur :: u64
  as_rtp_cur :: u32
  as_ntp_prev :: u64
  as_rtp_prev :: u32
  as_slope_num :: u64
  as_slope_den :: u64

definition ngx_rtc_avsync_rtp_delta :: "u32 \<Rightarrow> u32 \<Rightarrow> int" where
  "ngx_rtc_avsync_rtp_delta a b = sint (a - b)"

definition ngx_rtc_avsync_calibrate ::
  "ngx_rtc_avsync \<Rightarrow> u64 \<Rightarrow> u32 \<Rightarrow> u64 \<Rightarrow> u32 \<Rightarrow> u32 \<Rightarrow> ngx_rtc_avsync" where
  "ngx_rtc_avsync_calibrate s ntp_prev rtp_prev ntp_cur rtp_cur drtp =
     s\<lparr>as_ntp_prev := ntp_prev, as_rtp_prev := rtp_prev, as_ntp_cur := ntp_cur, as_rtp_cur := rtp_cur,
       as_slope_num := ntp_cur - ntp_prev, as_slope_den := ucast drtp, as_has_slope := True\<rparr>"

definition ngx_rtc_avsync_init :: "ngx_rtc_avsync option \<Rightarrow> ngx_rtc_avsync option" where
  "ngx_rtc_avsync_init sp = (case sp of None \<Rightarrow> None | Some s \<Rightarrow>
     Some \<lparr>as_has_anchor = False, as_has_slope = False, as_ntp_cur = 0, as_rtp_cur = 0, as_ntp_prev = 0,
           as_rtp_prev = 0, as_slope_num = 0, as_slope_den = 0\<rparr>)"

definition ngx_rtc_avsync_on_sr :: "ngx_rtc_avsync option \<Rightarrow> u64 \<Rightarrow> u32 \<Rightarrow> int \<times> ngx_rtc_avsync option" where
  "ngx_rtc_avsync_on_sr sp ntp rtp_ts =
     (case sp of
        None \<Rightarrow> (NGX_RTC_ERR_INVALID, sp)
      | Some s \<Rightarrow>
          if \<not> as_has_anchor s then
            (NGX_RTC_AGAIN, Some (s\<lparr>as_ntp_cur := ntp, as_rtp_cur := rtp_ts, as_has_anchor := True\<rparr>))
          else if ntp = as_ntp_cur s then (NGX_RTC_OK, sp)
          else if ntp < as_ntp_cur s then
            (let drtp = ngx_rtc_avsync_rtp_delta (as_rtp_cur s) rtp_ts in
             if drtp \<le> 0 then (NGX_RTC_OK, sp)
             else (NGX_RTC_OK, Some (ngx_rtc_avsync_calibrate s ntp rtp_ts (as_ntp_cur s) (as_rtp_cur s) (word_of_int drtp))))
          else
            (let drtp = ngx_rtc_avsync_rtp_delta rtp_ts (as_rtp_cur s) in
             if drtp \<le> 0 then (NGX_RTC_OK, sp)
             else (NGX_RTC_OK, Some (ngx_rtc_avsync_calibrate s (as_ntp_cur s) (as_rtp_cur s) ntp rtp_ts (word_of_int drtp)))))"

text \<open>The slope applied to a distance: \<^verbatim>\<open>(uint64_t)(((__uint128_t)adelta * num) / den)\<close>.\<close>

definition avsync_scale :: "u64 \<Rightarrow> u64 \<Rightarrow> u64 \<Rightarrow> u64" where
  "avsync_scale adelta num den = ucast ((ucast adelta * ucast num :: u128) div ucast den)"

definition ngx_rtc_avsync_map_rtp_to_wall ::
  "ngx_rtc_avsync option \<Rightarrow> u32 \<Rightarrow> u64 option \<Rightarrow> int \<times> u64 option" where
  "ngx_rtc_avsync_map_rtp_to_wall sp rtp_ts outp =
     (case (sp, outp) of
        (Some s, Some _) \<Rightarrow>
          if \<not> as_has_slope s then (NGX_RTC_AGAIN, outp)
          else
            (let delta = ngx_rtc_avsync_rtp_delta rtp_ts (as_rtp_cur s) in
             if delta \<ge> 0
             then (NGX_RTC_OK, Some (as_ntp_cur s + avsync_scale (word_of_int delta) (as_slope_num s) (as_slope_den s)))
             else (NGX_RTC_OK, Some (as_ntp_cur s - avsync_scale (word_of_int (- delta)) (as_slope_num s) (as_slope_den s))))
      | _ \<Rightarrow> (NGX_RTC_ERR_INVALID, outp))"

section \<open>Arithmetic\<close>

lemma avsync_scale_exact:
  assumes "unat a \<le> 2 ^ 31"
  shows "unat (avsync_scale a n d) = (unat a * unat n div unat d) mod 2 ^ 64"
proof -
  have up: "unat (ucast w :: u128) = unat w" for w :: u64
    using unsigned_less [of w, where ?'a = nat] by (simp add: unsigned_ucast_eq take_bit_nat_eq_self)
  have "unat n < 2 ^ 64" using unsigned_less [of n, where ?'a = nat] by simp
  then have "unat a * unat n \<le> 2 ^ 31 * 2 ^ 64" using assms by (intro mult_le_mono) simp_all
  then have "unat (ucast a * ucast n :: u128) = unat a * unat n"
    by (simp only: unat_word_ariths up) simp
  then have "unat ((ucast a * ucast n :: u128) div ucast d) = unat a * unat n div unat d"
    by (simp only: unat_div up)
  then show ?thesis unfolding avsync_scale_def
    by (simp only: unsigned_ucast_eq take_bit_eq_mod) simp
qed

lemma avsync_scale_ends:
  "0 < unat d \<Longrightarrow> unat d \<le> 2 ^ 31 \<Longrightarrow> avsync_scale d n d = n" "avsync_scale 0 n d = 0"
proof -
  assume d: "0 < unat d" "unat d \<le> 2 ^ 31"
  have "unat (avsync_scale d n d) = unat n mod 2 ^ 64"
    using d by (simp only: avsync_scale_exact) simp
  also have "\<dots> = unat n" using unsigned_less [of n, where ?'a = nat] by simp
  finally show "avsync_scale d n d = n" by (simp only: word_unat_eq_iff)
next
  show "avsync_scale 0 n d = 0" by (simp add: avsync_scale_def)
qed

lemma word_of_int_delta:
  assumes "0 < ngx_rtc_avsync_rtp_delta a b"
  shows "word_of_int (ngx_rtc_avsync_rtp_delta a b) = a - b" "unat (a - b) < 2 ^ 31" "0 < unat (a - b)"
    and "(word_of_int (ngx_rtc_avsync_rtp_delta a b) :: u64) = ucast (a - b)"
proof -
  show u: "unat (a - b) < 2 ^ 31" "0 < unat (a - b)"
    using assms by (simp_all add: ngx_rtc_avsync_rtp_delta_def sint_pos_u32)
  then have "ngx_rtc_avsync_rtp_delta a b = int (unat (a - b))"
    unfolding ngx_rtc_avsync_rtp_delta_def by (simp only: sint_u32) simp
  then have d: "ngx_rtc_avsync_rtp_delta a b = uint (a - b)" by simp
  show "word_of_int (ngx_rtc_avsync_rtp_delta a b) = a - b" unfolding d by simp
  show "(word_of_int (ngx_rtc_avsync_rtp_delta a b) :: u64) = ucast (a - b)" unfolding d by (simp add: unsigned_ucast_eq)
qed

lemma delta_swap: "unat (a - b) < 2 ^ 31 \<Longrightarrow> 0 < unat (a - b) \<Longrightarrow> ngx_rtc_avsync_rtp_delta b a = - int (unat (a - b))"
proof -
  assume u: "unat (a - b) < 2 ^ 31" "0 < unat (a - b)"
  have m: "unat (b - a) = 2 ^ 32 - unat (a - b)"
  proof -
    have "unat (0 - (a - b)) = 2 ^ 32 - unat (a - b)" using u(2) by (simp only: unat_sub_if') simp
    then show ?thesis by (simp only: diff_0 minus_diff_eq)
  qed
  then have "\<not> unat (b - a) < 2147483648" using u by simp
  then have "sint (b - a) = int (unat (b - a)) - 4294967296" by (simp only: sint_u32 if_False)
  also have "\<dots> = - int (unat (a - b))" unfolding m using u(1) by (simp add: of_nat_diff)
  finally show ?thesis by (simp only: ngx_rtc_avsync_rtp_delta_def)
qed

section \<open>Invariant\<close>

definition avsync_ok :: "ngx_rtc_avsync \<Rightarrow> bool" where
  "avsync_ok s \<longleftrightarrow> (as_has_slope s \<longrightarrow> as_has_anchor s \<and> as_ntp_prev s < as_ntp_cur s \<and>
     as_slope_num s = as_ntp_cur s - as_ntp_prev s \<and> as_slope_den s = ucast (as_rtp_cur s - as_rtp_prev s) \<and>
     0 < unat (as_rtp_cur s - as_rtp_prev s) \<and> unat (as_rtp_cur s - as_rtp_prev s) < 2 ^ 31)"

lemma on_sr_ok:
  assumes "avsync_ok s" "ngx_rtc_avsync_on_sr (Some s) ntp rtp = (rc, Some s')"
  shows "avsync_ok s'" "as_has_anchor s \<Longrightarrow> as_ntp_cur s \<le> as_ntp_cur s'" "as_has_anchor s'"
    and "as_has_slope s \<Longrightarrow> as_has_slope s'"
  using assms word_of_int_delta [of "as_rtp_cur s" rtp] word_of_int_delta [of rtp "as_rtp_cur s"]
  by (auto simp: ngx_rtc_avsync_on_sr_def avsync_ok_def Let_def ngx_rtc_avsync_calibrate_def not_le not_less split: if_splits)

lemma on_sr_Some: "\<exists>rc s'. ngx_rtc_avsync_on_sr (Some s) ntp rtp = (rc, Some s')"
  by (simp add: ngx_rtc_avsync_on_sr_def Let_def)

text \<open>A history of reports.\<close>

fun avsync_run :: "(u64 \<times> u32) list \<Rightarrow> ngx_rtc_avsync option \<Rightarrow> ngx_rtc_avsync option" where
  "avsync_run [] sp = sp"
| "avsync_run ((ntp, rtp) # rs) sp = avsync_run rs (snd (ngx_rtc_avsync_on_sr sp ntp rtp))"

lemma avsync_run_ok:
  "avsync_ok s \<Longrightarrow> \<exists>s'. avsync_run rs (Some s) = Some s' \<and> avsync_ok s' \<and>
     (as_has_anchor s \<longrightarrow> as_ntp_cur s \<le> as_ntp_cur s')"
proof (induction rs arbitrary: s)
  case (Cons r rs)
  obtain ntp rtp rc s1 where r: "r = (ntp, rtp)" "ngx_rtc_avsync_on_sr (Some s) ntp rtp = (rc, Some s1)"
    using on_sr_Some by (metis surj_pair)
  then show ?case
    using Cons.IH [of s1] on_sr_ok [OF Cons.prems r(2)] by auto
qed simp

section \<open>Properties\<close>


definition sample_reports :: "(u64 \<times> u32) list" where
  "sample_reports = [(1000000, 0xFFFFFF00), (1900000, 0x00000100), (1400000, 0xFFFFFFF0)]"


text \<open>
  The reference never goes back: over any history of reports the reference NTP time only
  grows, and the invariant that makes the slope division defined (a positive denominator
  below \<open>2 ^ 31\<close>) is kept.
\<close>

theorem avsync_no_regress:
  assumes "avsync_run rs (ngx_rtc_avsync_init (Some s0)) = Some s" "avsync_run rs' (Some s) = Some s'" "as_has_anchor s"
  shows "as_ntp_cur s \<le> as_ntp_cur s' \<and> (as_has_slope s' \<longrightarrow> 0 < unat (as_slope_den s') \<and> unat (as_slope_den s') < 2 ^ 31)"
proof -
  obtain i where "ngx_rtc_avsync_init (Some s0) = Some i" "avsync_ok i"
    by (simp add: ngx_rtc_avsync_init_def avsync_ok_def)
  then have "avsync_ok s" using avsync_run_ok [of i rs] assms by auto
  then have "avsync_ok s'" "as_ntp_cur s \<le> as_ntp_cur s'" using avsync_run_ok [of s rs'] assms by auto
  then show ?thesis by (auto simp: avsync_ok_def unsigned_ucast_eq take_bit_nat_eq_self)
qed

theorem avsync_no_regress_witness:
  "\<exists>s s'. avsync_run [(1000, 90)] (ngx_rtc_avsync_init (Some undefined)) = Some s \<and> as_has_anchor s \<and>
     avsync_run [(500, 10), (2000, 190)] (Some s) = Some s' \<and> as_ntp_cur s \<le> as_ntp_cur s' \<and> as_has_slope s' \<and> 0 < unat (as_slope_den s')"
proof -
  obtain s s' where s: "avsync_run [(1000, 90)] (ngx_rtc_avsync_init (Some undefined)) = Some s" "as_has_anchor s"
    "avsync_run [(500, 10), (2000, 190)] (Some s) = Some s'" "as_has_slope s'"
    by (rule that) code_simp+
  show ?thesis using s avsync_no_regress [OF s(1,3,2)] by blast
qed

text \<open>
  Ahead of the reference, a timestamp at distance \<open>d\<close> is mapped to the reference time plus
  the exact \<open>d * num div den\<close>, modulo \<open>2 ^ 64\<close>: the 128-bit product never overflows.
\<close>

theorem avsync_forward_exact:
  assumes "as_has_slope s" "unat (rtp_ts - as_rtp_cur s) < 2 ^ 31"
  shows "\<exists>w. ngx_rtc_avsync_map_rtp_to_wall (Some s) rtp_ts (Some x) = (NGX_RTC_OK, Some w) \<and>
     unat w = (unat (as_ntp_cur s) + unat (rtp_ts - as_rtp_cur s) * unat (as_slope_num s) div unat (as_slope_den s)) mod 2 ^ 64"
proof -
  let ?d = "rtp_ts - as_rtp_cur s"
  have "sint ?d = int (unat ?d)" using assms(2) by (simp only: sint_u32) simp
  then have d: "ngx_rtc_avsync_rtp_delta rtp_ts (as_rtp_cur s) = int (unat ?d)" by (simp only: ngx_rtc_avsync_rtp_delta_def)
  have wd: "(word_of_int (int (unat ?d)) :: u64) = ucast ?d" by (simp add: unsigned_ucast_eq)
  have "unat (ucast ?d :: u64) = unat ?d" using assms(2) by (simp add: unsigned_ucast_eq take_bit_nat_eq_self)
  then have sc: "unat (avsync_scale (ucast ?d) (as_slope_num s) (as_slope_den s))
      = (unat ?d * unat (as_slope_num s) div unat (as_slope_den s)) mod 2 ^ 64"
    using assms(2) by (subst avsync_scale_exact) simp_all
  have "ngx_rtc_avsync_map_rtp_to_wall (Some s) rtp_ts (Some x)
      = (NGX_RTC_OK, Some (as_ntp_cur s + avsync_scale (ucast ?d) (as_slope_num s) (as_slope_den s)))"
    unfolding ngx_rtc_avsync_map_rtp_to_wall_def Let_def d option.case prod.case
    by (simp only: wd assms(1) of_nat_0_le_iff if_True if_False not_True_eq_False)
  then show ?thesis using sc by (simp add: unat_word_ariths mod_add_right_eq)
qed

theorem avsync_forward_exact_witness:
  "\<exists>w. ngx_rtc_avsync_map_rtp_to_wall (Some \<lparr>as_has_anchor = True, as_has_slope = True, as_ntp_cur = 5000, as_rtp_cur = 0xFFFFFFFE,
     as_ntp_prev = 0, as_rtp_prev = 0xFFFFFFF8, as_slope_num = 7, as_slope_den = 6\<rparr>) 1 (Some 0) = (NGX_RTC_OK, Some w) \<and> unat w = 5003"
  using avsync_forward_exact [of "\<lparr>as_has_anchor = True, as_has_slope = True, as_ntp_cur = 5000, as_rtp_cur = 0xFFFFFFFE,
     as_ntp_prev = 0, as_rtp_prev = 0xFFFFFFF8, as_slope_num = 7, as_slope_den = 6\<rparr>" 1 0] by simp

end
