(* ===== verification/Hsm.thy ===== *)
theory Hsm
  imports Prelude
begin

text \<open>
  The hierarchical state machine engine of \<^verbatim>\<open>src/ngx_rtc_hsm.c\<close>. State objects, actions and
  guards are identified by names (\<^verbatim>\<open>const\<close> pointers in the code) that a program record resolves;
  an action receives the machine and may return any machine. A loop along parent pointers ends only
  on an acyclic table, so each is a partial function: \<open>None\<close> means that the loop never ends or that
  a NULL pointer is dereferenced, and the theorems show \<open>Some\<close> on well-formed tables.
\<close>

section \<open>Tables and machine\<close>

datatype ngx_rtc_hsm_transition_type = NGX_RTC_HSM_TRANSITION_EXTERNAL | NGX_RTC_HSM_TRANSITION_INTERNAL

record 'c ngx_rtc_hsm_event =
  ev_id :: u32
  ev_context :: "'c option"

record ('s, 'g, 'a) ngx_rtc_hsm_transition =
  tr_event_id :: u32
  tr_target :: "'s option"
  tr_guard :: "'g option"
  tr_action :: "'a option"
  tr_type :: ngx_rtc_hsm_transition_type

text \<open>\<^verbatim>\<open>transitions\<close> and \<^verbatim>\<open>num_transitions\<close> are one list; a NULL table is the empty list.\<close>

record ('s, 'g, 'a) ngx_rtc_hsm_state =
  st_parent :: "'s option"
  st_entry_action :: "'a option"
  st_exit_action :: "'a option"
  st_transitions :: "('s, 'g, 'a) ngx_rtc_hsm_transition list"
  st_name :: "string option"

record ('s, 'a, 'u) ngx_rtc_hsm =
  hsm_current_state :: "'s option"
  hsm_initial_state :: "'s option"
  hsm_user_data :: "'u option"
  hsm_unhandled_event_hook :: "'a option"
  hsm_entry_path_buffer :: "'s option list option"
  hsm_buffer_size :: u8

record ('s, 'g, 'a, 'u, 'c) hsm_program =
  hp_state :: "'s \<Rightarrow> ('s, 'g, 'a) ngx_rtc_hsm_state"
  hp_action :: "'a \<Rightarrow> ('s, 'a, 'u) ngx_rtc_hsm \<Rightarrow> 'c ngx_rtc_hsm_event option \<Rightarrow> ('s, 'a, 'u) ngx_rtc_hsm"
  hp_guard :: "'g \<Rightarrow> ('s, 'a, 'u) ngx_rtc_hsm \<Rightarrow> 'c ngx_rtc_hsm_event \<Rightarrow> bool"

definition hsm_parent :: "('s, 'g, 'a, 'u, 'c) hsm_program \<Rightarrow> 's \<Rightarrow> 's option" where
  "hsm_parent P s = st_parent (hp_state P s)"

text \<open>\<^verbatim>\<open>if (NULL != fn) fn(sm, event)\<close>.\<close>

definition hsm_call ::
  "('s, 'g, 'a, 'u, 'c) hsm_program \<Rightarrow> 'a option \<Rightarrow> 'c ngx_rtc_hsm_event option \<Rightarrow> ('s, 'a, 'u) ngx_rtc_hsm \<Rightarrow> ('s, 'a, 'u) ngx_rtc_hsm" where
  "hsm_call P fn event sm = (case fn of None \<Rightarrow> sm | Some a \<Rightarrow> hp_action P a sm event)"

section \<open>Helpers\<close>

partial_function (option) hsm_depth_loop :: "('s, 'g, 'a, 'u, 'c) hsm_program \<Rightarrow> 's option \<Rightarrow> u8 \<Rightarrow> u8 option" where
  "hsm_depth_loop P current_state depth =
     (case current_state of None \<Rightarrow> Some depth | Some s \<Rightarrow> hsm_depth_loop P (hsm_parent P s) (depth + 1))"

definition hsm_get_state_depth :: "('s, 'g, 'a, 'u, 'c) hsm_program \<Rightarrow> 's option \<Rightarrow> u8 option" where
  "hsm_get_state_depth P state = hsm_depth_loop P state 0"

partial_function (option) hsm_lift_loop ::
  "('s, 'g, 'a, 'u, 'c) hsm_program \<Rightarrow> 's option \<Rightarrow> u8 \<Rightarrow> u8 \<Rightarrow> 's option option" where
  "hsm_lift_loop P p depth other =
     (if depth > other
      then (case p of None \<Rightarrow> None | Some s \<Rightarrow> hsm_lift_loop P (hsm_parent P s) (depth - 1) other)
      else Some p)"

partial_function (option) hsm_meet_loop ::
  "('s, 'g, 'a, 'u, 'c) hsm_program \<Rightarrow> 's option \<Rightarrow> 's option \<Rightarrow> 's option option" where
  "hsm_meet_loop P p1 p2 =
     (if p1 = p2 then Some p1
      else (case p1 of None \<Rightarrow> None | Some a \<Rightarrow>
            (case p2 of None \<Rightarrow> None | Some b \<Rightarrow> hsm_meet_loop P (hsm_parent P a) (hsm_parent P b))))"

definition hsm_find_lca ::
  "('s, 'g, 'a, 'u, 'c) hsm_program \<Rightarrow> 's option \<Rightarrow> 's option \<Rightarrow> 's option option" where
  "hsm_find_lca P s1 s2 =
     (if s1 \<noteq> None \<and> s2 \<noteq> None then
        do { depth1 \<leftarrow> hsm_get_state_depth P s1;
             depth2 \<leftarrow> hsm_get_state_depth P s2;
             p1 \<leftarrow> hsm_lift_loop P s1 depth1 depth2;
             p2 \<leftarrow> hsm_lift_loop P s2 depth2 (if depth1 > depth2 then depth2 else depth1);
             hsm_meet_loop P p1 p2 }
      else if s1 = None then Some s2
      else Some s1)"

partial_function (option) hsm_exit_loop ::
  "('s, 'g, 'a, 'u, 'c) hsm_program \<Rightarrow> 's option \<Rightarrow> 's option \<Rightarrow> 'c ngx_rtc_hsm_event option \<Rightarrow> ('s, 'a, 'u) ngx_rtc_hsm \<Rightarrow>
   ('s, 'a, 'u) ngx_rtc_hsm option" where
  "hsm_exit_loop P exit_iter lca event sm =
     (case exit_iter of
        None \<Rightarrow> Some sm
      | Some s \<Rightarrow>
          if exit_iter = lca then Some sm
          else hsm_exit_loop P (hsm_parent P s) lca event (hsm_call P (st_exit_action (hp_state P s)) event sm))"

definition hsm_execute_exit_actions ::
  "('s, 'g, 'a, 'u, 'c) hsm_program \<Rightarrow> ('s, 'a, 'u) ngx_rtc_hsm \<Rightarrow> 's option \<Rightarrow> 's option \<Rightarrow> 'c ngx_rtc_hsm_event option \<Rightarrow>
   ('s, 'a, 'u) ngx_rtc_hsm option" where
  "hsm_execute_exit_actions P sm source_state lca event = hsm_exit_loop P source_state lca event sm"

text \<open>\<^verbatim>\<open>sm->entry_path_buffer[idx] = s\<close>; undefined without a slot to store to.\<close>

definition hsm_path_store :: "('s, 'a, 'u) ngx_rtc_hsm \<Rightarrow> u8 \<Rightarrow> 's \<Rightarrow> ('s, 'a, 'u) ngx_rtc_hsm option" where
  "hsm_path_store sm idx s =
     (case hsm_entry_path_buffer sm of
        None \<Rightarrow> None
      | Some buf \<Rightarrow> if unat idx < length buf then Some (sm\<lparr>hsm_entry_path_buffer := Some (buf[unat idx := Some s])\<rparr>) else None)"

partial_function (option) hsm_path_loop ::
  "('s, 'g, 'a, 'u, 'c) hsm_program \<Rightarrow> 's option \<Rightarrow> 's option \<Rightarrow> u8 \<Rightarrow> ('s, 'a, 'u) ngx_rtc_hsm \<Rightarrow>
   (bool \<times> ('s, 'a, 'u) ngx_rtc_hsm) option" where
  "hsm_path_loop P entry_iter lca path_idx sm =
     (case entry_iter of
        None \<Rightarrow> Some (True, sm)
      | Some s \<Rightarrow>
          if entry_iter = lca then Some (True, sm)
          else if path_idx < hsm_buffer_size sm then
            do { sm \<leftarrow> hsm_path_store sm path_idx s;
                 hsm_path_loop P (hsm_parent P s) lca (path_idx + 1) sm }
          else Some (False, sm))"

definition hsm_build_entry_path ::
  "('s, 'g, 'a, 'u, 'c) hsm_program \<Rightarrow> ('s, 'a, 'u) ngx_rtc_hsm \<Rightarrow> 's option \<Rightarrow> 's option \<Rightarrow> (bool \<times> ('s, 'a, 'u) ngx_rtc_hsm) option" where
  "hsm_build_entry_path P sm target_state lca =
     (if target_state \<noteq> None then hsm_path_loop P target_state lca 0 sm else Some (False, sm))"

partial_function (option) hsm_length_loop ::
  "('s, 'g, 'a, 'u, 'c) hsm_program \<Rightarrow> 's option \<Rightarrow> 's option \<Rightarrow> u8 \<Rightarrow> u8 option" where
  "hsm_length_loop P entry_iter lca path_length =
     (case entry_iter of
        None \<Rightarrow> Some path_length
      | Some s \<Rightarrow> if entry_iter = lca then Some path_length else hsm_length_loop P (hsm_parent P s) lca (path_length + 1))"

text \<open>The countdown of \<^verbatim>\<open>hsm_execute_entry_actions\<close>, by the value of \<^verbatim>\<open>path_length\<close>.\<close>

fun hsm_entry_loop ::
  "('s, 'g, 'a, 'u, 'c) hsm_program \<Rightarrow> nat \<Rightarrow> 'c ngx_rtc_hsm_event option \<Rightarrow> ('s, 'a, 'u) ngx_rtc_hsm \<Rightarrow> ('s, 'a, 'u) ngx_rtc_hsm option" where
  "hsm_entry_loop P 0 event sm = Some sm"
| "hsm_entry_loop P (Suc path_length) event sm =
     (case hsm_entry_path_buffer sm of
        None \<Rightarrow> None
      | Some buf \<Rightarrow>
          if path_length < length buf
          then hsm_entry_loop P path_length event
                 (case buf ! path_length of None \<Rightarrow> sm | Some s \<Rightarrow> hsm_call P (st_entry_action (hp_state P s)) event sm)
          else None)"

definition hsm_execute_entry_actions ::
  "('s, 'g, 'a, 'u, 'c) hsm_program \<Rightarrow> ('s, 'a, 'u) ngx_rtc_hsm \<Rightarrow> u8 \<Rightarrow> 'c ngx_rtc_hsm_event option \<Rightarrow> ('s, 'a, 'u) ngx_rtc_hsm option" where
  "hsm_execute_entry_actions P sm path_length event =
     (if hsm_entry_path_buffer sm \<noteq> None \<and> 0 < path_length then hsm_entry_loop P (unat path_length) event sm else Some sm)"

definition hsm_perform_transition ::
  "('s, 'g, 'a, 'u, 'c) hsm_program \<Rightarrow> ('s, 'a, 'u) ngx_rtc_hsm \<Rightarrow> 's option \<Rightarrow> 'c ngx_rtc_hsm_event option \<Rightarrow>
   (bool \<times> ('s, 'a, 'u) ngx_rtc_hsm) option" where
  "hsm_perform_transition P sm target_state event =
     (case target_state of
        None \<Rightarrow> Some (False, sm)
      | Some target \<Rightarrow>
          let source_state = hsm_current_state sm in
          if source_state = target_state then
            (let sm = (case source_state of None \<Rightarrow> sm | Some s \<Rightarrow> hsm_call P (st_exit_action (hp_state P s)) event sm);
                 sm = hsm_call P (st_entry_action (hp_state P target)) event sm
             in Some (True, sm))
          else
            do { lca \<leftarrow> hsm_find_lca P source_state target_state;
                 (built, sm) \<leftarrow> hsm_build_entry_path P sm target_state lca;
                 if \<not> built then Some (False, sm)
                 else
                   do { path_length \<leftarrow> hsm_length_loop P target_state lca 0;
                        sm \<leftarrow> hsm_execute_exit_actions P sm source_state lca event;
                        let sm = sm\<lparr>hsm_current_state := target_state\<rparr>;
                        sm \<leftarrow> hsm_execute_entry_actions P sm path_length event;
                        Some (True, sm) } })"

fun hsm_find_matching_transition ::
  "('s, 'g, 'a, 'u, 'c) hsm_program \<Rightarrow> ('s, 'g, 'a) ngx_rtc_hsm_transition list \<Rightarrow> 'c ngx_rtc_hsm_event \<Rightarrow> ('s, 'a, 'u) ngx_rtc_hsm \<Rightarrow>
   ('s, 'g, 'a) ngx_rtc_hsm_transition option" where
  "hsm_find_matching_transition P [] event sm = None"
| "hsm_find_matching_transition P (t # ts) event sm =
     (if tr_event_id t = ev_id event \<and> (case tr_guard t of None \<Rightarrow> True | Some g \<Rightarrow> hp_guard P g sm event)
      then Some t
      else hsm_find_matching_transition P ts event sm)"

definition hsm_execute_transition ::
  "('s, 'g, 'a, 'u, 'c) hsm_program \<Rightarrow> ('s, 'a, 'u) ngx_rtc_hsm \<Rightarrow> ('s, 'g, 'a) ngx_rtc_hsm_transition \<Rightarrow> 'c ngx_rtc_hsm_event \<Rightarrow>
   (bool \<times> ('s, 'a, 'u) ngx_rtc_hsm) option" where
  "hsm_execute_transition P sm transition event =
     (let sm = hsm_call P (tr_action transition) (Some event) sm in
      if tr_type transition = NGX_RTC_HSM_TRANSITION_INTERNAL then Some (True, sm)
      else hsm_perform_transition P sm (tr_target transition) (Some event))"

definition hsm_process_state_transitions ::
  "('s, 'g, 'a, 'u, 'c) hsm_program \<Rightarrow> ('s, 'a, 'u) ngx_rtc_hsm \<Rightarrow> 's \<Rightarrow> 'c ngx_rtc_hsm_event \<Rightarrow> (bool \<times> ('s, 'a, 'u) ngx_rtc_hsm) option" where
  "hsm_process_state_transitions P sm state event =
     (case hsm_find_matching_transition P (st_transitions (hp_state P state)) event sm of
        None \<Rightarrow> Some (False, sm)
      | Some t \<Rightarrow> hsm_execute_transition P sm t event)"

section \<open>Public operations\<close>

partial_function (option) hsm_bubble_loop ::
  "('s, 'g, 'a, 'u, 'c) hsm_program \<Rightarrow> 's option \<Rightarrow> 'c ngx_rtc_hsm_event \<Rightarrow> ('s, 'a, 'u) ngx_rtc_hsm \<Rightarrow>
   (bool \<times> ('s, 'a, 'u) ngx_rtc_hsm) option" where
  "hsm_bubble_loop P state_iter event sm =
     (case state_iter of
        None \<Rightarrow> Some (False, sm)
      | Some s \<Rightarrow>
          do { (handled, sm) \<leftarrow> hsm_process_state_transitions P sm s event;
               if handled then Some (True, sm) else hsm_bubble_loop P (hsm_parent P s) event sm })"

definition ngx_rtc_hsm_dispatch ::
  "('s, 'g, 'a, 'u, 'c) hsm_program \<Rightarrow> ('s, 'a, 'u) ngx_rtc_hsm option \<Rightarrow> 'c ngx_rtc_hsm_event option \<Rightarrow>
   (bool \<times> ('s, 'a, 'u) ngx_rtc_hsm option) option" where
  "ngx_rtc_hsm_dispatch P smp eventp =
     (case smp of None \<Rightarrow> Some (False, smp) | Some sm \<Rightarrow>
        (case eventp of None \<Rightarrow> Some (False, smp) | Some event \<Rightarrow>
          do { (is_handled, sm) \<leftarrow> hsm_bubble_loop P (hsm_current_state sm) event sm;
               if is_handled then Some (True, Some sm)
               else Some (False, Some (hsm_call P (hsm_unhandled_event_hook sm) (Some event) sm)) }))"

definition ngx_rtc_hsm_init ::
  "('s, 'g, 'a, 'u, 'c) hsm_program \<Rightarrow> ('s, 'a, 'u) ngx_rtc_hsm option \<Rightarrow> 's option \<Rightarrow> 's option list option \<Rightarrow> u8 \<Rightarrow> 'u option \<Rightarrow>
   'a option \<Rightarrow> ('s, 'a, 'u) ngx_rtc_hsm option option" where
  "ngx_rtc_hsm_init P smp initial_state entry_path_buffer buffer_size user_data unhandled_hook =
     (if smp \<noteq> None \<and> initial_state \<noteq> None \<and> entry_path_buffer \<noteq> None \<and> 0 < buffer_size then
        do { (_, sm) \<leftarrow> hsm_perform_transition P
               \<lparr>hsm_current_state = None, hsm_initial_state = initial_state, hsm_user_data = user_data,
                hsm_unhandled_event_hook = unhandled_hook, hsm_entry_path_buffer = entry_path_buffer,
                hsm_buffer_size = buffer_size\<rparr> initial_state None;
             Some (Some sm) }
      else Some smp)"

definition ngx_rtc_hsm_deinit :: "('s, 'a, 'u) ngx_rtc_hsm option \<Rightarrow> ('s, 'a, 'u) ngx_rtc_hsm option" where
  "ngx_rtc_hsm_deinit smp = map_option (\<lambda>sm.
     \<lparr>hsm_current_state = None, hsm_initial_state = None, hsm_user_data = None, hsm_unhandled_event_hook = None,
      hsm_entry_path_buffer = None, hsm_buffer_size = 0\<rparr>) smp"

definition ngx_rtc_hsm_reset ::
  "('s, 'g, 'a, 'u, 'c) hsm_program \<Rightarrow> ('s, 'a, 'u) ngx_rtc_hsm option \<Rightarrow> ('s, 'a, 'u) ngx_rtc_hsm option option" where
  "ngx_rtc_hsm_reset P smp =
     (case smp of None \<Rightarrow> Some None | Some sm \<Rightarrow>
        if hsm_initial_state sm \<noteq> None
        then do { (_, sm) \<leftarrow> hsm_perform_transition P sm (hsm_initial_state sm) None; Some (Some sm) }
        else Some smp)"

partial_function (option) hsm_search_loop :: "('s, 'g, 'a, 'u, 'c) hsm_program \<Rightarrow> 's option \<Rightarrow> 's \<Rightarrow> bool option" where
  "hsm_search_loop P current_iter state =
     (case current_iter of
        None \<Rightarrow> Some False
      | Some s \<Rightarrow> if s = state then Some True else hsm_search_loop P (hsm_parent P s) state)"

definition ngx_rtc_hsm_is_in_state ::
  "('s, 'g, 'a, 'u, 'c) hsm_program \<Rightarrow> ('s, 'a, 'u) ngx_rtc_hsm option \<Rightarrow> 's option \<Rightarrow> bool option" where
  "ngx_rtc_hsm_is_in_state P smp statep =
     (case smp of None \<Rightarrow> Some False | Some sm \<Rightarrow>
        (case statep of None \<Rightarrow> Some False | Some state \<Rightarrow> hsm_search_loop P (hsm_current_state sm) state))"

definition ngx_rtc_hsm_get_current_state_name ::
  "('s, 'g, 'a, 'u, 'c) hsm_program \<Rightarrow> ('s, 'a, 'u) ngx_rtc_hsm option \<Rightarrow> string" where
  "ngx_rtc_hsm_get_current_state_name P smp =
     (case smp of None \<Rightarrow> ''Unknown'' | Some sm \<Rightarrow>
        (case hsm_current_state sm of None \<Rightarrow> ''Unknown'' | Some s \<Rightarrow>
           (case st_name (hp_state P s) of None \<Rightarrow> ''Unknown'' | Some n \<Rightarrow> n)))"

definition ngx_rtc_hsm_restore_state ::
  "('s, 'a, 'u) ngx_rtc_hsm option \<Rightarrow> 's option \<Rightarrow> bool \<times> ('s, 'a, 'u) ngx_rtc_hsm option" where
  "ngx_rtc_hsm_restore_state smp state =
     (case smp of None \<Rightarrow> (False, smp) | Some sm \<Rightarrow>
        (if state = None then (False, smp) else (True, Some (sm\<lparr>hsm_current_state := state\<rparr>))))"

section \<open>Ancestor chains\<close>

text \<open>The states from \<open>p\<close> to the root.\<close>

inductive hsm_chain :: "('s, 'g, 'a, 'u, 'c) hsm_program \<Rightarrow> 's option \<Rightarrow> 's list \<Rightarrow> bool" for P where
  chain_NULL: "hsm_chain P None []"
| chain_Cons: "hsm_chain P (hsm_parent P s) xs \<Longrightarrow> hsm_chain P (Some s) (s # xs)"

inductive_cases chain_NoneE [elim!]: "hsm_chain P None xs"
inductive_cases chain_SomeE [elim!]: "hsm_chain P (Some s) xs"

lemma chain_det: "hsm_chain P p xs \<Longrightarrow> hsm_chain P p ys \<Longrightarrow> xs = ys"
proof (induction arbitrary: ys rule: hsm_chain.induct)
  case (chain_Cons s xs)
  then obtain zs where "ys = s # zs" "hsm_chain P (hsm_parent P s) zs" by blast
  then show ?case using chain_Cons.IH by blast
qed blast

lemma chain_suffix: "hsm_chain P p (as @ s # bs) \<Longrightarrow> hsm_chain P (Some s) (s # bs)"
proof (induction as arbitrary: p)
  case Nil
  then show ?case by (cases p) (auto intro: chain_Cons)
next
  case (Cons a as)
  then show ?case by (cases p) auto
qed

lemma chain_drop: "hsm_chain P p xs \<Longrightarrow> n < length xs \<Longrightarrow> hsm_chain P (Some (xs ! n)) (drop n xs)"
  using chain_suffix [of P p "take n xs" "xs ! n" "drop (Suc n) xs"]
  by (metis id_take_nth_drop Cons_nth_drop_Suc)

text \<open>A state met on two chains is at the same distance from the root on both.\<close>

lemma chain_meet:
  assumes "hsm_chain P p xs" "hsm_chain P q ys" "i < length xs" "j < length ys" "xs ! i = ys ! j"
  shows "length xs - i = length ys - j" "drop i xs = drop j ys"
proof -
  show "drop i xs = drop j ys"
    using chain_det chain_drop [OF assms(1,3)] chain_drop [OF assms(2,4)] assms(5) by metis
  then show "length xs - i = length ys - j" by (metis length_drop)
qed

lemma depth_loop_chain: "hsm_chain P p xs \<Longrightarrow> hsm_depth_loop P p d = Some (d + word_of_nat (length xs))"
  by (induction arbitrary: d rule: hsm_chain.induct) (simp_all add: hsm_depth_loop.simps add.assoc)

definition chain_head :: "'s list \<Rightarrow> 's option" where
  "chain_head xs = (case xs of [] \<Rightarrow> None | x # _ \<Rightarrow> Some x)"

lemma chain_head_simps [simp]: "chain_head [] = None" "chain_head (x # xs) = Some x"
  by (simp_all add: chain_head_def)

lemma chain_chain_head: "hsm_chain P p xs \<Longrightarrow> p = chain_head xs"
  by (cases p) auto

lemma lift_loop_chain:
  "hsm_chain P p xs \<Longrightarrow> length xs < 256 \<Longrightarrow> m < 256 \<Longrightarrow>
   hsm_lift_loop P p (word_of_nat (length xs)) (word_of_nat m) = Some (chain_head (drop (length xs - m) xs))"
proof (induction rule: hsm_chain.induct)
  case chain_NULL
  then show ?case by (simp add: hsm_lift_loop.simps)
next
  case (chain_Cons s xs)
  have lt: "(word_of_nat m :: u8) < word_of_nat (length (s # xs)) \<longleftrightarrow> m < length (s # xs)"
    using chain_Cons.prems by (simp add: word_less_nat_alt unat_of_nat del: of_nat_Suc)
  have "(word_of_nat (length (s # xs)) :: u8) - 1 = word_of_nat (length xs)" by simp
  then show ?case
    using chain_Cons lt by (subst hsm_lift_loop.simps) (auto simp: Suc_diff_le not_less simp del: of_nat_Suc)
qed

lemma chain_drop_chain: "hsm_chain P p xs \<Longrightarrow> hsm_chain P (chain_head (drop n xs)) (drop n xs)"
proof (cases "n < length xs")
  case True
  assume "hsm_chain P p xs"
  then have "hsm_chain P (Some (xs ! n)) (drop n xs)" using True by (rule chain_drop)
  moreover have "chain_head (drop n xs) = Some (xs ! n)" using True by (simp add: chain_head_def Cons_nth_drop_Suc [symmetric])
  ultimately show ?thesis by simp
qed (simp add: chain_NULL)

lemma find_skip: "(\<And>i. i < n \<Longrightarrow> i < length xs \<Longrightarrow> \<not> f (xs ! i)) \<Longrightarrow> List.find f xs = List.find f (drop n xs)"
proof (induction n arbitrary: xs)
  case (Suc n)
  then show ?case
  proof (cases xs)
    case (Cons x ys)
    then have "\<not> f x" using Suc.prems [of 0] by simp
    moreover have "List.find f ys = List.find f (drop n ys)"
      using Suc.prems [of "Suc i" for i] Cons by (intro Suc.IH) auto
    ultimately show ?thesis using Cons by simp
  qed simp
qed simp

lemma meet_loop_chain:
  "hsm_chain P p xs \<Longrightarrow> hsm_chain P q ys \<Longrightarrow> length xs = length ys \<Longrightarrow>
   hsm_meet_loop P p q = Some (List.find (\<lambda>x. x \<in> set ys) xs)"
proof (induction arbitrary: q ys rule: hsm_chain.induct)
  case chain_NULL
  then show ?case by (cases q) (auto simp: hsm_meet_loop.simps)
next
  case (chain_Cons s xs)
  then obtain t zs where q: "q = Some t" "ys = t # zs" "hsm_chain P (hsm_parent P t) zs"
    by (cases q) auto
  show ?case
  proof (cases "s = t")
    case True
    then show ?thesis using q by (simp add: hsm_meet_loop.simps)
  next
    case False
    have full: "hsm_chain P (Some s) (s # xs)" using chain_Cons.hyps by (rule hsm_chain.chain_Cons)
    have ns: "s \<notin> set ys"
    proof
      assume "s \<in> set ys"
      then obtain j where "j < length ys" "ys ! j = s" by (auto simp: in_set_conv_nth)
      then have "j = 0" using chain_meet(1) [OF full chain_Cons.prems(1), of 0 j] chain_Cons.prems(2) by simp
      then show False using q(2) \<open>ys ! j = s\<close> False by simp
    qed
    have nt: "t \<notin> set xs"
    proof
      assume "t \<in> set xs"
      then obtain i where i: "i < length xs" "xs ! i = t" by (auto simp: in_set_conv_nth)
      have "length (s # xs) - Suc i = length ys - 0"
        by (rule chain_meet(1) [OF full chain_Cons.prems(1)]) (use i q in simp_all)
      then show False using i chain_Cons.prems(2) by simp
    qed
    have "hsm_meet_loop P (Some s) q = hsm_meet_loop P (hsm_parent P s) (hsm_parent P t)"
      using False q(1) by (subst hsm_meet_loop.simps) simp
    also have "\<dots> = Some (List.find (\<lambda>x. x \<in> set zs) xs)"
      using chain_Cons.IH [OF q(3)] chain_Cons.prems(2) q(2) by simp
    also have "List.find (\<lambda>x. x \<in> set zs) xs = List.find (\<lambda>x. x \<in> set ys) (s # xs)"
    proof -
      have "List.find (\<lambda>x. x \<in> set zs) xs = List.find (\<lambda>x. x \<in> set ys) xs"
        using nt q(2) by (intro find_cong refl) auto
      then show ?thesis using ns by simp
    qed
    finally show ?thesis .
  qed
qed

text \<open>The specification: the first state on the way up from \<open>s1\<close> that is also above \<open>s2\<close>.\<close>

definition common_ancestor :: "'s list \<Rightarrow> 's list \<Rightarrow> 's option" where
  "common_ancestor xs ys = List.find (\<lambda>x. x \<in> set ys) xs"

lemma find_lca_chain:
  assumes c: "hsm_chain P (Some s1) xs" "hsm_chain P (Some s2) ys" and len: "length xs < 256" "length ys < 256"
  shows "hsm_find_lca P (Some s1) (Some s2) = Some (common_ancestor xs ys)"
proof -
  let ?n = "length xs - length ys" and ?m = "length ys - length xs"
  have d: "hsm_get_state_depth P (Some s1) = Some (word_of_nat (length xs))"
    "hsm_get_state_depth P (Some s2) = Some (word_of_nat (length ys))"
    using depth_loop_chain [OF c(1), of 0] depth_loop_chain [OF c(2), of 0] by (simp_all add: hsm_get_state_depth_def)
  have lt: "(word_of_nat (length ys) :: u8) < word_of_nat (length xs) \<longleftrightarrow> length ys < length xs"
    using len by (simp add: word_less_nat_alt unat_of_nat)
  have mn: "(if (word_of_nat (length ys) :: u8) < word_of_nat (length xs) then word_of_nat (length ys) else word_of_nat (length xs))
      = (word_of_nat (min (length xs) (length ys)) :: u8)"
    using lt by (simp add: min_def)
  have l1: "hsm_lift_loop P (Some s1) (word_of_nat (length xs)) (word_of_nat (length ys)) = Some (chain_head (drop ?n xs))"
    by (rule lift_loop_chain [OF c(1)]) (use len in simp_all)
  have l2: "hsm_lift_loop P (Some s2) (word_of_nat (length ys)) (word_of_nat (min (length xs) (length ys))) = Some (chain_head (drop ?m ys))"
    using lift_loop_chain [OF c(2), of "min (length xs) (length ys)"] len by (simp add: min_def split: if_splits)
  have "hsm_meet_loop P (chain_head (drop ?n xs)) (chain_head (drop ?m ys)) = Some (List.find (\<lambda>x. x \<in> set (drop ?m ys)) (drop ?n xs))"
    by (rule meet_loop_chain [OF chain_drop_chain [OF c(1)] chain_drop_chain [OF c(2)]]) simp
  also have "List.find (\<lambda>x. x \<in> set (drop ?m ys)) (drop ?n xs) = List.find (\<lambda>x. x \<in> set ys) xs"
  proof -
    have "x \<in> set (drop ?m ys) \<longleftrightarrow> x \<in> set ys" if x: "x \<in> set (drop ?n xs)" for x
    proof
      assume "x \<in> set ys"
      then obtain j where j: "j < length ys" "ys ! j = x" by (auto simp: in_set_conv_nth)
      obtain i where i: "i < length xs" "xs ! i = x" using in_set_dropD [OF x] by (auto simp: in_set_conv_nth)
      have "length xs - i = length ys - j" using chain_meet(1) [OF c i(1) j(1)] i j by simp
      then have "?m \<le> j" using i(1) by linarith
      then show "x \<in> set (drop ?m ys)" using j by (auto simp: in_set_conv_nth intro!: exI [of _ "j - ?m"])
    qed (auto dest: in_set_dropD)
    then have "List.find (\<lambda>x. x \<in> set (drop ?m ys)) (drop ?n xs) = List.find (\<lambda>x. x \<in> set ys) (drop ?n xs)"
      by (intro find_cong refl) auto
    also have "\<dots> = List.find (\<lambda>x. x \<in> set ys) xs"
    proof (rule find_skip [symmetric])
      fix i assume i: "i < ?n" "i < length xs"
      show "\<not> xs ! i \<in> set ys"
      proof
        assume "xs ! i \<in> set ys"
        then obtain j where "j < length ys" "ys ! j = xs ! i" by (auto simp: in_set_conv_nth)
        then show False using chain_meet(1) [OF c i(2), of j] i by simp
      qed
    qed
    finally show ?thesis .
  qed
  finally show ?thesis using d l1 l2 mn by (simp add: hsm_find_lca_def common_ancestor_def)
qed

section \<open>Transitions\<close>

text \<open>
  Well-formed programs: the parent pointers are acyclic and less than 256 deep (depths are 8-bit),
  external transitions have a target, and actions work on the user data only.
\<close>

definition hsm_frame :: "('s, 'a, 'u) ngx_rtc_hsm \<Rightarrow> ('s, 'a, 'u) ngx_rtc_hsm \<Rightarrow> bool" where
  "hsm_frame sm sm' \<longleftrightarrow> sm' = sm\<lparr>hsm_user_data := hsm_user_data sm'\<rparr>"

definition hsm_wf :: "('s, 'g, 'a, 'u, 'c) hsm_program \<Rightarrow> bool" where
  "hsm_wf P \<longleftrightarrow> (\<forall>s. \<exists>xs. hsm_chain P (Some s) xs \<and> length xs < 256) \<and>
     (\<forall>s. \<forall>t\<in>set (st_transitions (hp_state P s)). tr_type t = NGX_RTC_HSM_TRANSITION_EXTERNAL \<longrightarrow> tr_target t \<noteq> None) \<and>
     (\<forall>a sm ev. hsm_frame sm (hp_action P a sm ev))"

text \<open>The scratch array really has the size the machine was told.\<close>

definition hsm_machine_ok :: "('s, 'a, 'u) ngx_rtc_hsm \<Rightarrow> bool" where
  "hsm_machine_ok sm \<longleftrightarrow> (\<exists>buf. hsm_entry_path_buffer sm = Some buf \<and> unat (hsm_buffer_size sm) \<le> length buf)"

text \<open>The part of a chain below \<open>l\<close>, and the calls of its exit and entry actions.\<close>

definition below :: "'s option \<Rightarrow> 's list \<Rightarrow> 's list" where
  "below l xs = takeWhile (\<lambda>s. Some s \<noteq> l) xs"

definition run_exits where
  "run_exits P ev xs sm = fold (\<lambda>s. hsm_call P (st_exit_action (hp_state P s)) ev) xs sm"

definition run_entries where
  "run_entries P ev xs sm = fold (\<lambda>s. hsm_call P (st_entry_action (hp_state P s)) ev) xs sm"

lemma below_simps [simp]: "below l [] = []" "below l (x # xs) = (if Some x = l then [] else x # below l xs)"
  by (simp_all add: below_def)

lemma run_simps [simp]:
  "run_exits P ev [] sm = sm" "run_exits P ev (s # xs) sm = run_exits P ev xs (hsm_call P (st_exit_action (hp_state P s)) ev sm)"
  "run_entries P ev [] sm = sm" "run_entries P ev (s # xs) sm = run_entries P ev xs (hsm_call P (st_entry_action (hp_state P s)) ev sm)"
  by (simp_all add: run_exits_def run_entries_def)

lemma hsm_frame_refl [simp]: "hsm_frame sm sm"
  by (simp add: hsm_frame_def)

lemma hsm_frame_fields:
  "hsm_frame sm sm' \<Longrightarrow> hsm_current_state sm' = hsm_current_state sm \<and> hsm_initial_state sm' = hsm_initial_state sm \<and>
   hsm_unhandled_event_hook sm' = hsm_unhandled_event_hook sm \<and> hsm_entry_path_buffer sm' = hsm_entry_path_buffer sm \<and>
   hsm_buffer_size sm' = hsm_buffer_size sm"
  by (cases sm; cases sm') (simp add: hsm_frame_def)

lemma hsm_frame_trans: "hsm_frame a b \<Longrightarrow> hsm_frame b c \<Longrightarrow> hsm_frame a c"
  by (cases a; cases b; cases c) (simp add: hsm_frame_def)

lemma hsm_call_frame: "hsm_wf P \<Longrightarrow> hsm_frame sm (hsm_call P fn ev sm)"
  by (cases fn) (simp_all add: hsm_call_def hsm_wf_def)

lemma run_frame:
  "hsm_wf P \<Longrightarrow> hsm_frame sm (run_exits P ev xs sm)" "hsm_wf P \<Longrightarrow> hsm_frame sm (run_entries P ev xs sm)"
proof (induction xs arbitrary: sm)
  case (Cons s xs)
  {
    case 1
    then show ?case using Cons.IH(1) hsm_call_frame [OF 1] hsm_frame_trans unfolding run_simps by blast
  next
    case 2
    then show ?case using Cons.IH(2) hsm_call_frame [OF 2] hsm_frame_trans unfolding run_simps by blast
  }
qed simp_all

lemma hsm_machine_ok_frame: "hsm_frame sm sm' \<Longrightarrow> hsm_machine_ok sm \<Longrightarrow> hsm_machine_ok sm'"
  using hsm_frame_fields [of sm sm'] by (simp add: hsm_machine_ok_def)

lemma exit_loop_chain: "hsm_chain P p xs \<Longrightarrow> hsm_exit_loop P p l ev sm = Some (run_exits P ev (below l xs) sm)"
  by (induction arbitrary: sm rule: hsm_chain.induct) (simp_all add: hsm_exit_loop.simps)

lemma length_loop_chain: "hsm_chain P p ys \<Longrightarrow> hsm_length_loop P p l k = Some (k + word_of_nat (length (below l ys)))"
  by (induction arbitrary: k rule: hsm_chain.induct) (simp_all add: hsm_length_loop.simps add.assoc)

lemma buf_put_Cons: "k < length buf \<Longrightarrow> buf_put (Suc k) xs (buf[k := x]) = buf_put k (x # xs) buf"
proof -
  assume k: "k < length buf"
  have "take (Suc k) (buf[k := x]) = take k buf @ [x]" using k by (simp add: take_Suc_conv_app_nth)
  then show ?thesis by (simp add: buf_put_def)
qed

lemma path_loop_chain:
  assumes "hsm_chain P p ys" "hsm_entry_path_buffer sm = Some buf" "n = unat (hsm_buffer_size sm)" "n \<le> length buf" "k \<le> n"
  shows "hsm_path_loop P p l (word_of_nat k) sm
     = Some (k + length (below l ys) \<le> n,
             sm\<lparr>hsm_entry_path_buffer := Some (buf_put k (map Some (take (n - k) (below l ys))) buf)\<rparr>)"
  using assms
proof (induction arbitrary: k sm buf rule: hsm_chain.induct)
  case chain_NULL
  then show ?case by (simp add: hsm_path_loop.simps)
next
  case (chain_Cons s ys)
  have n: "n < 256" using unsigned_less [of "hsm_buffer_size sm", where ?'a = nat] chain_Cons.prems(2) by simp
  have lt: "(word_of_nat k :: u8) < hsm_buffer_size sm \<longleftrightarrow> k < n"
    using n chain_Cons.prems by (simp add: word_less_nat_alt unat_of_nat)
  have uk: "unat (word_of_nat k :: u8) = k" using n chain_Cons.prems by (simp add: unat_of_nat)
  show ?case
  proof (cases "Some s = l \<or> k = n")
    case True
    then show ?thesis using chain_Cons.prems lt by (subst hsm_path_loop.simps) auto
  next
    case False
    let ?sm = "sm\<lparr>hsm_entry_path_buffer := Some (buf[k := Some s])\<rparr>"
    have k: "k < n" "Suc k \<le> n" "k < length buf" using False chain_Cons.prems by auto
    have st: "hsm_path_store sm (word_of_nat k) s = Some ?sm"
      using chain_Cons.prems k by (simp add: hsm_path_store_def uk)
    have "hsm_path_loop P (hsm_parent P s) l (word_of_nat (Suc k)) ?sm
      = Some (Suc k + length (below l ys) \<le> n,
             ?sm\<lparr>hsm_entry_path_buffer := Some (buf_put (Suc k) (map Some (take (n - Suc k) (below l ys))) (buf[k := Some s]))\<rparr>)"
      by (rule chain_Cons.IH) (use chain_Cons.prems k in auto)
    moreover have "take (n - k) (s # below l ys) = s # take (n - Suc k) (below l ys)"
      using k by (simp add: Suc_diff_Suc [symmetric])
    ultimately show ?thesis
      using False lt k st by (subst hsm_path_loop.simps) (simp add: buf_put_Cons add.commute)
  qed
qed

lemma entry_loop_chain:
  assumes wf: "hsm_wf P" and buf: "hsm_entry_path_buffer sm = Some (map Some path @ rest)" and n: "n \<le> length path"
  shows "hsm_entry_loop P n ev sm = Some (run_entries P ev (rev (take n path)) sm)"
  using buf n
proof (induction n arbitrary: sm)
  case (Suc n)
  let ?sm = "hsm_call P (st_entry_action (hp_state P (path ! n))) ev sm"
  have "hsm_entry_path_buffer ?sm = Some (map Some path @ rest)"
    using hsm_frame_fields [OF hsm_call_frame [OF wf]] Suc.prems by metis
  then have "hsm_entry_loop P n ev ?sm = Some (run_entries P ev (rev (take n path)) ?sm)"
    using Suc.IH Suc.prems by simp
  then show ?case using Suc.prems by (simp add: nth_append take_Suc_conv_app_nth)
qed simp

text \<open>The transition in one piece.\<close>

definition transition_result where
  "transition_result P sm tgt xs ys ev =
     (let l = common_ancestor xs ys; path = below l ys; n = unat (hsm_buffer_size sm);
          sm' = sm\<lparr>hsm_entry_path_buffer := map_option (buf_put 0 (map Some (take n path))) (hsm_entry_path_buffer sm)\<rparr>
      in if length path \<le> n
         then (True, run_entries P ev (rev path) ((run_exits P ev (below l xs) sm')\<lparr>hsm_current_state := Some tgt\<rparr>))
         else (False, sm'))"

lemma perform_transition_chain:
  assumes wf: "hsm_wf P" and ok: "hsm_machine_ok sm" and src: "hsm_current_state sm = Some src" "src \<noteq> tgt"
    and c: "hsm_chain P (Some src) xs" "hsm_chain P (Some tgt) ys"
  shows "hsm_perform_transition P sm (Some tgt) ev = Some (transition_result P sm tgt xs ys ev)"
proof -
  obtain buf where buf: "hsm_entry_path_buffer sm = Some buf" "unat (hsm_buffer_size sm) \<le> length buf"
    using ok by (auto simp: hsm_machine_ok_def)
  let ?l = "common_ancestor xs ys" and ?n = "unat (hsm_buffer_size sm)"
  let ?path = "below ?l ys"
  let ?sm = "sm\<lparr>hsm_entry_path_buffer := Some (buf_put 0 (map Some (take ?n ?path)) buf)\<rparr>"
  have len: "length xs < 256" "length ys < 256" using wf c chain_det unfolding hsm_wf_def by metis+
  have lca: "hsm_find_lca P (Some src) (Some tgt) = Some ?l" by (rule find_lca_chain [OF c len])
  have path: "hsm_path_loop P (Some tgt) ?l 0 sm = Some (length ?path \<le> ?n, ?sm)"
    using path_loop_chain [OF c(2) buf(1) refl buf(2), of 0] by simp
  show ?thesis
  proof (cases "length ?path \<le> ?n")
    case False
    then show ?thesis
      using src lca path buf by (simp add: hsm_perform_transition_def hsm_build_entry_path_def transition_result_def Let_def)
  next
    case True
    let ?ex = "(run_exits P ev (below ?l xs) ?sm)\<lparr>hsm_current_state := Some tgt\<rparr>"
    have n: "?n < 256" using unsigned_less [of "hsm_buffer_size sm", where ?'a = nat] by simp
    have b: "hsm_entry_path_buffer ?ex = Some (map Some ?path @ drop (length ?path) buf)"
      using hsm_frame_fields [OF run_frame(1) [OF wf, of ?sm ev "below ?l xs"]] True by (simp add: buf_put_def)
    have u: "unat (word_of_nat (length ?path) :: u8) = length ?path" using True n by (simp add: unat_of_nat)
    have "hsm_execute_entry_actions P ?ex (word_of_nat (length ?path)) ev = Some (run_entries P ev (rev ?path) ?ex)"
    proof (cases "?path = []")
      case False
      then have "0 < (word_of_nat (length ?path) :: u8)" using u by (simp add: word_less_nat_alt)
      then show ?thesis
        using entry_loop_chain [OF wf b order_refl, of ev] b u by (simp add: hsm_execute_entry_actions_def)
    qed (simp add: hsm_execute_entry_actions_def)
    then show ?thesis
      using True src lca path buf exit_loop_chain [OF c(1), of ?l ev] length_loop_chain [OF c(2), of ?l 0]
      by (simp add: hsm_perform_transition_def hsm_build_entry_path_def hsm_execute_exit_actions_def transition_result_def Let_def)
  qed
qed

lemma perform_transition_total:
  assumes wf: "hsm_wf P" and ok: "hsm_machine_ok sm"
  shows "\<exists>r sm'. hsm_perform_transition P sm t ev = Some (r, sm') \<and> hsm_machine_ok sm' \<and>
     hsm_buffer_size sm' = hsm_buffer_size sm \<and> hsm_unhandled_event_hook sm' = hsm_unhandled_event_hook sm \<and>
     hsm_initial_state sm' = hsm_initial_state sm \<and> hsm_current_state sm' = (if r then t else hsm_current_state sm)"
proof (cases t)
  case None
  then show ?thesis using ok by (intro exI [of _ False] exI [of _ sm]) (simp add: hsm_perform_transition_def)
next
  case (Some tgt)
  consider (null) "hsm_current_state sm = None" | (self) "hsm_current_state sm = Some tgt"
    | (move) src where "hsm_current_state sm = Some src" "src \<noteq> tgt" by (cases "hsm_current_state sm") auto
  then show ?thesis
  proof cases
    case null
    have "buf_put 0 [] b = b" for b :: "'a option list" by simp
    then show ?thesis using ok null Some
      by (auto simp: hsm_perform_transition_def hsm_find_lca_def hsm_build_entry_path_def hsm_path_loop.simps
          hsm_length_loop.simps hsm_execute_exit_actions_def hsm_exit_loop.simps hsm_execute_entry_actions_def hsm_machine_ok_def)
  next
    case self
    let ?sm = "hsm_call P (st_entry_action (hp_state P tgt)) ev (hsm_call P (st_exit_action (hp_state P tgt)) ev sm)"
    have "hsm_frame sm ?sm" using hsm_frame_trans hsm_call_frame [OF wf] by blast
    then show ?thesis using hsm_machine_ok_frame [OF _ ok] hsm_frame_fields [of sm ?sm] self Some
      by (intro exI [of _ True] exI [of _ ?sm]) (simp add: hsm_perform_transition_def)
  next
    case move
    obtain xs ys where c: "hsm_chain P (Some src) xs" "hsm_chain P (Some tgt) ys" using wf unfolding hsm_wf_def by meson
    let ?l = "common_ancestor xs ys" and ?n = "unat (hsm_buffer_size sm)"
    obtain buf where buf: "hsm_entry_path_buffer sm = Some buf" "?n \<le> length buf" using ok by (auto simp: hsm_machine_ok_def)
    let ?sm = "sm\<lparr>hsm_entry_path_buffer := Some (buf_put 0 (map Some (take ?n (below ?l ys))) buf)\<rparr>"
    let ?ex = "(run_exits P ev (below ?l xs) ?sm)\<lparr>hsm_current_state := Some tgt\<rparr>"
    have okb: "hsm_machine_ok ?sm" using buf by (simp add: hsm_machine_ok_def buf_put_def)
    have fr: "hsm_frame ?sm (run_exits P ev (below ?l xs) ?sm)" "hsm_frame ?ex (run_entries P ev (rev (below ?l ys)) ?ex)"
      by (rule run_frame [OF wf])+
    have "hsm_machine_ok ?ex" using hsm_machine_ok_frame [OF fr(1) okb] by (simp add: hsm_machine_ok_def)
    then have okx: "hsm_machine_ok (run_entries P ev (rev (below ?l ys)) ?ex)" by (rule hsm_machine_ok_frame [OF fr(2)])
    have st: "hsm_perform_transition P sm t ev = Some (if length (below ?l ys) \<le> ?n
        then (True, run_entries P ev (rev (below ?l ys)) ?ex) else (False, ?sm))"
      using perform_transition_chain [OF wf ok move c, of ev] by (simp add: transition_result_def Let_def buf(1) Some)
    show ?thesis
    proof (cases "length (below ?l ys) \<le> ?n")
      case True
      show ?thesis
        by (intro exI [of _ True] exI [of _ "run_entries P ev (rev (below ?l ys)) ?ex"])
           (use st okx True hsm_frame_fields [OF fr(2)] hsm_frame_fields [OF fr(1)] in \<open>simp add: Some\<close>)
    next
      case False
      then show ?thesis using st okb by (intro exI [of _ False] exI [of _ ?sm]) simp
    qed
  qed
qed

section \<open>The engine on a well-formed program\<close>

text \<open>A scratch array that is long enough for every state of the table.\<close>

definition hsm_fits :: "('s, 'g, 'a, 'u, 'c) hsm_program \<Rightarrow> ('s, 'a, 'u) ngx_rtc_hsm \<Rightarrow> bool" where
  "hsm_fits P sm \<longleftrightarrow> hsm_machine_ok sm \<and> (\<forall>s ys. hsm_chain P (Some s) ys \<longrightarrow> length ys \<le> unat (hsm_buffer_size sm))"

text \<open>The transition that handles an event: the first match on the way to the root.\<close>

fun first_match ::
  "('s, 'g, 'a, 'u, 'c) hsm_program \<Rightarrow> 'c ngx_rtc_hsm_event \<Rightarrow> ('s, 'a, 'u) ngx_rtc_hsm \<Rightarrow> 's list \<Rightarrow> ('s, 'g, 'a) ngx_rtc_hsm_transition option" where
  "first_match P ev sm [] = None"
| "first_match P ev sm (s # xs) =
     (case hsm_find_matching_transition P (st_transitions (hp_state P s)) ev sm of
        None \<Rightarrow> first_match P ev sm xs
      | Some t \<Rightarrow> Some t)"

lemma matching_transition_in: "hsm_find_matching_transition P ts ev sm = Some t \<Longrightarrow> t \<in> set ts \<and> tr_event_id t = ev_id ev"
  by (induction ts) (auto split: if_splits)

text \<open>How a dispatch may change the current state: not at all, or to the target of a matching transition.\<close>

definition hsm_moved where
  "hsm_moved P ev xs r sm sm' \<longleftrightarrow> hsm_current_state sm' = hsm_current_state sm \<or>
     (r \<and> (\<exists>s\<in>set xs. \<exists>t\<in>set (st_transitions (hp_state P s)). tr_event_id t = ev_id ev \<and> hsm_current_state sm' = tr_target t))"

lemma hsm_moved_Cons: "hsm_moved P ev [s] r sm sm' \<Longrightarrow> hsm_moved P ev (s # xs) r sm sm'"
  by (auto simp: hsm_moved_def)

lemma hsm_moved_later: "hsm_moved P ev [s] False sm sm' \<Longrightarrow> hsm_moved P ev xs r sm' sm'' \<Longrightarrow> hsm_moved P ev (s # xs) r sm sm''"
  by (auto simp: hsm_moved_def)

lemma search_loop_chain: "hsm_chain P p xs \<Longrightarrow> hsm_search_loop P p s = Some (s \<in> set xs)"
  by (induction rule: hsm_chain.induct) (auto simp: hsm_search_loop.simps)

locale hsm_engine =
  fixes P :: "('s, 'g, 'a, 'u, 'c) hsm_program"
  assumes wf: "hsm_wf P"
begin

lemma chain_ex: obtains xs where "hsm_chain P p xs" "length xs < 256"
proof (cases p)
  case None
  then show ?thesis using that [of "[]"] chain_NULL [of P] by simp
next
  case (Some s)
  then show ?thesis using that wf unfolding hsm_wf_def by metis
qed

lemma process_total:
  assumes ok: "hsm_machine_ok sm"
  shows "\<exists>r sm'. hsm_process_state_transitions P sm s ev = Some (r, sm') \<and> hsm_machine_ok sm' \<and>
     hsm_buffer_size sm' = hsm_buffer_size sm \<and> hsm_unhandled_event_hook sm' = hsm_unhandled_event_hook sm \<and>
     hsm_moved P ev [s] r sm sm'"
proof (cases "hsm_find_matching_transition P (st_transitions (hp_state P s)) ev sm")
  case None
  then show ?thesis using ok by (intro exI [of _ False] exI [of _ sm]) (simp add: hsm_process_state_transitions_def hsm_moved_def)
next
  case (Some t)
  let ?sm = "hsm_call P (tr_action t) (Some ev) sm"
  have fr: "hsm_frame sm ?sm" by (rule hsm_call_frame [OF wf])
  note ff = hsm_frame_fields [OF fr]
  have ok': "hsm_machine_ok ?sm" by (rule hsm_machine_ok_frame [OF fr ok])
  show ?thesis
  proof (cases "tr_type t = NGX_RTC_HSM_TRANSITION_INTERNAL")
    case True
    then show ?thesis using Some ok' ff
      by (intro exI [of _ True] exI [of _ ?sm]) (simp add: hsm_process_state_transitions_def hsm_execute_transition_def hsm_moved_def)
  next
    case False
    obtain r sm' where "hsm_perform_transition P ?sm (tr_target t) (Some ev) = Some (r, sm')" "hsm_machine_ok sm'"
       "hsm_buffer_size sm' = hsm_buffer_size ?sm" "hsm_unhandled_event_hook sm' = hsm_unhandled_event_hook ?sm"
       "hsm_current_state sm' = (if r then tr_target t else hsm_current_state ?sm)"
      using perform_transition_total [OF wf ok', of "tr_target t" "Some ev"] by blast
    then show ?thesis using Some False ff matching_transition_in [OF Some]
      by (intro exI [of _ r] exI [of _ sm']) (auto simp: hsm_process_state_transitions_def hsm_execute_transition_def hsm_moved_def)
  qed
qed

lemma bubble_total:
  assumes "hsm_chain P p xs" "hsm_machine_ok sm"
  shows "\<exists>r sm'. hsm_bubble_loop P p ev sm = Some (r, sm') \<and> hsm_machine_ok sm' \<and> hsm_buffer_size sm' = hsm_buffer_size sm \<and>
     hsm_moved P ev xs r sm sm'"
  using assms
proof (induction arbitrary: sm rule: hsm_chain.induct)
  case chain_NULL
  then show ?case by (intro exI [of _ False] exI [of _ sm]) (simp add: hsm_bubble_loop.simps hsm_moved_def)
next
  case (chain_Cons s xs)
  obtain r sm' where p: "hsm_process_state_transitions P sm s ev = Some (r, sm')" "hsm_machine_ok sm'"
     "hsm_buffer_size sm' = hsm_buffer_size sm"
     "hsm_moved P ev [s] r sm sm'"
    using process_total [OF chain_Cons.prems] by blast
  show ?case
  proof (cases r)
    case True
    then show ?thesis using p hsm_moved_Cons [OF p(4)]
      by (intro exI [of _ True] exI [of _ sm']) (subst hsm_bubble_loop.simps, simp)
  next
    case False
    then show ?thesis using p chain_Cons.IH [OF p(2)] hsm_moved_later [of P ev s sm sm' xs]
      by (subst hsm_bubble_loop.simps) fastforce
  qed
qed

lemma dispatch_total:
  assumes "hsm_machine_ok sm" "hsm_chain P (hsm_current_state sm) xs"
  shows "\<exists>r sm'. ngx_rtc_hsm_dispatch P (Some sm) (Some ev) = Some (r, Some sm') \<and> hsm_machine_ok sm' \<and>
     hsm_buffer_size sm' = hsm_buffer_size sm \<and>
     hsm_moved P ev xs r sm sm'"
proof -
  obtain r sm' where b: "hsm_bubble_loop P (hsm_current_state sm) ev sm = Some (r, sm')" "hsm_machine_ok sm'"
     "hsm_buffer_size sm' = hsm_buffer_size sm" "hsm_moved P ev xs r sm sm'"
    using bubble_total [OF assms(2,1)] by blast
  let ?sm = "hsm_call P (hsm_unhandled_event_hook sm') (Some ev) sm'"
  have fr: "hsm_frame sm' ?sm" by (rule hsm_call_frame [OF wf])
  show ?thesis
  proof (cases r)
    case True
    then show ?thesis using b by (intro exI [of _ True] exI [of _ sm']) (simp add: ngx_rtc_hsm_dispatch_def)
  next
    case False
    then show ?thesis using b hsm_machine_ok_frame [OF fr] hsm_frame_fields [OF fr]
      by (intro exI [of _ False] exI [of _ ?sm]) (simp add: ngx_rtc_hsm_dispatch_def hsm_moved_def)
  qed
qed

lemma execute_fits:
  assumes fits: "hsm_fits P sm" and t: "t \<in> set (st_transitions (hp_state P s))"
  shows "\<exists>sm'. hsm_execute_transition P sm t ev = Some (True, sm')"
proof (cases "tr_type t = NGX_RTC_HSM_TRANSITION_INTERNAL")
  case False
  let ?sm = "hsm_call P (tr_action t) (Some ev) sm"
  have fr: "hsm_frame sm ?sm" by (rule hsm_call_frame [OF wf])
  have ok: "hsm_machine_ok ?sm" using hsm_machine_ok_frame [OF fr] fits by (simp add: hsm_fits_def)
  have "tr_type t = NGX_RTC_HSM_TRANSITION_EXTERNAL" using False by (cases "tr_type t") auto
  then obtain tgt where tgt: "tr_target t = Some tgt" using wf t by (fastforce simp: hsm_wf_def)
  obtain xs ys where c: "hsm_chain P (hsm_current_state ?sm) xs" "hsm_chain P (Some tgt) ys" using chain_ex by metis
  have "length ys \<le> unat (hsm_buffer_size ?sm)" using fits c(2) hsm_frame_fields [OF fr] unfolding hsm_fits_def by metis
  then have "length (below l ys) \<le> unat (hsm_buffer_size ?sm)" for l
    using length_takeWhile_le [of "\<lambda>s. Some s \<noteq> l" ys] unfolding below_def by (rule order_trans [rotated])
  then have res: "\<exists>sm'. transition_result P ?sm tgt xs ys e = (True, sm')" for e
    by (simp add: transition_result_def Let_def)
  have "\<exists>sm'. hsm_perform_transition P ?sm (Some tgt) e = Some (True, sm')" for e
  proof (cases "hsm_current_state ?sm")
    case None
    then show ?thesis
      by (simp add: hsm_perform_transition_def hsm_find_lca_def hsm_build_entry_path_def hsm_path_loop.simps
          hsm_length_loop.simps hsm_execute_exit_actions_def hsm_exit_loop.simps hsm_execute_entry_actions_def)
  next
    case (Some src)
    then show ?thesis
      using perform_transition_chain [OF wf ok Some _ _ c(2), of xs e] c(1) res
      by (cases "src = tgt") (auto simp: hsm_perform_transition_def Let_def)
  qed
  then show ?thesis using False tgt by (simp add: hsm_execute_transition_def)
qed (simp add: hsm_execute_transition_def)

lemma bubble_first:
  "hsm_chain P p xs \<Longrightarrow> hsm_fits P sm \<Longrightarrow>
   (case first_match P ev sm xs of
      None \<Rightarrow> hsm_bubble_loop P p ev sm = Some (False, sm)
    | Some t \<Rightarrow> \<exists>sm'. hsm_execute_transition P sm t ev = Some (True, sm') \<and> hsm_bubble_loop P p ev sm = Some (True, sm'))"
proof (induction rule: hsm_chain.induct)
  case chain_NULL
  then show ?case by (simp add: hsm_bubble_loop.simps)
next
  case (chain_Cons s xs)
  show ?case
  proof (cases "hsm_find_matching_transition P (st_transitions (hp_state P s)) ev sm")
    case None
    then have "hsm_bubble_loop P (Some s) ev sm = hsm_bubble_loop P (hsm_parent P s) ev sm"
      by (subst hsm_bubble_loop.simps) (simp add: hsm_process_state_transitions_def)
    then show ?thesis using chain_Cons.IH [OF chain_Cons.prems] None by (simp split: option.splits)
  next
    case (Some t)
    obtain sm' where "hsm_execute_transition P sm t ev = Some (True, sm')"
      using execute_fits [OF chain_Cons.prems] matching_transition_in [OF Some] by blast
    then show ?thesis using Some by (subst hsm_bubble_loop.simps) (simp add: hsm_process_state_transitions_def)
  qed
qed

lemma dispatch_first:
  assumes "hsm_chain P (hsm_current_state sm) xs" "hsm_fits P sm"
  shows "case first_match P ev sm xs of
      None \<Rightarrow> ngx_rtc_hsm_dispatch P (Some sm) (Some ev) = Some (False, Some (hsm_call P (hsm_unhandled_event_hook sm) (Some ev) sm))
    | Some t \<Rightarrow> \<exists>sm'. hsm_execute_transition P sm t ev = Some (True, sm') \<and>
                    ngx_rtc_hsm_dispatch P (Some sm) (Some ev) = Some (True, Some sm')"
  using bubble_first [OF assms, of ev] by (auto simp: ngx_rtc_hsm_dispatch_def split: option.splits)

end

section \<open>An example hierarchy\<close>

text \<open>Three levels with an action on every state; an action appends its name to the user data.\<close>

datatype demo_state = Root | Mid | Leaf | Deep | Side

definition demo_table :: "demo_state \<Rightarrow> (demo_state, unit, string) ngx_rtc_hsm_state" where
  "demo_table s =
     (let mk = (\<lambda>p e x ts. \<lparr>st_parent = p, st_entry_action = Some e, st_exit_action = Some x, st_transitions = ts, st_name = None\<rparr>) in
      case s of
        Root \<Rightarrow> mk None ''+Root'' ''-Root'' [\<lparr>tr_event_id = 7, tr_target = Some Deep, tr_guard = None, tr_action = None, tr_type = NGX_RTC_HSM_TRANSITION_EXTERNAL\<rparr>]
      | Mid \<Rightarrow> mk (Some Root) ''+Mid'' ''-Mid'' []
      | Leaf \<Rightarrow> mk (Some Mid) ''+Leaf'' ''-Leaf'' []
      | Deep \<Rightarrow> mk (Some Leaf) ''+Deep'' ''-Deep'' []
      | Side \<Rightarrow> mk (Some Root) ''+Side'' ''-Side'' [])"

definition demo_program :: "(demo_state, unit, string, string list, unit) hsm_program" where
  "demo_program = \<lparr>hp_state = demo_table,
     hp_action = (\<lambda>a sm ev. sm\<lparr>hsm_user_data := map_option (\<lambda>l. l @ [a]) (hsm_user_data sm)\<rparr>), hp_guard = (\<lambda>_ _ _. True)\<rparr>"

definition demo_machine :: "demo_state \<Rightarrow> u8 \<Rightarrow> (demo_state, string, string list) ngx_rtc_hsm" where
  "demo_machine s n = \<lparr>hsm_current_state = Some s, hsm_initial_state = Some Root, hsm_user_data = Some [],
     hsm_unhandled_event_hook = None, hsm_entry_path_buffer = Some (replicate (unat n) None), hsm_buffer_size = n\<rparr>"

definition demo_path :: "demo_state \<Rightarrow> demo_state list" where
  "demo_path s = (case s of Root \<Rightarrow> [Root] | Mid \<Rightarrow> [Mid, Root] | Leaf \<Rightarrow> [Leaf, Mid, Root]
     | Deep \<Rightarrow> [Deep, Leaf, Mid, Root] | Side \<Rightarrow> [Side, Root])"

lemma demo_chain: "hsm_chain demo_program (Some s) (demo_path s)"
  by (cases s) (auto simp: hsm_parent_def demo_program_def demo_table_def demo_path_def intro!: hsm_chain.intros)

lemma demo_path_length: "length (demo_path s) \<le> 4"
  by (cases s) (simp_all add: demo_path_def)

lemma demo_wf: "hsm_wf demo_program"
proof -
  have "hsm_chain demo_program (Some s) (demo_path s) \<and> length (demo_path s) < 256" for s
    using demo_chain [of s] demo_path_length [of s] by simp
  moreover have "hsm_frame sm (hp_action demo_program a sm ev)" for a sm ev by (simp add: hsm_frame_def demo_program_def)
  moreover have "tr_target t \<noteq> None" if "t \<in> set (st_transitions (hp_state demo_program s))" for s t
    using that by (cases s) (auto simp: demo_program_def demo_table_def)
  ultimately show ?thesis unfolding hsm_wf_def by blast
qed

lemma demo_machine_ok: "hsm_machine_ok (demo_machine s n)"
  by (simp add: hsm_machine_ok_def demo_machine_def)

lemma demo_fits: "hsm_fits demo_program (demo_machine s 4)"
proof -
  have "length ys \<le> 4" if "hsm_chain demo_program (Some q) ys" for q ys
    using that demo_chain [of q] demo_path_length [of q] chain_det by metis
  then show ?thesis by (simp add: hsm_fits_def demo_machine_ok) (simp add: demo_machine_def)
qed

section \<open>Properties\<close>

text \<open>
  \<^verbatim>\<open>hsm_find_lca\<close> returns, for states less than 256 deep, the lowest common ancestor: a common
  ancestor of both of which every other common ancestor is an ancestor, or NULL when the two states
  have no ancestor in common. In particular none of its loops dereferences NULL.
\<close>

theorem hsm_lca_correct:
  assumes c: "hsm_chain P (Some s1) xs" "hsm_chain P (Some s2) ys" and len: "length xs < 256" "length ys < 256"
  shows "\<exists>r. hsm_find_lca P (Some s1) (Some s2) = Some r \<and>
    (case r of None \<Rightarrow> set xs \<inter> set ys = {}
     | Some l \<Rightarrow> l \<in> set xs \<inter> set ys \<and> (\<exists>ls. hsm_chain P (Some l) ls \<and> set xs \<inter> set ys \<subseteq> set ls))"
proof (cases "common_ancestor xs ys")
  case None
  then have "set xs \<inter> set ys = {}" by (auto simp: common_ancestor_def find_None_iff)
  then show ?thesis using find_lca_chain [OF assms] None by simp
next
  case (Some l)
  then obtain i where i: "i < length xs" "xs ! i \<in> set ys" "l = xs ! i" "\<forall>j<i. xs ! j \<notin> set ys"
    by (auto simp: common_ancestor_def find_Some_iff)
  have "set xs \<inter> set ys \<subseteq> set (drop i xs)"
  proof
    fix a assume a: "a \<in> set xs \<inter> set ys"
    then obtain k where k: "k < length xs" "xs ! k = a" by (auto simp: in_set_conv_nth)
    then have "i \<le> k" using i(4) a by (meson IntE not_le)
    then show "a \<in> set (drop i xs)" using k by (auto simp: in_set_conv_nth intro!: exI [of _ "k - i"])
  qed
  then have "\<exists>ls. hsm_chain P (Some l) ls \<and> set xs \<inter> set ys \<subseteq> set ls" using chain_drop [OF c(1) i(1)] i(3) by metis
  then show ?thesis using find_lca_chain [OF assms] Some i by auto
qed

theorem hsm_lca_correct_witness:
  "hsm_find_lca demo_program (Some Deep) (Some Side) = Some (Some Root)"
proof -
  have "\<exists>r. hsm_find_lca demo_program (Some Deep) (Some Side) = Some r \<and>
    (case r of None \<Rightarrow> set (demo_path Deep) \<inter> set (demo_path Side) = {}
     | Some l \<Rightarrow> l \<in> set (demo_path Deep) \<inter> set (demo_path Side) \<and>
        (\<exists>ls. hsm_chain demo_program (Some l) ls \<and> set (demo_path Deep) \<inter> set (demo_path Side) \<subseteq> set ls))"
    by (rule hsm_lca_correct [OF demo_chain demo_chain]) (simp_all add: demo_path_def)
  then show ?thesis by (auto simp: demo_path_def split: option.splits)
qed

text \<open>
  C24. An external transition to another state whose entry path fits the scratch array runs the exit
  actions from the source up to the lowest common ancestor, innermost first, then makes the target
  current, then runs the entry actions below the common ancestor down to the target, outermost first.
\<close>

theorem hsm_transition_order:
  assumes "hsm_wf P" "hsm_entry_path_buffer sm = Some buf" "unat (hsm_buffer_size sm) \<le> length buf"
    and "hsm_current_state sm = Some src" "src \<noteq> tgt" "hsm_chain P (Some src) xs" "hsm_chain P (Some tgt) ys"
    and "length (below (common_ancestor xs ys) ys) \<le> unat (hsm_buffer_size sm)"
  shows "\<exists>buf'. hsm_perform_transition P sm (Some tgt) ev =
     Some (True, run_entries P ev (rev (below (common_ancestor xs ys) ys))
       ((run_exits P ev (below (common_ancestor xs ys) xs) (sm\<lparr>hsm_entry_path_buffer := Some buf'\<rparr>))\<lparr>hsm_current_state := Some tgt\<rparr>))"
proof -
  have "hsm_machine_ok sm" using assms by (simp add: hsm_machine_ok_def)
  then show ?thesis using perform_transition_chain [OF assms(1) _ assms(4-7), of ev] assms(2,8)
    by (auto simp: transition_result_def Let_def)
qed

theorem hsm_transition_order_witness:
  "\<exists>sm. hsm_perform_transition demo_program (demo_machine Deep 4) (Some Side) None = Some (True, sm) \<and>
     hsm_current_state sm = Some Side \<and> hsm_user_data sm = Some [''-Deep'', ''-Leaf'', ''-Mid'', ''+Side'']"
proof -
  have ca: "common_ancestor (demo_path Deep) (demo_path Side) = Some Root" by (simp add: common_ancestor_def demo_path_def)
  have b: "below (Some Root) (demo_path Deep) = [Deep, Leaf, Mid]" "below (Some Root) (demo_path Side) = [Side]"
    by (simp_all add: demo_path_def)
  have "\<exists>buf'. hsm_perform_transition demo_program (demo_machine Deep 4) (Some Side) None =
     Some (True, run_entries demo_program None (rev (below (common_ancestor (demo_path Deep) (demo_path Side)) (demo_path Side)))
       ((run_exits demo_program None (below (common_ancestor (demo_path Deep) (demo_path Side)) (demo_path Deep))
          ((demo_machine Deep 4)\<lparr>hsm_entry_path_buffer := Some buf'\<rparr>))\<lparr>hsm_current_state := Some Side\<rparr>))"
    by (rule hsm_transition_order [OF demo_wf _ _ _ _ demo_chain [of Deep] demo_chain [of Side], where buf = "replicate 4 None"])
       (simp_all add: demo_machine_def ca b)
  then show ?thesis unfolding ca b by (auto simp: hsm_call_def demo_program_def demo_table_def demo_machine_def Let_def)
qed

text \<open>
  When the entry path does not fit the scratch array the transition reports failure before any
  action has run: nothing but the scratch array itself is changed.
\<close>

theorem hsm_transition_atomic:
  assumes "hsm_wf P" "hsm_entry_path_buffer sm = Some buf" "unat (hsm_buffer_size sm) \<le> length buf"
    and "hsm_current_state sm = Some src" "src \<noteq> tgt" "hsm_chain P (Some src) xs" "hsm_chain P (Some tgt) ys"
    and "unat (hsm_buffer_size sm) < length (below (common_ancestor xs ys) ys)"
  shows "\<exists>buf'. length buf' = length buf \<and>
     hsm_perform_transition P sm (Some tgt) ev = Some (False, sm\<lparr>hsm_entry_path_buffer := Some buf'\<rparr>)"
proof -
  let ?path = "below (common_ancestor xs ys) ys" and ?n = "unat (hsm_buffer_size sm)"
  have "hsm_machine_ok sm" using assms by (simp add: hsm_machine_ok_def)
  then have "hsm_perform_transition P sm (Some tgt) ev
      = Some (False, sm\<lparr>hsm_entry_path_buffer := Some (buf_put 0 (map Some (take ?n ?path)) buf)\<rparr>)"
    using perform_transition_chain [OF assms(1) _ assms(4-7), of ev] assms(2,8) by (simp add: transition_result_def Let_def)
  moreover have "length (buf_put 0 (map Some (take ?n ?path)) buf) = length buf" using assms(3,8) by (simp add: buf_put_def)
  ultimately show ?thesis by blast
qed

theorem hsm_transition_atomic_witness:
  "\<exists>buf'. length buf' = 2 \<and> hsm_perform_transition demo_program (demo_machine Side 2) (Some Deep) None
     = Some (False, (demo_machine Side 2)\<lparr>hsm_entry_path_buffer := Some buf'\<rparr>)"
proof -
  have ca: "common_ancestor (demo_path Side) (demo_path Deep) = Some Root" by (simp add: common_ancestor_def demo_path_def)
  have b: "below (Some Root) (demo_path Deep) = [Deep, Leaf, Mid]" by (simp add: demo_path_def)
  have "\<exists>buf'. length buf' = length (replicate 2 (None :: demo_state option)) \<and>
     hsm_perform_transition demo_program (demo_machine Side 2) (Some Deep) None
     = Some (False, (demo_machine Side 2)\<lparr>hsm_entry_path_buffer := Some buf'\<rparr>)"
    by (rule hsm_transition_atomic [OF demo_wf _ _ _ _ demo_chain [of Side] demo_chain [of Deep]]) (simp_all add: ca b demo_machine_def)
  then show ?thesis by simp
qed

text \<open>
  C25. Dispatch bubbles: with a scratch array deep enough for the table, an event is handled by the
  first matching transition (event and guard) on the way from the current state to the root, exactly
  that transition is executed and the dispatch reports success; with no match the unhandled-event
  hook runs and the dispatch reports failure. It always returns.
\<close>

theorem hsm_dispatch_bubbles:
  assumes "hsm_wf P" "hsm_chain P (hsm_current_state sm) xs" "hsm_fits P sm"
  shows "case first_match P ev sm xs of
      None \<Rightarrow> ngx_rtc_hsm_dispatch P (Some sm) (Some ev) = Some (False, Some (hsm_call P (hsm_unhandled_event_hook sm) (Some ev) sm))
    | Some t \<Rightarrow> \<exists>sm'. hsm_execute_transition P sm t ev = Some (True, sm') \<and>
                    ngx_rtc_hsm_dispatch P (Some sm) (Some ev) = Some (True, Some sm')"
  using hsm_engine.dispatch_first [OF hsm_engine.intro, OF assms] .

theorem hsm_dispatch_bubbles_witness:
  "ngx_rtc_hsm_dispatch demo_program (Some (demo_machine Side 4)) (Some \<lparr>ev_id = 9, ev_context = None\<rparr>)
     = Some (False, Some (demo_machine Side 4))"
proof -
  have c: "hsm_chain demo_program (hsm_current_state (demo_machine Side 4)) [Side, Root]"
    using demo_chain [of Side] by (simp add: demo_machine_def demo_path_def)
  show ?thesis using hsm_dispatch_bubbles [OF demo_wf c demo_fits, of "\<lparr>ev_id = 9, ev_context = None\<rparr>"]
    by (simp add: demo_program_def demo_table_def demo_machine_def hsm_call_def)
qed

end
