(* ===== verification/SessionFsm.thy ===== *)
theory SessionFsm
  imports Hsm "HOL-Library.Sublist"
begin

text \<open>
  The session life cycle of \<^verbatim>\<open>src/ngx_rtc_session_fsm.c\<close>: the state objects, guards and transition
  tables as a program of the engine in \<open>Hsm\<close>, and the wrapper operations. The unhandled-event reporter
  is supplied by the nginx side; it is a parameter that may change the user data and nothing else.
\<close>

section \<open>Tables\<close>

record 'k ngx_rtc_session_fsm_ctx =
  ctx_conn :: "'k option"
  ctx_data :: "bytes option"
  ctx_len :: nat

datatype session_object = S_session_top | S_session_new | S_session_ice_bound | S_session_dtls_handshake
  | S_session_srtp_ready | S_session_closed

datatype session_guard = S_session_binding_guard | S_session_dtls_guard

abbreviation NGX_RTC_SESSION_EVT_STUN_BINDING :: u32 where "NGX_RTC_SESSION_EVT_STUN_BINDING \<equiv> 0x01"
abbreviation NGX_RTC_SESSION_EVT_DTLS_PACKET :: u32 where "NGX_RTC_SESSION_EVT_DTLS_PACKET \<equiv> 0x02"
abbreviation NGX_RTC_SESSION_EVT_DTLS_HANDSHAKE_DONE :: u32 where "NGX_RTC_SESSION_EVT_DTLS_HANDSHAKE_DONE \<equiv> 0x03"
abbreviation NGX_RTC_SESSION_EVT_SRTP_READY :: u32 where "NGX_RTC_SESSION_EVT_SRTP_READY \<equiv> 0x04"
abbreviation NGX_RTC_SESSION_EVT_TIMEOUT :: u32 where "NGX_RTC_SESSION_EVT_TIMEOUT \<equiv> 0x10"
abbreviation NGX_RTC_SESSION_EVT_CLOSE :: u32 where "NGX_RTC_SESSION_EVT_CLOSE \<equiv> 0x20"
abbreviation NGX_RTC_SESSION_EVT_RTCP_BYE :: u32 where "NGX_RTC_SESSION_EVT_RTCP_BYE \<equiv> 0x30"

text \<open>State ids are plain integers: an id may come from shared memory.\<close>

abbreviation NGX_RTC_SESSION_STATE_UNKNOWN :: u32 where "NGX_RTC_SESSION_STATE_UNKNOWN \<equiv> 0"
abbreviation NGX_RTC_SESSION_STATE_NEW :: u32 where "NGX_RTC_SESSION_STATE_NEW \<equiv> 1"
abbreviation NGX_RTC_SESSION_STATE_ICE_BOUND :: u32 where "NGX_RTC_SESSION_STATE_ICE_BOUND \<equiv> 2"
abbreviation NGX_RTC_SESSION_STATE_DTLS_HANDSHAKE :: u32 where "NGX_RTC_SESSION_STATE_DTLS_HANDSHAKE \<equiv> 3"
abbreviation NGX_RTC_SESSION_STATE_SRTP_READY :: u32 where "NGX_RTC_SESSION_STATE_SRTP_READY \<equiv> 4"
abbreviation NGX_RTC_SESSION_STATE_CLOSED :: u32 where "NGX_RTC_SESSION_STATE_CLOSED \<equiv> 5"

definition s_session_binding_guard :: "'k ngx_rtc_session_fsm_ctx ngx_rtc_hsm_event \<Rightarrow> bool" where
  "s_session_binding_guard event =
     (case ev_context event of None \<Rightarrow> True | Some ctx \<Rightarrow> ctx_conn ctx \<noteq> None)"

definition s_session_dtls_guard :: "'k ngx_rtc_session_fsm_ctx ngx_rtc_hsm_event \<Rightarrow> bool" where
  "s_session_dtls_guard event =
     (case ev_context event of None \<Rightarrow> True | Some ctx \<Rightarrow>
        (case ctx_data ctx of None \<Rightarrow> False | Some data \<Rightarrow>
           if ctx_len ctx < 13 then False else data ! 0 \<ge> 20 \<and> data ! 0 \<le> 63))"

type_synonym 'a session_transition = "(session_object, session_guard, 'a) ngx_rtc_hsm_transition"

definition s_external :: "u32 \<Rightarrow> session_object \<Rightarrow> session_guard option \<Rightarrow> 'a session_transition" where
  "s_external e t g = \<lparr>tr_event_id = e, tr_target = Some t, tr_guard = g, tr_action = None, tr_type = NGX_RTC_HSM_TRANSITION_EXTERNAL\<rparr>"

definition s_internal :: "u32 \<Rightarrow> session_guard option \<Rightarrow> 'a session_transition" where
  "s_internal e g = \<lparr>tr_event_id = e, tr_target = None, tr_guard = g, tr_action = None, tr_type = NGX_RTC_HSM_TRANSITION_INTERNAL\<rparr>"

definition s_session_top_transitions :: "'a session_transition list" where
  "s_session_top_transitions =
     [s_external NGX_RTC_SESSION_EVT_CLOSE S_session_closed None,
      s_external NGX_RTC_SESSION_EVT_TIMEOUT S_session_closed None,
      s_external NGX_RTC_SESSION_EVT_RTCP_BYE S_session_closed None]"

definition s_session_new_transitions :: "'a session_transition list" where
  "s_session_new_transitions =
     [s_external NGX_RTC_SESSION_EVT_STUN_BINDING S_session_ice_bound (Some S_session_binding_guard)]"

definition s_session_ice_bound_transitions :: "'a session_transition list" where
  "s_session_ice_bound_transitions =
     [s_internal NGX_RTC_SESSION_EVT_STUN_BINDING (Some S_session_binding_guard),
      s_external NGX_RTC_SESSION_EVT_DTLS_PACKET S_session_dtls_handshake (Some S_session_dtls_guard)]"

definition s_session_dtls_handshake_transitions :: "'a session_transition list" where
  "s_session_dtls_handshake_transitions =
     [s_external NGX_RTC_SESSION_EVT_DTLS_HANDSHAKE_DONE S_session_srtp_ready None,
      s_external NGX_RTC_SESSION_EVT_SRTP_READY S_session_srtp_ready None,
      s_internal NGX_RTC_SESSION_EVT_STUN_BINDING (Some S_session_binding_guard)]"

definition s_session_srtp_ready_transitions :: "'a session_transition list" where
  "s_session_srtp_ready_transitions =
     [s_internal NGX_RTC_SESSION_EVT_SRTP_READY None,
      s_internal NGX_RTC_SESSION_EVT_STUN_BINDING (Some S_session_binding_guard)]"

definition s_session_closed_transitions :: "'a session_transition list" where
  "s_session_closed_transitions =
     [s_internal NGX_RTC_SESSION_EVT_CLOSE None, s_internal NGX_RTC_SESSION_EVT_TIMEOUT None,
      s_internal NGX_RTC_SESSION_EVT_RTCP_BYE None]"

definition s_session :: "session_object \<Rightarrow> (session_object, session_guard, 'a) ngx_rtc_hsm_state" where
  "s_session s =
     (let mk = (\<lambda>p ts n. \<lparr>st_parent = p, st_entry_action = None, st_exit_action = None, st_transitions = ts, st_name = Some n\<rparr>) in
      case s of
        S_session_top \<Rightarrow> mk None s_session_top_transitions ''SESSION''
      | S_session_new \<Rightarrow> mk (Some S_session_top) s_session_new_transitions ''NEW''
      | S_session_ice_bound \<Rightarrow> mk (Some S_session_top) s_session_ice_bound_transitions ''ICE_BOUND''
      | S_session_dtls_handshake \<Rightarrow> mk (Some S_session_top) s_session_dtls_handshake_transitions ''DTLS_HANDSHAKE''
      | S_session_srtp_ready \<Rightarrow> mk (Some S_session_top) s_session_srtp_ready_transitions ''SRTP_READY''
      | S_session_closed \<Rightarrow> mk (Some S_session_top) s_session_closed_transitions ''CLOSED'')"

type_synonym ('a, 'u, 'k) reporters = "'a \<Rightarrow> 'u option \<Rightarrow> 'k ngx_rtc_session_fsm_ctx ngx_rtc_hsm_event option \<Rightarrow> 'u option"
type_synonym ('a, 'u) session_hsm = "(session_object, 'a, 'u) ngx_rtc_hsm"

definition session_program ::
  "('a, 'u, 'k) reporters \<Rightarrow> (session_object, session_guard, 'a, 'u, 'k ngx_rtc_session_fsm_ctx) hsm_program" where
  "session_program rep =
     \<lparr>hp_state = s_session,
      hp_action = (\<lambda>a sm ev. sm\<lparr>hsm_user_data := rep a (hsm_user_data sm) ev\<rparr>),
      hp_guard = (\<lambda>g sm ev. case g of S_session_binding_guard \<Rightarrow> s_session_binding_guard ev
                            | S_session_dtls_guard \<Rightarrow> s_session_dtls_guard ev)\<rparr>"

section \<open>Wrapper operations\<close>

definition ngx_rtc_session_fsm_init ::
  "('a, 'u, 'k) reporters \<Rightarrow> ('a, 'u) session_hsm option \<Rightarrow> session_object option list option \<Rightarrow> u8 \<Rightarrow> 'u option \<Rightarrow>
   ('a, 'u) session_hsm option option" where
  "ngx_rtc_session_fsm_init rep sm path_buf path_buf_size sess =
     ngx_rtc_hsm_init (session_program rep) sm (Some S_session_new) path_buf path_buf_size sess None"

definition ngx_rtc_session_fsm_deinit :: "('a, 'u) session_hsm option \<Rightarrow> ('a, 'u) session_hsm option" where
  "ngx_rtc_session_fsm_deinit sm = ngx_rtc_hsm_deinit sm"

definition ngx_rtc_session_fsm_dispatch_ctx ::
  "('a, 'u, 'k) reporters \<Rightarrow> ('a, 'u) session_hsm option \<Rightarrow> u32 \<Rightarrow> 'k ngx_rtc_session_fsm_ctx option \<Rightarrow>
   (bool \<times> ('a, 'u) session_hsm option) option" where
  "ngx_rtc_session_fsm_dispatch_ctx rep sm event ctx =
     (if sm = None then Some (False, sm)
      else ngx_rtc_hsm_dispatch (session_program rep) sm (Some \<lparr>ev_id = event, ev_context = ctx\<rparr>))"

definition ngx_rtc_session_fsm_dispatch ::
  "('a, 'u, 'k) reporters \<Rightarrow> ('a, 'u) session_hsm option \<Rightarrow> u32 \<Rightarrow> (bool \<times> ('a, 'u) session_hsm option) option" where
  "ngx_rtc_session_fsm_dispatch rep sm event = ngx_rtc_session_fsm_dispatch_ctx rep sm event None"

definition ngx_rtc_session_fsm_dtls_pending :: "('a, 'u, 'k) reporters \<Rightarrow> ('a, 'u) session_hsm option \<Rightarrow> bool option" where
  "ngx_rtc_session_fsm_dtls_pending rep sm =
     (if sm = None then Some False
      else do { n \<leftarrow> ngx_rtc_hsm_is_in_state (session_program rep) sm (Some S_session_new);
                if n then Some True else ngx_rtc_hsm_is_in_state (session_program rep) sm (Some S_session_ice_bound) })"

definition ngx_rtc_session_fsm_get_state :: "('a, 'u, 'k) reporters \<Rightarrow> ('a, 'u) session_hsm option \<Rightarrow> u32 option" where
  "ngx_rtc_session_fsm_get_state rep sm =
     (if sm = None then Some NGX_RTC_SESSION_STATE_UNKNOWN
      else let is_in = ngx_rtc_hsm_is_in_state (session_program rep) sm in
      do { b \<leftarrow> is_in (Some S_session_srtp_ready);
           if b then Some NGX_RTC_SESSION_STATE_SRTP_READY else
      do { b \<leftarrow> is_in (Some S_session_dtls_handshake);
           if b then Some NGX_RTC_SESSION_STATE_DTLS_HANDSHAKE else
      do { b \<leftarrow> is_in (Some S_session_ice_bound);
           if b then Some NGX_RTC_SESSION_STATE_ICE_BOUND else
      do { b \<leftarrow> is_in (Some S_session_closed);
           if b then Some NGX_RTC_SESSION_STATE_CLOSED else
      do { b \<leftarrow> is_in (Some S_session_new);
           if b then Some NGX_RTC_SESSION_STATE_NEW else Some NGX_RTC_SESSION_STATE_UNKNOWN }}}}})"

definition ngx_rtc_session_fsm_get_state_name :: "('a, 'u, 'k) reporters \<Rightarrow> ('a, 'u) session_hsm option \<Rightarrow> string" where
  "ngx_rtc_session_fsm_get_state_name rep sm = ngx_rtc_hsm_get_current_state_name (session_program rep) sm"

definition ngx_rtc_session_fsm_state_object :: "u32 \<Rightarrow> session_object option" where
  "ngx_rtc_session_fsm_state_object state =
     (if state = NGX_RTC_SESSION_STATE_NEW then Some S_session_new
      else if state = NGX_RTC_SESSION_STATE_ICE_BOUND then Some S_session_ice_bound
      else if state = NGX_RTC_SESSION_STATE_DTLS_HANDSHAKE then Some S_session_dtls_handshake
      else if state = NGX_RTC_SESSION_STATE_SRTP_READY then Some S_session_srtp_ready
      else if state = NGX_RTC_SESSION_STATE_CLOSED then Some S_session_closed
      else None)"

text \<open>Every state object has a name, so the NULL name does not occur.\<close>

definition ngx_rtc_session_fsm_state_name :: "u32 \<Rightarrow> string" where
  "ngx_rtc_session_fsm_state_name state =
     (case ngx_rtc_session_fsm_state_object state of
        None \<Rightarrow> ''UNKNOWN''
      | Some obj \<Rightarrow> the (st_name (s_session obj :: (session_object, session_guard, unit) ngx_rtc_hsm_state)))"

definition ngx_rtc_session_fsm_restore :: "('a, 'u) session_hsm option \<Rightarrow> u32 \<Rightarrow> bool \<times> ('a, 'u) session_hsm option" where
  "ngx_rtc_session_fsm_restore sm state = ngx_rtc_hsm_restore_state sm (ngx_rtc_session_fsm_state_object state)"

definition ngx_rtc_session_fsm_is_ready :: "('a, 'u, 'k) reporters \<Rightarrow> ('a, 'u) session_hsm option \<Rightarrow> bool option" where
  "ngx_rtc_session_fsm_is_ready rep sm =
     (if sm = None then Some False else ngx_rtc_hsm_is_in_state (session_program rep) sm (Some S_session_srtp_ready))"

definition ngx_rtc_session_fsm_set_reporter :: "('a, 'u) session_hsm option \<Rightarrow> 'a option \<Rightarrow> ('a, 'u) session_hsm option" where
  "ngx_rtc_session_fsm_set_reporter sm reporter = map_option (\<lambda>sm. sm\<lparr>hsm_unhandled_event_hook := reporter\<rparr>) sm"

section \<open>The engine on the session tables\<close>

definition session_path :: "session_object \<Rightarrow> session_object list" where
  "session_path s = (if s = S_session_top then [S_session_top] else [s, S_session_top])"

lemma session_chain: "hsm_chain (session_program rep) (Some s) (session_path s)"
  by (cases s) (auto simp: session_path_def hsm_parent_def session_program_def s_session_def intro!: hsm_chain.intros)

lemma session_path_length: "length (session_path s) \<le> 2"
  by (simp add: session_path_def)

lemmas session_tables = s_session_top_transitions_def s_session_new_transitions_def s_session_ice_bound_transitions_def
  s_session_dtls_handshake_transitions_def s_session_srtp_ready_transitions_def s_session_closed_transitions_def
  s_external_def s_internal_def

interpretation sf: hsm_engine "session_program rep" for rep :: "('a, 'u, 'k) reporters"
proof
  let ?P = "session_program rep"
  have "hsm_chain ?P (Some s) (session_path s) \<and> length (session_path s) < 256" for s
    using session_chain session_path_length [of s] by auto
  moreover have "tr_target t \<noteq> None" if "t \<in> set (st_transitions (hp_state ?P s))" "tr_type t = NGX_RTC_HSM_TRANSITION_EXTERNAL" for s t
    using that by (cases s) (auto simp: session_program_def s_session_def session_tables)
  moreover have "hsm_frame sm (hp_action ?P a sm ev)" for a sm ev by (simp add: hsm_frame_def session_program_def)
  ultimately show "hsm_wf ?P" unfolding hsm_wf_def by blast
qed

lemma session_fits: "hsm_machine_ok sm \<Longrightarrow> 2 \<le> unat (hsm_buffer_size sm) \<Longrightarrow> hsm_fits (session_program rep) sm"
  unfolding hsm_fits_def using session_chain session_path_length chain_det le_trans by metis

section \<open>The life cycle\<close>

text \<open>
  The life cycle the tables are meant to implement, by state and event: \<open>None\<close> when the event is not
  for this state.
\<close>

definition close_class :: "u32 \<Rightarrow> bool" where
  "close_class e \<longleftrightarrow> e = NGX_RTC_SESSION_EVT_CLOSE \<or> e = NGX_RTC_SESSION_EVT_TIMEOUT \<or> e = NGX_RTC_SESSION_EVT_RTCP_BYE"

definition binding_ok :: "u32 \<Rightarrow> 'k ngx_rtc_session_fsm_ctx option \<Rightarrow> bool" where
  "binding_ok e ctx \<longleftrightarrow> e = NGX_RTC_SESSION_EVT_STUN_BINDING \<and> (case ctx of None \<Rightarrow> True | Some c \<Rightarrow> ctx_conn c \<noteq> None)"

definition dtls_ok :: "u32 \<Rightarrow> 'k ngx_rtc_session_fsm_ctx option \<Rightarrow> bool" where
  "dtls_ok e ctx \<longleftrightarrow> e = NGX_RTC_SESSION_EVT_DTLS_PACKET \<and>
     (case ctx of None \<Rightarrow> True | Some c \<Rightarrow> \<exists>d. ctx_data c = Some d \<and> 13 \<le> ctx_len c \<and> 20 \<le> d ! 0 \<and> d ! 0 \<le> 63)"

definition keys_done :: "u32 \<Rightarrow> bool" where
  "keys_done e \<longleftrightarrow> e = NGX_RTC_SESSION_EVT_DTLS_HANDSHAKE_DONE \<or> e = NGX_RTC_SESSION_EVT_SRTP_READY"

definition session_step :: "session_object \<Rightarrow> u32 \<Rightarrow> 'k ngx_rtc_session_fsm_ctx option \<Rightarrow> session_object option" where
  "session_step s e ctx =
     (if close_class e then Some S_session_closed
      else case s of
        S_session_new \<Rightarrow> if binding_ok e ctx then Some S_session_ice_bound else None
      | S_session_ice_bound \<Rightarrow> if dtls_ok e ctx then Some S_session_dtls_handshake else if binding_ok e ctx then Some s else None
      | S_session_dtls_handshake \<Rightarrow> if keys_done e then Some S_session_srtp_ready else if binding_ok e ctx then Some s else None
      | S_session_srtp_ready \<Rightarrow> if e = NGX_RTC_SESSION_EVT_SRTP_READY \<or> binding_ok e ctx then Some s else None
      | _ \<Rightarrow> None)"

lemma first_match_step:
  "(case first_match (session_program rep) \<lparr>ev_id = e, ev_context = ctx\<rparr> sm (session_path s) of
      None \<Rightarrow> None
    | Some t \<Rightarrow> Some (if tr_type t = NGX_RTC_HSM_TRANSITION_INTERNAL then s else the (tr_target t))) = session_step s e ctx"
  by (cases s; cases ctx)
     (auto simp: session_path_def session_program_def s_session_def session_tables session_step_def close_class_def
       binding_ok_def dtls_ok_def keys_done_def s_session_binding_guard_def s_session_dtls_guard_def split: option.splits)

lemma execute_current:
  assumes "hsm_machine_ok sm" "hsm_execute_transition (session_program rep) sm t ev = Some (True, sm')"
  shows "hsm_current_state sm' = (if tr_type t = NGX_RTC_HSM_TRANSITION_INTERNAL then hsm_current_state sm else tr_target t)"
    "hsm_machine_ok sm'" "hsm_buffer_size sm' = hsm_buffer_size sm"
proof -
  let ?sm = "hsm_call (session_program rep) (tr_action t) (Some ev) sm"
  have fr: "hsm_frame sm ?sm" by (rule hsm_call_frame [OF sf.wf [where rep = rep]])
  have ok: "hsm_machine_ok ?sm" by (rule hsm_machine_ok_frame [OF fr assms(1)])
  show "hsm_current_state sm' = (if tr_type t = NGX_RTC_HSM_TRANSITION_INTERNAL then hsm_current_state sm else tr_target t)"
    "hsm_machine_ok sm'" "hsm_buffer_size sm' = hsm_buffer_size sm"
    using assms(2) perform_transition_total [OF sf.wf [where rep = rep] ok, where t = "tr_target t" and ev = "Some ev"] hsm_frame_fields [OF fr] ok
    by (auto simp: hsm_execute_transition_def Let_def split: if_splits)
qed

definition session_ok :: "('a, 'u) session_hsm \<Rightarrow> bool" where
  "session_ok sm \<longleftrightarrow> hsm_machine_ok sm \<and> 2 \<le> unat (hsm_buffer_size sm) \<and> hsm_current_state sm \<noteq> None"

lemma dispatch_step:
  assumes ok: "session_ok sm" and cur: "hsm_current_state sm = Some s"
  shows "\<exists>sm'. ngx_rtc_session_fsm_dispatch_ctx rep (Some sm) e ctx = Some (session_step s e ctx \<noteq> None, Some sm') \<and>
     session_ok sm' \<and> hsm_current_state sm' = Some (case session_step s e ctx of None \<Rightarrow> s | Some s' \<Rightarrow> s')"
proof -
  let ?P = "session_program rep" and ?ev = "\<lparr>ev_id = e, ev_context = ctx\<rparr>"
  have ok': "hsm_machine_ok sm" "2 \<le> unat (hsm_buffer_size sm)" using ok by (simp_all add: session_ok_def)
  have c: "hsm_chain ?P (hsm_current_state sm) (session_path s)" using cur session_chain by metis
  note D = sf.dispatch_first [OF c session_fits [OF ok'], where ev = ?ev]
  show ?thesis
  proof (cases "first_match ?P ?ev sm (session_path s)")
    case None
    let ?sm = "hsm_call ?P (hsm_unhandled_event_hook sm) (Some ?ev) sm"
    have fr: "hsm_frame sm ?sm" by (rule hsm_call_frame [OF sf.wf [where rep = rep]])
    have "session_step s e ctx = None" using first_match_step [where rep = rep and e = e and ctx = ctx and sm = sm and s = s] None by simp
    moreover have "ngx_rtc_session_fsm_dispatch_ctx rep (Some sm) e ctx = Some (False, Some ?sm)"
      using D None by (simp add: ngx_rtc_session_fsm_dispatch_ctx_def)
    ultimately show ?thesis using hsm_machine_ok_frame [OF fr ok'(1)] hsm_frame_fields [OF fr] ok' cur
      by (intro exI [of _ ?sm]) (simp add: session_ok_def)
  next
    case (Some t)
    then obtain sm' where x: "hsm_execute_transition ?P sm t ?ev = Some (True, sm')"
      "ngx_rtc_hsm_dispatch ?P (Some sm) (Some ?ev) = Some (True, Some sm')" using D by auto
    note E = execute_current [OF ok'(1) x(1)]
    have st: "session_step s e ctx = Some (if tr_type t = NGX_RTC_HSM_TRANSITION_INTERNAL then s else the (tr_target t))"
      using first_match_step [where rep = rep and e = e and ctx = ctx and sm = sm and s = s] Some by simp
    have "tr_type t \<noteq> NGX_RTC_HSM_TRANSITION_INTERNAL \<Longrightarrow> tr_target t \<noteq> None"
    proof -
      have "t \<in> (\<Union>q. set (st_transitions (hp_state ?P q)))"
        using Some by (auto simp: session_path_def dest: matching_transition_in split: if_splits option.splits)
      then show "tr_type t \<noteq> NGX_RTC_HSM_TRANSITION_INTERNAL \<Longrightarrow> tr_target t \<noteq> None"
        using sf.wf [where rep = rep] by (cases "tr_type t") (fastforce simp: hsm_wf_def)+
    qed
    then show ?thesis using x(2) E st ok' cur
      by (intro exI [of _ sm']) (auto simp: ngx_rtc_session_fsm_dispatch_ctx_def session_ok_def)
  qed
qed

text \<open>Runs: a list of events with their contexts.\<close>

fun session_run ::
  "('a, 'u, 'k) reporters \<Rightarrow> (u32 \<times> 'k ngx_rtc_session_fsm_ctx option) list \<Rightarrow> ('a, 'u) session_hsm option \<Rightarrow> ('a, 'u) session_hsm option option" where
  "session_run rep [] sm = Some sm"
| "session_run rep ((e, ctx) # es) sm =
     do { (_, sm) \<leftarrow> ngx_rtc_session_fsm_dispatch_ctx rep sm e ctx; session_run rep es sm }"

fun steps :: "session_object \<Rightarrow> (u32 \<times> 'k ngx_rtc_session_fsm_ctx option) list \<Rightarrow> session_object" where
  "steps s [] = s"
| "steps s ((e, ctx) # es) = steps (case session_step s e ctx of None \<Rightarrow> s | Some s' \<Rightarrow> s') es"

lemma session_run_steps:
  "session_ok sm \<Longrightarrow> hsm_current_state sm = Some s \<Longrightarrow>
   \<exists>sm'. session_run rep es (Some sm) = Some (Some sm') \<and> session_ok sm' \<and> hsm_current_state sm' = Some (steps s es)"
proof (induction es arbitrary: sm s)
  case (Cons ev es)
  obtain e ctx where ev: "ev = (e, ctx)" by (cases ev)
  obtain sm1 where d: "ngx_rtc_session_fsm_dispatch_ctx rep (Some sm) e ctx = Some (session_step s e ctx \<noteq> None, Some sm1)"
     "session_ok sm1" "hsm_current_state sm1 = Some (case session_step s e ctx of None \<Rightarrow> s | Some s' \<Rightarrow> s')"
    using dispatch_step [OF Cons.prems] by blast
  show ?case using Cons.IH [OF d(2,3)] d(1) ev by auto
qed simp

lemma init_ok:
  assumes "2 \<le> unat n" "unat n \<le> length buf"
  shows "\<exists>sm. ngx_rtc_session_fsm_init rep (Some sm0) (Some buf) n sess = Some (Some sm) \<and> session_ok sm \<and>
     hsm_current_state sm = Some S_session_new"
proof -
  have "0 < n" using assms by (simp add: word_less_nat_alt)
  then show ?thesis using assms
    by (simp add: ngx_rtc_session_fsm_init_def ngx_rtc_hsm_init_def hsm_perform_transition_def hsm_find_lca_def
        hsm_build_entry_path_def hsm_path_loop.simps hsm_length_loop.simps hsm_execute_exit_actions_def hsm_exit_loop.simps
        hsm_execute_entry_actions_def session_ok_def hsm_machine_ok_def)
qed

lemma steps_closed: "steps S_session_closed es = S_session_closed"
  by (induction es) (auto simp: session_step_def split: option.splits)

lemma steps_append: "steps s (es @ fs) = steps (steps s es) fs"
  by (induction es arbitrary: s) (auto split: prod.splits)

lemma ready_from_handshake:
  "steps S_session_dtls_handshake es = S_session_srtp_ready \<Longrightarrow> \<exists>e c. subseq [(e, c)] es \<and> keys_done e"
proof (induction es)
  case (Cons ev es)
  obtain e c where ev: "ev = (e, c)" by (cases ev)
  show ?case
  proof (cases "keys_done e")
    case True
    then show ?thesis using ev by (intro exI [of _ e] exI [of _ c]) simp
  next
    case False
    then show ?thesis using Cons ev steps_closed [of es]
      by (auto simp: session_step_def split: if_splits intro: list_emb_Cons)
  qed
qed simp

lemma ready_from_bound:
  "steps S_session_ice_bound es = S_session_srtp_ready \<Longrightarrow>
   \<exists>e c f d. subseq [(e, c), (f, d)] es \<and> dtls_ok e c \<and> keys_done f"
proof (induction es)
  case (Cons ev es)
  obtain e c where ev: "ev = (e, c)" by (cases ev)
  consider (close) "close_class e" | (dtls) "\<not> close_class e" "dtls_ok e c" | (stay) "\<not> close_class e" "\<not> dtls_ok e c" by blast
  then show ?case
  proof cases
    case close
    then show ?thesis using Cons.prems ev steps_closed [of es] by (simp add: session_step_def)
  next
    case dtls
    then have "steps S_session_dtls_handshake es = S_session_srtp_ready" using Cons.prems ev by (simp add: session_step_def)
    then obtain f d where "subseq [(f, d)] es" "keys_done f" using ready_from_handshake by blast
    then show ?thesis using dtls ev by (intro exI [of _ e] exI [of _ c] exI [of _ f] exI [of _ d]) simp
  next
    case stay
    then have "steps S_session_ice_bound es = S_session_srtp_ready"
      using Cons.prems ev by (auto simp: session_step_def split: if_splits)
    then show ?thesis using Cons.IH by (blast intro: list_emb_Cons)
  qed
qed simp

lemma ready_from_new:
  "steps S_session_new es = S_session_srtp_ready \<Longrightarrow>
   \<exists>b a e c f d. subseq [(b, a), (e, c), (f, d)] es \<and> binding_ok b a \<and> dtls_ok e c \<and> keys_done f"
proof (induction es)
  case (Cons ev es)
  obtain b a where ev: "ev = (b, a)" by (cases ev)
  consider (close) "close_class b" | (bind) "\<not> close_class b" "binding_ok b a" | (stay) "\<not> close_class b" "\<not> binding_ok b a" by blast
  then show ?case
  proof cases
    case close
    then show ?thesis using Cons.prems ev steps_closed [of es] by (simp add: session_step_def)
  next
    case bind
    then have "steps S_session_ice_bound es = S_session_srtp_ready" using Cons.prems ev by (simp add: session_step_def)
    then obtain e c f d where "subseq [(e, c), (f, d)] es" "dtls_ok e c" "keys_done f" using ready_from_bound by blast
    then show ?thesis using bind ev
      by (intro exI [of _ b] exI [of _ a] exI [of _ e] exI [of _ c] exI [of _ f] exI [of _ d]) simp
  next
    case stay
    then have "steps S_session_new es = S_session_srtp_ready"
      using Cons.prems ev by (auto simp: session_step_def split: if_splits)
    then show ?thesis using Cons.IH by (blast intro: list_emb_Cons)
  qed
qed simp

lemma is_in_current: "hsm_current_state sm = Some s \<Longrightarrow> q \<noteq> S_session_top \<Longrightarrow>
   ngx_rtc_hsm_is_in_state (session_program rep) (Some sm) (Some q) = Some (s = q)"
  using search_loop_chain [OF session_chain [of rep s], of q] by (auto simp: ngx_rtc_hsm_is_in_state_def session_path_def)

section \<open>Properties\<close>

text \<open>
  C33. Dispatching an event to a session machine implements the life cycle \<open>session_step\<close>: it returns,
  reports whether the event was for the current state, and moves to the state the life cycle gives.
\<close>

theorem session_dispatch_step:
  assumes "session_ok sm" "hsm_current_state sm = Some s"
  shows "\<exists>sm'. ngx_rtc_session_fsm_dispatch_ctx rep (Some sm) e ctx = Some (session_step s e ctx \<noteq> None, Some sm') \<and>
     session_ok sm' \<and> hsm_current_state sm' = Some (case session_step s e ctx of None \<Rightarrow> s | Some s' \<Rightarrow> s')"
  by (rule dispatch_step [OF assms])

definition sample_session :: "(unit, nat) session_hsm" where
  "sample_session = \<lparr>hsm_current_state = Some S_session_ice_bound, hsm_initial_state = Some S_session_new, hsm_user_data = Some 0,
     hsm_unhandled_event_hook = Some (), hsm_entry_path_buffer = Some [None, None], hsm_buffer_size = 2\<rparr>"

abbreviation count_unhandled :: "(unit, nat, unit) reporters" where
  "count_unhandled \<equiv> (\<lambda>_ n _. map_option Suc n)"

theorem session_dispatch_step_witness:
  "\<exists>sm'. ngx_rtc_session_fsm_dispatch_ctx count_unhandled (Some sample_session) NGX_RTC_SESSION_EVT_DTLS_PACKET
      (Some \<lparr>ctx_conn = None, ctx_data = Some (replicate 13 22), ctx_len = 13\<rparr>) = Some (True, Some sm') \<and>
     hsm_current_state sm' = Some S_session_dtls_handshake"
proof -
  have ok: "session_ok sample_session" "hsm_current_state sample_session = Some S_session_ice_bound"
    by (simp_all add: session_ok_def sample_session_def hsm_machine_ok_def)
  have "session_step S_session_ice_bound NGX_RTC_SESSION_EVT_DTLS_PACKET
      (Some \<lparr>ctx_conn = None :: unit option, ctx_data = Some (replicate 13 22), ctx_len = 13\<rparr>) = Some S_session_dtls_handshake"
    by (simp add: session_step_def close_class_def dtls_ok_def)
  then show ?thesis using session_dispatch_step [OF ok, of count_unhandled NGX_RTC_SESSION_EVT_DTLS_PACKET
      "Some \<lparr>ctx_conn = None, ctx_data = Some (replicate 13 22), ctx_len = 13\<rparr>"] by auto
qed


definition sample_events :: "(u32 \<times> unit ngx_rtc_session_fsm_ctx option) list" where
  "sample_events = [(NGX_RTC_SESSION_EVT_STUN_BINDING, None), (NGX_RTC_SESSION_EVT_DTLS_PACKET, None),
     (NGX_RTC_SESSION_EVT_STUN_BINDING, None), (NGX_RTC_SESSION_EVT_DTLS_HANDSHAKE_DONE, None)]"


text \<open>
  C34. A close, timeout or BYE closes the session for good: once such an event is dispatched, in any
  state, every later sequence of events leaves the session closed, and it is never ready again.
\<close>

theorem session_close_final:
  assumes "session_ok sm" "close_class e"
  shows "\<exists>sm'. session_run rep ((e, ctx) # es) (Some sm) = Some (Some sm') \<and>
     ngx_rtc_session_fsm_get_state rep (Some sm') = Some NGX_RTC_SESSION_STATE_CLOSED \<and>
     ngx_rtc_session_fsm_is_ready rep (Some sm') = Some False"
proof -
  obtain s where s: "hsm_current_state sm = Some s" using assms(1) by (auto simp: session_ok_def)
  have "steps s ((e, ctx) # es) = S_session_closed" using assms(2) steps_closed [of es] by (simp add: session_step_def)
  then obtain sm' where r: "session_run rep ((e, ctx) # es) (Some sm) = Some (Some sm')" "hsm_current_state sm' = Some S_session_closed"
    using session_run_steps [OF assms(1) s, of rep "(e, ctx) # es"] by auto
  then show ?thesis using is_in_current [OF r(2), where rep = rep]
    by (simp add: ngx_rtc_session_fsm_get_state_def ngx_rtc_session_fsm_is_ready_def)
qed

theorem session_close_final_witness:
  "\<exists>sm'. session_run count_unhandled ((NGX_RTC_SESSION_EVT_RTCP_BYE, None) # sample_events) (Some sample_session) = Some (Some sm') \<and>
     ngx_rtc_session_fsm_get_state count_unhandled (Some sm') = Some NGX_RTC_SESSION_STATE_CLOSED \<and>
     ngx_rtc_session_fsm_is_ready count_unhandled (Some sm') = Some False"
  by (rule session_close_final) (simp_all add: session_ok_def sample_session_def hsm_machine_ok_def close_class_def)

text \<open>
  Restoring a state id and reading the state back agree: a machine accepts exactly the five ids of
  the life cycle, then reports the id it was given and its name; any other id is refused, leaves the
  machine as it was and is named UNKNOWN.
\<close>

theorem session_restore_roundtrip:
  "(if 1 \<le> unat sid \<and> unat sid \<le> 5
    then \<exists>sm'. ngx_rtc_session_fsm_restore (Some sm) sid = (True, Some sm') \<and>
           ngx_rtc_session_fsm_get_state rep (Some sm') = Some sid \<and>
           ngx_rtc_session_fsm_get_state_name rep (Some sm') = ngx_rtc_session_fsm_state_name sid
    else ngx_rtc_session_fsm_restore (Some sm) sid = (False, Some sm) \<and> ngx_rtc_session_fsm_state_name sid = ''UNKNOWN'')"
proof (cases "1 \<le> unat sid \<and> unat sid \<le> 5")
  case True
  then have "unat sid = unat (1 :: u32) \<or> unat sid = unat (2 :: u32) \<or> unat sid = unat (3 :: u32) \<or> unat sid = unat (4 :: u32) \<or> unat sid = unat (5 :: u32)"
    by auto
  then have "sid = 1 \<or> sid = 2 \<or> sid = 3 \<or> sid = 4 \<or> sid = 5" by (simp only: word_unat_eq_iff)
  then obtain s where s: "ngx_rtc_session_fsm_state_object sid = Some s" by (auto simp: ngx_rtc_session_fsm_state_object_def)
  let ?sm = "sm\<lparr>hsm_current_state := Some s\<rparr>"
  have cur: "hsm_current_state ?sm = Some s" by simp
  have "ngx_rtc_session_fsm_get_state rep (Some ?sm) = Some sid"
    using s is_in_current [OF cur, where rep = rep]
    by (auto simp: ngx_rtc_session_fsm_get_state_def ngx_rtc_session_fsm_state_object_def split: if_splits)
  moreover have "ngx_rtc_session_fsm_get_state_name rep (Some ?sm) = ngx_rtc_session_fsm_state_name sid"
    using s by (cases s) (auto simp: ngx_rtc_session_fsm_get_state_name_def ngx_rtc_hsm_get_current_state_name_def
        ngx_rtc_session_fsm_state_name_def session_program_def s_session_def)
  ultimately show ?thesis using True s by (simp add: ngx_rtc_session_fsm_restore_def ngx_rtc_hsm_restore_state_def)
next
  case False
  then have "sid \<noteq> 1" "sid \<noteq> 2" "sid \<noteq> 3" "sid \<noteq> 4" "sid \<noteq> 5" by auto
  then have "ngx_rtc_session_fsm_state_object sid = None" by (simp add: ngx_rtc_session_fsm_state_object_def)
  then show ?thesis using False
    by (simp add: ngx_rtc_session_fsm_restore_def ngx_rtc_hsm_restore_state_def ngx_rtc_session_fsm_state_name_def)
qed

end
