(* ===== verification/Rtp.thy ===== *)
theory Rtp
  imports Prelude
begin

text \<open>
  RTP packetisation and H.264 payload handling of \<^verbatim>\<open>src/ngx_rtc_rtp.c\<close>: the fixed header, removal
  of CSRCs and header extensions, NAL unit inspection down to the Exp-Golomb slice type, and the
  single NAL unit, FU-A, STAP-A and Opus packetisers. The emit callback is a function on the caller's
  opaque state; the packet it receives is the prefix of the scratch buffer. Loads of received data go
  through \<open>rd8\<close>.
\<close>

section \<open>Header\<close>

record ngx_rtc_rtp_header =
  rh_version_cc :: u8
  rh_marker_pt :: u8
  rh_seq :: u16
  rh_timestamp :: u32
  rh_ssrc :: u32

abbreviation NGX_RTC_RTP_HEADER_SIZE :: u32 where "NGX_RTC_RTP_HEADER_SIZE \<equiv> 12"
abbreviation NGX_RTC_H264_MTU :: u32 where "NGX_RTC_H264_MTU \<equiv> 1200"
abbreviation NGX_RTC_H264_NAL_TYPE_MASK :: u8 where "NGX_RTC_H264_NAL_TYPE_MASK \<equiv> 0x1f"
abbreviation NGX_RTC_H264_NRI_MASK :: u8 where "NGX_RTC_H264_NRI_MASK \<equiv> 0xe0"
abbreviation NGX_RTC_H264_STAP_A :: u8 where "NGX_RTC_H264_STAP_A \<equiv> 24"
abbreviation NGX_RTC_H264_FU_A :: u8 where "NGX_RTC_H264_FU_A \<equiv> 28"
abbreviation NGX_RTC_H264_FU_START :: u8 where "NGX_RTC_H264_FU_START \<equiv> 0x80"
abbreviation NGX_RTC_H264_FU_END :: u8 where "NGX_RTC_H264_FU_END \<equiv> 0x40"
abbreviation NGX_RTC_RTP_MARKER :: u8 where "NGX_RTC_RTP_MARKER \<equiv> 0x80"
abbreviation NGX_RTC_RTP_EXTENSION :: u8 where "NGX_RTC_RTP_EXTENSION \<equiv> 0x10"
abbreviation NGX_RTC_RTP_CSRC_MASK :: u8 where "NGX_RTC_RTP_CSRC_MASK \<equiv> 0x0f"

definition ngx_rtc_rtp_header_write ::
  "ngx_rtc_rtp_header option \<Rightarrow> bytes option \<Rightarrow> u32 \<Rightarrow> int \<times> bytes option" where
  "ngx_rtc_rtp_header_write hdrp bufp cap =
     (case (hdrp, bufp) of
        (Some hdr, Some buf) \<Rightarrow>
          if cap < NGX_RTC_RTP_HEADER_SIZE then (NGX_RTC_ERR_TOO_SMALL, bufp)
          else (NGX_RTC_OK, Some (buf_put 0 ([rh_version_cc hdr, rh_marker_pt hdr] @ to_be16 (rh_seq hdr) @
                  to_be32 (rh_timestamp hdr) @ to_be32 (rh_ssrc hdr)) buf))
      | _ \<Rightarrow> (NGX_RTC_ERR_INVALID, bufp))"

definition ngx_rtc_rtp_build_header :: "bytes \<Rightarrow> u16 \<Rightarrow> u32 \<Rightarrow> u32 \<Rightarrow> u8 \<Rightarrow> int \<Rightarrow> u32 \<times> bytes" where
  "ngx_rtc_rtp_build_header buf seq timestamp ssrc payload_type marker =
     (let marker_pt = payload_type AND 0x7f;
          marker_pt = (if marker \<noteq> 0 then marker_pt OR NGX_RTC_RTP_MARKER else marker_pt);
          hdr = \<lparr>rh_version_cc = 0x80, rh_marker_pt = marker_pt, rh_seq = seq, rh_timestamp = timestamp, rh_ssrc = ssrc\<rparr>;
          (_, bufp) = ngx_rtc_rtp_header_write (Some hdr) (Some buf) NGX_RTC_RTP_HEADER_SIZE
      in (NGX_RTC_RTP_HEADER_SIZE, the bufp))"

text \<open>
  The offsets stay far below \<open>2 ^ 32\<close> (at most 60 octets of CSRCs and 4 * 65535 of extension), so
  \<^verbatim>\<open>hdr\<close> is a natural number.
\<close>

definition ngx_rtc_rtp_strip_header_ext :: "bytes option \<Rightarrow> u32 option \<Rightarrow> (int \<times> bytes option \<times> u32 option) option" where
  "ngx_rtc_rtp_strip_header_ext rtpp lenp =
     (case (rtpp, lenp) of
        (Some rtp, Some len) \<Rightarrow>
          if len < NGX_RTC_RTP_HEADER_SIZE then Some (NGX_RTC_ERR_PARSE, rtpp, lenp)
          else do {
            b0 \<leftarrow> rd8 rtp 0;
            let hdr = 12 + 4 * unat (b0 AND NGX_RTC_RTP_CSRC_MASK);
            ext \<leftarrow> (if b0 AND NGX_RTC_RTP_EXTENSION \<noteq> 0 then
                      (if hdr + 4 > unat len then Some None
                       else do { h \<leftarrow> rd8 rtp (hdr + 2); l \<leftarrow> rd8 rtp (hdr + 3);
                                 Some (Some (hdr + 4 + 4 * unat (be16 h l))) })
                    else Some (Some hdr));
            (case ext of
               None \<Rightarrow> Some (NGX_RTC_ERR_PARSE, rtpp, lenp)
             | Some hdr \<Rightarrow>
                 if hdr > unat len then Some (NGX_RTC_ERR_PARSE, rtpp, lenp)
                 else
                   (let (rtp', len') = (if hdr \<noteq> 12
                          then (buf_put 12 (buf_get hdr (unat len - hdr) rtp) rtp, 12 + (len - word_of_nat hdr))
                          else (rtp, len))
                    in Some (NGX_RTC_OK,
                         Some (buf_put 0 [rtp' ! 0 AND NOT (NGX_RTC_RTP_CSRC_MASK OR NGX_RTC_RTP_EXTENSION)] rtp'), Some len'))) }
      | _ \<Rightarrow> Some (NGX_RTC_ERR_PARSE, rtpp, lenp))"

definition ngx_rtc_h264_timestamp_from_ms :: "u32 \<Rightarrow> u32" where
  "ngx_rtc_h264_timestamp_from_ms ms = ucast ((ucast ms * 90000 :: u64) div 1000)"

definition ngx_rtc_opus_timestamp_from_ms :: "u32 \<Rightarrow> u32" where
  "ngx_rtc_opus_timestamp_from_ms ms = ucast ((ucast ms * 48000 :: u64) div 1000)"

section \<open>NAL unit inspection\<close>

definition ngx_rtc_h264_nalu_type :: "bytes option \<Rightarrow> u32 \<Rightarrow> u8 option" where
  "ngx_rtc_h264_nalu_type nalup len =
     (case nalup of None \<Rightarrow> Some 0 | Some nalu \<Rightarrow>
        if len = 0 then Some 0 else do { b \<leftarrow> rd8 nalu 0; Some (b AND NGX_RTC_H264_NAL_TYPE_MASK) })"

text \<open>The scan for \<^verbatim>\<open>00 00 01\<close>; the result is the value of \<^verbatim>\<open>i\<close> at the end of the loop.\<close>

function find_nalu_loop :: "bytes \<Rightarrow> nat \<Rightarrow> nat \<Rightarrow> nat option" where
  "find_nalu_loop data len i =
     (if i + 2 < len then
        do { a \<leftarrow> rd8 data i; b \<leftarrow> rd8 data (i + 1); c \<leftarrow> rd8 data (i + 2);
             if a = 0 \<and> b = 0 \<and> c = 1 then Some i else find_nalu_loop data len (i + 1) }
      else Some i)"
  by pat_completeness auto
termination by (relation "measure (\<lambda>(data, len, i). len - i)") auto

declare find_nalu_loop.simps [simp del]

definition ngx_rtc_h264_find_nalu :: "bytes option \<Rightarrow> u32 \<Rightarrow> u32 option \<Rightarrow> (int \<times> u32 option) option" where
  "ngx_rtc_h264_find_nalu datap len offp =
     (case (datap, offp) of
        (Some data, Some off) \<Rightarrow>
          do { i \<leftarrow> find_nalu_loop data (unat len) 0;
               if i + 2 \<ge> unat len then Some (NGX_RTC_ERR_PARSE, offp)
               else Some (NGX_RTC_OK, Some (word_of_nat (i + 3))) }
      | _ \<Rightarrow> Some (NGX_RTC_ERR_INVALID, offp))"

text \<open>
  \<^verbatim>\<open>ngx_rtc_h264_read_bit\<close>: \<open>Inl\<close> the error code, \<open>Inr\<close> the bit and the new position.
\<close>

definition ngx_rtc_h264_read_bit :: "bytes \<Rightarrow> u32 \<Rightarrow> u32 \<Rightarrow> (int + u8 \<times> u32) option" where
  "ngx_rtc_h264_read_bit data bit_len pos =
     (if pos \<ge> bit_len then Some (Inl NGX_RTC_ERR_PARSE)
      else do { b \<leftarrow> rd8 data (unat (drop_bit 3 pos));
                Some (Inr (drop_bit (7 - unat (pos AND 7)) b AND 1, pos + 1)) })"

text \<open>The leading zeros; at most 32 reads, since \<^verbatim>\<open>leading > 31\<close> ends the loop.\<close>

function read_ue_leading :: "bytes \<Rightarrow> u32 \<Rightarrow> u32 \<Rightarrow> nat \<Rightarrow> (int + nat \<times> u32) option" where
  "read_ue_leading data bit_len pos leading =
     do { r \<leftarrow> ngx_rtc_h264_read_bit data bit_len pos;
          (case r of
             Inl e \<Rightarrow> Some (Inl e)
           | Inr (b, pos') \<Rightarrow>
               if b = 1 then Some (Inr (leading, pos'))
               else if leading + 1 > 31 then Some (Inl NGX_RTC_ERR_PARSE)
               else read_ue_leading data bit_len pos' (leading + 1)) }"
  by pat_completeness auto
termination by (relation "measure (\<lambda>(data, bit_len, pos, leading). 32 - leading)") auto

declare read_ue_leading.simps [simp del]

text \<open>The suffix bits, with \<open>k\<close> of them still to read.\<close>

fun read_ue_suffix :: "bytes \<Rightarrow> u32 \<Rightarrow> nat \<Rightarrow> u32 \<Rightarrow> u32 \<Rightarrow> (int + u32 \<times> u32) option" where
  "read_ue_suffix data bit_len 0 pos value = Some (Inr (value, pos))"
| "read_ue_suffix data bit_len (Suc k) pos value =
     do { r \<leftarrow> ngx_rtc_h264_read_bit data bit_len pos;
          (case r of
             Inl e \<Rightarrow> Some (Inl e)
           | Inr (b, pos') \<Rightarrow> read_ue_suffix data bit_len k pos' (value + push_bit k (ucast b))) }"

definition ngx_rtc_h264_read_ue :: "bytes \<Rightarrow> u32 \<Rightarrow> u32 \<Rightarrow> (int + u32 \<times> u32) option" where
  "ngx_rtc_h264_read_ue data bit_len pos =
     do { r \<leftarrow> read_ue_leading data bit_len pos 0;
          (case r of
             Inl e \<Rightarrow> Some (Inl e)
           | Inr (leading, pos) \<Rightarrow> read_ue_suffix data bit_len leading pos (push_bit leading 1 - 1)) }"

definition ngx_rtc_h264_is_b_frame :: "bytes option \<Rightarrow> u32 \<Rightarrow> int option" where
  "ngx_rtc_h264_is_b_frame nalup len =
     (case nalup of None \<Rightarrow> Some NGX_RTC_ERR_INVALID | Some nalu \<Rightarrow>
        if len = 0 then Some NGX_RTC_ERR_INVALID
        else do {
          b \<leftarrow> rd8 nalu 0;
          let nal_type = b AND NGX_RTC_H264_NAL_TYPE_MASK;
          if nal_type \<noteq> 1 \<and> nal_type \<noteq> 2 \<and> nal_type \<noteq> 3 \<and> nal_type \<noteq> 4 then Some 0
          else if len < 2 then Some 0
          else do {
            r \<leftarrow> ngx_rtc_h264_read_ue nalu (len * 8) 8;
            (case r of
               Inl _ \<Rightarrow> Some 0
             | Inr (first_mb, bit_pos) \<Rightarrow>
                 do { r \<leftarrow> ngx_rtc_h264_read_ue nalu (len * 8) bit_pos;
                      (case r of
                         Inl _ \<Rightarrow> Some 0
                       | Inr (slice_type, _) \<Rightarrow> if slice_type = 1 \<or> slice_type = 6 then Some 1 else Some 0) }) } })"

section \<open>Packetisers\<close>

type_synonym 'o rtp_emit_fn = "'o \<Rightarrow> bytes \<Rightarrow> int \<times> 'o"

text \<open>The scalar arguments that the packetisers share.\<close>

record rtp_params =
  pp_timestamp :: u32
  pp_ssrc :: u32
  pp_payload_type :: u8
  pp_marker :: int
  pp_scratch_cap :: u32

text \<open>Return code, \<^verbatim>\<open>*seq\<close>, scratch buffer and opaque state.\<close>

type_synonym 'o pkt_result = "int \<times> u16 option \<times> bytes option \<times> 'o"

definition ngx_rtc_h264_packetize_single ::
  "bytes option \<Rightarrow> u32 \<Rightarrow> rtp_params \<Rightarrow> u16 option \<Rightarrow> bytes option \<Rightarrow> 'o rtp_emit_fn option \<Rightarrow> 'o \<Rightarrow> 'o pkt_result" where
  "ngx_rtc_h264_packetize_single nalup len pp seqp scratchp emitp opaque =
     (case (nalup, seqp, scratchp, emitp) of
        (Some nalu, Some seq, Some scratch, Some emit) \<Rightarrow>
          if len = 0 then (NGX_RTC_ERR_INVALID, seqp, scratchp, opaque)
          else let total = NGX_RTC_RTP_HEADER_SIZE + len in
          if pp_scratch_cap pp < total then (NGX_RTC_ERR_TOO_SMALL, seqp, scratchp, opaque)
          else
            let scratch = snd (ngx_rtc_rtp_build_header scratch seq (pp_timestamp pp) (pp_ssrc pp) (pp_payload_type pp) (pp_marker pp));
                scratch = buf_put 12 (take (unat len) nalu) scratch;
                (rc, opaque) = emit opaque (take (unat total) scratch)
            in (rc, Some (seq + 1), Some scratch, opaque)
      | _ \<Rightarrow> (NGX_RTC_ERR_INVALID, seqp, scratchp, opaque))"

text \<open>The fragment loop, with \<open>k\<close> fragments to go; \<open>p\<close> is what is left of the unit.\<close>

primrec fu_a_loop ::
  "nat \<Rightarrow> rtp_params \<Rightarrow> 'o rtp_emit_fn \<Rightarrow> u32 \<Rightarrow> u32 \<Rightarrow> u8 \<Rightarrow> u8 \<Rightarrow> u32 \<Rightarrow> bytes \<Rightarrow> u32 \<Rightarrow> u16 \<Rightarrow> bytes \<Rightarrow> 'o \<Rightarrow> 'o pkt_result" where
  "fu_a_loop 0 pp emit mtu num nal_type fu_indicator i p nb_left seq scratch opaque = (NGX_RTC_OK, Some seq, Some scratch, opaque)"
| "fu_a_loop (Suc k) pp emit mtu num nal_type fu_indicator i p nb_left seq scratch opaque =
     (let chunk = (if nb_left < mtu then nb_left else mtu);
          total = NGX_RTC_RTP_HEADER_SIZE + 2 + chunk in
      if pp_scratch_cap pp < total then (NGX_RTC_ERR_TOO_SMALL, Some seq, Some scratch, opaque)
      else
        let fu_header = nal_type;
            fu_header = (if i = 0 then fu_header OR NGX_RTC_H264_FU_START else fu_header);
            fu_header = (if i = num - 1 then fu_header OR NGX_RTC_H264_FU_END else fu_header);
            pkt_marker = (if pp_marker pp \<noteq> 0 \<and> i = num - 1 then 1 else 0);
            scratch = snd (ngx_rtc_rtp_build_header scratch seq (pp_timestamp pp) (pp_ssrc pp) (pp_payload_type pp) pkt_marker);
            scratch = buf_put 12 [fu_indicator, fu_header] scratch;
            scratch = buf_put 14 (take (unat chunk) p) scratch;
            (r, opaque) = emit opaque (take (unat total) scratch)
        in if r \<noteq> 0 then (r, Some (seq + 1), Some scratch, opaque)
           else fu_a_loop k pp emit mtu num nal_type fu_indicator (i + 1) (drop (unat chunk) p) (nb_left - chunk) (seq + 1) scratch opaque)"

definition ngx_rtc_h264_packetize_fu_a ::
  "bytes option \<Rightarrow> u32 \<Rightarrow> rtp_params \<Rightarrow> u32 \<Rightarrow> u16 option \<Rightarrow> bytes option \<Rightarrow> 'o rtp_emit_fn option \<Rightarrow> 'o \<Rightarrow> 'o pkt_result" where
  "ngx_rtc_h264_packetize_fu_a nalup len pp mtu seqp scratchp emitp opaque =
     (case (nalup, seqp, scratchp, emitp) of
        (Some nalu, Some seq, Some scratch, Some emit) \<Rightarrow>
          if len < 2 \<or> mtu = 0 then (NGX_RTC_ERR_INVALID, seqp, scratchp, opaque)
          else
            let nal_type = nalu ! 0 AND NGX_RTC_H264_NAL_TYPE_MASK;
                fu_indicator = (nalu ! 0 AND NGX_RTC_H264_NRI_MASK) OR NGX_RTC_H264_FU_A;
                nb_left = len - 1;
                num = 1 + (nb_left - 1) div mtu
            in fu_a_loop (unat num) pp emit mtu num nal_type fu_indicator 0 (drop 1 (take (unat len) nalu)) nb_left seq scratch opaque
      | _ \<Rightarrow> (NGX_RTC_ERR_INVALID, seqp, scratchp, opaque))"

text \<open>The first pass of \<^verbatim>\<open>ngx_rtc_h264_packetize_stap_a\<close>: the payload length, or the error.\<close>

fun stap_a_sizes :: "u32 list \<Rightarrow> u32 \<Rightarrow> int + u32" where
  "stap_a_sizes [] payload_len = Inr payload_len"
| "stap_a_sizes (sz # sizes) payload_len =
     (if sz > 0xffff then Inl NGX_RTC_ERR_TOO_LARGE
      else let payload_len = payload_len + (2 + sz) in
      if payload_len > NGX_RTC_H264_MTU then Inl NGX_RTC_ERR_TOO_LARGE
      else stap_a_sizes sizes payload_len)"

text \<open>The second pass: length and octets of each unit, from offset \<open>out\<close> on.\<close>

fun stap_a_units :: "bytes list \<Rightarrow> u32 list \<Rightarrow> nat \<Rightarrow> bytes \<Rightarrow> bytes" where
  "stap_a_units (nalu # nalus) (sz # sizes) out scratch =
     (let scratch = buf_put out [ucast (drop_bit 8 sz AND 0xff), ucast (sz AND 0xff)] scratch;
          scratch = buf_put (out + 2) (take (unat sz) nalu) scratch
      in stap_a_units nalus sizes (out + 2 + unat sz) scratch)"
| "stap_a_units _ _ out scratch = scratch"

text \<open>\<^verbatim>\<open>nalus\<close> and \<^verbatim>\<open>sizes\<close> are arrays of \<^verbatim>\<open>count\<close> elements.\<close>

definition ngx_rtc_h264_packetize_stap_a ::
  "bytes list option \<Rightarrow> u32 list option \<Rightarrow> u32 \<Rightarrow> rtp_params \<Rightarrow> u16 option \<Rightarrow> bytes option \<Rightarrow> 'o rtp_emit_fn option \<Rightarrow> 'o \<Rightarrow> 'o pkt_result" where
  "ngx_rtc_h264_packetize_stap_a nalusp sizesp count pp seqp scratchp emitp opaque =
     (case (nalusp, sizesp, seqp, scratchp, emitp) of
        (Some nalus, Some sizes, Some seq, Some scratch, Some emit) \<Rightarrow>
          if count = 0 then (NGX_RTC_ERR_INVALID, seqp, scratchp, opaque)
          else (case stap_a_sizes (take (unat count) sizes) 1 of
             Inl e \<Rightarrow> (e, seqp, scratchp, opaque)
           | Inr payload_len \<Rightarrow>
               let total = NGX_RTC_RTP_HEADER_SIZE + payload_len in
               if pp_scratch_cap pp < total then (NGX_RTC_ERR_TOO_SMALL, seqp, scratchp, opaque)
               else
                 let (off, scratch) = ngx_rtc_rtp_build_header scratch seq (pp_timestamp pp) (pp_ssrc pp) (pp_payload_type pp) 0;
                     nri = nalus ! 0 ! 0 AND NGX_RTC_H264_NRI_MASK;
                     scratch = buf_put (unat off) [nri OR NGX_RTC_H264_STAP_A] scratch;
                     scratch = stap_a_units (take (unat count) nalus) (take (unat count) sizes) (unat off + 1) scratch;
                     (rc, opaque) = emit opaque (take (unat total) scratch)
                 in (rc, Some (seq + 1), Some scratch, opaque))
      | _ \<Rightarrow> (NGX_RTC_ERR_INVALID, seqp, scratchp, opaque))"

definition ngx_rtc_h264_packetize ::
  "bytes option \<Rightarrow> u32 \<Rightarrow> rtp_params \<Rightarrow> u16 option \<Rightarrow> bytes option \<Rightarrow> 'o rtp_emit_fn option \<Rightarrow> 'o \<Rightarrow> 'o pkt_result" where
  "ngx_rtc_h264_packetize nalup len pp seqp scratchp emitp opaque =
     (if nalup = None \<or> seqp = None \<or> scratchp = None \<or> emitp = None then (NGX_RTC_ERR_INVALID, seqp, scratchp, opaque)
      else if len = 0 then (NGX_RTC_ERR_INVALID, seqp, scratchp, opaque)
      else if len \<le> NGX_RTC_H264_MTU then ngx_rtc_h264_packetize_single nalup len pp seqp scratchp emitp opaque
      else ngx_rtc_h264_packetize_fu_a nalup len pp NGX_RTC_H264_MTU seqp scratchp emitp opaque)"

definition ngx_rtc_opus_packetize ::
  "bytes option \<Rightarrow> u32 \<Rightarrow> rtp_params \<Rightarrow> u16 option \<Rightarrow> bytes option \<Rightarrow> 'o rtp_emit_fn option \<Rightarrow> 'o \<Rightarrow> 'o pkt_result" where
  "ngx_rtc_opus_packetize opusp len pp seqp scratchp emitp opaque =
     (case (opusp, seqp, scratchp, emitp) of
        (Some opus, Some seq, Some scratch, Some emit) \<Rightarrow>
          if len = 0 then (NGX_RTC_ERR_INVALID, seqp, scratchp, opaque)
          else let total = NGX_RTC_RTP_HEADER_SIZE + len in
          if pp_scratch_cap pp < total then (NGX_RTC_ERR_TOO_SMALL, seqp, scratchp, opaque)
          else
            let scratch = snd (ngx_rtc_rtp_build_header scratch seq (pp_timestamp pp) (pp_ssrc pp) (pp_payload_type pp) (pp_marker pp));
                scratch = buf_put 12 (take (unat len) opus) scratch;
                (rc, opaque) = emit opaque (take (unat total) scratch)
            in (rc, Some (seq + 1), Some scratch, opaque)
      | _ \<Rightarrow> (NGX_RTC_ERR_INVALID, seqp, scratchp, opaque))"

section \<open>What the packetisers emit\<close>

definition rtp_fixed :: "u16 \<Rightarrow> u32 \<Rightarrow> u32 \<Rightarrow> u8 \<Rightarrow> bool \<Rightarrow> bytes" where
  "rtp_fixed seq timestamp ssrc pt marker =
     [0x80, (pt AND 0x7f) OR (if marker then 0x80 else 0)] @ to_be16 seq @ to_be32 timestamp @ to_be32 ssrc"

lemma length_rtp_fixed [simp]: "length (rtp_fixed seq timestamp ssrc pt marker) = 12"
  by (simp add: rtp_fixed_def)

lemma build_header_eq [simp]:
  "ngx_rtc_rtp_build_header buf seq timestamp ssrc pt marker = (12, buf_put 0 (rtp_fixed seq timestamp ssrc pt (marker \<noteq> 0)) buf)"
  by (simp add: ngx_rtc_rtp_build_header_def ngx_rtc_rtp_header_write_def rtp_fixed_def Let_def)

text \<open>The callback that accepts and records every packet.\<close>

definition rtp_collect :: "bytes list rtp_emit_fn" where
  "rtp_collect out pkt = (0, out @ [pkt])"

lemma take_put_put:
  "length h = n \<Longrightarrow> n + length x \<le> length s \<Longrightarrow> m = n + length x \<Longrightarrow> take m (buf_put n x (buf_put 0 h s)) = h @ x"
  by (simp add: buf_put_def)

lemma take_put_put_put:
  "length h = n \<Longrightarrow> n + length y + length x \<le> length s \<Longrightarrow> n' = n + length y \<Longrightarrow> m = n' + length x \<Longrightarrow>
   take m (buf_put n' x (buf_put n y (buf_put 0 h s))) = h @ y @ x"
  by (simp add: buf_put_def)

lemma length_buf_put_le: "off + length src \<le> length buf \<Longrightarrow> length (buf_put off src buf) = length buf"
  by simp

text \<open>A buffer cut into pieces of at most \<open>n\<close> octets.\<close>

function chunks :: "nat \<Rightarrow> 'a list \<Rightarrow> 'a list list" where
  "chunks n xs = (if xs = [] \<or> n = 0 then [] else take n xs # chunks n (drop n xs))"
  by pat_completeness auto
termination by (relation "measure (\<lambda>(n, xs). length xs)") auto

declare chunks.simps [simp del]

lemma chunks_Nil [simp]: "chunks n [] = []"
  by (simp add: chunks.simps)

lemma chunks_step: "xs \<noteq> [] \<Longrightarrow> 0 < n \<Longrightarrow> chunks n xs = take n xs # chunks n (drop n xs)"
  by (subst chunks.simps) simp

lemma concat_chunks: "0 < n \<Longrightarrow> concat (chunks n xs) = xs"
proof (induction n xs rule: chunks.induct)
  case (1 n xs)
  then show ?case by (cases "xs = []") (simp_all add: chunks_step)
qed

lemma length_chunks: "0 < n \<Longrightarrow> xs \<noteq> [] \<Longrightarrow> length (chunks n xs) = 1 + (length xs - 1) div n"
proof (induction n xs rule: chunks.induct)
  case (1 n xs)
  show ?case
  proof (cases "drop n xs = []")
    case True
    then show ?thesis using "1.prems" by (simp add: chunks_step)
  next
    case False
    then have "length (chunks n (drop n xs)) = 1 + (length xs - n - 1) div n" using 1 by simp
    moreover have "(length xs - 1) div n = 1 + (length xs - 1 - n) div n"
      using False "1.prems" by (simp add: le_div_geq)
    ultimately show ?thesis using "1.prems" by (simp add: chunks_step diff_commute)
  qed
qed

lemma chunks_bound: "c \<in> set (chunks n xs) \<Longrightarrow> length c \<le> n \<and> c \<noteq> []"
proof (induction n xs rule: chunks.induct)
  case (1 n xs)
  then have "xs \<noteq> []" "n \<noteq> 0" by (auto simp: chunks.simps [of n xs] split: if_splits)
  then show ?case using 1 by (auto simp: chunks_step)
qed

definition fu_packet :: "rtp_params \<Rightarrow> u8 \<Rightarrow> u8 \<Rightarrow> bool \<Rightarrow> bool \<Rightarrow> u16 \<Rightarrow> bytes \<Rightarrow> bytes" where
  "fu_packet pp ind nt start fin seq c =
     rtp_fixed seq (pp_timestamp pp) (pp_ssrc pp) (pp_payload_type pp) (pp_marker pp \<noteq> 0 \<and> fin) @
     [ind, (nt OR (if start then 0x80 else 0)) OR (if fin then 0x40 else 0)] @ c"

fun fu_packets :: "rtp_params \<Rightarrow> u8 \<Rightarrow> u8 \<Rightarrow> bool \<Rightarrow> u16 \<Rightarrow> bytes list \<Rightarrow> bytes list" where
  "fu_packets pp ind nt start seq [] = []"
| "fu_packets pp ind nt start seq (c # cs) = fu_packet pp ind nt start (cs = []) seq c # fu_packets pp ind nt False (seq + 1) cs"

lemma fu_a_loop_spec:
  assumes "unat (num :: u32) = unat i + k" "k = length (chunks (unat mtu) p)" "length p = unat nb_left" "0 < unat mtu"
    and "14 + unat mtu \<le> unat (pp_scratch_cap pp)" "unat (pp_scratch_cap pp) \<le> length scratch"
  shows "\<exists>scratch'. length scratch' = length scratch \<and>
     fu_a_loop k pp rtp_collect mtu num nt ind i p nb_left seq scratch out
      = (NGX_RTC_OK, Some (seq + word_of_nat k), Some scratch', out @ fu_packets pp ind nt (i = 0) seq (chunks (unat mtu) p))"
  using assms
proof (induction k arbitrary: i p nb_left seq scratch out)
  case 0
  then show ?case by auto
next
  case (Suc k)
  have ne: "p \<noteq> []" using Suc.prems(2) by auto
  define chunk where "chunk = (if nb_left < mtu then nb_left else mtu)"
  have uc: "unat chunk = min (unat nb_left) (unat mtu)" by (simp add: chunk_def word_less_nat_alt min_def)
  have cap: "14 + unat mtu < 4294967296" using Suc.prems(5) unat_u32_less [of "pp_scratch_cap pp"] by simp
  have ut: "unat (NGX_RTC_RTP_HEADER_SIZE + 2 + chunk) = 14 + unat chunk"
    using cap uc by (simp add: unat_word_ariths)
  have fits: "\<not> pp_scratch_cap pp < NGX_RTC_RTP_HEADER_SIZE + 2 + chunk"
    using ut uc Suc.prems(5) by (simp add: word_less_nat_alt)
  have tk: "take (unat chunk) p = take (unat mtu) p" "drop (unat chunk) p = drop (unat mtu) p"
    using uc Suc.prems(3) by (auto simp: min_def)
  have cs: "chunks (unat mtu) p = take (unat mtu) p # chunks (unat mtu) (drop (unat mtu) p)"
    using ne Suc.prems(4) by (simp add: chunks_step)
  have k: "k = length (chunks (unat mtu) (drop (unat mtu) p))" using Suc.prems(2) cs by simp
  have i1: "unat (i + 1) = unat i + 1" using Suc.prems(1) unat_u32_less [of num] by (simp add: unat_word_ariths)
  have last: "i = num - 1 \<longleftrightarrow> chunks (unat mtu) (drop (unat mtu) p) = []"
  proof -
    have "i = num - 1 \<longleftrightarrow> num = i + 1" by auto
    also have "\<dots> \<longleftrightarrow> unat num = unat (i + 1)" by (rule word_unat_eq_iff)
    finally show ?thesis using i1 Suc.prems(1) k by auto
  qed
  let ?h = "rtp_fixed seq (pp_timestamp pp) (pp_ssrc pp) (pp_payload_type pp) (pp_marker pp \<noteq> 0 \<and> i = num - 1)"
  let ?fh = "(nt OR (if i = 0 then 0x80 else 0)) OR (if i = num - 1 then 0x40 else 0)"
  have fh: "(if i = num - 1 then (if i = 0 then nt OR 0x80 else nt) OR 0x40 else (if i = 0 then nt OR 0x80 else nt)) = ?fh" by simp
  have mk: "((if pp_marker pp \<noteq> 0 \<and> i = num - 1 then 1 else 0 :: int) \<noteq> 0) = (pp_marker pp \<noteq> 0 \<and> i = num - 1)" by simp
  let ?s = "buf_put 14 (take (unat mtu) p) (buf_put 12 [ind, ?fh] (buf_put 0 ?h scratch))"
  let ?pkt = "fu_packet pp ind nt (i = 0) (chunks (unat mtu) (drop (unat mtu) p) = []) seq (take (unat mtu) p)"
  have len: "14 + length (take (unat mtu) p) \<le> length scratch" using Suc.prems(5,6) by simp
  have ls: "length ?s = length scratch" using len by (simp add: buf_put_def)
  have pkt: "take (14 + unat chunk) ?s = ?pkt"
  proof -
    have "14 + unat chunk = 14 + length (take (unat mtu) p)" using uc Suc.prems(3) by simp
    then have "take (14 + unat chunk) ?s = ?h @ [ind, ?fh] @ take (unat mtu) p"
      using len by (intro take_put_put_put) simp_all
    then show ?thesis by (simp add: fu_packet_def last)
  qed
  have nb: "length (drop (unat mtu) p) = unat (nb_left - chunk)"
  proof -
    have "chunk \<le> nb_left" using uc by (simp add: word_le_nat_alt)
    then have "unat (nb_left - chunk) = unat nb_left - unat chunk" by (rule unat_sub)
    then show ?thesis using uc Suc.prems(3) by simp
  qed
  have "\<exists>scratch'. length scratch' = length ?s \<and>
     fu_a_loop k pp rtp_collect mtu num nt ind (i + 1) (drop (unat mtu) p) (nb_left - chunk) (seq + 1) ?s (out @ [?pkt])
      = (NGX_RTC_OK, Some (seq + 1 + word_of_nat k), Some scratch',
         (out @ [?pkt]) @ fu_packets pp ind nt (i + 1 = 0) (seq + 1) (chunks (unat mtu) (drop (unat mtu) p)))"
    by (rule Suc.IH) (use Suc.prems i1 k nb ls in auto)
  then obtain scratch' where IH: "length scratch' = length scratch"
     "fu_a_loop k pp rtp_collect mtu num nt ind (i + 1) (drop (unat mtu) p) (nb_left - chunk) (seq + 1) ?s (out @ [?pkt])
      = (NGX_RTC_OK, Some (seq + 1 + word_of_nat k), Some scratch',
         (out @ [?pkt]) @ fu_packets pp ind nt (i + 1 = 0) (seq + 1) (chunks (unat mtu) (drop (unat mtu) p)))"
    using ls by auto
  have nz: "i + 1 \<noteq> 0" using i1 by auto
  have "fu_a_loop (Suc k) pp rtp_collect mtu num nt ind i p nb_left seq scratch out
     = fu_a_loop k pp rtp_collect mtu num nt ind (i + 1) (drop (unat mtu) p) (nb_left - chunk) (seq + 1) ?s (out @ [?pkt])"
    unfolding fu_a_loop.simps Let_def chunk_def [symmetric] build_header_eq snd_conv fh mk tk ut pkt rtp_collect_def prod.case
    by (simp only: fits if_False simp_thms)
  then show ?case using IH nz cs by (intro exI [of _ scratch']) (simp add: add.assoc)
qed

section \<open>The receiver's view\<close>

definition pkt_seq :: "bytes \<Rightarrow> u16" where
  "pkt_seq p = be16 (p ! 2) (p ! 3)"

definition pkt_marker :: "bytes \<Rightarrow> bool" where
  "pkt_marker p \<longleftrightarrow> p ! 1 AND 0x80 \<noteq> 0"

text \<open>RFC 6184: rebuild the NAL unit from its packets, FU-A by the type of the first payload octet.\<close>

definition depacketize :: "bytes list \<Rightarrow> bytes" where
  "depacketize ps =
     (if hd ps ! 12 AND 0x1f = 28
      then ((hd ps ! 12 AND 0xe0) OR (hd ps ! 13 AND 0x1f)) # concat (map (drop 14) ps)
      else drop 12 (hd ps))"

lemma fixed_fields:
  "pkt_seq (rtp_fixed seq timestamp ssrc pt marker @ rest) = seq"
  "pkt_marker (rtp_fixed seq timestamp ssrc pt marker @ rest) \<longleftrightarrow> marker"
proof -
  show "pkt_seq (rtp_fixed seq timestamp ssrc pt marker @ rest) = seq"
    by (simp add: pkt_seq_def rtp_fixed_def to_be16_def)
  have "(pt AND 0x7f) AND 0x80 = 0" by (simp add: and.assoc)
  then show "pkt_marker (rtp_fixed seq timestamp ssrc pt marker @ rest) \<longleftrightarrow> marker"
    by (simp add: pkt_marker_def rtp_fixed_def bit.conj_disj_distrib2)
qed

lemma length_fu_packets [simp]: "length (fu_packets pp ind nt start seq cs) = length cs"
  by (induction cs arbitrary: start seq) simp_all

lemma nth_fu_packets:
  "i < length cs \<Longrightarrow> fu_packets pp ind nt start seq cs ! i
     = fu_packet pp ind nt (start \<and> i = 0) (i = length cs - 1) (seq + word_of_nat i) (cs ! i)"
proof (induction cs arbitrary: i start seq)
  case (Cons c cs)
  show ?case
  proof (cases i)
    case (Suc j)
    then have "(j = length cs - 1) = (Suc j = length cs)" using Cons.prems by auto
    then show ?thesis using Cons Suc by (simp add: add.assoc)
  qed auto
qed simp

lemma concat_fu_packets: "concat (map (drop 14) (fu_packets pp ind nt start seq cs)) = concat cs"
  by (induction cs arbitrary: start seq) (simp_all add: fu_packet_def)

lemma nal_octet: "((n AND 0xe0) OR (n AND 0x1f)) = (n :: u8)"
proof -
  have "(n AND 0xe0) OR (n AND 0x1f) = n AND (0xe0 OR 0x1f)" by (rule bit.conj_disj_distrib [symmetric])
  also have "(0xe0 OR 0x1f :: u8) = - 1" by simp
  finally show ?thesis by simp
qed

lemma fu_indicator_masks:
  "((n AND 0xe0) OR 28) AND 0xe0 = (n :: u8) AND 0xe0" "((n AND 0xe0) OR 28) AND 0x1f = (28 :: u8)"
  by (simp_all add: bit.conj_disj_distrib2 and.assoc)

lemma fu_header_mask: "(((n AND 0x1f) OR (if a then 0x80 else 0)) OR (if b then 0x40 else 0)) AND 0x1f = (n :: u8) AND 0x1f"
  by (simp add: bit.conj_disj_distrib2 and.assoc)

lemma depacketize_fu:
  assumes "cs \<noteq> []"
  shows "depacketize (fu_packets pp ((n AND 0xe0) OR 28) (n AND 0x1f) True seq cs) = n # concat cs"
proof -
  let ?ps = "fu_packets pp ((n AND 0xe0) OR 28) (n AND 0x1f) True seq cs"
  obtain f where h: "hd ?ps = fu_packet pp ((n AND 0xe0) OR 28) (n AND 0x1f) True f seq (hd cs)"
    using assms by (cases cs) auto
  have "hd ?ps ! 12 = (n AND 0xe0) OR 28" "hd ?ps ! 13 = ((n AND 0x1f) OR (if True then 0x80 else 0)) OR (if f then 0x40 else 0)"
    unfolding h by (simp_all add: fu_packet_def nth_append)
  then show ?thesis
    using fu_indicator_masks [of n] fu_header_mask [of n True f] concat_fu_packets nal_octet [of n]
    by (simp add: depacketize_def)
qed

text \<open>The common shape of a packetiser's result on a non-empty unit.\<close>

definition packets_ok :: "rtp_params \<Rightarrow> u16 \<Rightarrow> bytes list \<Rightarrow> bool" where
  "packets_ok pp seq ps \<longleftrightarrow> ps \<noteq> [] \<and>
     (\<forall>i<length ps. length (ps ! i) \<le> 1214 \<and> pkt_seq (ps ! i) = seq + word_of_nat i \<and>
        (pkt_marker (ps ! i) \<longleftrightarrow> pp_marker pp \<noteq> 0 \<and> i = length ps - 1))"

lemma packetize_single_spec:
  fixes seq :: u16
  assumes "0 < length nalu" "length nalu \<le> 1200" "1212 \<le> unat (pp_scratch_cap pp)" "unat (pp_scratch_cap pp) \<le> length scratch"
  defines "p \<equiv> rtp_fixed seq (pp_timestamp pp) (pp_ssrc pp) (pp_payload_type pp) (pp_marker pp \<noteq> 0) @ nalu"
  shows "ngx_rtc_h264_packetize_single (Some nalu) (word_of_nat (length nalu)) pp (Some seq) (Some scratch) (Some rtp_collect) out
     = (NGX_RTC_OK, Some (seq + 1), Some (buf_put 0 p scratch), out @ [p])"
proof -
  let ?len = "word_of_nat (length nalu) :: u32"
  have ul: "unat ?len = length nalu" using assms(2) by (simp add: unat_of_nat)
  then have ut: "unat (NGX_RTC_RTP_HEADER_SIZE + ?len) = 12 + length nalu" using assms(2) by (simp add: unat_word_ariths)
  have "?len \<noteq> 0" using ul assms(1) by auto
  moreover have "\<not> pp_scratch_cap pp < NGX_RTC_RTP_HEADER_SIZE + ?len" using ut assms by (simp add: word_less_nat_alt)
  moreover have "buf_put 12 nalu (buf_put 0 (rtp_fixed seq (pp_timestamp pp) (pp_ssrc pp) (pp_payload_type pp) (pp_marker pp \<noteq> 0)) scratch) = buf_put 0 p scratch"
    using assms by (simp add: buf_put_def p_def add.commute)
  moreover have "take (12 + length nalu) (buf_put 0 p scratch) = p" using assms by (simp add: buf_put_def p_def)
  ultimately show ?thesis by (simp add: ngx_rtc_h264_packetize_single_def Let_def ul ut rtp_collect_def)
qed

lemma packetize_fu_a_spec:
  fixes seq :: u16
  assumes "1200 < length nalu" "length nalu < 2 ^ 32" "1214 \<le> unat (pp_scratch_cap pp)" "unat (pp_scratch_cap pp) \<le> length scratch"
  defines "ps \<equiv> fu_packets pp ((nalu ! 0 AND 0xe0) OR 28) (nalu ! 0 AND 0x1f) True seq (chunks 1200 (drop 1 nalu))"
  shows "\<exists>scratch'. length scratch' = length scratch \<and>
     ngx_rtc_h264_packetize_fu_a (Some nalu) (word_of_nat (length nalu)) pp NGX_RTC_H264_MTU (Some seq) (Some scratch) (Some rtp_collect) out
     = (NGX_RTC_OK, Some (seq + word_of_nat (length ps)), Some scratch', out @ ps)"
proof -
  let ?len = "word_of_nat (length nalu) :: u32"
  have ul: "unat ?len = length nalu" using assms(2) by (simp add: unat_of_nat)
  have nb: "unat (?len - 1) = length nalu - 1" using ul assms(1) by (simp add: unat_sub_if')
  have "unat (?len - 1 - 1) = unat (?len - 1) - unat (1 :: u32)"
    using nb assms(1) by (intro unat_sub) (simp add: word_le_nat_alt)
  then have nb1: "unat (?len - 1 - 1) = length nalu - 2" unfolding nb by simp
  have d: "(length nalu - 2) div 1200 \<le> length nalu - 2" by (rule div_le_dividend)
  have num: "unat (1 + (?len - 1 - 1) div NGX_RTC_H264_MTU) = 1 + (length nalu - 2) div 1200"
    using nb1 d assms(2) by (simp add: unat_word_ariths unat_div)
  have k: "1 + (length nalu - 2) div 1200 = length (chunks 1200 (drop 1 nalu))"
    using assms(1) by (subst length_chunks) (auto simp: numeral_2_eq_2)
  have "\<exists>scratch'. length scratch' = length scratch \<and>
     fu_a_loop (length (chunks 1200 (drop 1 nalu))) pp rtp_collect NGX_RTC_H264_MTU (1 + (?len - 1 - 1) div NGX_RTC_H264_MTU) (nalu ! 0 AND 0x1f)
      ((nalu ! 0 AND 0xe0) OR 28) 0 (drop 1 nalu) (?len - 1) seq scratch out
      = (NGX_RTC_OK, Some (seq + word_of_nat (length (chunks 1200 (drop 1 nalu)))), Some scratch',
         out @ fu_packets pp ((nalu ! 0 AND 0xe0) OR 28) (nalu ! 0 AND 0x1f) ((0 :: u32) = 0) seq (chunks (unat NGX_RTC_H264_MTU) (drop 1 nalu)))"
    by (rule fu_a_loop_spec) (use num k nb assms in simp_all)
  moreover have "\<not> (?len < 2 \<or> NGX_RTC_H264_MTU = 0)" using ul assms(1) by (simp add: word_less_nat_alt)
  ultimately show ?thesis using num k by (simp add: ngx_rtc_h264_packetize_fu_a_def Let_def ul ps_def)
qed

section \<open>Aggregation\<close>

text \<open>RFC 6184, STAP-A: each unit is preceded by its length.\<close>

fun stap_split :: "bytes \<Rightarrow> bytes list" where
  "stap_split (a # b # rest) = take (unat (be16 a b)) rest # stap_split (drop (unat (be16 a b)) rest)"
| "stap_split _ = []"

definition stap_unit :: "bytes \<Rightarrow> bytes" where
  "stap_unit n = [ucast (drop_bit 8 (word_of_nat (length n) :: u32) AND 0xff), ucast ((word_of_nat (length n) :: u32) AND 0xff)] @ n"

definition stap_len :: "bytes list \<Rightarrow> nat" where
  "stap_len ns = (\<Sum>n\<leftarrow>ns. 2 + length n)"

lemma be16_ucast: "be16 (ucast (drop_bit 8 v)) (ucast v) = (ucast (v :: u32) :: u16)"
proof (rule bit_word_eqI)
  fix n assume "n < LENGTH(16)"
  then show "bit (be16 (ucast (drop_bit 8 v)) (ucast v)) n = bit (ucast v :: u16) n"
    by (cases "n < 8") (simp_all add: be16_def bit_simps not_less less_diff_conv2)
qed

lemma stap_split_units: "\<forall>n\<in>set ns. length n \<le> 65535 \<Longrightarrow> stap_split (concat (map stap_unit ns)) = ns"
proof (induction ns)
  case (Cons n ns)
  have "unat (ucast (word_of_nat (length n) :: u32) :: u16) = length n"
    using Cons.prems by (simp add: unsigned_ucast_eq unat_of_nat take_bit_nat_eq_self)
  then show ?case using Cons by (simp add: stap_unit_def be16_ucast)
qed simp

lemma length_stap_units: "length (concat (map stap_unit ns)) = stap_len ns"
  by (induction ns) (simp_all add: stap_unit_def stap_len_def)

lemma stap_a_sizes_spec:
  "\<forall>n\<in>set ns. length n < 2 ^ 32 \<Longrightarrow> a \<le> 1200 \<Longrightarrow>
   stap_a_sizes (map (\<lambda>n. word_of_nat (length n)) ns) (word_of_nat a)
     = (if a + stap_len ns \<le> 1200 then Inr (word_of_nat (a + stap_len ns)) else Inl NGX_RTC_ERR_TOO_LARGE)"
proof (induction ns arbitrary: a)
  case Nil
  then show ?case by (simp add: stap_len_def)
next
  case (Cons n ns)
  let ?sz = "word_of_nat (length n) :: u32"
  have u: "unat ?sz = length n" using Cons.prems by (simp add: unat_of_nat)
  have sl: "stap_len (n # ns) = 2 + length n + stap_len ns" by (simp add: stap_len_def)
  show ?case
  proof (cases "length n > 65535")
    case True
    then have "?sz > 0xffff" using u by (simp add: word_less_nat_alt)
    then show ?thesis using True sl by simp
  next
    case False
    then have small: "\<not> ?sz > 0xffff" using u by (simp add: word_less_nat_alt)
    have w: "word_of_nat a + (2 + ?sz) = (word_of_nat (a + (2 + length n)) :: u32)" by simp
    have "unat (word_of_nat (a + (2 + length n)) :: u32) = a + (2 + length n)"
      using False Cons.prems(2) by (subst unat_of_nat) simp
    then have gt: "(word_of_nat (a + (2 + length n)) :: u32) > 1200 \<longleftrightarrow> a + (2 + length n) > 1200"
      by (simp add: word_less_nat_alt del: of_nat_add)
    show ?thesis
    proof (cases "a + (2 + length n) > 1200")
      case True
      then show ?thesis using small gt sl unfolding list.map stap_a_sizes.simps w Let_def by simp
    next
      case False
      then show ?thesis using small gt sl Cons.IH [of "a + (2 + length n)"] Cons.prems
        unfolding list.map stap_a_sizes.simps w Let_def by (simp add: ac_simps)
    qed
  qed
qed

lemma stap_a_units_spec:
  "\<forall>n\<in>set ns. length n < 2 ^ 32 \<Longrightarrow> off + stap_len ns \<le> length scratch \<Longrightarrow>
   stap_a_units ns (map (\<lambda>n. word_of_nat (length n)) ns) off scratch = buf_put off (concat (map stap_unit ns)) scratch"
proof (induction ns arbitrary: off scratch)
  case (Cons n ns)
  let ?sz = "word_of_nat (length n) :: u32"
  have u: "unat ?sz = length n" using Cons.prems by (simp add: unat_of_nat)
  have sl: "stap_len (n # ns) = 2 + length n + stap_len ns" by (simp add: stap_len_def)
  let ?lb = "[ucast (drop_bit 8 ?sz AND 0xff), ucast (?sz AND 0xff)] :: bytes"
  have off: "off \<le> length scratch" using Cons.prems(2) by simp
  have two: "buf_put (off + 2) n (buf_put off ?lb scratch) = buf_put off (stap_unit n) scratch"
    using buf_put_append [OF off, of ?lb n] by (simp add: stap_unit_def)
  have len: "length (buf_put off (stap_unit n) scratch) = length scratch"
    using Cons.prems(2) sl by (intro length_buf_put) (simp add: stap_unit_def)
  have "stap_a_units ns (map (\<lambda>n. word_of_nat (length n)) ns) (off + 2 + length n) (buf_put off (stap_unit n) scratch)
      = buf_put (off + 2 + length n) (concat (map stap_unit ns)) (buf_put off (stap_unit n) scratch)"
    by (rule Cons.IH) (use Cons.prems sl len in auto)
  also have "\<dots> = buf_put off (stap_unit n @ concat (map stap_unit ns)) scratch"
    using buf_put_append [OF off, of "stap_unit n"] by (simp add: stap_unit_def add.assoc)
  finally show ?case using u two by (simp add: Let_def)
qed (simp add: stap_len_def)

section \<open>Properties of the packetisers\<close>

lemma packetize_roundtrip:
  assumes "0 < length nalu" "length nalu < 2 ^ 32" "nalu ! 0 AND 0x1f < 24"
    and "1214 \<le> unat (pp_scratch_cap pp)" "unat (pp_scratch_cap pp) \<le> length scratch"
  shows "\<exists>ps scratch'. ngx_rtc_h264_packetize (Some nalu) (word_of_nat (length nalu)) pp (Some seq) (Some scratch) (Some rtp_collect) out
      = (NGX_RTC_OK, Some (seq + word_of_nat (length ps)), Some scratch', out @ ps) \<and>
     length scratch' = length scratch \<and> packets_ok pp seq ps \<and> depacketize ps = nalu"
proof -
  let ?len = "word_of_nat (length nalu) :: u32"
  have ul: "unat ?len = length nalu" using assms(2) by (simp add: unat_of_nat)
  have nz: "?len \<noteq> 0" using ul assms(1) by auto
  show ?thesis
  proof (cases "length nalu \<le> 1200")
    case True
    let ?p = "rtp_fixed seq (pp_timestamp pp) (pp_ssrc pp) (pp_payload_type pp) (pp_marker pp \<noteq> 0) @ nalu"
    have "?len \<le> NGX_RTC_H264_MTU" using True ul by (simp add: word_le_nat_alt)
    then have e: "ngx_rtc_h264_packetize (Some nalu) ?len pp (Some seq) (Some scratch) (Some rtp_collect) out
        = (NGX_RTC_OK, Some (seq + 1), Some (buf_put 0 ?p scratch), out @ [?p])"
      using packetize_single_spec [OF assms(1) True _ assms(5), of seq out] assms(4) nz by (simp add: ngx_rtc_h264_packetize_def)
    have "nalu ! 0 AND 0x1f \<noteq> 28" using assms(3) by auto
    then have "depacketize [?p] = nalu" using assms(1) by (simp add: depacketize_def nth_append)
    moreover have "packets_ok pp seq [?p]" using True fixed_fields by (simp add: packets_ok_def)
    moreover have "length (buf_put 0 ?p scratch) = length scratch" using True assms(4,5) by (intro length_buf_put) simp
    ultimately show ?thesis using e by (intro exI [of _ "[?p]"] exI [of _ "buf_put 0 ?p scratch"]) simp
  next
    case False
    let ?cs = "chunks 1200 (drop 1 nalu)"
    let ?ps = "fu_packets pp ((nalu ! 0 AND 0xe0) OR 28) (nalu ! 0 AND 0x1f) True seq ?cs"
    have big: "1200 < length nalu" using False by simp
    have "\<not> ?len \<le> NGX_RTC_H264_MTU" using False ul by (simp add: word_le_nat_alt)
    then obtain scratch' where e: "length scratch' = length scratch"
      "ngx_rtc_h264_packetize (Some nalu) ?len pp (Some seq) (Some scratch) (Some rtp_collect) out
        = (NGX_RTC_OK, Some (seq + word_of_nat (length ?ps)), Some scratch', out @ ?ps)"
      using packetize_fu_a_spec [OF big assms(2,4,5), of seq out] nz by (auto simp: ngx_rtc_h264_packetize_def)
    have ne: "?cs \<noteq> []" using big by (simp add: chunks_step)
    have "depacketize ?ps = nalu ! 0 # drop 1 nalu" using depacketize_fu [OF ne] concat_chunks [of 1200 "drop 1 nalu"] by simp
    also have "\<dots> = nalu" using assms(1) by (cases nalu) auto
    finally have "depacketize ?ps = nalu" .
    moreover have "packets_ok pp seq ?ps"
      unfolding packets_ok_def
    proof (intro conjI allI impI)
      show "?ps \<noteq> []" using ne length_fu_packets by (metis length_0_conv)
      fix i assume i: "i < length ?ps"
      then have n: "?ps ! i = fu_packet pp ((nalu ! 0 AND 0xe0) OR 28) (nalu ! 0 AND 0x1f) (True \<and> i = 0) (i = length ?cs - 1)
          (seq + word_of_nat i) (?cs ! i)" by (intro nth_fu_packets) simp
      have "length (?cs ! i) \<le> 1200" using i chunks_bound [of "?cs ! i" 1200 "drop 1 nalu"] by simp
      then show "length (?ps ! i) \<le> 1214" unfolding n by (simp add: fu_packet_def)
      show "pkt_seq (?ps ! i) = seq + word_of_nat i" unfolding n fu_packet_def by (rule fixed_fields)
      show "pkt_marker (?ps ! i) \<longleftrightarrow> pp_marker pp \<noteq> 0 \<and> i = length ?ps - 1"
        unfolding n fu_packet_def fixed_fields length_fu_packets by (rule refl)
    qed
    ultimately show ?thesis using e by blast
  qed
qed


definition sample_pp :: rtp_params where
  "sample_pp = \<lparr>pp_timestamp = 90000, pp_ssrc = 0xdeadbeef, pp_payload_type = 102, pp_marker = 1, pp_scratch_cap = 1214\<rparr>"


lemma stap_a_roundtrip:
  assumes "ns \<noteq> []" "length ns < 2 ^ 32" "\<forall>n\<in>set ns. length n < 2 ^ 32" "hd ns \<noteq> []"
    and "1212 \<le> unat (pp_scratch_cap pp)" "unat (pp_scratch_cap pp) \<le> length scratch"
  shows "if 1 + stap_len ns \<le> 1200
    then \<exists>p scratch'. ngx_rtc_h264_packetize_stap_a (Some ns) (Some (map (\<lambda>n. word_of_nat (length n)) ns)) (word_of_nat (length ns)) pp
           (Some seq) (Some scratch) (Some rtp_collect) out = (NGX_RTC_OK, Some (seq + 1), Some scratch', out @ [p]) \<and>
         length scratch' = length scratch \<and> pkt_seq p = seq \<and> \<not> pkt_marker p \<and> p ! 12 AND 0x1f = 24 \<and> stap_split (drop 13 p) = ns
    else ngx_rtc_h264_packetize_stap_a (Some ns) (Some (map (\<lambda>n. word_of_nat (length n)) ns)) (word_of_nat (length ns)) pp
           (Some seq) (Some scratch) (Some rtp_collect) out = (NGX_RTC_ERR_TOO_LARGE, Some seq, Some scratch, out)"
proof -
  let ?sizes = "map (\<lambda>n. word_of_nat (length n) :: u32) ns" and ?count = "word_of_nat (length ns) :: u32"
  have uc: "unat ?count = length ns" using assms(2) by (simp add: unat_of_nat)
  have nz: "?count \<noteq> 0" using uc assms(1) by auto
  have sizes: "stap_a_sizes ?sizes 1 = (if 1 + stap_len ns \<le> 1200 then Inr (word_of_nat (1 + stap_len ns)) else Inl NGX_RTC_ERR_TOO_LARGE)"
    using stap_a_sizes_spec [OF assms(3), of 1] by simp
  show ?thesis
  proof (cases "1 + stap_len ns \<le> 1200")
    case False
    then show ?thesis using sizes nz uc by (simp add: ngx_rtc_h264_packetize_stap_a_def)
  next
    case True
    let ?h = "rtp_fixed seq (pp_timestamp pp) (pp_ssrc pp) (pp_payload_type pp) False"
    let ?b = "[(ns ! 0 ! 0 AND 0xe0) OR 24] :: bytes"
    let ?p = "?h @ ?b @ concat (map stap_unit ns)"
    have up: "unat (word_of_nat (1 + stap_len ns) :: u32) = 1 + stap_len ns" using True by (subst unat_of_nat) simp
    then have ut: "unat (NGX_RTC_RTP_HEADER_SIZE + word_of_nat (1 + stap_len ns)) = 12 + (1 + stap_len ns)"
      using True by (simp add: unat_word_ariths del: of_nat_Suc of_nat_add)
    then have fits: "\<not> pp_scratch_cap pp < NGX_RTC_RTP_HEADER_SIZE + word_of_nat (1 + stap_len ns)"
      using True assms(5) by (simp add: word_less_nat_alt del: of_nat_Suc of_nat_add)
    have units: "stap_a_units ns ?sizes 13 (buf_put 12 ?b (buf_put 0 ?h scratch))
        = buf_put 13 (concat (map stap_unit ns)) (buf_put 12 ?b (buf_put 0 ?h scratch))"
      by (rule stap_a_units_spec [OF assms(3)]) (use True assms(5,6) in \<open>simp add: buf_put_def\<close>)
    let ?s = "buf_put 13 (concat (map stap_unit ns)) (buf_put 12 ?b (buf_put 0 ?h scratch))"
    have pkt: "take (12 + (1 + stap_len ns)) ?s = ?p"
      using True assms(5,6) by (intro take_put_put_put) (simp_all only: length_stap_units length_rtp_fixed, simp_all)
    have "ngx_rtc_h264_packetize_stap_a (Some ns) (Some ?sizes) ?count pp (Some seq) (Some scratch) (Some rtp_collect) out
        = (NGX_RTC_OK, Some (seq + 1), Some ?s, out @ [?p])"
      using sizes nz uc fits True ut pkt units
      by (simp add: ngx_rtc_h264_packetize_stap_a_def Let_def rtp_collect_def del: of_nat_Suc of_nat_add)
    moreover have "?p ! 12 AND 0x1f = 24" by (simp add: nth_append bit.conj_disj_distrib2 and.assoc)
    moreover have "stap_split (drop 13 ?p) = ns"
    proof -
      have "length n \<le> 65535" if "n \<in> set ns" for n
      proof -
        have "2 + length n \<le> stap_len ns" unfolding stap_len_def using that by (intro member_le_sum_list) auto
        then show ?thesis using True by simp
      qed
      then show ?thesis using stap_split_units by simp
    qed
    moreover have "length ?s = length scratch"
      using True assms(5,6) by (simp only: buf_put_def length_append length_take length_drop length_rtp_fixed length_stap_units) simp
    ultimately show ?thesis using True fixed_fields [of seq _ _ _ False] by auto
  qed
qed

text \<open>
  C35. Aggregation is all or nothing and invertible: units whose STAP-A payload fits the 1200-octet
  limit go out as one unmarked packet of type 24 that splits into exactly these units; otherwise
  nothing is emitted, the sequence number and the scratch buffer are untouched and the error is
  TOO_LARGE.
\<close>

theorem rtp_stap_a_roundtrip:
  assumes "ns \<noteq> []" "length ns < 2 ^ 32" "\<forall>n\<in>set ns. length n < 2 ^ 32" "hd ns \<noteq> []"
    and "1212 \<le> unat (pp_scratch_cap pp)" "unat (pp_scratch_cap pp) \<le> length scratch"
  shows "if 1 + stap_len ns \<le> 1200
    then \<exists>p scratch'. ngx_rtc_h264_packetize_stap_a (Some ns) (Some (map (\<lambda>n. word_of_nat (length n)) ns)) (word_of_nat (length ns)) pp
           (Some seq) (Some scratch) (Some rtp_collect) out = (NGX_RTC_OK, Some (seq + 1), Some scratch', out @ [p]) \<and>
         pkt_seq p = seq \<and> \<not> pkt_marker p \<and> p ! 12 AND 0x1f = 24 \<and> stap_split (drop 13 p) = ns
    else ngx_rtc_h264_packetize_stap_a (Some ns) (Some (map (\<lambda>n. word_of_nat (length n)) ns)) (word_of_nat (length ns)) pp
           (Some seq) (Some scratch) (Some rtp_collect) out = (NGX_RTC_ERR_TOO_LARGE, Some seq, Some scratch, out)"
  using stap_a_roundtrip [OF assms, of seq out] by (cases "1 + stap_len ns \<le> 1200") auto

theorem rtp_stap_a_roundtrip_witness:
  "\<exists>p scratch'. ngx_rtc_h264_packetize_stap_a (Some [[0x67, 1, 2], [0x68, 9]]) (Some [3, 2]) 2 sample_pp (Some 7) (Some (replicate 1214 0)) (Some rtp_collect) []
     = (NGX_RTC_OK, Some 8, Some scratch', [p]) \<and> stap_split (drop 13 p) = [[0x67, 1, 2], [0x68, 9]]"
  using rtp_stap_a_roundtrip [of "[[0x67, 1, 2], [0x68, 9]]" sample_pp "replicate 1214 0" 7 "[]"]
  by (auto simp: sample_pp_def stap_len_def)

section \<open>Header removal\<close>

text \<open>The length of the header with its CSRCs and extension, as the packet announces it.\<close>

definition announced_header :: "bytes \<Rightarrow> nat" where
  "announced_header rtp =
     (let h = 12 + 4 * unat (rtp ! 0 AND NGX_RTC_RTP_CSRC_MASK) in
      if rtp ! 0 AND NGX_RTC_RTP_EXTENSION \<noteq> 0 then h + 4 + 4 * unat (be16 (rtp ! (h + 2)) (rtp ! (h + 3))) else h)"

lemma take_put_head:
  "12 \<le> h \<Longrightarrow> h \<le> n \<Longrightarrow> n \<le> length s \<Longrightarrow>
   take (12 + (n - h)) (buf_put 0 [x] (buf_put 12 (buf_get h (n - h) s) s)) = x # take 11 (drop 1 s) @ drop h (take n s)"
proof -
  assume h: "12 \<le> h" "h \<le> n" "n \<le> length s"
  have g: "buf_get h (n - h) s = drop h (take n s)" by (simp add: buf_get_def drop_take)
  have "take 12 s = hd s # take 11 (drop 1 s)" using h by (cases s) auto
  then have put: "buf_put 0 [x] (buf_put 12 (buf_get h (n - h) s) s)
      = (x # take 11 (drop 1 s) @ drop h (take n s)) @ drop (12 + (n - h)) s"
    using h unfolding g by (simp add: buf_put_def)
  have "length (x # take 11 (drop 1 s) @ drop h (take n s)) = 12 + (n - h)" using h by simp
  then show ?thesis unfolding put by (metis append_eq_conv_conj)
qed

text \<open>
  Header removal never reads outside the packet. It succeeds exactly when the announced header
  (CSRCs and extension) fits, and then leaves the fixed header with CC and X cleared followed by the
  unchanged payload; otherwise it reports a parse error and changes nothing.
\<close>

theorem rtp_strip_header_ext:
  assumes "unat len \<le> length rtp"
  shows "\<exists>rtp' len'. length rtp' = length rtp \<and> ngx_rtc_rtp_strip_header_ext (Some rtp) (Some len) =
     Some (if 12 \<le> unat len \<and> announced_header rtp \<le> unat len then NGX_RTC_OK else NGX_RTC_ERR_PARSE, Some rtp', Some len') \<and>
     (if 12 \<le> unat len \<and> announced_header rtp \<le> unat len
      then take (unat len') rtp' = (rtp ! 0 AND 0xe0) # take 11 (drop 1 rtp) @ drop (announced_header rtp) (take (unat len) rtp)
      else rtp' = rtp \<and> len' = len)"
proof (cases "12 \<le> unat len")
  case False
  then have "len < NGX_RTC_RTP_HEADER_SIZE" by (simp add: word_less_nat_alt)
  then show ?thesis using False by (intro exI [of _ rtp] exI [of _ len]) (simp add: ngx_rtc_rtp_strip_header_ext_def)
next
  case True
  then have l12: "\<not> len < NGX_RTC_RTP_HEADER_SIZE" by (simp add: word_less_nat_alt)
  have r0: "rd8 rtp 0 = Some (rtp ! 0)" using True assms by (intro rd8_in) linarith
  let ?h = "12 + 4 * unat (rtp ! 0 AND NGX_RTC_RTP_CSRC_MASK)"
  let ?n = "unat len"
  have mask: "NOT (NGX_RTC_RTP_CSRC_MASK OR NGX_RTC_RTP_EXTENSION) = (0xe0 :: u8)" by simp
  consider (short) "rtp ! 0 AND NGX_RTC_RTP_EXTENSION \<noteq> 0" "?h + 4 > ?n"
    | (read) "rtp ! 0 AND NGX_RTC_RTP_EXTENSION \<noteq> 0 \<longrightarrow> ?h + 4 \<le> ?n" by linarith
  then show ?thesis
  proof cases
    case short
    then have "\<not> announced_header rtp \<le> ?n" by (simp add: announced_header_def Let_def)
    then show ?thesis using short l12 r0
      by (intro exI [of _ rtp] exI [of _ len]) (simp add: ngx_rtc_rtp_strip_header_ext_def Let_def)
  next
    case read
    let ?H = "announced_header rtp"
    have ext: "(if rtp ! 0 AND NGX_RTC_RTP_EXTENSION \<noteq> 0 then
                      (if ?h + 4 > ?n then Some None
                       else do { h \<leftarrow> rd8 rtp (?h + 2); l \<leftarrow> rd8 rtp (?h + 3);
                                 Some (Some (?h + 4 + 4 * unat (be16 h l))) })
                    else Some (Some ?h)) = Some (Some ?H)"
      using read assms by (auto simp: announced_header_def Let_def)
    show ?thesis
    proof (cases "?H \<le> ?n")
      case False
      then show ?thesis using l12 r0 ext
        by (intro exI [of _ rtp] exI [of _ len]) (simp add: ngx_rtc_rtp_strip_header_ext_def Let_def)
    next
      case fits: True
      let ?r = "if ?H \<noteq> 12 then buf_put 12 (buf_get ?H (?n - ?H) rtp) rtp else rtp"
      let ?l = "if ?H \<noteq> 12 then 12 + (len - word_of_nat ?H) else len"
      have h12: "12 \<le> ?H" by (simp add: announced_header_def Let_def)
      have lr: "length ?r = length rtp" using h12 fits assms True by (simp add: buf_put_def buf_get_def)
      have head: "buf_put 12 x rtp ! 0 = rtp ! 0" for x
      proof -
        have "12 \<le> length rtp" using True assms by linarith
        then show ?thesis by (cases rtp) (simp_all add: buf_put_def)
      qed
      have res: "ngx_rtc_rtp_strip_header_ext (Some rtp) (Some len)
          = Some (NGX_RTC_OK, Some (buf_put 0 [rtp ! 0 AND 0xe0] ?r), Some ?l)"
        using l12 r0 ext fits unfolding ngx_rtc_rtp_strip_header_ext_def mask by (simp add: Let_def head)
      have ul: "unat ?l = 12 + (?n - ?H)"
      proof -
        have u: "unat (word_of_nat ?H :: u32) = ?H" using fits unat_u32_less [of len] by (simp add: unat_of_nat)
        then have "unat (len - word_of_nat ?H) = ?n - ?H" using fits by (subst unat_sub) (simp_all add: word_le_nat_alt)
        then have "unat (12 + (len - word_of_nat ?H)) = 12 + (?n - ?H)"
          using h12 fits unat_u32_less [of len] by (simp add: unat_word_ariths)
        then show ?thesis using h12 fits by simp
      qed
      have same: "buf_put 12 (buf_get 12 (?n - 12) rtp) rtp = rtp"
        using True assms by (simp add: buf_put_def buf_get_def) (metis append_take_drop_id drop_drop le_add_diff_inverse2)
      have "take (12 + (?n - ?H)) (buf_put 0 [rtp ! 0 AND 0xe0] ?r) = (rtp ! 0 AND 0xe0) # take 11 (drop 1 rtp) @ drop ?H (take ?n rtp)"
      proof (cases "?H = 12")
        case True
        then show ?thesis using take_put_head [of 12 ?n rtp "rtp ! 0 AND 0xe0"] fits assms same by simp
      next
        case False
        then show ?thesis using take_put_head [OF h12 fits assms, of "rtp ! 0 AND 0xe0"] by simp
      qed
      moreover have "length (buf_put 0 [rtp ! 0 AND 0xe0] ?r) = length rtp" using lr True assms by (subst length_buf_put) simp_all
      ultimately show ?thesis using res fits True
        by (intro exI [of _ "buf_put 0 [rtp ! 0 AND 0xe0] ?r"] exI [of _ ?l]) (simp only: ul simp_thms if_True)
    qed
  qed
qed

theorem rtp_strip_header_ext_witness:
  "\<exists>rtp' len'. ngx_rtc_rtp_strip_header_ext (Some ([0x91, 96, 0, 1, 0, 0, 0, 2, 0, 0, 0, 3, 9, 9, 9, 9, 0xbe, 0xde, 0, 1, 5, 5, 5, 5, 65, 66, 67])) (Some 27)
     = Some (NGX_RTC_OK, Some rtp', Some len') \<and> take (unat len') rtp' = [0x80, 96, 0, 1, 0, 0, 0, 2, 0, 0, 0, 3, 65, 66, 67]"
proof -
  let ?rtp = "[0x91, 96, 0, 1, 0, 0, 0, 2, 0, 0, 0, 3, 9, 9, 9, 9, 0xbe, 0xde, 0, 1, 5, 5, 5, 5, 65, 66, 67] :: bytes"
  have h: "announced_header ?rtp = 24" by (simp add: announced_header_def be16_def)
  have "unat (27 :: u32) \<le> length ?rtp" by simp
  from rtp_strip_header_ext [OF this] obtain rtp' len' where
    "ngx_rtc_rtp_strip_header_ext (Some ?rtp) (Some 27) = Some (NGX_RTC_OK, Some rtp', Some len')"
    "take (unat len') rtp' = (?rtp ! 0 AND 0xe0) # take 11 (drop 1 ?rtp) @ drop 24 (take (unat (27 :: u32)) ?rtp)"
    unfolding h by auto
  then show ?thesis by (intro exI [of _ rtp'] exI [of _ len']) simp
qed

section \<open>Start codes and Exp-Golomb codes\<close>

definition start_code_at :: "bytes \<Rightarrow> nat \<Rightarrow> bool" where
  "start_code_at data i \<longleftrightarrow> data ! i = 0 \<and> data ! (i + 1) = 0 \<and> data ! (i + 2) = 1"

lemma find_nalu_loop_spec:
  "n \<le> length data \<Longrightarrow>
   \<exists>j\<ge>i. find_nalu_loop data n i = Some j \<and> (\<forall>k. i \<le> k \<and> k < j \<longrightarrow> \<not> start_code_at data k) \<and>
     (j + 2 < n \<longrightarrow> start_code_at data j)"
proof (induction data n i rule: find_nalu_loop.induct)
  case (1 data n i)
  show ?case
  proof (cases "i + 2 < n \<and> \<not> start_code_at data i")
    case True
    have ld: "rd8 data i = Some (data ! i)" "rd8 data (i + 1) = Some (data ! (i + 1))" "rd8 data (i + 2) = Some (data ! (i + 2))"
      using True 1(2) by simp_all
    obtain j where j: "j \<ge> i + 1" "find_nalu_loop data n (i + 1) = Some j"
      "\<forall>k. i + 1 \<le> k \<and> k < j \<longrightarrow> \<not> start_code_at data k" "j + 2 < n \<longrightarrow> start_code_at data j"
      using 1(1) [OF _ ld] True 1(2) by (auto simp: start_code_at_def)
    have "find_nalu_loop data n i = find_nalu_loop data n (i + 1)"
      using True ld by (subst find_nalu_loop.simps) (auto simp: start_code_at_def)
    moreover have "\<not> start_code_at data k" if "i \<le> k" "k < j" for k
      using j(3) True that by (cases "k = i") auto
    ultimately show ?thesis using j by (intro exI [of _ j]) auto
  next
    case False
    then show ?thesis using 1(2)
      by (intro exI [of _ i]) (subst find_nalu_loop.simps, auto simp: start_code_at_def)
  qed
qed

text \<open>
  The Annex-B scan stays inside the data and finds the first start code: the offset it stores is
  just after the first \<^verbatim>\<open>00 00 01\<close>, and it reports an error only when there is none.
\<close>

theorem rtp_find_nalu_first:
  assumes "unat len \<le> length data"
  shows "\<exists>rc r. ngx_rtc_h264_find_nalu (Some data) len (Some off) = Some (rc, Some r) \<and>
     (if rc = NGX_RTC_OK
      then 3 \<le> unat r \<and> unat r \<le> unat len \<and> start_code_at data (unat r - 3) \<and> (\<forall>k<unat r - 3. \<not> start_code_at data k)
      else rc = NGX_RTC_ERR_PARSE \<and> r = off \<and> (\<forall>k. k + 2 < unat len \<longrightarrow> \<not> start_code_at data k))"
proof -
  obtain j where j: "find_nalu_loop data (unat len) 0 = Some j" "\<forall>k<j. \<not> start_code_at data k"
    "j + 2 < unat len \<longrightarrow> start_code_at data j"
    using find_nalu_loop_spec [OF assms, of 0] by auto
  show ?thesis
  proof (cases "j + 2 < unat len")
    case True
    then have "unat (word_of_nat (j + 3) :: u32) = j + 3" using unat_u32_less [of len] by (subst unat_of_nat) simp
    then show ?thesis using True j
      by (intro exI [of _ 0] exI [of _ "word_of_nat (j + 3)"]) (simp add: ngx_rtc_h264_find_nalu_def del: of_nat_add of_nat_Suc)
  next
    case False
    then show ?thesis using j
      by (intro exI [of _ NGX_RTC_ERR_PARSE] exI [of _ off]) (auto simp: ngx_rtc_h264_find_nalu_def)
  qed
qed

theorem rtp_find_nalu_first_witness:
  "\<exists>rc r. ngx_rtc_h264_find_nalu (Some [9, 0, 0, 0, 1, 0x65]) 6 (Some 0) = Some (rc, Some r) \<and>
     (if rc = NGX_RTC_OK
      then 3 \<le> unat r \<and> unat r \<le> unat (6 :: u32) \<and> start_code_at [9, 0, 0, 0, 1, 0x65] (unat r - 3) \<and>
        (\<forall>k<unat r - 3. \<not> start_code_at [9, 0, 0, 0, 1, 0x65] k)
      else rc = NGX_RTC_ERR_PARSE \<and> r = 0 \<and> (\<forall>k. k + 2 < unat (6 :: u32) \<longrightarrow> \<not> start_code_at [9, 0, 0, 0, 1, 0x65] k))"
  by (rule rtp_find_nalu_first) simp

text \<open>The bits of a buffer, most significant first, and \<open>n\<close> of them from a position on.\<close>

definition bit_of :: "bytes \<Rightarrow> nat \<Rightarrow> bool" where
  "bit_of data k = bit (data ! (k div 8)) (7 - k mod 8)"

definition bits_from :: "bytes \<Rightarrow> nat \<Rightarrow> nat \<Rightarrow> bool list" where
  "bits_from data pos n = map (bit_of data) [pos..<pos + n]"

text \<open>ITU-T H.264, 9.1: \<open>v\<close> with \<open>2 ^ l \<le> v + 1 < 2 ^ (l + 1)\<close> is \<open>l\<close> zeros and the \<open>l + 1\<close> bits of \<open>v + 1\<close>.\<close>

definition ue_suffix :: "nat \<Rightarrow> nat \<Rightarrow> bool list" where
  "ue_suffix k w = map (\<lambda>i. bit w (k - 1 - i)) [0..<k]"

definition ue_code :: "nat \<Rightarrow> nat \<Rightarrow> bool list" where
  "ue_code l v = replicate l False @ ue_suffix (Suc l) (v + 1)"

definition ue_range :: "nat \<Rightarrow> nat \<Rightarrow> bool" where
  "ue_range l v \<longleftrightarrow> l \<le> 31 \<and> 2 ^ l \<le> v + 1 \<and> v + 1 < 2 ^ Suc l"

lemma bits_from_Suc: "bits_from data pos (Suc n) = bit_of data pos # bits_from data (Suc pos) n"
  by (simp add: bits_from_def upt_conv_Cons del: upt_Suc)

lemma bits_from_0 [simp]: "bits_from data pos 0 = []"
  by (simp add: bits_from_def)

lemma bits_from_add: "bits_from data pos (m + n) = bits_from data pos m @ bits_from data (pos + m) n"
  using upt_add_eq_append [of pos "pos + m" n] by (simp add: bits_from_def add.assoc)

lemma length_bits_from [simp]: "length (bits_from data pos n) = n"
  by (simp add: bits_from_def)

lemma ue_suffix_Suc: "ue_suffix (Suc k) w = bit w k # ue_suffix k w"
  by (simp add: ue_suffix_def upt_conv_Cons map_Suc_upt [symmetric] o_def del: upt_Suc)

lemma length_ue_suffix [simp]: "length (ue_suffix k w) = k"
  by (simp add: ue_suffix_def)

lemma length_ue_code [simp]: "length (ue_code l v) = 2 * l + 1"
  by (simp add: ue_code_def)

lemma ue_suffix_0 [simp]: "ue_suffix 0 w = []"
  by (simp add: ue_suffix_def)

lemma read_bit_spec:
  assumes "unat pos < unat bl" "unat bl \<le> 8 * length data"
  shows "ngx_rtc_h264_read_bit data bl pos = Some (Inr (of_bool (bit_of data (unat pos)), pos + 1))"
    "unat (pos + 1) = unat pos + 1"
proof -
  have q: "unat (drop_bit 3 pos) = unat pos div 8"
    by (simp add: drop_bit_eq_div unat_div)
  have "pos AND 7 = pos AND mask 3" by (simp add: mask_eq_exp_minus_1)
  then have r: "unat (pos AND 7) = unat pos mod 8" by (simp add: unat_and_mask)
  have i: "unat pos div 8 < length data" using assms by simp
  have b: "drop_bit k (x :: u8) AND 1 = of_bool (bit x k)" for k x
    by (simp add: and_one_eq mod_2_eq_odd bit_iff_odd_drop_bit)
  have "\<not> bl \<le> pos" using assms by (simp add: word_le_nat_alt)
  then show "ngx_rtc_h264_read_bit data bl pos = Some (Inr (of_bool (bit_of data (unat pos)), pos + 1))"
    using i by (simp add: ngx_rtc_h264_read_bit_def q r b bit_of_def)
  show "unat (pos + 1) = unat pos + 1" using assms unat_u32_less [of bl] by (simp add: unat_word_ariths)
qed

lemma read_bit_safe: "unat bl \<le> 8 * length data \<Longrightarrow>
   (unat bl \<le> unat pos \<and> ngx_rtc_h264_read_bit data bl pos = Some (Inl NGX_RTC_ERR_PARSE)) \<or>
   (\<exists>b. ngx_rtc_h264_read_bit data bl pos = Some (Inr (b, pos + 1)))"
  using read_bit_spec(1) [of pos bl data]
  by (cases "unat pos < unat bl") (auto simp: ngx_rtc_h264_read_bit_def word_le_nat_alt)

lemma read_ue_leading_spec:
  assumes "bits_from data (unat pos) (Suc k) = replicate k False @ [True]" "l + k \<le> 31"
    and "unat pos + Suc k \<le> unat bl" "unat bl \<le> 8 * length data"
  shows "read_ue_leading data bl pos l = Some (Inr (l + k, pos + word_of_nat (Suc k))) \<and> unat (pos + word_of_nat (Suc k)) = unat pos + Suc k"
  using assms
proof (induction k arbitrary: pos l)
  case 0
  then have "bit_of data (unat pos)" by (simp add: bits_from_Suc)
  then show ?case using 0 read_bit_spec [of pos bl data] by (subst read_ue_leading.simps) simp
next
  case (Suc k)
  have b: "\<not> bit_of data (unat pos)" "bits_from data (Suc (unat pos)) (Suc k) = replicate k False @ [True]"
    using Suc.prems(1) by (simp_all add: bits_from_Suc [of _ _ "Suc k"])
  have r: "ngx_rtc_h264_read_bit data bl pos = Some (Inr (0, pos + 1))" "unat (pos + 1) = Suc (unat pos)"
    using read_bit_spec [of pos bl data] b(1) Suc.prems by auto
  have "read_ue_leading data bl (pos + 1) (l + 1) = Some (Inr (l + 1 + k, pos + 1 + word_of_nat (Suc k))) \<and>
      unat (pos + 1 + word_of_nat (Suc k)) = unat (pos + 1) + Suc k"
    by (rule Suc.IH) (use Suc.prems r b in auto)
  then show ?case using r Suc.prems(2) by (subst read_ue_leading.simps) (simp add: ac_simps)
qed

lemma read_ue_suffix_spec:
  assumes "bits_from data (unat pos) k = ue_suffix k w" "unat pos + k \<le> unat bl" "unat bl \<le> 8 * length data"
  shows "read_ue_suffix data bl k pos acc = Some (Inr (acc + word_of_nat (take_bit k w), pos + word_of_nat k)) \<and>
     unat (pos + word_of_nat k) = unat pos + k"
  using assms
proof (induction k arbitrary: pos acc)
  case (Suc k)
  have b: "bit_of data (unat pos) = bit w k" "bits_from data (Suc (unat pos)) k = ue_suffix k w"
    using Suc.prems(1) by (simp_all add: bits_from_Suc ue_suffix_Suc)
  have r: "ngx_rtc_h264_read_bit data bl pos = Some (Inr (of_bool (bit w k), pos + 1))" "unat (pos + 1) = Suc (unat pos)"
    using read_bit_spec [of pos bl data] b(1) Suc.prems by auto
  let ?v = "acc + push_bit k (ucast (of_bool (bit w k) :: u8))"
  have IH: "read_ue_suffix data bl k (pos + 1) ?v = Some (Inr (?v + word_of_nat (take_bit k w), pos + 1 + word_of_nat k)) \<and>
     unat (pos + 1 + word_of_nat k) = unat (pos + 1) + k"
    by (rule Suc.IH) (use Suc.prems r b in auto)
  have "push_bit k (ucast (of_bool (bit w k) :: u8)) = (word_of_nat (2 ^ k * of_bool (bit w k)) :: u32)"
    by (simp add: push_bit_eq_mult)
  then have "?v + word_of_nat (take_bit k w) = acc + word_of_nat (take_bit (Suc k) w)"
    by (simp add: take_bit_Suc_from_most add.assoc)
  then show ?case using IH r by (simp add: ac_simps)
qed simp

lemma read_ue_spec:
  assumes code: "bits_from data (unat pos) (2 * l + 1) = ue_code l v" and range: "ue_range l v"
    and "unat pos + (2 * l + 1) \<le> unat bl" "unat bl \<le> 8 * length data"
  shows "ngx_rtc_h264_read_ue data bl pos = Some (Inr (word_of_nat v, pos + word_of_nat (2 * l + 1)))"
    "unat (pos + word_of_nat (2 * l + 1)) = unat pos + (2 * l + 1)"
proof -
  let ?w = "v + 1"
  have top: "bit ?w l"
  proof -
    have "?w div 2 ^ l = 1" using range by (intro div_nat_eqI) (auto simp: ue_range_def)
    then show ?thesis by (simp add: bit_iff_odd)
  qed
  have uc: "ue_code l v = (replicate l False @ [True]) @ ue_suffix l ?w"
    using top by (simp add: ue_code_def ue_suffix_Suc)
  have split: "bits_from data (unat pos) (Suc l) @ bits_from data (unat pos + Suc l) l = (replicate l False @ [True]) @ ue_suffix l ?w"
  proof -
    have "2 * l + 1 = Suc l + l" by simp
    then show ?thesis using code uc bits_from_add [of data "unat pos" "Suc l" l] by (simp only:)
  qed
  have b1: "bits_from data (unat pos) (Suc l) = replicate l False @ [True]"
    and b2: "bits_from data (unat pos + Suc l) l = ue_suffix l ?w"
    using append_eq_append_conv [THEN iffD1, OF _ split] by simp_all
  let ?pos = "pos + word_of_nat (Suc l)"
  have lead: "read_ue_leading data bl pos 0 = Some (Inr (l, ?pos))" "unat ?pos = unat pos + Suc l"
    using read_ue_leading_spec [OF b1, of 0 bl] assms range by (auto simp: ue_range_def)
  have suf: "read_ue_suffix data bl l ?pos (push_bit l 1 - 1)
      = Some (Inr (push_bit l 1 - 1 + word_of_nat (take_bit l ?w), ?pos + word_of_nat l))" "unat (?pos + word_of_nat l) = unat ?pos + l"
    using read_ue_suffix_spec [of data ?pos l ?w bl "push_bit l 1 - 1"] b2 lead(2) assms by auto
  have val: "push_bit l 1 - 1 + word_of_nat (take_bit l ?w) = (word_of_nat v :: u32)"
  proof -
    have "?w mod 2 ^ l = (?w - 2 ^ l) mod 2 ^ l" using range by (intro le_mod_geq) (simp add: ue_range_def)
    also have "\<dots> = ?w - 2 ^ l" using range by (intro mod_less) (auto simp: ue_range_def)
    finally have "?w mod 2 ^ l = ?w - 2 ^ l" .
    then have "2 ^ l + take_bit l ?w = ?w" using range by (simp add: take_bit_eq_mod ue_range_def)
    then have "(word_of_nat (2 ^ l + take_bit l ?w) :: u32) = word_of_nat ?w" by (rule arg_cong)
    then show ?thesis by (simp add: push_bit_eq_mult algebra_simps)
  qed
  have pos: "?pos + word_of_nat l = pos + word_of_nat (2 * l + 1)" by (simp add: algebra_simps)
  show "ngx_rtc_h264_read_ue data bl pos = Some (Inr (word_of_nat v, pos + word_of_nat (2 * l + 1)))"
    using lead(1) suf(1) val pos by (simp add: ngx_rtc_h264_read_ue_def)
  show "unat (pos + word_of_nat (2 * l + 1)) = unat pos + (2 * l + 1)"
    using suf(2) unfolding pos lead(2) by linarith
qed

lemma read_ue_leading_safe:
  "unat bl \<le> 8 * length data \<Longrightarrow> \<exists>r. read_ue_leading data bl pos l = Some r"
proof (induction data bl pos l rule: read_ue_leading.induct)
  case (1 data bl pos l)
  consider "ngx_rtc_h264_read_bit data bl pos = Some (Inl NGX_RTC_ERR_PARSE)"
    | b where "ngx_rtc_h264_read_bit data bl pos = Some (Inr (b, pos + 1))"
    using read_bit_safe [OF "1.prems", of pos] by blast
  then show ?case
  proof cases
    case 1
    then show ?thesis by (subst read_ue_leading.simps) simp
  next
    case 2
    then show ?thesis using "1.IH" [OF 2 refl refl] "1.prems"
      by (subst read_ue_leading.simps) auto
  qed
qed

lemma read_ue_suffix_safe: "unat bl \<le> 8 * length data \<Longrightarrow> \<exists>r. read_ue_suffix data bl k pos acc = Some r"
proof (induction k arbitrary: pos acc)
  case (Suc k)
  show ?case using read_bit_safe [OF Suc.prems, of pos] Suc.IH [OF Suc.prems] by auto
qed simp

lemma read_ue_safe: "unat bl \<le> 8 * length data \<Longrightarrow> \<exists>r. ngx_rtc_h264_read_ue data bl pos = Some r"
  using read_ue_leading_safe [of bl data pos 0] read_ue_suffix_safe [of bl data]
  by (auto simp: ngx_rtc_h264_read_ue_def split: sum.splits)

lemma b_frame_total:
  assumes "unat len \<le> length nalu"
  shows "ngx_rtc_h264_is_b_frame (Some nalu) len \<noteq> None"
proof -
  have "unat (len * 8) \<le> unat len * 8" by (simp add: unat_word_ariths mod_less_eq_dividend)
  then have bl: "unat (len * 8) \<le> 8 * length nalu" using assms by simp
  show ?thesis
  proof (cases "len = 0")
    case False
    then have "0 < unat len" by (simp add: unat_gt_0)
    then have "rd8 nalu 0 = Some (nalu ! 0)" using assms by (intro rd8_in) linarith
    moreover obtain r where r: "ngx_rtc_h264_read_ue nalu (len * 8) 8 = Some r" using read_ue_safe [OF bl] by blast
    moreover obtain r' where "ngx_rtc_h264_read_ue nalu (len * 8) (snd (projr r)) = Some r'" using read_ue_safe [OF bl] by blast
    ultimately show ?thesis
      by (cases r; cases r') (auto simp: ngx_rtc_h264_is_b_frame_def Let_def)
  qed (simp add: ngx_rtc_h264_is_b_frame_def)
qed

text \<open>
  C36. The B-frame test never reads outside the unit, whatever the unit holds; on a slice whose header
  starts with the Exp-Golomb codes of \<open>first_mb\<close> and \<open>slice_type\<close> it answers exactly whether the
  slice type is 1 or 6.
\<close>

theorem rtp_b_frame_exact:
  assumes "unat len \<le> length nalu"
  shows "ngx_rtc_h264_is_b_frame (Some nalu) len \<noteq> None \<and>
    (\<forall>lf f ls s. unat len < 2 ^ 29 \<and> ue_range lf f \<and> ue_range ls s \<and> nalu ! 0 AND 0x1f \<in> {1, 2, 3, 4} \<and>
       8 + (2 * lf + 1) + (2 * ls + 1) \<le> 8 * unat len \<and>
       bits_from nalu 8 (2 * lf + 1 + (2 * ls + 1)) = ue_code lf f @ ue_code ls s \<longrightarrow>
       ngx_rtc_h264_is_b_frame (Some nalu) len = Some (if s = 1 \<or> s = 6 then 1 else 0))"
proof (intro conjI allI impI)
  have "unat (len * 8) \<le> unat len * 8" by (simp add: unat_word_ariths mod_less_eq_dividend)
  then have bl: "unat (len * 8) \<le> 8 * length nalu" using assms by simp
  show "ngx_rtc_h264_is_b_frame (Some nalu) len \<noteq> None" using assms by (rule b_frame_total)
  fix lf f ls s
  assume A: "unat len < 2 ^ 29 \<and> ue_range lf f \<and> ue_range ls s \<and> nalu ! 0 AND 0x1f \<in> {1, 2, 3, 4} \<and>
       8 + (2 * lf + 1) + (2 * ls + 1) \<le> 8 * unat len \<and>
       bits_from nalu 8 (2 * lf + 1 + (2 * ls + 1)) = ue_code lf f @ ue_code ls s"
  have "unat (len * 8) = (unat len * 8) mod 2 ^ 32" by (simp add: unat_word_ariths)
  then have ul: "unat (len * 8) = 8 * unat len" using A by simp
  have codes: "bits_from nalu 8 (2 * lf + 1) = ue_code lf f" "bits_from nalu (8 + (2 * lf + 1)) (2 * ls + 1) = ue_code ls s"
    using A bits_from_add [of nalu 8 "2 * lf + 1" "2 * ls + 1"] append_eq_append_conv by (metis length_bits_from length_ue_code)+
  let ?pos = "8 + word_of_nat (2 * lf + 1) :: u32"
  have f: "ngx_rtc_h264_read_ue nalu (len * 8) 8 = Some (Inr (word_of_nat f, ?pos))" "unat ?pos = 8 + (2 * lf + 1)"
    using read_ue_spec [of nalu 8 lf f "len * 8"] codes(1) A ul bl by auto
  have s: "ngx_rtc_h264_read_ue nalu (len * 8) ?pos = Some (Inr (word_of_nat s, ?pos + word_of_nat (2 * ls + 1)))"
    using read_ue_spec(1) [of nalu ?pos ls s "len * 8"] codes(2) f(2) A ul bl by auto
  have us: "unat (word_of_nat s :: u32) = s"
  proof -
    have "(2 :: nat) ^ Suc ls \<le> 2 ^ 32" using A by (intro power_increasing) (auto simp: ue_range_def)
    moreover have "s < 2 ^ Suc ls" using A by (simp add: ue_range_def)
    ultimately have "s < 2 ^ 32" by linarith
    then show ?thesis by (simp add: unat_of_nat)
  qed
  have w: "(word_of_nat s :: u32) = 1 \<longleftrightarrow> s = 1" "(word_of_nat s :: u32) = 6 \<longleftrightarrow> s = 6"
    using us by (auto simp: word_unat_eq_iff)
  have "2 \<le> unat len" using A by linarith
  then have g: "len \<noteq> 0" "\<not> len < 2" "rd8 nalu 0 = Some (nalu ! 0)" using assms by (auto simp: word_less_nat_alt intro!: rd8_in)
  show "ngx_rtc_h264_is_b_frame (Some nalu) len = Some (if s = 1 \<or> s = 6 then 1 else 0)"
    using g A f(1) s w by (auto simp: ngx_rtc_h264_is_b_frame_def Let_def)
qed

theorem rtp_b_frame_exact_witness:
  "ngx_rtc_h264_is_b_frame (Some [0x01, 0xa0]) 2 = Some 1"
proof -
  have b: "bits_from [0x01, 0xa0] 8 (2 * 0 + 1 + (2 * 1 + 1)) = ue_code 0 0 @ ue_code 1 1" by code_simp
  have c: "unat (2 :: u32) < 2 ^ 29 \<and> ue_range 0 0 \<and> ue_range 1 1 \<and> [0x01, 0xa0 :: u8] ! 0 AND 0x1f \<in> {1, 2, 3, 4} \<and>
       8 + (2 * 0 + 1) + (2 * 1 + 1) \<le> 8 * unat (2 :: u32) \<and>
       bits_from [0x01, 0xa0] 8 (2 * 0 + 1 + (2 * 1 + 1)) = ue_code 0 0 @ ue_code 1 1"
    using b by (simp add: ue_range_def)
  have "unat (2 :: u32) \<le> length [0x01, 0xa0 :: u8]" by simp
  note rtp_b_frame_exact [OF this, THEN conjunct2, rule_format, OF c]
  then show ?thesis by simp
qed

end
