(* ===== verification/Stun.thy ===== *)
theory Stun
  imports Prelude
begin

text \<open>
  The STUN codec of \<^verbatim>\<open>src/ngx_rtc_stun.c\<close>: decoding a message attribute by attribute, verifying
  MESSAGE-INTEGRITY, encoding a binding response, and the CRC-32 of FINGERPRINT. HMAC-SHA1 is
  OpenSSL's: a parameter from key and message to the digest, \<open>None\<close> when the call fails. A password
  is the contents of its C string. Loads of the received datagram are bounds checked.
\<close>

section \<open>Data\<close>

record ngx_rtc_stun =
  stun_type :: u16
  transaction_id :: bytes
  has_username :: bool
  local_ufrag :: bytes
  remote_ufrag :: bytes
  use_candidate :: bool
  ice_controlled :: bool
  ice_controlling :: bool
  has_message_integrity :: bool
  message_integrity_offset :: u16
  has_fingerprint :: bool
  fingerprint_offset :: u16

type_synonym hmac_fn = "bytes \<Rightarrow> bytes \<Rightarrow> bytes option"

abbreviation NGX_RTC_STUN_MAGIC_COOKIE :: u32 where "NGX_RTC_STUN_MAGIC_COOKIE \<equiv> 0x2112A442"
abbreviation NGX_RTC_STUN_BINDING_REQUEST :: u16 where "NGX_RTC_STUN_BINDING_REQUEST \<equiv> 0x0001"
abbreviation NGX_RTC_STUN_BINDING_RESPONSE :: u16 where "NGX_RTC_STUN_BINDING_RESPONSE \<equiv> 0x0101"
abbreviation NGX_RTC_STUN_ATTR_USERNAME :: u16 where "NGX_RTC_STUN_ATTR_USERNAME \<equiv> 0x0006"
abbreviation NGX_RTC_STUN_ATTR_MESSAGE_INTEGRITY :: u16 where "NGX_RTC_STUN_ATTR_MESSAGE_INTEGRITY \<equiv> 0x0008"
abbreviation NGX_RTC_STUN_ATTR_XOR_MAPPED_ADDR :: u16 where "NGX_RTC_STUN_ATTR_XOR_MAPPED_ADDR \<equiv> 0x0020"
abbreviation NGX_RTC_STUN_ATTR_USE_CANDIDATE :: u16 where "NGX_RTC_STUN_ATTR_USE_CANDIDATE \<equiv> 0x0025"
abbreviation NGX_RTC_STUN_ATTR_FINGERPRINT :: u16 where "NGX_RTC_STUN_ATTR_FINGERPRINT \<equiv> 0x8028"
abbreviation NGX_RTC_STUN_ATTR_ICE_CONTROLLED :: u16 where "NGX_RTC_STUN_ATTR_ICE_CONTROLLED \<equiv> 0x8029"
abbreviation NGX_RTC_STUN_ATTR_ICE_CONTROLLING :: u16 where "NGX_RTC_STUN_ATTR_ICE_CONTROLLING \<equiv> 0x802A"
abbreviation NGX_RTC_STUN_FINGERPRINT_XOR :: u32 where "NGX_RTC_STUN_FINGERPRINT_XOR \<equiv> 0x5354554E"

text \<open>\<^verbatim>\<open>memset(stun, 0, sizeof(*stun))\<close>.\<close>

definition stun_zero :: ngx_rtc_stun where
  "stun_zero = \<lparr>stun_type = 0, transaction_id = replicate 12 0, has_username = False,
     local_ufrag = replicate 17 0, remote_ufrag = replicate 17 0, use_candidate = False, ice_controlled = False,
     ice_controlling = False, has_message_integrity = False, message_integrity_offset = 0,
     has_fingerprint = False, fingerprint_offset = 0\<rparr>"

section \<open>CRC-32\<close>

definition crc32_bit :: "u32 \<Rightarrow> u32" where
  "crc32_bit crc = drop_bit 1 crc XOR (0xEDB88320 AND (0 - (crc AND 1)))"

definition crc32_octet :: "u32 \<Rightarrow> u8 \<Rightarrow> u32" where
  "crc32_octet crc b = (crc32_bit ^^ 8) (crc XOR ucast b)"

definition ngx_rtc_crc32 :: "bytes \<Rightarrow> u32" where
  "ngx_rtc_crc32 data = foldl crc32_octet 0xFFFFFFFF data XOR 0xFFFFFFFF"

section \<open>Decoding\<close>

text \<open>
  The USERNAME attribute, \<open>pos\<close> at its value: at most 33 octets are looked at, \<^verbatim>\<open>strchr\<close> stops at a NUL,
  and each side of the colon is cut to 16 octets.
\<close>

definition stun_username :: "bytes \<Rightarrow> nat \<Rightarrow> nat \<Rightarrow> ngx_rtc_stun \<Rightarrow> ngx_rtc_stun option" where
  "stun_username data pos attr_len stun =
     (let user_len = (if attr_len < 33 then attr_len else 33) in
      do { user \<leftarrow> rdn data pos user_len;
           let colon = length (takeWhile (\<lambda>c. c \<noteq> 0x3a) (cstr user));
           if colon < length (cstr user) then
             (let local_len = (if colon > 16 then 16 else colon);
                  remote_len = user_len - colon - 1;
                  remote_len = (if remote_len > 16 then 16 else remote_len)
              in Some (stun\<lparr>local_ufrag := buf_put 0 (take local_len user @ [0]) (local_ufrag stun),
                            remote_ufrag := buf_put 0 (take remote_len (drop (colon + 1) user) @ [0]) (remote_ufrag stun),
                            has_username := True\<rparr>))
           else Some stun })"

definition stun_attribute :: "bytes \<Rightarrow> nat \<Rightarrow> u16 \<Rightarrow> u16 \<Rightarrow> ngx_rtc_stun \<Rightarrow> ngx_rtc_stun option" where
  "stun_attribute data pos attr_type attr_len stun =
     (if attr_type = NGX_RTC_STUN_ATTR_USERNAME then stun_username data pos (unat attr_len) stun
      else if attr_type = NGX_RTC_STUN_ATTR_USE_CANDIDATE then Some (stun\<lparr>use_candidate := True\<rparr>)
      else if attr_type = NGX_RTC_STUN_ATTR_ICE_CONTROLLED then Some (stun\<lparr>ice_controlled := True\<rparr>)
      else if attr_type = NGX_RTC_STUN_ATTR_ICE_CONTROLLING then Some (stun\<lparr>ice_controlling := True\<rparr>)
      else if attr_type = NGX_RTC_STUN_ATTR_MESSAGE_INTEGRITY
        then Some (stun\<lparr>has_message_integrity := True, message_integrity_offset := word_of_nat pos\<rparr>)
      else if attr_type = NGX_RTC_STUN_ATTR_FINGERPRINT
        then Some (stun\<lparr>has_fingerprint := True, fingerprint_offset := word_of_nat pos\<rparr>)
      else Some stun)"

definition stun_pad :: "nat \<Rightarrow> nat" where
  "stun_pad attr_len = (if attr_len mod 4 \<noteq> 0 then 4 - attr_len mod 4 else 0)"

function stun_attr_loop :: "bytes \<Rightarrow> nat \<Rightarrow> nat \<Rightarrow> ngx_rtc_stun \<Rightarrow> (int \<times> ngx_rtc_stun) option" where
  "stun_attr_loop data len pos stun =
     (if pos + 4 \<le> len then
        do { attr_type \<leftarrow> rd16 data pos;
             attr_len \<leftarrow> rd16 data (pos + 2);
             if pos + 4 + unat attr_len > len then Some (- 1, stun)
             else do { stun \<leftarrow> stun_attribute data (pos + 4) attr_type attr_len stun;
                       stun_attr_loop data len (pos + 4 + unat attr_len + stun_pad (unat attr_len)) stun } }
      else Some (0, stun))"
  by pat_completeness auto
termination by (relation "measure (\<lambda>(data, len, pos, stun). len - pos)") auto

declare stun_attr_loop.simps [simp del]

definition ngx_rtc_stun_decode :: "ngx_rtc_stun option \<Rightarrow> bytes option \<Rightarrow> nat \<Rightarrow> (int \<times> ngx_rtc_stun option) option" where
  "ngx_rtc_stun_decode stunp datap len =
     (case (stunp, datap) of
        (Some _, Some data) \<Rightarrow>
          if len < 20 then Some (- 1, Some stun_zero)
          else do {
            ty \<leftarrow> rd16 data 0;
            message_len \<leftarrow> rd16 data 2;
            let stun = stun_zero\<lparr>stun_type := ty\<rparr>;
            if 20 + unat message_len \<noteq> len then Some (- 1, Some stun)
            else do {
              tid \<leftarrow> rdn data 8 12;
              (rc, stun) \<leftarrow> stun_attr_loop data len 20 (stun\<lparr>transaction_id := tid\<rparr>);
              Some (rc, Some stun) } }
      | _ \<Rightarrow> Some (- 1, stunp))"

section \<open>Verification and encoding\<close>

definition ngx_rtc_stun_verify_request ::
  "hmac_fn \<Rightarrow> ngx_rtc_stun option \<Rightarrow> bytes option \<Rightarrow> nat \<Rightarrow> bytes option \<Rightarrow> int option" where
  "ngx_rtc_stun_verify_request hmac stunp datap len pwdp =
     (case (stunp, datap, pwdp) of
        (Some stun, Some data, Some ice_pwd) \<Rightarrow>
          if \<not> has_message_integrity stun then Some (- 1)
          else
            let off = unat (message_integrity_offset stun) in
            if len > 2048 \<or> off + 20 > len \<or> off < 4 then Some (- 1)
            else do {
              tmp \<leftarrow> rdn data 0 len;
              let tmp = buf_put 2 (to_be16 (message_integrity_offset stun)) tmp;
              mi \<leftarrow> rdn data off 20;
              (case hmac ice_pwd (take (off - 4) tmp) of
                 None \<Rightarrow> Some (- 1)
               | Some h \<Rightarrow> if length h \<noteq> 20 \<or> mi \<noteq> h then Some (- 1) else Some 0) }
      | _ \<Rightarrow> Some (- 1))"

text \<open>An attribute header at \<open>pos\<close>.\<close>

definition stun_put_attr :: "u16 \<Rightarrow> u16 \<Rightarrow> nat \<Rightarrow> bytes \<Rightarrow> bytes" where
  "stun_put_attr ty len pos out = buf_put (pos + 2) (to_be16 len) (buf_put pos (to_be16 ty) out)"

text \<open>
  The return value is the octets written. \<^verbatim>\<open>snprintf\<close> into 128 octets never cuts the user name, since
  each ufrag array holds at most 16 characters; the truncation is kept.
\<close>

definition ngx_rtc_stun_encode_binding_response ::
  "hmac_fn \<Rightarrow> ngx_rtc_stun option \<Rightarrow> bytes option \<Rightarrow> u32 \<Rightarrow> u16 \<Rightarrow> bytes option \<Rightarrow> nat \<Rightarrow> int \<times> bytes option" where
  "ngx_rtc_stun_encode_binding_response hmac reqp pwdp mapped_addr mapped_port outp out_len =
     (case (reqp, pwdp, outp) of
        (Some req, Some ice_pwd, Some out) \<Rightarrow>
          if out_len < 128 then (- 1, outp)
          else if \<not> has_username req then (- 1, outp)
          else
            let out = buf_put 0 (to_be16 NGX_RTC_STUN_BINDING_RESPONSE) out;
                out = buf_put 2 (to_be16 0) out;
                out = buf_put 4 (to_be32 NGX_RTC_STUN_MAGIC_COOKIE) out;
                out = buf_put 8 (take 12 (transaction_id req)) out;
                pos = 20;
                username = take 127 (cstr (local_ufrag req) @ [0x3a] @ cstr (remote_ufrag req));
                username_len = length username;
                pad = (4 - username_len mod 4) mod 4
            in if 4 + username_len + pad > out_len - pos then (- 1, Some out)
            else
              let out = stun_put_attr NGX_RTC_STUN_ATTR_USERNAME (word_of_nat username_len) pos out;
                  out = buf_put (pos + 4) username out;
                  out = buf_put (pos + 4 + username_len) (replicate pad 0) out;
                  pos = pos + 4 + username_len + pad
              in if 12 > out_len - pos then (- 1, Some out)
            else
              let xor_port = mapped_port XOR ucast (drop_bit 16 NGX_RTC_STUN_MAGIC_COOKIE);
                  xor_addr = mapped_addr XOR NGX_RTC_STUN_MAGIC_COOKIE;
                  out = stun_put_attr NGX_RTC_STUN_ATTR_XOR_MAPPED_ADDR 8 pos out;
                  out = buf_put (pos + 4) [0, 1] out;
                  out = buf_put (pos + 6) (to_be16 xor_port) out;
                  out = buf_put (pos + 8) (to_be32 xor_addr) out;
                  pos = pos + 12;
                  out = buf_put 2 (to_be16 (word_of_nat (pos - 20 + 24))) out
              in case hmac ice_pwd (take pos out) of
                   None \<Rightarrow> (- 1, Some out)
                 | Some h \<Rightarrow>
                     if 4 + length h > out_len - pos then (- 1, Some out)
                     else
                       let out = stun_put_attr NGX_RTC_STUN_ATTR_MESSAGE_INTEGRITY (word_of_nat (length h)) pos out;
                           out = buf_put (pos + 4) h out;
                           pos = pos + 4 + length h;
                           out = buf_put 2 (to_be16 (word_of_nat (pos - 20 + 8))) out
                       in if 8 > out_len - pos then (- 1, Some out)
                       else
                         let crc = ngx_rtc_crc32 (take pos out) XOR NGX_RTC_STUN_FINGERPRINT_XOR;
                             out = stun_put_attr NGX_RTC_STUN_ATTR_FINGERPRINT 4 pos out;
                             out = buf_put (pos + 4) (to_be32 crc) out;
                             pos = pos + 8;
                             out = buf_put 2 (to_be16 (word_of_nat (pos - 20))) out
                         in (int pos, Some out)
      | _ \<Rightarrow> (- 1, outp))"

section \<open>Messages\<close>

definition stun_hdr :: "u16 \<Rightarrow> u16 \<Rightarrow> bytes \<Rightarrow> bytes" where
  "stun_hdr ty n tid = to_be16 ty @ to_be16 n @ to_be32 NGX_RTC_STUN_MAGIC_COOKIE @ tid"

definition stun_attr :: "u16 \<Rightarrow> bytes \<Rightarrow> bytes" where
  "stun_attr ty v = to_be16 ty @ to_be16 (word_of_nat (length v)) @ v @ replicate (stun_pad (length v)) 0"

lemma length_stun_hdr [simp]: "length (stun_hdr ty n tid) = 8 + length tid"
  by (simp add: stun_hdr_def)

lemma length_stun_attr [simp]: "length (stun_attr ty v) = 4 + length v + stun_pad (length v)"
  by (simp add: stun_attr_def)

lemma put_at_end: "p = length xs \<Longrightarrow> buf_put p ys (buf_put 0 xs s) = buf_put 0 (xs @ ys) s"
  using buf_put_append [of 0 s xs ys] by simp

lemma take_put_0: "n = length xs \<Longrightarrow> take n (buf_put 0 xs s) = xs"
  by (simp add: buf_put_def)

lemma put_length_field:
  "buf_put 2 (to_be16 n') (stun_hdr ty n tid @ r) = stun_hdr ty n' tid @ r"
  by (simp add: stun_hdr_def buf_put_def to_be16_def)

lemma buf_put_2_0:
  assumes "length xs \<ge> 4"
  shows "buf_put 2 (to_be16 n') (buf_put 0 xs s) = buf_put 0 (buf_put 2 (to_be16 n') xs) s"
proof -
  have e: "Suc (Suc (Suc (Suc (length xs - 4)))) = length xs" using assms by simp
  show ?thesis using assms by (simp add: buf_put_def e)
qed

lemma put_length_field_0:
  "buf_put 2 (to_be16 n') (buf_put 0 (stun_hdr ty n tid @ r) s) = buf_put 0 (stun_hdr ty n' tid @ r) s"
  by (subst buf_put_2_0) (simp_all add: put_length_field)

text \<open>One turn of the attribute loop at a well-formed attribute.\<close>

lemma attr_loop_step:
  assumes "length v \<le> 65535" "data = pre @ stun_attr ty v @ rest"
  shows "stun_attr_loop data (length data) (length pre) stun =
     do { stun \<leftarrow> stun_attribute data (length pre + 4) ty (word_of_nat (length v)) stun;
          stun_attr_loop data (length data) (length (pre @ stun_attr ty v)) stun }"
proof -
  have ul: "unat (word_of_nat (length v) :: u16) = length v" using assms(1) by (simp add: unat_of_nat)
  have "rd16 data (length pre) = Some ty"
    using rd16_at [of pre ty] by (simp add: assms(2) stun_attr_def)
  moreover have "rd16 data (length pre + 2) = Some (word_of_nat (length v))"
    using rd16_at [of "pre @ to_be16 ty" "word_of_nat (length v)"] by (simp add: assms(2) stun_attr_def)
  moreover have "length pre + 4 + length v \<le> length data" using assms(2) by simp
  ultimately show ?thesis by (subst stun_attr_loop.simps) (simp add: ul add.assoc)
qed

lemma attr_loop_end: "stun_attr_loop data (length data) (length data) stun = Some (0, stun)"
  by (subst stun_attr_loop.simps) simp

section \<open>Memory safety\<close>

lemma stun_attribute_safe: "pos + unat n \<le> length data \<Longrightarrow> stun_attribute data pos ty n stun \<noteq> None"
  by (auto simp: stun_attribute_def stun_username_def Let_def)

lemma attr_loop_safe: "len \<le> length data \<Longrightarrow> stun_attr_loop data len pos stun \<noteq> None"
proof (induction data len pos stun rule: stun_attr_loop.induct)
  case (1 data len pos stun)
  show ?case
  proof (cases "pos + 4 \<le> len")
    case True
    have r: "rd16 data pos = Some (be16 (data ! pos) (data ! (pos + 1)))"
      "rd16 data (pos + 2) = Some (be16 (data ! (pos + 2)) (data ! (pos + 2 + 1)))"
      using True "1.prems" by simp_all
    let ?n = "be16 (data ! (pos + 2)) (data ! (pos + 2 + 1))"
    show ?thesis
    proof (cases "pos + 4 + unat ?n > len")
      case False
      then obtain st where st: "stun_attribute data (pos + 4) (be16 (data ! pos) (data ! (pos + 1))) ?n stun = Some st"
        using stun_attribute_safe [of "pos + 4" ?n data] "1.prems" by fastforce
      then show ?thesis using True False r "1.IH" [OF True r False st "1.prems"] by (subst stun_attr_loop.simps) simp
    qed (use True r in \<open>subst stun_attr_loop.simps, simp\<close>)
  qed (subst stun_attr_loop.simps, simp)
qed

lemma stun_ufrag_length:
  "stun_username data pos n stun = Some st \<Longrightarrow> length (local_ufrag stun) = 17 \<Longrightarrow> length (remote_ufrag stun) = 17 \<Longrightarrow>
   length (local_ufrag st) = 17 \<and> length (remote_ufrag st) = 17"
  by (auto simp: stun_username_def Let_def bind_eq_Some_conv split: if_splits)

lemma attr_loop_ufrags:
  "stun_attr_loop data len pos stun = Some (rc, st) \<Longrightarrow> length (local_ufrag stun) = 17 \<and> length (remote_ufrag stun) = 17 \<Longrightarrow>
   length (local_ufrag st) = 17 \<and> length (remote_ufrag st) = 17"
proof (induction data len pos stun rule: stun_attr_loop.induct)
  case (1 data len pos stun)
  show ?case
  proof (cases "pos + 4 \<le> len")
    case True
    then obtain ty n where r: "rd16 data pos = Some ty" "rd16 data (pos + 2) = Some n"
      using "1.prems"(1) by (subst (asm) stun_attr_loop.simps) (auto simp: bind_eq_Some_conv)
    show ?thesis
    proof (cases "pos + 4 + unat n > len")
      case False
      obtain s1 where s1: "stun_attribute data (pos + 4) ty n stun = Some s1"
        "stun_attr_loop data len (pos + 4 + unat n + stun_pad (unat n)) s1 = Some (rc, st)"
        using "1.prems"(1) True False r by (subst (asm) stun_attr_loop.simps) (auto simp: bind_eq_Some_conv)
      have "length (local_ufrag s1) = 17 \<and> length (remote_ufrag s1) = 17"
        using s1(1) "1.prems"(2) stun_ufrag_length by (auto simp: stun_attribute_def split: if_splits)
      then show ?thesis using "1.IH" [OF True r False s1(1) s1(2)] by blast
    qed (use True r "1.prems" in \<open>subst (asm) stun_attr_loop.simps, simp\<close>)
  qed (use "1.prems" in \<open>subst (asm) stun_attr_loop.simps, simp\<close>)
qed

lemma stun_decode_total:
  assumes "len \<le> length data"
  shows "\<exists>rc st. ngx_rtc_stun_decode (Some st0) (Some data) len = Some (rc, Some st) \<and> (rc = 0 \<or> rc = - 1) \<and>
     length (local_ufrag st) = 17 \<and> length (remote_ufrag st) = 17"
proof -
  have z: "length (local_ufrag stun_zero) = 17" "length (remote_ufrag stun_zero) = 17" by (simp_all add: stun_zero_def)
  have rc: "rc = 0 \<or> rc = - 1" if "stun_attr_loop data len pos stun = Some (rc, st)" for rc pos stun st
    using that
  proof (induction data len pos stun rule: stun_attr_loop.induct)
    case (1 data len pos stun)
    from "1.prems" show ?case
      by (subst (asm) stun_attr_loop.simps) (auto simp: bind_eq_Some_conv split: if_splits dest: "1.IH")
  qed
  show ?thesis
  proof (cases "len < 20")
    case True
    then show ?thesis using z by (simp add: ngx_rtc_stun_decode_def)
  next
    case False
    have r: "rd16 data 0 = Some (be16 (data ! 0) (data ! 1))" "rd16 data 2 = Some (be16 (data ! 2) (data ! 3))"
      "rdn data 8 12 = Some (buf_get 8 12 data)"
      using False assms by simp_all
    let ?st = "stun_zero\<lparr>stun_type := be16 (data ! 0) (data ! 1), transaction_id := buf_get 8 12 data\<rparr>"
    obtain rc st where l: "stun_attr_loop data len 20 ?st = Some (rc, st)" using attr_loop_safe [OF assms, of 20 ?st] by auto
    have "length (local_ufrag st) = 17 \<and> length (remote_ufrag st) = 17" using attr_loop_ufrags [OF l] z by simp
    then show ?thesis using False r l rc [OF l] z by (simp add: ngx_rtc_stun_decode_def Let_def)
  qed
qed

lemma verify_total: "len \<le> length data \<Longrightarrow> \<exists>v. ngx_rtc_stun_verify_request hmac (Some stun) (Some data) len (Some pwd) = Some v"
  by (auto simp: ngx_rtc_stun_verify_request_def Let_def split: option.splits)

text \<open>
  C37. Decoding any datagram returns without reading outside it, and never writes outside the two
  17-octet ufrag arrays.
\<close>

theorem stun_decode_safe:
  assumes "len \<le> length data"
  shows "\<exists>rc st. ngx_rtc_stun_decode (Some st0) (Some data) len = Some (rc, Some st) \<and> (rc = 0 \<or> rc = - 1) \<and>
     length (local_ufrag st) = 17 \<and> length (remote_ufrag st) = 17"
  using assms by (rule stun_decode_total)

theorem stun_decode_safe_witness:
  "\<exists>rc st. ngx_rtc_stun_decode (Some stun_zero) (Some (replicate 20 0)) 20 = Some (rc, Some st) \<and> (rc = 0 \<or> rc = - 1) \<and>
     length (local_ufrag st) = 17 \<and> length (remote_ufrag st) = 17"
  by (rule stun_decode_safe) simp

section \<open>The response\<close>

definition stun_user :: "ngx_rtc_stun \<Rightarrow> bytes" where
  "stun_user req = cstr (local_ufrag req) @ [0x3a] @ cstr (remote_ufrag req)"

definition response_attrs :: "ngx_rtc_stun \<Rightarrow> u32 \<Rightarrow> u16 \<Rightarrow> bytes" where
  "response_attrs req addr port =
     stun_attr NGX_RTC_STUN_ATTR_USERNAME (stun_user req) @
     stun_attr NGX_RTC_STUN_ATTR_XOR_MAPPED_ADDR
       ([0, 1] @ to_be16 (port XOR 0x2112) @ to_be32 (addr XOR NGX_RTC_STUN_MAGIC_COOKIE))"

definition response_signed :: "ngx_rtc_stun \<Rightarrow> u32 \<Rightarrow> u16 \<Rightarrow> bytes" where
  "response_signed req addr port =
     (let a = response_attrs req addr port in
      stun_hdr NGX_RTC_STUN_BINDING_RESPONSE (word_of_nat (length a + 24)) (transaction_id req) @ a)"

definition response_prefix :: "ngx_rtc_stun \<Rightarrow> u32 \<Rightarrow> u16 \<Rightarrow> bytes \<Rightarrow> bytes" where
  "response_prefix req addr port h =
     (let a = response_attrs req addr port in
      stun_hdr NGX_RTC_STUN_BINDING_RESPONSE (word_of_nat (length a + 32)) (transaction_id req) @ a @
      stun_attr NGX_RTC_STUN_ATTR_MESSAGE_INTEGRITY h)"

definition response_message :: "ngx_rtc_stun \<Rightarrow> u32 \<Rightarrow> u16 \<Rightarrow> bytes \<Rightarrow> bytes" where
  "response_message req addr port h =
     response_prefix req addr port h @
     stun_attr NGX_RTC_STUN_ATTR_FINGERPRINT (to_be32 (ngx_rtc_crc32 (response_prefix req addr port h) XOR NGX_RTC_STUN_FINGERPRINT_XOR))"

lemma stun_pad_eq: "(4 - n mod 4) mod 4 = stun_pad n"
  by (cases "n mod 4 = 0") (auto simp: stun_pad_def)

lemma put_attr:
  "p = length xs \<Longrightarrow> buf_put (p + 4) v (stun_put_attr ty n p (buf_put 0 xs s)) = buf_put 0 (xs @ to_be16 ty @ to_be16 n @ v) s"
  by (simp add: stun_put_attr_def put_at_end)

lemma put_attr_0: "p = length xs \<Longrightarrow> stun_put_attr ty n p (buf_put 0 xs s) = buf_put 0 (xs @ to_be16 ty @ to_be16 n) s"
  by (simp add: stun_put_attr_def put_at_end)

lemma length_response_attrs:
  "length (stun_user req) \<le> 33 \<Longrightarrow> length (response_attrs req addr port) \<le> 52"
  by (auto simp: response_attrs_def stun_pad_def)

lemma encode_response:
  assumes "has_username req" "length (transaction_id req) = 12" "length (stun_user req) \<le> 33" "128 \<le> out_len" "out_len \<le> length out"
    and "hmac pwd (response_signed req addr port) = Some h" "length h = 20"
  shows "ngx_rtc_stun_encode_binding_response hmac (Some req) (Some pwd) addr port (Some out) out_len
     = (int (length (response_message req addr port h)), Some (buf_put 0 (response_message req addr port h) out))"
proof -
  let ?tid = "transaction_id req" and ?R = "NGX_RTC_STUN_BINDING_RESPONSE" and ?u = "stun_user req"
  let ?hdr = "\<lambda>n. stun_hdr ?R n ?tid" and ?a = "response_attrs req addr port"
  let ?ua = "stun_attr NGX_RTC_STUN_ATTR_USERNAME ?u"
  let ?mi = "stun_attr NGX_RTC_STUN_ATTR_MESSAGE_INTEGRITY h"
  have s1: "buf_put 8 (take 12 ?tid) (buf_put 4 (to_be32 NGX_RTC_STUN_MAGIC_COOKIE) (buf_put 2 (to_be16 0) (buf_put 0 (to_be16 ?R) out)))
      = buf_put 0 (?hdr 0) out"
    using assms(2) by (simp add: put_at_end stun_hdr_def)
  have user: "take 127 (cstr (local_ufrag req) @ [0x3a] @ cstr (remote_ufrag req)) = ?u"
    using assms(3) by (simp add: stun_user_def)
  let ?p = "20 + 4 + length ?u + stun_pad (length ?u)"
  have s2: "buf_put (20 + 4 + length ?u) (replicate (stun_pad (length ?u)) 0)
        (buf_put (20 + 4) ?u (stun_put_attr NGX_RTC_STUN_ATTR_USERNAME (word_of_nat (length ?u)) 20 (buf_put 0 (?hdr 0) out)))
      = buf_put 0 (?hdr 0 @ ?ua) out"
    using assms(2) by (subst put_attr, simp, subst put_at_end, simp, simp add: stun_attr_def)
  let ?xp = "port XOR ucast (drop_bit 16 NGX_RTC_STUN_MAGIC_COOKIE)" and ?xa = "addr XOR NGX_RTC_STUN_MAGIC_COOKIE"
  have s3: "buf_put (?p + 8) (to_be32 ?xa) (buf_put (?p + 6) (to_be16 ?xp) (buf_put (?p + 4) [0, 1]
        (stun_put_attr NGX_RTC_STUN_ATTR_XOR_MAPPED_ADDR 8 ?p (buf_put 0 (?hdr 0 @ ?ua) out)))) = buf_put 0 (?hdr 0 @ ?a) out"
  proof -
    have p: "?p = length (?hdr 0 @ ?ua)" using assms(2) by simp
    have m: "(ucast (drop_bit 16 NGX_RTC_STUN_MAGIC_COOKIE) :: u16) = 0x2112" by simp
    show ?thesis unfolding m
      by (subst put_attr [OF p], subst put_at_end, use p in simp, subst put_at_end, use p in simp,
          simp add: response_attrs_def stun_attr_def stun_pad_def)
  qed
  have la: "?p + 12 = 20 + length ?a" by (simp add: response_attrs_def stun_pad_def)
  have room: "20 + length ?a + 32 \<le> 104" using length_response_attrs [OF assms(3)] by simp
  have s4: "buf_put 2 (to_be16 (word_of_nat (?p + 12 - 20 + 24))) (buf_put 0 (?hdr 0 @ ?a) out) = buf_put 0 (response_signed req addr port) out"
    unfolding la by (simp add: put_length_field_0 response_signed_def Let_def)
  have t4: "take (?p + 12) (buf_put 0 (response_signed req addr port) out) = response_signed req addr port"
    unfolding la using assms(2) by (intro take_put_0) (simp add: response_signed_def Let_def)
  have s5: "buf_put 2 (to_be16 (word_of_nat (?p + 12 + 4 + length h - 20 + 8))) (buf_put (?p + 12 + 4) h
      (stun_put_attr NGX_RTC_STUN_ATTR_MESSAGE_INTEGRITY (word_of_nat (length h)) (?p + 12) (buf_put 0 (response_signed req addr port) out)))
     = buf_put 0 (response_prefix req addr port h) out"
  proof -
    have "?p + 12 = length (response_signed req addr port)" unfolding la using assms(2) by (simp add: response_signed_def Let_def)
    then have "buf_put (?p + 12 + 4) h
      (stun_put_attr NGX_RTC_STUN_ATTR_MESSAGE_INTEGRITY (word_of_nat (length h)) (?p + 12) (buf_put 0 (response_signed req addr port) out))
      = buf_put 0 (?hdr (word_of_nat (length ?a + 24)) @ (?a @ ?mi)) out"
      using assms(7) by (subst put_attr) (simp_all add: response_signed_def Let_def stun_attr_def stun_pad_def)
    then show ?thesis unfolding la using assms(7)
      by (simp add: put_length_field_0 response_prefix_def Let_def add.commute)
  qed
  let ?q = "?p + 12 + 4 + length h"
  have lq: "?q = length (response_prefix req addr port h)"
    unfolding la using assms(2,7) by (simp add: response_prefix_def Let_def stun_pad_def)
  let ?fp = "to_be32 (ngx_rtc_crc32 (response_prefix req addr port h) XOR NGX_RTC_STUN_FINGERPRINT_XOR)"
  have s6: "buf_put 2 (to_be16 (word_of_nat (?q + 8 - 20))) (buf_put (?q + 4) ?fp (stun_put_attr NGX_RTC_STUN_ATTR_FINGERPRINT 4 ?q
        (buf_put 0 (response_prefix req addr port h) out))) = buf_put 0 (response_message req addr port h) out"
  proof -
    have n: "?q + 8 - 20 = length ?a + 32" unfolding la using assms(7) by simp
    have "buf_put (?q + 4) ?fp (stun_put_attr NGX_RTC_STUN_ATTR_FINGERPRINT 4 ?q (buf_put 0 (response_prefix req addr port h) out))
        = buf_put 0 (response_message req addr port h) out"
      by (subst put_attr [OF lq]) (simp add: response_message_def stun_attr_def stun_pad_def)
    then show ?thesis unfolding n by (simp add: response_message_def response_prefix_def Let_def put_length_field_0)
  qed
  have lm: "length (response_message req addr port h) = ?q + 8" unfolding lq by (simp add: response_message_def stun_pad_def)
  have t6: "take ?q (buf_put 0 (response_prefix req addr port h) out) = response_prefix req addr port h"
    by (rule take_put_0 [OF lq])
  have c: "\<not> out_len < 128" "\<not> 4 + length ?u + stun_pad (length ?u) > out_len - 20" "\<not> 12 > out_len - ?p"
    "\<not> 4 + length h > out_len - (?p + 12)" "\<not> 8 > out_len - ?q"
    using assms(4,7) room la by auto
  show ?thesis
    unfolding ngx_rtc_stun_encode_binding_response_def Let_def prod.case option.case s1 user stun_pad_eq s2 s3 s4 t4 assms(6) s5 t6 s6
    using c assms(1) lm by simp
qed

text \<open>Reading the user name attribute back.\<close>

lemma username_roundtrip:
  assumes "length l \<le> 16" "length r \<le> 16" "0 \<notin> set l" "0 \<notin> set r" "0x3a \<notin> set l"
    and "data = pre @ (l @ [0x3a] @ r) @ post" "length (local_ufrag st) = 17" "length (remote_ufrag st) = 17"
  shows "\<exists>lu ru. stun_username data (length pre) (length (l @ [0x3a] @ r)) st
      = Some (st\<lparr>local_ufrag := lu, remote_ufrag := ru, has_username := True\<rparr>) \<and>
     cstr lu = l \<and> cstr ru = r"
proof -
  let ?u = "l @ [0x3a] @ r"
  have "0 \<notin> set ?u" using assms(3,4) by simp
  then have cu: "cstr ?u = ?u" by (rule cstr_id)
  have "takeWhile (\<lambda>c. c \<noteq> 0x3a) (l @ 0x3a # r) = l" using assms(5) by (subst takeWhile_append2) auto
  then have colon: "length (takeWhile (\<lambda>c. c \<noteq> 0x3a) ?u) = length l" by simp
  have rd: "rdn data (length pre) (length ?u) = Some ?u" unfolding assms(6) by (rule rdn_at)
  have n: "(if length ?u < 33 then length ?u else 33) = length ?u" using assms(1,2) by simp
  have k: "(if length l > 16 then 16 else length l) = length l"
    "(if length ?u - length l - 1 > 16 then 16 else length ?u - length l - 1) = length r" "length l < length ?u"
    using assms(1,2) by simp_all
  have pc: "take (length l) ?u = l" "take (length r) (drop (length l + 1) ?u) = r" by simp_all
  have "stun_username data (length pre) (length ?u) st
      = Some (st\<lparr>local_ufrag := buf_put 0 (l @ [0]) (local_ufrag st), remote_ufrag := buf_put 0 (r @ [0]) (remote_ufrag st), has_username := True\<rparr>)"
    unfolding stun_username_def n rd Let_def bind.bind_lunit cu colon k(1,2) pc by (simp add: k(3))
  moreover have "cstr (buf_put 0 (l @ [0]) b) = l" "cstr (buf_put 0 (r @ [0]) b) = r" for b
    using cstr_append_0 [OF assms(3)] cstr_append_0 [OF assms(4)] by (simp_all add: buf_put_def)
  ultimately show ?thesis by blast
qed

lemma response_roundtrip:
  fixes addr :: u32 and port :: u16
  assumes l: "length (cstr (local_ufrag req)) \<le> 16" "length (cstr (remote_ufrag req)) \<le> 16" "0x3a \<notin> set (cstr (local_ufrag req))"
    and tid: "length (transaction_id req) = 12" and h: "length h = 20"
  defines "m \<equiv> response_message req addr port h" and "off \<equiv> 24 + length (response_attrs req addr port)"
  shows "\<exists>lu ru. ngx_rtc_stun_decode (Some st0) (Some m) (length m) = Some (0, Some
       (stun_zero\<lparr>stun_type := NGX_RTC_STUN_BINDING_RESPONSE, transaction_id := transaction_id req,
          local_ufrag := lu, remote_ufrag := ru, has_username := True,
          has_message_integrity := True, message_integrity_offset := word_of_nat off,
          has_fingerprint := True, fingerprint_offset := word_of_nat (off + 24)\<rparr>)) \<and>
     cstr lu = cstr (local_ufrag req) \<and> cstr ru = cstr (remote_ufrag req)"
proof -
  let ?u = "stun_user req"
  let ?x = "[0, 1] @ to_be16 (port XOR 0x2112) @ to_be32 (addr XOR NGX_RTC_STUN_MAGIC_COOKIE)"
  let ?fp = "to_be32 (ngx_rtc_crc32 (response_prefix req addr port h) XOR NGX_RTC_STUN_FINGERPRINT_XOR)"
  let ?H = "stun_hdr NGX_RTC_STUN_BINDING_RESPONSE (word_of_nat (length (response_attrs req addr port) + 32)) (transaction_id req)"
  let ?A1 = "stun_attr NGX_RTC_STUN_ATTR_USERNAME ?u" and ?A2 = "stun_attr NGX_RTC_STUN_ATTR_XOR_MAPPED_ADDR ?x"
  let ?A3 = "stun_attr NGX_RTC_STUN_ATTR_MESSAGE_INTEGRITY h" and ?A4 = "stun_attr NGX_RTC_STUN_ATTR_FINGERPRINT ?fp"
  have lu: "length ?u \<le> 33" using l by (simp add: stun_user_def)
  have la: "length (response_attrs req addr port) \<le> 52" by (rule length_response_attrs [OF lu])
  have m: "m = ?H @ ?A1 @ ?A2 @ ?A3 @ ?A4"
    by (simp add: m_def response_message_def response_prefix_def response_attrs_def Let_def)
  have lm: "length m = 52 + length (response_attrs req addr port)"
    using tid h by (simp add: m response_attrs_def stun_pad_def)
  let ?s0 = "stun_zero\<lparr>stun_type := NGX_RTC_STUN_BINDING_RESPONSE, transaction_id := transaction_id req\<rparr>"
  have uu: "unat (word_of_nat (length ?u) :: u16) = length ?u" using lu by (simp add: unat_of_nat)
  obtain lf rf where un: "stun_username m (length (?H @ to_be16 NGX_RTC_STUN_ATTR_USERNAME @ to_be16 (word_of_nat (length ?u)))) (length ?u) ?s0
      = Some (?s0\<lparr>local_ufrag := lf, remote_ufrag := rf, has_username := True\<rparr>)" "cstr lf = cstr (local_ufrag req)" "cstr rf = cstr (remote_ufrag req)"
    using username_roundtrip [OF l(1,2) cstr_nonzero cstr_nonzero l(3), where data = m and st = ?s0
        and pre = "?H @ to_be16 NGX_RTC_STUN_ATTR_USERNAME @ to_be16 (word_of_nat (length ?u))"
        and post = "replicate (stun_pad (length ?u)) 0 @ ?A2 @ ?A3 @ ?A4"]
    by (auto simp: m stun_attr_def stun_user_def stun_zero_def)
  let ?s1 = "?s0\<lparr>local_ufrag := lf, remote_ufrag := rf, has_username := True\<rparr>"
  let ?o = "word_of_nat (length (?H @ ?A1 @ ?A2) + 4) :: u16"
  let ?s2 = "?s1\<lparr>has_message_integrity := True, message_integrity_offset := ?o\<rparr>"
  let ?o' = "word_of_nat (length (?H @ ?A1 @ ?A2 @ ?A3) + 4) :: u16"
  let ?s3 = "?s2\<lparr>has_fingerprint := True, fingerprint_offset := ?o'\<rparr>"
  have a1: "stun_attribute m (length ?H + 4) NGX_RTC_STUN_ATTR_USERNAME (word_of_nat (length ?u)) ?s0 = Some ?s1"
    using un(1) uu by (simp add: stun_attribute_def)
  have loop: "stun_attr_loop m (length m) (length ?H) ?s0 = Some (0, ?s3)"
  proof -
    have "stun_attr_loop m (length m) (length ?H) ?s0 = stun_attr_loop m (length m) (length (?H @ ?A1)) ?s1"
      using attr_loop_step [of ?u m ?H NGX_RTC_STUN_ATTR_USERNAME "?A2 @ ?A3 @ ?A4" ?s0] lu a1 m by simp
    also have "\<dots> = stun_attr_loop m (length m) (length ((?H @ ?A1) @ ?A2)) ?s1"
      by (subst attr_loop_step [of ?x m "?H @ ?A1" NGX_RTC_STUN_ATTR_XOR_MAPPED_ADDR "?A3 @ ?A4"]) (simp_all add: m stun_attribute_def)
    also have "\<dots> = stun_attr_loop m (length m) (length (((?H @ ?A1) @ ?A2) @ ?A3)) ?s2"
      by (subst attr_loop_step [of h m "(?H @ ?A1) @ ?A2" NGX_RTC_STUN_ATTR_MESSAGE_INTEGRITY ?A4]) (simp_all add: m stun_attribute_def h)
    also have "\<dots> = stun_attr_loop m (length m) (length ((((?H @ ?A1) @ ?A2) @ ?A3) @ ?A4)) ?s3"
      by (subst attr_loop_step [of ?fp m "((?H @ ?A1) @ ?A2) @ ?A3" NGX_RTC_STUN_ATTR_FINGERPRINT "[]"]) (simp_all add: m stun_attribute_def)
    also have "\<dots> = Some (0, ?s3)" using attr_loop_end [of m ?s3] by (simp add: m)
    finally show ?thesis .
  qed
  have hd: "rd16 m 0 = Some NGX_RTC_STUN_BINDING_RESPONSE" "rd16 m 2 = Some (word_of_nat (length (response_attrs req addr port) + 32))"
    "rdn m 8 12 = Some (transaction_id req)"
    using rd16_at [of "[]" NGX_RTC_STUN_BINDING_RESPONSE] rd16_at [of "to_be16 NGX_RTC_STUN_BINDING_RESPONSE"]
      rdn_at [of "to_be16 NGX_RTC_STUN_BINDING_RESPONSE @ to_be16 (word_of_nat (length (response_attrs req addr port) + 32)) @ to_be32 NGX_RTC_STUN_MAGIC_COOKIE"
        "transaction_id req"] tid
    by (simp_all add: m stun_hdr_def)
  have "unat (word_of_nat (length (response_attrs req addr port) + 32) :: u16) = length (response_attrs req addr port) + 32"
    using la by (subst unat_of_nat) simp
  then have ml: "20 + unat (word_of_nat (length (response_attrs req addr port) + 32) :: u16) = length m" using lm by simp
  have l20: "length ?H = 20" using tid by simp
  have "ngx_rtc_stun_decode (Some st0) (Some m) (length m) = Some (0, Some ?s3)"
    using hd ml lm loop unfolding l20 by (simp add: ngx_rtc_stun_decode_def Let_def del: of_nat_add)
  moreover have "?o = word_of_nat off" "?o' = word_of_nat (off + 24)"
    using tid h by (simp_all add: off_def response_attrs_def stun_pad_def)
  ultimately show ?thesis using un(2,3) by (intro exI [of _ lf] exI [of _ rf]) simp
qed

text \<open>Verification accepts a message that carries the digest of its own signed part.\<close>

lemma verify_response:
  assumes tid: "length (transaction_id req) = 12" and h: "length h = 20" and lu: "length (stun_user req) \<le> 33"
    and hm: "hmac pwd (response_signed req addr port) = Some h"
    and st: "has_message_integrity st" "message_integrity_offset st = word_of_nat (24 + length (response_attrs req addr port))"
  shows "ngx_rtc_stun_verify_request hmac (Some st) (Some (response_message req addr port h))
     (length (response_message req addr port h)) (Some pwd) = Some 0"
proof -
  let ?a = "response_attrs req addr port" and ?m = "response_message req addr port h"
  let ?off = "24 + length ?a"
  have la: "length ?a \<le> 52" by (rule length_response_attrs [OF lu])
  have uo: "unat (word_of_nat ?off :: u16) = ?off" using la by (subst unat_of_nat) simp
  let ?fp = "stun_attr NGX_RTC_STUN_ATTR_FINGERPRINT (to_be32 (ngx_rtc_crc32 (response_prefix req addr port h) XOR NGX_RTC_STUN_FINGERPRINT_XOR))"
  let ?hdr = "\<lambda>n. stun_hdr NGX_RTC_STUN_BINDING_RESPONSE n (transaction_id req)"
  let ?head = "to_be16 NGX_RTC_STUN_ATTR_MESSAGE_INTEGRITY @ to_be16 (word_of_nat (length h))"
  have m: "?m = (?hdr (word_of_nat (length ?a + 32)) @ ?a @ ?head) @ h @ ?fp"
    using h by (simp add: response_message_def response_prefix_def Let_def stun_attr_def stun_pad_def)
  have lp: "length (?hdr (word_of_nat (length ?a + 32)) @ ?a @ ?head) = ?off" using tid by simp
  have mi: "rdn ?m ?off 20 = Some h"
    using rdn_at [of "?hdr (word_of_nat (length ?a + 32)) @ ?a @ ?head" h ?fp] unfolding m [symmetric] lp by (simp only: h)
  have lm: "length ?m = length ?a + 52" using tid h by (simp add: m stun_pad_def)
  have whole: "rdn ?m 0 (length ?m) = Some ?m" by (simp add: buf_get_def)
  have "buf_put 2 (to_be16 (word_of_nat ?off)) ?m = (?hdr (word_of_nat ?off) @ ?a) @ ?head @ h @ ?fp"
    unfolding m using put_length_field [of "word_of_nat ?off" NGX_RTC_STUN_BINDING_RESPONSE "word_of_nat (length ?a + 32)" "transaction_id req" "?a @ ?head @ h @ ?fp"] by simp
  moreover have "length (?hdr (word_of_nat ?off) @ ?a) = ?off - 4" using tid by simp
  ultimately have "take (?off - 4) (buf_put 2 (to_be16 (word_of_nat ?off)) ?m) = ?hdr (word_of_nat ?off) @ ?a"
    by (metis append_eq_conv_conj)
  also have "\<dots> = response_signed req addr port" by (simp add: response_signed_def Let_def add.commute)
  finally have signed: "take (?off - 4) (buf_put 2 (to_be16 (word_of_nat ?off)) ?m) = response_signed req addr port" .
  have g: "\<not> (length ?m > 2048 \<or> ?off + 20 > length ?m \<or> ?off < 4)" using la lm by simp
  show ?thesis
    unfolding ngx_rtc_stun_verify_request_def prod.case option.case Let_def st(2) uo
    by (simp only: st(1) not_True_eq_False if_False g whole mi bind.bind_lunit signed hm option.case h simp_thms)
qed

lemma fingerprint_response:
  assumes "length (transaction_id req) = 12" "length h = 20"
  shows "rd32 (response_message req addr port h) (48 + length (response_attrs req addr port))
      = Some (ngx_rtc_crc32 (take (44 + length (response_attrs req addr port)) (response_message req addr port h)) XOR NGX_RTC_STUN_FINGERPRINT_XOR)"
proof -
  let ?p = "response_prefix req addr port h" and ?n = "length (response_attrs req addr port)"
  let ?fp = "ngx_rtc_crc32 ?p XOR NGX_RTC_STUN_FINGERPRINT_XOR"
  let ?head = "to_be16 NGX_RTC_STUN_ATTR_FINGERPRINT @ to_be16 4"
  have lp: "length ?p = 44 + ?n" using assms by (simp add: response_prefix_def Let_def stun_pad_def)
  have m: "response_message req addr port h = (?p @ ?head) @ to_be32 ?fp @ []"
    by (simp add: response_message_def stun_attr_def stun_pad_def)
  have "rd32 (response_message req addr port h) (length (?p @ ?head)) = Some ?fp" unfolding m by (rule rd32_at)
  moreover have "take (44 + ?n) (response_message req addr port h) = ?p" unfolding m lp [symmetric] by simp
  ultimately show ?thesis using lp by simp
qed

text \<open>
  C20. A binding response is a valid STUN message for its request: for a decoded request with a user
  name, encoding into any buffer of at least 128 octets writes at most 104 octets and stays inside it,
  and decoding the result gives a binding response with the same transaction id and ufrags, whose
  MESSAGE-INTEGRITY verifies under the same password and whose FINGERPRINT is the CRC-32 of all that
  precedes it. HMAC-SHA1 is assumed to give a 20-octet digest.
\<close>

theorem stun_response_roundtrip:
  assumes "has_username req" "length (transaction_id req) = 12"
    and "length (cstr (local_ufrag req)) \<le> 16" "length (cstr (remote_ufrag req)) \<le> 16" "0x3a \<notin> set (cstr (local_ufrag req))"
    and "128 \<le> out_len" "out_len \<le> length out" "\<And>msg. \<exists>h. hmac pwd msg = Some h \<and> length h = 20"
  shows "\<exists>n out' st. ngx_rtc_stun_encode_binding_response hmac (Some req) (Some pwd) addr port (Some out) out_len = (int n, Some out') \<and>
     n \<le> 104 \<and> length out' = length out \<and>
     ngx_rtc_stun_decode (Some st0) (Some (take n out')) n = Some (0, Some st) \<and>
     stun_type st = NGX_RTC_STUN_BINDING_RESPONSE \<and> transaction_id st = transaction_id req \<and> has_username st \<and>
     cstr (local_ufrag st) = cstr (local_ufrag req) \<and> cstr (remote_ufrag st) = cstr (remote_ufrag req) \<and>
     ngx_rtc_stun_verify_request hmac (Some st) (Some (take n out')) n (Some pwd) = Some 0 \<and> has_fingerprint st \<and>
     rd32 (take n out') (unat (fingerprint_offset st)) =
       Some (ngx_rtc_crc32 (take (unat (fingerprint_offset st) - 4) out') XOR NGX_RTC_STUN_FINGERPRINT_XOR)"
proof -
  let ?a = "response_attrs req addr port"
  obtain h where h: "hmac pwd (response_signed req addr port) = Some h" "length h = 20" using assms(8) by blast
  let ?m = "response_message req addr port h"
  have lu: "length (stun_user req) \<le> 33" using assms(3,4) by (simp add: stun_user_def)
  have la: "length ?a \<le> 52" by (rule length_response_attrs [OF lu])
  have lm: "length ?m = 52 + length ?a"
    using assms(2) h(2) by (simp add: response_message_def response_prefix_def Let_def stun_pad_def)
  let ?out = "buf_put 0 ?m out"
  have enc: "ngx_rtc_stun_encode_binding_response hmac (Some req) (Some pwd) addr port (Some out) out_len = (int (length ?m), Some ?out)"
    by (rule encode_response [where hmac = hmac and pwd = pwd, OF assms(1,2) lu assms(6,7) h])
  have tk: "take (length ?m) ?out = ?m" by (rule take_put_0) simp
  obtain l r where d: "ngx_rtc_stun_decode (Some st0) (Some ?m) (length ?m) = Some (0, Some
       (stun_zero\<lparr>stun_type := NGX_RTC_STUN_BINDING_RESPONSE, transaction_id := transaction_id req,
          local_ufrag := l, remote_ufrag := r, has_username := True,
          has_message_integrity := True, message_integrity_offset := word_of_nat (24 + length ?a),
          has_fingerprint := True, fingerprint_offset := word_of_nat (24 + length ?a + 24)\<rparr>))"
      "cstr l = cstr (local_ufrag req)" "cstr r = cstr (remote_ufrag req)"
    using response_roundtrip [OF assms(3-5,2) h(2), of st0 addr port] by blast
  let ?st = "stun_zero\<lparr>stun_type := NGX_RTC_STUN_BINDING_RESPONSE, transaction_id := transaction_id req,
          local_ufrag := l, remote_ufrag := r, has_username := True,
          has_message_integrity := True, message_integrity_offset := word_of_nat (24 + length ?a),
          has_fingerprint := True, fingerprint_offset := word_of_nat (24 + length ?a + 24)\<rparr>"
  have v: "ngx_rtc_stun_verify_request hmac (Some ?st) (Some ?m) (length ?m) (Some pwd) = Some 0"
    by (rule verify_response [where hmac = hmac and pwd = pwd, OF assms(2) h(2) lu h(1)]) simp_all
  have fo: "unat (word_of_nat (24 + length ?a + 24) :: u16) = 48 + length ?a" using la by (subst unat_of_nat) simp
  have "take (44 + length ?a) ?out = take (44 + length ?a) ?m"
    using lm by (simp add: buf_put_def)
  then have fp: "rd32 ?m (unat (fingerprint_offset ?st)) =
       Some (ngx_rtc_crc32 (take (unat (fingerprint_offset ?st) - 4) ?out) XOR NGX_RTC_STUN_FINGERPRINT_XOR)"
    using fingerprint_response [OF assms(2) h(2), of addr port] fo by (simp del: of_nat_add)
  have "length ?out = length out" using lm la assms(6,7) by (intro length_buf_put) simp
  then show ?thesis using enc d v fp lm la tk
    by (intro exI [of _ "length ?m"] exI [of _ ?out] exI [of _ ?st]) (simp del: of_nat_add)
qed

definition sample_request :: ngx_rtc_stun where
  "sample_request = stun_zero\<lparr>stun_type := NGX_RTC_STUN_BINDING_REQUEST, transaction_id := [1, 2, 3, 4, 5, 6, 7, 8, 9, 10, 11, 12],
     has_username := True, local_ufrag := [0x61, 0x62, 0x63] @ replicate 14 0, remote_ufrag := [0x78, 0x3a] @ replicate 15 0\<rparr>"

definition toy_hmac :: hmac_fn where
  "toy_hmac key msg = Some (to_be32 (ngx_rtc_crc32 (key @ msg)) @ replicate 16 0)"

theorem stun_response_roundtrip_witness:
  "\<exists>n out' st. ngx_rtc_stun_encode_binding_response toy_hmac (Some sample_request) (Some [0x70]) 0x7f000001 4242 (Some (replicate 256 0)) 256
       = (int n, Some out') \<and> n \<le> 104 \<and> length out' = length (replicate 256 (0 :: u8)) \<and>
     ngx_rtc_stun_decode (Some stun_zero) (Some (take n out')) n = Some (0, Some st) \<and>
     stun_type st = NGX_RTC_STUN_BINDING_RESPONSE \<and> transaction_id st = transaction_id sample_request \<and> has_username st \<and>
     cstr (local_ufrag st) = cstr (local_ufrag sample_request) \<and> cstr (remote_ufrag st) = cstr (remote_ufrag sample_request) \<and>
     ngx_rtc_stun_verify_request toy_hmac (Some st) (Some (take n out')) n (Some [0x70]) = Some 0 \<and> has_fingerprint st \<and>
     rd32 (take n out') (unat (fingerprint_offset st)) =
       Some (ngx_rtc_crc32 (take (unat (fingerprint_offset st) - 4) out') XOR NGX_RTC_STUN_FINGERPRINT_XOR)"
  by (rule stun_response_roundtrip) (simp_all add: sample_request_def cstr_def toy_hmac_def)

end
