(* ===== verification/Rtcp.thy ===== *)
theory Rtcp
  imports Prelude
begin

text \<open>
  The RTCP codec of \<^verbatim>\<open>src/ngx_rtc_rtcp.c\<close>: parsing one packet of each type, walking a compound
  packet, expanding a NACK list, and encoding sender reports, source descriptions and picture-loss
  indications. Loads of the received data are bounds checked (\<open>None\<close> is an access outside the
  buffer); lengths and offsets, all below \<open>2 ^ 18 + 4\<close> or bounded by a 32-bit capacity, are
  naturals. The wall clock is a parameter.
\<close>

section \<open>Data\<close>

record ngx_rtc_rtcp_rb =
  rb_ssrc :: u32
  fraction_lost :: u8
  lost_packets :: u32
  highest_seq :: u32
  rb_jitter :: u32
  lsr :: u32
  dlsr :: u32

record ngx_rtc_rtcp_pkt =
  version :: u8
  padding :: u8
  pkt_type :: u8
  fmt :: u8
  length_words :: u16
  total_len :: u32
  ssrc :: u32
  ntp :: u64
  rtp_ts :: u32
  sender_packet_count :: u32
  sender_octet_count :: u32
  has_rb :: bool
  rb :: ngx_rtc_rtcp_rb
  cname :: bytes
  media_ssrc :: u32
  nack_count :: u16
  nack_pid :: "u16 list"
  nack_blp :: "u16 list"
  twcc_base_seq :: u16
  twcc_pkt_count :: u16
  twcc_lost :: u32
  twcc_received :: u32
  has_remb :: bool
  remb_bitrate_bps :: u32
  remb_ssrc :: u32
  remb_ssrc_count :: u16
  remb_ssrcs :: "u32 list"

record ngx_rtc_rtcp_sr =
  sr_ssrc :: u32
  sr_ntp :: u64
  sr_rtp_ts :: u32
  packet_count :: u32
  octet_count :: u32
  sr_rb :: "ngx_rtc_rtcp_rb option"

abbreviation NGX_RTC_RTCP_SR :: u8 where "NGX_RTC_RTCP_SR \<equiv> 200"
abbreviation NGX_RTC_RTCP_RR :: u8 where "NGX_RTC_RTCP_RR \<equiv> 201"
abbreviation NGX_RTC_RTCP_SDES :: u8 where "NGX_RTC_RTCP_SDES \<equiv> 202"
abbreviation NGX_RTC_RTCP_RTPFB :: u8 where "NGX_RTC_RTCP_RTPFB \<equiv> 205"
abbreviation NGX_RTC_RTCP_PSFB :: u8 where "NGX_RTC_RTCP_PSFB \<equiv> 206"
abbreviation NGX_RTC_RTCP_FMT_NACK :: u8 where "NGX_RTC_RTCP_FMT_NACK \<equiv> 1"
abbreviation NGX_RTC_RTCP_FMT_PLI :: u8 where "NGX_RTC_RTCP_FMT_PLI \<equiv> 1"
abbreviation NGX_RTC_RTCP_FMT_TWCC :: u8 where "NGX_RTC_RTCP_FMT_TWCC \<equiv> 15"
abbreviation NGX_RTC_RTCP_FMT_REMB :: u8 where "NGX_RTC_RTCP_FMT_REMB \<equiv> 15"
abbreviation NGX_RTC_RTCP_MAX_NACK_ENTRIES :: nat where "NGX_RTC_RTCP_MAX_NACK_ENTRIES \<equiv> 128"
abbreviation NGX_RTC_RTCP_MAX_REMB_SSRCS :: nat where "NGX_RTC_RTCP_MAX_REMB_SSRCS \<equiv> 32"
abbreviation NGX_RTC_RTCP_MAX_CNAME :: nat where "NGX_RTC_RTCP_MAX_CNAME \<equiv> 256"
abbreviation NGX_RTC_RTCP_NTP_UNIX_OFFSET :: u64 where "NGX_RTC_RTCP_NTP_UNIX_OFFSET \<equiv> 2208988800"

definition rtcp_rb_zero :: ngx_rtc_rtcp_rb where
  "rtcp_rb_zero = \<lparr>rb_ssrc = 0, fraction_lost = 0, lost_packets = 0, highest_seq = 0, rb_jitter = 0, lsr = 0, dlsr = 0\<rparr>"

text \<open>\<^verbatim>\<open>memset(pkt, 0, sizeof(*pkt))\<close>.\<close>

definition rtcp_pkt_zero :: ngx_rtc_rtcp_pkt where
  "rtcp_pkt_zero = \<lparr>version = 0, padding = 0, pkt_type = 0, fmt = 0, length_words = 0, total_len = 0, ssrc = 0,
     ntp = 0, rtp_ts = 0, sender_packet_count = 0, sender_octet_count = 0, has_rb = False, rb = rtcp_rb_zero,
     cname = replicate NGX_RTC_RTCP_MAX_CNAME 0, media_ssrc = 0, nack_count = 0,
     nack_pid = replicate NGX_RTC_RTCP_MAX_NACK_ENTRIES 0, nack_blp = replicate NGX_RTC_RTCP_MAX_NACK_ENTRIES 0,
     twcc_base_seq = 0, twcc_pkt_count = 0, twcc_lost = 0, twcc_received = 0, has_remb = False,
     remb_bitrate_bps = 0, remb_ssrc = 0, remb_ssrc_count = 0,
     remb_ssrcs = replicate NGX_RTC_RTCP_MAX_REMB_SSRCS 0\<rparr>"

section \<open>Wire helpers\<close>

definition ngx_rtc_rtcp_rd_u64 :: "bytes \<Rightarrow> nat \<Rightarrow> u64 option" where
  "ngx_rtc_rtcp_rd_u64 b i = do { h \<leftarrow> rd32 b i; l \<leftarrow> rd32 b (i + 4); Some (push_bit 32 (ucast h) OR ucast l) }"

definition ngx_rtc_rtcp_wr_u64 :: "u64 \<Rightarrow> bytes" where
  "ngx_rtc_rtcp_wr_u64 v = to_be32 (ucast (drop_bit 32 v)) @ to_be32 (ucast (v AND 0xffffffff))"

definition ngx_rtc_rtcp_wr_header :: "u8 \<Rightarrow> u8 \<Rightarrow> u32 \<Rightarrow> bytes" where
  "ngx_rtc_rtcp_wr_header type fm tot =
     [0x80 OR (fm AND 0x1f), type] @ to_be16 (ucast (tot div 4 - 1))"

definition ngx_rtc_rtcp_read_rb :: "bytes \<Rightarrow> nat \<Rightarrow> ngx_rtc_rtcp_rb option" where
  "ngx_rtc_rtcp_read_rb b i =
     do { s \<leftarrow> rd32 b i;
          f \<leftarrow> rd8 b (i + 4);
          l \<leftarrow> rd24 b (i + 5);
          h \<leftarrow> rd32 b (i + 8);
          j \<leftarrow> rd32 b (i + 12);
          ls \<leftarrow> rd32 b (i + 16);
          d \<leftarrow> rd32 b (i + 20);
          Some \<lparr>rb_ssrc = s, fraction_lost = f, lost_packets = l, highest_seq = h, rb_jitter = j, lsr = ls, dlsr = d\<rparr> }"

definition ngx_rtc_rtcp_write_rb :: "ngx_rtc_rtcp_rb \<Rightarrow> bytes" where
  "ngx_rtc_rtcp_write_rb r =
     to_be32 (rb_ssrc r)
     @ [fraction_lost r, ucast (drop_bit 16 (lost_packets r) AND 0xff), ucast (drop_bit 8 (lost_packets r) AND 0xff),
        ucast (lost_packets r AND 0xff)]
     @ to_be32 (highest_seq r) @ to_be32 (rb_jitter r) @ to_be32 (lsr r) @ to_be32 (dlsr r)"

definition ngx_rtc_rtcp_ntp_from_unix_us :: "u64 \<Rightarrow> u64" where
  "ngx_rtc_rtcp_ntp_from_unix_us unix_us =
     (let seconds = unix_us div 1000000;
          usec = unix_us mod 1000000;
          fraction = push_bit 32 usec div 1000000
      in push_bit 32 (seconds + NGX_RTC_RTCP_NTP_UNIX_OFFSET) OR fraction)"

text \<open>
  The clock: \<open>Inl (sec, nsec)\<close> is what \<^verbatim>\<open>clock_gettime\<close> filled in, \<open>Inr sec\<close> the result of \<^verbatim>\<open>time\<close>
  when it failed.
\<close>

definition ngx_rtc_rtcp_ntp_now :: "(u64 \<times> u64) + u64 \<Rightarrow> u64" where
  "ngx_rtc_rtcp_ntp_now clock =
     (case clock of
        Inl (tv_sec, tv_nsec) \<Rightarrow> ngx_rtc_rtcp_ntp_from_unix_us (tv_sec * 1000000 + tv_nsec div 1000)
      | Inr sec \<Rightarrow> ngx_rtc_rtcp_ntp_from_unix_us (sec * 1000000))"

section \<open>SDES\<close>

text \<open>
  The item walk: \<open>Inl pkt\<close> is a \<^verbatim>\<open>return\<close> out of the whole function, \<open>Inr off\<close> the offset after the
  chunk's terminator.
\<close>

function sdes_items :: "bytes \<Rightarrow> nat \<Rightarrow> nat \<Rightarrow> ngx_rtc_rtcp_pkt \<Rightarrow> (ngx_rtc_rtcp_pkt + nat) option" where
  "sdes_items buf tot off pkt =
     (if off + 1 \<le> tot then
        do { item_type \<leftarrow> rd8 buf off;
             if item_type = 0 then Some (Inr (off + 1))
             else if off + 2 > tot then Some (Inl pkt)
             else do { item_len \<leftarrow> rd8 buf (off + 1);
                       if off + 2 + unat item_len > tot then Some (Inl pkt)
                       else if item_type = 1 then
                         (let copy = (if unat item_len \<ge> NGX_RTC_RTCP_MAX_CNAME then NGX_RTC_RTCP_MAX_CNAME - 1
                                      else unat item_len)
                          in do { txt \<leftarrow> rdn buf (off + 2) copy;
                                  Some (Inl (pkt\<lparr>cname := buf_put 0 (txt @ [0]) (cname pkt)\<rparr>)) })
                       else sdes_items buf tot (off + 2 + unat item_len) pkt } }
      else Some (Inr off))"
  by pat_completeness auto
termination by (relation "measure (\<lambda>(buf, tot, off, pkt). tot - off)") auto

declare sdes_items.simps [simp del]

text \<open>\<^verbatim>\<open>while (off % 4) off++\<close>.\<close>

definition sdes_align :: "nat \<Rightarrow> nat" where
  "sdes_align off = (off + 3) div 4 * 4"

text \<open>The chunk loop, with the number of chunks left.\<close>

primrec sdes_chunks :: "nat \<Rightarrow> bytes \<Rightarrow> nat \<Rightarrow> nat \<Rightarrow> ngx_rtc_rtcp_pkt \<Rightarrow> ngx_rtc_rtcp_pkt option" where
  "sdes_chunks 0 buf tot off pkt = Some pkt"
| "sdes_chunks (Suc n) buf tot off pkt =
     (if off + 4 \<le> tot then
        do { r \<leftarrow> sdes_items buf tot (off + 4) pkt;
             (case r of Inl pkt \<Rightarrow> Some pkt | Inr off \<Rightarrow> sdes_chunks n buf tot (sdes_align off) pkt) }
      else Some pkt)"

definition ngx_rtc_rtcp_parse_sdes :: "bytes \<Rightarrow> nat \<Rightarrow> ngx_rtc_rtcp_pkt \<Rightarrow> ngx_rtc_rtcp_pkt option" where
  "ngx_rtc_rtcp_parse_sdes buf tot pkt = sdes_chunks (unat (fmt pkt)) buf tot 4 pkt"

section \<open>Transport-wide congestion control\<close>

text \<open>One status or a run of equal ones.\<close>

definition twcc_count :: "bool \<Rightarrow> nat \<Rightarrow> ngx_rtc_rtcp_pkt \<Rightarrow> ngx_rtc_rtcp_pkt" where
  "twcc_count lost n pkt =
     (if lost then pkt\<lparr>twcc_lost := twcc_lost pkt + word_of_nat n\<rparr>
      else pkt\<lparr>twcc_received := twcc_received pkt + word_of_nat n\<rparr>)"

text \<open>The two status-vector loops: fourteen one-bit symbols, seven two-bit ones.\<close>

function twcc_bits :: "u16 \<Rightarrow> nat \<Rightarrow> nat \<Rightarrow> nat \<Rightarrow> ngx_rtc_rtcp_pkt \<Rightarrow> nat \<times> ngx_rtc_rtcp_pkt" where
  "twcc_bits chunk count symbol parsed pkt =
     (if symbol < 14 \<and> parsed < count then
        twcc_bits chunk count (symbol + 1) (parsed + 1)
          (twcc_count (drop_bit (13 - symbol) chunk AND 1 = 0) 1 pkt)
      else (parsed, pkt))"
  by pat_completeness auto
termination by (relation "measure (\<lambda>(chunk, count, symbol, parsed, pkt). 14 - symbol)") auto

function twcc_pairs :: "u16 \<Rightarrow> nat \<Rightarrow> nat \<Rightarrow> nat \<Rightarrow> ngx_rtc_rtcp_pkt \<Rightarrow> nat \<times> ngx_rtc_rtcp_pkt" where
  "twcc_pairs chunk count symbol parsed pkt =
     (if symbol < 7 \<and> parsed < count then
        twcc_pairs chunk count (symbol + 1) (parsed + 1)
          (twcc_count (drop_bit (12 - symbol * 2) chunk AND 3 = 0) 1 pkt)
      else (parsed, pkt))"
  by pat_completeness auto
termination by (relation "measure (\<lambda>(chunk, count, symbol, parsed, pkt). 7 - symbol)") auto

declare twcc_bits.simps [simp del] twcc_pairs.simps [simp del]

text \<open>One chunk of the list.\<close>

definition twcc_chunk :: "u16 \<Rightarrow> nat \<Rightarrow> nat \<Rightarrow> ngx_rtc_rtcp_pkt \<Rightarrow> nat \<times> ngx_rtc_rtcp_pkt" where
  "twcc_chunk chunk count parsed pkt =
     (if drop_bit 15 chunk = 0 then
        (let run = unat (chunk AND 0x1FFF);
             symbol = drop_bit 13 chunk AND 3;
             run = (if run > count - parsed then count - parsed else run)
         in (parsed + run, twcc_count (symbol = 0) run pkt))
      else if chunk AND 0x4000 = 0 then twcc_bits chunk count 0 parsed pkt
      else twcc_pairs chunk count 0 parsed pkt)"

function twcc_loop :: "bytes \<Rightarrow> nat \<Rightarrow> nat \<Rightarrow> nat \<Rightarrow> nat \<Rightarrow> ngx_rtc_rtcp_pkt \<Rightarrow> ngx_rtc_rtcp_pkt option" where
  "twcc_loop buf tot count p parsed pkt =
     (if parsed < count \<and> p + 2 \<le> tot then
        do { chunk \<leftarrow> rd16 buf p;
             let (parsed, pkt) = twcc_chunk chunk count parsed pkt in
             twcc_loop buf tot count (p + 2) parsed pkt }
      else Some pkt)"
  by pat_completeness auto
termination by (relation "measure (\<lambda>(buf, tot, count, p, parsed, pkt). tot - p)") auto

declare twcc_loop.simps [simp del]

definition ngx_rtc_rtcp_parse_twcc :: "bytes \<Rightarrow> nat \<Rightarrow> ngx_rtc_rtcp_pkt \<Rightarrow> ngx_rtc_rtcp_pkt option" where
  "ngx_rtc_rtcp_parse_twcc buf tot pkt =
     (if tot < 20 then Some pkt
      else do { base \<leftarrow> rd16 buf 12;
                cnt \<leftarrow> rd16 buf 14;
                twcc_loop buf tot (unat cnt) 20 0 (pkt\<lparr>twcc_base_seq := base, twcc_pkt_count := cnt\<rparr>) })"

section \<open>REMB and NACK lists\<close>

text \<open>\<open>n\<close> big-endian words from an offset.\<close>

primrec rd32_list :: "nat \<Rightarrow> bytes \<Rightarrow> nat \<Rightarrow> u32 list option" where
  "rd32_list 0 b p = Some []"
| "rd32_list (Suc n) b p = do { x \<leftarrow> rd32 b p; xs \<leftarrow> rd32_list n b (p + 4); Some (x # xs) }"

primrec nack_entries :: "nat \<Rightarrow> bytes \<Rightarrow> nat \<Rightarrow> (u16 \<times> u16) list option" where
  "nack_entries 0 b p = Some []"
| "nack_entries (Suc n) b p =
     do { pid \<leftarrow> rd16 b p; blp \<leftarrow> rd16 b (p + 2); xs \<leftarrow> nack_entries n b (p + 4); Some ((pid, blp) # xs) }"

text \<open>The stores for \<open>keep\<close> decoded SSRCs, then the check of the list's length and the list loop.\<close>

definition remb_store :: "nat \<Rightarrow> u32 \<Rightarrow> u32 list \<Rightarrow> ngx_rtc_rtcp_pkt \<Rightarrow> ngx_rtc_rtcp_pkt" where
  "remb_store keep bps ssrcs pkt =
     (let pkt = pkt\<lparr>has_remb := True, remb_bitrate_bps := bps, remb_ssrc_count := word_of_nat keep,
                    remb_ssrcs := buf_put 0 ssrcs (remb_ssrcs pkt)\<rparr>
      in if keep > 0 then pkt\<lparr>remb_ssrc := remb_ssrcs pkt ! 0\<rparr> else pkt)"

definition remb_list :: "bytes \<Rightarrow> nat \<Rightarrow> nat \<Rightarrow> u32 \<Rightarrow> ngx_rtc_rtcp_pkt \<Rightarrow> (int \<times> ngx_rtc_rtcp_pkt) option" where
  "remb_list buf fci num_ssrc bps pkt =
     (if fci < 8 + num_ssrc * 4 then Some (NGX_RTC_ERR_PARSE, pkt)
      else (let keep = (if num_ssrc > NGX_RTC_RTCP_MAX_REMB_SSRCS then NGX_RTC_RTCP_MAX_REMB_SSRCS else num_ssrc)
            in do { ssrcs \<leftarrow> rd32_list keep buf 20; Some (NGX_RTC_OK, remb_store keep bps ssrcs pkt) }))"

definition ngx_rtc_rtcp_parse_remb :: "bytes \<Rightarrow> nat \<Rightarrow> ngx_rtc_rtcp_pkt \<Rightarrow> (int \<times> ngx_rtc_rtcp_pkt) option" where
  "ngx_rtc_rtcp_parse_remb buf tot pkt =
     (let fci = tot - 12 in
      if fci < 4 then Some (NGX_RTC_OK, pkt)
      else do { magic \<leftarrow> rdn buf 12 4;
                if magic \<noteq> [0x52, 0x45, 0x4D, 0x42] then Some (NGX_RTC_OK, pkt)
                else if fci < 8 then Some (NGX_RTC_ERR_PARSE, pkt)
                else do { word \<leftarrow> rd32 buf 16;
                  let num_ssrc = unat (drop_bit 24 word AND 0xff);
                      br_exp = unat (drop_bit 18 word AND 0x3f);
                      br_mantissa = word AND 0x3ffff
                  in remb_list buf fci num_ssrc (ucast (ucast br_mantissa * push_bit br_exp (1 :: u64))) pkt } })"

section \<open>Parsing one packet\<close>

text \<open>The branches of the switch on the packet type.\<close>

definition rtcp_body_sr :: "bytes \<Rightarrow> nat \<Rightarrow> ngx_rtc_rtcp_pkt \<Rightarrow> (int \<times> ngx_rtc_rtcp_pkt) option" where
  "rtcp_body_sr buf tot pkt =
     (if tot < 28 then Some (NGX_RTC_ERR_PARSE, pkt)
      else do { n \<leftarrow> ngx_rtc_rtcp_rd_u64 buf 8;
                ts \<leftarrow> rd32 buf 16;
                pc \<leftarrow> rd32 buf 20;
                oc \<leftarrow> rd32 buf 24;
                let pkt = pkt\<lparr>ntp := n, rtp_ts := ts, sender_packet_count := pc, sender_octet_count := oc\<rparr>
                in if fmt pkt > 0 then
                     (if tot < 52 then Some (NGX_RTC_ERR_PARSE, pkt)
                      else do { r \<leftarrow> ngx_rtc_rtcp_read_rb buf 28;
                                Some (NGX_RTC_OK, pkt\<lparr>rb := r, has_rb := True\<rparr>) })
                   else Some (NGX_RTC_OK, pkt) })"

definition rtcp_body_rr :: "bytes \<Rightarrow> nat \<Rightarrow> ngx_rtc_rtcp_pkt \<Rightarrow> (int \<times> ngx_rtc_rtcp_pkt) option" where
  "rtcp_body_rr buf tot pkt =
     (if fmt pkt > 0 then
        (if tot < 8 + 24 then Some (NGX_RTC_ERR_PARSE, pkt)
         else do { r \<leftarrow> ngx_rtc_rtcp_read_rb buf 8; Some (NGX_RTC_OK, pkt\<lparr>rb := r, has_rb := True\<rparr>) })
      else Some (NGX_RTC_OK, pkt))"

definition rtcp_body_sdes :: "bytes \<Rightarrow> nat \<Rightarrow> ngx_rtc_rtcp_pkt \<Rightarrow> (int \<times> ngx_rtc_rtcp_pkt) option" where
  "rtcp_body_sdes buf tot pkt =
     (if tot < 8 then Some (NGX_RTC_ERR_PARSE, pkt)
      else do { pkt \<leftarrow> ngx_rtc_rtcp_parse_sdes buf tot pkt; Some (NGX_RTC_OK, pkt) })"

definition rtcp_body_rtpfb :: "bytes \<Rightarrow> nat \<Rightarrow> ngx_rtc_rtcp_pkt \<Rightarrow> (int \<times> ngx_rtc_rtcp_pkt) option" where
  "rtcp_body_rtpfb buf tot pkt =
     (if tot < 12 then Some (NGX_RTC_ERR_PARSE, pkt)
      else do { ms \<leftarrow> rd32 buf 8;
                let pkt = pkt\<lparr>media_ssrc := ms\<rparr>
                in if fmt pkt = NGX_RTC_RTCP_FMT_NACK then
                     (let entries = (tot - 12) div 4;
                          keep = (if entries > NGX_RTC_RTCP_MAX_NACK_ENTRIES then NGX_RTC_RTCP_MAX_NACK_ENTRIES else entries)
                      in do { es \<leftarrow> nack_entries keep buf 12;
                              Some (NGX_RTC_OK, pkt\<lparr>nack_pid := buf_put 0 (map fst es) (nack_pid pkt),
                                nack_blp := buf_put 0 (map snd es) (nack_blp pkt), nack_count := word_of_nat keep\<rparr>) })
                   else if fmt pkt = NGX_RTC_RTCP_FMT_TWCC then
                     do { pkt \<leftarrow> ngx_rtc_rtcp_parse_twcc buf tot pkt; Some (NGX_RTC_OK, pkt) }
                   else Some (NGX_RTC_OK, pkt) })"

definition rtcp_body_psfb :: "bytes \<Rightarrow> nat \<Rightarrow> ngx_rtc_rtcp_pkt \<Rightarrow> (int \<times> ngx_rtc_rtcp_pkt) option" where
  "rtcp_body_psfb buf tot pkt =
     (if tot < 12 then Some (NGX_RTC_ERR_PARSE, pkt)
      else do { ms \<leftarrow> rd32 buf 8;
                let pkt = pkt\<lparr>media_ssrc := ms\<rparr>
                in if fmt pkt = NGX_RTC_RTCP_FMT_REMB then ngx_rtc_rtcp_parse_remb buf tot pkt
                   else Some (NGX_RTC_OK, pkt) })"

definition rtcp_body :: "bytes \<Rightarrow> nat \<Rightarrow> ngx_rtc_rtcp_pkt \<Rightarrow> (int \<times> ngx_rtc_rtcp_pkt) option" where
  "rtcp_body buf tot pkt =
     (if pkt_type pkt = NGX_RTC_RTCP_SR then rtcp_body_sr buf tot pkt
      else if pkt_type pkt = NGX_RTC_RTCP_RR then rtcp_body_rr buf tot pkt
      else if pkt_type pkt = NGX_RTC_RTCP_SDES then rtcp_body_sdes buf tot pkt
      else if pkt_type pkt = NGX_RTC_RTCP_RTPFB then rtcp_body_rtpfb buf tot pkt
      else if pkt_type pkt = NGX_RTC_RTCP_PSFB then rtcp_body_psfb buf tot pkt
      else Some (NGX_RTC_OK, pkt))"

text \<open>The result: return code, \<^verbatim>\<open>*pkt\<close> and \<^verbatim>\<open>*consumed\<close> afterwards.\<close>

definition ngx_rtc_rtcp_parse ::
  "bytes option \<Rightarrow> nat \<Rightarrow> ngx_rtc_rtcp_pkt option \<Rightarrow> nat option \<Rightarrow> (int \<times> ngx_rtc_rtcp_pkt option \<times> nat option) option" where
  "ngx_rtc_rtcp_parse bufp len pktp consumedp =
     (case (bufp, pktp, consumedp) of
        (Some buf, Some pkt, Some consumed) \<Rightarrow>
          if len < 4 then Some (NGX_RTC_ERR_NEED_MORE, pktp, consumedp)
          else do { b0 \<leftarrow> rd8 buf 0;
                    type \<leftarrow> rd8 buf 1;
                    words \<leftarrow> rd16 buf 2;
                    let ver = drop_bit 6 b0 AND 3;
                        pad = drop_bit 5 b0 AND 1;
                        fm = b0 AND 0x1f;
                        tot = (unat words + 1) * 4
                    in if tot > len then Some (NGX_RTC_ERR_NEED_MORE, pktp, consumedp)
                       else if ver \<noteq> 2 then Some (NGX_RTC_ERR_PARSE, pktp, consumedp)
                       else do { s \<leftarrow> rd32 buf 4;
                                 (r, pkt) \<leftarrow> rtcp_body buf tot
                                   (rtcp_pkt_zero\<lparr>version := ver, padding := pad, pkt_type := type, fmt := fm,
                                      length_words := words, total_len := word_of_nat tot, ssrc := s\<rparr>);
                                 Some (r, Some pkt, if r = NGX_RTC_OK then Some tot else consumedp) } }
      | _ \<Rightarrow> Some (NGX_RTC_ERR_INVALID, pktp, consumedp))"

text \<open>What a successful parse consumes.\<close>

lemma rtcp_parse_consumed:
  "ngx_rtc_rtcp_parse (Some buf) len (Some pkt0) (Some c0) = Some (r, pktp, consumedp) \<Longrightarrow> r = NGX_RTC_OK \<Longrightarrow>
   \<exists>pkt c. pktp = Some pkt \<and> consumedp = Some c \<and> 4 \<le> c \<and> c \<le> len"
  by (auto simp: ngx_rtc_rtcp_parse_def Let_def split: if_splits bind_splits)

section \<open>Walking a compound packet\<close>

text \<open>
  The callback maps packet and client state to its return code and the new state. The local
  \<^verbatim>\<open>pkt\<close> is uninitialised in the code and written by the parser before it is used.
\<close>

function rtcp_decode_loop ::
  "bytes \<Rightarrow> nat \<Rightarrow> nat \<Rightarrow> (ngx_rtc_rtcp_pkt \<Rightarrow> 's \<Rightarrow> int \<times> 's) \<Rightarrow> 's \<Rightarrow> (int \<times> 's) option" where
  "rtcp_decode_loop buf len off cb s =
     (if off < len then
        (case ngx_rtc_rtcp_parse (Some (drop off buf)) (len - off) (Some rtcp_pkt_zero) (Some 0) of
           None \<Rightarrow> None
         | Some (r, pktp, consumedp) \<Rightarrow>
             if r \<noteq> NGX_RTC_OK then Some (r, s)
             else (case cb (the pktp) s of (r, s) \<Rightarrow>
                     if r \<noteq> NGX_RTC_OK then Some (r, s)
                     else rtcp_decode_loop buf len (off + the consumedp) cb s))
      else Some (NGX_RTC_OK, s))"
  by pat_completeness auto
termination
  by (relation "measure (\<lambda>(buf, len, off, cb, s). len - off)") (auto dest: rtcp_parse_consumed)

declare rtcp_decode_loop.simps [simp del]

definition ngx_rtc_rtcp_decode ::
  "bytes option \<Rightarrow> nat \<Rightarrow> (ngx_rtc_rtcp_pkt \<Rightarrow> 's \<Rightarrow> int \<times> 's) option \<Rightarrow> 's \<Rightarrow> (int \<times> 's) option" where
  "ngx_rtc_rtcp_decode bufp len cbp s =
     (case (bufp, cbp) of
        (Some buf, Some cb) \<Rightarrow> rtcp_decode_loop buf len 0 cb s
      | _ \<Rightarrow> Some (NGX_RTC_ERR_INVALID, s))"

section \<open>Expanding a NACK\<close>

text \<open>
  One store \<^verbatim>\<open>seqs[out] = v; out++\<close> guarded by the capacity: \<open>None\<close> is the early return with
  \<^verbatim>\<open>TOO_SMALL\<close>. The loops return whether they ran to their end, the array and \<^verbatim>\<open>out\<close>.
\<close>

function nack_bits :: "u16 \<Rightarrow> u16 \<Rightarrow> nat \<Rightarrow> nat \<Rightarrow> u16 list \<Rightarrow> nat \<Rightarrow> bool \<times> u16 list \<times> nat" where
  "nack_bits pid blp cap j seqs out =
     (if j < 16 then
        (if blp AND push_bit j 1 = 0 then nack_bits pid blp cap (j + 1) seqs out
         else if out \<ge> cap then (False, seqs, out)
         else nack_bits pid blp cap (j + 1) (buf_put out [pid + word_of_nat j + 1] seqs) (out + 1))
      else (True, seqs, out))"
  by pat_completeness auto
termination by (relation "measure (\<lambda>(pid, blp, cap, j, seqs, out). 16 - j)") auto

declare nack_bits.simps [simp del]

function nack_loop :: "ngx_rtc_rtcp_pkt \<Rightarrow> nat \<Rightarrow> nat \<Rightarrow> u16 list \<Rightarrow> nat \<Rightarrow> bool \<times> u16 list \<times> nat" where
  "nack_loop pkt cap i seqs out =
     (if i < unat (nack_count pkt) then
        (let pid = nack_pid pkt ! i; blp = nack_blp pkt ! i in
         if out \<ge> cap then (False, seqs, out)
         else (case nack_bits pid blp cap 0 (buf_put out [pid] seqs) (out + 1) of
                 (fin, seqs, out) \<Rightarrow> if fin then nack_loop pkt cap (i + 1) seqs out else (False, seqs, out)))
      else (True, seqs, out))"
  by pat_completeness auto
termination by (relation "measure (\<lambda>(pkt, cap, i, seqs, out). unat (nack_count pkt) - i)") auto

declare nack_loop.simps [simp del]

definition ngx_rtc_rtcp_nack_expand ::
  "ngx_rtc_rtcp_pkt option \<Rightarrow> u16 list option \<Rightarrow> u16 \<Rightarrow> u16 option \<Rightarrow> int \<times> u16 list option \<times> u16 option" where
  "ngx_rtc_rtcp_nack_expand pktp seqsp cap countp =
     (case (pktp, seqsp, countp) of
        (Some pkt, Some seqs, Some count) \<Rightarrow>
          (case nack_loop pkt (unat cap) 0 seqs 0 of
             (fin, seqs, out) \<Rightarrow>
               (if fin then NGX_RTC_OK else NGX_RTC_ERR_TOO_SMALL, Some seqs, Some (word_of_nat out)))
      | _ \<Rightarrow> (NGX_RTC_ERR_INVALID, seqsp, countp))"

section \<open>Encoders\<close>

definition ngx_rtc_rtcp_encode_sr ::
  "(u64 \<times> u64) + u64 \<Rightarrow> ngx_rtc_rtcp_sr option \<Rightarrow> bytes option \<Rightarrow> nat \<Rightarrow> u32 option \<Rightarrow> int \<times> bytes option \<times> u32 option" where
  "ngx_rtc_rtcp_encode_sr clock srp bufp cap lenp =
     (case (srp, bufp, lenp) of
        (Some sr, Some buf, Some len) \<Rightarrow>
          (let rc = (case sr_rb sr of None \<Rightarrow> 0 | Some _ \<Rightarrow> 1);
               tot = 28 + unat rc * 24
           in if cap < tot then (NGX_RTC_ERR_TOO_SMALL, bufp, lenp)
              else (let n = (if sr_ntp sr = 0 then ngx_rtc_rtcp_ntp_now clock else sr_ntp sr);
                        buf = buf_put 0 (ngx_rtc_rtcp_wr_header NGX_RTC_RTCP_SR rc (word_of_nat tot)) buf;
                        buf = buf_put 4 (to_be32 (sr_ssrc sr)) buf;
                        buf = buf_put 8 (ngx_rtc_rtcp_wr_u64 n) buf;
                        buf = buf_put 16 (to_be32 (sr_rtp_ts sr)) buf;
                        buf = buf_put 20 (to_be32 (packet_count sr)) buf;
                        buf = buf_put 24 (to_be32 (octet_count sr)) buf;
                        buf = (case sr_rb sr of None \<Rightarrow> buf | Some r \<Rightarrow> buf_put 28 (ngx_rtc_rtcp_write_rb r) buf)
                    in (NGX_RTC_OK, Some buf, Some (word_of_nat tot))))
      | _ \<Rightarrow> (NGX_RTC_ERR_INVALID, bufp, lenp))"

text \<open>\<open>cname\<close> is the contents of the C string, whose length is what \<^verbatim>\<open>strlen\<close> returns.\<close>

definition ngx_rtc_rtcp_encode_sdes ::
  "u32 \<Rightarrow> bytes option \<Rightarrow> bytes option \<Rightarrow> nat \<Rightarrow> u32 option \<Rightarrow> int \<times> bytes option \<times> u32 option" where
  "ngx_rtc_rtcp_encode_sdes ss cnamep bufp cap lenp =
     (case (cnamep, bufp, lenp) of
        (Some cn, Some buf, Some len) \<Rightarrow>
          (let cname_len = length cn
           in if cname_len > 255 then (NGX_RTC_ERR_TOO_LARGE, bufp, lenp)
              else (let tot = 4 + 4 + 2 + cname_len + 1;
                        pad = (4 - tot mod 4) mod 4;
                        tot = tot + pad
                    in if cap < tot then (NGX_RTC_ERR_TOO_SMALL, bufp, lenp)
                       else (let buf = buf_put 0 (ngx_rtc_rtcp_wr_header NGX_RTC_RTCP_SDES 1 (word_of_nat tot)) buf;
                                 buf = buf_put 4 (to_be32 ss) buf;
                                 buf = buf_put 8 [1, word_of_nat cname_len] buf;
                                 buf = buf_put 10 cn buf;
                                 buf = buf_put (10 + cname_len) [0] buf;
                                 buf = buf_put (11 + cname_len) (replicate pad 0) buf
                             in (NGX_RTC_OK, Some buf, Some (word_of_nat tot)))))
      | _ \<Rightarrow> (NGX_RTC_ERR_INVALID, bufp, lenp))"

definition ngx_rtc_rtcp_encode_pli ::
  "u32 \<Rightarrow> u32 \<Rightarrow> bytes option \<Rightarrow> nat \<Rightarrow> u32 option \<Rightarrow> int \<times> bytes option \<times> u32 option" where
  "ngx_rtc_rtcp_encode_pli sender_ssrc med_ssrc bufp cap lenp =
     (case (bufp, lenp) of
        (Some buf, Some len) \<Rightarrow>
          if cap < 12 then (NGX_RTC_ERR_TOO_SMALL, bufp, lenp)
          else (let buf = buf_put 0 (ngx_rtc_rtcp_wr_header NGX_RTC_RTCP_PSFB NGX_RTC_RTCP_FMT_PLI 12) buf;
                    buf = buf_put 4 (to_be32 sender_ssrc) buf;
                    buf = buf_put 8 (to_be32 med_ssrc) buf
                in (NGX_RTC_OK, Some buf, Some 12))
      | _ \<Rightarrow> (NGX_RTC_ERR_INVALID, bufp, lenp))"

text \<open>\<open>pktp\<close> holds at least \<open>pkt_len\<close> octets.\<close>

definition ngx_rtc_rtcp_compound_append ::
  "bytes option \<Rightarrow> u32 \<Rightarrow> u32 option \<Rightarrow> bytes option \<Rightarrow> u32 \<Rightarrow> int \<times> bytes option \<times> u32 option" where
  "ngx_rtc_rtcp_compound_append compoundp cap lenp pktp pkt_len =
     (case (compoundp, lenp, pktp) of
        (Some compound, Some len, Some pkt) \<Rightarrow>
          if len > cap \<or> pkt_len > cap - len then (NGX_RTC_ERR_TOO_SMALL, compoundp, lenp)
          else (NGX_RTC_OK, Some (buf_put (unat len) (take (unat pkt_len) pkt) compound), Some (len + pkt_len))
      | _ \<Rightarrow> (NGX_RTC_ERR_INVALID, compoundp, lenp))"

section \<open>The status list of a transport-wide feedback\<close>

text \<open>The statuses a chunk stands for, \<open>True\<close> for a lost packet, read off the draft's chunk formats.\<close>

definition chunk_statuses :: "u16 \<Rightarrow> bool list" where
  "chunk_statuses c =
     (if \<not> bit c 15 then replicate (unat (c AND 0x1FFF)) (drop_bit 13 c AND 3 = 0)
      else if \<not> bit c 14 then map (\<lambda>k. drop_bit (13 - k) c AND 1 = 0) [0..<14]
      else map (\<lambda>k. drop_bit (12 - k * 2) c AND 3 = 0) [0..<7])"

definition be16_words :: "bytes \<Rightarrow> nat \<Rightarrow> nat \<Rightarrow> u16 list" where
  "be16_words buf p tot = map (\<lambda>k. be16 (buf ! (p + 2 * k)) (buf ! (p + 2 * k + 1))) [0..<(tot - p) div 2]"

definition twcc_tally :: "bool list \<Rightarrow> ngx_rtc_rtcp_pkt \<Rightarrow> ngx_rtc_rtcp_pkt" where
  "twcc_tally ls pkt =
     pkt\<lparr>twcc_lost := twcc_lost pkt + word_of_nat (length (filter (\<lambda>x. x) ls)),
         twcc_received := twcc_received pkt + word_of_nat (length (filter Not ls))\<rparr>"

lemma twcc_tally_simps [simp]:
  "twcc_tally [] pkt = pkt"
  "twcc_tally (l # ls) pkt = twcc_tally ls (twcc_count l 1 pkt)"
  by (simp_all add: twcc_tally_def twcc_count_def)

lemma twcc_tally_append: "twcc_tally (xs @ ys) pkt = twcc_tally ys (twcc_tally xs pkt)"
  by (simp add: twcc_tally_def)

lemma twcc_tally_replicate: "twcc_tally (replicate n l) pkt = twcc_count l n pkt"
  by (cases l) (simp_all add: twcc_tally_def twcc_count_def)

lemma take_map_upt_step:
  "s < n \<Longrightarrow> 0 < k \<Longrightarrow> take k (map f [s..<n]) = f s # take (k - 1) (map f [Suc s..<n])"
  by (simp add: upt_conv_Cons take_Cons')

lemma twcc_bits_tally:
  "parsed \<le> count \<Longrightarrow> twcc_bits c count s parsed pkt =
     (let l = take (count - parsed) (map (\<lambda>k. drop_bit (13 - k) c AND 1 = 0) [s..<14])
      in (parsed + length l, twcc_tally l pkt))"
proof (induction c count s parsed pkt rule: twcc_bits.induct)
  case (1 c count s parsed pkt)
  show ?case
  proof (cases "s < 14 \<and> parsed < count")
    case True
    then have "count - parsed = Suc (count - Suc parsed)" by linarith
    then show ?thesis using 1 True
      by (subst twcc_bits.simps) (simp add: Let_def take_map_upt_step)
  next
    case False
    then show ?thesis using 1(2) by (subst twcc_bits.simps) (auto simp: Let_def)
  qed
qed

lemma twcc_pairs_tally:
  "parsed \<le> count \<Longrightarrow> twcc_pairs c count s parsed pkt =
     (let l = take (count - parsed) (map (\<lambda>k. drop_bit (12 - k * 2) c AND 3 = 0) [s..<7])
      in (parsed + length l, twcc_tally l pkt))"
proof (induction c count s parsed pkt rule: twcc_pairs.induct)
  case (1 c count s parsed pkt)
  show ?case
  proof (cases "s < 7 \<and> parsed < count")
    case True
    then have "count - parsed = Suc (count - Suc parsed)" by linarith
    then show ?thesis using 1 True
      by (subst twcc_pairs.simps) (simp add: Let_def take_map_upt_step)
  next
    case False
    then show ?thesis using 1(2) by (subst twcc_pairs.simps) (auto simp: Let_def)
  qed
qed

lemma drop_15_bit: "drop_bit 15 (c :: u16) = 0 \<longleftrightarrow> \<not> bit c 15"
  using drop_bit_eq_zero_iff_not_bit_last [of c] by simp

lemma and_4000_bit: "(c :: u16) AND 0x4000 = 0 \<longleftrightarrow> \<not> bit c 14"
  using and_exp_eq_0_iff_not_bit [of c 14] by simp

lemma twcc_chunk_tally:
  assumes "parsed \<le> count"
  shows "twcc_chunk c count parsed pkt =
     (let l = take (count - parsed) (chunk_statuses c) in (parsed + length l, twcc_tally l pkt))"
  using assms
  by (auto simp: twcc_chunk_def chunk_statuses_def Let_def drop_15_bit and_4000_bit twcc_bits_tally
      twcc_pairs_tally twcc_tally_replicate min_def take_replicate simp del: take_map)

lemma be16_words_step:
  assumes "p + 2 \<le> tot"
  shows "be16_words buf p tot = be16 (buf ! p) (buf ! (p + 1)) # be16_words buf (p + 2) tot"
proof -
  have "(tot - p) div 2 = Suc ((tot - (p + 2)) div 2)" using assms by presburger
  then show ?thesis
    by (simp add: be16_words_def upt_conv_Cons map_Suc_upt [symmetric] comp_def del: upt_Suc)
qed

lemma be16_words_end: "\<not> p + 2 \<le> tot \<Longrightarrow> be16_words buf p tot = []"
  by (simp add: be16_words_def)

lemma twcc_loop_tally:
  assumes "tot \<le> length buf"
  shows "parsed \<le> count \<Longrightarrow> twcc_loop buf tot count p parsed pkt =
     Some (twcc_tally (take (count - parsed) (concat (map chunk_statuses (be16_words buf p tot)))) pkt)"
  using assms
proof (induction buf tot count p parsed pkt rule: twcc_loop.induct)
  case (1 buf tot count p parsed pkt)
  show ?case
  proof (cases "parsed < count \<and> p + 2 \<le> tot")
    case True
    define c where "c = be16 (buf ! p) (buf ! (p + 1))"
    define l where "l = take (count - parsed) (chunk_statuses c)"
    have len: "parsed + length l \<le> count" using 1(2) by (simp add: l_def)
    have ch: "twcc_chunk c count parsed pkt = (parsed + length l, twcc_tally l pkt)"
      using 1(2) by (simp add: twcc_chunk_tally l_def Let_def)
    have "twcc_loop buf tot count p parsed pkt = twcc_loop buf tot count (p + 2) (parsed + length l) (twcc_tally l pkt)"
      using True 1(3) ch by (subst twcc_loop.simps) (simp add: c_def)
    also have "\<dots> = Some (twcc_tally (take (count - (parsed + length l))
         (concat (map chunk_statuses (be16_words buf (p + 2) tot)))) (twcc_tally l pkt))"
      using True 1(3) ch len by (intro 1(1) [of c]) (auto simp: c_def)
    also have "twcc_tally (take (count - (parsed + length l))
         (concat (map chunk_statuses (be16_words buf (p + 2) tot)))) (twcc_tally l pkt)
       = twcc_tally (take (count - parsed) (chunk_statuses c @
           concat (map chunk_statuses (be16_words buf (p + 2) tot)))) pkt"
      by (simp only: twcc_tally_append [symmetric] take_append l_def length_take)
        (auto simp: min_def)
    also have "chunk_statuses c @ concat (map chunk_statuses (be16_words buf (p + 2) tot))
        = concat (map chunk_statuses (be16_words buf p tot))"
      using True by (simp only: be16_words_step c_def list.map concat.simps)
    finally show ?thesis .
  next
    case False
    then show ?thesis using 1(2) by (subst twcc_loop.simps) (auto simp: be16_words_end)
  qed
qed

text \<open>
  C38. Summarising a transport-wide congestion control feedback never reads outside the packet and
  counts exactly the statuses of the chunk list up to the announced packet count: the lost and the
  received packets are the zero and the non-zero symbols, a run is a two-bit symbol with a thirteen-bit
  length, a status vector holds fourteen one-bit or seven two-bit symbols. Lost and received together
  never exceed the announced count.
\<close>

theorem rtcp_twcc_exact:
  assumes "20 \<le> tot" "tot \<le> length buf" "twcc_lost pkt = 0" "twcc_received pkt = 0"
  defines "cnt \<equiv> be16 (buf ! 14) (buf ! 15)"
  defines "sts \<equiv> take (unat cnt) (concat (map chunk_statuses (be16_words buf 20 tot)))"
  shows "\<exists>pkt'. ngx_rtc_rtcp_parse_twcc buf tot pkt = Some pkt' \<and> twcc_pkt_count pkt' = cnt
    \<and> twcc_base_seq pkt' = be16 (buf ! 12) (buf ! 13)
    \<and> unat (twcc_lost pkt') = length (filter (\<lambda>x. x) sts)
    \<and> unat (twcc_received pkt') = length (filter Not sts)
    \<and> unat (twcc_lost pkt') + unat (twcc_received pkt') \<le> unat cnt"
proof -
  let ?p = "pkt\<lparr>twcc_base_seq := be16 (buf ! 12) (buf ! 13), twcc_pkt_count := cnt\<rparr>"
  have r: "ngx_rtc_rtcp_parse_twcc buf tot pkt = Some (twcc_tally sts ?p)"
    using assms(1,2) by (simp add: ngx_rtc_rtcp_parse_twcc_def twcc_loop_tally cnt_def sts_def)
  have len: "length sts \<le> unat cnt" by (simp add: sts_def)
  have sum: "length (filter (\<lambda>x. x) sts) + length (filter Not sts) = length sts"
    using sum_length_filter_compl [of "\<lambda>x. x" sts] by simp
  have small: "unat cnt < 65536" by (rule unat_u16_less)
  have "unat (word_of_nat (length (filter (\<lambda>x. x) sts)) :: u32) = length (filter (\<lambda>x. x) sts)"
    "unat (word_of_nat (length (filter Not sts)) :: u32) = length (filter Not sts)"
    using len sum small by (simp_all add: unat_of_nat)
  then show ?thesis using r assms(3,4) len sum by (simp add: twcc_tally_def)
qed

text \<open>A feedback for twelve packets: a run of three received, a two-bit vector, a run of two lost.\<close>

theorem rtcp_twcc_exact_witness:
  "\<exists>pkt'. ngx_rtc_rtcp_parse_twcc
      [143, 205, 0, 6, 0, 0, 0, 1, 0, 0, 0, 2, 0, 100, 0, 12, 0, 0, 0, 0, 0x20, 3, 0xD4, 0x15, 0, 2, 0, 0] 28 rtcp_pkt_zero = Some pkt'
    \<and> unat (twcc_lost pkt') = 4 \<and> unat (twcc_received pkt') = 8"
proof -
  let ?b = "[143, 205, 0, 6, 0, 0, 0, 1, 0, 0, 0, 2, 0, 100, 0, 12, 0, 0, 0, 0, 0x20, 3, 0xD4, 0x15, 0, 2, 0, 0] :: bytes"
  have z: "twcc_lost rtcp_pkt_zero = 0" "twcc_received rtcp_pkt_zero = 0" by (simp_all add: rtcp_pkt_zero_def)
  have "length (filter (\<lambda>x. x) (take (unat (be16 (?b ! 14) (?b ! 15))) (concat (map chunk_statuses (be16_words ?b 20 28))))) = 4"
    "length (filter Not (take (unat (be16 (?b ! 14) (?b ! 15))) (concat (map chunk_statuses (be16_words ?b 20 28))))) = 8"
    by code_simp+
  then show ?thesis
    using rtcp_twcc_exact [where buf = ?b and tot = 28 and pkt = rtcp_pkt_zero] z by fastforce
qed

section \<open>The list a NACK stands for\<close>

definition nack_seqs :: "u16 \<times> u16 \<Rightarrow> u16 list" where
  "nack_seqs e = fst e # map (\<lambda>j. fst e + word_of_nat j + 1) (filter (bit (snd e)) [0..<16])"

text \<open>The guarded stores of a list from position \<open>out\<close>: what fits is written.\<close>

definition put_seqs :: "nat \<Rightarrow> u16 list \<Rightarrow> u16 list \<Rightarrow> nat \<Rightarrow> bool \<times> u16 list \<times> nat" where
  "put_seqs cap l seqs out =
     (out + length l \<le> cap, buf_put out (take (cap - out) l) seqs, out + min (length l) (cap - out))"

lemma put_seqs_Nil: "out \<le> cap \<Longrightarrow> out \<le> length seqs \<Longrightarrow> put_seqs cap [] seqs out = (True, seqs, out)"
  by (simp add: put_seqs_def)

lemma put_seqs_full: "cap \<le> out \<Longrightarrow> out \<le> length seqs \<Longrightarrow> out \<le> cap \<Longrightarrow>
    put_seqs cap (x # l) seqs out = (False, seqs, out)"
  by (simp add: put_seqs_def)

lemma put_seqs_Cons: "out < cap \<Longrightarrow> out < length seqs \<Longrightarrow>
    put_seqs cap (x # l) seqs out = put_seqs cap l (buf_put out [x] seqs) (out + 1)"
  using buf_put_append [of out seqs "[x]" "take (cap - Suc out) l"]
  by (auto simp: put_seqs_def take_Cons' min_def)

lemma put_seqs_append:
  "out \<le> cap \<Longrightarrow> cap \<le> length seqs \<Longrightarrow> put_seqs cap (xs @ l) seqs out =
     (case put_seqs cap xs seqs out of (fin, seqs', out') \<Rightarrow>
        if fin then put_seqs cap l seqs' out' else (False, seqs', out'))"
proof (induction xs arbitrary: seqs out)
  case Nil
  then show ?case by (simp add: put_seqs_Nil)
next
  case (Cons x xs)
  then show ?case
    by (cases "out < cap") (simp_all add: put_seqs_Cons put_seqs_full)
qed

lemma nack_bits_put:
  "out \<le> cap \<Longrightarrow> cap \<le> length seqs \<Longrightarrow> nack_bits pid blp cap j seqs out =
     put_seqs cap (map (\<lambda>j. pid + word_of_nat j + 1) (filter (bit blp) [j..<16])) seqs out"
proof (induction pid blp cap j seqs out rule: nack_bits.induct)
  case (1 pid blp cap j seqs out)
  have b: "blp AND push_bit j 1 = 0 \<longleftrightarrow> \<not> bit blp j" by (simp add: bit_iff_and_push_bit_not_eq_0)
  show ?case
  proof (cases "j < 16")
    case True
    show ?thesis
    proof (cases "bit blp j")
      case False
      then show ?thesis using True 1 b by (subst nack_bits.simps) (simp add: upt_conv_Cons)
    next
      case set: True
      show ?thesis
      proof (cases "out < cap")
        case True
        then show ?thesis using \<open>j < 16\<close> set b 1
          by (subst nack_bits.simps) (simp add: upt_conv_Cons put_seqs_Cons)
      next
        case False
        then show ?thesis using \<open>j < 16\<close> set b 1
          by (subst nack_bits.simps) (simp add: upt_conv_Cons put_seqs_full)
      qed
    qed
  next
    case False
    then show ?thesis using 1 by (subst nack_bits.simps) (simp add: put_seqs_Nil)
  qed
qed

lemma nack_loop_put:
  assumes "unat (nack_count pkt) \<le> length (nack_pid pkt)" "unat (nack_count pkt) \<le> length (nack_blp pkt)"
  shows "out \<le> cap \<Longrightarrow> cap \<le> length seqs \<Longrightarrow> nack_loop pkt cap i seqs out =
     put_seqs cap (concat (map (\<lambda>k. nack_seqs (nack_pid pkt ! k, nack_blp pkt ! k)) [i..<unat (nack_count pkt)])) seqs out"
  using assms
proof (induction pkt cap i seqs out rule: nack_loop.induct)
  case (1 pkt cap i seqs out)
  show ?case
  proof (cases "i < unat (nack_count pkt)")
    case True
    let ?pid = "nack_pid pkt ! i" and ?blp = "nack_blp pkt ! i"
    let ?bits = "map (\<lambda>j. ?pid + word_of_nat j + 1) (filter (bit ?blp) [0..<16])"
    let ?rest = "concat (map (\<lambda>k. nack_seqs (nack_pid pkt ! k, nack_blp pkt ! k)) [Suc i..<unat (nack_count pkt)])"
    have l: "concat (map (\<lambda>k. nack_seqs (nack_pid pkt ! k, nack_blp pkt ! k)) [i..<unat (nack_count pkt)])
        = ?pid # ?bits @ ?rest"
      using True by (simp add: upt_conv_Cons nack_seqs_def)
    show ?thesis
    proof (cases "out < cap")
      case fits: True
      obtain fin seqs' out' where p: "put_seqs cap ?bits (buf_put out [?pid] seqs) (out + 1) = (fin, seqs', out')"
        by (cases "put_seqs cap ?bits (buf_put out [?pid] seqs) (out + 1)") auto
      have n: "nack_bits ?pid ?blp cap 0 (buf_put out [?pid] seqs) (out + 1) = (fin, seqs', out')"
        using fits 1(3) p by (subst nack_bits_put) auto
      have o': "out' \<le> cap" "length seqs' = length seqs"
        using p fits 1(3) by (auto simp: put_seqs_def)
      have ih: "nack_loop pkt cap (i + 1) seqs' out' = put_seqs cap ?rest seqs' out'" if fin
        using 1(1) [OF True refl refl _ n [symmetric] refl] that fits o' 1(3-5) by simp
      have "put_seqs cap (?pid # ?bits @ ?rest) seqs out = (if fin then put_seqs cap ?rest seqs' out' else (False, seqs', out'))"
        using fits 1(3) p by (simp add: put_seqs_Cons put_seqs_append del: filter.simps)
      then show ?thesis
        unfolding l using True fits n ih by (subst nack_loop.simps) (simp add: Let_def)
    next
      case False
      then show ?thesis unfolding l using True 1(2,3) by (subst nack_loop.simps) (simp add: put_seqs_full)
    qed
  next
    case False
    then show ?thesis using 1(2,3) by (subst nack_loop.simps) (simp add: put_seqs_Nil)
  qed
qed

text \<open>
  Expanding a NACK writes exactly the announced sequence numbers, each PID followed by
  \<open>PID + j + 1\<close> for every bit \<open>j\<close> set in its BLP in increasing order and modulo \<open>2 ^ 16\<close>, as far as they
  fit: the return code says whether all did, \<^verbatim>\<open>*count\<close> is the number written, the rest of the array is
  untouched and nothing is written past the capacity.
\<close>

theorem rtcp_nack_expand_exact:
  assumes "unat (nack_count pkt) \<le> length (nack_pid pkt)" "unat (nack_count pkt) \<le> length (nack_blp pkt)"
    and "unat cap \<le> length seqs"
  defines "l \<equiv> concat (map nack_seqs (take (unat (nack_count pkt)) (zip (nack_pid pkt) (nack_blp pkt))))"
  shows "\<exists>seqs' count'. ngx_rtc_rtcp_nack_expand (Some pkt) (Some seqs) cap (Some count) =
       (if length l \<le> unat cap then NGX_RTC_OK else NGX_RTC_ERR_TOO_SMALL, Some seqs', Some count')
     \<and> unat count' = min (length l) (unat cap)
     \<and> length seqs' = length seqs
     \<and> take (unat count') seqs' = take (unat cap) l
     \<and> drop (unat count') seqs' = drop (unat count') seqs"
proof -
  have z: "take (unat (nack_count pkt)) (zip (nack_pid pkt) (nack_blp pkt))
      = map (\<lambda>k. (nack_pid pkt ! k, nack_blp pkt ! k)) [0..<unat (nack_count pkt)]"
    using assms(1,2) by (intro nth_equalityI) auto
  have l: "concat (map (\<lambda>k. nack_seqs (nack_pid pkt ! k, nack_blp pkt ! k)) [0..<unat (nack_count pkt)]) = l"
    by (simp add: l_def z comp_def)
  have p: "nack_loop pkt (unat cap) 0 seqs 0 =
      (length l \<le> unat cap, buf_put 0 (take (unat cap) l) seqs, min (length l) (unat cap))"
    using nack_loop_put [OF assms(1,2), of 0 "unat cap" seqs 0] assms(3) l by (simp add: put_seqs_def)
  have c: "unat (word_of_nat (min (length l) (unat cap)) :: u16) = min (length l) (unat cap)"
    using unat_u16_less [of cap] by (simp add: unat_of_nat)
  obtain c where cw: "word_of_nat (min (length l) (unat cap)) = (c :: u16)" "unat c = min (length l) (unat cap)"
    using c by blast
  have k: "min (length l) (unat cap) \<le> length seqs" "length (take (unat cap) l) = min (length l) (unat cap)"
    using assms(3) by auto
  have "length (buf_put 0 (take (unat cap) l) seqs) = length seqs"
    "take (unat c) (buf_put 0 (take (unat cap) l) seqs) = take (unat cap) l"
    "drop (unat c) (buf_put 0 (take (unat cap) l) seqs) = drop (unat c) seqs"
    using k unfolding cw(2) by (simp_all add: buf_put_def take_all_iff min_def)
  then show ?thesis
    using cw by (simp add: ngx_rtc_rtcp_nack_expand_def p)
qed

theorem rtcp_nack_expand_exact_witness:
  "\<exists>seqs' count'. ngx_rtc_rtcp_nack_expand
      (Some (rtcp_pkt_zero\<lparr>nack_count := 2, nack_pid := [65535, 7], nack_blp := [0x8001, 2]\<rparr>))
      (Some (replicate 4 9)) 4 (Some 0) = (NGX_RTC_ERR_TOO_SMALL, Some seqs', Some count')
    \<and> seqs' = [65535, 0, 15, 7] \<and> unat count' = 4"
proof -
  let ?p = "rtcp_pkt_zero\<lparr>nack_count := 2, nack_pid := [65535, 7], nack_blp := [0x8001, 2]\<rparr>"
  have l: "concat (map nack_seqs (take (unat (nack_count ?p)) (zip (nack_pid ?p) (nack_blp ?p)))) = [65535, 0, 15, 7, 9]"
    by code_simp
  have "unat (nack_count ?p) \<le> length (nack_pid ?p)" "unat (nack_count ?p) \<le> length (nack_blp ?p)"
    by simp_all
  from rtcp_nack_expand_exact [OF this, of 4 "replicate 4 9" 0]
  show ?thesis unfolding l by fastforce
qed

section \<open>Memory safety and locality\<close>

text \<open>
  A parse looks only at the octets of its own packet: what follows them in the buffer does not
  matter. The loads, then the loops, then the branches.
\<close>

named_theorems rtcp_local "loads do not see what follows"

lemma nth_app [rtcp_local]: "i < length p \<Longrightarrow> (p @ r) ! i = p ! i"
  by (simp add: nth_append)

lemma rd8_app [rtcp_local]: "i < length p \<Longrightarrow> rd8 (p @ r) i = Some (p ! i)"
  by (simp add: nth_append)

lemma rd16_app [rtcp_local]: "i + 2 \<le> length p \<Longrightarrow> rd16 (p @ r) i = Some (be16 (p ! i) (p ! (i + 1)))"
  by (simp add: nth_append)

lemma rd24_app [rtcp_local]: "i + 3 \<le> length p \<Longrightarrow> rd24 (p @ r) i = Some (be24 (p ! i) (p ! (i + 1)) (p ! (i + 2)))"
  by (simp add: nth_append)

lemma rd32_app [rtcp_local]: "i + 4 \<le> length p \<Longrightarrow>
    rd32 (p @ r) i = Some (be32 (p ! i) (p ! (i + 1)) (p ! (i + 2)) (p ! (i + 3)))"
  by (simp add: nth_append)

lemma rdn_app [rtcp_local]: "i + n \<le> length p \<Longrightarrow> rdn (p @ r) i n = Some (buf_get i n p)"
  by (simp add: buf_get_def)

lemma rd64_app [rtcp_local]: "i + 8 \<le> length p \<Longrightarrow> ngx_rtc_rtcp_rd_u64 (p @ r) i = ngx_rtc_rtcp_rd_u64 p i"
  by (simp add: ngx_rtc_rtcp_rd_u64_def nth_append)

lemma read_rb_app [rtcp_local]: "i + 24 \<le> length p \<Longrightarrow> ngx_rtc_rtcp_read_rb (p @ r) i = ngx_rtc_rtcp_read_rb p i"
  by (simp add: ngx_rtc_rtcp_read_rb_def rtcp_local)

lemma rd64_total: "i + 8 \<le> length p \<Longrightarrow> \<exists>x. ngx_rtc_rtcp_rd_u64 p i = Some x"
  by (simp add: ngx_rtc_rtcp_rd_u64_def)

lemma read_rb_total: "i + 24 \<le> length p \<Longrightarrow> \<exists>x. ngx_rtc_rtcp_read_rb p i = Some x"
  by (simp add: ngx_rtc_rtcp_read_rb_def)

lemma sdes_items_unfold:
  assumes "tot \<le> length p"
  shows "sdes_items p tot off pkt =
    (if tot < off + 1 then Some (Inr off)
     else if p ! off = 0 then Some (Inr (off + 1))
     else if tot < off + 2 then Some (Inl pkt)
     else if tot < off + 2 + unat (p ! (off + 1)) then Some (Inl pkt)
     else if p ! off = 1 then
       Some (Inl (pkt\<lparr>cname := buf_put 0 (buf_get (off + 2) (unat (p ! (off + 1))) p @ [0]) (cname pkt)\<rparr>))
     else sdes_items p tot (off + 2 + unat (p ! (off + 1))) pkt)"
proof -
  have "unat (p ! Suc off) < 256" using unsigned_less [of "p ! Suc off", where ?'a = nat] by simp
  then show ?thesis using assms
    by (subst sdes_items.simps) (simp add: Let_def not_le)
qed

lemma sdes_items_app [rtcp_local]:
  "tot \<le> length p \<Longrightarrow> sdes_items (p @ r) tot off pkt = sdes_items p tot off pkt"
proof (induction "tot - off" arbitrary: off rule: less_induct)
  case less
  let ?n = "off + 2 + unat (p ! (off + 1))"
  have ih: "sdes_items (p @ r) tot ?n pkt = sdes_items p tot ?n pkt" if "off < tot"
    using that less by simp
  have a: "tot \<le> length (p @ r)" using less by simp
  have g: "buf_get (off + 2) k (p @ r) = buf_get (off + 2) k p" if "off + 2 + k \<le> tot" for k
    using that less(2) by (simp add: buf_get_def)
  show ?case
  proof (cases "off + 1 < tot")
    case True
    then have "(p @ r) ! off = p ! off" "(p @ r) ! (off + 1) = p ! (off + 1)"
      using less(2) by (simp_all add: nth_app)
    then show ?thesis
      unfolding sdes_items_unfold [OF a, of off] sdes_items_unfold [OF less(2), of off]
      using True ih g by (simp add: not_less)
  next
    case False
    then show ?thesis
      unfolding sdes_items_unfold [OF a, of off] sdes_items_unfold [OF less(2), of off]
      using less(2) by (simp add: nth_append)
  qed
qed

lemma sdes_chunks_app [rtcp_local]:
  "tot \<le> length p \<Longrightarrow> sdes_chunks n (p @ r) tot off pkt = sdes_chunks n p tot off pkt"
  by (induction n arbitrary: off pkt) (simp_all add: rtcp_local cong: option.case_cong)

lemma twcc_loop_app [rtcp_local]:
  "tot \<le> length p \<Longrightarrow> parsed \<le> count \<Longrightarrow> twcc_loop (p @ r) tot count i parsed pkt = twcc_loop p tot count i parsed pkt"
proof -
  assume tot: "tot \<le> length p" and "parsed \<le> count"
  have "be16_words (p @ r) i tot = be16_words p i tot"
    using tot by (auto simp: be16_words_def nth_append)
  then show ?thesis using tot \<open>parsed \<le> count\<close> by (simp add: twcc_loop_tally)
qed

lemma rd32_list_app [rtcp_local]: "i + 4 * n \<le> length p \<Longrightarrow> rd32_list n (p @ r) i = rd32_list n p i"
  by (induction n arbitrary: i) (simp_all add: rtcp_local)

lemma nack_entries_app [rtcp_local]: "i + 4 * n \<le> length p \<Longrightarrow> nack_entries n (p @ r) i = nack_entries n p i"
  by (induction n arbitrary: i) (simp_all add: rtcp_local)

lemma rd32_list_total: "i + 4 * n \<le> length p \<Longrightarrow> \<exists>xs. rd32_list n p i = Some xs \<and> length xs = n"
proof (induction n arbitrary: i)
  case (Suc n)
  have "i + 4 + 4 * n \<le> length p" using Suc.prems by simp
  then obtain xs where "rd32_list n p (i + 4) = Some xs" "length xs = n" using Suc.IH by blast
  then show ?case using Suc.prems by simp
qed simp

lemma nack_entries_total: "i + 4 * n \<le> length p \<Longrightarrow> \<exists>xs. nack_entries n p i = Some xs \<and> length xs = n"
proof (induction n arbitrary: i)
  case (Suc n)
  have "i + 4 + 4 * n \<le> length p" using Suc.prems by simp
  then obtain xs where "nack_entries n p (i + 4) = Some xs" "length xs = n" using Suc.IH by blast
  then show ?case using Suc.prems by simp
qed simp

text \<open>What every parsed packet satisfies: the arrays keep their sizes, the counts stay within them.\<close>

definition rtcp_pkt_wf :: "ngx_rtc_rtcp_pkt \<Rightarrow> bool" where
  "rtcp_pkt_wf pkt \<longleftrightarrow>
     length (cname pkt) = NGX_RTC_RTCP_MAX_CNAME \<and> 0 \<in> set (cname pkt)
   \<and> length (nack_pid pkt) = NGX_RTC_RTCP_MAX_NACK_ENTRIES \<and> length (nack_blp pkt) = NGX_RTC_RTCP_MAX_NACK_ENTRIES
   \<and> unat (nack_count pkt) \<le> NGX_RTC_RTCP_MAX_NACK_ENTRIES
   \<and> length (remb_ssrcs pkt) = NGX_RTC_RTCP_MAX_REMB_SSRCS \<and> unat (remb_ssrc_count pkt) \<le> NGX_RTC_RTCP_MAX_REMB_SSRCS
   \<and> unat (twcc_lost pkt) + unat (twcc_received pkt) \<le> unat (twcc_pkt_count pkt)"

lemma buf_put_cname:
  "length t < NGX_RTC_RTCP_MAX_CNAME \<Longrightarrow> length c = NGX_RTC_RTCP_MAX_CNAME \<Longrightarrow>
   length (buf_put 0 (t @ [0]) c) = NGX_RTC_RTCP_MAX_CNAME \<and> 0 \<in> set (buf_put 0 (t @ [0 :: u8]) c)"
  by (simp add: buf_put_def)

lemma sdes_items_total:
  "tot \<le> length p \<Longrightarrow> rtcp_pkt_wf pkt \<Longrightarrow>
   \<exists>x. sdes_items p tot off pkt = Some x \<and> (case x of Inl pkt' \<Rightarrow> rtcp_pkt_wf pkt' \<and> fmt pkt' = fmt pkt | Inr off' \<Rightarrow> off' \<le> max off tot)"
proof (induction "tot - off" arbitrary: off rule: less_induct)
  case less
  let ?n = "off + 2 + unat (p ! (off + 1))"
  have ih: "\<exists>x. sdes_items p tot ?n pkt = Some x \<and>
      (case x of Inl pkt' \<Rightarrow> rtcp_pkt_wf pkt' \<and> fmt pkt' = fmt pkt | Inr off' \<Rightarrow> off' \<le> max ?n tot)" if "off < tot"
    using that by (intro less(1)) (use less in simp_all)
  have c: "rtcp_pkt_wf (pkt\<lparr>cname := buf_put 0 (buf_get i n p @ [0]) (cname pkt)\<rparr>)"
    if "i + n \<le> length p" "n < 256" for i n
    using that less(3) buf_put_cname [of "buf_get i n p" "cname pkt"] by (simp add: rtcp_pkt_wf_def)
  have "unat (p ! (off + 1)) < 256" using unsigned_less [of "p ! (off + 1)", where ?'a = nat] by simp
  then have c': "rtcp_pkt_wf (pkt\<lparr>cname := buf_put 0 (buf_get (off + 2) (unat (p ! (off + 1))) p @ [0]) (cname pkt)\<rparr>)"
    if "?n \<le> tot"
    using that less(2) by (intro c) simp_all
  show ?case
  proof (cases "off + 1 \<le> tot \<and> p ! off \<noteq> 0 \<and> p ! off \<noteq> 1 \<and> ?n \<le> tot")
    case True
    then obtain x where "sdes_items p tot ?n pkt = Some x"
      "case x of Inl pkt' \<Rightarrow> rtcp_pkt_wf pkt' \<and> fmt pkt' = fmt pkt | Inr off' \<Rightarrow> off' \<le> max ?n tot"
      using ih by auto
    then show ?thesis using True unfolding sdes_items_unfold [OF less(2), of off]
      by (auto simp: not_less split: sum.splits)
  next
    case False
    then show ?thesis using less(3) c' unfolding sdes_items_unfold [OF less(2), of off]
      by (cases "off + 1 \<le> tot"; cases "?n \<le> tot") (auto simp: not_less)
  qed
qed

lemma sdes_chunks_total:
  "tot \<le> length p \<Longrightarrow> rtcp_pkt_wf pkt \<Longrightarrow> \<exists>pkt'. sdes_chunks n p tot off pkt = Some pkt' \<and> rtcp_pkt_wf pkt'"
proof (induction n arbitrary: off)
  case (Suc n)
  obtain x where "sdes_items p tot (off + 4) pkt = Some x"
    "case x of Inl pkt' \<Rightarrow> rtcp_pkt_wf pkt' \<and> fmt pkt' = fmt pkt | Inr off' \<Rightarrow> off' \<le> max (off + 4) tot"
    using sdes_items_total [OF Suc.prems] by blast
  then show ?case using Suc by (cases x) auto
qed simp

lemma twcc_tally_sum:
  assumes "length ls < 65536" "twcc_lost pkt = 0" "twcc_received pkt = 0"
  shows "unat (twcc_lost (twcc_tally ls pkt)) + unat (twcc_received (twcc_tally ls pkt)) = length ls"
proof -
  have sum: "length (filter (\<lambda>x. x) ls) + length (filter Not ls) = length ls"
    using sum_length_filter_compl [of "\<lambda>x. x" ls] by simp
  then show ?thesis using assms by (simp add: twcc_tally_def unat_of_nat)
qed

lemma parse_twcc_total:
  assumes "tot \<le> length p" "rtcp_pkt_wf pkt" "twcc_lost pkt = 0" "twcc_received pkt = 0"
  shows "\<exists>pkt'. ngx_rtc_rtcp_parse_twcc p tot pkt = Some pkt' \<and> rtcp_pkt_wf pkt'"
proof (cases "tot < 20")
  case True
  then show ?thesis using assms by (simp add: ngx_rtc_rtcp_parse_twcc_def)
next
  case False
  define cnt where "cnt = be16 (p ! 14) (p ! 15)"
  define ls where "ls = take (unat cnt) (concat (map chunk_statuses (be16_words p 20 tot)))"
  let ?p = "pkt\<lparr>twcc_base_seq := be16 (p ! 12) (p ! 13), twcc_pkt_count := cnt\<rparr>"
  have r: "ngx_rtc_rtcp_parse_twcc p tot pkt = Some (twcc_tally ls ?p)"
    using assms(1) False by (simp add: ngx_rtc_rtcp_parse_twcc_def twcc_loop_tally cnt_def ls_def)
  have len: "length ls \<le> unat cnt" by (simp add: ls_def)
  then have "unat (twcc_lost (twcc_tally ls ?p)) + unat (twcc_received (twcc_tally ls ?p)) = length ls"
    using assms(3,4) unat_u16_less [of cnt] by (intro twcc_tally_sum) simp_all
  moreover have "twcc_pkt_count (twcc_tally ls ?p) = cnt" by (simp add: twcc_tally_def)
  ultimately have "rtcp_pkt_wf (twcc_tally ls ?p)"
    using assms(2) len by (auto simp: rtcp_pkt_wf_def twcc_tally_def)
  then show ?thesis using r by blast
qed

lemma parse_twcc_app [rtcp_local]:
  assumes "tot \<le> length p"
  shows "ngx_rtc_rtcp_parse_twcc (p @ r) tot pkt = ngx_rtc_rtcp_parse_twcc p tot pkt"
  using assms by (simp add: ngx_rtc_rtcp_parse_twcc_def rtcp_local)

lemma buf_get_app [rtcp_local]: "i + n \<le> length p \<Longrightarrow> buf_get i n (p @ r) = buf_get i n p"
  by (simp add: buf_get_def)

lemma remb_list_app [rtcp_local]:
  "fci + 12 \<le> length p \<Longrightarrow> remb_list (p @ r) fci n b pkt = remb_list p fci n b pkt"
  by (simp add: remb_list_def rtcp_local Let_def)

lemma parse_remb_app [rtcp_local]:
  assumes "tot \<le> length p"
  shows "ngx_rtc_rtcp_parse_remb (p @ r) tot pkt = ngx_rtc_rtcp_parse_remb p tot pkt"
  using assms by (simp add: ngx_rtc_rtcp_parse_remb_def rtcp_local Let_def not_less)

lemma remb_list_total:
  assumes "fci + 12 \<le> length p" "rtcp_pkt_wf pkt"
  shows "\<exists>r pkt'. remb_list p fci n b pkt = Some (r, pkt') \<and> rtcp_pkt_wf pkt'"
proof (cases "fci < 8 + n * 4")
  case True
  then show ?thesis using assms by (simp add: remb_list_def)
next
  case False
  define keep where "keep = (if n > NGX_RTC_RTCP_MAX_REMB_SSRCS then NGX_RTC_RTCP_MAX_REMB_SSRCS else n)"
  have k: "keep \<le> n" "keep \<le> 32" by (auto simp: keep_def)
  have "20 + 4 * keep \<le> length p" using False assms(1) k by simp
  then obtain xs where xs: "rd32_list keep p 20 = Some xs" "length xs = keep"
    using rd32_list_total by blast
  have "unat (word_of_nat keep :: u16) = keep" using k by (simp add: unat_of_nat)
  then have "rtcp_pkt_wf (remb_store keep b xs pkt)"
    using assms(2) k xs by (simp add: rtcp_pkt_wf_def remb_store_def Let_def)
  then show ?thesis using False xs by (simp add: remb_list_def keep_def [symmetric])
qed

lemma parse_remb_total:
  assumes "tot \<le> length p" "rtcp_pkt_wf pkt"
  shows "\<exists>r pkt'. ngx_rtc_rtcp_parse_remb p tot pkt = Some (r, pkt') \<and> rtcp_pkt_wf pkt'"
  using assms by (simp add: ngx_rtc_rtcp_parse_remb_def Let_def remb_list_total)

lemma rtcp_body_app:
  assumes "tot \<le> length p"
  shows "rtcp_body (p @ r) tot pkt = rtcp_body p tot pkt"
proof -
  have "rtcp_body_sr (p @ r) tot pkt = rtcp_body_sr p tot pkt"
    using assms by (auto simp: rtcp_body_sr_def rtcp_local Let_def not_less intro!: Option.bind_cong)
  moreover have "rtcp_body_rr (p @ r) tot pkt = rtcp_body_rr p tot pkt"
    using assms by (auto simp: rtcp_body_rr_def rtcp_local)
  moreover have "rtcp_body_sdes (p @ r) tot pkt = rtcp_body_sdes p tot pkt"
    using assms by (simp add: rtcp_body_sdes_def ngx_rtc_rtcp_parse_sdes_def rtcp_local)
  moreover have "rtcp_body_rtpfb (p @ r) tot pkt = rtcp_body_rtpfb p tot pkt"
  proof -
    have "12 + 4 * ((tot - 12) div 4) \<le> length p" if "12 \<le> tot" using that assms by presburger
    then have "nack_entries k (p @ r) 12 = nack_entries k p 12" if "12 \<le> tot" "k \<le> (tot - 12) div 4" for k
      using that by (intro nack_entries_app) auto
    then show ?thesis using assms by (simp add: rtcp_body_rtpfb_def rtcp_local Let_def not_less)
  qed
  moreover have "rtcp_body_psfb (p @ r) tot pkt = rtcp_body_psfb p tot pkt"
    using assms by (simp add: rtcp_body_psfb_def rtcp_local Let_def not_less)
  ultimately show ?thesis by (simp add: rtcp_body_def)
qed

lemma rtcp_body_total:
  assumes "tot \<le> length p" "rtcp_pkt_wf pkt" "twcc_lost pkt = 0" "twcc_received pkt = 0"
  shows "\<exists>r pkt'. rtcp_body p tot pkt = Some (r, pkt') \<and> rtcp_pkt_wf pkt'"
proof -
  have upd: "rtcp_pkt_wf (pkt\<lparr>media_ssrc := m\<rparr>)" "rtcp_pkt_wf (pkt\<lparr>rb := b, has_rb := h\<rparr>)"
    "rtcp_pkt_wf (pkt\<lparr>ntp := n, rtp_ts := ts, sender_packet_count := pc, sender_octet_count := oc\<rparr>)"
    "rtcp_pkt_wf (pkt\<lparr>ntp := n, rtp_ts := ts, sender_packet_count := pc, sender_octet_count := oc, rb := b, has_rb := h\<rparr>)"
    for m b h n ts pc oc
    using assms(2) by (simp_all add: rtcp_pkt_wf_def)
  have "\<exists>r pkt'. rtcp_body_sr p tot pkt = Some (r, pkt') \<and> rtcp_pkt_wf pkt'"
  proof (cases "28 \<le> tot")
    case True
    then obtain n where "ngx_rtc_rtcp_rd_u64 p 8 = Some n" using rd64_total [of 8 p] assms(1) by auto
    moreover obtain b where "52 \<le> tot \<Longrightarrow> ngx_rtc_rtcp_read_rb p 28 = Some b"
      using read_rb_total [of 28 p] assms(1) by fastforce
    ultimately show ?thesis using True assms(1) upd by (auto simp: rtcp_body_sr_def not_less Let_def)
  next
    case False
    then show ?thesis using assms(2) by (simp add: rtcp_body_sr_def)
  qed
  moreover have "\<exists>r pkt'. rtcp_body_rr p tot pkt = Some (r, pkt') \<and> rtcp_pkt_wf pkt'"
  proof -
    obtain b where "32 \<le> tot \<Longrightarrow> ngx_rtc_rtcp_read_rb p 8 = Some b"
      using read_rb_total [of 8 p] assms(1) by fastforce
    then show ?thesis using assms(2) upd by (auto simp: rtcp_body_rr_def not_less)
  qed
  moreover have "\<exists>r pkt'. rtcp_body_sdes p tot pkt = Some (r, pkt') \<and> rtcp_pkt_wf pkt'"
  proof -
    obtain pkt' where "sdes_chunks (unat (fmt pkt)) p tot 4 pkt = Some pkt'" "rtcp_pkt_wf pkt'"
      using sdes_chunks_total [OF assms(1,2)] by blast
    then show ?thesis using assms(2) by (simp add: rtcp_body_sdes_def ngx_rtc_rtcp_parse_sdes_def)
  qed
  moreover have "\<exists>r pkt'. rtcp_body_rtpfb p tot pkt = Some (r, pkt') \<and> rtcp_pkt_wf pkt'"
  proof (cases "12 \<le> tot")
    case True
    define m where "m = be32 (p ! 8) (p ! 9) (p ! 10) (p ! 11)"
    define keep where "keep = (if (tot - 12) div 4 > NGX_RTC_RTCP_MAX_NACK_ENTRIES then NGX_RTC_RTCP_MAX_NACK_ENTRIES
      else (tot - 12) div 4)"
    have k: "keep \<le> 128" "12 + 4 * keep \<le> length p"
      using True assms(1) by (auto simp: keep_def)
    then obtain es where es: "nack_entries keep p 12 = Some es" "length es = keep"
      using nack_entries_total by blast
    have "unat (word_of_nat keep :: u16) = keep" using k by (simp add: unat_of_nat)
    then have wf: "rtcp_pkt_wf (pkt\<lparr>media_ssrc := m, nack_pid := buf_put 0 (map fst es) (nack_pid pkt),
        nack_blp := buf_put 0 (map snd es) (nack_blp pkt), nack_count := word_of_nat keep\<rparr>)"
      using assms(2) es k by (simp add: rtcp_pkt_wf_def)
    obtain pkt' where "ngx_rtc_rtcp_parse_twcc p tot (pkt\<lparr>media_ssrc := m\<rparr>) = Some pkt'" "rtcp_pkt_wf pkt'"
      using parse_twcc_total [OF assms(1) upd(1) [of m]] assms(3,4) by auto
    then show ?thesis using True assms(1) es wf upd
      by (simp add: rtcp_body_rtpfb_def Let_def not_less m_def [symmetric] keep_def [symmetric])
  next
    case False
    then show ?thesis using assms(2) by (simp add: rtcp_body_rtpfb_def)
  qed
  moreover have "\<exists>r pkt'. rtcp_body_psfb p tot pkt = Some (r, pkt') \<and> rtcp_pkt_wf pkt'"
  proof (cases "12 \<le> tot")
    case True
    define m where "m = be32 (p ! 8) (p ! 9) (p ! 10) (p ! 11)"
    obtain r pkt' where "ngx_rtc_rtcp_parse_remb p tot (pkt\<lparr>media_ssrc := m\<rparr>) = Some (r, pkt')" "rtcp_pkt_wf pkt'"
      using parse_remb_total [OF assms(1) upd(1) [of m]] by blast
    then show ?thesis using True assms(1) upd
      by (simp add: rtcp_body_psfb_def Let_def not_less m_def [symmetric])
  next
    case False
    then show ?thesis using assms(2) by (simp add: rtcp_body_psfb_def)
  qed
  ultimately show ?thesis using assms(2) by (simp add: rtcp_body_def)
qed

section \<open>Parsing is safe\<close>

definition rtcp_total :: "bytes \<Rightarrow> nat" where
  "rtcp_total buf = (unat (be16 (buf ! 2) (buf ! 3)) + 1) * 4"

definition rtcp_start :: "bytes \<Rightarrow> ngx_rtc_rtcp_pkt" where
  "rtcp_start buf = rtcp_pkt_zero\<lparr>version := drop_bit 6 (buf ! 0) AND 3, padding := drop_bit 5 (buf ! 0) AND 1,
     pkt_type := buf ! 1, fmt := buf ! 0 AND 0x1f, length_words := be16 (buf ! 2) (buf ! 3),
     total_len := word_of_nat (rtcp_total buf), ssrc := be32 (buf ! 4) (buf ! 5) (buf ! 6) (buf ! 7)\<rparr>"

lemma rtcp_total_bounds: "4 \<le> rtcp_total buf" "rtcp_total buf \<le> 262144"
  using unat_u16_less [of "be16 (buf ! 2) (buf ! 3)"] by (simp_all add: rtcp_total_def)

lemma rtcp_start_wf: "rtcp_pkt_wf (rtcp_start buf)" "twcc_lost (rtcp_start buf) = 0" "twcc_received (rtcp_start buf) = 0"
  by (simp_all add: rtcp_start_def rtcp_pkt_wf_def rtcp_pkt_zero_def)

lemma rtcp_parse_unfold:
  assumes "4 \<le> length buf" "4 \<le> len"
  shows "ngx_rtc_rtcp_parse (Some buf) len (Some pkt) (Some c) =
    (if rtcp_total buf > len then Some (NGX_RTC_ERR_NEED_MORE, Some pkt, Some c)
     else if drop_bit 6 (buf ! 0) AND 3 \<noteq> 2 then Some (NGX_RTC_ERR_PARSE, Some pkt, Some c)
     else if length buf < 8 then None
     else (case rtcp_body buf (rtcp_total buf) (rtcp_start buf) of
             None \<Rightarrow> None
           | Some (r, pkt') \<Rightarrow> Some (r, Some pkt', if r = NGX_RTC_OK then Some (rtcp_total buf) else Some c)))"
proof -
  have h: "rd8 buf 0 = Some (buf ! 0)" "rd8 buf 1 = Some (buf ! 1)" "rd16 buf 2 = Some (be16 (buf ! 2) (buf ! 3))"
    using assms by (auto simp: rd8_def rd16_def numeral_3_eq_3 numeral_2_eq_2)
  have s: "rd32 buf 4 = (if length buf < 8 then None else Some (be32 (buf ! 4) (buf ! 5) (buf ! 6) (buf ! 7)))"
    by (auto simp: rd32_def rd8_def)
  show ?thesis using assms
    by (simp add: ngx_rtc_rtcp_parse_def rtcp_total_def rtcp_start_def Let_def h s Option.bind_def
        split: option.splits prod.splits)
qed

lemma rtcp_parse_total:
  assumes "len \<le> length buf" "8 \<le> length buf"
  shows "\<exists>r pkt' c'. ngx_rtc_rtcp_parse (Some buf) len (Some pkt) (Some c) = Some (r, Some pkt', Some c')
    \<and> (r = NGX_RTC_OK \<longrightarrow> rtcp_pkt_wf pkt' \<and> c' = rtcp_total buf \<and> c' \<le> len)"
proof (cases "4 \<le> len \<and> rtcp_total buf \<le> len")
  case True
  obtain r pkt' where "rtcp_body buf (rtcp_total buf) (rtcp_start buf) = Some (r, pkt')" "rtcp_pkt_wf pkt'"
    using rtcp_body_total [of "rtcp_total buf" buf "rtcp_start buf"] rtcp_start_wf assms True by auto
  then show ?thesis using True assms by (subst rtcp_parse_unfold) auto
next
  case False
  show ?thesis
  proof (cases "4 \<le> len")
    case True
    then show ?thesis using assms False by (subst rtcp_parse_unfold) auto
  next
    case False
    then show ?thesis by (simp add: ngx_rtc_rtcp_parse_def)
  qed
qed

text \<open>
  Parsing terminates and stays inside the received data on every datagram of eight octets or more;
  below that the only load outside the buffer is the one of the sender's SSRC, made exactly when a
  version-2 header announcing an empty body is all there is. A packet that parses has its arrays filled
  within their bounds and consumes a whole number of words, at least one and at most the data given.
\<close>

theorem rtcp_parse_safe:
  assumes "length buf = len"
  shows "(ngx_rtc_rtcp_parse (Some buf) len (Some pkt) (Some c) = None \<longleftrightarrow>
      4 \<le> len \<and> len < 8 \<and> drop_bit 6 (buf ! 0) AND 3 = 2 \<and> be16 (buf ! 2) (buf ! 3) = 0)
    \<and> (\<forall>pkt' c'. ngx_rtc_rtcp_parse (Some buf) len (Some pkt) (Some c) = Some (NGX_RTC_OK, Some pkt', Some c') \<longrightarrow>
         rtcp_pkt_wf pkt' \<and> 4 \<le> c' \<and> c' \<le> len \<and> c' mod 4 = 0)"
proof (cases "8 \<le> len")
  case True
  have "4 \<le> rtcp_total buf" "rtcp_total buf mod 4 = 0" by (simp_all add: rtcp_total_def)
  then show ?thesis using rtcp_parse_total [of len buf pkt c] True assms by auto
next
  case False
  have t: "rtcp_total buf \<le> len \<longleftrightarrow> be16 (buf ! 2) (buf ! 3) = 0" if "4 \<le> len"
  proof -
    have "rtcp_total buf \<le> len \<longleftrightarrow> unat (be16 (buf ! 2) (buf ! 3)) = 0"
      using that False by (auto simp: rtcp_total_def)
    then show ?thesis by (simp only: unat_eq_0)
  qed
  show ?thesis
  proof (cases "4 \<le> len")
    case True
    then show ?thesis using False assms t
      by (subst (1 2) rtcp_parse_unfold) (auto simp: not_less)
  next
    case False
    then show ?thesis by (simp add: ngx_rtc_rtcp_parse_def)
  qed
qed

text \<open>The shortest header, alone in its datagram, makes the parser read four octets too far.\<close>

theorem rtcp_parse_safe_witness:
  "ngx_rtc_rtcp_parse (Some [0x80, 203, 0, 0]) 4 (Some rtcp_pkt_zero) (Some 0) = None"
  using rtcp_parse_safe [of "[0x80, 203, 0, 0]" 4 rtcp_pkt_zero 0] by (simp add: be16_def)

section \<open>Compound packets\<close>

lemma rtcp_parse_app:
  assumes "ngx_rtc_rtcp_parse (Some p) (length p) (Some z) (Some c) = Some (NGX_RTC_OK, Some k, Some (length p))"
    and "8 \<le> length p"
  shows "ngx_rtc_rtcp_parse (Some (p @ r)) (length p + length r) (Some z) (Some c) = Some (NGX_RTC_OK, Some k, Some (length p))"
proof -
  have "p \<noteq> []" using assms(2) by auto
  then have n0: "(p @ r) ! 0 = p ! 0" by (simp add: nth_append)
  have st: "rtcp_total (p @ r) = rtcp_total p" "rtcp_start (p @ r) = rtcp_start p" "(p @ r) ! 0 = p ! 0"
    using assms(2) by (simp_all add: rtcp_total_def rtcp_start_def nth_app n0)
  from assms have "rtcp_total p = length p" "drop_bit 6 (p ! 0) AND 3 = 2"
    "rtcp_body p (rtcp_total p) (rtcp_start p) = Some (NGX_RTC_OK, k)"
    by (auto simp: rtcp_parse_unfold split: if_splits option.splits)
  then show ?thesis using assms(2) st
    by (subst rtcp_parse_unfold) (simp_all add: rtcp_body_app)
qed

text \<open>Handing a list of packets to the callback until one is refused.\<close>

primrec rtcp_deliver :: "(ngx_rtc_rtcp_pkt \<Rightarrow> 's \<Rightarrow> int \<times> 's) \<Rightarrow> ngx_rtc_rtcp_pkt list \<Rightarrow> 's \<Rightarrow> int \<times> 's" where
  "rtcp_deliver cb [] s = (NGX_RTC_OK, s)"
| "rtcp_deliver cb (k # ks) s = (case cb k s of (r, s') \<Rightarrow> if r \<noteq> NGX_RTC_OK then (r, s') else rtcp_deliver cb ks s')"

definition rtcp_parses :: "bytes \<Rightarrow> ngx_rtc_rtcp_pkt \<Rightarrow> bool" where
  "rtcp_parses p k \<longleftrightarrow> 8 \<le> length p \<and>
     ngx_rtc_rtcp_parse (Some p) (length p) (Some rtcp_pkt_zero) (Some 0) = Some (NGX_RTC_OK, Some k, Some (length p))"

lemma rtcp_decode_loop_deliver:
  assumes "list_all2 rtcp_parses ps ks"
  shows "rtcp_decode_loop (pre @ concat ps) (length pre + length (concat ps)) (length pre) cb s = Some (rtcp_deliver cb ks s)"
  using assms
proof (induction ps ks arbitrary: pre s rule: list_all2_induct)
  case Nil
  then show ?case by (subst rtcp_decode_loop.simps) simp
next
  case (Cons p ps k ks)
  have p: "ngx_rtc_rtcp_parse (Some (p @ concat ps)) (length p + length (concat ps)) (Some rtcp_pkt_zero) (Some 0)
      = Some (NGX_RTC_OK, Some k, Some (length p))" "0 < length p"
    using Cons(1) rtcp_parse_app [of p rtcp_pkt_zero 0 k] by (auto simp: rtcp_parses_def)
  have ih: "rtcp_decode_loop (pre @ p @ concat ps) (length pre + (length p + length (concat ps))) (length pre + length p) cb s'
      = Some (rtcp_deliver cb ks s')" for s'
    using Cons.IH [of "pre @ p" s'] by (simp add: add.assoc)
  show ?case
    using p ih by (subst rtcp_decode_loop.simps) (auto split: prod.splits)
qed



section \<open>The sender's compound packet\<close>

text \<open>What the encoders write.\<close>

definition sr_wire :: "ngx_rtc_rtcp_sr \<Rightarrow> u64 \<Rightarrow> bytes" where
  "sr_wire sr n =
     (case sr_rb sr of
        None \<Rightarrow> ngx_rtc_rtcp_wr_header NGX_RTC_RTCP_SR 0 28
      | Some _ \<Rightarrow> ngx_rtc_rtcp_wr_header NGX_RTC_RTCP_SR 1 52)
     @ to_be32 (sr_ssrc sr) @ ngx_rtc_rtcp_wr_u64 n @ to_be32 (sr_rtp_ts sr) @ to_be32 (packet_count sr)
     @ to_be32 (octet_count sr) @ (case sr_rb sr of None \<Rightarrow> [] | Some r \<Rightarrow> ngx_rtc_rtcp_write_rb r)"

definition sdes_pad :: "nat \<Rightarrow> nat" where
  "sdes_pad n = (4 - (4 + 4 + 2 + n + 1) mod 4) mod 4"

definition sdes_wire :: "u32 \<Rightarrow> bytes \<Rightarrow> bytes" where
  "sdes_wire ss cn =
     ngx_rtc_rtcp_wr_header NGX_RTC_RTCP_SDES 1 (word_of_nat (11 + length cn + sdes_pad (length cn)))
     @ to_be32 ss @ [1, word_of_nat (length cn)] @ cn @ [0] @ replicate (sdes_pad (length cn)) 0"

lemma length_wr [simp]: "length (ngx_rtc_rtcp_wr_header t f n) = 4" "length (ngx_rtc_rtcp_wr_u64 v) = 8"
  "length (ngx_rtc_rtcp_write_rb r) = 24"
  by (simp_all add: ngx_rtc_rtcp_wr_header_def ngx_rtc_rtcp_wr_u64_def ngx_rtc_rtcp_write_rb_def)

lemma length_sr_wire: "length (sr_wire sr n) = (case sr_rb sr of None \<Rightarrow> 28 | Some _ \<Rightarrow> 52)"
  by (simp add: sr_wire_def split: option.splits)

lemma length_sdes_wire: "length (sdes_wire ss cn) = 11 + length cn + sdes_pad (length cn)"
  by (simp add: sdes_wire_def)

lemma sdes_pad_aligns: "(11 + n + sdes_pad n) mod 4 = 0" "sdes_pad n < 4"
proof -
  have e: "sdes_pad n = (4 - (11 + n) mod 4) mod 4" by (simp add: sdes_pad_def)
  have x: "(x + (4 - x mod 4) mod 4) mod 4 = (0 :: nat)" for x
  proof -
    have "x mod 4 = 0 \<or> x mod 4 = 1 \<or> x mod 4 = 2 \<or> x mod 4 = 3" by presburger
    moreover have "(x + y) mod 4 = (x mod 4 + y) mod 4" for y by presburger
    ultimately show ?thesis by auto
  qed
  show "(11 + n + sdes_pad n) mod 4 = 0" unfolding e by (rule x)
  show "sdes_pad n < 4" by (simp add: sdes_pad_def)
qed

lemma buf_put_prefix: "buf_put (length xs) ys (buf_put 0 xs s) = buf_put 0 (xs @ ys) s"
  using buf_put_append [of 0 s xs ys] by simp

lemma encode_sr_wire:
  assumes "length (sr_wire sr n) \<le> cap" "n = (if sr_ntp sr = 0 then ngx_rtc_rtcp_ntp_now clock else sr_ntp sr)"
  shows "ngx_rtc_rtcp_encode_sr clock (Some sr) (Some buf) cap (Some l) =
     (NGX_RTC_OK, Some (buf_put 0 (sr_wire sr n) buf), Some (word_of_nat (length (sr_wire sr n))))"
proof -
  have put: "buf_put 4 b (buf_put 0 h s) = buf_put 0 (h @ b) s" if "length h = 4" for h b and s :: bytes
    using buf_put_prefix [of h b s] that by simp
  have put': "buf_put k b (buf_put 0 h s) = buf_put 0 (h @ b) s" if "length h = k" for h b k and s :: bytes
    using buf_put_prefix [of h b s] that by simp
  have "buf_put 28 x (buf_put 24 (to_be32 f) (buf_put 20 (to_be32 e) (buf_put 16 (to_be32 d)
        (buf_put 8 (ngx_rtc_rtcp_wr_u64 c) (buf_put 4 (to_be32 b) (buf_put 0 h buf))))))
      = buf_put 0 (h @ to_be32 b @ ngx_rtc_rtcp_wr_u64 c @ to_be32 d @ to_be32 e @ to_be32 f @ x) buf"
    "buf_put 24 (to_be32 f) (buf_put 20 (to_be32 e) (buf_put 16 (to_be32 d)
        (buf_put 8 (ngx_rtc_rtcp_wr_u64 c) (buf_put 4 (to_be32 b) (buf_put 0 h buf)))))
      = buf_put 0 (h @ to_be32 b @ ngx_rtc_rtcp_wr_u64 c @ to_be32 d @ to_be32 e @ to_be32 f) buf"
    if "length h = 4" for h b c d e f x
    using that by (simp_all add: put')
  then show ?thesis
    using assms by (simp add: ngx_rtc_rtcp_encode_sr_def sr_wire_def Let_def split: option.splits)
qed

lemma encode_sdes_wire:
  assumes "length (sdes_wire ss cn) \<le> cap" "length cn \<le> 255"
  shows "ngx_rtc_rtcp_encode_sdes ss (Some cn) (Some buf) cap (Some l) =
     (NGX_RTC_OK, Some (buf_put 0 (sdes_wire ss cn) buf), Some (word_of_nat (length (sdes_wire ss cn))))"
proof -
  have put': "buf_put k b (buf_put 0 h s) = buf_put 0 (h @ b) s" if "length h = k" for h b k and s :: bytes
    using buf_put_prefix [of h b s] that by simp
  have pad: "(4 - (11 + length cn) mod 4) mod 4 = sdes_pad (length cn)" by (simp add: sdes_pad_def)
  have w: "buf_put (11 + length cn) p (buf_put (10 + length cn) [0] (buf_put 10 cn (buf_put 8 [1, v] (buf_put 4 (to_be32 ss) (buf_put 0 h buf)))))
      = buf_put 0 (h @ to_be32 ss @ [1, v] @ cn @ [0] @ p) buf" if "length h = 4" for h p v
    using that by (simp add: put')
  show ?thesis
    using assms pad by (simp add: ngx_rtc_rtcp_encode_sdes_def sdes_wire_def Let_def w [simplified] not_le)
qed

lemma u64_split [simp]: "push_bit 32 (ucast (ucast (drop_bit 32 v) :: u32)) OR ucast (ucast (v AND 0xffffffff) :: u32) = (v :: u64)"
proof (rule bit_word_eqI)
  fix n assume n: "n < LENGTH(64)"
  have m: "(0xffffffff :: u64) = mask 32" by (simp add: mask_eq_exp_minus_1)
  show "bit (push_bit 32 (ucast (ucast (drop_bit 32 v) :: u32)) OR ucast (ucast (v AND 0xffffffff) :: u32) :: u64) n = bit v n"
    using n unfolding m by (cases "n < 32") (auto simp: bit_simps not_less less_diff_conv2)
qed

text \<open>The report block as it comes back: the loss count is 24 bits wide.\<close>

definition rb_wire :: "ngx_rtc_rtcp_rb \<Rightarrow> ngx_rtc_rtcp_rb" where
  "rb_wire r = r\<lparr>lost_packets := take_bit 24 (lost_packets r)\<rparr>"

definition sr_pkt :: "ngx_rtc_rtcp_sr \<Rightarrow> u64 \<Rightarrow> ngx_rtc_rtcp_pkt" where
  "sr_pkt sr n =
     (case sr_rb sr of
        None \<Rightarrow> rtcp_pkt_zero\<lparr>version := 2, pkt_type := NGX_RTC_RTCP_SR, length_words := 6, total_len := 28, ssrc := sr_ssrc sr,
          ntp := n, rtp_ts := sr_rtp_ts sr, sender_packet_count := packet_count sr, sender_octet_count := octet_count sr\<rparr>
      | Some r \<Rightarrow> rtcp_pkt_zero\<lparr>version := 2, pkt_type := NGX_RTC_RTCP_SR, fmt := 1, length_words := 12, total_len := 52,
          ssrc := sr_ssrc sr, ntp := n, rtp_ts := sr_rtp_ts sr, sender_packet_count := packet_count sr,
          sender_octet_count := octet_count sr, rb := rb_wire r, has_rb := True\<rparr>)"

lemma rb_at:
  "length pre = i \<Longrightarrow> ngx_rtc_rtcp_read_rb (pre @ ngx_rtc_rtcp_write_rb r) i = Some (rb_wire r)"
  by (simp add: ngx_rtc_rtcp_read_rb_def ngx_rtc_rtcp_write_rb_def to_be32_def nth_append be24_split rb_wire_def)

lemma rd64_at:
  "length pre = i \<Longrightarrow> ngx_rtc_rtcp_rd_u64 (pre @ ngx_rtc_rtcp_wr_u64 v @ post) i = Some v"
  by (simp add: ngx_rtc_rtcp_rd_u64_def ngx_rtc_rtcp_wr_u64_def to_be32_def nth_append)

lemma rd32_put: "length pre = i \<Longrightarrow> rd32 (pre @ to_be32 v @ post) i = Some v"
  using rd32_at [of pre v post] by simp

lemma sr_loads:
  assumes "w = h @ to_be32 a @ ngx_rtc_rtcp_wr_u64 n @ to_be32 b @ to_be32 c @ to_be32 d @ x" "length h = 4"
  shows "rd32 w 4 = Some a" "ngx_rtc_rtcp_rd_u64 w 8 = Some n" "rd32 w 16 = Some b" "rd32 w 20 = Some c" "rd32 w 24 = Some d"
  using assms(2) rd32_put [of h 4 a "ngx_rtc_rtcp_wr_u64 n @ to_be32 b @ to_be32 c @ to_be32 d @ x"]
    rd64_at [of "h @ to_be32 a" 8 n "to_be32 b @ to_be32 c @ to_be32 d @ x"]
    rd32_put [of "h @ to_be32 a @ ngx_rtc_rtcp_wr_u64 n" 16 b "to_be32 c @ to_be32 d @ x"]
    rd32_put [of "h @ to_be32 a @ ngx_rtc_rtcp_wr_u64 n @ to_be32 b" 20 c "to_be32 d @ x"]
    rd32_put [of "h @ to_be32 a @ ngx_rtc_rtcp_wr_u64 n @ to_be32 b @ to_be32 c" 24 d x]
  unfolding assms(1) by simp_all

text \<open>What the header and SSRC of an encoded packet parse to.\<close>

lemma rtcp_wire_start:
  assumes "w = ngx_rtc_rtcp_wr_header t f (word_of_nat tot) @ to_be32 s @ x" "f = 0 \<or> f = 1"
    and "tot mod 4 = 0" "8 \<le> tot" "tot \<le> 262144" "length w = tot"
  shows "rtcp_total w = tot" "drop_bit 6 (w ! 0) AND 3 = 2"
    "rtcp_start w = rtcp_pkt_zero\<lparr>version := 2, pkt_type := t, fmt := f, length_words := word_of_nat (tot div 4 - 1),
       total_len := word_of_nat tot, ssrc := s\<rparr>"
proof -
  have d: "(word_of_nat tot :: u32) div 4 - 1 = word_of_nat (tot div 4 - 1)"
  proof -
    have "unat (word_of_nat tot :: u32) = tot" using assms(5) by (simp add: unat_of_nat)
    then have "unat ((word_of_nat tot :: u32) div 4) = tot div 4" by (simp add: unat_div)
    then have "(word_of_nat tot :: u32) div 4 = word_of_nat (tot div 4)"
      using assms(5) by (simp add: word_unat_eq_iff unat_of_nat)
    then show ?thesis using assms(4) by (simp add: of_nat_diff)
  qed
  have n: "tot div 4 - 1 < 65536" using assms(5,4) by auto
  have u: "ucast (word_of_nat (tot div 4 - 1) :: u32) = (word_of_nat (tot div 4 - 1) :: u16)"
    using n by (simp add: unsigned_of_nat take_bit_nat_eq_self)
  have lw: "be16 (w ! 2) (w ! 3) = word_of_nat (tot div 4 - 1)"
    using assms(1) d u by (simp add: ngx_rtc_rtcp_wr_header_def to_be16_def nth_append numeral_2_eq_2 numeral_3_eq_3)
  have "unat (word_of_nat (tot div 4 - 1) :: u16) = tot div 4 - 1" using n by (simp add: unat_of_nat)
  then show t: "rtcp_total w = tot" using lw assms(3,4) by (auto simp: rtcp_total_def)
  have h: "w ! 0 = 0x80 OR (f AND 0x1f)" "w ! 1 = t"
    using assms(1) by (simp_all add: ngx_rtc_rtcp_wr_header_def nth_append)
  show "drop_bit 6 (w ! 0) AND 3 = 2" using h assms(2) by auto
  have s: "be32 (w ! 4) (w ! 5) (w ! 6) (w ! 7) = s"
    using assms(1) by (simp add: ngx_rtc_rtcp_wr_header_def to_be16_def to_be32_def nth_append)
  show "rtcp_start w = rtcp_pkt_zero\<lparr>version := 2, pkt_type := t, fmt := f, length_words := word_of_nat (tot div 4 - 1),
       total_len := word_of_nat tot, ssrc := s\<rparr>"
    using assms(2) h lw s t by (auto simp: rtcp_start_def rtcp_pkt_zero_def)
qed

lemma rtcp_parsesI:
  assumes "rtcp_total w = length w" "8 \<le> length w" "drop_bit 6 (w ! 0) AND 3 = 2"
    and "rtcp_body w (length w) (rtcp_start w) = Some (NGX_RTC_OK, k)"
  shows "rtcp_parses w k"
  using assms by (simp add: rtcp_parses_def rtcp_parse_unfold)

lemma sr_wire_parses: "rtcp_parses (sr_wire sr n) (sr_pkt sr n)"
proof (cases "sr_rb sr")
  case None
  have w: "sr_wire sr n = ngx_rtc_rtcp_wr_header NGX_RTC_RTCP_SR 0 (word_of_nat 28) @ to_be32 (sr_ssrc sr) @
      ngx_rtc_rtcp_wr_u64 n @ to_be32 (sr_rtp_ts sr) @ to_be32 (packet_count sr) @ to_be32 (octet_count sr) @ []"
    by (simp add: sr_wire_def None)
  have l: "length (sr_wire sr n) = 28" by (simp add: length_sr_wire None)
  show ?thesis
    by (rule rtcp_parsesI)
      (use l sr_loads [OF w] rtcp_wire_start [OF w] None in
        \<open>simp_all add: rtcp_body_def rtcp_body_sr_def sr_pkt_def rtcp_pkt_zero_def\<close>)
next
  case (Some r)
  have w: "sr_wire sr n = ngx_rtc_rtcp_wr_header NGX_RTC_RTCP_SR 1 (word_of_nat 52) @ to_be32 (sr_ssrc sr) @
      ngx_rtc_rtcp_wr_u64 n @ to_be32 (sr_rtp_ts sr) @ to_be32 (packet_count sr) @ to_be32 (octet_count sr) @ ngx_rtc_rtcp_write_rb r"
    by (simp add: sr_wire_def Some)
  have l: "length (sr_wire sr n) = 52" by (simp add: length_sr_wire Some)
  have rb: "ngx_rtc_rtcp_read_rb (sr_wire sr n) 28 = Some (rb_wire r)"
    using rb_at [of "ngx_rtc_rtcp_wr_header NGX_RTC_RTCP_SR 1 (word_of_nat 52) @ to_be32 (sr_ssrc sr) @
      ngx_rtc_rtcp_wr_u64 n @ to_be32 (sr_rtp_ts sr) @ to_be32 (packet_count sr) @ to_be32 (octet_count sr)" 28 r]
    unfolding w by simp
  show ?thesis
    by (rule rtcp_parsesI)
      (use l rb sr_loads [OF w] rtcp_wire_start [OF w] Some in
        \<open>simp_all add: rtcp_body_def rtcp_body_sr_def sr_pkt_def rtcp_pkt_zero_def\<close>)
qed

definition sdes_pkt :: "u32 \<Rightarrow> bytes \<Rightarrow> ngx_rtc_rtcp_pkt" where
  "sdes_pkt ss cn =
     (let tot = 11 + length cn + sdes_pad (length cn)
      in rtcp_pkt_zero\<lparr>version := 2, pkt_type := NGX_RTC_RTCP_SDES, fmt := 1, length_words := word_of_nat (tot div 4 - 1),
           total_len := word_of_nat tot, ssrc := ss, cname := cn @ replicate (NGX_RTC_RTCP_MAX_CNAME - length cn) 0\<rparr>)"

lemma sdes_wire_parses:
  assumes "length cn \<le> 255"
  shows "rtcp_parses (sdes_wire ss cn) (sdes_pkt ss cn)"
proof -
  let ?w = "sdes_wire ss cn" and ?tot = "11 + length cn + sdes_pad (length cn)"
  let ?x = "[1, word_of_nat (length cn)] @ cn @ [0] @ replicate (sdes_pad (length cn)) 0"
  have w: "?w = ngx_rtc_rtcp_wr_header NGX_RTC_RTCP_SDES 1 (word_of_nat ?tot) @ to_be32 ss @ ?x"
    by (simp add: sdes_wire_def)
  have l: "length ?w = ?tot" by (simp add: length_sdes_wire)
  note st = rtcp_wire_start [OF w _ sdes_pad_aligns(1) _ _ l]
  have small: "?tot \<le> 262144" using assms sdes_pad_aligns(2) [of "length cn"] by simp
  have ty: "?w ! 8 = 1" "?w ! (8 + 1) = word_of_nat (length cn)" and tx: "buf_get (8 + 2) (length cn) ?w = cn"
    unfolding w by (simp_all add: nth_append buf_get_def)
  have n: "unat (word_of_nat (length cn) :: u8) = length cn" using assms by (simp add: unat_of_nat)
  let ?z = "rtcp_start ?w"
  have z: "cname ?z = replicate NGX_RTC_RTCP_MAX_CNAME 0" "fmt ?z = 1" "pkt_type ?z = NGX_RTC_RTCP_SDES"
    using st small by (simp_all add: rtcp_pkt_zero_def)
  have c: "buf_put 0 (cn @ [0]) (replicate NGX_RTC_RTCP_MAX_CNAME 0) = cn @ replicate (NGX_RTC_RTCP_MAX_CNAME - length cn) (0 :: u8)"
  proof -
    have "NGX_RTC_RTCP_MAX_CNAME - length cn = Suc (NGX_RTC_RTCP_MAX_CNAME - (length cn + 1))" using assms by simp
    then show ?thesis by (simp add: buf_put_def)
  qed
  have items: "sdes_items ?w ?tot 8 ?z = Some (Inl (?z\<lparr>cname := cn @ replicate (NGX_RTC_RTCP_MAX_CNAME - length cn) 0\<rparr>))"
    using ty tx n l c z by (subst sdes_items_unfold) (simp_all)
  have body: "rtcp_body ?w ?tot ?z = Some (NGX_RTC_OK, sdes_pkt ss cn)"
    using items z st small
    by (simp add: rtcp_body_def rtcp_body_sdes_def ngx_rtc_rtcp_parse_sdes_def sdes_pkt_def Let_def)
  show ?thesis using st small body l by (intro rtcp_parsesI) simp_all
qed

lemma compound_append_exact:
  assumes "unat len + unat pkt_len \<le> unat cap"
  shows "ngx_rtc_rtcp_compound_append (Some c) cap (Some len) (Some p) pkt_len =
      (NGX_RTC_OK, Some (buf_put (unat len) (take (unat pkt_len) p) c), Some (len + pkt_len))
    \<and> unat (len + pkt_len) = unat len + unat pkt_len"
proof -
  have le: "len \<le> cap" using assms by (simp add: word_le_nat_alt)
  then have "unat (cap - len) = unat cap - unat len" by (simp add: unat_sub)
  then have "pkt_len \<le> cap - len" using assms by (simp add: word_le_nat_alt)
  moreover have "unat (len + pkt_len) = unat len + unat pkt_len"
    using assms unat_u32_less [of cap] by (intro unat_add_lem [THEN iffD1]) simp
  ultimately show ?thesis using le by (simp add: ngx_rtc_rtcp_compound_append_def not_less)
qed

text \<open>
  C21. The sender's compound packet, a sender report followed by a source description built with the
  encoders and appended to one buffer, decodes to exactly those two packets with the fields that were
  given: time stamps, counters, the report block with its loss count cut to 24 bits, and the whole
  CNAME. The buffers given are never overrun.
\<close>

theorem rtcp_sender_compound:
  fixes sr :: ngx_rtc_rtcp_sr and clock :: "(u64 \<times> u64) + u64"
  assumes "length tmp \<ge> 272" "length out = unat cap" "unat cap \<ge> 324" "length cn \<le> 255"
  defines "n \<equiv> (if sr_ntp sr = 0 then ngx_rtc_rtcp_ntp_now clock else sr_ntp sr)"
  shows "\<exists>b1 n1 o1 m1 b2 n2 o2 m2.
      ngx_rtc_rtcp_encode_sr clock (Some sr) (Some tmp) (length tmp) (Some l) = (NGX_RTC_OK, Some b1, Some n1)
    \<and> ngx_rtc_rtcp_compound_append (Some out) cap (Some 0) (Some b1) n1 = (NGX_RTC_OK, Some o1, Some m1)
    \<and> ngx_rtc_rtcp_encode_sdes (sr_ssrc sr) (Some cn) (Some b1) (length b1) (Some n1) = (NGX_RTC_OK, Some b2, Some n2)
    \<and> ngx_rtc_rtcp_compound_append (Some o1) cap (Some m1) (Some b2) n2 = (NGX_RTC_OK, Some o2, Some m2)
    \<and> length b2 = length tmp \<and> length o2 = length out
    \<and> ngx_rtc_rtcp_decode (Some (take (unat m2) o2)) (unat m2) (Some cb) s
        = Some (rtcp_deliver cb [sr_pkt sr n, sdes_pkt (sr_ssrc sr) cn] s)"
proof -
  let ?w1 = "sr_wire sr n" and ?w2 = "sdes_wire (sr_ssrc sr) cn"
  have l1: "length ?w1 \<le> 52" by (simp add: length_sr_wire split: option.splits)
  have l2: "length ?w2 \<le> 269" using assms(4) sdes_pad_aligns(2) [of "length cn"] by (simp add: length_sdes_wire)
  define b1 where "b1 = buf_put 0 ?w1 tmp"
  define b2 where "b2 = buf_put 0 ?w2 b1"
  define n1 n2 :: u32 where "n1 = word_of_nat (length ?w1)" and "n2 = word_of_nat (length ?w2)"
  have u: "unat n1 = length ?w1" "unat n2 = length ?w2" using l1 l2 by (simp_all add: n1_def n2_def unat_of_nat)
  have lb: "length b1 = length tmp" "length b2 = length tmp" using l1 l2 assms(1) by (simp_all add: b1_def b2_def)
  have t: "take (unat n1) b1 = ?w1" "take (unat n2) b2 = ?w2" by (simp_all add: u b1_def b2_def buf_put_def)
  define o1 where "o1 = buf_put 0 ?w1 out"
  define o2 where "o2 = buf_put 0 (?w1 @ ?w2) out"
  have e1: "ngx_rtc_rtcp_encode_sr clock (Some sr) (Some tmp) (length tmp) (Some l) = (NGX_RTC_OK, Some b1, Some n1)"
    unfolding b1_def n1_def by (rule encode_sr_wire) (use l1 assms(1) n_def in auto)
  have e2: "ngx_rtc_rtcp_encode_sdes (sr_ssrc sr) (Some cn) (Some b1) (length b1) (Some n1) = (NGX_RTC_OK, Some b2, Some n2)"
    unfolding b2_def n2_def by (rule encode_sdes_wire) (use l2 assms(1,4) lb in auto)
  have a1: "ngx_rtc_rtcp_compound_append (Some out) cap (Some 0) (Some b1) n1 = (NGX_RTC_OK, Some o1, Some n1)"
    using compound_append_exact [of 0 n1 cap out b1] u t l1 assms(3) by (simp add: o1_def)
  have a2: "ngx_rtc_rtcp_compound_append (Some o1) cap (Some n1) (Some b2) n2 = (NGX_RTC_OK, Some o2, Some (n1 + n2))"
    "unat (n1 + n2) = length ?w1 + length ?w2"
    using compound_append_exact [of n1 n2 cap o1 b2] u t l1 l2 assms(3) by (simp_all add: o1_def o2_def buf_put_prefix)
  have lo: "length o2 = length out" using l1 l2 assms(2,3) by (simp add: o2_def)
  have wires: "take (unat (n1 + n2)) o2 = concat [?w1, ?w2]" "unat (n1 + n2) = length (concat [?w1, ?w2])"
    using a2(2) by (simp_all add: o2_def buf_put_def)
  have "list_all2 rtcp_parses [?w1, ?w2] [sr_pkt sr n, sdes_pkt (sr_ssrc sr) cn]"
    using sr_wire_parses sdes_wire_parses [OF assms(4)] by simp
  from rtcp_decode_loop_deliver [OF this, of "[]" cb s]
  have "ngx_rtc_rtcp_decode (Some (take (unat (n1 + n2)) o2)) (unat (n1 + n2)) (Some cb) s
      = Some (rtcp_deliver cb [sr_pkt sr n, sdes_pkt (sr_ssrc sr) cn] s)"
    unfolding wires(1) unfolding wires(2) by (simp add: ngx_rtc_rtcp_decode_def)
  then show ?thesis using e1 e2 a1 a2(1) lb lo by blast
qed

theorem rtcp_sender_compound_witness:
  "\<exists>m b. ngx_rtc_rtcp_decode (Some b) m (Some (\<lambda>k s. (0, s @ [(pkt_type k, ssrc k)]))) [] = Some (0, [(200, 77), (202, 77)])"
proof -
  let ?sr = "\<lparr>sr_ssrc = 77, sr_ntp = 0, sr_rtp_ts = 5, packet_count = 6, octet_count = 7, sr_rb = Some rtcp_rb_zero\<rparr>"
  have "length (replicate 272 (0 :: u8)) \<ge> 272" "length (replicate 400 (0 :: u8)) = unat (400 :: u32)"
    "unat (400 :: u32) \<ge> 324" "length ([0x61, 0x62] :: bytes) \<le> 255" by simp_all
  from rtcp_sender_compound [OF this, where sr = ?sr and clock = "Inr 1000" and l = 0
      and cb = "\<lambda>k s. (0, s @ [(pkt_type k, ssrc k)])" and s = "[]"]
  obtain b m where "ngx_rtc_rtcp_decode (Some b) m (Some (\<lambda>k s. (0, s @ [(pkt_type k, ssrc k)]))) []
      = Some (rtcp_deliver (\<lambda>k s. (0, s @ [(pkt_type k, ssrc k)]))
         [sr_pkt ?sr (if sr_ntp ?sr = 0 then ngx_rtc_rtcp_ntp_now (Inr 1000) else sr_ntp ?sr), sdes_pkt (sr_ssrc ?sr) [0x61, 0x62]] [])"
    by blast
  then show ?thesis by (auto simp: sr_pkt_def sdes_pkt_def Let_def)
qed

end
