(* ===== verification/Srtp.thy ===== *)
theory Srtp
  imports Prelude
begin

text \<open>
  The SRTP wrapper of \<^verbatim>\<open>src/ngx_rtc_srtp.c\<close>. The libsrtp2 functions are parameters, collected in a
  record, that act on a state \<open>'w\<close> of the outside world; a context pointer is \<open>Some\<close> handle, NULL is
  \<open>None\<close>. The policy that the code builds is fixed except for key and direction, so \<^verbatim>\<open>srtp_create\<close> is
  given just these two.
\<close>

section \<open>libsrtp2\<close>

record 'w srtp_lib =
  lib_init :: "'w \<Rightarrow> bool \<times> 'w"
  lib_create :: "bool \<Rightarrow> bytes \<Rightarrow> 'w \<Rightarrow> nat option \<times> 'w"
  lib_dealloc :: "nat \<Rightarrow> 'w \<Rightarrow> 'w"
  lib_protect :: "nat \<Rightarrow> bytes \<Rightarrow> int \<Rightarrow> 'w \<Rightarrow> bool \<times> bytes \<times> int \<times> 'w"
  lib_unprotect :: "nat \<Rightarrow> bytes \<Rightarrow> int \<Rightarrow> 'w \<Rightarrow> bool \<times> bytes \<times> int \<times> 'w"
  lib_protect_rtcp :: "nat \<Rightarrow> bytes \<Rightarrow> int \<Rightarrow> 'w \<Rightarrow> bool \<times> bytes \<times> int \<times> 'w"
  lib_unprotect_rtcp :: "nat \<Rightarrow> bytes \<Rightarrow> int \<Rightarrow> 'w \<Rightarrow> bool \<times> bytes \<times> int \<times> 'w"

record ngx_rtc_srtp =
  recv_ctx :: "nat option"
  send_ctx :: "nat option"

section \<open>Operations\<close>

text \<open>\<open>inited\<close> is the static \<^verbatim>\<open>ngx_rtc_srtp_inited\<close>.\<close>

definition ngx_rtc_srtp_global_init :: "'w srtp_lib \<Rightarrow> bool \<Rightarrow> 'w \<Rightarrow> int \<times> bool \<times> 'w" where
  "ngx_rtc_srtp_global_init lib inited w =
     (if inited then (0, inited, w)
      else (case lib_init lib w of (ok, w) \<Rightarrow> if \<not> ok then (- 1, inited, w) else (0, True, w)))"

definition ngx_rtc_srtp_create ::
  "'w srtp_lib \<Rightarrow> ngx_rtc_srtp option \<Rightarrow> bytes option \<Rightarrow> bytes option \<Rightarrow> 'w \<Rightarrow> int \<times> ngx_rtc_srtp option \<times> 'w" where
  "ngx_rtc_srtp_create lib srtpp recv_key send_key w =
     (case (srtpp, recv_key, send_key) of
        (Some _, Some rk, Some sk) \<Rightarrow>
          (case lib_create lib True rk w of
             (None, w) \<Rightarrow> (- 1, Some \<lparr>recv_ctx = None, send_ctx = None\<rparr>, w)
           | (Some r, w) \<Rightarrow>
               (case lib_create lib False sk w of
                  (None, w) \<Rightarrow> (- 1, Some \<lparr>recv_ctx = None, send_ctx = None\<rparr>, lib_dealloc lib r w)
                | (Some s, w) \<Rightarrow> (0, Some \<lparr>recv_ctx = Some r, send_ctx = Some s\<rparr>, w)))
      | _ \<Rightarrow> (- 1, srtpp, w))"

text \<open>The result: return code, packet buffer, \<^verbatim>\<open>*nb\<close> and the world afterwards.\<close>

definition ngx_rtc_srtp_protect_rtp ::
  "'w srtp_lib \<Rightarrow> ngx_rtc_srtp option \<Rightarrow> bytes option \<Rightarrow> int option \<Rightarrow> 'w \<Rightarrow> int \<times> bytes option \<times> int option \<times> 'w" where
  "ngx_rtc_srtp_protect_rtp lib srtpp packetp nbp w =
     (case (Option.bind srtpp send_ctx, packetp, nbp) of
        (Some ctx, Some packet, Some nb) \<Rightarrow>
          (case lib_protect lib ctx packet nb w of
             (ok, packet, nb, w) \<Rightarrow> (if \<not> ok then - 1 else 0, Some packet, Some nb, w))
      | _ \<Rightarrow> (- 1, packetp, nbp, w))"

definition ngx_rtc_srtp_unprotect_rtp ::
  "'w srtp_lib \<Rightarrow> ngx_rtc_srtp option \<Rightarrow> bytes option \<Rightarrow> int option \<Rightarrow> 'w \<Rightarrow> int \<times> bytes option \<times> int option \<times> 'w" where
  "ngx_rtc_srtp_unprotect_rtp lib srtpp packetp nbp w =
     (case (Option.bind srtpp recv_ctx, packetp, nbp) of
        (Some ctx, Some packet, Some nb) \<Rightarrow>
          (case lib_unprotect lib ctx packet nb w of
             (ok, packet, nb, w) \<Rightarrow> (if \<not> ok then - 1 else 0, Some packet, Some nb, w))
      | _ \<Rightarrow> (- 1, packetp, nbp, w))"

definition ngx_rtc_srtp_protect_rtcp ::
  "'w srtp_lib \<Rightarrow> ngx_rtc_srtp option \<Rightarrow> bytes option \<Rightarrow> int option \<Rightarrow> 'w \<Rightarrow> int \<times> bytes option \<times> int option \<times> 'w" where
  "ngx_rtc_srtp_protect_rtcp lib srtpp packetp nbp w =
     (case (Option.bind srtpp send_ctx, packetp, nbp) of
        (Some ctx, Some packet, Some nb) \<Rightarrow>
          (case lib_protect_rtcp lib ctx packet nb w of
             (ok, packet, nb, w) \<Rightarrow> (if \<not> ok then - 1 else 0, Some packet, Some nb, w))
      | _ \<Rightarrow> (- 1, packetp, nbp, w))"

definition ngx_rtc_srtp_unprotect_rtcp ::
  "'w srtp_lib \<Rightarrow> ngx_rtc_srtp option \<Rightarrow> bytes option \<Rightarrow> int option \<Rightarrow> 'w \<Rightarrow> int \<times> bytes option \<times> int option \<times> 'w" where
  "ngx_rtc_srtp_unprotect_rtcp lib srtpp packetp nbp w =
     (case (Option.bind srtpp recv_ctx, packetp, nbp) of
        (Some ctx, Some packet, Some nb) \<Rightarrow>
          (case lib_unprotect_rtcp lib ctx packet nb w of
             (ok, packet, nb, w) \<Rightarrow> (if \<not> ok then - 1 else 0, Some packet, Some nb, w))
      | _ \<Rightarrow> (- 1, packetp, nbp, w))"

definition ngx_rtc_srtp_destroy :: "'w srtp_lib \<Rightarrow> ngx_rtc_srtp option \<Rightarrow> 'w \<Rightarrow> ngx_rtc_srtp option \<times> 'w" where
  "ngx_rtc_srtp_destroy lib srtpp w =
     (case srtpp of
        None \<Rightarrow> (None, w)
      | Some srtp \<Rightarrow>
          (let w = (case recv_ctx srtp of None \<Rightarrow> w | Some r \<Rightarrow> lib_dealloc lib r w);
               srtp = srtp\<lparr>recv_ctx := None\<rparr>;
               w = (case send_ctx srtp of None \<Rightarrow> w | Some s \<Rightarrow> lib_dealloc lib s w)
           in (Some (srtp\<lparr>send_ctx := None\<rparr>), w)))"

section \<open>Context ownership\<close>

text \<open>
  The documented contract of \<^verbatim>\<open>srtp_create\<close> and \<^verbatim>\<open>srtp_dealloc\<close>, with \<open>live\<close> the set of allocated
  contexts of a world: a creation yields a fresh context or nothing, and a context may be freed once.
\<close>

definition srtp_lib_owns :: "'w srtp_lib \<Rightarrow> ('w \<Rightarrow> nat set) \<Rightarrow> bool" where
  "srtp_lib_owns lib live \<longleftrightarrow>
     (\<forall>d k w. case lib_create lib d k w of
        (None, w') \<Rightarrow> live w' = live w
      | (Some h, w') \<Rightarrow> h \<notin> live w \<and> live w' = insert h (live w))
   \<and> (\<forall>h w. h \<in> live w \<longrightarrow> live (lib_dealloc lib h w) = live w - {h})"

definition srtp_owned :: "ngx_rtc_srtp \<Rightarrow> nat set" where
  "srtp_owned srtp = set_option (recv_ctx srtp) \<union> set_option (send_ctx srtp)"

lemma srtp_create_owns:
  assumes "srtp_lib_owns lib live" "ngx_rtc_srtp_create lib (Some s0) (Some rk) (Some sk) w = (r, sp, w')"
  shows "\<exists>s. sp = Some s \<and> live w' = live w \<union> srtp_owned s \<and> live w \<inter> srtp_owned s = {}
    \<and> (if r = 0 then \<exists>a b. recv_ctx s = Some a \<and> send_ctx s = Some b \<and> a \<noteq> b else r = - 1 \<and> srtp_owned s = {})"
proof -
  have c: "case lib_create lib d k w of (None, w') \<Rightarrow> live w' = live w
      | (Some h, w') \<Rightarrow> h \<notin> live w \<and> live w' = insert h (live w)" for d k w
    using assms(1) by (simp add: srtp_lib_owns_def)
  obtain r1 w1 where 1: "lib_create lib True rk w = (r1, w1)" by fastforce
  show ?thesis
  proof (cases r1)
    case None
    then show ?thesis using 1 c [where d = True and k = rk and w = w] assms(2) by (auto simp: ngx_rtc_srtp_create_def srtp_owned_def)
  next
    case (Some a)
    then have l1: "a \<notin> live w" "live w1 = insert a (live w)" using 1 c [where d = True and k = rk and w = w] by auto
    obtain r2 w2 where 2: "lib_create lib False sk w1 = (r2, w2)" by fastforce
    show ?thesis
    proof (cases r2)
      case None
      then have "live w2 = insert a (live w)" using 2 c [where d = False and k = sk and w = w1] l1 by auto
      then have "live (lib_dealloc lib a w2) = live w" using assms(1) l1 by (simp add: srtp_lib_owns_def)
      then show ?thesis using 1 2 None Some assms(2) by (auto simp: ngx_rtc_srtp_create_def srtp_owned_def)
    next
      case (Some b)
      then have "b \<notin> live w1" "live w2 = insert b (live w1)" using 2 c [where d = False and k = sk and w = w1] by auto
      then show ?thesis using 1 2 Some \<open>r1 = Some a\<close> l1 assms(2)
        by (auto simp: ngx_rtc_srtp_create_def srtp_owned_def)
    qed
  qed
qed

lemma srtp_destroy_frees:
  assumes "srtp_lib_owns lib live" "srtp_owned s \<subseteq> live w" "recv_ctx s \<noteq> send_ctx s \<or> recv_ctx s = None"
    and "ngx_rtc_srtp_destroy lib (Some s) w = (sp, w')"
  shows "sp = Some (s\<lparr>recv_ctx := None, send_ctx := None\<rparr>) \<and> live w' = live w - srtp_owned s"
proof -
  have d: "h \<in> live w \<Longrightarrow> live (lib_dealloc lib h w) = live w - {h}" for h w
    using assms(1) by (simp add: srtp_lib_owns_def)
  show ?thesis
    using assms(2-4) by (auto simp: ngx_rtc_srtp_destroy_def srtp_owned_def Let_def d split: option.splits)
qed

text \<open>
  C39. Creating the SRTP contexts of a session and destroying them again leaks nothing and frees nothing
  twice: whatever the library answers, the live contexts after the creation are those of the record, on
  failure none, and after the destruction exactly the ones from before; destroying again changes nothing.
\<close>

theorem srtp_contexts_balanced:
  assumes "srtp_lib_owns lib live" "ngx_rtc_srtp_create lib (Some s0) (Some rk) (Some sk) w = (r, sp, w1)"
    and "ngx_rtc_srtp_destroy lib sp w1 = (sp2, w2)"
  shows "(r = 0 \<longleftrightarrow> live w1 \<noteq> live w) \<and> live w \<subseteq> live w1 \<and> live w2 = live w
    \<and> ngx_rtc_srtp_destroy lib sp2 w2 = (sp2, w2)"
proof -
  obtain s where s: "sp = Some s" "live w1 = live w \<union> srtp_owned s" "live w \<inter> srtp_owned s = {}"
    "if r = 0 then \<exists>a b. recv_ctx s = Some a \<and> send_ctx s = Some b \<and> a \<noteq> b else r = - 1 \<and> srtp_owned s = {}"
    using srtp_create_owns [OF assms(1,2)] by blast
  have ne: "recv_ctx s \<noteq> send_ctx s \<or> recv_ctx s = None"
    using s(4) by (auto simp: srtp_owned_def split: if_splits)
  have d: "sp2 = Some (s\<lparr>recv_ctx := None, send_ctx := None\<rparr>)" "live w2 = live w1 - srtp_owned s"
    using srtp_destroy_frees [OF assms(1) _ ne, of w1 sp2 w2] s(1,2) assms(3) by auto
  have "r = 0 \<longleftrightarrow> srtp_owned s \<noteq> {}" using s(4) by (auto simp: srtp_owned_def split: if_splits)
  then show ?thesis using s(2,3) d by (auto simp: ngx_rtc_srtp_destroy_def)
qed

text \<open>A library that counts: the world is the list of live contexts; a send context is refused.\<close>

definition demo_srtp_lib :: "nat list srtp_lib" where
  "demo_srtp_lib = \<lparr>lib_init = \<lambda>w. (True, w),
     lib_create = \<lambda>inbound k w. if inbound then (let h = Suc (fold max w 0) in (Some h, h # w)) else (None, w),
     lib_dealloc = \<lambda>h w. removeAll h w,
     lib_protect = \<lambda>c p n w. (True, p, n + 10, w), lib_unprotect = \<lambda>c p n w. (True, p, n - 10, w),
     lib_protect_rtcp = \<lambda>c p n w. (True, p, n + 14, w), lib_unprotect_rtcp = \<lambda>c p n w. (True, p, n - 14, w)\<rparr>"

lemma demo_srtp_lib_owns: "srtp_lib_owns demo_srtp_lib set"
proof -
  have le: "x \<le> fold max w a" if "x \<in> set w \<or> x \<le> a" for x a :: nat and w
    using that by (induction w arbitrary: a) (auto intro: le_max_iff_disj [THEN iffD2])
  have "Suc (fold max w 0) \<notin> set w" for w :: "nat list"
    using le [of "Suc (fold max w 0)" w 0] by auto
  then show ?thesis by (simp add: srtp_lib_owns_def demo_srtp_lib_def Let_def)
qed

theorem srtp_contexts_balanced_witness:
  "\<exists>sp w1 sp2 w2. ngx_rtc_srtp_create demo_srtp_lib (Some \<lparr>recv_ctx = None, send_ctx = None\<rparr>) (Some [1]) (Some [2]) [7] = (- 1, sp, w1)
    \<and> ngx_rtc_srtp_destroy demo_srtp_lib sp w1 = (sp2, w2) \<and> set w2 = {7}"
proof -
  let ?s = "Some \<lparr>recv_ctx = None, send_ctx = None\<rparr> :: ngx_rtc_srtp option"
  have c: "ngx_rtc_srtp_create demo_srtp_lib ?s (Some [1]) (Some [2]) [7] = (- 1, ?s, [7])"
    by (simp add: ngx_rtc_srtp_create_def demo_srtp_lib_def Let_def)
  obtain sp2 w2 where d: "ngx_rtc_srtp_destroy demo_srtp_lib ?s [7] = (sp2, w2)" by fastforce
  show ?thesis using srtp_contexts_balanced [OF demo_srtp_lib_owns c d] c d by auto
qed

end
