(* ===== verification/Sdp.thy ===== *)
theory Sdp
  imports Prelude
begin

text \<open>
  The SDP offer parser and answer generator (\<^verbatim>\<open>ngx_rtc_sdp.c\<close>). A (pointer, length) pair of the
  code is the list of its octets; a fixed \<^verbatim>\<open>char\<close> array is a list of its size, stored to with
  \<open>buf_put\<close> and read as a C string with \<open>cstr\<close>; a NUL-terminated string argument is an option
  of its octets before the NUL. A parse step returns \<open>Inl\<close> of its error code or \<open>Inr\<close> of what
  it stores; a writer step returns its code and the writer.
\<close>

section \<open>Data\<close>

abbreviation NGX_RTC_SDP_ICE_UFRAG_LEN :: nat where "NGX_RTC_SDP_ICE_UFRAG_LEN \<equiv> 64"
abbreviation NGX_RTC_SDP_ICE_PWD_LEN :: nat where "NGX_RTC_SDP_ICE_PWD_LEN \<equiv> 256"
abbreviation NGX_RTC_SDP_FP_ALGO_LEN :: nat where "NGX_RTC_SDP_FP_ALGO_LEN \<equiv> 32"
abbreviation NGX_RTC_SDP_FP_LEN :: nat where "NGX_RTC_SDP_FP_LEN \<equiv> 160"
abbreviation NGX_RTC_SDP_SETUP_LEN :: nat where "NGX_RTC_SDP_SETUP_LEN \<equiv> 32"
abbreviation NGX_RTC_SDP_STR_LEN :: nat where "NGX_RTC_SDP_STR_LEN \<equiv> 64"
abbreviation NGX_RTC_SDP_FMTP_LEN :: nat where "NGX_RTC_SDP_FMTP_LEN \<equiv> 256"
abbreviation NGX_RTC_SDP_MAX_MEDIA :: nat where "NGX_RTC_SDP_MAX_MEDIA \<equiv> 4"
abbreviation NGX_RTC_SDP_MID_LEN :: nat where "NGX_RTC_SDP_MID_LEN \<equiv> 32"
abbreviation NGX_RTC_SDP_TWCC_URI_LEN :: nat where "NGX_RTC_SDP_TWCC_URI_LEN \<equiv> 96"
abbreviation NGX_RTC_SDP_MAX_PT :: nat where "NGX_RTC_SDP_MAX_PT \<equiv> 32"

record ngx_rtc_sdp_session =
  ss_ice_ufrag :: bytes
  ss_ice_pwd :: bytes
  ss_fingerprint_algo :: bytes
  ss_fingerprint :: bytes
  ss_setup :: bytes

record ngx_rtc_sdp_pt =
  pt_pt :: u8
  pt_encoding :: bytes
  pt_clock_rate :: u32
  pt_channels :: u32
  pt_fmtp :: bytes

text \<open>\<open>md_pts\<close> and \<open>sp_media\<close> are the used entries of the arrays; their lengths are \<^verbatim>\<open>n_pt\<close> and
  \<^verbatim>\<open>n_media\<close>.\<close>

record ngx_rtc_sdp_media =
  md_type :: bytes
  md_mid :: bytes
  md_ssrc :: u32
  md_twcc_ext :: u8
  md_twcc_uri :: bytes
  md_pts :: "ngx_rtc_sdp_pt list"

record ngx_rtc_sdp_parser =
  sp_session :: ngx_rtc_sdp_session
  sp_media :: "ngx_rtc_sdp_media list"
  sp_in_media :: bool

record ngx_rtc_sdp_offer =
  of_session :: ngx_rtc_sdp_session
  of_video_pt :: u8
  of_video_ssrc :: u32
  of_video_encoding :: bytes
  of_video_clock_rate :: u32
  of_video_fmtp :: bytes
  of_audio_pt :: u8
  of_audio_ssrc :: u32
  of_audio_encoding :: bytes
  of_audio_clock_rate :: u32
  of_audio_channels :: u32
  of_audio_fmtp :: bytes
  of_video_twcc_ext :: u8
  of_audio_twcc_ext :: u8
  of_video_twcc_uri :: bytes
  of_audio_twcc_uri :: bytes
  of_media_type :: "bytes list"
  of_media_mid :: "bytes list"

definition session_zero :: ngx_rtc_sdp_session where
  "session_zero = \<lparr>ss_ice_ufrag = replicate NGX_RTC_SDP_ICE_UFRAG_LEN 0, ss_ice_pwd = replicate NGX_RTC_SDP_ICE_PWD_LEN 0,
     ss_fingerprint_algo = replicate NGX_RTC_SDP_FP_ALGO_LEN 0, ss_fingerprint = replicate NGX_RTC_SDP_FP_LEN 0,
     ss_setup = replicate NGX_RTC_SDP_SETUP_LEN 0\<rparr>"

definition pt_zero :: ngx_rtc_sdp_pt where
  "pt_zero = \<lparr>pt_pt = 0, pt_encoding = replicate NGX_RTC_SDP_STR_LEN 0, pt_clock_rate = 0, pt_channels = 0,
     pt_fmtp = replicate NGX_RTC_SDP_FMTP_LEN 0\<rparr>"

definition media_zero :: ngx_rtc_sdp_media where
  "media_zero = \<lparr>md_type = replicate NGX_RTC_SDP_STR_LEN 0, md_mid = replicate NGX_RTC_SDP_MID_LEN 0, md_ssrc = 0, md_twcc_ext = 0,
     md_twcc_uri = replicate NGX_RTC_SDP_TWCC_URI_LEN 0, md_pts = []\<rparr>"

definition parser_zero :: ngx_rtc_sdp_parser where
  "parser_zero = \<lparr>sp_session = session_zero, sp_media = [], sp_in_media = False\<rparr>"

definition offer_zero :: ngx_rtc_sdp_offer where
  "offer_zero = \<lparr>of_session = session_zero, of_video_pt = 0, of_video_ssrc = 0, of_video_encoding = replicate NGX_RTC_SDP_STR_LEN 0,
     of_video_clock_rate = 0, of_video_fmtp = replicate NGX_RTC_SDP_FMTP_LEN 0, of_audio_pt = 0, of_audio_ssrc = 0,
     of_audio_encoding = replicate NGX_RTC_SDP_STR_LEN 0, of_audio_clock_rate = 0, of_audio_channels = 0,
     of_audio_fmtp = replicate NGX_RTC_SDP_FMTP_LEN 0, of_video_twcc_ext = 0, of_audio_twcc_ext = 0,
     of_video_twcc_uri = replicate NGX_RTC_SDP_TWCC_URI_LEN 0, of_audio_twcc_uri = replicate NGX_RTC_SDP_TWCC_URI_LEN 0,
     of_media_type = [], of_media_mid = []\<rparr>"

section \<open>Tokens\<close>

text \<open>\<open>if (0 != r) return r;\<close> after a step.\<close>

definition and_then :: "int + 'a \<Rightarrow> ('a \<Rightarrow> int + 'b) \<Rightarrow> int + 'b" where
  "and_then r f = (case r of Inl e \<Rightarrow> Inl e | Inr x \<Rightarrow> f x)"

definition ngx_rtc_sdp_copy_token :: "bytes \<Rightarrow> bytes \<Rightarrow> int + bytes" where
  "ngx_rtc_sdp_copy_token dst src =
     (if length dst = 0 then Inl NGX_RTC_ERR_TOO_SMALL
      else if length src \<ge> length dst then Inl NGX_RTC_ERR_TOO_SMALL
      else Inr (buf_put 0 (src @ [0]) dst))"

fun u32_loop :: "bytes \<Rightarrow> u32 \<Rightarrow> bool \<Rightarrow> int + u32" where
  "u32_loop [] v seen = (if seen then Inr v else Inl NGX_RTC_ERR_PARSE)"
| "u32_loop (c # cs) v seen =
     (if c < 0x30 \<or> c > 0x39 then (if seen then Inr v else Inl NGX_RTC_ERR_PARSE)
      else let d = ucast (c - 0x30)
           in if v > (0xffffffff - d) div 10 then Inl NGX_RTC_ERR_PARSE
              else u32_loop cs (v * 10 + d) True)"

definition ngx_rtc_sdp_parse_u32 :: "bytes \<Rightarrow> int + u32" where
  "ngx_rtc_sdp_parse_u32 s = u32_loop s 0 False"

text \<open>\<^verbatim>\<open>while ((pos < len) && P(s[pos])) pos++;\<close>\<close>

function scan :: "(u8 \<Rightarrow> bool) \<Rightarrow> bytes \<Rightarrow> nat \<Rightarrow> nat" where
  "scan P s pos = (if pos < length s \<and> P (s ! pos) then scan P s (pos + 1) else pos)"
  by pat_completeness auto
termination by (relation "measure (\<lambda>(P, s, pos). length s - pos)") auto

declare scan.simps [simp del]

lemma scan_ge: "pos \<le> scan P s pos"
  by (induction P s pos rule: scan.induct) (subst scan.simps, auto)

lemma scan_le: "pos \<le> length s \<Longrightarrow> scan P s pos \<le> length s"
  by (induction P s pos rule: scan.induct) (subst scan.simps, simp)

lemma scan_stops: "scan P s pos < length s \<Longrightarrow> \<not> P (s ! scan P s pos)"
proof (induction P s pos rule: scan.induct)
  case (1 P s pos)
  then show ?case by (subst scan.simps, subst (asm) (2) scan.simps) (simp split: if_splits)
qed

lemma scan_gt: "pos < length s \<Longrightarrow> P (s ! pos) \<Longrightarrow> pos < scan P s pos"
  using scan_ge [of "pos + 1" P s] by (subst scan.simps) simp

definition is_ws :: "u8 \<Rightarrow> bool" where "is_ws c = (c = 0x20 \<or> c = 0x09)"

definition ngx_rtc_sdp_skip_ws :: "bytes \<Rightarrow> nat \<Rightarrow> nat" where
  "ngx_rtc_sdp_skip_ws s pos = scan is_ws s pos"

text \<open>The token and the position after it.\<close>

definition ngx_rtc_sdp_next_token :: "bytes \<Rightarrow> nat \<Rightarrow> int + (bytes \<times> nat)" where
  "ngx_rtc_sdp_next_token s pos =
     (let start = ngx_rtc_sdp_skip_ws s pos in
      if start \<ge> length s then Inl NGX_RTC_ERR_PARSE
      else let pos = scan (\<lambda>c. \<not> is_ws c) s start
           in Inr (buf_get start (pos - start) s, pos))"

lemma next_token_advances:
  assumes "ngx_rtc_sdp_next_token s pos = Inr (tok, pos')" shows "pos < pos'" "pos' \<le> length s"
proof -
  let ?a = "ngx_rtc_sdp_skip_ws s pos"
  have a: "?a < length s" "pos' = scan (\<lambda>c. \<not> is_ws c) s ?a" using assms by (auto simp: ngx_rtc_sdp_next_token_def Let_def split: if_splits)
  have "\<not> is_ws (s ! ?a)" using scan_stops [of is_ws s pos] a(1) by (simp add: ngx_rtc_sdp_skip_ws_def)
  then show "pos < pos'" using scan_gt [of ?a s "\<lambda>c. \<not> is_ws c"] a scan_ge [of pos is_ws s] by (simp add: ngx_rtc_sdp_skip_ws_def)
  show "pos' \<le> length s" using scan_le [of ?a s] a by simp
qed

definition ngx_rtc_sdp_name_eq :: "bytes \<Rightarrow> string \<Rightarrow> bool" where
  "ngx_rtc_sdp_name_eq a b = (length a = length b \<and> list_all2 (=) a (ascii b))"

fun ngx_rtc_sdp_streq :: "bytes \<Rightarrow> bytes \<Rightarrow> bool" where
  "ngx_rtc_sdp_streq (a # as) (b # bs) =
     (if a \<noteq> 0 \<and> b \<noteq> 0 then (if a \<noteq> b then False else ngx_rtc_sdp_streq as bs) else a = 0 \<and> b = 0)"
| "ngx_rtc_sdp_streq _ _ = False"

definition upper :: "u8 \<Rightarrow> u8" where
  "upper c = (if 0x61 \<le> c \<and> c \<le> 0x7a then c - 0x61 + 0x41 else c)"

fun ngx_rtc_sdp_streq_ci :: "bytes \<Rightarrow> bytes \<Rightarrow> bool" where
  "ngx_rtc_sdp_streq_ci (a # as) (b # bs) =
     (if a \<noteq> 0 \<and> b \<noteq> 0 then (if upper a \<noteq> upper b then False else ngx_rtc_sdp_streq_ci as bs) else a = 0 \<and> b = 0)"
| "ngx_rtc_sdp_streq_ci _ _ = False"

text \<open>A literal with its NUL.\<close>

definition lit :: "string \<Rightarrow> bytes" where
  "lit s = ascii s @ [0]"

text \<open>The index of the entry.\<close>

fun find_pt_loop :: "u8 \<Rightarrow> nat \<Rightarrow> ngx_rtc_sdp_pt list \<Rightarrow> nat option" where
  "find_pt_loop pt i [] = None"
| "find_pt_loop pt i (p # ps) = (if pt = pt_pt p then Some i else find_pt_loop pt (i + 1) ps)"

definition ngx_rtc_sdp_find_pt :: "ngx_rtc_sdp_media \<Rightarrow> u8 \<Rightarrow> nat option" where
  "ngx_rtc_sdp_find_pt m pt = find_pt_loop pt 0 (md_pts m)"

definition ngx_rtc_sdp_set_if_empty :: "bytes \<Rightarrow> bytes \<Rightarrow> int + bytes" where
  "ngx_rtc_sdp_set_if_empty dst value_text =
     (if dst ! 0 \<noteq> 0 then Inr dst else ngx_rtc_sdp_copy_token dst value_text)"

section \<open>Attributes\<close>

definition ngx_rtc_sdp_parse_fingerprint :: "ngx_rtc_sdp_session \<Rightarrow> bytes \<Rightarrow> int + ngx_rtc_sdp_session" where
  "ngx_rtc_sdp_parse_fingerprint s v =
     and_then (ngx_rtc_sdp_next_token v 0) (\<lambda>(tok, pos).
       if ss_fingerprint_algo s ! 0 \<noteq> 0 then Inr s
       else and_then (ngx_rtc_sdp_copy_token (ss_fingerprint_algo s) tok) (\<lambda>algo.
         let pos = ngx_rtc_sdp_skip_ws v pos in
         and_then (ngx_rtc_sdp_copy_token (ss_fingerprint s) (drop pos v)) (\<lambda>fp.
           Inr (s\<lparr>ss_fingerprint_algo := algo, ss_fingerprint := fp\<rparr>))))"

text \<open>The payload type that opens an \<^verbatim>\<open>rtpmap\<close> or \<^verbatim>\<open>fmtp\<close> value: its entry and the position after it.\<close>

definition leading_pt :: "ngx_rtc_sdp_media \<Rightarrow> bytes \<Rightarrow> int + (nat \<times> nat)" where
  "leading_pt m v =
     and_then (ngx_rtc_sdp_next_token v 0) (\<lambda>(tok, pos).
     and_then (ngx_rtc_sdp_parse_u32 tok) (\<lambda>pt.
       if pt > 127 then Inl NGX_RTC_ERR_PARSE
       else (case ngx_rtc_sdp_find_pt m (ucast pt) of
               None \<Rightarrow> Inl NGX_RTC_ERR_PARSE
             | Some k \<Rightarrow> Inr (k, ngx_rtc_sdp_skip_ws v pos))))"

definition ngx_rtc_sdp_parse_rtpmap :: "ngx_rtc_sdp_media \<Rightarrow> bytes \<Rightarrow> int + ngx_rtc_sdp_media" where
  "ngx_rtc_sdp_parse_rtpmap m v =
     and_then (leading_pt m v) (\<lambda>(k, pos).
       let p = md_pts m ! k;
           enc_end = scan (\<lambda>c. c \<noteq> 0x2f) v pos
       in and_then (ngx_rtc_sdp_copy_token (pt_encoding p) (buf_get pos (enc_end - pos) v)) (\<lambda>enc.
            let pos = (if enc_end < length v then enc_end + 1 else enc_end);
                clock_end = scan (\<lambda>c. c \<noteq> 0x2f) v pos
            in and_then (ngx_rtc_sdp_parse_u32 (buf_get pos (clock_end - pos) v)) (\<lambda>clock.
                 let p = p\<lparr>pt_encoding := enc, pt_clock_rate := clock\<rparr>;
                     pos = (if clock_end < length v then clock_end + 1 else clock_end)
                 in if pos < length v
                    then and_then (ngx_rtc_sdp_parse_u32 (drop pos v)) (\<lambda>channels.
                           Inr (m\<lparr>md_pts := (md_pts m)[k := p\<lparr>pt_channels := channels\<rparr>]\<rparr>))
                    else Inr (m\<lparr>md_pts := (md_pts m)[k := p]\<rparr>))))"

definition ngx_rtc_sdp_parse_ssrc :: "ngx_rtc_sdp_media \<Rightarrow> bytes \<Rightarrow> int + ngx_rtc_sdp_media" where
  "ngx_rtc_sdp_parse_ssrc m v =
     and_then (ngx_rtc_sdp_next_token v 0) (\<lambda>(tok, pos).
     and_then (ngx_rtc_sdp_parse_u32 tok) (\<lambda>ssrc. Inr (m\<lparr>md_ssrc := ssrc\<rparr>)))"

definition ngx_rtc_sdp_parse_fmtp :: "ngx_rtc_sdp_media \<Rightarrow> bytes \<Rightarrow> int + ngx_rtc_sdp_media" where
  "ngx_rtc_sdp_parse_fmtp m v =
     and_then (leading_pt m v) (\<lambda>(k, pos).
     and_then (ngx_rtc_sdp_copy_token (pt_fmtp (md_pts m ! k)) (drop pos v)) (\<lambda>fmtp.
       Inr (m\<lparr>md_pts := (md_pts m)[k := (md_pts m ! k)\<lparr>pt_fmtp := fmtp\<rparr>]\<rparr>)))"

text \<open>The extension id is accumulated in 32 bits without a range check.\<close>

definition extmap_id :: "bytes \<Rightarrow> u32" where
  "extmap_id ds = foldl (\<lambda>n c. n * 10 + ucast (c - 0x30)) 0 ds"

function twcc_match :: "bytes \<Rightarrow> nat \<Rightarrow> nat \<Rightarrow> bool" where
  "twcc_match v i uri_end =
     (if i + 17 \<le> uri_end
      then (if buf_get i 17 v = ascii ''transport-wide-cc'' then True else twcc_match v (i + 1) uri_end)
      else False)"
  by pat_completeness auto
termination by (relation "measure (\<lambda>(v, i, e). e - i)") auto

declare twcc_match.simps [simp del]

definition ngx_rtc_sdp_parse_extmap :: "ngx_rtc_sdp_media \<Rightarrow> bytes \<Rightarrow> int + ngx_rtc_sdp_media" where
  "ngx_rtc_sdp_parse_extmap m v =
     (let pos = ngx_rtc_sdp_skip_ws v 0;
          id_end = scan (\<lambda>c. 0x30 \<le> c \<and> 0x39 \<ge> c) v pos;
          extid = extmap_id (buf_get pos (id_end - pos) v)
      in if extid = 0 then Inr m
         else let uri_start = ngx_rtc_sdp_skip_ws v id_end;
                  uri_end = scan (\<lambda>c. c \<noteq> 0x20 \<and> c \<noteq> 0x09 \<and> c \<noteq> 0x0d \<and> c \<noteq> 0x0a) v uri_start;
                  uri_len = uri_end - uri_start
              in if twcc_match v uri_start uri_end \<and> extid \<le> 14 \<and> uri_len > 0 \<and> uri_len < NGX_RTC_SDP_TWCC_URI_LEN
                 then Inr (m\<lparr>md_twcc_uri := buf_put 0 (buf_get uri_start uri_len v @ [0]) (md_twcc_uri m), md_twcc_ext := ucast extid\<rparr>)
                 else Inr m)"

text \<open>A step on the media section that the attribute belongs to.\<close>

definition on_media :: "(ngx_rtc_sdp_media \<Rightarrow> int + ngx_rtc_sdp_media) \<Rightarrow> ngx_rtc_sdp_parser \<Rightarrow> nat \<Rightarrow> int + ngx_rtc_sdp_parser" where
  "on_media f st i = and_then (f (sp_media st ! i)) (\<lambda>m. Inr (st\<lparr>sp_media := (sp_media st)[i := m]\<rparr>))"

definition set_session_field ::
  "(ngx_rtc_sdp_session \<Rightarrow> bytes) \<Rightarrow> ((bytes \<Rightarrow> bytes) \<Rightarrow> ngx_rtc_sdp_session \<Rightarrow> ngx_rtc_sdp_session) \<Rightarrow> bytes \<Rightarrow> ngx_rtc_sdp_parser
    \<Rightarrow> int + ngx_rtc_sdp_parser" where
  "set_session_field get upd v st =
     and_then (ngx_rtc_sdp_set_if_empty (get (sp_session st)) v) (\<lambda>x. Inr (st\<lparr>sp_session := upd (\<lambda>_. x) (sp_session st)\<rparr>))"

definition ngx_rtc_sdp_apply_attr :: "ngx_rtc_sdp_parser \<Rightarrow> bytes \<Rightarrow> bytes \<Rightarrow> nat option \<Rightarrow> int + ngx_rtc_sdp_parser" where
  "ngx_rtc_sdp_apply_attr st name v mediap =
     (if ngx_rtc_sdp_name_eq name ''ice-ufrag'' then set_session_field ss_ice_ufrag ss_ice_ufrag_update v st
      else if ngx_rtc_sdp_name_eq name ''ice-pwd'' then set_session_field ss_ice_pwd ss_ice_pwd_update v st
      else if ngx_rtc_sdp_name_eq name ''setup'' then set_session_field ss_setup ss_setup_update v st
      else if ngx_rtc_sdp_name_eq name ''fingerprint''
        then and_then (ngx_rtc_sdp_parse_fingerprint (sp_session st) v) (\<lambda>s. Inr (st\<lparr>sp_session := s\<rparr>))
      else (case mediap of
              None \<Rightarrow> Inr st
            | Some i \<Rightarrow>
                if ngx_rtc_sdp_name_eq name ''mid''
                  then on_media (\<lambda>m. and_then (ngx_rtc_sdp_copy_token (md_mid m) v) (\<lambda>x. Inr (m\<lparr>md_mid := x\<rparr>))) st i
                else if ngx_rtc_sdp_name_eq name ''rtpmap'' then on_media (\<lambda>m. ngx_rtc_sdp_parse_rtpmap m v) st i
                else if ngx_rtc_sdp_name_eq name ''ssrc'' then on_media (\<lambda>m. ngx_rtc_sdp_parse_ssrc m v) st i
                else if ngx_rtc_sdp_name_eq name ''fmtp'' then on_media (\<lambda>m. ngx_rtc_sdp_parse_fmtp m v) st i
                else if ngx_rtc_sdp_name_eq name ''extmap'' then on_media (\<lambda>m. ngx_rtc_sdp_parse_extmap m v) st i
                else Inr st))"

definition ngx_rtc_sdp_parse_attr :: "ngx_rtc_sdp_parser \<Rightarrow> bytes \<Rightarrow> nat option \<Rightarrow> int + ngx_rtc_sdp_parser" where
  "ngx_rtc_sdp_parse_attr st content mediap =
     (let colon = scan (\<lambda>c. c \<noteq> 0x3a) content 0
      in ngx_rtc_sdp_apply_attr st (take colon content)
           (if colon < length content then drop (colon + 1) content else []) mediap)"

section \<open>Lines\<close>

text \<open>The payload types of an \<^verbatim>\<open>m=\<close> line: the loop leaves at the first token that is not a number.\<close>

function media_pts :: "bytes \<Rightarrow> nat \<Rightarrow> ngx_rtc_sdp_pt list \<Rightarrow> int + ngx_rtc_sdp_pt list" where
  "media_pts content pos pts =
     (if pos < length content
      then (case ngx_rtc_sdp_next_token content pos of
              Inl _ \<Rightarrow> Inr pts
            | Inr (tok, pos') \<Rightarrow>
                (case ngx_rtc_sdp_parse_u32 tok of
                   Inl _ \<Rightarrow> Inr pts
                 | Inr pt \<Rightarrow>
                     if pt > 127 then Inl NGX_RTC_ERR_PARSE
                     else if length pts \<ge> NGX_RTC_SDP_MAX_PT then Inl NGX_RTC_ERR_TOO_LARGE
                     else media_pts content pos' (pts @ [pt_zero\<lparr>pt_pt := ucast pt\<rparr>])))
      else Inr pts)"
  by pat_completeness auto
termination by (relation "measure (\<lambda>(content, pos, pts). length content - pos)") (auto dest: next_token_advances)

declare media_pts.simps [simp del]

definition ngx_rtc_sdp_parse_media :: "ngx_rtc_sdp_parser \<Rightarrow> bytes \<Rightarrow> int + ngx_rtc_sdp_parser" where
  "ngx_rtc_sdp_parse_media st content =
     (if length (sp_media st) \<ge> NGX_RTC_SDP_MAX_MEDIA then Inl NGX_RTC_ERR_TOO_LARGE
      else and_then (ngx_rtc_sdp_next_token content 0) (\<lambda>(tok, pos).
           and_then (ngx_rtc_sdp_copy_token (md_type media_zero) tok) (\<lambda>ty.
           and_then (ngx_rtc_sdp_next_token content pos) (\<lambda>(port, pos).
           and_then (ngx_rtc_sdp_next_token content pos) (\<lambda>(proto, pos).
           and_then (media_pts content pos []) (\<lambda>pts.
             Inr (st\<lparr>sp_media := sp_media st @ [media_zero\<lparr>md_type := ty, md_pts := pts\<rparr>], sp_in_media := True\<rparr>)))))))"

definition ngx_rtc_sdp_parse_line :: "ngx_rtc_sdp_parser \<Rightarrow> bytes \<Rightarrow> int + ngx_rtc_sdp_parser" where
  "ngx_rtc_sdp_parse_line st line =
     (let content = drop 2 line in
      if line ! 0 = 0x6d then ngx_rtc_sdp_parse_media st content
      else if line ! 0 = 0x61 then ngx_rtc_sdp_parse_attr st content (if sp_in_media st then Some (length (sp_media st) - 1) else None)
      else Inr st)"

section \<open>The offer\<close>

text \<open>The first entry with the encoding.\<close>

fun find_encoding :: "bytes \<Rightarrow> ngx_rtc_sdp_pt list \<Rightarrow> ngx_rtc_sdp_pt option" where
  "find_encoding enc [] = None"
| "find_encoding enc (p # ps) = (if ngx_rtc_sdp_streq_ci (pt_encoding p) enc then Some p else find_encoding enc ps)"

definition build_media :: "ngx_rtc_sdp_offer \<Rightarrow> ngx_rtc_sdp_media \<Rightarrow> ngx_rtc_sdp_offer" where
  "build_media out m =
     (if ngx_rtc_sdp_streq (md_type m) (lit ''video'') then
        (let out = out\<lparr>of_video_twcc_ext := md_twcc_ext m, of_video_twcc_uri := md_twcc_uri m\<rparr>
         in case find_encoding (lit ''H264'') (md_pts m) of
              None \<Rightarrow> out
            | Some p \<Rightarrow> out\<lparr>of_video_pt := pt_pt p, of_video_ssrc := md_ssrc m, of_video_clock_rate := pt_clock_rate p,
                           of_video_encoding := pt_encoding p, of_video_fmtp := pt_fmtp p\<rparr>)
      else if ngx_rtc_sdp_streq (md_type m) (lit ''audio'') then
        (let out = out\<lparr>of_audio_twcc_ext := md_twcc_ext m, of_audio_twcc_uri := md_twcc_uri m\<rparr>
         in case find_encoding (lit ''opus'') (md_pts m) of
              None \<Rightarrow> out
            | Some p \<Rightarrow> out\<lparr>of_audio_pt := pt_pt p, of_audio_ssrc := md_ssrc m, of_audio_clock_rate := pt_clock_rate p,
                           of_audio_channels := pt_channels p, of_audio_encoding := pt_encoding p, of_audio_fmtp := pt_fmtp p\<rparr>)
      else out)"

definition ngx_rtc_sdp_build_offer :: "ngx_rtc_sdp_parser \<Rightarrow> ngx_rtc_sdp_offer \<Rightarrow> ngx_rtc_sdp_offer" where
  "ngx_rtc_sdp_build_offer st out =
     (foldl build_media (out\<lparr>of_session := sp_session st\<rparr>) (sp_media st))
       \<lparr>of_media_type := map md_type (sp_media st), of_media_mid := map md_mid (sp_media st)\<rparr>"

definition is_eol :: "u8 \<Rightarrow> bool" where "is_eol c = (c = 0x0d \<or> c = 0x0a)"

text \<open>The end of the line that starts at \<open>pos\<close>, and the start of the next one.\<close>

definition line_end :: "bytes \<Rightarrow> nat \<Rightarrow> nat" where
  "line_end sdp pos = scan (\<lambda>c. \<not> is_eol c) sdp pos"

definition line_next :: "bytes \<Rightarrow> nat \<Rightarrow> nat" where
  "line_next sdp e =
     (if e < length sdp
      then (let e = (if sdp ! e = 0x0d then e + 1 else e) in if e < length sdp \<and> sdp ! e = 0x0a then e + 1 else e)
      else e)"

lemma line_advances: "pos < length sdp \<Longrightarrow> pos < line_next sdp (line_end sdp pos)"
  using scan_gt [of pos sdp "\<lambda>c. \<not> is_eol c"] scan_ge [of pos "\<lambda>c. \<not> is_eol c" sdp]
  by (cases "is_eol (sdp ! pos)") (auto simp: line_next_def line_end_def Let_def is_eol_def scan.simps [of _ _ pos])

function line_loop :: "bytes \<Rightarrow> nat \<Rightarrow> ngx_rtc_sdp_parser \<Rightarrow> int + ngx_rtc_sdp_parser" where
  "line_loop sdp pos st =
     (if pos < length sdp
      then let e = line_end sdp pos; next_pos = line_next sdp e; line = buf_get pos (e - pos) sdp
           in and_then (if length line \<ge> 2 \<and> line ! 1 = 0x3d then ngx_rtc_sdp_parse_line st line else Inr st)
                (\<lambda>st. line_loop sdp next_pos st)
      else Inr st)"
  by pat_completeness auto
termination by (relation "measure (\<lambda>(sdp, pos, st). length sdp - pos)") (auto intro: diff_less_mono2 line_advances)

declare line_loop.simps [simp del]

text \<open>The code and the caller's structure, which is zeroed first.\<close>

definition ngx_rtc_sdp_parse_offer :: "bytes option \<Rightarrow> ngx_rtc_sdp_offer option \<Rightarrow> int \<times> ngx_rtc_sdp_offer option" where
  "ngx_rtc_sdp_parse_offer sdpp outp =
     (case (sdpp, outp) of
        (Some sdp, Some _) \<Rightarrow>
          (case line_loop sdp 0 parser_zero of
             Inl e \<Rightarrow> (e, Some offer_zero)
           | Inr st \<Rightarrow> (NGX_RTC_OK, Some (ngx_rtc_sdp_build_offer st offer_zero)))
      | _ \<Rightarrow> (NGX_RTC_ERR_INVALID, outp))"

section \<open>The answer\<close>

record ngx_rtc_sdp_answer =
  an_ice_ufrag :: "bytes option"
  an_ice_pwd :: "bytes option"
  an_fingerprint_algo :: "bytes option"
  an_fingerprint :: "bytes option"
  an_setup :: "bytes option"
  an_proto :: bytes
  an_candidate_ip :: "bytes option"
  an_candidate_port :: u32
  an_media_type :: "bytes list"
  an_media_mid :: "bytes list"
  an_video_ssrc :: u32
  an_audio_ssrc :: u32
  an_video_pt :: u8
  an_audio_pt :: u8
  an_video_clock_rate :: u32
  an_audio_clock_rate :: u32
  an_audio_channels :: u32
  an_video_twcc_ext :: u8
  an_audio_twcc_ext :: u8
  an_video_twcc_uri :: "bytes option"
  an_audio_twcc_uri :: "bytes option"
  an_video_fmtp :: "bytes option"
  an_audio_fmtp :: "bytes option"
  an_sendonly :: int
  an_rtcp_mux :: int
  an_rtcp_rsize :: int

text \<open>\<^verbatim>\<open>n_media\<close> is the length of the two lists, the used entries of the arrays.\<close>

definition answer_default :: ngx_rtc_sdp_answer where
  "answer_default = \<lparr>an_ice_ufrag = None, an_ice_pwd = None, an_fingerprint_algo = None, an_fingerprint = None, an_setup = None,
     an_proto = ascii ''UDP/TLS/RTP/SAVPF'', an_candidate_ip = None, an_candidate_port = 0,
     an_media_type = [buf_put 0 (lit ''video'') (replicate NGX_RTC_SDP_STR_LEN 0), buf_put 0 (lit ''audio'') (replicate NGX_RTC_SDP_STR_LEN 0)],
     an_media_mid = [buf_put 0 (lit ''0'') (replicate NGX_RTC_SDP_MID_LEN 0), buf_put 0 (lit ''1'') (replicate NGX_RTC_SDP_MID_LEN 0)],
     an_video_ssrc = 0, an_audio_ssrc = 0, an_video_pt = 102, an_audio_pt = 111, an_video_clock_rate = 90000, an_audio_clock_rate = 48000,
     an_audio_channels = 2, an_video_twcc_ext = 0, an_audio_twcc_ext = 0, an_video_twcc_uri = None, an_audio_twcc_uri = None,
     an_video_fmtp = Some (ascii ''level-asymmetry-allowed=1;packetization-mode=1;profile-level-id=42e01f''),
     an_audio_fmtp = Some (ascii ''minptime=10;useinbandfec=1''), an_sendonly = 1, an_rtcp_mux = 1, an_rtcp_rsize = 1\<rparr>"

definition ngx_rtc_sdp_answer_init :: "ngx_rtc_sdp_answer option \<Rightarrow> ngx_rtc_sdp_answer option" where
  "ngx_rtc_sdp_answer_init cfg = (case cfg of None \<Rightarrow> None | Some _ \<Rightarrow> Some answer_default)"

record ngx_rtc_sdp_writer =
  wr_data :: bytes
  wr_cap :: nat
  wr_len :: nat

text \<open>
  \<open>text\<close> is what the format expands to; \<^verbatim>\<open>vsnprintf\<close> stores what fits and a NUL, and returns the length of
  the whole text (it has no failing conversion here).
\<close>

definition ngx_rtc_sdp_writer_append :: "bytes \<Rightarrow> ngx_rtc_sdp_writer \<Rightarrow> int \<times> ngx_rtc_sdp_writer" where
  "ngx_rtc_sdp_writer_append text w =
     (if wr_len w \<ge> wr_cap w then (NGX_RTC_ERR_TOO_SMALL, w)
      else let room = wr_cap w - wr_len w;
               w = w\<lparr>wr_data := buf_put (wr_len w) (take (room - 1) text @ [0]) (wr_data w)\<rparr>
           in if length text \<ge> room then (NGX_RTC_ERR_TOO_SMALL, w\<lparr>wr_len := wr_cap w\<rparr>)
              else (NGX_RTC_OK, w\<lparr>wr_len := wr_len w + length text\<rparr>))"

text \<open>The steps of a function that returns at the first step that fails.\<close>

fun writer_steps :: "(ngx_rtc_sdp_writer \<Rightarrow> int \<times> ngx_rtc_sdp_writer) list \<Rightarrow> ngx_rtc_sdp_writer \<Rightarrow> int \<times> ngx_rtc_sdp_writer" where
  "writer_steps [] w = (NGX_RTC_OK, w)"
| "writer_steps (f # fs) w = (case f w of (r, w) \<Rightarrow> if r \<noteq> 0 then (r, w) else writer_steps fs w)"

definition write_if :: "bool \<Rightarrow> (ngx_rtc_sdp_writer \<Rightarrow> int \<times> ngx_rtc_sdp_writer) \<Rightarrow> ngx_rtc_sdp_writer \<Rightarrow> int \<times> ngx_rtc_sdp_writer" where
  "write_if b f w = (if b then f w else (NGX_RTC_OK, w))"

text \<open>A string that is not NULL and not empty.\<close>

definition nonempty :: "bytes option \<Rightarrow> bool" where
  "nonempty s = (s \<noteq> None \<and> s \<noteq> Some [])"

definition c_text :: "bytes option \<Rightarrow> bytes" where
  "c_text s = (case s of None \<Rightarrow> [] | Some b \<Rightarrow> b)"

definition crlf :: bytes where "crlf = [0x0d, 0x0a]"

definition u32_text :: "u32 \<Rightarrow> bytes" where "u32_text v = dec (unat v)"

definition u8_text :: "u8 \<Rightarrow> bytes" where "u8_text v = dec (unat v)"

definition ngx_rtc_sdp_write_attr :: "string \<Rightarrow> bytes option \<Rightarrow> ngx_rtc_sdp_writer \<Rightarrow> int \<times> ngx_rtc_sdp_writer" where
  "ngx_rtc_sdp_write_attr name v w =
     (if \<not> nonempty v then (NGX_RTC_OK, w)
      else ngx_rtc_sdp_writer_append (ascii ''a='' @ ascii name @ ascii '':'' @ c_text v @ crlf) w)"

definition ngx_rtc_sdp_write_media ::
  "bytes \<Rightarrow> bytes \<Rightarrow> u8 \<Rightarrow> u32 \<Rightarrow> u32 \<Rightarrow> u32 \<Rightarrow> bytes \<Rightarrow> bytes option \<Rightarrow> ngx_rtc_sdp_answer \<Rightarrow> u8 \<Rightarrow> bytes option
    \<Rightarrow> ngx_rtc_sdp_writer \<Rightarrow> int \<times> ngx_rtc_sdp_writer" where
  "ngx_rtc_sdp_write_media ty mid pt ssrc clock_rate channels encoding fmtp cfg twcc_ext twcc_uri =
     writer_steps
       [ngx_rtc_sdp_writer_append (ascii ''m='' @ ty @ ascii '' 9 '' @ an_proto cfg @ ascii '' '' @ u8_text pt @ crlf),
        ngx_rtc_sdp_writer_append (ascii ''c=IN IP4 0.0.0.0'' @ crlf),
        ngx_rtc_sdp_writer_append (ascii ''a=mid:'' @ mid @ crlf),
        write_if (twcc_ext \<noteq> 0 \<and> nonempty twcc_uri)
          (ngx_rtc_sdp_writer_append (ascii ''a=extmap:'' @ u8_text twcc_ext @ ascii '' '' @ c_text twcc_uri @ crlf)),
        write_if (nonempty (an_candidate_ip cfg))
          (ngx_rtc_sdp_writer_append (ascii ''a=candidate:1 1 udp 2130706431 '' @ c_text (an_candidate_ip cfg) @ ascii '' ''
             @ u32_text (an_candidate_port cfg) @ ascii '' typ host generation 0'' @ crlf)),
        write_if (an_sendonly cfg \<noteq> 0)
          (ngx_rtc_sdp_writer_append (ascii (if 0 < an_sendonly cfg then ''a=sendonly'' else ''a=recvonly'') @ crlf)),
        write_if (an_rtcp_mux cfg \<noteq> 0) (ngx_rtc_sdp_writer_append (ascii ''a=rtcp-mux'' @ crlf)),
        write_if (an_rtcp_rsize cfg \<noteq> 0) (ngx_rtc_sdp_writer_append (ascii ''a=rtcp-rsize'' @ crlf)),
        ngx_rtc_sdp_writer_append
          (if channels \<noteq> 0
           then ascii ''a=rtpmap:'' @ u8_text pt @ ascii '' '' @ encoding @ ascii ''/'' @ u32_text clock_rate @ ascii ''/'' @ u32_text channels @ crlf
           else ascii ''a=rtpmap:'' @ u8_text pt @ ascii '' '' @ encoding @ ascii ''/'' @ u32_text clock_rate @ crlf),
        write_if (nonempty fmtp) (ngx_rtc_sdp_writer_append (ascii ''a=fmtp:'' @ u8_text pt @ ascii '' '' @ c_text fmtp @ crlf)),
        write_if (ty = ascii ''video'') (ngx_rtc_sdp_writer_append (ascii ''a=rtcp-fb:'' @ u8_text pt @ ascii '' nack pli'' @ crlf)),
        write_if (ty = ascii ''video'' \<and> an_sendonly cfg > 0) (ngx_rtc_sdp_writer_append (ascii ''a=rtcp-fb:'' @ u8_text pt @ ascii '' nack'' @ crlf)),
        ngx_rtc_sdp_writer_append (ascii ''a=ssrc:'' @ u32_text ssrc @ ascii '' cname:'' @ u32_text ssrc @ crlf)]"

definition bundle_mid :: "bytes \<times> bytes \<Rightarrow> ngx_rtc_sdp_writer \<Rightarrow> int \<times> ngx_rtc_sdp_writer" where
  "bundle_mid = (\<lambda>(ty, mid).
     write_if (ngx_rtc_sdp_streq ty (lit ''video'') \<or> ngx_rtc_sdp_streq ty (lit ''audio'')) (ngx_rtc_sdp_writer_append (ascii '' '' @ cstr mid)))"

definition answer_media :: "ngx_rtc_sdp_answer \<Rightarrow> bytes \<times> bytes \<Rightarrow> ngx_rtc_sdp_writer \<Rightarrow> int \<times> ngx_rtc_sdp_writer" where
  "answer_media cfg = (\<lambda>(ty, mid).
     if ngx_rtc_sdp_streq ty (lit ''video'')
     then ngx_rtc_sdp_write_media (ascii ''video'') (cstr mid) (an_video_pt cfg) (an_video_ssrc cfg) (an_video_clock_rate cfg) 0 (ascii ''H264'')
            (an_video_fmtp cfg) cfg (an_video_twcc_ext cfg) (an_video_twcc_uri cfg)
     else if ngx_rtc_sdp_streq ty (lit ''audio'')
     then ngx_rtc_sdp_write_media (ascii ''audio'') (cstr mid) (an_audio_pt cfg) (an_audio_ssrc cfg) (an_audio_clock_rate cfg) (an_audio_channels cfg)
            (ascii ''opus'') (an_audio_fmtp cfg) cfg (an_audio_twcc_ext cfg) (an_audio_twcc_uri cfg)
     else ngx_rtc_sdp_writer_append (ascii ''m='' @ cstr ty @ ascii '' 0 '' @ an_proto cfg @ crlf))"

definition answer_steps :: "ngx_rtc_sdp_answer \<Rightarrow> (ngx_rtc_sdp_writer \<Rightarrow> int \<times> ngx_rtc_sdp_writer) list" where
  "answer_steps cfg =
     (let media = zip (an_media_type cfg) (an_media_mid cfg) in
      [ngx_rtc_sdp_writer_append (ascii ''v=0'' @ crlf),
       ngx_rtc_sdp_writer_append (ascii ''o=ngx-rtc 0 1 IN IP4 0.0.0.0'' @ crlf),
       ngx_rtc_sdp_writer_append (ascii ''s=-'' @ crlf),
       ngx_rtc_sdp_writer_append (ascii ''t=0 0'' @ crlf),
       ngx_rtc_sdp_writer_append (ascii ''a=group:BUNDLE'')]
      @ map bundle_mid media
      @ [ngx_rtc_sdp_writer_append crlf,
         ngx_rtc_sdp_writer_append (ascii ''a=msid-semantic: WMS'' @ crlf),
         ngx_rtc_sdp_writer_append (ascii ''a=ice-lite'' @ crlf),
         ngx_rtc_sdp_write_attr ''ice-ufrag'' (an_ice_ufrag cfg),
         ngx_rtc_sdp_write_attr ''ice-pwd'' (an_ice_pwd cfg),
         write_if (nonempty (an_fingerprint_algo cfg) \<and> nonempty (an_fingerprint cfg))
           (ngx_rtc_sdp_writer_append (ascii ''a=fingerprint:'' @ c_text (an_fingerprint_algo cfg) @ ascii '' '' @ c_text (an_fingerprint cfg) @ crlf)),
         ngx_rtc_sdp_write_attr ''setup'' (an_setup cfg)]
      @ map (answer_media cfg) media)"

text \<open>The code, the buffer and the length: \<open>*out_len\<close> is stored on success only.\<close>

definition ngx_rtc_sdp_generate_answer :: "ngx_rtc_sdp_answer option \<Rightarrow> bytes option \<Rightarrow> nat \<Rightarrow> nat option \<Rightarrow> int \<times> bytes option \<times> nat option" where
  "ngx_rtc_sdp_generate_answer cfgp bufp cap out_len =
     (case (cfgp, bufp, out_len) of
        (Some cfg, Some buf, Some n) \<Rightarrow>
          if cap = 0 then (NGX_RTC_ERR_TOO_SMALL, bufp, out_len)
          else (case writer_steps (answer_steps cfg) \<lparr>wr_data = buf, wr_cap = cap, wr_len = 0\<rparr> of
                  (r, w) \<Rightarrow> (r, Some (wr_data w), if r \<noteq> 0 then out_len else Some (wr_len w)))
      | _ \<Rightarrow> (NGX_RTC_ERR_INVALID, bufp, out_len))"
end
