(* ===== verification/SdpText.thy ===== *)
theory SdpText
  imports Sdp
begin

text \<open>
  What the SDP answer generator computes: it writes exactly the text \<open>answer_text\<close> or reports that it
  does not fit.
\<close>

section \<open>The writer\<close>

text \<open>The writer holds the text \<open>s\<close> and has room for more.\<close>

definition holds :: "ngx_rtc_sdp_writer \<Rightarrow> bytes \<Rightarrow> bool" where
  "holds w s \<longleftrightarrow> take (wr_len w) (wr_data w) = s \<and> wr_len w = length s \<and> wr_len w < wr_cap w \<and> wr_cap w \<le> length (wr_data w)"

text \<open>A step that appends \<open>t\<close> when it fits, refuses it when not, and stays in the buffer.\<close>

definition writes :: "(ngx_rtc_sdp_writer \<Rightarrow> int \<times> ngx_rtc_sdp_writer) \<Rightarrow> bytes \<Rightarrow> bool" where
  "writes f t \<longleftrightarrow> (\<forall>w s. holds w s \<longrightarrow> (\<exists>r w'. f w = (r, w') \<and> wr_cap w' = wr_cap w \<and> length (wr_data w') = length (wr_data w)
     \<and> (if length s + length t < wr_cap w then r = NGX_RTC_OK \<and> holds w' (s @ t) else r = NGX_RTC_ERR_TOO_SMALL)))"

lemma writes_append [simp]: "writes (ngx_rtc_sdp_writer_append t) t"
  unfolding writes_def
proof (intro allI impI)
  fix w s assume h: "holds w s"
  let ?room = "wr_cap w - wr_len w"
  let ?d = "buf_put (wr_len w) (take (?room - 1) t @ [0]) (wr_data w)"
  have l: "wr_len w + length (take (?room - 1) t @ [0]) \<le> length (wr_data w)" using h by (auto simp: holds_def)
  have "holds (w\<lparr>wr_data := ?d, wr_len := wr_len w + length t\<rparr>) (s @ t)" if "length s + length t < wr_cap w"
    using that h by (auto simp: holds_def buf_put_def)
  then show "\<exists>r w'. ngx_rtc_sdp_writer_append t w = (r, w') \<and> wr_cap w' = wr_cap w \<and> length (wr_data w') = length (wr_data w)
     \<and> (if length s + length t < wr_cap w then r = NGX_RTC_OK \<and> holds w' (s @ t) else r = NGX_RTC_ERR_TOO_SMALL)"
    using h length_buf_put [OF l] by (auto simp: ngx_rtc_sdp_writer_append_def Let_def holds_def)
qed

lemma writes_skip: "writes (\<lambda>w. (NGX_RTC_OK, w)) []"
  by (auto simp: writes_def holds_def)

lemma writes_if [simp]: "writes f t \<Longrightarrow> writes (write_if b f) (if b then t else [])"
  using writes_skip by (cases b) (auto simp: write_if_def [abs_def])

lemma writes_steps: "list_all2 writes fs ts \<Longrightarrow> writes (writer_steps fs) (concat ts)"
proof (induction rule: list_all2_induct)
  case Nil
  then show ?case using writes_skip by (simp add: writes_def)
next
  case (Cons f fs t ts)
  show ?case
    unfolding writes_def
  proof (intro allI impI)
    fix w s assume h: "holds w s"
    then obtain r w1 where f: "f w = (r, w1)" "wr_cap w1 = wr_cap w" "length (wr_data w1) = length (wr_data w)"
      "if length s + length t < wr_cap w then r = NGX_RTC_OK \<and> holds w1 (s @ t) else r = NGX_RTC_ERR_TOO_SMALL"
      using Cons.hyps(1) unfolding writes_def by blast
    show "\<exists>r w'. writer_steps (f # fs) w = (r, w') \<and> wr_cap w' = wr_cap w \<and> length (wr_data w') = length (wr_data w)
     \<and> (if length s + length (concat (t # ts)) < wr_cap w then r = NGX_RTC_OK \<and> holds w' (s @ concat (t # ts)) else r = NGX_RTC_ERR_TOO_SMALL)"
    proof (cases "length s + length t < wr_cap w")
      case False
      then show ?thesis using f by auto
    next
      case True
      then have h1: "holds w1 (s @ t)" and r: "r = 0" using f(4) by simp_all
      then obtain r' w2 where g: "writer_steps fs w1 = (r', w2)" "wr_cap w2 = wr_cap w1" "length (wr_data w2) = length (wr_data w1)"
        "if length (s @ t) + length (concat ts) < wr_cap w1 then r' = NGX_RTC_OK \<and> holds w2 ((s @ t) @ concat ts) else r' = NGX_RTC_ERR_TOO_SMALL"
        using Cons.IH unfolding writes_def by blast
      then show ?thesis using f r by (auto simp: add.assoc split: if_splits)
    qed
  qed
qed

text \<open>The text of an answer, line by line.\<close>

definition carried :: "bytes \<Rightarrow> bool" where
  "carried ty \<longleftrightarrow> ngx_rtc_sdp_streq ty (lit ''video'') \<or> ngx_rtc_sdp_streq ty (lit ''audio'')"

definition attr_lines :: "string \<Rightarrow> bytes option \<Rightarrow> bytes list" where
  "attr_lines name v = (if nonempty v then [ascii ''a='' @ ascii name @ ascii '':'' @ c_text v] else [])"

definition media_lines :: "bytes \<Rightarrow> bytes \<Rightarrow> u8 \<Rightarrow> u32 \<Rightarrow> u32 \<Rightarrow> u32 \<Rightarrow> bytes \<Rightarrow> bytes option \<Rightarrow> ngx_rtc_sdp_answer \<Rightarrow> u8 \<Rightarrow> bytes option \<Rightarrow> bytes list" where
  "media_lines ty mid pt ssrc clock_rate channels encoding fmtp cfg twcc_ext twcc_uri =
     [ascii ''m='' @ ty @ ascii '' 9 '' @ an_proto cfg @ ascii '' '' @ u8_text pt,
      ascii ''c=IN IP4 0.0.0.0'',
      ascii ''a=mid:'' @ mid]
     @ (if twcc_ext \<noteq> 0 \<and> nonempty twcc_uri then [ascii ''a=extmap:'' @ u8_text twcc_ext @ ascii '' '' @ c_text twcc_uri] else [])
     @ (if nonempty (an_candidate_ip cfg)
        then [ascii ''a=candidate:1 1 udp 2130706431 '' @ c_text (an_candidate_ip cfg) @ ascii '' '' @ u32_text (an_candidate_port cfg)
                @ ascii '' typ host generation 0''] else [])
     @ (if an_sendonly cfg \<noteq> 0 then [ascii (if 0 < an_sendonly cfg then ''a=sendonly'' else ''a=recvonly'')] else [])
     @ (if an_rtcp_mux cfg \<noteq> 0 then [ascii ''a=rtcp-mux''] else [])
     @ (if an_rtcp_rsize cfg \<noteq> 0 then [ascii ''a=rtcp-rsize''] else [])
     @ [ascii ''a=rtpmap:'' @ u8_text pt @ ascii '' '' @ encoding @ ascii ''/'' @ u32_text clock_rate
          @ (if channels \<noteq> 0 then ascii ''/'' @ u32_text channels else [])]
     @ (if nonempty fmtp then [ascii ''a=fmtp:'' @ u8_text pt @ ascii '' '' @ c_text fmtp] else [])
     @ (if ty = ascii ''video'' then [ascii ''a=rtcp-fb:'' @ u8_text pt @ ascii '' nack pli''] else [])
     @ (if ty = ascii ''video'' \<and> an_sendonly cfg > 0 then [ascii ''a=rtcp-fb:'' @ u8_text pt @ ascii '' nack''] else [])
     @ [ascii ''a=ssrc:'' @ u32_text ssrc @ ascii '' cname:'' @ u32_text ssrc]"

definition section_lines :: "ngx_rtc_sdp_answer \<Rightarrow> bytes \<times> bytes \<Rightarrow> bytes list" where
  "section_lines cfg = (\<lambda>(ty, mid).
     if ngx_rtc_sdp_streq ty (lit ''video'')
     then media_lines (ascii ''video'') (cstr mid) (an_video_pt cfg) (an_video_ssrc cfg) (an_video_clock_rate cfg) 0 (ascii ''H264'')
            (an_video_fmtp cfg) cfg (an_video_twcc_ext cfg) (an_video_twcc_uri cfg)
     else if ngx_rtc_sdp_streq ty (lit ''audio'')
     then media_lines (ascii ''audio'') (cstr mid) (an_audio_pt cfg) (an_audio_ssrc cfg) (an_audio_clock_rate cfg) (an_audio_channels cfg)
            (ascii ''opus'') (an_audio_fmtp cfg) cfg (an_audio_twcc_ext cfg) (an_audio_twcc_uri cfg)
     else [ascii ''m='' @ cstr ty @ ascii '' 0 '' @ an_proto cfg])"

definition answer_media_list :: "ngx_rtc_sdp_answer \<Rightarrow> (bytes \<times> bytes) list" where
  "answer_media_list cfg = zip (an_media_type cfg) (an_media_mid cfg)"

definition bundle_line :: "ngx_rtc_sdp_answer \<Rightarrow> bytes" where
  "bundle_line cfg = ascii ''a=group:BUNDLE'' @ concat (map (\<lambda>(ty, mid). if carried ty then ascii '' '' @ cstr mid else []) (answer_media_list cfg))"

definition answer_lines :: "ngx_rtc_sdp_answer \<Rightarrow> bytes list" where
  "answer_lines cfg =
     [ascii ''v=0'', ascii ''o=ngx-rtc 0 1 IN IP4 0.0.0.0'', ascii ''s=-'', ascii ''t=0 0'', bundle_line cfg,
      ascii ''a=msid-semantic: WMS'', ascii ''a=ice-lite'']
     @ attr_lines ''ice-ufrag'' (an_ice_ufrag cfg)
     @ attr_lines ''ice-pwd'' (an_ice_pwd cfg)
     @ (if nonempty (an_fingerprint_algo cfg) \<and> nonempty (an_fingerprint cfg)
        then [ascii ''a=fingerprint:'' @ c_text (an_fingerprint_algo cfg) @ ascii '' '' @ c_text (an_fingerprint cfg)] else [])
     @ attr_lines ''setup'' (an_setup cfg)
     @ concat (map (section_lines cfg) (answer_media_list cfg))"

definition lines_text :: "bytes list \<Rightarrow> bytes" where
  "lines_text ls = concat (map (\<lambda>l. l @ crlf) ls)"

definition answer_text :: "ngx_rtc_sdp_answer \<Rightarrow> bytes" where
  "answer_text cfg = lines_text (answer_lines cfg)"

lemma lines_text_append [simp]: "lines_text (xs @ ys) = lines_text xs @ lines_text ys"
  by (simp add: lines_text_def)

lemma lines_text_simps [simp]: "lines_text [] = []" "lines_text (l # ls) = l @ crlf @ lines_text ls"
  by (simp_all add: lines_text_def)

lemma lines_text_if: "lines_text (if b then [l] else []) = (if b then l @ crlf else [])"
  by simp

lemma writes_cong: "writes f t \<Longrightarrow> t = t' \<Longrightarrow> writes f t'"
  by simp

lemma writes_write_attr: "writes (ngx_rtc_sdp_write_attr name v) (lines_text (attr_lines name v))"
proof (cases "nonempty v")
  case True
  have "ngx_rtc_sdp_write_attr name v = ngx_rtc_sdp_writer_append (ascii ''a='' @ ascii name @ ascii '':'' @ c_text v @ crlf)"
    using True by (intro ext) (simp add: ngx_rtc_sdp_write_attr_def)
  then show ?thesis using True writes_append [of "ascii ''a='' @ ascii name @ ascii '':'' @ c_text v @ crlf"] by (simp add: attr_lines_def)
next
  case False
  have "ngx_rtc_sdp_write_attr name v = (\<lambda>w. (NGX_RTC_OK, w))" using False by (intro ext) (simp add: ngx_rtc_sdp_write_attr_def)
  then show ?thesis using False writes_skip by (simp add: attr_lines_def)
qed

lemma writes_write_media:
  "writes (ngx_rtc_sdp_write_media ty mid pt ssrc clock_rate channels encoding fmtp cfg twcc_ext twcc_uri)
     (lines_text (media_lines ty mid pt ssrc clock_rate channels encoding fmtp cfg twcc_ext twcc_uri))"
  unfolding ngx_rtc_sdp_write_media_def
  by (rule writes_cong, rule writes_steps)
    ((rule list_all2_Cons [THEN iffD2] list.rel_intros conjI writes_append writes_if)+, simp add: media_lines_def lines_text_if)

lemma writes_section: "writes (answer_media cfg x) (lines_text (section_lines cfg x))"
  by (cases x) (auto simp: answer_media_def section_lines_def writes_write_media intro: writes_cong [OF writes_append])

lemma writes_answer: "writes (writer_steps (answer_steps cfg)) (answer_text cfg)"
proof -
  let ?ms = "answer_media_list cfg"
  let ?ts = "[ascii ''v=0'' @ crlf, ascii ''o=ngx-rtc 0 1 IN IP4 0.0.0.0'' @ crlf, ascii ''s=-'' @ crlf, ascii ''t=0 0'' @ crlf, ascii ''a=group:BUNDLE'']
     @ map (\<lambda>(ty, mid). if carried ty then ascii '' '' @ cstr mid else []) ?ms
     @ [crlf, ascii ''a=msid-semantic: WMS'' @ crlf, ascii ''a=ice-lite'' @ crlf, lines_text (attr_lines ''ice-ufrag'' (an_ice_ufrag cfg)),
        lines_text (attr_lines ''ice-pwd'' (an_ice_pwd cfg)),
        (if nonempty (an_fingerprint_algo cfg) \<and> nonempty (an_fingerprint cfg)
         then ascii ''a=fingerprint:'' @ c_text (an_fingerprint_algo cfg) @ ascii '' '' @ c_text (an_fingerprint cfg) @ crlf else []),
        lines_text (attr_lines ''setup'' (an_setup cfg))]
     @ map (\<lambda>x. lines_text (section_lines cfg x)) ?ms"
  have mid: "writes (bundle_mid x) (case x of (ty, mid) \<Rightarrow> if carried ty then ascii '' '' @ cstr mid else [])" for x
    by (cases x) (simp add: bundle_mid_def carried_def)
  have "list_all2 writes (answer_steps cfg) ?ts"
    unfolding answer_steps_def Let_def answer_media_list_def [symmetric]
    by (intro list_all2_appendI list_all2_Cons [THEN iffD2] conjI list.rel_intros writes_append writes_if writes_write_attr)
      (auto simp: list.rel_map mid writes_section list_all2_same)
  moreover have "concat ?ts = answer_text cfg"
  proof -
    have "lines_text (concat (map f xs)) = concat (map (\<lambda>x. lines_text (f x)) xs)" for f :: "bytes \<times> bytes \<Rightarrow> bytes list" and xs
      by (induction xs) simp_all
    then show ?thesis by (simp add: answer_text_def answer_lines_def bundle_line_def lines_text_if)
  qed
  ultimately show ?thesis using writes_steps by metis
qed

lemma generate_answer_exact:
  assumes "cap \<le> length buf"
  shows "\<exists>buf'. length buf' = length buf \<and>
    (if length (answer_text cfg) < cap
     then ngx_rtc_sdp_generate_answer (Some cfg) (Some buf) cap (Some n) = (NGX_RTC_OK, Some buf', Some (length (answer_text cfg)))
          \<and> take (length (answer_text cfg)) buf' = answer_text cfg
     else ngx_rtc_sdp_generate_answer (Some cfg) (Some buf) cap (Some n) = (NGX_RTC_ERR_TOO_SMALL, Some buf', Some n))"
proof (cases "cap = 0")
  case True
  then show ?thesis by (simp add: ngx_rtc_sdp_generate_answer_def)
next
  case False
  let ?w = "\<lparr>wr_data = buf, wr_cap = cap, wr_len = 0\<rparr>"
  have h: "holds ?w []" using False assms by (simp add: holds_def)
  obtain r w' where "writer_steps (answer_steps cfg) ?w = (r, w')" "length (wr_data w') = length buf"
    "if length (answer_text cfg) < cap then r = NGX_RTC_OK \<and> holds w' (answer_text cfg) else r = NGX_RTC_ERR_TOO_SMALL"
    using writes_answer [of cfg, unfolded writes_def, rule_format, OF h] by (auto cong: if_cong)
  then show ?thesis using False by (intro exI [of _ "wr_data w'"]) (auto simp: ngx_rtc_sdp_generate_answer_def holds_def)
qed

text \<open>
  C27. The answer generator writes exactly the answer text and its length when the text and its NUL fit the
  buffer, reports that the buffer is too small when they do not, and never writes outside the buffer.
\<close>

theorem sdp_answer_exact:
  assumes "cap \<le> length buf"
  shows "\<exists>buf'. length buf' = length buf \<and>
    (if length (answer_text cfg) < cap
     then ngx_rtc_sdp_generate_answer (Some cfg) (Some buf) cap (Some n) = (NGX_RTC_OK, Some buf', Some (length (answer_text cfg)))
          \<and> take (length (answer_text cfg)) buf' = answer_text cfg
     else ngx_rtc_sdp_generate_answer (Some cfg) (Some buf) cap (Some n) = (NGX_RTC_ERR_TOO_SMALL, Some buf', Some n))"
  using assms by (rule generate_answer_exact)

theorem sdp_answer_exact_witness:
  "\<exists>buf'. length buf' = 3 \<and>
    (if length (answer_text answer_default) < 3
     then ngx_rtc_sdp_generate_answer (Some answer_default) (Some (replicate 3 0)) 3 (Some 7) = (NGX_RTC_OK, Some buf', Some (length (answer_text answer_default)))
          \<and> take (length (answer_text answer_default)) buf' = answer_text answer_default
     else ngx_rtc_sdp_generate_answer (Some answer_default) (Some (replicate 3 0)) 3 (Some 7) = (NGX_RTC_ERR_TOO_SMALL, Some buf', Some 7))"
proof -
  have "3 \<le> length (replicate 3 (0 :: u8))" by simp
  from sdp_answer_exact [OF this, of answer_default 7] show ?thesis by (simp only: length_replicate)
qed

end
