(* ===== verification/SdpRoundtrip.thy ===== *)
theory SdpRoundtrip
  imports SdpText
begin

text \<open>Reading back an answer: lemmas on tokens, numbers and lines, then the round trip.\<close>

section \<open>Characters and numbers\<close>

lemma of_char_u8: "(of_char c :: u8) = of_nat (of_char c)"
  by (rule of_nat_of_char [symmetric])

lemma of_char_u8_inj: "(of_char c :: u8) = of_char d \<longleftrightarrow> c = d"
proof
  assume "(of_char c :: u8) = of_char d"
  then have "unat (of_nat (of_char c) :: u8) = unat (of_nat (of_char d) :: u8)" unfolding of_char_u8 by simp
  then have "(of_char c :: nat) = of_char d" by (simp add: unat_of_nat)
  then show "c = d" by simp
qed simp

lemma ascii_inj [simp]: "ascii a = ascii b \<longleftrightarrow> a = b"
  by (simp add: ascii_def inj_map_eq_map inj_def of_char_u8_inj)

lemma name_eq [simp]: "ngx_rtc_sdp_name_eq a b \<longleftrightarrow> a = ascii b"
  by (auto simp: ngx_rtc_sdp_name_eq_def list.rel_eq ascii_def)

lemma ascii_append: "ascii (a @ b) = ascii a @ ascii b"
  by (simp add: ascii_def)

lemma length_ascii [simp]: "length (ascii s) = length s"
  by (simp add: ascii_def)

definition digit :: "u8 \<Rightarrow> bool" where
  "digit c \<longleftrightarrow> 0x30 \<le> c \<and> c \<le> 0x39"

lemma digit_of_nat: "n < 10 \<Longrightarrow> digit (0x30 + of_nat n) \<and> unat ((0x30 + of_nat n :: u8) - 0x30) = n"
proof -
  assume n: "n < 10"
  then have u: "unat (of_nat n :: u8) = n" by (simp add: unat_of_nat)
  have "unat (0x30 + of_nat n :: u8) = 0x30 + n" using n u by (simp add: unat_word_ariths)
  then show ?thesis using n u by (simp add: digit_def word_le_nat_alt)
qed

lemma dec_digits: "\<forall>c \<in> set (dec n). digit c" and dec_ne: "dec n \<noteq> []"
proof -
  show "\<forall>c \<in> set (dec n). digit c"
  proof (induction n rule: dec.induct)
    case (1 n)
    then show ?case using digit_of_nat [of n] digit_of_nat [of "n mod 10"] by (subst dec.simps) (auto split: if_splits)
  qed
  show "dec n \<noteq> []" by (subst dec.simps) simp
qed

lemma u32_loop_digit:
  assumes "n * 10 + d < 2 ^ 32" "d < 10"
  shows "u32_loop ((0x30 + of_nat d) # cs) (of_nat n) seen = u32_loop cs (of_nat (n * 10 + d)) True"
proof -
  have dg: "digit (0x30 + of_nat d)" "unat ((0x30 + of_nat d :: u8) - 0x30) = d" using digit_of_nat [OF assms(2)] by simp_all
  have c: "ucast ((0x30 + of_nat d :: u8) - 0x30) = (of_nat d :: u32)"
    using dg(2) by (metis of_nat_unat ucast_id unsigned_of_nat)
  have n: "unat (of_nat n :: u32) = n" "unat (of_nat d :: u32) = d" using assms by (simp_all add: unat_of_nat)
  have le: "(of_nat d :: u32) \<le> 0xffffffff" using assms(2) by (simp add: word_le_nat_alt n)
  have "unat ((0xffffffff - of_nat d :: u32) div 10) = (4294967295 - d) div 10"
    using le n by (simp add: unat_div unat_sub)
  moreover have "n \<le> (4294967295 - d) div 10" using assms by simp
  ultimately have "\<not> of_nat n > (0xffffffff - of_nat d :: u32) div 10" by (simp add: word_less_nat_alt n)
  then show ?thesis using dg(1) c by (auto simp: digit_def Let_def dest: leD)
qed

lemma u32_loop_dec:
  assumes "n < 2 ^ 32"
  shows "u32_loop (dec n @ cs) 0 False = u32_loop cs (of_nat n) True"
  using assms
proof (induction n arbitrary: cs rule: dec.induct)
  case (1 n)
  show ?case
  proof (cases "n < 10")
    case True
    then show ?thesis using u32_loop_digit [of 0 n cs False] by (subst dec.simps) simp
  next
    case False
    have "u32_loop (dec (n div 10) @ (0x30 + of_nat (n mod 10)) # cs) 0 False = u32_loop ((0x30 + of_nat (n mod 10)) # cs) (of_nat (n div 10)) True"
      using 1 False by simp
    also have "\<dots> = u32_loop cs (of_nat (n div 10 * 10 + n mod 10)) True" by (rule u32_loop_digit) (use 1 in simp_all)
    finally show ?thesis using False by (subst dec.simps) simp
  qed
qed

lemma parse_u32_text [simp]: "ngx_rtc_sdp_parse_u32 (u32_text v) = Inr v"
  using u32_loop_dec [of "unat v" "[]"] unat_u32_less [of v] by (simp add: ngx_rtc_sdp_parse_u32_def u32_text_def)

lemma parse_u8_text [simp]: "ngx_rtc_sdp_parse_u32 (u8_text v) = Inr (ucast v)"
proof -
  have "unat v < 2 ^ 32" using unsigned_less [of v, where 'a = nat] by simp
  then show ?thesis using u32_loop_dec [of "unat v" "[]"] by (simp add: ngx_rtc_sdp_parse_u32_def u8_text_def)
qed

section \<open>Scanning\<close>

lemma scan_at:
  assumes "\<forall>c \<in> set x. P c" "b = [] \<or> \<not> P (hd b)"
  shows "scan P (a @ x @ b) (length a) = length a + length x"
  using assms(1)
proof (induction x arbitrary: a)
  case Nil
  then show ?case using assms(2) by (subst scan.simps) (cases b; simp add: nth_append)
next
  case (Cons c x)
  have "scan P ((a @ [c]) @ x @ b) (length (a @ [c])) = length (a @ [c]) + length x" by (rule Cons.IH) (use Cons.prems in simp)
  then show ?case using Cons.prems by (subst scan.simps) (simp add: nth_append)
qed

lemma scan_from_0: "\<forall>c \<in> set x. P c \<Longrightarrow> b = [] \<or> \<not> P (hd b) \<Longrightarrow> scan P (x @ b) 0 = length x"
  using scan_at [of x P b "[]"] by simp

lemma scan_here: "\<not> P (hd (x @ b)) \<or> x @ b = [] \<Longrightarrow> scan P (a @ x @ b) (length a) = length a"
  using scan_at [of "[]" P "x @ b" a] by auto

definition ws_free :: "bytes \<Rightarrow> bool" where "ws_free s \<longleftrightarrow> (\<forall>c \<in> set s. \<not> is_ws c)"
definition eol_free :: "bytes \<Rightarrow> bool" where "eol_free s \<longleftrightarrow> (\<forall>c \<in> set s. \<not> is_eol c)"

lemma free_append [simp]: "ws_free (a @ b) \<longleftrightarrow> ws_free a \<and> ws_free b" "eol_free (a @ b) \<longleftrightarrow> eol_free a \<and> eol_free b"
  by (auto simp: ws_free_def eol_free_def)

lemma free_Nil [simp]: "ws_free []" "eol_free []"
  by (simp_all add: ws_free_def eol_free_def)

lemma digit_free: "digit c \<Longrightarrow> \<not> is_ws c \<and> \<not> is_eol c"
  by (auto simp: digit_def is_ws_def is_eol_def)

lemma dec_free [simp]: "ws_free (dec n)" "eol_free (dec n)"
  using dec_digits digit_free by (auto simp: ws_free_def eol_free_def)

lemma text_free [simp]: "ws_free (u32_text v)" "eol_free (u32_text v)" "ws_free (u8_text p)" "eol_free (u8_text p)" "u32_text v \<noteq> []" "u8_text p \<noteq> []"
  using dec_ne by (simp_all add: u32_text_def u8_text_def)

text \<open>A token between blanks.\<close>

lemma next_token_at:
  assumes "tok \<noteq> []" "ws_free tok" "b = [] \<or> is_ws (hd b)" "\<forall>c \<in> set w. is_ws c"
  shows "ngx_rtc_sdp_next_token (a @ w @ tok @ b) (length a) = Inr (tok, length a + length w + length tok)"
proof -
  have ht: "\<not> is_ws (hd tok)" using assms(1,2) by (cases tok) (simp_all add: ws_free_def)
  have s: "scan is_ws (a @ w @ tok @ b) (length a) = length a + length w"
    using scan_at [of w is_ws "tok @ b" a] assms(1,4) ht by simp
  have "scan (\<lambda>c. \<not> is_ws c) ((a @ w) @ tok @ b) (length (a @ w)) = length (a @ w) + length tok"
    by (rule scan_at) (use assms(2,3) in \<open>auto simp: ws_free_def\<close>)
  then show ?thesis using s assms(1) by (simp add: ngx_rtc_sdp_next_token_def ngx_rtc_sdp_skip_ws_def Let_def buf_get_def)
qed

lemma first_token: "tok \<noteq> [] \<Longrightarrow> ws_free tok \<Longrightarrow> b = [] \<or> is_ws (hd b) \<Longrightarrow> ngx_rtc_sdp_next_token (tok @ b) 0 = Inr (tok, length tok)"
  using next_token_at [of tok b "[]" "[]"] by simp

lemma skip_blank:
  assumes "x = [] \<or> \<not> is_ws (hd x)"
  shows "ngx_rtc_sdp_skip_ws (a @ 0x20 # x) (length a) = length a + 1"
  using scan_at [of "[0x20]" is_ws x a] assms by (simp add: ngx_rtc_sdp_skip_ws_def is_ws_def)

section \<open>Lines\<close>

fun fold_lines :: "bytes list \<Rightarrow> ngx_rtc_sdp_parser \<Rightarrow> int + ngx_rtc_sdp_parser" where
  "fold_lines [] st = Inr st"
| "fold_lines (l # ls) st =
     and_then (if length l \<ge> 2 \<and> l ! 1 = 0x3d then ngx_rtc_sdp_parse_line st l else Inr st) (fold_lines ls)"

lemma and_then_simps [simp]: "and_then (Inr x) f = f x" "and_then (Inl e) f = Inl e"
  by (simp_all add: and_then_def)

lemma and_then_assoc: "and_then (and_then r f) g = and_then r (\<lambda>x. and_then (f x) g)"
  by (cases r) simp_all

lemma fold_lines_append: "fold_lines (xs @ ys) st = and_then (fold_lines xs st) (fold_lines ys)"
proof (induction xs arbitrary: st)
  case (Cons l xs)
  then have "fold_lines (xs @ ys) = (\<lambda>st. and_then (fold_lines xs st) (fold_lines ys))" by blast
  then show ?case by (simp add: and_then_assoc)
qed simp

lemma crlf_eol: "is_eol 0x0d" "is_eol 0x0a"
  by (simp_all add: is_eol_def)

lemma line_loop_lines:
  assumes "\<forall>l \<in> set ls. eol_free l"
  shows "line_loop (a @ lines_text ls) (length a) st = fold_lines ls st"
  using assms
proof (induction ls arbitrary: a st)
  case Nil
  then show ?case by (subst line_loop.simps) simp
next
  case (Cons l ls)
  let ?sdp = "a @ l @ crlf @ lines_text ls"
  have e: "line_end ?sdp (length a) = length a + length l"
    unfolding line_end_def by (rule scan_at) (use Cons.prems in \<open>auto simp: eol_free_def crlf_def is_eol_def\<close>)
  have n: "line_next ?sdp (length a + length l) = length (a @ l @ crlf)"
    by (simp add: line_next_def Let_def crlf_def nth_append)
  have b: "buf_get (length a) (length l) ?sdp = l" by (simp add: buf_get_def)
  have ih: "line_loop ((a @ l @ crlf) @ lines_text ls) (length (a @ l @ crlf)) st = fold_lines ls st" for st
    by (rule Cons.IH) (use Cons.prems in simp)
  then have ih': "line_loop ?sdp (length (a @ l @ crlf)) st = fold_lines ls st" for st by simp
  have "line_loop ?sdp (length a) st = and_then (if length l \<ge> 2 \<and> l ! 1 = 0x3d then ngx_rtc_sdp_parse_line st l else Inr st)
     (\<lambda>st. line_loop ?sdp (length (a @ l @ crlf)) st)"
    by (subst line_loop.simps) (simp only: e n Let_def b add_diff_cancel_left', simp add: crlf_def)
  then show ?case unfolding ih' by simp
qed

section \<open>Attribute lines\<close>

definition mediap :: "ngx_rtc_sdp_parser \<Rightarrow> nat option" where
  "mediap st = (if sp_in_media st then Some (length (sp_media st) - 1) else None)"

lemma parse_line_attr:
  assumes "0x3a \<notin> set name"
  shows "ngx_rtc_sdp_parse_line st (0x61 # 0x3d # name @ 0x3a # v) = ngx_rtc_sdp_apply_attr st name v (mediap st)"
    "ngx_rtc_sdp_parse_line st (0x61 # 0x3d # name) = ngx_rtc_sdp_apply_attr st name [] (mediap st)"
proof -
  have "scan (\<lambda>c. c \<noteq> 0x3a) (name @ 0x3a # v) 0 = length name" by (rule scan_from_0) (use assms in auto)
  then show "ngx_rtc_sdp_parse_line st (0x61 # 0x3d # name @ 0x3a # v) = ngx_rtc_sdp_apply_attr st name v (mediap st)"
    by (simp add: ngx_rtc_sdp_parse_line_def ngx_rtc_sdp_parse_attr_def Let_def mediap_def)
  have "scan (\<lambda>c. c \<noteq> 0x3a) (name @ []) 0 = length name" by (rule scan_from_0) (use assms in auto)
  then show "ngx_rtc_sdp_parse_line st (0x61 # 0x3d # name) = ngx_rtc_sdp_apply_attr st name [] (mediap st)"
    by (simp add: ngx_rtc_sdp_parse_line_def ngx_rtc_sdp_parse_attr_def Let_def mediap_def)
qed

lemma fold_attr:
  assumes "0x3a \<notin> set name"
  shows "fold_lines ((0x61 # 0x3d # name @ 0x3a # v) # ls) st = and_then (ngx_rtc_sdp_apply_attr st name v (mediap st)) (fold_lines ls)"
    "fold_lines ((0x61 # 0x3d # name) # ls) st = and_then (ngx_rtc_sdp_apply_attr st name [] (mediap st)) (fold_lines ls)"
  using parse_line_attr [OF assms] by simp_all

definition known_attrs :: "string list" where
  "known_attrs = [''ice-ufrag'', ''ice-pwd'', ''setup'', ''fingerprint'', ''mid'', ''rtpmap'', ''ssrc'', ''fmtp'', ''extmap'']"

lemma apply_unknown: "name \<notin> set known_attrs \<Longrightarrow> ngx_rtc_sdp_apply_attr st (ascii name) v mp = Inr st"
  by (simp add: known_attrs_def ngx_rtc_sdp_apply_attr_def split: option.splits)

text \<open>A line that the parser has no use for.\<close>

lemma fold_other:
  assumes "2 \<le> length l" "l ! 0 \<noteq> 0x6d" "l ! 0 \<noteq> 0x61"
  shows "fold_lines (l # ls) st = fold_lines ls st"
  using assms by (simp add: ngx_rtc_sdp_parse_line_def Let_def)

lemma fold_unknown:
  assumes "name \<notin> set known_attrs" "0x3a \<notin> set (ascii name)"
  shows "fold_lines ((0x61 # 0x3d # ascii name @ 0x3a # v) # ls) st = fold_lines ls st"
    "fold_lines ((0x61 # 0x3d # ascii name) # ls) st = fold_lines ls st"
  using fold_attr [OF assms(2)] apply_unknown [OF assms(1)] by simp_all

text \<open>A field filled with the text \<open>s\<close>.\<close>

definition put :: "nat \<Rightarrow> bytes \<Rightarrow> bytes" where
  "put n s = buf_put 0 (s @ [0]) (replicate n 0)"

lemma cstr_put [simp]: "0 \<notin> set s \<Longrightarrow> cstr (put n s) = s"
  using cstr_append_0 [of s "drop (Suc (length s)) (replicate n 0)"] by (simp add: put_def buf_put_def)

lemma copy_token_zero [simp]: "length s < n \<Longrightarrow> ngx_rtc_sdp_copy_token (replicate n 0) s = Inr (put n s)"
  by (auto simp: ngx_rtc_sdp_copy_token_def put_def)

lemma set_if_empty_zero [simp]: "length s < n \<Longrightarrow> ngx_rtc_sdp_set_if_empty (replicate n 0) s = Inr (put n s)"
  by (cases n) (simp_all add: ngx_rtc_sdp_set_if_empty_def del: replicate_Suc)

section \<open>Media sections\<close>

definition within :: "ngx_rtc_sdp_parser \<Rightarrow> ngx_rtc_sdp_media list \<Rightarrow> ngx_rtc_sdp_media \<Rightarrow> ngx_rtc_sdp_parser" where
  "within st ms m = st\<lparr>sp_media := ms @ [m], sp_in_media := True\<rparr>"

lemma mediap_within [simp]: "mediap (within st ms m) = Some (length ms)"
  by (simp add: mediap_def within_def)

lemma on_media_within [simp]: "on_media f (within st ms m) (length ms) = and_then (f m) (\<lambda>m. Inr (within st ms m))"
  by (cases "f m") (simp_all add: on_media_def within_def)

lemma apply_media [simp]:
  "ngx_rtc_sdp_apply_attr (within st ms m) (ascii ''mid'') v (Some (length ms)) =
     and_then (ngx_rtc_sdp_copy_token (md_mid m) v) (\<lambda>x. Inr (within st ms (m\<lparr>md_mid := x\<rparr>)))"
  "ngx_rtc_sdp_apply_attr (within st ms m) (ascii ''rtpmap'') v (Some (length ms)) = and_then (ngx_rtc_sdp_parse_rtpmap m v) (\<lambda>m. Inr (within st ms m))"
  "ngx_rtc_sdp_apply_attr (within st ms m) (ascii ''ssrc'') v (Some (length ms)) = and_then (ngx_rtc_sdp_parse_ssrc m v) (\<lambda>m. Inr (within st ms m))"
  "ngx_rtc_sdp_apply_attr (within st ms m) (ascii ''fmtp'') v (Some (length ms)) = and_then (ngx_rtc_sdp_parse_fmtp m v) (\<lambda>m. Inr (within st ms m))"
  "ngx_rtc_sdp_apply_attr (within st ms m) (ascii ''extmap'') v (Some (length ms)) = and_then (ngx_rtc_sdp_parse_extmap m v) (\<lambda>m. Inr (within st ms m))"
  by (simp_all add: ngx_rtc_sdp_apply_attr_def and_then_assoc)

lemma u8_u32: "pt \<le> (127 :: u8) \<Longrightarrow> \<not> (127 :: u32) < ucast pt" "(ucast (ucast (pt :: u8) :: u32) :: u8) = pt"
proof -
  have "unat (ucast pt :: u32) = unat pt"
    using unsigned_less [of pt, where 'a = nat] by (simp add: unsigned_ucast_eq take_bit_nat_eq_self)
  then show "pt \<le> (127 :: u8) \<Longrightarrow> \<not> (127 :: u32) < ucast pt" by (simp add: word_less_nat_alt word_le_nat_alt)
  show "(ucast (ucast (pt :: u8) :: u32) :: u8) = pt" by (rule bit_word_eqI) (auto simp: bit_simps)
qed

lemma leading_pt_one:
  assumes "md_pts m = [p]" "pt_pt p = pt" "pt \<le> 127" "x \<noteq> []" "\<not> is_ws (hd x)"
  shows "leading_pt m (u8_text pt @ 0x20 # x) = Inr (0, length (u8_text pt) + 1)"
proof -
  have "ngx_rtc_sdp_next_token (u8_text pt @ 0x20 # x) 0 = Inr (u8_text pt, length (u8_text pt))"
    by (rule first_token) (simp_all add: is_ws_def)
  then show ?thesis using assms u8_u32 [of pt] skip_blank [of x "u8_text pt"] by (simp add: leading_pt_def ngx_rtc_sdp_find_pt_def)
qed

lemma rtpmap_one:
  assumes "md_pts m = [p]" "pt_pt p = pt" "pt \<le> 127" "pt_encoding p = replicate NGX_RTC_SDP_STR_LEN 0"
    and enc: "enc \<noteq> []" "\<not> is_ws (hd enc)" "0x2f \<notin> set enc" "length enc < NGX_RTC_SDP_STR_LEN"
  shows "ngx_rtc_sdp_parse_rtpmap m (u8_text pt @ 0x20 # enc @ 0x2f # u32_text clock) =
      Inr (m\<lparr>md_pts := [p\<lparr>pt_encoding := put NGX_RTC_SDP_STR_LEN enc, pt_clock_rate := clock\<rparr>]\<rparr>)"
    "ngx_rtc_sdp_parse_rtpmap m (u8_text pt @ 0x20 # enc @ 0x2f # u32_text clock @ 0x2f # u32_text ch) =
      Inr (m\<lparr>md_pts := [p\<lparr>pt_encoding := put NGX_RTC_SDP_STR_LEN enc, pt_clock_rate := clock, pt_channels := ch\<rparr>]\<rparr>)"
proof -
  let ?a = "u8_text pt @ [0x20]"
  have slash: "0x2f \<notin> set (u32_text v)" for v using dec_digits [of "unat v"] by (auto simp: u32_text_def digit_def)
  have e: "scan (\<lambda>c. c \<noteq> 0x2f) (?a @ enc @ 0x2f # y) (length ?a) = length ?a + length enc" for y
    by (rule scan_at) (use enc(3) in auto)
  have c: "scan (\<lambda>c. c \<noteq> 0x2f) ((?a @ enc @ [0x2f]) @ u32_text clock @ y) (length (?a @ enc @ [0x2f])) = length (?a @ enc @ [0x2f]) + length (u32_text clock)"
    if "y = [] \<or> hd y = 0x2f" for y
    by (rule scan_at) (use slash [of clock] that in auto)
  have lp: "leading_pt m (u8_text pt @ 0x20 # enc @ 0x2f # y) = Inr (0, length ?a)" for y
    using leading_pt_one [OF assms(1-3), of "enc @ 0x2f # y"] enc(1,2) by simp
  have d: "drop (3 + (length enc + length (u32_text clock))) (0x20 # enc @ 0x2f # u32_text clock @ 0x2f # y) = y" for y
    by (simp add: eval_nat_numeral)
  show "ngx_rtc_sdp_parse_rtpmap m (u8_text pt @ 0x20 # enc @ 0x2f # u32_text clock) =
      Inr (m\<lparr>md_pts := [p\<lparr>pt_encoding := put NGX_RTC_SDP_STR_LEN enc, pt_clock_rate := clock\<rparr>]\<rparr>)"
    using lp [of "u32_text clock"] e [of "u32_text clock"] c [of "[]"] assms(1,4) enc(4)
    by (simp add: ngx_rtc_sdp_parse_rtpmap_def Let_def buf_get_def)
  show "ngx_rtc_sdp_parse_rtpmap m (u8_text pt @ 0x20 # enc @ 0x2f # u32_text clock @ 0x2f # u32_text ch) =
      Inr (m\<lparr>md_pts := [p\<lparr>pt_encoding := put NGX_RTC_SDP_STR_LEN enc, pt_clock_rate := clock, pt_channels := ch\<rparr>]\<rparr>)"
    using lp [of "u32_text clock @ 0x2f # u32_text ch"] e [of "u32_text clock @ 0x2f # u32_text ch"] c [of "0x2f # u32_text ch"] assms(1,4) enc(4) d [of "u32_text ch"]
    by (simp add: ngx_rtc_sdp_parse_rtpmap_def Let_def buf_get_def)
qed

lemma fmtp_one:
  assumes "md_pts m = [p]" "pt_pt p = pt" "pt \<le> 127" "pt_fmtp p = replicate NGX_RTC_SDP_FMTP_LEN 0"
    "f \<noteq> []" "\<not> is_ws (hd f)" "length f < NGX_RTC_SDP_FMTP_LEN"
  shows "ngx_rtc_sdp_parse_fmtp m (u8_text pt @ 0x20 # f) = Inr (m\<lparr>md_pts := [p\<lparr>pt_fmtp := put NGX_RTC_SDP_FMTP_LEN f\<rparr>]\<rparr>)"
  using leading_pt_one [OF assms(1-3,5,6)] assms(1,4,7) by (simp add: ngx_rtc_sdp_parse_fmtp_def)

lemma ssrc_text: "ngx_rtc_sdp_parse_ssrc m (u32_text v @ 0x20 # x) = Inr (m\<lparr>md_ssrc := v\<rparr>)"
  using first_token [of "u32_text v" "0x20 # x"] by (simp add: ngx_rtc_sdp_parse_ssrc_def is_ws_def)
lemma extmap_id_dec: "extmap_id (dec n) = of_nat n"
proof (induction n rule: dec.induct)
  case (1 n)
  have d: "ucast ((0x30 + of_nat k :: u8) - 0x30) = (of_nat k :: u32)" if "k < 10" for k
    using digit_of_nat [OF that] by (metis of_nat_unat ucast_id unsigned_of_nat)
  show ?case
  proof (cases "n < 10")
    case True
    then show ?thesis using d [of n] by (subst dec.simps) (simp add: extmap_id_def)
  next
    case False
    then have "extmap_id (dec (n div 10) @ [0x30 + of_nat (n mod 10)]) = of_nat (n div 10) * 10 + of_nat (n mod 10)"
      using 1 d [of "n mod 10"] by (simp add: extmap_id_def)
    also have "\<dots> = of_nat (n div 10 * 10 + n mod 10)" by (simp only: of_nat_add of_nat_mult of_nat_numeral)
    finally show ?thesis using False by (subst dec.simps) simp
  qed
qed

definition twcc_uri_ok :: "bytes \<Rightarrow> bool" where
  "twcc_uri_ok uri \<longleftrightarrow> ws_free uri \<and> eol_free uri \<and> length uri < NGX_RTC_SDP_TWCC_URI_LEN \<and> (\<exists>a b. uri = a @ ascii ''transport-wide-cc'' @ b)"

lemma twcc_match_at:
  assumes "v = p @ ascii ''transport-wide-cc'' @ q" "i \<le> length p" "length p + 17 \<le> e"
  shows "twcc_match v i e"
  using assms(2)
proof (induction "length p - i" arbitrary: i)
  case 0
  then have "i = length p" by simp
  then show ?case using assms(1,3) by (subst twcc_match.simps) (simp add: buf_get_def)
next
  case (Suc k)
  then have "twcc_match v (i + 1) e" by simp
  then show ?case using Suc.prems assms(3) by (subst twcc_match.simps) simp
qed

lemma extmap_one:
  assumes e: "ext \<noteq> 0" "ext \<le> 14" and uri: "twcc_uri_ok uri"
    and m: "md_twcc_uri m = replicate NGX_RTC_SDP_TWCC_URI_LEN 0"
  shows "ngx_rtc_sdp_parse_extmap m (u8_text ext @ 0x20 # uri) = Inr (m\<lparr>md_twcc_uri := put NGX_RTC_SDP_TWCC_URI_LEN uri, md_twcc_ext := ext\<rparr>)"
proof -
  obtain p q where pq: "uri = p @ ascii ''transport-wide-cc'' @ q" using uri by (auto simp: twcc_uri_ok_def)
  have ne: "uri \<noteq> []" using pq by (simp add: ascii_def)
  let ?a = "u8_text ext"
  have dg: "\<forall>c \<in> set ?a. digit c" using dec_digits by (simp add: u8_text_def)
  have h: "\<not> is_ws (hd ?a)" using dg digit_free text_free(6) [of ext] by (metis hd_in_set)
  have s0: "ngx_rtc_sdp_skip_ws (?a @ 0x20 # uri) 0 = 0"
    using scan_from_0 [of "[]" is_ws "?a @ 0x20 # uri"] h by (simp add: ngx_rtc_sdp_skip_ws_def)
  have s1: "scan (\<lambda>c. 0x30 \<le> c \<and> 0x39 \<ge> c) (?a @ 0x20 # uri) 0 = length ?a"
    by (rule scan_from_0) (use dg in \<open>auto simp: digit_def\<close>)
  have wu: "\<forall>c \<in> set uri. c \<noteq> 0x20 \<and> c \<noteq> 0x09 \<and> c \<noteq> 0x0d \<and> c \<noteq> 0x0a"
    using uri by (auto simp: twcc_uri_ok_def ws_free_def eol_free_def is_ws_def is_eol_def)
  have "\<not> is_ws (hd uri)" using uri ne by (cases uri) (auto simp: twcc_uri_ok_def ws_free_def)
  then have s2: "ngx_rtc_sdp_skip_ws (?a @ 0x20 # uri) (length ?a) = length ?a + 1" by (intro skip_blank) simp
  have s3: "scan (\<lambda>c. c \<noteq> 0x20 \<and> c \<noteq> 0x09 \<and> c \<noteq> 0x0d \<and> c \<noteq> 0x0a) (?a @ 0x20 # uri) (length ?a + 1) = length ?a + 1 + length uri"
    using scan_at [of uri "\<lambda>c. c \<noteq> 0x20 \<and> c \<noteq> 0x09 \<and> c \<noteq> 0x0d \<and> c \<noteq> 0x0a" "[]" "?a @ [0x20]"] wu by simp
  have tw: "twcc_match (?a @ 0x20 # uri) (length ?a + 1) (length ?a + 1 + length uri)"
    by (rule twcc_match_at [of _ "?a @ 0x20 # p" q]) (simp_all add: pq)
  have u: "unat (ucast ext :: u32) = unat ext" using unsigned_less [of ext, where 'a = nat] by (simp add: unsigned_ucast_eq take_bit_nat_eq_self)
  have i: "extmap_id ?a = ucast ext" using extmap_id_dec [of "unat ext"] by (simp add: u8_text_def)
  have "(ucast ext :: u32) \<noteq> 0" "(ucast ext :: u32) \<le> 14" using e u by (simp_all add: word_unat_eq_iff word_le_nat_alt)
  then show ?thesis
    using s0 s1 s2 s3 tw i ne uri m u8_u32(2) [of ext]
    by (simp add: ngx_rtc_sdp_parse_extmap_def Let_def buf_get_def put_def twcc_uri_ok_def)
qed

text \<open>The line that opens a section.\<close>

lemma media_pts_one:
  assumes "pt \<le> 127" "a \<noteq> []"
  shows "media_pts (a @ 0x20 # u8_text pt) (length a) [] = Inr [pt_zero\<lparr>pt_pt := pt\<rparr>]"
proof -
  have "ngx_rtc_sdp_next_token (a @ [0x20] @ u8_text pt @ []) (length a) = Inr (u8_text pt, length a + length [0x20 :: u8] + length (u8_text pt))"
    by (rule next_token_at) (simp_all add: is_ws_def)
  moreover have "media_pts (a @ 0x20 # u8_text pt) (Suc (length a + length (u8_text pt))) x = Inr x" for x by (subst media_pts.simps) simp
  ultimately show ?thesis using assms u8_u32 [of pt] by (subst media_pts.simps) simp
qed

definition token :: "bytes \<Rightarrow> bool" where
  "token s \<longleftrightarrow> s \<noteq> [] \<and> ws_free s \<and> eol_free s"

lemma three_tokens:
  assumes "token a" "token b" "token c" "d = [] \<or> is_ws (hd d)"
  shows "ngx_rtc_sdp_next_token (a @ 0x20 # b @ 0x20 # c @ d) 0 = Inr (a, length a)"
    "ngx_rtc_sdp_next_token (a @ 0x20 # b @ 0x20 # c @ d) (length a) = Inr (b, length (a @ 0x20 # b))"
    "ngx_rtc_sdp_next_token (a @ 0x20 # b @ 0x20 # c @ d) (length (a @ 0x20 # b)) = Inr (c, length (a @ 0x20 # b @ 0x20 # c))"
  using first_token [of a "0x20 # b @ 0x20 # c @ d"] next_token_at [of b "0x20 # c @ d" "[0x20]" a] next_token_at [of c d "[0x20]" "a @ 0x20 # b"] assms
  by (simp_all add: token_def is_ws_def)

lemma parse_media_line:
  assumes "token ty" "token proto" "token port" "pt \<le> 127" "length ty < NGX_RTC_SDP_STR_LEN" "length (sp_media st) < NGX_RTC_SDP_MAX_MEDIA"
  shows "ngx_rtc_sdp_parse_line st (0x6d # 0x3d # ty @ 0x20 # port @ 0x20 # proto @ 0x20 # u8_text pt) =
      Inr (within st (sp_media st) (media_zero\<lparr>md_type := put NGX_RTC_SDP_STR_LEN ty, md_pts := [pt_zero\<lparr>pt_pt := pt\<rparr>]\<rparr>))"
    "ngx_rtc_sdp_parse_line st (0x6d # 0x3d # ty @ 0x20 # port @ 0x20 # proto) =
      Inr (within st (sp_media st) (media_zero\<lparr>md_type := put NGX_RTC_SDP_STR_LEN ty\<rparr>))"
proof -
  note t = three_tokens [OF assms(1,3,2)]
  have z: "md_type media_zero = replicate NGX_RTC_SDP_STR_LEN 0" by (simp add: media_zero_def)
  have p: "media_pts ((ty @ 0x20 # port @ 0x20 # proto) @ 0x20 # u8_text pt) (length (ty @ 0x20 # port @ 0x20 # proto)) [] = Inr [pt_zero\<lparr>pt_pt := pt\<rparr>]"
    by (rule media_pts_one [OF assms(4)]) simp
  have e: "media_pts x (length x) [] = Inr []" for x by (subst media_pts.simps) simp
  show "ngx_rtc_sdp_parse_line st (0x6d # 0x3d # ty @ 0x20 # port @ 0x20 # proto @ 0x20 # u8_text pt) =
      Inr (within st (sp_media st) (media_zero\<lparr>md_type := put NGX_RTC_SDP_STR_LEN ty, md_pts := [pt_zero\<lparr>pt_pt := pt\<rparr>]\<rparr>))"
    using t [of "0x20 # u8_text pt"] p assms(5,6) z
    by (simp add: ngx_rtc_sdp_parse_line_def ngx_rtc_sdp_parse_media_def within_def is_ws_def)
  have m0: "media_zero\<lparr>md_type := x, md_pts := []\<rparr> = media_zero\<lparr>md_type := x\<rparr>" for x by (simp add: media_zero_def)
  show "ngx_rtc_sdp_parse_line st (0x6d # 0x3d # ty @ 0x20 # port @ 0x20 # proto) =
      Inr (within st (sp_media st) (media_zero\<lparr>md_type := put NGX_RTC_SDP_STR_LEN ty\<rparr>))"
    using t [of "[]"] e [of "ty @ 0x20 # port @ 0x20 # proto"] assms(5,6) z m0
    by (simp add: ngx_rtc_sdp_parse_line_def ngx_rtc_sdp_parse_media_def within_def)
qed
section \<open>A section read back\<close>

definition read_media :: "bytes \<Rightarrow> bytes \<Rightarrow> u8 \<Rightarrow> u32 \<Rightarrow> u32 \<Rightarrow> u32 \<Rightarrow> bytes \<Rightarrow> bytes option \<Rightarrow> u8 \<Rightarrow> bytes option \<Rightarrow> ngx_rtc_sdp_media" where
  "read_media ty mid pt ssrc clock_rate channels encoding fmtp ext uri =
     (let tw = (ext \<noteq> 0 \<and> nonempty uri) in
      media_zero\<lparr>md_type := put NGX_RTC_SDP_STR_LEN ty, md_mid := put NGX_RTC_SDP_MID_LEN mid, md_ssrc := ssrc,
        md_twcc_ext := (if tw then ext else 0), md_twcc_uri := (if tw then put NGX_RTC_SDP_TWCC_URI_LEN (c_text uri) else replicate NGX_RTC_SDP_TWCC_URI_LEN 0),
        md_pts := [\<lparr>pt_pt = pt, pt_encoding = put NGX_RTC_SDP_STR_LEN encoding, pt_clock_rate = clock_rate, pt_channels = channels,
                    pt_fmtp = (if nonempty fmtp then put NGX_RTC_SDP_FMTP_LEN (c_text fmtp) else replicate NGX_RTC_SDP_FMTP_LEN 0)\<rparr>]\<rparr>)"

definition media_ok :: "bytes \<Rightarrow> u8 \<Rightarrow> bytes option \<Rightarrow> u8 \<Rightarrow> bytes option \<Rightarrow> bool" where
  "media_ok mid pt fmtp ext uri \<longleftrightarrow> length mid < NGX_RTC_SDP_MID_LEN \<and> eol_free mid \<and> pt \<le> 127
     \<and> (nonempty fmtp \<longrightarrow> \<not> is_ws (hd (c_text fmtp)) \<and> 0 \<notin> set (c_text fmtp) \<and> eol_free (c_text fmtp) \<and> length (c_text fmtp) < NGX_RTC_SDP_FMTP_LEN)
     \<and> (ext \<noteq> 0 \<and> nonempty uri \<longrightarrow> ext \<le> 14 \<and> 0 \<notin> set (c_text uri) \<and> twcc_uri_ok (c_text uri))"

lemma nonempty_text: "nonempty s \<Longrightarrow> c_text s \<noteq> []"
  by (cases s) (auto simp: nonempty_def c_text_def)

text \<open>The literals of the answer, split at the attribute name.\<close>

lemma sdp_literals:
  "ascii ''m='' = [0x6d, 0x3d]" "ascii '' 9 '' = [0x20, 0x39, 0x20]" "ascii '' 0 '' = [0x20, 0x30, 0x20]" "ascii '' '' = [0x20]" "ascii ''/'' = [0x2f]" "ascii '':'' = [0x3a]"
  "ascii ''a='' = [0x61, 0x3d]" "ascii ''a=mid:'' = 0x61 # 0x3d # ascii ''mid'' @ [0x3a]" "ascii ''a=extmap:'' = 0x61 # 0x3d # ascii ''extmap'' @ [0x3a]"
  "ascii ''a=rtpmap:'' = 0x61 # 0x3d # ascii ''rtpmap'' @ [0x3a]" "ascii ''a=fmtp:'' = 0x61 # 0x3d # ascii ''fmtp'' @ [0x3a]"
  "ascii ''a=ssrc:'' = 0x61 # 0x3d # ascii ''ssrc'' @ [0x3a]" "ascii ''a=rtcp-fb:'' = 0x61 # 0x3d # ascii ''rtcp-fb'' @ [0x3a]"
  "ascii ''a=candidate:1 1 udp 2130706431 '' = 0x61 # 0x3d # ascii ''candidate'' @ 0x3a # ascii ''1 1 udp 2130706431 ''"
  "ascii ''a=sendonly'' = 0x61 # 0x3d # ascii ''sendonly''" "ascii ''a=recvonly'' = 0x61 # 0x3d # ascii ''recvonly''"
  "ascii ''a=rtcp-mux'' = 0x61 # 0x3d # ascii ''rtcp-mux''" "ascii ''a=rtcp-rsize'' = 0x61 # 0x3d # ascii ''rtcp-rsize''"
  "ascii '' cname:'' = 0x20 # ascii ''cname:''" "ascii ''a=fingerprint:'' = 0x61 # 0x3d # ascii ''fingerprint'' @ [0x3a]"
  "ascii ''a=group:BUNDLE'' = 0x61 # 0x3d # ascii ''group'' @ 0x3a # ascii ''BUNDLE''"
  "ascii ''a=msid-semantic: WMS'' = 0x61 # 0x3d # ascii ''msid-semantic'' @ 0x3a # ascii '' WMS''" "ascii ''a=ice-lite'' = 0x61 # 0x3d # ascii ''ice-lite''"
  by (simp_all add: ascii_def)

lemma no_colon:
  "\<forall>n \<in> {''mid'', ''extmap'', ''rtpmap'', ''fmtp'', ''ssrc'', ''rtcp-fb'', ''candidate'', ''sendonly'', ''recvonly'', ''rtcp-mux'', ''rtcp-rsize'',
      ''fingerprint'', ''group'', ''msid-semantic'', ''ice-lite'', ''ice-ufrag'', ''ice-pwd'', ''setup''}. 0x3a \<notin> set (ascii n)"
  by (simp add: ascii_def)

lemma unknown_names: "n \<in> {''rtcp-fb'', ''candidate'', ''sendonly'', ''recvonly'', ''rtcp-mux'', ''rtcp-rsize'', ''group'', ''msid-semantic'', ''ice-lite''}
    \<Longrightarrow> n \<notin> set known_attrs"
  by (auto simp: known_attrs_def)

lemma fold_skip_attr:
  assumes "n \<in> {''rtcp-fb'', ''candidate'', ''sendonly'', ''recvonly'', ''rtcp-mux'', ''rtcp-rsize'', ''group'', ''msid-semantic'', ''ice-lite''}"
  shows "fold_lines ((0x61 # 0x3d # ascii n @ 0x3a # v) # ls) st = fold_lines ls st" "fold_lines ((0x61 # 0x3d # ascii n) # ls) st = fold_lines ls st"
proof -
  have n: "0x3a \<notin> set (ascii n)" using no_colon assms by auto
  show "fold_lines ((0x61 # 0x3d # ascii n @ 0x3a # v) # ls) st = fold_lines ls st" by (rule fold_unknown(1) [OF unknown_names [OF assms] n])
  show "fold_lines ((0x61 # 0x3d # ascii n) # ls) st = fold_lines ls st" by (rule fold_unknown(2) [OF unknown_names [OF assms] n])
qed

lemma fold_media_attr:
  assumes "n \<in> {''mid'', ''extmap'', ''rtpmap'', ''fmtp'', ''ssrc''}"
  shows "fold_lines ((0x61 # 0x3d # ascii n @ 0x3a # v) # ls) (within st ms m) =
    and_then (ngx_rtc_sdp_apply_attr (within st ms m) (ascii n) v (Some (length ms))) (fold_lines ls)"
proof -
  have n: "0x3a \<notin> set (ascii n)" using no_colon assms by auto
  show ?thesis using fold_attr(1) [OF n, of v ls "within st ms m"] by simp
qed

lemma fold_if: "fold_lines ((if b then [l] else []) @ ls) st = (if b then fold_lines (l # ls) st else fold_lines ls st)"
  by simp

lemma fold_media_lines:
  assumes ok: "media_ok mid pt fmtp ext uri" and ty: "token ty" "length ty < NGX_RTC_SDP_STR_LEN" and proto: "token (an_proto cfg)"
    and enc: "enc \<noteq> []" "\<not> is_ws (hd enc)" "0x2f \<notin> set enc" "length enc < NGX_RTC_SDP_STR_LEN" and n: "length (sp_media st) < NGX_RTC_SDP_MAX_MEDIA"
  shows "fold_lines (media_lines ty mid pt ssrc clock ch enc fmtp cfg ext uri @ ls) st =
    fold_lines ls (within st (sp_media st) (read_media ty mid pt ssrc clock ch enc fmtp ext uri))"
proof -
  let ?W = "within st (sp_media st)"
  let ?p0 = "pt_zero\<lparr>pt_pt := pt\<rparr>"
  define m1 where "m1 = media_zero\<lparr>md_type := put NGX_RTC_SDP_STR_LEN ty, md_pts := [?p0]\<rparr>"
  define m2 where "m2 = m1\<lparr>md_mid := put NGX_RTC_SDP_MID_LEN mid\<rparr>"
  define tw where "tw \<longleftrightarrow> ext \<noteq> 0 \<and> nonempty uri"
  define m3 where "m3 = (if tw then m2\<lparr>md_twcc_uri := put NGX_RTC_SDP_TWCC_URI_LEN (c_text uri), md_twcc_ext := ext\<rparr> else m2)"
  define p4 where "p4 = ?p0\<lparr>pt_encoding := put NGX_RTC_SDP_STR_LEN enc, pt_clock_rate := clock, pt_channels := ch\<rparr>"
  define m4 where "m4 = m3\<lparr>md_pts := [p4]\<rparr>"
  define m5 where "m5 = (if nonempty fmtp then m4\<lparr>md_pts := [p4\<lparr>pt_fmtp := put NGX_RTC_SDP_FMTP_LEN (c_text fmtp)\<rparr>]\<rparr> else m4)"
  have nine: "token [0x39]" by (simp add: token_def ws_free_def eol_free_def is_ws_def is_eol_def)
  have l1: "fold_lines ((ascii ''m='' @ ty @ ascii '' 9 '' @ an_proto cfg @ ascii '' '' @ u8_text pt) # rs) st = fold_lines rs (?W m1)" for rs
    using parse_media_line(1) [OF ty(1) proto nine _ ty(2) n, of pt] ok by (simp add: sdp_literals m1_def media_ok_def)
  have l2: "fold_lines (ascii ''c=IN IP4 0.0.0.0'' # rs) s = fold_lines rs s" for rs s by (rule fold_other) (simp_all add: ascii_def)
  have l3: "fold_lines ((ascii ''a=mid:'' @ mid) # rs) (?W m1) = fold_lines rs (?W m2)" for rs
    using fold_media_attr [of "''mid''" mid rs st "sp_media st" m1] ok by (simp add: sdp_literals m1_def m2_def media_zero_def media_ok_def)
  have l4: "fold_lines ((if tw then [ascii ''a=extmap:'' @ u8_text ext @ ascii '' '' @ c_text uri] else []) @ rs) (?W m2) = fold_lines rs (?W m3)" for rs
  proof (cases tw)
    case False
    then show ?thesis by (simp add: m3_def)
  next
    case True
    have "md_twcc_uri m2 = replicate NGX_RTC_SDP_TWCC_URI_LEN 0" by (simp add: m2_def m1_def media_zero_def)
    then have "ngx_rtc_sdp_parse_extmap m2 (u8_text ext @ 0x20 # c_text uri) = Inr m3"
      using extmap_one [of ext "c_text uri" m2] ok True unfolding m3_def by (simp add: tw_def media_ok_def)
    then show ?thesis using fold_media_attr [of "''extmap''" "u8_text ext @ 0x20 # c_text uri" rs st "sp_media st" m2] True
      by (simp add: sdp_literals)
  qed
  have l5: "fold_lines ((if b then [ascii ''a=candidate:1 1 udp 2130706431 '' @ x] else []) @ rs) s = fold_lines rs s" for b x rs s
    using fold_skip_attr(1) [of "''candidate''" "ascii ''1 1 udp 2130706431 '' @ x" rs s] by (simp add: sdp_literals)
  have l6: "fold_lines ((if an_sendonly cfg \<noteq> 0 then [ascii (if 0 < an_sendonly cfg then ''a=sendonly'' else ''a=recvonly'')] else []) @ rs) s = fold_lines rs s" for rs s
    using fold_skip_attr(2) [of "''sendonly''" rs s] fold_skip_attr(2) [of "''recvonly''" rs s] by (simp add: sdp_literals)
  have l7: "fold_lines ((if b then [ascii ''a=rtcp-mux''] else []) @ rs) s = fold_lines rs s" "fold_lines ((if b then [ascii ''a=rtcp-rsize''] else []) @ rs) s = fold_lines rs s"
    for b rs s
    using fold_skip_attr(2) [of "''rtcp-mux''" rs s] fold_skip_attr(2) [of "''rtcp-rsize''" rs s] by (simp_all add: sdp_literals)
  have p0: "md_pts m3 = [?p0]" "pt_pt ?p0 = pt" "pt \<le> 127" "pt_encoding ?p0 = replicate NGX_RTC_SDP_STR_LEN 0"
    using ok by (simp_all add: m3_def m2_def m1_def pt_zero_def media_ok_def)
  have rt: "ngx_rtc_sdp_parse_rtpmap m3 (u8_text pt @ 0x20 # enc @ 0x2f # u32_text clock @ (if ch \<noteq> 0 then 0x2f # u32_text ch else [])) = Inr m4"
    using rtpmap_one [OF p0 enc, of clock] by (cases "ch = 0") (simp_all add: m4_def p4_def pt_zero_def)
  have l8: "fold_lines ([ascii ''a=rtpmap:'' @ u8_text pt @ ascii '' '' @ enc @ ascii ''/'' @ u32_text clock @ (if ch \<noteq> 0 then ascii ''/'' @ u32_text ch else [])] @ rs) (?W m3)
      = fold_lines rs (?W m4)" for rs
    using fold_media_attr [of "''rtpmap''" "u8_text pt @ 0x20 # enc @ 0x2f # u32_text clock @ (if ch \<noteq> 0 then 0x2f # u32_text ch else [])" rs st "sp_media st" m3] rt
    by (simp add: sdp_literals cong: if_cong)
  have p4: "md_pts m4 = [p4]" "pt_pt p4 = pt" "pt_fmtp p4 = replicate NGX_RTC_SDP_FMTP_LEN 0" by (simp_all add: m4_def p4_def pt_zero_def)
  have l9: "fold_lines ((if nonempty fmtp then [ascii ''a=fmtp:'' @ u8_text pt @ ascii '' '' @ c_text fmtp] else []) @ rs) (?W m4) = fold_lines rs (?W m5)" for rs
    using fold_media_attr [of "''fmtp''" "u8_text pt @ 0x20 # c_text fmtp" rs st "sp_media st" m4] fmtp_one [OF p4(1,2) p0(3) p4(3), of "c_text fmtp"]
      nonempty_text [of fmtp] ok
    by (cases "nonempty fmtp") (simp_all add: sdp_literals m5_def media_ok_def)
  have l10: "fold_lines ((if b then [ascii ''a=rtcp-fb:'' @ x] else []) @ rs) s = fold_lines rs s" for b x rs s
    using fold_skip_attr(1) [of "''rtcp-fb''" x rs s] by (simp add: sdp_literals)
  have l11: "fold_lines ([ascii ''a=ssrc:'' @ u32_text ssrc @ ascii '' cname:'' @ x] @ rs) (?W m5) = fold_lines rs (?W (m5\<lparr>md_ssrc := ssrc\<rparr>))" for x rs
    using fold_media_attr [of "''ssrc''" "u32_text ssrc @ 0x20 # ascii ''cname:'' @ x" rs st "sp_media st" m5] ssrc_text by (simp add: sdp_literals)
  have fin: "m5\<lparr>md_ssrc := ssrc\<rparr> = read_media ty mid pt ssrc clock ch enc fmtp ext uri"
    by (simp add: read_media_def Let_def m5_def m4_def m3_def m2_def m1_def p4_def media_zero_def pt_zero_def tw_def)
  show ?thesis
    unfolding media_lines_def append_assoc tw_def [symmetric]
    by (simp only: append_Cons append_Nil l1 l2 l3 l4 l5 l6 l7 l8 [simplified append_Cons append_Nil] l9 l10 l11 [simplified append_Cons append_Nil] fin)
qed
section \<open>The whole answer\<close>

text \<open>Text that fits a field of \<open>n\<close> octets on one line.\<close>

definition field :: "nat \<Rightarrow> bytes \<Rightarrow> bool" where
  "field n s \<longleftrightarrow> s \<noteq> [] \<and> 0 \<notin> set s \<and> eol_free s \<and> length s < n"

definition answer_ok :: "ngx_rtc_sdp_answer \<Rightarrow> bool" where
  "answer_ok cfg \<longleftrightarrow> token (an_proto cfg)
     \<and> (\<exists>u. an_ice_ufrag cfg = Some u \<and> field NGX_RTC_SDP_ICE_UFRAG_LEN u) \<and> (\<exists>p. an_ice_pwd cfg = Some p \<and> field NGX_RTC_SDP_ICE_PWD_LEN p)
     \<and> (\<exists>a. an_fingerprint_algo cfg = Some a \<and> field NGX_RTC_SDP_FP_ALGO_LEN a \<and> token a)
     \<and> (\<exists>f. an_fingerprint cfg = Some f \<and> field NGX_RTC_SDP_FP_LEN f \<and> \<not> is_ws (hd f))
     \<and> (\<exists>s. an_setup cfg = Some s \<and> field NGX_RTC_SDP_SETUP_LEN s) \<and> eol_free (c_text (an_candidate_ip cfg))
     \<and> length (an_media_type cfg) = length (an_media_mid cfg) \<and> length (an_media_type cfg) \<le> NGX_RTC_SDP_MAX_MEDIA
     \<and> (\<forall>ty \<in> set (an_media_type cfg). 0 \<in> set ty \<and> token (cstr ty) \<and> length (cstr ty) < NGX_RTC_SDP_STR_LEN)
     \<and> (\<forall>mid \<in> set (an_media_mid cfg). media_ok (cstr mid) (an_video_pt cfg) (an_video_fmtp cfg) (an_video_twcc_ext cfg) (an_video_twcc_uri cfg)
          \<and> media_ok (cstr mid) (an_audio_pt cfg) (an_audio_fmtp cfg) (an_audio_twcc_ext cfg) (an_audio_twcc_uri cfg))"

definition read_section :: "ngx_rtc_sdp_answer \<Rightarrow> bytes \<times> bytes \<Rightarrow> ngx_rtc_sdp_media" where
  "read_section cfg = (\<lambda>(ty, mid).
     if cstr ty = ascii ''video''
     then read_media (ascii ''video'') (cstr mid) (an_video_pt cfg) (an_video_ssrc cfg) (an_video_clock_rate cfg) 0 (ascii ''H264'')
            (an_video_fmtp cfg) (an_video_twcc_ext cfg) (an_video_twcc_uri cfg)
     else if cstr ty = ascii ''audio''
     then read_media (ascii ''audio'') (cstr mid) (an_audio_pt cfg) (an_audio_ssrc cfg) (an_audio_clock_rate cfg) (an_audio_channels cfg)
            (ascii ''opus'') (an_audio_fmtp cfg) (an_audio_twcc_ext cfg) (an_audio_twcc_uri cfg)
     else media_zero\<lparr>md_type := put NGX_RTC_SDP_STR_LEN (cstr ty)\<rparr>)"

lemma streq_cstr: "0 \<in> set a \<Longrightarrow> 0 \<in> set b \<Longrightarrow> ngx_rtc_sdp_streq a b \<longleftrightarrow> cstr a = cstr b"
  by (induction a b rule: ngx_rtc_sdp_streq.induct) (auto simp: cstr_def)

lemma streq_ci_same: "0 \<in> set a \<Longrightarrow> 0 \<in> set b \<Longrightarrow> cstr a = cstr b \<Longrightarrow> ngx_rtc_sdp_streq_ci a b"
  by (induction a b rule: ngx_rtc_sdp_streq_ci.induct) (auto simp: cstr_def split: if_splits)

lemma ascii_words: "0 \<notin> set (ascii ''video'')" "0 \<notin> set (ascii ''audio'')" "0 \<notin> set (ascii ''H264'')" "0 \<notin> set (ascii ''opus'')"
  "token (ascii ''video'')" "token (ascii ''audio'')" "token (ascii ''H264'')" "token (ascii ''opus'')" "0x2f \<notin> set (ascii ''H264'')" "0x2f \<notin> set (ascii ''opus'')"
  by (simp_all add: ascii_def token_def ws_free_def eol_free_def is_ws_def is_eol_def)

lemma lit_words: "0 \<in> set (lit s)" "0 \<notin> set (ascii s) \<Longrightarrow> cstr (lit s) = ascii s"
  using cstr_append_0 [of "ascii s" "[]"] by (simp_all add: lit_def)

lemma put_nul: "0 \<in> set (put n s)"
  by (simp add: put_def buf_put_def)

lemma token_hd: "token s \<Longrightarrow> s \<noteq> [] \<and> \<not> is_ws (hd s)"
  by (cases s) (auto simp: token_def ws_free_def)

lemma fold_section:
  assumes ok: "answer_ok cfg" and x: "(ty, mid) \<in> set (answer_media_list cfg)" and n: "length (sp_media st) < NGX_RTC_SDP_MAX_MEDIA"
  shows "fold_lines (section_lines cfg (ty, mid) @ ls) st = fold_lines ls (within st (sp_media st) (read_section cfg (ty, mid)))"
proof -
  have t: "0 \<in> set ty" "token (cstr ty)" "length (cstr ty) < NGX_RTC_SDP_STR_LEN"
    and v: "media_ok (cstr mid) (an_video_pt cfg) (an_video_fmtp cfg) (an_video_twcc_ext cfg) (an_video_twcc_uri cfg)"
    and a: "media_ok (cstr mid) (an_audio_pt cfg) (an_audio_fmtp cfg) (an_audio_twcc_ext cfg) (an_audio_twcc_uri cfg)"
    and pr: "token (an_proto cfg)"
    using ok x by (auto simp: answer_ok_def answer_media_list_def dest: set_zip_leftD set_zip_rightD)
  have e: "ngx_rtc_sdp_streq ty (lit ''video'') \<longleftrightarrow> cstr ty = ascii ''video''" "ngx_rtc_sdp_streq ty (lit ''audio'') \<longleftrightarrow> cstr ty = ascii ''audio''"
    using streq_cstr [OF t(1) lit_words(1)] lit_words(2) ascii_words by simp_all
  have zero: "token [0x30]" by (simp add: token_def ws_free_def eol_free_def is_ws_def is_eol_def)
  have rej: "fold_lines ((ascii ''m='' @ cstr ty @ ascii '' 0 '' @ an_proto cfg) # ls) st
      = fold_lines ls (within st (sp_media st) (media_zero\<lparr>md_type := put NGX_RTC_SDP_STR_LEN (cstr ty)\<rparr>))"
    using parse_media_line(2) [OF t(2) pr zero _ t(3) n, of 0] by (simp add: sdp_literals)
  note fv = fold_media_lines [OF v ascii_words(5) _ pr _ _ ascii_words(9) _ n] and fa = fold_media_lines [OF a ascii_words(6) _ pr _ _ ascii_words(10) _ n]
  show ?thesis
    using rej fv fa token_hd [OF ascii_words(7)] token_hd [OF ascii_words(8)] by (auto simp: section_lines_def read_section_def e)
qed

lemma within_media: "sp_media (within st ms m) = ms @ [m]"
  by (simp add: within_def)

lemma fold_sections:
  assumes ok: "answer_ok cfg"
  shows "set xs \<subseteq> set (answer_media_list cfg) \<Longrightarrow> length (sp_media st) + length xs \<le> NGX_RTC_SDP_MAX_MEDIA \<Longrightarrow>
    fold_lines (concat (map (section_lines cfg) xs)) st =
      Inr (if xs = [] then st else st\<lparr>sp_media := sp_media st @ map (read_section cfg) xs, sp_in_media := True\<rparr>)"
proof (induction xs arbitrary: st)
  case (Cons x xs)
  obtain ty mid where x: "x = (ty, mid)" by (cases x)
  have x': "(ty, mid) \<in> set (answer_media_list cfg)" using Cons.prems(1) x by simp
  have n: "length (sp_media st) < NGX_RTC_SDP_MAX_MEDIA" using Cons.prems(2) by simp
  have "fold_lines (concat (map (section_lines cfg) xs)) (within st (sp_media st) (read_section cfg x)) =
      Inr (st\<lparr>sp_media := sp_media st @ map (read_section cfg) (x # xs), sp_in_media := True\<rparr>)"
    using Cons.IH [of "within st (sp_media st) (read_section cfg x)"] Cons.prems by (simp add: within_def)
  then show ?case using fold_section [OF ok x' n, of "concat (map (section_lines cfg) xs)"] x by simp
qed simp

definition read_session :: "ngx_rtc_sdp_answer \<Rightarrow> ngx_rtc_sdp_session" where
  "read_session cfg = \<lparr>ss_ice_ufrag = put NGX_RTC_SDP_ICE_UFRAG_LEN (c_text (an_ice_ufrag cfg)), ss_ice_pwd = put NGX_RTC_SDP_ICE_PWD_LEN (c_text (an_ice_pwd cfg)),
     ss_fingerprint_algo = put NGX_RTC_SDP_FP_ALGO_LEN (c_text (an_fingerprint_algo cfg)),
     ss_fingerprint = put NGX_RTC_SDP_FP_LEN (c_text (an_fingerprint cfg)), ss_setup = put NGX_RTC_SDP_SETUP_LEN (c_text (an_setup cfg))\<rparr>"

lemma fingerprint_read:
  assumes "token a" "length a < NGX_RTC_SDP_FP_ALGO_LEN" "f \<noteq> []" "\<not> is_ws (hd f)" "length f < NGX_RTC_SDP_FP_LEN"
    and s: "ss_fingerprint_algo s = replicate NGX_RTC_SDP_FP_ALGO_LEN 0" "ss_fingerprint s = replicate NGX_RTC_SDP_FP_LEN 0"
  shows "ngx_rtc_sdp_parse_fingerprint s (a @ 0x20 # f) = Inr (s\<lparr>ss_fingerprint_algo := put NGX_RTC_SDP_FP_ALGO_LEN a, ss_fingerprint := put NGX_RTC_SDP_FP_LEN f\<rparr>)"
proof -
  have "ngx_rtc_sdp_next_token (a @ 0x20 # f) 0 = Inr (a, length a)" using assms(1) by (intro first_token) (simp_all add: token_def is_ws_def)
  moreover have "ngx_rtc_sdp_skip_ws (a @ 0x20 # f) (length a) = length a + 1" using assms(4) by (intro skip_blank) simp
  moreover have "ss_fingerprint_algo s ! 0 = 0" using s(1) by simp
  ultimately show ?thesis using assms by (simp add: ngx_rtc_sdp_parse_fingerprint_def Let_def)
qed
lemma fold_session_attr:
  assumes "n \<in> {''ice-ufrag'', ''ice-pwd'', ''setup'', ''fingerprint''}" "\<not> sp_in_media st"
  shows "fold_lines ((0x61 # 0x3d # ascii n @ 0x3a # v) # ls) st = and_then (ngx_rtc_sdp_apply_attr st (ascii n) v None) (fold_lines ls)"
proof -
  have n: "0x3a \<notin> set (ascii n)" using no_colon assms by auto
  show ?thesis using fold_attr(1) [OF n, of v ls st] assms(2) by (simp add: mediap_def)
qed

lemma fold_head:
  assumes ok: "answer_ok cfg"
  shows "fold_lines (answer_lines cfg) parser_zero = fold_lines (concat (map (section_lines cfg) (answer_media_list cfg))) (parser_zero\<lparr>sp_session := read_session cfg\<rparr>)"
proof -
  obtain u p a f s where c: "an_ice_ufrag cfg = Some u" "field NGX_RTC_SDP_ICE_UFRAG_LEN u" "an_ice_pwd cfg = Some p" "field NGX_RTC_SDP_ICE_PWD_LEN p"
    "an_fingerprint_algo cfg = Some a" "field NGX_RTC_SDP_FP_ALGO_LEN a" "token a" "an_fingerprint cfg = Some f" "field NGX_RTC_SDP_FP_LEN f" "\<not> is_ws (hd f)"
    "an_setup cfg = Some s" "field NGX_RTC_SDP_SETUP_LEN s"
    using ok by (auto simp: answer_ok_def)
  have ne: "nonempty (an_ice_ufrag cfg)" "nonempty (an_ice_pwd cfg)" "nonempty (an_fingerprint_algo cfg)" "nonempty (an_fingerprint cfg)" "nonempty (an_setup cfg)"
    using c by (auto simp: nonempty_def field_def)
  have plain: "fold_lines (ascii l # ls) st = fold_lines ls st" if "l \<in> {''v=0'', ''o=ngx-rtc 0 1 IN IP4 0.0.0.0'', ''s=-'', ''t=0 0''}" for l ls st
    by (rule fold_other) (use that in \<open>auto simp: ascii_def\<close>)
  have grp: "fold_lines (bundle_line cfg # ls) st = fold_lines ls st" for ls st
    using fold_skip_attr(1) [of "''group''" "ascii ''BUNDLE'' @ concat (map (\<lambda>(ty, mid). if carried ty then ascii '' '' @ cstr mid else []) (answer_media_list cfg))" ls st]
    by (simp add: bundle_line_def sdp_literals)
  have other: "fold_lines (ascii ''a=msid-semantic: WMS'' # ls) st = fold_lines ls st" "fold_lines (ascii ''a=ice-lite'' # ls) st = fold_lines ls st" for ls st
    using fold_skip_attr(1) [of "''msid-semantic''" "ascii '' WMS''" ls st] fold_skip_attr(2) [of "''ice-lite''" ls st] by (simp_all only: sdp_literals) simp_all
  define s1 where "s1 = session_zero\<lparr>ss_ice_ufrag := put NGX_RTC_SDP_ICE_UFRAG_LEN u\<rparr>"
  define s2 where "s2 = s1\<lparr>ss_ice_pwd := put NGX_RTC_SDP_ICE_PWD_LEN p\<rparr>"
  define s3 where "s3 = s2\<lparr>ss_fingerprint_algo := put NGX_RTC_SDP_FP_ALGO_LEN a, ss_fingerprint := put NGX_RTC_SDP_FP_LEN f\<rparr>"
  let ?P = "\<lambda>s. parser_zero\<lparr>sp_session := s\<rparr>"
  have P: "\<not> sp_in_media (?P s)" "\<not> sp_in_media parser_zero" for s by (simp_all add: parser_zero_def)
  have l1: "fold_lines (attr_lines ''ice-ufrag'' (an_ice_ufrag cfg) @ ls) parser_zero = fold_lines ls (?P s1)" for ls
    using fold_session_attr [of "''ice-ufrag''" parser_zero u ls, OF _ P(2)] c(1,2) ne(1)
    by (simp add: attr_lines_def sdp_literals c_text_def ngx_rtc_sdp_apply_attr_def set_session_field_def parser_zero_def session_zero_def s1_def field_def)
  have l2: "fold_lines (attr_lines ''ice-pwd'' (an_ice_pwd cfg) @ ls) (?P s1) = fold_lines ls (?P s2)" for ls
    using fold_session_attr [of "''ice-pwd''" "?P s1" p ls, OF _ P(1)] c(3,4) ne(2)
    by (simp add: attr_lines_def sdp_literals c_text_def ngx_rtc_sdp_apply_attr_def set_session_field_def parser_zero_def session_zero_def s1_def s2_def field_def)
  have fp: "ngx_rtc_sdp_parse_fingerprint s2 (a @ 0x20 # f) = Inr s3"
    unfolding s3_def by (rule fingerprint_read) (use c(6,7,9,10) in \<open>simp_all add: field_def s2_def s1_def session_zero_def\<close>)
  have l3: "fold_lines ([ascii ''a=fingerprint:'' @ a @ ascii '' '' @ f] @ ls) (?P s2) = fold_lines ls (?P s3)" for ls
    using fold_session_attr [of "''fingerprint''" "?P s2" "a @ 0x20 # f" ls, OF _ P(1)] fp
    by (simp add: sdp_literals ngx_rtc_sdp_apply_attr_def parser_zero_def)
  have l4: "fold_lines (attr_lines ''setup'' (an_setup cfg) @ ls) (?P s3) = fold_lines ls (?P (read_session cfg))" for ls
    using fold_session_attr [of "''setup''" "?P s3" s ls, OF _ P(1)] c ne(5)
    by (simp add: attr_lines_def sdp_literals c_text_def ngx_rtc_sdp_apply_attr_def set_session_field_def parser_zero_def session_zero_def s1_def s2_def s3_def
        read_session_def field_def)
  have fpl: "(if nonempty (an_fingerprint_algo cfg) \<and> nonempty (an_fingerprint cfg)
        then [ascii ''a=fingerprint:'' @ c_text (an_fingerprint_algo cfg) @ ascii '' '' @ c_text (an_fingerprint cfg)] else [])
      = [ascii ''a=fingerprint:'' @ a @ ascii '' '' @ f]"
    using ne c by (simp add: c_text_def)
  show ?thesis
    unfolding answer_lines_def fpl append_assoc append_Cons append_Nil
    by (simp only: plain insertI1 insertI2 grp other l1 l2 l3 [unfolded append_Cons append_Nil] l4)
qed

lemma eol_ascii: "eol_free (ascii s) \<longleftrightarrow> CHR 0x0d \<notin> set s \<and> CHR 0x0a \<notin> set s"
proof -
  have "is_eol (of_char c) \<longleftrightarrow> c = CHR 0x0d \<or> c = CHR 0x0a" for c
    using of_char_u8_inj [of c "CHR 0x0d"] of_char_u8_inj [of c "CHR 0x0a"] by (simp add: is_eol_def)
  then show ?thesis by (auto simp: eol_free_def ascii_def)
qed

lemma media_lines_eol:
  assumes "media_ok mid pt fmtp ext uri" "eol_free ty" "eol_free enc" "eol_free (an_proto cfg)" "eol_free (c_text (an_candidate_ip cfg))"
  shows "\<forall>l \<in> set (media_lines ty mid pt ssrc clock ch enc fmtp cfg ext uri). eol_free l"
  using assms by (auto simp: media_lines_def media_ok_def twcc_uri_ok_def eol_ascii)

lemma answer_lines_eol:
  assumes ok: "answer_ok cfg"
  shows "\<forall>l \<in> set (answer_lines cfg). eol_free l"
proof -
  have pr: "eol_free (an_proto cfg)" "eol_free (c_text (an_candidate_ip cfg))" using ok by (simp_all add: answer_ok_def token_def)
  have sec: "\<forall>l \<in> set (section_lines cfg x). eol_free l" if x: "x \<in> set (answer_media_list cfg)" for x
  proof -
    obtain ty mid where xx: "x = (ty, mid)" by (cases x)
    have "token (cstr ty)" "media_ok (cstr mid) (an_video_pt cfg) (an_video_fmtp cfg) (an_video_twcc_ext cfg) (an_video_twcc_uri cfg)"
      "media_ok (cstr mid) (an_audio_pt cfg) (an_audio_fmtp cfg) (an_audio_twcc_ext cfg) (an_audio_twcc_uri cfg)"
      using ok x xx by (auto simp: answer_ok_def answer_media_list_def dest: set_zip_leftD set_zip_rightD)
    then show ?thesis using pr xx by (auto simp: section_lines_def token_def simp: eol_ascii dest!: media_lines_eol [rule_format, rotated 5])
  qed
  have mid: "eol_free (cstr mid)" if "(ty, mid) \<in> set (answer_media_list cfg)" for ty mid
    using ok that by (auto simp: answer_ok_def answer_media_list_def media_ok_def dest: set_zip_rightD)
  have bl: "eol_free (bundle_line cfg)"
    proof -
    have "eol_free (concat (map (\<lambda>(ty, mid). if carried ty then ascii '' '' @ cstr mid else []) xs))" if "set xs \<subseteq> set (answer_media_list cfg)" for xs
      using that by (induction xs) (auto simp: eol_ascii mid)
    then show ?thesis by (simp add: bundle_line_def eol_ascii)
  qed
  have fields: "eol_free (c_text (an_ice_ufrag cfg))" "eol_free (c_text (an_ice_pwd cfg))" "eol_free (c_text (an_fingerprint_algo cfg))"
    "eol_free (c_text (an_fingerprint cfg))" "eol_free (c_text (an_setup cfg))"
    using ok by (auto simp: answer_ok_def field_def c_text_def)
  show ?thesis using sec bl fields by (auto simp: answer_lines_def attr_lines_def eol_ascii)
qed

section \<open>The offer that an answer reads as\<close>

definition video_matches :: "ngx_rtc_sdp_answer \<Rightarrow> ngx_rtc_sdp_offer \<Rightarrow> bool" where
  "video_matches cfg o' \<longleftrightarrow> of_video_pt o' = an_video_pt cfg \<and> of_video_ssrc o' = an_video_ssrc cfg \<and> cstr (of_video_encoding o') = ascii ''H264''
     \<and> of_video_clock_rate o' = an_video_clock_rate cfg \<and> cstr (of_video_fmtp o') = c_text (an_video_fmtp cfg)
     \<and> (an_video_twcc_ext cfg \<noteq> 0 \<and> nonempty (an_video_twcc_uri cfg)
        \<longrightarrow> of_video_twcc_ext o' = an_video_twcc_ext cfg \<and> cstr (of_video_twcc_uri o') = c_text (an_video_twcc_uri cfg))"

definition audio_matches :: "ngx_rtc_sdp_answer \<Rightarrow> ngx_rtc_sdp_offer \<Rightarrow> bool" where
  "audio_matches cfg o' \<longleftrightarrow> of_audio_pt o' = an_audio_pt cfg \<and> of_audio_ssrc o' = an_audio_ssrc cfg \<and> cstr (of_audio_encoding o') = ascii ''opus''
     \<and> of_audio_clock_rate o' = an_audio_clock_rate cfg \<and> of_audio_channels o' = an_audio_channels cfg
     \<and> cstr (of_audio_fmtp o') = c_text (an_audio_fmtp cfg)
     \<and> (an_audio_twcc_ext cfg \<noteq> 0 \<and> nonempty (an_audio_twcc_uri cfg)
        \<longrightarrow> of_audio_twcc_ext o' = an_audio_twcc_ext cfg \<and> cstr (of_audio_twcc_uri o') = c_text (an_audio_twcc_uri cfg))"

definition session_matches :: "ngx_rtc_sdp_answer \<Rightarrow> ngx_rtc_sdp_session \<Rightarrow> bool" where
  "session_matches cfg s \<longleftrightarrow> Some (cstr (ss_ice_ufrag s)) = an_ice_ufrag cfg \<and> Some (cstr (ss_ice_pwd s)) = an_ice_pwd cfg
     \<and> Some (cstr (ss_fingerprint_algo s)) = an_fingerprint_algo cfg \<and> Some (cstr (ss_fingerprint s)) = an_fingerprint cfg
     \<and> Some (cstr (ss_setup s)) = an_setup cfg"

lemma read_session_matches: "answer_ok cfg \<Longrightarrow> session_matches cfg (read_session cfg)"
  by (auto simp: answer_ok_def session_matches_def read_session_def field_def c_text_def)

lemma cstr_zero [simp]: "cstr (replicate n 0) = []"
  by (cases n) (simp_all add: cstr_def)

lemma not_nonempty [simp]: "\<not> nonempty s \<Longrightarrow> c_text s = []"
  by (cases s) (auto simp: nonempty_def c_text_def)

lemma type_eq: "0 \<notin> set t \<Longrightarrow> 0 \<notin> set (ascii s) \<Longrightarrow> ngx_rtc_sdp_streq (put n t) (lit s) \<longleftrightarrow> t = ascii s"
  using streq_cstr [OF put_nul lit_words(1)] lit_words(2) by simp

lemma encoding_eq: "0 \<notin> set (ascii s) \<Longrightarrow> ngx_rtc_sdp_streq_ci (put n (ascii s)) (lit s)"
  by (rule streq_ci_same [OF put_nul lit_words(1)]) (simp add: lit_words(2))

lemma video_not_audio: "ascii ''audio'' \<noteq> ascii ''video''"
  by simp

lemma build_read_section:
  assumes ok: "answer_ok cfg" and x: "(ty, mid) \<in> set (answer_media_list cfg)"
  shows "video_matches cfg o' \<or> cstr ty = ascii ''video'' \<Longrightarrow> video_matches cfg (build_media o' (read_section cfg (ty, mid)))"
    and "audio_matches cfg o' \<or> cstr ty = ascii ''audio'' \<Longrightarrow> audio_matches cfg (build_media o' (read_section cfg (ty, mid)))"
    and "of_session (build_media o' (read_section cfg (ty, mid))) = of_session o'"
proof -
  have mo: "media_ok (cstr mid) (an_video_pt cfg) (an_video_fmtp cfg) (an_video_twcc_ext cfg) (an_video_twcc_uri cfg)"
    "media_ok (cstr mid) (an_audio_pt cfg) (an_audio_fmtp cfg) (an_audio_twcc_ext cfg) (an_audio_twcc_uri cfg)"
    using ok x by (auto simp: answer_ok_def answer_media_list_def dest: set_zip_rightD)
  note d = type_eq encoding_eq ascii_words cstr_nonzero
  have o: "build_media o' (read_section cfg (ty, mid)) = o'" if "cstr ty \<noteq> ascii ''video''" "cstr ty \<noteq> ascii ''audio''"
    using that by (simp add: build_media_def read_section_def d)
  have v: "video_matches cfg (build_media o' (read_section cfg (ty, mid)))" "audio_matches cfg (build_media o' (read_section cfg (ty, mid))) = audio_matches cfg o'"
    "of_session (build_media o' (read_section cfg (ty, mid))) = of_session o'" if "cstr ty = ascii ''video''"
    using that mo(1) by (auto simp: build_media_def read_section_def read_media_def Let_def d media_ok_def video_matches_def audio_matches_def)
  have a: "audio_matches cfg (build_media o' (read_section cfg (ty, mid)))" "video_matches cfg (build_media o' (read_section cfg (ty, mid))) = video_matches cfg o'"
    "of_session (build_media o' (read_section cfg (ty, mid))) = of_session o'" if "cstr ty = ascii ''audio''"
    using that mo(2) by (auto simp: build_media_def read_section_def read_media_def Let_def d media_ok_def video_matches_def audio_matches_def)
  show "video_matches cfg o' \<or> cstr ty = ascii ''video'' \<Longrightarrow> video_matches cfg (build_media o' (read_section cfg (ty, mid)))"
    using o v(1) a(2) by (metis video_not_audio)
  show "audio_matches cfg o' \<or> cstr ty = ascii ''audio'' \<Longrightarrow> audio_matches cfg (build_media o' (read_section cfg (ty, mid)))"
    using o v(2) a(1) by (metis video_not_audio)
  show "of_session (build_media o' (read_section cfg (ty, mid))) = of_session o'" using o v(3) a(3) by metis
qed

lemma build_sections:
  assumes ok: "answer_ok cfg"
  shows "set xs \<subseteq> set (answer_media_list cfg) \<Longrightarrow>
    (let o'' = foldl build_media o' (map (read_section cfg) xs) in
       of_session o'' = of_session o'
       \<and> (video_matches cfg o' \<or> ascii ''video'' \<in> (\<lambda>x. cstr (fst x)) ` set xs \<longrightarrow> video_matches cfg o'')
       \<and> (audio_matches cfg o' \<or> ascii ''audio'' \<in> (\<lambda>x. cstr (fst x)) ` set xs \<longrightarrow> audio_matches cfg o''))"
proof (induction xs arbitrary: o')
  case (Cons x xs)
  obtain ty mid where x: "x = (ty, mid)" by (cases x)
  have x': "(ty, mid) \<in> set (answer_media_list cfg)" "set xs \<subseteq> set (answer_media_list cfg)" using Cons.prems x by simp_all
  show ?case using Cons.IH [OF x'(2), of "build_media o' (read_section cfg x)"] build_read_section [OF ok x'(1), of o'] x
    by (auto simp: Let_def)
qed simp

lemma read_section_names:
  "answer_ok cfg \<Longrightarrow> (ty, mid) \<in> set (answer_media_list cfg) \<Longrightarrow> cstr (md_type (read_section cfg (ty, mid))) = cstr ty
     \<and> cstr (md_mid (read_section cfg (ty, mid))) = (if cstr ty \<in> {ascii ''video'', ascii ''audio''} then cstr mid else [])"
  by (auto simp: read_section_def read_media_def Let_def media_zero_def cstr_nonzero ascii_words)

text \<open>What a reader of the answer learns: the session, the sections in order, and the parameters of each medium that is there.\<close>

definition answer_read :: "ngx_rtc_sdp_answer \<Rightarrow> ngx_rtc_sdp_offer \<Rightarrow> bool" where
  "answer_read cfg o' \<longleftrightarrow> session_matches cfg (of_session o')
     \<and> map cstr (of_media_type o') = map cstr (an_media_type cfg)
     \<and> map cstr (of_media_mid o') = map (\<lambda>(ty, mid). if cstr ty \<in> {ascii ''video'', ascii ''audio''} then cstr mid else []) (zip (an_media_type cfg) (an_media_mid cfg))
     \<and> (ascii ''video'' \<in> cstr ` set (an_media_type cfg) \<longrightarrow> video_matches cfg o')
     \<and> (ascii ''audio'' \<in> cstr ` set (an_media_type cfg) \<longrightarrow> audio_matches cfg o')"

lemma parse_answer_text:
  assumes ok: "answer_ok cfg"
  shows "\<exists>o'. ngx_rtc_sdp_parse_offer (Some (answer_text cfg)) (Some out) = (NGX_RTC_OK, Some o') \<and> answer_read cfg o'"
proof -
  let ?xs = "answer_media_list cfg"
  let ?st = "parser_zero\<lparr>sp_session := read_session cfg, sp_media := map (read_section cfg) ?xs, sp_in_media := ?xs \<noteq> []\<rparr>"
  let ?o = "ngx_rtc_sdp_build_offer ?st offer_zero"
  have len: "length ?xs \<le> NGX_RTC_SDP_MAX_MEDIA" and eq: "length (an_media_type cfg) = length (an_media_mid cfg)"
    using ok by (simp_all add: answer_media_list_def answer_ok_def)
  have "line_loop (answer_text cfg) 0 parser_zero = fold_lines (answer_lines cfg) parser_zero"
    using line_loop_lines [OF answer_lines_eol [OF ok], of "[]"] by (simp add: answer_text_def)
  also have "\<dots> = Inr ?st"
    using fold_sections [OF ok subset_refl, of "parser_zero\<lparr>sp_session := read_session cfg\<rparr>"] len unfolding fold_head [OF ok] by (auto simp: parser_zero_def)
  finally have p: "ngx_rtc_sdp_parse_offer (Some (answer_text cfg)) (Some out) = (NGX_RTC_OK, Some ?o)" by (simp add: ngx_rtc_sdp_parse_offer_def)
  have names: "map cstr (of_media_type ?o) = map (\<lambda>x. cstr (fst x)) ?xs"
    "map cstr (of_media_mid ?o) = map (\<lambda>(ty, mid). if cstr ty \<in> {ascii ''video'', ascii ''audio''} then cstr mid else []) ?xs"
    using read_section_names [OF ok] by (auto simp: ngx_rtc_sdp_build_offer_def)
  have "map fst ?xs = an_media_type cfg" using eq by (simp add: answer_media_list_def)
  then have ty: "map (\<lambda>x. cstr (fst x)) ?xs = map cstr (an_media_type cfg)" by (metis (no_types) map_map comp_apply map_eq_conv)
  then have tys: "(\<lambda>x. cstr (fst x)) ` set ?xs = cstr ` set (an_media_type cfg)" by (metis image_set)
  define z where "z = foldl build_media (offer_zero\<lparr>of_session := read_session cfg\<rparr>) (map (read_section cfg) ?xs)"
  have z: "of_session z = read_session cfg" "ascii ''video'' \<in> cstr ` set (an_media_type cfg) \<Longrightarrow> video_matches cfg z"
    "ascii ''audio'' \<in> cstr ` set (an_media_type cfg) \<Longrightarrow> audio_matches cfg z"
    using build_sections [OF ok subset_refl, of "offer_zero\<lparr>of_session := read_session cfg\<rparr>"] unfolding tys z_def Let_def by simp_all
  have o: "?o = z\<lparr>of_media_type := map md_type (sp_media ?st), of_media_mid := map md_mid (sp_media ?st)\<rparr>"
    by (simp add: ngx_rtc_sdp_build_offer_def z_def)
  have "session_matches cfg (of_session ?o)" "video_matches cfg ?o = video_matches cfg z" "audio_matches cfg ?o = audio_matches cfg z"
    unfolding o using z(1) read_session_matches [OF ok] by (simp_all add: video_matches_def audio_matches_def)
  then have "answer_read cfg ?o"
    unfolding answer_read_def answer_media_list_def [symmetric] ty [symmetric] names tys using z(2,3) by (simp add: ty)
  then show ?thesis using p by blast
qed

text \<open>
  C5. Generating an answer whose fields fit their lines and parsing the generated octets gives the answer back: the
  credentials, the fingerprint and the set-up role, the sections in order with their types and their identifications,
  and for each carried medium the payload type, stream identifier, encoding, clock rate, channels, format parameters and
  transport-wide extension.
\<close>

theorem sdp_roundtrip:
  assumes ok: "answer_ok cfg" and fits: "length (answer_text cfg) < cap" "cap \<le> length buf"
  shows "\<exists>buf' len o'. ngx_rtc_sdp_generate_answer (Some cfg) (Some buf) cap (Some n) = (NGX_RTC_OK, Some buf', Some len)
    \<and> ngx_rtc_sdp_parse_offer (Some (take len buf')) (Some out) = (NGX_RTC_OK, Some o') \<and> answer_read cfg o'"
proof -
  obtain buf' where g: "ngx_rtc_sdp_generate_answer (Some cfg) (Some buf) cap (Some n) = (NGX_RTC_OK, Some buf', Some (length (answer_text cfg)))"
    "take (length (answer_text cfg)) buf' = answer_text cfg"
    using generate_answer_exact [OF fits(2), of cfg n] fits(1) by auto
  obtain o' where "ngx_rtc_sdp_parse_offer (Some (answer_text cfg)) (Some out) = (NGX_RTC_OK, Some o')" "answer_read cfg o'"
    using parse_answer_text [OF ok] by blast
  then show ?thesis using g by (intro exI [of _ buf'] exI [of _ "length (answer_text cfg)"] exI [of _ o']) simp
qed

definition demo_answer :: ngx_rtc_sdp_answer where
  "demo_answer = answer_default\<lparr>an_ice_ufrag := Some (ascii ''uf''), an_ice_pwd := Some (ascii ''secret''), an_fingerprint_algo := Some (ascii ''sha-256''),
     an_fingerprint := Some (ascii ''AB:CD''), an_setup := Some (ascii ''passive''), an_video_twcc_ext := 3,
     an_video_twcc_uri := Some (ascii ''http://x/transport-wide-cc-01'')\<rparr>"

lemma demo_array: "n > length s \<Longrightarrow> 0 \<notin> set (ascii s) \<Longrightarrow> 0 \<in> set (buf_put 0 (lit s) (replicate n 0)) \<and> cstr (buf_put 0 (lit s) (replicate n 0)) = ascii s"
  using put_nul [of n "ascii s"] cstr_put [of "ascii s" n] by (simp add: put_def lit_def)

lemma demo_answer_ok: "answer_ok demo_answer"
proof -
  have z: "0 \<notin> set (ascii s)" if "CHR 0x00 \<notin> set s" for s
  proof -
    have "(of_char c :: u8) = 0 \<longleftrightarrow> c = CHR 0x00" for c using of_char_u8_inj [of c "CHR 0x00"] by simp
    then show ?thesis using that by (force simp: ascii_def)
  qed
  have w: "ws_free (ascii s) \<longleftrightarrow> CHR '' '' \<notin> set s \<and> CHR 0x09 \<notin> set s" for s
  proof -
    have "is_ws (of_char c) \<longleftrightarrow> c = CHR '' '' \<or> c = CHR 0x09" for c
      using of_char_u8_inj [of c "CHR '' ''"] of_char_u8_inj [of c "CHR 0x09"] by (simp add: is_ws_def)
    then show ?thesis by (auto simp: ws_free_def ascii_def)
  qed
  have "ascii ''http://x/transport-wide-cc-01'' = ascii ''http://x/'' @ ascii ''transport-wide-cc'' @ ascii ''-01''" by (simp flip: ascii_append)
  then have "\<exists>a b. ascii ''http://x/transport-wide-cc-01'' = a @ ascii ''transport-wide-cc'' @ b" by blast
  then have u: "twcc_uri_ok (ascii ''http://x/transport-wide-cc-01'')" by (simp add: twcc_uri_ok_def w eol_ascii)
  have h: "s \<noteq> [] \<Longrightarrow> is_ws (hd (ascii s)) \<longleftrightarrow> \<not> ws_free (ascii [hd s])" for s by (cases s) (simp_all add: ascii_def ws_free_def)
  have d: "0 \<in> set (buf_put 0 (lit ''video'') (replicate 64 0))" "cstr (buf_put 0 (lit ''video'') (replicate 64 0)) = ascii ''video''"
    "0 \<in> set (buf_put 0 (lit ''audio'') (replicate 64 0))" "cstr (buf_put 0 (lit ''audio'') (replicate 64 0)) = ascii ''audio''"
    "cstr (buf_put 0 (lit ''0'') (replicate 32 0)) = ascii ''0''" "cstr (buf_put 0 (lit ''1'') (replicate 32 0)) = ascii ''1''"
    using demo_array [OF _ z] by simp_all
  have ne: "ascii s = [] \<longleftrightarrow> s = []" for s by (simp add: ascii_def)
  show ?thesis
    by (simp add: answer_ok_def demo_answer_def answer_default_def field_def token_def media_ok_def nonempty_def c_text_def d u w z h ne eol_ascii)
qed

theorem sdp_roundtrip_witness:
  "\<exists>buf' len o'. ngx_rtc_sdp_generate_answer (Some demo_answer) (Some (replicate (Suc (length (answer_text demo_answer))) 0)) (Suc (length (answer_text demo_answer)))
      (Some 0) = (NGX_RTC_OK, Some buf', Some len)
    \<and> ngx_rtc_sdp_parse_offer (Some (take len buf')) (Some offer_zero) = (NGX_RTC_OK, Some o') \<and> answer_read demo_answer o'"
  by (rule sdp_roundtrip [OF demo_answer_ok]) simp_all
end
