(* ===== verification/SdpSafe.thy ===== *)
theory SdpSafe
  imports Sdp
begin

text \<open>
  The type of the SDP parser's data and that parsing keeps it, whatever the input: every array has its declared
  size and a terminating NUL, the two counts are within their arrays and payload types are seven bits. The
  parser's functions are sequences of fallible steps, so each is an instance of the rule for \<open>and_then\<close>.
\<close>

section \<open>Typing\<close>

definition carray :: "nat \<Rightarrow> bytes \<Rightarrow> bool" where
  "carray n a \<longleftrightarrow> length a = n \<and> 0 \<in> set a"

definition session_typed :: "ngx_rtc_sdp_session \<Rightarrow> bool" where
  "session_typed s \<longleftrightarrow> carray NGX_RTC_SDP_ICE_UFRAG_LEN (ss_ice_ufrag s) \<and> carray NGX_RTC_SDP_ICE_PWD_LEN (ss_ice_pwd s)
     \<and> carray NGX_RTC_SDP_FP_ALGO_LEN (ss_fingerprint_algo s) \<and> carray NGX_RTC_SDP_FP_LEN (ss_fingerprint s) \<and> carray NGX_RTC_SDP_SETUP_LEN (ss_setup s)"

definition pt_typed :: "ngx_rtc_sdp_pt \<Rightarrow> bool" where
  "pt_typed p \<longleftrightarrow> pt_pt p \<le> 127 \<and> carray NGX_RTC_SDP_STR_LEN (pt_encoding p) \<and> carray NGX_RTC_SDP_FMTP_LEN (pt_fmtp p)"

definition media_typed :: "ngx_rtc_sdp_media \<Rightarrow> bool" where
  "media_typed m \<longleftrightarrow> carray NGX_RTC_SDP_STR_LEN (md_type m) \<and> carray NGX_RTC_SDP_MID_LEN (md_mid m) \<and> md_twcc_ext m \<le> 14
     \<and> carray NGX_RTC_SDP_TWCC_URI_LEN (md_twcc_uri m) \<and> length (md_pts m) \<le> NGX_RTC_SDP_MAX_PT \<and> (\<forall>p \<in> set (md_pts m). pt_typed p)"

definition parser_typed :: "ngx_rtc_sdp_parser \<Rightarrow> bool" where
  "parser_typed st \<longleftrightarrow> session_typed (sp_session st) \<and> length (sp_media st) \<le> NGX_RTC_SDP_MAX_MEDIA \<and> (\<forall>m \<in> set (sp_media st). media_typed m)
     \<and> (sp_in_media st \<longrightarrow> sp_media st \<noteq> [])"

definition offer_typed :: "ngx_rtc_sdp_offer \<Rightarrow> bool" where
  "offer_typed f \<longleftrightarrow> session_typed (of_session f) \<and> of_video_pt f \<le> 127 \<and> of_audio_pt f \<le> 127 \<and> of_video_twcc_ext f \<le> 14 \<and> of_audio_twcc_ext f \<le> 14
     \<and> carray NGX_RTC_SDP_STR_LEN (of_video_encoding f) \<and> carray NGX_RTC_SDP_FMTP_LEN (of_video_fmtp f)
     \<and> carray NGX_RTC_SDP_STR_LEN (of_audio_encoding f) \<and> carray NGX_RTC_SDP_FMTP_LEN (of_audio_fmtp f)
     \<and> carray NGX_RTC_SDP_TWCC_URI_LEN (of_video_twcc_uri f) \<and> carray NGX_RTC_SDP_TWCC_URI_LEN (of_audio_twcc_uri f)
     \<and> length (of_media_type f) \<le> NGX_RTC_SDP_MAX_MEDIA \<and> length (of_media_mid f) = length (of_media_type f)
     \<and> (\<forall>t \<in> set (of_media_type f). carray NGX_RTC_SDP_STR_LEN t) \<and> (\<forall>i \<in> set (of_media_mid f). carray NGX_RTC_SDP_MID_LEN i)"

text \<open>A step that fails with one of the parser's codes or gives a result with \<open>P\<close>.\<close>

definition yields :: "('a \<Rightarrow> bool) \<Rightarrow> int + 'a \<Rightarrow> bool" where
  "yields P r \<longleftrightarrow> (case r of Inl e \<Rightarrow> e \<in> {NGX_RTC_ERR_TOO_SMALL, NGX_RTC_ERR_TOO_LARGE, NGX_RTC_ERR_PARSE} | Inr x \<Rightarrow> P x)"

lemma yields_simps [simp]: "yields P (Inr x) \<longleftrightarrow> P x"
  "yields P (Inl NGX_RTC_ERR_TOO_SMALL)" "yields P (Inl NGX_RTC_ERR_TOO_LARGE)" "yields P (Inl NGX_RTC_ERR_PARSE)"
  by (simp_all add: yields_def)

lemma yields_then: "yields P r \<Longrightarrow> (\<And>x. P x \<Longrightarrow> yields Q (f x)) \<Longrightarrow> yields Q (and_then r f)"
  by (cases r) (simp_all add: yields_def and_then_def)

section \<open>Steps\<close>

lemma carray_zero [simp]: "carray n (replicate n 0) \<longleftrightarrow> 0 < n"
  by (auto simp: carray_def)

lemma carray_put: "carray n a \<Longrightarrow> length s < n \<Longrightarrow> carray n (buf_put 0 (s @ [0]) a)"
  by (auto simp: carray_def buf_put_def)

lemma copy_token_typed: "carray n a \<Longrightarrow> yields (carray n) (ngx_rtc_sdp_copy_token a s)"
  using carray_put [of n a s] by (auto simp: ngx_rtc_sdp_copy_token_def carray_def)

lemma set_if_empty_typed: "carray n a \<Longrightarrow> yields (carray n) (ngx_rtc_sdp_set_if_empty a s)"
  using copy_token_typed by (auto simp: ngx_rtc_sdp_set_if_empty_def)

lemma parse_u32_yields: "yields (\<lambda>_. True) (ngx_rtc_sdp_parse_u32 s)"
proof -
  have "yields (\<lambda>_. True) (u32_loop s v seen)" for v seen by (induction s v seen rule: u32_loop.induct) (auto simp: Let_def)
  then show ?thesis by (simp add: ngx_rtc_sdp_parse_u32_def)
qed

lemma next_token_yields: "yields (\<lambda>_. True) (ngx_rtc_sdp_next_token s pos)"
  by (auto simp: ngx_rtc_sdp_next_token_def Let_def)

lemma find_pt_range: "find_pt_loop pt i ps = Some k \<Longrightarrow> i \<le> k \<and> k < i + length ps"
  by (induction pt i ps rule: find_pt_loop.induct) (auto split: if_splits)

lemma leading_pt_yields: "yields (\<lambda>(k, pos). k < length (md_pts m)) (leading_pt m v)"
  unfolding leading_pt_def
  by (rule yields_then [OF next_token_yields], clarsimp, rule yields_then [OF parse_u32_yields])
    (auto simp: ngx_rtc_sdp_find_pt_def dest: find_pt_range split: option.splits)

lemma fingerprint_typed:
  assumes "session_typed s" shows "yields session_typed (ngx_rtc_sdp_parse_fingerprint s v)"
proof -
  have c: "carray NGX_RTC_SDP_FP_ALGO_LEN (ss_fingerprint_algo s)" "carray NGX_RTC_SDP_FP_LEN (ss_fingerprint s)"
    using assms by (simp_all add: session_typed_def)
  show ?thesis unfolding ngx_rtc_sdp_parse_fingerprint_def Let_def
    by (rule yields_then [OF next_token_yields])
      (use assms in \<open>auto simp: session_typed_def intro!: yields_then [OF copy_token_typed [OF c(1)]] yields_then [OF copy_token_typed [OF c(2)]]\<close>)
qed

lemma media_pts_set:
  assumes "media_typed m" "k < length (md_pts m)" "pt_typed p" shows "media_typed (m\<lparr>md_pts := (md_pts m)[k := p]\<rparr>)"
  using assms by (auto simp: media_typed_def dest!: set_update_subset_insert [THEN subsetD])

lemma media_pts_nth: "media_typed m \<Longrightarrow> k < length (md_pts m) \<Longrightarrow> pt_typed (md_pts m ! k)"
  by (simp add: media_typed_def)

lemma rtpmap_typed:
  assumes "media_typed m" shows "yields media_typed (ngx_rtc_sdp_parse_rtpmap m v)"
  unfolding ngx_rtc_sdp_parse_rtpmap_def Let_def
proof (rule yields_then [OF leading_pt_yields], clarify, rule yields_then [OF copy_token_typed [where n = NGX_RTC_SDP_STR_LEN]], goal_cases)
  case (1 k pos)
  then show ?case using media_pts_nth [OF assms] by (simp add: pt_typed_def)
next
  case (2 k pos enc)
  then have "pt_typed (md_pts m ! k)" using media_pts_nth [OF assms] by simp
  then have "pt_typed ((md_pts m ! k)\<lparr>pt_encoding := enc, pt_clock_rate := c\<rparr>)" "pt_typed ((md_pts m ! k)\<lparr>pt_encoding := enc, pt_clock_rate := c, pt_channels := d\<rparr>)"
    for c d using 2 by (simp_all add: pt_typed_def)
  then show ?case using 2 media_pts_set [OF assms]
    by (intro yields_then [OF parse_u32_yields]) (auto intro: yields_then [OF parse_u32_yields])
qed

lemma ssrc_typed: "media_typed m \<Longrightarrow> yields media_typed (ngx_rtc_sdp_parse_ssrc m v)"
  unfolding ngx_rtc_sdp_parse_ssrc_def
  by (rule yields_then [OF next_token_yields], clarsimp, rule yields_then [OF parse_u32_yields]) (simp add: media_typed_def)

lemma fmtp_typed:
  assumes "media_typed m" shows "yields media_typed (ngx_rtc_sdp_parse_fmtp m v)"
  unfolding ngx_rtc_sdp_parse_fmtp_def
proof (rule yields_then [OF leading_pt_yields], clarify, rule yields_then [OF copy_token_typed [where n = NGX_RTC_SDP_FMTP_LEN]], goal_cases)
  case (1 k pos)
  then show ?case using media_pts_nth [OF assms] by (simp add: pt_typed_def)
next
  case (2 k pos f)
  then show ?case using media_pts_nth [OF assms, of k] media_pts_set [OF assms] by (simp add: pt_typed_def)
qed

lemma ucast_le_14: "x \<le> (14 :: u32) \<Longrightarrow> (ucast x :: u8) \<le> 14"
  by (simp add: word_le_nat_alt unsigned_ucast_eq take_bit_nat_eq_self)

lemma ucast_le_127: "\<not> x > (127 :: u32) \<Longrightarrow> (ucast x :: u8) \<le> 127"
  by (simp add: word_le_nat_alt word_less_nat_alt unsigned_ucast_eq take_bit_nat_eq_self)

lemma extmap_typed: "media_typed m \<Longrightarrow> yields media_typed (ngx_rtc_sdp_parse_extmap m v)"
  by (auto simp: ngx_rtc_sdp_parse_extmap_def Let_def media_typed_def ucast_le_14 buf_get_def intro!: carray_put)

lemma mid_typed: "media_typed m \<Longrightarrow> yields media_typed (and_then (ngx_rtc_sdp_copy_token (md_mid m) v) (\<lambda>x. Inr (m\<lparr>md_mid := x\<rparr>)))"
  by (rule yields_then [OF copy_token_typed]) (auto simp: media_typed_def)

lemma on_media_typed:
  assumes "parser_typed st" "sp_in_media st" "\<And>m. media_typed m \<Longrightarrow> yields media_typed (f m)"
  shows "yields parser_typed (on_media f st (length (sp_media st) - 1))"
proof -
  have i: "length (sp_media st) - 1 < length (sp_media st)" using assms by (simp add: parser_typed_def)
  then have "media_typed (sp_media st ! (length (sp_media st) - 1))" using assms(1) by (simp add: parser_typed_def)
  then show ?thesis unfolding on_media_def
    by (rule yields_then [OF assms(3)]) (use assms(1) in \<open>auto simp: parser_typed_def dest!: set_update_subset_insert [THEN subsetD]\<close>)
qed

lemma apply_attr_typed:
  assumes "parser_typed st" "mp = (if sp_in_media st then Some (length (sp_media st) - 1) else None)"
  shows "yields parser_typed (ngx_rtc_sdp_apply_attr st name v mp)"
proof -
  have f: "yields parser_typed (set_session_field get upd v st)"
    if "carray n (get (sp_session st))" "\<And>x. carray n x \<Longrightarrow> session_typed (upd (\<lambda>_. x) (sp_session st))" for get upd n
    unfolding set_session_field_def by (rule yields_then [OF set_if_empty_typed [OF that(1)]]) (use assms(1) that(2) in \<open>simp add: parser_typed_def\<close>)
  have s: "yields parser_typed (set_session_field ss_ice_ufrag ss_ice_ufrag_update v st)"
    "yields parser_typed (set_session_field ss_ice_pwd ss_ice_pwd_update v st)" "yields parser_typed (set_session_field ss_setup ss_setup_update v st)"
    using assms(1) by (auto simp: parser_typed_def session_typed_def intro!: f)
  have p: "yields parser_typed (and_then (ngx_rtc_sdp_parse_fingerprint (sp_session st) v) (\<lambda>s. Inr (st\<lparr>sp_session := s\<rparr>)))"
    by (rule yields_then [OF fingerprint_typed]) (use assms(1) in \<open>auto simp: parser_typed_def\<close>)
  note m = on_media_typed [OF assms(1) _ mid_typed] on_media_typed [OF assms(1) _ rtpmap_typed] on_media_typed [OF assms(1) _ ssrc_typed]
    on_media_typed [OF assms(1) _ fmtp_typed] on_media_typed [OF assms(1) _ extmap_typed]
  show ?thesis unfolding ngx_rtc_sdp_apply_attr_def assms(2) using s p m assms(1) by (simp split: option.splits)
qed

lemma media_pts_typed:
  "length pts \<le> NGX_RTC_SDP_MAX_PT \<Longrightarrow> \<forall>p \<in> set pts. pt_typed p
     \<Longrightarrow> yields (\<lambda>ps. length ps \<le> NGX_RTC_SDP_MAX_PT \<and> (\<forall>p \<in> set ps. pt_typed p)) (media_pts content pos pts)"
proof (induction content pos pts rule: media_pts.induct)
  case (1 content pos pts)
  have z: "pt_typed (pt_zero\<lparr>pt_pt := ucast pt\<rparr>)" if "\<not> pt > 127" for pt :: u32
    using ucast_le_127 [OF that] by (simp add: pt_typed_def pt_zero_def)
  show ?case using 1 z by (subst media_pts.simps) (auto split: sum.splits prod.splits)
qed

lemma parse_media_typed:
  assumes "parser_typed st" shows "yields parser_typed (ngx_rtc_sdp_parse_media st content)"
proof (cases "length (sp_media st) \<ge> NGX_RTC_SDP_MAX_MEDIA")
  case True
  then show ?thesis by (simp add: ngx_rtc_sdp_parse_media_def)
next
  case False
  have ty: "carray NGX_RTC_SDP_STR_LEN (md_type media_zero)" by (simp add: media_zero_def)
  show ?thesis
    unfolding ngx_rtc_sdp_parse_media_def using False
    apply (simp only: if_False)
    apply (rule yields_then [OF next_token_yields], clarify)
    apply (rule yields_then [OF copy_token_typed [OF ty]])
    apply (rule yields_then [OF next_token_yields], clarify)
    apply (rule yields_then [OF next_token_yields], clarify)
    apply (rule yields_then [OF media_pts_typed [of "[]"]])
    using assms by (auto simp: parser_typed_def media_typed_def media_zero_def)
qed

lemma parse_line_typed: "parser_typed st \<Longrightarrow> yields parser_typed (ngx_rtc_sdp_parse_line st line)"
  using apply_attr_typed parse_media_typed by (simp add: ngx_rtc_sdp_parse_line_def ngx_rtc_sdp_parse_attr_def Let_def)

lemma line_loop_typed: "parser_typed st \<Longrightarrow> yields parser_typed (line_loop sdp pos st)"
proof (induction sdp pos st rule: line_loop.induct)
  case (1 sdp pos st)
  then show ?case
    by (subst line_loop.simps) (auto simp: Let_def intro!: yields_then [where P = parser_typed] parse_line_typed)
qed

section \<open>The offer\<close>

lemma find_encoding_in: "find_encoding enc ps = Some p \<Longrightarrow> p \<in> set ps"
  by (induction enc ps rule: find_encoding.induct) (auto split: if_splits)

lemma build_media_typed:
  assumes "offer_typed f" "media_typed m" shows "offer_typed (build_media f m)"
proof -
  have "pt_typed p" if "find_encoding enc (md_pts m) = Some p" for enc p using find_encoding_in [OF that] assms(2) by (simp add: media_typed_def)
  then show ?thesis using assms by (auto simp: build_media_def Let_def offer_typed_def media_typed_def pt_typed_def split: option.splits)
qed

lemma build_offer_typed:
  assumes "parser_typed st" shows "offer_typed (ngx_rtc_sdp_build_offer st offer_zero)"
proof -
  have "offer_typed (foldl build_media f ms)" if "offer_typed f" "\<forall>m \<in> set ms. media_typed m" for f ms
    using that by (induction ms arbitrary: f) (auto intro: build_media_typed)
  moreover have "offer_typed (offer_zero\<lparr>of_session := sp_session st\<rparr>)" using assms by (simp add: offer_typed_def offer_zero_def parser_typed_def)
  ultimately have "offer_typed (foldl build_media (offer_zero\<lparr>of_session := sp_session st\<rparr>) (sp_media st))" using assms by (simp add: parser_typed_def)
  then show ?thesis using assms by (auto simp: ngx_rtc_sdp_build_offer_def offer_typed_def parser_typed_def media_typed_def)
qed

text \<open>
  C26. Parsing an offer returns on every input, with success or one of its three error codes, and the caller's structure is
  well typed in each case: every text array keeps its declared size and has a NUL in it, at most four sections are
  recorded, payload types are at most 127 and extension numbers at most 14. When parsing fails the structure is left zeroed.
\<close>

theorem sdp_offer_typed:
  "\<exists>r f. ngx_rtc_sdp_parse_offer (Some sdp) (Some out) = (r, Some f) \<and> offer_typed f
     \<and> (r = NGX_RTC_OK \<or> r \<in> {NGX_RTC_ERR_TOO_SMALL, NGX_RTC_ERR_TOO_LARGE, NGX_RTC_ERR_PARSE} \<and> f = offer_zero)"
proof -
  have z: "parser_typed parser_zero" "offer_typed offer_zero"
    by (simp_all add: parser_typed_def parser_zero_def session_typed_def session_zero_def offer_typed_def offer_zero_def)
  show ?thesis
  proof (cases "line_loop sdp 0 parser_zero")
    case (Inl e)
    then show ?thesis using line_loop_typed [OF z(1), of sdp 0] z(2) by (auto simp: ngx_rtc_sdp_parse_offer_def yields_def)
  next
    case (Inr st)
    then show ?thesis using line_loop_typed [OF z(1), of sdp 0] build_offer_typed [of st] by (simp add: ngx_rtc_sdp_parse_offer_def)
  qed
qed

end
