(* ===== verification/Core.thy ===== *)
theory Core
  imports Prelude Rtp SessionFsm Srtp
begin

text \<open>
  The media path of \<^verbatim>\<open>src/ngx_rtc_core.c\<close>: the tunables, the GOP ring of cached packets, the send
  path of a session (backpressure, pacing, transport-wide sequence, SRTP, socket), NACK
  retransmission with its budget window, the token bucket and the loss-driven rate controller.
  \<^verbatim>\<open>ngx_uint_t\<close> and \<^verbatim>\<open>ngx_msec_t\<close> are 64-bit words. The socket, the clock, libsrtp2 and the state
  machine's reporters are parameters. Log output is left out.
\<close>

section \<open>Tunables\<close>

record ngx_rtc_tunables =
  jitter_timeout_ms :: u32
  nack_window_ms_base :: u32
  nack_window_max_ms :: u32
  eagain_streak_max :: u32
  gop_ring_slots :: u32

definition ngx_rtc_default_tunables :: ngx_rtc_tunables where
  "ngx_rtc_default_tunables = \<lparr>jitter_timeout_ms = 50, nack_window_ms_base = 100, nack_window_max_ms = 800,
     eagain_streak_max = 3, gop_ring_slots = 2048\<rparr>"

text \<open>The static \<^verbatim>\<open>ngx_rtc_tunables\<close> is the state; NULL restores the defaults.\<close>

definition ngx_rtc_core_set_tunables :: "ngx_rtc_tunables option \<Rightarrow> ngx_rtc_tunables" where
  "ngx_rtc_core_set_tunables t = (case t of Some t \<Rightarrow> t | None \<Rightarrow> ngx_rtc_default_tunables)"

section \<open>Data\<close>

abbreviation NGX_RTC_MAX_RTP_PKT :: nat where "NGX_RTC_MAX_RTP_PKT \<equiv> 1214"
abbreviation NGX_RTC_SRTP_TAG_LEN :: nat where "NGX_RTC_SRTP_TAG_LEN \<equiv> 10"
abbreviation NGX_RTC_CIPHER_CAP :: nat where "NGX_RTC_CIPHER_CAP \<equiv> 1256"
abbreviation NGX_RTC_NACK_BUDGET :: u64 where "NGX_RTC_NACK_BUDGET \<equiv> 128"
abbreviation NGX_RTC_EAGAIN_STREAK_IDLE_MS :: u64 where "NGX_RTC_EAGAIN_STREAK_IDLE_MS \<equiv> 1000"
abbreviation NGX_RTC_KEYFRAME_MAX_PKTS :: u64 where "NGX_RTC_KEYFRAME_MAX_PKTS \<equiv> 256"
abbreviation NGX_RTC_PACER_MIN_BPS :: u64 where "NGX_RTC_PACER_MIN_BPS \<equiv> 64000"
abbreviation NGX_RTC_PACER_MAX_BPS :: u64 where "NGX_RTC_PACER_MAX_BPS \<equiv> 8000000"
abbreviation NGX_RTC_PACER_BURST_MS :: u64 where "NGX_RTC_PACER_BURST_MS \<equiv> 100"
abbreviation NGX_RTC_TWCC_WINDOW_MS :: u64 where "NGX_RTC_TWCC_WINDOW_MS \<equiv> 500"
abbreviation NGX_RTC_TWCC_MIN_PKTS :: u64 where "NGX_RTC_TWCC_MIN_PKTS \<equiv> 20"

record ngx_rtc_rtp_cache_slot =
  slot_data :: bytes
  slot_len :: u16
  slot_gop_start :: bool

record ngx_rtc_rtp_ring =
  slots :: "ngx_rtc_rtp_cache_slot list option"
  capacity :: u32
  ring_head :: u32
  ring_count :: u32
  gop_start :: u32

text \<open>The part of a source that the media path reads.\<close>

record ngx_rtc_source =
  src_video_ssrc :: u32
  src_audio_ssrc :: u32
  src_gop :: ngx_rtc_rtp_ring

record ('c, 'a, 'u) ngx_rtc_session =
  source :: "ngx_rtc_source option"
  video_pt :: u8
  audio_pt :: u8
  twcc_video_ext :: u8
  twcc_audio_ext :: u8
  twcc_seq :: u16
  twcc_lost :: u32
  twcc_received :: u32
  drop_gop :: u64
  drop_pacer :: u64
  srtp_failed :: u64
  srtp :: ngx_rtc_srtp
  fsm :: "('a, 'u) session_hsm"
  conn :: "'c option"
  cipher :: bytes
  send_failed :: u64
  send_eagain :: u64
  drop_until_gop :: bool
  send_eagain_streak :: u64
  send_eagain_ms :: u64
  keyframe_open :: bool
  keyframe_pkts :: u64
  nack_window_start :: u64
  nack_window_ms :: u64
  nack_retransmitted :: u64
  nack_seen :: "u16 list"
  nack_seen_count :: u64
  pacer_started :: bool
  pacer_target_bps :: u64
  pacer_tokens :: u64
  pacer_last_ms :: u64
  twcc_win_lost :: u32
  twcc_win_received :: u32
  twcc_win_started :: bool
  twcc_win_start_ms :: u64

text \<open>What surrounds a session: \<open>env_send c buf n w\<close> is \<^verbatim>\<open>c->send(c, buf, n)\<close>.\<close>

record ('w, 'c, 'a, 'u, 'k) core_env =
  env_send :: "'c \<Rightarrow> bytes \<Rightarrow> nat \<Rightarrow> 'w \<Rightarrow> int \<times> 'w"
  env_lib :: "'w srtp_lib"
  env_rep :: "('a, 'u, 'k) reporters"
  env_tunables :: ngx_rtc_tunables
  env_now :: u64

section \<open>Send pacing\<close>

definition ngx_rtc_pacer_bucket_bytes :: "('c, 'a, 'u) ngx_rtc_session \<Rightarrow> u64" where
  "ngx_rtc_pacer_bucket_bytes sess =
     (let nbytes = pacer_target_bps sess * NGX_RTC_PACER_BURST_MS div 8000
      in if nbytes < 1214 then 1214 else nbytes)"

definition pacer_clamp :: "u64 \<Rightarrow> u64" where
  "pacer_clamp bps =
     (if bps < NGX_RTC_PACER_MIN_BPS then NGX_RTC_PACER_MIN_BPS
      else if bps > NGX_RTC_PACER_MAX_BPS then NGX_RTC_PACER_MAX_BPS else bps)"

text \<open>\<^verbatim>\<open>capacity = bucket_bytes(sess); if (tokens > capacity) tokens = capacity;\<close>\<close>

definition pacer_trim :: "('c, 'a, 'u) ngx_rtc_session \<Rightarrow> ('c, 'a, 'u) ngx_rtc_session" where
  "pacer_trim sess =
     (let cap = ngx_rtc_pacer_bucket_bytes sess
      in if pacer_tokens sess > cap then sess\<lparr>pacer_tokens := cap\<rparr> else sess)"

definition ngx_rtc_session_pacer_init ::
  "('c, 'a, 'u) ngx_rtc_session option \<Rightarrow> u64 \<Rightarrow> ('c, 'a, 'u) ngx_rtc_session option" where
  "ngx_rtc_session_pacer_init sessp start_bps =
     (case sessp of None \<Rightarrow> None
      | Some sess \<Rightarrow>
          (let sess = sess\<lparr>pacer_target_bps := pacer_clamp start_bps\<rparr>
           in Some (sess\<lparr>pacer_tokens := ngx_rtc_pacer_bucket_bytes sess, pacer_last_ms := 0, pacer_started := False\<rparr>)))"

definition pacer_refill :: "('c, 'a, 'u) ngx_rtc_session \<Rightarrow> u64 \<Rightarrow> ('c, 'a, 'u) ngx_rtc_session" where
  "pacer_refill sess now_ms =
     (let cap = ngx_rtc_pacer_bucket_bytes sess
      in if \<not> pacer_started sess then sess\<lparr>pacer_started := True, pacer_last_ms := now_ms\<rparr>
         else if now_ms \<ge> pacer_last_ms sess then
           (let delta_ms = now_ms - pacer_last_ms sess;
                refill = (if delta_ms \<ge> NGX_RTC_PACER_BURST_MS then cap else delta_ms * pacer_target_bps sess div 8000);
                sess = sess\<lparr>pacer_last_ms := now_ms\<rparr>;
                sess = sess\<lparr>pacer_tokens := pacer_tokens sess + refill\<rparr>
            in if pacer_tokens sess > cap then sess\<lparr>pacer_tokens := cap\<rparr> else sess)
         else sess\<lparr>pacer_last_ms := now_ms\<rparr>)"

definition ngx_rtc_session_pacer_admit ::
  "('c, 'a, 'u) ngx_rtc_session option \<Rightarrow> u32 \<Rightarrow> u64 \<Rightarrow> int \<times> ('c, 'a, 'u) ngx_rtc_session option" where
  "ngx_rtc_session_pacer_admit sessp pkt_bytes now_ms =
     (case sessp of None \<Rightarrow> (NGX_RTC_ERR_INVALID, None)
      | Some sess \<Rightarrow>
          (let sess = pacer_refill sess now_ms
           in if pacer_tokens sess < ucast pkt_bytes then (NGX_RTC_AGAIN, Some sess)
              else (NGX_RTC_OK, Some (sess\<lparr>pacer_tokens := pacer_tokens sess - ucast pkt_bytes\<rparr>))))"

definition ngx_rtc_session_pacer_cap ::
  "('c, 'a, 'u) ngx_rtc_session option \<Rightarrow> u64 \<Rightarrow> ('c, 'a, 'u) ngx_rtc_session option" where
  "ngx_rtc_session_pacer_cap sessp bps =
     (case sessp of None \<Rightarrow> None
      | Some sess \<Rightarrow>
          (let bps = pacer_clamp bps
           in if bps \<ge> pacer_target_bps sess then Some sess
              else Some (pacer_trim (sess\<lparr>pacer_target_bps := bps\<rparr>))))"

section \<open>Loss-driven rate control\<close>

text \<open>The three loss bands.\<close>

definition twcc_aimd :: "u64 \<Rightarrow> u64 \<Rightarrow> u64" where
  "twcc_aimd loss_permille target =
     (if loss_permille > 50 then target * 85 div 100
      else if loss_permille < 20 then target + target * 8 div 100
      else target)"

definition twcc_window_reset :: "('c, 'a, 'u) ngx_rtc_session \<Rightarrow> u64 \<Rightarrow> ('c, 'a, 'u) ngx_rtc_session" where
  "twcc_window_reset sess now_ms = sess\<lparr>twcc_win_lost := 0, twcc_win_received := 0, twcc_win_start_ms := now_ms\<rparr>"

definition ngx_rtc_session_on_twcc ::
  "('c, 'a, 'u) ngx_rtc_session option \<Rightarrow> u32 \<Rightarrow> u32 \<Rightarrow> u64 \<Rightarrow> ('c, 'a, 'u) ngx_rtc_session option" where
  "ngx_rtc_session_on_twcc sessp lost received now_ms =
     (case sessp of None \<Rightarrow> None
      | Some sess \<Rightarrow>
          (let sess = sess\<lparr>twcc_lost := twcc_lost sess + lost, twcc_received := twcc_received sess + received,
                 twcc_win_lost := twcc_win_lost sess + lost, twcc_win_received := twcc_win_received sess + received\<rparr>;
               tot = (ucast (twcc_win_lost sess) + ucast (twcc_win_received sess) :: u64)
           in if tot = 0 then Some sess
              else if \<not> twcc_win_started sess then Some (sess\<lparr>twcc_win_started := True, twcc_win_start_ms := now_ms\<rparr>)
              else (let delta_ms = (if now_ms \<ge> twcc_win_start_ms sess then now_ms - twcc_win_start_ms sess else 0)
                    in if delta_ms < NGX_RTC_TWCC_WINDOW_MS \<and> tot < NGX_RTC_TWCC_MIN_PKTS then Some sess
                       else (let target = pacer_target_bps sess
                             in if target = 0 then Some (twcc_window_reset sess now_ms)
                                else (let loss_permille = ucast (twcc_win_lost sess) * 1000 div tot;
                                          target = pacer_clamp (twcc_aimd loss_permille target)
                                      in Some (twcc_window_reset (pacer_trim (sess\<lparr>pacer_target_bps := target\<rparr>)) now_ms))))))"

section \<open>The bucket in natural numbers\<close>

lemma unat_u64_less: "unat (x :: u64) < 18446744073709551616"
  using unsigned_less [of x, where ?'a = nat] by simp

lemma unat_mul64: "unat a * unat b < 18446744073709551616 \<Longrightarrow> unat (a * b :: u64) = unat a * unat b"
  by (simp add: unat_mult_lem [symmetric])

lemma unat_add64: "unat a + unat b < 18446744073709551616 \<Longrightarrow> unat (a + b :: u64) = unat a + unat b"
  by (simp add: unat_add_lem [symmetric])

definition bucket_nat :: "nat \<Rightarrow> nat" where
  "bucket_nat target = max (target * 100 div 8000) 1214"

text \<open>The pacer's invariant: the target inside its clamp, no more tokens than the bucket holds.\<close>

definition pacer_ok :: "('c, 'a, 'u) ngx_rtc_session \<Rightarrow> bool" where
  "pacer_ok sess \<longleftrightarrow> 64000 \<le> unat (pacer_target_bps sess) \<and> unat (pacer_target_bps sess) \<le> 8000000
     \<and> unat (pacer_tokens sess) \<le> bucket_nat (unat (pacer_target_bps sess))"

lemma bucket_nat_le: "t \<le> 8000000 \<Longrightarrow> bucket_nat t \<le> 100000"
  by (auto simp: bucket_nat_def)

lemma bucket_bytes_nat:
  assumes "unat (pacer_target_bps sess) \<le> 8000000"
  shows "unat (ngx_rtc_pacer_bucket_bytes sess) = bucket_nat (unat (pacer_target_bps sess))"
proof -
  have m: "unat (pacer_target_bps sess * 100) = unat (pacer_target_bps sess) * 100"
    using unat_mul64 [of "pacer_target_bps sess" 100] assms by simp
  then have d: "unat (pacer_target_bps sess * 100 div 8000) = unat (pacer_target_bps sess) * 100 div 8000"
    by (simp add: unat_div)
  then show ?thesis
    by (simp add: ngx_rtc_pacer_bucket_bytes_def Let_def bucket_nat_def word_less_nat_alt max_def not_less)
qed

lemma pacer_clamp_nat: "unat (pacer_clamp b) = max 64000 (min 8000000 (unat b))"
  by (auto simp: pacer_clamp_def word_less_nat_alt)

lemma pacer_clamp_bounds: "64000 \<le> unat (pacer_clamp b)" "unat (pacer_clamp b) \<le> 8000000"
  by (simp_all add: pacer_clamp_nat)

lemma pacer_trim_ok:
  assumes "64000 \<le> unat (pacer_target_bps sess)" "unat (pacer_target_bps sess) \<le> 8000000"
  shows "pacer_ok (pacer_trim sess)" "pacer_target_bps (pacer_trim sess) = pacer_target_bps sess"
  using assms bucket_bytes_nat [of sess]
  by (auto simp: pacer_ok_def pacer_trim_def Let_def word_less_nat_alt not_less)

text \<open>Refilling: what the elapsed time is worth.\<close>

definition refill_nat :: "nat \<Rightarrow> nat \<Rightarrow> nat" where
  "refill_nat target delta = (if 100 \<le> delta then bucket_nat target else delta * target div 8000)"

lemma refill_le: "t \<le> 8000000 \<Longrightarrow> refill_nat t d \<le> 100000"
proof -
  assume t: "t \<le> 8000000"
  have "d * t div 8000 \<le> 100000" if "\<not> 100 \<le> d"
  proof -
    have "d * t \<le> 100 * 8000000" using t that by (intro mult_le_mono) auto
    then show ?thesis by auto
  qed
  then show ?thesis using bucket_nat_le [OF t] by (simp add: refill_nat_def)
qed

lemma pacer_refill_nat:
  assumes "pacer_ok sess" "pacer_started sess" "pacer_last_ms sess \<le> now"
  shows "pacer_target_bps (pacer_refill sess now) = pacer_target_bps sess"
    "unat (pacer_tokens (pacer_refill sess now)) = min (bucket_nat (unat (pacer_target_bps sess)))
       (unat (pacer_tokens sess) + refill_nat (unat (pacer_target_bps sess)) (unat now - unat (pacer_last_ms sess)))"
    "pacer_last_ms (pacer_refill sess now) = now" "pacer_started (pacer_refill sess now)"
proof -
  let ?t = "unat (pacer_target_bps sess)" and ?d = "now - pacer_last_ms sess"
  have t: "?t \<le> 8000000" "unat (pacer_tokens sess) \<le> bucket_nat ?t" using assms(1) by (auto simp: pacer_ok_def)
  have d: "unat ?d = unat now - unat (pacer_last_ms sess)" using assms(3) by (simp add: unat_sub)
  note cap = bucket_bytes_nat [OF t(1)]
  define refill where "refill = (if ?d \<ge> NGX_RTC_PACER_BURST_MS then ngx_rtc_pacer_bucket_bytes sess else ?d * pacer_target_bps sess div 8000)"
  have r: "unat refill = refill_nat ?t (unat ?d)"
  proof (cases "100 \<le> unat ?d")
    case True
    then show ?thesis by (simp add: refill_def refill_nat_def word_le_nat_alt cap)
  next
    case False
    have "unat ?d * ?t \<le> 100 * 8000000" using False t(1) by (intro mult_le_mono) auto
    then have "unat (?d * pacer_target_bps sess) = unat ?d * ?t" by (intro unat_mul64) simp
    then show ?thesis using False by (simp add: refill_def refill_nat_def word_le_nat_alt unat_div)
  qed
  have s: "unat (pacer_tokens sess + refill) = unat (pacer_tokens sess) + refill_nat ?t (unat ?d)"
    using r t refill_le [OF t(1), of "unat ?d"] bucket_nat_le [OF t(1)] by (subst unat_add64) auto
  have e: "pacer_refill sess now = (let s = sess\<lparr>pacer_last_ms := now, pacer_tokens := pacer_tokens sess + refill\<rparr>
      in if pacer_tokens s > ngx_rtc_pacer_bucket_bytes sess then s\<lparr>pacer_tokens := ngx_rtc_pacer_bucket_bytes sess\<rparr> else s)"
    using assms(2,3) by (simp add: pacer_refill_def Let_def refill_def)
  show "pacer_target_bps (pacer_refill sess now) = pacer_target_bps sess"
    "pacer_last_ms (pacer_refill sess now) = now" "pacer_started (pacer_refill sess now)"
    unfolding e using assms(2) by (simp_all add: Let_def)
  show "unat (pacer_tokens (pacer_refill sess now)) = min (bucket_nat ?t)
       (unat (pacer_tokens sess) + refill_nat ?t (unat now - unat (pacer_last_ms sess)))"
    unfolding e using s d cap by (simp add: Let_def word_less_nat_alt)
qed

lemma pacer_refill_ok:
  assumes "pacer_ok sess"
  shows "pacer_ok (pacer_refill sess now) \<and> pacer_target_bps (pacer_refill sess now) = pacer_target_bps sess
     \<and> pacer_started (pacer_refill sess now) \<and> pacer_last_ms (pacer_refill sess now) = now"
proof (cases "pacer_started sess \<and> pacer_last_ms sess \<le> now")
  case True
  then show ?thesis using assms pacer_refill_nat [OF assms, of now] by (simp add: pacer_ok_def)
next
  case False
  then show ?thesis using assms by (auto simp: pacer_refill_def pacer_ok_def Let_def)
qed

text \<open>An admitted packet is paid for.\<close>

lemma pacer_admit_cases:
  assumes "ngx_rtc_session_pacer_admit (Some sess) p now = (r, sp)"
  shows "\<exists>s. sp = Some s \<and> (r = NGX_RTC_OK \<or> r = NGX_RTC_AGAIN)
    \<and> (r = NGX_RTC_OK \<longleftrightarrow> unat p \<le> unat (pacer_tokens (pacer_refill sess now)))
    \<and> unat (pacer_tokens s) + (if r = NGX_RTC_OK then unat p else 0) = unat (pacer_tokens (pacer_refill sess now))
    \<and> (\<exists>x. s = (pacer_refill sess now)\<lparr>pacer_tokens := x\<rparr>)"
proof -
  have u: "unat (ucast p :: u64) = unat p"
    using unat_u32_less [of p] by (simp add: unsigned_ucast_eq take_bit_nat_eq_self)
  show ?thesis
  proof (cases "pacer_tokens (pacer_refill sess now) < ucast p")
    case True
    then have e: "r = NGX_RTC_AGAIN" "sp = Some (pacer_refill sess now)"
      using assms by (simp_all add: ngx_rtc_session_pacer_admit_def Let_def)
    have "\<exists>x. pacer_refill sess now = (pacer_refill sess now)\<lparr>pacer_tokens := x\<rparr>"
      by (rule exI [of _ "pacer_tokens (pacer_refill sess now)"]) simp
    then show ?thesis using e True u by (simp add: word_less_nat_alt)
  next
    case False
    then have e: "r = NGX_RTC_OK"
      "sp = Some ((pacer_refill sess now)\<lparr>pacer_tokens := pacer_tokens (pacer_refill sess now) - ucast p\<rparr>)"
      using assms by (simp_all add: ngx_rtc_session_pacer_admit_def Let_def)
    have le: "ucast p \<le> pacer_tokens (pacer_refill sess now)" using False by (simp add: not_less)
    then have "unat (pacer_tokens (pacer_refill sess now) - ucast p) = unat (pacer_tokens (pacer_refill sess now)) - unat p"
      "unat p \<le> unat (pacer_tokens (pacer_refill sess now))"
      using u by (simp_all add: unat_sub word_le_nat_alt)
    then show ?thesis unfolding e
      by (intro exI [of _ "(pacer_refill sess now)\<lparr>pacer_tokens := pacer_tokens (pacer_refill sess now) - ucast p\<rparr>"]
          conjI exI [of _ "pacer_tokens (pacer_refill sess now) - ucast p"]) simp_all
  qed
qed

lemma pacer_admit_ok:
  assumes "pacer_ok sess" "ngx_rtc_session_pacer_admit (Some sess) p now = (r, Some s)"
  shows "pacer_ok s \<and> pacer_target_bps s = pacer_target_bps sess \<and> pacer_started s \<and> pacer_last_ms s = now"
proof -
  let ?f = "pacer_refill sess now"
  have a: "unat (pacer_tokens s) + (if r = NGX_RTC_OK then unat p else 0) = unat (pacer_tokens ?f)"
    "\<exists>x. s = ?f\<lparr>pacer_tokens := x\<rparr>"
    using pacer_admit_cases [OF assms(2)] unfolding option.inject by blast+
  obtain x where x: "s = ?f\<lparr>pacer_tokens := x\<rparr>" using a(2) by blast
  have le: "unat (pacer_tokens s) \<le> unat (pacer_tokens ?f)" using a(1) by linarith
  have k: "pacer_target_bps s = pacer_target_bps ?f" "pacer_started s = pacer_started ?f" "pacer_last_ms s = pacer_last_ms ?f"
    unfolding x by simp_all
  show ?thesis using pacer_refill_ok [OF assms(1), of now] le unfolding pacer_ok_def k by linarith
qed

section \<open>The rate the pacer allows\<close>

text \<open>A run of packets offered at given times, and the octets admitted.\<close>

primrec pacer_run :: "(u32 \<times> u64) list \<Rightarrow> ('c, 'a, 'u) ngx_rtc_session \<Rightarrow> nat \<times> ('c, 'a, 'u) ngx_rtc_session" where
  "pacer_run [] sess = (0, sess)"
| "pacer_run (x # xs) sess =
     (case ngx_rtc_session_pacer_admit (Some sess) (fst x) (snd x) of
        (r, sp) \<Rightarrow> (case pacer_run xs (the sp) of
          (n, sess') \<Rightarrow> ((if r = NGX_RTC_OK then unat (fst x) else 0) + n, sess')))"

text \<open>A refill is worth at most the elapsed time at the larger of the target and 97120 bit/s.\<close>

lemma refill_rate: "t \<le> 8000000 \<Longrightarrow> 8000 * refill_nat t d \<le> d * max t 97120"
proof (cases "100 \<le> d")
  case True
  have "8000 * bucket_nat t \<le> 100 * max t 97120" by (auto simp: bucket_nat_def max_def)
  also have "\<dots> \<le> d * max t 97120" using True by (intro mult_le_mono1)
  finally show ?thesis using True by (simp add: refill_nat_def)
next
  case False
  have "8000 * (d * t div 8000) \<le> d * t" by simp
  also have "\<dots> \<le> d * max t 97120" by simp
  finally show ?thesis using False by (simp add: refill_nat_def)
qed

lemma pacer_admit_total: "\<exists>r s. ngx_rtc_session_pacer_admit (Some sess) p now = (r, Some s)"
  using pacer_admit_cases [of sess p now "fst (ngx_rtc_session_pacer_admit (Some sess) p now)"
    "snd (ngx_rtc_session_pacer_admit (Some sess) p now)"] by (metis prod.collapse)

lemma pacer_chain:
  "8000 * q + 8000 * a \<le> b + x \<Longrightarrow> 8000 * n \<le> 8000 * a + y \<Longrightarrow> z = x + y \<Longrightarrow> 8000 * (q + n) \<le> b + (z :: nat)"
  by simp

lemma pacer_run_bound:
  assumes "pacer_ok sess" "pacer_started sess" "sorted (map (unat \<circ> snd) xs)"
    and "\<forall>x \<in> set xs. unat (pacer_last_ms sess) \<le> unat (snd x)"
  shows "8000 * fst (pacer_run xs sess) \<le> 8000 * unat (pacer_tokens sess)
     + (unat (snd (last ((0, pacer_last_ms sess) # xs))) - unat (pacer_last_ms sess)) * max (unat (pacer_target_bps sess)) 97120"
  using assms
proof (induction xs arbitrary: sess)
  case (Cons x xs)
  obtain p now where x: "x = (p, now)" by fastforce
  let ?R = "max (unat (pacer_target_bps sess)) 97120"
  obtain r s where a: "ngx_rtc_session_pacer_admit (Some sess) p now = (r, Some s)" using pacer_admit_total by blast
  have le: "pacer_last_ms sess \<le> now" using Cons.prems(4) x by (simp add: word_le_nat_alt)
  have t: "unat (pacer_target_bps sess) \<le> 8000000" using Cons.prems(1) by (simp add: pacer_ok_def)
  note ok = pacer_admit_ok [OF Cons.prems(1) a]
  have sum: "unat (pacer_tokens s) + (if r = NGX_RTC_OK then unat p else 0) = unat (pacer_tokens (pacer_refill sess now))"
    using pacer_admit_cases [OF a] unfolding option.inject by blast
  define e where "e = unat now - unat (pacer_last_ms sess)"
  have "8000 * unat (pacer_tokens (pacer_refill sess now)) \<le> 8000 * unat (pacer_tokens sess) + e * ?R"
  proof -
    have "unat (pacer_tokens (pacer_refill sess now)) \<le> unat (pacer_tokens sess) + refill_nat (unat (pacer_target_bps sess)) e"
      unfolding e_def pacer_refill_nat(2) [OF Cons.prems(1,2) le] by simp
    then show ?thesis using refill_rate [OF t, of e] by linarith
  qed
  then have step: "8000 * (if r = NGX_RTC_OK then unat p else 0) + 8000 * unat (pacer_tokens s) \<le> 8000 * unat (pacer_tokens sess) + e * ?R"
    unfolding sum [symmetric] by (simp only: add_mult_distrib2 add.commute)
  define l where "l = unat (snd (last ((0, now) # xs)))"
  have ih: "8000 * fst (pacer_run xs s) \<le> 8000 * unat (pacer_tokens s) + (l - unat now) * ?R"
    using Cons.IH [of s] ok Cons.prems(3) x by (simp add: l_def del: fst_conv)
  have ln: "unat now \<le> l"
    using Cons.prems(3) x by (cases xs) (auto simp: l_def)
  have "unat (pacer_last_ms sess) \<le> unat now" using le by (simp add: word_le_nat_alt)
  then have split: "(l - unat (pacer_last_ms sess)) * ?R = e * ?R + (l - unat now) * ?R"
    using ln by (simp add: e_def add_mult_distrib [symmetric])
  have l: "unat (snd (last ((0, pacer_last_ms sess) # x # xs))) = l" by (simp add: l_def x)
  have run: "fst (pacer_run (x # xs) sess) = (if r = NGX_RTC_OK then unat p else 0) + fst (pacer_run xs s)"
    using a by (simp add: x split: prod.splits)
  show ?case unfolding run l by (rule pacer_chain [OF step ih split])
qed simp



text \<open>A zeroed session in a given life-cycle state, for the examples.\<close>

definition blank_session :: "session_object \<Rightarrow> (nat, nat, nat) ngx_rtc_session" where
  "blank_session st = \<lparr>source = None, video_pt = 0, audio_pt = 0, twcc_video_ext = 0, twcc_audio_ext = 0, twcc_seq = 0,
     twcc_lost = 0, twcc_received = 0, drop_gop = 0, drop_pacer = 0, srtp_failed = 0,
     srtp = \<lparr>recv_ctx = None, send_ctx = Some 1\<rparr>,
     fsm = \<lparr>hsm_current_state = Some st, hsm_initial_state = Some S_session_new, hsm_user_data = None,
       hsm_unhandled_event_hook = None, hsm_entry_path_buffer = Some (replicate 4 None), hsm_buffer_size = 4\<rparr>,
     conn = Some 0, cipher = replicate NGX_RTC_CIPHER_CAP 0, send_failed = 0, send_eagain = 0, drop_until_gop = False,
     send_eagain_streak = 0, send_eagain_ms = 0, keyframe_open = False, keyframe_pkts = 0, nack_window_start = 0,
     nack_window_ms = 0, nack_retransmitted = 0, nack_seen = replicate 128 0, nack_seen_count = 0, pacer_started = False,
     pacer_target_bps = 0, pacer_tokens = 0, pacer_last_ms = 0, twcc_win_lost = 0, twcc_win_received = 0,
     twcc_win_started = False, twcc_win_start_ms = 0\<rparr>"


section \<open>The rate controller\<close>

lemma twcc_aimd_nat:
  assumes "unat t \<le> 8000000"
  shows "unat (twcc_aimd l t) = (if 50 < unat l then unat t * 85 div 100
     else if unat l < 20 then unat t + unat t * 8 div 100 else unat t)"
proof -
  have m: "unat (t * 85) = unat t * 85" "unat (t * 8) = unat t * 8"
    using assms unat_mul64 [of t 85] unat_mul64 [of t 8] by simp_all
  then have d: "unat (t * 85 div 100) = unat t * 85 div 100" "unat (t * 8 div 100) = unat t * 8 div 100"
    by (simp_all add: unat_div)
  have "unat (t + t * 8 div 100) = unat t + unat t * 8 div 100"
    using assms d(2) by (subst unat_add64) simp_all
  then show ?thesis using d(1) by (simp add: twcc_aimd_def word_less_nat_alt)
qed

lemma twcc_window_reset_ok [simp]: "pacer_ok (twcc_window_reset s now) = pacer_ok s"
  by (simp add: pacer_ok_def twcc_window_reset_def)

lemma on_twcc_ok:
  assumes "pacer_ok sess" "ngx_rtc_session_on_twcc (Some sess) lost received now = Some s"
  shows "pacer_ok s"
proof -
  have c: "pacer_ok (pacer_trim (q\<lparr>pacer_target_bps := pacer_clamp b\<rparr>))" for b and q :: "('a, 'b, 'c) ngx_rtc_session"
    by (intro pacer_trim_ok) (simp_all add: pacer_clamp_bounds)
  have k: "pacer_ok (sess\<lparr>twcc_lost := a, twcc_received := b, twcc_win_lost := d, twcc_win_received := e\<rparr>)"
    "pacer_ok (sess\<lparr>twcc_lost := a, twcc_received := b, twcc_win_lost := d, twcc_win_received := e,
       twcc_win_started := f, twcc_win_start_ms := g\<rparr>)" for a b d e f g
    using assms(1) by (simp_all add: pacer_ok_def)
  show ?thesis using assms(2) c k
    by (auto simp: ngx_rtc_session_on_twcc_def Let_def split: if_splits)
qed

lemma pacer_init_ok: "ngx_rtc_session_pacer_init (Some s0) b = Some s \<Longrightarrow> pacer_ok s \<and> \<not> pacer_started s"
  using bucket_bytes_nat [of "s0\<lparr>pacer_target_bps := pacer_clamp b\<rparr>"] pacer_clamp_bounds [of b]
  by (auto simp: ngx_rtc_session_pacer_init_def Let_def pacer_ok_def ngx_rtc_pacer_bucket_bytes_def)

lemma pacer_cap_ok:
  "pacer_ok sess \<Longrightarrow> ngx_rtc_session_pacer_cap (Some sess) b = Some s \<Longrightarrow>
   pacer_ok s \<and> unat (pacer_target_bps s) = min (unat (pacer_target_bps sess)) (max 64000 (unat b))"
  using pacer_trim_ok [of "sess\<lparr>pacer_target_bps := pacer_clamp b\<rparr>"] pacer_clamp_bounds [of b]
  by (auto simp: ngx_rtc_session_pacer_cap_def Let_def pacer_clamp_nat word_le_nat_alt pacer_ok_def split: if_splits)

text \<open>The states the pacer's operations lead to.\<close>

inductive pacer_reach :: "('c, 'a, 'u) ngx_rtc_session \<Rightarrow> bool" where
  init: "ngx_rtc_session_pacer_init (Some s0) b = Some s \<Longrightarrow> pacer_reach s"
| admit: "pacer_reach s \<Longrightarrow> ngx_rtc_session_pacer_admit (Some s) p now = (r, Some s') \<Longrightarrow> pacer_reach s'"
| cap: "pacer_reach s \<Longrightarrow> ngx_rtc_session_pacer_cap (Some s) b = Some s' \<Longrightarrow> pacer_reach s'"
| twcc: "pacer_reach s \<Longrightarrow> ngx_rtc_session_on_twcc (Some s) l rc now = Some s' \<Longrightarrow> pacer_reach s'"

lemma pacer_reach_ok: "pacer_reach s \<Longrightarrow> pacer_ok s"
  by (induction rule: pacer_reach.induct) (use pacer_init_ok pacer_admit_ok pacer_cap_ok on_twcc_ok in blast)+

text \<open>
  C40. Whatever feedback the controller gets and whatever was sent, the target rate stays between 64 kbit/s
  and 8 Mbit/s, the bucket is never overfull, and no packet that fits an RTP datagram starves: 100 ms
  after the last attempt it is admitted.
\<close>

theorem pacer_never_starves:
  assumes "pacer_reach s"
  shows "64000 \<le> unat (pacer_target_bps s) \<and> unat (pacer_target_bps s) \<le> 8000000
    \<and> unat (pacer_tokens s) \<le> max (unat (pacer_target_bps s) * 100 div 8000) 1214
    \<and> (pacer_started s \<and> unat (pacer_last_ms s) + 100 \<le> unat now \<and> unat p \<le> NGX_RTC_MAX_RTP_PKT \<longrightarrow>
        fst (ngx_rtc_session_pacer_admit (Some s) p now) = NGX_RTC_OK)"
proof -
  have ok: "pacer_ok s" using pacer_reach_ok [OF assms] .
  have "fst (ngx_rtc_session_pacer_admit (Some s) p now) = NGX_RTC_OK"
    if h: "pacer_started s" "unat (pacer_last_ms s) + 100 \<le> unat now" "unat p \<le> NGX_RTC_MAX_RTP_PKT"
  proof -
    have le: "pacer_last_ms s \<le> now" using h(2) by (simp add: word_le_nat_alt)
    obtain r s' where a: "ngx_rtc_session_pacer_admit (Some s) p now = (r, Some s')" using pacer_admit_total by blast
    have "unat (pacer_tokens (pacer_refill s now)) = bucket_nat (unat (pacer_target_bps s))"
      using h(2) unfolding pacer_refill_nat(2) [OF ok h(1) le] by (simp add: refill_nat_def)
    then have "unat p \<le> unat (pacer_tokens (pacer_refill s now))" using h(3) by (simp add: bucket_nat_def)
    then show ?thesis using pacer_admit_cases [OF a] a by simp
  qed
  then show ?thesis using ok by (simp add: pacer_ok_def bucket_nat_def)
qed

theorem pacer_never_starves_witness:
  "\<exists>s :: (nat, nat, nat) ngx_rtc_session. pacer_reach s \<and> pacer_started s \<and> fst (ngx_rtc_session_pacer_admit (Some s) 1214 1100) = NGX_RTC_OK"
proof -
  obtain s0 where i: "ngx_rtc_session_pacer_init (Some (blank_session S_session_new)) 64000 = Some s0"
    by (simp add: ngx_rtc_session_pacer_init_def Let_def)
  obtain r s where a: "ngx_rtc_session_pacer_admit (Some s0) 1214 1000 = (r, Some s)" using pacer_admit_total by blast
  have s: "pacer_started s" "pacer_last_ms s = 1000" using pacer_admit_ok [OF _ a] pacer_init_ok [OF i] by simp_all
  have r: "pacer_reach s" using pacer_reach.admit [OF pacer_reach.init [OF i] a] .
  show ?thesis using pacer_never_starves [OF r, of 1100 1214] r s by auto
qed

text \<open>Feedback after feedback.\<close>

primrec twcc_run :: "(u32 \<times> u32 \<times> u64) list \<Rightarrow> ('c, 'a, 'u) ngx_rtc_session \<Rightarrow> ('c, 'a, 'u) ngx_rtc_session" where
  "twcc_run [] sess = sess"
| "twcc_run (x # xs) sess = (case x of (l, r, now) \<Rightarrow> twcc_run xs (the (ngx_rtc_session_on_twcc (Some sess) l r now)))"

definition twcc_sample :: "u32 \<times> u32 \<times> u64 \<Rightarrow> bool" where
  "twcc_sample x = (case x of (l, r, now) \<Rightarrow> 20 \<le> unat l + unat r)"

definition sample_permille :: "u32 \<times> u32 \<times> u64 \<Rightarrow> nat" where
  "sample_permille x = (case x of (l, r, now) \<Rightarrow> unat l * 1000 div (unat l + unat r))"

definition aimd_nat :: "nat \<Rightarrow> nat \<Rightarrow> nat" where
  "aimd_nat loss t = max 64000 (min 8000000
     (if 50 < loss then t * 85 div 100 else if loss < 20 then t + t * 8 div 100 else t))"

lemma on_twcc_sample:
  assumes "pacer_ok sess" "twcc_win_started sess" "twcc_win_lost sess = 0" "twcc_win_received sess = 0" "twcc_sample (l, r, now)"
  shows "\<exists>s. ngx_rtc_session_on_twcc (Some sess) l r now = Some s \<and> pacer_ok s \<and> twcc_win_started s
    \<and> twcc_win_lost s = 0 \<and> twcc_win_received s = 0
    \<and> unat (pacer_target_bps s) = aimd_nat (sample_permille (l, r, now)) (unat (pacer_target_bps sess))"
proof -
  let ?tot = "ucast l + ucast r :: u64"
  have u: "unat (ucast x :: u64) = unat x" for x :: u32
    using unat_u32_less [of x] by (simp add: unsigned_ucast_eq take_bit_nat_eq_self)
  have tot: "unat ?tot = unat l + unat r"
    using unat_u32_less [of l] unat_u32_less [of r] by (subst unat_add64) (simp_all add: u)
  have big: "\<not> ?tot < 20" "?tot \<noteq> 0"
    using assms(5) tot by (auto simp: twcc_sample_def word_less_nat_alt word_unat_eq_iff)
  define loss where "loss = ucast l * 1000 div ?tot"
  have "unat (ucast l * 1000 :: u64) = unat l * 1000"
    using unat_u32_less [of l] u by (subst unat_mul64) simp_all
  then have loss: "unat loss = sample_permille (l, r, now)"
    using tot by (simp add: loss_def unat_div sample_permille_def)
  have t: "unat (pacer_target_bps sess) \<le> 8000000" "pacer_target_bps sess \<noteq> 0"
    using assms(1) by (auto simp: pacer_ok_def word_unat_eq_iff)
  define s1 where "s1 = sess\<lparr>twcc_lost := twcc_lost sess + l, twcc_received := twcc_received sess + r,
     twcc_win_lost := l, twcc_win_received := r, pacer_target_bps := pacer_clamp (twcc_aimd loss (pacer_target_bps sess))\<rparr>"
  have e: "ngx_rtc_session_on_twcc (Some sess) l r now = Some (twcc_window_reset (pacer_trim s1) now)"
    using assms(2-4) big t(2)
    by (simp add: ngx_rtc_session_on_twcc_def Let_def s1_def loss_def)
  have b: "64000 \<le> unat (pacer_target_bps s1)" "unat (pacer_target_bps s1) \<le> 8000000"
    by (simp_all add: s1_def pacer_clamp_bounds)
  have st: "twcc_win_started (pacer_trim s1)" using assms(2) by (simp add: pacer_trim_def Let_def s1_def)
  have tg: "unat (pacer_target_bps s1) = aimd_nat (sample_permille (l, r, now)) (unat (pacer_target_bps sess))"
    by (simp add: s1_def pacer_clamp_nat twcc_aimd_nat [OF t(1)] loss aimd_nat_def)
  show ?thesis unfolding e using pacer_trim_ok [OF b] st tg
    by (intro exI [of _ "twcc_window_reset (pacer_trim s1) now"]) (simp add: twcc_window_reset_def pacer_ok_def)
qed

lemma twcc_run_fold:
  assumes "pacer_ok sess" "twcc_win_started sess" "twcc_win_lost sess = 0" "twcc_win_received sess = 0" "\<forall>x \<in> set xs. twcc_sample x"
  shows "pacer_ok (twcc_run xs sess)
    \<and> unat (pacer_target_bps (twcc_run xs sess)) = fold aimd_nat (map sample_permille xs) (unat (pacer_target_bps sess))"
  using assms
proof (induction xs arbitrary: sess)
  case (Cons x xs)
  obtain l r now where x: "x = (l, r, now)" by (cases x)
  obtain s where s: "ngx_rtc_session_on_twcc (Some sess) l r now = Some s" "pacer_ok s" "twcc_win_started s"
    "twcc_win_lost s = 0" "twcc_win_received s = 0"
    "unat (pacer_target_bps s) = aimd_nat (sample_permille x) (unat (pacer_target_bps sess))"
    using on_twcc_sample [OF Cons.prems(1-4), of l r now] Cons.prems(5) x by auto
  show ?case using Cons.IH [OF s(2-5)] Cons.prems(5) s(1,6) by (simp add: x)
qed simp

lemma aimd_nat_mono: "t \<le> t' \<Longrightarrow> aimd_nat l t \<le> aimd_nat l t'"
  by (auto simp: aimd_nat_def intro!: div_le_mono max.mono min.mono add_mono)

lemma fold_aimd_mono: "t \<le> t' \<Longrightarrow> fold aimd_nat ls t \<le> fold aimd_nat ls t'"
  by (induction ls arbitrary: t t') (simp_all add: aimd_nat_mono)

lemma aimd_band: "50 < l \<Longrightarrow> aimd_nat l t = aimd_nat 51 t" "l < 20 \<Longrightarrow> aimd_nat l t = aimd_nat 0 t"
  by (simp_all add: aimd_nat_def)

lemma fold_aimd_high: "\<forall>l \<in> set ls. 50 < l \<Longrightarrow> fold aimd_nat ls t = (aimd_nat 51 ^^ length ls) t"
proof (induction ls arbitrary: t)
  case (Cons l ls)
  then have "fold aimd_nat (l # ls) t = (aimd_nat 51 ^^ length ls) (aimd_nat 51 t)" using aimd_band(1) [of l t] by simp
  then show ?case by (simp only: funpow_Suc_right length_Cons comp_apply)
qed simp

lemma fold_aimd_low: "\<forall>l \<in> set ls. l < 20 \<Longrightarrow> fold aimd_nat ls t = (aimd_nat 0 ^^ length ls) t"
proof (induction ls arbitrary: t)
  case (Cons l ls)
  then have "fold aimd_nat (l # ls) t = (aimd_nat 0 ^^ length ls) (aimd_nat 0 t)" using aimd_band(2) [of l t] by simp
  then show ?case by (simp only: funpow_Suc_right length_Cons comp_apply)
qed simp

lemma funpow_30: "(f ^^ 30) x = f (f (f (f (f (f (f (f (f (f (f (f (f (f (f (f (f (f (f (f (f (f (f (f (f (f (f (f (f (f x)))))))))))))))))))))))))))))"
  by (simp add: eval_nat_numeral)

lemma funpow_63: "(f ^^ 63) x = f (f (f (f (f (f (f (f (f (f (f (f (f (f (f (f (f (f (f (f (f (f (f (f (f (f (f (f (f (f (f (f (f (f (f (f (f (f (f (f (f (f (f (f (f (f (f (f (f (f (f (f (f (f (f (f (f (f (f (f (f (f (f x))))))))))))))))))))))))))))))))))))))))))))))))))))))))))))))"
  by (simp add: eval_nat_numeral)

lemma aimd_floor: "(aimd_nat 51 ^^ 30) 8000000 = 64000" "aimd_nat 51 64000 = 64000"
  unfolding funpow_30 by (simp_all add: aimd_nat_def)

lemma aimd_ceiling: "(aimd_nat 0 ^^ 63) 64000 = 8000000" "aimd_nat 0 8000000 = 8000000"
  unfolding funpow_63 by (simp_all add: aimd_nat_def)

text \<open>
  The rate controller converges from any state: thirty windows in a row with more than five per cent
  loss bring the target down to 64 kbit/s and keep it there, sixty-three windows with less than two per
  cent loss bring it up to 8 Mbit/s and keep it there.
\<close>

theorem pacer_rate_converges:
  assumes "pacer_reach s" "twcc_win_started s" "twcc_win_lost s = 0" "twcc_win_received s = 0" "\<forall>x \<in> set xs. twcc_sample x"
  shows "((\<forall>x \<in> set xs. 50 < sample_permille x) \<and> 30 \<le> length xs \<longrightarrow> unat (pacer_target_bps (twcc_run xs s)) = 64000)
    \<and> ((\<forall>x \<in> set xs. sample_permille x < 20) \<and> 63 \<le> length xs \<longrightarrow> unat (pacer_target_bps (twcc_run xs s)) = 8000000)"
proof -
  have ok: "pacer_ok s" using pacer_reach_ok [OF assms(1)] .
  let ?t = "unat (pacer_target_bps s)"
  have t: "64000 \<le> ?t" "?t \<le> 8000000" using ok by (simp_all add: pacer_ok_def)
  have run: "unat (pacer_target_bps (twcc_run xs s)) = fold aimd_nat (map sample_permille xs) ?t"
    "pacer_ok (twcc_run xs s)"
    using twcc_run_fold [OF ok assms(2-5)] by simp_all
  have b: "64000 \<le> fold aimd_nat (map sample_permille xs) ?t" "fold aimd_nat (map sample_permille xs) ?t \<le> 8000000"
    using run by (simp_all add: pacer_ok_def)
  have fp: "(f ^^ n) x = x" if "f x = x" for f n and x :: nat using that by (induction n) simp_all
  have down: "(aimd_nat 51 ^^ n) 8000000 = 64000" if "30 \<le> n" for n
  proof -
    have "(aimd_nat 51 ^^ n) 8000000 = (aimd_nat 51 ^^ (n - 30)) ((aimd_nat 51 ^^ 30) 8000000)"
      using that by (metis funpow_add comp_apply le_add_diff_inverse2)
    then show ?thesis using fp [where f = "aimd_nat 51" and x = 64000, OF aimd_floor(2)] by (simp only: aimd_floor(1))
  qed
  have up: "(aimd_nat 0 ^^ n) 64000 = 8000000" if "63 \<le> n" for n
  proof -
    have "(aimd_nat 0 ^^ n) 64000 = (aimd_nat 0 ^^ (n - 63)) ((aimd_nat 0 ^^ 63) 64000)"
      using that by (metis funpow_add comp_apply le_add_diff_inverse2)
    then show ?thesis using fp [where f = "aimd_nat 0" and x = 8000000, OF aimd_ceiling(2)] by (simp only: aimd_ceiling(1))
  qed
  show ?thesis
  proof (intro conjI impI; elim conjE)
    assume l: "\<forall>x \<in> set xs. 50 < sample_permille x" and n: "30 \<le> length xs"
    have "fold aimd_nat (map sample_permille xs) ?t \<le> fold aimd_nat (map sample_permille xs) 8000000"
      using t(2) by (rule fold_aimd_mono)
    also have "\<dots> = 64000" using l down [OF n] by (subst fold_aimd_high) simp_all
    finally show "unat (pacer_target_bps (twcc_run xs s)) = 64000" using b run(1) by simp
  next
    assume l: "\<forall>x \<in> set xs. sample_permille x < 20" and n: "63 \<le> length xs"
    have "8000000 = fold aimd_nat (map sample_permille xs) 64000" using l up [OF n] by (subst fold_aimd_low) simp_all
    also have "\<dots> \<le> fold aimd_nat (map sample_permille xs) ?t" using t(1) by (rule fold_aimd_mono)
    finally show "unat (pacer_target_bps (twcc_run xs s)) = 8000000" using b run(1) by simp
  qed
qed

theorem pacer_rate_converges_witness:
  "\<exists>s :: (nat, nat, nat) ngx_rtc_session. pacer_reach s \<and> unat (pacer_target_bps (twcc_run (replicate 30 (6, 94, 0)) s)) = 64000"
proof -
  obtain s0 where i: "ngx_rtc_session_pacer_init (Some (blank_session S_session_new)) 3000000 = Some s0"
    "twcc_win_lost s0 = 0" "twcc_win_received s0 = 0" "\<not> twcc_win_started s0"
    by (simp add: ngx_rtc_session_pacer_init_def Let_def blank_session_def)
  have r0: "pacer_reach s0" by (rule pacer_reach.init [OF i(1)])
  define s1 where "s1 = s0\<lparr>twcc_lost := twcc_lost s0 + 0, twcc_received := twcc_received s0 + 20, twcc_win_lost := 0,
     twcc_win_received := 20, twcc_win_started := True, twcc_win_start_ms := 0\<rparr>"
  have e1: "ngx_rtc_session_on_twcc (Some s0) 0 20 0 = Some s1"
    using i by (simp add: ngx_rtc_session_on_twcc_def Let_def s1_def)
  have r1: "pacer_reach s1" by (rule pacer_reach.twcc [OF r0 e1])
  obtain s2 where e2: "ngx_rtc_session_on_twcc (Some s1) 0 20 0 = Some s2" "twcc_win_lost s2 = 0" "twcc_win_received s2 = 0" "twcc_win_started s2"
    using pacer_reach_ok [OF r1]
    by (simp add: ngx_rtc_session_on_twcc_def Let_def twcc_window_reset_def pacer_trim_def s1_def pacer_ok_def word_unat_eq_iff)
  have r2: "pacer_reach s2" by (rule pacer_reach.twcc [OF r1 e2(1)])
  have "\<forall>x \<in> set (replicate 30 (6 :: u32, 94 :: u32, 0 :: u64)). twcc_sample x \<and> 50 < sample_permille x"
    by (simp add: twcc_sample_def sample_permille_def)
  then show ?thesis
    using pacer_rate_converges [OF r2 e2(4,2,3), of "replicate 30 (6, 94, 0)"] r2 by auto
qed

end
