(* ===== verification/Send.thy ===== *)
theory Send
  imports Core
begin

text \<open>
  The GOP ring of cached packets, the send path of a session and NACK retransmission, from
  \<^verbatim>\<open>src/ngx_rtc_core.c\<close>. A packet handed to the send path is a buffer that holds at least \<open>len\<close> octets.
  A result \<open>None\<close> is a NULL dereference inside the state machine, which the theorems exclude by
  well-formed machines.
\<close>

section \<open>The GOP ring\<close>

text \<open>\<open>alloc\<close> says whether \<^verbatim>\<open>ngx_calloc\<close> succeeds; \<open>SIZE_MAX / sizeof(slot)\<close> exceeds every 32-bit count.\<close>

definition slot_zero :: ngx_rtc_rtp_cache_slot where
  "slot_zero = \<lparr>slot_data = replicate NGX_RTC_MAX_RTP_PKT 0, slot_len = 0, slot_gop_start = False\<rparr>"

definition ngx_rtc_rtp_ring_reserve :: "bool \<Rightarrow> ngx_rtc_rtp_ring option \<Rightarrow> u32 \<Rightarrow> bool \<times> ngx_rtc_rtp_ring option" where
  "ngx_rtc_rtp_ring_reserve alloc rp cap =
     (case rp of None \<Rightarrow> (False, rp)
      | Some r \<Rightarrow>
          if cap = 0 \<or> cap AND (cap - 1) \<noteq> 0 then (False, rp)
          else if slots r \<noteq> None then (True, rp)
          else if \<not> alloc then (False, rp)
          else (True, Some (r\<lparr>slots := Some (replicate (unat cap) slot_zero), capacity := cap\<rparr>)))"

definition ngx_rtc_rtp_ring_push ::
  "ngx_rtc_tunables \<Rightarrow> bool \<Rightarrow> ngx_rtc_rtp_ring option \<Rightarrow> bytes option \<Rightarrow> u32 \<Rightarrow> bool \<Rightarrow> ngx_rtc_rtp_ring option" where
  "ngx_rtc_rtp_ring_push tun alloc rp rtpp len is_gop_start =
     (case (rp, rtpp) of
        (Some _, Some rtp) \<Rightarrow>
          if len = 0 \<or> len > 1214 then rp
          else (case ngx_rtc_rtp_ring_reserve alloc rp (gop_ring_slots tun) of
                  (ok, rp) \<Rightarrow>
                    if \<not> ok then rp
                    else map_option (\<lambda>r.
                      let idx = unat (ring_head r AND (capacity r - 1));
                          slot = the (slots r) ! idx;
                          slot = slot\<lparr>slot_data := buf_put 0 (take (unat len) rtp) (slot_data slot), slot_len := ucast len,
                                      slot_gop_start := is_gop_start\<rparr>;
                          r = r\<lparr>slots := Some ((the (slots r))[idx := slot])\<rparr>;
                          r = (if is_gop_start then r\<lparr>gop_start := ring_head r\<rparr> else r);
                          r = r\<lparr>ring_head := ring_head r + 1\<rparr>
                      in if ring_count r < capacity r then r\<lparr>ring_count := ring_count r + 1\<rparr> else r) rp)
      | _ \<Rightarrow> rp)"

definition ngx_rtc_rtp_seq_from_data :: "bytes \<Rightarrow> u16" where
  "ngx_rtc_rtp_seq_from_data data = be16 (data ! 2) (data ! 3)"

text \<open>The result of a lookup: the packet's octets and length, or the return code.\<close>

definition ngx_rtc_rtp_ring_get :: "ngx_rtc_rtp_ring option \<Rightarrow> u16 \<Rightarrow> int + bytes \<times> u16" where
  "ngx_rtc_rtp_ring_get rp rtp_seq =
     (case rp of None \<Rightarrow> Inl NGX_RTC_ERR_INVALID
      | Some r \<Rightarrow>
          (case slots r of None \<Rightarrow> Inl NGX_RTC_ERR_PARSE
           | Some sl \<Rightarrow>
               if ring_count r = 0 then Inl NGX_RTC_ERR_PARSE
               else (let start = ring_head r - ring_count r;
                         idx = unat (start AND (capacity r - 1));
                         start_seq = ngx_rtc_rtp_seq_from_data (slot_data (sl ! idx));
                         dist = rtp_seq - start_seq
                     in if ucast dist \<ge> ring_count r then Inl NGX_RTC_ERR_PARSE
                        else (let idx = unat ((start + ucast dist) AND (capacity r - 1))
                              in if ngx_rtc_rtp_seq_from_data (slot_data (sl ! idx)) \<noteq> rtp_seq then Inl NGX_RTC_ERR_PARSE
                                 else Inr (slot_data (sl ! idx), slot_len (sl ! idx))))))"

definition ngx_rtc_source_gop_ready :: "ngx_rtc_source option \<Rightarrow> bool" where
  "ngx_rtc_source_gop_ready srcp =
     (case srcp of None \<Rightarrow> False | Some src \<Rightarrow> slots (src_gop src) \<noteq> None \<and> ring_count (src_gop src) \<noteq> 0)"

section \<open>Sending one packet\<close>

definition rtp_ssrc :: "bytes \<Rightarrow> u32" where
  "rtp_ssrc rtp = be32 (rtp ! 8) (rtp ! 9) (rtp ! 10) (rtp ! 11)"

definition send_is_video :: "('c, 'a, 'u) ngx_rtc_session \<Rightarrow> bytes \<Rightarrow> nat \<Rightarrow> bool" where
  "send_is_video sess rtp len =
     (12 \<le> len \<and> (case source sess of None \<Rightarrow> False | Some src \<Rightarrow> rtp_ssrc rtp = src_video_ssrc src))"

definition send_is_keyframe :: "('c, 'a, 'u) ngx_rtc_session \<Rightarrow> bool \<Rightarrow> bool \<Rightarrow> bool" where
  "send_is_keyframe sess is_video is_gop_start =
     (if is_video \<and> is_gop_start then True
      else is_video \<and> keyframe_open sess \<and> keyframe_pkts sess < NGX_RTC_KEYFRAME_MAX_PKTS)"

text \<open>Payload type and extension id for this session, zero when none applies.\<close>

definition send_mapping :: "('c, 'a, 'u) ngx_rtc_session \<Rightarrow> bytes \<Rightarrow> nat \<Rightarrow> u8 \<times> u8" where
  "send_mapping sess rtp len =
     (case source sess of
        None \<Rightarrow> (0, 0)
      | Some src \<Rightarrow>
          if 12 \<le> len then
            (if rtp_ssrc rtp = src_video_ssrc src then (video_pt sess, twcc_video_ext sess)
             else if rtp_ssrc rtp = src_audio_ssrc src then (audio_pt sess, twcc_audio_ext sess)
             else (0, 0))
          else (0, 0))"

text \<open>
  The copy into the cipher buffer with the transport-wide extension and the payload-type rewrite; the
  result: session, length of the datagram, whether a transport sequence was stamped.
\<close>

definition send_build :: "('c, 'a, 'u) ngx_rtc_session \<Rightarrow> bytes \<Rightarrow> nat \<Rightarrow> ('c, 'a, 'u) ngx_rtc_session \<times> nat \<times> bool" where
  "send_build sess rtp len =
     (let (session_pt, twcc_ext_id) = send_mapping sess rtp len;
          twcc_ext_id = (if twcc_ext_id \<noteq> 0 \<and> len + 8 + NGX_RTC_SRTP_TAG_LEN > NGX_RTC_CIPHER_CAP then 0 else twcc_ext_id);
          (sess, len, stamped) =
            (if twcc_ext_id \<noteq> 0 then
               (let buf = buf_put 0 (take 12 rtp) (cipher sess);
                    buf = buf_put 20 (buf_get 12 (len - 12) rtp) buf;
                    tseq = twcc_seq sess;
                    buf = buf_put 0 [buf ! 0 OR 0x10] buf;
                    buf = buf_put 12 [0xBE, 0xDE, 0x00, 0x01, push_bit 4 twcc_ext_id OR 0x01,
                                      ucast (drop_bit 8 tseq), ucast (tseq AND 0xFF), 0x00] buf
                in (sess\<lparr>cipher := buf, twcc_seq := twcc_seq sess + 1\<rparr>, len + 8, True))
             else (sess\<lparr>cipher := buf_put 0 (take len rtp) (cipher sess)\<rparr>, len, False));
          sess = (if session_pt \<noteq> 0 then
                    sess\<lparr>cipher := buf_put 1 [(cipher sess ! 1 AND 0x80) OR (session_pt AND 0x7f)] (cipher sess)\<rparr>
                  else sess)
      in (sess, len, stamped))"

text \<open>What happens after the socket answered \<open>sent\<close> for \<open>n\<close> octets.\<close>

definition send_untwcc :: "bool \<Rightarrow> ('c, 'a, 'u) ngx_rtc_session \<Rightarrow> ('c, 'a, 'u) ngx_rtc_session" where
  "send_untwcc stamped sess = (if stamped then sess\<lparr>twcc_seq := twcc_seq sess - 1\<rparr> else sess)"

definition send_failure :: "bool \<Rightarrow> ('c, 'a, 'u) ngx_rtc_session \<Rightarrow> ('c, 'a, 'u) ngx_rtc_session" where
  "send_failure is_video sess =
     (let sess = sess\<lparr>send_failed := send_failed sess + 1\<rparr>
      in if is_video then sess\<lparr>drop_until_gop := True\<rparr> else sess)"

definition send_blocked :: "ngx_rtc_tunables \<Rightarrow> u64 \<Rightarrow> bool \<Rightarrow> ('c, 'a, 'u) ngx_rtc_session \<Rightarrow> ('c, 'a, 'u) ngx_rtc_session" where
  "send_blocked tun now is_video sess =
     (let sess = sess\<lparr>send_eagain := send_eagain sess + 1\<rparr>
      in if is_video then
           (let sess = (if send_eagain_streak sess > 0 \<and> now - send_eagain_ms sess \<ge> NGX_RTC_EAGAIN_STREAK_IDLE_MS
                        then sess\<lparr>send_eagain_streak := 0\<rparr> else sess);
                sess = sess\<lparr>send_eagain_ms := now\<rparr>;
                sess = sess\<lparr>send_eagain_streak := send_eagain_streak sess + 1\<rparr>
            in if send_eagain_streak sess \<ge> ucast (eagain_streak_max tun)
               then sess\<lparr>send_eagain_streak := 0, drop_until_gop := True\<rparr> else sess)
         else sess)"

definition send_success :: "bool \<Rightarrow> bool \<Rightarrow> bytes \<Rightarrow> nat \<Rightarrow> ('c, 'a, 'u) ngx_rtc_session \<Rightarrow> ('c, 'a, 'u) ngx_rtc_session" where
  "send_success is_video is_gop_start rtp len sess =
     (if is_video then
        (let sess = sess\<lparr>send_eagain_streak := 0\<rparr>;
             sess = (if is_gop_start then sess\<lparr>drop_until_gop := False, keyframe_open := True, keyframe_pkts := 0\<rparr> else sess)
         in if keyframe_open sess then
              (let sess = sess\<lparr>keyframe_pkts := keyframe_pkts sess + 1\<rparr>
               in if 12 \<le> len \<and> rtp ! 1 AND NGX_RTC_RTP_MARKER \<noteq> 0 then sess\<lparr>keyframe_open := False\<rparr> else sess)
            else sess)
      else sess)"

text \<open>From SRTP on: the packet is in the cipher buffer.\<close>

definition send_transmit ::
  "('w, 'c, 'a, 'u, 'k) core_env \<Rightarrow> 'c \<Rightarrow> bool \<Rightarrow> bool \<Rightarrow> bytes \<Rightarrow> nat \<Rightarrow> bool \<Rightarrow> ('c, 'a, 'u) ngx_rtc_session \<Rightarrow> 'w
    \<Rightarrow> bool \<times> ('c, 'a, 'u) ngx_rtc_session \<times> 'w" where
  "send_transmit E c is_video is_gop_start rtp len stamped sess w =
     (case ngx_rtc_srtp_protect_rtp (env_lib E) (Some (srtp sess)) (Some (cipher sess)) (Some (int len)) w of
        (rc, packet, nb, w) \<Rightarrow>
          (let sess = sess\<lparr>cipher := the packet\<rparr>; n = the nb
           in if rc \<noteq> 0 then (False, send_untwcc stamped (sess\<lparr>srtp_failed := srtp_failed sess + 1\<rparr>), w)
              else (case env_send E c (cipher sess) (nat n) w of
                (sent, w) \<Rightarrow>
                  (let sess = (if sent \<noteq> n then send_untwcc stamped sess else sess)
                   in if sent = NGX_ERROR then (False, send_failure is_video sess, w)
                      else if sent = NGX_AGAIN then (False, send_blocked (env_tunables E) (env_now E) is_video sess, w)
                      else if sent \<noteq> n then (False, send_failure is_video sess, w)
                      else (True, send_success is_video is_gop_start rtp len sess, w)))))"

text \<open>The pacer gate: \<open>None\<close> when the packet is dropped.\<close>

definition send_pace :: "u64 \<Rightarrow> bool \<Rightarrow> nat \<Rightarrow> ('c, 'a, 'u) ngx_rtc_session \<Rightarrow> bool \<times> ('c, 'a, 'u) ngx_rtc_session" where
  "send_pace now is_keyframe len sess =
     (if pacer_target_bps sess \<noteq> 0 then
        (case ngx_rtc_session_pacer_admit (Some sess) (word_of_nat len) now of
           (rc, sp) \<Rightarrow>
             (let sess = the sp
              in if rc \<noteq> NGX_RTC_OK \<and> \<not> is_keyframe then (False, sess\<lparr>drop_pacer := drop_pacer sess + 1\<rparr>) else (True, sess)))
      else (True, sess))"

definition ngx_rtc_session_send_rtp ::
  "('w, 'c, 'a, 'u, 'k) core_env \<Rightarrow> ('c, 'a, 'u) ngx_rtc_session option \<Rightarrow> bytes \<Rightarrow> nat \<Rightarrow> bool \<Rightarrow> 'w
    \<Rightarrow> (bool \<times> ('c, 'a, 'u) ngx_rtc_session option \<times> 'w) option" where
  "ngx_rtc_session_send_rtp E sessp rtp len is_gop_start w =
     (case sessp of
        None \<Rightarrow> Some (False, None, w)
      | Some sess \<Rightarrow>
          (case conn sess of
             None \<Rightarrow> Some (False, Some sess, w)
           | Some c \<Rightarrow>
               do { ready \<leftarrow> ngx_rtc_session_fsm_is_ready (env_rep E) (Some (fsm sess));
                    if \<not> ready then Some (False, Some sess, w)
                    else if len = 0 \<or> len > NGX_RTC_MAX_RTP_PKT then Some (False, Some sess, w)
                    else (let is_video = send_is_video sess rtp len;
                              is_keyframe = send_is_keyframe sess is_video is_gop_start
                          in if is_video \<and> drop_until_gop sess \<and> \<not> is_gop_start
                             then Some (False, Some (sess\<lparr>drop_gop := drop_gop sess + 1\<rparr>), w)
                             else (case send_pace (env_now E) is_keyframe len sess of
                               (admitted, sess) \<Rightarrow>
                                 if \<not> admitted then Some (False, Some sess, w)
                                 else (case send_build sess rtp len of
                                   (sess, len, stamped) \<Rightarrow>
                                     (case send_transmit E c is_video is_gop_start rtp len stamped sess w of
                                        (ok, sess, w) \<Rightarrow> Some (ok, Some sess, w))))) }))"

section \<open>Replay and retransmission\<close>

text \<open>The replay loop from absolute index \<open>i\<close>; \<open>n\<close> counts down \<open>head - i\<close>.\<close>

primrec replay_loop ::
  "nat \<Rightarrow> ('w, 'c, 'a, 'u, 'k) core_env \<Rightarrow> ngx_rtc_rtp_ring \<Rightarrow> u32 \<Rightarrow> ('c, 'a, 'u) ngx_rtc_session option \<Rightarrow> 'w
    \<Rightarrow> (('c, 'a, 'u) ngx_rtc_session option \<times> 'w) option" where
  "replay_loop 0 E r i sessp w = Some (sessp, w)"
| "replay_loop (Suc n) E r i sessp w =
     (let slot = the (slots r) ! unat (i AND (capacity r - 1))
      in do { (ok, sessp, w) \<leftarrow> ngx_rtc_session_send_rtp E sessp (slot_data slot) (unat (slot_len slot)) (slot_gop_start slot) w;
              if \<not> ok then Some (sessp, w)
              else if 12 < slot_len slot \<and> slot_data slot ! 1 AND NGX_RTC_RTP_MARKER \<noteq> 0 then Some (sessp, w)
              else replay_loop n E r (i + 1) sessp w })"

definition ngx_rtc_rtp_ring_replay ::
  "('w, 'c, 'a, 'u, 'k) core_env \<Rightarrow> ngx_rtc_rtp_ring option \<Rightarrow> ('c, 'a, 'u) ngx_rtc_session option \<Rightarrow> 'w
    \<Rightarrow> (('c, 'a, 'u) ngx_rtc_session option \<times> 'w) option" where
  "ngx_rtc_rtp_ring_replay E rp sessp w =
     (case (rp, sessp) of
        (Some r, Some _) \<Rightarrow>
          if ring_count r = 0 \<or> slots r = None then Some (sessp, w)
          else (let start = ring_head r - ring_count r;
                    start = (if gop_start r > start then gop_start r else start)
                in replay_loop (if start < ring_head r then unat (ring_head r - start) else 0) E r start sessp w)
      | _ \<Rightarrow> Some (sessp, w))"

definition ngx_rtc_session_nack_reset :: "('c, 'a, 'u) ngx_rtc_session option \<Rightarrow> ('c, 'a, 'u) ngx_rtc_session option" where
  "ngx_rtc_session_nack_reset sessp = map_option (\<lambda>s. s\<lparr>nack_seen_count := 0\<rparr>) sessp"

definition ngx_rtc_session_nack_budget_take ::
  "('c, 'a, 'u) ngx_rtc_session option \<Rightarrow> bool \<times> ('c, 'a, 'u) ngx_rtc_session option" where
  "ngx_rtc_session_nack_budget_take sessp =
     (case sessp of None \<Rightarrow> (False, None)
      | Some sess \<Rightarrow>
          if nack_retransmitted sess \<ge> NGX_RTC_NACK_BUDGET then (False, sessp)
          else (True, Some (sess\<lparr>nack_retransmitted := nack_retransmitted sess + 1\<rparr>)))"

definition ngx_rtc_session_nack_window_step ::
  "ngx_rtc_tunables \<Rightarrow> ('c, 'a, 'u) ngx_rtc_session option \<Rightarrow> u64 \<Rightarrow> bool \<times> ('c, 'a, 'u) ngx_rtc_session option" where
  "ngx_rtc_session_nack_window_step tun sessp now =
     (case sessp of None \<Rightarrow> (False, None)
      | Some sess \<Rightarrow>
          (let sess = (if nack_window_ms sess = 0 then sess\<lparr>nack_window_ms := ucast (nack_window_ms_base tun)\<rparr> else sess)
           in if now - nack_window_start sess < nack_window_ms sess then (False, Some sess)
              else (let sess = (if nack_retransmitted sess \<ge> NGX_RTC_NACK_BUDGET
                                then sess\<lparr>nack_window_ms := min (nack_window_ms sess * 2) (ucast (nack_window_max_ms tun))\<rparr>
                                else if nack_retransmitted sess = 0
                                then sess\<lparr>nack_window_ms := ucast (nack_window_ms_base tun)\<rparr> else sess)
                    in (True, Some (sess\<lparr>nack_window_start := now, nack_retransmitted := 0\<rparr>)))))"

definition ngx_rtc_session_retransmit_send ::
  "('w, 'c, 'a, 'u, 'k) core_env \<Rightarrow> ('c, 'a, 'u) ngx_rtc_session option \<Rightarrow> u16 \<Rightarrow> bytes option \<Rightarrow> nat \<Rightarrow> 'w
    \<Rightarrow> (int \<times> ('c, 'a, 'u) ngx_rtc_session option \<times> 'w) option" where
  "ngx_rtc_session_retransmit_send E sessp sq datap len w =
     (case (sessp, datap) of
        (Some sess, Some data) \<Rightarrow>
          if len = 0 then Some (NGX_RTC_ERR_INVALID, sessp, w)
          else if sq \<in> set (take (unat (nack_seen_count sess)) (nack_seen sess)) then Some (NGX_RTC_ERR_PARSE, sessp, w)
          else do { (ok, sessp, w) \<leftarrow> ngx_rtc_session_send_rtp E sessp data len False w;
                    if \<not> ok then Some (NGX_RTC_ERR_PARSE, sessp, w)
                    else (let sess = the sessp
                          in if nack_seen_count sess < NGX_RTC_NACK_BUDGET
                             then Some (NGX_RTC_OK, Some (sess\<lparr>nack_seen := buf_put (unat (nack_seen_count sess)) [sq] (nack_seen sess),
                                                               nack_seen_count := nack_seen_count sess + 1\<rparr>), w)
                             else Some (NGX_RTC_OK, sessp, w)) }
      | _ \<Rightarrow> Some (NGX_RTC_ERR_INVALID, sessp, w))"

definition ngx_rtc_session_retransmit ::
  "('w, 'c, 'a, 'u, 'k) core_env \<Rightarrow> ('c, 'a, 'u) ngx_rtc_session option \<Rightarrow> u16 \<Rightarrow> 'w
    \<Rightarrow> (int \<times> ('c, 'a, 'u) ngx_rtc_session option \<times> 'w) option" where
  "ngx_rtc_session_retransmit E sessp sq w =
     (case Option.bind sessp source of
        None \<Rightarrow> Some (NGX_RTC_ERR_INVALID, sessp, w)
      | Some src \<Rightarrow>
          if \<not> ngx_rtc_source_gop_ready (Some src) then Some (NGX_RTC_ERR_PARSE, sessp, w)
          else (case ngx_rtc_rtp_ring_get (Some (src_gop src)) sq of
                  Inl rc \<Rightarrow> Some (rc, sessp, w)
                | Inr (out, out_len) \<Rightarrow> ngx_rtc_session_retransmit_send E sessp sq (Some out) (unat out_len) w))"

section \<open>The GOP ring holds the latest packets\<close>

text \<open>
  A ring of \<open>2 ^ k\<close> slots represents the list of all packets pushed so far, each with its GOP flag: the
  last \<open>2 ^ k\<close> of them sit in their slots.
\<close>

definition rtp_ring_rep :: "nat \<Rightarrow> ngx_rtc_rtp_ring \<Rightarrow> (bytes \<times> bool) list \<Rightarrow> bool" where
  "rtp_ring_rep k r ps \<longleftrightarrow>
     (\<exists>sl. slots r = Some sl \<and> length sl = 2 ^ k \<and> capacity r = 2 ^ k
       \<and> ring_head r = word_of_nat (length ps) \<and> ring_count r = word_of_nat (min (length ps) (2 ^ k))
       \<and> (\<forall>s \<in> set sl. length (slot_data s) = NGX_RTC_MAX_RTP_PKT)
       \<and> (\<forall>i < length ps. length ps \<le> i + 2 ^ k \<longrightarrow>
            (let s = sl ! (i mod 2 ^ k); p = fst (ps ! i)
             in take (length p) (slot_data s) = p \<and> slot_len s = word_of_nat (length p) \<and> slot_gop_start s = snd (ps ! i))))"

lemma pow2_u32: "k \<le> 16 \<Longrightarrow> unat (2 ^ k :: u32) = 2 ^ k" "k \<le> 16 \<Longrightarrow> (2 ^ k :: u32) \<noteq> 0"
  by (simp_all add: unat_exp_word word_unat_eq_iff)

lemma pow2_le: "k \<le> 16 \<Longrightarrow> (2 ^ k :: nat) \<le> 65536"
  using power_increasing [of k 16 "2 :: nat"] by simp

lemma ring_index: "k \<le> 16 \<Longrightarrow> unat (x AND (2 ^ k - 1) :: u32) = unat x mod 2 ^ k"
  using unat_and_mask [of x k] by (simp add: mask_eq_exp_minus_1)

lemma unat_mod_pow2: "k \<le> 16 \<Longrightarrow> unat (word_of_nat n :: u32) mod 2 ^ k = n mod 2 ^ k"
proof -
  assume "k \<le> 16"
  then have "(2 ^ k :: nat) dvd 2 ^ 32" by (intro le_imp_power_dvd) simp
  then show ?thesis by (simp add: unat_of_nat mod_mod_cancel)
qed

lemma pow2_valid: "k \<le> 16 \<Longrightarrow> (2 ^ k :: u32) AND (2 ^ k - 1) = 0"
proof -
  have "(2 ^ k :: u32) AND mask k = 0" by (simp add: and_exp_eq_0_iff_not_bit and.commute bit_mask_iff)
  then show ?thesis by (simp add: mask_eq_exp_minus_1)
qed

lemma ring_slot_mod:
  assumes "i < n" "n \<le> i + m" "n \<noteq> i + m" "0 < (m :: nat)"
  shows "i mod m \<noteq> n mod m"
proof
  assume "i mod m = n mod m"
  then have "m dvd n - i" using assms(1) by (metis mod_eq_dvd_iff_nat less_imp_le_nat)
  then show False using assms by (auto dest: dvd_imp_le)
qed

lemma rtp_ring_push_rep:
  assumes "rtp_ring_rep k r ps" "k \<le> 16" "gop_ring_slots tun = 2 ^ k"
    and "0 < length p" "length p \<le> NGX_RTC_MAX_RTP_PKT"
  shows "\<exists>r'. ngx_rtc_rtp_ring_push tun alloc (Some r) (Some p) (word_of_nat (length p)) g = Some r'
    \<and> rtp_ring_rep k r' (ps @ [(p, g)]) \<and> gop_start r' = (if g then ring_head r else gop_start r)"
proof -
  from assms(1) obtain sl where sl: "slots r = Some sl" "length sl = 2 ^ k" "capacity r = 2 ^ k"
    "ring_head r = word_of_nat (length ps)" "ring_count r = word_of_nat (min (length ps) (2 ^ k))"
    "\<forall>s \<in> set sl. length (slot_data s) = NGX_RTC_MAX_RTP_PKT"
    "\<And>i. i < length ps \<Longrightarrow> length ps \<le> i + 2 ^ k \<Longrightarrow>
       take (length (fst (ps ! i))) (slot_data (sl ! (i mod 2 ^ k))) = fst (ps ! i)
       \<and> slot_len (sl ! (i mod 2 ^ k)) = word_of_nat (length (fst (ps ! i))) \<and> slot_gop_start (sl ! (i mod 2 ^ k)) = snd (ps ! i)"
    unfolding rtp_ring_rep_def Let_def by blast
  let ?n = "length ps" and ?idx = "length ps mod 2 ^ k"
  have ul: "unat (word_of_nat (length p) :: u32) = length p" using assms(5) by (simp add: unat_of_nat)
  have len: "\<not> (word_of_nat (length p) = (0 :: u32) \<or> word_of_nat (length p) > (1214 :: u32))"
    using assms(4,5) ul by (auto simp: word_unat_eq_iff word_less_nat_alt)
  have res: "ngx_rtc_rtp_ring_reserve alloc (Some r) (gop_ring_slots tun) = (True, Some r)"
    using assms(2,3) sl(1) pow2_u32(2) pow2_valid by (simp add: ngx_rtc_rtp_ring_reserve_def)
  have idx: "unat (ring_head r AND (capacity r - 1)) = ?idx"
    using assms(2) by (simp add: sl(3,4) ring_index unat_mod_pow2)
  have ib: "?idx < 2 ^ k" by simp
  define slot where "slot = (sl ! ?idx)\<lparr>slot_data := buf_put 0 p (slot_data (sl ! ?idx)), slot_len := word_of_nat (length p), slot_gop_start := g\<rparr>"
  define r1 where "r1 = r\<lparr>slots := Some (sl[?idx := slot]), gop_start := if g then ring_head r else gop_start r, ring_head := ring_head r + 1,
     ring_count := if ring_count r < capacity r then ring_count r + 1 else ring_count r\<rparr>"
  have sd: "length (slot_data (sl ! ?idx)) = NGX_RTC_MAX_RTP_PKT" using sl(2,6) ib by simp
  have ucl: "(ucast (word_of_nat (length p) :: u32) :: u16) = word_of_nat (length p)"
    using assms(5) by (simp add: unsigned_of_nat take_bit_nat_eq_self)
  have push: "ngx_rtc_rtp_ring_push tun alloc (Some r) (Some p) (word_of_nat (length p)) g = Some r1"
    using len res sl(1) idx ul ucl by (simp add: ngx_rtc_rtp_ring_push_def Let_def r1_def slot_def)
  have cnt: "ring_count r1 = word_of_nat (min (Suc ?n) (2 ^ k))"
  proof -
    have m: "min ?n (2 ^ k) < 4294967296" using pow2_le [OF assms(2)] by auto
    have "unat (ring_count r) = min ?n (2 ^ k)" unfolding sl(5) using m by (simp add: unat_of_nat)
    then have "ring_count r < capacity r \<longleftrightarrow> ?n < 2 ^ k"
      using pow2_u32(1) [OF assms(2)] by (auto simp: word_less_nat_alt sl(3))
    then show ?thesis by (auto simp: r1_def sl(5) min_def)
  qed
  have "rtp_ring_rep k r1 (ps @ [(p, g)])"
    unfolding rtp_ring_rep_def
  proof (intro exI conjI allI impI ballI)
    show "slots r1 = Some (sl[?idx := slot])" "length (sl[?idx := slot]) = 2 ^ k" "capacity r1 = 2 ^ k"
      "ring_head r1 = word_of_nat (length (ps @ [(p, g)]))" "ring_count r1 = word_of_nat (min (length (ps @ [(p, g)])) (2 ^ k))"
      using sl cnt by (simp_all add: r1_def)
    fix s assume "s \<in> set (sl[?idx := slot])"
    then have "s = slot \<or> s \<in> set sl" by (meson in_mono insert_iff set_update_subset_insert)
    then show "length (slot_data s) = NGX_RTC_MAX_RTP_PKT" using sl(6) sd assms(5) by (auto simp: slot_def)
  next
    fix i assume i: "i < length (ps @ [(p, g)])" "length (ps @ [(p, g)]) \<le> i + 2 ^ k"
    show "let s = sl[?idx := slot] ! (i mod 2 ^ k); q = fst ((ps @ [(p, g)]) ! i)
       in take (length q) (slot_data s) = q \<and> slot_len s = word_of_nat (length q) \<and> slot_gop_start s = snd ((ps @ [(p, g)]) ! i)"
    proof (cases "i = ?n")
      case True
      then show ?thesis using ib sl(2) by (simp add: Let_def slot_def buf_put_def)
    next
      case False
      then have "i < ?n" using i(1) by simp
      then have "i mod 2 ^ k \<noteq> ?idx" using i(2) by (intro ring_slot_mod) simp_all
      then show ?thesis using sl(7) [of i] \<open>i < ?n\<close> i(2) by (simp add: Let_def nth_append)
    qed
  qed
  then show ?thesis using push by (auto simp: r1_def)
qed

lemma rtp_ring_reserve_rep:
  assumes "k \<le> 16" "slots r = None" "ring_head r = 0" "ring_count r = 0"
  shows "\<exists>r'. ngx_rtc_rtp_ring_reserve True (Some r) (2 ^ k) = (True, Some r') \<and> rtp_ring_rep k r' []"
  using assms pow2_u32 [OF assms(1)] pow2_valid [OF assms(1)]
  by (auto simp: ngx_rtc_rtp_ring_reserve_def rtp_ring_rep_def slot_zero_def)

text \<open>Pushing a list.\<close>

definition push_all :: "ngx_rtc_tunables \<Rightarrow> (bytes \<times> bool) list \<Rightarrow> ngx_rtc_rtp_ring option \<Rightarrow> ngx_rtc_rtp_ring option" where
  "push_all tun ps rp = fold (\<lambda>(p, g) rp. ngx_rtc_rtp_ring_push tun True rp (Some p) (word_of_nat (length p)) g) ps rp"

lemma push_first:
  assumes "slots r = None" "gop_ring_slots tun = 2 ^ k" "k \<le> 16" "ring_head r = 0" "ring_count r = 0"
    and "0 < length p" "length p \<le> NGX_RTC_MAX_RTP_PKT"
  shows "\<exists>r'. ngx_rtc_rtp_ring_push tun True (Some r) (Some p) (word_of_nat (length p)) g = Some r' \<and> rtp_ring_rep k r' [(p, g)]"
proof -
  obtain r1 where r1: "ngx_rtc_rtp_ring_reserve True (Some r) (2 ^ k) = (True, Some r1)" "rtp_ring_rep k r1 []"
    using rtp_ring_reserve_rep [OF assms(3,1,4,5)] by blast
  have again: "ngx_rtc_rtp_ring_reserve True (Some r1) (2 ^ k) = (True, Some r1)"
    using r1(2) pow2_u32(2) [OF assms(3)] pow2_valid [OF assms(3)] by (auto simp: ngx_rtc_rtp_ring_reserve_def rtp_ring_rep_def)
  have "ngx_rtc_rtp_ring_push tun True (Some r) (Some p) (word_of_nat (length p)) g
      = ngx_rtc_rtp_ring_push tun True (Some r1) (Some p) (word_of_nat (length p)) g"
  proof -
    have "unat (word_of_nat (length p) :: u32) = length p" using assms(7) by (simp add: unat_of_nat)
    then have "\<not> (word_of_nat (length p) = (0 :: u32) \<or> word_of_nat (length p) > (1214 :: u32))"
      using assms(6,7) by (auto simp: word_unat_eq_iff word_less_nat_alt)
    then show ?thesis using again r1(1) assms(2) by (simp add: ngx_rtc_rtp_ring_push_def)
  qed
  then show ?thesis using rtp_ring_push_rep [OF r1(2) assms(3,2,6,7), of True g] by auto
qed

lemma push_all_rep:
  assumes "rtp_ring_rep k r qs" "k \<le> 16" "gop_ring_slots tun = 2 ^ k"
    and "\<forall>x \<in> set ps. 0 < length (fst x) \<and> length (fst x) \<le> NGX_RTC_MAX_RTP_PKT"
  shows "\<exists>r'. push_all tun ps (Some r) = Some r' \<and> rtp_ring_rep k r' (qs @ ps)"
  using assms
proof (induction ps arbitrary: r qs)
  case (Cons x ps)
  obtain p g where x: "x = (p, g)" by fastforce
  obtain r1 where r1: "ngx_rtc_rtp_ring_push tun True (Some r) (Some p) (word_of_nat (length p)) g = Some r1"
    "rtp_ring_rep k r1 (qs @ [(p, g)])"
    using rtp_ring_push_rep [OF Cons.prems(1-3), of p True g] Cons.prems(4) x by auto
  show ?case using Cons.IH [OF r1(2) Cons.prems(2,3)] Cons.prems(4) r1(1) by (simp add: push_all_def x)
qed (simp add: push_all_def)

text \<open>A lookup in a ring of consecutively numbered packets.\<close>

definition rtp_numbered :: "u16 \<Rightarrow> (bytes \<times> bool) list \<Rightarrow> bool" where
  "rtp_numbered s0 ps \<longleftrightarrow>
     (\<forall>i < length ps. 4 \<le> length (fst (ps ! i)) \<and> ngx_rtc_rtp_seq_from_data (fst (ps ! i)) = s0 + word_of_nat i)"

lemma seq_take: "take n d = p \<Longrightarrow> 4 \<le> length p \<Longrightarrow> ngx_rtc_rtp_seq_from_data d = ngx_rtc_rtp_seq_from_data p"
  by (auto simp: ngx_rtc_rtp_seq_from_data_def)

lemma rtp_ring_get_rep:
  assumes rep: "rtp_ring_rep k r ps" and k: "k \<le> 16" and num: "rtp_numbered s0 ps" and ne: "ps \<noteq> []"
  defines "old \<equiv> length ps - min (length ps) (2 ^ k)"
  shows "(\<forall>j. old \<le> j \<and> j < length ps \<longrightarrow> (\<exists>d. ngx_rtc_rtp_ring_get (Some r) (s0 + word_of_nat j) = Inr (d, word_of_nat (length (fst (ps ! j))))
            \<and> take (length (fst (ps ! j))) d = fst (ps ! j)))
       \<and> (\<forall>sq. (\<forall>j. old \<le> j \<and> j < length ps \<longrightarrow> sq \<noteq> s0 + word_of_nat j) \<longrightarrow>
            ngx_rtc_rtp_ring_get (Some r) sq = Inl NGX_RTC_ERR_PARSE)"
proof -
  let ?n = "length ps" and ?c = "min (length ps) (2 ^ k)"
  from rep obtain sl where sl: "slots r = Some sl" "length sl = 2 ^ k" "capacity r = 2 ^ k"
    "ring_head r = word_of_nat ?n" "ring_count r = word_of_nat ?c"
    and at: "\<And>i. i < ?n \<Longrightarrow> ?n \<le> i + 2 ^ k \<Longrightarrow>
       take (length (fst (ps ! i))) (slot_data (sl ! (i mod 2 ^ k))) = fst (ps ! i)
       \<and> slot_len (sl ! (i mod 2 ^ k)) = word_of_nat (length (fst (ps ! i)))"
    unfolding rtp_ring_rep_def Let_def by blast
  have c: "?c \<le> 65536" "0 < ?c" "?c \<le> ?n" using pow2_le [OF k] ne by auto
  have uc: "unat (ring_count r) = ?c" unfolding sl(5) using c by (simp add: unat_of_nat)
  have start: "ring_head r - ring_count r = word_of_nat old"
    using c(3) by (simp add: sl(4,5) old_def of_nat_diff)
  have oldb: "old < ?n" "?n \<le> old + 2 ^ k" "?n = old + ?c" using c by (auto simp: old_def)
  have sq: "ngx_rtc_rtp_seq_from_data (slot_data (sl ! (i mod 2 ^ k))) = s0 + word_of_nat i"
    if "old \<le> i" "i < ?n" for i
    using at [of i] seq_take [of "length (fst (ps ! i))" "slot_data (sl ! (i mod 2 ^ k))" "fst (ps ! i)"] num that oldb
    by (auto simp: rtp_numbered_def)
  have get: "ngx_rtc_rtp_ring_get (Some r) q =
     (let d = unat (q - (s0 + word_of_nat old)) in
      if d \<ge> ?c then Inl NGX_RTC_ERR_PARSE
      else if ngx_rtc_rtp_seq_from_data (slot_data (sl ! ((old + d) mod 2 ^ k))) \<noteq> q then Inl NGX_RTC_ERR_PARSE
      else Inr (slot_data (sl ! ((old + d) mod 2 ^ k)), slot_len (sl ! ((old + d) mod 2 ^ k))))" for q
  proof -
    have nz: "ring_count r \<noteq> 0" using uc c(2) by (auto simp: word_unat_eq_iff)
    have i0: "unat (word_of_nat old AND (2 ^ k - 1 :: u32)) = old mod 2 ^ k" using k by (simp add: ring_index unat_mod_pow2)
    have d: "unat (ucast (q - (s0 + word_of_nat old)) :: u32) = unat (q - (s0 + word_of_nat old))"
      using unat_u16_less [of "q - (s0 + word_of_nat old)"] by (simp add: unsigned_ucast_eq take_bit_nat_eq_self)
    have s: "word_of_nat old + ucast (q - (s0 + word_of_nat old)) = (word_of_nat (old + unat (q - (s0 + word_of_nat old))) :: u32)"
      by simp
    have i1: "unat ((word_of_nat old + ucast (q - (s0 + word_of_nat old))) AND (2 ^ k - 1 :: u32)) = (old + unat (q - (s0 + word_of_nat old))) mod 2 ^ k"
      unfolding s using k by (simp only: ring_index unat_mod_pow2)
    show ?thesis
      unfolding ngx_rtc_rtp_ring_get_def
      using nz i0 i1 sq [of old] oldb d uc
      by (simp add: sl(1,3) start Let_def word_le_nat_alt)
  qed
  have dist: "unat (s0 + word_of_nat j - (s0 + word_of_nat old) :: u16) = j - old" if "old \<le> j" "j < ?n" for j
  proof -
    have "s0 + word_of_nat j - (s0 + word_of_nat old) = (word_of_nat (j - old) :: u16)" using that by (simp add: of_nat_diff)
    moreover have "unat (word_of_nat (j - old) :: u16) = j - old" using that c oldb by (simp add: unat_of_nat del: of_nat_diff)
    ultimately show ?thesis by (simp only:)
  qed
  show ?thesis
  proof (intro conjI allI impI)
    fix j assume j: "old \<le> j \<and> j < ?n"
    then have "j - old < ?c" using oldb by linarith
    then have "\<not> ?c \<le> j - old" by linarith
    then have "ngx_rtc_rtp_ring_get (Some r) (s0 + word_of_nat j) = Inr (slot_data (sl ! (j mod 2 ^ k)), slot_len (sl ! (j mod 2 ^ k)))"
      using dist [of j] j sq [of j] unfolding get by (simp add: Let_def del: min_le_iff_disj)
    then show "\<exists>d. ngx_rtc_rtp_ring_get (Some r) (s0 + word_of_nat j) = Inr (d, word_of_nat (length (fst (ps ! j))))
            \<and> take (length (fst (ps ! j))) d = fst (ps ! j)"
      using at [of j] j oldb by auto
  next
    fix q assume none: "\<forall>j. old \<le> j \<and> j < ?n \<longrightarrow> q \<noteq> s0 + word_of_nat j"
    let ?d = "unat (q - (s0 + word_of_nat old))"
    have "s0 + word_of_nat (old + ?d) = q" by simp
    then have "\<not> ?d < ?c" using none oldb by (metis le_add1 nat_add_left_cancel_less)
    then have "?c \<le> ?d" by linarith
    then show "ngx_rtc_rtp_ring_get (Some r) q = Inl NGX_RTC_ERR_PARSE" unfolding get by (simp add: Let_def del: min_le_iff_disj)
  qed
qed



section \<open>What one send does to the session\<close>

text \<open>The fields that no send changes.\<close>

definition send_view :: "('c, 'a, 'u) ngx_rtc_session \<Rightarrow> _" where
  "send_view s = (source s, video_pt s, audio_pt s, twcc_video_ext s, twcc_audio_ext s, conn s, fsm s, srtp s)"

lemma send_view_mapping: "send_view s = send_view t \<Longrightarrow> send_mapping s = send_mapping t"
  "send_view s = send_view t \<Longrightarrow> send_is_video s = send_is_video t"
  by (auto simp: send_view_def send_mapping_def send_is_video_def fun_eq_iff split: option.splits)

definition send_stamped :: "('c, 'a, 'u) ngx_rtc_session \<Rightarrow> bytes \<Rightarrow> nat \<Rightarrow> bool" where
  "send_stamped s rtp len = (snd (send_mapping s rtp len) \<noteq> 0)"

lemma send_pace_frame:
  assumes "send_pace now kf len s = (a, s')"
  shows "send_view s' = send_view s" "twcc_seq s' = twcc_seq s" "cipher s' = cipher s" "drop_until_gop s' = drop_until_gop s"
proof -
  have r: "send_view (pacer_refill s now) = send_view s \<and> twcc_seq (pacer_refill s now) = twcc_seq s
      \<and> cipher (pacer_refill s now) = cipher s \<and> drop_until_gop (pacer_refill s now) = drop_until_gop s"
    by (simp add: pacer_refill_def Let_def send_view_def)
  have ad: "send_view t = send_view s \<and> twcc_seq t = twcc_seq s \<and> cipher t = cipher s \<and> drop_until_gop t = drop_until_gop s"
    if "ngx_rtc_session_pacer_admit (Some s) b now = (rc, Some t)" for b rc t
    using that r by (auto simp: ngx_rtc_session_pacer_admit_def Let_def send_view_def split: if_splits)
  obtain rc t where t: "ngx_rtc_session_pacer_admit (Some s) (word_of_nat len) now = (rc, Some t)"
    using pacer_admit_total by blast
  have "send_view s' = send_view s \<and> twcc_seq s' = twcc_seq s \<and> cipher s' = cipher s \<and> drop_until_gop s' = drop_until_gop s"
    using assms ad [OF t] t by (auto simp: send_pace_def Let_def send_view_def split: if_splits)
  then show "send_view s' = send_view s" "twcc_seq s' = twcc_seq s" "cipher s' = cipher s" "drop_until_gop s' = drop_until_gop s"
    by blast+
qed

text \<open>The octets that leave for the network, before SRTP.\<close>

definition send_plain :: "('c, 'a, 'u) ngx_rtc_session \<Rightarrow> bytes \<Rightarrow> nat \<Rightarrow> bytes" where
  "send_plain s rtp len =
     (let (pt, ext) = send_mapping s rtp len;
          b1 = (if pt \<noteq> 0 then (rtp ! 1 AND 0x80) OR (pt AND 0x7f) else rtp ! 1)
      in if ext \<noteq> 0 then
           [rtp ! 0 OR 0x10, b1] @ take 10 (drop 2 rtp)
           @ [0xBE, 0xDE, 0, 1, push_bit 4 ext OR 1, ucast (drop_bit 8 (twcc_seq s)), ucast (twcc_seq s), 0]
           @ take (len - 12) (drop 12 rtp)
         else if pt \<noteq> 0 then [rtp ! 0, b1] @ take (len - 2) (drop 2 rtp)
         else take len rtp)"

lemma send_mapping_short: "len < 12 \<Longrightarrow> send_mapping s rtp len = (0, 0)"
  by (simp add: send_mapping_def split: option.splits)

lemma buf_put_1: "buf_put (Suc 0) [x] (a # b # bs) = a # x # bs"
  by (simp add: buf_put_def)

lemma send_build_plain:
  assumes "len \<le> length rtp" "1 \<le> len" "len \<le> NGX_RTC_MAX_RTP_PKT" "length (cipher s) = NGX_RTC_CIPHER_CAP"
    and "send_build s rtp len = (s', n, st)"
  shows "st = send_stamped s rtp len" "n = (if st then len + 8 else len)" "n + NGX_RTC_SRTP_TAG_LEN \<le> NGX_RTC_CIPHER_CAP"
    "length (cipher s') = NGX_RTC_CIPHER_CAP" "take n (cipher s') = send_plain s rtp len" "length (send_plain s rtp len) = n"
    "twcc_seq s' = twcc_seq s + (if st then 1 else 0)" "send_view s' = send_view s" "drop_until_gop s' = drop_until_gop s"
proof -
  obtain pt ext where m: "send_mapping s rtp len = (pt, ext)" by fastforce
  have fit: "\<not> (ext \<noteq> 0 \<and> len + 8 + NGX_RTC_SRTP_TAG_LEN > NGX_RTC_CIPHER_CAP)" using assms(3) by simp
  have l12: "12 \<le> len" if "ext \<noteq> 0 \<or> pt \<noteq> 0"
    using that m send_mapping_short [of len s rtp] by (cases "len < 12") auto
  define ptb where "ptb = (\<lambda>b :: u8. if pt \<noteq> 0 then (b AND 0x80) OR (pt AND 0x7f) else b)"
  have "st = (ext \<noteq> 0) \<and> n = (if st then len + 8 else len) \<and> length (cipher s') = NGX_RTC_CIPHER_CAP
    \<and> take n (cipher s') = send_plain s rtp len \<and> length (send_plain s rtp len) = n
    \<and> twcc_seq s' = twcc_seq s + (if st then 1 else 0) \<and> send_view s' = send_view s \<and> drop_until_gop s' = drop_until_gop s"
  proof (cases "ext \<noteq> 0")
    case True
    define buf where "buf = buf_put 12 [0xBE, 0xDE, 0x00, 0x01, push_bit 4 ext OR 0x01, ucast (drop_bit 8 (twcc_seq s)), ucast (twcc_seq s AND 0xFF), 0x00]
       (buf_put 0 [buf_put 20 (buf_get 12 (len - 12) rtp) (buf_put 0 (take 12 rtp) (cipher s)) ! 0 OR 0x10]
         (buf_put 20 (buf_get 12 (len - 12) rtp) (buf_put 0 (take 12 rtp) (cipher s))))"
    have len: "12 \<le> len" using l12 True by simp
    obtain q where lm: "len = 12 + q" using len le_Suc_ex by blast
    obtain x y as bs where rtp: "rtp = x # y # as @ bs" "length as = 10" "q \<le> length bs"
    proof -
      obtain x y zs where z: "rtp = x # y # zs" using assms(1) lm by (cases rtp; cases "tl rtp") auto
      show ?thesis by (rule that [of x y "take 10 zs" "drop 10 zs"]) (use assms(1) lm z in auto)
    qed
    have d: "drop (20 + q) (x # y # as @ drop 12 (cipher s)) = drop (len + 8) (cipher s)"
      by (simp add: drop_Cons' rtp(2) lm add.commute)
    have buf: "buf = [x OR 0x10, y] @ as
        @ [0xBE, 0xDE, 0, 1, push_bit 4 ext OR 1, ucast (drop_bit 8 (twcc_seq s)), ucast (twcc_seq s), 0]
        @ take q bs @ drop (len + 8) (cipher s)"
      using assms(3,4) rtp d by (simp add: buf_def buf_put_def buf_get_def lm)
    have fin: "(if pt \<noteq> 0 then buf_put 1 [(buf ! 1 AND 0x80) OR (pt AND 0x7f)] buf else buf) = [x OR 0x10, ptb y] @ drop 2 buf"
      using buf by (simp add: ptb_def buf_put_1)
    have pl: "send_plain s rtp len = [x OR 0x10, ptb y] @ as
        @ [0xBE, 0xDE, 0, 1, push_bit 4 ext OR 1, ucast (drop_bit 8 (twcc_seq s)), ucast (twcc_seq s), 0]
        @ take q bs"
      using True m rtp(2) by (simp add: send_plain_def ptb_def rtp(1) lm)
    have s': "st" "n = len + 8" "s' = s\<lparr>cipher := [x OR 0x10, ptb y] @ drop 2 buf, twcc_seq := twcc_seq s + 1\<rparr>"
      using assms(5) fit True fin by (auto simp: send_build_def Let_def m buf_def)
    have lp: "length (send_plain s rtp len) = len + 8" unfolding pl using rtp(2,3) lm by simp
    have c: "cipher s' = send_plain s rtp len @ drop (len + 8) (cipher s)" unfolding s' pl buf by simp
    show ?thesis using s' True lp c assms(3,4) by (simp add: send_view_def)
  next
    case False
    define buf where "buf = buf_put 0 (take len rtp) (cipher s)"
    have buf: "buf = take len rtp @ drop len (cipher s)" using assms(1) by (simp add: buf_def buf_put_def min_def)
    have s': "\<not> st" "n = len" "s' = s\<lparr>cipher := (if pt \<noteq> 0 then buf_put 1 [(buf ! 1 AND 0x80) OR (pt AND 0x7f)] buf else buf)\<rparr>"
      using assms(5) False by (auto simp: send_build_def Let_def m buf_def)
    show ?thesis
    proof (cases "pt \<noteq> 0")
      case True
      then have "12 \<le> len" using l12 by simp
      then obtain x y zs where rtp: "rtp = x # y # zs" "len - 2 \<le> length zs"
        using assms(1) by (cases rtp; cases "tl rtp") auto
      have t: "take len rtp = x # y # take (len - 2) zs" using \<open>12 \<le> len\<close> by (simp add: rtp(1) take_Cons' numeral_2_eq_2)
      have pl: "send_plain s rtp len = [x, ptb y] @ take (len - 2) zs"
        using True False m by (simp add: send_plain_def ptb_def rtp(1))
      have c: "cipher s' = send_plain s rtp len @ drop len (cipher s)"
        using True s'(3) unfolding buf t pl by (simp add: buf_put_1 ptb_def)
      have lp: "length (send_plain s rtp len) = len" unfolding pl using rtp(2) \<open>12 \<le> len\<close> by simp
      have v: "send_view s' = send_view s" "twcc_seq s' = twcc_seq s" "drop_until_gop s' = drop_until_gop s"
        unfolding s'(3) by (simp_all add: send_view_def)
      show ?thesis using s'(1,2) False lp c v assms(3,4) by simp
    next
      case np: False
      have pl: "send_plain s rtp len = take len rtp" using np False m by (simp add: send_plain_def)
      show ?thesis using s' np False assms(1,3,4) pl buf by (simp add: send_view_def)
    qed
  qed
  then show "st = send_stamped s rtp len" "n = (if st then len + 8 else len)" "n + NGX_RTC_SRTP_TAG_LEN \<le> NGX_RTC_CIPHER_CAP"
    "length (cipher s') = NGX_RTC_CIPHER_CAP" "take n (cipher s') = send_plain s rtp len" "length (send_plain s rtp len) = n"
    "twcc_seq s' = twcc_seq s + (if st then 1 else 0)" "send_view s' = send_view s" "drop_until_gop s' = drop_until_gop s"
    using assms(3) m by (auto simp: send_stamped_def)
qed

text \<open>
  What the code relies on: the socket call reports the whole length exactly when the datagram went out;
  \<^verbatim>\<open>srtp_protect\<close> works in place, adds the 10-octet tag when it succeeds, and leaves the header and its
  extension in clear (RFC 3711). \<open>wire w\<close> are the datagrams that have left.
\<close>

definition wire_env :: "('w \<Rightarrow> bytes list) \<Rightarrow> ('w, 'c, 'a, 'u, 'k) core_env \<Rightarrow> bool" where
  "wire_env wire E \<longleftrightarrow>
     (\<forall>c buf n w. n \<le> length buf \<longrightarrow>
        (case env_send E c buf n w of (sent, w') \<Rightarrow> wire w' = (if sent = int n then wire w @ [take n buf] else wire w)))
   \<and> (\<forall>h p n w. 0 \<le> n \<and> nat n + NGX_RTC_SRTP_TAG_LEN \<le> length p \<longrightarrow>
        (case lib_protect (env_lib E) h p n w of (ok, p', n', w') \<Rightarrow>
           wire w' = wire w \<and> length p' = length p \<and> (ok \<longrightarrow> n' = n + 10) \<and> take 20 p' = take 20 p))"

lemma wire_env_sendD:
  assumes "wire_env wire E" "n \<le> length buf" "env_send E c buf n w = (sent, w')"
  shows "wire w' = (if sent = int n then wire w @ [take n buf] else wire w)"
proof -
  have "case env_send E c buf n w of (sent, w') \<Rightarrow> wire w' = (if sent = int n then wire w @ [take n buf] else wire w)"
    by (rule conjunct1 [OF assms(1) [unfolded wire_env_def], THEN spec, THEN spec, THEN spec, THEN spec, THEN mp, OF assms(2)])
  then show ?thesis unfolding assms(3) by simp
qed

lemma wire_env_protectD:
  assumes "wire_env wire E" "n + NGX_RTC_SRTP_TAG_LEN \<le> length p" "lib_protect (env_lib E) h p (int n) w = (ok, p', n', w')"
  shows "wire w' = wire w \<and> length p' = length p \<and> (ok \<longrightarrow> n' = int n + 10) \<and> take 20 p' = take 20 p"
proof -
  have h: "0 \<le> int n \<and> nat (int n) + NGX_RTC_SRTP_TAG_LEN \<le> length p" using assms(2) by simp
  have "case lib_protect (env_lib E) h p (int n) w of (ok, p', n', w') \<Rightarrow>
      wire w' = wire w \<and> length p' = length p \<and> (ok \<longrightarrow> n' = int n + 10) \<and> take 20 p' = take 20 p"
    by (rule conjunct2 [OF assms(1) [unfolded wire_env_def], THEN spec, THEN spec, THEN spec, THEN spec, THEN mp, OF h])
  then show ?thesis unfolding assms(3) by simp
qed

lemma send_failure_frame:
  "send_view (send_failure v q) = send_view q" "twcc_seq (send_failure v q) = twcc_seq q"
  "cipher (send_failure v q) = cipher q" "drop_until_gop q \<Longrightarrow> drop_until_gop (send_failure v q)"
  by (simp_all add: send_failure_def send_view_def Let_def)

lemma send_blocked_frame:
  "send_view (send_blocked tu no v q) = send_view q" "twcc_seq (send_blocked tu no v q) = twcc_seq q"
  "cipher (send_blocked tu no v q) = cipher q" "drop_until_gop q \<Longrightarrow> drop_until_gop (send_blocked tu no v q)"
  by (simp_all add: send_blocked_def send_view_def Let_def)

lemma send_success_frame:
  "send_view (send_success v g rtp n q) = send_view q" "twcc_seq (send_success v g rtp n q) = twcc_seq q"
  "cipher (send_success v g rtp n q) = cipher q"
  "drop_until_gop q \<Longrightarrow> drop_until_gop (send_success v g rtp n q) \<or> v \<and> g"
  by (simp_all add: send_success_def send_view_def Let_def)

lemma send_untwcc_frame:
  "send_view (send_untwcc st q) = send_view q" "twcc_seq (send_untwcc st q) = (if st then twcc_seq q - 1 else twcc_seq q)"
  "cipher (send_untwcc st q) = cipher q" "drop_until_gop (send_untwcc st q) = drop_until_gop q"
  by (simp_all add: send_untwcc_def send_view_def)

lemmas send_frames = send_failure_frame send_blocked_frame send_success_frame send_untwcc_frame

text \<open>The outcome of a transmission: the transport sequence is kept only by a datagram that left.\<close>

lemma send_transmit_outcome:
  assumes env: "wire_env wire E" and len: "length (cipher s) = NGX_RTC_CIPHER_CAP" "n + NGX_RTC_SRTP_TAG_LEN \<le> NGX_RTC_CIPHER_CAP"
    and tr: "send_transmit E c v g rtp n st s w = (ok, s', w')"
  shows "twcc_seq s' = (if ok \<or> \<not> st then twcc_seq s else twcc_seq s - 1)" "send_view s' = send_view s"
    "drop_until_gop s \<Longrightarrow> drop_until_gop s' \<or> ok \<and> v \<and> g" "length (cipher s') = NGX_RTC_CIPHER_CAP"
    "\<not> ok \<Longrightarrow> wire w' = wire w"
    "ok \<Longrightarrow> \<exists>d. wire w' = wire w @ [d] \<and> length d = n + NGX_RTC_SRTP_TAG_LEN \<and> (20 \<le> n \<longrightarrow> take 20 d = take 20 (cipher s))"
proof -
  obtain rc packet nb w1 where p: "ngx_rtc_srtp_protect_rtp (env_lib E) (Some (srtp s)) (Some (cipher s)) (Some (int n)) w = (rc, packet, nb, w1)"
    by (metis prod_cases4)
  have pr: "\<exists>b k. packet = Some b \<and> nb = Some k \<and> length b = NGX_RTC_CIPHER_CAP \<and> wire w1 = wire w \<and> take 20 b = take 20 (cipher s)
     \<and> (rc = 0 \<longrightarrow> k = int n + 10)"
  proof (cases "send_ctx (srtp s)")
    case None
    then show ?thesis using p len by (auto simp: ngx_rtc_srtp_protect_rtp_def)
  next
    case (Some h)
    obtain ok' b k w2 where l: "lib_protect (env_lib E) h (cipher s) (int n) w = (ok', b, k, w2)" by (metis prod_cases4)
    have "wire w2 = wire w \<and> length b = length (cipher s) \<and> (ok' \<longrightarrow> k = int n + 10) \<and> take 20 b = take 20 (cipher s)"
      by (rule wire_env_protectD [OF env _ l]) (use len in simp)
    then show ?thesis using p l Some len by (auto simp: ngx_rtc_srtp_protect_rtp_def split: if_splits)
  qed
  then obtain b k where b: "packet = Some b" "nb = Some k" "length b = NGX_RTC_CIPHER_CAP" "wire w1 = wire w"
    "take 20 b = take 20 (cipher s)" "rc = 0 \<Longrightarrow> k = int n + 10" by blast
  have "twcc_seq s' = (if ok \<or> \<not> st then twcc_seq s else twcc_seq s - 1) \<and> send_view s' = send_view s
     \<and> (drop_until_gop s \<longrightarrow> drop_until_gop s' \<or> ok \<and> v \<and> g) \<and> length (cipher s') = NGX_RTC_CIPHER_CAP
     \<and> (\<not> ok \<longrightarrow> wire w' = wire w)
     \<and> (ok \<longrightarrow> (\<exists>d. wire w' = wire w @ [d] \<and> length d = n + NGX_RTC_SRTP_TAG_LEN \<and> (20 \<le> n \<longrightarrow> take 20 d = take 20 (cipher s))))"
  proof (cases "rc = 0")
    case False
    have v: "send_view (s\<lparr>cipher := b, srtp_failed := srtp_failed s + 1\<rparr>) = send_view s" by (simp add: send_view_def)
    have e: "\<not> ok" "s' = send_untwcc st (s\<lparr>cipher := b, srtp_failed := srtp_failed s + 1\<rparr>)" "w' = w1"
      using tr p b False by (auto simp: send_transmit_def)
    show ?thesis unfolding e(2,3) using e(1) b v by (simp add: send_frames)
  next
    case True
    let ?s = "s\<lparr>cipher := b\<rparr>" and ?n = "n + NGX_RTC_SRTP_TAG_LEN"
    have k: "k = int ?n" using b(6) True by simp
    obtain sent w2 where e: "env_send E c b ?n w1 = (sent, w2)" by fastforce
    have w2: "wire w2 = (if sent = int ?n then wire w @ [take ?n b] else wire w)"
      using wire_env_sendD [OF env _ e] b(3,4) len(2) by simp
    define t where "t = (if sent \<noteq> int ?n then send_untwcc st ?s else ?s)"
    have vs: "send_view ?s = send_view s" by (simp add: send_view_def)
    have t: "send_view t = send_view s" "drop_until_gop t = drop_until_gop s" "cipher t = b"
      "twcc_seq t = (if sent = int ?n \<or> \<not> st then twcc_seq s else twcc_seq s - 1)"
      using vs by (simp_all add: t_def send_frames)
    have nk: "nat k = ?n" using k by simp
    have tk: "t = (if sent \<noteq> k then send_untwcc st ?s else ?s)" by (simp only: t_def k)
    have e': "env_send E c b (nat k) w1 = (sent, w2)" using e by (simp only: nk)
    have "(ok, s', w') = (if sent = NGX_ERROR then (False, send_failure v t, w2)
        else if sent = NGX_AGAIN then (False, send_blocked (env_tunables E) (env_now E) v t, w2)
        else if sent \<noteq> k then (False, send_failure v t, w2) else (True, send_success v g rtp n t, w2))"
      unfolding tr [symmetric] tk send_transmit_def p b(1,2) True by (simp add: Let_def e')
    then have res: "(ok, s', w') = (if sent = NGX_ERROR then (False, send_failure v t, w2)
        else if sent = NGX_AGAIN then (False, send_blocked (env_tunables E) (env_now E) v t, w2)
        else if sent \<noteq> int ?n then (False, send_failure v t, w2) else (True, send_success v g rtp n t, w2))"
      unfolding k .
    consider "sent = NGX_ERROR" "sent \<noteq> int ?n" | "sent = NGX_AGAIN" "sent \<noteq> NGX_ERROR" "sent \<noteq> int ?n"
      | "sent \<noteq> NGX_ERROR" "sent \<noteq> NGX_AGAIN" "sent \<noteq> int ?n" | "sent = int ?n" "sent \<noteq> NGX_ERROR" "sent \<noteq> NGX_AGAIN"
      by (cases "sent = int ?n") auto
    then show ?thesis
    proof cases
      case 1
      then have "ok = False" "s' = send_failure v t" "w' = w2" using res by simp_all
      then show ?thesis using 1(2) w2 t b(3) send_failure_frame [where v = v and q = t] by simp
    next
      case 2
      then have "ok = False" "s' = send_blocked (env_tunables E) (env_now E) v t" "w' = w2" using res by simp_all
      then show ?thesis using 2(3) w2 t b(3) send_blocked_frame [where tu = "env_tunables E" and no = "env_now E" and v = v and q = t] by simp
    next
      case 3
      then have "ok = False" "s' = send_failure v t" "w' = w2" using res by simp_all
      then show ?thesis using 3(3) w2 t b(3) send_failure_frame [where v = v and q = t] by simp
    next
      case 4
      then have r: "ok = True" "s' = send_success v g rtp n t" "w' = w2" using res by simp_all
      have "take 20 (take ?n b) = take 20 (cipher s)" if "20 \<le> n" using that b(5) by (simp add: min_def)
      then show ?thesis using r 4(1) w2 t b(3) len(2) send_success_frame [where v = v and g = g and rtp = rtp and n = n and q = t] by auto
    qed
  qed
  then show "twcc_seq s' = (if ok \<or> \<not> st then twcc_seq s else twcc_seq s - 1)" "send_view s' = send_view s"
    "drop_until_gop s \<Longrightarrow> drop_until_gop s' \<or> ok \<and> v \<and> g" "length (cipher s') = NGX_RTC_CIPHER_CAP"
    "\<not> ok \<Longrightarrow> wire w' = wire w"
    "ok \<Longrightarrow> \<exists>d. wire w' = wire w @ [d] \<and> length d = n + NGX_RTC_SRTP_TAG_LEN \<and> (20 \<le> n \<longrightarrow> take 20 d = take 20 (cipher s))"
    by blast+
qed

text \<open>One send, on a session whose buffer has its size.\<close>

lemma send_rtp_step:
  assumes env: "wire_env wire E" and len: "length (cipher s) = NGX_RTC_CIPHER_CAP" "l \<le> length rtp"
    and snd: "ngx_rtc_session_send_rtp E (Some s) rtp l g w = Some (ok, sp, w')"
  shows "\<exists>s'. sp = Some s' \<and> send_view s' = send_view s \<and> length (cipher s') = NGX_RTC_CIPHER_CAP
    \<and> twcc_seq s' = twcc_seq s + (if ok \<and> send_stamped s rtp l then 1 else 0)
    \<and> (drop_until_gop s \<longrightarrow> (ok \<and> send_is_video s rtp l \<longrightarrow> g) \<and> (drop_until_gop s' \<or> ok \<and> send_is_video s rtp l \<and> g))
    \<and> (\<not> ok \<longrightarrow> wire w' = wire w)
    \<and> (ok \<longrightarrow> (\<exists>d. wire w' = wire w @ [d] \<and> length d = length (send_plain s rtp l) + NGX_RTC_SRTP_TAG_LEN
         \<and> (send_stamped s rtp l \<longrightarrow> take 20 d = take 20 (send_plain s rtp l))))"
proof -
  consider (idle) "ok = False" "sp = Some s" "w' = w"
    | (gate) "ok = False" "sp = Some (s\<lparr>drop_gop := drop_gop s + 1\<rparr>)" "w' = w"
    | (run) c where "conn s = Some c" "1 \<le> l" "l \<le> NGX_RTC_MAX_RTP_PKT" "\<not> (send_is_video s rtp l \<and> drop_until_gop s \<and> \<not> g)"
        "(case send_pace (env_now E) (send_is_keyframe s (send_is_video s rtp l) g) l s of
            (admitted, sess) \<Rightarrow> if \<not> admitted then Some (False, Some sess, w)
              else (case send_build sess rtp l of (sess, n, stamped) \<Rightarrow>
                (case send_transmit E c (send_is_video s rtp l) g rtp n stamped sess w of (ok, sess, w) \<Rightarrow> Some (ok, Some sess, w))))
          = Some (ok, sp, w')"
    using snd by (auto simp: ngx_rtc_session_send_rtp_def Let_def bind_eq_Some_conv split: option.splits if_splits)
  then show ?thesis
  proof cases
    case idle
    then show ?thesis using len by simp
  next
    case gate
    then show ?thesis using len by (simp add: send_view_def)
  next
    case run
    let ?v = "send_is_video s rtp l"
    obtain a s1 where pc: "send_pace (env_now E) (send_is_keyframe s ?v g) l s = (a, s1)" by fastforce
    note f1 = send_pace_frame [OF pc]
    have m1: "send_mapping s1 = send_mapping s" using send_view_mapping(1) f1(1) by blast
    have pl: "send_plain s1 rtp l = send_plain s rtp l" "send_stamped s1 rtp l = send_stamped s rtp l"
      unfolding send_plain_def send_stamped_def m1 f1(2) by (rule refl)+
    show ?thesis
    proof (cases a)
      case False
      then have "ok = False" "sp = Some s1" "w' = w" using run(5) pc by simp_all
      then show ?thesis using f1 len by simp
    next
      case True
      obtain s2 n st where bd: "send_build s1 rtp l = (s2, n, st)" by (metis prod_cases3)
      obtain ok2 s3 w3 where tr: "send_transmit E c ?v g rtp n st s2 w = (ok2, s3, w3)" by (metis prod_cases3)
      have r: "ok2 = ok" "sp = Some s3" "w3 = w'" using run(5) pc True bd tr by simp_all
      have c1: "length (cipher s1) = NGX_RTC_CIPHER_CAP" "l \<le> length rtp" using f1(3) len by simp_all
      note f2 = send_build_plain [OF c1(2) run(2,3) c1(1) bd]
      note f3 = send_transmit_outcome [OF env f2(4,3) tr [unfolded r]]
      have tk: "take 20 (cipher s2) = take 20 (send_plain s rtp l)" if "20 \<le> n"
      proof -
        have "take 20 (cipher s2) = take 20 (take n (cipher s2))" using that by (simp add: min_def)
        then show ?thesis using f2(5) pl(1) by simp
      qed
      have n20: "20 \<le> n" if "send_stamped s rtp l"
      proof -
        have "12 \<le> l" using that send_mapping_short [of l s rtp] by (cases "l < 12") (auto simp: send_stamped_def)
        then show ?thesis using that f2(1,2) pl(2) by simp
      qed
      have v: "send_view s3 = send_view s" using f3(2) f2(8) f1(1) by simp
      have t: "twcc_seq s3 = twcc_seq s + (if ok \<and> send_stamped s rtp l then 1 else 0)"
        using f3(1) f2(1,7) f1(2) pl(2) by simp
      have g: "drop_until_gop s \<Longrightarrow> drop_until_gop s3 \<or> ok \<and> ?v \<and> g" using f3(3) f2(9) f1(4) by simp
      show ?thesis
      proof (cases ok)
        case True
        then obtain d where "wire w' = wire w @ [d]" "length d = n + NGX_RTC_SRTP_TAG_LEN" "20 \<le> n \<longrightarrow> take 20 d = take 20 (cipher s2)"
          using f3(6) by blast
        then show ?thesis using r(2) v t g f3(4) True run(4) n20 tk f2(6) pl(1) by auto
      next
        case False
        then show ?thesis using r(2) v t g f3(4,5) by auto
      qed
    qed
  qed
qed

text \<open>A started state machine always answers.\<close>

definition fsm_wf :: "('c, 'a, 'u) ngx_rtc_session \<Rightarrow> bool" where
  "fsm_wf s \<longleftrightarrow> hsm_current_state (fsm s) \<noteq> None"

lemma fsm_wf_view: "send_view s = send_view t \<Longrightarrow> fsm_wf s = fsm_wf t"
  by (simp add: send_view_def fsm_wf_def)

lemma fsm_wf_ready: "fsm_wf s \<Longrightarrow> \<exists>b. ngx_rtc_session_fsm_is_ready rep (Some (fsm s)) = Some b"
  using is_in_current by (fastforce simp: fsm_wf_def ngx_rtc_session_fsm_is_ready_def)

lemma send_rtp_total:
  assumes "fsm_wf s"
  shows "\<exists>ok s' w'. ngx_rtc_session_send_rtp E (Some s) rtp l g w = Some (ok, Some s', w')"
proof -
  obtain b where "ngx_rtc_session_fsm_is_ready (env_rep E) (Some (fsm s)) = Some b" using fsm_wf_ready [OF assms] by blast
  then show ?thesis
    by (auto simp: ngx_rtc_session_send_rtp_def Let_def split: option.splits prod.splits)
qed

text \<open>A run of sends; each event has its own surroundings, so the clock and the tunables may change.\<close>

primrec send_run ::
  "(('w, 'c, 'a, 'u, 'k) core_env \<times> bytes \<times> bool) list \<Rightarrow> ('c, 'a, 'u) ngx_rtc_session \<Rightarrow> 'w
    \<Rightarrow> (bool list \<times> ('c, 'a, 'u) ngx_rtc_session \<times> 'w) option" where
  "send_run [] s w = Some ([], s, w)"
| "send_run (x # xs) s w =
     (case x of (E, rtp, g) \<Rightarrow>
       do { (ok, sp, w) \<leftarrow> ngx_rtc_session_send_rtp E (Some s) rtp (length rtp) g w;
            (oks, s, w) \<leftarrow> send_run xs (the sp) w;
            Some (ok # oks, s, w) })"

lemma send_run_Cons:
  assumes "fsm_wf s" "wire_env wire E" "length (cipher s) = NGX_RTC_CIPHER_CAP"
  obtains ok s1 w1 where "ngx_rtc_session_send_rtp E (Some s) rtp (length rtp) g w = Some (ok, Some s1, w1)"
    "send_run ((E, rtp, g) # xs) s w = map_option (\<lambda>(oks, s', w'). (ok # oks, s', w')) (send_run xs s1 w1)"
    "send_view s1 = send_view s" "fsm_wf s1" "length (cipher s1) = NGX_RTC_CIPHER_CAP"
    "twcc_seq s1 = twcc_seq s + (if ok \<and> send_stamped s rtp (length rtp) then 1 else 0)"
    "drop_until_gop s \<longrightarrow> (ok \<and> send_is_video s rtp (length rtp) \<longrightarrow> g) \<and> (drop_until_gop s1 \<or> ok \<and> send_is_video s rtp (length rtp) \<and> g)"
    "\<not> ok \<longrightarrow> wire w1 = wire w"
    "ok \<longrightarrow> (\<exists>d. wire w1 = wire w @ [d] \<and> length d = length (send_plain s rtp (length rtp)) + NGX_RTC_SRTP_TAG_LEN
       \<and> (send_stamped s rtp (length rtp) \<longrightarrow> take 20 d = take 20 (send_plain s rtp (length rtp))))"
proof -
  obtain ok s1 w1 where a: "ngx_rtc_session_send_rtp E (Some s) rtp (length rtp) g w = Some (ok, Some s1, w1)"
    using send_rtp_total [OF assms(1), where E = E and rtp = rtp and l = "length rtp" and g = g and w = w] by blast
  have r: "send_run ((E, rtp, g) # xs) s w = map_option (\<lambda>(oks, s', w'). (ok # oks, s', w')) (send_run xs s1 w1)"
    using a by (simp add: map_option_case split: option.splits prod.splits)
  have st: "send_view s1 = send_view s" "length (cipher s1) = NGX_RTC_CIPHER_CAP"
    "twcc_seq s1 = twcc_seq s + (if ok \<and> send_stamped s rtp (length rtp) then 1 else 0)"
    "drop_until_gop s \<longrightarrow> (ok \<and> send_is_video s rtp (length rtp) \<longrightarrow> g) \<and> (drop_until_gop s1 \<or> ok \<and> send_is_video s rtp (length rtp) \<and> g)"
    "\<not> ok \<longrightarrow> wire w1 = wire w"
    "ok \<longrightarrow> (\<exists>d. wire w1 = wire w @ [d] \<and> length d = length (send_plain s rtp (length rtp)) + NGX_RTC_SRTP_TAG_LEN
       \<and> (send_stamped s rtp (length rtp) \<longrightarrow> take 20 d = take 20 (send_plain s rtp (length rtp))))"
    using send_rtp_step [OF assms(2,3) order_refl a] unfolding option.inject by blast+
  show ?thesis using that [OF a r st(1) _ st(2-6)] fsm_wf_view [OF st(1)] assms(1) by blast
qed

text \<open>The transport sequence number in a datagram's header extension.\<close>

definition dgram_twcc :: "bytes \<Rightarrow> u16 option" where
  "dgram_twcc d =
     (if 20 \<le> length d \<and> d ! 0 AND 0x10 \<noteq> 0 \<and> d ! 12 = 0xBE \<and> d ! 13 = 0xDE then Some (be16 (d ! 17) (d ! 18)) else None)"

lemma or_10_and_10: "((x :: u8) OR 0x10) AND 0x10 \<noteq> 0"
  by (simp add: bit.conj_disj_distrib2)

lemma send_plain_stamped:
  assumes "send_stamped s rtp (length rtp)"
  shows "length (send_plain s rtp (length rtp)) = length rtp + 8" "20 \<le> length (send_plain s rtp (length rtp))"
    "dgram_twcc (send_plain s rtp (length rtp)) = Some (twcc_seq s)"
proof -
  obtain pt ext where m: "send_mapping s rtp (length rtp) = (pt, ext)" "ext \<noteq> 0"
    using assms by (cases "send_mapping s rtp (length rtp)") (auto simp: send_stamped_def)
  have l: "12 \<le> length rtp" using m send_mapping_short [of "length rtp" s rtp] by (cases "length rtp < 12") auto
  define b1 where "b1 = (if pt \<noteq> 0 then (rtp ! 1 AND 0x80) OR (pt AND 0x7f) else rtp ! 1)"
  define as where "as = take 10 (drop 2 rtp)"
  have as: "length as = 10" using l by (simp add: as_def)
  have p: "send_plain s rtp (length rtp) = [rtp ! 0 OR 0x10, b1] @ as
     @ [0xBE, 0xDE, 0, 1, push_bit 4 ext OR 1, ucast (drop_bit 8 (twcc_seq s)), ucast (twcc_seq s), 0] @ drop 12 rtp"
    using m l by (simp add: send_plain_def b1_def as_def)
  show "length (send_plain s rtp (length rtp)) = length rtp + 8" "20 \<le> length (send_plain s rtp (length rtp))"
    unfolding p using l as by simp_all
  show "dgram_twcc (send_plain s rtp (length rtp)) = Some (twcc_seq s)"
    unfolding p dgram_twcc_def using l as or_10_and_10 by (simp add: nth_append nth_Cons')
qed

lemma dgram_twcc_prefix: "take 20 d = take 20 e \<Longrightarrow> 20 \<le> length d \<Longrightarrow> 20 \<le> length e \<Longrightarrow> dgram_twcc d = dgram_twcc e"
proof -
  assume a: "take 20 d = take 20 e" "20 \<le> length d" "20 \<le> length e"
  have "d ! i = e ! i" if "i < 20" for i using nth_take [of i 20 d] nth_take [of i 20 e] that a(1) by simp
  then show ?thesis using a(2,3) by (simp add: dgram_twcc_def)
qed


text \<open>A network that accepts every datagram but those whose payload starts with \<open>7\<close>, where its buffer is full.\<close>

definition demo_env :: "(bytes list, nat, nat, nat, nat) core_env" where
  "demo_env = \<lparr>env_send = \<lambda>c buf n w. if buf ! 20 = 7 then (NGX_AGAIN, w) else (int n, w @ [take n buf]),
     env_lib = \<lparr>lib_init = \<lambda>w. (True, w), lib_create = \<lambda>d k w. (Some 1, w), lib_dealloc = \<lambda>h w. w,
       lib_protect = \<lambda>c p n w. (True, p, n + 10, w), lib_unprotect = \<lambda>c p n w. (True, p, n - 10, w),
       lib_protect_rtcp = \<lambda>c p n w. (True, p, n + 14, w), lib_unprotect_rtcp = \<lambda>c p n w. (True, p, n - 14, w)\<rparr>,
     env_rep = \<lambda>a u e. u, env_tunables = ngx_rtc_default_tunables, env_now = 0\<rparr>"

lemma demo_env_wire: "wire_env (\<lambda>w. w) demo_env"
  by (auto simp: wire_env_def demo_env_def)

definition demo_source :: ngx_rtc_source where
  "demo_source = \<lparr>src_video_ssrc = 5, src_audio_ssrc = 6,
     src_gop = \<lparr>slots = None, capacity = 0, ring_head = 0, ring_count = 0, gop_start = 0\<rparr>\<rparr>"

definition demo_session :: "(nat, nat, nat) ngx_rtc_session" where
  "demo_session = (blank_session S_session_srtp_ready)\<lparr>source := Some demo_source, video_pt := 100, twcc_video_ext := 3, twcc_seq := 65535\<rparr>"

definition demo_rtp :: "u8 \<Rightarrow> bytes" where
  "demo_rtp x = [0x80, 96, 0, 9, 0, 0, 0, 0, 0, 0, 0, 5, x]"

lemma demo_session_facts:
  "fsm_wf demo_session" "length (cipher demo_session) = NGX_RTC_CIPHER_CAP"
  "send_stamped demo_session (demo_rtp x) (length (demo_rtp x))" "send_is_video demo_session (demo_rtp x) (length (demo_rtp x))"
  by (simp_all add: demo_session_def blank_session_def fsm_wf_def send_stamped_def send_mapping_def send_is_video_def
      demo_source_def rtp_ssrc_def demo_rtp_def be32_def)


lemma send_run_total:
  assumes "fsm_wf s" "length (cipher s) = NGX_RTC_CIPHER_CAP" "\<forall>(E, rtp, g) \<in> set xs. wire_env wire E"
  shows "\<exists>oks s' w'. send_run xs s w = Some (oks, s', w') \<and> length oks = length xs"
  using assms
proof (induction xs arbitrary: s w)
  case (Cons x xs)
  obtain E rtp g where x: "x = (E, rtp, g)" by (cases x)
  have e: "wire_env wire E" using Cons.prems(3) x by auto
  obtain ok s1 w1 where st: "send_run ((E, rtp, g) # xs) s w = map_option (\<lambda>(oks, s', w'). (ok # oks, s', w')) (send_run xs s1 w1)"
    "fsm_wf s1" "length (cipher s1) = NGX_RTC_CIPHER_CAP"
    using send_run_Cons [OF Cons.prems(1) e Cons.prems(2), of rtp g w xs] by metis
  then show ?case using Cons.IH [OF st(2,3), of w1] Cons.prems(3) x by auto
qed simp



end
