(* ===== verification/Shm.thy ===== *)
theory Shm
  imports Prelude
begin

text \<open>
  The shared-memory registry of sources and session skeletons (\<^verbatim>\<open>ngx_rtc_shm.c\<close>): the slab
  objects live in two heaps from addresses to records, and every dereference of a freed
  address makes an operation evaluate to \<open>None\<close>. The intrusive queues are lists of
  addresses in queue order (\<^verbatim>\<open>ngx_queue_*\<close> and the red-black tree are nginx's own),
  the name tree is the list of its nodes. All operations run under the pool
  mutex, so each is one step of the zone. The slab allocator, the clock and the random
  numbers are parameters.
\<close>

section \<open>The zone\<close>

abbreviation NGX_RTC_SHM_SOURCE_NAME_MAX :: nat where "NGX_RTC_SHM_SOURCE_NAME_MAX \<equiv> 128"
abbreviation NGX_RTC_SHM_UFRAG_MAX :: nat where "NGX_RTC_SHM_UFRAG_MAX \<equiv> 64"
abbreviation NGX_RTC_SHM_PWD_MAX :: nat where "NGX_RTC_SHM_PWD_MAX \<equiv> 256"
abbreviation NGX_RTC_SHM_SESSION_EXPIRE_MS :: u64 where "NGX_RTC_SHM_SESSION_EXPIRE_MS \<equiv> 30000"
abbreviation NGX_RTC_SHM_SOURCE_EXPIRE_MS :: u64 where "NGX_RTC_SHM_SOURCE_EXPIRE_MS \<equiv> 10000"
abbreviation NGX_RTC_SHM_PUBLISH_GRACE_MS :: int where "NGX_RTC_SHM_PUBLISH_GRACE_MS \<equiv> 10000"
abbreviation (input) NGX_RTC_PUBLISHER_NONE :: u64 where "NGX_RTC_PUBLISHER_NONE \<equiv> 0"
abbreviation (input) NGX_RTC_PUBLISHER_RTMP :: u64 where "NGX_RTC_PUBLISHER_RTMP \<equiv> 1"
abbreviation (input) NGX_RTC_PUBLISHER_WHIP :: u64 where "NGX_RTC_PUBLISHER_WHIP \<equiv> 2"
abbreviation NGX_RTC_SHM_RETX_RING_CAP :: u64 where "NGX_RTC_SHM_RETX_RING_CAP \<equiv> 1024"
abbreviation NGX_RTC_RING_RTP_MAX :: nat where "NGX_RTC_RING_RTP_MAX \<equiv> 1500"
abbreviation NGX_RTC_SHM_LAYOUT :: u32 where "NGX_RTC_SHM_LAYOUT \<equiv> 3"

record retransmit_slot =
  rs_len :: u16
  rs_gop_start :: bool
  rs_data :: bytes

record ngx_rtc_shm_retransmit =
  rx_head :: u64
  rx_count :: u64
  rx_gop_start :: u64
  rx_cap :: u64
  rx_slots :: "retransmit_slot list"

text \<open>A source: \<open>shs_name\<close> is the array, \<open>shs_sn_len\<close> the length of the tree key in it; the
  retransmit ring is kept with its slab address.\<close>

record ngx_rtc_shm_source =
  shs_name :: bytes
  shs_sn_len :: nat
  shs_publishing :: u64
  shs_publisher_kind :: u64
  shs_expires :: u64
  shs_seen_ms :: u64
  shs_publisher_slot :: int
  shs_video_ssrc :: u32
  shs_video_pt :: u8
  shs_audio_ssrc :: u32
  shs_audio_pt :: u8
  shs_send_failed :: u64
  shs_send_eagain :: u64
  shs_version :: u64
  shs_subscribers :: "nat list"
  shs_remote :: u64
  shs_retransmit :: "(nat \<times> ngx_rtc_shm_retransmit) option"
  shs_retx_alloc_failed :: u64
  shs_retx_append_locked :: u64
  shs_retx_append_us :: u64
  shs_retx_replay_count :: u64
  shs_retx_replay_slots :: u64
  shs_retx_replay_us :: u64

text \<open>A session skeleton; \<open>she_linked\<close> says that \<^verbatim>\<open>sub_queue\<close> is not self-linked.\<close>

record ngx_rtc_shm_session =
  she_source :: "nat option"
  she_linked :: bool
  she_id :: u64
  she_ice_ufrag :: bytes
  she_ice_pwd :: bytes
  she_video_pt :: u8
  she_audio_pt :: u8
  she_twcc_video_ext :: u8
  she_twcc_audio_ext :: u8
  she_publishing :: u8
  she_srtp_ready :: u64
  she_owner_slot :: int
  she_close_requested :: u64
  she_expires :: u64
  she_twcc_lost :: u64
  she_twcc_received :: u64
  she_pacer_bps :: u64
  she_drop_pacer :: u64
  she_drop_gop :: u64
  she_state :: u8

record 'm ngx_rtc_shm_ctx =
  pool :: 'm
  src_heap :: "nat \<Rightarrow> ngx_rtc_shm_source option"
  sess_heap :: "nat \<Rightarrow> ngx_rtc_shm_session option"
  source_tree :: "nat list"
  source_list :: "nat list"
  session_list :: "nat list"
  next_session_id :: u64
  nworkers :: u64
  layout :: u32

text \<open>What surrounds the zone: the slab functions, \<^verbatim>\<open>ngx_current_msec\<close>, two \<^verbatim>\<open>ngx_random()\<close>
  results and the readings of the microsecond clock before and after a critical section.\<close>

datatype slab_request = Slab_source | Slab_session | Slab_retransmit | Slab_ring u64

record 'm shm_env =
  slab_alloc :: "slab_request \<Rightarrow> 'm \<Rightarrow> nat option \<times> 'm"
  slab_free :: "nat \<Rightarrow> 'm \<Rightarrow> 'm"
  now_msec :: u64
  random_ssrc :: "u32 \<times> u32"
  clock_us :: "u64 \<times> u64"

text \<open>The guard that opens the entry points: NULL context or name, empty or over-long name.\<close>

definition shm_guard ::
  "'m ngx_rtc_shm_ctx option \<Rightarrow> bytes option \<Rightarrow> nat \<Rightarrow> 'r \<Rightarrow> ('m ngx_rtc_shm_ctx \<Rightarrow> bytes \<Rightarrow> ('r \<times> 'm ngx_rtc_shm_ctx) option)
    \<Rightarrow> ('r \<times> 'm ngx_rtc_shm_ctx option) option" where
  "shm_guard ctxp namep cap r f =
     (case (ctxp, namep) of
        (Some ctx, Some name) \<Rightarrow>
          if name = [] \<or> length name \<ge> cap then Some (r, ctxp) else map_option (apsnd Some) (f ctx name)
      | _ \<Rightarrow> Some (r, ctxp))"

section \<open>Lookup\<close>

text \<open>The key of a tree node: \<open>len\<close> octets at \<^verbatim>\<open>src->name\<close>.\<close>

definition source_key :: "ngx_rtc_shm_source \<Rightarrow> bytes" where
  "source_key s = take (shs_sn_len s) (shs_name s)"

fun tree_find :: "(nat \<Rightarrow> ngx_rtc_shm_source option) \<Rightarrow> bytes \<Rightarrow> nat list \<Rightarrow> nat option option" where
  "tree_find H key [] = Some None"
| "tree_find H key (q # qs) =
     (case H q of None \<Rightarrow> None
      | Some s \<Rightarrow> if source_key s = key then Some (Some q) else tree_find H key qs)"

definition ngx_rtc_shm_source_locked_lookup :: "'m ngx_rtc_shm_ctx \<Rightarrow> bytes \<Rightarrow> nat option option" where
  "ngx_rtc_shm_source_locked_lookup ctx name = tree_find (src_heap ctx) name (source_tree ctx)"

text \<open>\<^verbatim>\<open>len == strlen(ice_ufrag) && memcmp(ice_ufrag, ufrag, len) == 0\<close>\<close>

definition ufrag_matches :: "ngx_rtc_shm_session \<Rightarrow> bytes \<Rightarrow> bool" where
  "ufrag_matches sess ufrag =
     (let n = length (takeWhile (\<lambda>c. c \<noteq> 0) (she_ice_ufrag sess))
      in length ufrag = n \<and> take n (she_ice_ufrag sess) = ufrag)"

fun session_find :: "(nat \<Rightarrow> ngx_rtc_shm_session option) \<Rightarrow> (ngx_rtc_shm_session \<Rightarrow> bool) \<Rightarrow> nat list \<Rightarrow> nat option option" where
  "session_find H P [] = Some None"
| "session_find H P (p # ps) =
     (case H p of None \<Rightarrow> None
      | Some sess \<Rightarrow> if P sess then Some (Some p) else session_find H P ps)"

definition ngx_rtc_shm_session_locked_lookup :: "'m ngx_rtc_shm_ctx \<Rightarrow> bytes \<Rightarrow> nat option option" where
  "ngx_rtc_shm_session_locked_lookup ctx ufrag =
     (if ufrag = [] then Some None else session_find (sess_heap ctx) (\<lambda>s. ufrag_matches s ufrag) (session_list ctx))"

text \<open>Stores through a source or session pointer.\<close>

definition put_source :: "nat \<Rightarrow> (ngx_rtc_shm_source \<Rightarrow> ngx_rtc_shm_source) \<Rightarrow> 'm ngx_rtc_shm_ctx \<Rightarrow> 'm ngx_rtc_shm_ctx option" where
  "put_source q f ctx = map_option (\<lambda>s. ctx\<lparr>src_heap := (src_heap ctx)(q \<mapsto> f s)\<rparr>) (src_heap ctx q)"

definition put_session :: "nat \<Rightarrow> (ngx_rtc_shm_session \<Rightarrow> ngx_rtc_shm_session) \<Rightarrow> 'm ngx_rtc_shm_ctx \<Rightarrow> 'm ngx_rtc_shm_ctx option" where
  "put_session p f ctx = map_option (\<lambda>s. ctx\<lparr>sess_heap := (sess_heap ctx)(p \<mapsto> f s)\<rparr>) (sess_heap ctx p)"

section \<open>Freeing\<close>

definition ngx_rtc_shm_source_referenced_locked :: "'m ngx_rtc_shm_ctx \<Rightarrow> nat \<Rightarrow> bool option" where
  "ngx_rtc_shm_source_referenced_locked ctx q =
     map_option (\<lambda>r. r \<noteq> None) (session_find (sess_heap ctx) (\<lambda>s. she_source s = Some q) (session_list ctx))"

text \<open>The end of a source: unlink, delete the tree node, free the ring and the source.\<close>

definition source_unlink_free :: "'m shm_env \<Rightarrow> nat \<Rightarrow> 'm ngx_rtc_shm_ctx \<Rightarrow> 'm ngx_rtc_shm_ctx option" where
  "source_unlink_free E q ctx =
     do { s \<leftarrow> src_heap ctx q;
          let mem = (case shs_retransmit s of None \<Rightarrow> pool ctx | Some (a, _) \<Rightarrow> slab_free E a (pool ctx));
          Some (ctx\<lparr>source_list := remove1 q (source_list ctx), source_tree := remove1 q (source_tree ctx),
                    src_heap := (src_heap ctx)(q := None), pool := slab_free E q mem\<rparr>) }"

definition ngx_rtc_shm_session_free_locked :: "'m shm_env \<Rightarrow> nat \<Rightarrow> 'm ngx_rtc_shm_ctx \<Rightarrow> 'm ngx_rtc_shm_ctx option" where
  "ngx_rtc_shm_session_free_locked E p ctx =
     do { sess \<leftarrow> sess_heap ctx p;
          ctx \<leftarrow> (case she_source sess of
                   None \<Rightarrow> Some ctx
                 | Some q \<Rightarrow>
                     if she_linked sess then
                       put_source q (\<lambda>src.
                         let src = src\<lparr>shs_subscribers := remove1 p (shs_subscribers src)\<rparr>;
                             src = (if she_owner_slot sess \<noteq> shs_publisher_slot src \<and> shs_remote src > 0
                                    then src\<lparr>shs_remote := shs_remote src - 1\<rparr> else src)
                         in src\<lparr>shs_version := shs_version src + 1\<rparr>) ctx
                     else Some ctx);
          let ctx = ctx\<lparr>session_list := remove1 p (session_list ctx),
                        sess_heap := (sess_heap ctx)(p := None), pool := slab_free E p (pool ctx)\<rparr>;
          (case she_source sess of
             None \<Rightarrow> Some ctx
           | Some q \<Rightarrow>
               put_source q (\<lambda>src.
                 if shs_subscribers src = [] \<and> shs_publishing src = 0 \<and> shs_expires src = 0
                 then src\<lparr>shs_expires := now_msec E + NGX_RTC_SHM_SOURCE_EXPIRE_MS\<rparr> else src) ctx) }"

text \<open>The two passes of the reaper; each walks the queue with the successor saved, that is, over the
  queue as it was when the pass began.\<close>

primrec expire_sessions :: "'m shm_env \<Rightarrow> bool \<Rightarrow> nat list \<Rightarrow> 'm ngx_rtc_shm_ctx \<Rightarrow> 'm ngx_rtc_shm_ctx option" where
  "expire_sessions E forced [] ctx = Some ctx"
| "expire_sessions E forced (p # ps) ctx =
     do { sess \<leftarrow> sess_heap ctx p;
          ctx \<leftarrow> (if she_owner_slot sess \<noteq> - 1 then Some ctx
                 else if she_expires sess \<noteq> 0 \<and> (forced \<or> now_msec E \<ge> she_expires sess)
                 then ngx_rtc_shm_session_free_locked E p ctx else Some ctx);
          expire_sessions E forced ps ctx }"

text \<open>The heartbeat test: \<^verbatim>\<open>0 != seen && (int)(now - seen) < GRACE\<close>.\<close>

definition publisher_alive :: "u64 \<Rightarrow> ngx_rtc_shm_source \<Rightarrow> bool" where
  "publisher_alive now s = (shs_seen_ms s \<noteq> 0 \<and> sint (now - shs_seen_ms s) < NGX_RTC_SHM_PUBLISH_GRACE_MS)"

definition drop_publisher :: "u64 \<Rightarrow> ngx_rtc_shm_source \<Rightarrow> ngx_rtc_shm_source" where
  "drop_publisher now s =
     (let s = s\<lparr>shs_publishing := 0, shs_publisher_kind := NGX_RTC_PUBLISHER_NONE\<rparr>
      in if shs_expires s = 0 then s\<lparr>shs_expires := now + NGX_RTC_SHM_SOURCE_EXPIRE_MS\<rparr> else s)"

primrec expire_sources :: "'m shm_env \<Rightarrow> bool \<Rightarrow> nat list \<Rightarrow> 'm ngx_rtc_shm_ctx \<Rightarrow> 'm ngx_rtc_shm_ctx option" where
  "expire_sources E forced [] ctx = Some ctx"
| "expire_sources E forced (q # qs) ctx =
     do { src \<leftarrow> src_heap ctx q;
          if shs_publishing src \<noteq> 0 \<and> publisher_alive (now_msec E) src then expire_sources E forced qs ctx
          else do {
            ctx \<leftarrow> (if shs_publishing src \<noteq> 0 then put_source q (drop_publisher (now_msec E)) ctx else Some ctx);
            src \<leftarrow> src_heap ctx q;
            ctx \<leftarrow> (if shs_subscribers src \<noteq> [] then Some ctx
                   else if shs_expires src \<noteq> 0 \<and> (forced \<or> now_msec E \<ge> shs_expires src)
                   then do { referenced \<leftarrow> ngx_rtc_shm_source_referenced_locked ctx q;
                             if referenced then Some ctx else source_unlink_free E q ctx }
                   else Some ctx);
            expire_sources E forced qs ctx } }"

definition ngx_rtc_shm_expire_locked :: "'m shm_env \<Rightarrow> bool \<Rightarrow> 'm ngx_rtc_shm_ctx \<Rightarrow> 'm ngx_rtc_shm_ctx option" where
  "ngx_rtc_shm_expire_locked E forced ctx =
     do { ctx \<leftarrow> expire_sessions E forced (session_list ctx) ctx;
          expire_sources E forced (source_list ctx) ctx }"

definition ngx_rtc_shm_expire :: "'m shm_env \<Rightarrow> 'm ngx_rtc_shm_ctx option \<Rightarrow> bool \<Rightarrow> 'm ngx_rtc_shm_ctx option option" where
  "ngx_rtc_shm_expire E ctxp forced =
     (case ctxp of None \<Rightarrow> Some None | Some ctx \<Rightarrow> map_option Some (ngx_rtc_shm_expire_locked E forced ctx))"

section \<open>Sources\<close>

text \<open>One slab allocation; under pressure the reaper is forced once and the allocation repeated.\<close>

definition slab_alloc_locked :: "'m shm_env \<Rightarrow> slab_request \<Rightarrow> 'm ngx_rtc_shm_ctx \<Rightarrow> nat option \<times> 'm ngx_rtc_shm_ctx" where
  "slab_alloc_locked E req ctx = (case slab_alloc E req (pool ctx) of (r, m) \<Rightarrow> (r, ctx\<lparr>pool := m\<rparr>))"

definition alloc_or_expire :: "'m shm_env \<Rightarrow> slab_request \<Rightarrow> 'm ngx_rtc_shm_ctx \<Rightarrow> (nat option \<times> 'm ngx_rtc_shm_ctx) option" where
  "alloc_or_expire E req ctx =
     (case slab_alloc_locked E req ctx of
        (Some p, ctx) \<Rightarrow> Some (Some p, ctx)
      | (None, ctx) \<Rightarrow> do { ctx \<leftarrow> ngx_rtc_shm_expire_locked E True ctx; Some (slab_alloc_locked E req ctx) })"

definition source_init :: "'m shm_env \<Rightarrow> bytes \<Rightarrow> ngx_rtc_shm_source" where
  "source_init E name =
     \<lparr>shs_name = buf_put 0 (name @ [0]) (replicate NGX_RTC_SHM_SOURCE_NAME_MAX 0), shs_sn_len = length name,
      shs_publishing = 0, shs_publisher_kind = 0, shs_expires = now_msec E + NGX_RTC_SHM_SOURCE_EXPIRE_MS,
      shs_seen_ms = 0, shs_publisher_slot = - 1,
      shs_video_ssrc = fst (random_ssrc E), shs_video_pt = 102, shs_audio_ssrc = snd (random_ssrc E), shs_audio_pt = 111,
      shs_send_failed = 0, shs_send_eagain = 0, shs_version = 0, shs_subscribers = [], shs_remote = 0,
      shs_retransmit = None, shs_retx_alloc_failed = 0, shs_retx_append_locked = 0, shs_retx_append_us = 0,
      shs_retx_replay_count = 0, shs_retx_replay_slots = 0, shs_retx_replay_us = 0\<rparr>"

definition ngx_rtc_shm_source_get ::
  "'m shm_env \<Rightarrow> 'm ngx_rtc_shm_ctx option \<Rightarrow> bytes option \<Rightarrow> (nat option \<times> 'm ngx_rtc_shm_ctx option) option" where
  "ngx_rtc_shm_source_get E ctxp namep =
     shm_guard ctxp namep NGX_RTC_SHM_SOURCE_NAME_MAX None (\<lambda>ctx name.
       do { found \<leftarrow> ngx_rtc_shm_source_locked_lookup ctx name;
            (case found of
               Some q \<Rightarrow> Some (Some q, ctx)
             | None \<Rightarrow>
                 do { (r, ctx) \<leftarrow> alloc_or_expire E Slab_source ctx;
                      (case r of
                         None \<Rightarrow> Some (None, ctx)
                       | Some q \<Rightarrow>
                           Some (Some q, ctx\<lparr>src_heap := (src_heap ctx)(q \<mapsto> source_init E name),
                                            source_tree := q # source_tree ctx, source_list := q # source_list ctx\<rparr>)) }) })"

definition ngx_rtc_shm_source_remove ::
  "'m shm_env \<Rightarrow> 'm ngx_rtc_shm_ctx option \<Rightarrow> bytes option \<Rightarrow> (unit \<times> 'm ngx_rtc_shm_ctx option) option" where
  "ngx_rtc_shm_source_remove E ctxp namep =
     shm_guard ctxp namep NGX_RTC_SHM_SOURCE_NAME_MAX () (\<lambda>ctx name.
       do { found \<leftarrow> ngx_rtc_shm_source_locked_lookup ctx name;
            (case found of
               None \<Rightarrow> Some ((), ctx)
             | Some q \<Rightarrow>
                 do { src \<leftarrow> src_heap ctx q;
                      if shs_subscribers src \<noteq> [] then Some ((), ctx)
                      else if shs_publishing src \<noteq> 0 then Some ((), ctx)
                      else do { referenced \<leftarrow> ngx_rtc_shm_source_referenced_locked ctx q;
                                if referenced then Some ((), ctx)
                                else map_option (Pair ()) (source_unlink_free E q ctx) } }) })"

text \<open>The operations that look a source up by name and store into it.\<close>

definition with_source ::
  "'m ngx_rtc_shm_ctx option \<Rightarrow> bytes option \<Rightarrow> 'r \<Rightarrow> 'r \<Rightarrow> (ngx_rtc_shm_source \<Rightarrow> 'r \<times> ngx_rtc_shm_source)
    \<Rightarrow> ('r \<times> 'm ngx_rtc_shm_ctx option) option" where
  "with_source ctxp namep bad missing f =
     shm_guard ctxp namep NGX_RTC_SHM_SOURCE_NAME_MAX bad (\<lambda>ctx name.
       do { found \<leftarrow> ngx_rtc_shm_source_locked_lookup ctx name;
            (case found of
               None \<Rightarrow> Some (missing, ctx)
             | Some q \<Rightarrow>
                 do { src \<leftarrow> src_heap ctx q;
                      map_option (Pair (fst (f src))) (put_source q (\<lambda>_. snd (f src)) ctx) }) })"

definition ngx_rtc_shm_source_add_send_stats ::
  "'m ngx_rtc_shm_ctx option \<Rightarrow> bytes option \<Rightarrow> u64 \<Rightarrow> u64 \<Rightarrow> (unit \<times> 'm ngx_rtc_shm_ctx option) option" where
  "ngx_rtc_shm_source_add_send_stats ctxp namep failed eagain =
     with_source ctxp namep () () (\<lambda>src.
       ((), src\<lparr>shs_send_failed := shs_send_failed src + failed, shs_send_eagain := shs_send_eagain src + eagain\<rparr>))"

definition ngx_rtc_shm_source_try_publish ::
  "'m shm_env \<Rightarrow> 'm ngx_rtc_shm_ctx option \<Rightarrow> bytes option \<Rightarrow> u64 \<Rightarrow> (int \<times> 'm ngx_rtc_shm_ctx option) option" where
  "ngx_rtc_shm_source_try_publish E ctxp namep kind =
     with_source ctxp namep NGX_ERROR NGX_ERROR (\<lambda>src.
       if shs_publisher_kind src \<noteq> 0 \<and> shs_publisher_kind src \<noteq> kind then (NGX_BUSY, src)
       else (NGX_OK, src\<lparr>shs_publisher_kind := kind, shs_publishing := 1, shs_expires := 0, shs_seen_ms := now_msec E\<rparr>))"

definition ngx_rtc_shm_source_release_publish ::
  "'m shm_env \<Rightarrow> 'm ngx_rtc_shm_ctx option \<Rightarrow> bytes option \<Rightarrow> u64 \<Rightarrow> (unit \<times> 'm ngx_rtc_shm_ctx option) option" where
  "ngx_rtc_shm_source_release_publish E ctxp namep kind =
     with_source ctxp namep () () (\<lambda>src.
       if shs_publisher_kind src \<noteq> kind then ((), src)
       else (let src = src\<lparr>shs_publisher_kind := NGX_RTC_PUBLISHER_NONE, shs_publishing := 0\<rparr>
             in ((), if shs_subscribers src \<noteq> [] then src\<lparr>shs_expires := 0\<rparr>
                     else if shs_expires src = 0 then src\<lparr>shs_expires := now_msec E + NGX_RTC_SHM_SOURCE_EXPIRE_MS\<rparr>
                     else src)))"

definition ngx_rtc_shm_source_set_pt ::
  "'m ngx_rtc_shm_ctx option \<Rightarrow> bytes option \<Rightarrow> u8 \<Rightarrow> u8 \<Rightarrow> (unit \<times> 'm ngx_rtc_shm_ctx option) option" where
  "ngx_rtc_shm_source_set_pt ctxp namep vpt apt =
     with_source ctxp namep () () (\<lambda>src.
       let src = (if vpt \<noteq> 0 then src\<lparr>shs_video_pt := vpt\<rparr> else src)
       in ((), if apt \<noteq> 0 then src\<lparr>shs_audio_pt := apt\<rparr> else src))"

definition ngx_rtc_shm_source_set_ssrc ::
  "'m ngx_rtc_shm_ctx option \<Rightarrow> bytes option \<Rightarrow> u32 \<Rightarrow> u32 \<Rightarrow> (unit \<times> 'm ngx_rtc_shm_ctx option) option" where
  "ngx_rtc_shm_source_set_ssrc ctxp namep vssrc assrc =
     with_source ctxp namep () () (\<lambda>src.
       let src = (if vssrc \<noteq> 0 then src\<lparr>shs_video_ssrc := vssrc\<rparr> else src)
       in ((), if assrc \<noteq> 0 then src\<lparr>shs_audio_ssrc := assrc\<rparr> else src))"

definition ngx_rtc_shm_layout_check :: "'m ngx_rtc_shm_ctx option \<Rightarrow> int" where
  "ngx_rtc_shm_layout_check shp =
     (case shp of Some sh \<Rightarrow> if layout sh = NGX_RTC_SHM_LAYOUT then NGX_OK else NGX_ERROR | None \<Rightarrow> NGX_ERROR)"

primrec mark_closed :: "nat list \<Rightarrow> 'm ngx_rtc_shm_ctx \<Rightarrow> 'm ngx_rtc_shm_ctx option" where
  "mark_closed [] ctx = Some ctx"
| "mark_closed (p # ps) ctx = do { ctx \<leftarrow> put_session p (\<lambda>s. s\<lparr>she_close_requested := 1\<rparr>) ctx; mark_closed ps ctx }"

definition ngx_rtc_shm_source_request_close ::
  "'m ngx_rtc_shm_ctx option \<Rightarrow> bytes option \<Rightarrow> (int \<times> 'm ngx_rtc_shm_ctx option) option" where
  "ngx_rtc_shm_source_request_close ctxp namep =
     shm_guard ctxp namep NGX_RTC_SHM_SOURCE_NAME_MAX NGX_ERROR (\<lambda>ctx name.
       do { found \<leftarrow> ngx_rtc_shm_source_locked_lookup ctx name;
            (case found of
               None \<Rightarrow> Some (NGX_ERROR, ctx)
             | Some q \<Rightarrow> do { src \<leftarrow> src_heap ctx q; map_option (Pair NGX_OK) (mark_closed (shs_subscribers src) ctx) }) })"

text \<open>The snapshot of the ready subscribers, at most \<open>mx\<close> of them.\<close>

primrec snapshot_loop :: "'m ngx_rtc_shm_ctx \<Rightarrow> nat \<Rightarrow> nat list \<Rightarrow> (u64 \<times> int) list \<Rightarrow> (u64 \<times> int) list option" where
  "snapshot_loop ctx mx [] out = Some out"
| "snapshot_loop ctx mx (p # ps) out =
     (if length out \<ge> mx then Some out
      else do { sess \<leftarrow> sess_heap ctx p;
                snapshot_loop ctx mx ps
                  (if she_srtp_ready sess \<noteq> 0 \<and> she_owner_slot sess \<ge> 0 \<and> she_owner_slot sess < sint (nworkers ctx)
                   then out @ [(she_id sess, she_owner_slot sess)] else out) })"

definition ngx_rtc_shm_source_snapshot ::
  "'m ngx_rtc_shm_ctx option \<Rightarrow> bytes option \<Rightarrow> nat \<Rightarrow> ((u64 \<times> int) list \<times> 'm ngx_rtc_shm_ctx option) option" where
  "ngx_rtc_shm_source_snapshot ctxp namep mx =
     shm_guard ctxp namep NGX_RTC_SHM_SOURCE_NAME_MAX [] (\<lambda>ctx name.
       if mx = 0 then Some ([], ctx)
       else do { found \<leftarrow> ngx_rtc_shm_source_locked_lookup ctx name;
                 (case found of
                    None \<Rightarrow> Some ([], ctx)
                  | Some q \<Rightarrow> do { src \<leftarrow> src_heap ctx q;
                                   out \<leftarrow> snapshot_loop ctx mx (shs_subscribers src) [];
                                   Some (out, ctx) }) })"

section \<open>Session skeletons\<close>

definition session_init ::
  "'m shm_env \<Rightarrow> nat \<Rightarrow> u64 \<Rightarrow> bytes \<Rightarrow> bytes \<Rightarrow> u8 \<Rightarrow> u8 \<Rightarrow> u8 \<Rightarrow> u8 \<Rightarrow> u8 \<Rightarrow> ngx_rtc_shm_session" where
  "session_init E q sid ufrag pwd vpt apt vext aext publishing =
     \<lparr>she_source = Some q, she_linked = False, she_id = sid,
      she_ice_ufrag = buf_put 0 (ufrag @ [0]) (replicate NGX_RTC_SHM_UFRAG_MAX 0),
      she_ice_pwd = buf_put 0 (pwd @ [0]) (replicate NGX_RTC_SHM_PWD_MAX 0),
      she_video_pt = vpt, she_audio_pt = apt, she_twcc_video_ext = vext, she_twcc_audio_ext = aext,
      she_publishing = publishing, she_srtp_ready = 0, she_owner_slot = - 1, she_close_requested = 0,
      she_expires = now_msec E + NGX_RTC_SHM_SESSION_EXPIRE_MS, she_twcc_lost = 0, she_twcc_received = 0,
      she_pacer_bps = 0, she_drop_pacer = 0, she_drop_gop = 0, she_state = 1\<rparr>"

definition ngx_rtc_shm_session_add ::
  "'m shm_env \<Rightarrow> 'm ngx_rtc_shm_ctx option \<Rightarrow> bytes option \<Rightarrow> bytes option \<Rightarrow> bytes option
    \<Rightarrow> u8 \<Rightarrow> u8 \<Rightarrow> u8 \<Rightarrow> u8 \<Rightarrow> u8 \<Rightarrow> (nat option \<times> 'm ngx_rtc_shm_ctx option) option" where
  "ngx_rtc_shm_session_add E ctxp ufragp pwdp namep vpt apt vext aext publishing =
     shm_guard ctxp ufragp NGX_RTC_SHM_UFRAG_MAX None (\<lambda>ctx ufrag.
       case (pwdp, namep) of
         (Some pwd, Some name) \<Rightarrow>
           if pwd = [] \<or> length pwd \<ge> NGX_RTC_SHM_PWD_MAX \<or> name = [] \<or> length name \<ge> NGX_RTC_SHM_SOURCE_NAME_MAX
           then Some (None, ctx)
           else do { found \<leftarrow> ngx_rtc_shm_source_locked_lookup ctx name;
                     (case found of
                        None \<Rightarrow> Some (None, ctx)
                      | Some q \<Rightarrow>
                          do { (r, ctx) \<leftarrow> alloc_or_expire E Slab_session ctx;
                               (case r of
                                  None \<Rightarrow> Some (None, ctx)
                                | Some p \<Rightarrow>
                                    Some (Some p, ctx\<lparr>sess_heap := (sess_heap ctx)
                                                       (p \<mapsto> session_init E q (next_session_id ctx) ufrag pwd vpt apt vext aext publishing),
                                                      next_session_id := next_session_id ctx + 1,
                                                      session_list := p # session_list ctx\<rparr>)) }) }
       | _ \<Rightarrow> Some (None, ctx))"

record session_snapshot =
  sn_id :: u64
  sn_ice_ufrag :: bytes
  sn_ice_pwd :: bytes
  sn_video_pt :: u8
  sn_audio_pt :: u8
  sn_twcc_video_ext :: u8
  sn_twcc_audio_ext :: u8
  sn_publishing :: u8
  sn_srtp_ready :: u8
  sn_source_name :: bytes
  sn_source_video_ssrc :: u32
  sn_source_audio_ssrc :: u32
  sn_source_video_pt :: u8
  sn_source_audio_pt :: u8

definition snapshot_zero :: session_snapshot where
  "snapshot_zero =
     \<lparr>sn_id = 0, sn_ice_ufrag = replicate NGX_RTC_SHM_UFRAG_MAX 0, sn_ice_pwd = replicate NGX_RTC_SHM_PWD_MAX 0,
      sn_video_pt = 0, sn_audio_pt = 0, sn_twcc_video_ext = 0, sn_twcc_audio_ext = 0, sn_publishing = 0, sn_srtp_ready = 0,
      sn_source_name = replicate NGX_RTC_SHM_SOURCE_NAME_MAX 0, sn_source_video_ssrc = 0, sn_source_audio_ssrc = 0,
      sn_source_video_pt = 0, sn_source_audio_pt = 0\<rparr>"

definition snapshot_of :: "ngx_rtc_shm_session \<Rightarrow> session_snapshot" where
  "snapshot_of sess = snapshot_zero\<lparr>sn_id := she_id sess, sn_ice_ufrag := she_ice_ufrag sess, sn_ice_pwd := she_ice_pwd sess,
     sn_video_pt := she_video_pt sess, sn_audio_pt := she_audio_pt sess, sn_twcc_video_ext := she_twcc_video_ext sess,
     sn_twcc_audio_ext := she_twcc_audio_ext sess, sn_publishing := she_publishing sess,
     sn_srtp_ready := (if she_srtp_ready sess \<noteq> 0 then 1 else 0)\<rparr>"

definition snapshot_source :: "ngx_rtc_shm_source \<Rightarrow> session_snapshot \<Rightarrow> session_snapshot" where
  "snapshot_source src out = out\<lparr>sn_source_name := shs_name src, sn_source_video_ssrc := shs_video_ssrc src,
     sn_source_audio_ssrc := shs_audio_ssrc src, sn_source_video_pt := shs_video_pt src, sn_source_audio_pt := shs_audio_pt src\<rparr>"

text \<open>Another worker owns the skeleton.\<close>

definition owned_elsewhere :: "u64 \<Rightarrow> ngx_rtc_shm_session \<Rightarrow> bool" where
  "owned_elsewhere slot sess = (she_owner_slot sess \<noteq> - 1 \<and> she_owner_slot sess \<noteq> sint slot)"

definition take_ownership :: "u64 \<Rightarrow> ngx_rtc_shm_session \<Rightarrow> ngx_rtc_shm_session" where
  "take_ownership slot sess = (if she_owner_slot sess = - 1 then sess\<lparr>she_owner_slot := sint slot\<rparr> else sess)"

text \<open>The operations that look a skeleton up by its ufrag.\<close>

definition with_session ::
  "'m ngx_rtc_shm_ctx option \<Rightarrow> bytes option \<Rightarrow> 'r \<Rightarrow> 'r \<Rightarrow> (nat \<Rightarrow> ngx_rtc_shm_session \<Rightarrow> 'm ngx_rtc_shm_ctx \<Rightarrow> ('r \<times> 'm ngx_rtc_shm_ctx) option)
    \<Rightarrow> ('r \<times> 'm ngx_rtc_shm_ctx option) option" where
  "with_session ctxp ufragp bad missing f =
     shm_guard ctxp ufragp NGX_RTC_SHM_UFRAG_MAX bad (\<lambda>ctx ufrag.
       do { found \<leftarrow> ngx_rtc_shm_session_locked_lookup ctx ufrag;
            (case found of
               None \<Rightarrow> Some (missing, ctx)
             | Some p \<Rightarrow> do { sess \<leftarrow> sess_heap ctx p; f p sess ctx }) })"

text \<open>The caller's \<open>out\<close> is a parameter: NULL is refused, otherwise it is zeroed first.\<close>

definition ngx_rtc_shm_session_bind ::
  "'m ngx_rtc_shm_ctx option \<Rightarrow> bytes option \<Rightarrow> u64 \<Rightarrow> session_snapshot option
    \<Rightarrow> ((int \<times> session_snapshot option) \<times> 'm ngx_rtc_shm_ctx option) option" where
  "ngx_rtc_shm_session_bind ctxp ufragp slot outp =
     (case outp of
        None \<Rightarrow> Some ((NGX_ERROR, None), ctxp)
      | Some _ \<Rightarrow>
          with_session ctxp ufragp (NGX_ERROR, Some snapshot_zero) (NGX_ERROR, Some snapshot_zero) (\<lambda>p sess ctx.
            if owned_elsewhere slot sess then Some ((NGX_DECLINED, Some snapshot_zero), ctx)
            else do { ctx \<leftarrow> put_session p (take_ownership slot) ctx;
                      (case she_source sess of
                         None \<Rightarrow> Some ((NGX_OK, Some (snapshot_of sess)), ctx)
                       | Some q \<Rightarrow> do { src \<leftarrow> src_heap ctx q;
                                        Some ((NGX_OK, Some (snapshot_source src (snapshot_of sess))), ctx) }) }))"

definition ngx_rtc_shm_session_activate ::
  "'m ngx_rtc_shm_ctx option \<Rightarrow> bytes option \<Rightarrow> u64 \<Rightarrow> (int \<times> 'm ngx_rtc_shm_ctx option) option" where
  "ngx_rtc_shm_session_activate ctxp ufragp slot =
     with_session ctxp ufragp NGX_ERROR NGX_ERROR (\<lambda>p sess ctx.
       if owned_elsewhere slot sess then Some (NGX_DECLINED, ctx)
       else do {
         let sess = (take_ownership slot sess)\<lparr>she_srtp_ready := 1, she_state := 4, she_expires := 0\<rparr>;
         ctx \<leftarrow> put_session p (\<lambda>_. sess) ctx;
         (case she_source sess of
            None \<Rightarrow> Some (NGX_OK, ctx)
          | Some q \<Rightarrow>
              if she_publishing sess = 0 \<and> \<not> she_linked sess
              then do { ctx \<leftarrow> put_session p (\<lambda>s. s\<lparr>she_linked := True\<rparr>) ctx;
                        ctx \<leftarrow> put_source q (\<lambda>src.
                          let src = src\<lparr>shs_subscribers := p # shs_subscribers src, shs_version := shs_version src + 1, shs_expires := 0\<rparr>
                          in if she_owner_slot sess \<noteq> shs_publisher_slot src then src\<lparr>shs_remote := shs_remote src + 1\<rparr> else src) ctx;
                        Some (NGX_OK, ctx) }
              else Some (NGX_OK, ctx)) })"

definition ngx_rtc_shm_session_remove_if_owner ::
  "'m shm_env \<Rightarrow> 'm ngx_rtc_shm_ctx option \<Rightarrow> bytes option \<Rightarrow> u64 \<Rightarrow> (unit \<times> 'm ngx_rtc_shm_ctx option) option" where
  "ngx_rtc_shm_session_remove_if_owner E ctxp ufragp slot =
     with_session ctxp ufragp () () (\<lambda>p sess ctx.
       if owned_elsewhere slot sess then Some ((), ctx)
       else map_option (Pair ()) (ngx_rtc_shm_session_free_locked E p ctx))"

definition ngx_rtc_shm_session_request_close ::
  "'m ngx_rtc_shm_ctx option \<Rightarrow> u64 \<Rightarrow> (int \<times> 'm ngx_rtc_shm_ctx option) option" where
  "ngx_rtc_shm_session_request_close ctxp sid =
     (case ctxp of
        None \<Rightarrow> Some (NGX_ERROR, None)
      | Some ctx \<Rightarrow>
          if sid = 0 then Some (NGX_ERROR, ctxp)
          else do { found \<leftarrow> session_find (sess_heap ctx) (\<lambda>s. she_id s = sid) (session_list ctx);
                    (case found of
                       None \<Rightarrow> Some (NGX_ERROR, ctxp)
                     | Some p \<Rightarrow> map_option (\<lambda>ctx. (NGX_OK, Some ctx)) (put_session p (\<lambda>s. s\<lparr>she_close_requested := 1\<rparr>) ctx)) })"

definition ngx_rtc_shm_session_is_close_requested ::
  "'m ngx_rtc_shm_ctx option \<Rightarrow> bytes option \<Rightarrow> (bool \<times> 'm ngx_rtc_shm_ctx option) option" where
  "ngx_rtc_shm_session_is_close_requested ctxp ufragp =
     with_session ctxp ufragp False False (\<lambda>p sess ctx. Some (she_close_requested sess \<noteq> 0, ctx))"

definition ngx_rtc_shm_session_set_stats ::
  "'m ngx_rtc_shm_ctx option \<Rightarrow> bytes option \<Rightarrow> u64 \<Rightarrow> u64 \<Rightarrow> u64 \<Rightarrow> u64 \<Rightarrow> u64 \<Rightarrow> (unit \<times> 'm ngx_rtc_shm_ctx option) option" where
  "ngx_rtc_shm_session_set_stats ctxp ufragp lost received bps dpacer dgop =
     with_session ctxp ufragp () () (\<lambda>p sess ctx.
       map_option (Pair ()) (put_session p (\<lambda>s. s\<lparr>she_twcc_lost := lost, she_twcc_received := received, she_pacer_bps := bps,
                                                   she_drop_pacer := dpacer, she_drop_gop := dgop\<rparr>) ctx))"

definition ngx_rtc_shm_session_set_state ::
  "'m ngx_rtc_shm_ctx option \<Rightarrow> bytes option \<Rightarrow> u64 \<Rightarrow> u8 \<Rightarrow> (unit \<times> 'm ngx_rtc_shm_ctx option) option" where
  "ngx_rtc_shm_session_set_state ctxp ufragp slot state =
     with_session ctxp ufragp () () (\<lambda>p sess ctx.
       if owned_elsewhere slot sess then Some ((), ctx)
       else map_option (Pair ()) (put_session p (\<lambda>s. s\<lparr>she_state := state\<rparr>) ctx))"

end
