(* ===== verification/ShmRing.thy ===== *)
theory ShmRing
  imports Shm Ring
begin

text \<open>
  The rings in shared memory (\<^verbatim>\<open>ngx_rtc_shm.c\<close>): the per-source retransmit ring, from which any
  worker answers NACK and replays the latest GOP, and the per-worker media rings that carry
  broadcast packets to the worker that owns a viewer.
\<close>

section \<open>The retransmit ring\<close>

definition retx_slot_zero :: retransmit_slot where
  "retx_slot_zero = \<lparr>rs_len = 0, rs_gop_start = False, rs_data = replicate NGX_RTC_RING_RTP_MAX 0\<rparr>"

definition ngx_rtc_shm_retransmit_alloc_locked ::
  "'m shm_env \<Rightarrow> 'm ngx_rtc_shm_ctx \<Rightarrow> (nat \<times> ngx_rtc_shm_retransmit) option \<times> 'm ngx_rtc_shm_ctx" where
  "ngx_rtc_shm_retransmit_alloc_locked E ctx =
     (case slab_alloc_locked E Slab_retransmit ctx of
        (None, ctx) \<Rightarrow> (None, ctx)
      | (Some a, ctx) \<Rightarrow>
          (Some (a, \<lparr>rx_head = 0, rx_count = 0, rx_gop_start = 0, rx_cap = NGX_RTC_SHM_RETX_RING_CAP,
                     rx_slots = replicate 1024 retx_slot_zero\<rparr>), ctx))"

definition ngx_rtc_shm_retx_seq :: "bytes \<Rightarrow> u16" where
  "ngx_rtc_shm_retx_seq data = be16 (data ! 2) (data ! 3)"

definition ngx_rtc_shm_retransmit_reset ::
  "'m ngx_rtc_shm_ctx option \<Rightarrow> bytes option \<Rightarrow> (unit \<times> 'm ngx_rtc_shm_ctx option) option" where
  "ngx_rtc_shm_retransmit_reset ctxp namep =
     with_source ctxp namep () () (\<lambda>src.
       case shs_retransmit src of
         None \<Rightarrow> ((), src)
       | Some (a, r) \<Rightarrow> ((), src\<lparr>shs_retransmit := Some (a, r\<lparr>rx_head := 0, rx_count := 0, rx_gop_start := 0\<rparr>)\<rparr>))"

text \<open>One packet into the ring.\<close>

definition retx_store :: "bytes \<Rightarrow> nat \<Rightarrow> bool \<Rightarrow> ngx_rtc_shm_retransmit \<Rightarrow> ngx_rtc_shm_retransmit" where
  "retx_store rtp len is_gop_start r =
     (let idx = unat (rx_head r AND (rx_cap r - 1));
          slot = rx_slots r ! idx;
          slot = slot\<lparr>rs_data := buf_put 0 (take len rtp) (rs_data slot), rs_len := word_of_nat len, rs_gop_start := is_gop_start\<rparr>;
          r = r\<lparr>rx_slots := (rx_slots r)[idx := slot]\<rparr>;
          r = (if is_gop_start then r\<lparr>rx_gop_start := rx_head r\<rparr> else r);
          r = r\<lparr>rx_head := rx_head r + 1\<rparr>
      in if rx_count r < rx_cap r then r\<lparr>rx_count := rx_count r + 1\<rparr> else r)"

text \<open>The section under the mutex, which reads \<^verbatim>\<open>remote_subscribers\<close> again.\<close>

definition retx_took :: "'m shm_env \<Rightarrow> ngx_rtc_shm_source \<Rightarrow> ngx_rtc_shm_source" where
  "retx_took E src = src\<lparr>shs_retx_append_us := shs_retx_append_us src + (snd (clock_us E) - fst (clock_us E))\<rparr>"

definition retransmit_append_locked :: "'m shm_env \<Rightarrow> 'm ngx_rtc_shm_ctx \<Rightarrow> nat \<Rightarrow> bytes \<Rightarrow> nat \<Rightarrow> bool \<Rightarrow> 'm ngx_rtc_shm_ctx option" where
  "retransmit_append_locked E ctx q rtp len is_gop_start =
     do { src \<leftarrow> src_heap ctx q;
          let src = src\<lparr>shs_retx_append_locked := shs_retx_append_locked src + 1\<rparr>;
          if shs_remote src = 0 then put_source q (\<lambda>_. retx_took E src) ctx
          else
            (case (case shs_retransmit src of Some r \<Rightarrow> (Some r, ctx) | None \<Rightarrow> ngx_rtc_shm_retransmit_alloc_locked E ctx) of
               (None, ctx) \<Rightarrow>
                 put_source q (\<lambda>_. retx_took E (src\<lparr>shs_retx_alloc_failed := shs_retx_alloc_failed src + 1\<rparr>)) ctx
             | (Some (a, r), ctx) \<Rightarrow>
                 put_source q (\<lambda>_. retx_took E (src\<lparr>shs_retransmit := Some (a, retx_store rtp len is_gop_start r)\<rparr>)) ctx) }"

definition ngx_rtc_shm_retransmit_append ::
  "'m shm_env \<Rightarrow> 'm ngx_rtc_shm_ctx option \<Rightarrow> nat option \<Rightarrow> bytes option \<Rightarrow> nat \<Rightarrow> bool \<Rightarrow> 'm ngx_rtc_shm_ctx option option" where
  "ngx_rtc_shm_retransmit_append E ctxp srcp rtpp len is_gop_start =
     (case (ctxp, srcp, rtpp) of
        (Some ctx, Some q, Some rtp) \<Rightarrow>
          if len = 0 \<or> len > NGX_RTC_RING_RTP_MAX then Some ctxp
          else do { src \<leftarrow> src_heap ctx q;
                    if shs_remote src = 0 then Some ctxp
                    else map_option Some (retransmit_append_locked E ctx q rtp len is_gop_start) }
      | _ \<Rightarrow> Some ctxp)"

text \<open>The search in a ring for the packet with a sequence number that fits the caller's buffer.\<close>

definition retx_lookup :: "ngx_rtc_shm_retransmit \<Rightarrow> u16 \<Rightarrow> nat \<Rightarrow> (bytes \<times> u16) option" where
  "retx_lookup r rtp_seq out_cap =
     (if rx_count r \<noteq> 0 then
        (let start = rx_head r - rx_count r;
             idx = unat (start AND (rx_cap r - 1));
             start_seq = ngx_rtc_shm_retx_seq (rs_data (rx_slots r ! idx));
             dist = rtp_seq - start_seq
         in if ucast dist < rx_count r then
              (let idx = unat ((start + ucast dist) AND (rx_cap r - 1));
                   slot = rx_slots r ! idx
               in if ngx_rtc_shm_retx_seq (rs_data slot) = rtp_seq \<and> unat (rs_len slot) \<le> out_cap
                  then Some (take (unat (rs_len slot)) (rs_data slot), rs_len slot) else None)
            else None)
      else None)"

definition ngx_rtc_shm_retransmit_get ::
  "'m ngx_rtc_shm_ctx option \<Rightarrow> bytes option \<Rightarrow> u16 \<Rightarrow> bytes option \<Rightarrow> nat \<Rightarrow> u16 option
    \<Rightarrow> ((int \<times> bytes option \<times> u16 option) \<times> 'm ngx_rtc_shm_ctx option) option" where
  "ngx_rtc_shm_retransmit_get ctxp namep rtp_seq outp out_cap out_lenp =
     (case (outp, out_lenp) of
        (Some out, Some _) \<Rightarrow>
          shm_guard ctxp namep NGX_RTC_SHM_SOURCE_NAME_MAX (NGX_DECLINED, outp, out_lenp) (\<lambda>ctx name.
            do { found \<leftarrow> ngx_rtc_shm_source_locked_lookup ctx name;
                 (case found of
                    None \<Rightarrow> Some ((NGX_DECLINED, outp, out_lenp), ctx)
                  | Some q \<Rightarrow>
                      do { src \<leftarrow> src_heap ctx q;
                           Some (case Option.bind (shs_retransmit src) (\<lambda>(a, r). retx_lookup r rtp_seq out_cap) of
                                   None \<Rightarrow> (NGX_DECLINED, outp, out_lenp)
                                 | Some (data, n) \<Rightarrow> (NGX_OK, Some (buf_put 0 data out), Some n), ctx) }) })
      | _ \<Rightarrow> Some ((NGX_DECLINED, outp, out_lenp), ctxp))"

definition retx_marker :: "retransmit_slot \<Rightarrow> bool" where
  "retx_marker s = (12 < rs_len s \<and> rs_data s ! 1 AND 0x80 \<noteq> 0)"

text \<open>The copy under the mutex; \<open>n\<close> counts down \<open>head - i\<close>.\<close>

primrec retx_copy :: "nat \<Rightarrow> ngx_rtc_shm_retransmit \<Rightarrow> u64 \<Rightarrow> retransmit_slot list \<Rightarrow> retransmit_slot list" where
  "retx_copy 0 r i buf = buf"
| "retx_copy (Suc n) r i buf =
     (let slot = rx_slots r ! unat (i AND (rx_cap r - 1)); buf = buf @ [slot]
      in if retx_marker slot then buf else retx_copy n r (i + 1) buf)"

definition retx_gop :: "ngx_rtc_shm_retransmit \<Rightarrow> retransmit_slot list" where
  "retx_gop r =
     (if rx_count r \<noteq> 0 then
        (let start = rx_head r - rx_count r;
             start = (if rx_gop_start r > start then rx_gop_start r else start)
         in retx_copy (if start < rx_head r then unat (rx_head r - start) else 0) r start [])
      else [])"

text \<open>The sends outside the mutex.\<close>

primrec retx_replay :: "('o \<Rightarrow> bytes \<Rightarrow> u16 \<Rightarrow> bool \<Rightarrow> int \<times> 'o) \<Rightarrow> retransmit_slot list \<Rightarrow> 'o \<Rightarrow> 'o" where
  "retx_replay cb [] opaque = opaque"
| "retx_replay cb (s # ss) opaque =
     (case cb opaque (rs_data s) (rs_len s) (rs_gop_start s) of
        (rc, opaque) \<Rightarrow> if rc \<noteq> NGX_OK then opaque else if retx_marker s then opaque else retx_replay cb ss opaque)"

definition ngx_rtc_shm_retransmit_replay_gop ::
  "'m shm_env \<Rightarrow> bool \<Rightarrow> 'm ngx_rtc_shm_ctx option \<Rightarrow> bytes option \<Rightarrow> ('o \<Rightarrow> bytes \<Rightarrow> u16 \<Rightarrow> bool \<Rightarrow> int \<times> 'o) option \<Rightarrow> 'o
    \<Rightarrow> ((int \<times> 'o) \<times> 'm ngx_rtc_shm_ctx option) option" where
  "ngx_rtc_shm_retransmit_replay_gop E alloc_ok ctxp namep cbp opaque =
     (case cbp of
        None \<Rightarrow> Some ((- 1, opaque), ctxp)
      | Some cb \<Rightarrow>
          shm_guard ctxp namep NGX_RTC_SHM_SOURCE_NAME_MAX (- 1, opaque) (\<lambda>ctx name.
            if \<not> alloc_ok then Some ((- 1, opaque), ctx)
            else do {
              found \<leftarrow> ngx_rtc_shm_source_locked_lookup ctx name;
              (case found of
                 None \<Rightarrow> Some ((- 1, opaque), ctx)
               | Some q \<Rightarrow>
                   do { src \<leftarrow> src_heap ctx q;
                        (case shs_retransmit src of
                           None \<Rightarrow> Some ((- 1, opaque), ctx)
                         | Some (a, r) \<Rightarrow>
                             (let buf = retx_gop r
                              in do { ctx \<leftarrow> put_source q (\<lambda>src. src\<lparr>
                                        shs_retx_replay_count := shs_retx_replay_count src + 1,
                                        shs_retx_replay_slots := shs_retx_replay_slots src + word_of_nat (length buf),
                                        shs_retx_replay_us := shs_retx_replay_us src + (snd (clock_us E) - fst (clock_us E))\<rparr>) ctx;
                                      Some ((int (length buf), retx_replay cb buf opaque), ctx) })) }) }))"

section \<open>The media rings\<close>

abbreviation NGX_RTC_RING_MAX_SESSIONS :: nat where "NGX_RTC_RING_MAX_SESSIONS \<equiv> 64"

record ngx_rtc_ring_entry =
  e_seq :: u64
  e_media :: u64
  e_gop :: u64
  e_len :: u64
  e_nsess :: u64
  e_sess :: "u64 list"
  e_rtp :: bytes

record ngx_rtc_shm_ring =
  sr_head :: u64
  sr_tail :: u64
  sr_size :: u64
  sr_mask :: u64
  sr_entries :: "ngx_rtc_ring_entry list"

definition ngx_rtc_shm_ring_next_pow2 :: "u64 \<Rightarrow> u64" where
  "ngx_rtc_shm_ring_next_pow2 v =
     (let v = v - 1; v = v OR drop_bit 1 v; v = v OR drop_bit 2 v; v = v OR drop_bit 4 v;
          v = v OR drop_bit 8 v; v = v OR drop_bit 16 v; v = v OR drop_bit 32 v
      in v + 1)"

definition ring_entry_zero :: ngx_rtc_ring_entry where
  "ring_entry_zero = \<lparr>e_seq = 0, e_media = 0, e_gop = 0, e_len = 0, e_nsess = 0,
     e_sess = replicate NGX_RTC_RING_MAX_SESSIONS 0, e_rtp = replicate NGX_RTC_RING_RTP_MAX 0\<rparr>"

definition ngx_rtc_shm_ring_init :: "'m shm_env \<Rightarrow> 'm option \<Rightarrow> u64 \<Rightarrow> (nat \<times> ngx_rtc_shm_ring) option \<times> 'm option" where
  "ngx_rtc_shm_ring_init E poolp nslots =
     (case poolp of
        None \<Rightarrow> (None, None)
      | Some mem \<Rightarrow>
          if nslots = 0 then (None, poolp)
          else (let cap = ngx_rtc_shm_ring_next_pow2 nslots
                in case slab_alloc E (Slab_ring cap) mem of
                     (None, mem) \<Rightarrow> (None, Some mem)
                   | (Some a, mem) \<Rightarrow>
                       (Some (a, \<lparr>sr_head = 0, sr_tail = 0, sr_size = cap, sr_mask = cap - 1,
                                  sr_entries = replicate (unat cap) ring_entry_zero\<rparr>), Some mem)))"

definition ngx_rtc_shm_ring_enqueue ::
  "ngx_rtc_shm_ring option \<Rightarrow> u8 \<Rightarrow> u8 \<Rightarrow> bytes option \<Rightarrow> u16 \<Rightarrow> u64 list option \<Rightarrow> nat \<Rightarrow> int \<times> ngx_rtc_shm_ring option" where
  "ngx_rtc_shm_ring_enqueue rp media gop rtpp rtp_len idsp nsess =
     (case (rp, rtpp, idsp) of
        (Some r, Some rtp, Some ids) \<Rightarrow>
          if rtp_len = 0 \<or> unat rtp_len > NGX_RTC_RING_RTP_MAX \<or> nsess = 0 \<or> nsess > NGX_RTC_RING_MAX_SESSIONS
          then (NGX_ERROR, rp)
          else if sr_head r - sr_tail r \<ge> sr_size r then (NGX_ERROR, rp)
          else (let idx = unat (sr_head r AND sr_mask r);
                    slot = sr_entries r ! idx;
                    slot = slot\<lparr>e_seq := sr_head r, e_media := ucast media, e_gop := ucast gop, e_len := ucast rtp_len,
                                e_nsess := word_of_nat nsess, e_sess := buf_put 0 (take nsess ids) (e_sess slot),
                                e_rtp := buf_put 0 (take (unat rtp_len) rtp) (e_rtp slot)\<rparr>
                in (NGX_OK, Some (r\<lparr>sr_entries := (sr_entries r)[idx := slot], sr_head := sr_head r + 1\<rparr>)))
      | _ \<Rightarrow> (NGX_ERROR, rp))"

definition ngx_rtc_shm_ring_dequeue ::
  "ngx_rtc_shm_ring option \<Rightarrow> ngx_rtc_ring_entry option \<Rightarrow> int \<times> ngx_rtc_shm_ring option \<times> ngx_rtc_ring_entry option" where
  "ngx_rtc_shm_ring_dequeue rp ep =
     (case (rp, ep) of
        (Some r, Some _) \<Rightarrow>
          if sr_head r = sr_tail r then (NGX_ERROR, rp, ep)
          else (let idx = unat (sr_tail r AND sr_mask r)
                in (NGX_OK, Some (r\<lparr>sr_tail := sr_tail r + 1\<rparr>), Some (sr_entries r ! idx)))
      | _ \<Rightarrow> (NGX_ERROR, rp, ep))"

definition ngx_rtc_shm_ring_full :: "ngx_rtc_shm_ring option \<Rightarrow> bool" where
  "ngx_rtc_shm_ring_full rp = (case rp of None \<Rightarrow> True | Some r \<Rightarrow> sr_head r - sr_tail r \<ge> sr_size r)"

definition ngx_rtc_shm_ring_empty :: "ngx_rtc_shm_ring option \<Rightarrow> bool" where
  "ngx_rtc_shm_ring_empty rp = (case rp of None \<Rightarrow> True | Some r \<Rightarrow> sr_head r = sr_tail r)"

section \<open>The media ring is a bounded FIFO queue\<close>

lemma ring_index64: "k \<le> 32 \<Longrightarrow> unat (x AND (2 ^ k - 1) :: u64) = unat x mod 2 ^ k"
  using unat_and_mask [of x k] by (simp add: mask_eq_exp_minus_1)

lemma pow2_u64: "k \<le> 32 \<Longrightarrow> unat (2 ^ k :: u64) = 2 ^ k"
  by (simp add: unat_exp_word)

lemma index64_distinct:
  assumes "k \<le> 32" "0 < unat (x - y)" "unat (x - y) < 2 ^ k"
  shows "unat (x AND (2 ^ k - 1) :: u64) \<noteq> unat (y AND (2 ^ k - 1))"
proof
  assume "unat (x AND (2 ^ k - 1)) = unat (y AND (2 ^ k - 1))"
  then have "unat (x - y) mod 2 ^ k = 0"
    using assms(1) by (intro unat_diff_mod) (simp_all add: ring_index64)
  then show False using assms by simp
qed

lemma unat_Suc64: "unat (d :: u64) < 2 ^ k \<Longrightarrow> k \<le> 32 \<Longrightarrow> unat (d + 1) = Suc (unat d)"
proof -
  assume a: "unat d < 2 ^ k" "k \<le> 32"
  have "(2 :: nat) ^ k \<le> 2 ^ 32" using a(2) by (rule power_increasing) simp
  then have "Suc (unat d) < 2 ^ 64" using a(1) by simp
  then show ?thesis by (simp add: unat_word_ariths)
qed

lemma unat_pred64: "0 < unat (d :: u64) \<Longrightarrow> unat (d - 1) = unat d - 1"
  by (metis gr_implies_not0 unat_eq_zero unat_minus_one)

text \<open>A broadcast packet as its consumer sees it: medium, GOP flag, payload, target sessions.\<close>

type_synonym media_packet = "u8 \<times> u8 \<times> bytes \<times> u64 list"

definition entry_packet :: "ngx_rtc_ring_entry \<Rightarrow> media_packet" where
  "entry_packet e = (ucast (e_media e), ucast (e_gop e), take (unat (e_len e)) (e_rtp e), take (unat (e_nsess e)) (e_sess e))"

definition media_valid :: "ngx_rtc_shm_ring \<Rightarrow> media_packet \<Rightarrow> bool" where
  "media_valid r = (\<lambda>(media, gop, rtp, ids). 0 < length rtp \<and> length rtp \<le> NGX_RTC_RING_RTP_MAX
     \<and> 0 < length ids \<and> length ids \<le> NGX_RTC_RING_MAX_SESSIONS)"

definition media_enq :: "media_packet \<Rightarrow> ngx_rtc_shm_ring \<Rightarrow> ngx_rtc_shm_ring option" where
  "media_enq = (\<lambda>(media, gop, rtp, ids) r.
     case ngx_rtc_shm_ring_enqueue (Some r) media gop (Some rtp) (word_of_nat (length rtp)) (Some ids) (length ids) of
       (rc, r') \<Rightarrow> if rc = NGX_OK then r' else None)"

definition media_deq :: "ngx_rtc_shm_ring \<Rightarrow> (media_packet \<times> ngx_rtc_shm_ring) option" where
  "media_deq r =
     (case ngx_rtc_shm_ring_dequeue (Some r) (Some ring_entry_zero) of
        (rc, r', e) \<Rightarrow> if rc = NGX_OK then Some (entry_packet (the e), the r') else None)"

definition media_slot :: "ngx_rtc_shm_ring \<Rightarrow> nat \<Rightarrow> ngx_rtc_ring_entry" where
  "media_slot r i = sr_entries r ! unat ((sr_tail r + word_of_nat i) AND sr_mask r)"

definition media_contents :: "ngx_rtc_shm_ring \<Rightarrow> media_packet list" where
  "media_contents r = map (\<lambda>i. entry_packet (media_slot r i)) [0..<unat (sr_head r - sr_tail r)]"

definition media_wf :: "ngx_rtc_shm_ring \<Rightarrow> bool" where
  "media_wf r \<longleftrightarrow> (\<exists>k \<le> 32. sr_size r = 2 ^ k \<and> sr_mask r = 2 ^ k - 1 \<and> length (sr_entries r) = 2 ^ k)
     \<and> sr_head r - sr_tail r \<le> sr_size r
     \<and> (\<forall>e \<in> set (sr_entries r). length (e_sess e) = NGX_RTC_RING_MAX_SESSIONS \<and> length (e_rtp e) = NGX_RTC_RING_RTP_MAX)"

lemma media_wfE:
  assumes "media_wf r"
  obtains k where "k \<le> 32" "sr_size r = 2 ^ k" "sr_mask r = 2 ^ k - 1" "length (sr_entries r) = 2 ^ k"
    "unat (sr_head r - sr_tail r) \<le> 2 ^ k"
    "\<And>i. i < 2 ^ k \<Longrightarrow> length (e_sess (sr_entries r ! i)) = NGX_RTC_RING_MAX_SESSIONS \<and> length (e_rtp (sr_entries r ! i)) = NGX_RTC_RING_RTP_MAX"
  using assms by (auto simp: media_wf_def word_le_nat_alt pow2_u64)

lemma media_index: "k \<le> 32 \<Longrightarrow> unat (x AND (2 ^ k - 1) :: u64) < 2 ^ k"
  by (simp add: ring_index64)

lemma ucast_up_down: "ucast (ucast (b :: u8) :: u64) = b"
  by (rule bit_word_eqI) (auto simp: bit_simps dest: bit_imp_le_length)

lemma take_buf_put_0: "take (length xs) (buf_put 0 xs b) = xs"
  by (simp add: buf_put_def)

lemma media_enq_step:
  assumes wf: "media_wf r" and v: "media_valid r x" and e: "media_enq x r = Some r'"
  shows "media_wf r' \<and> media_contents r' = media_contents r @ [x]"
proof -
  obtain media gop rtp ids where x: "x = (media, gop, rtp, ids)" by (cases x)
  from wf obtain k where k: "k \<le> 32" "sr_size r = 2 ^ k" "sr_mask r = 2 ^ k - 1" "length (sr_entries r) = 2 ^ k"
    "unat (sr_head r - sr_tail r) \<le> 2 ^ k"
    "\<And>i. i < 2 ^ k \<Longrightarrow> length (e_sess (sr_entries r ! i)) = NGX_RTC_RING_MAX_SESSIONS \<and> length (e_rtp (sr_entries r ! i)) = NGX_RTC_RING_RTP_MAX"
    using media_wfE by blast
  have l: "0 < length rtp" "length rtp \<le> 1500" "0 < length ids" "length ids \<le> 64"
    using v by (simp_all add: media_valid_def x)
  have u: "unat (word_of_nat (length rtp) :: u16) = length rtp" "unat (ucast (word_of_nat (length rtp) :: u16) :: u64) = length rtp"
    "unat (word_of_nat (length ids) :: u64) = length ids"
    using l by (simp_all add: unat_of_nat unsigned_ucast_eq take_bit_nat_eq_self unsigned_of_nat)
  have nz: "(word_of_nat (length rtp) :: u16) \<noteq> 0" using u(1) l(1) by (metis less_numeral_extra(3) unat_0)
  let ?i = "unat (sr_head r AND (2 ^ k - 1))"
  define slot where "slot = (sr_entries r ! ?i)\<lparr>e_seq := sr_head r, e_media := ucast media, e_gop := ucast gop,
     e_len := ucast (word_of_nat (length rtp) :: u16), e_nsess := word_of_nat (length ids),
     e_sess := buf_put 0 ids (e_sess (sr_entries r ! ?i)), e_rtp := buf_put 0 rtp (e_rtp (sr_entries r ! ?i))\<rparr>"
  have r': "\<not> sr_head r - sr_tail r \<ge> sr_size r" "r' = r\<lparr>sr_entries := (sr_entries r)[?i := slot], sr_head := sr_head r + 1\<rparr>"
    using e l nz u(1) k(3) by (auto simp: media_enq_def x ngx_rtc_shm_ring_enqueue_def Let_def slot_def split: if_splits)
  let ?n = "unat (sr_head r - sr_tail r)"
  have n: "?n < 2 ^ k" using r'(1) k(1,2) by (simp add: word_le_nat_alt pow2_u64)
  have le: "(2 :: nat) ^ k \<le> 2 ^ 32" using k(1) by (rule power_increasing) simp
  have n1: "unat (sr_head r + 1 - sr_tail r) = Suc ?n"
  proof -
    have "sr_head r + 1 - sr_tail r = (sr_head r - sr_tail r) + 1" by simp
    then show ?thesis using unat_Suc64 [OF n k(1)] by (simp only:)
  qed
  have ib: "?i < 2 ^ k" using media_index [OF k(1)] .
  have sp: "entry_packet slot = x"
    by (simp add: entry_packet_def slot_def x u take_buf_put_0 ucast_up_down)
  have last: "media_slot r' ?n = slot"
    using ib k(3,4) by (simp add: media_slot_def r'(2))
  have keep: "media_slot r' i = media_slot r i" if "i < ?n" for i
  proof -
    have uni: "unat (sr_head r - (sr_tail r + word_of_nat i)) = ?n - i"
    proof -
      have e: "sr_head r - (sr_tail r + word_of_nat i) = (sr_head r - sr_tail r) - word_of_nat i" by simp
      have i: "unat (word_of_nat i :: u64) = i" using that n le by (simp add: unat_of_nat)
      have "unat ((sr_head r - sr_tail r) - word_of_nat i) = ?n - unat (word_of_nat i :: u64)"
        by (rule unat_sub) (use i that in \<open>simp add: word_le_nat_alt\<close>)
      then show ?thesis by (simp only: e i)
    qed
    have "?i \<noteq> unat ((sr_tail r + word_of_nat i) AND (2 ^ k - 1))"
      by (rule index64_distinct [OF k(1)]) (use uni that n in simp_all)
    then show ?thesis using k(3) by (simp add: media_slot_def r'(2))
  qed
  have "media_contents r' = map (\<lambda>i. entry_packet (media_slot r' i)) [0..<Suc ?n]"
    using n1 by (simp add: media_contents_def r'(2) del: upt_Suc)
  then have "media_contents r' = media_contents r @ [x]"
    using keep by (simp add: last sp media_contents_def)
  moreover have "length (sr_entries r') = 2 ^ k" "sr_size r' = 2 ^ k" "sr_mask r' = 2 ^ k - 1"
    using k by (simp_all add: r'(2))
  moreover have "sr_head r' - sr_tail r' \<le> sr_size r'"
    using n1 n k(1,2) by (simp add: r'(2) word_le_nat_alt pow2_u64)
  moreover have "\<forall>e \<in> set (sr_entries r'). length (e_sess e) = NGX_RTC_RING_MAX_SESSIONS \<and> length (e_rtp e) = NGX_RTC_RING_RTP_MAX"
  proof
    fix e assume "e \<in> set (sr_entries r')"
    then consider "e = slot" | "e \<in> set (sr_entries r)" by (auto simp: r'(2) dest: set_update_subset_insert [THEN subsetD])
    then show "length (e_sess e) = NGX_RTC_RING_MAX_SESSIONS \<and> length (e_rtp e) = NGX_RTC_RING_RTP_MAX"
      using wf k(6) [OF ib] l by cases (auto simp: media_wf_def slot_def)
  qed
  ultimately show ?thesis using k(1) unfolding media_wf_def by blast
qed

lemma media_deq_step:
  assumes wf: "media_wf r" and d: "media_deq r = Some (x, r')"
  shows "media_wf r' \<and> media_contents r = x # media_contents r'"
proof -
  from wf obtain k where k: "k \<le> 32" "sr_size r = 2 ^ k" "sr_mask r = 2 ^ k - 1" "length (sr_entries r) = 2 ^ k"
    "unat (sr_head r - sr_tail r) \<le> 2 ^ k" using media_wfE by blast
  have ne: "sr_head r \<noteq> sr_tail r" and r': "r' = r\<lparr>sr_tail := sr_tail r + 1\<rparr>" and x: "x = entry_packet (media_slot r 0)"
    using d by (auto simp: media_deq_def ngx_rtc_shm_ring_dequeue_def media_slot_def Let_def split: if_splits)
  let ?n = "unat (sr_head r - sr_tail r)"
  have "sr_head r - sr_tail r \<noteq> 0" using ne by simp
  then have pos: "0 < ?n" by (metis gr0I unat_eq_zero)
  have n1: "unat (sr_head r - (sr_tail r + 1)) = ?n - 1"
  proof -
    have "sr_head r - (sr_tail r + 1) = (sr_head r - sr_tail r) - 1" by simp
    then show ?thesis using unat_pred64 [OF pos] by (simp only:)
  qed
  have "media_contents r = map (\<lambda>i. entry_packet (media_slot r i)) (0 # [1..<?n])"
    using pos by (simp add: media_contents_def upt_conv_Cons)
  also have "[1..<?n] = map Suc [0..<?n - 1]" using pos by (simp add: map_Suc_upt)
  finally have "media_contents r = x # map (\<lambda>i. entry_packet (media_slot r (Suc i))) [0..<?n - 1]" by (simp add: x)
  moreover have "media_slot r' i = media_slot r (Suc i)" for i
    by (simp add: media_slot_def r' add.assoc)
  ultimately have "media_contents r = x # media_contents r'" using n1 by (simp add: media_contents_def r')
  moreover have "media_wf r'"
    using wf n1 pos k(1,2,5) unfolding media_wf_def by (auto simp: r' word_le_nat_alt pow2_u64)
  ultimately show ?thesis by blast
qed

lemma media_deq_None: "media_wf r \<Longrightarrow> media_deq r = None \<longleftrightarrow> media_contents r = []"
proof -
  have "media_deq r = None \<longleftrightarrow> sr_head r = sr_tail r"
    by (auto simp: media_deq_def ngx_rtc_shm_ring_dequeue_def Let_def)
  also have "\<dots> \<longleftrightarrow> unat (sr_head r - sr_tail r) = 0" by (metis eq_iff_diff_eq_0 unat_eq_zero)
  also have "\<dots> \<longleftrightarrow> media_contents r = []" by (simp add: media_contents_def)
  finally show ?thesis .
qed

interpretation mrg: fifo media_wf media_contents media_valid media_enq media_deq
proof unfold_locales
  fix r x r' assume "media_wf r" "media_valid r x" "media_enq x r = Some r'"
  then show "media_wf r'" "media_contents r' = media_contents r @ [x]" by (simp_all add: media_enq_step)
qed (auto dest: media_deq_step simp: media_deq_None media_valid_def)

definition smear64 :: "u64 \<Rightarrow> u64" where
  "smear64 v =
     (let v = v OR drop_bit 1 v; v = v OR drop_bit 2 v; v = v OR drop_bit 4 v; v = v OR drop_bit 8 v; v = v OR drop_bit 16 v
      in v OR drop_bit 32 v)"

lemma bit_smear64: "bit (smear64 w) i \<longleftrightarrow> (\<exists>j<64. bit w (i + j))"
proof -
  have s0: "\<And>i. bit w i \<longleftrightarrow> (\<exists>j<1. bit w (i + j))" by simp
  note s1 = smear_step [OF s0]
  note s2 = smear_step [OF s1]
  note s3 = smear_step [OF s2]
  note s4 = smear_step [OF s3]
  note s5 = smear_step [OF s4]
  note s6 = smear_step [OF s5]
  show ?thesis using s6 by (simp add: smear64_def Let_def)
qed

lemma shm_next_pow2_exact:
  assumes v: "0 < unat v" "unat v \<le> 2 ^ n" "2 ^ n < 2 * unat v" and n: "n \<le> 63"
  shows "ngx_rtc_shm_ring_next_pow2 v = 2 ^ n"
proof -
  have "ngx_rtc_shm_ring_next_pow2 v = smear64 (v - 1) + 1"
    by (simp add: ngx_rtc_shm_ring_next_pow2_def smear64_def Let_def)
  also have "\<dots> = 2 ^ n" by (rule smeared_pow2 [OF _ v]) (use n in \<open>simp_all add: bit_smear64\<close>)
  finally show ?thesis .
qed

lemma media_init:
  assumes "ngx_rtc_shm_ring_init E (Some mem) n = (Some (a, r), mem')" "unat n \<le> 2 ^ 32"
  shows "media_wf r \<and> media_contents r = [] \<and> unat n \<le> unat (sr_size r) \<and> unat (sr_size r) < 2 * unat n"
proof -
  have nz: "n \<noteq> 0" using assms(1) by (auto simp: ngx_rtc_shm_ring_init_def)
  then have "0 < unat n" by (metis gr0I unat_eq_zero)
  then obtain k where k: "k \<le> 32" "unat n \<le> 2 ^ k" "2 ^ k < 2 * unat n" using pow2_band assms(2) by blast
  have cap: "ngx_rtc_shm_ring_next_pow2 n = 2 ^ k" using shm_next_pow2_exact [OF \<open>0 < unat n\<close> k(2,3)] k(1) by simp
  have r: "r = \<lparr>sr_head = 0, sr_tail = 0, sr_size = 2 ^ k, sr_mask = 2 ^ k - 1, sr_entries = replicate (2 ^ k) ring_entry_zero\<rparr>"
    using assms(1) nz cap k(1) by (auto simp: ngx_rtc_shm_ring_init_def Let_def pow2_u64 split: option.splits prod.splits)
  have "media_wf r" unfolding media_wf_def using k(1) by (auto simp: r ring_entry_zero_def)
  then show ?thesis using k by (simp add: r media_contents_def pow2_u64)
qed

text \<open>
  C18. The media ring between workers neither loses, duplicates, reorders nor mixes packets: on a ring made
  by \<^verbatim>\<open>ngx_rtc_shm_ring_init\<close>, under every interleaving of the producers' enqueues with the owner's
  dequeues, the accepted packets are exactly those delivered followed by those still queued, each with its
  medium, GOP flag, payload and session ids whole, across the wrap-around of head and tail.
\<close>

theorem shm_ring_fifo:
  assumes "ngx_rtc_shm_ring_init E (Some mem) n = (Some (a, r), mem')" "unat n \<le> 2 ^ 32"
    and "\<forall>x. Some x \<in> set ops \<longrightarrow> media_valid r x"
    and "fifo_run media_enq media_deq ops r = (ins, outs, r')"
  shows "ins = outs @ media_contents r' \<and> length (media_contents r') \<le> unat (sr_size r')"
proof -
  have "media_wf r' \<and> media_contents r @ ins = outs @ media_contents r'"
    using mrg.run_fifo [of r ops ins outs r'] media_init [OF assms(1,2)] assms(3,4) by blast
  then show ?thesis
    using media_init [OF assms(1,2)] by (auto simp: media_contents_def media_wf_def word_le_nat_alt)
qed

definition demo_shm_env :: "nat shm_env" where
  "demo_shm_env = \<lparr>slab_alloc = \<lambda>req m. (Some m, Suc m), slab_free = \<lambda>p m. m, now_msec = 0, random_ssrc = (1, 2), clock_us = (0, 0)\<rparr>"

theorem shm_ring_fifo_witness:
  "\<exists>a r mem' ins outs r'. ngx_rtc_shm_ring_init demo_shm_env (Some 0) 2 = (Some (a, r), mem') \<and> sr_size r = 2
     \<and> fifo_run media_enq media_deq [Some (0, 1, [7], [1]), Some (1, 0, [9], [2, 3]), Some (0, 0, [8], [4]), None] r = (ins, outs, r')
     \<and> ins = outs @ media_contents r'"
proof -
  let ?ops = "[Some (0, 1, [7], [1]), Some (1, 0, [9], [2, 3]), Some (0, 0, [8], [4]), None] :: media_packet option list"
  have p: "ngx_rtc_shm_ring_next_pow2 2 = 2" by code_simp
  have rep: "replicate 2 ring_entry_zero = [ring_entry_zero, ring_entry_zero]" by (simp add: numeral_2_eq_2)
  define r where "r = \<lparr>sr_head = 0, sr_tail = 0, sr_size = 2, sr_mask = 1, sr_entries = [ring_entry_zero, ring_entry_zero]\<rparr>"
  have init: "ngx_rtc_shm_ring_init demo_shm_env (Some 0) 2 = (Some (0, r), Some 1)"
    using rep by (simp add: ngx_rtc_shm_ring_init_def p demo_shm_env_def r_def)
  have v: "\<forall>x. Some x \<in> set ?ops \<longrightarrow> media_valid r x" by (auto simp: media_valid_def)
  obtain ins outs r' where run: "fifo_run media_enq media_deq ?ops r = (ins, outs, r')" by (cases "fifo_run media_enq media_deq ?ops r")
  have "ins = outs @ media_contents r'" using shm_ring_fifo [OF init _ v run] by simp
  moreover have "sr_size r = 2" by (simp add: r_def)
  ultimately show ?thesis using init run by blast
qed

section \<open>The retransmit ring serves the latest packets and replays the keyframe\<close>

text \<open>The index of the latest GOP start, 0 when there is none yet.\<close>

definition last_gop :: "(bytes \<times> bool) list \<Rightarrow> nat" where
  "last_gop ps = (if \<exists>x \<in> set ps. snd x then length ps - 1 - length (takeWhile (\<lambda>x. \<not> snd x) (rev ps)) else 0)"

lemma last_gop_Nil [simp]: "last_gop [] = 0"
  by (simp add: last_gop_def)

lemma last_gop_snoc [simp]: "last_gop (ps @ [x]) = (if snd x then length ps else last_gop ps)"
  by (auto simp: last_gop_def)

lemma last_gop_less: "ps \<noteq> [] \<Longrightarrow> last_gop ps < length ps"
  by (auto simp: last_gop_def)

definition slot_holds :: "retransmit_slot \<Rightarrow> bytes \<times> bool \<Rightarrow> bool" where
  "slot_holds s x \<longleftrightarrow> take (length (fst x)) (rs_data s) = fst x \<and> rs_len s = word_of_nat (length (fst x))
     \<and> rs_gop_start s = snd x"

text \<open>A ring represents the list of all packets appended since it was reset.\<close>

definition retx_rep :: "ngx_rtc_shm_retransmit \<Rightarrow> (bytes \<times> bool) list \<Rightarrow> bool" where
  "retx_rep r ps \<longleftrightarrow> length (rx_slots r) = 1024 \<and> rx_cap r = 1024
     \<and> rx_head r = word_of_nat (length ps) \<and> rx_count r = word_of_nat (min (length ps) 1024)
     \<and> rx_gop_start r = word_of_nat (last_gop ps)
     \<and> (\<forall>s \<in> set (rx_slots r). length (rs_data s) = NGX_RTC_RING_RTP_MAX)
     \<and> (\<forall>i < length ps. length ps \<le> i + 1024 \<longrightarrow> slot_holds (rx_slots r ! (i mod 1024)) (ps ! i))"

definition retx_packet :: "bytes \<times> bool \<Rightarrow> bool" where
  "retx_packet x \<longleftrightarrow> 4 \<le> length (fst x) \<and> length (fst x) \<le> NGX_RTC_RING_RTP_MAX"

lemma retx_index: "unat (x AND 1023 :: u64) = unat x mod 1024"
  using ring_index64 [of 10 x] by simp

lemma unat_u64_of_nat: "n < 2 ^ 63 \<Longrightarrow> unat (word_of_nat n :: u64) = n"
  by (simp add: unat_of_nat)

lemma retx_store_rep:
  assumes rep: "retx_rep r ps" and p: "retx_packet (p, g)" and n: "length ps < 2 ^ 62"
  shows "retx_rep (retx_store p (length p) g r) (ps @ [(p, g)])"
proof -
  let ?n = "length ps" and ?i = "length ps mod 1024"
  from rep have sl: "length (rx_slots r) = 1024" "rx_cap r = 1024" "rx_head r = word_of_nat ?n"
    "rx_count r = word_of_nat (min ?n 1024)" "rx_gop_start r = word_of_nat (last_gop ps)"
    "\<And>s. s \<in> set (rx_slots r) \<Longrightarrow> length (rs_data s) = NGX_RTC_RING_RTP_MAX"
    "\<And>i. i < ?n \<Longrightarrow> ?n \<le> i + 1024 \<Longrightarrow> slot_holds (rx_slots r ! (i mod 1024)) (ps ! i)"
    by (auto simp: retx_rep_def)
  have idx: "unat (rx_head r AND (rx_cap r - 1)) = ?i"
    using n by (simp add: sl(2,3) retx_index unat_u64_of_nat)
  define slot where "slot = (rx_slots r ! ?i)\<lparr>rs_data := buf_put 0 p (rs_data (rx_slots r ! ?i)), rs_len := word_of_nat (length p), rs_gop_start := g\<rparr>"
  have cnt: "rx_count r < rx_cap r \<longleftrightarrow> ?n < 1024"
    using n by (auto simp: sl(2,4) word_less_nat_alt unat_of_nat)
  have st: "retx_store p (length p) g r = r\<lparr>rx_slots := (rx_slots r)[?i := slot], rx_gop_start := (if g then rx_head r else rx_gop_start r),
      rx_head := rx_head r + 1, rx_count := (if ?n < 1024 then rx_count r + 1 else rx_count r)\<rparr>"
    using cnt idx by (simp add: retx_store_def Let_def slot_def)
  have sd: "length (rs_data (rx_slots r ! ?i)) = NGX_RTC_RING_RTP_MAX" using sl(1,6) by simp
  have lp: "length p \<le> 1500" using p by (simp add: retx_packet_def)
  have sh: "slot_holds slot (p, g)" by (simp add: slot_holds_def slot_def take_buf_put_0)
  show ?thesis
    unfolding retx_rep_def st
  proof (intro conjI allI impI ballI)
    fix s assume "s \<in> set (rx_slots (r\<lparr>rx_slots := (rx_slots r)[?i := slot], rx_gop_start := (if g then rx_head r else rx_gop_start r),
      rx_head := rx_head r + 1, rx_count := (if ?n < 1024 then rx_count r + 1 else rx_count r)\<rparr>))"
    then have "s = slot \<or> s \<in> set (rx_slots r)" by (auto dest: set_update_subset_insert [THEN subsetD])
    then show "length (rs_data s) = NGX_RTC_RING_RTP_MAX" using sl(6) sd lp by (auto simp: slot_def)
  next
    fix i assume i: "i < length (ps @ [(p, g)])" "length (ps @ [(p, g)]) \<le> i + 1024"
    have "slot_holds ((rx_slots r)[?i := slot] ! (i mod 1024)) ((ps @ [(p, g)]) ! i)"
    proof (cases "i = ?n")
      case True
      then show ?thesis using sl(1) sh by simp
    next
      case False
      then have "i < ?n" using i(1) by simp
      moreover have "i mod 1024 \<noteq> ?i"
      proof
        assume "i mod 1024 = ?i"
        then have "1024 dvd ?n - i" using \<open>i < ?n\<close> by (metis mod_eq_dvd_iff_nat less_imp_le_nat)
        then show False using \<open>i < ?n\<close> i(2) by (auto dest: dvd_imp_le)
      qed
      ultimately show ?thesis using sl(7) [of i] i(2) by (simp add: nth_append)
    qed
    then show "slot_holds (rx_slots (r\<lparr>rx_slots := (rx_slots r)[?i := slot], rx_gop_start := (if g then rx_head r else rx_gop_start r),
      rx_head := rx_head r + 1, rx_count := (if ?n < 1024 then rx_count r + 1 else rx_count r)\<rparr>) ! (i mod 1024)) ((ps @ [(p, g)]) ! i)"
      by simp
  qed (use sl in \<open>simp_all add: min_def\<close>)
qed

lemma retx_rep_start:
  assumes rep: "retx_rep r ps" and n: "length ps < 2 ^ 62" and ne: "ps \<noteq> []"
  shows "rx_count r \<noteq> 0" "rx_head r - rx_count r = word_of_nat (length ps - 1024)"
    "unat (rx_count r) = min (length ps) 1024" "unat (rx_head r) = length ps" "unat (rx_head r - rx_count r) = length ps - 1024"
    "unat (rx_gop_start r) = last_gop ps"
proof -
  have h: "rx_head r = word_of_nat (length ps)" "rx_count r = word_of_nat (min (length ps) 1024)" "rx_gop_start r = word_of_nat (last_gop ps)"
    using rep by (simp_all add: retx_rep_def)
  have "min (length ps) 1024 < 2 ^ 63" by (simp add: min_def)
  then show c: "unat (rx_count r) = min (length ps) 1024" unfolding h(2) by (rule unat_u64_of_nat)
  then show "rx_count r \<noteq> 0" using ne by (auto simp: unat_eq_zero [symmetric] simp del: unat_eq_zero)
  show s: "rx_head r - rx_count r = word_of_nat (length ps - 1024)" unfolding h by (simp add: min_def of_nat_diff)
  show "unat (rx_head r) = length ps" unfolding h(1) using n by (intro unat_u64_of_nat) simp
  show "unat (rx_head r - rx_count r) = length ps - 1024" unfolding s using n by (intro unat_u64_of_nat) simp
  show "unat (rx_gop_start r) = last_gop ps" unfolding h(3) using n last_gop_less [OF ne] by (intro unat_u64_of_nat) simp
qed

definition packet_marker :: "bytes \<times> bool \<Rightarrow> bool" where
  "packet_marker x \<longleftrightarrow> 12 < length (fst x) \<and> fst x ! 1 AND 0x80 \<noteq> 0"

text \<open>A list of packets up to and including the first one with the marker bit.\<close>

primrec until_marker :: "(bytes \<times> bool) list \<Rightarrow> (bytes \<times> bool) list" where
  "until_marker [] = []"
| "until_marker (x # xs) = x # (if packet_marker x then [] else until_marker xs)"

definition slot_packet :: "retransmit_slot \<Rightarrow> bytes \<times> bool" where
  "slot_packet s = (take (unat (rs_len s)) (rs_data s), rs_gop_start s)"

lemma slot_holds_packet:
  assumes "slot_holds s x" "retx_packet x"
  shows "slot_packet s = x" "retx_marker s = packet_marker x"
proof -
  have l: "unat (rs_len s) = length (fst x)" using assms by (simp add: slot_holds_def retx_packet_def unat_of_nat)
  then show "slot_packet s = x" using assms(1) by (cases x) (simp add: slot_packet_def slot_holds_def)
  have "rs_data s ! 1 = fst x ! 1"
    using assms nth_take [of 1 "length (fst x)" "rs_data s"] by (simp add: slot_holds_def retx_packet_def)
  then show "retx_marker s = packet_marker x"
    using l by (simp add: retx_marker_def packet_marker_def word_less_nat_alt)
qed

lemma retx_copy_upto:
  assumes rep: "retx_rep r ps" and n: "length ps < 2 ^ 62" and v: "\<forall>x \<in> set ps. retx_packet x"
    and i: "i + k = length ps" "length ps \<le> i + 1024"
  shows "map slot_packet (retx_copy k r (word_of_nat i) buf) = map slot_packet buf @ until_marker (drop i ps)"
    "length (retx_copy k r (word_of_nat i) buf) \<le> length buf + k"
    "k = 0 \<or> (\<exists>ss s. retx_copy k r (word_of_nat i) buf = buf @ ss @ [s] \<and> (\<forall>t \<in> set ss. \<not> retx_marker t))"
  using i
proof (induction k arbitrary: i buf)
  case (Suc k)
  {
    case 1
    let ?s = "rx_slots r ! (i mod 1024)"
    have il: "i < length ps" using 1 by simp
    have ix: "unat ((word_of_nat i :: u64) AND (rx_cap r - 1)) = i mod 1024"
      using n il rep by (simp add: retx_index unat_u64_of_nat retx_rep_def)
    have s: "slot_holds ?s (ps ! i)" using rep 1 by (simp add: retx_rep_def)
    have sp: "slot_packet ?s = ps ! i" "retx_marker ?s = packet_marker (ps ! i)"
      using slot_holds_packet [OF s] v il by simp_all
    have d: "drop i ps = ps ! i # drop (Suc i) ps" using il by (rule Cons_nth_drop_Suc [symmetric])
    have IH: "map slot_packet (retx_copy k r (word_of_nat (Suc i)) (buf @ [?s])) = map slot_packet (buf @ [?s]) @ until_marker (drop (Suc i) ps)"
      using Suc.IH(1) [of "Suc i" "buf @ [?s]"] 1 by simp
    show ?case using IH by (simp add: ix Let_def sp d add.commute [of _ 1])
  next
    case 2
    then show ?case using Suc.IH(2) [of "Suc i" "buf @ [rx_slots r ! unat ((word_of_nat i :: u64) AND (rx_cap r - 1))]"]
      by (simp add: Let_def add.commute [of _ 1])
  next
    case 3
    let ?s = "rx_slots r ! unat ((word_of_nat i :: u64) AND (rx_cap r - 1))"
    show ?case
    proof (cases "retx_marker ?s \<or> k = 0")
      case True
      then show ?thesis by (intro disjI2 exI [of _ "[]"] exI [of _ ?s]) (auto simp: Let_def)
    next
      case False
      then obtain ss s where "retx_copy k r (word_of_nat (Suc i)) (buf @ [?s]) = (buf @ [?s]) @ ss @ [s]" "\<forall>t \<in> set ss. \<not> retx_marker t"
        using Suc.IH(3) [of "Suc i" "buf @ [?s]"] 3 by auto
      then show ?thesis using False
        by (intro disjI2 exI [of _ "?s # ss"] exI [of _ s]) (simp add: Let_def add.commute [of _ 1])
    qed
  }
qed (auto simp: retx_rep_def)

text \<open>A callback that accepts everything is handed the whole copy.\<close>

lemma retx_replay_all:
  assumes "\<And>op d l g. fst (cb op d l g) = NGX_OK" "\<forall>t \<in> set ss. \<not> retx_marker t"
  shows "retx_replay cb (ss @ [s]) op = fold (\<lambda>s op. snd (cb op (rs_data s) (rs_len s) (rs_gop_start s))) (ss @ [s]) op"
  using assms(2)
proof (induction ss arbitrary: op)
  case Nil
  show ?case using assms(1) [of op "rs_data s" "rs_len s" "rs_gop_start s"]
    by (cases "cb op (rs_data s) (rs_len s) (rs_gop_start s)") simp
next
  case (Cons t ss)
  then show ?case using assms(1) [of op "rs_data t" "rs_len t" "rs_gop_start t"]
    by (cases "cb op (rs_data t) (rs_len t) (rs_gop_start t)") simp
qed


definition fresh_retx :: ngx_rtc_shm_retransmit where
  "fresh_retx = \<lparr>rx_head = 0, rx_count = 0, rx_gop_start = 0, rx_cap = NGX_RTC_SHM_RETX_RING_CAP, rx_slots = replicate 1024 retx_slot_zero\<rparr>"

lemma fresh_retx_rep: "retx_rep fresh_retx []"
  by (simp add: retx_rep_def fresh_retx_def retx_slot_zero_def)

lemma retx_store_all_rep:
  assumes "retx_rep r qs" "\<forall>x \<in> set ps. retx_packet x" "length (qs @ ps) < 2 ^ 62"
  shows "retx_rep (fold (\<lambda>(p, g). retx_store p (length p) g) ps r) (qs @ ps)"
  using assms
proof (induction ps arbitrary: r qs)
  case (Cons x ps)
  obtain p g where x: "x = (p, g)" by fastforce
  have "retx_rep (retx_store p (length p) g r) (qs @ [(p, g)])"
    using retx_store_rep [OF Cons.prems(1)] Cons.prems(2,3) x by simp
  from Cons.IH [OF this] show ?case using Cons.prems(2,3) x by simp
qed simp

lemma retx_gop_spec:
  assumes rep: "retx_rep r ps" and n: "length ps < 2 ^ 62" and v: "\<forall>x \<in> set ps. retx_packet x" and ne: "ps \<noteq> []"
  shows "map slot_packet (retx_gop r) = until_marker (drop (max (last_gop ps) (length ps - 1024)) ps)"
    "length (retx_gop r) \<le> 1024"
    "\<exists>ss s. retx_gop r = ss @ [s] \<and> (\<forall>t \<in> set ss. \<not> retx_marker t)"
proof -
  note st = retx_rep_start [OF rep n ne]
  let ?m = "max (last_gop ps) (length ps - 1024)"
  have lt: "?m < length ps" using last_gop_less [OF ne] ne by simp
  define start where "start = (if rx_gop_start r > rx_head r - rx_count r then rx_gop_start r else rx_head r - rx_count r)"
  have us: "unat start = ?m"
    using st(5,6) by (auto simp: start_def word_less_nat_alt max_def)
  have sm: "start = word_of_nat ?m" unfolding us [symmetric] by simp
  have lh: "start < rx_head r" using us lt st(4) by (simp add: word_less_nat_alt)
  have k: "unat (rx_head r - start) = length ps - ?m"
    using unat_sub [OF less_imp_le [OF lh]] us st(4) by simp
  have g: "retx_gop r = retx_copy (length ps - ?m) r (word_of_nat ?m) []"
    using st(1) lh k sm by (simp add: retx_gop_def Let_def start_def [symmetric])
  have i: "?m + (length ps - ?m) = length ps" "length ps \<le> ?m + 1024" using lt by auto
  note c = retx_copy_upto [OF rep n v i, of "[]"]
  show "map slot_packet (retx_gop r) = until_marker (drop ?m ps)" using c(1) by (simp add: g)
  show "length (retx_gop r) \<le> 1024" using c(2) i by (simp add: g)
  show "\<exists>ss s. retx_gop r = ss @ [s] \<and> (\<forall>t \<in> set ss. \<not> retx_marker t)" using c(3) lt by (simp add: g)
qed

text \<open>The callback of the claim collects what it is handed.\<close>

definition retx_collect :: "(bytes \<times> bool) list \<Rightarrow> bytes \<Rightarrow> u16 \<Rightarrow> bool \<Rightarrow> int \<times> (bytes \<times> bool) list" where
  "retx_collect got data n g = (NGX_OK, got @ [(take (unat n) data, g)])"

lemma retx_collect_fold:
  "fold (\<lambda>s op. snd (retx_collect op (rs_data s) (rs_len s) (rs_gop_start s))) ss got = got @ map slot_packet ss"
  by (induction ss arbitrary: got) (simp_all add: retx_collect_def slot_packet_def)

text \<open>A lookup.\<close>

definition retx_numbered :: "u16 \<Rightarrow> (bytes \<times> bool) list \<Rightarrow> bool" where
  "retx_numbered s0 ps \<longleftrightarrow> (\<forall>i < length ps. ngx_rtc_shm_retx_seq (fst (ps ! i)) = s0 + word_of_nat i)"

lemma slot_holds_seq:
  assumes "slot_holds s x" "retx_packet x"
  shows "ngx_rtc_shm_retx_seq (rs_data s) = ngx_rtc_shm_retx_seq (fst x)"
  using assms nth_take [of 2 "length (fst x)" "rs_data s"] nth_take [of 3 "length (fst x)" "rs_data s"]
  by (simp add: slot_holds_def retx_packet_def ngx_rtc_shm_retx_seq_def)

lemma retx_lookup_spec:
  assumes rep: "retx_rep r ps" and n: "length ps < 2 ^ 62" and v: "\<forall>x \<in> set ps. retx_packet x" and num: "retx_numbered s0 ps"
    and ne: "ps \<noteq> []"
  defines "old \<equiv> length ps - 1024"
  shows "retx_lookup r q cap =
     (let j = old + unat (q - (s0 + word_of_nat old))
      in if j < length ps \<and> length (fst (ps ! j)) \<le> cap then Some (fst (ps ! j), word_of_nat (length (fst (ps ! j)))) else None)"
proof -
  note st = retx_rep_start [OF rep n ne, folded old_def]
  let ?d = "unat (q - (s0 + word_of_nat old))"
  have oldb: "old < length ps" "length ps \<le> old + 1024" using ne by (auto simp: old_def)
  have hold: "slot_holds (rx_slots r ! (i mod 1024)) (ps ! i)" "retx_packet (ps ! i)" if "old \<le> i" "i < length ps" for i
    using rep v that oldb by (auto simp: retx_rep_def)
  have cap: "rx_cap r - 1 = 1023" using rep by (simp add: retx_rep_def)
  have i0: "unat ((rx_head r - rx_count r) AND (rx_cap r - 1)) = old mod 1024"
    by (simp only: cap retx_index st(5))
  have s0: "ngx_rtc_shm_retx_seq (rs_data (rx_slots r ! (old mod 1024))) = s0 + word_of_nat old"
    using slot_holds_seq [OF hold [of old]] num oldb by (simp add: retx_numbered_def)
  have ud: "unat (ucast (q - (s0 + word_of_nat old)) :: u64) = ?d"
    using unat_u16_less [of "q - (s0 + word_of_nat old)"] by (simp add: unsigned_ucast_eq take_bit_nat_eq_self)
  have lt: "ucast (q - (s0 + word_of_nat old)) < rx_count r \<longleftrightarrow> old + ?d < length ps"
    unfolding word_less_nat_alt ud st(3) by (auto simp: old_def)
  have i1: "unat (((rx_head r - rx_count r) + ucast (q - (s0 + word_of_nat old))) AND (rx_cap r - 1)) = (old + ?d) mod 1024"
  proof -
    have "(rx_head r - rx_count r) + ucast (q - (s0 + word_of_nat old)) = word_of_nat (old + ?d)" unfolding st(2) by simp
    moreover have "unat (word_of_nat (old + ?d) :: u64) = old + ?d"
      using n oldb unat_u16_less [of "q - (s0 + word_of_nat old)"] by (intro unat_u64_of_nat) simp
    ultimately show ?thesis by (simp only: cap retx_index)
  qed
  show ?thesis
  proof (cases "old + ?d < length ps")
    case True
    let ?s = "rx_slots r ! ((old + ?d) mod 1024)"
    note h = hold [of "old + ?d", OF _ True, simplified]
    have sq: "ngx_rtc_shm_retx_seq (rs_data ?s) = q" using slot_holds_seq [OF h] num True by (simp add: retx_numbered_def)
    have l: "unat (rs_len ?s) = length (fst (ps ! (old + ?d)))" "rs_len ?s = word_of_nat (length (fst (ps ! (old + ?d))))"
      "take (length (fst (ps ! (old + ?d)))) (rs_data ?s) = fst (ps ! (old + ?d))"
      using h by (simp_all add: slot_holds_def retx_packet_def unat_of_nat)
    show ?thesis using True st(1) lt sq l by (simp add: retx_lookup_def Let_def i0 i1 s0)
  next
    case False
    then show ?thesis using st(1) lt by (simp add: retx_lookup_def Let_def i0 s0)
  qed
qed




end
