(* ===== verification/ShmSafe.thy ===== *)
theory ShmSafe
  imports ShmRing
begin

text \<open>
  What the shared-memory registry guarantees to all workers together: no operation of any
  worker, in any order, follows a pointer to freed memory, and publish ownership of a name is
  exclusive. The one exception, an allocation failure in the middle of
  \<^verbatim>\<open>ngx_rtc_shm_session_add\<close>, is proved to be one.
\<close>

section \<open>The invariant of the zone\<close>

definition ring_addr :: "ngx_rtc_shm_source \<Rightarrow> nat option" where
  "ring_addr s = map_option fst (shs_retransmit s)"

text \<open>The allocator hands out addresses that are not in use; \<open>live\<close> are those in use.\<close>

definition slab_sound :: "('m \<Rightarrow> nat set) \<Rightarrow> 'm shm_env \<Rightarrow> bool" where
  "slab_sound live E \<longleftrightarrow>
     (\<forall>req m p m'. slab_alloc E req m = (Some p, m') \<longrightarrow> p \<notin> live m \<and> live m' = insert p (live m))
   \<and> (\<forall>req m m'. slab_alloc E req m = (None, m') \<longrightarrow> live m' = live m)
   \<and> (\<forall>p m. p \<in> live m \<longrightarrow> live (slab_free E p m) = live m - {p})"

definition src_linked :: "'m ngx_rtc_shm_ctx \<Rightarrow> nat \<Rightarrow> nat set" where
  "src_linked c q = {p. \<exists>t. sess_heap c p = Some t \<and> she_source t = Some q \<and> she_linked t}"

definition lists_ok :: "'m ngx_rtc_shm_ctx \<Rightarrow> bool" where
  "lists_ok c \<longleftrightarrow> distinct (source_tree c) \<and> set (source_tree c) = dom (src_heap c)
     \<and> distinct (source_list c) \<and> set (source_list c) = dom (src_heap c)
     \<and> distinct (session_list c) \<and> set (session_list c) = dom (sess_heap c)"

definition source_ok :: "'m ngx_rtc_shm_ctx \<Rightarrow> nat \<Rightarrow> ngx_rtc_shm_source \<Rightarrow> bool" where
  "source_ok c q s \<longleftrightarrow> distinct (shs_subscribers s) \<and> set (shs_subscribers s) = src_linked c q"

definition session_ok :: "'m ngx_rtc_shm_ctx \<Rightarrow> ngx_rtc_shm_session \<Rightarrow> bool" where
  "session_ok c t \<longleftrightarrow> (\<exists>q. she_source t = Some q \<and> q \<in> dom (src_heap c))
     \<and> (she_linked t \<longrightarrow> she_srtp_ready t \<noteq> 0 \<and> she_owner_slot t \<noteq> - 1 \<and> she_publishing t = 0)"

definition names_ok :: "'m ngx_rtc_shm_ctx \<Rightarrow> bool" where
  "names_ok c \<longleftrightarrow> (\<forall>q q' s s'. src_heap c q = Some s \<longrightarrow> src_heap c q' = Some s' \<longrightarrow> source_key s = source_key s' \<longrightarrow> q = q')"

text \<open>Every slab block belongs to one owner and is in use.\<close>

definition blocks_ok :: "nat set \<Rightarrow> 'm ngx_rtc_shm_ctx \<Rightarrow> bool" where
  "blocks_ok L c \<longleftrightarrow> dom (src_heap c) \<subseteq> L \<and> dom (sess_heap c) \<subseteq> L \<and> dom (src_heap c) \<inter> dom (sess_heap c) = {}
     \<and> (\<forall>q s a. src_heap c q = Some s \<longrightarrow> ring_addr s = Some a \<longrightarrow>
          a \<in> L \<and> a \<notin> dom (src_heap c) \<and> a \<notin> dom (sess_heap c)
          \<and> (\<forall>q' s'. src_heap c q' = Some s' \<longrightarrow> ring_addr s' = Some a \<longrightarrow> q' = q))"

lemma blocks_ring:
  assumes "blocks_ok L c" "src_heap c q = Some s" "ring_addr s = Some a"
  shows "a \<in> L" "a \<notin> dom (src_heap c)" "a \<notin> dom (sess_heap c)"
    "src_heap c q' = Some s' \<Longrightarrow> ring_addr s' = Some a \<Longrightarrow> q' = q"
  using assms unfolding blocks_ok_def by blast+

text \<open>The blocks after the blocks \<open>F\<close> were given back.\<close>

lemma blocks_ok_sub:
  assumes b: "blocks_ok L c"
    and r: "\<And>x y. src_heap c' x = Some y \<Longrightarrow> \<exists>u. src_heap c x = Some u \<and> ring_addr u = ring_addr y"
    and t: "dom (sess_heap c') \<subseteq> dom (sess_heap c)" and l: "L - F \<subseteq> L'"
    and F: "F \<inter> dom (src_heap c') = {}" "F \<inter> dom (sess_heap c') = {}"
      "\<And>x y a. src_heap c' x = Some y \<Longrightarrow> ring_addr y = Some a \<Longrightarrow> a \<notin> F"
  shows "blocks_ok L' c'"
  unfolding blocks_ok_def
proof (intro conjI allI impI)
  have d: "dom (src_heap c') \<subseteq> dom (src_heap c)" using r by blast
  have bb: "dom (src_heap c) \<subseteq> L" "dom (sess_heap c) \<subseteq> L" "dom (src_heap c) \<inter> dom (sess_heap c) = {}"
    using b by (simp_all add: blocks_ok_def)
  show "dom (src_heap c') \<subseteq> L'" "dom (sess_heap c') \<subseteq> L'" "dom (src_heap c') \<inter> dom (sess_heap c') = {}"
    using bb d t l F(1,2) by blast+
  fix x y a assume a: "src_heap c' x = Some y" "ring_addr y = Some a"
  obtain u where u: "src_heap c x = Some u" "ring_addr u = Some a" using r [OF a(1)] a(2) by metis
  show "a \<in> L'" using blocks_ring(1) [OF b u] l F(3) [OF a] by blast
  show "a \<notin> dom (src_heap c')" "a \<notin> dom (sess_heap c')" using blocks_ring(2,3) [OF b u] d t by blast+
  fix x' y' assume a': "src_heap c' x' = Some y'" "ring_addr y' = Some a"
  obtain u' where "src_heap c x' = Some u'" "ring_addr u' = Some a" using r [OF a'(1)] a'(2) by metis
  then show "x' = x" by (rule blocks_ring(4) [OF b u])
qed

definition shm_inv :: "('m \<Rightarrow> nat set) \<Rightarrow> 'm ngx_rtc_shm_ctx \<Rightarrow> bool" where
  "shm_inv live c \<longleftrightarrow> lists_ok c \<and> (\<forall>q s. src_heap c q = Some s \<longrightarrow> source_ok c q s)
     \<and> (\<forall>p t. sess_heap c p = Some t \<longrightarrow> session_ok c t) \<and> names_ok c \<and> blocks_ok (live (pool c)) c"

lemma shm_invD:
  assumes "shm_inv live c"
  shows "lists_ok c" "\<And>q s. src_heap c q = Some s \<Longrightarrow> source_ok c q s" "\<And>p t. sess_heap c p = Some t \<Longrightarrow> session_ok c t"
    "names_ok c" "blocks_ok (live (pool c)) c"
  using assms by (simp_all add: shm_inv_def)

lemma shm_invI:
  assumes "lists_ok c" "\<And>q s. src_heap c q = Some s \<Longrightarrow> source_ok c q s" "\<And>p t. sess_heap c p = Some t \<Longrightarrow> session_ok c t"
    "names_ok c" "blocks_ok (live (pool c)) c"
  shows "shm_inv live c"
  using assms by (simp add: shm_inv_def)

section \<open>Searches\<close>

lemma tree_find_total:
  assumes "\<forall>q \<in> set qs. H q \<noteq> None"
  shows "\<exists>r. tree_find H key qs = Some r \<and>
    (case r of None \<Rightarrow> \<forall>q \<in> set qs. source_key (the (H q)) \<noteq> key | Some q \<Rightarrow> q \<in> set qs \<and> source_key (the (H q)) = key)"
  using assms
proof (induction qs)
  case (Cons q qs)
  then obtain s where s: "H q = Some s" by auto
  from Cons obtain r where r: "tree_find H key qs = Some r"
    "case r of None \<Rightarrow> \<forall>q \<in> set qs. source_key (the (H q)) \<noteq> key | Some q \<Rightarrow> q \<in> set qs \<and> source_key (the (H q)) = key" by auto
  show ?case
  proof (cases "source_key s = key")
    case True then show ?thesis by (simp add: s)
  next
    case False
    then show ?thesis using r by (intro exI [of _ r]) (auto simp: s split: option.splits)
  qed
qed simp

lemma session_find_total:
  assumes "\<forall>p \<in> set ps. H p \<noteq> None"
  shows "\<exists>r. session_find H P ps = Some r \<and>
    (case r of None \<Rightarrow> \<forall>p \<in> set ps. \<not> P (the (H p)) | Some p \<Rightarrow> p \<in> set ps \<and> P (the (H p)))"
  using assms
proof (induction ps)
  case (Cons p ps)
  then obtain s where s: "H p = Some s" by auto
  from Cons obtain r where r: "session_find H P ps = Some r"
    "case r of None \<Rightarrow> \<forall>p \<in> set ps. \<not> P (the (H p)) | Some p \<Rightarrow> p \<in> set ps \<and> P (the (H p))" by auto
  show ?case
  proof (cases "P s")
    case True then show ?thesis by (simp add: s)
  next
    case False
    then show ?thesis using r by (intro exI [of _ r]) (auto simp: s split: option.splits)
  qed
qed simp

lemma source_lookup_total:
  assumes "shm_inv live c"
  obtains (missing) "ngx_rtc_shm_source_locked_lookup c name = Some None" "\<And>q s. src_heap c q = Some s \<Longrightarrow> source_key s \<noteq> name"
  | (found) q s where "ngx_rtc_shm_source_locked_lookup c name = Some (Some q)" "src_heap c q = Some s" "source_key s = name"
proof -
  have set: "set (source_tree c) = dom (src_heap c)" using shm_invD(1) [OF assms] by (simp add: lists_ok_def)
  then have "\<forall>q \<in> set (source_tree c). src_heap c q \<noteq> None" by auto
  from tree_find_total [OF this, of name] obtain r where r: "ngx_rtc_shm_source_locked_lookup c name = Some r"
    "case r of None \<Rightarrow> \<forall>q \<in> set (source_tree c). source_key (the (src_heap c q)) \<noteq> name
       | Some q \<Rightarrow> q \<in> set (source_tree c) \<and> source_key (the (src_heap c q)) = name"
    by (auto simp: ngx_rtc_shm_source_locked_lookup_def)
  show thesis
  proof (cases r)
    case None
    have n: "source_key s \<noteq> name" if "src_heap c q = Some s" for q s
    proof -
      have "q \<in> set (source_tree c)" using that set by (simp add: domI)
      then have "source_key (the (src_heap c q)) \<noteq> name" using r(2) None by simp
      then show ?thesis using that by simp
    qed
    show thesis using r(1) None n by (intro missing) simp_all
  next
    case (Some q)
    then obtain s where "src_heap c q = Some s" using r set by auto
    then show thesis using r Some by (intro found) auto
  qed
qed

lemma session_search_total:
  assumes "shm_inv live c"
  obtains (missing) "session_find (sess_heap c) P (session_list c) = Some None" "\<And>p t. sess_heap c p = Some t \<Longrightarrow> \<not> P t"
  | (found) p t where "session_find (sess_heap c) P (session_list c) = Some (Some p)" "sess_heap c p = Some t" "P t"
proof -
  have set: "set (session_list c) = dom (sess_heap c)" using shm_invD(1) [OF assms] by (simp add: lists_ok_def)
  then have "\<forall>p \<in> set (session_list c). sess_heap c p \<noteq> None" by auto
  from session_find_total [OF this, of P] obtain r where r: "session_find (sess_heap c) P (session_list c) = Some r"
    "case r of None \<Rightarrow> \<forall>p \<in> set (session_list c). \<not> P (the (sess_heap c p))
       | Some p \<Rightarrow> p \<in> set (session_list c) \<and> P (the (sess_heap c p))" by blast
  show thesis
  proof (cases r)
    case None
    have n: "\<not> P t" if "sess_heap c p = Some t" for p t
    proof -
      have "p \<in> set (session_list c)" using that set by (simp add: domI)
      then have "\<not> P (the (sess_heap c p))" using r(2) None by simp
      then show ?thesis using that by simp
    qed
    show thesis using r(1) None n by (intro missing) simp_all
  next
    case (Some p)
    then obtain t where "sess_heap c p = Some t" using r set by auto
    then show thesis using r Some by (intro found) auto
  qed
qed

lemma referenced_total:
  assumes "shm_inv live c"
  shows "\<exists>b. ngx_rtc_shm_source_referenced_locked c q = Some b \<and> (b \<longleftrightarrow> (\<exists>p t. sess_heap c p = Some t \<and> she_source t = Some q))"
  by (rule session_search_total [OF assms, of "\<lambda>s. she_source s = Some q"])
    (fastforce simp: ngx_rtc_shm_source_referenced_locked_def)+

lemma session_lookup_total:
  assumes "shm_inv live c"
  obtains (missing) "ngx_rtc_shm_session_locked_lookup c ufrag = Some None"
  | (found) p t where "ngx_rtc_shm_session_locked_lookup c ufrag = Some (Some p)" "sess_heap c p = Some t" "ufrag_matches t ufrag"
proof (cases "ufrag = []")
  case True then show thesis by (intro missing) (simp add: ngx_rtc_shm_session_locked_lookup_def)
next
  case False
  show thesis
    by (rule session_search_total [OF assms, of "\<lambda>s. ufrag_matches s ufrag"])
      (use False missing found in \<open>simp_all add: ngx_rtc_shm_session_locked_lookup_def\<close>)
qed

section \<open>Stores that keep the invariant\<close>

definition same_source :: "ngx_rtc_shm_source \<Rightarrow> ngx_rtc_shm_source \<Rightarrow> bool" where
  "same_source s s' \<longleftrightarrow> source_key s' = source_key s \<and> shs_subscribers s' = shs_subscribers s \<and> ring_addr s' = ring_addr s"

lemma put_source_inv:
  assumes inv: "shm_inv live c" and s: "src_heap c q = Some s" and f: "same_source s (f s)"
  shows "\<exists>c'. put_source q f c = Some c' \<and> shm_inv live c' \<and> sess_heap c' = sess_heap c \<and> src_heap c' = (src_heap c)(q \<mapsto> f s)
    \<and> pool c' = pool c \<and> session_list c' = session_list c \<and> source_list c' = source_list c"
proof -
  let ?c = "c\<lparr>src_heap := (src_heap c)(q \<mapsto> f s)\<rparr>"
  have d: "dom (src_heap ?c) = dom (src_heap c)" using s by auto
  have L: "lists_ok ?c" using shm_invD(1) [OF inv] d by (simp add: lists_ok_def insert_absorb domI)
  have S: "source_ok ?c q' s'" if "src_heap ?c q' = Some s'" for q' s'
    using that shm_invD(2) [OF inv] s f by (auto simp: source_ok_def src_linked_def same_source_def split: if_splits)
  have T: "session_ok ?c t" if "sess_heap ?c p = Some t" for p t
    using that shm_invD(3) [OF inv] d by (fastforce simp: session_ok_def)
  have N: "names_ok ?c"
  proof -
    have k: "\<exists>u. src_heap c x = Some u \<and> source_key u = source_key y" if "src_heap ?c x = Some y" for x y
      using that s f by (auto simp: same_source_def split: if_splits)
    show ?thesis unfolding names_ok_def
    proof (intro allI impI)
      fix x x' y y' assume a: "src_heap ?c x = Some y" "src_heap ?c x' = Some y'" "source_key y = source_key y'"
      obtain u u' where "src_heap c x = Some u" "source_key u = source_key y" "src_heap c x' = Some u'" "source_key u' = source_key y'"
        using k [OF a(1)] k [OF a(2)] by blast
      then show "x = x'" using shm_invD(4) [OF inv] a(3) unfolding names_ok_def by metis
    qed
  qed
  have B: "blocks_ok (live (pool ?c)) ?c"
  proof (rule blocks_ok_sub [OF shm_invD(5) [OF inv], where F = "{}"])
    show "\<exists>u. src_heap c x = Some u \<and> ring_addr u = ring_addr y" if "src_heap ?c x = Some y" for x y
      using that s f by (auto simp: same_source_def split: if_splits)
  qed simp_all
  have "shm_inv live ?c" by (rule shm_invI) (rule L, rule S, assumption, rule T, assumption, rule N, rule B)
  then show ?thesis using s by (simp add: put_source_def)
qed

definition same_session :: "ngx_rtc_shm_session \<Rightarrow> ngx_rtc_shm_session \<Rightarrow> bool" where
  "same_session t t' \<longleftrightarrow> she_source t' = she_source t \<and> she_linked t' = she_linked t
     \<and> (she_linked t \<longrightarrow> she_srtp_ready t' \<noteq> 0 \<and> she_owner_slot t' \<noteq> - 1 \<and> she_publishing t' = 0)"

lemma put_session_inv:
  assumes inv: "shm_inv live c" and t: "sess_heap c p = Some t" and f: "same_session t (f t)"
  shows "\<exists>c'. put_session p f c = Some c' \<and> shm_inv live c' \<and> src_heap c' = src_heap c \<and> sess_heap c' = (sess_heap c)(p \<mapsto> f t)
    \<and> pool c' = pool c \<and> session_list c' = session_list c \<and> source_list c' = source_list c"
proof -
  let ?c = "c\<lparr>sess_heap := (sess_heap c)(p \<mapsto> f t)\<rparr>"
  have d: "dom (sess_heap ?c) = dom (sess_heap c)" using t by auto
  have l: "src_linked ?c q = src_linked c q" for q using t f by (auto simp: src_linked_def same_session_def split: if_splits)
  have L: "lists_ok ?c" using shm_invD(1) [OF inv] d by (simp add: lists_ok_def insert_absorb domI)
  have S: "source_ok ?c q s" if "src_heap ?c q = Some s" for q s
    using that shm_invD(2) [OF inv] l by (simp add: source_ok_def)
  have T: "session_ok ?c u" if "sess_heap ?c p' = Some u" for p' u
  proof (cases "p' = p")
    case True
    then show ?thesis using that f shm_invD(3) [OF inv t] by (auto simp: session_ok_def same_session_def)
  next
    case False
    then show ?thesis using that shm_invD(3) [OF inv, of p' u] by (simp add: session_ok_def)
  qed
  have N: "names_ok ?c" using shm_invD(4) [OF inv] by (simp add: names_ok_def)
  have B: "blocks_ok (live (pool ?c)) ?c"
    by (rule blocks_ok_sub [OF shm_invD(5) [OF inv], where F = "{}"]) (use d in simp_all)
  have "shm_inv live ?c" by (rule shm_invI) (rule L, rule S, assumption, rule T, assumption, rule N, rule B)
  then show ?thesis using t by (simp add: put_session_def)
qed

section \<open>Publishers that are kept\<close>

text \<open>A source with a live publisher stays, under its name and for the same kind of publisher.\<close>

definition held :: "u64 \<Rightarrow> ngx_rtc_shm_source \<Rightarrow> bool" where
  "held now s \<longleftrightarrow> shs_publishing s \<noteq> 0 \<and> publisher_alive now s"

definition keeps :: "u64 \<Rightarrow> 'm ngx_rtc_shm_ctx \<Rightarrow> 'm ngx_rtc_shm_ctx \<Rightarrow> bool" where
  "keeps now c c' \<longleftrightarrow> (\<forall>q s. src_heap c q = Some s \<longrightarrow> held now s \<longrightarrow> shs_publisher_kind s \<noteq> 0 \<longrightarrow>
     (\<exists>s'. src_heap c' q = Some s' \<and> held now s' \<and> shs_publisher_kind s' = shs_publisher_kind s \<and> source_key s' = source_key s))"

lemma keeps_refl [simp]: "src_heap c' = src_heap c \<Longrightarrow> keeps now c c'"
  by (simp add: keeps_def)

lemma keeps_trans: "keeps now c c' \<Longrightarrow> keeps now c' c'' \<Longrightarrow> keeps now c c''"
  unfolding keeps_def by metis

lemma keeps_upd:
  assumes "src_heap c q = Some s" "src_heap c' = (src_heap c)(q \<mapsto> s')"
    and "held now s \<Longrightarrow> shs_publisher_kind s \<noteq> 0 \<Longrightarrow> held now s' \<and> shs_publisher_kind s' = shs_publisher_kind s \<and> source_key s' = source_key s"
  shows "keeps now c c'"
  using assms by (auto simp: keeps_def)

lemma keeps_new:
  assumes "src_heap c q = None" "src_heap c' = (src_heap c)(q \<mapsto> s')"
  shows "keeps now c c'"
  using assms by (auto simp: keeps_def)

text \<open>No source appears, and none changes its name.\<close>

definition fewer :: "'m ngx_rtc_shm_ctx \<Rightarrow> 'm ngx_rtc_shm_ctx \<Rightarrow> bool" where
  "fewer c c' \<longleftrightarrow> (\<forall>q s'. src_heap c' q = Some s' \<longrightarrow> (\<exists>s. src_heap c q = Some s \<and> source_key s = source_key s'))"

lemma fewer_refl [simp]: "src_heap c' = src_heap c \<Longrightarrow> fewer c c'"
  by (simp add: fewer_def)

lemma fewer_trans: "fewer c c' \<Longrightarrow> fewer c' c'' \<Longrightarrow> fewer c c''"
  unfolding fewer_def by metis

lemma fewer_upd: "src_heap c q = Some s \<Longrightarrow> src_heap c' = (src_heap c)(q \<mapsto> s') \<Longrightarrow> source_key s' = source_key s \<Longrightarrow> fewer c c'"
  by (auto simp: fewer_def)

lemma fewer_del: "src_heap c' = (src_heap c)(q := None) \<Longrightarrow> fewer c c'"
  by (auto simp: fewer_def split: if_splits)

section \<open>Freeing\<close>

text \<open>What one freed session does to its source.\<close>

definition session_left :: "u64 \<Rightarrow> nat \<Rightarrow> ngx_rtc_shm_session \<Rightarrow> ngx_rtc_shm_source \<Rightarrow> ngx_rtc_shm_source" where
  "session_left now p t s =
     (let s = (if she_linked t
               then (let s = s\<lparr>shs_subscribers := remove1 p (shs_subscribers s)\<rparr>;
                         s = (if she_owner_slot t \<noteq> shs_publisher_slot s \<and> shs_remote s > 0 then s\<lparr>shs_remote := shs_remote s - 1\<rparr> else s)
                     in s\<lparr>shs_version := shs_version s + 1\<rparr>)
               else s)
      in if shs_subscribers s = [] \<and> shs_publishing s = 0 \<and> shs_expires s = 0
         then s\<lparr>shs_expires := now + NGX_RTC_SHM_SOURCE_EXPIRE_MS\<rparr> else s)"

lemma session_left_simps [simp]:
  "source_key (session_left now p t s) = source_key s" "ring_addr (session_left now p t s) = ring_addr s"
  "shs_subscribers (session_left now p t s) = (if she_linked t then remove1 p (shs_subscribers s) else shs_subscribers s)"
  "shs_publishing (session_left now p t s) = shs_publishing s" "shs_publisher_kind (session_left now p t s) = shs_publisher_kind s"
  "shs_seen_ms (session_left now p t s) = shs_seen_ms s" "held n (session_left now p t s) = held n s"
  by (simp_all add: session_left_def Let_def source_key_def ring_addr_def held_def publisher_alive_def)

lemma session_free_eq:
  assumes "sess_heap c p = Some t" "she_source t = Some q" "src_heap c q = Some s"
  shows "ngx_rtc_shm_session_free_locked E p c = Some (c\<lparr>session_list := remove1 p (session_list c),
     sess_heap := (sess_heap c)(p := None), pool := slab_free E p (pool c),
     src_heap := (src_heap c)(q \<mapsto> session_left (now_msec E) p t s)\<rparr>)"
  using assms by (cases "she_linked t") (simp_all add: ngx_rtc_shm_session_free_locked_def put_source_def session_left_def Let_def)

lemma session_free_inv:
  assumes inv: "shm_inv live c" and E: "slab_sound live E" and t: "sess_heap c p = Some t"
  shows "\<exists>c'. ngx_rtc_shm_session_free_locked E p c = Some c' \<and> shm_inv live c' \<and> keeps (now_msec E) c c' \<and> fewer c c'
    \<and> sess_heap c' = (sess_heap c)(p := None) \<and> dom (src_heap c') = dom (src_heap c) \<and> source_list c' = source_list c"
proof -
  obtain q s where q: "she_source t = Some q" "src_heap c q = Some s"
    using shm_invD(3) [OF inv t] by (auto simp: session_ok_def)
  let ?s = "session_left (now_msec E) p t s"
  let ?c = "c\<lparr>session_list := remove1 p (session_list c), sess_heap := (sess_heap c)(p := None), pool := slab_free E p (pool c),
     src_heap := (src_heap c)(q \<mapsto> ?s)\<rparr>"
  have ds: "dom (src_heap ?c) = dom (src_heap c)" using q(2) by auto
  have pL: "p \<in> live (pool c)" "p \<notin> dom (src_heap c)"
    using shm_invD(5) [OF inv] t by (auto simp: blocks_ok_def)
  have pool: "live (pool ?c) = live (pool c) - {p}" using E pL(1) by (simp add: slab_sound_def)
  have L: "lists_ok ?c" using shm_invD(1) [OF inv] ds by (auto simp: lists_ok_def set_remove1_eq)
  have S: "source_ok ?c x y" if a: "src_heap ?c x = Some y" for x y
  proof -
    obtain u where u: "src_heap c x = Some u" using a q(2) by (cases "x = q") auto
    have ok: "source_ok c x u" by (rule shm_invD(2) [OF inv u])
    have li: "src_linked ?c x = src_linked c x - {p}" by (auto simp: src_linked_def split: if_splits)
    show ?thesis
    proof (cases "x = q")
      case True
      then have y: "y = ?s" "u = s" using a u q(2) by auto
      show ?thesis
      proof (cases "she_linked t")
        case True
        then show ?thesis using ok li y by (simp add: source_ok_def set_remove1_eq)
      next
        case False
        then have "p \<notin> src_linked c x" using t by (simp add: src_linked_def)
        then show ?thesis using ok li y False by (simp add: source_ok_def)
      qed
    next
      case False
      then have "y = u" "p \<notin> src_linked c x" using a u t q(1) by (auto simp: src_linked_def)
      then show ?thesis using ok li by (simp add: source_ok_def)
    qed
  qed
  have T: "session_ok ?c u" if "sess_heap ?c x = Some u" for x u
  proof -
    have "sess_heap c x = Some u" using that by (auto split: if_splits)
    then show ?thesis using shm_invD(3) [OF inv, of x u] ds by (auto simp: session_ok_def)
  qed
  have old: "\<exists>u. src_heap c x = Some u \<and> ring_addr u = ring_addr y \<and> source_key u = source_key y" if "src_heap ?c x = Some y" for x y
    using that q(2) by (auto split: if_splits)
  have N: "names_ok ?c"
    unfolding names_ok_def
  proof (intro allI impI)
    fix x x' y y' assume a: "src_heap ?c x = Some y" "src_heap ?c x' = Some y'" "source_key y = source_key y'"
    obtain u u' where "src_heap c x = Some u" "source_key u = source_key y" "src_heap c x' = Some u'" "source_key u' = source_key y'"
      using old [OF a(1)] old [OF a(2)] by blast
    then show "x = x'" using shm_invD(4) [OF inv] a(3) unfolding names_ok_def by metis
  qed
  have B: "blocks_ok (live (pool ?c)) ?c"
  proof (rule blocks_ok_sub [OF shm_invD(5) [OF inv], where F = "{p}"])
    show "\<exists>u. src_heap c x = Some u \<and> ring_addr u = ring_addr y" if "src_heap ?c x = Some y" for x y using old [OF that] by blast
    show "a \<notin> {p}" if a: "src_heap ?c x = Some y" "ring_addr y = Some a" for x y a
    proof -
      obtain u where "src_heap c x = Some u" "ring_addr u = Some a" using old [OF a(1)] a(2) by metis
      then have "a \<notin> dom (sess_heap c)" by (rule blocks_ring(3) [OF shm_invD(5) [OF inv]])
      then show ?thesis using t by auto
    qed
    show "{p} \<inter> dom (src_heap ?c) = {}" unfolding ds using pL(2) by simp
    show "live (pool c) - {p} \<subseteq> live (pool ?c)" unfolding pool by simp
  qed auto
  have "shm_inv live ?c" by (rule shm_invI) (rule L, rule S, assumption, rule T, assumption, rule N, rule B)
  moreover have "keeps (now_msec E) c ?c" by (rule keeps_upd [OF q(2), where s' = ?s]) simp_all
  moreover have "fewer c ?c" by (rule fewer_upd [OF q(2), where s' = ?s]) simp_all
  ultimately show ?thesis using session_free_eq [OF t q] ds by simp
qed

lemma expire_sessions_inv:
  assumes "shm_inv live c" "slab_sound live E" "distinct ps" "set ps \<subseteq> dom (sess_heap c)"
  shows "\<exists>c'. expire_sessions E forced ps c = Some c' \<and> shm_inv live c' \<and> keeps (now_msec E) c c' \<and> fewer c c'
    \<and> dom (src_heap c') = dom (src_heap c) \<and> source_list c' = source_list c"
  using assms
proof (induction ps arbitrary: c)
  case Nil then show ?case by simp
next
  case (Cons p ps)
  obtain t where t: "sess_heap c p = Some t" using Cons.prems(4) by auto
  show ?case
  proof (cases "she_owner_slot t \<noteq> - 1 \<or> \<not> (she_expires t \<noteq> 0 \<and> (forced \<or> now_msec E \<ge> she_expires t))")
    case True
    then show ?thesis using Cons.IH [OF Cons.prems(1,2)] Cons.prems(3,4) t by auto
  next
    case False
    obtain c1 where c1: "ngx_rtc_shm_session_free_locked E p c = Some c1" "shm_inv live c1" "keeps (now_msec E) c c1" "fewer c c1"
      "sess_heap c1 = (sess_heap c)(p := None)" "dom (src_heap c1) = dom (src_heap c)" "source_list c1 = source_list c"
      using session_free_inv [OF Cons.prems(1,2) t] by blast
    have "set ps \<subseteq> dom (sess_heap c1)" using Cons.prems(3,4) c1(5) by auto
    then obtain c2 where "expire_sessions E forced ps c1 = Some c2" "shm_inv live c2" "keeps (now_msec E) c1 c2" "fewer c1 c2"
      "dom (src_heap c2) = dom (src_heap c1)" "source_list c2 = source_list c1"
      using Cons.IH [OF c1(2) Cons.prems(2)] Cons.prems(3) by auto
    then show ?thesis using False t c1 keeps_trans [OF c1(3)] fewer_trans [OF c1(4)] by auto
  qed
qed

text \<open>A source that nobody references can go.\<close>

lemma source_free_inv:
  assumes inv: "shm_inv live c" and E: "slab_sound live E" and s: "src_heap c q = Some s"
    and unref: "\<And>p t. sess_heap c p = Some t \<Longrightarrow> she_source t \<noteq> Some q"
  shows "\<exists>c'. source_unlink_free E q c = Some c' \<and> shm_inv live c' \<and> src_heap c' = (src_heap c)(q := None)"
proof -
  let ?mem = "case shs_retransmit s of None \<Rightarrow> pool c | Some (a, r) \<Rightarrow> slab_free E a (pool c)"
  let ?c = "c\<lparr>source_list := remove1 q (source_list c), source_tree := remove1 q (source_tree c),
     src_heap := (src_heap c)(q := None), pool := slab_free E q ?mem\<rparr>"
  define F where "F = insert q (set_option (ring_addr s))"
  note b = shm_invD(5) [OF inv]
  have qL: "q \<in> live (pool c)" "q \<notin> dom (sess_heap c)" using b s by (auto simp: blocks_ok_def)
  have mem: "live ?mem = live (pool c) - set_option (ring_addr s)" "q \<in> live ?mem"
  proof -
    have "live ?mem = live (pool c) - set_option (ring_addr s) \<and> q \<in> live ?mem"
    proof (cases "shs_retransmit s")
      case None then show ?thesis using qL by (simp add: ring_addr_def)
    next
      case (Some ar)
      obtain a r where ar: "ar = (a, r)" by fastforce
      then have ra: "ring_addr s = Some a" using Some by (simp add: ring_addr_def)
      have "a \<in> live (pool c)" "a \<noteq> q" using blocks_ring(1,2) [OF b s ra] s by auto
      then show ?thesis using E Some ar ra qL by (simp add: slab_sound_def)
    qed
    then show "live ?mem = live (pool c) - set_option (ring_addr s)" "q \<in> live ?mem" by auto
  qed
  have pool: "live (pool ?c) = live (pool c) - F" using E mem by (auto simp: slab_sound_def F_def)
  have L: "lists_ok ?c" using shm_invD(1) [OF inv] by (auto simp: lists_ok_def set_remove1_eq)
  have S: "source_ok ?c x y" if "src_heap ?c x = Some y" for x y
    using that shm_invD(2) [OF inv, of x y] by (auto simp: source_ok_def src_linked_def split: if_splits)
  have T: "session_ok ?c u" if "sess_heap ?c x = Some u" for x u
    using that shm_invD(3) [OF inv, of x u] unref [of x u] by (auto simp: session_ok_def)
  have N: "names_ok ?c" using shm_invD(4) [OF inv] unfolding names_ok_def by (auto split: if_splits)
  have B: "blocks_ok (live (pool ?c)) ?c"
  proof (rule blocks_ok_sub [OF b, where F = F])
    show "\<exists>u. src_heap c x = Some u \<and> ring_addr u = ring_addr y" if "src_heap ?c x = Some y" for x y
      using that by (auto split: if_splits)
    show "F \<inter> dom (src_heap ?c) = {}" "F \<inter> dom (sess_heap ?c) = {}"
      using qL(2) blocks_ring(2,3) [OF b s] by (auto simp: F_def)
    show "a \<notin> F" if a: "src_heap ?c x = Some y" "ring_addr y = Some a" for x y a
    proof -
      have x: "x \<noteq> q" "src_heap c x = Some y" using a(1) by (auto split: if_splits)
      have "a \<noteq> q" using blocks_ring(2) [OF b x(2) a(2)] s by auto
      moreover have "ring_addr s \<noteq> Some a" using blocks_ring(4) [OF b s _ x(2) a(2)] x(1) by blast
      ultimately show ?thesis by (auto simp: F_def)
    qed
    show "live (pool c) - F \<subseteq> live (pool ?c)" unfolding pool by simp
  qed simp_all
  have "shm_inv live ?c" by (rule shm_invI) (rule L, rule S, assumption, rule T, assumption, rule N, rule B)
  then show ?thesis using s by (simp add: source_unlink_free_def Let_def)
qed

lemma drop_publisher_same: "same_source s (drop_publisher now s)"
  by (simp add: same_source_def drop_publisher_def Let_def source_key_def ring_addr_def)

lemma expire_sources_inv:
  assumes "shm_inv live c" "slab_sound live E" "distinct qs" "set qs \<subseteq> dom (src_heap c)"
  shows "\<exists>c'. expire_sources E forced qs c = Some c' \<and> shm_inv live c' \<and> keeps (now_msec E) c c' \<and> fewer c c'"
  using assms
proof (induction qs arbitrary: c)
  case Nil then show ?case by simp
next
  case (Cons q qs)
  obtain s where s: "src_heap c q = Some s" using Cons.prems(4) by auto
  have sub: "set qs \<subseteq> dom (src_heap c)" "distinct qs" "q \<notin> set qs" using Cons.prems(3,4) by auto
  show ?case
  proof (cases "held (now_msec E) s")
    case True
    then show ?thesis using Cons.IH [OF Cons.prems(1,2) sub(2,1)] s by (auto simp: held_def)
  next
    case False
    define c0 where "c0 = (if shs_publishing s \<noteq> 0 then c\<lparr>src_heap := (src_heap c)(q \<mapsto> drop_publisher (now_msec E) s)\<rparr> else c)"
    define s0 where "s0 = (if shs_publishing s \<noteq> 0 then drop_publisher (now_msec E) s else s)"
    have c0: "shm_inv live c0" "src_heap c0 = (src_heap c)(q \<mapsto> s0)"
      "(if shs_publishing s \<noteq> 0 then put_source q (drop_publisher (now_msec E)) c else Some c) = Some c0"
      using put_source_inv [where f = "drop_publisher (now_msec E)", OF Cons.prems(1) s drop_publisher_same] Cons.prems(1) s
      by (auto simp: c0_def s0_def put_source_def)
    have k0: "keeps (now_msec E) c c0" using keeps_upd [OF s c0(2)] False by blast
    have "source_key s0 = source_key s" using drop_publisher_same by (simp add: s0_def same_source_def)
    then have f0: "fewer c c0" by (rule fewer_upd [OF s c0(2)])
    have nh: "(shs_publishing s \<noteq> 0 \<and> publisher_alive (now_msec E) s) = False" using False by (simp add: held_def)
    have run: "expire_sources E forced (q # qs) c = Option.bind
       (if shs_subscribers s0 \<noteq> [] then Some c0
        else if shs_expires s0 \<noteq> 0 \<and> (forced \<or> now_msec E \<ge> shs_expires s0)
        then Option.bind (ngx_rtc_shm_source_referenced_locked c0 q) (\<lambda>referenced. if referenced then Some c0 else source_unlink_free E q c0)
        else Some c0) (expire_sources E forced qs)"
      by (simp only: expire_sources.simps s Option.bind.simps nh if_False c0(3)) (simp add: c0(2))
    obtain b where b: "ngx_rtc_shm_source_referenced_locked c0 q = Some b"
      "b \<longleftrightarrow> (\<exists>p t. sess_heap c0 p = Some t \<and> she_source t = Some q)"
      using referenced_total [OF c0(1), of q] by blast
    have s0: "src_heap c0 q = Some s0" using c0(2) by simp
    obtain c1 where c1: "(if shs_subscribers s0 \<noteq> [] then Some c0
        else if shs_expires s0 \<noteq> 0 \<and> (forced \<or> now_msec E \<ge> shs_expires s0)
        then Option.bind (ngx_rtc_shm_source_referenced_locked c0 q) (\<lambda>referenced. if referenced then Some c0 else source_unlink_free E q c0)
        else Some c0) = Some c1" "shm_inv live c1" "keeps (now_msec E) c c1" "set qs \<subseteq> dom (src_heap c1)" "fewer c c1"
    proof (cases "shs_subscribers s0 \<noteq> [] \<or> \<not> (shs_expires s0 \<noteq> 0 \<and> (forced \<or> now_msec E \<ge> shs_expires s0)) \<or> b")
      case True
      moreover have "set qs \<subseteq> dom (src_heap c0)" using sub(1) c0(2) by auto
      ultimately show thesis using b(1) c0(1) k0 f0 by (intro that [of c0]) auto
    next
      case free: False
      obtain c1 where c1: "source_unlink_free E q c0 = Some c1" "shm_inv live c1" "src_heap c1 = (src_heap c0)(q := None)"
        using source_free_inv [OF c0(1) Cons.prems(2) s0] b(2) free by blast
      have "keeps (now_msec E) c c1"
        using s \<open>\<not> held (now_msec E) s\<close> by (auto simp: keeps_def c1(3) c0(2))
      moreover have "set qs \<subseteq> dom (src_heap c1)" using sub c0(2) c1(3) by auto
      moreover have "fewer c c1" using fewer_trans [OF f0 fewer_del [OF c1(3)]] .
      ultimately show thesis using c1(1,2) b(1) free by (intro that [of c1]) auto
    qed
    obtain c2 where "expire_sources E forced qs c1 = Some c2" "shm_inv live c2" "keeps (now_msec E) c1 c2" "fewer c1 c2"
      using Cons.IH [OF c1(2) Cons.prems(2) sub(2) c1(4)] by blast
    then show ?thesis unfolding run c1(1) using keeps_trans [OF c1(3)] fewer_trans [OF c1(5)] by auto
  qed
qed

lemma expire_locked_inv:
  assumes "shm_inv live c" "slab_sound live E"
  shows "\<exists>c'. ngx_rtc_shm_expire_locked E forced c = Some c' \<and> shm_inv live c' \<and> keeps (now_msec E) c c' \<and> fewer c c'"
proof -
  have l: "distinct (session_list c)" "set (session_list c) \<subseteq> dom (sess_heap c)"
    using shm_invD(1) [OF assms(1)] by (auto simp: lists_ok_def)
  obtain c1 where c1: "expire_sessions E forced (session_list c) c = Some c1" "shm_inv live c1" "keeps (now_msec E) c c1" "fewer c c1"
    using expire_sessions_inv [OF assms l] by blast
  have "distinct (source_list c1)" "set (source_list c1) \<subseteq> dom (src_heap c1)"
    using shm_invD(1) [OF c1(2)] by (auto simp: lists_ok_def)
  then obtain c2 where "expire_sources E forced (source_list c1) c1 = Some c2" "shm_inv live c2" "keeps (now_msec E) c1 c2" "fewer c1 c2"
    using expire_sources_inv [OF c1(2) assms(2)] by blast
  then show ?thesis using c1 keeps_trans [OF c1(3)] fewer_trans [OF c1(4)] by (auto simp: ngx_rtc_shm_expire_locked_def)
qed

section \<open>Allocation\<close>

lemma pool_inv:
  assumes "shm_inv live c" "live (pool c) \<subseteq> live m"
  shows "shm_inv live (c\<lparr>pool := m\<rparr>)"
proof -
  have "blocks_ok (live m) (c\<lparr>pool := m\<rparr>)"
    by (rule blocks_ok_sub [OF shm_invD(5) [OF assms(1)], where F = "{}"]) (use assms(2) in auto)
  then show ?thesis
    using shm_invD(1-4) [OF assms(1)]
    by (auto simp: shm_inv_def lists_ok_def source_ok_def session_ok_def names_ok_def src_linked_def)
qed

text \<open>The new block belongs to nobody yet.\<close>

definition fresh_block :: "('m \<Rightarrow> nat set) \<Rightarrow> nat \<Rightarrow> 'm ngx_rtc_shm_ctx \<Rightarrow> bool" where
  "fresh_block live p c \<longleftrightarrow> p \<in> live (pool c) \<and> p \<notin> dom (src_heap c) \<and> p \<notin> dom (sess_heap c)
     \<and> (\<forall>q s. src_heap c q = Some s \<longrightarrow> ring_addr s \<noteq> Some p)"

lemma slab_alloc_inv:
  assumes inv: "shm_inv live c" and E: "slab_sound live E"
  shows "\<exists>r m. slab_alloc_locked E req c = (r, c\<lparr>pool := m\<rparr>) \<and> shm_inv live (c\<lparr>pool := m\<rparr>)
    \<and> (\<forall>p. r = Some p \<longrightarrow> fresh_block live p (c\<lparr>pool := m\<rparr>)) \<and> r = fst (slab_alloc E req (pool c))"
proof -
  obtain r m where a: "slab_alloc E req (pool c) = (r, m)" by fastforce
  have inv': "shm_inv live (c\<lparr>pool := m\<rparr>)" using a E by (intro pool_inv [OF inv]) (cases r; auto simp: slab_sound_def)
  have "fresh_block live p (c\<lparr>pool := m\<rparr>)" if "r = Some p" for p
  proof -
    have n: "p \<notin> live (pool c)" "p \<in> live m" using a that E by (auto simp: slab_sound_def)
    have b: "blocks_ok (live (pool c)) c" by (rule shm_invD(5) [OF inv])
    have "p \<notin> dom (src_heap c)" "p \<notin> dom (sess_heap c)" using b n(1) unfolding blocks_ok_def by blast+
    moreover have "ring_addr s \<noteq> Some p" if "src_heap c q = Some s" for q s
      using blocks_ring(1) [OF b that] n(1) by blast
    ultimately show ?thesis using n(2) by (auto simp: fresh_block_def)
  qed
  then show ?thesis using a inv' by (intro exI [of _ r] exI [of _ m]) (simp add: slab_alloc_locked_def)
qed

lemma alloc_or_expire_inv:
  assumes inv: "shm_inv live c" and E: "slab_sound live E"
  shows "\<exists>r c'. alloc_or_expire E req c = Some (r, c') \<and> shm_inv live c' \<and> keeps (now_msec E) c c' \<and> fewer c c'
    \<and> (\<forall>p. r = Some p \<longrightarrow> fresh_block live p c')
    \<and> (fst (slab_alloc E req (pool c)) \<noteq> None \<longrightarrow> src_heap c' = src_heap c)"
proof -
  obtain r m where a: "slab_alloc_locked E req c = (r, c\<lparr>pool := m\<rparr>)" "shm_inv live (c\<lparr>pool := m\<rparr>)"
    "\<forall>p. r = Some p \<longrightarrow> fresh_block live p (c\<lparr>pool := m\<rparr>)" "r = fst (slab_alloc E req (pool c))"
    using slab_alloc_inv [OF inv E] by blast
  show ?thesis
  proof (cases r)
    case (Some p)
    then show ?thesis using a by (simp add: alloc_or_expire_def)
  next
    case None
    obtain c1 where c1: "ngx_rtc_shm_expire_locked E True (c\<lparr>pool := m\<rparr>) = Some c1" "shm_inv live c1" "keeps (now_msec E) (c\<lparr>pool := m\<rparr>) c1" "fewer (c\<lparr>pool := m\<rparr>) c1"
      using expire_locked_inv [OF a(2) E] by blast
    obtain r2 m2 where b: "slab_alloc_locked E req c1 = (r2, c1\<lparr>pool := m2\<rparr>)" "shm_inv live (c1\<lparr>pool := m2\<rparr>)"
      "\<forall>p. r2 = Some p \<longrightarrow> fresh_block live p (c1\<lparr>pool := m2\<rparr>)"
      using slab_alloc_inv [OF c1(2) E] by blast
    have "keeps (now_msec E) c (c1\<lparr>pool := m2\<rparr>)" using c1(3) by (simp add: keeps_def)
    moreover have "fewer c (c1\<lparr>pool := m2\<rparr>)" using c1(4) by (simp add: fewer_def)
    ultimately show ?thesis using a(1,4) None b c1(1) by (simp add: alloc_or_expire_def)
  qed
qed

section \<open>New objects\<close>

lemma source_init_simps [simp]:
  "length name < NGX_RTC_SHM_SOURCE_NAME_MAX \<Longrightarrow> source_key (source_init E name) = name"
  "shs_subscribers (source_init E name) = []" "ring_addr (source_init E name) = None"
  by (simp_all add: source_key_def source_init_def buf_put_def ring_addr_def)

lemma add_source_inv:
  assumes inv: "shm_inv live c" and f: "fresh_block live q c" and l: "length name < NGX_RTC_SHM_SOURCE_NAME_MAX"
    and new: "\<And>x s. src_heap c x = Some s \<Longrightarrow> source_key s \<noteq> name"
  shows "shm_inv live (c\<lparr>src_heap := (src_heap c)(q \<mapsto> source_init E name), source_tree := q # source_tree c, source_list := q # source_list c\<rparr>)"
    (is "shm_inv live ?c")
proof -
  note q = f [unfolded fresh_block_def]
  have none: "src_linked c q = {}" using shm_invD(3) [OF inv] q by (fastforce simp: src_linked_def session_ok_def)
  have L: "lists_ok ?c" using shm_invD(1) [OF inv] q by (simp add: lists_ok_def)
  have S: "source_ok ?c x y" if "src_heap ?c x = Some y" for x y
    using that shm_invD(2) [OF inv, of x y] none by (auto simp: source_ok_def src_linked_def split: if_splits)
  have T: "session_ok ?c u" if "sess_heap ?c x = Some u" for x u
    using shm_invD(3) [OF inv, of x u] that by (auto simp: session_ok_def)
  have key: "source_key y = name \<longleftrightarrow> x = q" if "src_heap ?c x = Some y" for x y
    using that new [of x y] l by (auto split: if_splits)
  have N: "names_ok ?c"
    unfolding names_ok_def
  proof (intro allI impI)
    fix x x' y y' assume a: "src_heap ?c x = Some y" "src_heap ?c x' = Some y'" "source_key y = source_key y'"
    show "x = x'"
    proof (cases "x = q \<or> x' = q")
      case True
      then show ?thesis using key [OF a(1)] key [OF a(2)] a(3) by auto
    next
      case False
      then have "src_heap c x = Some y" "src_heap c x' = Some y'" using a(1,2) by simp_all
      then show ?thesis using shm_invD(4) [OF inv] a(3) unfolding names_ok_def by blast
    qed
  qed
  have B: "blocks_ok (live (pool ?c)) ?c"
  proof -
    note b = shm_invD(5) [OF inv]
    have bb: "dom (src_heap c) \<subseteq> live (pool c)" "dom (sess_heap c) \<subseteq> live (pool c)" "dom (src_heap c) \<inter> dom (sess_heap c) = {}"
      using b by (simp_all add: blocks_ok_def)
    show ?thesis unfolding blocks_ok_def
    proof (intro conjI allI impI)
      show "dom (src_heap ?c) \<subseteq> live (pool ?c)" "dom (sess_heap ?c) \<subseteq> live (pool ?c)" "dom (src_heap ?c) \<inter> dom (sess_heap ?c) = {}"
        using bb q by auto
      fix x y a assume a: "src_heap ?c x = Some y" "ring_addr y = Some a"
      have x: "src_heap c x = Some y" using a by (auto split: if_splits)
      show "a \<in> live (pool ?c)" "a \<notin> dom (sess_heap ?c)" using blocks_ring [OF b x a(2)] by simp_all
      show "a \<notin> dom (src_heap ?c)" using blocks_ring(2) [OF b x a(2)] q x a(2) by auto
      fix x' y' assume a': "src_heap ?c x' = Some y'" "ring_addr y' = Some a"
      then have "src_heap c x' = Some y'" by (auto split: if_splits)
      then show "x' = x" by (rule blocks_ring(4) [OF b x a(2) _ a'(2)])
    qed
  qed
  show ?thesis by (rule shm_invI) (rule L, rule S, assumption, rule T, assumption, rule N, rule B)
qed

lemma add_session_inv:
  assumes inv: "shm_inv live c" and f: "fresh_block live p c" and t: "she_source t = Some q" "q \<in> dom (src_heap c)" "\<not> she_linked t"
  shows "shm_inv live (c\<lparr>sess_heap := (sess_heap c)(p \<mapsto> t), next_session_id := n, session_list := p # session_list c\<rparr>)"
    (is "shm_inv live ?c")
proof -
  note p = f [unfolded fresh_block_def]
  have li: "src_linked ?c x = src_linked c x" for x
    using p t(3) by (auto simp: src_linked_def split: if_splits)
  have L: "lists_ok ?c" using shm_invD(1) [OF inv] p by (simp add: lists_ok_def)
  have S: "source_ok ?c x y" if "src_heap ?c x = Some y" for x y
    using that shm_invD(2) [OF inv, of x y] li by (simp add: source_ok_def)
  have T: "session_ok ?c u" if "sess_heap ?c x = Some u" for x u
    using that shm_invD(3) [OF inv, of x u] t by (auto simp: session_ok_def split: if_splits)
  have N: "names_ok ?c" using shm_invD(4) [OF inv] by (simp add: names_ok_def)
  have B: "blocks_ok (live (pool ?c)) ?c"
  proof -
    note b = shm_invD(5) [OF inv]
    have bb: "dom (src_heap c) \<subseteq> live (pool c)" "dom (sess_heap c) \<subseteq> live (pool c)" "dom (src_heap c) \<inter> dom (sess_heap c) = {}"
      using b by (simp_all add: blocks_ok_def)
    show ?thesis unfolding blocks_ok_def
    proof (intro conjI allI impI)
      show "dom (src_heap ?c) \<subseteq> live (pool ?c)" "dom (sess_heap ?c) \<subseteq> live (pool ?c)" "dom (src_heap ?c) \<inter> dom (sess_heap ?c) = {}"
        using bb p by auto
      fix x y a assume "src_heap ?c x = Some y" and a: "ring_addr y = Some a"
      then have x: "src_heap c x = Some y" by simp
      show "a \<in> live (pool ?c)" "a \<notin> dom (src_heap ?c)" using blocks_ring(1,2) [OF b x a] by simp_all
      show "a \<notin> dom (sess_heap ?c)" using blocks_ring(3) [OF b x a] p x a by auto
      fix x' y' assume "src_heap ?c x' = Some y'" "ring_addr y' = Some a"
      then show "x' = x" using blocks_ring(4) [OF b x a] by simp
    qed
  qed
  show ?thesis by (rule shm_invI) (rule L, rule S, assumption, rule T, assumption, rule N, rule B)
qed

section \<open>Linking and rings\<close>

lemma link_inv:
  assumes inv: "shm_inv live c" and t: "sess_heap c p = Some t" "she_source t = Some q" "\<not> she_linked t"
    and t': "she_source t' = Some q" "she_linked t'" "she_srtp_ready t' \<noteq> 0" "she_owner_slot t' \<noteq> - 1" "she_publishing t' = 0"
    and s: "src_heap c q = Some s" and s': "source_key s' = source_key s" "ring_addr s' = ring_addr s"
      "shs_subscribers s' = p # shs_subscribers s"
  shows "shm_inv live (c\<lparr>sess_heap := (sess_heap c)(p \<mapsto> t'), src_heap := (src_heap c)(q \<mapsto> s')\<rparr>)" (is "shm_inv live ?c")
proof -
  have ds: "dom (src_heap ?c) = dom (src_heap c)" "dom (sess_heap ?c) = dom (sess_heap c)" using s t by auto
  have li: "src_linked ?c x = (if x = q then insert p (src_linked c x) else src_linked c x)" for x
    using t t' by (auto simp: src_linked_def split: if_splits)
  have np: "p \<notin> src_linked c x" for x using t by (simp add: src_linked_def)
  have L: "lists_ok ?c" using shm_invD(1) [OF inv] ds by (simp add: lists_ok_def)
  have S: "source_ok ?c x y" if a: "src_heap ?c x = Some y" for x y
  proof (cases "x = q")
    case True
    then show ?thesis using a shm_invD(2) [OF inv s] li [of q] np [of q] s' by (auto simp: source_ok_def)
  next
    case False
    then show ?thesis using a shm_invD(2) [OF inv, of x y] li [of x] by (auto simp: source_ok_def)
  qed
  have T: "session_ok ?c u" if "sess_heap ?c x = Some u" for x u
    using that shm_invD(3) [OF inv, of x u] t' s ds by (auto simp: session_ok_def split: if_splits)
  have old: "\<exists>u. src_heap c x = Some u \<and> ring_addr u = ring_addr y \<and> source_key u = source_key y" if "src_heap ?c x = Some y" for x y
    using that s s' by (auto split: if_splits)
  have N: "names_ok ?c"
    unfolding names_ok_def
  proof (intro allI impI)
    fix x x' y y' assume a: "src_heap ?c x = Some y" "src_heap ?c x' = Some y'" "source_key y = source_key y'"
    obtain u u' where "src_heap c x = Some u" "source_key u = source_key y" "src_heap c x' = Some u'" "source_key u' = source_key y'"
      using old [OF a(1)] old [OF a(2)] by blast
    then show "x = x'" using shm_invD(4) [OF inv] a(3) unfolding names_ok_def by metis
  qed
  have B: "blocks_ok (live (pool ?c)) ?c"
  proof (rule blocks_ok_sub [OF shm_invD(5) [OF inv], where F = "{}"])
    show "\<exists>u. src_heap c x = Some u \<and> ring_addr u = ring_addr y" if "src_heap ?c x = Some y" for x y using old [OF that] by blast
    show "dom (sess_heap ?c) \<subseteq> dom (sess_heap c)" unfolding ds by simp
  qed simp_all
  show ?thesis by (rule shm_invI) (rule L, rule S, assumption, rule T, assumption, rule N, rule B)
qed

lemma add_ring_inv:
  assumes inv: "shm_inv live c" and s: "src_heap c q = Some s" and f: "fresh_block live a c"
    and s': "source_key s' = source_key s" "shs_subscribers s' = shs_subscribers s" "ring_addr s' = Some a"
  shows "shm_inv live (c\<lparr>src_heap := (src_heap c)(q \<mapsto> s')\<rparr>)" (is "shm_inv live ?c")
proof -
  note a = f [unfolded fresh_block_def]
  have ds: "dom (src_heap ?c) = dom (src_heap c)" using s by auto
  have L: "lists_ok ?c" using shm_invD(1) [OF inv] ds by (simp add: lists_ok_def insert_absorb domI)
  have S: "source_ok ?c x y" if "src_heap ?c x = Some y" for x y
    using that shm_invD(2) [OF inv] s s' by (auto simp: source_ok_def src_linked_def split: if_splits)
  have T: "session_ok ?c u" if "sess_heap ?c x = Some u" for x u
    using that shm_invD(3) [OF inv, of x u] by (auto simp: session_ok_def)
  have old: "\<exists>u. src_heap c x = Some u \<and> source_key u = source_key y" if "src_heap ?c x = Some y" for x y
    using that s s' by (auto split: if_splits)
  have N: "names_ok ?c"
    unfolding names_ok_def
  proof (intro allI impI)
    fix x x' y y' assume b: "src_heap ?c x = Some y" "src_heap ?c x' = Some y'" "source_key y = source_key y'"
    obtain u u' where "src_heap c x = Some u" "source_key u = source_key y" "src_heap c x' = Some u'" "source_key u' = source_key y'"
      using old [OF b(1)] old [OF b(2)] by blast
    then show "x = x'" using shm_invD(4) [OF inv] b(3) unfolding names_ok_def by metis
  qed
  have B: "blocks_ok (live (pool ?c)) ?c"
  proof -
    note b = shm_invD(5) [OF inv]
    have bb: "dom (src_heap c) \<subseteq> live (pool c)" "dom (sess_heap c) \<subseteq> live (pool c)" "dom (src_heap c) \<inter> dom (sess_heap c) = {}"
      using b by (simp_all add: blocks_ok_def)
    have r: "src_heap c x = Some y \<or> x = q \<and> e = a" if "src_heap ?c x = Some y" "ring_addr y = Some e" for x y e
      using that s'(3) by (auto split: if_splits)
    show ?thesis unfolding blocks_ok_def ds
    proof (intro conjI allI impI)
      show "dom (src_heap c) \<subseteq> live (pool ?c)" "dom (sess_heap ?c) \<subseteq> live (pool ?c)" "dom (src_heap c) \<inter> dom (sess_heap ?c) = {}"
        using bb by simp_all
      fix x y e assume e: "src_heap ?c x = Some y" "ring_addr y = Some e"
      have "e \<in> live (pool c) \<and> e \<notin> dom (src_heap c) \<and> e \<notin> dom (sess_heap c)"
        using r [OF e] blocks_ring(1-3) [OF b _ e(2)] a by blast
      then show "e \<in> live (pool ?c)" "e \<notin> dom (src_heap c)" "e \<notin> dom (sess_heap ?c)" by simp_all
      fix x' y' assume e': "src_heap ?c x' = Some y'" "ring_addr y' = Some e"
      show "x' = x"
        using r [OF e] r [OF e'] blocks_ring(4) [OF b _ e(2) _ e'(2)] a e(2) e'(2) by blast
    qed
  qed
  show ?thesis by (rule shm_invI) (rule L, rule S, assumption, rule T, assumption, rule N, rule B)
qed

section \<open>Every operation keeps the invariant\<close>

definition good :: "('m \<Rightarrow> nat set) \<Rightarrow> u64 \<Rightarrow> 'm ngx_rtc_shm_ctx \<Rightarrow> 'm ngx_rtc_shm_ctx \<Rightarrow> bool" where
  "good live now c c' \<longleftrightarrow> shm_inv live c' \<and> keeps now c c'"

lemma good_refl: "shm_inv live c \<Longrightarrow> good live now c c"
  by (simp add: good_def)

lemma good_same: "shm_inv live c' \<Longrightarrow> src_heap c' = src_heap c \<Longrightarrow> good live now c c'"
  by (simp add: good_def)

lemma shm_guard_total:
  assumes "Q c" "\<And>name. np = Some name \<Longrightarrow> name \<noteq> [] \<Longrightarrow> length name < cap \<Longrightarrow> \<exists>r c'. f c name = Some (r, c') \<and> Q c'"
  shows "\<exists>r c'. shm_guard (Some c) np cap r0 f = Some (r, Some c') \<and> Q c'"
proof (cases np)
  case None then show ?thesis using assms(1) by (simp add: shm_guard_def)
next
  case (Some name)
  show ?thesis
  proof (cases "name = [] \<or> length name \<ge> cap")
    case True then show ?thesis using Some assms(1) by (auto simp: shm_guard_def)
  next
    case False
    then obtain r c' where "f c name = Some (r, c')" "Q c'" using assms(2) [OF Some] by auto
    then show ?thesis using Some False by (auto simp: shm_guard_def)
  qed
qed

lemma with_source_total:
  assumes inv: "shm_inv live c" and f: "\<And>s. same_source s (snd (f s))"
    and k: "\<And>s. np = Some (source_key s) \<Longrightarrow> held now s \<Longrightarrow> shs_publisher_kind s \<noteq> 0 \<Longrightarrow> held now (snd (f s)) \<and> shs_publisher_kind (snd (f s)) = shs_publisher_kind s"
  shows "\<exists>r c'. with_source (Some c) np bad missing f = Some (r, Some c') \<and> good live now c c'"
  unfolding with_source_def
proof (rule shm_guard_total, rule good_refl [OF inv])
  fix name assume n: "np = Some name"
  show "\<exists>r c'. (ngx_rtc_shm_source_locked_lookup c name \<bind>
          (\<lambda>found. case found of None \<Rightarrow> Some (missing, c)
             | Some q \<Rightarrow> src_heap c q \<bind> (\<lambda>src. map_option (Pair (fst (f src))) (put_source q (\<lambda>_. snd (f src)) c)))) = Some (r, c')
        \<and> good live now c c'"
  proof (cases rule: source_lookup_total [OF inv, of name])
    case 1
    then show ?thesis using good_refl [OF inv] by simp
  next
    case (2 q s)
    obtain c' where c': "put_source q (\<lambda>_. snd (f s)) c = Some c'" "shm_inv live c'" "src_heap c' = (src_heap c)(q \<mapsto> snd (f s))"
      using put_source_inv [where f = "\<lambda>_. snd (f s)", OF inv 2(2) f] by blast
    have "keeps now c c'"
      using k [of s] n 2(3) f [of s] by (intro keeps_upd [OF 2(2) c'(3)]) (simp add: same_source_def)
    then show ?thesis using 2 c' by (simp add: good_def)
  qed
qed

lemma with_session_total:
  assumes inv: "shm_inv live c"
    and f: "\<And>p t. sess_heap c p = Some t \<Longrightarrow> \<exists>r c'. f p t c = Some (r, c') \<and> good live now c c'"
  shows "\<exists>r c'. with_session (Some c) np bad missing f = Some (r, Some c') \<and> good live now c c'"
  unfolding with_session_def
proof (rule shm_guard_total, rule good_refl [OF inv])
  fix ufrag
  show "\<exists>r c'. (ngx_rtc_shm_session_locked_lookup c ufrag \<bind>
          (\<lambda>found. case found of None \<Rightarrow> Some (missing, c) | Some p \<Rightarrow> sess_heap c p \<bind> (\<lambda>sess. f p sess c))) = Some (r, c')
        \<and> good live now c c'"
    by (cases rule: session_lookup_total [OF inv, of ufrag]) (use good_refl [OF inv] f in simp_all)
qed

lemma put_session_good:
  assumes "shm_inv live c" "sess_heap c p = Some t" "same_session t (f t)"
  shows "\<exists>c'. put_session p f c = Some c' \<and> good live now c c'"
  using put_session_inv [OF assms(1,2), of f] assms(3) by (auto simp: good_def)

lemma source_get_good:
  assumes inv: "shm_inv live c" and E: "slab_sound live E"
  shows "\<exists>r c'. ngx_rtc_shm_source_get E (Some c) np = Some (r, Some c') \<and> good live (now_msec E) c c'"
  unfolding ngx_rtc_shm_source_get_def
proof (rule shm_guard_total, rule good_refl [OF inv])
  fix name :: bytes assume l: "length name < NGX_RTC_SHM_SOURCE_NAME_MAX"
  let ?new = "\<lambda>q c. c\<lparr>src_heap := (src_heap c)(q \<mapsto> source_init E name), source_tree := q # source_tree c, source_list := q # source_list c\<rparr>"
  show "\<exists>r c'. (ngx_rtc_shm_source_locked_lookup c name \<bind>
          (\<lambda>found. case found of
             None \<Rightarrow> alloc_or_expire E Slab_source c \<bind>
                (\<lambda>(r, ctx). case r of None \<Rightarrow> Some (None, ctx) | Some q \<Rightarrow> Some (Some q, ?new q ctx))
           | Some q \<Rightarrow> Some (Some q, c))) = Some (r, c') \<and> good live (now_msec E) c c'"
  proof (cases rule: source_lookup_total [OF inv, of name])
    case 1
    obtain r c1 where a: "alloc_or_expire E Slab_source c = Some (r, c1)" "shm_inv live c1" "keeps (now_msec E) c c1"
      "\<And>p. r = Some p \<Longrightarrow> fresh_block live p c1" "fewer c c1"
      using alloc_or_expire_inv [OF inv E] by metis
    show ?thesis
    proof (cases r)
      case None
      then show ?thesis using 1 a by (simp add: good_def)
    next
      case (Some q)
      have f: "fresh_block live q c1" using a(4) Some by blast
      have "source_key s \<noteq> name" if "src_heap c1 x = Some s" for x s
        using a(5) that 1(2) unfolding fewer_def by metis
      then have "shm_inv live (?new q c1)" by (rule add_source_inv [OF a(2) f l])
      moreover have "keeps (now_msec E) c1 (?new q c1)" using f by (intro keeps_new) (auto simp: fresh_block_def)
      ultimately show ?thesis using 1 a Some keeps_trans [OF a(3)] by (simp add: good_def)
    qed
  next
    case (2 q s)
    then show ?thesis using good_refl [OF inv] by simp
  qed
qed

lemma source_remove_good:
  assumes inv: "shm_inv live c" and E: "slab_sound live E"
  shows "\<exists>r c'. ngx_rtc_shm_source_remove E (Some c) np = Some (r, Some c') \<and> good live now c c'"
  unfolding ngx_rtc_shm_source_remove_def
proof (rule shm_guard_total, rule good_refl [OF inv])
  fix name :: bytes
  show "\<exists>r c'. (ngx_rtc_shm_source_locked_lookup c name \<bind>
          (\<lambda>found. case found of None \<Rightarrow> Some ((), c)
           | Some q \<Rightarrow> src_heap c q \<bind>
               (\<lambda>src. if shs_subscribers src \<noteq> [] then Some ((), c)
                      else if shs_publishing src \<noteq> 0 then Some ((), c)
                      else ngx_rtc_shm_source_referenced_locked c q \<bind>
                        (\<lambda>referenced. if referenced then Some ((), c)
                           else map_option (Pair ()) (source_unlink_free E q c))))) = Some (r, c') \<and> good live now c c'"
  proof (cases rule: source_lookup_total [OF inv, of name])
    case 1 then show ?thesis using good_refl [OF inv] by simp
  next
    case (2 q s)
    obtain b where b: "ngx_rtc_shm_source_referenced_locked c q = Some b"
      "b \<longleftrightarrow> (\<exists>p t. sess_heap c p = Some t \<and> she_source t = Some q)"
      using referenced_total [OF inv, of q] by blast
    show ?thesis
    proof (cases "shs_subscribers s \<noteq> [] \<or> shs_publishing s \<noteq> 0 \<or> b")
      case True
      then show ?thesis using 2 b(1) good_refl [OF inv] by auto
    next
      case False
      obtain c' where c': "source_unlink_free E q c = Some c'" "shm_inv live c'" "src_heap c' = (src_heap c)(q := None)"
        using source_free_inv [OF inv E 2(2)] b(2) False by blast
      have "keeps now c c'" using 2(2) False by (auto simp: keeps_def c'(3) held_def)
      then show ?thesis using 2 b(1) False c' by (simp add: good_def)
    qed
  qed
qed

lemma mark_closed_good:
  "shm_inv live c \<Longrightarrow> set ps \<subseteq> dom (sess_heap c) \<Longrightarrow> \<exists>c'. mark_closed ps c = Some c' \<and> good live now c c'"
proof (induction ps arbitrary: c)
  case Nil then show ?case by (simp add: good_refl)
next
  case (Cons p ps)
  let ?f = "\<lambda>t. t\<lparr>she_close_requested := 1\<rparr>"
  obtain t where t: "sess_heap c p = Some t" using Cons.prems(2) by auto
  have "same_session t (?f t)" using shm_invD(3) [OF Cons.prems(1) t] by (auto simp: same_session_def session_ok_def)
  then obtain c1 where c1: "put_session p ?f c = Some c1" "shm_inv live c1" "src_heap c1 = src_heap c" "sess_heap c1 = (sess_heap c)(p \<mapsto> ?f t)"
    using put_session_inv [where f = ?f, OF Cons.prems(1) t] by blast
  then have "set ps \<subseteq> dom (sess_heap c1)" using Cons.prems(2) by auto
  then obtain c2 where "mark_closed ps c1 = Some c2" "good live now c1 c2" using Cons.IH [OF c1(2)] by blast
  then show ?case using c1 by (auto simp: good_def keeps_def)
qed

lemma subscribers_live: "shm_inv live c \<Longrightarrow> src_heap c q = Some s \<Longrightarrow> set (shs_subscribers s) \<subseteq> dom (sess_heap c)"
  using shm_invD(2) [of live c q s] by (auto simp: source_ok_def src_linked_def)

lemma source_request_close_good:
  assumes inv: "shm_inv live c"
  shows "\<exists>r c'. ngx_rtc_shm_source_request_close (Some c) np = Some (r, Some c') \<and> good live now c c'"
  unfolding ngx_rtc_shm_source_request_close_def
proof (rule shm_guard_total, rule good_refl [OF inv])
  fix name :: bytes
  show "\<exists>r c'. (ngx_rtc_shm_source_locked_lookup c name \<bind>
          (\<lambda>found. case found of None \<Rightarrow> Some (NGX_ERROR, c)
           | Some q \<Rightarrow> src_heap c q \<bind> (\<lambda>src. map_option (Pair NGX_OK) (mark_closed (shs_subscribers src) c)))) = Some (r, c')
      \<and> good live now c c'"
  proof (cases rule: source_lookup_total [OF inv, of name])
    case 1 then show ?thesis using good_refl [OF inv] by simp
  next
    case (2 q s)
    then show ?thesis using mark_closed_good [OF inv subscribers_live [OF inv 2(2)], of now] by auto
  qed
qed

lemma snapshot_loop_total: "set ps \<subseteq> dom (sess_heap c) \<Longrightarrow> \<exists>out'. snapshot_loop c mx ps out = Some out'"
  by (induction ps arbitrary: out) auto

lemma source_snapshot_good:
  assumes inv: "shm_inv live c"
  shows "\<exists>r c'. ngx_rtc_shm_source_snapshot (Some c) np mx = Some (r, Some c') \<and> good live now c c'"
  unfolding ngx_rtc_shm_source_snapshot_def
proof (rule shm_guard_total, rule good_refl [OF inv])
  fix name :: bytes
  show "\<exists>r c'. (if mx = 0 then Some ([], c) else ngx_rtc_shm_source_locked_lookup c name \<bind>
          (\<lambda>found. case found of None \<Rightarrow> Some ([], c)
           | Some q \<Rightarrow> src_heap c q \<bind> (\<lambda>src. snapshot_loop c mx (shs_subscribers src) [] \<bind> (\<lambda>out. Some (out, c))))) = Some (r, c')
      \<and> good live now c c'"
  proof (cases rule: source_lookup_total [OF inv, of name])
    case 1 then show ?thesis using good_refl [OF inv] by simp
  next
    case (2 q s)
    obtain out where "snapshot_loop c mx (shs_subscribers s) [] = Some out"
      using snapshot_loop_total [OF subscribers_live [OF inv 2(2)]] by blast
    then show ?thesis using 2 good_refl [OF inv] by simp
  qed
qed

lemma session_add_good:
  assumes inv: "shm_inv live c" and E: "slab_sound live E" and ok: "fst (slab_alloc E Slab_session (pool c)) \<noteq> None"
  shows "\<exists>r c'. ngx_rtc_shm_session_add E (Some c) up pp np vpt apt vext aext pub = Some (r, Some c') \<and> good live (now_msec E) c c'"
  unfolding ngx_rtc_shm_session_add_def
proof (rule shm_guard_total, rule good_refl [OF inv], goal_cases)
  case (1 ufrag)
  show ?case
  proof (cases "\<exists>pwd name. pp = Some pwd \<and> np = Some name \<and> pwd \<noteq> [] \<and> length pwd < NGX_RTC_SHM_PWD_MAX \<and> name \<noteq> [] \<and> length name < NGX_RTC_SHM_SOURCE_NAME_MAX")
    case False
    then show ?thesis using good_refl [OF inv] by (auto split: option.splits)
  next
    case True
    then obtain pwd name where a: "pp = Some pwd" "np = Some name"
      "\<not> (pwd = [] \<or> length pwd \<ge> NGX_RTC_SHM_PWD_MAX \<or> name = [] \<or> length name \<ge> NGX_RTC_SHM_SOURCE_NAME_MAX)" by auto
    show ?thesis
    proof (cases rule: source_lookup_total [OF inv, of name])
      case 1 then show ?thesis using a good_refl [OF inv] by simp
    next
      case (2 q s)
      obtain r c1 where c1: "alloc_or_expire E Slab_session c = Some (r, c1)" "shm_inv live c1" "keeps (now_msec E) c c1"
        "\<And>p. r = Some p \<Longrightarrow> fresh_block live p c1" "src_heap c1 = src_heap c"
        using alloc_or_expire_inv [OF inv E, of Slab_session] ok by metis
      show ?thesis
      proof (cases r)
        case None
        then show ?thesis using a 2 c1 by (simp add: good_def)
      next
        case (Some p)
        let ?t = "session_init E q (next_session_id c1) ufrag pwd vpt apt vext aext pub"
        have "shm_inv live (c1\<lparr>sess_heap := (sess_heap c1)(p \<mapsto> ?t), next_session_id := next_session_id c1 + 1, session_list := p # session_list c1\<rparr>)"
          by (rule add_session_inv [OF c1(2) c1(4) [OF Some], where q = q]) (use 2(2) c1(5) in \<open>auto simp: session_init_def\<close>)
        then show ?thesis using a 2 c1 Some by (simp add: good_same)
      qed
    qed
  qed
qed

lemma take_ownership_simps [simp]:
  "she_source (take_ownership slot t) = she_source t" "she_linked (take_ownership slot t) = she_linked t"
  "she_publishing (take_ownership slot t) = she_publishing t" "she_srtp_ready (take_ownership slot t) = she_srtp_ready t"
  by (simp_all add: take_ownership_def)

lemma same_take_ownership: "session_ok c t \<Longrightarrow> same_session t (take_ownership slot t)"
  by (auto simp: same_session_def session_ok_def take_ownership_def)

lemma session_bind_good:
  assumes inv: "shm_inv live c"
  shows "\<exists>r c'. ngx_rtc_shm_session_bind (Some c) up slot outp = Some (r, Some c') \<and> good live now c c'"
proof (cases outp)
  case None
  then show ?thesis using good_refl [OF inv] by (simp add: ngx_rtc_shm_session_bind_def)
next
  case (Some out)
  show ?thesis
    unfolding ngx_rtc_shm_session_bind_def Some option.case
  proof (rule with_session_total [OF inv])
    fix p t assume t: "sess_heap c p = Some t"
    obtain q s where q: "she_source t = Some q" "src_heap c q = Some s"
      using shm_invD(3) [OF inv t] by (auto simp: session_ok_def)
    obtain c1 where c1: "put_session p (take_ownership slot) c = Some c1" "shm_inv live c1" "src_heap c1 = src_heap c"
      using put_session_inv [where f = "take_ownership slot", OF inv t same_take_ownership [OF shm_invD(3) [OF inv t]]] by blast
    show "\<exists>r c'. (if owned_elsewhere slot t then Some ((NGX_DECLINED, Some snapshot_zero), c)
        else put_session p (take_ownership slot) c \<bind>
          (\<lambda>ctx. case she_source t of None \<Rightarrow> Some ((NGX_OK, Some (snapshot_of t)), ctx)
             | Some q \<Rightarrow> src_heap ctx q \<bind> (\<lambda>src. Some ((NGX_OK, Some (snapshot_source src (snapshot_of t))), ctx)))) = Some (r, c')
        \<and> good live now c c'"
      using good_refl [OF inv] good_same [OF c1(2,3)] q c1 by simp
  qed
qed

lemma session_activate_good:
  assumes inv: "shm_inv live c" and slot: "sint slot \<noteq> - 1"
  shows "\<exists>r c'. ngx_rtc_shm_session_activate (Some c) up slot = Some (r, Some c') \<and> good live now c c'"
  unfolding ngx_rtc_shm_session_activate_def
proof (rule with_session_total [OF inv], goal_cases)
  case (1 p t)
  obtain q s where q: "she_source t = Some q" "src_heap c q = Some s"
    using shm_invD(3) [OF inv 1] by (auto simp: session_ok_def)
  let ?t = "(take_ownership slot t)\<lparr>she_srtp_ready := 1, she_state := 4, she_expires := 0\<rparr>"
  have own: "she_owner_slot (take_ownership slot t) \<noteq> - 1" using slot by (simp add: take_ownership_def)
  have "same_session t ?t" using shm_invD(3) [OF inv 1] own by (auto simp: same_session_def session_ok_def)
  then obtain c1 where c1: "put_session p (\<lambda>_. ?t) c = Some c1" "shm_inv live c1" "src_heap c1 = src_heap c" "sess_heap c1 = (sess_heap c)(p \<mapsto> ?t)"
    using put_session_inv [where f = "\<lambda>_. ?t", OF inv 1] by blast
  show ?case
  proof (cases "owned_elsewhere slot t")
    case True then show ?thesis using good_refl [OF inv] by simp
  next
    case nowhere: False
    show ?thesis
    proof (cases "she_publishing t = 0 \<and> \<not> she_linked t")
      case False
      then show ?thesis using nowhere c1 q good_same [OF c1(2,3)] by (auto simp: Let_def)
    next
      case True
      let ?u = "?t\<lparr>she_linked := True\<rparr>"
      define s' where "s' = (let src = s\<lparr>shs_subscribers := p # shs_subscribers s, shs_version := shs_version s + 1, shs_expires := 0\<rparr>
                          in if she_owner_slot ?t \<noteq> shs_publisher_slot src then src\<lparr>shs_remote := shs_remote src + 1\<rparr> else src)"
      have s': "source_key s' = source_key s" "ring_addr s' = ring_addr s" "shs_subscribers s' = p # shs_subscribers s"
        "held now s' = held now s" "shs_publisher_kind s' = shs_publisher_kind s"
        by (simp_all add: s'_def Let_def source_key_def ring_addr_def held_def publisher_alive_def)
      let ?c = "c1\<lparr>sess_heap := (sess_heap c1)(p \<mapsto> ?u), src_heap := (src_heap c1)(q \<mapsto> s')\<rparr>"
      have "shm_inv live ?c"
        by (rule link_inv [OF c1(2), where t = ?t and s = s]) (use c1(3,4) q True own s' in auto)
      moreover have "keeps now c ?c" by (rule keeps_upd [OF q(2), where s' = s']) (use s' c1(3) in simp_all)
      ultimately have "good live now c ?c" by (simp add: good_def)
      moreover have "put_session p (\<lambda>s. s\<lparr>she_linked := True\<rparr>) c1 = Some (c1\<lparr>sess_heap := (sess_heap c1)(p \<mapsto> ?u)\<rparr>)"
        using c1(4) by (simp add: put_session_def)
      ultimately show ?thesis
        using nowhere True q c1 by (simp add: Let_def put_source_def s'_def)
    qed
  qed
qed

lemma session_remove_good:
  assumes inv: "shm_inv live c" and E: "slab_sound live E"
  shows "\<exists>r c'. ngx_rtc_shm_session_remove_if_owner E (Some c) up slot = Some (r, Some c') \<and> good live (now_msec E) c c'"
  unfolding ngx_rtc_shm_session_remove_if_owner_def
proof (rule with_session_total [OF inv], goal_cases)
  case (1 p t)
  then show ?case using session_free_inv [OF inv E 1] good_refl [OF inv] by (auto simp: good_def)
qed

lemma session_put_good:
  assumes inv: "shm_inv live c" and t: "sess_heap c p = Some t"
    and f: "she_source (f t) = she_source t" "she_linked (f t) = she_linked t" "she_srtp_ready (f t) = she_srtp_ready t"
      "she_owner_slot (f t) = she_owner_slot t" "she_publishing (f t) = she_publishing t"
  shows "\<exists>c'. put_session p f c = Some c' \<and> good live now c c'"
  by (rule put_session_good [OF inv t]) (use f shm_invD(3) [OF inv t] in \<open>auto simp: same_session_def session_ok_def\<close>)

lemma session_set_stats_good:
  assumes inv: "shm_inv live c"
  shows "\<exists>r c'. ngx_rtc_shm_session_set_stats (Some c) up a b d e g = Some (r, Some c') \<and> good live now c c'"
  unfolding ngx_rtc_shm_session_set_stats_def
proof (rule with_session_total [OF inv], goal_cases)
  case (1 p t)
  show ?case
    using session_put_good [OF inv 1, of "\<lambda>s. s\<lparr>she_twcc_lost := a, she_twcc_received := b, she_pacer_bps := d, she_drop_pacer := e, she_drop_gop := g\<rparr>" now]
    by auto
qed

lemma session_set_state_good:
  assumes inv: "shm_inv live c"
  shows "\<exists>r c'. ngx_rtc_shm_session_set_state (Some c) up slot st = Some (r, Some c') \<and> good live now c c'"
  unfolding ngx_rtc_shm_session_set_state_def
proof (rule with_session_total [OF inv], goal_cases)
  case (1 p t)
  show ?case using session_put_good [OF inv 1, of "\<lambda>s. s\<lparr>she_state := st\<rparr>" now] good_refl [OF inv] by auto
qed

lemma session_is_close_good:
  assumes inv: "shm_inv live c"
  shows "\<exists>r c'. ngx_rtc_shm_session_is_close_requested (Some c) up = Some (r, Some c') \<and> good live now c c'"
  unfolding ngx_rtc_shm_session_is_close_requested_def
  by (rule with_session_total [OF inv]) (simp add: good_refl [OF inv])

lemma session_request_close_good:
  assumes inv: "shm_inv live c"
  shows "\<exists>r c'. ngx_rtc_shm_session_request_close (Some c) i = Some (r, Some c') \<and> good live now c c'"
proof (cases rule: session_search_total [OF inv, of "\<lambda>s. she_id s = i"])
  case 1 then show ?thesis using good_refl [OF inv] by (simp add: ngx_rtc_shm_session_request_close_def)
next
  case (2 p t)
  then show ?thesis using session_put_good [OF inv 2(2), of "\<lambda>s. s\<lparr>she_close_requested := 1\<rparr>" now] good_refl [OF inv]
    by (auto simp: ngx_rtc_shm_session_request_close_def)
qed

lemma same_source_fields:
  assumes "shs_name s' = shs_name s" "shs_sn_len s' = shs_sn_len s" "shs_subscribers s' = shs_subscribers s" "ring_addr s' = ring_addr s"
  shows "same_source s s'"
  using assms by (simp add: same_source_def source_key_def)

lemma source_put_good:
  assumes inv: "shm_inv live c" and s: "src_heap c q = Some s" and f: "same_source s (f s)"
    and k: "held now s \<Longrightarrow> held now (f s) \<and> shs_publisher_kind (f s) = shs_publisher_kind s"
  shows "\<exists>c'. put_source q f c = Some c' \<and> good live now c c'"
proof -
  obtain c' where c': "put_source q f c = Some c'" "shm_inv live c'" "src_heap c' = (src_heap c)(q \<mapsto> f s)"
    using put_source_inv [OF inv s, of f] f by blast
  have "keeps now c c'" by (rule keeps_upd [OF s c'(3)]) (use k f in \<open>simp add: same_source_def\<close>)
  then show ?thesis using c' by (simp add: good_def)
qed

lemma retransmit_append_locked_good:
  assumes inv: "shm_inv live c" and E: "slab_sound live E" and s: "src_heap c q = Some s"
  shows "\<exists>c'. retransmit_append_locked E c q rtp len g = Some c' \<and> good live now c c'"
proof -
  let ?s = "s\<lparr>shs_retx_append_locked := shs_retx_append_locked s + 1\<rparr>"
  have upd: "\<exists>c'. put_source q (\<lambda>_. s') c1 = Some c' \<and> good live now c c'"
    if "shm_inv live c1" "src_heap c1 = src_heap c" "shs_name s' = shs_name s" "shs_sn_len s' = shs_sn_len s"
      "shs_subscribers s' = shs_subscribers s" "ring_addr s' = ring_addr s" "held now s' = held now s" "shs_publisher_kind s' = shs_publisher_kind s" for c1 s'
  proof -
    have "\<exists>c'. put_source q (\<lambda>_. s') c1 = Some c' \<and> good live now c1 c'"
      by (rule source_put_good [OF that(1), where s = s]) (use s that in \<open>simp_all add: same_source_fields\<close>)
    then show ?thesis using that(2) by (auto simp: good_def keeps_def)
  qed
  show ?thesis
  proof (cases "shs_remote s = 0")
    case True
    have "\<exists>c'. put_source q (\<lambda>_. retx_took E ?s) c = Some c' \<and> good live now c c'"
      by (rule upd [OF inv refl]) (simp_all add: retx_took_def ring_addr_def held_def publisher_alive_def)
    then show ?thesis using s True by (simp add: retransmit_append_locked_def Let_def)
  next
    case remote: False
    show ?thesis
    proof (cases "shs_retransmit s")
      case (Some ar)
      obtain a r where ar: "ar = (a, r)" by fastforce
      have "\<exists>c'. put_source q (\<lambda>_. retx_took E (?s\<lparr>shs_retransmit := Some (a, retx_store rtp len g r)\<rparr>)) c = Some c' \<and> good live now c c'"
        by (rule upd [OF inv refl]) (simp_all add: retx_took_def ring_addr_def held_def publisher_alive_def Some ar)
      then show ?thesis using s remote Some ar by (simp add: retransmit_append_locked_def Let_def)
    next
      case None
      obtain r m where a: "slab_alloc_locked E Slab_retransmit c = (r, c\<lparr>pool := m\<rparr>)" "shm_inv live (c\<lparr>pool := m\<rparr>)"
        "\<forall>p. r = Some p \<longrightarrow> fresh_block live p (c\<lparr>pool := m\<rparr>)"
        using slab_alloc_inv [OF inv E, of Slab_retransmit] by blast
      show ?thesis
      proof (cases r)
        case rn: None
        have "\<exists>c'. put_source q (\<lambda>_. retx_took E (?s\<lparr>shs_retx_alloc_failed := shs_retx_alloc_failed s + 1\<rparr>)) (c\<lparr>pool := m\<rparr>) = Some c' \<and> good live now c c'"
          by (rule upd [OF a(2)]) (simp_all add: retx_took_def ring_addr_def held_def publisher_alive_def)
        then show ?thesis using s remote None rn a(1)
          by (simp add: retransmit_append_locked_def Let_def ngx_rtc_shm_retransmit_alloc_locked_def)
      next
        case (Some p)
        define ring where "ring = \<lparr>rx_head = 0, rx_count = 0, rx_gop_start = 0, rx_cap = NGX_RTC_SHM_RETX_RING_CAP, rx_slots = replicate 1024 retx_slot_zero\<rparr>"
        define s' where "s' = retx_took E (?s\<lparr>shs_retransmit := Some (p, retx_store rtp len g ring)\<rparr>)"
        have s': "source_key s' = source_key s" "shs_subscribers s' = shs_subscribers s" "ring_addr s' = Some p"
          "held now s' = held now s" "shs_publisher_kind s' = shs_publisher_kind s"
          by (simp_all add: s'_def retx_took_def ring_addr_def held_def publisher_alive_def source_key_def)
        let ?c = "(c\<lparr>pool := m\<rparr>)\<lparr>src_heap := (src_heap (c\<lparr>pool := m\<rparr>))(q \<mapsto> s')\<rparr>"
        have "shm_inv live ?c"
          by (rule add_ring_inv [OF a(2), where s = s and a = p]) (use s a(3) Some s' in auto)
        moreover have "keeps now c ?c" by (rule keeps_upd [OF s, where s' = s']) (use s' in simp_all)
        ultimately show ?thesis using s remote None Some a(1)
          by (simp add: retransmit_append_locked_def Let_def ngx_rtc_shm_retransmit_alloc_locked_def put_source_def good_def s'_def ring_def)
      qed
    qed
  qed
qed

lemma retransmit_append_good:
  assumes inv: "shm_inv live c" and E: "slab_sound live E" and s: "src_heap c q \<noteq> None"
  shows "\<exists>c'. ngx_rtc_shm_retransmit_append E (Some c) (Some q) rp len g = Some (Some c') \<and> good live now c c'"
proof -
  obtain s where s: "src_heap c q = Some s" using s by blast
  show ?thesis
    using retransmit_append_locked_good [OF inv E s, of _ len g now] good_refl [OF inv] s
    by (cases rp) (fastforce simp: ngx_rtc_shm_retransmit_append_def)+
qed

lemma retransmit_reset_good:
  assumes inv: "shm_inv live c"
  shows "\<exists>r c'. ngx_rtc_shm_retransmit_reset (Some c) np = Some (r, Some c') \<and> good live now c c'"
  unfolding ngx_rtc_shm_retransmit_reset_def
  by (rule with_source_total [OF inv])
    (auto simp: same_source_def source_key_def ring_addr_def held_def publisher_alive_def split: option.splits)

lemma retransmit_get_good:
  assumes inv: "shm_inv live c"
  shows "\<exists>r c'. ngx_rtc_shm_retransmit_get (Some c) np sq outp cap lp = Some (r, Some c') \<and> good live now c c'"
proof (cases "outp = None \<or> lp = None")
  case True
  then show ?thesis using good_refl [OF inv] by (auto simp: ngx_rtc_shm_retransmit_get_def split: option.splits)
next
  case False
  then obtain out l where o: "outp = Some out" "lp = Some l" by auto
  show ?thesis
    unfolding ngx_rtc_shm_retransmit_get_def o option.case prod.case
  proof (rule shm_guard_total, rule good_refl [OF inv], goal_cases)
    case (1 name)
    show ?case by (cases rule: source_lookup_total [OF inv, of name]) (use good_refl [OF inv] in \<open>auto split: option.splits\<close>)
  qed
qed

lemma retransmit_replay_good:
  assumes inv: "shm_inv live c"
  shows "\<exists>r c'. ngx_rtc_shm_retransmit_replay_gop E ok (Some c) np cbp op = Some (r, Some c') \<and> good live now c c'"
proof (cases cbp)
  case None
  then show ?thesis using good_refl [OF inv] by (simp add: ngx_rtc_shm_retransmit_replay_gop_def)
next
  case (Some cb)
  show ?thesis
    unfolding ngx_rtc_shm_retransmit_replay_gop_def Some option.case
  proof (rule shm_guard_total, rule good_refl [OF inv], goal_cases)
    case (1 name)
    show ?case
    proof (cases rule: source_lookup_total [OF inv, of name])
      case 1 then show ?thesis using good_refl [OF inv] by simp
    next
      case (2 q s)
      show ?thesis
      proof (cases "shs_retransmit s")
        case None then show ?thesis using 2 good_refl [OF inv] by simp
      next
        case (Some ar)
        obtain a r where ar: "ar = (a, r)" by fastforce
        let ?f = "\<lambda>src. src\<lparr>shs_retx_replay_count := shs_retx_replay_count src + 1,
             shs_retx_replay_slots := shs_retx_replay_slots src + word_of_nat (length (retx_gop r)),
             shs_retx_replay_us := shs_retx_replay_us src + (snd (clock_us E) - fst (clock_us E))\<rparr>"
        have "\<exists>c'. put_source q ?f c = Some c' \<and> good live now c c'"
          by (rule source_put_good [OF inv 2(2)]) (simp_all add: same_source_def source_key_def ring_addr_def held_def publisher_alive_def)
        then show ?thesis using 2 Some ar good_refl [OF inv] by (auto simp: Let_def)
      qed
    qed
  qed
qed

section \<open>The operations of all workers as steps of the zone\<close>

text \<open>
  The publisher's lock-free stores into the source it cached: the heartbeat of every packet and, on a
  claim, the worker's slot (\<^verbatim>\<open>ngx_rtmp_rtc_shm_stats\<close>, \<^verbatim>\<open>ngx_rtmp_rtc_sync_shm\<close>).
\<close>

definition publisher_heartbeat :: "'m shm_env \<Rightarrow> nat \<Rightarrow> int option \<Rightarrow> 'm ngx_rtc_shm_ctx \<Rightarrow> 'm ngx_rtc_shm_ctx option" where
  "publisher_heartbeat E q slotp ctx =
     put_source q (\<lambda>s. (case slotp of None \<Rightarrow> s | Some slot \<Rightarrow> s\<lparr>shs_publisher_slot := slot\<rparr>)\<lparr>shs_seen_ms := now_msec E\<rparr>) ctx"

datatype shm_op =
    Source_get "bytes option"
  | Source_remove "bytes option"
  | Add_send_stats "bytes option" u64 u64
  | Try_publish "bytes option" u64
  | Release_publish "bytes option" u64
  | Set_pt "bytes option" u8 u8
  | Set_ssrc "bytes option" u32 u32
  | Source_request_close "bytes option"
  | Source_snapshot "bytes option" nat
  | Session_add "bytes option" "bytes option" "bytes option" u8 u8 u8 u8 u8
  | Session_bind "bytes option" u64
  | Session_activate "bytes option" u64
  | Session_remove_if_owner "bytes option" u64
  | Session_request_close u64
  | Session_is_close_requested "bytes option"
  | Session_set_stats "bytes option" u64 u64 u64 u64 u64
  | Session_set_state "bytes option" u64 u8
  | Expire bool
  | Retransmit_reset "bytes option"
  | Retransmit_append nat "bytes option" nat bool
  | Retransmit_append_locked nat bytes nat bool
  | Retransmit_get "bytes option" u16 "bytes option" nat
  | Retransmit_replay_gop "bytes option" bool
  | Heartbeat nat "int option"

definition zone :: "('r \<times> 'm ngx_rtc_shm_ctx option) option \<Rightarrow> 'm ngx_rtc_shm_ctx option" where
  "zone x = Option.bind x snd"

fun shm_exec :: "shm_op \<Rightarrow> 'm shm_env \<Rightarrow> 'm ngx_rtc_shm_ctx \<Rightarrow> 'm ngx_rtc_shm_ctx option" where
  "shm_exec (Source_get np) E c = zone (ngx_rtc_shm_source_get E (Some c) np)"
| "shm_exec (Source_remove np) E c = zone (ngx_rtc_shm_source_remove E (Some c) np)"
| "shm_exec (Add_send_stats np a b) E c = zone (ngx_rtc_shm_source_add_send_stats (Some c) np a b)"
| "shm_exec (Try_publish np k) E c = zone (ngx_rtc_shm_source_try_publish E (Some c) np k)"
| "shm_exec (Release_publish np k) E c = zone (ngx_rtc_shm_source_release_publish E (Some c) np k)"
| "shm_exec (Set_pt np a b) E c = zone (ngx_rtc_shm_source_set_pt (Some c) np a b)"
| "shm_exec (Set_ssrc np a b) E c = zone (ngx_rtc_shm_source_set_ssrc (Some c) np a b)"
| "shm_exec (Source_request_close np) E c = zone (ngx_rtc_shm_source_request_close (Some c) np)"
| "shm_exec (Source_snapshot np mx) E c = zone (ngx_rtc_shm_source_snapshot (Some c) np mx)"
| "shm_exec (Session_add up pp np a b d e f) E c = zone (ngx_rtc_shm_session_add E (Some c) up pp np a b d e f)"
| "shm_exec (Session_bind up slot) E c = zone (ngx_rtc_shm_session_bind (Some c) up slot (Some snapshot_zero))"
| "shm_exec (Session_activate up slot) E c = zone (ngx_rtc_shm_session_activate (Some c) up slot)"
| "shm_exec (Session_remove_if_owner up slot) E c = zone (ngx_rtc_shm_session_remove_if_owner E (Some c) up slot)"
| "shm_exec (Session_request_close i) E c = zone (ngx_rtc_shm_session_request_close (Some c) i)"
| "shm_exec (Session_is_close_requested up) E c = zone (ngx_rtc_shm_session_is_close_requested (Some c) up)"
| "shm_exec (Session_set_stats up a b d e f) E c = zone (ngx_rtc_shm_session_set_stats (Some c) up a b d e f)"
| "shm_exec (Session_set_state up slot st) E c = zone (ngx_rtc_shm_session_set_state (Some c) up slot st)"
| "shm_exec (Expire forced) E c = Option.bind (ngx_rtc_shm_expire E (Some c) forced) id"
| "shm_exec (Retransmit_reset np) E c = zone (ngx_rtc_shm_retransmit_reset (Some c) np)"
| "shm_exec (Retransmit_append q rp len g) E c = Option.bind (ngx_rtc_shm_retransmit_append E (Some c) (Some q) rp len g) id"
| "shm_exec (Retransmit_append_locked q rtp len g) E c = retransmit_append_locked E c q rtp len g"
| "shm_exec (Retransmit_get np sq outp cap) E c = zone (ngx_rtc_shm_retransmit_get (Some c) np sq outp cap (Some 0))"
| "shm_exec (Retransmit_replay_gop np ok) E c =
     zone (ngx_rtc_shm_retransmit_replay_gop E ok (Some c) np (Some (\<lambda>op data n g. (NGX_OK, op))) ())"
| "shm_exec (Heartbeat q slotp) E c = publisher_heartbeat E q slotp c"

text \<open>
  What the callers must see to: the source pointers they cached are still valid, a worker's slot is not
  \<open>-1\<close>. The model's own proviso: the first allocation in \<^verbatim>\<open>session_add\<close> succeeds.
\<close>

definition op_ok :: "shm_op \<Rightarrow> 'm shm_env \<Rightarrow> 'm ngx_rtc_shm_ctx \<Rightarrow> bool" where
  "op_ok op E c =
     (case op of
        Session_add up pp np a b d e f \<Rightarrow> fst (slab_alloc E Slab_session (pool c)) \<noteq> None
      | Session_activate up slot \<Rightarrow> sint slot \<noteq> - 1
      | Retransmit_append q rp len g \<Rightarrow> src_heap c q \<noteq> None
      | Retransmit_append_locked q rtp len g \<Rightarrow> src_heap c q \<noteq> None
      | Heartbeat q slotp \<Rightarrow> src_heap c q \<noteq> None
      | _ \<Rightarrow> True)"

lemma zone_good: "\<exists>r c'. x = Some (r, Some c') \<and> good live now c c' \<Longrightarrow> \<exists>c'. zone x = Some c' \<and> good live now c c'"
  by (auto simp: zone_def)

lemma expire_good:
  assumes "shm_inv live c" "slab_sound live E"
  shows "\<exists>c'. Option.bind (ngx_rtc_shm_expire E (Some c) forced) id = Some c' \<and> good live (now_msec E) c c'"
  using expire_locked_inv [OF assms, of forced] by (auto simp: ngx_rtc_shm_expire_def good_def)

lemma heartbeat_good:
  assumes inv: "shm_inv live c" and s: "src_heap c q \<noteq> None" and now: "now_msec E \<noteq> 0"
  shows "\<exists>c'. publisher_heartbeat E q slotp c = Some c' \<and> good live (now_msec E) c c'"
proof -
  obtain s where s: "src_heap c q = Some s" using s by blast
  show ?thesis
    unfolding publisher_heartbeat_def
    by (rule source_put_good [OF inv s])
      (use now in \<open>auto simp: same_source_def source_key_def ring_addr_def held_def publisher_alive_def split: option.splits\<close>)
qed

lemma try_publish_good:
  assumes inv: "shm_inv live c" and now: "now_msec E \<noteq> 0"
  shows "\<exists>r c'. ngx_rtc_shm_source_try_publish E (Some c) np k = Some (r, Some c') \<and> good live (now_msec E) c c'"
  unfolding ngx_rtc_shm_source_try_publish_def
  by (rule with_source_total [OF inv])
    (use now in \<open>auto simp: same_source_def source_key_def ring_addr_def held_def publisher_alive_def\<close>)


lemma shm_exec_good:
  assumes inv: "shm_inv live c" and E: "slab_sound live E" and ok: "op_ok op E c" and now: "now_msec E \<noteq> 0"
  shows "\<exists>c'. shm_exec op E c = Some c' \<and> shm_inv live c'
    \<and> (\<forall>q s. src_heap c q = Some s \<and> held (now_msec E) s \<and> shs_publisher_kind s \<noteq> 0
          \<and> op \<noteq> Release_publish (Some (source_key s)) (shs_publisher_kind s) \<longrightarrow>
        (\<exists>s'. src_heap c' q = Some s' \<and> held (now_msec E) s' \<and> shs_publisher_kind s' = shs_publisher_kind s \<and> source_key s' = source_key s))"
proof (cases "\<exists>np k. op = Release_publish np k")
  case True
  then obtain np k where op: "op = Release_publish np k" by blast
  let ?f = "\<lambda>src. if shs_publisher_kind src \<noteq> k then ((), src)
       else (let src = src\<lparr>shs_publisher_kind := NGX_RTC_PUBLISHER_NONE, shs_publishing := 0\<rparr>
             in ((), if shs_subscribers src \<noteq> [] then src\<lparr>shs_expires := 0\<rparr>
                     else if shs_expires src = 0 then src\<lparr>shs_expires := now_msec E + NGX_RTC_SHM_SOURCE_EXPIRE_MS\<rparr>
                     else src))"
  have same: "same_source s (snd (?f s))" for s
    by (simp add: same_source_def source_key_def ring_addr_def Let_def)
  obtain r c' where c': "ngx_rtc_shm_source_release_publish E (Some c) np k = Some (r, Some c')" "shm_inv live c'"
    "\<And>q s. src_heap c q = Some s \<Longrightarrow> \<exists>s'. src_heap c' q = Some s' \<and> source_key s' = source_key s
       \<and> (s' = s \<or> np = Some (source_key s) \<and> shs_publisher_kind s = k)"
    unfolding ngx_rtc_shm_source_release_publish_def with_source_def
  proof (atomize_elim, rule shm_guard_total, goal_cases)
    case 1 then show ?case using inv by auto
  next
    case (2 name)
    show ?case
    proof (cases rule: source_lookup_total [OF inv, of name])
      case 1 then show ?thesis using inv by auto
    next
      case lk: (2 q s)
      obtain c' where c': "put_source q (\<lambda>_. snd (?f s)) c = Some c'" "shm_inv live c'" "src_heap c' = (src_heap c)(q \<mapsto> snd (?f s))"
        using put_source_inv [where f = "\<lambda>_. snd (?f s)", OF inv lk(2) same] by blast
      show ?thesis using lk c' same [of s] 2(1)
        by (intro exI [of _ "()"] exI [of _ c']) (auto simp: same_source_def)
    qed
  qed
  then show ?thesis unfolding op by (intro exI [of _ c']) (fastforce simp: zone_def)
next
  case False
  have "\<exists>c'. shm_exec op E c = Some c' \<and> good live (now_msec E) c c'"
  proof (cases op)
    case (Release_publish np k) then show ?thesis using False by blast
  next
    case (Add_send_stats np a b)
    have "\<exists>r c'. ngx_rtc_shm_source_add_send_stats (Some c) np a b = Some (r, Some c') \<and> good live (now_msec E) c c'"
      unfolding ngx_rtc_shm_source_add_send_stats_def
      by (rule with_source_total [OF inv]) (simp_all add: same_source_def source_key_def ring_addr_def held_def publisher_alive_def)
    then show ?thesis unfolding Add_send_stats shm_exec.simps by (rule zone_good)
  next
    case (Set_pt np a b)
    have "\<exists>r c'. ngx_rtc_shm_source_set_pt (Some c) np a b = Some (r, Some c') \<and> good live (now_msec E) c c'"
      unfolding ngx_rtc_shm_source_set_pt_def
      by (rule with_source_total [OF inv]) (simp_all add: Let_def same_source_def source_key_def ring_addr_def held_def publisher_alive_def)
    then show ?thesis unfolding Set_pt shm_exec.simps by (rule zone_good)
  next
    case (Set_ssrc np a b)
    have "\<exists>r c'. ngx_rtc_shm_source_set_ssrc (Some c) np a b = Some (r, Some c') \<and> good live (now_msec E) c c'"
      unfolding ngx_rtc_shm_source_set_ssrc_def
      by (rule with_source_total [OF inv]) (simp_all add: Let_def same_source_def source_key_def ring_addr_def held_def publisher_alive_def)
    then show ?thesis unfolding Set_ssrc shm_exec.simps by (rule zone_good)
  next
    case (Retransmit_append q rp len g)
    then show ?thesis using retransmit_append_good [OF inv E, of q rp len g "now_msec E"] ok by (auto simp: op_ok_def)
  next
    case (Retransmit_append_locked q rtp len g)
    then obtain s where "src_heap c q = Some s" using ok by (auto simp: op_ok_def)
    then show ?thesis using retransmit_append_locked_good [OF inv E] Retransmit_append_locked by simp
  next
    case (Heartbeat q slotp)
    then show ?thesis using heartbeat_good [OF inv _ now, of q slotp] ok by (simp add: op_ok_def)
  next
    case (Expire forced) then show ?thesis using expire_good [OF inv E] by simp
  next
    case (Session_activate up slot)
    then have "sint slot \<noteq> - 1" using ok by (simp add: op_ok_def)
    from session_activate_good [OF inv this] show ?thesis unfolding Session_activate shm_exec.simps by (rule zone_good)
  next
    case (Session_add up pp np a b d e f)
    then have "fst (slab_alloc E Slab_session (pool c)) \<noteq> None" using ok by (simp add: op_ok_def)
    from session_add_good [OF inv E this] show ?thesis unfolding Session_add shm_exec.simps by (rule zone_good)
  qed (simp_all only: shm_exec.simps,
       (rule zone_good, (rule source_get_good source_remove_good try_publish_good source_request_close_good source_snapshot_good
          session_bind_good session_remove_good session_request_close_good session_is_close_good session_set_stats_good
          session_set_state_good retransmit_reset_good retransmit_get_good retransmit_replay_good, (rule inv E now)+))+)
  then show ?thesis by (auto simp: good_def keeps_def)
qed

section \<open>What all reachable zones satisfy\<close>

text \<open>A fresh zone, and the zones that workers can bring it to.\<close>

definition shm_fresh :: "'m \<Rightarrow> u64 \<Rightarrow> 'm ngx_rtc_shm_ctx" where
  "shm_fresh m n = \<lparr>pool = m, src_heap = \<lambda>_. None, sess_heap = \<lambda>_. None, source_tree = [], source_list = [], session_list = [],
     next_session_id = 1, nworkers = n, layout = NGX_RTC_SHM_LAYOUT\<rparr>"

inductive shm_reach :: "('m \<Rightarrow> nat set) \<Rightarrow> 'm ngx_rtc_shm_ctx \<Rightarrow> bool" for live where
  fresh: "shm_reach live (shm_fresh m n)"
| step: "shm_reach live c \<Longrightarrow> slab_sound live E \<Longrightarrow> op_ok op E c \<Longrightarrow> now_msec E \<noteq> 0 \<Longrightarrow> shm_exec op E c = Some c' \<Longrightarrow> shm_reach live c'"

inductive_cases shm_reachE: "shm_reach live c"

lemma shm_reach_inv: "shm_reach live c \<Longrightarrow> shm_inv live c"
proof (induction rule: shm_reach.induct)
  case (fresh m n)
  show ?case
    by (rule shm_invI) (simp_all add: shm_fresh_def lists_ok_def names_ok_def blocks_ok_def)
next
  case (step c E op c')
  then show ?case using shm_exec_good [OF step.IH step.hyps(2,3,4)] by simp
qed


text \<open>A slab with room for \<open>room\<close> objects; its state is the list of the blocks in use.\<close>

definition room_env :: "nat \<Rightarrow> u64 \<Rightarrow> nat list shm_env" where
  "room_env room now = \<lparr>slab_alloc = \<lambda>req L. if length L < room then (Some (Suc (sum_list L)), Suc (sum_list L) # L) else (None, L),
     slab_free = removeAll, now_msec = now, random_ssrc = (1, 2), clock_us = (0, 0)\<rparr>"

lemma room_env_sound: "slab_sound set (room_env room now)"
  using member_le_sum_list by (fastforce simp: slab_sound_def room_env_def split: if_splits)

definition demo_source_get :: shm_op where "demo_source_get = Source_get (Some [97])"
definition demo_session_add :: shm_op where "demo_session_add = Session_add (Some [117]) (Some [112]) (Some [97]) 102 111 0 0 0"

lemmas shm_run_simps = shm_exec.simps zone_def demo_source_get_def demo_session_add_def ngx_rtc_shm_source_get_def
  ngx_rtc_shm_session_add_def ngx_rtc_shm_session_activate_def shm_guard_def with_session_def
  ngx_rtc_shm_source_locked_lookup_def ngx_rtc_shm_session_locked_lookup_def alloc_or_expire_def slab_alloc_locked_def room_env_def shm_fresh_def
  session_init_def ufrag_matches_def ngx_rtc_shm_expire_locked_def ngx_rtc_shm_source_referenced_locked_def source_unlink_free_def
  put_session_def put_source_def owned_elsewhere_def take_ownership_def buf_put_def

lemma key_of_init: "source_key (source_init E [97]) = [97]"
  by simp

lemma source_init_sel [simp]:
  "shs_publishing (source_init E name) = 0" "shs_subscribers (source_init E name) = []" "shs_retransmit (source_init E name) = None"
  "shs_expires (source_init E name) = now_msec E + 10000" "shs_publisher_slot (source_init E name) = - 1"
  by (simp_all add: source_init_def)

text \<open>With room for everything: one source, one skeleton on it.\<close>

definition demo_zone :: "nat list ngx_rtc_shm_ctx" where
  "demo_zone = (shm_fresh [2, 1] 1)\<lparr>src_heap := [1 \<mapsto> source_init (room_env 9 5) [97]], source_tree := [1], source_list := [1],
     sess_heap := [2 \<mapsto> session_init (room_env 9 5) 1 1 [117] [112] 102 111 0 0 0], next_session_id := 2, session_list := [2]\<rparr>"

lemma demo_zone_reached:
  "shm_reach set demo_zone"
proof -
  have r0: "shm_reach set (shm_fresh [] 1)" by (rule shm_reach.fresh)
  let ?c1 = "(shm_fresh [1] 1)\<lparr>src_heap := [1 \<mapsto> source_init (room_env 9 5) [97]], source_tree := [1], source_list := [1]\<rparr>"
  have s1: "shm_exec demo_source_get (room_env 9 5) (shm_fresh [] 1) = Some ?c1" by (simp add: shm_run_simps)
  have r1: "shm_reach set ?c1"
    by (rule shm_reach.step [OF r0 room_env_sound _ _ s1]) (simp_all add: op_ok_def demo_source_get_def room_env_def)
  have s2: "shm_exec demo_session_add (room_env 9 5) ?c1 = Some demo_zone"
    using key_of_init [of "room_env 9 5"] by (simp add: shm_run_simps demo_zone_def numeral_2_eq_2)
  show ?thesis
    by (rule shm_reach.step [OF r1 room_env_sound _ _ s2]) (simp_all add: op_ok_def demo_session_add_def room_env_def shm_fresh_def)
qed


text \<open>
  The allocation failure that \<open>op_ok\<close> excludes: in a zone with room for one more object the reaper that
  \<^verbatim>\<open>session_add\<close> forces frees the very source it has just looked up, the retried allocation succeeds,
  and the new skeleton points at freed memory; the viewer's activation then reads and writes through it.
\<close>

theorem shm_add_dangles:
  "\<exists>c1 c2 t. shm_exec demo_source_get (room_env 1 5) (shm_fresh [] 1) = Some c1
    \<and> shm_exec demo_session_add (room_env 1 5) c1 = Some c2
    \<and> sess_heap c2 1 = Some t \<and> she_source t = Some 1 \<and> src_heap c2 1 = None
    \<and> shm_exec (Session_activate (Some [117]) 0) (room_env 1 5) c2 = None"
proof -
  let ?E = "room_env 1 5"
  let ?c1 = "(shm_fresh [1] 1)\<lparr>src_heap := [1 \<mapsto> source_init ?E [97]], source_tree := [1], source_list := [1]\<rparr>"
  let ?t = "session_init ?E 1 1 [117] [112] 102 111 0 0 0"
  let ?c2 = "(shm_fresh [1] 1)\<lparr>sess_heap := [1 \<mapsto> ?t], next_session_id := 2, session_list := [1]\<rparr>"
  have s1: "shm_exec demo_source_get ?E (shm_fresh [] 1) = Some ?c1" by (simp add: shm_run_simps)
  have s2: "shm_exec demo_session_add ?E ?c1 = Some ?c2"
    using key_of_init [of ?E] by (simp add: shm_run_simps)
  have "shm_exec (Session_activate (Some [117]) 0) ?E ?c2 = None" by (simp add: shm_run_simps)
  then show ?thesis using s1 s2 by (intro exI [of _ ?c1] exI [of _ ?c2] exI [of _ ?t]) (simp add: session_init_def shm_fresh_def)
qed

lemma try_publish_busy:
  assumes inv: "shm_inv live c" and s: "src_heap c q = Some s" and kind: "shs_publisher_kind s \<noteq> 0" and k: "k \<noteq> shs_publisher_kind s"
  shows "\<exists>rc. ngx_rtc_shm_source_try_publish E (Some c) (Some (source_key s)) k = Some (rc, Some c) \<and> rc \<noteq> NGX_OK"
proof (cases "source_key s = [] \<or> length (source_key s) \<ge> NGX_RTC_SHM_SOURCE_NAME_MAX")
  case True
  then show ?thesis by (auto simp: ngx_rtc_shm_source_try_publish_def with_source_def shm_guard_def)
next
  case False
  have "ngx_rtc_shm_source_locked_lookup c (source_key s) = Some (Some q)"
  proof (cases rule: source_lookup_total [OF inv, of "source_key s"])
    case 1 then show ?thesis using s by auto
  next
    case (2 q' s')
    then have "q' = q" using shm_invD(4) [OF inv] s unfolding names_ok_def by metis
    then show ?thesis using 2 by simp
  qed
  then show ?thesis using s kind k False
    by (simp add: ngx_rtc_shm_source_try_publish_def with_source_def shm_guard_def put_source_def fun_upd_idem)
qed

text \<open>
  C15. A name has one publisher at a time, across all workers: in every reachable zone, while the publisher
  of a source is alive (it claimed the source and sent its heartbeat within the grace period) no operation of
  any worker except its own release takes the source away, frees it, renames it or changes the kind of its
  publisher, and afterwards every claim of another kind is still refused and changes nothing.
\<close>

theorem shm_publish_exclusive:
  assumes "shm_reach live c" "slab_sound live E" "op_ok op E c" "now_msec E \<noteq> 0"
    and "src_heap c q = Some s" "shs_publishing s \<noteq> 0" "publisher_alive (now_msec E) s" "shs_publisher_kind s \<noteq> 0"
    and "op \<noteq> Release_publish (Some (source_key s)) (shs_publisher_kind s)" "shm_exec op E c = Some c'"
  shows "\<exists>s'. src_heap c' q = Some s' \<and> shs_publishing s' \<noteq> 0 \<and> publisher_alive (now_msec E) s'
      \<and> shs_publisher_kind s' = shs_publisher_kind s \<and> source_key s' = source_key s
      \<and> (\<forall>k. k \<noteq> shs_publisher_kind s \<longrightarrow>
          (\<exists>rc. ngx_rtc_shm_source_try_publish E (Some c') (Some (source_key s)) k = Some (rc, Some c') \<and> rc \<noteq> NGX_OK))"
proof -
  have inv': "shm_inv live c'" using shm_exec_good [OF shm_reach_inv [OF assms(1)] assms(2-4)] assms(10) by simp
  have "held (now_msec E) s" using assms(6,7) by (simp add: held_def)
  then obtain s' where s': "src_heap c' q = Some s'" "held (now_msec E) s'" "shs_publisher_kind s' = shs_publisher_kind s" "source_key s' = source_key s"
    using shm_exec_good [OF shm_reach_inv [OF assms(1)] assms(2-4)] assms(5,8,9,10) by fastforce
  show ?thesis
    using s' assms(8) try_publish_busy [OF inv' s'(1)] by (intro exI [of _ s']) (auto simp: held_def)
qed

text \<open>The demonstration zone after an RTMP publisher has claimed the source.\<close>

definition demo_claimed :: "nat list ngx_rtc_shm_ctx" where
  "demo_claimed = demo_zone\<lparr>src_heap := [1 \<mapsto> (source_init (room_env 9 5) [97])\<lparr>shs_publisher_kind := 1, shs_publishing := 1,
     shs_expires := 0, shs_seen_ms := 5\<rparr>]\<rparr>"

lemma demo_claimed_reached: "shm_reach set demo_claimed"
proof -
  have s: "shm_exec (Try_publish (Some [97]) 1) (room_env 9 5) demo_zone = Some demo_claimed"
    using key_of_init [of "room_env 9 5"]
    by (simp add: demo_claimed_def demo_zone_def shm_fresh_def zone_def ngx_rtc_shm_source_try_publish_def with_source_def
        shm_guard_def ngx_rtc_shm_source_locked_lookup_def put_source_def source_init_def room_env_def)
  show ?thesis by (rule shm_reach.step [OF demo_zone_reached room_env_sound _ _ s]) (simp_all add: op_ok_def room_env_def)
qed

theorem shm_publish_exclusive_witness:
  "\<exists>c' s'. shm_exec (Expire True) (room_env 9 7) demo_claimed = Some c' \<and> src_heap c' 1 = Some s' \<and> shs_publisher_kind s' = 1"
proof -
  let ?s = "(source_init (room_env 9 5) [97])\<lparr>shs_publisher_kind := 1, shs_publishing := 1, shs_expires := 0, shs_seen_ms := 5\<rparr>"
  obtain c' where c': "shm_exec (Expire True) (room_env 9 7) demo_claimed = Some c'"
    using expire_good [OF shm_reach_inv [OF demo_claimed_reached] room_env_sound [of 9 7], where forced = True] by auto
  have s: "src_heap demo_claimed 1 = Some ?s" by (simp add: demo_claimed_def)
  show ?thesis
    using shm_publish_exclusive [OF demo_claimed_reached room_env_sound [of 9 7] _ _ s _ _ _ _ c'] c'
    by (auto simp: op_ok_def room_env_def publisher_alive_def)
qed
end
