(* ===== verification/Registry.thy ===== *)
theory Registry
  imports Shm SessionFsm
begin

text \<open>
  The registry of sources and sessions of one worker process (\<^verbatim>\<open>ngx_rtc_core.c\<close>). As in the
  theory \<open>Shm\<close>, objects live in heaps from addresses to records, and an operation that reads
  or writes a freed or wild address evaluates to \<open>None\<close>. The intrusive queues are lists of
  addresses in queue order; every session says of each of its two queue nodes whether it is
  zeroed, self-linked, in its queue, or was removed (\<^verbatim>\<open>ngx_queue_remove\<close> leaves the links of the
  removed node unusable). The two red-black trees are nginx's: each is the list of its nodes
  in symmetric order, an insertion puts a node after those that are not greater by the order of
  \<^verbatim>\<open>ngx_str_rbtree_insert_value\<close>, and a lookup returns some node with the key (\<open>tree_pick\<close>,
  a parameter, as is \<^verbatim>\<open>ngx_crc32_long\<close>). C strings are given by their octets before the NUL.
  The process state also holds the shared zone, when one is configured.
\<close>

section \<open>State\<close>

abbreviation NGX_RTC_SOURCE_NAME_MAX :: nat where "NGX_RTC_SOURCE_NAME_MAX \<equiv> 128"
abbreviation ICE_UFRAG_SIZE :: nat where "ICE_UFRAG_SIZE \<equiv> 64"

datatype qnode = Q_null | Q_self | Q_linked | Q_removed

record local_source =
  ls_name :: bytes
  ls_publishing :: u8
  ls_publisher_kind :: u8
  ls_video_ssrc :: u32
  ls_video_pt :: u8
  ls_audio_ssrc :: u32
  ls_audio_pt :: u8
  ls_audio_ctx :: "nat option"
  ls_shm_src :: "nat option"
  ls_shm_sync_ms :: u64
  ls_subscribers :: "nat list"

record local_session =
  lse_source :: "nat option"
  lse_id :: u64
  lse_ice_ufrag :: bytes
  lse_ice_pwd :: bytes
  lse_video_pt :: u8
  lse_audio_pt :: u8
  lse_publishing :: u8
  lse_conn :: "nat option"
  lse_last_active :: u64
  lse_fsm :: "(unit, nat) session_hsm"
  lse_queue :: qnode
  lse_sub_queue :: qnode
  lse_sn_len :: nat

record 'm worker =
  w_sources :: "nat \<Rightarrow> local_source option"
  w_sessions :: "nat \<Rightarrow> local_session option"
  ngx_rtc_source_tree :: "nat list"
  ngx_rtc_session_tree :: "nat list"
  ngx_rtc_sessions :: "nat list"
  w_sh :: "'m ngx_rtc_shm_ctx option"
  w_stream_ctx :: "nat \<Rightarrow> nat option"
  w_posted :: "nat list"

record tree_lib =
  ngx_crc32_long :: "bytes \<Rightarrow> u32"
  tree_pick :: "nat list \<Rightarrow> nat"

section \<open>The trees and queues\<close>

text \<open>\<^verbatim>\<open>ngx_memcmp(a, b, n) < 0\<close> on strings of one length, and the order of the tree.\<close>

fun memcmp_less :: "bytes \<Rightarrow> bytes \<Rightarrow> bool" where
  "memcmp_less (a # as) (b # bs) = (a < b \<or> a = b \<and> memcmp_less as bs)"
| "memcmp_less _ _ = False"

definition str_less :: "tree_lib \<Rightarrow> bytes \<Rightarrow> bytes \<Rightarrow> bool" where
  "str_less T a b =
     (if ngx_crc32_long T a \<noteq> ngx_crc32_long T b then ngx_crc32_long T a < ngx_crc32_long T b
      else if length a \<noteq> length b then length a < length b
      else memcmp_less a b)"

text \<open>\<open>K\<close> reads the key of a node.\<close>

fun tree_insert :: "tree_lib \<Rightarrow> (nat \<Rightarrow> bytes option) \<Rightarrow> bytes \<Rightarrow> nat \<Rightarrow> nat list \<Rightarrow> nat list option" where
  "tree_insert T K key p [] = Some [p]"
| "tree_insert T K key p (q # qs) =
     do { k \<leftarrow> K q;
          if str_less T key k then Some (p # q # qs) else map_option (Cons q) (tree_insert T K key p qs) }"

fun tree_matches :: "(nat \<Rightarrow> bytes option) \<Rightarrow> bytes \<Rightarrow> nat list \<Rightarrow> nat list option" where
  "tree_matches K key [] = Some []"
| "tree_matches K key (q # qs) =
     do { k \<leftarrow> K q;
          ms \<leftarrow> tree_matches K key qs;
          Some (if k = key then q # ms else ms) }"

definition tree_lookup :: "tree_lib \<Rightarrow> (nat \<Rightarrow> bytes option) \<Rightarrow> bytes \<Rightarrow> nat list \<Rightarrow> nat option option" where
  "tree_lookup T K key nodes = map_option (\<lambda>ms. if ms = [] then None else Some (tree_pick T ms)) (tree_matches K key nodes)"

text \<open>The element after \<open>x\<close>; none after the last (the sentinel) or for a node that is not in the list.\<close>

fun succ_in :: "nat \<Rightarrow> nat list \<Rightarrow> nat option" where
  "succ_in x [] = None"
| "succ_in x (y # ys) = (if x = y then (case ys of [] \<Rightarrow> None | z # _ \<Rightarrow> Some z) else succ_in x ys)"

definition head_of :: "nat list \<Rightarrow> nat option" where
  "head_of xs = (case xs of [] \<Rightarrow> None | x # _ \<Rightarrow> Some x)"

definition source_name :: "'m worker \<Rightarrow> nat \<Rightarrow> bytes option" where
  "source_name W q = map_option ls_name (w_sources W q)"

definition session_key :: "'m worker \<Rightarrow> nat \<Rightarrow> bytes option" where
  "session_key W p = map_option (\<lambda>s. take (lse_sn_len s) (lse_ice_ufrag s)) (w_sessions W p)"

text \<open>Stores through pointers.\<close>

definition set_source :: "nat \<Rightarrow> (local_source \<Rightarrow> local_source) \<Rightarrow> 'm worker \<Rightarrow> 'm worker option" where
  "set_source q f W = map_option (\<lambda>s. W\<lparr>w_sources := (w_sources W)(q \<mapsto> f s)\<rparr>) (w_sources W q)"

definition set_session :: "nat \<Rightarrow> (local_session \<Rightarrow> local_session) \<Rightarrow> 'm worker \<Rightarrow> 'm worker option" where
  "set_session p f W = map_option (\<lambda>s. W\<lparr>w_sessions := (w_sessions W)(p \<mapsto> f s)\<rparr>) (w_sessions W p)"

section \<open>Sessions\<close>

definition ngx_rtc_session_find :: "tree_lib \<Rightarrow> 'm worker \<Rightarrow> bytes option \<Rightarrow> nat option option" where
  "ngx_rtc_session_find T W ufragp =
     (case ufragp of
        None \<Rightarrow> Some None
      | Some ufrag \<Rightarrow>
          if length ufrag = 0 \<or> length ufrag \<ge> ICE_UFRAG_SIZE then Some None
          else tree_lookup T (session_key W) ufrag (ngx_rtc_session_tree W))"

definition ngx_rtc_session_first :: "'m worker \<Rightarrow> nat option" where
  "ngx_rtc_session_first W = head_of (ngx_rtc_sessions W)"

text \<open>A self-linked node is its own successor; the links of a zeroed or removed one are wild.\<close>

definition ngx_rtc_session_next :: "'m worker \<Rightarrow> nat option \<Rightarrow> nat option option" where
  "ngx_rtc_session_next W sessp =
     (case sessp of
        None \<Rightarrow> Some (ngx_rtc_session_first W)
      | Some p \<Rightarrow>
          do { sess \<leftarrow> w_sessions W p;
               (case lse_queue sess of
                  Q_linked \<Rightarrow> Some (succ_in p (ngx_rtc_sessions W))
                | Q_self \<Rightarrow> Some (Some p)
                | _ \<Rightarrow> None) })"

text \<open>\<^verbatim>\<open>for (sess = first(); NULL != sess; sess = next(sess))\<close>, left at the first session with \<open>P\<close>.\<close>

partial_function (option) session_loop :: "'m worker \<Rightarrow> (local_session \<Rightarrow> bool) \<Rightarrow> nat option \<Rightarrow> nat option option" where
  "session_loop W P sessp =
     (case sessp of
        None \<Rightarrow> Some None
      | Some p \<Rightarrow>
          do { sess \<leftarrow> w_sessions W p;
               if P sess then Some (Some p)
               else do { nx \<leftarrow> ngx_rtc_session_next W (Some p); session_loop W P nx } })"

definition ngx_rtc_session_find_by_id :: "'m worker \<Rightarrow> u64 \<Rightarrow> nat option option" where
  "ngx_rtc_session_find_by_id W sid = session_loop W (\<lambda>sess. lse_id sess = sid) (ngx_rtc_session_first W)"

definition queue_insert_node :: "qnode \<Rightarrow> nat \<Rightarrow> nat list \<Rightarrow> nat list option" where
  "queue_insert_node node p xs = (if node = Q_linked then None else Some (p # xs))"

definition queue_remove_node :: "qnode \<Rightarrow> nat \<Rightarrow> nat list \<Rightarrow> nat list option" where
  "queue_remove_node node p xs =
     (case node of Q_linked \<Rightarrow> Some (remove1 p xs) | Q_self \<Rightarrow> Some xs | _ \<Rightarrow> None)"

text \<open>Inserting a node that is in a queue would tear that queue; the model has no value for it.\<close>

definition ngx_rtc_session_add :: "tree_lib \<Rightarrow> 'm worker \<Rightarrow> nat option \<Rightarrow> 'm worker option" where
  "ngx_rtc_session_add T W sessp =
     (case sessp of
        None \<Rightarrow> Some W
      | Some p \<Rightarrow>
          do { sess \<leftarrow> w_sessions W p;
               let len = length (lse_ice_ufrag sess);
               if len = 0 then Some W
               else do {
                 queue \<leftarrow> queue_insert_node (lse_queue sess) p (ngx_rtc_sessions W);
                 W \<leftarrow> set_session p (\<lambda>s. s\<lparr>lse_queue := Q_linked, lse_sn_len := len\<rparr>) (W\<lparr>ngx_rtc_sessions := queue\<rparr>);
                 tree \<leftarrow> tree_insert T (session_key W) (lse_ice_ufrag sess) p (ngx_rtc_session_tree W);
                 Some (W\<lparr>ngx_rtc_session_tree := tree\<rparr>) } })"

definition ngx_rtc_session_remove :: "'m worker \<Rightarrow> nat option \<Rightarrow> 'm worker option" where
  "ngx_rtc_session_remove W sessp =
     (case sessp of
        None \<Rightarrow> Some W
      | Some p \<Rightarrow>
          do { sess \<leftarrow> w_sessions W p;
               let W = (if lse_sn_len sess \<noteq> 0 then W\<lparr>ngx_rtc_session_tree := remove1 p (ngx_rtc_session_tree W)\<rparr> else W);
               queue \<leftarrow> queue_remove_node (lse_queue sess) p (ngx_rtc_sessions W);
               set_session p (\<lambda>s. s\<lparr>lse_sn_len := 0, lse_queue := Q_removed\<rparr>) (W\<lparr>ngx_rtc_sessions := queue\<rparr>) })"

section \<open>Sources\<close>

definition ngx_rtc_source_lookup :: "tree_lib \<Rightarrow> 'm worker \<Rightarrow> bytes option \<Rightarrow> nat option option" where
  "ngx_rtc_source_lookup T W namep =
     (case namep of
        None \<Rightarrow> Some None
      | Some name \<Rightarrow>
          if length name = 0 \<or> length name \<ge> NGX_RTC_SOURCE_NAME_MAX then Some None
          else tree_lookup T (source_name W) name (ngx_rtc_source_tree W))"

definition source_calloc :: "bytes \<Rightarrow> local_source" where
  "source_calloc name =
     \<lparr>ls_name = name, ls_publishing = 0, ls_publisher_kind = 0, ls_video_ssrc = 0, ls_video_pt = 0, ls_audio_ssrc = 0,
      ls_audio_pt = 0, ls_audio_ctx = None, ls_shm_src = None, ls_shm_sync_ms = 0, ls_subscribers = []\<rparr>"

text \<open>\<open>newp\<close> is what \<^verbatim>\<open>ngx_calloc\<close> returns.\<close>

definition ngx_rtc_source_create ::
  "tree_lib \<Rightarrow> nat option \<Rightarrow> 'm worker \<Rightarrow> bytes option \<Rightarrow> ((nat option \<times> bool) \<times> 'm worker) option" where
  "ngx_rtc_source_create T newp W namep =
     (case namep of
        None \<Rightarrow> Some ((None, False), W)
      | Some name \<Rightarrow>
          if length name = 0 \<or> length name \<ge> NGX_RTC_SOURCE_NAME_MAX then Some ((None, False), W)
          else do { found \<leftarrow> ngx_rtc_source_lookup T W namep;
                    (case (found, newp) of
                       (Some q, _) \<Rightarrow> Some ((Some q, False), W)
                     | (None, None) \<Rightarrow> Some ((None, False), W)
                     | (None, Some q) \<Rightarrow>
                         do { let W = W\<lparr>w_sources := (w_sources W)(q \<mapsto> source_calloc name)\<rparr>;
                              tree \<leftarrow> tree_insert T (source_name W) name q (ngx_rtc_source_tree W);
                              Some ((Some q, True), W\<lparr>ngx_rtc_source_tree := tree\<rparr>) }) })"

definition ngx_rtc_source_get :: "tree_lib \<Rightarrow> nat option \<Rightarrow> 'm worker \<Rightarrow> bytes option \<Rightarrow> (nat option \<times> 'm worker) option" where
  "ngx_rtc_source_get T newp W namep = map_option (\<lambda>((srcp, created), W). (srcp, W)) (ngx_rtc_source_create T newp W namep)"

definition ngx_rtc_source_find :: "tree_lib \<Rightarrow> 'm worker \<Rightarrow> bytes option \<Rightarrow> nat option option" where
  "ngx_rtc_source_find T W namep = ngx_rtc_source_lookup T W namep"

definition ngx_rtc_source_has_holder :: "'m worker \<Rightarrow> nat option \<Rightarrow> bool option" where
  "ngx_rtc_source_has_holder W srcp =
     (case srcp of
        None \<Rightarrow> Some False
      | Some q \<Rightarrow> map_option (\<lambda>r. r \<noteq> None) (session_loop W (\<lambda>sess. lse_source sess = Some q) (ngx_rtc_session_first W)))"

text \<open>The GOP ring of the source is freed with it (theory \<open>Send\<close> has the ring).\<close>

definition ngx_rtc_source_remove :: "tree_lib \<Rightarrow> 'm worker \<Rightarrow> bytes option \<Rightarrow> 'm worker option" where
  "ngx_rtc_source_remove T W namep =
     do { found \<leftarrow> ngx_rtc_source_lookup T W namep;
          (case found of
             None \<Rightarrow> Some W
           | Some q \<Rightarrow>
               do { src \<leftarrow> w_sources W q;
                    if ls_subscribers src \<noteq> [] then Some W
                    else if ls_publishing src \<noteq> 0 then Some W
                    else do { holder \<leftarrow> ngx_rtc_source_has_holder W (Some q);
                              if holder then Some W
                              else if ls_audio_ctx src \<noteq> None then Some W
                              else Some (W\<lparr>ngx_rtc_source_tree := remove1 q (ngx_rtc_source_tree W),
                                           w_sources := (w_sources W)(q := None)\<rparr>) } }) }"

definition ngx_rtc_source_first :: "'m worker \<Rightarrow> nat option" where
  "ngx_rtc_source_first W = head_of (ngx_rtc_source_tree W)"

definition ngx_rtc_source_next :: "'m worker \<Rightarrow> nat option \<Rightarrow> nat option option" where
  "ngx_rtc_source_next W srcp =
     (case srcp of
        None \<Rightarrow> Some (ngx_rtc_source_first W)
      | Some q \<Rightarrow> do { _ \<leftarrow> w_sources W q; Some (succ_in q (ngx_rtc_source_tree W)) })"

section \<open>Subscriptions\<close>

definition ngx_rtc_source_subscribe :: "'m worker \<Rightarrow> nat option \<Rightarrow> nat option \<Rightarrow> 'm worker option" where
  "ngx_rtc_source_subscribe W srcp sessp =
     (case (srcp, sessp) of
        (Some q, Some p) \<Rightarrow>
          do { sess \<leftarrow> w_sessions W p;
               src \<leftarrow> w_sources W q;
               queue \<leftarrow> queue_insert_node (lse_sub_queue sess) p (ls_subscribers src);
               W \<leftarrow> set_session p (\<lambda>s. s\<lparr>lse_source := Some q, lse_sub_queue := Q_linked\<rparr>) W;
               set_source q (\<lambda>s. s\<lparr>ls_subscribers := queue\<rparr>) W }
      | _ \<Rightarrow> Some W)"

definition ngx_rtc_source_unsubscribe :: "tree_lib \<Rightarrow> 'm worker \<Rightarrow> nat option \<Rightarrow> nat option \<Rightarrow> 'm worker option" where
  "ngx_rtc_source_unsubscribe T W srcp sessp =
     (case (srcp, sessp) of
        (Some q, Some p) \<Rightarrow>
          do { sess \<leftarrow> w_sessions W p;
               if lse_source sess \<noteq> Some q then Some W
               else do {
                 src \<leftarrow> w_sources W q;
                 queue \<leftarrow> (if lse_sub_queue sess \<noteq> Q_null \<and> lse_sub_queue sess \<noteq> Q_self
                          then queue_remove_node (lse_sub_queue sess) p (ls_subscribers src)
                          else Some (ls_subscribers src));
                 W \<leftarrow> set_source q (\<lambda>s. s\<lparr>ls_subscribers := queue\<rparr>) W;
                 W \<leftarrow> set_session p (\<lambda>s. s\<lparr>lse_sub_queue := Q_self, lse_source := None\<rparr>) W;
                 src \<leftarrow> w_sources W q;
                 if ls_subscribers src = [] \<and> ls_publishing src = 0
                 then do { holder \<leftarrow> ngx_rtc_source_has_holder W (Some q);
                           if holder then Some W else ngx_rtc_source_remove T W (Some (ls_name src)) }
                 else Some W } }
      | _ \<Rightarrow> Some W)"

definition ngx_rtc_source_first_subscriber :: "'m worker \<Rightarrow> nat option \<Rightarrow> nat option option" where
  "ngx_rtc_source_first_subscriber W srcp =
     (case srcp of None \<Rightarrow> Some None | Some q \<Rightarrow> map_option (\<lambda>src. head_of (ls_subscribers src)) (w_sources W q))"

text \<open>The successor of a node that is not in this source's queue is read from whatever queue it is in;
  no caller asks for it, and the model has no value for it.\<close>

definition ngx_rtc_source_next_subscriber :: "'m worker \<Rightarrow> nat option \<Rightarrow> nat option \<Rightarrow> nat option option" where
  "ngx_rtc_source_next_subscriber W srcp sessp =
     (case (srcp, sessp) of
        (Some q, Some p) \<Rightarrow>
          do { src \<leftarrow> w_sources W q;
               sess \<leftarrow> w_sessions W p;
               if p \<in> set (ls_subscribers src) then Some (succ_in p (ls_subscribers src)) else None }
      | _ \<Rightarrow> Some None)"

end
