(* ===== verification/RegistrySafe.thy ===== *)
theory RegistrySafe
  imports Registry
begin

text \<open>
  The invariant of the process registry, and that its operations keep it: trees and queues list
  exactly the live objects, names are unique, no session points at a freed source, and the
  subscriber queue of a source is exactly the sessions linked to it. \<open>N\<close> is the set of sessions
  that are allocated but not (or no longer) registered.
\<close>

section \<open>The trees and queues\<close>

lemma tree_matches_total:
  "\<forall>q \<in> set qs. K q \<noteq> None \<Longrightarrow> tree_matches K key qs = Some (filter (\<lambda>q. K q = Some key) qs)"
  by (induction qs) auto

lemma tree_insert_total:
  "\<forall>q \<in> set qs. K q \<noteq> None \<Longrightarrow> \<exists>qs'. tree_insert T K key p qs = Some qs' \<and> set qs' = insert p (set qs)
     \<and> (distinct qs \<and> p \<notin> set qs \<longrightarrow> distinct qs')"
proof (induction qs)
  case (Cons q qs)
  then obtain k qs' where k: "K q = Some k"
    "tree_insert T K key p qs = Some qs'" "set qs' = insert p (set qs)" "distinct qs \<and> p \<notin> set qs \<longrightarrow> distinct qs'" by auto
  then show ?case by (cases "str_less T key k") auto
qed simp

definition pick_sound :: "tree_lib \<Rightarrow> bool" where
  "pick_sound T \<longleftrightarrow> (\<forall>ms. ms \<noteq> [] \<longrightarrow> tree_pick T ms \<in> set ms)"

lemma tree_lookup_total:
  assumes "\<forall>q \<in> set qs. K q \<noteq> None" "pick_sound T"
  obtains (missing) "tree_lookup T K key qs = Some None" "\<forall>q \<in> set qs. K q \<noteq> Some key"
  | (found) q where "tree_lookup T K key qs = Some (Some q)" "q \<in> set qs" "K q = Some key"
proof (cases "filter (\<lambda>q. K q = Some key) qs = []")
  case True
  then show ?thesis using missing assms tree_matches_total [OF assms(1), of key] by (auto simp: tree_lookup_def filter_empty_conv)
next
  case False
  define q where "q = tree_pick T (filter (\<lambda>q. K q = Some key) qs)"
  have "q \<in> set (filter (\<lambda>q. K q = Some key) qs)" using False assms(2) unfolding q_def pick_sound_def by blast
  then have "q \<in> set qs" "K q = Some key" by simp_all
  moreover have "tree_lookup T K key qs = Some (Some q)"
    using False tree_matches_total [OF assms(1), of key] by (simp add: tree_lookup_def q_def)
  ultimately show ?thesis using found by blast
qed

lemma succ_in_split: "x \<notin> set as \<Longrightarrow> succ_in x (as @ x # bs) = head_of bs"
  by (induction as) (auto simp: head_of_def)

section \<open>The invariant\<close>

definition pubkind_ok :: "local_source \<Rightarrow> bool" where
  "pubkind_ok s \<longleftrightarrow> (ls_publishing s \<noteq> 0 \<longleftrightarrow> ls_publisher_kind s \<noteq> 0)"

definition sub_linked :: "'m worker \<Rightarrow> nat \<Rightarrow> nat set" where
  "sub_linked W q = {p. \<exists>t. w_sessions W p = Some t \<and> lse_source t = Some q \<and> lse_sub_queue t = Q_linked}"

definition source_wf :: "'m worker \<Rightarrow> nat \<Rightarrow> local_source \<Rightarrow> bool" where
  "source_wf W q s \<longleftrightarrow> ls_name s \<noteq> [] \<and> length (ls_name s) < NGX_RTC_SOURCE_NAME_MAX \<and> pubkind_ok s
     \<and> distinct (ls_subscribers s) \<and> set (ls_subscribers s) = sub_linked W q"

definition session_wf :: "nat set \<Rightarrow> 'm worker \<Rightarrow> nat \<Rightarrow> local_session \<Rightarrow> bool" where
  "session_wf N W p t \<longleftrightarrow> lse_ice_ufrag t \<noteq> [] \<and> length (lse_ice_ufrag t) < ICE_UFRAG_SIZE \<and> SessionFsm.session_ok (lse_fsm t)
     \<and> (\<forall>q. lse_source t = Some q \<longrightarrow> w_sources W q \<noteq> None)
     \<and> (lse_sub_queue t = Q_self \<or> lse_sub_queue t = Q_linked \<and> lse_source t \<noteq> None)
     \<and> (if p \<in> N then lse_sn_len t = 0 \<and> lse_queue t \<noteq> Q_linked \<and> lse_sub_queue t = Q_self
        else lse_sn_len t = length (lse_ice_ufrag t) \<and> lse_queue t = Q_linked)"

definition reg_lists :: "nat set \<Rightarrow> 'm worker \<Rightarrow> bool" where
  "reg_lists N W \<longleftrightarrow> distinct (ngx_rtc_source_tree W) \<and> set (ngx_rtc_source_tree W) = dom (w_sources W)
     \<and> distinct (ngx_rtc_sessions W) \<and> set (ngx_rtc_sessions W) = dom (w_sessions W) - N
     \<and> distinct (ngx_rtc_session_tree W) \<and> set (ngx_rtc_session_tree W) = dom (w_sessions W) - N"

definition reg_names :: "'m worker \<Rightarrow> bool" where
  "reg_names W \<longleftrightarrow>
     (\<forall>q q' s s'. w_sources W q = Some s \<longrightarrow> w_sources W q' = Some s' \<longrightarrow> ls_name s = ls_name s' \<longrightarrow> q = q')
   \<and> (\<forall>p p' t t'. w_sessions W p = Some t \<longrightarrow> w_sessions W p' = Some t' \<longrightarrow> lse_ice_ufrag t = lse_ice_ufrag t' \<longrightarrow> p = p')"

definition reg_inv :: "nat set \<Rightarrow> 'm worker \<Rightarrow> bool" where
  "reg_inv N W \<longleftrightarrow> reg_lists N W \<and> reg_names W
     \<and> (\<forall>q s. w_sources W q = Some s \<longrightarrow> source_wf W q s)
     \<and> (\<forall>p t. w_sessions W p = Some t \<longrightarrow> session_wf N W p t)"

lemma reg_invI:
  assumes "reg_lists N W" "reg_names W" "\<And>q s. w_sources W q = Some s \<Longrightarrow> source_wf W q s"
    "\<And>p t. w_sessions W p = Some t \<Longrightarrow> session_wf N W p t"
  shows "reg_inv N W"
  using assms by (simp add: reg_inv_def)

lemma reg_invD:
  assumes "reg_inv N W"
  shows "reg_lists N W" "reg_names W" "w_sources W q = Some s \<Longrightarrow> source_wf W q s"
    "w_sessions W p = Some t \<Longrightarrow> session_wf N W p t"
  using assms by (simp_all add: reg_inv_def)

lemma reg_source_unique:
  "reg_inv N W \<Longrightarrow> w_sources W q = Some s \<Longrightarrow> w_sources W q' = Some s' \<Longrightarrow> ls_name s = ls_name s' \<Longrightarrow> q = q'"
  using reg_invD(2) [of N W] unfolding reg_names_def by blast

lemma reg_session_unique:
  "reg_inv N W \<Longrightarrow> w_sessions W p = Some t \<Longrightarrow> w_sessions W p' = Some t' \<Longrightarrow> lse_ice_ufrag t = lse_ice_ufrag t' \<Longrightarrow> p = p'"
  using reg_invD(2) [of N W] unfolding reg_names_def by blast

lemma reg_session_source: "reg_inv N W \<Longrightarrow> w_sessions W p = Some t \<Longrightarrow> lse_source t = Some q \<Longrightarrow> \<exists>s. w_sources W q = Some s"
  using reg_invD(4) [of N W p t] by (auto simp: session_wf_def)

text \<open>What does not touch sessions, queues, trees, names and subscriber lists keeps the invariant.\<close>

definition same_sessions :: "'m worker \<Rightarrow> 'm worker \<Rightarrow> bool" where
  "same_sessions W W' \<longleftrightarrow> w_sessions W' = w_sessions W \<and> ngx_rtc_sessions W' = ngx_rtc_sessions W
     \<and> ngx_rtc_session_tree W' = ngx_rtc_session_tree W \<and> w_stream_ctx W' = w_stream_ctx W \<and> w_posted W' = w_posted W"

definition same_entry :: "local_source \<Rightarrow> local_source \<Rightarrow> bool" where
  "same_entry s s' \<longleftrightarrow> ls_name s' = ls_name s \<and> ls_subscribers s' = ls_subscribers s \<and> (pubkind_ok s \<longrightarrow> pubkind_ok s')"

definition same_registry :: "'m worker \<Rightarrow> 'm worker \<Rightarrow> bool" where
  "same_registry W W' \<longleftrightarrow> same_sessions W W' \<and> ngx_rtc_source_tree W' = ngx_rtc_source_tree W \<and> dom (w_sources W') = dom (w_sources W)
     \<and> (\<forall>q s s'. w_sources W q = Some s \<longrightarrow> w_sources W' q = Some s' \<longrightarrow> same_entry s s')"

lemma same_sessions_refl [simp]: "same_sessions W W"
  by (simp add: same_sessions_def)

lemma same_sessions_trans: "same_sessions W W' \<Longrightarrow> same_sessions W' W'' \<Longrightarrow> same_sessions W W''"
  by (simp add: same_sessions_def)

lemma same_entry_refl [simp]: "same_entry s s"
  by (simp add: same_entry_def)

lemma same_registry_refl [simp]: "same_registry W W"
  by (simp add: same_registry_def)

lemma same_registryD:
  assumes "same_registry W W'"
  shows "same_sessions W W'" "w_sessions W' = w_sessions W" "dom (w_sources W') = dom (w_sources W)"
    "ngx_rtc_source_tree W' = ngx_rtc_source_tree W"
  using assms by (simp_all add: same_registry_def same_sessions_def)

lemma same_registry_source:
  assumes "same_registry W W'" "w_sources W q = Some s"
  obtains s' where "w_sources W' q = Some s'" "same_entry s s'"
proof -
  have "q \<in> dom (w_sources W')" using same_registryD(3) [OF assms(1)] assms(2) by auto
  then obtain s' where "w_sources W' q = Some s'" by blast
  then show ?thesis using that assms unfolding same_registry_def by blast
qed

lemma same_registry_source':
  assumes "same_registry W W'" "w_sources W' q = Some s'"
  obtains s where "w_sources W q = Some s" "same_entry s s'"
proof -
  have "q \<in> dom (w_sources W)" using same_registryD(3) [OF assms(1)] assms(2) by auto
  then obtain s where "w_sources W q = Some s" by blast
  then show ?thesis using that assms unfolding same_registry_def by blast
qed

lemma same_registry_trans:
  assumes "same_registry W W'" "same_registry W' W''"
  shows "same_registry W W''"
proof -
  have "same_entry s s''" if a: "w_sources W q = Some s" "w_sources W'' q = Some s''" for q s s''
  proof -
    obtain s' where s': "w_sources W' q = Some s'" "same_entry s s'" by (rule same_registry_source [OF assms(1) a(1)])
    then have "same_entry s' s''" using assms(2) a(2) unfolding same_registry_def by blast
    then show ?thesis using s'(2) by (auto simp: same_entry_def)
  qed
  then show ?thesis using assms same_sessions_trans by (auto simp: same_registry_def)
qed

lemma same_registry_inv:
  assumes "same_registry W W'" "reg_inv N W"
  shows "reg_inv N W'"
proof (rule reg_invI)
  have ss: "w_sessions W' = w_sessions W" "ngx_rtc_sessions W' = ngx_rtc_sessions W" "ngx_rtc_session_tree W' = ngx_rtc_session_tree W"
    "ngx_rtc_source_tree W' = ngx_rtc_source_tree W" "dom (w_sources W') = dom (w_sources W)"
    using assms(1) by (simp_all add: same_registry_def same_sessions_def)
  show "reg_lists N W'" using reg_invD(1) [OF assms(2)] ss by (simp add: reg_lists_def)
  show "reg_names W'"
    unfolding reg_names_def
  proof (intro conjI allI impI)
    fix q q' s s' assume a: "w_sources W' q = Some s" "w_sources W' q' = Some s'" "ls_name s = ls_name s'"
    obtain r where "w_sources W q = Some r" "same_entry r s" by (rule same_registry_source' [OF assms(1) a(1)])
    moreover obtain r' where "w_sources W q' = Some r'" "same_entry r' s'" by (rule same_registry_source' [OF assms(1) a(2)])
    ultimately show "q = q'" using reg_source_unique [OF assms(2)] a(3) by (auto simp: same_entry_def)
  next
    fix p p' t t' assume "w_sessions W' p = Some t" "w_sessions W' p' = Some t'" "lse_ice_ufrag t = lse_ice_ufrag t'"
    then show "p = p'" using reg_session_unique [OF assms(2)] ss(1) by simp
  qed
  show "source_wf W' q s'" if s': "w_sources W' q = Some s'" for q s'
  proof -
    obtain s where "w_sources W q = Some s" "same_entry s s'" by (rule same_registry_source' [OF assms(1) s'])
    then show ?thesis using reg_invD(3) [OF assms(2)] ss(1) by (auto simp: source_wf_def same_entry_def sub_linked_def)
  qed
  show "session_wf N W' p t" if t: "w_sessions W' p = Some t" for p t
  proof -
    have "session_wf N W p t" using reg_invD(4) [OF assms(2)] t ss(1) by simp
    moreover have "w_sources W' q \<noteq> None" if "w_sources W q \<noteq> None" for q using ss(5) that by auto
    ultimately show ?thesis unfolding session_wf_def by blast
  qed
qed

lemma set_source_same:
  assumes "w_sources W q = Some s" "same_entry s (f s)"
  shows "\<exists>W'. set_source q f W = Some W' \<and> same_registry W W' \<and> w_sh W' = w_sh W \<and> w_sources W' = (w_sources W)(q \<mapsto> f s)"
  using assms by (auto simp: set_source_def same_registry_def same_sessions_def)

section \<open>Walking the sessions\<close>

lemma session_loop_scan:
  assumes "reg_inv N W" "ngx_rtc_sessions W = as @ bs"
  shows "session_loop W P (head_of bs) = Some (find (\<lambda>p. P (the (w_sessions W p))) bs)"
  using assms(2)
proof (induction bs arbitrary: as)
  case Nil
  then show ?case by (subst session_loop.simps) (simp add: head_of_def)
next
  case (Cons p bs)
  have l: "distinct (ngx_rtc_sessions W)" "set (ngx_rtc_sessions W) = dom (w_sessions W) - N"
    using reg_invD(1) [OF assms(1)] by (simp_all add: reg_lists_def)
  then have p: "p \<in> dom (w_sessions W) - N" "p \<notin> set as" using Cons.prems by auto
  then obtain t where t: "w_sessions W p = Some t" by blast
  have "lse_queue t = Q_linked" using reg_invD(4) [OF assms(1) t] p(1) by (simp add: session_wf_def)
  then have nx: "ngx_rtc_session_next W (Some p) = Some (head_of bs)"
    using t Cons.prems succ_in_split [OF p(2), of bs] by (simp add: ngx_rtc_session_next_def)
  have IH: "session_loop W P (head_of bs) = Some (find (\<lambda>p. P (the (w_sessions W p))) bs)"
    using Cons.IH [of "as @ [p]"] Cons.prems by simp
  have "session_loop W P (head_of (p # bs)) = (if P t then Some (Some p) else session_loop W P (head_of bs))"
    using t nx by (subst session_loop.simps) (simp add: head_of_def)
  then show ?case using IH t by simp
qed

lemma session_scan: "reg_inv N W \<Longrightarrow> session_loop W P (ngx_rtc_session_first W) = Some (find (\<lambda>p. P (the (w_sessions W p))) (ngx_rtc_sessions W))"
  using session_loop_scan [of N W "[]" "ngx_rtc_sessions W" P] by (simp add: ngx_rtc_session_first_def)

lemma has_holder_iff:
  assumes "reg_inv {} W"
  shows "ngx_rtc_source_has_holder W (Some q) = Some (\<exists>p t. w_sessions W p = Some t \<and> lse_source t = Some q)"
proof -
  have s: "set (ngx_rtc_sessions W) = dom (w_sessions W)" using reg_invD(1) [OF assms] by (simp add: reg_lists_def)
  have "(find (\<lambda>p. lse_source (the (w_sessions W p)) = Some q) (ngx_rtc_sessions W) \<noteq> None)
      = (\<exists>p \<in> dom (w_sessions W). lse_source (the (w_sessions W p)) = Some q)"
    unfolding s [symmetric] by (auto simp: find_None_iff)
  also have "\<dots> = (\<exists>p t. w_sessions W p = Some t \<and> lse_source t = Some q)"
    by force
  finally show ?thesis using session_scan [OF assms] by (simp add: ngx_rtc_source_has_holder_def)
qed

section \<open>Lookups\<close>

lemma source_name_total: "reg_lists N W \<Longrightarrow> \<forall>q \<in> set (ngx_rtc_source_tree W). source_name W q \<noteq> None"
  by (auto simp: reg_lists_def source_name_def)

lemma session_key_total: "reg_lists N W \<Longrightarrow> \<forall>p \<in> set (ngx_rtc_session_tree W). session_key W p \<noteq> None"
  by (auto simp: reg_lists_def session_key_def)

lemma source_lookup_cases:
  assumes "reg_inv N W" "pick_sound T"
  obtains (missing) "ngx_rtc_source_lookup T W (Some name) = Some None" "\<And>q s. w_sources W q = Some s \<Longrightarrow> ls_name s \<noteq> name"
  | (found) q s where "ngx_rtc_source_lookup T W (Some name) = Some (Some q)" "w_sources W q = Some s" "ls_name s = name"
proof (cases "length name = 0 \<or> length name \<ge> NGX_RTC_SOURCE_NAME_MAX")
  case True
  show ?thesis
  proof (rule missing)
    show "ngx_rtc_source_lookup T W (Some name) = Some None" using True by (auto simp: ngx_rtc_source_lookup_def)
    show "ls_name s \<noteq> name" if "w_sources W q = Some s" for q s
      using reg_invD(3) [OF assms(1) that] True by (auto simp: source_wf_def)
  qed
next
  case False
  then have lk: "ngx_rtc_source_lookup T W (Some name) = tree_lookup T (source_name W) name (ngx_rtc_source_tree W)"
    by (auto simp: ngx_rtc_source_lookup_def)
  have l: "set (ngx_rtc_source_tree W) = dom (w_sources W)" using reg_invD(1) [OF assms(1)] by (simp add: reg_lists_def)
  show ?thesis
  proof (cases rule: tree_lookup_total [OF source_name_total [OF reg_invD(1) [OF assms(1)]] assms(2), of name])
    case 1
    have "ls_name s \<noteq> name" if "w_sources W q = Some s" for q s
    proof -
      have "q \<in> set (ngx_rtc_source_tree W)" using that l by auto
      then show ?thesis using 1(2) that by (auto simp: source_name_def)
    qed
    then show ?thesis using missing 1(1) lk by simp
  next
    case (2 q)
    then obtain s where "w_sources W q = Some s" "ls_name s = name" by (auto simp: source_name_def)
    then show ?thesis using found 2(1) lk by simp
  qed
qed

lemma session_find_cases:
  assumes "reg_inv {} W" "pick_sound T"
  obtains (missing) "ngx_rtc_session_find T W (Some u) = Some None" "\<And>p t. w_sessions W p = Some t \<Longrightarrow> lse_ice_ufrag t \<noteq> u"
  | (found) p t where "ngx_rtc_session_find T W (Some u) = Some (Some p)" "w_sessions W p = Some t" "lse_ice_ufrag t = u"
proof (cases "length u = 0 \<or> length u \<ge> ICE_UFRAG_SIZE")
  case True
  show ?thesis
  proof (rule missing)
    show "ngx_rtc_session_find T W (Some u) = Some None" using True by (auto simp: ngx_rtc_session_find_def)
    show "lse_ice_ufrag t \<noteq> u" if "w_sessions W p = Some t" for p t
      using reg_invD(4) [OF assms(1) that] True by (auto simp: session_wf_def)
  qed
next
  case False
  then have lk: "ngx_rtc_session_find T W (Some u) = tree_lookup T (session_key W) u (ngx_rtc_session_tree W)"
    by (auto simp: ngx_rtc_session_find_def)
  have l: "set (ngx_rtc_session_tree W) = dom (w_sessions W)" using reg_invD(1) [OF assms(1)] by (simp add: reg_lists_def)
  have key: "session_key W p = Some (lse_ice_ufrag t)" if "w_sessions W p = Some t" for p t
    using reg_invD(4) [OF assms(1) that] that by (simp add: session_key_def session_wf_def)
  show ?thesis
  proof (cases rule: tree_lookup_total [OF session_key_total [OF reg_invD(1) [OF assms(1)]] assms(2), of u])
    case 1
    have "lse_ice_ufrag t \<noteq> u" if "w_sessions W p = Some t" for p t
    proof -
      have "p \<in> set (ngx_rtc_session_tree W)" using that l by auto
      then show ?thesis using 1(2) key [OF that] by auto
    qed
    then show ?thesis using missing 1(1) lk by simp
  next
    case (2 p)
    then obtain t where "w_sessions W p = Some t" using l by auto
    then show ?thesis using found 2 lk key by simp
  qed
qed

section \<open>Sources\<close>

lemma source_create_inv:
  assumes inv: "reg_inv N W" and T: "pick_sound T" and fresh: "\<And>q. newp = Some q \<Longrightarrow> w_sources W q = None"
  shows "\<exists>srcp created W'. ngx_rtc_source_create T newp W (Some name) = Some ((srcp, created), W') \<and> reg_inv N W' \<and> same_sessions W W'
    \<and> w_sh W' = w_sh W \<and> (\<forall>q s. w_sources W q = Some s \<longrightarrow> w_sources W' q = Some s)
    \<and> (\<forall>q. srcp = Some q \<longrightarrow> (\<exists>s. w_sources W' q = Some s \<and> ls_name s = name))"
proof (cases "length name = 0 \<or> length name \<ge> NGX_RTC_SOURCE_NAME_MAX")
  case True
  then show ?thesis using inv by (auto simp: ngx_rtc_source_create_def)
next
  case len: False
  show ?thesis
  proof (cases rule: source_lookup_cases [OF inv T, of name])
    case (2 q s)
    then show ?thesis using inv len by (auto simp: ngx_rtc_source_create_def)
  next
    case missing: 1
    show ?thesis
    proof (cases newp)
      case None
      then show ?thesis using inv len missing by (auto simp: ngx_rtc_source_create_def)
    next
      case (Some q)
      let ?W = "W\<lparr>w_sources := (w_sources W)(q \<mapsto> source_calloc name)\<rparr>"
      have L: "reg_lists N W" by (rule reg_invD(1) [OF inv])
      have q: "w_sources W q = None" using fresh Some by simp
      have "\<forall>x \<in> set (ngx_rtc_source_tree W). source_name ?W x \<noteq> None"
        using L by (auto simp: source_name_def reg_lists_def)
      from tree_insert_total [OF this, where T = T and key = name and p = q]
      obtain tree where tree: "tree_insert T (source_name ?W) name q (ngx_rtc_source_tree W) = Some tree"
        "set tree = insert q (set (ngx_rtc_source_tree W))" "distinct tree"
        using L q by (auto simp: reg_lists_def)
      let ?W' = "?W\<lparr>ngx_rtc_source_tree := tree\<rparr>"
      have run: "ngx_rtc_source_create T newp W (Some name) = Some ((Some q, True), ?W')"
        using len missing(1) tree Some by (auto simp: ngx_rtc_source_create_def)
      have no_holder: "lse_source t \<noteq> Some q" if "w_sessions W p = Some t" for p t
        using reg_session_source [OF inv that, of q] q by auto
      have "reg_inv N ?W'"
      proof (rule reg_invI)
        show "reg_lists N ?W'" using L tree by (auto simp: reg_lists_def)
        show "reg_names ?W'"
          unfolding reg_names_def
        proof (intro conjI allI impI)
          fix a b s s' assume x: "w_sources ?W' a = Some s" "w_sources ?W' b = Some s'" "ls_name s = ls_name s'"
          show "a = b"
          proof (cases "a = q \<or> b = q")
            case True
            then show ?thesis using x missing(2) [of a s] missing(2) [of b s'] by (auto simp: source_calloc_def split: if_splits)
          next
            case False
            then show ?thesis using x reg_source_unique [OF inv] by simp
          qed
        next
          fix a b t t' assume "w_sessions ?W' a = Some t" "w_sessions ?W' b = Some t'" "lse_ice_ufrag t = lse_ice_ufrag t'"
          then show "a = b" using reg_session_unique [OF inv] by simp
        qed
        show "source_wf ?W' x s" if x: "w_sources ?W' x = Some s" for x s
        proof (cases "x = q")
          case True
          then show ?thesis using x len no_holder by (auto simp: source_wf_def source_calloc_def pubkind_ok_def sub_linked_def)
        next
          case False
          then show ?thesis using x reg_invD(3) [OF inv, of x s] by (simp add: source_wf_def sub_linked_def)
        qed
        show "session_wf N ?W' p t" if "w_sessions ?W' p = Some t" for p t
          using reg_invD(4) [OF inv, of p t] that by (auto simp: session_wf_def)
      qed
      then show ?thesis using run q by (auto simp: same_sessions_def source_calloc_def)
    qed
  qed
qed

lemma source_remove_inv:
  assumes inv: "reg_inv {} W" and T: "pick_sound T"
  shows "\<exists>W'. ngx_rtc_source_remove T W (Some name) = Some W' \<and> reg_inv {} W' \<and> same_sessions W W' \<and> w_sh W' = w_sh W
    \<and> (\<forall>x s. w_sources W' x = Some s \<longrightarrow> w_sources W x = Some s)
    \<and> (\<forall>x s. w_sources W x = Some s \<longrightarrow> w_sources W' x = None \<longrightarrow> ls_name s = name \<and> ls_subscribers s = [] \<and> ls_publishing s = 0
         \<and> ls_audio_ctx s = None \<and> (\<forall>p t. w_sessions W p = Some t \<longrightarrow> lse_source t \<noteq> Some x))"
proof (cases rule: source_lookup_cases [OF inv T, of name])
  case 1
  then show ?thesis using inv by (simp add: ngx_rtc_source_remove_def)
next
  case (2 q s)
  show ?thesis
  proof (cases "ls_subscribers s = [] \<and> ls_publishing s = 0 \<and> ls_audio_ctx s = None \<and> (\<forall>p t. w_sessions W p = Some t \<longrightarrow> lse_source t \<noteq> Some q)")
    case False
    then have "ngx_rtc_source_remove T W (Some name) = Some W"
      using 2 has_holder_iff [OF inv, of q] by (auto simp: ngx_rtc_source_remove_def)
    then show ?thesis using inv by simp
  next
    case free: True
    let ?W = "W\<lparr>ngx_rtc_source_tree := remove1 q (ngx_rtc_source_tree W), w_sources := (w_sources W)(q := None)\<rparr>"
    have "ngx_rtc_source_has_holder W (Some q) = Some False" using free has_holder_iff [OF inv, of q] by auto
    then have run: "ngx_rtc_source_remove T W (Some name) = Some ?W"
      using free 2 by (simp add: ngx_rtc_source_remove_def)
    have "reg_inv {} ?W"
    proof (rule reg_invI)
      show "reg_lists {} ?W" using reg_invD(1) [OF inv] by (auto simp: reg_lists_def set_remove1_eq)
      show "reg_names ?W" using reg_invD(2) [OF inv] by (auto simp: reg_names_def)
      show "source_wf ?W x r" if "w_sources ?W x = Some r" for x r
        using reg_invD(3) [OF inv, of x r] that by (simp add: source_wf_def sub_linked_def split: if_splits)
      show "session_wf {} ?W p t" if t: "w_sessions ?W p = Some t" for p t
        using reg_invD(4) [OF inv, of p t] t free by (auto simp: session_wf_def)
    qed
    then show ?thesis using run free 2(2,3) by (auto simp: same_sessions_def)
  qed
qed

section \<open>Sessions\<close>

lemma session_new_inv:
  assumes inv: "reg_inv {} W" and p: "w_sessions W p = None"
    and t: "lse_ice_ufrag t \<noteq> []" "length (lse_ice_ufrag t) < ICE_UFRAG_SIZE" "SessionFsm.session_ok (lse_fsm t)"
    "\<forall>q. lse_source t = Some q \<longrightarrow> w_sources W q \<noteq> None" "lse_sub_queue t = Q_self" "lse_sn_len t = 0" "lse_queue t = Q_self"
    and new: "\<And>p' t'. w_sessions W p' = Some t' \<Longrightarrow> lse_ice_ufrag t' \<noteq> lse_ice_ufrag t"
  shows "reg_inv {p} (W\<lparr>w_sessions := (w_sessions W)(p \<mapsto> t)\<rparr>)" (is "reg_inv _ ?W")
proof (rule reg_invI)
  show "reg_lists {p} ?W" using reg_invD(1) [OF inv] p by (auto simp: reg_lists_def)
  show "reg_names ?W"
    unfolding reg_names_def
  proof (intro conjI allI impI)
    fix a b s s' assume "w_sources ?W a = Some s" "w_sources ?W b = Some s'" "ls_name s = ls_name s'"
    then show "a = b" using reg_source_unique [OF inv] by simp
  next
    fix a b u u' assume x: "w_sessions ?W a = Some u" "w_sessions ?W b = Some u'" "lse_ice_ufrag u = lse_ice_ufrag u'"
    then show "a = b" using new [of a u] new [of b u'] reg_session_unique [OF inv, of a u b u'] by (auto split: if_splits)
  qed
  show "source_wf ?W q s" if "w_sources ?W q = Some s" for q s
  proof -
    have "sub_linked ?W q = sub_linked W q" using p t(5) by (auto simp: sub_linked_def)
    then show ?thesis using reg_invD(3) [OF inv, of q s] that by (simp add: source_wf_def)
  qed
  show "session_wf {p} ?W a u" if a: "w_sessions ?W a = Some u" for a u
  proof (cases "a = p")
    case True then show ?thesis using a t by (simp add: session_wf_def)
  next
    case False then show ?thesis using a reg_invD(4) [OF inv, of a u] by (simp add: session_wf_def)
  qed
qed

lemma set_session_inv:
  assumes inv: "reg_inv N W" and t: "w_sessions W p = Some t"
    and f: "lse_ice_ufrag (f t) = lse_ice_ufrag t" "lse_sub_queue (f t) = lse_sub_queue t" "lse_sn_len (f t) = lse_sn_len t"
    "lse_queue (f t) = lse_queue t" "SessionFsm.session_ok (lse_fsm (f t))"
    and s: "lse_source (f t) = lse_source t \<or> lse_sub_queue t = Q_self \<and> (\<forall>q. lse_source (f t) = Some q \<longrightarrow> w_sources W q \<noteq> None)"
  shows "set_session p f W = Some (W\<lparr>w_sessions := (w_sessions W)(p \<mapsto> f t)\<rparr>) \<and> reg_inv N (W\<lparr>w_sessions := (w_sessions W)(p \<mapsto> f t)\<rparr>)"
proof
  let ?W = "W\<lparr>w_sessions := (w_sessions W)(p \<mapsto> f t)\<rparr>"
  show "set_session p f W = Some ?W" using t by (simp add: set_session_def)
  show "reg_inv N ?W"
  proof (rule reg_invI)
    have d: "dom (w_sessions ?W) = dom (w_sessions W)" using t by auto
    show "reg_lists N ?W" using reg_invD(1) [OF inv] d by (simp add: reg_lists_def del: dom_fun_upd)
    show "reg_names ?W"
      unfolding reg_names_def
    proof (intro conjI allI impI)
      fix a b x y assume "w_sources ?W a = Some x" "w_sources ?W b = Some y" "ls_name x = ls_name y"
      then show "a = b" using reg_source_unique [OF inv] by simp
    next
      fix a b u u' assume x: "w_sessions ?W a = Some u" "w_sessions ?W b = Some u'" "lse_ice_ufrag u = lse_ice_ufrag u'"
      obtain v where v: "w_sessions W a = Some v" "lse_ice_ufrag v = lse_ice_ufrag u" using x(1) t f(1) by (cases "a = p") auto
      obtain v' where v': "w_sessions W b = Some v'" "lse_ice_ufrag v' = lse_ice_ufrag u'" using x(2) t f(1) by (cases "b = p") auto
      show "a = b" using reg_session_unique [OF inv v(1) v'(1)] v(2) v'(2) x(3) by simp
    qed
    show "source_wf ?W q r" if "w_sources ?W q = Some r" for q r
    proof -
      have "sub_linked ?W q = sub_linked W q" using t f(2) s by (auto simp: sub_linked_def)
      then show ?thesis using reg_invD(3) [OF inv, of q r] that by (simp add: source_wf_def)
    qed
    show "session_wf N ?W a u" if a: "w_sessions ?W a = Some u" for a u
    proof (cases "a = p")
      case True
      then have u: "u = f t" using a by simp
      have "\<forall>q. lse_source (f t) = Some q \<longrightarrow> w_sources W q \<noteq> None"
        using s reg_invD(4) [OF inv t] by (auto simp: session_wf_def)
      moreover have "lse_sub_queue (f t) = Q_linked \<longrightarrow> lse_source (f t) \<noteq> None"
        using s f(2) reg_invD(4) [OF inv t] by (auto simp: session_wf_def)
      ultimately show ?thesis using reg_invD(4) [OF inv t] f True u by (auto simp: session_wf_def split: if_splits)
    next
      case False then show ?thesis using a reg_invD(4) [OF inv, of a u] by (simp add: session_wf_def)
    qed
  qed
qed

lemma session_add_inv:
  assumes inv: "reg_inv {p} W" and t: "w_sessions W p = Some t"
  shows "\<exists>tree. let W' = W\<lparr>ngx_rtc_sessions := p # ngx_rtc_sessions W,
              w_sessions := (w_sessions W)(p \<mapsto> t\<lparr>lse_queue := Q_linked, lse_sn_len := length (lse_ice_ufrag t)\<rparr>),
              ngx_rtc_session_tree := tree\<rparr>
     in ngx_rtc_session_add T W (Some p) = Some W' \<and> reg_inv {} W'"
proof -
  let ?t = "t\<lparr>lse_queue := Q_linked, lse_sn_len := length (lse_ice_ufrag t)\<rparr>"
  let ?W1 = "W\<lparr>ngx_rtc_sessions := p # ngx_rtc_sessions W, w_sessions := (w_sessions W)(p \<mapsto> ?t)\<rparr>"
  have L: "reg_lists {p} W" by (rule reg_invD(1) [OF inv])
  have wf: "session_wf {p} W p t" by (rule reg_invD(4) [OF inv t])
  have "\<forall>x \<in> set (ngx_rtc_session_tree W). session_key ?W1 x \<noteq> None"
    using L by (auto simp: reg_lists_def session_key_def)
  from tree_insert_total [OF this, where T = T and key = "lse_ice_ufrag t" and p = p]
  obtain tree where tree: "tree_insert T (session_key ?W1) (lse_ice_ufrag t) p (ngx_rtc_session_tree W) = Some tree"
    "set tree = insert p (set (ngx_rtc_session_tree W))" "distinct tree"
    using L by (auto simp: reg_lists_def)
  let ?W' = "?W1\<lparr>ngx_rtc_session_tree := tree\<rparr>"
  have run: "ngx_rtc_session_add T W (Some p) = Some ?W'"
    using t wf tree(1) by (simp add: ngx_rtc_session_add_def session_wf_def queue_insert_node_def set_session_def)
  have d: "dom (w_sessions ?W') = dom (w_sessions W)" using t by auto
  have "reg_inv {} ?W'"
  proof (rule reg_invI)
    show "reg_lists {} ?W'" using L tree t by (auto simp: reg_lists_def)
    show "reg_names ?W'"
      unfolding reg_names_def
    proof (intro conjI allI impI)
      fix a b x y assume "w_sources ?W' a = Some x" "w_sources ?W' b = Some y" "ls_name x = ls_name y"
      then show "a = b" using reg_source_unique [OF inv] by simp
    next
      fix a b u u' assume x: "w_sessions ?W' a = Some u" "w_sessions ?W' b = Some u'" "lse_ice_ufrag u = lse_ice_ufrag u'"
      obtain v where v: "w_sessions W a = Some v" "lse_ice_ufrag v = lse_ice_ufrag u" using x(1) t by (cases "a = p") auto
      obtain v' where v': "w_sessions W b = Some v'" "lse_ice_ufrag v' = lse_ice_ufrag u'" using x(2) t by (cases "b = p") auto
      show "a = b" using reg_session_unique [OF inv v(1) v'(1)] v(2) v'(2) x(3) by simp
    qed
    show "source_wf ?W' q r" if "w_sources ?W' q = Some r" for q r
    proof -
      have "sub_linked ?W' q = sub_linked W q" using t by (auto simp: sub_linked_def)
      then show ?thesis using reg_invD(3) [OF inv, of q r] that by (simp add: source_wf_def)
    qed
    show "session_wf {} ?W' a u" if a: "w_sessions ?W' a = Some u" for a u
      using a wf reg_invD(4) [OF inv, of a u] by (cases "a = p") (auto simp: session_wf_def)
  qed
  then show ?thesis using run by (intro exI [of _ tree]) (simp add: Let_def)
qed

lemma session_remove_inv:
  assumes inv: "reg_inv {} W" and t: "w_sessions W p = Some t" and sub: "lse_sub_queue t = Q_self"
  shows "let W' = W\<lparr>ngx_rtc_session_tree := remove1 p (ngx_rtc_session_tree W), ngx_rtc_sessions := remove1 p (ngx_rtc_sessions W),
              w_sessions := (w_sessions W)(p \<mapsto> t\<lparr>lse_sn_len := 0, lse_queue := Q_removed\<rparr>)\<rparr>
     in ngx_rtc_session_remove W (Some p) = Some W' \<and> reg_inv {} (W'\<lparr>w_sessions := (w_sessions W')(p := None)\<rparr>)"
proof -
  let ?W1 = "W\<lparr>ngx_rtc_session_tree := remove1 p (ngx_rtc_session_tree W), ngx_rtc_sessions := remove1 p (ngx_rtc_sessions W),
              w_sessions := (w_sessions W)(p \<mapsto> t\<lparr>lse_sn_len := 0, lse_queue := Q_removed\<rparr>)\<rparr>"
  let ?W' = "?W1\<lparr>w_sessions := (w_sessions ?W1)(p := None)\<rparr>"
  have wf: "session_wf {} W p t" by (rule reg_invD(4) [OF inv t])
  have run: "ngx_rtc_session_remove W (Some p) = Some ?W1"
    using t wf by (simp add: ngx_rtc_session_remove_def session_wf_def queue_remove_node_def set_session_def)
  have "reg_inv {} ?W'"
  proof (rule reg_invI)
    show "reg_lists {} ?W'" using reg_invD(1) [OF inv] by (auto simp: reg_lists_def set_remove1_eq)
    show "reg_names ?W'"
      using reg_invD(2) [OF inv] by (auto simp: reg_names_def split: if_splits)
    show "source_wf ?W' q r" if "w_sources ?W' q = Some r" for q r
    proof -
      have "sub_linked ?W' q = sub_linked W q" using t sub by (auto simp: sub_linked_def)
      then show ?thesis using reg_invD(3) [OF inv, of q r] that by (simp add: source_wf_def)
    qed
    show "session_wf {} ?W' a u" if a: "w_sessions ?W' a = Some u" for a u
      using a reg_invD(4) [OF inv, of a u] by (auto simp: session_wf_def split: if_splits)
  qed
  then show ?thesis using run by (simp add: Let_def)
qed

section \<open>Subscriptions\<close>

text \<open>The two stores that link or unlink a session.\<close>

lemma relink_inv:
  assumes inv: "reg_inv {} W" and t: "w_sessions W p = Some t" and s: "w_sources W q = Some s"
    and src: "lse_source t = Some q" and xs: "distinct xs" "set xs = (sub_linked W q - {p}) \<union> (if l = Q_linked then {p} else {})"
    and l: "l = Q_linked \<and> srcp = Some q \<or> l = Q_self \<and> srcp = None"
  shows "reg_inv {} (W\<lparr>w_sources := (w_sources W)(q \<mapsto> s\<lparr>ls_subscribers := xs\<rparr>),
           w_sessions := (w_sessions W)(p \<mapsto> t\<lparr>lse_source := srcp, lse_sub_queue := l\<rparr>)\<rparr>)" (is "reg_inv {} ?W")
proof (rule reg_invI)
  let ?t = "t\<lparr>lse_source := srcp, lse_sub_queue := l\<rparr>"
  show "reg_lists {} ?W" using reg_invD(1) [OF inv] t s by (auto simp: reg_lists_def)
  show "reg_names ?W"
    unfolding reg_names_def
  proof (intro conjI allI impI)
    fix a b x y assume z: "w_sources ?W a = Some x" "w_sources ?W b = Some y" "ls_name x = ls_name y"
    obtain x' where x': "w_sources W a = Some x'" "ls_name x' = ls_name x" using z(1) s by (cases "a = q") auto
    obtain y' where y': "w_sources W b = Some y'" "ls_name y' = ls_name y" using z(2) s by (cases "b = q") auto
    show "a = b" using reg_source_unique [OF inv x'(1) y'(1)] x'(2) y'(2) z(3) by simp
  next
    fix a b u u' assume x: "w_sessions ?W a = Some u" "w_sessions ?W b = Some u'" "lse_ice_ufrag u = lse_ice_ufrag u'"
    obtain v where v: "w_sessions W a = Some v" "lse_ice_ufrag v = lse_ice_ufrag u" using x(1) t by (cases "a = p") auto
    obtain v' where v': "w_sessions W b = Some v'" "lse_ice_ufrag v' = lse_ice_ufrag u'" using x(2) t by (cases "b = p") auto
    show "a = b" using reg_session_unique [OF inv v(1) v'(1)] v(2) v'(2) x(3) by simp
  qed
  have linked: "sub_linked ?W x = (if x = q then set xs else sub_linked W x)" for x
  proof -
    have "a \<in> sub_linked ?W x \<longleftrightarrow> a \<in> (if x = q then set xs else sub_linked W x)" for a
      by (cases "a = p") (use l t src in \<open>auto simp: sub_linked_def xs(2)\<close>)
    then show ?thesis by blast
  qed
  show "source_wf ?W x r" if x: "w_sources ?W x = Some r" for x r
  proof (cases "x = q")
    case True
    then show ?thesis using x reg_invD(3) [OF inv s] xs(1) linked by (auto simp: source_wf_def pubkind_ok_def)
  next
    case False
    then show ?thesis using x reg_invD(3) [OF inv, of x r] linked by (simp add: source_wf_def)
  qed
  show "session_wf {} ?W a u" if a: "w_sessions ?W a = Some u" for a u
  proof (cases "a = p")
    case True
    then show ?thesis using a l s reg_invD(4) [OF inv t] by (auto simp: session_wf_def)
  next
    case False
    then show ?thesis using a reg_invD(4) [OF inv, of a u] by (auto simp: session_wf_def)
  qed
qed

lemma subscribe_inv:
  assumes inv: "reg_inv {} W" and t: "w_sessions W p = Some t" and src: "lse_source t = Some q" and sub: "lse_sub_queue t = Q_self"
  shows "\<exists>W' s. ngx_rtc_source_subscribe W (Some q) (Some p) = Some W' \<and> reg_inv {} W'
    \<and> w_sources W q = Some s \<and> w_sources W' = (w_sources W)(q \<mapsto> s\<lparr>ls_subscribers := p # ls_subscribers s\<rparr>)
    \<and> w_sessions W' = (w_sessions W)(p \<mapsto> t\<lparr>lse_sub_queue := Q_linked\<rparr>)
    \<and> w_sh W' = w_sh W \<and> w_stream_ctx W' = w_stream_ctx W \<and> ngx_rtc_sessions W' = ngx_rtc_sessions W"
proof -
  obtain s where s: "w_sources W q = Some s" using reg_session_source [OF inv t src] by blast
  have subs: "distinct (ls_subscribers s)" "set (ls_subscribers s) = sub_linked W q"
    using reg_invD(3) [OF inv s] by (simp_all add: source_wf_def)
  have np: "p \<notin> sub_linked W q" using t sub by (simp add: sub_linked_def)
  let ?W = "W\<lparr>w_sources := (w_sources W)(q \<mapsto> s\<lparr>ls_subscribers := p # ls_subscribers s\<rparr>),
           w_sessions := (w_sessions W)(p \<mapsto> t\<lparr>lse_source := Some q, lse_sub_queue := Q_linked\<rparr>)\<rparr>"
  have "reg_inv {} ?W"
    by (rule relink_inv [OF inv t s src]) (use subs np in auto)
  moreover have "ngx_rtc_source_subscribe W (Some q) (Some p) = Some ?W"
    using t s sub by (simp add: ngx_rtc_source_subscribe_def queue_insert_node_def set_session_def set_source_def)
  moreover have "t\<lparr>lse_source := Some q, lse_sub_queue := Q_linked\<rparr> = t\<lparr>lse_sub_queue := Q_linked\<rparr>" using src by simp
  ultimately show ?thesis using s by (intro exI [of _ ?W] exI [of _ s]) simp
qed

lemma unsubscribe_inv:
  assumes inv: "reg_inv {} W" and T: "pick_sound T" and t: "w_sessions W p = Some t" and src: "lse_source t = Some q"
  shows "\<exists>W'. ngx_rtc_source_unsubscribe T W (Some q) (Some p) = Some W' \<and> reg_inv {} W'
    \<and> w_sessions W' = (w_sessions W)(p \<mapsto> t\<lparr>lse_sub_queue := Q_self, lse_source := None\<rparr>)
    \<and> (\<forall>x s'. w_sources W' x = Some s' \<longrightarrow> (\<exists>s. w_sources W x = Some s \<and> ls_name s' = ls_name s))
    \<and> (\<forall>x s. w_sources W x = Some s \<longrightarrow> w_sources W' x = None \<longrightarrow> x = q \<and> ls_publishing s = 0 \<and> ls_audio_ctx s = None)
    \<and> w_sh W' = w_sh W \<and> w_stream_ctx W' = w_stream_ctx W \<and> w_posted W' = w_posted W
    \<and> ngx_rtc_sessions W' = ngx_rtc_sessions W \<and> ngx_rtc_session_tree W' = ngx_rtc_session_tree W"
proof -
  obtain s where s: "w_sources W q = Some s" using reg_session_source [OF inv t src] by blast
  have wf: "session_wf {} W p t" by (rule reg_invD(4) [OF inv t])
  have subs: "distinct (ls_subscribers s)" "set (ls_subscribers s) = sub_linked W q"
    using reg_invD(3) [OF inv s] by (simp_all add: source_wf_def)
  define xs where "xs = (if lse_sub_queue t = Q_linked then remove1 p (ls_subscribers s) else ls_subscribers s)"
  have xs: "distinct xs" "set xs = sub_linked W q - {p}"
    using subs t wf by (auto simp: xs_def set_remove1_eq sub_linked_def session_wf_def)
  let ?W = "W\<lparr>w_sources := (w_sources W)(q \<mapsto> s\<lparr>ls_subscribers := xs\<rparr>),
           w_sessions := (w_sessions W)(p \<mapsto> t\<lparr>lse_sub_queue := Q_self, lse_source := None\<rparr>)\<rparr>"
  have te: "t\<lparr>lse_sub_queue := Q_self, lse_source := None\<rparr> = t\<lparr>lse_source := None, lse_sub_queue := Q_self\<rparr>" by simp
  have q: "(if lse_sub_queue t \<noteq> Q_null \<and> lse_sub_queue t \<noteq> Q_self then queue_remove_node (lse_sub_queue t) p (ls_subscribers s)
      else Some (ls_subscribers s)) = Some xs"
    using wf by (auto simp: xs_def session_wf_def queue_remove_node_def)
  have inv': "reg_inv {} ?W"
    unfolding te by (rule relink_inv [OF inv t s src xs(1)]) (use xs in auto)
  have run: "ngx_rtc_source_unsubscribe T W (Some q) (Some p) =
      (if xs = [] \<and> ls_publishing s = 0
       then ngx_rtc_source_has_holder ?W (Some q) \<bind>
              (\<lambda>holder. if holder then Some ?W else ngx_rtc_source_remove T ?W (Some (ls_name s)))
       else Some ?W)"
    using t s src q
    by (simp add: ngx_rtc_source_unsubscribe_def set_session_def set_source_def cong: if_cong)
  have stay: "\<exists>s. w_sources W x = Some s \<and> ls_name s' = ls_name s" if "w_sources ?W x = Some s'" for x s'
    using that s by (cases "x = q") auto
  show ?thesis
  proof (cases "xs = [] \<and> ls_publishing s = 0 \<and> \<not> (\<exists>p t. w_sessions ?W p = Some t \<and> lse_source t = Some q)")
    case False
    have "ngx_rtc_source_unsubscribe T W (Some q) (Some p) = Some ?W"
    proof (cases "xs = [] \<and> ls_publishing s = 0")
      case True
      then have "\<exists>p t. w_sessions ?W p = Some t \<and> lse_source t = Some q" using False by blast
      then have "ngx_rtc_source_has_holder ?W (Some q) = Some True" unfolding has_holder_iff [OF inv', of q] by simp
      then show ?thesis using run True by simp
    next
      case False then show ?thesis using run by auto
    qed
    then show ?thesis using inv' stay by (intro exI [of _ ?W]) auto
  next
    case True
    obtain W' where W': "ngx_rtc_source_remove T ?W (Some (ls_name s)) = Some W'" "reg_inv {} W'" "same_sessions ?W W'" "w_sh W' = w_sh ?W"
      "\<forall>x s. w_sources W' x = Some s \<longrightarrow> w_sources ?W x = Some s"
      "\<forall>x s'. w_sources ?W x = Some s' \<longrightarrow> w_sources W' x = None \<longrightarrow> ls_name s' = ls_name s \<and> ls_subscribers s' = [] \<and> ls_publishing s' = 0
         \<and> ls_audio_ctx s' = None \<and> (\<forall>p t. w_sessions ?W p = Some t \<longrightarrow> lse_source t \<noteq> Some x)"
      using source_remove_inv [OF inv' T, of "ls_name s"] by blast
    have "ngx_rtc_source_has_holder ?W (Some q) = Some False" using has_holder_iff [OF inv', of q] True by auto
    then have "ngx_rtc_source_unsubscribe T W (Some q) (Some p) = Some W'" using run True W'(1) by simp
    moreover have "x = q \<and> ls_publishing r = 0 \<and> ls_audio_ctx r = None" if x: "w_sources W x = Some r" "w_sources W' x = None" for x r
    proof -
      obtain s' where s': "w_sources ?W x = Some s'" "ls_name s' = ls_name r" "ls_publishing s' = ls_publishing r" "ls_audio_ctx s' = ls_audio_ctx r"
        using x(1) s by (cases "x = q") auto
      have k: "ls_name s' = ls_name s \<and> ls_publishing s' = 0 \<and> ls_audio_ctx s' = None" using W'(6) s'(1) x(2) by blast
      then have "x = q" using reg_source_unique [OF inv x(1) s] s'(2) by simp
      then show ?thesis using k s'(3,4) by simp
    qed
    moreover have "w_sessions W' = (w_sessions W)(p \<mapsto> t\<lparr>lse_sub_queue := Q_self, lse_source := None\<rparr>)"
      using W'(3) by (simp add: same_sessions_def)
    moreover have "\<exists>s. w_sources W x = Some s \<and> ls_name s' = ls_name s" if x: "w_sources W' x = Some s'" for x s'
      by (rule stay) (use W'(5) x in blast)
    moreover have "w_sh W' = w_sh W \<and> w_stream_ctx W' = w_stream_ctx W \<and> w_posted W' = w_posted W
        \<and> ngx_rtc_sessions W' = ngx_rtc_sessions W \<and> ngx_rtc_session_tree W' = ngx_rtc_session_tree W"
      using W'(3,4) by (simp add: same_sessions_def)
    ultimately show ?thesis using W'(2) by (intro exI [of _ W']) simp
  qed
qed

end
