(* ===== verification/Worker.thy ===== *)
theory Worker
  imports Registry ShmSafe Stun
begin

text \<open>
  How a worker process publishes, registers, attaches, closes and reaps: publish ownership
  (\<^verbatim>\<open>ngx_rtc_publish_*\<close> in \<^verbatim>\<open>ngx_rtc_shm.c\<close>), the RTMP publisher's claim and teardown
  (\<^verbatim>\<open>ngx_rtmp_rtc_bridge_module.c\<close>), what the HTTP signalling handlers register
  (\<^verbatim>\<open>ngx_rtc_http_module.c\<close>), and STUN binding, cross-worker attach, session close and the
  reaper (\<^verbatim>\<open>ngx_rtc_stream_module.c\<close>). The DTLS and SRTP contexts, the media rings and the
  socket writes of these handlers are not in this state; connections are abstract numbers.
\<close>

section \<open>The process around the registry\<close>

text \<open>\<open>we_event_ok\<close> says whether the allocation of a close event succeeds; the timeouts are the
  directives; \<open>we_hmac\<close> is OpenSSL's HMAC-SHA1.\<close>

record 'm worker_env =
  we_shm :: "'m shm_env"
  we_tree :: tree_lib
  ngx_worker :: u64
  we_event_ok :: bool
  ready_timeout :: u64
  handshake_timeout :: u64
  we_hmac :: hmac_fn

abbreviation NGX_RTC_SHM_SYNC_MS :: int where "NGX_RTC_SHM_SYNC_MS \<equiv> 1000"

text \<open>An operation on the shared zone: every entry point takes the context, which may be NULL.\<close>

definition on_zone :: "('m ngx_rtc_shm_ctx option \<Rightarrow> ('r \<times> 'm ngx_rtc_shm_ctx option) option) \<Rightarrow> 'm worker \<Rightarrow> ('r \<times> 'm worker) option" where
  "on_zone f W = map_option (\<lambda>(r, sh). (r, W\<lparr>w_sh := sh\<rparr>)) (f (w_sh W))"

text \<open>A read through a pointer into the zone.\<close>

definition zone_source :: "'m worker \<Rightarrow> nat \<Rightarrow> ngx_rtc_shm_source option" where
  "zone_source W a = Option.bind (w_sh W) (\<lambda>sh. src_heap sh a)"

text \<open>\<^verbatim>\<open>ngx_rtc_session_fsm_report_unhandled\<close> only logs. A new machine: the calloc'd struct, init,
  set_reporter.\<close>

definition ngx_rtc_session_fsm_report_unhandled :: "(unit, nat, nat) reporters" where
  "ngx_rtc_session_fsm_report_unhandled hook user event = user"

definition fsm_zero :: "(unit, nat) session_hsm" where
  "fsm_zero = \<lparr>hsm_current_state = None, hsm_initial_state = None, hsm_user_data = None, hsm_unhandled_event_hook = None,
     hsm_entry_path_buffer = None, hsm_buffer_size = 0\<rparr>"

definition session_fsm_new :: "nat \<Rightarrow> (unit, nat) session_hsm option" where
  "session_fsm_new p =
     do { sm \<leftarrow> ngx_rtc_session_fsm_init ngx_rtc_session_fsm_report_unhandled (Some fsm_zero) (Some [None, None]) 2 (Some p);
          ngx_rtc_session_fsm_set_reporter sm (Some ()) }"

section \<open>Publish ownership\<close>

definition mirror_set :: "u64 \<Rightarrow> local_source \<Rightarrow> local_source" where
  "mirror_set kind src = src\<lparr>ls_publisher_kind := ucast kind, ls_publishing := 1\<rparr>"

definition mirror_clear :: "local_source \<Rightarrow> local_source" where
  "mirror_clear src = src\<lparr>ls_publisher_kind := 0, ls_publishing := 0, ls_shm_src := None\<rparr>"

definition ngx_rtc_publish_claim :: "'m worker_env \<Rightarrow> 'm worker \<Rightarrow> nat option \<Rightarrow> u64 \<Rightarrow> (int \<times> 'm worker) option" where
  "ngx_rtc_publish_claim E W srcp kind =
     (case srcp of
        None \<Rightarrow> Some (NGX_ERROR, W)
      | Some q \<Rightarrow>
          do { src \<leftarrow> w_sources W q;
               if w_sh W = None
               then do { W \<leftarrow> set_source q (\<lambda>s. (mirror_set kind s)\<lparr>ls_shm_src := None\<rparr>) W; Some (NGX_OK, W) }
               else do {
                 (rc, W) \<leftarrow> on_zone (\<lambda>sh. ngx_rtc_shm_source_try_publish (we_shm E) sh (Some (ls_name src)) kind) W;
                 if rc = NGX_BUSY
                 then do { W \<leftarrow> set_source q mirror_clear W; Some (NGX_BUSY, W) }
                 else do {
                   W \<leftarrow> set_source q (mirror_set kind) W;
                   (shm_src, W) \<leftarrow> (if rc = NGX_OK
                                    then on_zone (\<lambda>sh. ngx_rtc_shm_source_get (we_shm E) sh (Some (ls_name src))) W
                                    else Some (None, W));
                   W \<leftarrow> set_source q (\<lambda>s. let s = s\<lparr>ls_shm_src := shm_src\<rparr>
                                         in if shm_src \<noteq> None then s\<lparr>ls_shm_sync_ms := now_msec (we_shm E)\<rparr> else s) W;
                   Some (NGX_OK, W) } } })"

definition ngx_rtc_publish_release :: "'m worker_env \<Rightarrow> 'm worker \<Rightarrow> nat option \<Rightarrow> 'm worker option" where
  "ngx_rtc_publish_release E W srcp =
     (case srcp of
        None \<Rightarrow> Some W
      | Some q \<Rightarrow>
          do { src \<leftarrow> w_sources W q;
               let kind = ucast (ls_publisher_kind src);
               if kind = NGX_RTC_PUBLISHER_NONE then Some W
               else do {
                 W \<leftarrow> set_source q mirror_clear W;
                 if w_sh W = None then Some W
                 else do {
                   (_, W) \<leftarrow> on_zone (\<lambda>sh. ngx_rtc_shm_source_release_publish (we_shm E) sh (Some (ls_name src)) kind) W;
                   (_, W) \<leftarrow> on_zone (\<lambda>sh. ngx_rtc_shm_source_remove (we_shm E) sh (Some (ls_name src))) W;
                   Some W } } })"

definition ngx_rtc_publish_mirror :: "'m worker \<Rightarrow> nat option \<Rightarrow> u64 \<Rightarrow> 'm worker option" where
  "ngx_rtc_publish_mirror W srcp kind = (case srcp of None \<Rightarrow> Some W | Some q \<Rightarrow> set_source q (mirror_set kind) W)"

section \<open>The RTMP publisher\<close>

text \<open>The store of the packet counters into the zone is lock-free and has no other effect on the registry
  than the heartbeat.\<close>

definition ngx_rtmp_rtc_shm_stats :: "'m worker_env \<Rightarrow> 'm worker \<Rightarrow> nat \<Rightarrow> 'm worker option" where
  "ngx_rtmp_rtc_shm_stats E W q =
     do { src \<leftarrow> w_sources W q;
          (case ls_shm_src src of
             None \<Rightarrow> Some W
           | Some a \<Rightarrow> do { sh \<leftarrow> w_sh W;
                            sh \<leftarrow> publisher_heartbeat (we_shm E) a None sh;
                            Some (W\<lparr>w_sh := Some sh\<rparr>) }) }"

definition ngx_rtmp_rtc_sync_shm :: "'m worker_env \<Rightarrow> 'm worker \<Rightarrow> nat \<Rightarrow> (int \<times> 'm worker) option" where
  "ngx_rtmp_rtc_sync_shm E W q =
     (if w_sh W = None then Some (NGX_OK, W)
      else do {
        src \<leftarrow> w_sources W q;
        let now = now_msec (we_shm E);
        if ls_publisher_kind src = 1 \<and> ls_shm_src src \<noteq> None \<and> sint (now - ls_shm_sync_ms src) < NGX_RTC_SHM_SYNC_MS
        then map_option (Pair NGX_OK) (ngx_rtmp_rtc_shm_stats E W q)
        else do {
          (rc, W) \<leftarrow> ngx_rtc_publish_claim E W (Some q) NGX_RTC_PUBLISHER_RTMP;
          if rc = NGX_BUSY then Some (NGX_BUSY, W)
          else do {
            src \<leftarrow> w_sources W q;
            (case ls_shm_src src of
               None \<Rightarrow> Some (NGX_OK, W)
             | Some a \<Rightarrow>
                 do { shm_src \<leftarrow> zone_source W a;
                      W \<leftarrow> set_source q (\<lambda>s. s\<lparr>ls_video_ssrc := shs_video_ssrc shm_src, ls_audio_ssrc := shs_audio_ssrc shm_src,
                                                ls_video_pt := shs_video_pt shm_src, ls_audio_pt := shs_audio_pt shm_src\<rparr>) W;
                      sh \<leftarrow> w_sh W;
                      sh \<leftarrow> publisher_heartbeat (we_shm E) a (Some (sint (ngx_worker E))) sh;
                      Some (NGX_OK, W\<lparr>w_sh := Some sh\<rparr>) }) } } })"

text \<open>One media tag of an RTMP publisher: the source by name, then the claim; the tag's media follows
  only when the claim is not refused.\<close>

definition ngx_rtmp_rtc_publish_tag :: "'m worker_env \<Rightarrow> nat option \<Rightarrow> 'm worker \<Rightarrow> bytes \<Rightarrow> (int \<times> 'm worker) option" where
  "ngx_rtmp_rtc_publish_tag E newsrc W name =
     do { (srcp, W) \<leftarrow> ngx_rtc_source_get (we_tree E) newsrc W (Some name);
          (case srcp of
             None \<Rightarrow> Some (NGX_OK, W)
           | Some q \<Rightarrow> do { (rc, W) \<leftarrow> ngx_rtmp_rtc_sync_shm E W q;
                            Some (if rc \<noteq> NGX_OK then NGX_ERROR else NGX_OK, W) }) }"

text \<open>An AAC sequence header: the transcoder of the previous publish goes, \<open>ctx\<close> is the new one.\<close>

definition ngx_rtmp_rtc_audio_header :: "'m worker \<Rightarrow> nat \<Rightarrow> nat option \<Rightarrow> 'm worker option" where
  "ngx_rtmp_rtc_audio_header W q ctx = set_source q (\<lambda>s. s\<lparr>ls_audio_ctx := ctx\<rparr>) W"

text \<open>The teardown, past the checks that only the publishing session of a source that was not relayed
  runs it.\<close>

definition ngx_rtmp_rtc_release_publish :: "'m worker_env \<Rightarrow> 'm worker \<Rightarrow> bytes \<Rightarrow> 'm worker option" where
  "ngx_rtmp_rtc_release_publish E W name =
     do { found \<leftarrow> ngx_rtc_source_find (we_tree E) W (Some name);
          (case found of
             None \<Rightarrow> Some W
           | Some q \<Rightarrow>
               do { W \<leftarrow> set_source q (\<lambda>s. s\<lparr>ls_audio_ctx := None\<rparr>) W;
                    src \<leftarrow> w_sources W q;
                    if ls_publisher_kind src \<noteq> 1 then Some W
                    else do { W \<leftarrow> ngx_rtc_publish_release E W (Some q);
                              ngx_rtc_source_remove (we_tree E) W (Some name) } }) }"

section \<open>Signalling\<close>

text \<open>A calloc'd session with its queue nodes initialised, its machine in NEW and its fields from the offer.\<close>

definition session_new ::
  "'m worker_env \<Rightarrow> nat \<Rightarrow> nat \<Rightarrow> u8 \<Rightarrow> u8 \<Rightarrow> u8 \<Rightarrow> bytes \<Rightarrow> bytes \<Rightarrow> local_session option" where
  "session_new E p q publishing vpt apt ufrag pwd =
     do { sm \<leftarrow> session_fsm_new p;
          Some \<lparr>lse_source = Some q, lse_id = 0, lse_ice_ufrag = ufrag, lse_ice_pwd = pwd, lse_video_pt = vpt, lse_audio_pt = apt,
                lse_publishing = publishing, lse_conn = None, lse_last_active = now_msec (we_shm E), lse_fsm = sm,
                lse_queue = Q_self, lse_sub_queue = Q_self, lse_sn_len = 0\<rparr> }"

text \<open>The cross-worker skeleton of a session; its id is adopted when there is one.\<close>

definition session_skeleton ::
  "'m worker_env \<Rightarrow> 'm worker \<Rightarrow> nat \<Rightarrow> bytes \<Rightarrow> u8 \<Rightarrow> u8 \<Rightarrow> 'm worker option" where
  "session_skeleton E W p name vext aext =
     do { sess \<leftarrow> w_sessions W p;
          (shm_sess, W) \<leftarrow> on_zone (\<lambda>sh. ngx_rtc_shm_session_add (we_shm E) sh (Some (lse_ice_ufrag sess)) (Some (lse_ice_pwd sess))
                                      (Some name) (lse_video_pt sess) (lse_audio_pt sess) vext aext (lse_publishing sess)) W;
          (case shm_sess of
             None \<Rightarrow> Some W
           | Some a \<Rightarrow> do { sh \<leftarrow> w_sh W; sk \<leftarrow> sess_heap sh a; set_session p (\<lambda>s. s\<lparr>lse_id := she_id sk\<rparr>) W }) }"

text \<open>What \<^verbatim>\<open>rtc_play\<close> registers for an offer: \<open>vpt\<close>, \<open>apt\<close> its payload types (0 when absent),
  \<open>vext\<close>, \<open>aext\<close> its transport-cc extension ids, \<open>ufrag\<close> and \<open>pwd\<close> the printed random
  numbers. \<open>None\<close> as the session is the answer 500.\<close>

definition rtc_play_register ::
  "'m worker_env \<Rightarrow> nat option \<Rightarrow> nat option \<Rightarrow> 'm worker \<Rightarrow> bytes \<Rightarrow> u8 \<Rightarrow> u8 \<Rightarrow> u8 \<Rightarrow> u8 \<Rightarrow> bytes \<Rightarrow> bytes
    \<Rightarrow> (nat option \<times> 'm worker) option" where
  "rtc_play_register E newsrc newsess W name vpt apt vext aext ufrag pwd =
     do { ((srcp, src_created), W) \<leftarrow> ngx_rtc_source_create (we_tree E) newsrc W (Some name);
          (case srcp of
             None \<Rightarrow> Some (None, W)
           | Some q \<Rightarrow>
               do { W \<leftarrow> (if w_sh W = None then Some W
                         else do {
                           (shm_src, W) \<leftarrow> on_zone (\<lambda>sh. ngx_rtc_shm_source_get (we_shm E) sh (Some name)) W;
                           (case shm_src of
                              None \<Rightarrow> Some W
                            | Some a \<Rightarrow>
                                do { zs \<leftarrow> zone_source W a;
                                     W \<leftarrow> set_source q (\<lambda>s. s\<lparr>ls_video_ssrc := shs_video_ssrc zs, ls_audio_ssrc := shs_audio_ssrc zs,
                                              ls_video_pt := (if vpt \<noteq> 0 then vpt else shs_video_pt zs),
                                              ls_audio_pt := (if apt \<noteq> 0 then apt else shs_audio_pt zs)\<rparr>) W;
                                     (_, W) \<leftarrow> on_zone (\<lambda>sh. ngx_rtc_shm_source_set_pt sh (Some name) vpt apt) W;
                                     Some W }) });
                    (case newsess of
                       None \<Rightarrow> do { W \<leftarrow> (if src_created then ngx_rtc_source_remove (we_tree E) W (Some name) else Some W);
                                    Some (None, W) }
                     | Some p \<Rightarrow>
                         do { src \<leftarrow> w_sources W q;
                              sess \<leftarrow> session_new E p q 0 (if vpt \<noteq> 0 then vpt else ls_video_pt src)
                                        (if apt \<noteq> 0 then apt else ls_audio_pt src) ufrag pwd;
                              W \<leftarrow> ngx_rtc_session_add (we_tree E) (W\<lparr>w_sessions := (w_sessions W)(p \<mapsto> sess)\<rparr>) (Some p);
                              W \<leftarrow> (if w_sh W = None then Some W else session_skeleton E W p name vext aext);
                              Some (Some p, W) }) }) }"

text \<open>The rollback of \<^verbatim>\<open>rtc_whip\<close> once the session exists: release, unlink, free, then the source.\<close>

definition rtc_whip_abort :: "'m worker_env \<Rightarrow> 'm worker \<Rightarrow> nat \<Rightarrow> bool \<Rightarrow> bytes \<Rightarrow> 'm worker option" where
  "rtc_whip_abort E W p src_created name =
     do { sess \<leftarrow> w_sessions W p;
          W \<leftarrow> ngx_rtc_publish_release E W (lse_source sess);
          W \<leftarrow> ngx_rtc_session_remove W (Some p);
          let W = W\<lparr>w_sessions := (w_sessions W)(p := None)\<rparr>;
          if src_created then ngx_rtc_source_remove (we_tree E) W (Some name) else Some W }"

definition NGX_HTTP_CREATED :: int where "NGX_HTTP_CREATED = 201"
definition NGX_HTTP_CONFLICT :: int where "NGX_HTTP_CONFLICT = 409"
definition NGX_HTTP_INTERNAL_SERVER_ERROR :: int where "NGX_HTTP_INTERNAL_SERVER_ERROR = 500"

text \<open>\<open>answer_ok\<close> says whether the SDP answer and its buffer can be made.\<close>

definition rtc_whip_register ::
  "'m worker_env \<Rightarrow> nat option \<Rightarrow> nat option \<Rightarrow> bool \<Rightarrow> 'm worker \<Rightarrow> bytes \<Rightarrow> u8 \<Rightarrow> u8 \<Rightarrow> u8 \<Rightarrow> u8 \<Rightarrow> bytes \<Rightarrow> bytes
    \<Rightarrow> (int \<times> 'm worker) option" where
  "rtc_whip_register E newsrc newsess answer_ok W name vpt apt vext aext ufrag pwd =
     do { ((srcp, src_created), W) \<leftarrow> ngx_rtc_source_create (we_tree E) newsrc W (Some name);
          (case srcp of
             None \<Rightarrow> Some (NGX_HTTP_INTERNAL_SERVER_ERROR, W)
           | Some q \<Rightarrow>
               do { src \<leftarrow> w_sources W q;
                    let drop = (\<lambda>W. if src_created then ngx_rtc_source_remove (we_tree E) W (Some name) else Some W);
                    if ls_publisher_kind src = 1 then map_option (Pair NGX_HTTP_CONFLICT) (drop W)
                    else do {
                      (rc, W) \<leftarrow> ngx_rtc_publish_claim E W (Some q) NGX_RTC_PUBLISHER_WHIP;
                      if rc = NGX_BUSY then map_option (Pair NGX_HTTP_CONFLICT) (drop W)
                      else do {
                        src \<leftarrow> w_sources W q;
                        W \<leftarrow> (case (w_sh W, ls_shm_src src) of
                                (Some _, Some a) \<Rightarrow>
                                  do { zs \<leftarrow> zone_source W a;
                                       W \<leftarrow> set_source q (\<lambda>s. s\<lparr>ls_video_ssrc := shs_video_ssrc zs, ls_audio_ssrc := shs_audio_ssrc zs,
                                                ls_video_pt := (if vpt \<noteq> 0 then vpt else shs_video_pt zs),
                                                ls_audio_pt := (if apt \<noteq> 0 then apt else shs_audio_pt zs)\<rparr>) W;
                                       (_, W) \<leftarrow> on_zone (\<lambda>sh. ngx_rtc_shm_source_set_pt sh (Some name) vpt apt) W;
                                       Some W }
                              | _ \<Rightarrow> Some W);
                        (case newsess of
                           None \<Rightarrow> do { W \<leftarrow> ngx_rtc_publish_release E W (Some q);
                                        map_option (Pair NGX_HTTP_INTERNAL_SERVER_ERROR) (drop W) }
                         | Some p \<Rightarrow>
                             do { src \<leftarrow> w_sources W q;
                                  sess \<leftarrow> session_new E p q 1 (if vpt \<noteq> 0 then vpt else ls_video_pt src)
                                            (if apt \<noteq> 0 then apt else ls_audio_pt src) ufrag pwd;
                                  W \<leftarrow> ngx_rtc_session_add (we_tree E) (W\<lparr>w_sessions := (w_sessions W)(p \<mapsto> sess)\<rparr>) (Some p);
                                  W \<leftarrow> (if w_sh W = None then Some W
                                       else do { (shm_src, W) \<leftarrow> on_zone (\<lambda>sh. ngx_rtc_shm_source_get (we_shm E) sh (Some name)) W;
                                                 if shm_src = None then Some W else session_skeleton E W p name vext aext });
                                  if \<not> answer_ok
                                  then map_option (Pair NGX_HTTP_INTERNAL_SERVER_ERROR) (rtc_whip_abort E W p src_created name)
                                  else Some (NGX_HTTP_CREATED, W) }) } } }) }"

section \<open>Datagrams\<close>

definition ngx_rtc_stream_publish_state :: "'m worker_env \<Rightarrow> 'm worker \<Rightarrow> nat \<Rightarrow> 'm worker option" where
  "ngx_rtc_stream_publish_state E W p =
     (if w_sh W = None then Some W
      else do { sess \<leftarrow> w_sessions W p;
                state \<leftarrow> ngx_rtc_session_fsm_get_state ngx_rtc_session_fsm_report_unhandled (Some (lse_fsm sess));
                (_, W) \<leftarrow> on_zone (\<lambda>sh. ngx_rtc_shm_session_set_state sh (Some (lse_ice_ufrag sess)) (ngx_worker E) (ucast state)) W;
                Some W })"

text \<open>The session that a snapshot of a skeleton describes, before it has a source.\<close>

definition session_of_snapshot :: "'m worker_env \<Rightarrow> nat \<Rightarrow> session_snapshot \<Rightarrow> local_session option" where
  "session_of_snapshot E p snap =
     do { sm \<leftarrow> session_fsm_new p;
          sm \<leftarrow> (if sn_srtp_ready snap \<noteq> 0 then snd (ngx_rtc_session_fsm_restore (Some sm) NGX_RTC_SESSION_STATE_SRTP_READY) else Some sm);
          Some \<lparr>lse_source = None, lse_id = sn_id snap, lse_ice_ufrag = cstr (sn_ice_ufrag snap), lse_ice_pwd = cstr (sn_ice_pwd snap),
                lse_video_pt = sn_video_pt snap, lse_audio_pt = sn_audio_pt snap, lse_publishing = sn_publishing snap, lse_conn = None,
                lse_last_active = now_msec (we_shm E), lse_fsm = sm, lse_queue = Q_self, lse_sub_queue = Q_self, lse_sn_len = 0\<rparr> }"

text \<open>The source of an attached session, by the name in the snapshot.\<close>

definition attach_source :: "'m worker_env \<Rightarrow> nat option \<Rightarrow> 'm worker \<Rightarrow> nat \<Rightarrow> session_snapshot \<Rightarrow> 'm worker option" where
  "attach_source E newsrc W p snap =
     (if cstr (sn_source_name snap) = [] then Some W
      else do {
        (srcp, W) \<leftarrow> ngx_rtc_source_get (we_tree E) newsrc W (Some (cstr (sn_source_name snap)));
        (case srcp of
           None \<Rightarrow> Some W
         | Some q \<Rightarrow>
             do { W \<leftarrow> set_source q (\<lambda>s. s\<lparr>ls_video_ssrc := sn_source_video_ssrc snap, ls_audio_ssrc := sn_source_audio_ssrc snap,
                                           ls_video_pt := sn_source_video_pt snap, ls_audio_pt := sn_source_audio_pt snap\<rparr>) W;
                  W \<leftarrow> set_session p (\<lambda>s. s\<lparr>lse_source := Some q\<rparr>) W;
                  if sn_publishing snap \<noteq> 0
                  then do {
                    (shm_src, W) \<leftarrow> on_zone (\<lambda>sh. ngx_rtc_shm_source_get (we_shm E) sh (Some (cstr (sn_source_name snap)))) W;
                    W \<leftarrow> set_source q (\<lambda>s. s\<lparr>ls_shm_src := shm_src, ls_shm_sync_ms := now_msec (we_shm E)\<rparr>) W;
                    ngx_rtc_publish_mirror W (Some q) NGX_RTC_PUBLISHER_WHIP }
                  else Some W }) })"

definition ngx_rtc_stream_attach_from_shm ::
  "'m worker_env \<Rightarrow> nat option \<Rightarrow> nat option \<Rightarrow> 'm worker \<Rightarrow> bytes \<Rightarrow> (nat option \<times> 'm worker) option" where
  "ngx_rtc_stream_attach_from_shm E newsrc newsess W ufrag =
     (case newsess of
        None \<Rightarrow> Some (None, W)
      | Some p \<Rightarrow>
          if w_sh W = None then Some (None, W)
          else do {
            ((rc, out), W) \<leftarrow> on_zone (\<lambda>sh. ngx_rtc_shm_session_bind sh (Some ufrag) (ngx_worker E) (Some snapshot_zero)) W;
            (case out of
               None \<Rightarrow> Some (None, W)
             | Some snap \<Rightarrow>
                 if rc \<noteq> NGX_OK then Some (None, W)
                 else do {
                   sess \<leftarrow> session_of_snapshot E p snap;
                   W \<leftarrow> attach_source E newsrc (W\<lparr>w_sessions := (w_sessions W)(p \<mapsto> sess)\<rparr>) p snap;
                   W \<leftarrow> ngx_rtc_session_add (we_tree E) W (Some p);
                   Some (Some p, W) }) })"

text \<open>An authenticated binding request: the session takes the connection, its machine sees the event,
  and the connection's stream session gets the pointer.\<close>

definition stun_bind :: "'m worker_env \<Rightarrow> 'm worker \<Rightarrow> nat \<Rightarrow> nat \<Rightarrow> 'm worker option" where
  "stun_bind E W p c =
     do { W \<leftarrow> set_session p (\<lambda>s. s\<lparr>lse_conn := Some c, lse_last_active := now_msec (we_shm E)\<rparr>) W;
          sess \<leftarrow> w_sessions W p;
          (_, sm) \<leftarrow> ngx_rtc_session_fsm_dispatch_ctx ngx_rtc_session_fsm_report_unhandled (Some (lse_fsm sess))
                       NGX_RTC_SESSION_EVT_STUN_BINDING (Some \<lparr>ctx_conn = Some c, ctx_data = None, ctx_len = 0\<rparr>);
          sm \<leftarrow> sm;
          W \<leftarrow> set_session p (\<lambda>s. s\<lparr>lse_fsm := sm\<rparr>) W;
          W \<leftarrow> ngx_rtc_stream_publish_state E W p;
          Some (W\<lparr>w_stream_ctx := (w_stream_ctx W)(c \<mapsto> p)\<rparr>) }"

text \<open>The result: the datagram to send back, when there is one.\<close>

definition ngx_rtc_stream_on_stun ::
  "'m worker_env \<Rightarrow> nat option \<Rightarrow> nat option \<Rightarrow> nat \<Rightarrow> u32 \<Rightarrow> u16 \<Rightarrow> bytes \<Rightarrow> 'm worker \<Rightarrow> (bytes option \<times> 'm worker) option" where
  "ngx_rtc_stream_on_stun E newsrc newsess c addr port data W =
     do { (rc, stunp) \<leftarrow> ngx_rtc_stun_decode (Some stun_zero) (Some data) (length data);
          (case stunp of
             None \<Rightarrow> Some (None, W)
           | Some stun \<Rightarrow>
               if rc \<noteq> 0 \<or> \<not> has_username stun then Some (None, W)
               else do {
                 let ufrag = cstr (local_ufrag stun);
                 found \<leftarrow> ngx_rtc_session_find (we_tree E) W (Some ufrag);
                 (sessp, W) \<leftarrow> (case found of
                                  Some p \<Rightarrow> Some (Some p, W)
                                | None \<Rightarrow> ngx_rtc_stream_attach_from_shm E newsrc newsess W ufrag);
                 (case sessp of
                    None \<Rightarrow> Some (None, W)
                  | Some p \<Rightarrow>
                      do { sess \<leftarrow> w_sessions W p;
                           v \<leftarrow> ngx_rtc_stun_verify_request (we_hmac E) (Some stun) (Some data) (length data) (Some (lse_ice_pwd sess));
                           if v \<noteq> 0 then Some (None, W)
                           else do {
                             W \<leftarrow> stun_bind E W p c;
                             let (n, resp) = ngx_rtc_stun_encode_binding_response (we_hmac E) (Some stun) (Some (lse_ice_pwd sess)) addr port
                                               (Some (replicate 256 0)) 256;
                             Some (if n > 0 then map_option (take (nat n)) resp else None, W) } }) }) }"

section \<open>The end of the handshake\<close>

text \<open>\<^verbatim>\<open>ngx_rtc_stream_dtls_done\<close> once the keys are exported: ready, subscribed, active in the zone. The
  pacer and the replay that it starts are in the theories \<open>Core\<close> and \<open>Send\<close>.\<close>

definition stream_handshake_done :: "'m worker_env \<Rightarrow> 'm worker \<Rightarrow> nat \<Rightarrow> 'm worker option" where
  "stream_handshake_done E W p =
     do { sess \<leftarrow> w_sessions W p;
          (_, sm) \<leftarrow> ngx_rtc_session_fsm_dispatch ngx_rtc_session_fsm_report_unhandled (Some (lse_fsm sess))
                       NGX_RTC_SESSION_EVT_DTLS_HANDSHAKE_DONE;
          sm \<leftarrow> sm;
          W \<leftarrow> set_session p (\<lambda>s. s\<lparr>lse_fsm := sm, lse_last_active := now_msec (we_shm E)\<rparr>) W;
          sess \<leftarrow> w_sessions W p;
          W \<leftarrow> (if lse_source sess \<noteq> None \<and> lse_publishing sess = 0
               then ngx_rtc_source_subscribe W (lse_source sess) (Some p) else Some W);
          (_, W) \<leftarrow> on_zone (\<lambda>sh. ngx_rtc_shm_session_activate sh (Some (lse_ice_ufrag sess)) (ngx_worker E)) W;
          Some W }"

section \<open>Closing\<close>

text \<open>The stream session of the connection forgets the session, and its finalize is posted.\<close>

definition close_detach :: "'m worker_env \<Rightarrow> 'm worker \<Rightarrow> nat \<Rightarrow> 'm worker option" where
  "close_detach E W p =
     do { sess \<leftarrow> w_sessions W p;
          W \<leftarrow> set_session p (\<lambda>s. s\<lparr>lse_conn := None\<rparr>) W;
          (case lse_conn sess of
             None \<Rightarrow> Some W
           | Some c \<Rightarrow> Some (W\<lparr>w_stream_ctx := (w_stream_ctx W)(c := None),
                              w_posted := (if we_event_ok E then w_posted W @ [c] else w_posted W)\<rparr>)) }"

text \<open>A source that carries the WHIP tag is released, then the session unsubscribes.\<close>

definition close_leave :: "'m worker_env \<Rightarrow> 'm worker \<Rightarrow> nat \<Rightarrow> nat option \<Rightarrow> 'm worker option" where
  "close_leave E W p srcp =
     (case srcp of
        None \<Rightarrow> Some W
      | Some q \<Rightarrow>
          do { src \<leftarrow> w_sources W q;
               W \<leftarrow> (if ls_publisher_kind src = 2 then ngx_rtc_publish_release E W (Some q) else Some W);
               ngx_rtc_source_unsubscribe (we_tree E) W (Some q) (Some p) })"

definition ngx_rtc_stream_session_close :: "'m worker_env \<Rightarrow> 'm worker \<Rightarrow> nat option \<Rightarrow> u32 \<Rightarrow> 'm worker option" where
  "ngx_rtc_stream_session_close E W sessp ev =
     (case sessp of
        None \<Rightarrow> Some W
      | Some p \<Rightarrow>
          do { W \<leftarrow> close_detach E W p;
               sess \<leftarrow> w_sessions W p;
               (_, sm) \<leftarrow> ngx_rtc_session_fsm_dispatch ngx_rtc_session_fsm_report_unhandled (Some (lse_fsm sess)) ev;
               sm \<leftarrow> sm;
               W \<leftarrow> set_session p (\<lambda>s. s\<lparr>lse_fsm := sm\<rparr>) W;
               W \<leftarrow> close_leave E W p (lse_source sess);
               W \<leftarrow> ngx_rtc_session_remove W (Some p);
               (_, W) \<leftarrow> on_zone (\<lambda>sh. ngx_rtc_shm_session_remove_if_owner (we_shm E) sh (Some (lse_ice_ufrag sess)) (ngx_worker E)) W;
               Some (W\<lparr>w_sessions := (w_sessions W)(p := None)\<rparr>) })"

text \<open>The reaper's walk; the successor is read before the session can be closed.\<close>

definition reap_session :: "'m worker_env \<Rightarrow> 'm worker \<Rightarrow> nat \<Rightarrow> 'm worker option" where
  "reap_session E W p =
     do { sess \<leftarrow> w_sessions W p;
          (kicked, W) \<leftarrow> on_zone (\<lambda>sh. ngx_rtc_shm_session_is_close_requested sh (Some (lse_ice_ufrag sess))) W;
          if kicked then ngx_rtc_stream_session_close E W (Some p) NGX_RTC_SESSION_EVT_CLOSE
          else do {
            ready \<leftarrow> ngx_rtc_session_fsm_is_ready ngx_rtc_session_fsm_report_unhandled (Some (lse_fsm sess));
            let timeout = (if ready then ready_timeout E else handshake_timeout E);
            if now_msec (we_shm E) - lse_last_active sess \<ge> timeout
            then ngx_rtc_stream_session_close E W (Some p) NGX_RTC_SESSION_EVT_TIMEOUT
            else Some W } }"

partial_function (option) reap_loop :: "'m worker_env \<Rightarrow> 'm worker \<Rightarrow> nat option \<Rightarrow> 'm worker option" where
  "reap_loop E W sessp =
     (case sessp of
        None \<Rightarrow> Some W
      | Some p \<Rightarrow>
          do { nx \<leftarrow> ngx_rtc_session_next W (Some p);
               W \<leftarrow> reap_session E W p;
               reap_loop E W nx })"

definition ngx_rtc_stream_reap_timer :: "'m worker_env \<Rightarrow> 'm worker \<Rightarrow> 'm worker option" where
  "ngx_rtc_stream_reap_timer E W =
     do { W \<leftarrow> (case w_sh W of
                 None \<Rightarrow> Some W
               | Some sh \<Rightarrow> do { sh \<leftarrow> ngx_rtc_shm_expire (we_shm E) (Some sh) False; Some (W\<lparr>w_sh := sh\<rparr>) });
          reap_loop E W (ngx_rtc_session_first W) }"

text \<open>The zone source a WHIP publisher mirrors into, claimed again once per interval.\<close>

definition ngx_rtc_stream_shm_source :: "'m worker_env \<Rightarrow> 'm worker \<Rightarrow> nat option \<Rightarrow> (nat option \<times> 'm worker) option" where
  "ngx_rtc_stream_shm_source E W srcp =
     (case srcp of
        None \<Rightarrow> Some (None, W)
      | Some q \<Rightarrow>
          do { src \<leftarrow> w_sources W q;
               let now = now_msec (we_shm E);
               if ls_shm_src src = None then Some (None, W)
               else if sint (now - ls_shm_sync_ms src) < NGX_RTC_SHM_SYNC_MS then Some (ls_shm_src src, W)
               else if w_sh W = None then Some (None, W)
               else do {
                 (rc, W) \<leftarrow> on_zone (\<lambda>sh. ngx_rtc_shm_source_try_publish (we_shm E) sh (Some (ls_name src)) NGX_RTC_PUBLISHER_WHIP) W;
                 if rc \<noteq> NGX_OK
                 then do { W \<leftarrow> set_source q (\<lambda>s. s\<lparr>ls_shm_src := None, ls_shm_sync_ms := now\<rparr>) W; Some (None, W) }
                 else do { W \<leftarrow> set_source q (\<lambda>s. s\<lparr>ls_shm_sync_ms := now\<rparr>) W; Some (ls_shm_src src, W) } } })"

end
