(* ===== verification/WorkerSafe.thy ===== *)
theory WorkerSafe
  imports Worker RegistrySafe
begin

text \<open>
  The worker's operations keep the registry invariant (theory \<open>RegistrySafe\<close>), the zone's
  (theory \<open>ShmSafe\<close>) and the correspondence of sessions with the stream sessions of their
  connections; what follows from it for every reachable process state.
\<close>

section \<open>The zone seen from a worker\<close>

definition zone_ok :: "('m \<Rightarrow> nat set) \<Rightarrow> 'm worker \<Rightarrow> bool" where
  "zone_ok live W \<longleftrightarrow> (\<forall>sh. w_sh W = Some sh \<longrightarrow> shm_inv live sh)"

text \<open>The provisos on the environment: the slab allocator and the trees are right, the clock is not 0,
  the worker's slot is not \<open>-1\<close>, and the slab has room for session skeletons (see \<open>shm_add_dangles\<close>).\<close>

definition worker_env_ok :: "('m \<Rightarrow> nat set) \<Rightarrow> 'm worker_env \<Rightarrow> bool" where
  "worker_env_ok live E \<longleftrightarrow> slab_sound live (we_shm E) \<and> pick_sound (we_tree E) \<and> now_msec (we_shm E) \<noteq> 0
     \<and> sint (ngx_worker E) \<noteq> - 1 \<and> (\<forall>m. fst (slab_alloc (we_shm E) Slab_session m) \<noteq> None)"

text \<open>Only the zone and fields of sources that no structure rests on change.\<close>

definition calm :: "('m \<Rightarrow> nat set) \<Rightarrow> 'm worker \<Rightarrow> 'm worker \<Rightarrow> bool" where
  "calm live W W' \<longleftrightarrow> same_registry W W' \<and> zone_ok live W' \<and> (w_sh W' = None \<longleftrightarrow> w_sh W = None)"

lemma calmD: "calm live W W' \<Longrightarrow> same_registry W W'" "calm live W W' \<Longrightarrow> zone_ok live W'" "calm live W W' \<Longrightarrow> w_sh W' = None \<longleftrightarrow> w_sh W = None"
  by (simp_all add: calm_def)

lemma calm_refl: "zone_ok live W \<Longrightarrow> calm live W W"
  by (simp add: calm_def)

lemma calm_trans: "calm live W W' \<Longrightarrow> calm live W' W'' \<Longrightarrow> calm live W W''"
  using same_registry_trans by (auto simp: calm_def)

lemma zone_op_total:
  assumes "shm_inv live c" "worker_env_ok live E" "op_ok op (we_shm E) c" "shm_exec op (we_shm E) c = zone x"
  shows "\<exists>r c'. x = Some (r, Some c') \<and> shm_inv live c'"
proof -
  obtain c' where "zone x = Some c'" "shm_inv live c'"
    using shm_exec_good [OF assms(1) _ assms(3)] assms(2,4) by (auto simp: worker_env_ok_def)
  then show ?thesis by (cases x) (auto simp: zone_def)
qed

lemma on_zone_calm:
  assumes "zone_ok live W" "\<And>sh. w_sh W = Some sh \<Longrightarrow> \<exists>r sh'. f (Some sh) = Some (r, Some sh') \<and> shm_inv live sh'"
    "w_sh W = None \<Longrightarrow> \<exists>r. f None = Some (r, None)"
  shows "\<exists>r W'. on_zone f W = Some (r, W') \<and> calm live W W' \<and> w_sources W' = w_sources W \<and> w_sessions W' = w_sessions W
    \<and> f (w_sh W) = Some (r, w_sh W')"
proof (cases "w_sh W")
  case None
  then obtain r where "f None = Some (r, None)" using assms(3) by blast
  then show ?thesis using None by (auto simp: on_zone_def calm_def zone_ok_def same_registry_def same_sessions_def)
next
  case (Some sh)
  then obtain r sh' where "f (Some sh) = Some (r, Some sh')" "shm_inv live sh'" using assms(2) by blast
  then show ?thesis using Some by (auto simp: on_zone_def calm_def zone_ok_def same_registry_def same_sessions_def)
qed

text \<open>One case for every zone operation the worker calls.\<close>

lemma on_zone_exec:
  assumes "zone_ok live W" "worker_env_ok live E" "\<And>sh. op_ok op (we_shm E) sh" "\<And>sh. shm_exec op (we_shm E) sh = zone (f (Some sh))"
    "\<exists>r. f None = Some (r, None)"
  shows "\<exists>r W'. on_zone f W = Some (r, W') \<and> calm live W W' \<and> w_sources W' = w_sources W \<and> w_sessions W' = w_sessions W
    \<and> f (w_sh W) = Some (r, w_sh W')"
proof (rule on_zone_calm [OF assms(1)])
  fix sh assume "w_sh W = Some sh"
  then have "shm_inv live sh" using assms(1) by (simp add: zone_ok_def)
  then show "\<exists>r sh'. f (Some sh) = Some (r, Some sh') \<and> shm_inv live sh'"
    by (rule zone_op_total [OF _ assms(2,3,4)])
next
  show "\<exists>r. f None = Some (r, None)" by (rule assms(5))
qed

lemmas null_zone = ngx_rtc_shm_source_try_publish_def ngx_rtc_shm_source_release_publish_def ngx_rtc_shm_source_get_def ngx_rtc_shm_source_remove_def
  ngx_rtc_shm_source_set_pt_def ngx_rtc_shm_session_bind_def ngx_rtc_shm_session_set_state_def ngx_rtc_shm_session_activate_def
  ngx_rtc_shm_session_remove_if_owner_def ngx_rtc_shm_session_is_close_requested_def ngx_rtc_shm_session_add_def
  with_source_def with_session_def shm_guard_def

lemma try_publish_calm:
  assumes z: "zone_ok live W" and E: "worker_env_ok live E"
  shows "\<exists>r W'. on_zone (\<lambda>sh. ngx_rtc_shm_source_try_publish (we_shm E) sh np k) W = Some (r, W') \<and> calm live W W' \<and> w_sources W' = w_sources W
    \<and> w_sessions W' = w_sessions W \<and> ngx_rtc_shm_source_try_publish (we_shm E) (w_sh W) np k = Some (r, w_sh W')"
  by (rule on_zone_exec [OF z E, where op = "Try_publish np k"]) (auto simp: op_ok_def null_zone)

lemma release_publish_calm:
  assumes z: "zone_ok live W" and E: "worker_env_ok live E"
  shows "\<exists>r W'. on_zone (\<lambda>sh. ngx_rtc_shm_source_release_publish (we_shm E) sh np k) W = Some (r, W') \<and> calm live W W' \<and> w_sources W' = w_sources W
    \<and> w_sessions W' = w_sessions W \<and> ngx_rtc_shm_source_release_publish (we_shm E) (w_sh W) np k = Some (r, w_sh W')"
  by (rule on_zone_exec [OF z E, where op = "Release_publish np k"]) (auto simp: op_ok_def null_zone)

lemma shm_get_calm:
  assumes z: "zone_ok live W" and E: "worker_env_ok live E"
  shows "\<exists>r W'. on_zone (\<lambda>sh. ngx_rtc_shm_source_get (we_shm E) sh np) W = Some (r, W') \<and> calm live W W' \<and> w_sources W' = w_sources W
    \<and> w_sessions W' = w_sessions W \<and> ngx_rtc_shm_source_get (we_shm E) (w_sh W) np = Some (r, w_sh W')"
  by (rule on_zone_exec [OF z E, where op = "Source_get np"]) (auto simp: op_ok_def null_zone)

lemma shm_remove_calm:
  assumes z: "zone_ok live W" and E: "worker_env_ok live E"
  shows "\<exists>r W'. on_zone (\<lambda>sh. ngx_rtc_shm_source_remove (we_shm E) sh np) W = Some (r, W') \<and> calm live W W' \<and> w_sources W' = w_sources W
    \<and> w_sessions W' = w_sessions W \<and> ngx_rtc_shm_source_remove (we_shm E) (w_sh W) np = Some (r, w_sh W')"
  by (rule on_zone_exec [OF z E, where op = "Source_remove np"]) (auto simp: op_ok_def null_zone)

lemma set_pt_calm:
  assumes z: "zone_ok live W" and E: "worker_env_ok live E"
  shows "\<exists>r W'. on_zone (\<lambda>sh. ngx_rtc_shm_source_set_pt sh np a b) W = Some (r, W') \<and> calm live W W' \<and> w_sources W' = w_sources W
    \<and> w_sessions W' = w_sessions W \<and> ngx_rtc_shm_source_set_pt (w_sh W) np a b = Some (r, w_sh W')"
  by (rule on_zone_exec [OF z E, where op = "Set_pt np a b"]) (auto simp: op_ok_def null_zone)

lemma session_bind_calm:
  assumes z: "zone_ok live W" and E: "worker_env_ok live E"
  shows "\<exists>r W'. on_zone (\<lambda>sh. ngx_rtc_shm_session_bind sh up slot (Some snapshot_zero)) W = Some (r, W') \<and> calm live W W' \<and> w_sources W' = w_sources W
    \<and> w_sessions W' = w_sessions W \<and> ngx_rtc_shm_session_bind (w_sh W) up slot (Some snapshot_zero) = Some (r, w_sh W')"
  by (rule on_zone_exec [OF z E, where op = "Session_bind up slot"]) (auto simp: op_ok_def null_zone)

lemma set_state_calm:
  assumes z: "zone_ok live W" and E: "worker_env_ok live E"
  shows "\<exists>r W'. on_zone (\<lambda>sh. ngx_rtc_shm_session_set_state sh up slot st) W = Some (r, W') \<and> calm live W W' \<and> w_sources W' = w_sources W
    \<and> w_sessions W' = w_sessions W \<and> ngx_rtc_shm_session_set_state (w_sh W) up slot st = Some (r, w_sh W')"
  by (rule on_zone_exec [OF z E, where op = "Session_set_state up slot st"]) (auto simp: op_ok_def null_zone)

lemma activate_calm:
  assumes z: "zone_ok live W" and E: "worker_env_ok live E"
  shows "\<exists>r W'. on_zone (\<lambda>sh. ngx_rtc_shm_session_activate sh up (ngx_worker E)) W = Some (r, W') \<and> calm live W W' \<and> w_sources W' = w_sources W
    \<and> w_sessions W' = w_sessions W \<and> ngx_rtc_shm_session_activate (w_sh W) up (ngx_worker E) = Some (r, w_sh W')"
  by (rule on_zone_exec [OF z E, where op = "Session_activate up (ngx_worker E)"]) (use E in \<open>auto simp: op_ok_def null_zone worker_env_ok_def\<close>)

lemma remove_owner_calm:
  assumes z: "zone_ok live W" and E: "worker_env_ok live E"
  shows "\<exists>r W'. on_zone (\<lambda>sh. ngx_rtc_shm_session_remove_if_owner (we_shm E) sh up slot) W = Some (r, W') \<and> calm live W W' \<and> w_sources W' = w_sources W
    \<and> w_sessions W' = w_sessions W \<and> ngx_rtc_shm_session_remove_if_owner (we_shm E) (w_sh W) up slot = Some (r, w_sh W')"
  by (rule on_zone_exec [OF z E, where op = "Session_remove_if_owner up slot"]) (auto simp: op_ok_def null_zone)

lemma close_requested_calm:
  assumes z: "zone_ok live W" and E: "worker_env_ok live E"
  shows "\<exists>r W'. on_zone (\<lambda>sh. ngx_rtc_shm_session_is_close_requested sh up) W = Some (r, W') \<and> calm live W W' \<and> w_sources W' = w_sources W
    \<and> w_sessions W' = w_sessions W \<and> ngx_rtc_shm_session_is_close_requested (w_sh W) up = Some (r, w_sh W')"
  by (rule on_zone_exec [OF z E, where op = "Session_is_close_requested up"]) (auto simp: op_ok_def null_zone)

lemma shm_session_add_calm:
  assumes z: "zone_ok live W" and E: "worker_env_ok live E"
  shows "\<exists>r W'. on_zone (\<lambda>sh. ngx_rtc_shm_session_add (we_shm E) sh up pp np a b d e f) W = Some (r, W') \<and> calm live W W' \<and> w_sources W' = w_sources W
    \<and> w_sessions W' = w_sessions W \<and> ngx_rtc_shm_session_add (we_shm E) (w_sh W) up pp np a b d e f = Some (r, w_sh W')"
  by (rule on_zone_exec [OF z E, where op = "Session_add up pp np a b d e f"]) (use E in \<open>auto simp: op_ok_def null_zone worker_env_ok_def\<close>)

section \<open>Skeletons only go\<close>

text \<open>What a close does to the zone adds no skeleton and changes none that stays.\<close>

definition skeletons_kept :: "'m worker \<Rightarrow> 'm worker \<Rightarrow> bool" where
  "skeletons_kept W W' \<longleftrightarrow> (\<forall>sh'. w_sh W' = Some sh' \<longrightarrow>
     (\<exists>sh. w_sh W = Some sh \<and> (\<forall>a k. sess_heap sh' a = Some k \<longrightarrow> sess_heap sh a = Some k)))"

lemma skeletons_kept_same: "w_sh W' = w_sh W \<Longrightarrow> skeletons_kept W W'"
  by (simp add: skeletons_kept_def)

lemma skeletons_kept_trans:
  assumes "skeletons_kept W W'" "skeletons_kept W' W''"
  shows "skeletons_kept W W''"
  unfolding skeletons_kept_def
proof (intro allI impI)
  fix sh'' assume "w_sh W'' = Some sh''"
  then obtain sh' where sh': "w_sh W' = Some sh'" "\<forall>a k. sess_heap sh'' a = Some k \<longrightarrow> sess_heap sh' a = Some k"
    using assms(2) unfolding skeletons_kept_def by blast
  then obtain sh where "w_sh W = Some sh" "\<forall>a k. sess_heap sh' a = Some k \<longrightarrow> sess_heap sh a = Some k"
    using assms(1) unfolding skeletons_kept_def by blast
  then show "\<exists>sh. w_sh W = Some sh \<and> (\<forall>a k. sess_heap sh'' a = Some k \<longrightarrow> sess_heap sh a = Some k)" using sh' by blast
qed

lemma on_zone_kept:
  assumes "on_zone f W = Some (r, W')"
    and "\<And>sh sh'. w_sh W = Some sh \<Longrightarrow> f (Some sh) = Some (r, Some sh') \<Longrightarrow> \<forall>a k. sess_heap sh' a = Some k \<longrightarrow> sess_heap sh a = Some k"
    and "\<And>sh'. f None \<noteq> Some (r, Some sh')"
  shows "skeletons_kept W W'"
proof -
  obtain x where x: "f (w_sh W) = Some (r, x)" "W' = W\<lparr>w_sh := x\<rparr>" using assms(1) by (auto simp: on_zone_def)
  show ?thesis
  proof (cases "w_sh W")
    case None
    then have "x = None" using x(1) assms(3) by (cases x) auto
    then show ?thesis using x(2) by (simp add: skeletons_kept_def)
  next
    case (Some sh)
    then show ?thesis using x assms(2) [of sh] by (auto simp: skeletons_kept_def)
  qed
qed

lemma put_source_sess: "put_source q f c = Some c' \<Longrightarrow> sess_heap c' = sess_heap c"
  by (auto simp: put_source_def)

lemma source_unlink_sess: "source_unlink_free E q c = Some c' \<Longrightarrow> sess_heap c' = sess_heap c"
  by (auto simp: source_unlink_free_def bind_eq_Some_conv Let_def)

lemma release_publish_kept:
  "on_zone (\<lambda>sh. ngx_rtc_shm_source_release_publish E sh np k) W = Some (r, W') \<Longrightarrow> skeletons_kept W W'"
  by (rule on_zone_kept, assumption)
    (auto simp: ngx_rtc_shm_source_release_publish_def with_source_def shm_guard_def bind_eq_Some_conv dest!: put_source_sess
       split: option.splits if_splits)

lemma source_remove_kept:
  "on_zone (\<lambda>sh. ngx_rtc_shm_source_remove E sh np) W = Some (r, W') \<Longrightarrow> skeletons_kept W W'"
  by (rule on_zone_kept, assumption)
    (auto simp: ngx_rtc_shm_source_remove_def shm_guard_def bind_eq_Some_conv dest!: source_unlink_sess split: option.splits if_splits)

lemma session_free_sess:
  assumes "ngx_rtc_shm_session_free_locked E p c = Some c'"
  shows "sess_heap c' = (sess_heap c)(p := None)"
  using assms
  by (auto simp: ngx_rtc_shm_session_free_locked_def put_source_def bind_eq_Some_conv Let_def split: option.splits if_split_asm)

lemma remove_owner_kept:
  "on_zone (\<lambda>sh. ngx_rtc_shm_session_remove_if_owner E sh up slot) W = Some (r, W') \<Longrightarrow> skeletons_kept W W'"
  by (rule on_zone_kept, assumption)
    (auto simp: ngx_rtc_shm_session_remove_if_owner_def with_session_def shm_guard_def bind_eq_Some_conv dest!: session_free_sess
       split: option.splits if_splits)

lemma expire_sessions_kept:
  "expire_sessions E forced ps c = Some c' \<Longrightarrow> sess_heap c' a = Some k \<Longrightarrow> sess_heap c a = Some k"
proof (induction ps arbitrary: c)
  case (Cons p ps)
  then obtain c1 where c1: "expire_sessions E forced ps c1 = Some c'" "c1 = c \<or> ngx_rtc_shm_session_free_locked E p c = Some c1"
    by (auto simp: bind_eq_Some_conv split: if_splits)
  have "sess_heap c1 a = Some k" by (rule Cons.IH [OF c1(1) Cons.prems(2)])
  then show ?case using c1(2) by (auto dest!: session_free_sess split: if_splits)
qed simp

lemma expire_sources_sess: "expire_sources E forced qs c = Some c' \<Longrightarrow> sess_heap c' = sess_heap c"
proof (induction qs arbitrary: c)
  case (Cons q qs)
  obtain src where src: "src_heap c q = Some src" using Cons.prems by (auto simp: bind_eq_Some_conv)
  show ?case
  proof (cases "shs_publishing src \<noteq> 0 \<and> publisher_alive (now_msec E) src")
    case True then show ?thesis using Cons src by simp
  next
    case False
    then obtain c1 c2 where c: "(if shs_publishing src \<noteq> 0 then put_source q (drop_publisher (now_msec E)) c else Some c) = Some c1"
      "c2 = c1 \<or> source_unlink_free E q c1 = Some c2" "expire_sources E forced qs c2 = Some c'"
      using Cons.prems src by (auto simp: bind_eq_Some_conv split: if_splits)
    have "sess_heap c2 = sess_heap c1" using c(2) source_unlink_sess by auto
    moreover have "sess_heap c1 = sess_heap c" using c(1) put_source_sess by (auto split: if_splits)
    ultimately show ?thesis using Cons.IH [OF c(3)] by simp
  qed
qed simp

section \<open>Publish ownership\<close>

lemma set_source_calm:
  assumes "zone_ok live W" "w_sources W q = Some s" "same_entry s (f s)"
  shows "\<exists>W'. set_source q f W = Some W' \<and> calm live W W' \<and> w_sources W' = (w_sources W)(q \<mapsto> f s) \<and> w_sh W' = w_sh W \<and> w_sessions W' = w_sessions W"
  using set_source_same [where f = f, OF assms(2,3)] assms(1) by (auto simp: calm_def zone_ok_def same_registry_def same_sessions_def)

lemma same_entry_fields [simp]:
  "same_entry s (mirror_clear s)"
  "(ucast kind :: u8) \<noteq> 0 \<Longrightarrow> same_entry s (mirror_set kind s)"
  "(ucast kind :: u8) \<noteq> 0 \<Longrightarrow> same_entry s ((mirror_set kind s)\<lparr>ls_shm_src := a\<rparr>)"
  "same_entry s (s\<lparr>ls_shm_src := a\<rparr>)"
  "same_entry s (s\<lparr>ls_shm_src := a, ls_shm_sync_ms := n\<rparr>)"
  "same_entry s (s\<lparr>ls_shm_sync_ms := n\<rparr>)"
  "same_entry s (s\<lparr>ls_audio_ctx := c\<rparr>)"
  "same_entry s (s\<lparr>ls_video_ssrc := vs, ls_audio_ssrc := as, ls_video_pt := vp, ls_audio_pt := ap\<rparr>)"
  by (simp_all add: same_entry_def mirror_clear_def mirror_set_def pubkind_ok_def)

text \<open>What \<^verbatim>\<open>ngx_rtc_shm_source_get\<close> returns is allocated.\<close>

lemma shm_source_get_live:
  assumes inv: "shm_inv live c" and "ngx_rtc_shm_source_get E (Some c) np = Some (Some a, Some c')"
  shows "src_heap c' a \<noteq> None"
proof (cases np)
  case None
  then show ?thesis using assms(2) by (simp add: ngx_rtc_shm_source_get_def shm_guard_def)
next
  case (Some name)
  show ?thesis
  proof (cases rule: source_lookup_total [OF inv, of name])
    case 1
    then show ?thesis using assms(2) Some
      by (auto simp: ngx_rtc_shm_source_get_def shm_guard_def bind_eq_Some_conv split: if_splits option.splits prod.splits)
  next
    case (2 q s)
    then show ?thesis using assms(2) Some by (auto simp: ngx_rtc_shm_source_get_def shm_guard_def split: if_splits)
  qed
qed

lemma zone_source_get_live:
  assumes "zone_ok live W" "on_zone (\<lambda>sh. ngx_rtc_shm_source_get E sh np) W = Some (Some a, W')"
  shows "\<exists>zs. zone_source W' a = Some zs"
proof -
  obtain sh' where sh': "ngx_rtc_shm_source_get E (w_sh W) np = Some (Some a, sh')" "W' = W\<lparr>w_sh := sh'\<rparr>"
    using assms(2) by (auto simp: on_zone_def)
  then obtain c where c: "w_sh W = Some c" by (cases "w_sh W") (auto simp: ngx_rtc_shm_source_get_def shm_guard_def)
  obtain c' where c': "sh' = Some c'"
    using sh'(1) c by (auto simp: ngx_rtc_shm_source_get_def shm_guard_def split: option.splits if_splits)
  have "shm_inv live c" using assms(1) c by (simp add: zone_ok_def)
  from shm_source_get_live [OF this] sh' c c' show ?thesis by (auto simp: zone_source_def)
qed

lemma ucast_u8_u64_zero [simp]: "(ucast (x :: u8) :: u64) = 0 \<longleftrightarrow> x = 0"
proof -
  have "unat x < 2 ^ 8" using unsigned_less [of x, where 'a = nat] by simp
  then have "unat x < 2 ^ 64" by simp
  then have "unat (ucast x :: u64) = unat x" by (simp add: unsigned_ucast_eq take_bit_nat_eq_self)
  then show ?thesis by (simp add: word_unat_eq_iff)
qed

lemma publish_claim_calm:
  assumes z: "zone_ok live W" and E: "worker_env_ok live E" and s: "w_sources W q = Some s" and k: "(ucast kind :: u8) \<noteq> 0"
  shows "\<exists>rc W' s'. ngx_rtc_publish_claim E W (Some q) kind = Some (rc, W') \<and> calm live W W' \<and> w_sources W' q = Some s'
    \<and> (\<forall>a. ls_shm_src s' = Some a \<longrightarrow> zone_source W' a \<noteq> None)"
proof (cases "w_sh W = None")
  case True
  obtain W' where W': "set_source q (\<lambda>s. (mirror_set kind s)\<lparr>ls_shm_src := None\<rparr>) W = Some W'" "calm live W W'"
    "w_sources W' = (w_sources W)(q \<mapsto> (mirror_set kind s)\<lparr>ls_shm_src := None\<rparr>)"
    using set_source_calm [where f = "\<lambda>s. (mirror_set kind s)\<lparr>ls_shm_src := None\<rparr>", OF z s] k by auto
  then show ?thesis using True s by (simp add: ngx_rtc_publish_claim_def)
next
  case False
  then obtain sh where zone: "w_sh W = Some sh" by blast
  obtain rc W1 where W1: "on_zone (\<lambda>sh. ngx_rtc_shm_source_try_publish (we_shm E) sh (Some (ls_name s)) kind) W = Some (rc, W1)"
    "calm live W W1" "w_sources W1 = w_sources W"
    using try_publish_calm [OF z E] by blast
  have s1: "w_sources W1 q = Some s" using W1(3) s by simp
  show ?thesis
  proof (cases "rc = NGX_BUSY")
    case True
    obtain W2 where "set_source q mirror_clear W1 = Some W2" "calm live W1 W2" "w_sources W2 = (w_sources W1)(q \<mapsto> mirror_clear s)"
      using set_source_calm [where f = mirror_clear, OF calmD(2) [OF W1(2)] s1] by auto
    then show ?thesis using zone s W1 True calm_trans [OF W1(2)] by (simp add: ngx_rtc_publish_claim_def mirror_clear_def)
  next
    case ok: False
    obtain W2 where W2: "set_source q (mirror_set kind) W1 = Some W2" "calm live W1 W2" "w_sources W2 = (w_sources W1)(q \<mapsto> mirror_set kind s)"
      using set_source_calm [where f = "mirror_set kind", OF calmD(2) [OF W1(2)] s1] k by auto
    obtain r W3 where W3: "(if rc = NGX_OK then on_zone (\<lambda>sh. ngx_rtc_shm_source_get (we_shm E) sh (Some (ls_name s))) W2 else Some (None, W2)) = Some (r, W3)"
      "calm live W2 W3" "w_sources W3 = w_sources W2"
      using shm_get_calm [OF calmD(2) [OF W2(2)] E, of "Some (ls_name s)"] calm_refl [OF calmD(2) [OF W2(2)]] by (cases "rc = NGX_OK") auto
    have r: "zone_source W3 a \<noteq> None" if "r = Some a" for a
      using zone_source_get_live [OF calmD(2) [OF W2(2)]] W3(1) that by (fastforce split: if_splits)
    let ?f = "\<lambda>s. let s = s\<lparr>ls_shm_src := r\<rparr> in if r \<noteq> None then s\<lparr>ls_shm_sync_ms := now_msec (we_shm E)\<rparr> else s"
    have s3: "w_sources W3 q = Some (mirror_set kind s)" using W2(3) W3(3) by simp
    have se: "same_entry (mirror_set kind s) (?f (mirror_set kind s))" by (simp add: Let_def)
    obtain W4 where W4: "set_source q ?f W3 = Some W4" "calm live W3 W4" "w_sources W4 = (w_sources W3)(q \<mapsto> ?f (mirror_set kind s))" "w_sh W4 = w_sh W3"
      using set_source_calm [where f = ?f, OF calmD(2) [OF W3(2)] s3 se] by blast
    have "ngx_rtc_publish_claim E W (Some q) kind = Some (NGX_OK, W4)"
      using zone s W1(1) ok W2(1) W3(1) W4(1) by (simp add: ngx_rtc_publish_claim_def Let_def)
    moreover have "calm live W W4" using W1(2) W2(2) W3(2) W4(2) calm_trans by blast
    moreover have "ls_shm_src (?f (mirror_set kind s)) = r" by (simp add: Let_def)
    ultimately show ?thesis using W4(3,4) r by (intro exI [of _ NGX_OK] exI [of _ W4] exI [of _ "?f (mirror_set kind s)"]) (simp add: zone_source_def)
  qed
qed

lemma publish_release_calm:
  assumes z: "zone_ok live W" and E: "worker_env_ok live E" and s: "w_sources W q = Some s"
  shows "\<exists>W'. ngx_rtc_publish_release E W (Some q) = Some W' \<and> calm live W W' \<and> w_sources W' =
    (if ls_publisher_kind s = 0 then w_sources W else (w_sources W)(q \<mapsto> mirror_clear s)) \<and> skeletons_kept W W'"
proof (cases "ls_publisher_kind s = 0")
  case True
  then show ?thesis using s calm_refl [OF z] skeletons_kept_same [of W W] by (simp add: ngx_rtc_publish_release_def)
next
  case nk: False
  then have k: "(ucast (ls_publisher_kind s) :: u64) \<noteq> 0" by (simp add: ucast_u8_u64_zero)
  obtain W1 where W1: "set_source q mirror_clear W = Some W1" "calm live W W1" "w_sources W1 = (w_sources W)(q \<mapsto> mirror_clear s)" "w_sh W1 = w_sh W"
    using set_source_calm [where f = mirror_clear, OF z s] by auto
  show ?thesis
  proof (cases "w_sh W = None")
    case True
    then show ?thesis using W1 s k True nk skeletons_kept_same [OF W1(4)] by (simp add: ngx_rtc_publish_release_def)
  next
    case False
    then obtain sh where zone: "w_sh W = Some sh" by blast
    let ?n = "Some (ls_name s)" and ?k = "ucast (ls_publisher_kind s) :: u64"
    obtain r W2 where W2: "on_zone (\<lambda>sh. ngx_rtc_shm_source_release_publish (we_shm E) sh ?n ?k) W1 = Some (r, W2)"
      "calm live W1 W2" "w_sources W2 = w_sources W1"
      using release_publish_calm [OF calmD(2) [OF W1(2)] E] by blast
    obtain r' W3 where W3: "on_zone (\<lambda>sh. ngx_rtc_shm_source_remove (we_shm E) sh ?n) W2 = Some (r', W3)" "calm live W2 W3" "w_sources W3 = w_sources W2"
      using shm_remove_calm [OF calmD(2) [OF W2(2)] E] by blast
    have "ngx_rtc_publish_release E W (Some q) = Some W3"
      using s k W1(1,4) zone W2(1) W3(1) by (simp add: ngx_rtc_publish_release_def)
    moreover have "calm live W W3" using W1(2) W2(2) W3(2) calm_trans by blast
    moreover have "skeletons_kept W W3"
      using skeletons_kept_same [OF W1(4)] release_publish_kept [OF W2(1)] source_remove_kept [OF W3(1)] skeletons_kept_trans by blast
    ultimately show ?thesis using nk W1(3) W2(3) W3(3) by simp
  qed
qed

section \<open>The invariant of a worker\<close>

definition ctx_ok :: "'m worker \<Rightarrow> bool" where
  "ctx_ok W \<longleftrightarrow> (\<forall>c p. w_stream_ctx W c = Some p \<longleftrightarrow> (\<exists>t. w_sessions W p = Some t \<and> lse_conn t = Some c))"

definition worker_inv :: "('m \<Rightarrow> nat set) \<Rightarrow> 'm worker \<Rightarrow> bool" where
  "worker_inv live W \<longleftrightarrow> reg_inv {} W \<and> zone_ok live W \<and> ctx_ok W"

lemma worker_invD:
  assumes "worker_inv live W" shows "reg_inv {} W" "zone_ok live W" "ctx_ok W"
  using assms by (simp_all add: worker_inv_def)

lemma ctx_ok_same: "ctx_ok W \<Longrightarrow> w_sessions W' = w_sessions W \<Longrightarrow> w_stream_ctx W' = w_stream_ctx W \<Longrightarrow> ctx_ok W'"
  by (simp add: ctx_ok_def)

lemma reg_inv_frame [simp]:
  "reg_inv N (W\<lparr>w_stream_ctx := x\<rparr>) = reg_inv N W" "reg_inv N (W\<lparr>w_posted := y\<rparr>) = reg_inv N W" "reg_inv N (W\<lparr>w_sh := z\<rparr>) = reg_inv N W"
  by (simp_all add: reg_inv_def reg_lists_def reg_names_def source_wf_def session_wf_def sub_linked_def)

lemma calm_sessions:
  assumes "calm live W W'"
  shows "w_sessions W' = w_sessions W" "ngx_rtc_sessions W' = ngx_rtc_sessions W" "ngx_rtc_session_tree W' = ngx_rtc_session_tree W"
    "w_stream_ctx W' = w_stream_ctx W" "w_posted W' = w_posted W"
  using calmD(1) [OF assms] by (simp_all add: same_registry_def same_sessions_def)

lemma calm_inv: "worker_inv live W \<Longrightarrow> calm live W W' \<Longrightarrow> worker_inv live W'"
  using same_registry_inv ctx_ok_same calm_sessions unfolding worker_inv_def calm_def by metis

lemma calm_source:
  assumes "calm live W W'" "w_sources W q = Some s"
  obtains s' where "w_sources W' q = Some s'" "same_entry s s'"
  using same_registry_source [OF calmD(1) [OF assms(1)] assms(2)] by blast

lemma fsm_dispatch_ok:
  assumes "SessionFsm.session_ok sm"
  shows "\<exists>b sm'. ngx_rtc_session_fsm_dispatch_ctx rep (Some sm) e ctx = Some (b, Some sm') \<and> SessionFsm.session_ok sm'"
proof -
  obtain s where "hsm_current_state sm = Some s" using assms by (auto simp: SessionFsm.session_ok_def)
  from dispatch_step [OF assms this, of rep e ctx] show ?thesis by blast
qed

section \<open>Closing\<close>

lemma close_detach_inv:
  assumes inv: "worker_inv live W" and t: "w_sessions W p = Some t"
  shows "\<exists>W'. close_detach E W p = Some W' \<and> worker_inv live W' \<and> w_sessions W' = (w_sessions W)(p \<mapsto> t\<lparr>lse_conn := None\<rparr>)
    \<and> w_sources W' = w_sources W \<and> w_sh W' = w_sh W \<and> ngx_rtc_sessions W' = ngx_rtc_sessions W \<and> ngx_rtc_session_tree W' = ngx_rtc_session_tree W"
proof -
  let ?f = "\<lambda>s. s\<lparr>lse_conn := None\<rparr>"
  let ?W = "W\<lparr>w_sessions := (w_sessions W)(p \<mapsto> ?f t)\<rparr>"
  note R = worker_invD(1) [OF inv]
  have fsm: "SessionFsm.session_ok (lse_fsm t)" using reg_invD(4) [OF R t] by (simp add: session_wf_def)
  have s: "set_session p ?f W = Some ?W" "reg_inv {} ?W" using set_session_inv [where f = ?f, OF R t] fsm by simp_all
  define ctx where "ctx = (case lse_conn t of None \<Rightarrow> w_stream_ctx W | Some c \<Rightarrow> (w_stream_ctx W)(c := None))"
  have ctx: "ctx c = Some p' \<longleftrightarrow> (\<exists>u. w_sessions ?W p' = Some u \<and> lse_conn u = Some c)" for c p'
  proof (cases "lse_conn t")
    case None
    then show ?thesis using worker_invD(3) [OF inv] t by (auto simp: ctx_ok_def ctx_def)
  next
    case (Some d)
    have iff: "w_stream_ctx W c = Some p' \<longleftrightarrow> (\<exists>u. w_sessions W p' = Some u \<and> lse_conn u = Some c)" for c p'
      using worker_invD(3) [OF inv] unfolding ctx_ok_def by blast
    have d: "w_stream_ctx W d = Some p" using iff t Some by blast
    show ?thesis
    proof (cases "c = d")
      case True
      have "p' = p" if "w_sessions W p' = Some u" "lse_conn u = Some d" for u
      proof -
        have "w_stream_ctx W d = Some p'" using iff that by blast
        then show ?thesis using d by simp
      qed
      then show ?thesis using True Some by (auto simp: ctx_def)
    next
      case False
      then show ?thesis using iff [of c p'] t Some by (cases "p' = p") (auto simp: ctx_def)
    qed
  qed
  define posted where "posted = (if lse_conn t = None \<or> \<not> we_event_ok E then w_posted W else w_posted W @ [the (lse_conn t)])"
  have run: "close_detach E W p = Some (?W\<lparr>w_stream_ctx := ctx, w_posted := posted\<rparr>)"
    using t s(1) by (cases "lse_conn t"; cases W) (simp_all add: close_detach_def ctx_def posted_def)
  have "reg_inv {} (?W\<lparr>w_stream_ctx := ctx, w_posted := posted\<rparr>)"
    using s(2) by simp
  then show ?thesis using run ctx worker_invD(2) [OF inv]
    by (intro exI [of _ "?W\<lparr>w_stream_ctx := ctx, w_posted := posted\<rparr>"]) (simp add: worker_inv_def zone_ok_def ctx_ok_def)
qed

text \<open>Leaving the source: a WHIP tag is released first, then the session unsubscribes.\<close>

lemma close_source_inv:
  assumes inv: "worker_inv live W" and E: "worker_env_ok live E" and t: "w_sessions W p = Some t"
  shows "\<exists>W' t'. close_leave E W p (lse_source t) = Some W'
    \<and> worker_inv live W' \<and> w_sessions W' = (w_sessions W)(p \<mapsto> t') \<and> lse_sub_queue t' = Q_self \<and> lse_source t' = None
    \<and> lse_conn t' = lse_conn t \<and> lse_ice_ufrag t' = lse_ice_ufrag t
    \<and> ngx_rtc_sessions W' = ngx_rtc_sessions W \<and> (w_sh W' = None \<longleftrightarrow> w_sh W = None) \<and> w_stream_ctx W' = w_stream_ctx W
    \<and> skeletons_kept W W'"
proof (cases "lse_source t")
  case None
  then have "lse_sub_queue t = Q_self" using reg_invD(4) [OF worker_invD(1) [OF inv] t] by (auto simp: session_wf_def)
  then show ?thesis using None inv t skeletons_kept_same [of W W]
    by (intro exI [of _ W] exI [of _ t]) (simp add: close_leave_def fun_upd_idem)
next
  case (Some q)
  obtain s where s: "w_sources W q = Some s" using reg_session_source [OF worker_invD(1) [OF inv] t Some] by blast
  obtain W1 where W1: "(if ls_publisher_kind s = 2 then ngx_rtc_publish_release E W (Some q) else Some W) = Some W1" "calm live W W1" "skeletons_kept W W1"
    using publish_release_calm [OF worker_invD(2) [OF inv] E s] calm_refl [OF worker_invD(2) [OF inv]] skeletons_kept_same [of W W] by (cases "ls_publisher_kind s = 2") auto
  have inv1: "worker_inv live W1" by (rule calm_inv [OF inv W1(2)])
  have t1: "w_sessions W1 p = Some t" using calm_sessions(1) [OF W1(2)] t by simp
  have T: "pick_sound (we_tree E)" using E by (simp add: worker_env_ok_def)
  let ?t = "t\<lparr>lse_sub_queue := Q_self, lse_source := None\<rparr>"
  obtain W2 where W2: "ngx_rtc_source_unsubscribe (we_tree E) W1 (Some q) (Some p) = Some W2" "reg_inv {} W2"
    "w_sessions W2 = (w_sessions W1)(p \<mapsto> ?t)" "w_sh W2 = w_sh W1" "w_stream_ctx W2 = w_stream_ctx W1" "ngx_rtc_sessions W2 = ngx_rtc_sessions W1"
    using unsubscribe_inv [OF worker_invD(1) [OF inv1] T t1 Some] by blast
  have c1: "w_sessions W1 = w_sessions W" "w_stream_ctx W1 = w_stream_ctx W" using calm_sessions [OF W1(2)] by simp_all
  have "ctx_ok W2"
    using worker_invD(3) [OF inv] t unfolding ctx_ok_def W2(3,5) c1 by (auto split: if_splits)
  then have "worker_inv live W2" using W2(2,4) worker_invD(2) [OF inv1] by (simp add: worker_inv_def zone_ok_def)
  moreover have "skeletons_kept W W2" by (rule skeletons_kept_trans [OF W1(3) skeletons_kept_same [OF W2(4)]])
  ultimately show ?thesis
    using Some s W1(1) W2 calm_sessions [OF W1(2)] calmD(3) [OF W1(2)] by (intro exI [of _ W2] exI [of _ ?t]) (simp add: close_leave_def)
qed

lemma session_close_inv:
  assumes inv: "worker_inv live W" and E: "worker_env_ok live E" and t: "w_sessions W p = Some t"
  shows "\<exists>W'. ngx_rtc_stream_session_close E W (Some p) ev = Some W' \<and> worker_inv live W' \<and> w_sessions W' = (w_sessions W)(p := None)
    \<and> ngx_rtc_sessions W' = remove1 p (ngx_rtc_sessions W) \<and> (w_sh W' = None \<longleftrightarrow> w_sh W = None) \<and> skeletons_kept W W'"
proof -
  let ?t1 = "t\<lparr>lse_conn := None\<rparr>"
  obtain W1 where W1: "close_detach E W p = Some W1" "worker_inv live W1" "w_sessions W1 = (w_sessions W)(p \<mapsto> ?t1)"
    "w_sh W1 = w_sh W" "ngx_rtc_sessions W1 = ngx_rtc_sessions W"
    using close_detach_inv [OF inv t] by blast
  have t1: "w_sessions W1 p = Some ?t1" using W1(3) by simp
  have fsm: "SessionFsm.session_ok (lse_fsm ?t1)" using reg_invD(4) [OF worker_invD(1) [OF W1(2)] t1] by (simp add: session_wf_def)
  obtain b sm where sm: "ngx_rtc_session_fsm_dispatch ngx_rtc_session_fsm_report_unhandled (Some (lse_fsm ?t1)) ev = Some (b, Some sm)" "SessionFsm.session_ok sm"
    using fsm_dispatch_ok [OF fsm] unfolding ngx_rtc_session_fsm_dispatch_def by blast
  let ?f = "\<lambda>s. s\<lparr>lse_fsm := sm\<rparr>"
  define t2 where "t2 = ?t1\<lparr>lse_fsm := sm\<rparr>"
  define W2 where "W2 = W1\<lparr>w_sessions := (w_sessions W1)(p \<mapsto> t2)\<rparr>"
  have s2: "set_session p ?f W1 = Some W2" "reg_inv {} W2"
    unfolding W2_def t2_def using set_session_inv [where f = ?f, OF worker_invD(1) [OF W1(2)] t1] sm(2) by simp_all
  have inv2: "worker_inv live W2"
    using s2(2) W1(2) t1 unfolding W2_def t2_def by (auto simp: worker_inv_def zone_ok_def ctx_ok_def)
  have t2: "w_sessions W2 p = Some t2" by (simp add: W2_def)
  obtain W3 t3 where W3: "close_leave E W2 p (lse_source t2) = Some W3"
    "worker_inv live W3" "w_sessions W3 = (w_sessions W2)(p \<mapsto> t3)" "lse_sub_queue t3 = Q_self" "lse_conn t3 = lse_conn t2"
    "ngx_rtc_sessions W3 = ngx_rtc_sessions W2" "w_sh W3 = None \<longleftrightarrow> w_sh W2 = None" "skeletons_kept W2 W3"
    using close_source_inv [OF inv2 E t2] by (elim exE conjE) (rule that)
  have t3: "w_sessions W3 p = Some t3" using W3(3) by simp
  let ?W4 = "W3\<lparr>ngx_rtc_session_tree := remove1 p (ngx_rtc_session_tree W3), ngx_rtc_sessions := remove1 p (ngx_rtc_sessions W3),
              w_sessions := (w_sessions W3)(p \<mapsto> t3\<lparr>lse_sn_len := 0, lse_queue := Q_removed\<rparr>)\<rparr>"
  have s4: "ngx_rtc_session_remove W3 (Some p) = Some ?W4" "reg_inv {} (?W4\<lparr>w_sessions := (w_sessions ?W4)(p := None)\<rparr>)"
    using session_remove_inv [OF worker_invD(1) [OF W3(2)] t3 W3(4)] by (simp_all add: Let_def)
  have z4: "zone_ok live ?W4" using worker_invD(2) [OF W3(2)] by (simp add: zone_ok_def)
  obtain r W5 where W5: "on_zone (\<lambda>sh. ngx_rtc_shm_session_remove_if_owner (we_shm E) sh (Some (lse_ice_ufrag ?t1)) (ngx_worker E)) ?W4 = Some (r, W5)"
    "calm live ?W4 W5" "w_sources W5 = w_sources ?W4"
    using remove_owner_calm [OF z4 E] by blast
  let ?W' = "W5\<lparr>w_sessions := (w_sessions W5)(p := None)\<rparr>"
  have run: "ngx_rtc_stream_session_close E W (Some p) ev = Some ?W'"
    using W1(1) t1 sm(1) s2(1) W3(1) s4(1) W5(1) unfolding ngx_rtc_stream_session_close_def by (simp add: t2_def)
  have c5: "w_sessions W5 = w_sessions ?W4" "ngx_rtc_sessions W5 = ngx_rtc_sessions ?W4" "w_stream_ctx W5 = w_stream_ctx ?W4"
    "ngx_rtc_session_tree W5 = ngx_rtc_session_tree ?W4" "ngx_rtc_source_tree W5 = ngx_rtc_source_tree ?W4"
    using calm_sessions [OF W5(2)] same_registryD(4) [OF calmD(1) [OF W5(2)]] by simp_all
  have "same_registry (?W4\<lparr>w_sessions := (w_sessions ?W4)(p := None)\<rparr>) (?W'\<lparr>w_stream_ctx := w_stream_ctx ?W4, w_posted := w_posted ?W4\<rparr>)"
    using c5 W5(3) by (simp add: same_registry_def same_sessions_def)
  from same_registry_inv [OF this s4(2)] have R: "reg_inv {} ?W'" by simp
  have "ctx_ok ?W'"
    unfolding ctx_ok_def
  proof (intro allI)
    fix c p'
    have "w_stream_ctx W3 c = Some p' \<longleftrightarrow> (\<exists>u. w_sessions W3 p' = Some u \<and> lse_conn u = Some c)"
      using worker_invD(3) [OF W3(2)] by (simp add: ctx_ok_def)
    then show "w_stream_ctx ?W' c = Some p' \<longleftrightarrow> (\<exists>u. w_sessions ?W' p' = Some u \<and> lse_conn u = Some c)"
      using t3 W3(5) c5 by (cases "p' = p") (simp_all add: t2_def)
  qed
  then have "worker_inv live ?W'" using R calmD(2) [OF W5(2)] by (simp add: worker_inv_def zone_ok_def)
  moreover have "w_sessions ?W' = (w_sessions W)(p := None)" using c5 W3(3) W1(3) by (simp add: W2_def)
  moreover have "w_sh ?W' = None \<longleftrightarrow> w_sh W = None" using calmD(3) [OF W5(2)] W3(7) W1(4) by (simp add: W2_def)
  moreover have "ngx_rtc_sessions ?W' = remove1 p (ngx_rtc_sessions W)" using c5 W3(6) W1(5) by (simp add: W2_def)
  moreover have "skeletons_kept W ?W'"
  proof (rule skeletons_kept_trans [OF skeletons_kept_same skeletons_kept_trans])
    show "w_sh W2 = w_sh W" using W1(4) by (simp add: W2_def)
    show "skeletons_kept W2 W3" by (rule W3(8))
    have "skeletons_kept ?W4 W5" by (rule remove_owner_kept [OF W5(1)])
    then show "skeletons_kept W3 ?W'" by (simp add: skeletons_kept_def)
  qed
  ultimately show ?thesis using run by (intro exI [of _ ?W'] conjI)
qed

section \<open>Reaping\<close>

text \<open>The session has been idle for its timeout; another worker or the API has asked for its end.\<close>

definition session_expired :: "'m worker_env \<Rightarrow> local_session \<Rightarrow> bool" where
  "session_expired E t \<longleftrightarrow> now_msec (we_shm E) - lse_last_active t
     \<ge> (if hsm_current_state (lse_fsm t) = Some S_session_srtp_ready then ready_timeout E else handshake_timeout E)"

definition kick_requested :: "'m worker \<Rightarrow> local_session \<Rightarrow> bool" where
  "kick_requested W t \<longleftrightarrow> (\<exists>sh a k. w_sh W = Some sh \<and> sess_heap sh a = Some k \<and> ufrag_matches k (lse_ice_ufrag t) \<and> she_close_requested k \<noteq> 0)"

lemma kick_kept: "skeletons_kept W W' \<Longrightarrow> kick_requested W' t \<Longrightarrow> kick_requested W t"
  unfolding skeletons_kept_def kick_requested_def by blast

lemma session_find_hit: "session_find H P ps = Some (Some p) \<Longrightarrow> \<exists>s. H p = Some s \<and> P s"
  by (induction ps) (auto split: option.splits if_splits)

lemma close_requested_read:
  assumes "on_zone (\<lambda>sh. ngx_rtc_shm_session_is_close_requested sh (Some (lse_ice_ufrag t))) W = Some (r, W')"
  shows "W' = W" "r \<Longrightarrow> kick_requested W t"
proof -
  obtain x where x: "ngx_rtc_shm_session_is_close_requested (w_sh W) (Some (lse_ice_ufrag t)) = Some (r, x)" "W' = W\<lparr>w_sh := x\<rparr>"
    using assms by (auto simp: on_zone_def)
  have "x = w_sh W"
    using x(1) by (auto simp: ngx_rtc_shm_session_is_close_requested_def with_session_def shm_guard_def bind_eq_Some_conv split: option.splits if_splits)
  then show "W' = W" using x(2) by simp
  show "kick_requested W t" if r
    using x(1) that by (auto simp: ngx_rtc_shm_session_is_close_requested_def with_session_def shm_guard_def bind_eq_Some_conv kick_requested_def
        ngx_rtc_shm_session_locked_lookup_def dest!: session_find_hit split: option.splits if_splits) blast
qed

lemma reap_session_inv:
  assumes inv: "worker_inv live W" and E: "worker_env_ok live E" and t: "w_sessions W p = Some t"
  shows "\<exists>W'. reap_session E W p = Some W' \<and> worker_inv live W' \<and> skeletons_kept W W'
    \<and> (if session_expired E t \<or> W' \<noteq> W
       then w_sessions W' = (w_sessions W)(p := None) \<and> ngx_rtc_sessions W' = remove1 p (ngx_rtc_sessions W) \<and> (session_expired E t \<or> kick_requested W t)
       else w_sessions W' = w_sessions W \<and> ngx_rtc_sessions W' = ngx_rtc_sessions W)"
proof -
  obtain kicked W1 where k: "on_zone (\<lambda>sh. ngx_rtc_shm_session_is_close_requested sh (Some (lse_ice_ufrag t))) W = Some (kicked, W1)"
    using close_requested_calm [OF worker_invD(2) [OF inv] E] by blast
  note read = close_requested_read [OF k]
  have fsm: "SessionFsm.session_ok (lse_fsm t)" using reg_invD(4) [OF worker_invD(1) [OF inv] t] by (simp add: session_wf_def)
  then obtain s where s: "hsm_current_state (lse_fsm t) = Some s" by (auto simp: SessionFsm.session_ok_def)
  have ready: "ngx_rtc_session_fsm_is_ready ngx_rtc_session_fsm_report_unhandled (Some (lse_fsm t)) = Some (s = S_session_srtp_ready)"
    using is_in_current [OF s, of S_session_srtp_ready] by (simp add: ngx_rtc_session_fsm_is_ready_def)
  define ev where "ev = (if kicked then NGX_RTC_SESSION_EVT_CLOSE else NGX_RTC_SESSION_EVT_TIMEOUT)"
  have run: "reap_session E W p = (if kicked \<or> session_expired E t then ngx_rtc_stream_session_close E W (Some p) ev else Some W)"
    using t k read(1) ready s unfolding reap_session_def by (auto simp: ev_def session_expired_def)
  show ?thesis
  proof (cases "kicked \<or> session_expired E t")
    case True
    then show ?thesis using run session_close_inv [OF inv E t, of ev] read(2) by auto
  next
    case False
    then show ?thesis using run inv skeletons_kept_same [of W W] by simp
  qed
qed

lemma reap_loop_inv:
  assumes E: "worker_env_ok live E"
  shows "worker_inv live W \<Longrightarrow> ngx_rtc_sessions W = as @ bs \<Longrightarrow> \<exists>W'. reap_loop E W (head_of bs) = Some W' \<and> worker_inv live W'
    \<and> skeletons_kept W W' \<and> (\<forall>p. w_sessions W' p = w_sessions W p \<or> w_sessions W' p = None)
    \<and> (\<forall>p t. w_sessions W p = Some t \<longrightarrow> p \<in> set bs \<longrightarrow> session_expired E t \<longrightarrow> w_sessions W' p = None)
    \<and> (\<forall>p t. w_sessions W p = Some t \<longrightarrow> \<not> session_expired E t \<longrightarrow> \<not> kick_requested W t \<longrightarrow> w_sessions W' p = Some t)"
proof (induction bs arbitrary: W as)
  case Nil
  then show ?case using skeletons_kept_same [of W W] by (subst reap_loop.simps) (simp add: head_of_def)
next
  case (Cons b bs)
  note R = worker_invD(1) [OF Cons.prems(1)]
  have "b \<in> set (ngx_rtc_sessions W)" using Cons.prems(2) by simp
  then obtain t where t: "w_sessions W b = Some t" using reg_invD(1) [OF R] by (auto simp: reg_lists_def)
  have d: "distinct (as @ b # bs)" using reg_invD(1) [OF R] Cons.prems(2) by (simp add: reg_lists_def)
  then have b: "b \<notin> set as" "remove1 b (as @ b # bs) = as @ bs" by (simp_all add: remove1_append)
  have nx: "ngx_rtc_session_next W (Some b) = Some (head_of bs)"
    using t reg_invD(4) [OF R t] succ_in_split [OF b(1)] Cons.prems(2) by (simp add: ngx_rtc_session_next_def session_wf_def)
  obtain W1 where W1: "reap_session E W b = Some W1" "worker_inv live W1" "skeletons_kept W W1"
    "if session_expired E t \<or> W1 \<noteq> W
     then w_sessions W1 = (w_sessions W)(b := None) \<and> ngx_rtc_sessions W1 = remove1 b (ngx_rtc_sessions W) \<and> (session_expired E t \<or> kick_requested W t)
     else w_sessions W1 = w_sessions W \<and> ngx_rtc_sessions W1 = ngx_rtc_sessions W"
    using reap_session_inv [OF Cons.prems(1) E t] by blast
  obtain as' where as': "ngx_rtc_sessions W1 = as' @ bs"
    using W1(4) Cons.prems(2) b(2) by (metis append_Cons append_Nil append_assoc)
  obtain W2 where W2: "reap_loop E W1 (head_of bs) = Some W2" "worker_inv live W2" "skeletons_kept W1 W2"
    "\<forall>p. w_sessions W2 p = w_sessions W1 p \<or> w_sessions W2 p = None"
    "\<forall>p t. w_sessions W1 p = Some t \<longrightarrow> p \<in> set bs \<longrightarrow> session_expired E t \<longrightarrow> w_sessions W2 p = None"
    "\<forall>p t. w_sessions W1 p = Some t \<longrightarrow> \<not> session_expired E t \<longrightarrow> \<not> kick_requested W1 t \<longrightarrow> w_sessions W2 p = Some t"
    using Cons.IH [OF W1(2) as'] by blast
  have run: "reap_loop E W (head_of (b # bs)) = Some W2"
    using nx W1(1) W2(1) by (subst reap_loop.simps) (simp add: head_of_def)
  have one: "w_sessions W2 p = w_sessions W p \<or> w_sessions W2 p = None" for p
    using W1(4) W2(4) by (cases "p = b") (metis fun_upd_apply)+
  have two: "w_sessions W2 p = None" if "w_sessions W p = Some u" "p \<in> set (b # bs)" "session_expired E u" for p u
    using that W1(4) W2(4,5) t d by (cases "p = b") (fastforce split: if_splits)+
  have three: "w_sessions W2 p = Some u" if "w_sessions W p = Some u" "\<not> session_expired E u" "\<not> kick_requested W u" for p u
    using that W1(4) W2(6) t kick_kept [OF W1(3)] by (cases "p = b") (auto split: if_splits)
  show ?case using run W2(2) skeletons_kept_trans [OF W1(3) W2(3)] one two three by (intro exI [of _ W2]) auto
qed
end
