(* ===== verification/WorkerReach.thy ===== *)
theory WorkerReach
  imports WorkerSafe
begin

text \<open>
  Every operation of a worker process, in any order, from an empty registry: each completes (no
  operation reads or writes a freed object) and keeps the invariant of the theory
  \<open>WorkerSafe\<close>. The specifications are weakest-precondition style: \<open>runs P m\<close> says that
  \<open>m\<close> returns and its result satisfies \<open>P\<close>.
\<close>

section \<open>Running\<close>

definition runs :: "('a \<Rightarrow> bool) \<Rightarrow> 'a option \<Rightarrow> bool" where
  "runs P m \<longleftrightarrow> (\<exists>x. m = Some x \<and> P x)"

lemma runs_Some [simp]: "runs P (Some x) = P x"
  by (simp add: runs_def)

lemma runs_map [simp]: "runs P (map_option f m) = runs (\<lambda>x. P (f x)) m"
  by (auto simp: runs_def)

lemma runs_bind: "runs Q m \<Longrightarrow> (\<And>x. Q x \<Longrightarrow> runs P (f x)) \<Longrightarrow> runs P (Option.bind m f)"
  by (auto simp: runs_def)

lemma runs_bind2: "runs Q m \<Longrightarrow> (\<And>a b. Q (a, b) \<Longrightarrow> runs P (f a b)) \<Longrightarrow> runs P (Option.bind m (\<lambda>(a, b). f a b))"
  by (auto simp: runs_def)

lemma runs_bind_Some: "m = Some x \<Longrightarrow> runs P (f x) \<Longrightarrow> runs P (Option.bind m f)"
  by simp

lemma runs_if: "(c \<Longrightarrow> runs P a) \<Longrightarrow> (\<not> c \<Longrightarrow> runs P b) \<Longrightarrow> runs P (if c then a else b)"
  by simp

lemma runs_weaken: "runs Q m \<Longrightarrow> (\<And>x. Q x \<Longrightarrow> P x) \<Longrightarrow> runs P m"
  by (auto simp: runs_def)

section \<open>Steps\<close>

text \<open>Between two states of one handler the registry only gains: \<open>W'\<close> is calm after \<open>W\<close>.\<close>

abbreviation grows :: "('m \<Rightarrow> nat set) \<Rightarrow> 'm worker \<Rightarrow> 'm worker \<Rightarrow> bool" where
  "grows live W W' \<equiv> worker_inv live W' \<and> calm live W W'"

lemma grows_trans: "grows live W W' \<Longrightarrow> grows live W' W'' \<Longrightarrow> grows live W W''"
  using calm_trans by blast

lemma grows_refl: "worker_inv live W \<Longrightarrow> grows live W W"
  using calm_refl worker_invD(2) by blast

lemma set_source_runs:
  assumes "worker_inv live W" "w_sources W q = Some s" "same_entry s (f s)"
  shows "runs (\<lambda>W'. grows live W W' \<and> w_sh W' = w_sh W) (set_source q f W)"
  using set_source_calm [where f = f, OF worker_invD(2) [OF assms(1)] assms(2,3)] calm_inv [OF assms(1)] by (auto simp: runs_def)

lemma set_session_runs:
  assumes inv: "worker_inv live W" and t: "w_sessions W p = Some t"
    and f: "lse_ice_ufrag (f t) = lse_ice_ufrag t" "lse_sub_queue (f t) = lse_sub_queue t" "lse_sn_len (f t) = lse_sn_len t"
    "lse_queue (f t) = lse_queue t" "SessionFsm.session_ok (lse_fsm (f t))" "lse_source (f t) = lse_source t" "lse_conn (f t) = lse_conn t"
  shows "runs (\<lambda>W'. worker_inv live W' \<and> W' = W\<lparr>w_sessions := (w_sessions W)(p \<mapsto> f t)\<rparr>) (set_session p f W)"
proof -
  let ?W = "W\<lparr>w_sessions := (w_sessions W)(p \<mapsto> f t)\<rparr>"
  have r: "set_session p f W = Some ?W" "reg_inv {} ?W"
    using set_session_inv [where f = f, OF worker_invD(1) [OF inv] t] f by simp_all
  have "ctx_ok ?W" using worker_invD(3) [OF inv] t f(7) by (auto simp: ctx_ok_def)
  then show ?thesis using r worker_invD(2) [OF inv] by (simp add: worker_inv_def zone_ok_def)
qed

lemma zone_runs:
  assumes "worker_inv live W"
    "\<exists>r W'. on_zone f W = Some (r, W') \<and> calm live W W' \<and> w_sources W' = w_sources W \<and> w_sessions W' = w_sessions W \<and> f (w_sh W) = Some (r, w_sh W')"
  shows "runs (\<lambda>(r, W'). grows live W W' \<and> w_sources W' = w_sources W \<and> on_zone f W = Some (r, W')) (on_zone f W)"
  using assms(2) calm_inv [OF assms(1)] by (auto simp: runs_def)

text \<open>A new session enters the registry.\<close>

lemma session_fsm_new_ok: "\<exists>sm. session_fsm_new p = Some sm \<and> SessionFsm.session_ok sm"
proof -
  obtain sm where "ngx_rtc_session_fsm_init ngx_rtc_session_fsm_report_unhandled (Some fsm_zero) (Some [None, None]) 2 (Some p) = Some (Some sm)"
    "SessionFsm.session_ok sm"
    using init_ok [of 2 "[None, None]"] by fastforce
  then show ?thesis
    by (simp add: session_fsm_new_def ngx_rtc_session_fsm_set_reporter_def SessionFsm.session_ok_def hsm_machine_ok_def)
qed

lemma session_enter_runs:
  assumes inv: "worker_inv live W" and p: "w_sessions W p = None"
    and t: "lse_ice_ufrag t \<noteq> []" "length (lse_ice_ufrag t) < ICE_UFRAG_SIZE" "SessionFsm.session_ok (lse_fsm t)"
    "\<forall>q. lse_source t = Some q \<longrightarrow> w_sources W q \<noteq> None" "lse_sub_queue t = Q_self" "lse_sn_len t = 0" "lse_queue t = Q_self" "lse_conn t = None"
    and new: "\<And>p' t'. w_sessions W p' = Some t' \<Longrightarrow> lse_ice_ufrag t' \<noteq> lse_ice_ufrag t"
  shows "runs (\<lambda>W'. worker_inv live W' \<and> w_sources W' = w_sources W \<and> w_sh W' = w_sh W \<and> w_stream_ctx W' = w_stream_ctx W
      \<and> w_sessions W' = (w_sessions W)(p \<mapsto> t\<lparr>lse_queue := Q_linked, lse_sn_len := length (lse_ice_ufrag t)\<rparr>)
      \<and> ngx_rtc_source_tree W' = ngx_rtc_source_tree W)
    (ngx_rtc_session_add T (W\<lparr>w_sessions := (w_sessions W)(p \<mapsto> t)\<rparr>) (Some p))"
proof -
  let ?W = "W\<lparr>w_sessions := (w_sessions W)(p \<mapsto> t)\<rparr>"
  have R: "reg_inv {p} ?W" by (rule session_new_inv [OF worker_invD(1) [OF inv] p t(1-7) new])
  have t': "w_sessions ?W p = Some t" by simp
  let ?X = "\<lambda>tree. ?W\<lparr>ngx_rtc_sessions := p # ngx_rtc_sessions ?W,
              w_sessions := (w_sessions ?W)(p \<mapsto> t\<lparr>lse_queue := Q_linked, lse_sn_len := length (lse_ice_ufrag t)\<rparr>),
              ngx_rtc_session_tree := tree\<rparr>"
  from session_add_inv [OF R t', where T = T] obtain tree where W': "ngx_rtc_session_add T ?W (Some p) = Some (?X tree)" "reg_inv {} (?X tree)"
    unfolding Let_def by blast
  have "ctx_ok (?X tree)" using worker_invD(3) [OF inv] p t(8) by (auto simp: ctx_ok_def)
  then show ?thesis using W' worker_invD(2) [OF inv] by (simp add: worker_inv_def zone_ok_def)
qed

lemma shm_session_add_live:
  assumes "on_zone (\<lambda>sh. ngx_rtc_shm_session_add E sh up pp np a b d e f) W = Some (Some x, W')"
  shows "\<exists>sh k. w_sh W' = Some sh \<and> sess_heap sh x = Some k"
  using assms
  by (auto simp: on_zone_def ngx_rtc_shm_session_add_def shm_guard_def bind_eq_Some_conv split: option.splits if_splits prod.splits)

lemma session_skeleton_runs:
  assumes inv: "worker_inv live W" and E: "worker_env_ok live E" and t: "w_sessions W p = Some t"
  shows "runs (\<lambda>W'. worker_inv live W' \<and> (\<exists>i. w_sessions W' = (w_sessions W)(p \<mapsto> t\<lparr>lse_id := i\<rparr>)) \<and> w_sources W' = w_sources W)
    (session_skeleton E W p name vext aext)"
proof -
  have fsm: "SessionFsm.session_ok (lse_fsm t)" using reg_invD(4) [OF worker_invD(1) [OF inv] t] by (simp add: session_wf_def)
  let ?add = "\<lambda>sh. ngx_rtc_shm_session_add (we_shm E) sh (Some (lse_ice_ufrag t)) (Some (lse_ice_pwd t)) (Some name)
      (lse_video_pt t) (lse_audio_pt t) vext aext (lse_publishing t)"
  have "runs (\<lambda>W'. worker_inv live W' \<and> (\<exists>i. w_sessions W' = (w_sessions W)(p \<mapsto> t\<lparr>lse_id := i\<rparr>)) \<and> w_sources W' = w_sources W)
    (do { (shm_sess, W) \<leftarrow> on_zone ?add W;
          (case shm_sess of None \<Rightarrow> Some W
           | Some a \<Rightarrow> do { sh \<leftarrow> w_sh W; sk \<leftarrow> sess_heap sh a; set_session p (\<lambda>s. s\<lparr>lse_id := she_id sk\<rparr>) W }) })"
  proof (rule runs_bind2 [OF zone_runs [OF inv shm_session_add_calm [OF worker_invD(2) [OF inv] E]]])
    fix r W1 assume "case (r, W1) of (r, W') \<Rightarrow> grows live W W' \<and> w_sources W' = w_sources W \<and> on_zone ?add W = Some (r, W')"
    then have W1: "worker_inv live W1" "calm live W W1" "w_sources W1 = w_sources W" "on_zone ?add W = Some (r, W1)" by simp_all
    have s1: "w_sessions W1 = w_sessions W" by (rule calm_sessions(1) [OF W1(2)])
    show "runs (\<lambda>W'. worker_inv live W' \<and> (\<exists>i. w_sessions W' = (w_sessions W)(p \<mapsto> t\<lparr>lse_id := i\<rparr>)) \<and> w_sources W' = w_sources W)
       (case r of None \<Rightarrow> Some W1
           | Some a \<Rightarrow> do { sh \<leftarrow> w_sh W1; sk \<leftarrow> sess_heap sh a; set_session p (\<lambda>s. s\<lparr>lse_id := she_id sk\<rparr>) W1 })"
    proof (cases r)
      case None
      have "(w_sessions W)(p \<mapsto> t\<lparr>lse_id := lse_id t\<rparr>) = w_sessions W" using t by (simp add: fun_upd_idem)
      then show ?thesis using None W1 s1 by (auto intro!: exI [of _ "lse_id t"])
    next
      case (Some a)
      obtain sh k where k: "w_sh W1 = Some sh" "sess_heap sh a = Some k" using shm_session_add_live W1(4) Some by blast
      have "runs (\<lambda>W'. worker_inv live W' \<and> W' = W1\<lparr>w_sessions := (w_sessions W1)(p \<mapsto> t\<lparr>lse_id := she_id k\<rparr>)\<rparr>)
         (set_session p (\<lambda>s. s\<lparr>lse_id := she_id k\<rparr>) W1)"
        by (rule set_session_runs [OF W1(1)]) (use s1 t fsm in simp_all)
      then show ?thesis using Some k W1(3) s1 by (auto elim!: runs_weaken)
    qed
  qed
  then show ?thesis using t by (simp add: session_skeleton_def)
qed

lemma source_create_runs:
  assumes inv: "worker_inv live W" and E: "worker_env_ok live E" and fresh: "\<forall>q. newsrc = Some q \<longrightarrow> w_sources W q = None"
  shows "runs (\<lambda>((srcp, created), W'). worker_inv live W' \<and> same_sessions W W' \<and> w_sh W' = w_sh W
      \<and> (\<forall>q s. w_sources W q = Some s \<longrightarrow> w_sources W' q = Some s)
      \<and> (\<forall>q. srcp = Some q \<longrightarrow> (\<exists>s. w_sources W' q = Some s \<and> ls_name s = name)))
    (ngx_rtc_source_create (we_tree E) newsrc W (Some name))"
proof -
  have T: "pick_sound (we_tree E)" using E by (simp add: worker_env_ok_def)
  obtain srcp created W' where W': "ngx_rtc_source_create (we_tree E) newsrc W (Some name) = Some ((srcp, created), W')" "reg_inv {} W'"
    "same_sessions W W'" "w_sh W' = w_sh W" "\<forall>q s. w_sources W q = Some s \<longrightarrow> w_sources W' q = Some s"
    "\<forall>q. srcp = Some q \<longrightarrow> (\<exists>s. w_sources W' q = Some s \<and> ls_name s = name)"
    using source_create_inv [OF worker_invD(1) [OF inv] T, of newsrc name] fresh by (elim exE conjE meta_impE) (simp, rule that)
  have "worker_inv live W'"
    using W'(2-4) worker_invD(2,3) [OF inv] by (simp add: worker_inv_def zone_ok_def ctx_ok_def same_sessions_def)
  then show ?thesis using W' by simp
qed

lemma source_get_runs:
  assumes "worker_inv live W" "worker_env_ok live E" "\<forall>q. newsrc = Some q \<longrightarrow> w_sources W q = None"
  shows "runs (\<lambda>(srcp, W'). worker_inv live W' \<and> same_sessions W W' \<and> w_sh W' = w_sh W
      \<and> (\<forall>q s. w_sources W q = Some s \<longrightarrow> w_sources W' q = Some s)
      \<and> (\<forall>q. srcp = Some q \<longrightarrow> (\<exists>s. w_sources W' q = Some s \<and> ls_name s = name)))
    (ngx_rtc_source_get (we_tree E) newsrc W (Some name))"
  using source_create_runs [OF assms, of name] by (auto simp: ngx_rtc_source_get_def elim!: runs_weaken)

lemma source_remove_runs:
  assumes inv: "worker_inv live W" and E: "worker_env_ok live E"
  shows "runs (\<lambda>W'. worker_inv live W' \<and> same_sessions W W' \<and> w_sh W' = w_sh W) (ngx_rtc_source_remove (we_tree E) W (Some name))"
proof -
  have T: "pick_sound (we_tree E)" using E by (simp add: worker_env_ok_def)
  obtain W' where W': "ngx_rtc_source_remove (we_tree E) W (Some name) = Some W'" "reg_inv {} W'" "same_sessions W W'" "w_sh W' = w_sh W"
    using source_remove_inv [OF worker_invD(1) [OF inv] T, of name] by blast
  then show ?thesis using worker_invD(2,3) [OF inv] by (simp add: worker_inv_def zone_ok_def ctx_ok_def same_sessions_def)
qed

text \<open>The answer takes the zone's SSRCs and payload types.\<close>

lemma take_params_runs:
  assumes inv: "worker_inv live W" and E: "worker_env_ok live E" and s: "w_sources W q = Some s"
    and f: "\<And>s. same_entry s (f s)"
  shows "runs (\<lambda>W'. grows live W W')
    (do { W \<leftarrow> set_source q f W; (_, W) \<leftarrow> on_zone (\<lambda>sh. ngx_rtc_shm_source_set_pt sh np vpt apt) W; Some W })"
proof (rule runs_bind [OF set_source_runs [where f = f, OF inv s f]])
  fix W1 assume W1: "grows live W W1 \<and> w_sh W1 = w_sh W"
  then have inv1: "worker_inv live W1" by simp
  show "runs (\<lambda>W'. grows live W W') (do { (_, W) \<leftarrow> on_zone (\<lambda>sh. ngx_rtc_shm_source_set_pt sh np vpt apt) W1; Some W })"
    by (rule runs_bind2 [OF zone_runs [OF inv1 set_pt_calm [OF worker_invD(2) [OF inv1] E]]])
      (use W1 grows_trans in fastforce)
qed

lemma session_new_ok:
  "\<exists>t. session_new E p q pub vpt apt ufrag pwd = Some t \<and> SessionFsm.session_ok (lse_fsm t) \<and> lse_source t = Some q \<and> lse_ice_ufrag t = ufrag
    \<and> lse_sub_queue t = Q_self \<and> lse_sn_len t = 0 \<and> lse_queue t = Q_self \<and> lse_conn t = None \<and> lse_publishing t = pub
    \<and> lse_last_active t = now_msec (we_shm E)"
  using session_fsm_new_ok [of p] by (auto simp: session_new_def)

text \<open>The proviso of a handler that registers a session: the calloc'd block is not in use, and the
  printed random ufrag is not one of this process's sessions.\<close>

definition new_session_ok :: "'m worker \<Rightarrow> nat option \<Rightarrow> bytes \<Rightarrow> bool" where
  "new_session_ok W newsess ufrag \<longleftrightarrow> (\<forall>p. newsess = Some p \<longrightarrow> w_sessions W p = None)
     \<and> ufrag \<noteq> [] \<and> length ufrag < ICE_UFRAG_SIZE \<and> (\<forall>p t. w_sessions W p = Some t \<longrightarrow> lse_ice_ufrag t \<noteq> ufrag)"

text \<open>What play and WHIP share: the session is made, entered and given a skeleton when the zone has room for
  it.\<close>

lemma register_runs:
  assumes inv: "worker_inv live W" and E: "worker_env_ok live E" and s: "w_sources W q = Some s" and new: "new_session_ok W (Some p) ufrag"
    and skel: "\<And>W1 t. worker_inv live W1 \<Longrightarrow> w_sessions W1 p = Some t \<Longrightarrow>
      runs (\<lambda>W'. worker_inv live W' \<and> (\<exists>i. w_sessions W' = (w_sessions W1)(p \<mapsto> t\<lparr>lse_id := i\<rparr>))) (skel W1)"
  shows "runs (\<lambda>W'. worker_inv live W' \<and> (\<exists>t. w_sessions W' = (w_sessions W)(p \<mapsto> t) \<and> lse_source t = Some q \<and> lse_ice_ufrag t = ufrag
      \<and> lse_publishing t = pub \<and> lse_sub_queue t = Q_self \<and> lse_conn t = None))
    (do { sess \<leftarrow> session_new E p q pub vpt apt ufrag pwd;
          W \<leftarrow> ngx_rtc_session_add (we_tree E) (W\<lparr>w_sessions := (w_sessions W)(p \<mapsto> sess)\<rparr>) (Some p);
          skel W })"
proof -
  obtain t where t: "session_new E p q pub vpt apt ufrag pwd = Some t" "SessionFsm.session_ok (lse_fsm t)" "lse_source t = Some q" "lse_ice_ufrag t = ufrag"
    "lse_sub_queue t = Q_self" "lse_sn_len t = 0" "lse_queue t = Q_self" "lse_conn t = None" "lse_publishing t = pub"
    using session_new_ok [of E p q pub vpt apt ufrag pwd] by blast
  have n: "w_sessions W p = None" "ufrag \<noteq> []" "length ufrag < ICE_UFRAG_SIZE" "\<And>p t. w_sessions W p = Some t \<Longrightarrow> lse_ice_ufrag t \<noteq> ufrag"
    using new by (auto simp: new_session_ok_def)
  show ?thesis
  proof (rule runs_bind_Some [OF t(1)], rule runs_bind [OF session_enter_runs [OF inv n(1), of t]])
    fix W1 assume W1: "worker_inv live W1 \<and> w_sources W1 = w_sources W \<and> w_sh W1 = w_sh W \<and> w_stream_ctx W1 = w_stream_ctx W
      \<and> w_sessions W1 = (w_sessions W)(p \<mapsto> t\<lparr>lse_queue := Q_linked, lse_sn_len := length (lse_ice_ufrag t)\<rparr>)
      \<and> ngx_rtc_source_tree W1 = ngx_rtc_source_tree W"
    let ?t = "t\<lparr>lse_queue := Q_linked, lse_sn_len := length (lse_ice_ufrag t)\<rparr>"
    have "runs (\<lambda>W'. worker_inv live W' \<and> (\<exists>i. w_sessions W' = (w_sessions W1)(p \<mapsto> ?t\<lparr>lse_id := i\<rparr>))) (skel W1)"
      by (rule skel) (use W1 in simp_all)
    then show "runs (\<lambda>W'. worker_inv live W' \<and> (\<exists>t. w_sessions W' = (w_sessions W)(p \<mapsto> t) \<and> lse_source t = Some q \<and> lse_ice_ufrag t = ufrag
      \<and> lse_publishing t = pub \<and> lse_sub_queue t = Q_self \<and> lse_conn t = None)) (skel W1)"
      by (rule runs_weaken) (use W1 t in auto)
  qed (use t n s in auto)
qed
section \<open>Signalling\<close>

abbreviation fresh_source :: "'m worker \<Rightarrow> nat option \<Rightarrow> bool" where
  "fresh_source W newsrc \<equiv> \<forall>q. newsrc = Some q \<longrightarrow> w_sources W q = None"

lemma grows_source: "grows live W W' \<Longrightarrow> w_sources W q = Some s \<Longrightarrow> \<exists>s'. w_sources W' q = Some s' \<and> ls_name s' = ls_name s"
  using calm_source [of live W W' q s] by (auto simp: same_entry_def)

lemma grows_new: "grows live W W' \<Longrightarrow> new_session_ok W newsess ufrag \<Longrightarrow> new_session_ok W' newsess ufrag"
  using calm_sessions(1) [of live W W'] by (simp add: new_session_ok_def)

lemma same_sessions_new: "same_sessions W W' \<Longrightarrow> new_session_ok W newsess ufrag \<Longrightarrow> new_session_ok W' newsess ufrag"
  by (simp add: new_session_ok_def same_sessions_def)

definition registered :: "'m worker \<Rightarrow> 'm worker \<Rightarrow> nat \<Rightarrow> bytes \<Rightarrow> bool" where
  "registered W W' p ufrag \<longleftrightarrow> (\<exists>t q. w_sessions W' = (w_sessions W)(p \<mapsto> t) \<and> lse_ice_ufrag t = ufrag \<and> lse_source t = Some q
     \<and> lse_sub_queue t = Q_self \<and> lse_conn t = None)"

lemma play_source_runs:
  assumes inv: "worker_inv live W" and E: "worker_env_ok live E" and s: "w_sources W q = Some s"
  shows "runs (\<lambda>W'. grows live W W')
    (if w_sh W = None then Some W
     else do {
       (shm_src, W) \<leftarrow> on_zone (\<lambda>sh. ngx_rtc_shm_source_get (we_shm E) sh (Some name)) W;
       (case shm_src of
          None \<Rightarrow> Some W
        | Some a \<Rightarrow>
            do { zs \<leftarrow> zone_source W a;
                 W \<leftarrow> set_source q (\<lambda>s. s\<lparr>ls_video_ssrc := shs_video_ssrc zs, ls_audio_ssrc := shs_audio_ssrc zs,
                          ls_video_pt := (if vpt \<noteq> 0 then vpt else shs_video_pt zs),
                          ls_audio_pt := (if apt \<noteq> 0 then apt else shs_audio_pt zs)\<rparr>) W;
                 (_, W) \<leftarrow> on_zone (\<lambda>sh. ngx_rtc_shm_source_set_pt sh (Some name) vpt apt) W;
                 Some W }) })"
proof (rule runs_if)
  show "runs (\<lambda>W'. grows live W W') (Some W)" using grows_refl [OF inv] by simp
  show "runs (\<lambda>W'. grows live W W')
    (do { (shm_src, W) \<leftarrow> on_zone (\<lambda>sh. ngx_rtc_shm_source_get (we_shm E) sh (Some name)) W;
       (case shm_src of
          None \<Rightarrow> Some W
        | Some a \<Rightarrow>
            do { zs \<leftarrow> zone_source W a;
                 W \<leftarrow> set_source q (\<lambda>s. s\<lparr>ls_video_ssrc := shs_video_ssrc zs, ls_audio_ssrc := shs_audio_ssrc zs,
                          ls_video_pt := (if vpt \<noteq> 0 then vpt else shs_video_pt zs),
                          ls_audio_pt := (if apt \<noteq> 0 then apt else shs_audio_pt zs)\<rparr>) W;
                 (_, W) \<leftarrow> on_zone (\<lambda>sh. ngx_rtc_shm_source_set_pt sh (Some name) vpt apt) W;
                 Some W }) })"
  proof (rule runs_bind2 [OF zone_runs [OF inv shm_get_calm [OF worker_invD(2) [OF inv] E]]], goal_cases)
    case (1 r W1)
    then have W1: "grows live W W1" "w_sources W1 = w_sources W" "on_zone (\<lambda>sh. ngx_rtc_shm_source_get (we_shm E) sh (Some name)) W = Some (r, W1)"
      by simp_all
    show ?case
    proof (cases r)
      case None
      then show ?thesis using W1(1) by simp
    next
      case (Some a)
      obtain zs where zs: "zone_source W1 a = Some zs" using zone_source_get_live [OF worker_invD(2) [OF inv]] W1(3) Some by blast
      let ?f = "\<lambda>s. s\<lparr>ls_video_ssrc := shs_video_ssrc zs, ls_audio_ssrc := shs_audio_ssrc zs,
                          ls_video_pt := (if vpt \<noteq> 0 then vpt else shs_video_pt zs),
                          ls_audio_pt := (if apt \<noteq> 0 then apt else shs_audio_pt zs)\<rparr>"
      have "runs (\<lambda>W'. grows live W1 W')
        (do { W \<leftarrow> set_source q ?f W1; (_, W) \<leftarrow> on_zone (\<lambda>sh. ngx_rtc_shm_source_set_pt sh (Some name) vpt apt) W; Some W })"
        by (rule take_params_runs [where f = ?f and s = s]) (use W1 s E in simp_all)
      then show ?thesis using Some zs grows_trans [OF W1(1)] by (auto elim!: runs_weaken)
    qed
  qed
qed

lemma keep_id: "w_sessions W p = Some t \<Longrightarrow> \<exists>i. w_sessions W = (w_sessions W)(p \<mapsto> t\<lparr>lse_id := i\<rparr>)"
  by (auto simp: fun_upd_idem intro!: exI [of _ "lse_id t"])

lemma skeleton_or_not:
  assumes "worker_inv live W" "worker_env_ok live E" "w_sessions W p = Some t"
  shows "runs (\<lambda>W'. worker_inv live W' \<and> (\<exists>i. w_sessions W' = (w_sessions W)(p \<mapsto> t\<lparr>lse_id := i\<rparr>)))
    (if w_sh W = None then Some W else session_skeleton E W p name vext aext)"
  using session_skeleton_runs [OF assms, of name vext aext] assms(1) keep_id [OF assms(3)] by (auto elim!: runs_weaken)

lemma rtc_play_runs:
  assumes inv: "worker_inv live W" and E: "worker_env_ok live E" and src: "fresh_source W newsrc" and new: "new_session_ok W newsess ufrag"
  shows "runs (\<lambda>(r, W'). worker_inv live W' \<and> (case r of None \<Rightarrow> w_sessions W' = w_sessions W | Some p \<Rightarrow> newsess = Some p \<and> registered W W' p ufrag))
    (rtc_play_register E newsrc newsess W name vpt apt vext aext ufrag pwd)"
  unfolding rtc_play_register_def
proof (rule runs_bind [OF source_create_runs [OF inv E src, of name]], goal_cases)
  case (1 x)
  obtain srcp created W1 where x: "x = ((srcp, created), W1)" by (cases x) auto
  have W1: "worker_inv live W1" "same_sessions W W1" "\<And>q. srcp = Some q \<Longrightarrow> \<exists>s. w_sources W1 q = Some s" using 1 x by auto
  have ss: "w_sessions W1 = w_sessions W" using W1(2) by (simp add: same_sessions_def)
  show ?case
  proof (cases srcp)
    case None
    then show ?thesis using x W1(1) ss by simp
  next
    case (Some q)
    then obtain s where s: "w_sources W1 q = Some s" using W1(3) by blast
    show ?thesis
      unfolding x Some prod.case option.case
    proof (rule runs_bind [OF play_source_runs [OF W1(1) E s]])
      fix W2 assume W2: "grows live W1 W2"
      have s2: "w_sessions W2 = w_sessions W" using calm_sessions(1) W2 ss by metis
      show "runs (\<lambda>(r, W'). worker_inv live W' \<and> (case r of None \<Rightarrow> w_sessions W' = w_sessions W | Some p \<Rightarrow> newsess = Some p \<and> registered W W' p ufrag))
        (case newsess of
           None \<Rightarrow> do { W \<leftarrow> (if created then ngx_rtc_source_remove (we_tree E) W2 (Some name) else Some W2); Some (None, W) }
         | Some p \<Rightarrow>
             do { src \<leftarrow> w_sources W2 q;
                  sess \<leftarrow> session_new E p q 0 (if vpt \<noteq> 0 then vpt else ls_video_pt src) (if apt \<noteq> 0 then apt else ls_audio_pt src) ufrag pwd;
                  W \<leftarrow> ngx_rtc_session_add (we_tree E) (W2\<lparr>w_sessions := (w_sessions W2)(p \<mapsto> sess)\<rparr>) (Some p);
                  W \<leftarrow> (if w_sh W = None then Some W else session_skeleton E W p name vext aext);
                  Some (Some p, W) })"
      proof (cases newsess)
        case None
        have "runs (\<lambda>W'. worker_inv live W' \<and> same_sessions W2 W') (if created then ngx_rtc_source_remove (we_tree E) W2 (Some name) else Some W2)"
          using source_remove_runs [of live W2 E name] W2 E by (auto elim!: runs_weaken)
        then show ?thesis using None s2 by (auto simp: runs_def same_sessions_def)
      next
        case (Some p)
        obtain s' where s': "w_sources W2 q = Some s'" using grows_source [OF W2 s] by blast
        have n2: "new_session_ok W2 (Some p) ufrag" using new Some s2 by (simp add: new_session_ok_def)
        from register_runs [OF _ E s' n2 skeleton_or_not [OF _ E], of 0 "if vpt \<noteq> 0 then vpt else ls_video_pt s'" "if apt \<noteq> 0 then apt else ls_audio_pt s'" pwd] W2
        show ?thesis using Some s' s2 by (fastforce simp: runs_def registered_def bind_eq_Some_conv)
      qed
    qed
  qed
qed
lemma publish_claim_runs:
  assumes inv: "worker_inv live W" and E: "worker_env_ok live E" and s: "w_sources W q = Some s" and k: "(ucast kind :: u8) \<noteq> 0"
  shows "runs (\<lambda>(rc, W'). grows live W W' \<and> (\<exists>s'. w_sources W' q = Some s' \<and> ls_name s' = ls_name s \<and> (\<forall>a. ls_shm_src s' = Some a \<longrightarrow> zone_source W' a \<noteq> None)))
    (ngx_rtc_publish_claim E W (Some q) kind)"
proof -
  obtain rc W' s' where c: "ngx_rtc_publish_claim E W (Some q) kind = Some (rc, W')" "calm live W W'" "w_sources W' q = Some s'"
    "\<forall>a. ls_shm_src s' = Some a \<longrightarrow> zone_source W' a \<noteq> None"
    using publish_claim_calm [OF worker_invD(2) [OF inv] E s k] by blast
  have "grows live W W'" using calm_inv [OF inv c(2)] c(2) by simp
  with grows_source [OF this s] c show ?thesis by auto
qed

lemma publish_release_runs:
  assumes inv: "worker_inv live W" and E: "worker_env_ok live E" and s: "w_sources W q = Some s"
  shows "runs (\<lambda>W'. grows live W W' \<and> skeletons_kept W W') (ngx_rtc_publish_release E W (Some q))"
  using publish_release_calm [OF worker_invD(2) [OF inv] E s] calm_inv [OF inv] by (auto simp: runs_def)

text \<open>Unlinking and freeing a session that is in no subscriber list and on no connection.\<close>

lemma session_drop_runs:
  assumes inv: "worker_inv live W" and t: "w_sessions W p = Some t" "lse_sub_queue t = Q_self" "lse_conn t = None"
  shows "runs (\<lambda>W'. worker_inv live W' \<and> w_sessions W' = (w_sessions W)(p := None) \<and> w_sources W' = w_sources W)
    (do { W \<leftarrow> ngx_rtc_session_remove W (Some p); Some (W\<lparr>w_sessions := (w_sessions W)(p := None)\<rparr>) })"
proof -
  let ?W1 = "W\<lparr>ngx_rtc_session_tree := remove1 p (ngx_rtc_session_tree W), ngx_rtc_sessions := remove1 p (ngx_rtc_sessions W),
              w_sessions := (w_sessions W)(p \<mapsto> t\<lparr>lse_sn_len := 0, lse_queue := Q_removed\<rparr>)\<rparr>"
  have r: "ngx_rtc_session_remove W (Some p) = Some ?W1" "reg_inv {} (?W1\<lparr>w_sessions := (w_sessions ?W1)(p := None)\<rparr>)"
    using session_remove_inv [OF worker_invD(1) [OF inv] t(1,2)] by (simp_all add: Let_def)
  have "ctx_ok (?W1\<lparr>w_sessions := (w_sessions ?W1)(p := None)\<rparr>)"
    using worker_invD(3) [OF inv] t(1,3) by (auto simp: ctx_ok_def)
  then show ?thesis using r worker_invD(2) [OF inv] by (simp add: worker_inv_def zone_ok_def)
qed

lemma drop_source_runs:
  assumes "worker_inv live W" "worker_env_ok live E"
  shows "runs (\<lambda>W'. worker_inv live W' \<and> w_sessions W' = w_sessions W) (if created then ngx_rtc_source_remove (we_tree E) W (Some name) else Some W)"
  using source_remove_runs [OF assms, of name] assms(1) by (auto simp: same_sessions_def elim!: runs_weaken)

lemma rtc_whip_abort_runs:
  assumes inv: "worker_inv live W" and E: "worker_env_ok live E"
    and t: "w_sessions W p = Some t" "lse_source t = Some q" "lse_sub_queue t = Q_self" "lse_conn t = None"
  shows "runs (\<lambda>W'. worker_inv live W' \<and> w_sessions W' = (w_sessions W)(p := None)) (rtc_whip_abort E W p created name)"
proof -
  obtain s where s: "w_sources W q = Some s" using reg_session_source [OF worker_invD(1) [OF inv] t(1,2)] by blast
  have "runs (\<lambda>W'. worker_inv live W' \<and> w_sessions W' = (w_sessions W)(p := None))
    (do { W \<leftarrow> ngx_rtc_publish_release E W (Some q);
          W \<leftarrow> (do { W \<leftarrow> ngx_rtc_session_remove W (Some p); Some (W\<lparr>w_sessions := (w_sessions W)(p := None)\<rparr>) });
          if created then ngx_rtc_source_remove (we_tree E) W (Some name) else Some W })"
  proof (rule runs_bind [OF publish_release_runs [OF inv E s]])
    fix W1 assume "grows live W W1 \<and> skeletons_kept W W1"
    then have W1: "worker_inv live W1" "w_sessions W1 = w_sessions W" using calm_sessions(1) by blast+
    show "runs (\<lambda>W'. worker_inv live W' \<and> w_sessions W' = (w_sessions W)(p := None))
     (do { W \<leftarrow> (do { W \<leftarrow> ngx_rtc_session_remove W1 (Some p); Some (W\<lparr>w_sessions := (w_sessions W)(p := None)\<rparr>) });
          if created then ngx_rtc_source_remove (we_tree E) W (Some name) else Some W })"
    proof (rule runs_bind [OF session_drop_runs [OF W1(1) _ t(3,4)]])
      show "w_sessions W1 p = Some t" using W1(2) t(1) by simp
      fix W2 assume "worker_inv live W2 \<and> w_sessions W2 = (w_sessions W1)(p := None) \<and> w_sources W2 = w_sources W1"
      then show "runs (\<lambda>W'. worker_inv live W' \<and> w_sessions W' = (w_sessions W)(p := None))
         (if created then ngx_rtc_source_remove (we_tree E) W2 (Some name) else Some W2)"
        using drop_source_runs [of live W2 E created name] E W1(2) by (auto elim!: runs_weaken)
    qed
  qed
  then show ?thesis using t by (simp add: rtc_whip_abort_def Let_def)
qed

lemma whip_source_runs:
  assumes inv: "worker_inv live W" and E: "worker_env_ok live E" and s: "w_sources W q = Some s"
    and a: "\<forall>a. ls_shm_src s = Some a \<longrightarrow> zone_source W a \<noteq> None"
  shows "runs (\<lambda>W'. grows live W W')
    (case (w_sh W, ls_shm_src s) of
       (Some _, Some a) \<Rightarrow>
         do { zs \<leftarrow> zone_source W a;
              W \<leftarrow> set_source q (\<lambda>s. s\<lparr>ls_video_ssrc := shs_video_ssrc zs, ls_audio_ssrc := shs_audio_ssrc zs,
                       ls_video_pt := (if vpt \<noteq> 0 then vpt else shs_video_pt zs),
                       ls_audio_pt := (if apt \<noteq> 0 then apt else shs_audio_pt zs)\<rparr>) W;
              (_, W) \<leftarrow> on_zone (\<lambda>sh. ngx_rtc_shm_source_set_pt sh (Some name) vpt apt) W;
              Some W }
     | _ \<Rightarrow> Some W)"
proof (cases "w_sh W = None \<or> ls_shm_src s = None")
  case True
  then show ?thesis using grows_refl [OF inv] by (auto split: option.splits)
next
  case False
  then obtain sh b zs where b: "w_sh W = Some sh" "ls_shm_src s = Some b" "zone_source W b = Some zs" using a by fastforce
  let ?f = "\<lambda>s. s\<lparr>ls_video_ssrc := shs_video_ssrc zs, ls_audio_ssrc := shs_audio_ssrc zs,
                       ls_video_pt := (if vpt \<noteq> 0 then vpt else shs_video_pt zs),
                       ls_audio_pt := (if apt \<noteq> 0 then apt else shs_audio_pt zs)\<rparr>"
  have "runs (\<lambda>W'. grows live W W')
        (do { W \<leftarrow> set_source q ?f W; (_, W) \<leftarrow> on_zone (\<lambda>sh. ngx_rtc_shm_source_set_pt sh (Some name) vpt apt) W; Some W })"
    by (rule take_params_runs [where f = ?f, OF inv E s]) simp
  then show ?thesis using b by simp
qed
lemma whip_skeleton_runs:
  assumes inv: "worker_inv live W" and E: "worker_env_ok live E" and t: "w_sessions W p = Some t"
  shows "runs (\<lambda>W'. worker_inv live W' \<and> (\<exists>i. w_sessions W' = (w_sessions W)(p \<mapsto> t\<lparr>lse_id := i\<rparr>)))
    (if w_sh W = None then Some W
     else do { (shm_src, W) \<leftarrow> on_zone (\<lambda>sh. ngx_rtc_shm_source_get (we_shm E) sh (Some name)) W;
               if shm_src = None then Some W else session_skeleton E W p name vext aext })"
proof (rule runs_if, goal_cases)
  case 1
  then show ?case using inv keep_id [OF t] by simp
next
  case 2
  show ?case
  proof (rule runs_bind2 [OF zone_runs [OF inv shm_get_calm [OF worker_invD(2) [OF inv] E]]], goal_cases)
    case (1 r W1)
    then have W1: "worker_inv live W1" "w_sessions W1 = w_sessions W" using calm_sessions(1) by auto
    then have t1: "w_sessions W1 p = Some t" using t by simp
    show ?case using W1 keep_id [OF t] session_skeleton_runs [OF W1(1) E t1, of name vext aext] by (auto elim!: runs_weaken)
  qed
qed

definition whip_outcome :: "('m \<Rightarrow> nat set) \<Rightarrow> 'm worker \<Rightarrow> nat option \<Rightarrow> bytes \<Rightarrow> int \<times> 'm worker \<Rightarrow> bool" where
  "whip_outcome live W newsess ufrag = (\<lambda>(rc, W'). worker_inv live W' \<and>
     (if rc = NGX_HTTP_CREATED then \<exists>p. newsess = Some p \<and> registered W W' p ufrag else w_sessions W' = w_sessions W))"

lemma whip_codes [simp]: "NGX_HTTP_CONFLICT \<noteq> NGX_HTTP_CREATED" "NGX_HTTP_INTERNAL_SERVER_ERROR \<noteq> NGX_HTTP_CREATED"
  by (simp_all add: NGX_HTTP_CONFLICT_def NGX_HTTP_CREATED_def NGX_HTTP_INTERNAL_SERVER_ERROR_def)

lemma whip_refused_runs:
  assumes "worker_inv live V" "worker_env_ok live E" "w_sessions V = w_sessions W" "rc \<noteq> NGX_HTTP_CREATED"
  shows "runs (whip_outcome live W newsess ufrag) (map_option (Pair rc) (if created then ngx_rtc_source_remove (we_tree E) V (Some name) else Some V))"
  using drop_source_runs [OF assms(1,2), of created name] assms(3,4) by (auto simp: runs_def whip_outcome_def)

lemma whip_session_runs:
  assumes inv: "worker_inv live W" and E: "worker_env_ok live E" and s: "w_sources W q = Some s" and new: "new_session_ok W newsess ufrag"
  shows "runs (whip_outcome live W newsess ufrag)
    (case newsess of
       None \<Rightarrow> do { W \<leftarrow> ngx_rtc_publish_release E W (Some q);
                    map_option (Pair NGX_HTTP_INTERNAL_SERVER_ERROR) (if created then ngx_rtc_source_remove (we_tree E) W (Some name) else Some W) }
     | Some p \<Rightarrow>
         do { src \<leftarrow> w_sources W q;
              sess \<leftarrow> session_new E p q 1 (if vpt \<noteq> 0 then vpt else ls_video_pt src) (if apt \<noteq> 0 then apt else ls_audio_pt src) ufrag pwd;
              W \<leftarrow> ngx_rtc_session_add (we_tree E) (W\<lparr>w_sessions := (w_sessions W)(p \<mapsto> sess)\<rparr>) (Some p);
              W \<leftarrow> (if w_sh W = None then Some W
                   else do { (shm_src, W) \<leftarrow> on_zone (\<lambda>sh. ngx_rtc_shm_source_get (we_shm E) sh (Some name)) W;
                             if shm_src = None then Some W else session_skeleton E W p name vext aext });
              if \<not> answer_ok then map_option (Pair NGX_HTTP_INTERNAL_SERVER_ERROR) (rtc_whip_abort E W p created name)
              else Some (NGX_HTTP_CREATED, W) })"
proof (cases newsess)
  case None
  have "runs (whip_outcome live W newsess ufrag) (do { W \<leftarrow> ngx_rtc_publish_release E W (Some q);
      map_option (Pair NGX_HTTP_INTERNAL_SERVER_ERROR) (if created then ngx_rtc_source_remove (we_tree E) W (Some name) else Some W) })"
  proof (rule runs_bind [OF publish_release_runs [OF inv E s]])
    fix W1 assume "grows live W W1 \<and> skeletons_kept W W1"
    then have W1: "worker_inv live W1" "w_sessions W1 = w_sessions W" using calm_sessions(1) by blast+
    show "runs (whip_outcome live W newsess ufrag)
      (map_option (Pair NGX_HTTP_INTERNAL_SERVER_ERROR) (if created then ngx_rtc_source_remove (we_tree E) W1 (Some name) else Some W1))"
      by (rule whip_refused_runs [OF W1(1) E W1(2)]) simp
  qed
  then show ?thesis using None by simp
next
  case (Some p)
  have new': "new_session_ok W (Some p) ufrag" using new Some by simp
  have p: "w_sessions W p = None" using new' by (simp add: new_session_ok_def)
  define reg where "reg = (do { sess \<leftarrow> session_new E p q 1 (if vpt \<noteq> 0 then vpt else ls_video_pt s) (if apt \<noteq> 0 then apt else ls_audio_pt s) ufrag pwd;
              W \<leftarrow> ngx_rtc_session_add (we_tree E) (W\<lparr>w_sessions := (w_sessions W)(p \<mapsto> sess)\<rparr>) (Some p);
              if w_sh W = None then Some W
              else do { (shm_src, W) \<leftarrow> on_zone (\<lambda>sh. ngx_rtc_shm_source_get (we_shm E) sh (Some name)) W;
                        if shm_src = None then Some W else session_skeleton E W p name vext aext } })"
  have "runs (\<lambda>W'. worker_inv live W' \<and> (\<exists>t. w_sessions W' = (w_sessions W)(p \<mapsto> t) \<and> lse_source t = Some q \<and> lse_ice_ufrag t = ufrag
      \<and> lse_publishing t = 1 \<and> lse_sub_queue t = Q_self \<and> lse_conn t = None)) reg"
    unfolding reg_def by (rule register_runs [OF inv E s new' whip_skeleton_runs [OF _ E]])
  then have "runs (whip_outcome live W newsess ufrag)
     (do { W \<leftarrow> reg; if \<not> answer_ok then map_option (Pair NGX_HTTP_INTERNAL_SERVER_ERROR) (rtc_whip_abort E W p created name)
                     else Some (NGX_HTTP_CREATED, W) })"
  proof (rule runs_bind)
    fix W1 assume "worker_inv live W1 \<and> (\<exists>t. w_sessions W1 = (w_sessions W)(p \<mapsto> t) \<and> lse_source t = Some q \<and> lse_ice_ufrag t = ufrag
      \<and> lse_publishing t = 1 \<and> lse_sub_queue t = Q_self \<and> lse_conn t = None)"
    then obtain t where W1: "worker_inv live W1" "w_sessions W1 = (w_sessions W)(p \<mapsto> t)" "lse_source t = Some q" "lse_ice_ufrag t = ufrag"
      "lse_sub_queue t = Q_self" "lse_conn t = None" by blast
    have t1: "w_sessions W1 p = Some t" using W1(2) by simp
    have undo: "(w_sessions W1)(p := None) = w_sessions W" using W1(2) p by auto
    show "runs (whip_outcome live W newsess ufrag)
      (if \<not> answer_ok then map_option (Pair NGX_HTTP_INTERNAL_SERVER_ERROR) (rtc_whip_abort E W1 p created name) else Some (NGX_HTTP_CREATED, W1))"
      using rtc_whip_abort_runs [OF W1(1) E t1 W1(3,5,6), of created name] undo W1 Some by (auto simp: runs_def whip_outcome_def registered_def)
  qed
  then show ?thesis using Some s by (simp add: reg_def)
qed

lemma rtc_whip_runs:
  assumes inv: "worker_inv live W" and E: "worker_env_ok live E" and src: "fresh_source W newsrc" and new: "new_session_ok W newsess ufrag"
  shows "runs (whip_outcome live W newsess ufrag) (rtc_whip_register E newsrc newsess answer_ok W name vpt apt vext aext ufrag pwd)"
  unfolding rtc_whip_register_def
proof (rule runs_bind [OF source_create_runs [OF inv E src, of name]], goal_cases)
  case (1 x)
  obtain srcp created W1 where x: "x = ((srcp, created), W1)" by (cases x) auto
  have W1: "worker_inv live W1" "same_sessions W W1" "\<And>q. srcp = Some q \<Longrightarrow> \<exists>s. w_sources W1 q = Some s" using 1 x by auto
  have ss: "w_sessions W1 = w_sessions W" using W1(2) by (simp add: same_sessions_def)
  show ?case
  proof (cases srcp)
    case None
    then show ?thesis using x W1(1) ss by (simp add: whip_outcome_def)
  next
    case (Some q)
    then obtain s where s: "w_sources W1 q = Some s" using W1(3) by blast
    have k: "(ucast NGX_RTC_PUBLISHER_WHIP :: u8) \<noteq> 0" by simp
    show ?thesis
      unfolding x Some prod.case option.case Let_def
    proof (rule runs_bind_Some [OF s], rule runs_if, goal_cases)
      case 1
      show ?case by (rule whip_refused_runs [OF W1(1) E ss]) simp
    next
      case 2
      show ?case
      proof (rule runs_bind2 [OF publish_claim_runs [OF W1(1) E s k]], rule runs_if, goal_cases)
        case (1 rc W2)
        then have W2: "worker_inv live W2" "calm live W1 W2" by auto
        have "w_sessions W2 = w_sessions W" using ss calm_sessions(1) [OF W2(2)] by simp
        then show ?case by (intro whip_refused_runs [OF W2(1) E]) simp_all
      next
        case (2 rc W2)
        then obtain s2 where W2: "worker_inv live W2" "calm live W1 W2" "w_sources W2 q = Some s2" "\<forall>a. ls_shm_src s2 = Some a \<longrightarrow> zone_source W2 a \<noteq> None"
          by auto
        show ?case
        proof (rule runs_bind_Some [OF W2(3)], rule runs_bind [OF whip_source_runs [OF W2(1) E W2(3,4), unfolded prod.case]], goal_cases)
          case (1 W3)
          obtain s3 where s3: "w_sources W3 q = Some s3" using grows_source [OF 1 W2(3)] by blast
          have ss3: "w_sessions W3 = w_sessions W" using 1 calm_sessions(1) W2(2) ss by metis
          then have new3: "new_session_ok W3 newsess ufrag" using new by (simp add: new_session_ok_def)
          have "whip_outcome live W3 newsess ufrag = whip_outcome live W newsess ufrag"
            using ss3 by (simp add: whip_outcome_def registered_def)
          then show ?case using whip_session_runs [OF _ E s3 new3, where created = created] 1 by simp
        qed
      qed
    qed
  qed
qed

section \<open>Attaching\<close>

text \<open>A session that is allocated but not yet entered.\<close>

definition pending :: "('m \<Rightarrow> nat set) \<Rightarrow> nat \<Rightarrow> 'm worker \<Rightarrow> bool" where
  "pending live p W \<longleftrightarrow> reg_inv {p} W \<and> zone_ok live W \<and> ctx_ok W"

lemma pendingD:
  assumes "pending live p W" shows "reg_inv {p} W" "zone_ok live W" "ctx_ok W"
  using assms by (simp_all add: pending_def)

lemma pending_calm: "pending live p W \<Longrightarrow> calm live W W' \<Longrightarrow> pending live p W'"
  using same_registry_inv ctx_ok_same calm_sessions unfolding pending_def calm_def by metis

lemma pending_set_source:
  assumes "pending live p W" "w_sources W q = Some s" "same_entry s (f s)"
  shows "runs (\<lambda>W'. pending live p W' \<and> calm live W W') (set_source q f W)"
  using set_source_calm [where f = f, OF pendingD(2) [OF assms(1)] assms(2,3)] pending_calm [OF assms(1)] by (auto simp: runs_def)

lemma mirror_whip [simp]: "same_entry s (mirror_set NGX_RTC_PUBLISHER_WHIP s)"
  by (rule same_entry_fields(2)) simp

lemma attach_claim_runs:
  assumes pend: "pending live p W" and E: "worker_env_ok live E" and s: "w_sources W q = Some s"
  shows "runs (\<lambda>W'. pending live p W' \<and> calm live W W')
    (do { (shm_src, W) \<leftarrow> on_zone (\<lambda>sh. ngx_rtc_shm_source_get (we_shm E) sh np) W;
          W \<leftarrow> set_source q (\<lambda>s. s\<lparr>ls_shm_src := shm_src, ls_shm_sync_ms := now\<rparr>) W;
          ngx_rtc_publish_mirror W (Some q) NGX_RTC_PUBLISHER_WHIP })"
proof -
  obtain r W1 where W1: "on_zone (\<lambda>sh. ngx_rtc_shm_source_get (we_shm E) sh np) W = Some (r, W1)" "calm live W W1" "w_sources W1 = w_sources W"
    using shm_get_calm [OF pendingD(2) [OF pend] E, of np] by (elim exE conjE) (rule that)
  have p1: "pending live p W1" by (rule pending_calm [OF pend W1(2)])
  have s1: "w_sources W1 q = Some s" using W1(3) s by simp
  have "runs (\<lambda>W'. pending live p W' \<and> calm live W W') (do { W \<leftarrow> set_source q (\<lambda>s. s\<lparr>ls_shm_src := r, ls_shm_sync_ms := now\<rparr>) W1;
          ngx_rtc_publish_mirror W (Some q) NGX_RTC_PUBLISHER_WHIP })"
  proof (rule runs_bind [OF pending_set_source [OF p1 s1]])
    fix W2 assume W2: "pending live p W2 \<and> calm live W1 W2"
    then obtain s2 where s2: "w_sources W2 q = Some s2" using calm_source s1 by blast
    show "runs (\<lambda>W'. pending live p W' \<and> calm live W W') (ngx_rtc_publish_mirror W2 (Some q) NGX_RTC_PUBLISHER_WHIP)"
      unfolding ngx_rtc_publish_mirror_def option.case
      by (rule runs_weaken [OF pending_set_source [where f = "mirror_set NGX_RTC_PUBLISHER_WHIP", OF conjunct1 [OF W2] s2 mirror_whip]])
        (use W2 W1(2) calm_trans in blast)
  qed simp
  then show ?thesis using W1(1) by simp
qed

lemma attach_source_runs:
  assumes pend: "pending live p W" and E: "worker_env_ok live E" and t: "w_sessions W p = Some t" "lse_sub_queue t = Q_self" and src: "fresh_source W newsrc"
  shows "runs (\<lambda>W'. pending live p W' \<and> (\<exists>srcp. w_sessions W' = (w_sessions W)(p \<mapsto> t\<lparr>lse_source := srcp\<rparr>)) \<and> w_stream_ctx W' = w_stream_ctx W)
    (attach_source E newsrc W p snap)" (is "runs ?P _")
proof (cases "cstr (sn_source_name snap) = []")
  case True
  have "(w_sessions W)(p \<mapsto> t\<lparr>lse_source := lse_source t\<rparr>) = w_sessions W" using t by (simp add: fun_upd_idem)
  then show ?thesis using True pend by (auto simp: attach_source_def intro!: exI [of _ "lse_source t"])
next
  case False
  let ?name = "cstr (sn_source_name snap)"
  have T: "pick_sound (we_tree E)" using E by (simp add: worker_env_ok_def)
  obtain srcp created W1 where W1: "ngx_rtc_source_create (we_tree E) newsrc W (Some ?name) = Some ((srcp, created), W1)" "reg_inv {p} W1"
    "same_sessions W W1" "w_sh W1 = w_sh W" "\<forall>q s. w_sources W q = Some s \<longrightarrow> w_sources W1 q = Some s"
    "\<forall>q. srcp = Some q \<longrightarrow> (\<exists>s. w_sources W1 q = Some s \<and> ls_name s = ?name)"
    using source_create_inv [OF pendingD(1) [OF pend] T, of newsrc ?name] src by (elim exE conjE meta_impE) (simp, rule that)
  have get: "ngx_rtc_source_get (we_tree E) newsrc W (Some ?name) = Some (srcp, W1)" using W1(1) by (simp add: ngx_rtc_source_get_def)
  have ss: "w_sessions W1 = w_sessions W" "w_stream_ctx W1 = w_stream_ctx W" using W1(3) by (simp_all add: same_sessions_def)
  have p1: "pending live p W1" using W1(2,4) ss pendingD(2,3) [OF pend] by (simp add: pending_def zone_ok_def ctx_ok_def)
  show ?thesis
  proof (cases srcp)
    case None
    have "(w_sessions W)(p \<mapsto> t\<lparr>lse_source := lse_source t\<rparr>) = w_sessions W" using t by (simp add: fun_upd_idem)
    then show ?thesis using None False get p1 ss by (auto simp: attach_source_def intro!: exI [of _ "lse_source t"])
  next
    case (Some q)
    then obtain s1 where s1: "w_sources W1 q = Some s1" using W1(6) by blast
    let ?f = "\<lambda>s. s\<lparr>ls_video_ssrc := sn_source_video_ssrc snap, ls_audio_ssrc := sn_source_audio_ssrc snap,
                     ls_video_pt := sn_source_video_pt snap, ls_audio_pt := sn_source_audio_pt snap\<rparr>"
    have "runs ?P (do { W \<leftarrow> set_source q ?f W1;
                  W \<leftarrow> set_session p (\<lambda>s. s\<lparr>lse_source := Some q\<rparr>) W;
                  if sn_publishing snap \<noteq> 0
                  then do {
                    (shm_src, W) \<leftarrow> on_zone (\<lambda>sh. ngx_rtc_shm_source_get (we_shm E) sh (Some ?name)) W;
                    W \<leftarrow> set_source q (\<lambda>s. s\<lparr>ls_shm_src := shm_src, ls_shm_sync_ms := now_msec (we_shm E)\<rparr>) W;
                    ngx_rtc_publish_mirror W (Some q) NGX_RTC_PUBLISHER_WHIP }
                  else Some W })"
    proof (rule runs_bind [OF pending_set_source [where f = ?f, OF p1 s1]], simp)
      fix W2 assume W2: "pending live p W2 \<and> calm live W1 W2"
      then obtain s2 where s2: "w_sources W2 q = Some s2" using calm_source s1 by blast
      have t2: "w_sessions W2 p = Some t" "w_sessions W2 = w_sessions W" "w_stream_ctx W2 = w_stream_ctx W"
        using calm_sessions [of live W1 W2] W2 t(1) ss by simp_all
      let ?g = "\<lambda>s. s\<lparr>lse_source := Some q\<rparr>"
      define W3 where "W3 = W2\<lparr>w_sessions := (w_sessions W2)(p \<mapsto> ?g t)\<rparr>"
      have fsm: "SessionFsm.session_ok (lse_fsm t)" using reg_invD(4) [OF pendingD(1) [OF pend] t(1)] by (simp add: session_wf_def)
      have R: "set_session p ?g W2 = Some W3" "reg_inv {p} W3"
        unfolding W3_def using set_session_inv [where f = ?g, OF pendingD(1) [OF conjunct1 [OF W2]] t2(1)] t(2) s2 fsm by simp_all
      have "ctx_ok W3" using pendingD(3) [of live p W2] W2 t2(1) by (auto simp: W3_def ctx_ok_def)
      then have p3: "pending live p W3" using R(2) pendingD(2) [of live p W2] W2 by (simp add: pending_def zone_ok_def W3_def)
      have s3: "w_sources W3 q = Some s2" by (simp add: W3_def s2)
      have q: "?P W'" if "pending live p W'" "calm live W3 W'" for W'
        using that calm_sessions [OF that(2)] t2 by (auto simp: W3_def)
      show "runs ?P (do { W \<leftarrow> set_session p ?g W2;
                  if sn_publishing snap \<noteq> 0
                  then do {
                    (shm_src, W) \<leftarrow> on_zone (\<lambda>sh. ngx_rtc_shm_source_get (we_shm E) sh (Some ?name)) W;
                    W \<leftarrow> set_source q (\<lambda>s. s\<lparr>ls_shm_src := shm_src, ls_shm_sync_ms := now_msec (we_shm E)\<rparr>) W;
                    ngx_rtc_publish_mirror W (Some q) NGX_RTC_PUBLISHER_WHIP }
                  else Some W })"
      proof (rule runs_bind_Some [OF R(1)], rule runs_if)
        show "runs ?P (do { (shm_src, W) \<leftarrow> on_zone (\<lambda>sh. ngx_rtc_shm_source_get (we_shm E) sh (Some ?name)) W3;
                    W \<leftarrow> set_source q (\<lambda>s. s\<lparr>ls_shm_src := shm_src, ls_shm_sync_ms := now_msec (we_shm E)\<rparr>) W;
                    ngx_rtc_publish_mirror W (Some q) NGX_RTC_PUBLISHER_WHIP })"
          by (rule runs_weaken [OF attach_claim_runs [OF p3 E s3]]) (use q in blast)
        show "runs ?P (Some W3)" unfolding runs_Some by (rule q [OF p3 calm_refl [OF pendingD(2) [OF p3]]])
      qed
    qed
    then show ?thesis using Some False get by (simp add: attach_source_def)
  qed
qed
lemma take_takeWhile_length: "take (length (takeWhile P xs)) xs = takeWhile P xs"
  by (metis append_eq_conv_conj takeWhile_dropWhile_id)

lemma ufrag_matches_cstr: "ufrag_matches k u \<longleftrightarrow> cstr (she_ice_ufrag k) = u"
  by (auto simp: ufrag_matches_def Let_def cstr_def take_takeWhile_length)

lemma session_bind_snapshot:
  assumes "on_zone (\<lambda>sh. ngx_rtc_shm_session_bind sh (Some ufrag) slot (Some snapshot_zero)) W = Some ((NGX_OK, Some snap), W')"
  shows "cstr (sn_ice_ufrag snap) = ufrag" "ufrag \<noteq> []" "length ufrag < ICE_UFRAG_SIZE"
  using assms
  by (auto simp: on_zone_def ngx_rtc_shm_session_bind_def with_session_def shm_guard_def bind_eq_Some_conv ngx_rtc_shm_session_locked_lookup_def
      snapshot_of_def snapshot_source_def ufrag_matches_cstr dest!: session_find_hit split: option.splits if_splits)

lemma session_of_snapshot_ok:
  "\<exists>t. session_of_snapshot E p snap = Some t \<and> SessionFsm.session_ok (lse_fsm t) \<and> lse_source t = None \<and> lse_ice_ufrag t = cstr (sn_ice_ufrag snap)
    \<and> lse_sub_queue t = Q_self \<and> lse_sn_len t = 0 \<and> lse_queue t = Q_self \<and> lse_conn t = None"
proof -
  obtain sm where sm: "session_fsm_new p = Some sm" "SessionFsm.session_ok sm" using session_fsm_new_ok by blast
  then show ?thesis
    by (auto simp: session_of_snapshot_def ngx_rtc_session_fsm_restore_def ngx_rtc_hsm_restore_state_def ngx_rtc_session_fsm_state_object_def
        SessionFsm.session_ok_def hsm_machine_ok_def)
qed

lemma attach_runs:
  assumes inv: "worker_inv live W" and E: "worker_env_ok live E" and src: "fresh_source W newsrc"
    and p: "\<forall>p. newsess = Some p \<longrightarrow> w_sessions W p = None" and new: "\<forall>p t. w_sessions W p = Some t \<longrightarrow> lse_ice_ufrag t \<noteq> ufrag"
  shows "runs (\<lambda>(r, W'). worker_inv live W' \<and> w_stream_ctx W' = w_stream_ctx W \<and>
      (case r of None \<Rightarrow> w_sessions W' = w_sessions W
       | Some p \<Rightarrow> newsess = Some p \<and> (\<exists>t. w_sessions W' = (w_sessions W)(p \<mapsto> t) \<and> lse_ice_ufrag t = ufrag \<and> lse_conn t = None)))
    (ngx_rtc_stream_attach_from_shm E newsrc newsess W ufrag)" (is "runs ?P _")
proof (cases "newsess = None \<or> w_sh W = None")
  case True
  then show ?thesis using inv by (auto simp: ngx_rtc_stream_attach_from_shm_def split: option.splits)
next
  case False
  then obtain p where np: "newsess = Some p" and zone: "w_sh W \<noteq> None" by (cases newsess) auto
  obtain rc out W1 where W1: "on_zone (\<lambda>sh. ngx_rtc_shm_session_bind sh (Some ufrag) (ngx_worker E) (Some snapshot_zero)) W = Some ((rc, out), W1)" "calm live W W1"
    "w_sources W1 = w_sources W" "w_sessions W1 = w_sessions W"
    using session_bind_calm [OF worker_invD(2) [OF inv] E, of "Some ufrag" "ngx_worker E"] by auto
  have inv1: "worker_inv live W1" by (rule calm_inv [OF inv W1(2)])
  have ctx1: "w_stream_ctx W1 = w_stream_ctx W" by (rule calm_sessions(4) [OF W1(2)])
  show ?thesis
  proof (cases "\<exists>snap. out = Some snap \<and> rc = NGX_OK")
    case False
    then have "ngx_rtc_stream_attach_from_shm E newsrc newsess W ufrag = Some (None, W1)"
      using np zone W1(1) by (cases out) (auto simp: ngx_rtc_stream_attach_from_shm_def)
    then show ?thesis using inv1 ctx1 W1(4) by simp
  next
    case True
    then obtain snap where snap: "out = Some snap" "rc = NGX_OK" by blast
    have u: "cstr (sn_ice_ufrag snap) = ufrag" "ufrag \<noteq> []" "length ufrag < ICE_UFRAG_SIZE" using session_bind_snapshot W1(1) snap by blast+
    obtain t where t: "session_of_snapshot E p snap = Some t" "SessionFsm.session_ok (lse_fsm t)" "lse_source t = None" "lse_ice_ufrag t = ufrag"
      "lse_sub_queue t = Q_self" "lse_sn_len t = 0" "lse_queue t = Q_self" "lse_conn t = None"
      using session_of_snapshot_ok [of E p snap] u(1) by blast
    have fresh: "w_sessions W1 p = None" using p np W1(4) by simp
    define W2 where "W2 = W1\<lparr>w_sessions := (w_sessions W1)(p \<mapsto> t)\<rparr>"
    have "reg_inv {p} W2" unfolding W2_def
      by (rule session_new_inv [OF worker_invD(1) [OF inv1] fresh]) (use t u new W1(4) in auto)
    moreover have "ctx_ok W2" using worker_invD(3) [OF inv1] fresh t(8) by (auto simp: W2_def ctx_ok_def)
    ultimately have p2: "pending live p W2" using worker_invD(2) [OF inv1] by (simp add: pending_def zone_ok_def W2_def)
    have t2: "w_sessions W2 p = Some t" by (simp add: W2_def)
    have src2: "fresh_source W2 newsrc" using src W1(3) by (simp add: W2_def)
    have "runs ?P (do { W \<leftarrow> attach_source E newsrc W2 p snap; W \<leftarrow> ngx_rtc_session_add (we_tree E) W (Some p); Some (Some p, W) })"
    proof (rule runs_bind [OF attach_source_runs [OF p2 E t2 t(5) src2]])
      fix W3 assume "pending live p W3 \<and> (\<exists>srcp. w_sessions W3 = (w_sessions W2)(p \<mapsto> t\<lparr>lse_source := srcp\<rparr>)) \<and> w_stream_ctx W3 = w_stream_ctx W2"
      then obtain srcp where W3: "pending live p W3" "w_sessions W3 = (w_sessions W2)(p \<mapsto> t\<lparr>lse_source := srcp\<rparr>)" "w_stream_ctx W3 = w_stream_ctx W2" by blast
      let ?t = "t\<lparr>lse_source := srcp\<rparr>"
      have t3: "w_sessions W3 p = Some ?t" using W3(2) by simp
      from session_add_inv [OF pendingD(1) [OF W3(1)] t3, where T = "we_tree E"] obtain W4 where
        W4: "ngx_rtc_session_add (we_tree E) W3 (Some p) = Some W4" "reg_inv {} W4" "w_sh W4 = w_sh W3" "w_stream_ctx W4 = w_stream_ctx W3"
          "w_sessions W4 = (w_sessions W3)(p \<mapsto> ?t\<lparr>lse_queue := Q_linked, lse_sn_len := length (lse_ice_ufrag ?t)\<rparr>)"
        unfolding Let_def by auto
      have "ctx_ok W4" using pendingD(3) [OF W3(1)] t3 unfolding ctx_ok_def W4(4,5) by auto
      then have "worker_inv live W4" using W4(2,3) pendingD(2) [OF W3(1)] by (simp add: worker_inv_def zone_ok_def)
      then show "runs ?P (do { W \<leftarrow> ngx_rtc_session_add (we_tree E) W3 (Some p); Some (Some p, W) })"
        using W4 W3 np ctx1 W1(4) t by (auto simp: W2_def)
    qed
    then show ?thesis using np zone W1(1) snap t(1) by (auto simp: ngx_rtc_stream_attach_from_shm_def W2_def)
  qed
qed

section \<open>Binding\<close>

text \<open>Rebinding is excluded: the session is on no other connection and the connection on no other session.\<close>

lemma get_state_total:
  assumes "SessionFsm.session_ok sm"
  shows "\<exists>st. ngx_rtc_session_fsm_get_state rep (Some sm) = Some st"
proof -
  obtain s where "hsm_current_state sm = Some s" using assms by (auto simp: SessionFsm.session_ok_def)
  then show ?thesis by (simp add: ngx_rtc_session_fsm_get_state_def Let_def is_in_current)
qed

lemma publish_state_calm:
  assumes z: "zone_ok live W" and E: "worker_env_ok live E" and t: "w_sessions W p = Some t" "SessionFsm.session_ok (lse_fsm t)"
  shows "runs (\<lambda>W'. calm live W W' \<and> w_sources W' = w_sources W) (ngx_rtc_stream_publish_state E W p)"
proof (cases "w_sh W = None")
  case True
  then show ?thesis using calm_refl [OF z] by (simp add: ngx_rtc_stream_publish_state_def)
next
  case False
  obtain st where st: "ngx_rtc_session_fsm_get_state ngx_rtc_session_fsm_report_unhandled (Some (lse_fsm t)) = Some st" using get_state_total [OF t(2)] by blast
  show ?thesis using set_state_calm [OF z E, of "Some (lse_ice_ufrag t)" "ngx_worker E" "ucast st"] False t(1) st
    by (auto simp: ngx_rtc_stream_publish_state_def)
qed

lemma stun_bind_runs:
  assumes inv: "worker_inv live W" and E: "worker_env_ok live E" and t: "w_sessions W p = Some t"
    and conn: "lse_conn t = None \<or> lse_conn t = Some c" "w_stream_ctx W c = None \<or> w_stream_ctx W c = Some p"
  shows "runs (\<lambda>W'. worker_inv live W' \<and> w_stream_ctx W' = (w_stream_ctx W)(c \<mapsto> p) \<and> w_sources W' = w_sources W
      \<and> (\<exists>t'. w_sessions W' = (w_sessions W)(p \<mapsto> t') \<and> lse_conn t' = Some c \<and> lse_ice_ufrag t' = lse_ice_ufrag t \<and> lse_ice_pwd t' = lse_ice_pwd t))
    (stun_bind E W p c)"
proof -
  note R = worker_invD(1) [OF inv]
  have fsm: "SessionFsm.session_ok (lse_fsm t)" using reg_invD(4) [OF R t] by (simp add: session_wf_def)
  let ?f = "\<lambda>s. s\<lparr>lse_conn := Some c, lse_last_active := now_msec (we_shm E)\<rparr>"
  define t1 where "t1 = ?f t"
  define W1 where "W1 = W\<lparr>w_sessions := (w_sessions W)(p \<mapsto> t1)\<rparr>"
  have s1: "set_session p ?f W = Some W1" "reg_inv {} W1"
    unfolding W1_def t1_def using set_session_inv [where f = ?f, OF R t] fsm by simp_all
  have t1: "w_sessions W1 p = Some t1" by (simp add: W1_def)
  let ?ctx = "Some \<lparr>ctx_conn = Some c, ctx_data = None, ctx_len = 0\<rparr>"
  obtain b sm where sm: "ngx_rtc_session_fsm_dispatch_ctx ngx_rtc_session_fsm_report_unhandled (Some (lse_fsm t1)) NGX_RTC_SESSION_EVT_STUN_BINDING ?ctx = Some (b, Some sm)"
    "SessionFsm.session_ok sm"
    using fsm_dispatch_ok [of "lse_fsm t1"] fsm unfolding t1_def by (simp, blast)
  let ?g = "\<lambda>s. s\<lparr>lse_fsm := sm\<rparr>"
  define t2 where "t2 = ?g t1"
  define W2 where "W2 = W1\<lparr>w_sessions := (w_sessions W1)(p \<mapsto> t2)\<rparr>"
  have s2: "set_session p ?g W1 = Some W2" "reg_inv {} W2"
    unfolding W2_def t2_def using set_session_inv [where f = ?g, OF s1(2) t1] sm(2) by simp_all
  have t2: "w_sessions W2 p = Some t2" by (simp add: W2_def)
  have z2: "zone_ok live W2" using worker_invD(2) [OF inv] by (simp add: W2_def W1_def zone_ok_def)
  obtain W3 where W3: "ngx_rtc_stream_publish_state E W2 p = Some W3" "calm live W2 W3" "w_sources W3 = w_sources W2"
    using publish_state_calm [OF z2 E t2] sm(2) by (auto simp: runs_def t2_def)
  define W' where "W' = W3\<lparr>w_stream_ctx := (w_stream_ctx W3)(c \<mapsto> p)\<rparr>"
  have run: "stun_bind E W p c = Some W'"
    using s1(1) t1 sm(1) s2(1) W3(1) by (simp add: stun_bind_def W'_def)
  have s': "w_sessions W' = (w_sessions W)(p \<mapsto> t2)" "w_stream_ctx W' = (w_stream_ctx W)(c \<mapsto> p)" "lse_conn t2 = Some c"
    using calm_sessions [OF W3(2)] by (simp_all add: W'_def W2_def W1_def t2_def t1_def)
  have "w_stream_ctx W' d = Some x \<longleftrightarrow> (\<exists>u. w_sessions W' x = Some u \<and> lse_conn u = Some d)" for d x
  proof -
    have iff: "w_stream_ctx W d = Some x \<longleftrightarrow> (\<exists>u. w_sessions W x = Some u \<and> lse_conn u = Some d)" for d x
      using worker_invD(3) [OF inv] by (simp add: ctx_ok_def)
    have p: "lse_conn t = Some d \<longleftrightarrow> w_stream_ctx W d = Some p" for d using iff [of d p] t by simp
    show ?thesis using iff [of d x] s' conn p [of d] t by (cases "d = c"; cases "x = p") auto
  qed
  then have "worker_inv live W'"
    using same_registry_inv [OF calmD(1) [OF W3(2)] s2(2)] calmD(2) [OF W3(2)] by (simp add: worker_inv_def ctx_ok_def W'_def zone_ok_def)
  then show ?thesis using run s' W3(3) by (auto simp: W'_def W2_def W1_def t2_def t1_def)
qed
definition stun_ok :: "'m worker \<Rightarrow> nat \<Rightarrow> bytes \<Rightarrow> bool" where
  "stun_ok W c data \<longleftrightarrow> (\<forall>rc st. ngx_rtc_stun_decode (Some stun_zero) (Some data) (length data) = Some (rc, Some st) \<longrightarrow>
     (\<forall>p t. w_stream_ctx W c = Some p \<longrightarrow> w_sessions W p = Some t \<longrightarrow> lse_ice_ufrag t = cstr (local_ufrag st))
   \<and> (\<forall>p t. w_sessions W p = Some t \<longrightarrow> lse_ice_ufrag t = cstr (local_ufrag st) \<longrightarrow> lse_conn t = None \<or> lse_conn t = Some c))"

text \<open>The session a request is for: one of this process, or one attached for it.\<close>

lemma stun_target_runs:
  assumes inv: "worker_inv live W" and E: "worker_env_ok live E" and src: "fresh_source W newsrc"
    and p: "\<forall>p. newsess = Some p \<longrightarrow> w_sessions W p = None"
  shows "runs (\<lambda>(r, W'). worker_inv live W' \<and> w_stream_ctx W' = w_stream_ctx W \<and>
      (\<forall>p. r = Some p \<longrightarrow> (\<exists>t. w_sessions W' p = Some t \<and> lse_ice_ufrag t = ufrag \<and> (w_sessions W p = Some t \<or> w_sessions W p = None \<and> lse_conn t = None
          \<and> (\<forall>p' t'. w_sessions W p' = Some t' \<longrightarrow> lse_ice_ufrag t' \<noteq> ufrag)))))
    (do { found \<leftarrow> ngx_rtc_session_find (we_tree E) W (Some ufrag);
          (case found of Some p \<Rightarrow> Some (Some p, W) | None \<Rightarrow> ngx_rtc_stream_attach_from_shm E newsrc newsess W ufrag) })"
proof -
  have T: "pick_sound (we_tree E)" using E by (simp add: worker_env_ok_def)
  show ?thesis
  proof (cases rule: session_find_cases [OF worker_invD(1) [OF inv] T, of ufrag])
    case 1
    have fresh: "w_sessions W x = None" if "newsess = Some x" for x using p that by blast
    have new: "\<forall>p t. w_sessions W p = Some t \<longrightarrow> lse_ice_ufrag t \<noteq> ufrag" using 1(2) by blast
    obtain r W' where W': "ngx_rtc_stream_attach_from_shm E newsrc newsess W ufrag = Some (r, W')" "worker_inv live W'" "w_stream_ctx W' = w_stream_ctx W"
      "case r of None \<Rightarrow> w_sessions W' = w_sessions W
       | Some p \<Rightarrow> newsess = Some p \<and> (\<exists>t. w_sessions W' = (w_sessions W)(p \<mapsto> t) \<and> lse_ice_ufrag t = ufrag \<and> lse_conn t = None)"
      using attach_runs [OF inv E src p new] by (auto simp: runs_def)
    have "\<exists>t. w_sessions W' x = Some t \<and> lse_ice_ufrag t = ufrag \<and> lse_conn t = None \<and> w_sessions W x = None" if "r = Some x" for x
      using W'(4) that fresh by auto
    then show ?thesis using 1(1) W'(1-3) new by fastforce
  next
    case (2 p t)
    then show ?thesis using inv by simp
  qed
qed

text \<open>Either nothing is sent and no connection changes, or the request was authenticated with the
  password of the session that it names, and that session is now on this connection.\<close>

definition stun_outcome :: "('m \<Rightarrow> nat set) \<Rightarrow> 'm worker_env \<Rightarrow> nat \<Rightarrow> bytes \<Rightarrow> 'm worker \<Rightarrow> bytes option \<times> 'm worker \<Rightarrow> bool" where
  "stun_outcome live E c data W = (\<lambda>(r, W'). worker_inv live W' \<and>
     (r = None \<and> w_stream_ctx W' = w_stream_ctx W \<or>
      (\<exists>st p t. ngx_rtc_stun_decode (Some stun_zero) (Some data) (length data) = Some (0, Some st) \<and> has_username st
         \<and> ngx_rtc_stun_verify_request (we_hmac E) (Some st) (Some data) (length data) (Some (lse_ice_pwd t)) = Some 0
         \<and> w_sessions W' p = Some t \<and> lse_ice_ufrag t = cstr (local_ufrag st) \<and> lse_conn t = Some c
         \<and> w_stream_ctx W' = (w_stream_ctx W)(c \<mapsto> p))))"

lemma on_stun_runs:
  assumes inv: "worker_inv live W" and E: "worker_env_ok live E" and src: "fresh_source W newsrc"
    and new: "\<forall>p. newsess = Some p \<longrightarrow> w_sessions W p = None" and ok: "stun_ok W c data"
  shows "runs (stun_outcome live E c data W) (ngx_rtc_stream_on_stun E newsrc newsess c addr port data W)"
proof -
  obtain rc st where d: "ngx_rtc_stun_decode (Some stun_zero) (Some data) (length data) = Some (rc, Some st)"
    using stun_decode_total [of "length data" data] by blast
  show ?thesis
  proof (cases "rc \<noteq> 0 \<or> \<not> has_username st")
    case True
    then show ?thesis using d inv by (auto simp: ngx_rtc_stream_on_stun_def stun_outcome_def)
  next
    case False
    let ?u = "cstr (local_ufrag st)"
    have ok': "w_stream_ctx W c = Some p \<Longrightarrow> w_sessions W p = Some t \<Longrightarrow> lse_ice_ufrag t = ?u"
      "w_sessions W p = Some t \<Longrightarrow> lse_ice_ufrag t = ?u \<Longrightarrow> lse_conn t = None \<or> lse_conn t = Some c" for p t
      using ok d unfolding stun_ok_def by blast+
    have "runs (stun_outcome live E c data W)
      (do { (sessp, W) \<leftarrow> (do { found \<leftarrow> ngx_rtc_session_find (we_tree E) W (Some ?u);
               (case found of Some p \<Rightarrow> Some (Some p, W) | None \<Rightarrow> ngx_rtc_stream_attach_from_shm E newsrc newsess W ?u) });
            (case sessp of
               None \<Rightarrow> Some (None, W)
             | Some p \<Rightarrow>
                 do { sess \<leftarrow> w_sessions W p;
                      v \<leftarrow> ngx_rtc_stun_verify_request (we_hmac E) (Some st) (Some data) (length data) (Some (lse_ice_pwd sess));
                      if v \<noteq> 0 then Some (None, W)
                      else do {
                        W \<leftarrow> stun_bind E W p c;
                        let (n, resp) = ngx_rtc_stun_encode_binding_response (we_hmac E) (Some st) (Some (lse_ice_pwd sess)) addr port
                                          (Some (replicate 256 0)) 256;
                        Some (if n > 0 then map_option (take (nat n)) resp else None, W) } }) })"
    proof (rule runs_bind2 [OF stun_target_runs [OF inv E src new, of ?u]], goal_cases)
      case (1 sessp W1)
      show ?case
      proof (cases sessp)
        case None
        then show ?thesis using 1 by (simp add: stun_outcome_def)
      next
        case (Some p)
        then obtain t where t: "worker_inv live W1" "w_stream_ctx W1 = w_stream_ctx W" "w_sessions W1 p = Some t" "lse_ice_ufrag t = ?u"
          "w_sessions W p = Some t \<or> w_sessions W p = None \<and> lse_conn t = None \<and> (\<forall>p' t'. w_sessions W p' = Some t' \<longrightarrow> lse_ice_ufrag t' \<noteq> ?u)"
          using 1 by auto
        have conn: "lse_conn t = None \<or> lse_conn t = Some c" using t(4,5) ok'(2) by blast
        have ctx: "w_stream_ctx W1 c = None \<or> w_stream_ctx W1 c = Some p"
        proof (cases "w_stream_ctx W c")
          case (Some x)
          then obtain u where u: "w_sessions W x = Some u" using worker_invD(3) [OF inv] unfolding ctx_ok_def by blast
          have "lse_ice_ufrag u = ?u" using ok'(1) Some u by blast
          then have "x = p" using t(4,5) u reg_session_unique [OF worker_invD(1) [OF inv]] by metis
          then show ?thesis using t(2) Some by simp
        qed (use t(2) in simp)
        obtain v where v: "ngx_rtc_stun_verify_request (we_hmac E) (Some st) (Some data) (length data) (Some (lse_ice_pwd t)) = Some v"
          using verify_total [of "length data" data] by blast
        show ?thesis
        proof (cases "v = 0")
          case False
          then show ?thesis using Some t(1-3) v by (simp add: stun_outcome_def)
        next
          case True
          obtain W2 t2 where W2: "stun_bind E W1 p c = Some W2" "worker_inv live W2" "w_stream_ctx W2 = (w_stream_ctx W1)(c \<mapsto> p)"
            "w_sessions W2 = (w_sessions W1)(p \<mapsto> t2)" "lse_conn t2 = Some c" "lse_ice_ufrag t2 = lse_ice_ufrag t" "lse_ice_pwd t2 = lse_ice_pwd t"
            using stun_bind_runs [OF t(1) E t(3) conn ctx] by (auto simp: runs_def)
          have "stun_outcome live E c data W (x, W2)" for x
            unfolding stun_outcome_def prod.case using d False W2 t v True
            by (intro conjI disjI2 exI [of _ st] exI [of _ p] exI [of _ t2]) simp_all
          then show ?thesis using Some t(3) v True W2(1) by (simp add: Let_def split: prod.splits)
        qed
      qed
    qed
    then show ?thesis using d False by (simp add: ngx_rtc_stream_on_stun_def Let_def)
  qed
qed

section \<open>Handshake and publishers\<close>

lemma handshake_done_runs:
  assumes inv: "worker_inv live W" and E: "worker_env_ok live E" and t: "w_sessions W p = Some t" "lse_sub_queue t = Q_self"
  shows "runs (\<lambda>W'. worker_inv live W' \<and> (\<exists>t'. w_sessions W' = (w_sessions W)(p \<mapsto> t'))) (stream_handshake_done E W p)"
proof -
  have fsm: "SessionFsm.session_ok (lse_fsm t)" using reg_invD(4) [OF worker_invD(1) [OF inv] t(1)] by (simp add: session_wf_def)
  obtain b sm where sm: "ngx_rtc_session_fsm_dispatch ngx_rtc_session_fsm_report_unhandled (Some (lse_fsm t)) NGX_RTC_SESSION_EVT_DTLS_HANDSHAKE_DONE = Some (b, Some sm)"
    "SessionFsm.session_ok sm"
    using fsm_dispatch_ok [OF fsm] unfolding ngx_rtc_session_fsm_dispatch_def by blast
  let ?f = "\<lambda>s. s\<lparr>lse_fsm := sm, lse_last_active := now_msec (we_shm E)\<rparr>"
  define t1 where "t1 = ?f t"
  define W1 where "W1 = W\<lparr>w_sessions := (w_sessions W)(p \<mapsto> t1)\<rparr>"
  have s1: "set_session p ?f W = Some W1" "worker_inv live W1"
    using set_session_runs [where f = ?f, OF inv t(1)] sm(2) by (simp_all add: runs_def W1_def t1_def)
  have t1: "w_sessions W1 p = Some t1" "lse_sub_queue t1 = Q_self" using t(2) by (simp_all add: W1_def t1_def)
  obtain W2 t2 where W2: "(if lse_source t1 \<noteq> None \<and> lse_publishing t1 = 0 then ngx_rtc_source_subscribe W1 (lse_source t1) (Some p) else Some W1) = Some W2"
    "worker_inv live W2" "w_sessions W2 = (w_sessions W1)(p \<mapsto> t2)"
  proof (cases "lse_source t1 \<noteq> None \<and> lse_publishing t1 = 0")
    case False
    then have "(if lse_source t1 \<noteq> None \<and> lse_publishing t1 = 0 then ngx_rtc_source_subscribe W1 (lse_source t1) (Some p) else Some W1) = Some W1" by auto
    moreover have "w_sessions W1 = (w_sessions W1)(p \<mapsto> t1)" using t1(1) by (simp add: fun_upd_idem)
    ultimately show ?thesis by (rule that [OF _ s1(2)])
  next
    case True
    then obtain q where q: "lse_source t1 = Some q" by blast
    obtain W2 where W2: "ngx_rtc_source_subscribe W1 (Some q) (Some p) = Some W2" "reg_inv {} W2" "w_sessions W2 = (w_sessions W1)(p \<mapsto> t1\<lparr>lse_sub_queue := Q_linked\<rparr>)"
      "w_sh W2 = w_sh W1" "w_stream_ctx W2 = w_stream_ctx W1"
      using subscribe_inv [OF worker_invD(1) [OF s1(2)] t1(1) q t1(2)] by blast
    have "ctx_ok W2" using worker_invD(3) [OF s1(2)] t1(1) unfolding ctx_ok_def W2(3,5) by auto
    then have "worker_inv live W2" using W2(2,4) worker_invD(2) [OF s1(2)] by (simp add: worker_inv_def zone_ok_def)
    then show ?thesis using that [OF _ _ W2(3)] True q W2(1) by simp
  qed
  obtain r W3 where W3: "on_zone (\<lambda>sh. ngx_rtc_shm_session_activate sh (Some (lse_ice_ufrag t1)) (ngx_worker E)) W2 = Some (r, W3)" "calm live W2 W3"
    "w_sessions W3 = w_sessions W2"
    using activate_calm [OF worker_invD(2) [OF W2(2)] E] by blast
  have run: "stream_handshake_done E W p = Some W3"
    using t(1) sm(1) s1(1) t1(1) W2(1) W3(1) by (simp add: stream_handshake_done_def)
  have "w_sessions W3 = (w_sessions W)(p \<mapsto> t2)" using W3(3) W2(3) by (simp add: W1_def)
  then show ?thesis using run calm_inv [OF W2(2) W3(2)] by auto
qed

lemma heartbeat_runs:
  assumes inv: "worker_inv live W" and E: "worker_env_ok live E" and a: "zone_source W a \<noteq> None"
  shows "\<exists>sh sh'. w_sh W = Some sh \<and> publisher_heartbeat (we_shm E) a slot sh = Some sh' \<and> grows live W (W\<lparr>w_sh := Some sh'\<rparr>)"
proof -
  obtain sh where sh: "w_sh W = Some sh" "src_heap sh a \<noteq> None" using a by (auto simp: zone_source_def bind_eq_Some_conv)
  have inv': "shm_inv live sh" using worker_invD(2) [OF inv] sh(1) by (simp add: zone_ok_def)
  have "now_msec (we_shm E) \<noteq> 0" using E by (simp add: worker_env_ok_def)
  from heartbeat_good [OF inv' sh(2) this, of slot] obtain sh' where sh': "publisher_heartbeat (we_shm E) a slot sh = Some sh'" "shm_inv live sh'"
    by (auto simp: good_def)
  have "calm live W (W\<lparr>w_sh := Some sh'\<rparr>)" using sh(1) sh'(2) by (simp add: calm_def zone_ok_def same_registry_def same_sessions_def)
  then show ?thesis using sh(1) sh'(1) calm_inv [OF inv] by blast
qed
text \<open>The fast path of the RTMP publisher writes through the pointer it cached; the proviso is that the zone
  source is still there.\<close>

definition cache_ok :: "'m worker \<Rightarrow> bytes \<Rightarrow> bool" where
  "cache_ok W name \<longleftrightarrow> (\<forall>q s a. w_sources W q = Some s \<longrightarrow> ls_name s = name \<longrightarrow> ls_shm_src s = Some a \<longrightarrow> zone_source W a \<noteq> None)"

lemma shm_stats_runs:
  assumes inv: "worker_inv live W" and E: "worker_env_ok live E" and s: "w_sources W q = Some s"
    and a: "\<forall>a. ls_shm_src s = Some a \<longrightarrow> zone_source W a \<noteq> None"
  shows "runs (\<lambda>W'. grows live W W') (ngx_rtmp_rtc_shm_stats E W q)"
proof (cases "ls_shm_src s")
  case None
  then show ?thesis using s grows_refl [OF inv] by (simp add: ngx_rtmp_rtc_shm_stats_def)
next
  case (Some b)
  then show ?thesis using s heartbeat_runs [OF inv E, of b None] a by (auto simp: ngx_rtmp_rtc_shm_stats_def)
qed

lemma sync_shm_runs:
  assumes inv: "worker_inv live W" and E: "worker_env_ok live E" and s: "w_sources W q = Some s"
    and a: "\<forall>a. ls_shm_src s = Some a \<longrightarrow> zone_source W a \<noteq> None"
  shows "runs (\<lambda>(rc, W'). grows live W W') (ngx_rtmp_rtc_sync_shm E W q)"
proof -
  have k: "(ucast NGX_RTC_PUBLISHER_RTMP :: u8) \<noteq> 0" by simp
  have slow: "runs (\<lambda>(rc, W'). grows live W W')
    (do { (rc, W) \<leftarrow> ngx_rtc_publish_claim E W (Some q) NGX_RTC_PUBLISHER_RTMP;
          if rc = NGX_BUSY then Some (NGX_BUSY, W)
          else do {
            src \<leftarrow> w_sources W q;
            (case ls_shm_src src of
               None \<Rightarrow> Some (NGX_OK, W)
             | Some a \<Rightarrow>
                 do { shm_src \<leftarrow> zone_source W a;
                      W \<leftarrow> set_source q (\<lambda>s. s\<lparr>ls_video_ssrc := shs_video_ssrc shm_src, ls_audio_ssrc := shs_audio_ssrc shm_src,
                                                ls_video_pt := shs_video_pt shm_src, ls_audio_pt := shs_audio_pt shm_src\<rparr>) W;
                      sh \<leftarrow> w_sh W;
                      sh \<leftarrow> publisher_heartbeat (we_shm E) a (Some (sint (ngx_worker E))) sh;
                      Some (NGX_OK, W\<lparr>w_sh := Some sh\<rparr>) }) } })"
  proof (rule runs_bind2 [OF publish_claim_runs [OF inv E s k]], rule runs_if, goal_cases)
    case (1 rc W1)
    then show ?case by simp
  next
    case (2 rc W1)
    then obtain s1 where W1: "grows live W W1" "w_sources W1 q = Some s1" "\<forall>a. ls_shm_src s1 = Some a \<longrightarrow> zone_source W1 a \<noteq> None" by auto
    show ?case
    proof (rule runs_bind_Some [OF W1(2)], cases "ls_shm_src s1")
      case None
      then show "runs (\<lambda>(rc, W'). grows live W W')
        (case ls_shm_src s1 of
               None \<Rightarrow> Some (NGX_OK, W1)
             | Some a \<Rightarrow>
                 do { shm_src \<leftarrow> zone_source W1 a;
                      W \<leftarrow> set_source q (\<lambda>s. s\<lparr>ls_video_ssrc := shs_video_ssrc shm_src, ls_audio_ssrc := shs_audio_ssrc shm_src,
                                                ls_video_pt := shs_video_pt shm_src, ls_audio_pt := shs_audio_pt shm_src\<rparr>) W1;
                      sh \<leftarrow> w_sh W;
                      sh \<leftarrow> publisher_heartbeat (we_shm E) a (Some (sint (ngx_worker E))) sh;
                      Some (NGX_OK, W\<lparr>w_sh := Some sh\<rparr>) })"
        using W1(1) by simp
    next
      case (Some a)
      obtain zs where zs: "zone_source W1 a = Some zs" using W1(3) Some by blast
      let ?f = "\<lambda>s. s\<lparr>ls_video_ssrc := shs_video_ssrc zs, ls_audio_ssrc := shs_audio_ssrc zs, ls_video_pt := shs_video_pt zs, ls_audio_pt := shs_audio_pt zs\<rparr>"
      obtain W2 where W2: "set_source q ?f W1 = Some W2" "grows live W1 W2" "w_sh W2 = w_sh W1"
        using set_source_runs [where f = ?f, OF conjunct1 [OF W1(1)] W1(2)] by (auto simp: runs_def)
      have "zone_source W2 a \<noteq> None" using zs W2(3) by (simp add: zone_source_def)
      then obtain sh sh' where h: "w_sh W2 = Some sh" "publisher_heartbeat (we_shm E) a (Some (sint (ngx_worker E))) sh = Some sh'"
        "grows live W2 (W2\<lparr>w_sh := Some sh'\<rparr>)"
        using heartbeat_runs [OF conjunct1 [OF W2(2)] E] by blast
      have "grows live W (W2\<lparr>w_sh := Some sh'\<rparr>)" using grows_trans [OF grows_trans [OF W1(1) W2(2)] h(3)] .
      then show "runs (\<lambda>(rc, W'). grows live W W')
        (case ls_shm_src s1 of
               None \<Rightarrow> Some (NGX_OK, W1)
             | Some a \<Rightarrow>
                 do { shm_src \<leftarrow> zone_source W1 a;
                      W \<leftarrow> set_source q (\<lambda>s. s\<lparr>ls_video_ssrc := shs_video_ssrc shm_src, ls_audio_ssrc := shs_audio_ssrc shm_src,
                                                ls_video_pt := shs_video_pt shm_src, ls_audio_pt := shs_audio_pt shm_src\<rparr>) W1;
                      sh \<leftarrow> w_sh W;
                      sh \<leftarrow> publisher_heartbeat (we_shm E) a (Some (sint (ngx_worker E))) sh;
                      Some (NGX_OK, W\<lparr>w_sh := Some sh\<rparr>) })"
        using Some zs W2(1) h(1,2) by simp
    qed
  qed
  show ?thesis
    unfolding ngx_rtmp_rtc_sync_shm_def
  proof (rule runs_if, goal_cases)
    case 1
    then show ?case using grows_refl [OF inv] by simp
  next
    case 2
    show ?case
      by (rule runs_bind_Some [OF s], unfold Let_def, rule runs_if)
        (use shm_stats_runs [OF inv E s a] slow in auto)
  qed
qed

lemma publish_tag_runs:
  assumes inv: "worker_inv live W" and E: "worker_env_ok live E" and src: "fresh_source W newsrc" and a: "cache_ok W name"
  shows "runs (\<lambda>(rc, W'). worker_inv live W' \<and> w_sessions W' = w_sessions W) (ngx_rtmp_rtc_publish_tag E newsrc W name)"
  unfolding ngx_rtmp_rtc_publish_tag_def
proof -
  have T: "pick_sound (we_tree E)" using E by (simp add: worker_env_ok_def)
  obtain srcp W1 where W1: "ngx_rtc_source_get (we_tree E) newsrc W (Some name) = Some (srcp, W1)" "worker_inv live W1" "same_sessions W W1" "w_sh W1 = w_sh W"
    "\<forall>q. srcp = Some q \<longrightarrow> (\<exists>s. w_sources W1 q = Some s \<and> ls_name s = name \<and> (w_sources W q = Some s \<or> ls_shm_src s = None))"
  proof -
    obtain srcp W1 where W1: "ngx_rtc_source_get (we_tree E) newsrc W (Some name) = Some (srcp, W1)" "worker_inv live W1" "same_sessions W W1" "w_sh W1 = w_sh W"
      "\<forall>q s. w_sources W q = Some s \<longrightarrow> w_sources W1 q = Some s" "\<forall>q. srcp = Some q \<longrightarrow> (\<exists>s. w_sources W1 q = Some s \<and> ls_name s = name)"
      using source_get_runs [OF inv E src, of name] by (auto simp: runs_def)
    have "w_sources W q = Some s \<or> ls_shm_src s = None" if "srcp = Some q" "w_sources W1 q = Some s" for q s
      using W1(1) that
      by (cases rule: source_lookup_cases [OF worker_invD(1) [OF inv] T, of name])
        (auto simp: ngx_rtc_source_get_def ngx_rtc_source_create_def source_calloc_def bind_eq_Some_conv Let_def split: if_splits option.splits)
    then show ?thesis using that W1 by blast
  qed
  have ss: "w_sessions W1 = w_sessions W" using W1(3) by (simp add: same_sessions_def)
  show "runs (\<lambda>(rc, W'). worker_inv live W' \<and> w_sessions W' = w_sessions W)
     (do { (srcp, W) \<leftarrow> ngx_rtc_source_get (we_tree E) newsrc W (Some name);
          (case srcp of
             None \<Rightarrow> Some (NGX_OK, W)
           | Some q \<Rightarrow> do { (rc, W) \<leftarrow> ngx_rtmp_rtc_sync_shm E W q; Some (if rc \<noteq> NGX_OK then NGX_ERROR else NGX_OK, W) }) })"
  proof (cases srcp)
    case None
    then show ?thesis using W1(1,2) ss by simp
  next
    case (Some q)
    then obtain s where s: "w_sources W1 q = Some s" "ls_name s = name" "w_sources W q = Some s \<or> ls_shm_src s = None" using W1(5) by blast
    have "\<forall>a. ls_shm_src s = Some a \<longrightarrow> zone_source W1 a \<noteq> None"
      using s a W1(4) unfolding cache_ok_def zone_source_def by auto
    from sync_shm_runs [OF W1(2) E s(1) this] show ?thesis
      using Some W1(1) ss calm_sessions(1) by (fastforce simp: runs_def)
  qed
qed

lemma audio_header_runs:
  assumes "worker_inv live W" "w_sources W q \<noteq> None"
  shows "runs (\<lambda>W'. worker_inv live W' \<and> w_sessions W' = w_sessions W) (ngx_rtmp_rtc_audio_header W q ctx)"
  using set_source_runs [OF assms(1), where f = "\<lambda>s. s\<lparr>ls_audio_ctx := ctx\<rparr>"] assms(2) calm_sessions(1)
  by (fastforce simp: ngx_rtmp_rtc_audio_header_def runs_def)

lemma rtmp_release_runs:
  assumes inv: "worker_inv live W" and E: "worker_env_ok live E"
  shows "runs (\<lambda>W'. worker_inv live W' \<and> w_sessions W' = w_sessions W) (ngx_rtmp_rtc_release_publish E W name)"
proof -
  have T: "pick_sound (we_tree E)" using E by (simp add: worker_env_ok_def)
  show ?thesis
  proof (cases rule: source_lookup_cases [OF worker_invD(1) [OF inv] T, of name])
    case 1
    then show ?thesis using inv by (simp add: ngx_rtmp_rtc_release_publish_def ngx_rtc_source_find_def)
  next
    case (2 q s)
    let ?f = "\<lambda>s. s\<lparr>ls_audio_ctx := None\<rparr>"
    obtain W1 where W1: "set_source q ?f W = Some W1" "grows live W W1" using set_source_runs [where f = ?f, OF inv 2(2)] by (auto simp: runs_def)
    obtain s1 where s1: "w_sources W1 q = Some s1" using grows_source [OF W1(2) 2(2)] by blast
    obtain W2 where W2: "ngx_rtc_publish_release E W1 (Some q) = Some W2" "grows live W1 W2"
      using publish_release_runs [OF conjunct1 [OF W1(2)] E s1] by (auto simp: runs_def)
    obtain W3 where W3: "ngx_rtc_source_remove (we_tree E) W2 (Some name) = Some W3" "worker_inv live W3" "same_sessions W2 W3"
      using source_remove_runs [OF conjunct1 [OF W2(2)] E, of name] by (auto simp: runs_def)
    have ss: "w_sessions W1 = w_sessions W" "w_sessions W3 = w_sessions W"
      using calm_sessions(1) [OF conjunct2 [OF W1(2)]] calm_sessions(1) [OF conjunct2 [OF W2(2)]] W3(3) by (simp_all add: same_sessions_def)
    show ?thesis using 2(1) W1 s1 W2(1) W3(1,2) ss by (simp add: ngx_rtmp_rtc_release_publish_def ngx_rtc_source_find_def)
  qed
qed

lemma stream_shm_source_runs:
  assumes inv: "worker_inv live W" and E: "worker_env_ok live E" and s: "\<forall>q. srcp = Some q \<longrightarrow> w_sources W q \<noteq> None"
  shows "runs (\<lambda>(r, W'). worker_inv live W' \<and> w_sessions W' = w_sessions W) (ngx_rtc_stream_shm_source E W srcp)"
proof (cases srcp)
  case None
  then show ?thesis using inv by (simp add: ngx_rtc_stream_shm_source_def)
next
  case (Some q)
  then obtain s where q: "w_sources W q = Some s" using s by blast
  let ?now = "now_msec (we_shm E)"
  obtain rc W1 where W1: "on_zone (\<lambda>sh. ngx_rtc_shm_source_try_publish (we_shm E) sh (Some (ls_name s)) NGX_RTC_PUBLISHER_WHIP) W = Some (rc, W1)" "calm live W W1"
    "w_sources W1 = w_sources W"
    using try_publish_calm [OF worker_invD(2) [OF inv] E, of "Some (ls_name s)" NGX_RTC_PUBLISHER_WHIP] by (elim exE conjE) (rule that)
  have inv1: "worker_inv live W1" by (rule calm_inv [OF inv W1(2)])
  have q1: "w_sources W1 q = Some s" using q W1(3) by simp
  have ss: "w_sessions W1 = w_sessions W" by (rule calm_sessions(1) [OF W1(2)])
  have set: "\<exists>W2. set_source q f W1 = Some W2 \<and> worker_inv live W2 \<and> w_sessions W2 = w_sessions W" if f: "same_entry s (f s)" for f
  proof -
    obtain W2 where W2: "set_source q f W1 = Some W2" "worker_inv live W2" "calm live W1 W2"
      using set_source_runs [where f = f, OF inv1 q1 f] by (auto simp: runs_def)
    then show ?thesis using ss calm_sessions(1) [OF W2(3)] by simp
  qed
  show ?thesis
    using Some q inv W1(1) set [of "\<lambda>s. s\<lparr>ls_shm_src := None, ls_shm_sync_ms := ?now\<rparr>"] set [of "\<lambda>s. s\<lparr>ls_shm_sync_ms := ?now\<rparr>"]
    by (auto simp: ngx_rtc_stream_shm_source_def Let_def)
qed
end
