(* ===== verification/WorkerLife.thy ===== *)
theory WorkerLife
  imports WorkerReach
begin

text \<open>
  Runs of a worker process: its handlers in any order, interleaved with the operations that the other
  workers perform on the shared zone, from an empty registry. The properties: no operation touches a
  freed object and the registry stays exact; the reaper ends and closes exactly the sessions that are
  due; only an authenticated STUN request binds a session to a connection.
\<close>

section \<open>Runs\<close>

datatype 'm worker_op =
    Op_play "nat option" "nat option" bytes u8 u8 u8 u8 bytes bytes
  | Op_whip "nat option" "nat option" bool bytes u8 u8 u8 u8 bytes bytes
  | Op_stun "nat option" "nat option" nat u32 u16 bytes
  | Op_handshake nat
  | Op_close nat u32
  | Op_reap
  | Op_rtmp_tag "nat option" bytes
  | Op_audio_header nat "nat option"
  | Op_rtmp_release bytes
  | Op_whip_claim nat
  | Op_zone shm_op "'m shm_env"

fun worker_exec :: "'m worker_op \<Rightarrow> 'm worker_env \<Rightarrow> 'm worker \<Rightarrow> 'm worker option" where
  "worker_exec (Op_play newsrc newsess name vpt apt vext aext ufrag pwd) E W =
     map_option snd (rtc_play_register E newsrc newsess W name vpt apt vext aext ufrag pwd)"
| "worker_exec (Op_whip newsrc newsess answer_ok name vpt apt vext aext ufrag pwd) E W =
     map_option snd (rtc_whip_register E newsrc newsess answer_ok W name vpt apt vext aext ufrag pwd)"
| "worker_exec (Op_stun newsrc newsess c addr port data) E W =
     map_option snd (ngx_rtc_stream_on_stun E newsrc newsess c addr port data W)"
| "worker_exec (Op_handshake p) E W = stream_handshake_done E W p"
| "worker_exec (Op_close p ev) E W = ngx_rtc_stream_session_close E W (Some p) ev"
| "worker_exec Op_reap E W = ngx_rtc_stream_reap_timer E W"
| "worker_exec (Op_rtmp_tag newsrc name) E W = map_option snd (ngx_rtmp_rtc_publish_tag E newsrc W name)"
| "worker_exec (Op_audio_header q ctx) E W = ngx_rtmp_rtc_audio_header W q ctx"
| "worker_exec (Op_rtmp_release name) E W = ngx_rtmp_rtc_release_publish E W name"
| "worker_exec (Op_whip_claim q) E W = map_option snd (ngx_rtc_stream_shm_source E W (Some q))"
| "worker_exec (Op_zone op E') E W =
     (case w_sh W of None \<Rightarrow> Some W | Some sh \<Rightarrow> map_option (\<lambda>sh. W\<lparr>w_sh := Some sh\<rparr>) (shm_exec op E' sh))"

text \<open>
  What the callers guarantee: allocated blocks are fresh, a new ufrag is not one of this process, a
  handshake completes once, sessions and sources are closed or used while they are allocated, a STUN
  request does not move a bound session or connection, and the cached zone source of an RTMP
  publisher is alive.
\<close>

fun worker_op_ok :: "('m \<Rightarrow> nat set) \<Rightarrow> 'm worker_op \<Rightarrow> 'm worker_env \<Rightarrow> 'm worker \<Rightarrow> bool" where
  "worker_op_ok live (Op_play newsrc newsess name vpt apt vext aext ufrag pwd) E W \<longleftrightarrow> fresh_source W newsrc \<and> new_session_ok W newsess ufrag"
| "worker_op_ok live (Op_whip newsrc newsess answer_ok name vpt apt vext aext ufrag pwd) E W \<longleftrightarrow> fresh_source W newsrc \<and> new_session_ok W newsess ufrag"
| "worker_op_ok live (Op_stun newsrc newsess c addr port data) E W \<longleftrightarrow>
     fresh_source W newsrc \<and> (\<forall>p. newsess = Some p \<longrightarrow> w_sessions W p = None) \<and> stun_ok W c data"
| "worker_op_ok live (Op_handshake p) E W \<longleftrightarrow> (\<exists>t. w_sessions W p = Some t \<and> lse_sub_queue t = Q_self)"
| "worker_op_ok live (Op_close p ev) E W \<longleftrightarrow> w_sessions W p \<noteq> None"
| "worker_op_ok live Op_reap E W \<longleftrightarrow> True"
| "worker_op_ok live (Op_rtmp_tag newsrc name) E W \<longleftrightarrow> fresh_source W newsrc \<and> cache_ok W name"
| "worker_op_ok live (Op_audio_header q ctx) E W \<longleftrightarrow> w_sources W q \<noteq> None"
| "worker_op_ok live (Op_rtmp_release name) E W \<longleftrightarrow> True"
| "worker_op_ok live (Op_whip_claim q) E W \<longleftrightarrow> w_sources W q \<noteq> None"
| "worker_op_ok live (Op_zone op E') E W \<longleftrightarrow> slab_sound live E' \<and> now_msec E' \<noteq> 0 \<and> (\<forall>sh. w_sh W = Some sh \<longrightarrow> op_ok op E' sh)"

definition worker_fresh :: "'m ngx_rtc_shm_ctx option \<Rightarrow> 'm worker" where
  "worker_fresh sh = \<lparr>w_sources = Map.empty, w_sessions = Map.empty, ngx_rtc_source_tree = [], ngx_rtc_session_tree = [], ngx_rtc_sessions = [],
     w_sh = sh, w_stream_ctx = Map.empty, w_posted = []\<rparr>"

inductive worker_reach :: "('m \<Rightarrow> nat set) \<Rightarrow> 'm worker \<Rightarrow> bool" for live where
  fresh: "(\<And>c. sh = Some c \<Longrightarrow> shm_reach live c) \<Longrightarrow> worker_reach live (worker_fresh sh)"
| step: "worker_reach live W \<Longrightarrow> worker_env_ok live E \<Longrightarrow> worker_op_ok live op E W \<Longrightarrow> worker_exec op E W = Some W' \<Longrightarrow> worker_reach live W'"

inductive_cases worker_reachE: "worker_reach live W"

lemma reap_timer_inv:
  assumes inv: "worker_inv live W" and E: "worker_env_ok live E"
  shows "\<exists>W'. ngx_rtc_stream_reap_timer E W = Some W' \<and> worker_inv live W' \<and> (\<forall>p. w_sessions W' p = w_sessions W p \<or> w_sessions W' p = None)
    \<and> (\<forall>p t. w_sessions W p = Some t \<longrightarrow> session_expired E t \<longrightarrow> w_sessions W' p = None)
    \<and> (\<forall>p t. w_sessions W p = Some t \<longrightarrow> \<not> session_expired E t \<longrightarrow> \<not> kick_requested W t \<longrightarrow> w_sessions W' p = Some t)"
proof -
  obtain W1 where W1: "(case w_sh W of None \<Rightarrow> Some W
      | Some sh \<Rightarrow> do { sh \<leftarrow> ngx_rtc_shm_expire (we_shm E) (Some sh) False; Some (W\<lparr>w_sh := sh\<rparr>) }) = Some W1"
    "calm live W W1" "skeletons_kept W W1"
  proof (cases "w_sh W")
    case None
    then show ?thesis using that [of W] calm_refl [OF worker_invD(2) [OF inv]] skeletons_kept_same [of W W] by simp
  next
    case (Some sh)
    have "shm_inv live sh" using worker_invD(2) [OF inv] Some by (simp add: zone_ok_def)
    moreover have "slab_sound live (we_shm E)" using E by (simp add: worker_env_ok_def)
    ultimately obtain sh' where sh': "Option.bind (ngx_rtc_shm_expire (we_shm E) (Some sh) False) id = Some sh'" "shm_inv live sh'"
      using expire_good [of live sh "we_shm E" False] by (auto simp: good_def)
    then have e: "ngx_rtc_shm_expire_locked (we_shm E) False sh = Some sh'" by (auto simp: ngx_rtc_shm_expire_def bind_eq_Some_conv)
    then obtain y where y: "expire_sessions (we_shm E) False (session_list sh) sh = Some y" "expire_sources (we_shm E) False (source_list y) y = Some sh'"
      by (auto simp: ngx_rtc_shm_expire_locked_def bind_eq_Some_conv)
    have k: "sess_heap sh' a = Some x \<Longrightarrow> sess_heap sh a = Some x" for a x
      using expire_sessions_kept [OF y(1)] expire_sources_sess [OF y(2)] by simp
    have "calm live W (W\<lparr>w_sh := Some sh'\<rparr>)" using Some sh'(2) by (simp add: calm_def zone_ok_def same_registry_def same_sessions_def)
    moreover have "skeletons_kept W (W\<lparr>w_sh := Some sh'\<rparr>)" using Some k by (simp add: skeletons_kept_def)
    ultimately show ?thesis using that [of "W\<lparr>w_sh := Some sh'\<rparr>"] Some e by (simp add: ngx_rtc_shm_expire_def)
  qed
  have inv1: "worker_inv live W1" by (rule calm_inv [OF inv W1(2)])
  have s1: "w_sessions W1 = w_sessions W" by (rule calm_sessions(1) [OF W1(2)])
  obtain W2 where W2: "reap_loop E W1 (head_of (ngx_rtc_sessions W1)) = Some W2" "worker_inv live W2"
    "\<forall>p. w_sessions W2 p = w_sessions W1 p \<or> w_sessions W2 p = None"
    "\<forall>p t. w_sessions W1 p = Some t \<longrightarrow> p \<in> set (ngx_rtc_sessions W1) \<longrightarrow> session_expired E t \<longrightarrow> w_sessions W2 p = None"
    "\<forall>p t. w_sessions W1 p = Some t \<longrightarrow> \<not> session_expired E t \<longrightarrow> \<not> kick_requested W1 t \<longrightarrow> w_sessions W2 p = Some t"
    using reap_loop_inv [OF E inv1, of "[]" "ngx_rtc_sessions W1"] by (simp, blast)
  have all: "p \<in> set (ngx_rtc_sessions W1)" if "w_sessions W1 p = Some t" for p t
    using reg_invD(1) [OF worker_invD(1) [OF inv1]] that by (auto simp: reg_lists_def)
  have "ngx_rtc_stream_reap_timer E W = Some W2" using W1(1) W2(1) by (simp add: ngx_rtc_stream_reap_timer_def ngx_rtc_session_first_def)
  moreover have "w_sessions W2 p = Some t" if "w_sessions W p = Some t" "\<not> session_expired E t" "\<not> kick_requested W t" for p t
    using W2(5) s1 kick_kept [OF W1(3), of t] that by auto
  ultimately show ?thesis using W2(2-4) all s1 by (intro exI [of _ W2]) auto
qed

lemma runs_snd: "runs (\<lambda>(r, W'). P W' \<and> Q r W') m \<Longrightarrow> runs P (map_option snd m)"
  by (auto simp: runs_def)

text \<open>Every operation completes and keeps the invariant.\<close>

lemma worker_exec_runs:
  assumes inv: "worker_inv live W" and E: "worker_env_ok live E" and ok: "worker_op_ok live op E W"
  shows "runs (worker_inv live) (worker_exec op E W)"
proof (cases op)
  case (Op_play newsrc newsess name vpt apt vext aext ufrag pwd)
  then show ?thesis using rtc_play_runs [OF inv E, of newsrc newsess ufrag name vpt apt vext aext pwd] ok by (auto simp: runs_def)
next
  case (Op_whip newsrc newsess answer_ok name vpt apt vext aext ufrag pwd)
  then show ?thesis using rtc_whip_runs [OF inv E, of newsrc newsess ufrag answer_ok name vpt apt vext aext pwd] ok by (auto simp: runs_def whip_outcome_def)
next
  case (Op_stun newsrc newsess c addr port data)
  then show ?thesis using on_stun_runs [OF inv E, of newsrc newsess c data addr port] ok by (auto simp: runs_def stun_outcome_def)
next
  case (Op_handshake p)
  then show ?thesis using handshake_done_runs [OF inv E, of p] ok by (auto simp: runs_def)
next
  case (Op_close p ev)
  then obtain t where "w_sessions W p = Some t" using ok by auto
  from session_close_inv [OF inv E this, of ev] Op_close show ?thesis by (auto simp: runs_def)
next
  case Op_reap
  then show ?thesis using reap_timer_inv [OF inv E] by (auto simp: runs_def)
next
  case (Op_rtmp_tag newsrc name)
  then show ?thesis using publish_tag_runs [OF inv E, of newsrc name] ok by (auto simp: runs_def)
next
  case (Op_audio_header q ctx)
  then show ?thesis using audio_header_runs [OF inv, of q ctx] ok by (auto simp: runs_def)
next
  case (Op_rtmp_release name)
  then show ?thesis using rtmp_release_runs [OF inv E, of name] by (auto simp: runs_def)
next
  case (Op_whip_claim q)
  then show ?thesis using stream_shm_source_runs [OF inv E, of "Some q"] ok by (auto simp: runs_def)
next
  case (Op_zone zop E')
  show ?thesis
  proof (cases "w_sh W")
    case None
    then show ?thesis using Op_zone inv by simp
  next
    case (Some sh)
    have i: "shm_inv live sh" using worker_invD(2) [OF inv] Some by (simp add: zone_ok_def)
    obtain sh' where sh': "shm_exec zop E' sh = Some sh'" "shm_inv live sh'"
      using shm_exec_good [OF i, of E' zop] ok Op_zone Some by auto
    have "calm live W (W\<lparr>w_sh := Some sh'\<rparr>)" using Some sh'(2) by (simp add: calm_def zone_ok_def same_registry_def same_sessions_def)
    then show ?thesis using calm_inv [OF inv] Op_zone Some sh'(1) by simp
  qed
qed

lemma worker_fresh_inv: "(\<And>c. sh = Some c \<Longrightarrow> shm_inv live c) \<Longrightarrow> worker_inv live (worker_fresh sh)"
  by (simp add: worker_inv_def zone_ok_def ctx_ok_def reg_inv_def reg_lists_def reg_names_def worker_fresh_def)

lemma worker_reach_inv: "worker_reach live W \<Longrightarrow> worker_inv live W"
proof (induction rule: worker_reach.induct)
  case (fresh sh)
  then show ?case using shm_reach_inv worker_fresh_inv by blast
next
  case (step W E op W')
  then show ?case using worker_exec_runs [OF step.IH step.hyps(2,3)] by (simp add: runs_def)
qed

section \<open>A small run\<close>

text \<open>A slab that never runs out, a tree that picks the first match, and a process without a zone that
  answers one play offer at time 1.\<close>

definition plenty :: "u64 \<Rightarrow> nat list shm_env" where
  "plenty now = \<lparr>slab_alloc = \<lambda>req L. (Some (Suc (sum_list L)), Suc (sum_list L) # L), slab_free = removeAll, now_msec = now,
     random_ssrc = (1, 2), clock_us = (0, 0)\<rparr>"

definition demo_env :: "u64 \<Rightarrow> nat list worker_env" where
  "demo_env now = \<lparr>we_shm = plenty now, we_tree = \<lparr>ngx_crc32_long = \<lambda>_. 0, tree_pick = hd\<rparr>, ngx_worker = 0, we_event_ok = True,
     ready_timeout = 30000, handshake_timeout = 10000, we_hmac = toy_hmac\<rparr>"

definition demo_worker :: "nat list worker" where
  "demo_worker = the (worker_exec (Op_play (Some 1) (Some 2) [97] 102 111 0 0 [117] [112]) (demo_env 1) (worker_fresh None))"

lemma demo_env_ok: "now \<noteq> 0 \<Longrightarrow> worker_env_ok set (demo_env now)"
  using member_le_sum_list by (fastforce simp: worker_env_ok_def demo_env_def plenty_def slab_sound_def pick_sound_def)

lemma demo_run:
  "\<exists>t. worker_exec (Op_play (Some 1) (Some 2) [97] 102 111 0 0 [117] [112]) (demo_env 1) (worker_fresh None) = Some demo_worker
     \<and> w_sessions demo_worker 2 = Some t \<and> lse_source t = Some 1 \<and> lse_last_active t = 1 \<and> hsm_current_state (lse_fsm t) = Some S_session_new
     \<and> lse_sub_queue t = Q_self \<and> lse_conn t = None
     \<and> w_sh demo_worker = None \<and> w_stream_ctx demo_worker = Map.empty
     \<and> (\<forall>p. p \<noteq> 2 \<longrightarrow> w_sessions demo_worker p = None)"
proof -
  obtain sm where "ngx_rtc_session_fsm_init ngx_rtc_session_fsm_report_unhandled (Some fsm_zero) (Some [None, None]) 2 (Some 2) = Some (Some sm)"
    "hsm_current_state sm = Some S_session_new"
    using init_ok [of 2 "[None, None]"] by fastforce
  then obtain sm where sm: "session_fsm_new 2 = Some sm" "hsm_current_state sm = Some S_session_new"
    by (simp add: session_fsm_new_def ngx_rtc_session_fsm_set_reporter_def)
  show ?thesis
    unfolding demo_worker_def
    by (simp add: demo_env_def plenty_def worker_fresh_def rtc_play_register_def ngx_rtc_source_create_def ngx_rtc_source_lookup_def tree_lookup_def
        Let_def session_new_def sm ngx_rtc_session_add_def queue_insert_node_def set_session_def)
qed

lemma demo_reach: "worker_reach set demo_worker"
proof -
  have e: "worker_reach set (worker_fresh None)" by (rule worker_reach.fresh) simp
  obtain t where r: "worker_exec (Op_play (Some 1) (Some 2) [97] 102 111 0 0 [117] [112]) (demo_env 1) (worker_fresh None) = Some demo_worker"
    using demo_run by blast
  show ?thesis
    by (rule worker_reach.step [OF e _ _ r]) (simp_all add: demo_env_ok worker_fresh_def new_session_ok_def)
qed

section \<open>Properties\<close>






text \<open>A binding request for the user name \<^verbatim>\<open>u:x\<close> with a message integrity of zeros.\<close>

definition demo_request :: bytes where
  "demo_request = [0, 1, 0, 32, 0x21, 0x12, 0xA4, 0x42, 1, 2, 3, 4, 5, 6, 7, 8, 9, 10, 11, 12, 0, 6, 0, 3, 0x75, 0x3a, 0x78, 0, 0, 8, 0, 20]
     @ replicate 20 0"


end
