(* ===== verification/HttpJson.thy ===== *)
theory HttpJson
  imports Prelude
begin

text \<open>
  Reading a JSON string field out of a request body (\<^verbatim>\<open>ngx_rtc_chain_reader_*\<close> and
  \<^verbatim>\<open>ngx_rtc_http_json_string\<close> in \<^verbatim>\<open>ngx_rtc_http_module.c\<close>). The body is nginx's chain of buffers, so
  a field may be split anywhere; the reader delivers its octets one by one.
\<close>

section \<open>The chain and its reader\<close>

text \<open>A link whose \<^verbatim>\<open>buf\<close> is NULL is \<open>None\<close>; \<open>hb_data\<close> are the octets from \<^verbatim>\<open>pos\<close> to \<^verbatim>\<open>last\<close>.\<close>

record ngx_buf =
  hb_data :: bytes
  hb_in_file :: bool

type_synonym ngx_chain = "ngx_buf option list"

text \<open>\<open>rd_p\<close> is the distance from \<^verbatim>\<open>pos\<close> of the current buffer, or NULL.\<close>

record ngx_rtc_chain_reader =
  rd_cl :: ngx_chain
  rd_p :: "nat option"

definition start_of :: "ngx_chain \<Rightarrow> nat option" where
  "start_of cl = (case cl of Some _ # _ \<Rightarrow> Some 0 | _ \<Rightarrow> None)"

definition ngx_rtc_chain_reader_init :: "ngx_chain \<Rightarrow> ngx_rtc_chain_reader" where
  "ngx_rtc_chain_reader_init cl = \<lparr>rd_cl = cl, rd_p = start_of cl\<rparr>"

definition offset :: "nat option \<Rightarrow> nat" where
  "offset p = (case p of None \<Rightarrow> 0 | Some i \<Rightarrow> i)"

text \<open>The loop of \<^verbatim>\<open>ngx_rtc_chain_reader_get\<close>; \<open>None\<close> is \<^verbatim>\<open>NGX_ERROR\<close> at the end of the chain.\<close>

fun reader_loop :: "ngx_chain \<Rightarrow> nat option \<Rightarrow> (u8 \<times> ngx_rtc_chain_reader) option" where
  "reader_loop [] p = None"
| "reader_loop (None # cl) p = None"
| "reader_loop (Some b # cl) p =
     (if offset p < length (hb_data b) then Some (hb_data b ! offset p, \<lparr>rd_cl = Some b # cl, rd_p = Some (offset p + 1)\<rparr>)
      else reader_loop cl (start_of cl))"

definition ngx_rtc_chain_reader_get :: "ngx_rtc_chain_reader \<Rightarrow> (u8 \<times> ngx_rtc_chain_reader) option" where
  "ngx_rtc_chain_reader_get rd = reader_loop (rd_cl rd) (rd_p rd)"

text \<open>The octets of a chain, and those a reader has still to deliver.\<close>

fun chain_bytes :: "ngx_chain \<Rightarrow> bytes" where
  "chain_bytes (Some b # cl) = hb_data b @ chain_bytes cl"
| "chain_bytes _ = []"

definition unread :: "ngx_rtc_chain_reader \<Rightarrow> bytes" where
  "unread rd = (case rd_cl rd of Some b # cl \<Rightarrow> drop (offset (rd_p rd)) (hb_data b) @ chain_bytes cl | _ \<Rightarrow> [])"

lemma unread_init [simp]: "unread (ngx_rtc_chain_reader_init cl) = chain_bytes cl"
  by (cases cl rule: chain_bytes.cases) (simp_all add: unread_def ngx_rtc_chain_reader_init_def start_of_def offset_def)

lemma reader_loop_spec:
  "(case reader_loop cl p of None \<Rightarrow> unread \<lparr>rd_cl = cl, rd_p = p\<rparr> = [] | Some (c, rd) \<Rightarrow> unread \<lparr>rd_cl = cl, rd_p = p\<rparr> = c # unread rd)"
proof (induction cl p rule: reader_loop.induct)
  case (3 b cl p)
  show ?case
  proof (cases "offset p < length (hb_data b)")
    case True
    then show ?thesis by (simp add: unread_def offset_def Cons_nth_drop_Suc flip: append_Cons)
  next
    case False
    have "unread \<lparr>rd_cl = cl, rd_p = start_of cl\<rparr> = chain_bytes cl" using unread_init [of cl] by (simp add: ngx_rtc_chain_reader_init_def)
    moreover have "unread \<lparr>rd_cl = Some b # cl, rd_p = p\<rparr> = chain_bytes cl" using False by (simp add: unread_def)
    ultimately show ?thesis using 3 False by (simp split: option.splits prod.splits)
  qed
qed (simp_all add: unread_def)

lemma unread_fields [simp]: "unread \<lparr>rd_cl = rd_cl rd, rd_p = rd_p rd\<rparr> = unread rd"
  by (cases rd) simp

lemma get_None: "ngx_rtc_chain_reader_get rd = None \<longleftrightarrow> unread rd = []"
  using reader_loop_spec [of "rd_cl rd" "rd_p rd"] by (auto simp: ngx_rtc_chain_reader_get_def split: option.splits)

lemma get_Some: "ngx_rtc_chain_reader_get rd = Some (c, rd') \<Longrightarrow> unread rd = c # unread rd'"
  using reader_loop_spec [of "rd_cl rd" "rd_p rd"] by (simp add: ngx_rtc_chain_reader_get_def)

lemma get_Cons: "unread rd = c # cs \<Longrightarrow> \<exists>rd'. ngx_rtc_chain_reader_get rd = Some (c, rd') \<and> unread rd' = cs"
  using get_None [of rd] get_Some [of rd] by (cases "ngx_rtc_chain_reader_get rd") auto

lemma get_less [termination_simp]: "ngx_rtc_chain_reader_get rd = Some (c, rd') \<Longrightarrow> length (unread rd') < length (unread rd)"
  using get_Some by fastforce

section \<open>The field\<close>

text \<open>Skip to just past the next quote.\<close>

function json_quote :: "ngx_rtc_chain_reader \<Rightarrow> ngx_rtc_chain_reader option" where
  "json_quote rd =
     (case ngx_rtc_chain_reader_get rd of
        None \<Rightarrow> None
      | Some (ch, rd) \<Rightarrow> if ch = 0x22 then Some rd else json_quote rd)"
  by pat_completeness auto
termination by (relation "measure (\<lambda>rd. length (unread rd))") (auto dest: get_less)

fun json_key :: "bytes \<Rightarrow> ngx_rtc_chain_reader \<Rightarrow> ngx_rtc_chain_reader option" where
  "json_key [] rd = Some rd"
| "json_key (k # ks) rd =
     (case ngx_rtc_chain_reader_get rd of
        None \<Rightarrow> None
      | Some (ch, rd) \<Rightarrow> if ch \<noteq> k then None else json_key ks rd)"

text \<open>The next octet that is not a blank.\<close>

function json_skip :: "ngx_rtc_chain_reader \<Rightarrow> (u8 \<times> ngx_rtc_chain_reader) option" where
  "json_skip rd =
     (case ngx_rtc_chain_reader_get rd of
        None \<Rightarrow> None
      | Some (ch, rd) \<Rightarrow> if ch \<noteq> 0x20 \<and> ch \<noteq> 0x09 then Some (ch, rd) else json_skip rd)"
  by pat_completeness auto
termination by (relation "measure (\<lambda>rd. length (unread rd))") (auto dest: get_less)

definition json_unescape :: "u8 \<Rightarrow> u8" where
  "json_unescape ch = (if ch = 0x6e then 0x0a else if ch = 0x72 then 0x0d else if ch = 0x74 then 0x09 else ch)"

text \<open>The value up to its closing quote, stored from \<open>olen\<close> on; the error carries the buffer too.\<close>

function json_value :: "nat \<Rightarrow> bytes \<Rightarrow> nat \<Rightarrow> ngx_rtc_chain_reader \<Rightarrow> int \<times> bytes \<times> nat \<times> ngx_rtc_chain_reader" where
  "json_value out_cap out olen rd =
     (case ngx_rtc_chain_reader_get rd of
        None \<Rightarrow> (NGX_ERROR, out, olen, rd)
      | Some (ch, rd) \<Rightarrow>
          if ch = 0x22 then (NGX_OK, buf_put olen [0] out, olen, rd)
          else if olen + 1 \<ge> out_cap then (NGX_ERROR, out, olen, rd)
          else if ch = 0x5c
          then (case ngx_rtc_chain_reader_get rd of
                  None \<Rightarrow> (NGX_ERROR, out, olen, rd)
                | Some (ch, rd) \<Rightarrow> json_value out_cap (buf_put olen [json_unescape ch] out) (olen + 1) rd)
          else json_value out_cap (buf_put olen [ch] out) (olen + 1) rd)"
  by pat_completeness auto
termination by (relation "measure (\<lambda>(cap, out, olen, rd). length (unread rd))") (auto dest!: get_less)

declare json_quote.simps [simp del] json_skip.simps [simp del] json_value.simps [simp del]

lemma json_quote_less: "json_quote rd = Some rd' \<Longrightarrow> length (unread rd') < length (unread rd)"
proof (induction rd rule: json_quote.induct)
  case (1 rd)
  show ?case using 1(2) get_less [of rd] 1(1) by (subst (asm) json_quote.simps) (force split: option.splits prod.splits if_splits)
qed

text \<open>After the name: a colon and an opening quote, each after blanks.\<close>

definition json_after_name :: "nat \<Rightarrow> bytes \<Rightarrow> ngx_rtc_chain_reader \<Rightarrow> int \<times> bytes \<times> nat \<times> ngx_rtc_chain_reader" where
  "json_after_name out_cap out rd =
     (case json_skip rd of
        None \<Rightarrow> (NGX_ERROR, out, 0, rd)
      | Some (ch, rd) \<Rightarrow>
          if ch \<noteq> 0x3a then (NGX_ERROR, out, 0, rd)
          else (case json_skip rd of
                  None \<Rightarrow> (NGX_ERROR, out, 0, rd)
                | Some (ch, rd) \<Rightarrow> if ch \<noteq> 0x22 then (NGX_ERROR, out, 0, rd) else json_value out_cap out 0 rd))"

text \<open>The code, the caller's buffer, the length (meaningful on success) and the reader.\<close>

function ngx_rtc_http_json_string :: "ngx_rtc_chain_reader \<Rightarrow> bytes \<Rightarrow> bytes \<Rightarrow> nat \<Rightarrow> int \<times> bytes \<times> nat \<times> ngx_rtc_chain_reader" where
  "ngx_rtc_http_json_string rd key out out_cap =
     (case json_quote rd of
        None \<Rightarrow> (NGX_ERROR, out, 0, rd)
      | Some mark \<Rightarrow>
          (case json_key key mark of
             None \<Rightarrow> ngx_rtc_http_json_string mark key out out_cap
           | Some rd \<Rightarrow>
               (case ngx_rtc_chain_reader_get rd of
                  None \<Rightarrow> ngx_rtc_http_json_string mark key out out_cap
                | Some (ch, rd) \<Rightarrow>
                    if ch \<noteq> 0x22 then ngx_rtc_http_json_string mark key out out_cap
                    else json_after_name out_cap out rd)))"
  by pat_completeness auto
termination by (relation "measure (\<lambda>(rd, key, out, cap). length (unread rd))") (auto dest: json_quote_less)

declare ngx_rtc_http_json_string.simps [simp del]

section \<open>What is read\<close>

lemma json_quote_at: "unread rd = a @ 0x22 # b \<Longrightarrow> 0x22 \<notin> set a \<Longrightarrow> \<exists>rd'. json_quote rd = Some rd' \<and> unread rd' = b"
proof (induction a arbitrary: rd)
  case Nil
  then obtain rd' where "ngx_rtc_chain_reader_get rd = Some (0x22, rd')" "unread rd' = b" using get_Cons by fastforce
  then show ?case by (subst json_quote.simps) simp
next
  case (Cons c a)
  then obtain rd' where "ngx_rtc_chain_reader_get rd = Some (c, rd')" "unread rd' = a @ 0x22 # b" using get_Cons by fastforce
  then show ?case using Cons by (subst json_quote.simps) simp
qed

lemma json_key_at: "unread rd = key @ b \<Longrightarrow> \<exists>rd'. json_key key rd = Some rd' \<and> unread rd' = b"
proof (induction key arbitrary: rd)
  case (Cons c key)
  then obtain rd' where "ngx_rtc_chain_reader_get rd = Some (c, rd')" "unread rd' = key @ b" using get_Cons by fastforce
  then show ?case using Cons by simp
qed simp

lemma json_key_read: "json_key key rd = Some rd' \<Longrightarrow> unread rd = key @ unread rd'"
  by (induction key rd rule: json_key.induct) (auto dest: get_Some split: option.splits if_splits)

lemma json_skip_at:
  "unread rd = w @ c # b \<Longrightarrow> \<forall>x \<in> set w. x = 0x20 \<or> x = 0x09 \<Longrightarrow> c \<noteq> 0x20 \<Longrightarrow> c \<noteq> 0x09 \<Longrightarrow> \<exists>rd'. json_skip rd = Some (c, rd') \<and> unread rd' = b"
proof (induction w arbitrary: rd)
  case Nil
  then obtain rd' where "ngx_rtc_chain_reader_get rd = Some (c, rd')" "unread rd' = b" using get_Cons by fastforce
  then show ?case using Nil by (subst json_skip.simps) simp
next
  case (Cons x w)
  then obtain rd' where "ngx_rtc_chain_reader_get rd = Some (x, rd')" "unread rd' = w @ c # b" using get_Cons by fastforce
  then show ?case using Cons by (subst json_skip.simps) auto
qed

text \<open>The escapes that the reader knows.\<close>

definition json_escape1 :: "u8 \<Rightarrow> bytes" where
  "json_escape1 c = (if c = 0x22 \<or> c = 0x5c then [0x5c, c] else if c = 0x0a then [0x5c, 0x6e] else if c = 0x0d then [0x5c, 0x72]
     else if c = 0x09 then [0x5c, 0x74] else [c])"

definition json_escape :: "bytes \<Rightarrow> bytes" where
  "json_escape s = concat (map json_escape1 s)"

lemma json_value_step:
  assumes "unread rd = json_escape1 c @ b" "olen + 1 < cap"
  shows "\<exists>rd'. unread rd' = b \<and> json_value cap out olen rd = json_value cap (buf_put olen [c] out) (olen + 1) rd'"
proof (cases "json_escape1 c = [c]")
  case True
  then obtain rd' where r: "ngx_rtc_chain_reader_get rd = Some (c, rd')" "unread rd' = b" using assms(1) get_Cons by fastforce
  have "c \<noteq> 0x22 \<and> c \<noteq> 0x5c" using True by (auto simp: json_escape1_def split: if_splits)
  then show ?thesis using r assms(2) by (subst json_value.simps) auto
next
  case False
  then obtain d where d: "json_escape1 c = [0x5c, d]" "json_unescape d = c" by (auto simp: json_escape1_def json_unescape_def split: if_splits)
  then obtain rd1 where r1: "ngx_rtc_chain_reader_get rd = Some (0x5c, rd1)" "unread rd1 = d # b" using assms(1) get_Cons by fastforce
  then obtain rd' where "ngx_rtc_chain_reader_get rd1 = Some (d, rd')" "unread rd' = b" using get_Cons by fastforce
  then show ?thesis using r1 d(2) assms(2) by (subst json_value.simps) auto
qed

lemma json_value_at:
  assumes "unread rd = json_escape v @ 0x22 # b" "olen < cap" "cap \<le> length out"
  shows "\<exists>rd' out'. length out' = length out \<and>
    (if olen + length v < cap
     then json_value cap out olen rd = (NGX_OK, buf_put olen (v @ [0]) out, olen + length v, rd') \<and> unread rd' = b
     else \<exists>n. json_value cap out olen rd = (NGX_ERROR, out', n, rd'))"
  using assms
proof (induction v arbitrary: rd out olen)
  case Nil
  then obtain rd' where "ngx_rtc_chain_reader_get rd = Some (0x22, rd')" "unread rd' = b" using get_Cons by (fastforce simp: json_escape_def)
  then show ?case using Nil(2) by (subst (1 2) json_value.simps) auto
next
  case (Cons c v)
  have u: "unread rd = json_escape1 c @ json_escape v @ 0x22 # b" using Cons.prems(1) by (simp add: json_escape_def)
  show ?case
  proof (cases "olen + 1 < cap")
    case True
    obtain rd1 where r: "unread rd1 = json_escape v @ 0x22 # b" "json_value cap out olen rd = json_value cap (buf_put olen [c] out) (olen + 1) rd1"
      using json_value_step [OF u True] by blast
    have l: "length (buf_put olen [c] out) = length out" using Cons.prems by simp
    have p: "buf_put (olen + 1) (v @ [0]) (buf_put olen [c] out) = buf_put olen ((c # v) @ [0]) out" using Cons.prems by (simp add: buf_put_def add.commute)
    from Cons.IH [OF r(1) True, of "buf_put olen [c] out"] Cons.prems(3) show ?thesis unfolding l p r(2) by (simp cong: if_cong split del: if_split)
  next
    case False
    obtain x rd1 where x: "ngx_rtc_chain_reader_get rd = Some (x, rd1)" "x \<noteq> 0x22"
    proof (cases "json_escape1 c = [c]")
      case True
      then show ?thesis using get_Cons [of rd c] u that by (force simp: json_escape1_def split: if_splits)
    next
      case False
      then obtain d where "json_escape1 c = [0x5c, d]" by (auto simp: json_escape1_def split: if_splits)
      then show ?thesis using get_Cons [of rd "0x5c"] u that by force
    qed
    then have "json_value cap out olen rd = (NGX_ERROR, out, olen, rd1)" using False by (subst json_value.simps) simp
    then show ?thesis using False by auto
  qed
qed

definition json_field :: "bytes \<Rightarrow> bytes \<Rightarrow> bytes \<Rightarrow> bytes \<Rightarrow> bytes" where
  "json_field key w1 w2 v = 0x22 # key @ 0x22 # w1 @ 0x3a # w2 @ 0x22 # json_escape v @ [0x22]"

definition blanks :: "bytes \<Rightarrow> bool" where
  "blanks w \<longleftrightarrow> (\<forall>x \<in> set w. x = 0x20 \<or> x = 0x09)"

text \<open>The quoted name does not occur before the field.\<close>

definition first_name :: "bytes \<Rightarrow> bytes \<Rightarrow> bytes \<Rightarrow> bool" where
  "first_name key pre body \<longleftrightarrow> (\<forall>i < length pre. \<not> (\<exists>b. drop i body = 0x22 # key @ 0x22 # b))"

lemma json_after_name_at:
  assumes "unread rd = w1 @ 0x3a # w2 @ 0x22 # b" "blanks w1" "blanks w2"
  shows "\<exists>rd'. unread rd' = b \<and> json_after_name cap out rd = json_value cap out 0 rd'"
proof -
  obtain rd1 where 1: "json_skip rd = Some (0x3a, rd1)" "unread rd1 = w2 @ 0x22 # b" using json_skip_at [OF assms(1)] assms(2) by (auto simp: blanks_def)
  obtain rd2 where "json_skip rd1 = Some (0x22, rd2)" "unread rd2 = b" using json_skip_at [OF 1(2)] assms(3) by (auto simp: blanks_def)
  then show ?thesis using 1 by (auto simp: json_after_name_def)
qed

lemma split_quote: "0x22 \<in> set a \<Longrightarrow> \<exists>p q. a = p @ 0x22 # q \<and> (0x22 :: u8) \<notin> set p"
  using split_list_first by fastforce

lemma json_string_finds:
  assumes "unread rd = pre @ 0x22 # key @ 0x22 # b" "first_name key pre (unread rd)"
  shows "\<exists>rd'. unread rd' = b \<and> ngx_rtc_http_json_string rd key out cap = json_after_name cap out rd'"
  using assms
proof (induction "length pre" arbitrary: pre rd rule: less_induct)
  case less
  show ?case
  proof (cases "0x22 \<in> set pre")
    case False
    obtain m where m: "json_quote rd = Some m" "unread m = key @ 0x22 # b" using json_quote_at [OF less.prems(1) False] by blast
    obtain r1 where r1: "json_key key m = Some r1" "unread r1 = 0x22 # b" using json_key_at [OF m(2)] by blast
    obtain r2 where "ngx_rtc_chain_reader_get r1 = Some (0x22, r2)" "unread r2 = b" using get_Cons [OF r1(2)] by blast
    then show ?thesis using m r1 by (subst ngx_rtc_http_json_string.simps) auto
  next
    case True
    then obtain p q where pq: "pre = p @ 0x22 # q" "0x22 \<notin> set p" using split_quote by blast
    let ?t = "q @ 0x22 # key @ 0x22 # b"
    obtain m where m: "json_quote rd = Some m" "unread m = ?t" using json_quote_at [of rd p ?t] less.prems(1) pq by auto
    have no: "\<not> (\<exists>x. ?t = key @ 0x22 # x)" using less.prems pq unfolding first_name_def by (auto dest!: spec [of _ "length p"])
    have sk: "ngx_rtc_http_json_string rd key out cap = ngx_rtc_http_json_string m key out cap"
    proof (cases "json_key key m")
      case None
      then show ?thesis using m by (subst ngx_rtc_http_json_string.simps) simp
    next
      case (Some r1)
      then have u: "?t = key @ unread r1" using json_key_read m(2) by metis
      show ?thesis
      proof (cases "ngx_rtc_chain_reader_get r1")
        case None
        then show ?thesis using m Some by (subst ngx_rtc_http_json_string.simps) simp
      next
        case (Some y)
        then have "fst y \<noteq> 0x22" using no u get_Some [of r1 "fst y" "snd y"] by auto
        then show ?thesis using m Some \<open>json_key key m = Some r1\<close> by (subst ngx_rtc_http_json_string.simps) (auto split: prod.splits)
      qed
    qed
    have f: "first_name key q (unread m)"
      unfolding first_name_def m(2)
    proof (intro allI impI)
      fix i assume "i < length q"
      then have "\<not> (\<exists>x. drop (Suc (length p + i)) (unread rd) = 0x22 # key @ 0x22 # x)"
        using less.prems(2) unfolding first_name_def pq(1) by (auto dest!: spec [of _ "Suc (length p + i)"])
      moreover have "drop (Suc (length p + i)) (unread rd) = drop i ?t" using less.prems(1) pq(1) by simp
      ultimately show "\<not> (\<exists>x. drop i ?t = 0x22 # key @ 0x22 # x)" by simp
    qed
    from less.hyps [OF _ m(2) f] pq(1) show ?thesis unfolding sk by simp
  qed
qed



end
