(* ===== verification/Http.thy ===== *)
theory Http
  imports Worker HttpJson Sdp
begin

text \<open>
  The HTTP signalling handlers (\<^verbatim>\<open>ngx_rtc_http_module.c\<close>): play, WHIP, kick and disconnect, from the request to the
  response, over the process and zone of the theory \<open>Worker\<close>. nginx's own helpers (argument lookup, URI and JSON
  escaping, string search, printing, the pools) are parameters. Log output is left out.
\<close>

section \<open>Requests\<close>

abbreviation NGX_HTTP_OK :: int where "NGX_HTTP_OK \<equiv> 200"
abbreviation NGX_HTTP_BAD_REQUEST :: int where "NGX_HTTP_BAD_REQUEST \<equiv> 400"
abbreviation NGX_HTTP_NOT_FOUND :: int where "NGX_HTTP_NOT_FOUND \<equiv> 404"
abbreviation NGX_HTTP_NOT_ALLOWED :: int where "NGX_HTTP_NOT_ALLOWED \<equiv> 405"
abbreviation NGX_HTTP_REQUEST_ENTITY_TOO_LARGE :: int where "NGX_HTTP_REQUEST_ENTITY_TOO_LARGE \<equiv> 413"
abbreviation NGX_HTTP_SERVICE_UNAVAILABLE :: int where "NGX_HTTP_SERVICE_UNAVAILABLE \<equiv> 503"
abbreviation NGX_CONF_UNSET :: int where "NGX_CONF_UNSET \<equiv> - 1"
abbreviation NGX_RTC_DEFAULT_MAX_SDP_LEN :: nat where "NGX_RTC_DEFAULT_MAX_SDP_LEN \<equiv> 65536"
abbreviation NGX_RTC_SOURCE_NAME_MAX :: nat where "NGX_RTC_SOURCE_NAME_MAX \<equiv> 128"

text \<open>\<open>rq_body\<close> is \<^verbatim>\<open>r->request_body\<close>: its chain (empty for NULL) and whether it has a temporary file.
  \<open>rq_arg\<close> is \<^verbatim>\<open>ngx_http_arg\<close>.\<close>

record ngx_http_request =
  rq_post :: bool
  rq_body :: "(ngx_chain \<times> bool) option"
  rq_arg :: "string \<Rightarrow> bytes option"

text \<open>The location configuration; an unset length is \<open>None\<close>.\<close>

record ngx_rtc_http_loc_conf =
  candidate_ip :: "bytes option"
  candidate_port :: int
  max_sdp_len :: "nat option"

text \<open>
  \<open>h_strnstr\<close> and \<open>h_strlchr\<close> give the offset of what they find; \<open>h_print\<close> is the C string that the 128-octet array
  \<^verbatim>\<open>name\<close> holds after \<^verbatim>\<open>ngx_snprintf(name, 127, "%s/%s%Z", app, stream)\<close>; \<open>h_sps\<close> is the source's profile-level-id when valid.
\<close>

record http_env =
  h_conf :: ngx_rtc_http_loc_conf
  client_body_buffer_size :: nat
  h_pnalloc :: "nat \<Rightarrow> bool"
  h_temp_buf :: bool
  h_strnstr :: "bytes \<Rightarrow> bytes \<Rightarrow> nat option"
  h_strlchr :: "bytes \<Rightarrow> u8 \<Rightarrow> nat option"
  h_print :: "bytes \<Rightarrow> bytes \<Rightarrow> bytes"
  h_unescape_uri :: "bytes \<Rightarrow> bytes"
  h_escape_json :: "bytes \<Rightarrow> bytes"
  h_atoi :: "bytes \<Rightarrow> int"
  h_fingerprint :: "bytes option"
  h_sps :: "bytes option"

definition ngx_rtc_http_create_loc_conf :: "bool \<Rightarrow> ngx_rtc_http_loc_conf option" where
  "ngx_rtc_http_create_loc_conf alloc =
     (if alloc then Some \<lparr>candidate_ip = None, candidate_port = NGX_CONF_UNSET, max_sdp_len = None\<rparr> else None)"

definition ngx_rtc_http_max_sdp :: "http_env \<Rightarrow> nat" where
  "ngx_rtc_http_max_sdp H =
     (let cap = (case max_sdp_len (h_conf H) of None \<Rightarrow> NGX_RTC_DEFAULT_MAX_SDP_LEN | Some n \<Rightarrow> n)
      in if client_body_buffer_size H \<noteq> 0 \<and> cap > client_body_buffer_size H then client_body_buffer_size H else cap)"

text \<open>The length of the body and whether a part of it is on disk.\<close>

fun body_length :: "ngx_chain \<Rightarrow> nat \<Rightarrow> nat \<times> bool" where
  "body_length [] n = (n, False)"
| "body_length (None # cl) n = body_length cl n"
| "body_length (Some b # cl) n = (if hb_in_file b then (n, True) else body_length cl (n + length (hb_data b)))"

text \<open>The code and the decoded value.\<close>

definition ngx_rtc_http_arg_decoded :: "http_env \<Rightarrow> ngx_http_request \<Rightarrow> string \<Rightarrow> int \<times> bytes" where
  "ngx_rtc_http_arg_decoded H r name =
     (case rq_arg r name of
        None \<Rightarrow> (NGX_DECLINED, [])
      | Some v \<Rightarrow>
          if v = [] then (NGX_OK, v)
          else if \<not> h_pnalloc H (length v) then (NGX_ERROR, v)
          else (NGX_OK, h_unescape_uri H v))"

text \<open>\<^verbatim>\<open>webrtc://host/app/stream\<close> to the name of the source, or \<open>None\<close> for a 400.\<close>

definition streamurl_name :: "http_env \<Rightarrow> bytes \<Rightarrow> bytes option" where
  "streamurl_name H su =
     (case h_strnstr H su (ascii ''://'') of
        None \<Rightarrow> None
      | Some i \<Rightarrow>
          (case h_strlchr H (drop (i + 3) su) 0x2f of
             None \<Rightarrow> None
           | Some j \<Rightarrow>
               (let app = drop (i + 3 + j + 1) su in
                case h_strlchr H app 0x2f of
                  None \<Rightarrow> None
                | Some k \<Rightarrow>
                    (let stream = cstr (drop (k + 1) app); app = cstr (take k app)
                     in if length app = 0 \<or> length stream = 0 \<or> length app + length stream + 2 > NGX_RTC_SOURCE_NAME_MAX then None
                        else Some (h_print H app stream)))))"

text \<open>The request body as it is accepted: in memory and within the cap, or the status of the refusal.\<close>

definition request_body :: "http_env \<Rightarrow> ngx_http_request \<Rightarrow> int + ngx_chain" where
  "request_body H r =
     (case rq_body r of
        None \<Rightarrow> Inl NGX_HTTP_BAD_REQUEST
      | Some (bufs, temp_file) \<Rightarrow>
          if bufs = [] then Inl (if temp_file then NGX_HTTP_REQUEST_ENTITY_TOO_LARGE else NGX_HTTP_BAD_REQUEST) else Inr bufs)"

definition body_capped :: "http_env \<Rightarrow> ngx_chain \<Rightarrow> int + nat" where
  "body_capped H bufs =
     (case body_length bufs 0 of
        (len, on_disk) \<Rightarrow>
          if on_disk \<or> len > ngx_rtc_http_max_sdp H then Inl NGX_HTTP_REQUEST_ENTITY_TOO_LARGE
          else if \<not> h_pnalloc H (len + 1) then Inl NGX_HTTP_INTERNAL_SERVER_ERROR
          else Inr len)"

text \<open>The offer of a request: its name and its parsed text. Fresh buffers hold zeros; what they hold is not read.\<close>

definition offer_of :: "bytes \<Rightarrow> int + ngx_rtc_sdp_offer" where
  "offer_of sdp =
     (case ngx_rtc_sdp_parse_offer (Some sdp) (Some offer_zero) of
        (rc, Some offer) \<Rightarrow> if rc \<noteq> NGX_RTC_OK then Inl NGX_HTTP_BAD_REQUEST else Inr offer
      | _ \<Rightarrow> Inl NGX_HTTP_BAD_REQUEST)"

definition play_request :: "http_env \<Rightarrow> ngx_http_request \<Rightarrow> int + bytes \<times> ngx_rtc_sdp_offer" where
  "play_request H r =
     and_then (request_body H r) (\<lambda>bufs.
     and_then (body_capped H bufs) (\<lambda>body_len.
       case ngx_rtc_http_json_string (ngx_rtc_chain_reader_init bufs) (ascii ''sdp'') (replicate (body_len + 1) 0) (body_len + 1) of
         (rc, sdp, sdp_len, _) \<Rightarrow>
           if rc \<noteq> NGX_OK then Inl NGX_HTTP_BAD_REQUEST
           else (case ngx_rtc_http_json_string (ngx_rtc_chain_reader_init bufs) (ascii ''streamurl'') (replicate 256 0) 256 of
                   (rc, streamurl, su_len, _) \<Rightarrow>
                     if rc \<noteq> NGX_OK then Inl NGX_HTTP_BAD_REQUEST
                     else (case streamurl_name H (take su_len streamurl) of
                             None \<Rightarrow> Inl NGX_HTTP_BAD_REQUEST
                           | Some name \<Rightarrow> and_then (offer_of (take sdp_len sdp)) (\<lambda>offer. Inr (name, offer))))))"

fun body_copy :: "ngx_chain \<Rightarrow> bytes" where
  "body_copy [] = []"
| "body_copy (None # cl) = body_copy cl"
| "body_copy (Some b # cl) = hb_data b @ body_copy cl"

definition whip_request :: "http_env \<Rightarrow> ngx_http_request \<Rightarrow> int + bytes \<times> ngx_rtc_sdp_offer" where
  "whip_request H r =
     and_then (request_body H r) (\<lambda>bufs.
       case (ngx_rtc_http_arg_decoded H r ''app'', ngx_rtc_http_arg_decoded H r ''stream'') of
         ((rc1, app), (rc2, stream)) \<Rightarrow>
           if rc1 \<noteq> NGX_OK \<or> rc2 \<noteq> NGX_OK \<or> length app = 0 \<or> length stream = 0 \<or> length app + length stream + 1 \<ge> NGX_RTC_SOURCE_NAME_MAX
           then Inl NGX_HTTP_BAD_REQUEST
           else and_then (body_capped H bufs) (\<lambda>sdp_len.
                and_then (offer_of (body_copy bufs)) (\<lambda>offer. Inr (cstr (app @ 0x2f # stream), offer))))"

section \<open>Answers\<close>

definition answer_candidate :: "http_env \<Rightarrow> bytes" where
  "answer_candidate H =
     (case candidate_ip (h_conf H) of
        None \<Rightarrow> ascii ''127.0.0.1''
      | Some ip \<Rightarrow> if length ip = 0 \<or> length ip \<ge> NGX_RTC_SDP_STR_LEN then ascii ''127.0.0.1'' else cstr ip)"

definition hex_digit :: "u8 \<Rightarrow> u8" where
  "hex_digit n = ascii ''0123456789abcdef'' ! unat n"

definition profile_fmtp :: "bytes \<Rightarrow> bytes" where
  "profile_fmtp sps =
     ascii ''level-asymmetry-allowed=1;packetization-mode=1;profile-level-id=''
       @ concat (map (\<lambda>k. [hex_digit (drop_bit 4 (sps ! k)), hex_digit (sps ! k AND 0x0f)]) [0, 1, 2])"

text \<open>What play and WHIP put into their answers alike.\<close>

definition answer_common :: "http_env \<Rightarrow> ngx_rtc_sdp_offer \<Rightarrow> local_source \<Rightarrow> local_session \<Rightarrow> ngx_rtc_sdp_answer" where
  "answer_common H offer src sess =
     answer_default\<lparr>an_ice_ufrag := Some (lse_ice_ufrag sess), an_ice_pwd := Some (lse_ice_pwd sess), an_fingerprint_algo := Some (ascii ''sha-256''),
       an_fingerprint := h_fingerprint H, an_setup := Some (ascii ''passive''), an_candidate_ip := Some (answer_candidate H),
       an_candidate_port := (if candidate_port (h_conf H) = NGX_CONF_UNSET then 8000 else word_of_int (candidate_port (h_conf H))),
       an_video_ssrc := ls_video_ssrc src, an_audio_ssrc := ls_audio_ssrc src, an_video_pt := lse_video_pt sess, an_audio_pt := lse_audio_pt sess,
       an_media_type := of_media_type offer, an_media_mid := of_media_mid offer, an_video_twcc_ext := of_video_twcc_ext offer,
       an_audio_twcc_ext := of_audio_twcc_ext offer, an_video_twcc_uri := Some (cstr (of_video_twcc_uri offer)),
       an_audio_twcc_uri := Some (cstr (of_audio_twcc_uri offer))\<rparr>"

definition play_answer :: "http_env \<Rightarrow> ngx_rtc_sdp_offer \<Rightarrow> local_source \<Rightarrow> local_session \<Rightarrow> ngx_rtc_sdp_answer" where
  "play_answer H offer src sess =
     (let cfg = answer_common H offer src sess
      in case h_sps H of None \<Rightarrow> cfg | Some sps \<Rightarrow> cfg\<lparr>an_video_fmtp := Some (profile_fmtp sps)\<rparr>)"

definition whip_answer :: "http_env \<Rightarrow> ngx_rtc_sdp_offer \<Rightarrow> local_source \<Rightarrow> local_session \<Rightarrow> ngx_rtc_sdp_answer" where
  "whip_answer H offer src sess = (answer_common H offer src sess)\<lparr>an_sendonly := - 1\<rparr>"

text \<open>The answer text in a 4096-octet buffer, or \<open>None\<close> when it does not fit.\<close>

definition answer_bytes :: "ngx_rtc_sdp_answer \<Rightarrow> bytes option" where
  "answer_bytes cfg =
     (case ngx_rtc_sdp_generate_answer (Some cfg) (Some (replicate 4096 0)) 4096 (Some 0) of
        (rc, Some buf, Some len) \<Rightarrow> if rc = NGX_RTC_OK then Some (take len buf) else None
      | _ \<Rightarrow> None)"

definition play_json :: "http_env \<Rightarrow> bytes \<Rightarrow> bytes" where
  "play_json H ans = ascii ''{\"code\":0,\"sdp\":\"'' @ h_escape_json H ans @ ascii ''\"}''"

section \<open>Handlers\<close>

text \<open>\<^verbatim>\<open>ngx_rtc_http_play_handler\<close> and \<^verbatim>\<open>ngx_rtc_http_whip_handler\<close> refuse other methods and read the body; the result is
  the status with the response body. A response whose buffer cannot be made is finalized with 500.\<close>

definition ngx_rtc_http_body_handler ::
  "'m worker_env \<Rightarrow> http_env \<Rightarrow> nat option \<Rightarrow> nat option \<Rightarrow> bytes \<Rightarrow> bytes \<Rightarrow> 'm worker \<Rightarrow> ngx_http_request \<Rightarrow> ((int \<times> bytes) \<times> 'm worker) option" where
  "ngx_rtc_http_body_handler E H newsrc newsess ufrag pwd W r =
     (case play_request H r of
        Inl status \<Rightarrow> Some ((status, []), W)
      | Inr (name, offer) \<Rightarrow>
          do { (sessp, W) \<leftarrow> rtc_play_register E newsrc newsess W name (of_video_pt offer) (of_audio_pt offer)
                               (of_video_twcc_ext offer) (of_audio_twcc_ext offer) ufrag pwd;
               (case sessp of
                  None \<Rightarrow> Some ((NGX_HTTP_INTERNAL_SERVER_ERROR, []), W)
                | Some p \<Rightarrow>
                    do { sess \<leftarrow> w_sessions W p; q \<leftarrow> lse_source sess; src \<leftarrow> w_sources W q;
                         (case answer_bytes (play_answer H offer src sess) of
                            None \<Rightarrow> Some ((NGX_HTTP_INTERNAL_SERVER_ERROR, []), W)
                          | Some ans \<Rightarrow>
                              if \<not> h_pnalloc H (length (play_json H ans) + 1) then Some ((NGX_HTTP_INTERNAL_SERVER_ERROR, []), W)
                              else if \<not> h_temp_buf H then Some ((NGX_HTTP_INTERNAL_SERVER_ERROR, []), W)
                              else Some ((NGX_HTTP_OK, play_json H ans), W)) }) })"

definition ngx_rtc_http_play_handler ::
  "'m worker_env \<Rightarrow> http_env \<Rightarrow> nat option \<Rightarrow> nat option \<Rightarrow> bytes \<Rightarrow> bytes \<Rightarrow> 'm worker \<Rightarrow> ngx_http_request \<Rightarrow> ((int \<times> bytes) \<times> 'm worker) option" where
  "ngx_rtc_http_play_handler E H newsrc newsess ufrag pwd W r =
     (if \<not> rq_post r then Some ((NGX_HTTP_NOT_ALLOWED, []), W) else ngx_rtc_http_body_handler E H newsrc newsess ufrag pwd W r)"

text \<open>
  The answer of a WHIP publish is made from the state in which the session is registered; when it cannot be made, the
  registration is rolled back, which \<open>rtc_whip_register\<close> does for the flag \<open>made\<close>.
\<close>

definition whip_answer_at :: "http_env \<Rightarrow> ngx_rtc_sdp_offer \<Rightarrow> nat option \<Rightarrow> 'm worker \<Rightarrow> bytes option" where
  "whip_answer_at H offer newsess W =
     do { p \<leftarrow> newsess; sess \<leftarrow> w_sessions W p; q \<leftarrow> lse_source sess; src \<leftarrow> w_sources W q; answer_bytes (whip_answer H offer src sess) }"

definition ngx_rtc_http_whip_body_handler ::
  "'m worker_env \<Rightarrow> http_env \<Rightarrow> nat option \<Rightarrow> nat option \<Rightarrow> bytes \<Rightarrow> bytes \<Rightarrow> 'm worker \<Rightarrow> ngx_http_request \<Rightarrow> ((int \<times> bytes) \<times> 'm worker) option" where
  "ngx_rtc_http_whip_body_handler E H newsrc newsess ufrag pwd W r =
     (case whip_request H r of
        Inl status \<Rightarrow> Some ((status, []), W)
      | Inr (name, offer) \<Rightarrow>
          (let register = (\<lambda>made. rtc_whip_register E newsrc newsess made W name (of_video_pt offer) (of_audio_pt offer)
                                    (of_video_twcc_ext offer) (of_audio_twcc_ext offer) ufrag pwd)
           in do { (rc, W1) \<leftarrow> register True;
                   let ans = (if rc = NGX_HTTP_CREATED then whip_answer_at H offer newsess W1 else None);
                   (rc, W) \<leftarrow> register (ans \<noteq> None \<and> h_temp_buf H);
                   Some ((rc, if rc = NGX_HTTP_CREATED then the ans else []), W) }))"

definition ngx_rtc_http_whip_handler ::
  "'m worker_env \<Rightarrow> http_env \<Rightarrow> nat option \<Rightarrow> nat option \<Rightarrow> bytes \<Rightarrow> bytes \<Rightarrow> 'm worker \<Rightarrow> ngx_http_request \<Rightarrow> ((int \<times> bytes) \<times> 'm worker) option" where
  "ngx_rtc_http_whip_handler E H newsrc newsess ufrag pwd W r =
     (if \<not> rq_post r then Some ((NGX_HTTP_NOT_ALLOWED, []), W) else ngx_rtc_http_whip_body_handler E H newsrc newsess ufrag pwd W r)"

definition ngx_rtc_http_kick_handler :: "http_env \<Rightarrow> 'm worker \<Rightarrow> ngx_http_request \<Rightarrow> (int \<times> 'm worker) option" where
  "ngx_rtc_http_kick_handler H W r =
     (if \<not> rq_post r then Some (NGX_HTTP_NOT_ALLOWED, W)
      else (case ngx_rtc_http_arg_decoded H r ''id'' of
              (rc, val) \<Rightarrow>
                if rc \<noteq> NGX_OK then Some (NGX_HTTP_BAD_REQUEST, W)
                else if h_atoi H val = NGX_ERROR \<or> h_atoi H val \<le> 0 then Some (NGX_HTTP_BAD_REQUEST, W)
                else if w_sh W = None then Some (NGX_HTTP_SERVICE_UNAVAILABLE, W)
                else do { (rc, W) \<leftarrow> on_zone (\<lambda>sh. ngx_rtc_shm_session_request_close sh (word_of_int (h_atoi H val))) W;
                          Some (if rc \<noteq> NGX_OK then NGX_HTTP_NOT_FOUND else NGX_OK, W) }))"

definition ngx_rtc_http_disconnect_handler :: "http_env \<Rightarrow> 'm worker \<Rightarrow> ngx_http_request \<Rightarrow> (int \<times> 'm worker) option" where
  "ngx_rtc_http_disconnect_handler H W r =
     (if \<not> rq_post r then Some (NGX_HTTP_NOT_ALLOWED, W)
      else (case ngx_rtc_http_arg_decoded H r ''name'' of
              (rc, val) \<Rightarrow>
                if rc \<noteq> NGX_OK then Some (NGX_HTTP_BAD_REQUEST, W)
                else if length val = 0 then Some (NGX_HTTP_BAD_REQUEST, W)
                else if w_sh W = None then Some (NGX_HTTP_SERVICE_UNAVAILABLE, W)
                else do { (rc, W) \<leftarrow> on_zone (\<lambda>sh. ngx_rtc_shm_source_request_close sh (Some val)) W;
                          Some (if rc \<noteq> NGX_OK then NGX_HTTP_NOT_FOUND else NGX_OK, W) }))"

end
