(* ===== verification/HttpSafe.thy ===== *)
theory HttpSafe
  imports Http WorkerLife SdpText
begin

text \<open>
  The signalling handlers on every request: they complete, keep the worker's invariant, leave everything as it was when the
  request is refused, and answer an accepted offer with exactly its answer text.
\<close>

definition client_errors :: "int set" where
  "client_errors = {NGX_HTTP_BAD_REQUEST, NGX_HTTP_NOT_ALLOWED, NGX_HTTP_REQUEST_ENTITY_TOO_LARGE}"

lemma http_codes: "NGX_HTTP_INTERNAL_SERVER_ERROR \<notin> client_errors" "NGX_HTTP_CREATED \<notin> client_errors" "NGX_HTTP_OK \<notin> client_errors"
  "NGX_HTTP_INTERNAL_SERVER_ERROR \<noteq> NGX_HTTP_OK"
  by (simp_all add: client_errors_def NGX_HTTP_INTERNAL_SERVER_ERROR_def NGX_HTTP_CREATED_def)

definition refusal :: "int \<Rightarrow> bool" where
  "refusal st \<longleftrightarrow> st \<in> client_errors \<or> st = NGX_HTTP_INTERNAL_SERVER_ERROR"

lemma refusal_not: "refusal st \<Longrightarrow> st \<noteq> NGX_HTTP_OK \<and> st \<noteq> NGX_HTTP_CREATED"
  by (auto simp: refusal_def client_errors_def NGX_HTTP_INTERNAL_SERVER_ERROR_def NGX_HTTP_CREATED_def)

lemma refuse_simps [simp]: "refusal NGX_HTTP_BAD_REQUEST" "refusal NGX_HTTP_NOT_ALLOWED" "refusal NGX_HTTP_REQUEST_ENTITY_TOO_LARGE"
  "refusal NGX_HTTP_INTERNAL_SERVER_ERROR"
  by (simp_all add: refusal_def client_errors_def)

lemma and_then_Inl: "and_then x f = Inl st \<longleftrightarrow> x = Inl st \<or> (\<exists>y. x = Inr y \<and> f y = Inl st)"
  by (cases x) (simp_all add: and_then_def)

lemma offer_of_refuses: "offer_of sdp = Inl st \<Longrightarrow> refusal st"
  by (auto simp: offer_of_def split: prod.splits option.splits if_splits)

lemma body_refuses: "request_body H r = Inl st \<Longrightarrow> refusal st" "body_capped H bufs = Inl st \<Longrightarrow> refusal st"
  by (auto simp: request_body_def body_capped_def split: option.splits prod.splits if_splits)

lemma play_request_refuses: "play_request H r = Inl st \<Longrightarrow> refusal st"
proof -
  assume w: "play_request H r = Inl st"
  show ?thesis
  proof (cases "request_body H r")
    case (Inl e)
    then show ?thesis using w body_refuses(1) by (simp add: play_request_def and_then_def)
  next
    case (Inr bufs)
    show ?thesis
    proof (cases "body_capped H bufs")
      case (Inl e)
      then show ?thesis using w \<open>request_body H r = Inr bufs\<close> body_refuses(2) by (simp add: play_request_def and_then_def)
    next
      case (Inr n)
      obtain rc1 sdp l1 x1 where j1: "ngx_rtc_http_json_string (ngx_rtc_chain_reader_init bufs) (ascii ''sdp'') (replicate (n + 1) 0) (n + 1) = (rc1, sdp, l1, x1)"
        by (rule prod_cases4)
      obtain rc2 su l2 x2 where j2: "ngx_rtc_http_json_string (ngx_rtc_chain_reader_init bufs) (ascii ''streamurl'') (replicate 256 0) 256 = (rc2, su, l2, x2)"
        by (rule prod_cases4)
      show ?thesis using w unfolding play_request_def Inr \<open>request_body H r = Inr bufs\<close> and_then_def sum.case j1 j2 prod.case
        by (auto split: if_splits option.splits sum.splits dest: offer_of_refuses)
    qed
  qed
qed

lemma whip_request_refuses: "whip_request H r = Inl st \<Longrightarrow> refusal st"
proof -
  assume w: "whip_request H r = Inl st"
  obtain rc1 app rc2 stream where a: "ngx_rtc_http_arg_decoded H r ''app'' = (rc1, app)" "ngx_rtc_http_arg_decoded H r ''stream'' = (rc2, stream)"
    by (meson surj_pair)
  show ?thesis using w unfolding whip_request_def a by (auto simp: and_then_Inl dest: body_refuses offer_of_refuses split: if_splits)
qed

lemma answer_bytes_exact:
  "answer_bytes cfg = (if length (answer_text cfg) < 4096 then Some (answer_text cfg) else None)"
proof -
  obtain buf' where b: "if length (answer_text cfg) < 4096
     then ngx_rtc_sdp_generate_answer (Some cfg) (Some (replicate 4096 0)) 4096 (Some 0) = (NGX_RTC_OK, Some buf', Some (length (answer_text cfg)))
          \<and> take (length (answer_text cfg)) buf' = answer_text cfg
     else ngx_rtc_sdp_generate_answer (Some cfg) (Some (replicate 4096 0)) 4096 (Some 0) = (NGX_RTC_ERR_TOO_SMALL, Some buf', Some 0)"
    using generate_answer_exact [of 4096 "replicate 4096 0" cfg 0] unfolding length_replicate by blast
  show ?thesis
  proof (cases "length (answer_text cfg) < 4096")
    case True
    then show ?thesis using b unfolding answer_bytes_def by simp
  next
    case False
    then show ?thesis using b unfolding answer_bytes_def by simp
  qed
qed

text \<open>What a play request does.\<close>

definition play_outcome ::
  "('m \<Rightarrow> nat set) \<Rightarrow> http_env \<Rightarrow> nat option \<Rightarrow> bytes \<Rightarrow> 'm worker \<Rightarrow> ngx_http_request \<Rightarrow> (int \<times> bytes) \<times> 'm worker \<Rightarrow> bool" where
  "play_outcome live H newsess ufrag W r = (\<lambda>((st, resp), W'). worker_inv live W'
     \<and> (st = NGX_HTTP_OK \<or> refusal st) \<and> (st \<in> client_errors \<longrightarrow> W' = W)
     \<and> (w_sessions W' = w_sessions W \<or> (\<exists>p. newsess = Some p \<and> registered W W' p ufrag))
     \<and> (st = NGX_HTTP_OK \<longrightarrow> (\<exists>name offer p t q src. play_request H r = Inr (name, offer) \<and> newsess = Some p \<and> w_sessions W' = (w_sessions W)(p \<mapsto> t)
          \<and> lse_ice_ufrag t = ufrag \<and> lse_source t = Some q \<and> w_sources W' q = Some src \<and> resp = play_json H (answer_text (play_answer H offer src t)))))"

lemma play_handler_runs:
  assumes inv: "worker_inv live W" and E: "worker_env_ok live E" and new: "fresh_source W newsrc" "new_session_ok W newsess ufrag"
  shows "runs (play_outcome live H newsess ufrag W r) (ngx_rtc_http_play_handler E H newsrc newsess ufrag pwd W r)"
proof (cases "rq_post r")
  case False
  then show ?thesis using inv by (simp add: ngx_rtc_http_play_handler_def play_outcome_def)
next
  case True
  show ?thesis
  proof (cases "play_request H r")
    case (Inl st)
    then show ?thesis using True inv play_request_refuses [OF Inl] refusal_not
      by (auto simp: ngx_rtc_http_play_handler_def ngx_rtc_http_body_handler_def play_outcome_def)
  next
    case (Inr y)
    obtain name offer where y: "y = (name, offer)" by (cases y)
    let ?reg = "rtc_play_register E newsrc newsess W name (of_video_pt offer) (of_audio_pt offer) (of_video_twcc_ext offer) (of_audio_twcc_ext offer) ufrag pwd"
    obtain sp W' where reg: "?reg = Some (sp, W')" "worker_inv live W'"
      "case sp of None \<Rightarrow> w_sessions W' = w_sessions W | Some p \<Rightarrow> newsess = Some p \<and> registered W W' p ufrag"
      using rtc_play_runs [OF inv E new] by (fastforce simp: runs_def)
    show ?thesis
    proof (cases sp)
      case None
      then show ?thesis using True Inr y reg http_codes
        by (simp add: ngx_rtc_http_play_handler_def ngx_rtc_http_body_handler_def play_outcome_def)
    next
      case (Some p)
      then obtain t q where t: "newsess = Some p" "registered W W' p ufrag" "w_sessions W' = (w_sessions W)(p \<mapsto> t)" "lse_ice_ufrag t = ufrag" "lse_source t = Some q"
        using reg(3) by (auto simp: registered_def)
      have tp: "w_sessions W' p = Some t" using t(3) by simp
      obtain src where src: "w_sources W' q = Some src" using reg_session_source [OF worker_invD(1) [OF reg(2)] tp t(5)] by blast
      let ?cfg = "play_answer H offer src t"
      have "ngx_rtc_http_play_handler E H newsrc newsess ufrag pwd W r =
          (if length (answer_text ?cfg) < 4096 \<and> h_pnalloc H (length (play_json H (answer_text ?cfg)) + 1) \<and> h_temp_buf H
           then Some ((NGX_HTTP_OK, play_json H (answer_text ?cfg)), W') else Some ((NGX_HTTP_INTERNAL_SERVER_ERROR, []), W'))"
        using True Inr y reg(1) Some tp t(5) src by (simp add: ngx_rtc_http_play_handler_def ngx_rtc_http_body_handler_def answer_bytes_exact)
      moreover have "\<exists>name offer p t q src. play_request H r = Inr (name, offer) \<and> newsess = Some p \<and> w_sessions W' = (w_sessions W)(p \<mapsto> t)
          \<and> lse_ice_ufrag t = ufrag \<and> lse_source t = Some q \<and> w_sources W' q = Some src
          \<and> play_json H (answer_text ?cfg) = play_json H (answer_text (play_answer H offer src t))"
        using Inr y t src by blast
      ultimately show ?thesis using reg(2) t(1,2) http_codes by (simp add: play_outcome_def)
    qed
  qed
qed

definition whip_http_outcome ::
  "('m \<Rightarrow> nat set) \<Rightarrow> http_env \<Rightarrow> nat option \<Rightarrow> bytes \<Rightarrow> 'm worker \<Rightarrow> ngx_http_request \<Rightarrow> (int \<times> bytes) \<times> 'm worker \<Rightarrow> bool" where
  "whip_http_outcome live H newsess ufrag W r = (\<lambda>((st, resp), W'). worker_inv live W'
     \<and> (\<not> rq_post r \<or> whip_request H r = Inl st \<longrightarrow> refusal st \<and> W' = W)
     \<and> (if st = NGX_HTTP_CREATED then \<exists>p. newsess = Some p \<and> registered W W' p ufrag else w_sessions W' = w_sessions W))"

lemma whip_handler_runs:
  assumes inv: "worker_inv live W" and E: "worker_env_ok live E" and new: "fresh_source W newsrc" "new_session_ok W newsess ufrag"
  shows "runs (whip_http_outcome live H newsess ufrag W r) (ngx_rtc_http_whip_handler E H newsrc newsess ufrag pwd W r)"
proof (cases "rq_post r")
  case False
  then show ?thesis using inv refusal_not [OF refuse_simps(2)] by (simp add: ngx_rtc_http_whip_handler_def whip_http_outcome_def)
next
  case True
  show ?thesis
  proof (cases "whip_request H r")
    case (Inl st)
    then show ?thesis using True inv whip_request_refuses [OF Inl] refusal_not
      by (auto simp: ngx_rtc_http_whip_handler_def ngx_rtc_http_whip_body_handler_def whip_http_outcome_def)
  next
    case (Inr y)
    obtain name offer where y: "y = (name, offer)" by (cases y)
    let ?reg = "\<lambda>made. rtc_whip_register E newsrc newsess made W name (of_video_pt offer) (of_audio_pt offer) (of_video_twcc_ext offer) (of_audio_twcc_ext offer) ufrag pwd"
    have reg: "\<exists>rc W'. ?reg made = Some (rc, W') \<and> whip_outcome live W newsess ufrag (rc, W')" for made
      using rtc_whip_runs [OF inv E new] by (fastforce simp: runs_def)
    obtain rc1 W1 where r1: "?reg True = Some (rc1, W1)" using reg by blast
    let ?ans = "if rc1 = NGX_HTTP_CREATED then whip_answer_at H offer newsess W1 else None"
    obtain rc W' where r2: "?reg (?ans \<noteq> None \<and> h_temp_buf H) = Some (rc, W')" "whip_outcome live W newsess ufrag (rc, W')" using reg by blast
    have "ngx_rtc_http_whip_handler E H newsrc newsess ufrag pwd W r = Some ((rc, if rc = NGX_HTTP_CREATED then the ?ans else []), W')"
      using True Inr y r1 r2(1) by (simp add: ngx_rtc_http_whip_handler_def ngx_rtc_http_whip_body_handler_def Let_def cong: if_cong)
    then show ?thesis using r2(2) True Inr by (simp add: whip_outcome_def whip_http_outcome_def)
  qed
qed

text \<open>Marking viewers for close: only the zone changes.\<close>

lemma admin_handler_runs:
  assumes inv: "worker_inv live W"
  shows "runs (\<lambda>(st, W'). worker_inv live W' \<and> w_sessions W' = w_sessions W \<and> (st \<in> client_errors \<longrightarrow> W' = W)) (ngx_rtc_http_kick_handler H W r)"
    "runs (\<lambda>(st, W'). worker_inv live W' \<and> w_sessions W' = w_sessions W \<and> (st \<in> client_errors \<longrightarrow> W' = W)) (ngx_rtc_http_disconnect_handler H W r)"
proof -
  note z = worker_invD(2) [OF inv]
  have op: "\<exists>rc W'. on_zone f W = Some (rc, W') \<and> worker_inv live W' \<and> w_sessions W' = w_sessions W"
    if a: "w_sh W \<noteq> None" "\<And>c. shm_inv live c \<Longrightarrow> \<exists>r c'. f (Some c) = Some (r, Some c') \<and> shm_inv live c'" for f :: "_ \<Rightarrow> (int \<times> _) option"
  proof -
    obtain rc W' where "on_zone f W = Some (rc, W')" "calm live W W'" "w_sessions W' = w_sessions W"
      using on_zone_calm [OF z, of f] a z unfolding zone_ok_def by blast
    then show ?thesis using calm_inv [OF inv] by blast
  qed
  have g: "\<exists>r c'. ngx_rtc_shm_session_request_close (Some c) i = Some (r, Some c') \<and> shm_inv live c'"
    "\<exists>r c'. ngx_rtc_shm_source_request_close (Some c) n = Some (r, Some c') \<and> shm_inv live c'" if "shm_inv live c" for c i n
    using session_request_close_good [OF that] source_request_close_good [OF that] by (meson good_def)+
  have k: "\<exists>rc W'. on_zone (\<lambda>sh. ngx_rtc_shm_session_request_close sh i) W = Some (rc, W') \<and> worker_inv live W' \<and> w_sessions W' = w_sessions W"
    if "w_sh W \<noteq> None" for i using op [OF that, of "\<lambda>sh. ngx_rtc_shm_session_request_close sh i"] g(1) by blast
  have d: "\<exists>rc W'. on_zone (\<lambda>sh. ngx_rtc_shm_source_request_close sh n) W = Some (rc, W') \<and> worker_inv live W' \<and> w_sessions W' = w_sessions W"
    if "w_sh W \<noteq> None" for n using op [OF that, of "\<lambda>sh. ngx_rtc_shm_source_request_close sh n"] g(2) by blast
  show "runs (\<lambda>(st, W'). worker_inv live W' \<and> w_sessions W' = w_sessions W \<and> (st \<in> client_errors \<longrightarrow> W' = W)) (ngx_rtc_http_kick_handler H W r)"
  proof -
    obtain rc v where a: "ngx_rtc_http_arg_decoded H r ''id'' = (rc, v)" by (meson surj_pair)
    show ?thesis
    proof (cases "w_sh W = None")
      case True
      then show ?thesis using inv unfolding ngx_rtc_http_kick_handler_def a prod.case by simp
    next
      case False
      obtain rc' W' where "on_zone (\<lambda>sh. ngx_rtc_shm_session_request_close sh (word_of_int (h_atoi H v))) W = Some (rc', W')" "worker_inv live W'" "w_sessions W' = w_sessions W"
        using k [OF False, of "word_of_int (h_atoi H v)"] by blast
      then show ?thesis using inv unfolding ngx_rtc_http_kick_handler_def a prod.case by (simp add: client_errors_def)
    qed
  qed
  show "runs (\<lambda>(st, W'). worker_inv live W' \<and> w_sessions W' = w_sessions W \<and> (st \<in> client_errors \<longrightarrow> W' = W)) (ngx_rtc_http_disconnect_handler H W r)"
  proof -
    obtain rc v where a: "ngx_rtc_http_arg_decoded H r ''name'' = (rc, v)" by (meson surj_pair)
    show ?thesis
    proof (cases "w_sh W = None")
      case True
      then show ?thesis using inv unfolding ngx_rtc_http_disconnect_handler_def a prod.case by simp
    next
      case False
      obtain rc' W' where "on_zone (\<lambda>sh. ngx_rtc_shm_source_request_close sh (Some v)) W = Some (rc', W')" "worker_inv live W'" "w_sessions W' = w_sessions W"
        using d [OF False, of "Some v"] by blast
      then show ?thesis using inv unfolding ngx_rtc_http_disconnect_handler_def a prod.case by (simp add: client_errors_def)
    qed
  qed
qed


definition demo_http :: http_env where
  "demo_http = \<lparr>h_conf = \<lparr>candidate_ip = None, candidate_port = NGX_CONF_UNSET, max_sdp_len = None\<rparr>, client_body_buffer_size = 0,
     h_pnalloc = \<lambda>_. True, h_temp_buf = True, h_strnstr = \<lambda>s p. if take 3 s = p then Some 0 else None, h_strlchr = \<lambda>s c. find (\<lambda>i. s ! i = c) [0..<length s],
     h_print = \<lambda>a s. a @ 0x2f # s, h_unescape_uri = \<lambda>s. s, h_escape_json = json_escape, h_atoi = \<lambda>_. - 1, h_fingerprint = None, h_sps = None\<rparr>"


end
