(* ===== verification/Feedback.thy ===== *)
theory Feedback
  imports Send ShmSafe Rtcp
begin

text \<open>
  Feedback from a viewer (\<^verbatim>\<open>ngx_rtc_stream_module.c\<close>): SRTCP datagrams of a session, answered with retransmissions and
  keyframe replays from the source's GOP ring (publisher on this worker) or the zone's retransmit ring (publisher on
  another), a keyframe request to the publisher, and the rate controller. A result \<open>None\<close> is a fault inside the
  state machine or the zone.
\<close>

section \<open>State\<close>

abbreviation NGX_RTC_PLI_MIN_INTERVAL_MS :: u64 where "NGX_RTC_PLI_MIN_INTERVAL_MS \<equiv> 1000"
abbreviation NGX_RTC_PLI_SENDER_SSRC :: u32 where "NGX_RTC_PLI_SENDER_SSRC \<equiv> 1"
abbreviation NGX_RTC_RTCP_BYE :: u8 where "NGX_RTC_RTCP_BYE \<equiv> 203"

text \<open>A session of the worker's queue as the keyframe request sees it.\<close>

record 'c peer =
  pe_same_source :: bool
  pe_publishing :: bool
  pe_srtp :: ngx_rtc_srtp
  pe_conn :: "'c option"

text \<open>
  The session with what it reaches: its source's name and publish fields, the zone, the worker's session queue, and the
  flag of the walk's context.
\<close>

record ('w, 'c, 'a, 'u, 'm) feedback =
  fb_sess :: "('c, 'a, 'u) ngx_rtc_session"
  fb_last_active :: u64
  fb_ufrag :: bytes
  fb_name :: bytes
  fb_src_publishing :: bool
  fb_pli_sent_ms :: u64
  fb_pli_requests :: u64
  fb_sh :: "'m ngx_rtc_shm_ctx option"
  fb_queue :: "'c peer list"
  fb_bye :: bool
  fb_world :: 'w

text \<open>The surroundings of a session and of the zone; \<open>fe_alloc\<close> says whether the replay buffer can be allocated.\<close>

record ('w, 'c, 'a, 'u, 'k, 'm) fb_env =
  fe_core :: "('w, 'c, 'a, 'u, 'k) core_env"
  fe_shm :: "'m shm_env"
  fe_alloc :: bool

section \<open>Retransmission and replay\<close>

definition ngx_rtc_stream_shm_gop_send ::
  "('w, 'c, 'a, 'u, 'k, 'm) fb_env \<Rightarrow> ('w, 'c, 'a, 'u, 'm) feedback option \<Rightarrow> bytes \<Rightarrow> u16 \<Rightarrow> bool \<Rightarrow> int \<times> ('w, 'c, 'a, 'u, 'm) feedback option" where
  "ngx_rtc_stream_shm_gop_send E opaque rtp len is_gop_start =
     (case Option.bind opaque (\<lambda>st. map_option (\<lambda>(ok, sp, w). (ok, st\<lparr>fb_sess := the sp, fb_world := w\<rparr>))
              (ngx_rtc_session_send_rtp (fe_core E) (Some (fb_sess st)) rtp (unat len) is_gop_start (fb_world st))) of
        None \<Rightarrow> (NGX_ERROR, None)
      | Some (ok, st) \<Rightarrow> (if \<not> ok then NGX_ERROR else NGX_OK, Some st))"

text \<open>The result of an operation of the core on the session.\<close>

definition on_session ::
  "('w, 'c, 'a, 'u, 'm) feedback \<Rightarrow> (('c, 'a, 'u) ngx_rtc_session option \<Rightarrow> 'w \<Rightarrow> (int \<times> ('c, 'a, 'u) ngx_rtc_session option \<times> 'w) option)
    \<Rightarrow> (int \<times> ('w, 'c, 'a, 'u, 'm) feedback) option" where
  "on_session st f = map_option (\<lambda>(rc, sp, w). (rc, st\<lparr>fb_sess := the sp, fb_world := w\<rparr>)) (f (Some (fb_sess st)) (fb_world st))"

definition ngx_rtc_stream_retransmit ::
  "('w, 'c, 'a, 'u, 'k, 'm) fb_env \<Rightarrow> ('w, 'c, 'a, 'u, 'm) feedback \<Rightarrow> u16 \<Rightarrow> (int \<times> ('w, 'c, 'a, 'u, 'm) feedback) option" where
  "ngx_rtc_stream_retransmit E st sq =
     (if ngx_rtc_source_gop_ready (source (fb_sess st)) then on_session st (\<lambda>sp w. ngx_rtc_session_retransmit (fe_core E) sp sq w)
      else if fb_sh st = None then Some (NGX_RTC_ERR_PARSE, st)
      else do { ((rc, scratch, out_len), sh) \<leftarrow> ngx_rtc_shm_retransmit_get (fb_sh st) (Some (fb_name st)) sq
                   (Some (replicate NGX_RTC_RING_RTP_MAX 0)) NGX_RTC_RING_RTP_MAX (Some 0);
                let st = st\<lparr>fb_sh := sh\<rparr>;
                if rc \<noteq> NGX_OK then Some (NGX_RTC_ERR_PARSE, st)
                else on_session st (\<lambda>sp w. ngx_rtc_session_retransmit_send (fe_core E) sp sq scratch (unat (the out_len)) w) })"

definition ngx_rtc_stream_replay_gop ::
  "('w, 'c, 'a, 'u, 'k, 'm) fb_env \<Rightarrow> ('w, 'c, 'a, 'u, 'm) feedback \<Rightarrow> (bool \<times> ('w, 'c, 'a, 'u, 'm) feedback) option" where
  "ngx_rtc_stream_replay_gop E st =
     (if ngx_rtc_source_gop_ready (source (fb_sess st))
      then map_option (\<lambda>(sp, w). (True, st\<lparr>fb_sess := the sp, fb_world := w\<rparr>))
             (ngx_rtc_rtp_ring_replay (fe_core E) (map_option src_gop (source (fb_sess st))) (Some (fb_sess st)) (fb_world st))
      else if fb_sh st = None then Some (False, st)
      else do { ((rc, opaque), sh) \<leftarrow> ngx_rtc_shm_retransmit_replay_gop (fe_shm E) (fe_alloc E) (fb_sh st) (Some (fb_name st))
                   (Some (ngx_rtc_stream_shm_gop_send E)) (Some st);
                st \<leftarrow> opaque;
                Some (rc > 0, st\<lparr>fb_sh := sh\<rparr>) })"

text \<open>The publisher's session: the first of the queue that owns this source's ingest.\<close>

definition ngx_rtc_stream_request_keyframe ::
  "('w, 'c, 'a, 'u, 'k, 'm) fb_env \<Rightarrow> ('w, 'c, 'a, 'u, 'm) feedback \<Rightarrow> ('w, 'c, 'a, 'u, 'm) feedback" where
  "ngx_rtc_stream_request_keyframe E st =
     (let now = env_now (fe_core E) in
      if \<not> fb_src_publishing st then st
      else if fb_pli_sent_ms st \<noteq> 0 \<and> now - fb_pli_sent_ms st < NGX_RTC_PLI_MIN_INTERVAL_MS then st
      else (case find (\<lambda>p. pe_same_source p \<and> pe_publishing p) (fb_queue st) of
              None \<Rightarrow> st
            | Some p \<Rightarrow>
                (case ngx_rtc_rtcp_encode_pli NGX_RTC_PLI_SENDER_SSRC (case source (fb_sess st) of None \<Rightarrow> 0 | Some s \<Rightarrow> src_video_ssrc s)
                        (Some (replicate 16 0)) 16 (Some 0) of
                   (rc, pkt, len) \<Rightarrow>
                     if rc \<noteq> NGX_RTC_OK then st
                     else (case ngx_rtc_srtp_protect_rtcp (env_lib (fe_core E)) (Some (pe_srtp p)) pkt (map_option uint len) (fb_world st) of
                             (rc, pkt, n, w) \<Rightarrow>
                               if rc \<noteq> 0 then st\<lparr>fb_world := w\<rparr>
                               else (case pe_conn p of
                                       None \<Rightarrow> st\<lparr>fb_world := w\<rparr>
                                     | Some c \<Rightarrow>
                                         (case env_send (fe_core E) c (the pkt) (nat (the n)) w of
                                            (_, w) \<Rightarrow> st\<lparr>fb_world := w, fb_pli_sent_ms := now, fb_pli_requests := fb_pli_requests st + 1\<rparr>))))))"

section \<open>The packets of a datagram\<close>

text \<open>The sequence numbers of a NACK, until the budget of the window is used up.\<close>

fun answer_nacks ::
  "('w, 'c, 'a, 'u, 'k, 'm) fb_env \<Rightarrow> u16 list \<Rightarrow> ('w, 'c, 'a, 'u, 'm) feedback \<Rightarrow> ('w, 'c, 'a, 'u, 'm) feedback option" where
  "answer_nacks E [] st = Some st"
| "answer_nacks E (sq # sqs) st =
     (case ngx_rtc_session_nack_budget_take (Some (fb_sess st)) of
        (taken, sp) \<Rightarrow>
          if \<not> taken then Some (st\<lparr>fb_sess := the sp\<rparr>)
          else do { (_, st) \<leftarrow> ngx_rtc_stream_retransmit E (st\<lparr>fb_sess := the sp\<rparr>) sq; answer_nacks E sqs st })"

definition rtcp_nack ::
  "('w, 'c, 'a, 'u, 'k, 'm) fb_env \<Rightarrow> ngx_rtc_rtcp_pkt \<Rightarrow> ('w, 'c, 'a, 'u, 'm) feedback \<Rightarrow> ('w, 'c, 'a, 'u, 'm) feedback option" where
  "rtcp_nack E pkt st =
     (case ngx_rtc_rtcp_nack_expand (Some pkt) (Some (replicate 512 0)) 512 (Some 0) of
        (rc, seqs, n) \<Rightarrow>
          if rc \<noteq> NGX_RTC_OK then Some st
          else (case ngx_rtc_session_nack_window_step (env_tunables (fe_core E)) (Some (fb_sess st)) (env_now (fe_core E)) of
                  (rolled, sp) \<Rightarrow>
                    (let sp = (if rolled then ngx_rtc_session_nack_reset sp else sp)
                     in answer_nacks E (take (unat (the n)) (the seqs)) (st\<lparr>fb_sess := the sp\<rparr>))))"

definition rtcp_twcc ::
  "('w, 'c, 'a, 'u, 'k, 'm) fb_env \<Rightarrow> ngx_rtc_rtcp_pkt \<Rightarrow> ('w, 'c, 'a, 'u, 'm) feedback \<Rightarrow> ('w, 'c, 'a, 'u, 'm) feedback option" where
  "rtcp_twcc E pkt st =
     (let sess = the (ngx_rtc_session_on_twcc (Some (fb_sess st)) (Rtcp.twcc_lost pkt) (Rtcp.twcc_received pkt) (env_now (fe_core E)));
          st = st\<lparr>fb_sess := sess\<rparr>
      in if fb_sh st = None then Some st
         else do { (_, sh) \<leftarrow> ngx_rtc_shm_session_set_stats (fb_sh st) (Some (fb_ufrag st)) (ucast (Core.twcc_lost sess)) (ucast (Core.twcc_received sess))
                      (pacer_target_bps sess) (drop_pacer sess) (drop_gop sess);
                   Some (st\<lparr>fb_sh := sh\<rparr>) })"

text \<open>Only feedback about the source's video is answered from the cache.\<close>

definition about_video :: "ngx_rtc_rtcp_pkt \<Rightarrow> ('w, 'c, 'a, 'u, 'm) feedback \<Rightarrow> bool" where
  "about_video pkt st = (case source (fb_sess st) of None \<Rightarrow> False | Some src \<Rightarrow> media_ssrc pkt = src_video_ssrc src)"

definition ngx_rtc_stream_rtcp_cb ::
  "('w, 'c, 'a, 'u, 'k, 'm) fb_env \<Rightarrow> ngx_rtc_rtcp_pkt \<Rightarrow> ('w, 'c, 'a, 'u, 'm) feedback \<Rightarrow> ('w, 'c, 'a, 'u, 'm) feedback option" where
  "ngx_rtc_stream_rtcp_cb E pkt st =
     (if source (fb_sess st) = None then Some st
      else if pkt_type pkt = NGX_RTC_RTCP_RTPFB \<and> fmt pkt = NGX_RTC_RTCP_FMT_NACK then (if about_video pkt st then rtcp_nack E pkt st else Some st)
      else if pkt_type pkt = NGX_RTC_RTCP_PSFB \<and> fmt pkt = NGX_RTC_RTCP_FMT_PLI
        then (if about_video pkt st
              then do { (served, st) \<leftarrow> ngx_rtc_stream_replay_gop E st; Some (if \<not> served then ngx_rtc_stream_request_keyframe E st else st) }
              else Some st)
      else if pkt_type pkt = NGX_RTC_RTCP_RTPFB \<and> fmt pkt = NGX_RTC_RTCP_FMT_TWCC then rtcp_twcc E pkt st
      else if has_remb pkt then Some (st\<lparr>fb_sess := the (ngx_rtc_session_pacer_cap (Some (fb_sess st)) (ucast (remb_bitrate_bps pkt)))\<rparr>)
      else if pkt_type pkt = NGX_RTC_RTCP_BYE then Some (st\<lparr>fb_bye := True\<rparr>)
      else Some st)"

text \<open>
  A received SRTCP datagram on the session's connection; the flag says that the caller closes the session for a BYE. The
  walk's client state is the option of the state, its return code is always \<^verbatim>\<open>NGX_RTC_OK\<close>.
\<close>

definition ngx_rtc_stream_on_rtcp ::
  "('w, 'c, 'a, 'u, 'k, 'm) fb_env \<Rightarrow> bytes \<Rightarrow> ('w, 'c, 'a, 'u, 'm) feedback \<Rightarrow> (bool \<times> ('w, 'c, 'a, 'u, 'm) feedback) option" where
  "ngx_rtc_stream_on_rtcp E data st =
     (if conn (fb_sess st) = None then Some (False, st)
      else do { ready \<leftarrow> ngx_rtc_session_fsm_is_ready (env_rep (fe_core E)) (Some (fsm (fb_sess st)));
                if \<not> ready then Some (False, st)
                else (let st = st\<lparr>fb_last_active := env_now (fe_core E)\<rparr>
                      in case ngx_rtc_srtp_unprotect_rtcp (env_lib (fe_core E)) (Some (srtp (fb_sess st))) (Some data) (Some (int (length data))) (fb_world st) of
                           (rc, packet, n, w) \<Rightarrow>
                             (let st = st\<lparr>fb_world := w\<rparr>
                              in if rc \<noteq> 0 then Some (False, st)
                                 else do { (_, s) \<leftarrow> ngx_rtc_rtcp_decode packet (nat (the n))
                                             (Some (\<lambda>pkt s. (NGX_RTC_OK, Option.bind s (ngx_rtc_stream_rtcp_cb E pkt)))) (Some (st\<lparr>fb_bye := False\<rparr>));
                                           st \<leftarrow> s;
                                           Some (fb_bye st, st) })) })"

end
