(* ===== verification/FeedbackSafe.thy ===== *)
theory FeedbackSafe
  imports Feedback
begin

text \<open>
  A storm of NACKs: however many arrive and whatever they ask for, the retransmissions they cause are bounded by the
  budget of the response window, and within a window no packet is sent twice.
\<close>

section \<open>Sending leaves the response window alone\<close>

definition nack_view :: "('c, 'a, 'u) ngx_rtc_session \<Rightarrow> _" where
  "nack_view s = (nack_seen s, nack_seen_count s, nack_retransmitted s, nack_window_start s, nack_window_ms s)"

lemma send_pace_nack:
  assumes "send_pace now kf len s = (a, s')"
  shows "nack_view s' = nack_view s"
proof -
  have r: "nack_view (pacer_refill s now) = nack_view s" by (simp add: pacer_refill_def Let_def nack_view_def)
  obtain rc t where t: "ngx_rtc_session_pacer_admit (Some s) (word_of_nat len) now = (rc, Some t)"
    using pacer_admit_total by blast
  have "nack_view t = nack_view s"
    using t r by (auto simp: ngx_rtc_session_pacer_admit_def Let_def nack_view_def split: if_splits)
  then show ?thesis using assms t by (auto simp: send_pace_def Let_def nack_view_def split: if_splits)
qed

lemma send_build_nack: "send_build s rtp len = (s', n, st) \<Longrightarrow> nack_view s' = nack_view s"
  by (auto simp: send_build_def Let_def nack_view_def split: prod.splits if_splits)

lemma send_finish_nack:
  "nack_view (send_untwcc st q) = nack_view q" "nack_view (send_failure v q) = nack_view q"
  "nack_view (send_blocked tu no v q) = nack_view q" "nack_view (send_success v g rtp n q) = nack_view q"
  by (simp_all add: send_untwcc_def send_failure_def send_blocked_def send_success_def nack_view_def Let_def)

lemma nack_view_other: "nack_view (s\<lparr>cipher := x\<rparr>) = nack_view s" "nack_view (s\<lparr>srtp_failed := y\<rparr>) = nack_view s"
  "nack_view (s\<lparr>drop_gop := y\<rparr>) = nack_view s"
  by (simp_all add: nack_view_def)

lemma send_transmit_nack:
  assumes "send_transmit E c v g rtp n st s w = (ok, s', w')"
  shows "nack_view s' = nack_view s"
proof -
  obtain rc packet nb w1 where p: "ngx_rtc_srtp_protect_rtp (env_lib E) (Some (srtp s)) (Some (cipher s)) (Some (int n)) w = (rc, packet, nb, w1)"
    by (rule prod_cases4)
  show ?thesis
    using assms unfolding send_transmit_def p
    by (auto simp: Let_def send_finish_nack nack_view_other split: prod.splits if_splits)
qed

lemma send_rtp_nack:
  assumes "ngx_rtc_session_send_rtp E (Some s) rtp l g w = Some (ok, Some s', w')"
  shows "nack_view s' = nack_view s"
proof -
  consider "s' = s" | "s' = s\<lparr>drop_gop := drop_gop s + 1\<rparr>"
    | c where "(case send_pace (env_now E) (send_is_keyframe s (send_is_video s rtp l) g) l s of
            (admitted, sess) \<Rightarrow> if \<not> admitted then Some (False, Some sess, w)
              else (case send_build sess rtp l of (sess, n, stamped) \<Rightarrow>
                (case send_transmit E c (send_is_video s rtp l) g rtp n stamped sess w of (ok, sess, w) \<Rightarrow> Some (ok, Some sess, w))))
          = Some (ok, Some s', w')"
    using assms by (auto simp: ngx_rtc_session_send_rtp_def Let_def bind_eq_Some_conv split: option.splits if_splits)
  then show ?thesis
  proof cases
    case 3
    then show ?thesis by (auto split: prod.splits if_splits dest!: send_pace_nack send_build_nack send_transmit_nack)
  qed (simp_all add: nack_view_other)
qed

section \<open>One retransmission\<close>

definition answered :: "('c, 'a, 'u) ngx_rtc_session \<Rightarrow> u16 list" where
  "answered s = take (unat (nack_seen_count s)) (nack_seen s)"

text \<open>From \<open>s\<close> to \<open>s'\<close> at most one datagram left, and the packets answered in this window are still distinct.\<close>

definition resent :: "('w \<Rightarrow> bytes list) \<Rightarrow> ('c, 'a, 'u) ngx_rtc_session \<Rightarrow> 'w \<Rightarrow> ('c, 'a, 'u) ngx_rtc_session \<Rightarrow> 'w \<Rightarrow> bool" where
  "resent wire s w s' w' \<longleftrightarrow>
     send_view s' = send_view s \<and> length (cipher s') = NGX_RTC_CIPHER_CAP \<and> nack_retransmitted s' = nack_retransmitted s
   \<and> nack_window_start s' = nack_window_start s \<and> nack_window_ms s' = nack_window_ms s \<and> length (nack_seen s') = 128
   \<and> distinct (answered s')
   \<and> (\<exists>ds. wire w' = wire w @ ds \<and> length ds \<le> 1 \<and> unat (nack_seen_count s') = unat (nack_seen_count s) + length ds)"

definition sender_ok :: "('c, 'a, 'u) ngx_rtc_session \<Rightarrow> bool" where
  "sender_ok s \<longleftrightarrow> fsm_wf s \<and> length (cipher s) = NGX_RTC_CIPHER_CAP \<and> length (nack_seen s) = 128 \<and> distinct (answered s)"

lemma resent_refl: "sender_ok s \<Longrightarrow> resent wire s w s w"
  by (simp add: resent_def sender_ok_def)

lemma answered_put:
  assumes "length xs = 128" "unat (n :: u64) < 128"
  shows "take (unat (n + 1)) (buf_put (unat n) [x] xs) = take (unat n) xs @ [x]"
proof -
  have "unat (n + 1) = Suc (unat n)" using assms(2) by (simp add: unat_word_ariths)
  then show ?thesis using assms by (simp add: buf_put_def)
qed

lemma retransmit_send_resent:
  assumes ok: "sender_ok s" and env: "wire_env wire E" and room: "unat (nack_seen_count s) < 128" and l: "l \<le> length data"
  shows "\<exists>rc s' w'. ngx_rtc_session_retransmit_send E (Some s) sq (Some data) l w = Some (rc, Some s', w') \<and> resent wire s w s' w'"
proof (cases "l = 0 \<or> sq \<in> set (answered s)")
  case True
  then show ?thesis using resent_refl [OF ok] by (auto simp: ngx_rtc_session_retransmit_send_def answered_def)
next
  case False
  have f: "fsm_wf s" "length (cipher s) = NGX_RTC_CIPHER_CAP" "length (nack_seen s) = 128" "distinct (answered s)"
    using ok by (simp_all add: sender_ok_def)
  obtain b t w1 where sd: "ngx_rtc_session_send_rtp E (Some s) data l False w = Some (b, Some t, w1)"
    using send_rtp_total [OF f(1), where E = E and rtp = data and l = l and g = False and w = w] by blast
  have v: "send_view t = send_view s" "length (cipher t) = NGX_RTC_CIPHER_CAP" "\<not> b \<Longrightarrow> wire w1 = wire w"
    "b \<Longrightarrow> \<exists>d. wire w1 = wire w @ [d]"
    using send_rtp_step [OF env f(2) l sd] by auto
  have n: "nack_seen t = nack_seen s" "nack_seen_count t = nack_seen_count s" "nack_retransmitted t = nack_retransmitted s"
    "nack_window_start t = nack_window_start s" "nack_window_ms t = nack_window_ms s"
    using send_rtp_nack [OF sd] by (simp_all add: nack_view_def)
  have lt: "nack_seen_count s < NGX_RTC_NACK_BUDGET" using room by (simp add: word_less_nat_alt)
  have sq: "\<not> (sq \<in> set (take (unat (nack_seen_count s)) (nack_seen s)))" using False by (simp add: answered_def)
  let ?t = "t\<lparr>nack_seen := buf_put (unat (nack_seen_count t)) [sq] (nack_seen t), nack_seen_count := nack_seen_count t + 1\<rparr>"
  have r: "ngx_rtc_session_retransmit_send E (Some s) sq (Some data) l w
      = (if \<not> b then Some (NGX_RTC_ERR_PARSE, Some t, w1) else Some (NGX_RTC_OK, Some ?t, w1))"
    using False sq lt n(2) by (simp add: ngx_rtc_session_retransmit_send_def sd)
  show ?thesis
  proof (cases b)
    case False
    then show ?thesis using r v n f by (simp add: resent_def answered_def)
  next
    case True
    then obtain d where d: "wire w1 = wire w @ [d]" using v(4) by blast
    have a: "answered ?t = answered s @ [sq]" using answered_put [OF f(3) room] n by (simp add: answered_def)
    have u: "unat (nack_seen_count s + 1) = Suc (unat (nack_seen_count s))" using room by (simp add: unat_word_ariths)
    have "resent wire s w ?t w1"
      unfolding resent_def a using v n f False sq d u room by (simp add: send_view_def answered_def)
    then show ?thesis using r True by simp
  qed
qed

text \<open>A GOP ring whose slots hold what they claim.\<close>

definition gop_ring_ok :: "ngx_rtc_rtp_ring \<Rightarrow> bool" where
  "gop_ring_ok r \<longleftrightarrow> (\<forall>sl. slots r = Some sl \<longrightarrow> length sl = unat (capacity r) \<and> capacity r \<noteq> 0
     \<and> (\<forall>s \<in> set sl. unat (slot_len s) \<le> length (slot_data s)))"

lemma mask_index: "capacity r \<noteq> 0 \<Longrightarrow> unat (x AND (capacity r - 1)) < unat (capacity r)"
proof -
  assume nz: "capacity r \<noteq> 0"
  have "unat (x AND (capacity r - 1)) \<le> unat (capacity r - 1)" using word_and_le1 word_le_nat_alt by blast
  also have "\<dots> < unat (capacity r)" using nz by (simp add: unat_minus_one unat_gt_0)
  finally show ?thesis .
qed

lemma ring_get_bounded:
  assumes "gop_ring_ok r" "ngx_rtc_rtp_ring_get (Some r) sq = Inr (out, n)"
  shows "unat n \<le> length out"
proof -
  have "unat (slot_len (sl ! unat (x AND (capacity r - 1)))) \<le> length (slot_data (sl ! unat (x AND (capacity r - 1))))" if "slots r = Some sl" for sl x
    using assms(1) that mask_index [where r = r and x = x] by (simp add: gop_ring_ok_def)
  then have "case ngx_rtc_rtp_ring_get (Some r) sq of Inl _ \<Rightarrow> True | Inr (out, n) \<Rightarrow> unat n \<le> length out"
    by (simp add: ngx_rtc_rtp_ring_get_def Let_def split: option.split)
  then show ?thesis unfolding assms(2) by simp
qed

lemma session_retransmit_resent:
  assumes "sender_ok s" "wire_env wire E" "unat (nack_seen_count s) < 128" "source s = Some src" "gop_ring_ok (src_gop src)"
  shows "\<exists>rc s' w'. ngx_rtc_session_retransmit E (Some s) sq w = Some (rc, Some s', w') \<and> resent wire s w s' w'"
proof (cases "ngx_rtc_source_gop_ready (Some src)")
  case True
  show ?thesis
  proof (cases "ngx_rtc_rtp_ring_get (Some (src_gop src)) sq")
    case (Inl rc)
    then show ?thesis using True assms(4) resent_refl [OF assms(1)] by (simp add: ngx_rtc_session_retransmit_def)
  next
    case (Inr p)
    obtain out n where p: "p = (out, n)" by (cases p)
    show ?thesis
      using retransmit_send_resent [OF assms(1-3) ring_get_bounded [OF assms(5) Inr [unfolded p]], of sq w] True assms(4) Inr p
      by (simp add: ngx_rtc_session_retransmit_def)
  qed
qed (use assms(4) resent_refl [OF assms(1)] in \<open>simp add: ngx_rtc_session_retransmit_def\<close>)
section \<open>A retransmission for a viewer\<close>

definition viewer_ok :: "('m \<Rightarrow> nat set) \<Rightarrow> ('w, 'c, 'a, 'u, 'm) feedback \<Rightarrow> bool" where
  "viewer_ok live st \<longleftrightarrow> sender_ok (fb_sess st) \<and> (\<forall>src. source (fb_sess st) = Some src \<longrightarrow> gop_ring_ok (src_gop src))
     \<and> (\<forall>sh. fb_sh st = Some sh \<longrightarrow> shm_inv live sh)"

lemma resent_sender_ok: "sender_ok s \<Longrightarrow> resent wire s w s' w' \<Longrightarrow> sender_ok s'"
  using fsm_wf_view by (fastforce simp: resent_def sender_ok_def)

lemma resent_source: "resent wire s w s' w' \<Longrightarrow> source s' = source s"
  by (simp add: resent_def send_view_def)

lemma viewer_ok_resent:
  assumes "viewer_ok live st" "resent wire (fb_sess st) w s' w'"
  shows "viewer_ok live (st\<lparr>fb_sess := s', fb_world := w2\<rparr>)"
  using assms resent_sender_ok [OF _ assms(2)] resent_source [OF assms(2)] by (simp add: viewer_ok_def)

lemma on_session_resent:
  assumes ok: "viewer_ok live st"
    and ex: "\<exists>rc s' w'. f (Some (fb_sess st)) (fb_world st) = Some (rc, Some s', w') \<and> resent wire (fb_sess st) (fb_world st) s' w'"
  shows "\<exists>rc st'. on_session st f = Some (rc, st') \<and> viewer_ok live st' \<and> resent wire (fb_sess st) (fb_world st) (fb_sess st') (fb_world st')"
proof -
  obtain rc s' w' where "f (Some (fb_sess st)) (fb_world st) = Some (rc, Some s', w')" "resent wire (fb_sess st) (fb_world st) s' w'"
    using ex by blast
  then show ?thesis using viewer_ok_resent [OF ok] by (simp add: on_session_def)
qed

lemma retransmit_get_out:
  assumes "ngx_rtc_shm_retransmit_get (Some c) np sq (Some out) cap (Some l0) = Some ((rc, o', n), c')" "rc = NGX_OK" "cap \<le> length out"
  shows "\<exists>buf. o' = Some buf \<and> unat (the n) \<le> length buf"
proof -
  have b: "unat k \<le> cap \<and> length (buf_put 0 d out) = length out" if "retx_lookup r sq cap = Some (d, k)" for r d k
    using that assms(3) by (auto simp: retx_lookup_def Let_def buf_put_def split: if_splits)
  show ?thesis
    using assms(1-3) b
    by (auto simp: ngx_rtc_shm_retransmit_get_def shm_guard_def bind_eq_Some_conv split: option.splits if_splits; fastforce)
qed

lemma stream_retransmit_resent:
  assumes ok: "viewer_ok live st" and env: "wire_env wire (fe_core E)" and room: "unat (nack_seen_count (fb_sess st)) < 128"
    and src: "source (fb_sess st) \<noteq> None"
  shows "\<exists>rc st'. ngx_rtc_stream_retransmit E st sq = Some (rc, st') \<and> viewer_ok live st'
    \<and> resent wire (fb_sess st) (fb_world st) (fb_sess st') (fb_world st')"
proof -
  have so: "sender_ok (fb_sess st)" using ok by (simp add: viewer_ok_def)
  show ?thesis
  proof (cases "ngx_rtc_source_gop_ready (source (fb_sess st))")
    case True
    obtain s0 where s0: "source (fb_sess st) = Some s0" using src by blast
    then have "gop_ring_ok (src_gop s0)" using ok by (simp add: viewer_ok_def)
    then show ?thesis
      using on_session_resent [where f = "\<lambda>sp w. ngx_rtc_session_retransmit (fe_core E) sp sq w", OF ok session_retransmit_resent [OF so env room s0]] True by (simp add: ngx_rtc_stream_retransmit_def)
  next
    case False
    show ?thesis
    proof (cases "fb_sh st")
      case None
      then show ?thesis using False ok resent_refl [OF so] by (simp add: ngx_rtc_stream_retransmit_def)
    next
      case (Some c)
      let ?out = "replicate NGX_RTC_RING_RTP_MAX (0 :: u8)"
      have inv: "shm_inv live c" using ok Some by (simp add: viewer_ok_def)
      obtain rc o' n c' where g: "ngx_rtc_shm_retransmit_get (Some c) (Some (fb_name st)) sq (Some ?out) NGX_RTC_RING_RTP_MAX (Some 0) = Some ((rc, o', n), Some c')"
        and c': "shm_inv live c'"
        using retransmit_get_good [OF inv, where np = "Some (fb_name st)" and sq = sq and outp = "Some ?out" and cap = NGX_RTC_RING_RTP_MAX and lp = "Some 0" and now = 0]
        by (auto simp: good_def)
      let ?st = "st\<lparr>fb_sh := Some c'\<rparr>"
      have ok': "viewer_ok live ?st" using ok c' by (simp add: viewer_ok_def)
      have e: "ngx_rtc_stream_retransmit E st sq = (if rc \<noteq> NGX_OK then Some (NGX_RTC_ERR_PARSE, ?st)
          else on_session ?st (\<lambda>sp w. ngx_rtc_session_retransmit_send (fe_core E) sp sq o' (unat (the n)) w))"
        using False Some by (simp add: ngx_rtc_stream_retransmit_def g)
      show ?thesis
      proof (cases "rc = NGX_OK")
        case False
        then show ?thesis using e ok' resent_refl [OF so] by simp
      next
        case True
        then obtain buf where b: "o' = Some buf" "unat (the n) \<le> length buf" using retransmit_get_out [OF g] by auto
        have "\<exists>rc s' w'. ngx_rtc_session_retransmit_send (fe_core E) (Some (fb_sess ?st)) sq o' (unat (the n)) (fb_world ?st) = Some (rc, Some s', w')
            \<and> resent wire (fb_sess ?st) (fb_world ?st) s' w'"
          using retransmit_send_resent [OF so env room b(2)] b(1) by simp
        from on_session_resent [OF ok', of "\<lambda>sp w. ngx_rtc_session_retransmit_send (fe_core E) sp sq o' (unat (the n)) w", OF this]
        show ?thesis using e True by simp
      qed
    qed
  qed
qed
section \<open>One NACK\<close>

definition budget_ok :: "('c, 'a, 'u) ngx_rtc_session \<Rightarrow> bool" where
  "budget_ok s \<longleftrightarrow> unat (nack_seen_count s) \<le> unat (nack_retransmitted s) \<and> unat (nack_retransmitted s) \<le> 128"

text \<open>
  From \<open>st\<close> to \<open>st'\<close> the datagrams \<open>ds\<close> left, all of them paid from the budget, in the same window.
\<close>

definition spent :: "('w \<Rightarrow> bytes list) \<Rightarrow> ('w, 'c, 'a, 'u, 'm) feedback \<Rightarrow> bytes list \<Rightarrow> ('w, 'c, 'a, 'u, 'm) feedback \<Rightarrow> bool" where
  "spent wire st ds st' \<longleftrightarrow> wire (fb_world st') = wire (fb_world st) @ ds
     \<and> length ds + unat (nack_retransmitted (fb_sess st)) \<le> unat (nack_retransmitted (fb_sess st'))
     \<and> nack_window_start (fb_sess st') = nack_window_start (fb_sess st) \<and> nack_window_ms (fb_sess st') = nack_window_ms (fb_sess st)
     \<and> source (fb_sess st') = source (fb_sess st)"

lemma spent_trans: "spent wire st ds st' \<Longrightarrow> spent wire st' es st'' \<Longrightarrow> spent wire st (ds @ es) st''"
  by (simp add: spent_def)

lemma answer_step:
  assumes ok: "viewer_ok live st" "budget_ok (fb_sess st)" and env: "wire_env wire (fe_core E)" and src: "source (fb_sess st) \<noteq> None"
    and few: "nack_retransmitted (fb_sess st) < NGX_RTC_NACK_BUDGET"
  shows "\<exists>rc st' ds. ngx_rtc_stream_retransmit E (st\<lparr>fb_sess := (fb_sess st)\<lparr>nack_retransmitted := nack_retransmitted (fb_sess st) + 1\<rparr>\<rparr>) sq = Some (rc, st')
    \<and> viewer_ok live st' \<and> budget_ok (fb_sess st') \<and> spent wire st ds st'"
proof -
  let ?s = "(fb_sess st)\<lparr>nack_retransmitted := nack_retransmitted (fb_sess st) + 1\<rparr>"
  let ?st = "st\<lparr>fb_sess := ?s\<rparr>"
  have n: "unat (nack_retransmitted (fb_sess st)) < 128" using few by (simp add: word_less_nat_alt)
  have u: "unat (nack_retransmitted (fb_sess st) + 1) = Suc (unat (nack_retransmitted (fb_sess st)))" using n by (simp add: unat_word_ariths)
  have ok': "viewer_ok live ?st" using ok(1) by (simp add: viewer_ok_def sender_ok_def fsm_wf_def answered_def)
  have room: "unat (nack_seen_count (fb_sess ?st)) < 128" using ok(2) n by (simp add: budget_ok_def)
  obtain rc st' where r: "ngx_rtc_stream_retransmit E ?st sq = Some (rc, st')" "viewer_ok live st'"
    "resent wire ?s (fb_world st) (fb_sess st') (fb_world st')"
    using stream_retransmit_resent [OF ok' env room, of sq] src by auto
  then obtain ds where "wire (fb_world st') = wire (fb_world st) @ ds" "length ds \<le> 1"
    "unat (nack_seen_count (fb_sess st')) = unat (nack_seen_count (fb_sess st)) + length ds" by (auto simp: resent_def)
  then have "budget_ok (fb_sess st')" "spent wire st ds st'"
    using r(3) resent_source [OF r(3)] ok(2) u n by (simp_all add: budget_ok_def spent_def resent_def)
  then show ?thesis using r by blast
qed

lemma answer_nacks_spent:
  assumes "viewer_ok live st" "budget_ok (fb_sess st)" "wire_env wire (fe_core E)" "source (fb_sess st) \<noteq> None"
  shows "\<exists>st' ds. answer_nacks E sqs st = Some st' \<and> viewer_ok live st' \<and> budget_ok (fb_sess st') \<and> spent wire st ds st'"
  using assms
proof (induction sqs arbitrary: st)
  case Nil
  then show ?case by (auto simp: spent_def)
next
  case (Cons sq sqs)
  show ?case
  proof (cases "nack_retransmitted (fb_sess st) < NGX_RTC_NACK_BUDGET")
    case False
    then have "answer_nacks E (sq # sqs) st = Some st" by (simp add: ngx_rtc_session_nack_budget_take_def not_less)
    then show ?thesis using Cons.prems by (auto simp: spent_def)
  next
    case True
    obtain rc st1 ds where s: "ngx_rtc_stream_retransmit E (st\<lparr>fb_sess := (fb_sess st)\<lparr>nack_retransmitted := nack_retransmitted (fb_sess st) + 1\<rparr>\<rparr>) sq = Some (rc, st1)"
      "viewer_ok live st1" "budget_ok (fb_sess st1)" "spent wire st ds st1"
      using answer_step [OF Cons.prems True] by blast
    have e: "answer_nacks E (sq # sqs) st = answer_nacks E sqs st1"
      using True s(1) by (simp add: ngx_rtc_session_nack_budget_take_def not_le [symmetric])
    have "source (fb_sess st1) \<noteq> None" using s(4) Cons.prems(4) by (simp add: spent_def)
    from Cons.IH [OF s(2,3) Cons.prems(3) this] obtain st' es where "answer_nacks E sqs st1 = Some st'" "viewer_ok live st'"
      "budget_ok (fb_sess st')" "spent wire st1 es st'" by blast
    then show ?thesis unfolding e using spent_trans [OF s(4), where es = es and st'' = st'] by (intro exI conjI)
  qed
qed

text \<open>The backoff keeps the window between its base and its maximum, once it is set.\<close>

definition nack_window_ok :: "ngx_rtc_tunables \<Rightarrow> ('c, 'a, 'u) ngx_rtc_session \<Rightarrow> bool" where
  "nack_window_ok tun s \<longleftrightarrow> nack_window_ms s = 0 \<or>
     unat (nack_window_ms_base tun) \<le> unat (nack_window_ms s) \<and> unat (nack_window_ms s) \<le> unat (nack_window_max_ms tun)"

lemma unat_ucast_u32: "unat (ucast (x :: u32) :: u64) = unat x"
proof -
  have "unat x < 2 ^ 64" using unsigned_less [of x, where 'a = nat] by simp
  then show ?thesis by (simp add: unsigned_ucast_eq take_bit_nat_eq_self_iff)
qed

lemma window_step_cases:
  assumes tun: "nack_window_ms_base tun \<le> nack_window_max_ms tun" and win: "nack_window_ok tun s" and now: "nack_window_start s \<le> now"
  shows "(\<exists>k. ngx_rtc_session_nack_window_step tun (Some s) now = (False, Some (s\<lparr>nack_window_ms := k\<rparr>)) \<and> nack_window_ok tun (s\<lparr>nack_window_ms := k\<rparr>))
     \<or> (\<exists>k. ngx_rtc_session_nack_window_step tun (Some s) now
            = (True, Some (s\<lparr>nack_window_ms := k, nack_window_start := now, nack_retransmitted := 0\<rparr>))
          \<and> nack_window_ok tun (s\<lparr>nack_window_ms := k\<rparr>) \<and> unat (nack_window_start s) + unat (nack_window_ms_base tun) \<le> unat now)"
proof -
  define base where "base = (ucast (nack_window_ms_base tun) :: u64)"
  define k0 where "k0 = (if nack_window_ms s = 0 then base else nack_window_ms s)"
  define k1 where "k1 = (if nack_retransmitted s \<ge> NGX_RTC_NACK_BUDGET then min (k0 * 2) (ucast (nack_window_max_ms tun))
     else if nack_retransmitted s = 0 then base else k0)"
  have b: "unat base = unat (nack_window_ms_base tun)" "unat (nack_window_ms_base tun) \<le> unat (nack_window_max_ms tun)"
    using tun by (simp_all add: base_def unat_ucast_u32 word_le_nat_alt)
  have k0: "unat base \<le> unat k0" "unat k0 \<le> unat (nack_window_max_ms tun)" using win b by (auto simp: k0_def nack_window_ok_def)
  have "unat (nack_window_max_ms tun) < 2 ^ 32" using unsigned_less [of "nack_window_max_ms tun", where 'a = nat] by simp
  then have d: "unat (k0 * 2) = unat k0 * 2" using k0(2) by (simp add: unat_word_ariths)
  have k1: "unat base \<le> unat k1" "unat k1 \<le> unat (nack_window_max_ms tun)"
    using k0 b d by (auto simp: k1_def min_def word_le_nat_alt unat_ucast_u32)
  have w: "nack_window_ok tun (s\<lparr>nack_window_ms := k0\<rparr>)" "nack_window_ok tun (s\<lparr>nack_window_ms := k1\<rparr>)" using k0 k1 b by (simp_all add: nack_window_ok_def)
  have st: "ngx_rtc_session_nack_window_step tun (Some s) now = (if now - nack_window_start s < k0 then (False, Some (s\<lparr>nack_window_ms := k0\<rparr>))
      else (True, Some (s\<lparr>nack_window_ms := k1, nack_window_start := now, nack_retransmitted := 0\<rparr>)))"
    by (simp add: ngx_rtc_session_nack_window_step_def Let_def k0_def k1_def base_def)
  show ?thesis
  proof (cases "now - nack_window_start s < k0")
    case True
    then show ?thesis using st w(1) by auto
  next
    case False
    then have "unat k0 \<le> unat now - unat (nack_window_start s)" "unat (nack_window_start s) \<le> unat now"
      using now by (simp_all add: word_le_nat_alt [symmetric] unat_sub word_less_nat_alt)
    then have "unat (nack_window_start s) + unat (nack_window_ms_base tun) \<le> unat now" using k0(1) b(1) by simp
    then show ?thesis using st w(2) False by auto
  qed
qed
definition nack_pkt :: "ngx_rtc_rtcp_pkt \<Rightarrow> bool" where
  "nack_pkt pkt \<longleftrightarrow> pkt_type pkt = NGX_RTC_RTCP_RTPFB \<and> fmt pkt = NGX_RTC_RTCP_FMT_NACK"

text \<open>A viewer between two packets.\<close>

definition viewer_calm :: "('m \<Rightarrow> nat set) \<Rightarrow> ngx_rtc_tunables \<Rightarrow> ('w, 'c, 'a, 'u, 'm) feedback \<Rightarrow> bool" where
  "viewer_calm live tun st \<longleftrightarrow> viewer_ok live st \<and> budget_ok (fb_sess st) \<and> nack_window_ok tun (fb_sess st)"

text \<open>One NACK, which may have opened a new window (\<open>r\<close>) before it was answered.\<close>

definition nacked ::
  "('w \<Rightarrow> bytes list) \<Rightarrow> nat \<Rightarrow> u64 \<Rightarrow> ('w, 'c, 'a, 'u, 'm) feedback \<Rightarrow> bool \<Rightarrow> bytes list \<Rightarrow> ('w, 'c, 'a, 'u, 'm) feedback \<Rightarrow> bool" where
  "nacked wire B now st r ds st' \<longleftrightarrow> wire (fb_world st') = wire (fb_world st) @ ds
     \<and> length ds + unat (nack_retransmitted (fb_sess st)) \<le> unat (nack_retransmitted (fb_sess st')) + (if r then 128 else 0)
     \<and> (if r then nack_window_start (fb_sess st') = now \<and> unat (nack_window_start (fb_sess st)) + B \<le> unat now
        else nack_window_start (fb_sess st') = nack_window_start (fb_sess st))"

lemma nack_step:
  assumes st: "viewer_calm live tun st" and E: "wire_env wire (fe_core E)" "env_tunables (fe_core E) = tun"
    and tun: "nack_window_ms_base tun \<le> nack_window_max_ms tun" and now: "nack_window_start (fb_sess st) \<le> env_now (fe_core E)"
    and pkt: "nack_pkt pkt"
  shows "\<exists>st' r ds. ngx_rtc_stream_rtcp_cb E pkt st = Some st' \<and> viewer_calm live tun st'
    \<and> nacked wire (unat (nack_window_ms_base tun)) (env_now (fe_core E)) st r ds st'"
proof -
  let ?s = "fb_sess st" and ?now = "env_now (fe_core E)" and ?B = "unat (nack_window_ms_base tun)"
  obtain rc seqs n where x: "ngx_rtc_rtcp_nack_expand (Some pkt) (Some (replicate 512 0)) 512 (Some 0) = (rc, seqs, n)" by (rule prod_cases3)
  show ?thesis
  proof (cases "source ?s = None \<or> \<not> about_video pkt st \<or> rc \<noteq> NGX_RTC_OK")
    case True
    then have "ngx_rtc_stream_rtcp_cb E pkt st = Some st"
      using pkt by (auto simp: ngx_rtc_stream_rtcp_cb_def nack_pkt_def rtcp_nack_def x)
    moreover have "nacked wire ?B ?now st False [] st" by (simp add: nacked_def)
    ultimately show ?thesis using st by blast
  next
    case False
    then obtain src0 where src0: "source ?s = Some src0" by auto
    define sqs where "sqs = take (unat (the n)) (the seqs)"
    define s1 where "s1 = (case ngx_rtc_session_nack_window_step tun (Some ?s) ?now of (rolled, sp) \<Rightarrow> the (if rolled then ngx_rtc_session_nack_reset sp else sp))"
    have e: "ngx_rtc_stream_rtcp_cb E pkt st = answer_nacks E sqs (st\<lparr>fb_sess := s1\<rparr>)"
      using False src0 pkt E(2)
      by (simp add: ngx_rtc_stream_rtcp_cb_def nack_pkt_def rtcp_nack_def x sqs_def s1_def Let_def split: prod.split)
    have o: "viewer_ok live st" "budget_ok ?s" "nack_window_ok tun ?s" using st by (simp_all add: viewer_calm_def)
    obtain r k where s1: "s1 = (if r then ?s\<lparr>nack_window_ms := k, nack_window_start := ?now, nack_retransmitted := 0, nack_seen_count := 0\<rparr>
          else ?s\<lparr>nack_window_ms := k\<rparr>)" "nack_window_ok tun (?s\<lparr>nack_window_ms := k\<rparr>)"
      and roll: "r \<Longrightarrow> unat (nack_window_start ?s) + ?B \<le> unat ?now"
    proof (cases rule: disjE [OF window_step_cases [OF tun o(3) now]])
      case 1
      then obtain k where "ngx_rtc_session_nack_window_step tun (Some ?s) ?now = (False, Some (?s\<lparr>nack_window_ms := k\<rparr>))"
        "nack_window_ok tun (?s\<lparr>nack_window_ms := k\<rparr>)" by blast
      then show ?thesis using that [of False k] by (simp add: s1_def)
    next
      case 2
      then obtain k where "ngx_rtc_session_nack_window_step tun (Some ?s) ?now
            = (True, Some (?s\<lparr>nack_window_ms := k, nack_window_start := ?now, nack_retransmitted := 0\<rparr>))"
        "nack_window_ok tun (?s\<lparr>nack_window_ms := k\<rparr>)" "unat (nack_window_start ?s) + ?B \<le> unat ?now" by blast
      then show ?thesis using that [of True k] by (simp add: s1_def ngx_rtc_session_nack_reset_def)
    qed
    have w1: "nack_window_ok tun s1" using s1 by (simp add: nack_window_ok_def)
    have ok1: "viewer_ok live (st\<lparr>fb_sess := s1\<rparr>)" "budget_ok s1" "source s1 = source ?s"
      using o s1(1) by (simp_all add: viewer_ok_def sender_ok_def fsm_wf_def answered_def budget_ok_def)
    have src: "source (fb_sess (st\<lparr>fb_sess := s1\<rparr>)) \<noteq> None" using False ok1(3) by simp
    from answer_nacks_spent [OF ok1(1) _ E(1) src, of sqs] ok1(2) obtain st' ds where a: "answer_nacks E sqs (st\<lparr>fb_sess := s1\<rparr>) = Some st'"
      "viewer_ok live st'" "budget_ok (fb_sess st')" "spent wire (st\<lparr>fb_sess := s1\<rparr>) ds st'" by auto
    have "nack_window_ok tun (fb_sess st')" using w1 a(4) by (simp add: nack_window_ok_def spent_def)
    moreover have "nacked wire ?B ?now st r ds st'"
      using a(4) s1(1) roll o(2) by (simp add: nacked_def spent_def budget_ok_def split: if_splits)
    ultimately show ?thesis using e a by (auto simp: viewer_calm_def)
  qed
qed

section \<open>A storm\<close>

primrec nack_run :: "(('w, 'c, 'a, 'u, 'k, 'm) fb_env \<times> ngx_rtc_rtcp_pkt) list \<Rightarrow> ('w, 'c, 'a, 'u, 'm) feedback \<Rightarrow> ('w, 'c, 'a, 'u, 'm) feedback option" where
  "nack_run [] st = Some st"
| "nack_run (x # xs) st = (case x of (E, pkt) \<Rightarrow> Option.bind (ngx_rtc_stream_rtcp_cb E pkt st) (nack_run xs))"

abbreviation nack_time :: "('w, 'c, 'a, 'u, 'k, 'm) fb_env \<times> ngx_rtc_rtcp_pkt \<Rightarrow> nat" where
  "nack_time x \<equiv> unat (env_now (fe_core (fst x)))"

text \<open>\<open>R\<close> counts the windows opened, \<open>L\<close> is a time not after the first packet.\<close>

lemma nack_run_rolls:
  assumes "viewer_calm live tun st" "nack_window_ms_base tun \<le> nack_window_max_ms tun"
    and "\<forall>(E, pkt) \<in> set xs. wire_env wire (fe_core E) \<and> env_tunables (fe_core E) = tun \<and> nack_pkt pkt"
    and "sorted (L # map nack_time xs)" "unat (nack_window_start (fb_sess st)) \<le> L"
  shows "\<exists>st' ds R. nack_run xs st = Some st' \<and> viewer_calm live tun st' \<and> wire (fb_world st') = wire (fb_world st) @ ds
    \<and> length ds + unat (nack_retransmitted (fb_sess st)) \<le> unat (nack_retransmitted (fb_sess st')) + 128 * R
    \<and> unat (nack_window_start (fb_sess st')) \<le> last (L # map nack_time xs)
    \<and> unat (nack_window_start (fb_sess st)) \<le> unat (nack_window_start (fb_sess st'))
    \<and> (0 < R \<longrightarrow> max (unat (nack_window_start (fb_sess st)) + unat (nack_window_ms_base tun)) L + unat (nack_window_ms_base tun) * (R - 1)
         \<le> unat (nack_window_start (fb_sess st')))"
  using assms
proof (induction xs arbitrary: st L)
  case Nil
  then show ?case by auto
next
  case (Cons x xs)
  obtain E pkt where x: "x = (E, pkt)" by (cases x)
  let ?now = "env_now (fe_core E)" and ?B = "unat (nack_window_ms_base tun)"
  have h: "wire_env wire (fe_core E)" "env_tunables (fe_core E) = tun" "nack_pkt pkt" using Cons.prems(3) x by auto
  have L: "L \<le> unat ?now" using Cons.prems(4) x by simp
  then have le: "nack_window_start (fb_sess st) \<le> ?now" using Cons.prems(5) by (simp add: word_le_nat_alt)
  obtain st1 r ds where s: "ngx_rtc_stream_rtcp_cb E pkt st = Some st1" "viewer_calm live tun st1" "nacked wire ?B ?now st r ds st1"
    using nack_step [OF Cons.prems(1) h(1,2) Cons.prems(2) le h(3)] by blast
  have n: "wire (fb_world st1) = wire (fb_world st) @ ds"
    "length ds + unat (nack_retransmitted (fb_sess st)) \<le> unat (nack_retransmitted (fb_sess st1)) + (if r then 128 else 0)"
    "r \<Longrightarrow> nack_window_start (fb_sess st1) = ?now" "r \<Longrightarrow> unat (nack_window_start (fb_sess st)) + ?B \<le> unat ?now"
    "\<not> r \<Longrightarrow> nack_window_start (fb_sess st1) = nack_window_start (fb_sess st)"
    using s(3) by (auto simp: nacked_def)
  have start1: "unat (nack_window_start (fb_sess st1)) \<le> unat ?now" using n(3,5) Cons.prems(5) L by (cases r) auto
  have srt: "sorted (unat ?now # map nack_time xs)" using Cons.prems(4) x by simp
  have hs: "\<forall>(E, pkt) \<in> set xs. wire_env wire (fe_core E) \<and> env_tunables (fe_core E) = tun \<and> nack_pkt pkt" using Cons.prems(3) by simp
  from Cons.IH [OF s(2) Cons.prems(2) hs srt start1] obtain st' es R where ih: "nack_run xs st1 = Some st'" "viewer_calm live tun st'"
    "wire (fb_world st') = wire (fb_world st1) @ es"
    "length es + unat (nack_retransmitted (fb_sess st1)) \<le> unat (nack_retransmitted (fb_sess st')) + 128 * R"
    "unat (nack_window_start (fb_sess st')) \<le> last (unat ?now # map nack_time xs)"
    "unat (nack_window_start (fb_sess st1)) \<le> unat (nack_window_start (fb_sess st'))"
    "0 < R \<longrightarrow> max (unat (nack_window_start (fb_sess st1)) + ?B) (unat ?now) + ?B * (R - 1) \<le> unat (nack_window_start (fb_sess st'))"
    by blast
  have run: "nack_run (x # xs) st = Some st'" using s(1) ih(1) x by simp
  have wr: "wire (fb_world st') = wire (fb_world st) @ (ds @ es)" using n(1) ih(3) by simp
  have ls: "unat (nack_window_start (fb_sess st')) \<le> last (L # map nack_time (x # xs))" using ih(5) x by simp
  have mono: "unat (nack_window_start (fb_sess st)) \<le> unat (nack_window_start (fb_sess st'))"
    using ih(6) n(3,4,5) by (cases r) auto
  show ?case
  proof (cases r)
    case False
    have "max (unat (nack_window_start (fb_sess st)) + ?B) L + ?B * (R - 1) \<le> unat (nack_window_start (fb_sess st'))" if "0 < R"
      using ih(7) that n(5) [OF False] L by simp
    moreover have "length (ds @ es) + unat (nack_retransmitted (fb_sess st)) \<le> unat (nack_retransmitted (fb_sess st')) + 128 * R"
      using n(2) ih(4) False by simp
    ultimately show ?thesis using run ih(2) wr ls mono by blast
  next
    case True
    have m: "max (unat (nack_window_start (fb_sess st)) + ?B) L \<le> unat ?now" using n(4) [OF True] L by simp
    have "unat ?now + ?B * R \<le> unat (nack_window_start (fb_sess st'))"
    proof (cases R)
      case 0
      then show ?thesis using ih(6) n(3) [OF True] by simp
    next
      case (Suc k)
      then show ?thesis using ih(7) n(3) [OF True] by simp
    qed
    then have "max (unat (nack_window_start (fb_sess st)) + ?B) L + ?B * R \<le> unat (nack_window_start (fb_sess st'))"
      by (rule le_trans [OF add_right_mono [OF m]])
    then have "0 < Suc R \<longrightarrow> max (unat (nack_window_start (fb_sess st)) + ?B) L + ?B * (Suc R - 1) \<le> unat (nack_window_start (fb_sess st'))"
      by (simp only: diff_Suc_1 simp_thms)
    moreover have "length (ds @ es) + unat (nack_retransmitted (fb_sess st)) \<le> unat (nack_retransmitted (fb_sess st')) + 128 * Suc R"
      using n(2) ih(4) True by simp
    ultimately show ?thesis using run ih(2) wr ls mono by blast
  qed
qed


definition demo_feedback :: "(bytes list, nat, nat, nat, nat) feedback" where
  "demo_feedback = \<lparr>fb_sess = demo_session, fb_last_active = 0, fb_ufrag = [97], fb_name = [97], fb_src_publishing = True, fb_pli_sent_ms = 0,
     fb_pli_requests = 0, fb_sh = Some (shm_fresh 0 1), fb_queue = [], fb_bye = False, fb_world = []\<rparr>"

definition demo_fb_env :: "u64 \<Rightarrow> (bytes list, nat, nat, nat, nat, nat) fb_env" where
  "demo_fb_env t = \<lparr>fe_core = demo_env\<lparr>env_now := t\<rparr>, fe_shm = demo_shm_env, fe_alloc = True\<rparr>"

text \<open>A NACK for the packets 7, 8 and 23 of the demo source's video.\<close>

definition demo_nack :: ngx_rtc_rtcp_pkt where
  "demo_nack = rtcp_pkt_zero\<lparr>pkt_type := 205, fmt := 1, media_ssrc := 5, nack_count := 1, nack_pid := [7], nack_blp := [0x8001]\<rparr>"

end
