(* ===== verification/Media.thy ===== *)
theory Media
  imports Worker Send ShmRing Jitter Rtp
begin

text \<open>
  The media plane of a worker: fan-out of a plaintext RTP packet to the viewers of a source, on this worker by direct sends
  and on the others through their media rings (\<^verbatim>\<open>ngx_rtc_broadcast_rtp\<close> in \<^verbatim>\<open>ngx_rtmp_rtc_bridge_module.c\<close>), the
  draining of this worker's ring, and the WHIP uplink (\<^verbatim>\<open>ngx_rtc_stream_module.c\<close>). The registry of the theory
  \<open>Worker\<close> holds one half of a source or session, its media state is the other half, at the same address;
  \<open>now_msec\<close> and \<open>env_now\<close> are both \<^verbatim>\<open>ngx_current_msec\<close>. A result \<open>None\<close> is an access to a freed object.
\<close>

section \<open>State\<close>

abbreviation NGX_RTC_SOURCE_MAX_SNAPSHOT :: nat where "NGX_RTC_SOURCE_MAX_SNAPSHOT \<equiv> 256"

record media_source =
  ms_video_seq :: u16
  ms_audio_seq :: u16
  ms_video_ts :: u32
  ms_audio_ts :: u32
  ms_audio_ts_valid :: bool
  ms_have_ts :: bool
  ms_last_video_rtmp_ms :: u32
  ms_last_audio_rtmp_ms :: u32
  ms_ring_drops :: u32
  ms_video_pkts :: u32
  ms_video_octets :: u32
  ms_audio_pkts :: u32
  ms_audio_octets :: u32
  ms_sps :: bytes
  ms_sps_len :: u32
  ms_pps :: bytes
  ms_pps_len :: u32
  ms_profile :: bytes
  ms_profile_valid :: bool
  ms_audio_asc :: bytes
  ms_audio_asc_len :: u32
  ms_noctx_warned :: bool
  ms_gop :: ngx_rtc_rtp_ring
  ms_jitter :: ngx_rtc_jitter
  ms_snap_version :: u64
  ms_snap :: "(u64 \<times> int) list"

text \<open>The zeroed memory of a new source.\<close>

definition media_source_zero :: media_source where
  "media_source_zero = \<lparr>ms_video_seq = 0, ms_audio_seq = 0, ms_video_ts = 0, ms_audio_ts = 0, ms_audio_ts_valid = False, ms_have_ts = False,
     ms_last_video_rtmp_ms = 0, ms_last_audio_rtmp_ms = 0, ms_ring_drops = 0, ms_video_pkts = 0, ms_video_octets = 0, ms_audio_pkts = 0,
     ms_audio_octets = 0, ms_sps = replicate 256 0, ms_sps_len = 0, ms_pps = replicate 256 0, ms_pps_len = 0, ms_profile = replicate 3 0,
     ms_profile_valid = False, ms_audio_asc = replicate 64 0, ms_audio_asc_len = 0, ms_noctx_warned = False,
     ms_gop = \<lparr>slots = None, capacity = 0, ring_head = 0, ring_count = 0, gop_start = 0\<rparr>, ms_jitter = jitter_zero,
     ms_snap_version = 0, ms_snap = []\<rparr>"

text \<open>
  \<open>me_rings\<close> are the media rings by worker slot, \<open>me_notified\<close> the workers woken through their eventfd, \<open>me_mirror\<close>
  the four counter words of each source in the zone.
\<close>

record ('w, 'c, 'a, 'u, 'm) media =
  me_worker :: "'m worker"
  me_source :: "nat \<Rightarrow> media_source option"
  me_session :: "nat \<Rightarrow> ('c, 'a, 'u) ngx_rtc_session option"
  me_rings :: "nat \<Rightarrow> ngx_rtc_shm_ring option"
  me_notified :: "nat list"
  me_mirror :: "nat \<Rightarrow> u32 \<times> u32 \<times> u32 \<times> u32"
  me_world :: 'w

text \<open>\<open>mv_alloc\<close>: the GOP ring can be allocated; \<open>mv_notify\<close>: the worker's eventfd is open.\<close>

record ('w, 'c, 'a, 'u, 'k, 'm) media_env =
  mv_core :: "('w, 'c, 'a, 'u, 'k) core_env"
  mv_worker :: "'m worker_env"
  mv_alloc :: bool
  mv_notify :: "nat \<Rightarrow> bool"

abbreviation mv_slot :: "('w, 'c, 'a, 'u, 'k, 'm) media_env \<Rightarrow> nat" where
  "mv_slot E \<equiv> unat (ngx_worker (mv_worker E))"

definition set_media :: "nat \<Rightarrow> (media_source \<Rightarrow> media_source) \<Rightarrow> ('w, 'c, 'a, 'u, 'm) media \<Rightarrow> ('w, 'c, 'a, 'u, 'm) media option" where
  "set_media q f M = map_option (\<lambda>s. M\<lparr>me_source := (me_source M)(q \<mapsto> f s)\<rparr>) (me_source M q)"

text \<open>Both halves of a source, as the send path reads them, and of a session.\<close>

definition source_view :: "('w, 'c, 'a, 'u, 'm) media \<Rightarrow> nat \<Rightarrow> ngx_rtc_source option" where
  "source_view M q =
     do { l \<leftarrow> w_sources (me_worker M) q;
          s \<leftarrow> me_source M q;
          Some \<lparr>src_video_ssrc = ls_video_ssrc l, src_audio_ssrc = ls_audio_ssrc l, src_gop = ms_gop s\<rparr> }"

definition session_view :: "('w, 'c, 'a, 'u, 'm) media \<Rightarrow> nat \<Rightarrow> ('c, 'a, 'u) ngx_rtc_session option" where
  "session_view M p =
     do { l \<leftarrow> w_sessions (me_worker M) p;
          s \<leftarrow> me_session M p;
          (case lse_source l of
             None \<Rightarrow> Some (s\<lparr>source := None\<rparr>)
           | Some q \<Rightarrow> do { v \<leftarrow> source_view M q; Some (s\<lparr>source := Some v\<rparr>) }) }"

definition media_send ::
  "('w, 'c, 'a, 'u, 'k, 'm) media_env \<Rightarrow> nat \<Rightarrow> bytes \<Rightarrow> nat \<Rightarrow> bool \<Rightarrow> ('w, 'c, 'a, 'u, 'm) media \<Rightarrow> ('w, 'c, 'a, 'u, 'm) media option" where
  "media_send E p rtp len gop M =
     do { s \<leftarrow> session_view M p;
          (ok, sp, w) \<leftarrow> ngx_rtc_session_send_rtp (mv_core E) (Some s) rtp len gop (me_world M);
          Some (M\<lparr>me_session := (me_session M)(p := sp), me_world := w\<rparr>) }"

text \<open>One packet to a session given by its id, when that session is on this worker.\<close>

definition send_to_id ::
  "('w, 'c, 'a, 'u, 'k, 'm) media_env \<Rightarrow> bytes \<Rightarrow> nat \<Rightarrow> bool \<Rightarrow> u64 \<Rightarrow> ('w, 'c, 'a, 'u, 'm) media \<Rightarrow> ('w, 'c, 'a, 'u, 'm) media option" where
  "send_to_id E rtp len gop sid M =
     do { found \<leftarrow> ngx_rtc_session_find_by_id (me_worker M) sid;
          (case found of None \<Rightarrow> Some M | Some p \<Rightarrow> media_send E p rtp len gop M) }"

primrec send_to_ids ::
  "('w, 'c, 'a, 'u, 'k, 'm) media_env \<Rightarrow> bytes \<Rightarrow> nat \<Rightarrow> bool \<Rightarrow> u64 list \<Rightarrow> ('w, 'c, 'a, 'u, 'm) media \<Rightarrow> ('w, 'c, 'a, 'u, 'm) media option" where
  "send_to_ids E rtp len gop [] M = Some M"
| "send_to_ids E rtp len gop (sid # sids) M = do { M \<leftarrow> send_to_id E rtp len gop sid M; send_to_ids E rtp len gop sids M }"

section \<open>Broadcast\<close>

text \<open>The cached snapshot of the ready viewers, taken again when the zone's version of them has moved on.\<close>

definition refresh_snapshot :: "nat \<Rightarrow> ('w, 'c, 'a, 'u, 'm) media \<Rightarrow> ('w, 'c, 'a, 'u, 'm) media option" where
  "refresh_snapshot q M =
     do { l \<leftarrow> w_sources (me_worker M) q;
          s \<leftarrow> me_source M q;
          fresh \<leftarrow> (case ls_shm_src l of
                     None \<Rightarrow> Some False
                   | Some a \<Rightarrow> map_option (\<lambda>z. shs_version z = ms_snap_version s) (zone_source (me_worker M) a));
          if fresh then Some M
          else do { (snap, W) \<leftarrow> on_zone (\<lambda>sh. ngx_rtc_shm_source_snapshot sh (Some (ls_name l)) NGX_RTC_SOURCE_MAX_SNAPSHOT) (me_worker M);
                    version \<leftarrow> (case ls_shm_src l of
                                 None \<Rightarrow> Some (ms_snap_version s)
                               | Some a \<Rightarrow> map_option shs_version (zone_source W a));
                    Some (M\<lparr>me_worker := W, me_source := (me_source M)(q \<mapsto> s\<lparr>ms_snap := snap, ms_snap_version := version\<rparr>)\<rparr>) } }"

text \<open>The ids of one worker, in the order of the snapshot, as many as an entry holds.\<close>

definition ring_ids :: "(u64 \<times> int) list \<Rightarrow> nat \<Rightarrow> u64 list" where
  "ring_ids snap w = take NGX_RTC_RING_MAX_SESSIONS (map fst (filter (\<lambda>(_, slot). slot = int w) snap))"

definition ring_send ::
  "('w, 'c, 'a, 'u, 'k, 'm) media_env \<Rightarrow> nat \<Rightarrow> (u64 \<times> int) list \<Rightarrow> bytes \<Rightarrow> nat \<Rightarrow> bool \<Rightarrow> bool \<Rightarrow> nat \<Rightarrow> ('w, 'c, 'a, 'u, 'm) media
    \<Rightarrow> ('w, 'c, 'a, 'u, 'm) media option" where
  "ring_send E q snap rtp len is_video gop w M =
     (if w = mv_slot E then Some M
      else (let ids = ring_ids snap w
            in if ids = [] \<or> me_rings M w = None then Some M
               else (case ngx_rtc_shm_ring_enqueue (me_rings M w) (if is_video then 0 else 1) (if gop then 1 else 0)
                            (Some rtp) (word_of_nat len) (Some ids) (length ids) of
                       (rc, r) \<Rightarrow>
                         let M = M\<lparr>me_rings := (me_rings M)(w := r)\<rparr>
                         in if rc = NGX_OK then Some (if mv_notify E w then M\<lparr>me_notified := me_notified M @ [w]\<rparr> else M)
                            else set_media q (\<lambda>s. s\<lparr>ms_ring_drops := ms_ring_drops s + 1\<rparr>) M)))"

primrec ring_sends ::
  "('w, 'c, 'a, 'u, 'k, 'm) media_env \<Rightarrow> nat \<Rightarrow> (u64 \<times> int) list \<Rightarrow> bytes \<Rightarrow> nat \<Rightarrow> bool \<Rightarrow> bool \<Rightarrow> nat list \<Rightarrow> ('w, 'c, 'a, 'u, 'm) media
    \<Rightarrow> ('w, 'c, 'a, 'u, 'm) media option" where
  "ring_sends E q snap rtp len is_video gop [] M = Some M"
| "ring_sends E q snap rtp len is_video gop (w # ws) M =
     do { M \<leftarrow> ring_send E q snap rtp len is_video gop w M; ring_sends E q snap rtp len is_video gop ws M }"

definition ngx_rtc_broadcast_rtp ::
  "('w, 'c, 'a, 'u, 'k, 'm) media_env \<Rightarrow> nat \<Rightarrow> bytes \<Rightarrow> nat \<Rightarrow> bool \<Rightarrow> bool \<Rightarrow> ('w, 'c, 'a, 'u, 'm) media \<Rightarrow> ('w, 'c, 'a, 'u, 'm) media option" where
  "ngx_rtc_broadcast_rtp E q rtp len is_video gop M =
     (if len > NGX_RTC_RING_RTP_MAX then Some M
      else if w_sh (me_worker M) = None then Some M
      else do {
        M \<leftarrow> refresh_snapshot q M;
        s \<leftarrow> me_source M q;
        let snap = ms_snap s;
        if snap = [] then Some M
        else do {
          M \<leftarrow> send_to_ids E rtp len gop (map fst (filter (\<lambda>(_, slot). slot = int (mv_slot E)) snap)) M;
          sh \<leftarrow> w_sh (me_worker M);
          ring_sends E q snap rtp len is_video gop [0..<unat (nworkers sh)] M } })"

section \<open>The consumer of a ring\<close>

text \<open>\<open>n\<close> counts down the entries; a dequeue fills the whole of \<^verbatim>\<open>entry\<close>.\<close>

primrec ring_drain_loop ::
  "nat \<Rightarrow> ('w, 'c, 'a, 'u, 'k, 'm) media_env \<Rightarrow> ('w, 'c, 'a, 'u, 'm) media \<Rightarrow> ('w, 'c, 'a, 'u, 'm) media option" where
  "ring_drain_loop 0 E M = Some M"
| "ring_drain_loop (Suc n) E M =
     (case ngx_rtc_shm_ring_dequeue (me_rings M (mv_slot E)) (Some ring_entry_zero) of
        (rc, r, ep) \<Rightarrow>
          if rc \<noteq> NGX_OK then Some M
          else (let entry = the ep; M = M\<lparr>me_rings := (me_rings M)(mv_slot E := r)\<rparr>
                in do { M \<leftarrow> send_to_ids E (e_rtp entry) (unat (e_len entry)) ((ucast (e_gop entry) :: u8) \<noteq> 0)
                              (take (unat (e_nsess entry)) (e_sess entry)) M;
                        ring_drain_loop n E M }))"

definition ngx_rtc_stream_drain_ring ::
  "('w, 'c, 'a, 'u, 'k, 'm) media_env \<Rightarrow> ('w, 'c, 'a, 'u, 'm) media \<Rightarrow> ('w, 'c, 'a, 'u, 'm) media option" where
  "ngx_rtc_stream_drain_ring E M =
     (if w_sh (me_worker M) = None then Some M
      else (case me_rings M (mv_slot E) of None \<Rightarrow> Some M | Some r \<Rightarrow> ring_drain_loop (unat (sr_head r - sr_tail r)) E M))"

section \<open>The WHIP uplink\<close>

text \<open>The claim on the zone's source is renewed by \<^verbatim>\<open>ngx_rtc_stream_shm_source\<close>; the counters are copied to the source it finds.\<close>

definition ngx_rtc_stream_shm_stats :: "nat \<Rightarrow> nat option \<Rightarrow> ('w, 'c, 'a, 'u, 'm) media \<Rightarrow> ('w, 'c, 'a, 'u, 'm) media option" where
  "ngx_rtc_stream_shm_stats q shm_srcp M =
     (case shm_srcp of
        None \<Rightarrow> Some M
      | Some a \<Rightarrow> do { z \<leftarrow> zone_source (me_worker M) a;
                       s \<leftarrow> me_source M q;
                       Some (M\<lparr>me_mirror := (me_mirror M)(a := (ms_video_pkts s, ms_video_octets s, ms_audio_pkts s, ms_audio_octets s))\<rparr>) })"

definition shm_source_of :: "('w, 'c, 'a, 'u, 'k, 'm) media_env \<Rightarrow> nat \<Rightarrow> ('w, 'c, 'a, 'u, 'm) media \<Rightarrow> (nat option \<times> ('w, 'c, 'a, 'u, 'm) media) option" where
  "shm_source_of E q M =
     map_option (\<lambda>(a, W). (a, M\<lparr>me_worker := W\<rparr>)) (ngx_rtc_stream_shm_source (mv_worker E) (me_worker M) (Some q))"

definition payload_octets :: "u32 \<Rightarrow> u32" where
  "payload_octets len = (if len > 12 then len - 12 else len)"

definition append_retransmit ::
  "('w, 'c, 'a, 'u, 'k, 'm) media_env \<Rightarrow> nat option \<Rightarrow> bytes \<Rightarrow> nat \<Rightarrow> bool \<Rightarrow> ('w, 'c, 'a, 'u, 'm) media \<Rightarrow> ('w, 'c, 'a, 'u, 'm) media option" where
  "append_retransmit E ap rtp len gop M =
     map_option (\<lambda>sh. M\<lparr>me_worker := (me_worker M)\<lparr>w_sh := sh\<rparr>\<rparr>)
       (ngx_rtc_shm_retransmit_append (we_shm (mv_worker E)) (w_sh (me_worker M)) ap (Some rtp) len gop)"

definition push_gop :: "('w, 'c, 'a, 'u, 'k, 'm) media_env \<Rightarrow> nat \<Rightarrow> bytes \<Rightarrow> u32 \<Rightarrow> bool \<Rightarrow> ('w, 'c, 'a, 'u, 'm) media \<Rightarrow> ('w, 'c, 'a, 'u, 'm) media option" where
  "push_gop E q rtp len gop = set_media q (\<lambda>s. s\<lparr>ms_gop := the (ngx_rtc_rtp_ring_push (env_tunables (mv_core E)) (mv_alloc E) (Some (ms_gop s)) (Some rtp) len gop)\<rparr>)"

text \<open>The emit callback of the reorder buffer; its state is the media state, \<open>None\<close> after a fault.\<close>

definition whip_emit_video ::
  "('w, 'c, 'a, 'u, 'k, 'm) media_env \<Rightarrow> nat \<Rightarrow> bytes \<Rightarrow> bool \<Rightarrow> ('w, 'c, 'a, 'u, 'm) media \<Rightarrow> ('w, 'c, 'a, 'u, 'm) media option" where
  "whip_emit_video E q rtp gop M =
     (let len = word_of_nat (length rtp)
      in do { M \<leftarrow> ngx_rtc_broadcast_rtp E q rtp (length rtp) True gop M;
              M \<leftarrow> set_media q (\<lambda>s. s\<lparr>ms_video_pkts := ms_video_pkts s + 1, ms_video_octets := ms_video_octets s + payload_octets len\<rparr>) M;
              (a, M) \<leftarrow> shm_source_of E q M;
              M \<leftarrow> ngx_rtc_stream_shm_stats q a M;
              M \<leftarrow> (if a \<noteq> None then append_retransmit E a rtp (length rtp) gop M else Some M);
              push_gop E q rtp len gop M })"

definition ngx_rtc_stream_whip_emit :: "('w, 'c, 'a, 'u, 'k, 'm) media_env \<Rightarrow> nat option \<Rightarrow> ('w, 'c, 'a, 'u, 'm) media option jitter_emit_fn" where
  "ngx_rtc_stream_whip_emit E qp Mp rtp is_gop_start =
     (case qp of
        None \<Rightarrow> (NGX_RTC_ERR_INVALID, Mp)
      | Some q \<Rightarrow> (NGX_RTC_OK, Option.bind Mp (whip_emit_video E q rtp (is_gop_start \<noteq> 0))))"

text \<open>The publisher's SSRC becomes the source's.\<close>

definition adopt_ssrc :: "nat \<Rightarrow> bool \<Rightarrow> u32 \<Rightarrow> ('w, 'c, 'a, 'u, 'm) media \<Rightarrow> ('w, 'c, 'a, 'u, 'm) media option" where
  "adopt_ssrc q is_video ssrc M =
     (if w_sh (me_worker M) = None then Some M
      else do { l \<leftarrow> w_sources (me_worker M) q;
                if is_video \<and> ls_video_ssrc l \<noteq> ssrc
                then do { W \<leftarrow> set_source q (\<lambda>l. l\<lparr>ls_video_ssrc := ssrc\<rparr>) (me_worker M);
                          (_, W) \<leftarrow> on_zone (\<lambda>sh. ngx_rtc_shm_source_set_ssrc sh (Some (ls_name l)) ssrc 0) W;
                          Some (M\<lparr>me_worker := W\<rparr>) }
                else if \<not> is_video \<and> ls_audio_ssrc l \<noteq> ssrc
                then do { W \<leftarrow> set_source q (\<lambda>l. l\<lparr>ls_audio_ssrc := ssrc\<rparr>) (me_worker M);
                          (_, W) \<leftarrow> on_zone (\<lambda>sh. ngx_rtc_shm_source_set_ssrc sh (Some (ls_name l)) 0 ssrc) W;
                          Some (M\<lparr>me_worker := W\<rparr>) }
                else Some M })"

definition uplink_video ::
  "('w, 'c, 'a, 'u, 'k, 'm) media_env \<Rightarrow> nat \<Rightarrow> bytes \<Rightarrow> u32 \<Rightarrow> ('w, 'c, 'a, 'u, 'm) media \<Rightarrow> ('w, 'c, 'a, 'u, 'm) media option" where
  "uplink_video E q data rtp_len M =
     (let is_gop_start = (if rtp_len > 12 \<and> data ! 12 AND 0x1F = 24 then 1 else 0)
      in do { s \<leftarrow> me_source M q;
              (_, jp, Mp) \<leftarrow> ngx_rtc_jitter_push (Some (ms_jitter s)) (Some data) rtp_len (be16 (data ! 2) (data ! 3)) is_gop_start
                               (ucast (env_now (mv_core E))) (Some (ngx_rtc_stream_whip_emit E (Some q))) (Some M);
              M \<leftarrow> Mp;
              set_media q (\<lambda>s. s\<lparr>ms_jitter := the jp\<rparr>) M })"

definition uplink_audio ::
  "('w, 'c, 'a, 'u, 'k, 'm) media_env \<Rightarrow> nat \<Rightarrow> bytes \<Rightarrow> u32 \<Rightarrow> ('w, 'c, 'a, 'u, 'm) media \<Rightarrow> ('w, 'c, 'a, 'u, 'm) media option" where
  "uplink_audio E q data rtp_len M =
     do { M \<leftarrow> ngx_rtc_broadcast_rtp E q data (unat rtp_len) False False M;
          M \<leftarrow> set_media q (\<lambda>s. s\<lparr>ms_audio_pkts := ms_audio_pkts s + 1, ms_audio_octets := ms_audio_octets s + payload_octets rtp_len\<rparr>) M;
          (a, M) \<leftarrow> shm_source_of E q M;
          ngx_rtc_stream_shm_stats q a M }"

definition ngx_rtc_stream_on_srtp ::
  "('w, 'c, 'a, 'u, 'k, 'm) media_env \<Rightarrow> nat option \<Rightarrow> bytes \<Rightarrow> ('w, 'c, 'a, 'u, 'm) media \<Rightarrow> ('w, 'c, 'a, 'u, 'm) media option" where
  "ngx_rtc_stream_on_srtp E sessp data M =
     (case sessp of
        None \<Rightarrow> Some M
      | Some p \<Rightarrow>
          do { l \<leftarrow> w_sessions (me_worker M) p;
               sess \<leftarrow> me_session M p;
               (case lse_source l of
                  None \<Rightarrow> Some M
                | Some q \<Rightarrow>
                    if lse_publishing l = 0 then Some M
                    else do { ready \<leftarrow> ngx_rtc_session_fsm_is_ready (env_rep (mv_core E)) (Some (fsm sess));
                              if \<not> ready then Some M
                              else (case ngx_rtc_srtp_unprotect_rtp (env_lib (mv_core E)) (Some (srtp sess)) (Some data) (Some (int (length data))) (me_world M) of
                                      (rc, packet, n, w) \<Rightarrow>
                                        let M = M\<lparr>me_world := w\<rparr>
                                        in if rc \<noteq> 0 \<or> the n < 12 then Some M
                                           else do {
                                             (rc, packet, len) \<leftarrow> ngx_rtc_rtp_strip_header_ext packet (Some (word_of_int (the n)));
                                             if rc \<noteq> NGX_RTC_OK then Some M
                                             else (let data = the packet; rtp_len = the len; pt = data ! 1 AND 0x7F; is_video = (pt = video_pt sess)
                                                   in do {
                                                     W \<leftarrow> set_session p (\<lambda>l. l\<lparr>lse_last_active := env_now (mv_core E)\<rparr>) (me_worker M);
                                                     let M = M\<lparr>me_worker := W\<rparr>;
                                                     if \<not> is_video \<and> pt \<noteq> audio_pt sess then Some M
                                                     else do { M \<leftarrow> adopt_ssrc q is_video (rtp_ssrc data) M;
                                                               if is_video then uplink_video E q data rtp_len M else uplink_audio E q data rtp_len M } }) }) }) })"

end
