(* ===== verification/MediaSafe.thy ===== *)
theory MediaSafe
  imports Media WorkerSafe
begin

text \<open>
  The fan-out of a packet: whom it reaches on this worker, what it leaves in the rings of the others, and that nothing
  else is touched.
\<close>

section \<open>The invariant of the media plane\<close>

text \<open>The registry's invariant, a media half for every source and session, and well-formed rings.\<close>

definition session_half_ok :: "('c, 'a, 'u) ngx_rtc_session \<Rightarrow> bool" where
  "session_half_ok t \<longleftrightarrow> fsm_wf t \<and> length (cipher t) = NGX_RTC_CIPHER_CAP"

definition media_ok :: "('m \<Rightarrow> nat set) \<Rightarrow> ('w, 'c, 'a, 'u, 'm) media \<Rightarrow> bool" where
  "media_ok live M \<longleftrightarrow> worker_inv live (me_worker M)
     \<and> (\<forall>p t. w_sessions (me_worker M) p = Some t \<longrightarrow> (\<exists>h. me_session M p = Some h \<and> session_half_ok h))
     \<and> (\<forall>q s. w_sources (me_worker M) q = Some s \<longrightarrow> me_source M q \<noteq> None)
     \<and> (\<forall>w r. me_rings M w = Some r \<longrightarrow> media_wf r)"

lemma media_okD:
  assumes "media_ok live M"
  shows "worker_inv live (me_worker M)" "w_sessions (me_worker M) p = Some t \<Longrightarrow> \<exists>h. me_session M p = Some h \<and> session_half_ok h"
    "w_sources (me_worker M) q = Some s \<Longrightarrow> \<exists>x. me_source M q = Some x" "me_rings M w = Some r \<Longrightarrow> media_wf r"
  using assms by (auto simp: media_ok_def)

lemma session_view_total:
  assumes "media_ok live M" "w_sessions (me_worker M) p = Some t"
  shows "\<exists>h. session_view M p = Some h \<and> session_half_ok h"
proof -
  obtain h where h: "me_session M p = Some h" "session_half_ok h" using media_okD(2) [OF assms] by blast
  have wf: "session_wf {} (me_worker M) p t"
    using worker_invD(1) [OF media_okD(1) [OF assms(1)]] assms(2) by (simp add: reg_inv_def)
  show ?thesis
  proof (cases "lse_source t")
    case None
    then show ?thesis using assms(2) h by (simp add: session_view_def session_half_ok_def fsm_wf_def)
  next
    case (Some q)
    then obtain l where l: "w_sources (me_worker M) q = Some l" using wf by (auto simp: session_wf_def)
    obtain x where "me_source M q = Some x" using media_okD(3) [OF assms(1) l] by blast
    then have "\<exists>v. source_view M q = Some v" using l by (simp add: source_view_def)
    then show ?thesis using assms(2) h Some by (auto simp: session_view_def session_half_ok_def fsm_wf_def)
  qed
qed

section \<open>Direct sends\<close>

text \<open>From \<open>M\<close> to \<open>M'\<close> only the sessions \<open>P\<close> and the world have changed, and at most \<open>n\<close> datagrams have left.\<close>

definition sent ::
  "('w \<Rightarrow> bytes list) \<Rightarrow> (nat \<Rightarrow> bool) \<Rightarrow> nat \<Rightarrow> ('w, 'c, 'a, 'u, 'm) media \<Rightarrow> ('w, 'c, 'a, 'u, 'm) media \<Rightarrow> bool" where
  "sent wire P n M M' \<longleftrightarrow> me_worker M' = me_worker M \<and> me_source M' = me_source M \<and> me_rings M' = me_rings M
     \<and> me_notified M' = me_notified M \<and> me_mirror M' = me_mirror M
     \<and> (\<forall>p. me_session M' p \<noteq> me_session M p \<longrightarrow> P p)
     \<and> (\<exists>ds. wire (me_world M') = wire (me_world M) @ ds \<and> length ds \<le> n)"

lemma sent_refl: "sent wire P 0 M M"
  by (simp add: sent_def)

lemma sent_trans:
  assumes "sent wire P m M M'" "sent wire P n M' M''"
  shows "sent wire P (m + n) M M''"
  using assms by (auto simp: sent_def) metis

lemma send_rtp_too_long: "fsm_wf s \<Longrightarrow> 1214 < l \<Longrightarrow> ngx_rtc_session_send_rtp E (Some s) rtp l g w = Some (False, Some s, w)"
  using fsm_wf_ready [of s "env_rep E"] by (auto simp: ngx_rtc_session_send_rtp_def split: option.split)

lemma media_send_sent:
  assumes ok: "media_ok live M" and t: "w_sessions (me_worker M) p = Some t" and env: "wire_env wire (mv_core E)"
    and l: "l \<le> length rtp \<or> 1214 < l"
  shows "\<exists>M'. media_send E p rtp l gop M = Some M' \<and> media_ok live M' \<and> sent wire ((=) p) 1 M M'"
proof -
  obtain h where h: "session_view M p = Some h" "session_half_ok h" using session_view_total [OF ok t] by blast
  obtain b h' w where s: "ngx_rtc_session_send_rtp (mv_core E) (Some h) rtp l gop (me_world M) = Some (b, Some h', w)"
    using send_rtp_total [of h "mv_core E" rtp l gop "me_world M"] h(2) by (auto simp: session_half_ok_def)
  have "send_view h' = send_view h \<and> length (cipher h') = NGX_RTC_CIPHER_CAP \<and> (\<not> b \<longrightarrow> wire w = wire (me_world M))
      \<and> (b \<longrightarrow> (\<exists>d. wire w = wire (me_world M) @ [d]))"
  proof (cases "l \<le> length rtp")
    case True
    then show ?thesis using send_rtp_step [OF env _ True s] h(2) by (auto simp: session_half_ok_def)
  next
    case False
    then show ?thesis using send_rtp_too_long [of h l "mv_core E" rtp gop "me_world M"] s l h(2) by (auto simp: session_half_ok_def)
  qed
  then have st: "send_view h' = send_view h" "length (cipher h') = NGX_RTC_CIPHER_CAP" "\<not> b \<Longrightarrow> wire w = wire (me_world M)"
    "b \<Longrightarrow> \<exists>d. wire w = wire (me_world M) @ [d]" by blast+
  have ds: "\<exists>ds. wire w = wire (me_world M) @ ds \<and> length ds \<le> 1"
  proof (cases b)
    case True
    then obtain d where "wire w = wire (me_world M) @ [d]" using st(4) by blast
    then show ?thesis by (intro exI [of _ "[d]"]) simp
  qed (use st(3) in simp)
  let ?M = "M\<lparr>me_session := (me_session M)(p \<mapsto> h'), me_world := w\<rparr>"
  have r: "media_send E p rtp l gop M = Some ?M" by (simp add: media_send_def h(1) s)
  have "session_half_ok h'" using h(2) st(1,2) fsm_wf_view [OF st(1)] by (simp add: session_half_ok_def)
  then have "media_ok live ?M" using ok by (auto simp: media_ok_def)
  moreover have "sent wire ((=) p) 1 M ?M" using ds by (simp add: sent_def)
  ultimately show ?thesis using r by blast
qed

text \<open>The sessions that a list of ids names.\<close>

definition named :: "'m worker \<Rightarrow> u64 list \<Rightarrow> nat \<Rightarrow> bool" where
  "named W ids p \<longleftrightarrow> (\<exists>t. w_sessions W p = Some t \<and> lse_id t \<in> set ids)"

lemma send_to_id_sent:
  assumes ok: "media_ok live M" and env: "wire_env wire (mv_core E)" and l: "l \<le> length rtp \<or> 1214 < l"
  shows "\<exists>M'. send_to_id E rtp l gop sid M = Some M' \<and> media_ok live M' \<and> sent wire (named (me_worker M) [sid]) 1 M M'"
proof -
  let ?W = "me_worker M"
  have inv: "reg_inv {} ?W" using worker_invD(1) [OF media_okD(1) [OF ok]] .
  define f where "f = find (\<lambda>p. lse_id (the (w_sessions ?W p)) = sid) (ngx_rtc_sessions ?W)"
  have e: "ngx_rtc_session_find_by_id ?W sid = Some f" using session_scan [OF inv] by (simp add: ngx_rtc_session_find_by_id_def f_def)
  show ?thesis
  proof (cases f)
    case None
    then show ?thesis using e ok by (simp add: send_to_id_def sent_def)
  next
    case (Some p)
    then have p: "p \<in> set (ngx_rtc_sessions ?W)" "lse_id (the (w_sessions ?W p)) = sid"
      unfolding f_def find_Some_iff by (auto simp: in_set_conv_nth)
    then obtain t where t: "w_sessions ?W p = Some t" "lse_id t = sid" using inv by (auto simp: reg_inv_def reg_lists_def)
    obtain M' where m: "media_send E p rtp l gop M = Some M'" "media_ok live M'" "sent wire ((=) p) 1 M M'"
      using media_send_sent [OF ok t(1) env l] by blast
    have "sent wire (named ?W [sid]) 1 M M'" using m(3) t by (auto simp: sent_def named_def)
    then show ?thesis using e Some m by (simp add: send_to_id_def)
  qed
qed

lemma send_to_ids_sent:
  assumes "media_ok live M" "wire_env wire (mv_core E)" "l \<le> length rtp \<or> 1214 < l"
  shows "\<exists>M'. send_to_ids E rtp l gop ids M = Some M' \<and> media_ok live M' \<and> sent wire (named (me_worker M) ids) (length ids) M M'"
  using assms
proof (induction ids arbitrary: M)
  case Nil
  then show ?case by (simp add: sent_refl)
next
  case (Cons i ids)
  obtain M1 where s: "send_to_id E rtp l gop i M = Some M1" "media_ok live M1" "sent wire (named (me_worker M) [i]) 1 M M1"
    using send_to_id_sent [OF Cons.prems] by blast
  obtain M2 where r: "send_to_ids E rtp l gop ids M1 = Some M2" "media_ok live M2" "sent wire (named (me_worker M1) ids) (length ids) M1 M2"
    using Cons.IH [OF s(2) Cons.prems(2,3)] by blast
  have w: "me_worker M1 = me_worker M" using s(3) by (simp add: sent_def)
  have "sent wire (named (me_worker M) (i # ids)) 1 M M1" "sent wire (named (me_worker M) (i # ids)) (length ids) M1 M2"
    using s(3) r(3) w by (auto simp: sent_def named_def)
  then have "sent wire (named (me_worker M) (i # ids)) (length (i # ids)) M M2" using sent_trans by fastforce
  then show ?case using s(1) r(1,2) by simp
qed

section \<open>The snapshot of the viewers\<close>

lemma snapshot_same: "ngx_rtc_shm_source_snapshot (Some c) np mx = Some (r, c') \<Longrightarrow> c' = Some c"
  by (auto simp: ngx_rtc_shm_source_snapshot_def shm_guard_def bind_eq_Some_conv split: option.splits if_splits)

text \<open>The viewers that a broadcast goes to: those of the cache when its version is current, else those of the zone.\<close>

definition viewers_of :: "'m worker \<Rightarrow> local_source \<Rightarrow> media_source \<Rightarrow> (u64 \<times> int) list \<Rightarrow> bool" where
  "viewers_of W l s snap \<longleftrightarrow>
     (if \<exists>a z. ls_shm_src l = Some a \<and> zone_source W a = Some z \<and> shs_version z = ms_snap_version s then snap = ms_snap s
      else ngx_rtc_shm_source_snapshot (w_sh W) (Some (ls_name l)) NGX_RTC_SOURCE_MAX_SNAPSHOT = Some (snap, w_sh W))"

lemma refresh_snapshot_spec:
  assumes ok: "media_ok live M" and l: "w_sources (me_worker M) q = Some l" and s: "me_source M q = Some s"
    and z: "\<forall>a. ls_shm_src l = Some a \<longrightarrow> zone_source (me_worker M) a \<noteq> None" and c: "w_sh (me_worker M) = Some c"
  shows "\<exists>snap v. refresh_snapshot q M = Some (M\<lparr>me_source := (me_source M)(q \<mapsto> s\<lparr>ms_snap := snap, ms_snap_version := v\<rparr>)\<rparr>)
    \<and> viewers_of (me_worker M) l s snap"
proof -
  let ?W = "me_worker M"
  have "shm_inv live c" using worker_invD(2) [OF media_okD(1) [OF ok]] c by (simp add: zone_ok_def)
  then obtain snap c' where sn: "ngx_rtc_shm_source_snapshot (Some c) (Some (ls_name l)) NGX_RTC_SOURCE_MAX_SNAPSHOT = Some (snap, Some c')"
    using source_snapshot_good [where live = live and np = "Some (ls_name l)" and mx = NGX_RTC_SOURCE_MAX_SNAPSHOT and now = 0] by blast
  have c': "c' = c" using snapshot_same [OF sn] by simp
  have on: "on_zone (\<lambda>sh. ngx_rtc_shm_source_snapshot sh (Some (ls_name l)) NGX_RTC_SOURCE_MAX_SNAPSHOT) ?W = Some (snap, ?W)"
    using sn c by (simp add: on_zone_def c')
  have snap: "ngx_rtc_shm_source_snapshot (w_sh ?W) (Some (ls_name l)) NGX_RTC_SOURCE_MAX_SNAPSHOT = Some (snap, w_sh ?W)" using sn c c' by simp
  have triv: "M\<lparr>me_source := (me_source M)(q \<mapsto> s\<lparr>ms_snap := ms_snap s, ms_snap_version := ms_snap_version s\<rparr>)\<rparr> = M"
    using s by (simp add: fun_upd_idem)
  show ?thesis
  proof (cases "ls_shm_src l")
    case None
    have "refresh_snapshot q M = Some (M\<lparr>me_source := (me_source M)(q \<mapsto> s\<lparr>ms_snap := snap, ms_snap_version := ms_snap_version s\<rparr>)\<rparr>)"
      using l s None on by (simp add: refresh_snapshot_def)
    moreover have "viewers_of ?W l s snap" using snap None by (simp add: viewers_of_def)
    ultimately show ?thesis by blast
  next
    case (Some a)
    then obtain zs where zs: "zone_source ?W a = Some zs" using z by auto
    show ?thesis
    proof (cases "shs_version zs = ms_snap_version s")
      case True
      have "refresh_snapshot q M = Some M" using l s Some zs True by (simp add: refresh_snapshot_def)
      moreover have "viewers_of ?W l s (ms_snap s)" using Some zs True by (simp add: viewers_of_def)
      ultimately show ?thesis using triv by metis
    next
      case False
      have "refresh_snapshot q M = Some (M\<lparr>me_source := (me_source M)(q \<mapsto> s\<lparr>ms_snap := snap, ms_snap_version := shs_version zs\<rparr>)\<rparr>)"
        using l s Some zs False on by (simp add: refresh_snapshot_def)
      moreover have "viewers_of ?W l s snap" using snap Some zs False by (simp add: viewers_of_def)
      ultimately show ?thesis by blast
    qed
  qed
qed

section \<open>The rings of the other workers\<close>

text \<open>The ring of worker \<open>w\<close> gets the packet with the ids of its viewers, unless it is full.\<close>

definition ring_got ::
  "nat \<Rightarrow> (u64 \<times> int) list \<Rightarrow> bytes \<Rightarrow> bool \<Rightarrow> bool \<Rightarrow> nat \<Rightarrow> ngx_rtc_shm_ring option \<Rightarrow> ngx_rtc_shm_ring option \<Rightarrow> bool" where
  "ring_got slot snap rtp v g w old new \<longleftrightarrow>
     (if w = slot \<or> ring_ids snap w = [] then new = old
      else (case old of
              None \<Rightarrow> new = None
            | Some r \<Rightarrow> \<exists>r'. new = Some r' \<and> media_contents r' = media_contents r @
                (if sr_head r - sr_tail r \<ge> sr_size r then [] else [(if v then 0 else 1, if g then 1 else 0, rtp, ring_ids snap w)])))"

lemma ring_send_spec:
  assumes ok: "media_ok live M" and s: "me_source M q = Some s" and l: "0 < length rtp" "length rtp \<le> NGX_RTC_RING_RTP_MAX"
  shows "\<exists>M' s'. ring_send E q snap rtp (length rtp) v g w M = Some M' \<and> media_ok live M' \<and> me_worker M' = me_worker M
    \<and> me_session M' = me_session M \<and> me_world M' = me_world M \<and> me_source M' = (me_source M)(q \<mapsto> s') \<and> ms_snap s' = ms_snap s
    \<and> ring_got (mv_slot E) snap rtp v g w (me_rings M w) (me_rings M' w) \<and> (\<forall>x. x \<noteq> w \<longrightarrow> me_rings M' x = me_rings M x)"
proof (cases "w = mv_slot E \<or> ring_ids snap w = [] \<or> me_rings M w = None")
  case True
  then have "ring_send E q snap rtp (length rtp) v g w M = Some M" by (auto simp: ring_send_def Let_def)
  moreover have "ring_got (mv_slot E) snap rtp v g w (me_rings M w) (me_rings M w)" using True by (auto simp: ring_got_def)
  ultimately show ?thesis using ok s by (intro exI [of _ M] exI [of _ s]) (simp add: fun_upd_idem)
next
  case False
  then obtain r where r: "me_rings M w = Some r" by auto
  let ?ids = "ring_ids snap w" and ?m = "if v then 0 else 1 :: u8" and ?g = "if g then 1 else 0 :: u8"
  let ?enq = "ngx_rtc_shm_ring_enqueue (Some r) ?m ?g (Some rtp) (word_of_nat (length rtp)) (Some ?ids) (length ?ids)"
  have wf: "media_wf r" using media_okD(4) [OF ok r] .
  have ids: "0 < length ?ids" "length ?ids \<le> NGX_RTC_RING_MAX_SESSIONS" using False by (simp_all add: ring_ids_def)
  have u: "unat (word_of_nat (length rtp) :: u16) = length rtp" using l(2) by (simp add: unat_of_nat)
  have nz: "(word_of_nat (length rtp) :: u16) \<noteq> 0" using u l(1) by (metis less_numeral_extra(3) unat_0)
  have val: "media_valid r (?m, ?g, rtp, ?ids)" using l ids by (simp add: media_valid_def)
  define X where "X = ?enq"
  have eq: "ring_send E q snap rtp (length rtp) v g w M = (case X of (rc, r) \<Rightarrow>
      if rc = NGX_OK then Some (if mv_notify E w then M\<lparr>me_rings := (me_rings M)(w := r), me_notified := me_notified M @ [w]\<rparr> else M\<lparr>me_rings := (me_rings M)(w := r)\<rparr>)
      else set_media q (\<lambda>s. s\<lparr>ms_ring_drops := ms_ring_drops s + 1\<rparr>) (M\<lparr>me_rings := (me_rings M)(w := r)\<rparr>))"
    using False r by (simp add: ring_send_def X_def Let_def split: prod.split)
  show ?thesis
  proof (cases "sr_head r - sr_tail r \<ge> sr_size r")
    case True
    have e: "?enq = (NGX_ERROR, Some r)" using True by (simp add: ngx_rtc_shm_ring_enqueue_def)
    let ?M = "M\<lparr>me_rings := (me_rings M)(w := Some r), me_source := (me_source M)(q \<mapsto> s\<lparr>ms_ring_drops := ms_ring_drops s + 1\<rparr>)\<rparr>"
    have "ring_send E q snap rtp (length rtp) v g w M = Some ?M"
      unfolding eq X_def e using s by (simp add: set_media_def)
    moreover have "media_ok live ?M" using ok wf by (auto simp: media_ok_def)
    moreover have "ring_got (mv_slot E) snap rtp v g w (me_rings M w) (me_rings ?M w)" using False r True by (simp add: ring_got_def)
    ultimately show ?thesis using r by (intro exI [of _ ?M] exI [of _ "s\<lparr>ms_ring_drops := ms_ring_drops s + 1\<rparr>"]) simp
  next
    case False': False
    have el: "\<exists>r'. ?enq = (NGX_OK, Some r')"
      using False' ids l u nz by (auto simp: ngx_rtc_shm_ring_enqueue_def Let_def)
    then obtain r' where e: "?enq = (NGX_OK, Some r')" by blast
    have q: "media_enq (?m, ?g, rtp, ?ids) r = Some r'" unfolding media_enq_def prod.case using e by simp
    let ?R = "M\<lparr>me_rings := (me_rings M)(w \<mapsto> r')\<rparr>"
    let ?M = "if mv_notify E w then ?R\<lparr>me_notified := me_notified M @ [w]\<rparr> else ?R"
    have "ring_send E q snap rtp (length rtp) v g w M = Some ?M"
      unfolding eq X_def e by simp
    moreover have "media_ok live ?M" using ok mrg.push_invar [OF wf val q] by (auto simp: media_ok_def)
    moreover have "ring_got (mv_slot E) snap rtp v g w (me_rings M w) (me_rings ?M w)"
      using False r False' mrg.push_contents [OF wf val q] by (simp add: ring_got_def)
    ultimately show ?thesis using r s by (intro exI [of _ ?M] exI [of _ s]) (simp add: fun_upd_idem)
  qed
qed

lemma ring_sends_spec:
  assumes "media_ok live M" "me_source M q = Some s" "0 < length rtp" "length rtp \<le> NGX_RTC_RING_RTP_MAX" "distinct ws"
  shows "\<exists>M' s'. ring_sends E q snap rtp (length rtp) v g ws M = Some M' \<and> media_ok live M' \<and> me_worker M' = me_worker M
    \<and> me_session M' = me_session M \<and> me_world M' = me_world M \<and> me_source M' = (me_source M)(q \<mapsto> s') \<and> ms_snap s' = ms_snap s
    \<and> (\<forall>w. if w \<in> set ws then ring_got (mv_slot E) snap rtp v g w (me_rings M w) (me_rings M' w) else me_rings M' w = me_rings M w)"
  using assms
proof (induction ws arbitrary: M s)
  case Nil
  then show ?case by (intro exI [of _ M] exI [of _ s]) (simp add: fun_upd_idem)
next
  case (Cons w ws)
  obtain M1 s1 where 1: "ring_send E q snap rtp (length rtp) v g w M = Some M1" "media_ok live M1" "me_worker M1 = me_worker M"
    "me_session M1 = me_session M" "me_world M1 = me_world M" "me_source M1 = (me_source M)(q \<mapsto> s1)" "ms_snap s1 = ms_snap s"
    "ring_got (mv_slot E) snap rtp v g w (me_rings M w) (me_rings M1 w)" "\<forall>x. x \<noteq> w \<longrightarrow> me_rings M1 x = me_rings M x"
    using ring_send_spec [OF Cons.prems(1-4), of E snap v g w] by blast
  have s1: "me_source M1 q = Some s1" using 1(6) by simp
  have d: "distinct ws" "w \<notin> set ws" using Cons.prems(5) by simp_all
  obtain M2 s2 where 2: "ring_sends E q snap rtp (length rtp) v g ws M1 = Some M2" "media_ok live M2" "me_worker M2 = me_worker M1"
    "me_session M2 = me_session M1" "me_world M2 = me_world M1" "me_source M2 = (me_source M1)(q \<mapsto> s2)" "ms_snap s2 = ms_snap s1"
    "\<forall>x. if x \<in> set ws then ring_got (mv_slot E) snap rtp v g x (me_rings M1 x) (me_rings M2 x) else me_rings M2 x = me_rings M1 x"
    using Cons.IH [OF 1(2) s1 Cons.prems(3,4) d(1)] by blast
  have "if x \<in> set (w # ws) then ring_got (mv_slot E) snap rtp v g x (me_rings M x) (me_rings M2 x) else me_rings M2 x = me_rings M x" for x
    using 1(8,9) 2(8) [rule_format, of x] d(2) by (cases "x = w") auto
  then show ?case using 1 2 by (intro exI [of _ M2] exI [of _ s2]) simp
qed
section \<open>The consumer\<close>

definition ids_in :: "media_packet list \<Rightarrow> u64 list" where
  "ids_in pkts = concat (map (\<lambda>(media, gop, rtp, ids). ids) pkts)"

lemma dequeue_entry:
  assumes wf: "media_wf r" and ne: "media_contents r \<noteq> []"
  shows "\<exists>r' e. ngx_rtc_shm_ring_dequeue (Some r) (Some ring_entry_zero) = (NGX_OK, Some r', Some e) \<and> media_wf r'
    \<and> media_contents r = entry_packet e # media_contents r' \<and> length (e_rtp e) = NGX_RTC_RING_RTP_MAX"
proof -
  obtain x r' where d: "media_deq r = Some (x, r')" using mrg.pop_None [OF wf] ne by (cases "media_deq r") auto
  have h: "sr_head r \<noteq> sr_tail r" using d by (auto simp: media_deq_def ngx_rtc_shm_ring_dequeue_def)
  let ?i = "unat (sr_tail r AND sr_mask r)"
  have e: "ngx_rtc_shm_ring_dequeue (Some r) (Some ring_entry_zero) = (NGX_OK, Some (r\<lparr>sr_tail := sr_tail r + 1\<rparr>), Some (sr_entries r ! ?i))"
    using h by (simp add: ngx_rtc_shm_ring_dequeue_def Let_def)
  have x: "x = entry_packet (sr_entries r ! ?i)" "r' = r\<lparr>sr_tail := sr_tail r + 1\<rparr>" using d e by (auto simp: media_deq_def)
  obtain k where k: "k \<le> 32" "sr_mask r = 2 ^ k - 1" "length (sr_entries r) = 2 ^ k"
    "\<And>i. i < 2 ^ k \<Longrightarrow> length (e_sess (sr_entries r ! i)) = NGX_RTC_RING_MAX_SESSIONS \<and> length (e_rtp (sr_entries r ! i)) = NGX_RTC_RING_RTP_MAX"
    using media_wfE [OF wf] by metis
  have "?i < 2 ^ k" using media_index [OF k(1)] k(2) by simp
  then have "length (e_rtp (sr_entries r ! ?i)) = NGX_RTC_RING_RTP_MAX" using k(4) by blast
  then show ?thesis using e x mrg.pop_invar [OF wf d] mrg.pop_contents [OF wf d] by simp
qed

lemma ring_drain_loop_spec:
  assumes "media_ok live M" "wire_env wire (mv_core E)" "me_rings M (mv_slot E) = Some r" "length (media_contents r) = n"
  shows "\<exists>M' r'. ring_drain_loop n E M = Some M' \<and> media_ok live M' \<and> me_worker M' = me_worker M \<and> me_rings M' (mv_slot E) = Some r'
    \<and> media_contents r' = [] \<and> (\<forall>p. me_session M' p \<noteq> me_session M p \<longrightarrow> named (me_worker M) (ids_in (media_contents r)) p)
    \<and> (\<exists>ds. wire (me_world M') = wire (me_world M) @ ds \<and> length ds \<le> length (ids_in (media_contents r)))"
  using assms
proof (induction n arbitrary: M r)
  case 0
  then show ?case by auto
next
  case (Suc n)
  have wf: "media_wf r" using media_okD(4) [OF Suc.prems(1,3)] .
  have ne: "media_contents r \<noteq> []" using Suc.prems(4) by auto
  obtain r1 e where d: "ngx_rtc_shm_ring_dequeue (Some r) (Some ring_entry_zero) = (NGX_OK, Some r1, Some e)" "media_wf r1"
    "media_contents r = entry_packet e # media_contents r1" "length (e_rtp e) = NGX_RTC_RING_RTP_MAX"
    using dequeue_entry [OF wf ne] by blast
  let ?ids = "take (unat (e_nsess e)) (e_sess e)" and ?M = "M\<lparr>me_rings := (me_rings M)(mv_slot E \<mapsto> r1)\<rparr>"
  have ok1: "media_ok live ?M" using Suc.prems(1) d(2) by (auto simp: media_ok_def)
  have l: "unat (e_len e) \<le> length (e_rtp e) \<or> 1214 < unat (e_len e)" using d(4) by auto
  obtain M1 where s: "send_to_ids E (e_rtp e) (unat (e_len e)) ((ucast (e_gop e) :: u8) \<noteq> 0) ?ids ?M = Some M1" "media_ok live M1"
    "sent wire (named (me_worker ?M) ?ids) (length ?ids) ?M M1"
    using send_to_ids_sent [OF ok1 Suc.prems(2) l] by blast
  have f: "me_worker M1 = me_worker M" "me_rings M1 (mv_slot E) = Some r1" "\<And>p. me_session M1 p \<noteq> me_session M p \<Longrightarrow> named (me_worker M) ?ids p"
    "\<exists>ds. wire (me_world M1) = wire (me_world M) @ ds \<and> length ds \<le> length ?ids"
    using s(3) by (auto simp: sent_def)
  have n: "length (media_contents r1) = n" using Suc.prems(4) d(3) by simp
  from Suc.IH [OF s(2) Suc.prems(2) f(2) n] obtain M' r' where ih: "ring_drain_loop n E M1 = Some M'" "media_ok live M'" "me_worker M' = me_worker M1"
    "me_rings M' (mv_slot E) = Some r'" "media_contents r' = []"
    "\<And>p. me_session M' p \<noteq> me_session M1 p \<Longrightarrow> named (me_worker M1) (ids_in (media_contents r1)) p"
    "\<exists>ds. wire (me_world M') = wire (me_world M1) @ ds \<and> length ds \<le> length (ids_in (media_contents r1))" by blast
  have ids: "ids_in (media_contents r) = ?ids @ ids_in (media_contents r1)" by (simp add: d(3) ids_in_def entry_packet_def)
  have "ring_drain_loop (Suc n) E M = Some M'" using Suc.prems(3) d(1) s(1) ih(1) by simp
  moreover have "named (me_worker M) (ids_in (media_contents r)) p" if "me_session M' p \<noteq> me_session M p" for p
    using f(3) [of p] ih(6) [of p] that f(1) by (cases "me_session M1 p = me_session M p") (auto simp: ids named_def)
  moreover have "\<exists>ds. wire (me_world M') = wire (me_world M) @ ds \<and> length ds \<le> length (ids_in (media_contents r))"
  proof -
    obtain as bs where "wire (me_world M1) = wire (me_world M) @ as" "length as \<le> length ?ids"
      "wire (me_world M') = wire (me_world M1) @ bs" "length bs \<le> length (ids_in (media_contents r1))" using f(4) ih(7) by blast
    then have "wire (me_world M') = wire (me_world M) @ (as @ bs)" "length (as @ bs) \<le> length (ids_in (media_contents r))"
      by (simp_all add: ids del: length_take)
    then show ?thesis by blast
  qed
  ultimately show ?case using ih(2-5) f(1) by (intro exI [of _ M'] exI [of _ r']) simp
qed

lemma drain_ring_spec:
  assumes "media_ok live M" "wire_env wire (mv_core E)" "me_rings M (mv_slot E) = Some r" "w_sh (me_worker M) \<noteq> None"
  shows "\<exists>M' r'. ngx_rtc_stream_drain_ring E M = Some M' \<and> media_ok live M' \<and> me_rings M' (mv_slot E) = Some r'
    \<and> media_contents r' = [] \<and> (\<forall>p. me_session M' p \<noteq> me_session M p \<longrightarrow> named (me_worker M) (ids_in (media_contents r)) p)
    \<and> (\<exists>ds. wire (me_world M') = wire (me_world M) @ ds \<and> length ds \<le> length (ids_in (media_contents r)))"
proof -
  have n: "length (media_contents r) = unat (sr_head r - sr_tail r)" by (simp add: media_contents_def)
  show ?thesis using ring_drain_loop_spec [OF assms(1-3) n] assms(3,4) by (auto simp: ngx_rtc_stream_drain_ring_def)
qed
section \<open>From the publisher's worker to a viewer's\<close>

definition local_ids :: "nat \<Rightarrow> (u64 \<times> int) list \<Rightarrow> u64 list" where
  "local_ids slot snap = map fst (filter (\<lambda>(_, w). w = int slot) snap)"

lemma broadcast_spec:
  assumes ok: "media_ok live M" and l: "w_sources (me_worker M) q = Some l" and s: "me_source M q = Some s"
    and z: "\<forall>a. ls_shm_src l = Some a \<longrightarrow> zone_source (me_worker M) a \<noteq> None" and c: "w_sh (me_worker M) = Some c"
    and env: "wire_env wire (mv_core E)" and len: "0 < length rtp" "length rtp \<le> NGX_RTC_RING_RTP_MAX"
  shows "\<exists>M' snap. ngx_rtc_broadcast_rtp E q rtp (length rtp) v g M = Some M' \<and> media_ok live M' \<and> viewers_of (me_worker M) l s snap
    \<and> (\<forall>w. if w < unat (nworkers c) then ring_got (mv_slot E) snap rtp v g w (me_rings M w) (me_rings M' w) else me_rings M' w = me_rings M w)
    \<and> (\<forall>p. me_session M' p \<noteq> me_session M p \<longrightarrow> named (me_worker M) (local_ids (mv_slot E) snap) p)
    \<and> (\<exists>ds. wire (me_world M') = wire (me_world M) @ ds \<and> length ds \<le> length (local_ids (mv_slot E) snap))"
proof -
  obtain snap vn where r: "refresh_snapshot q M = Some (M\<lparr>me_source := (me_source M)(q \<mapsto> s\<lparr>ms_snap := snap, ms_snap_version := vn\<rparr>)\<rparr>)"
    "viewers_of (me_worker M) l s snap" using refresh_snapshot_spec [OF ok l s z c] by blast
  let ?s = "s\<lparr>ms_snap := snap, ms_snap_version := vn\<rparr>"
  let ?M = "M\<lparr>me_source := (me_source M)(q \<mapsto> ?s)\<rparr>"
  have ok1: "media_ok live ?M" using ok by (auto simp: media_ok_def)
  let ?ids = "local_ids (mv_slot E) snap"
  obtain M1 where m1: "send_to_ids E rtp (length rtp) g ?ids ?M = Some M1" "media_ok live M1" "sent wire (named (me_worker ?M) ?ids) (length ?ids) ?M M1"
    using send_to_ids_sent [OF ok1 env disjI1 [OF order_refl]] by blast
  have f: "me_worker M1 = me_worker M" "me_source M1 q = Some ?s" "me_rings M1 = me_rings M" using m1(3) by (simp_all add: sent_def)
  obtain M2 s2 where m2: "ring_sends E q snap rtp (length rtp) v g [0..<unat (nworkers c)] M1 = Some M2" "media_ok live M2"
    "me_session M2 = me_session M1" "me_world M2 = me_world M1"
    "\<forall>w. if w \<in> set [0..<unat (nworkers c)] then ring_got (mv_slot E) snap rtp v g w (me_rings M1 w) (me_rings M2 w) else me_rings M2 w = me_rings M1 w"
    using ring_sends_spec [OF m1(2) f(2) len, of "[0..<unat (nworkers c)]" E snap v g] by auto
  have sh: "w_sh (me_worker M1) = Some c" using f(1) c by simp
  have b: "ngx_rtc_broadcast_rtp E q rtp (length rtp) v g M = (if snap = [] then Some ?M else Some M2)"
    using len(2) c r(1) m1(1) m2(1) sh by (simp add: ngx_rtc_broadcast_rtp_def local_ids_def)
  show ?thesis
  proof (cases "snap = []")
    case True
    then show ?thesis using b r(2) ok1 by (intro exI [of _ ?M] exI [of _ snap]) (simp add: ring_got_def ring_ids_def)
  next
    case False
    have rings: "\<forall>w. if w < unat (nworkers c) then ring_got (mv_slot E) snap rtp v g w (me_rings M w) (me_rings M2 w) else me_rings M2 w = me_rings M w"
      using m2(5) unfolding f(3) set_upt atLeast0LessThan lessThan_iff .
    have rest: "\<forall>p. me_session M2 p \<noteq> me_session M p \<longrightarrow> named (me_worker M) ?ids p"
      "\<exists>ds. wire (me_world M2) = wire (me_world M) @ ds \<and> length ds \<le> length ?ids"
      using m1(3) m2(3,4) by (simp_all add: sent_def)
    show ?thesis using b False r(2) m2(2) rings rest by (intro exI [of _ M2] exI [of _ snap]) simp
  qed
qed


text \<open>Two workers; the source of the first has a viewer on each of them.\<close>

definition relay_zone :: "nat list ngx_rtc_shm_ctx" where
  "relay_zone = demo_zone\<lparr>nworkers := 2\<rparr>"

definition relay_source :: local_source where
  "relay_source = \<lparr>ls_name = [97], ls_publishing = 1, ls_publisher_kind = 1, ls_video_ssrc = 5, ls_video_pt = 102, ls_audio_ssrc = 6,
     ls_audio_pt = 111, ls_audio_ctx = None, ls_shm_src = Some 1, ls_shm_sync_ms = 0, ls_subscribers = []\<rparr>"

definition relay_worker :: "nat list worker" where
  "relay_worker = \<lparr>w_sources = [1 \<mapsto> relay_source], w_sessions = Map.empty, ngx_rtc_source_tree = [1], ngx_rtc_session_tree = [],
     ngx_rtc_sessions = [], w_sh = Some relay_zone, w_stream_ctx = Map.empty, w_posted = []\<rparr>"

definition relay_ring :: ngx_rtc_shm_ring where
  "relay_ring = \<lparr>sr_head = 0, sr_tail = 0, sr_size = 4, sr_mask = 3, sr_entries = replicate 4 ring_entry_zero\<rparr>"

definition relay_media :: "(bytes list, nat, nat, nat, nat list) media" where
  "relay_media = \<lparr>me_worker = relay_worker,
     me_source = [1 \<mapsto> media_source_zero\<lparr>ms_snap_version := shs_version (source_init (room_env 9 5) [97]), ms_snap := [(7, 0), (9, 1)]\<rparr>],
     me_session = Map.empty, me_rings = [1 \<mapsto> relay_ring], me_notified = [], me_mirror = \<lambda>_. (0, 0, 0, 0), me_world = []\<rparr>"

definition relay_env :: "u64 \<Rightarrow> (bytes list, nat, nat, nat, nat, nat list) media_env" where
  "relay_env slot = \<lparr>mv_core = demo_env, mv_worker = \<lparr>we_shm = room_env 9 7, we_tree = \<lparr>ngx_crc32_long = \<lambda>_. 0, tree_pick = hd\<rparr>, ngx_worker = slot,
     we_event_ok = True, ready_timeout = 30000, handshake_timeout = 10000, we_hmac = \<lambda>_ _. None\<rparr>, mv_alloc = True, mv_notify = \<lambda>_. True\<rparr>"

lemma shm_inv_nworkers: "shm_inv live (c\<lparr>nworkers := n\<rparr>) = shm_inv live c"
proof -
  have "lists_ok (c\<lparr>nworkers := n\<rparr>) = lists_ok c" "names_ok (c\<lparr>nworkers := n\<rparr>) = names_ok c"
    "blocks_ok L (c\<lparr>nworkers := n\<rparr>) = blocks_ok L c" "source_ok (c\<lparr>nworkers := n\<rparr>) = source_ok c"
    "ShmSafe.session_ok (c\<lparr>nworkers := n\<rparr>) = ShmSafe.session_ok c" for L
    by (simp_all add: lists_ok_def names_ok_def blocks_ok_def source_ok_def ShmSafe.session_ok_def src_linked_def fun_eq_iff)
  then show ?thesis by (simp add: shm_inv_def)
qed

lemma relay_media_ok: "media_ok set relay_media"
proof -
  have z: "shm_inv set relay_zone"
    unfolding relay_zone_def shm_inv_nworkers by (rule shm_reach_inv [OF demo_zone_reached])
  have "reg_inv {} relay_worker"
  proof (rule reg_invI)
    show "reg_lists {} relay_worker" by (simp add: relay_worker_def reg_lists_def)
    show "reg_names relay_worker" by (simp add: relay_worker_def reg_names_def)
    show "source_wf relay_worker q s" if "w_sources relay_worker q = Some s" for q s
      using that by (auto simp: relay_worker_def relay_source_def source_wf_def pubkind_ok_def sub_linked_def split: if_splits)
    show "session_wf {} relay_worker p t" if "w_sessions relay_worker p = Some t" for p t
      using that by (simp add: relay_worker_def)
  qed
  then have "worker_inv set relay_worker"
    using z by (simp add: worker_inv_def zone_ok_def ctx_ok_def) (simp add: relay_worker_def)
  moreover have "media_wf relay_ring"
    unfolding media_wf_def relay_ring_def by (intro conjI exI [of _ 2]) (simp_all add: ring_entry_zero_def)
  ultimately show ?thesis by (auto simp: media_ok_def relay_media_def relay_worker_def split: if_splits)
qed

end
