(* ===== verification/AudioWorker.thy ===== *)
theory AudioWorker
  imports Ring "HOL-Library.Sublist"
begin

text \<open>
  The transcoding thread of \<^verbatim>\<open>src/ngx_rtc_audio_worker.c\<close>: the nginx worker pushes raw AAC frames into one byte ring
  and drains Opus frames from another, the thread pops, transcodes and pushes. Every region under the mutex is one step, so
  a run is any interleaving of the steps of the two sides. The transcoder is a function from its state and an AAC frame to
  the Opus frames it emits; \<^verbatim>\<open>pthread\<close> and the allocator are arguments.
\<close>

section \<open>The worker\<close>

abbreviation NGX_RTC_AUDIO_AAC_MAX :: u32 where "NGX_RTC_AUDIO_AAC_MAX \<equiv> 8192"
abbreviation NGX_RTC_AUDIO_OPUS_MAX_PACKET :: u32 where "NGX_RTC_AUDIO_OPUS_MAX_PACKET \<equiv> 4000"
abbreviation NGX_RTC_AUDIO_IN_ARENA_BYTES :: u32 where "NGX_RTC_AUDIO_IN_ARENA_BYTES \<equiv> 16 * (4 + NGX_RTC_AUDIO_AAC_MAX)"
abbreviation NGX_RTC_AUDIO_OUT_ARENA_BYTES :: u32 where "NGX_RTC_AUDIO_OUT_ARENA_BYTES \<equiv> 16 * (4 + NGX_RTC_AUDIO_OPUS_MAX_PACKET)"

record 't ngx_rtc_audio_worker =
  aw_stop :: bool
  aw_a :: 't
  aw_in :: ngx_rtc_vring
  aw_out :: ngx_rtc_vring
  aw_in_dropped :: u32
  aw_out_dropped :: u32

text \<open>What a worker owns, and which acquisitions of its creation succeed.\<close>

datatype audio_res = Res_struct | Res_mutex | Res_cond | Res_transcoder | Res_in | Res_out | Res_thread

record 't audio_env =
  ae_calloc :: bool
  ae_mutex :: bool
  ae_cond :: bool
  ae_audio :: "'t option"
  ae_in :: bool
  ae_out :: bool
  ae_thread :: bool

definition vring_zero :: ngx_rtc_vring where
  "vring_zero = \<lparr>v_buf = None, v_capacity = 0, v_head = 0, v_tail = 0, v_bytes = 0\<rparr>"

text \<open>The label \<^verbatim>\<open>fail\<close>: what is given back.\<close>

definition audio_fail :: "'t option \<Rightarrow> ngx_rtc_vring \<Rightarrow> ngx_rtc_vring \<Rightarrow> bool \<Rightarrow> bool \<Rightarrow> audio_res set \<Rightarrow> audio_res set" where
  "audio_fail a inr outr cond_ok mutex_ok held =
     (let held = (if a \<noteq> None then held - {Res_transcoder} else held);
          held = (if v_buf outr \<noteq> None then held - {Res_out} else held);
          held = (if v_buf inr \<noteq> None then held - {Res_in} else held);
          held = (if cond_ok then held - {Res_cond} else held);
          held = (if mutex_ok then held - {Res_mutex} else held)
      in held - {Res_struct})"

text \<open>The new worker, if any, and what is held afterwards.\<close>

definition ngx_rtc_audio_worker_create :: "'t audio_env \<Rightarrow> 't ngx_rtc_audio_worker option \<times> audio_res set" where
  "ngx_rtc_audio_worker_create E =
     (if \<not> ae_calloc E then (None, {})
      else if \<not> ae_mutex E then (None, audio_fail (None :: 't option) vring_zero vring_zero False False {Res_struct})
      else if \<not> ae_cond E then (None, audio_fail (None :: 't option) vring_zero vring_zero False True {Res_struct, Res_mutex})
      else (case ae_audio E of
              None \<Rightarrow> (None, audio_fail (None :: 't option) vring_zero vring_zero True True {Res_struct, Res_mutex, Res_cond})
            | Some a \<Rightarrow>
                let held = {Res_struct, Res_mutex, Res_cond, Res_transcoder}
                in case ngx_rtc_vring_init (ae_in E) (Some vring_zero) NGX_RTC_AUDIO_IN_ARENA_BYTES of
                     (rc, inp) \<Rightarrow>
                       if rc \<noteq> 0 then (None, audio_fail (Some a) (the inp) vring_zero True True held)
                       else (case ngx_rtc_vring_init (ae_out E) (Some vring_zero) NGX_RTC_AUDIO_OUT_ARENA_BYTES of
                               (rc, outp) \<Rightarrow>
                                 if rc \<noteq> 0 then (None, audio_fail (Some a) (the inp) (the outp) True True (insert Res_in held))
                                 else if \<not> ae_thread E then (None, audio_fail (Some a) (the inp) (the outp) True True ({Res_in, Res_out} \<union> held))
                                 else (Some \<lparr>aw_stop = False, aw_a = a, aw_in = the inp, aw_out = the outp, aw_in_dropped = 0, aw_out_dropped = 0\<rparr>,
                                       {Res_in, Res_out, Res_thread} \<union> held))))"

text \<open>After the thread has been joined.\<close>

definition ngx_rtc_audio_worker_destroy :: "'t ngx_rtc_audio_worker option \<Rightarrow> audio_res set \<Rightarrow> audio_res set" where
  "ngx_rtc_audio_worker_destroy wp held =
     (case wp of None \<Rightarrow> held
      | Some w \<Rightarrow> held - {Res_thread} - {Res_transcoder} - {Res_in} - {Res_out} - {Res_cond} - {Res_mutex} - {Res_struct})"

definition ngx_rtc_audio_worker_stop :: "'t ngx_rtc_audio_worker \<Rightarrow> 't ngx_rtc_audio_worker" where
  "ngx_rtc_audio_worker_stop w = w\<lparr>aw_stop := True\<rparr>"

definition ngx_rtc_audio_worker_push ::
  "'t ngx_rtc_audio_worker option \<Rightarrow> bytes option \<Rightarrow> u32 \<Rightarrow> int \<times> 't ngx_rtc_audio_worker option" where
  "ngx_rtc_audio_worker_push wp aacp len =
     (case (wp, aacp) of
        (Some w, Some aac) \<Rightarrow>
          if len = 0 \<or> len > NGX_RTC_AUDIO_AAC_MAX then (- 1, wp)
          else (case ngx_rtc_vring_push (Some (aw_in w)) (Some aac) len of
                  (rc, r) \<Rightarrow>
                    (let w = w\<lparr>aw_in := the r\<rparr>
                     in (rc, Some (if rc = 0 then w else w\<lparr>aw_in_dropped := aw_in_dropped w + 1\<rparr>))))
      | _ \<Rightarrow> (- 1, wp))"

text \<open>One turn of the drain loop: the frame popped, if any.\<close>

definition drain_pop :: "'t ngx_rtc_audio_worker \<Rightarrow> bytes option \<times> 't ngx_rtc_audio_worker" where
  "drain_pop w =
     (case ngx_rtc_vring_pop (Some (aw_out w)) (Some (replicate 4000 0)) NGX_RTC_AUDIO_OPUS_MAX_PACKET (Some 0) of
        (ok, r, opus, opus_len) \<Rightarrow>
          if ok \<noteq> 0 then (None, w)
          else (Some (take (unat (the opus_len)) (the opus)), w\<lparr>aw_out := the r\<rparr>))"

partial_function (option) audio_drain_loop ::
  "('o \<Rightarrow> bytes \<Rightarrow> int \<times> 'o) \<Rightarrow> 't ngx_rtc_audio_worker \<Rightarrow> 'o \<Rightarrow> int \<Rightarrow> (int \<times> 't ngx_rtc_audio_worker \<times> 'o) option" where
  "audio_drain_loop emit w opaque drained =
     (case drain_pop w of
        (None, w) \<Rightarrow> Some (drained, w, opaque)
      | (Some opus, w) \<Rightarrow> audio_drain_loop emit w (snd (emit opaque opus)) (drained + 1))"

definition ngx_rtc_audio_worker_drain ::
  "'t ngx_rtc_audio_worker option \<Rightarrow> ('o \<Rightarrow> bytes \<Rightarrow> int \<times> 'o) option \<Rightarrow> 'o \<Rightarrow> (int \<times> 't ngx_rtc_audio_worker option \<times> 'o) option" where
  "ngx_rtc_audio_worker_drain wp emitp opaque =
     (case (wp, emitp) of
        (Some w, Some emit) \<Rightarrow> map_option (\<lambda>(n, w, opaque). (n, Some w, opaque)) (audio_drain_loop emit w opaque 0)
      | _ \<Rightarrow> Some (0, wp, opaque))"

definition ngx_rtc_audio_worker_drop_stats :: "'t ngx_rtc_audio_worker option \<Rightarrow> (u32 \<times> u32) option" where
  "ngx_rtc_audio_worker_drop_stats wp = map_option (\<lambda>w. (aw_in_dropped w, aw_out_dropped w)) wp"

section \<open>The thread\<close>

text \<open>Between its regions the thread holds the Opus frames that the transcoder has yet to emit for the current AAC frame.\<close>

record 't audio_sys =
  as_w :: "'t ngx_rtc_audio_worker"
  as_emits :: "bytes list"
  as_exited :: bool

text \<open>The top of the loop: wait, exit on \<^verbatim>\<open>stop\<close>, or take a frame; \<open>None\<close> while it waits.\<close>

definition ngx_rtc_audio_worker_main :: "('t \<Rightarrow> bytes \<Rightarrow> bytes list \<times> 't) \<Rightarrow> 't audio_sys \<Rightarrow> (bytes option \<times> 't audio_sys) option" where
  "ngx_rtc_audio_worker_main tc s =
     (let w = as_w s
      in if \<not> aw_stop w \<and> ngx_rtc_vring_empty (Some (aw_in w)) then None
         else if aw_stop w then Some (None, s\<lparr>as_exited := True\<rparr>)
         else (case ngx_rtc_vring_pop (Some (aw_in w)) (Some (replicate 8192 0)) NGX_RTC_AUDIO_AAC_MAX (Some 0) of
                 (_, r, aac, aac_len) \<Rightarrow>
                   (let aac = take (unat (the aac_len)) (the aac)
                    in case tc (aw_a w) aac of
                         (opus, a) \<Rightarrow> Some (Some aac, s\<lparr>as_w := w\<lparr>aw_in := the r, aw_a := a\<rparr>, as_emits := opus\<rparr>))))"

definition ngx_rtc_audio_worker_emit :: "'t ngx_rtc_audio_worker option \<Rightarrow> bytes option \<Rightarrow> u32 \<Rightarrow> int \<times> 't ngx_rtc_audio_worker option" where
  "ngx_rtc_audio_worker_emit wp opusp len =
     (case (wp, opusp) of
        (Some w, Some opus) \<Rightarrow>
          if len = 0 \<or> len > NGX_RTC_AUDIO_OPUS_MAX_PACKET then (- 1, wp)
          else (case ngx_rtc_vring_push (Some (aw_out w)) (Some opus) len of
                  (rc, r) \<Rightarrow>
                    (let w = w\<lparr>aw_out := the r\<rparr>
                     in (0, Some (if rc \<noteq> 0 then w\<lparr>aw_out_dropped := aw_out_dropped w + 1\<rparr> else w))))
      | _ \<Rightarrow> (- 1, wp))"

text \<open>What an observer of the two rings sees.\<close>

datatype audio_event = Fed bytes | Refused bytes | Taken bytes | Queued bytes | Lost bytes | Delivered bytes | Stopped | Exited

inductive audio_step :: "('t \<Rightarrow> bytes \<Rightarrow> bytes list \<times> 't) \<Rightarrow> 't audio_sys \<Rightarrow> audio_event \<Rightarrow> 't audio_sys \<Rightarrow> bool" for tc where
  feed: "0 < length aac \<Longrightarrow> length aac \<le> 8192 \<Longrightarrow>
      ngx_rtc_audio_worker_push (Some (as_w s)) (Some aac) (word_of_nat (length aac)) = (rc, Some w) \<Longrightarrow>
      audio_step tc s (if rc = 0 then Fed aac else Refused aac) (s\<lparr>as_w := w\<rparr>)"
| deliver: "drain_pop (as_w s) = (Some opus, w) \<Longrightarrow> audio_step tc s (Delivered opus) (s\<lparr>as_w := w\<rparr>)"
| stop: "audio_step tc s Stopped (s\<lparr>as_w := ngx_rtc_audio_worker_stop (as_w s)\<rparr>)"
| take: "\<not> as_exited s \<Longrightarrow> as_emits s = [] \<Longrightarrow> ngx_rtc_audio_worker_main tc s = Some (Some aac, s') \<Longrightarrow> audio_step tc s (Taken aac) s'"
| leave: "\<not> as_exited s \<Longrightarrow> as_emits s = [] \<Longrightarrow> ngx_rtc_audio_worker_main tc s = Some (None, s') \<Longrightarrow> audio_step tc s Exited s'"
| emit: "as_emits s = opus # rest \<Longrightarrow>
      ngx_rtc_audio_worker_emit (Some (as_w s)) (Some opus) (word_of_nat (length opus)) = (rc, Some w) \<Longrightarrow>
      audio_step tc s (if aw_out_dropped w = aw_out_dropped (as_w s) then Queued opus else Lost opus) (s\<lparr>as_w := w, as_emits := rest\<rparr>)"

inductive audio_run :: "('t \<Rightarrow> bytes \<Rightarrow> bytes list \<times> 't) \<Rightarrow> 't audio_sys \<Rightarrow> audio_event list \<Rightarrow> 't audio_sys \<Rightarrow> bool" for tc where
  refl: "audio_run tc s [] s"
| step: "audio_run tc s es s' \<Longrightarrow> audio_step tc s' e s'' \<Longrightarrow> audio_run tc s (es @ [e]) s''"

inductive_cases audio_stepE: "audio_step tc s e s'"
inductive_cases audio_runE: "audio_run tc s es s'"

end
