(* ===== verification/AudioWorkerSafe.thy ===== *)
theory AudioWorkerSafe
  imports AudioWorker
begin

text \<open>
  The frames through the transcoding thread of \<^verbatim>\<open>src/ngx_rtc_audio_worker.c\<close>, over every interleaving of the two
  sides: what each ring holds, what was dropped and counted, and that Opus leaves in the order its AAC came.
\<close>

section \<open>Traces\<close>

fun fed_of :: "audio_event list \<Rightarrow> bytes list" where
  "fed_of [] = []"
| "fed_of (Fed x # es) = x # fed_of es"
| "fed_of (_ # es) = fed_of es"

fun taken_of :: "audio_event list \<Rightarrow> bytes list" where
  "taken_of [] = []"
| "taken_of (Taken x # es) = x # taken_of es"
| "taken_of (_ # es) = taken_of es"

text \<open>What the transcoder emitted, and the part of it that the ring took.\<close>

fun emitted_of :: "audio_event list \<Rightarrow> bytes list" where
  "emitted_of [] = []"
| "emitted_of (Queued x # es) = x # emitted_of es"
| "emitted_of (Lost x # es) = x # emitted_of es"
| "emitted_of (_ # es) = emitted_of es"

fun queued_of :: "audio_event list \<Rightarrow> bytes list" where
  "queued_of [] = []"
| "queued_of (Queued x # es) = x # queued_of es"
| "queued_of (_ # es) = queued_of es"

fun delivered_of :: "audio_event list \<Rightarrow> bytes list" where
  "delivered_of [] = []"
| "delivered_of (Delivered x # es) = x # delivered_of es"
| "delivered_of (_ # es) = delivered_of es"

fun refused_count :: "audio_event list \<Rightarrow> nat" where
  "refused_count [] = 0"
| "refused_count (Refused x # es) = Suc (refused_count es)"
| "refused_count (_ # es) = refused_count es"

fun lost_count :: "audio_event list \<Rightarrow> nat" where
  "lost_count [] = 0"
| "lost_count (Lost x # es) = Suc (lost_count es)"
| "lost_count (_ # es) = lost_count es"

lemma fed_of_append [simp]: "fed_of (xs @ ys) = fed_of xs @ fed_of ys"
  by (induction xs rule: fed_of.induct) simp_all

lemma taken_of_append [simp]: "taken_of (xs @ ys) = taken_of xs @ taken_of ys"
  by (induction xs rule: taken_of.induct) simp_all

lemma emitted_of_append [simp]: "emitted_of (xs @ ys) = emitted_of xs @ emitted_of ys"
  by (induction xs rule: emitted_of.induct) simp_all

lemma queued_of_append [simp]: "queued_of (xs @ ys) = queued_of xs @ queued_of ys"
  by (induction xs rule: queued_of.induct) simp_all

lemma delivered_of_append [simp]: "delivered_of (xs @ ys) = delivered_of xs @ delivered_of ys"
  by (induction xs rule: delivered_of.induct) simp_all

lemma refused_count_append [simp]: "refused_count (xs @ ys) = refused_count xs + refused_count ys"
  by (induction xs rule: refused_count.induct) simp_all

lemma lost_count_append [simp]: "lost_count (xs @ ys) = lost_count xs + lost_count ys"
  by (induction xs rule: lost_count.induct) simp_all

lemma queued_subseq: "subseq (queued_of es) (emitted_of es)"
  by (induction es rule: queued_of.induct) (auto simp: subseq_order.dual_order.trans)

lemma queued_all: "lost_count es = 0 \<Longrightarrow> queued_of es = emitted_of es"
  by (induction es rule: queued_of.induct) auto

text \<open>The transcoder over a run of frames.\<close>

fun transcode_all :: "('t \<Rightarrow> bytes \<Rightarrow> bytes list \<times> 't) \<Rightarrow> 't \<Rightarrow> bytes list \<Rightarrow> bytes list \<times> 't" where
  "transcode_all tc a [] = ([], a)"
| "transcode_all tc a (x # xs) = (case tc a x of (o1, a) \<Rightarrow> case transcode_all tc a xs of (o2, a) \<Rightarrow> (o1 @ o2, a))"

lemma transcode_all_append:
  "transcode_all tc a (xs @ ys) =
     (case transcode_all tc a xs of (o1, a) \<Rightarrow> case transcode_all tc a ys of (o2, a) \<Rightarrow> (o1 @ o2, a))"
  by (induction xs arbitrary: a) (auto split: prod.splits)

lemma transcode_all_prefix: "prefix (fst (transcode_all tc a xs)) (fst (transcode_all tc a (xs @ ys)))"
  by (simp add: transcode_all_append split: prod.splits)

section \<open>The two rings\<close>

definition aw_ring_ok :: "nat \<Rightarrow> nat \<Rightarrow> ngx_rtc_vring \<Rightarrow> bool" where
  "aw_ring_ok cap n q \<longleftrightarrow> vring_wf q \<and> unat (v_capacity q) = cap \<and> (\<forall>e\<in>set (vring_contents q). length e \<le> n)"

lemma vring_push_cases:
  assumes wf: "aw_ring_ok cap n q" and cap: "cap < 2 ^ 20" "n < 2 ^ 20" and x: "0 < length x" "length x \<le> n"
    and p: "ngx_rtc_vring_push (Some q) (Some x) (word_of_nat (length x)) = (rc, r)"
  obtains q' where "rc = 0" "r = Some q'" "aw_ring_ok cap n q'" "vring_contents q' = vring_contents q @ [x]"
  | "rc \<noteq> 0" "r = Some q"
proof (cases "rc = 0")
  case True
  then obtain q' where r: "r = Some q'"
    using p by (auto simp: ngx_rtc_vring_push_def Let_def split: option.splits if_splits)
  have enq: "vring_enq x q = Some q'" using p True r by (simp add: vring_enq_def)
  have el: "vring_elem q x" using wf cap x by (auto simp: vring_elem_def aw_ring_ok_def)
  have wq: "vring_wf q" using wf by (simp add: aw_ring_ok_def)
  show ?thesis
    using that(1) [OF True r] vring_push_step [OF wq el enq] wf x by (simp add: aw_ring_ok_def)
next
  case False
  then show ?thesis
    using that(2) p by (auto simp: ngx_rtc_vring_push_def Let_def split: option.splits if_splits)
qed

lemma vring_pop_cases:
  assumes wf: "aw_ring_ok cap n q" and n: "n < 2 ^ 20"
  obtains "vring_contents q = []" "v_bytes q = 0"
      "ngx_rtc_vring_pop (Some q) (Some ob) (word_of_nat n) (Some l) = (- 1, Some q, Some ob, Some l)"
  | e es q' where "vring_contents q = e # es" "v_bytes q \<noteq> 0" "aw_ring_ok cap n q'" "vring_contents q' = es"
      "length e \<le> n"
      "ngx_rtc_vring_pop (Some q) (Some ob) (word_of_nat n) (Some l) =
         (0, Some q', Some (buf_put 0 e ob), Some (word_of_nat (length e)))"
proof (cases "vring_contents q")
  case Nil
  have wq: "vring_wf q" using wf by (simp add: aw_ring_ok_def)
  then obtain b where b: "v_buf q = Some b" unfolding vring_wf_def by auto
  have "vring_live q = []" using wq Nil unfolding vring_wf_def by simp
  then have z: "v_bytes q = 0" by (metis length_arc list.size(3) unat_eq_zero vring_live_def)
  show ?thesis using that(1) [OF Nil z] b z by (simp add: ngx_rtc_vring_pop_def)
next
  case (Cons e es)
  have wq: "vring_wf q" using wf by (simp add: aw_ring_ok_def)
  have le: "length e \<le> n" using wf Cons by (simp add: aw_ring_ok_def)
  then have le': "length e \<le> unat (word_of_nat n :: u32)" using n by (simp add: unat_of_nat)
  from vring_pop_any [OF wq Cons] obtain q' where q': "vring_wf q'" "vring_contents q' = es" "v_capacity q' = v_capacity q"
    and pop: "\<forall>ob cap l. length e \<le> unat cap \<longrightarrow>
         ngx_rtc_vring_pop (Some q) (Some ob) cap (Some l) = (0, Some q', Some (buf_put 0 e ob), Some (word_of_nat (length e)))"
    by blast
  have nz: "v_bytes q \<noteq> 0"
  proof
    assume "v_bytes q = 0"
    then show False using pop [rule_format, OF le', of ob l] by (auto simp: ngx_rtc_vring_pop_def split: option.splits)
  qed
  have ok: "aw_ring_ok cap n q'" using q' wf Cons by (simp add: aw_ring_ok_def)
  show ?thesis by (rule that(2) [OF Cons nz ok q'(2) le pop [rule_format, OF le']])
qed

section \<open>The system\<close>

definition opus_sized :: "('t \<Rightarrow> bytes \<Rightarrow> bytes list \<times> 't) \<Rightarrow> bool" where
  "opus_sized tc \<longleftrightarrow> (\<forall>a x o1. o1 \<in> set (fst (tc a x)) \<longrightarrow> 0 < length o1 \<and> length o1 \<le> 4000)"

definition audio_rings_ok :: "'t audio_sys \<Rightarrow> bool" where
  "audio_rings_ok s \<longleftrightarrow> aw_ring_ok 131136 8192 (aw_in (as_w s)) \<and> aw_ring_ok 64064 4000 (aw_out (as_w s)) \<and>
     (\<forall>o1\<in>set (as_emits s). 0 < length o1 \<and> length o1 \<le> 4000)"

definition audio_flow :: "('t \<Rightarrow> bytes \<Rightarrow> bytes list \<times> 't) \<Rightarrow> 't \<Rightarrow> audio_event list \<Rightarrow> 't audio_sys \<Rightarrow> bool" where
  "audio_flow tc a0 es s \<longleftrightarrow>
     fed_of es = taken_of es @ vring_contents (aw_in (as_w s)) \<and>
     transcode_all tc a0 (taken_of es) = (emitted_of es @ as_emits s, aw_a (as_w s)) \<and>
     queued_of es = delivered_of es @ vring_contents (aw_out (as_w s)) \<and>
     aw_in_dropped (as_w s) = word_of_nat (refused_count es) \<and> aw_out_dropped (as_w s) = word_of_nat (lost_count es)"

lemma take_buf_put [simp]: "length d \<le> length b \<Longrightarrow> take (length d) (buf_put 0 d b) = d"
  by (simp add: buf_put_def)

lemma drain_pop_Some:
  assumes ok: "aw_ring_ok cap 4000 (aw_out w)" and d: "drain_pop w = (Some opus, w')"
  obtains q' where "w' = w\<lparr>aw_out := q'\<rparr>" "vring_contents (aw_out w) = opus # vring_contents q'" "aw_ring_ok cap 4000 q'"
proof (rule vring_pop_cases [OF ok, of "replicate 4000 0" 0])
  fix e es q'
  assume c: "vring_contents (aw_out w) = e # es" "aw_ring_ok cap 4000 q'" "vring_contents q' = es" "length e \<le> 4000"
    and p: "ngx_rtc_vring_pop (Some (aw_out w)) (Some (replicate 4000 0)) (word_of_nat 4000) (Some 0) =
         (0, Some q', Some (buf_put 0 e (replicate 4000 0)), Some (word_of_nat (length e)))"
  have len: "unat (word_of_nat (length e) :: u32) = length e" using c(4) by (simp add: unat_of_nat)
  show thesis using that [of q'] d p c len by (simp add: drain_pop_def)
qed (use d in \<open>auto simp: drain_pop_def\<close>)

lemma main_Some:
  assumes ok: "aw_ring_ok cap 8192 (aw_in (as_w s))" and m: "ngx_rtc_audio_worker_main tc s = Some (Some aac, s')"
  obtains q' where "vring_contents (aw_in (as_w s)) = aac # vring_contents q'" "aw_ring_ok cap 8192 q'"
    "s' = s\<lparr>as_w := (as_w s)\<lparr>aw_in := q', aw_a := snd (tc (aw_a (as_w s)) aac)\<rparr>, as_emits := fst (tc (aw_a (as_w s)) aac)\<rparr>"
proof (rule vring_pop_cases [OF ok, of "replicate 8192 0" 0])
  assume "v_bytes (aw_in (as_w s)) = 0"
  then show thesis using m
    by (auto simp: ngx_rtc_audio_worker_main_def ngx_rtc_vring_empty_def Let_def split: if_splits option.splits)
next
  fix e es q'
  assume c: "vring_contents (aw_in (as_w s)) = e # es" "aw_ring_ok cap 8192 q'" "vring_contents q' = es" "length e \<le> 8192"
    and p: "ngx_rtc_vring_pop (Some (aw_in (as_w s))) (Some (replicate 8192 0)) (word_of_nat 8192) (Some 0) =
         (0, Some q', Some (buf_put 0 e (replicate 8192 0)), Some (word_of_nat (length e)))"
  have len: "unat (word_of_nat (length e) :: u32) = length e" using c(4) by (simp add: unat_of_nat)
  show thesis using that [of q'] m p c len
    by (auto simp: ngx_rtc_audio_worker_main_def Let_def split: if_splits prod.splits)
qed simp

lemma feed_cases:
  assumes ok: "aw_ring_ok cap 8192 (aw_in w)" and cap: "cap < 2 ^ 20" and x: "0 < length aac" "length aac \<le> 8192"
    and p: "ngx_rtc_audio_worker_push (Some w) (Some aac) (word_of_nat (length aac)) = (rc, Some w')"
  obtains q' where "rc = 0" "w' = w\<lparr>aw_in := q'\<rparr>" "aw_ring_ok cap 8192 q'" "vring_contents q' = vring_contents (aw_in w) @ [aac]"
  | "rc \<noteq> 0" "w' = w\<lparr>aw_in_dropped := aw_in_dropped w + 1\<rparr>"
proof -
  obtain rc1 r where pr: "ngx_rtc_vring_push (Some (aw_in w)) (Some aac) (word_of_nat (length aac)) = (rc1, r)" by fastforce
  have len: "unat (word_of_nat (length aac) :: u32) = length aac" using x by (simp add: unat_of_nat)
  have l1: "(word_of_nat (length aac) :: u32) \<noteq> 0" using len x by (metis less_irrefl unat_0)
  have l2: "\<not> 8192 < (word_of_nat (length aac) :: u32)" using len x by (simp add: word_less_nat_alt)
  have w': "rc = rc1 \<and> w' = (let w = w\<lparr>aw_in := the r\<rparr> in if rc1 = 0 then w else w\<lparr>aw_in_dropped := aw_in_dropped w + 1\<rparr>)"
    using p pr l1 l2 by (auto simp: ngx_rtc_audio_worker_push_def Let_def)
  show thesis
    by (rule vring_push_cases [OF ok cap _ x pr]) (use that w' in auto)
qed

lemma emit_cases:
  assumes ok: "aw_ring_ok cap 4000 (aw_out w)" and cap: "cap < 2 ^ 20" and x: "0 < length opus" "length opus \<le> 4000"
    and p: "ngx_rtc_audio_worker_emit (Some w) (Some opus) (word_of_nat (length opus)) = (rc, Some w')"
  obtains q' where "w' = w\<lparr>aw_out := q'\<rparr>" "aw_ring_ok cap 4000 q'" "vring_contents q' = vring_contents (aw_out w) @ [opus]"
  | "w' = w\<lparr>aw_out_dropped := aw_out_dropped w + 1\<rparr>"
proof -
  obtain rc1 r where pr: "ngx_rtc_vring_push (Some (aw_out w)) (Some opus) (word_of_nat (length opus)) = (rc1, r)" by fastforce
  have len: "unat (word_of_nat (length opus) :: u32) = length opus" using x by (simp add: unat_of_nat)
  have l1: "(word_of_nat (length opus) :: u32) \<noteq> 0" using len x by (metis less_irrefl unat_0)
  have l2: "\<not> 4000 < (word_of_nat (length opus) :: u32)" using len x by (simp add: word_less_nat_alt)
  have w': "w' = (let w = w\<lparr>aw_out := the r\<rparr> in if rc1 \<noteq> 0 then w\<lparr>aw_out_dropped := aw_out_dropped w + 1\<rparr> else w)"
    using p pr l1 l2 by (auto simp: ngx_rtc_audio_worker_emit_def Let_def)
  show thesis
    by (rule vring_push_cases [OF ok cap _ x pr]) (use that w' in auto)
qed

lemma audio_step_keeps:
  assumes st: "audio_step tc s e s'" and tc: "opus_sized tc" and ok: "audio_rings_ok s" and fl: "audio_flow tc a0 es s"
  shows "audio_rings_ok s' \<and> audio_flow tc a0 (es @ [e]) s'"
  using st
proof cases
  case (feed aac rc w)
  have i: "aw_ring_ok 131136 8192 (aw_in (as_w s))" using ok by (simp add: audio_rings_ok_def)
  show ?thesis
    by (rule feed_cases [OF i _ feed(3,4,5)]) (use feed ok fl in \<open>auto simp: audio_rings_ok_def audio_flow_def\<close>)
next
  case (deliver opus w)
  have i: "aw_ring_ok 64064 4000 (aw_out (as_w s))" using ok by (simp add: audio_rings_ok_def)
  show ?thesis
    by (rule drain_pop_Some [OF i deliver(3)]) (use deliver ok fl in \<open>auto simp: audio_rings_ok_def audio_flow_def\<close>)
next
  case stop
  then show ?thesis using ok fl by (simp add: audio_rings_ok_def audio_flow_def ngx_rtc_audio_worker_stop_def)
next
  case (take aac)
  have i: "aw_ring_ok 131136 8192 (aw_in (as_w s))" using ok by (simp add: audio_rings_ok_def)
  obtain o1 a1 where oa: "tc (aw_a (as_w s)) aac = (o1, a1)" by fastforce
  have sz: "\<forall>x\<in>set o1. 0 < length x \<and> length x \<le> 4000" using tc oa unfolding opus_sized_def by (metis fst_conv)
  show ?thesis
    by (rule main_Some [OF i take(4)]) (use take ok fl oa sz in \<open>auto simp: audio_rings_ok_def audio_flow_def transcode_all_append\<close>)
next
  case leave
  then have "s' = s\<lparr>as_exited := True\<rparr>"
    by (auto simp: ngx_rtc_audio_worker_main_def Let_def split: if_splits prod.splits)
  with leave ok fl show ?thesis by (simp add: audio_rings_ok_def audio_flow_def)
next
  case (emit opus rest rc w)
  have i: "aw_ring_ok 64064 4000 (aw_out (as_w s))" and x: "0 < length opus" "length opus \<le> 4000"
    using ok emit(3) by (simp_all add: audio_rings_ok_def)
  show ?thesis
    by (rule emit_cases [OF i _ x emit(4)]) (use emit ok fl in \<open>auto simp: audio_rings_ok_def audio_flow_def\<close>)
qed

lemma audio_run_keeps:
  assumes "audio_run tc s0 es s" and "opus_sized tc" "audio_rings_ok s0" "audio_flow tc a0 [] s0"
  shows "audio_rings_ok s \<and> audio_flow tc a0 es s"
  using assms by (induction rule: audio_run.induct) (auto dest: audio_step_keeps)

definition audio_start :: "'t ngx_rtc_audio_worker \<Rightarrow> 't audio_sys" where
  "audio_start w = \<lparr>as_w = w, as_emits = [], as_exited = False\<rparr>"

lemma vring_init_ring:
  assumes "0 < cap" "cap < 2 ^ 20"
  shows "ngx_rtc_vring_init ok (Some vring_zero) (word_of_nat cap) = (rc, r) \<Longrightarrow>
     (rc = 0 \<longrightarrow> (\<exists>q. r = Some q \<and> v_buf q \<noteq> None \<and> aw_ring_ok cap n q \<and> vring_contents q = [])) \<and>
     (rc \<noteq> 0 \<longrightarrow> r = Some vring_zero)"
proof -
  assume i: "ngx_rtc_vring_init ok (Some vring_zero) (word_of_nat cap) = (rc, r)"
  have u: "unat (word_of_nat cap :: u32) = cap" using assms by (simp add: unat_of_nat)
  have nz: "(word_of_nat cap :: u32) \<noteq> 0" using u assms by (metis less_irrefl unat_0)
  have "vring_contents \<lparr>v_buf = Some (replicate cap 0), v_capacity = word_of_nat cap, v_head = 0, v_tail = 0, v_bytes = 0\<rparr> = []"
    by (simp add: vring_contents_def vring_live_def)
  then show ?thesis
    using i nz u assms
    by (auto simp: ngx_rtc_vring_init_def aw_ring_ok_def vring_wf_def vring_live_def vring_zero_def word_less_nat_alt split: if_splits)
qed

text \<open>A successful creation gives two empty rings and cleared counters, and holds every resource once; a failed one holds none.\<close>

lemma audio_create_cases:
  fixes E :: "'t audio_env"
  assumes c: "ngx_rtc_audio_worker_create E = (wp, held)"
  obtains w where "wp = Some w" "aw_ring_ok 131136 8192 (aw_in w)" "aw_ring_ok 64064 4000 (aw_out w)"
    "vring_contents (aw_in w) = []" "vring_contents (aw_out w) = []" "aw_in_dropped w = 0" "aw_out_dropped w = 0" "\<not> aw_stop w"
    "held = {Res_struct, Res_mutex, Res_cond, Res_transcoder, Res_in, Res_out, Res_thread}"
  | "wp = None" "held = {}"
proof -
  obtain rc1 r1 where i1: "ngx_rtc_vring_init (ae_in E) (Some vring_zero) (word_of_nat 131136) = (rc1, r1)" by fastforce
  obtain rc2 r2 where i2: "ngx_rtc_vring_init (ae_out E) (Some vring_zero) (word_of_nat 64064) = (rc2, r2)" by fastforce
  note k1 = vring_init_ring [OF _ _ i1, of 8192] and k2 = vring_init_ring [OF _ _ i2, of 4000]
  have z: "v_buf vring_zero = None" by (simp add: vring_zero_def)
  have c1: "ngx_rtc_vring_init (ae_in E) (Some vring_zero) 131136 = (rc1, r1)"
    and c2: "ngx_rtc_vring_init (ae_out E) (Some vring_zero) 64064 = (rc2, r2)" using i1 i2 by simp_all
  consider "\<not> ae_calloc E" | "ae_calloc E" "\<not> ae_mutex E" | "ae_calloc E" "ae_mutex E" "\<not> ae_cond E"
    | "ae_calloc E" "ae_mutex E" "ae_cond E" "ae_audio E = None"
    | a where "ae_calloc E" "ae_mutex E" "ae_cond E" "ae_audio E = Some a" by fastforce
  then show thesis
  proof cases
    case 5
    note live = 5 c1 c2 z
    show thesis
    proof (cases "rc1 = 0")
      case True
      then obtain q1 where q1: "r1 = Some q1" "v_buf q1 \<noteq> None" "aw_ring_ok 131136 8192 q1" "vring_contents q1 = []" using k1 by auto
      show thesis
      proof (cases "rc2 = 0")
        case True
        then obtain q2 where q2: "r2 = Some q2" "v_buf q2 \<noteq> None" "aw_ring_ok 64064 4000 q2" "vring_contents q2 = []" using k2 by auto
        show thesis
        proof (cases "ae_thread E")
          case True
          show thesis
            by (rule that(1) [of "the wp"])
              (use c live True \<open>rc1 = 0\<close> \<open>rc2 = 0\<close> q1 q2 in \<open>auto simp: ngx_rtc_audio_worker_create_def Let_def\<close>)
        next
          case False
          then show thesis using c live \<open>rc1 = 0\<close> \<open>rc2 = 0\<close> q1 q2
            by (intro that(2)) (auto simp: ngx_rtc_audio_worker_create_def audio_fail_def Let_def)
        qed
      next
        case False
        then show thesis using c live \<open>rc1 = 0\<close> q1 k2
          by (intro that(2)) (auto simp: ngx_rtc_audio_worker_create_def audio_fail_def Let_def)
      qed
    next
      case False
      then show thesis using c live k1
        by (intro that(2)) (auto simp: ngx_rtc_audio_worker_create_def audio_fail_def Let_def)
    qed
  qed (use c z that(2) in \<open>auto simp: ngx_rtc_audio_worker_create_def audio_fail_def\<close>)
qed

lemma audio_destroy_frees: "ngx_rtc_audio_worker_create E = (Some w, held) \<Longrightarrow> ngx_rtc_audio_worker_destroy (Some w) held = {}"
  by (erule audio_create_cases) (auto simp: ngx_rtc_audio_worker_destroy_def)

section \<open>A round trip through an idle worker\<close>

lemma vring_push_idle:
  assumes ok: "aw_ring_ok cap n q" and cap: "cap < 2 ^ 20" "n < 2 ^ 20" "4 + n \<le> cap" and e: "vring_contents q = []"
    and x: "0 < length x" "length x \<le> n"
  obtains q' where "ngx_rtc_vring_push (Some q) (Some x) (word_of_nat (length x)) = (0, Some q')"
    "aw_ring_ok cap n q'" "vring_contents q' = [x]"
proof -
  obtain rc r where pr: "ngx_rtc_vring_push (Some q) (Some x) (word_of_nat (length x)) = (rc, r)" by fastforce
  have z: "v_bytes q = 0" by (rule vring_pop_cases [OF ok cap(2), of "[]" 0]) (use e in auto)
  have len: "unat (word_of_nat (length x) :: u32) = length x" using x cap by (simp add: unat_of_nat)
  then have nz: "(word_of_nat (length x) :: u32) \<noteq> 0" using x by (metis less_irrefl unat_0)
  have "unat (4 + word_of_nat (length x) :: u32) = 4 + length x" using len x cap by (subst unat_plus_if') auto
  then have fit: "\<not> v_capacity q < 4 + word_of_nat (length x)"
    using ok x cap by (simp add: word_less_nat_alt aw_ring_ok_def)
  obtain b where b: "v_buf q = Some b" using ok by (auto simp: aw_ring_ok_def vring_wf_def)
  have "rc = 0" using pr z nz fit b by (simp add: ngx_rtc_vring_push_def Let_def)
  show thesis
  proof (rule vring_push_cases [OF ok cap(1,2) x pr])
    fix q' assume q': "r = Some q'" "aw_ring_ok cap n q'" "vring_contents q' = vring_contents q @ [x]"
    show thesis by (rule that [of q']) (simp_all add: pr \<open>rc = 0\<close> q' e)
  qed (simp add: \<open>rc = 0\<close>)
qed

lemma audio_idle_round:
  assumes rings: "aw_ring_ok 131136 8192 (aw_in w)" "aw_ring_ok 64064 4000 (aw_out w)" "\<not> aw_stop w"
    and e: "vring_contents (aw_in w) = []" "vring_contents (aw_out w) = []"
    and x: "0 < length aac" "length aac \<le> 8192" and o1: "0 < length opus" "length opus \<le> 4000"
    and tc: "tc (aw_a w) aac = ([opus], a')"
  shows "\<exists>s. audio_run tc (audio_start w) [Fed aac, Taken aac, Queued opus, Delivered opus] s"
proof -
  obtain q1 where q1: "ngx_rtc_vring_push (Some (aw_in w)) (Some aac) (word_of_nat (length aac)) = (0, Some q1)"
    "aw_ring_ok 131136 8192 q1" "vring_contents q1 = [aac]"
    by (rule vring_push_idle [OF rings(1) _ _ _ e(1) x]) auto
  obtain q2 where q2: "ngx_rtc_vring_push (Some (aw_out w)) (Some opus) (word_of_nat (length opus)) = (0, Some q2)"
    "aw_ring_ok 64064 4000 q2" "vring_contents q2 = [opus]"
    by (rule vring_push_idle [OF rings(2) _ _ _ e(2) o1]) auto
  obtain q3 where q3: "ngx_rtc_vring_pop (Some q1) (Some (replicate 8192 0)) 8192 (Some 0) =
      (0, Some q3, Some (buf_put 0 aac (replicate 8192 0)), Some (word_of_nat (length aac)))" "v_bytes q1 \<noteq> 0"
    by (rule vring_pop_cases [OF q1(2), of "replicate 8192 0" 0]) (use q1(3) in auto)
  obtain q4 where q4: "ngx_rtc_vring_pop (Some q2) (Some (replicate 4000 0)) 4000 (Some 0) =
      (0, Some q4, Some (buf_put 0 opus (replicate 4000 0)), Some (word_of_nat (length opus)))"
    by (rule vring_pop_cases [OF q2(2), of "replicate 4000 0" 0]) (use q2(3) in auto)
  have la: "unat (word_of_nat (length aac) :: u32) = length aac" and lo: "unat (word_of_nat (length opus) :: u32) = length opus"
    using x o1 by (simp_all add: unat_of_nat)
  have na: "(word_of_nat (length aac) :: u32) \<noteq> 0" "\<not> 8192 < (word_of_nat (length aac) :: u32)"
    and no: "(word_of_nat (length opus) :: u32) \<noteq> 0" "\<not> 4000 < (word_of_nat (length opus) :: u32)"
    using la lo x o1 by (metis less_irrefl unat_0, simp add: word_less_nat_alt, metis less_irrefl unat_0, simp add: word_less_nat_alt)
  obtain b where b: "v_buf q1 = Some b" using q1(2) by (auto simp: aw_ring_ok_def vring_wf_def)
  define w1 where "w1 = w\<lparr>aw_in := q1\<rparr>"
  define w2 where "w2 = w1\<lparr>aw_in := q3, aw_a := a'\<rparr>"
  define w3 where "w3 = w2\<lparr>aw_out := q2\<rparr>"
  define w4 where "w4 = w3\<lparr>aw_out := q4\<rparr>"
  have s1: "audio_step tc (audio_start w) (Fed aac) (audio_start w1)"
    using audio_step.feed [of aac "audio_start w" 0 w1 tc] x q1(1) na
    by (simp add: ngx_rtc_audio_worker_push_def audio_start_def w1_def)
  have s2: "audio_step tc (audio_start w1) (Taken aac) ((audio_start w2)\<lparr>as_emits := [opus]\<rparr>)"
    using audio_step.take [of "audio_start w1" tc aac "(audio_start w2)\<lparr>as_emits := [opus]\<rparr>"] q3 rings(3) tc b la x
    by (simp add: ngx_rtc_audio_worker_main_def ngx_rtc_vring_empty_def audio_start_def w1_def w2_def Let_def)
  have s3: "audio_step tc ((audio_start w2)\<lparr>as_emits := [opus]\<rparr>) (Queued opus) (audio_start w3)"
    using audio_step.emit [of "(audio_start w2)\<lparr>as_emits := [opus]\<rparr>" opus "[]" 0 w3 tc] q2(1) no
    by (simp add: ngx_rtc_audio_worker_emit_def audio_start_def w1_def w2_def w3_def)
  have s4: "audio_step tc (audio_start w3) (Delivered opus) (audio_start w4)"
    using audio_step.deliver [of "audio_start w3" opus w4 tc] q4 lo o1
    by (simp add: drain_pop_def audio_start_def w1_def w2_def w3_def w4_def)
  show ?thesis
    using audio_run.step [OF audio_run.step [OF audio_run.step [OF audio_run.step [OF audio_run.refl s1] s2] s3] s4] by auto
qed

section \<open>The property\<close>

lemma audio_transcode_flow:
  fixes E :: "'t audio_env"
  assumes tc: "opus_sized tc" and create: "ngx_rtc_audio_worker_create E = (Some w, held)"
    and run: "audio_run tc (audio_start w) es s"
  shows "fed_of es = taken_of es @ vring_contents (aw_in (as_w s))"
    and "emitted_of es @ as_emits s = fst (transcode_all tc (aw_a w) (taken_of es))"
    and "queued_of es = delivered_of es @ vring_contents (aw_out (as_w s))"
    and "subseq (delivered_of es) (fst (transcode_all tc (aw_a w) (fed_of es)))"
    and "lost_count es = 0 \<Longrightarrow> prefix (delivered_of es) (fst (transcode_all tc (aw_a w) (fed_of es)))"
    and "ngx_rtc_audio_worker_drop_stats (Some (as_w s)) = Some (word_of_nat (refused_count es), word_of_nat (lost_count es))"
proof -
  from create have "audio_rings_ok (audio_start w) \<and> audio_flow tc (aw_a w) [] (audio_start w)"
    by (rule audio_create_cases) (auto simp: audio_rings_ok_def audio_flow_def audio_start_def)
  with audio_run_keeps [OF run tc] have "audio_flow tc (aw_a w) es s" by blast
  note fl = this [unfolded audio_flow_def]
  show "fed_of es = taken_of es @ vring_contents (aw_in (as_w s))"
    and "emitted_of es @ as_emits s = fst (transcode_all tc (aw_a w) (taken_of es))"
    and qd: "queued_of es = delivered_of es @ vring_contents (aw_out (as_w s))"
    and "ngx_rtc_audio_worker_drop_stats (Some (as_w s)) = Some (word_of_nat (refused_count es), word_of_nat (lost_count es))"
    using fl by (simp_all add: ngx_rtc_audio_worker_drop_stats_def)
  obtain rest where feed: "fst (transcode_all tc (aw_a w) (fed_of es)) = emitted_of es @ rest"
    using fl transcode_all_prefix [of tc "aw_a w" "taken_of es" "vring_contents (aw_in (as_w s))"]
    by (auto simp: prefix_def)
  have "subseq (delivered_of es) (queued_of es)" using qd by (simp add: subseq_rev_drop_many)
  then show "subseq (delivered_of es) (fst (transcode_all tc (aw_a w) (fed_of es)))"
    unfolding feed using queued_subseq [of es] by (meson subseq_order.order_trans subseq_rev_drop_many subseq_order.order_refl)
  show "prefix (delivered_of es) (fst (transcode_all tc (aw_a w) (fed_of es)))" if "lost_count es = 0"
    unfolding feed using qd queued_all [OF that] by (metis append.assoc prefixI)
qed

text \<open>C11. From the creation of the worker, whatever the two threads do in whatever order: the frames the thread took, then those
still in the input ring, are exactly the frames that were fed, in order; what the transcoder emitted so far is what it emits when
run over the taken frames in order; the Opus frames delivered, then those still in the output ring, are exactly the queued ones;
so the delivered frames are, in order, frames of the transcoded feed, and without a lost frame a prefix of it. The drop counters
count the refused and the lost frames.\<close>

theorem audio_transcode_fifo:
  fixes E :: "'t audio_env"
  assumes "opus_sized tc" and "ngx_rtc_audio_worker_create E = (Some w, held)" and "audio_run tc (audio_start w) es s"
  shows "fed_of es = taken_of es @ vring_contents (aw_in (as_w s))
    \<and> emitted_of es @ as_emits s = fst (transcode_all tc (aw_a w) (taken_of es))
    \<and> queued_of es = delivered_of es @ vring_contents (aw_out (as_w s))
    \<and> subseq (delivered_of es) (fst (transcode_all tc (aw_a w) (fed_of es)))
    \<and> (lost_count es = 0 \<longrightarrow> prefix (delivered_of es) (fst (transcode_all tc (aw_a w) (fed_of es))))
    \<and> ngx_rtc_audio_worker_drop_stats (Some (as_w s)) = Some (word_of_nat (refused_count es), word_of_nat (lost_count es))"
  by (intro conjI impI audio_transcode_flow [OF assms])

text \<open>One frame through a worker that copies it.\<close>

definition audio_demo_tc :: "nat \<Rightarrow> bytes \<Rightarrow> bytes list \<times> nat" where
  "audio_demo_tc a x = (if length x \<le> 4000 \<and> x \<noteq> [] then [x] else [], a + 1)"

definition audio_demo_env :: "nat audio_env" where
  "audio_demo_env = \<lparr>ae_calloc = True, ae_mutex = True, ae_cond = True, ae_audio = Some 0, ae_in = True, ae_out = True, ae_thread = True\<rparr>"

theorem audio_transcode_fifo_witness:
  "\<exists>w held es s. ngx_rtc_audio_worker_create audio_demo_env = (Some w, held) \<and> audio_run audio_demo_tc (audio_start w) es s \<and>
     delivered_of es = [[1, 2, 3]] \<and> subseq (delivered_of es) (fst (transcode_all audio_demo_tc (aw_a w) (fed_of es)))"
proof -
  have tc: "opus_sized audio_demo_tc" by (auto simp: opus_sized_def audio_demo_tc_def split: if_splits)
  obtain wp held where c: "ngx_rtc_audio_worker_create audio_demo_env = (wp, held)" by fastforce
  show ?thesis
  proof (rule audio_create_cases [OF c])
    assume "wp = None"
    then show ?thesis using c
      by (simp add: ngx_rtc_audio_worker_create_def audio_demo_env_def ngx_rtc_vring_init_def vring_zero_def)
  next
    fix w
    assume w: "wp = Some w" "aw_ring_ok 131136 8192 (aw_in w)" "aw_ring_ok 64064 4000 (aw_out w)"
      "vring_contents (aw_in w) = []" "vring_contents (aw_out w) = []" "\<not> aw_stop w"
    obtain s where s: "audio_run audio_demo_tc (audio_start w)
        [Fed [1, 2, 3], Taken [1, 2, 3], Queued [1, 2, 3], Delivered [1, 2, 3]] s"
      using audio_idle_round [OF w(2,3,6,4,5), of "[1, 2, 3]" "[1, 2, 3]" audio_demo_tc "aw_a w + 1"]
      by (auto simp: audio_demo_tc_def)
    have "delivered_of [Fed [1, 2, 3], Taken [1, 2, 3], Queued [1, 2, 3], Delivered [1, 2, 3]] = [[1, 2, 3]]" by simp
    then show ?thesis using audio_transcode_fifo [OF tc c [unfolded w(1)] s] c [unfolded w(1)] s by blast
  qed
qed

end
