(* ===== verification/Bridge.thy ===== *)
theory Bridge
  imports Media AudioWorker Rtcp
begin

text \<open>
  The RTMP ingest of \<^verbatim>\<open>src/ngx_rtmp_rtc_bridge_module.c\<close>: a tag of the publishing session names a source, claims it, and its body
  becomes RTP: an AVC sequence header fills the parameter sets, a coded frame is cut into NAL units that are packetised, cached,
  counted and broadcast, AAC goes to the transcoding thread and comes back as Opus packets. Also the periodic sender reports.
  nginx-rtmp's session, header and chain of buffers are records and lists; the transcoder is the argument of the theory
  \<open>AudioWorker\<close>. A result \<open>None\<close> is an access to a freed object or outside a buffer.
\<close>

section \<open>State\<close>

abbreviation NGX_RTC_VIDEO_H264 :: u8 where "NGX_RTC_VIDEO_H264 \<equiv> 7"
abbreviation NGX_RTC_AUDIO_AAC :: u8 where "NGX_RTC_AUDIO_AAC \<equiv> 10"
abbreviation NGX_RTC_MAX_NALUS :: nat where "NGX_RTC_MAX_NALUS \<equiv> 16"
abbreviation NGX_RTC_MAX_VIDEO_BODY :: nat where "NGX_RTC_MAX_VIDEO_BODY \<equiv> 262144"
abbreviation NGX_RTC_MAX_AUDIO_BODY :: nat where "NGX_RTC_MAX_AUDIO_BODY \<equiv> 16384"
abbreviation NGX_RTC_AUDIO_OPUS_FRAME_SIZE :: u32 where "NGX_RTC_AUDIO_OPUS_FRAME_SIZE \<equiv> 960"
abbreviation NGX_RTC_NALU_IDR :: u8 where "NGX_RTC_NALU_IDR \<equiv> 5"

text \<open>The session as the handlers read it; \<open>rs_publishing\<close> is \<open>None\<close> without a live module context.\<close>

record rtmp_session =
  rs_app :: bytes
  rs_stream :: bytes
  rs_auto_pushed :: bool
  rs_publishing :: "bool option"

datatype rtmp_type = Msg_audio | Msg_video | Msg_other

text \<open>The chain: a buffer's octets from \<^verbatim>\<open>pos\<close> to \<^verbatim>\<open>last\<close>, \<open>None\<close> for a NULL \<^verbatim>\<open>buf\<close>.\<close>

type_synonym rtmp_chain = "bytes option list"

record ('w, 'c, 'a, 'u, 'm, 't) bridge =
  br_media :: "('w, 'c, 'a, 'u, 'm) media"
  br_audio :: "nat \<Rightarrow> 't ngx_rtc_audio_worker option"

text \<open>
  \<open>be_new\<close>, \<open>be_ctx\<close>: the addresses a new source and a new transcoder get, if any; \<open>be_stack\<close>: what the array
  \<^verbatim>\<open>name\<close> holds before it is written; \<open>be_audio\<close>: what creating a transcoder for a configuration meets;
  \<open>be_clock\<close>: the clock of a sender report.
\<close>

record ('w, 'c, 'a, 'u, 'k, 'm, 't) bridge_env =
  be_media :: "('w, 'c, 'a, 'u, 'k, 'm) media_env"
  be_new :: "nat option"
  be_ctx :: nat
  be_stack :: bytes
  be_audio :: "bytes \<Rightarrow> 't audio_env"
  be_clock :: "(u64 \<times> u64) + u64"

section \<open>Names and bodies\<close>

text \<open>\<^verbatim>\<open>ngx_snprintf(out, cap - 1, ...)\<close> writes at most \<open>cap - 1\<close> octets, the final NUL of the format among them.\<close>

definition ngx_rtmp_rtc_source_name :: "rtmp_session \<Rightarrow> bytes \<Rightarrow> nat \<Rightarrow> int \<times> bytes" where
  "ngx_rtmp_rtc_source_name s out cap =
     (if length (rs_app s) = 0 \<or> length (rs_stream s) = 0 \<or> length (rs_app s) + length (rs_stream s) + 2 > cap then (NGX_ERROR, out)
      else (NGX_OK, buf_put 0 (take (cap - 1) (rs_app s @ [0x2f] @ rs_stream s @ [0])) out))"

text \<open>The string in the array; reading it runs off an array without a NUL.\<close>

definition name_string :: "bytes \<Rightarrow> bytes option" where
  "name_string out = (if 0 \<in> set out then Some (cstr out) else None)"

text \<open>The octets copied, \<open>None\<close> for -1.\<close>

fun ngx_rtmp_rtc_chain_copy :: "rtmp_chain \<Rightarrow> bytes \<Rightarrow> nat \<Rightarrow> bytes option" where
  "ngx_rtmp_rtc_chain_copy [] dst cap = Some dst"
| "ngx_rtmp_rtc_chain_copy (None # chain) dst cap = ngx_rtmp_rtc_chain_copy chain dst cap"
| "ngx_rtmp_rtc_chain_copy (Some b # chain) dst cap =
     (if length b = 0 then ngx_rtmp_rtc_chain_copy chain dst cap
      else if length dst + length b > cap then None
      else ngx_rtmp_rtc_chain_copy chain (dst @ b) cap)"

text \<open>The source of the session's name and its claim: \<open>Inl\<close> what the handler returns without it, \<open>Inr\<close> the source. A source
  that was made now has zeroed media state.\<close>

definition rtmp_source ::
  "('w, 'c, 'a, 'u, 'k, 'm, 't) bridge_env \<Rightarrow> rtmp_session \<Rightarrow> ('w, 'c, 'a, 'u, 'm) media \<Rightarrow> ((int + bytes \<times> nat) \<times> ('w, 'c, 'a, 'u, 'm) media) option" where
  "rtmp_source E s M =
     (case ngx_rtmp_rtc_source_name s (be_stack E) NGX_RTC_SOURCE_NAME_MAX of
        (rc, out) \<Rightarrow>
          if rc \<noteq> NGX_OK then Some (Inl NGX_OK, M)
          else do {
            name \<leftarrow> name_string out;
            (srcp, W) \<leftarrow> ngx_rtc_source_get (we_tree (mv_worker (be_media E))) (be_new E) (me_worker M) (Some name);
            (case srcp of
               None \<Rightarrow> Some (Inl NGX_OK, M\<lparr>me_worker := W\<rparr>)
             | Some q \<Rightarrow>
                 do { let M = (if w_sources (me_worker M) q = None then M\<lparr>me_source := (me_source M)(q \<mapsto> media_source_zero)\<rparr> else M);
                      (rc, W) \<leftarrow> ngx_rtmp_rtc_sync_shm (mv_worker (be_media E)) W q;
                      let M = M\<lparr>me_worker := W\<rparr>;
                      if rc \<noteq> NGX_OK then Some (Inl NGX_ERROR, M)
                      else if w_sh W = None then Some (Inr (name, q), M)
                      else do { l \<leftarrow> w_sources W q;
                                M \<leftarrow> ngx_rtc_stream_shm_stats q (ls_shm_src l) M;
                                Some (Inr (name, q), M) } }) })"

section \<open>The AVC sequence header\<close>

text \<open>One pass over the parameter sets of a kind: \<open>n\<close> of them to come, \<open>p\<close> the position; \<open>store\<close> takes each set's octets.
  The result says where the pass ended, \<open>None\<close> when the function returned.\<close>

fun avc_sets :: "(bytes \<Rightarrow> 's \<Rightarrow> 's) \<Rightarrow> nat \<Rightarrow> bytes \<Rightarrow> nat \<Rightarrow> 's \<Rightarrow> (nat option \<times> 's) option" where
  "avc_sets store 0 data p s = Some (Some p, s)"
| "avc_sets store (Suc n) data p s =
     (if p + 2 \<le> length data
      then do { h \<leftarrow> rd8 data p;
                l \<leftarrow> rd8 data (p + 1);
                let len = unat (be16 h l); let p = p + 2;
                if p + len > length data then Some (None, s)
                else avc_sets store n data (p + len) (store (take len (drop p data)) s) }
      else Some (Some p, s))"

definition store_sps :: "bytes \<Rightarrow> media_source \<Rightarrow> media_source" where
  "store_sps x s =
     (if ms_sps_len s = 0 \<and> length x < 256
      then (let s = s\<lparr>ms_sps_len := word_of_nat (length x), ms_sps := buf_put 0 x (ms_sps s)\<rparr>
            in if length x \<ge> 4 then s\<lparr>ms_profile := [x ! 1, x ! 2, x ! 3], ms_profile_valid := True\<rparr> else s)
      else s)"

definition store_pps :: "bytes \<Rightarrow> media_source \<Rightarrow> media_source" where
  "store_pps x s =
     (if ms_pps_len s = 0 \<and> length x < 256 then s\<lparr>ms_pps_len := word_of_nat (length x), ms_pps := buf_put 0 x (ms_pps s)\<rparr> else s)"

definition ngx_rtmp_rtc_parse_avc_header :: "bytes \<Rightarrow> media_source \<Rightarrow> media_source option" where
  "ngx_rtmp_rtc_parse_avc_header data s =
     (if length data < 6 then Some s
      else do { b \<leftarrow> rd8 data 5;
                (pp, s) \<leftarrow> avc_sets store_sps (unat (b AND 0x1f)) data 6 s;
                (case pp of
                   None \<Rightarrow> Some s
                 | Some p \<Rightarrow> if p + 1 > length data then Some s
                              else do { n \<leftarrow> rd8 data p;
                                        (_, s) \<leftarrow> avc_sets store_pps (unat n) data (p + 1) s;
                                        Some s }) })"

section \<open>Coded frames\<close>

text \<open>\<^verbatim>\<open>ngx_rtmp_rtc_emit\<close>: cache, count, broadcast. The callback's state is the media state, \<open>None\<close> after a fault.\<close>

definition rtp_octets :: "u32 \<Rightarrow> u32" where
  "rtp_octets len = (if len \<ge> NGX_RTC_RTP_HEADER_SIZE then len - NGX_RTC_RTP_HEADER_SIZE else len)"

definition cache_video ::
  "('w, 'c, 'a, 'u, 'k, 'm) media_env \<Rightarrow> nat \<Rightarrow> bytes \<Rightarrow> bool \<Rightarrow> ('w, 'c, 'a, 'u, 'm) media \<Rightarrow> ('w, 'c, 'a, 'u, 'm) media option" where
  "cache_video E q rtp gop M =
     do { M \<leftarrow> push_gop E q rtp (word_of_nat (length rtp)) gop M;
          l \<leftarrow> w_sources (me_worker M) q;
          if w_sh (me_worker M) = None then Some M else append_retransmit E (ls_shm_src l) rtp (length rtp) gop M }"

definition count_packet :: "bool \<Rightarrow> u32 \<Rightarrow> media_source \<Rightarrow> media_source" where
  "count_packet is_video len s =
     (if is_video then s\<lparr>ms_video_pkts := ms_video_pkts s + 1, ms_video_octets := ms_video_octets s + rtp_octets len\<rparr>
      else s\<lparr>ms_audio_pkts := ms_audio_pkts s + 1, ms_audio_octets := ms_audio_octets s + rtp_octets len\<rparr>)"

definition emit_packet ::
  "('w, 'c, 'a, 'u, 'k, 'm) media_env \<Rightarrow> nat \<Rightarrow> bool \<Rightarrow> bool \<Rightarrow> bytes \<Rightarrow> ('w, 'c, 'a, 'u, 'm) media \<Rightarrow> ('w, 'c, 'a, 'u, 'm) media option" where
  "emit_packet E q is_video gop rtp M =
     do { M \<leftarrow> (if is_video then cache_video E q rtp gop M else Some M);
          M \<leftarrow> set_media q (count_packet is_video (word_of_nat (length rtp))) M;
          ngx_rtc_broadcast_rtp E q rtp (length rtp) is_video gop M }"

definition ngx_rtmp_rtc_emit ::
  "('w, 'c, 'a, 'u, 'k, 'm) media_env \<Rightarrow> nat \<Rightarrow> bool \<Rightarrow> bool \<Rightarrow> ('w, 'c, 'a, 'u, 'm) media option rtp_emit_fn" where
  "ngx_rtmp_rtc_emit E q is_video gop Mp rtp = (NGX_RTC_OK, Option.bind Mp (emit_packet E q is_video gop rtp))"

text \<open>The length-prefixed units from \<open>p\<close> on, at most \<open>k\<close> of them.\<close>

fun collect_nalus :: "nat \<Rightarrow> bytes \<Rightarrow> nat \<Rightarrow> bytes list option" where
  "collect_nalus 0 data p = Some []"
| "collect_nalus (Suc k) data p =
     (if p + 4 \<le> length data
      then do { a \<leftarrow> rd8 data p; b \<leftarrow> rd8 data (p + 1); c \<leftarrow> rd8 data (p + 2); d \<leftarrow> rd8 data (p + 3);
                let nalu_len = unat (be32 a b c d); let p = p + 4;
                if p + nalu_len > length data then Some []
                else map_option ((#) (take nalu_len (drop p data))) (collect_nalus k data (p + nalu_len)) }
      else Some [])"

text \<open>The parameter sets before an IDR unit, for any callback (given whether the packet opens a GOP): sequence number, scratch
  buffer and callback state afterwards. \<open>pp\<close> holds the timestamp, SSRC and payload type of the frame.\<close>

definition emit_sets ::
  "(bool \<Rightarrow> 'o rtp_emit_fn) \<Rightarrow> rtp_params \<Rightarrow> bytes \<Rightarrow> bytes \<Rightarrow> u8 \<Rightarrow> u16 \<Rightarrow> bytes \<Rightarrow> 'o \<Rightarrow> u16 \<times> bytes \<times> 'o" where
  "emit_sets emit pp sps pps nalu_type sq scratch opaque =
     (if nalu_type = NGX_RTC_NALU_IDR \<and> length sps > 0 \<and> length pps > 0
      then (case ngx_rtc_h264_packetize_stap_a (Some [sps, pps]) (Some [word_of_nat (length sps), word_of_nat (length pps)]) 2
                   (pp\<lparr>pp_marker := 0\<rparr>) (Some sq) (Some scratch) (Some (emit True)) opaque of
              (_, sqp, scratchp, opaque) \<Rightarrow> (the sqp, the scratchp, opaque))
      else (sq, scratch, opaque))"

text \<open>The loop over the units: the sequence number and the callback's state it ends with.\<close>

fun video_nalus ::
  "(bool \<Rightarrow> 'o rtp_emit_fn) \<Rightarrow> rtp_params \<Rightarrow> bytes \<Rightarrow> bytes \<Rightarrow> bytes list \<Rightarrow> u16 \<Rightarrow> bytes \<Rightarrow> 'o \<Rightarrow> (u16 \<times> 'o) option" where
  "video_nalus emit pp sps pps [] sq scratch opaque = Some (sq, opaque)"
| "video_nalus emit pp sps pps (nalu # nalus) sq scratch opaque =
     do { let len = word_of_nat (length nalu);
          b \<leftarrow> ngx_rtc_h264_is_b_frame (Some nalu) len;
          if b = 1 then video_nalus emit pp sps pps nalus sq scratch opaque
          else do {
            t \<leftarrow> ngx_rtc_h264_nalu_type (Some nalu) len;
            (case emit_sets emit pp sps pps t sq scratch opaque of
               (sq, scratch, opaque) \<Rightarrow>
                 (case ngx_rtc_h264_packetize (Some nalu) len (pp\<lparr>pp_marker := if nalus = [] then 1 else 0\<rparr>) (Some sq) (Some scratch)
                         (Some (emit False)) opaque of
                    (rc, sqp, scratchp, opaque) \<Rightarrow>
                      if rc \<noteq> NGX_RTC_OK then Some (the sqp, opaque)
                      else video_nalus emit pp sps pps nalus (the sqp) (the scratchp) opaque)) } }"

definition ngx_rtmp_rtc_video ::
  "('w, 'c, 'a, 'u, 'k, 'm) media_env \<Rightarrow> nat \<Rightarrow> u32 \<Rightarrow> bytes \<Rightarrow> ('w, 'c, 'a, 'u, 'm) media \<Rightarrow> ('w, 'c, 'a, 'u, 'm) media option" where
  "ngx_rtmp_rtc_video E q timestamp data M =
     do { nalus \<leftarrow> collect_nalus NGX_RTC_MAX_NALUS data 0;
          if nalus = [] then Some M
          else do {
            let ts = ngx_rtc_h264_timestamp_from_ms timestamp;
            M \<leftarrow> set_media q (\<lambda>s. s\<lparr>ms_video_ts := ts, ms_last_video_rtmp_ms := timestamp\<rparr>) M;
            l \<leftarrow> w_sources (me_worker M) q;
            s \<leftarrow> me_source M q;
            let pp = \<lparr>pp_timestamp = ts, pp_ssrc = ls_video_ssrc l, pp_payload_type = ls_video_pt l, pp_marker = 0, pp_scratch_cap = 1500\<rparr>;
            (sq, Mp) \<leftarrow> video_nalus (ngx_rtmp_rtc_emit E q True) pp (take (unat (ms_sps_len s)) (ms_sps s)) (take (unat (ms_pps_len s)) (ms_pps s))
                          nalus (ms_video_seq s) (replicate 1500 0) (Some M);
            M \<leftarrow> Mp;
            set_media q (\<lambda>s. s\<lparr>ms_video_seq := sq\<rparr>) M } }"


section \<open>Audio\<close>

text \<open>One Opus frame from the transcoder.\<close>

definition ngx_rtmp_rtc_audio_frame ::
  "('w, 'c, 'a, 'u, 'k, 'm) media_env \<Rightarrow> nat \<Rightarrow> ('w, 'c, 'a, 'u, 'm) media option \<Rightarrow> bytes \<Rightarrow> int \<times> ('w, 'c, 'a, 'u, 'm) media option" where
  "ngx_rtmp_rtc_audio_frame E q Mp opus =
     (case do { M \<leftarrow> Mp;
                s \<leftarrow> me_source M q;
                l \<leftarrow> w_sources (me_worker M) q;
                M \<leftarrow> set_media q (\<lambda>s. s\<lparr>ms_audio_ts := ms_audio_ts s + NGX_RTC_AUDIO_OPUS_FRAME_SIZE\<rparr>) M;
                let pp = \<lparr>pp_timestamp = ms_audio_ts s, pp_ssrc = ls_audio_ssrc l, pp_payload_type = ls_audio_pt l, pp_marker = 1,
                          pp_scratch_cap = 1500\<rparr>;
                (case ngx_rtc_opus_packetize (Some opus) (word_of_nat (length opus)) pp (Some (ms_audio_seq s)) (Some (replicate 1500 0))
                        (Some (ngx_rtmp_rtc_emit E q False False)) (Some M) of
                   (rc, sqp, _, Mp) \<Rightarrow> Some (rc, Option.bind Mp (set_media q (\<lambda>s. s\<lparr>ms_audio_seq := the sqp\<rparr>)))) } of
        None \<Rightarrow> (0, None)
      | Some r \<Rightarrow> r)"

text \<open>A sequence header: the transcoder of the previous publish is joined and freed, the audio clock starts over, and the new
  configuration gets a transcoder of its own.\<close>

definition audio_header ::
  "('w, 'c, 'a, 'u, 'k, 'm, 't) bridge_env \<Rightarrow> nat \<Rightarrow> bytes \<Rightarrow> ('w, 'c, 'a, 'u, 'm, 't) bridge \<Rightarrow> ('w, 'c, 'a, 'u, 'm, 't) bridge option" where
  "audio_header E q asc B =
     do { let M = br_media B;
          l \<leftarrow> w_sources (me_worker M) q;
          let audio = (case ls_audio_ctx l of None \<Rightarrow> br_audio B | Some x \<Rightarrow> (br_audio B)(x := None));
          (case ngx_rtc_audio_worker_create (be_audio E asc) of
             (wp, _) \<Rightarrow>
               do { M \<leftarrow> set_media q (\<lambda>s. s\<lparr>ms_audio_asc := buf_put 0 asc (ms_audio_asc s), ms_audio_asc_len := word_of_nat (length asc),
                            ms_audio_seq := 0, ms_audio_ts := 0, ms_audio_ts_valid := False, ms_audio_pkts := 0, ms_audio_octets := 0,
                            ms_noctx_warned := (wp = None)\<rparr>) M;
                    W \<leftarrow> ngx_rtmp_rtc_audio_header (me_worker M) q (if wp = None then None else Some (be_ctx E));
                    Some (B\<lparr>br_media := M\<lparr>me_worker := W\<rparr>, br_audio := (if wp = None then audio else audio(be_ctx E := wp))\<rparr>) }) }"

text \<open>A raw AAC frame: the clock is seeded once, finished Opus goes out, the frame goes in.\<close>

definition audio_raw ::
  "('w, 'c, 'a, 'u, 'k, 'm, 't) bridge_env \<Rightarrow> nat \<Rightarrow> u32 \<Rightarrow> bytes \<Rightarrow> ('w, 'c, 'a, 'u, 'm, 't) bridge \<Rightarrow> ('w, 'c, 'a, 'u, 'm, 't) bridge option" where
  "audio_raw E q timestamp aac B =
     do { l \<leftarrow> w_sources (me_worker (br_media B)) q;
          (case ls_audio_ctx l of
             None \<Rightarrow> map_option (\<lambda>M. B\<lparr>br_media := M\<rparr>) (set_media q (\<lambda>s. s\<lparr>ms_noctx_warned := True\<rparr>) (br_media B))
           | Some x \<Rightarrow>
               do { M \<leftarrow> set_media q (\<lambda>s. let s = s\<lparr>ms_last_audio_rtmp_ms := timestamp\<rparr>
                                        in if ms_audio_ts_valid s then s
                                           else s\<lparr>ms_audio_ts := ngx_rtc_opus_timestamp_from_ms timestamp, ms_audio_ts_valid := True\<rparr>) (br_media B);
                    w \<leftarrow> br_audio B x;
                    (_, wp, Mp) \<leftarrow> ngx_rtc_audio_worker_drain (Some w) (Some (ngx_rtmp_rtc_audio_frame (be_media E) q)) (Some M);
                    M \<leftarrow> Mp;
                    Some (B\<lparr>br_media := M, br_audio := (br_audio B)(x := snd (ngx_rtc_audio_worker_push wp (Some aac) (word_of_nat (length aac))))\<rparr>) }) }"

definition ngx_rtmp_rtc_audio ::
  "('w, 'c, 'a, 'u, 'k, 'm, 't) bridge_env \<Rightarrow> rtmp_session \<Rightarrow> u32 \<Rightarrow> rtmp_chain \<Rightarrow> ('w, 'c, 'a, 'u, 'm, 't) bridge
    \<Rightarrow> (int \<times> ('w, 'c, 'a, 'u, 'm, 't) bridge) option" where
  "ngx_rtmp_rtc_audio E s timestamp chain B =
     (case chain of
        Some pos # _ \<Rightarrow>
          if length pos < 2 then Some (NGX_OK, B)
          else if drop_bit 4 (pos ! 0) AND 0x0f \<noteq> NGX_RTC_AUDIO_AAC then Some (NGX_OK, B)
          else do {
            (r, M) \<leftarrow> rtmp_source E s (br_media B);
            let B = B\<lparr>br_media := M\<rparr>;
            (case r of
               Inl rc \<Rightarrow> Some (rc, B)
             | Inr (_, q) \<Rightarrow>
                 (case ngx_rtmp_rtc_chain_copy chain [] NGX_RTC_MAX_AUDIO_BODY of
                    None \<Rightarrow> Some (NGX_OK, B)
                  | Some body \<Rightarrow>
                      if length body < 2 then Some (NGX_OK, B)
                      else if body ! 1 = 0
                      then (let asc = drop 2 body
                            in if length asc < 2 \<or> length asc > 64 then Some (NGX_OK, B)
                               else map_option (Pair NGX_OK) (audio_header E q asc B))
                      else if body ! 1 \<noteq> 1 then Some (NGX_OK, B)
                      else map_option (Pair NGX_OK) (audio_raw E q timestamp (drop 2 body) B))) }
      | _ \<Rightarrow> Some (NGX_OK, B))"

section \<open>The handlers\<close>

text \<open>A new AVC sequence header: the video state starts over and the caches are emptied before the header is read.\<close>

definition video_restart :: "media_source \<Rightarrow> media_source" where
  "video_restart s = s\<lparr>ms_sps_len := 0, ms_pps_len := 0, ms_profile_valid := False, ms_video_seq := 0, ms_video_ts := 0, ms_have_ts := False,
     ms_video_pkts := 0, ms_video_octets := 0, ms_gop := (ms_gop s)\<lparr>ring_count := 0, gop_start := 0\<rparr>\<rparr>"

definition avc_header ::
  "nat \<Rightarrow> bytes \<Rightarrow> rtmp_chain \<Rightarrow> ('w, 'c, 'a, 'u, 'm) media \<Rightarrow> ('w, 'c, 'a, 'u, 'm) media option" where
  "avc_header q name chain M =
     do { M \<leftarrow> set_media q video_restart M;
          W \<leftarrow> (if w_sh (me_worker M) = None then Some (me_worker M)
                else map_option snd (on_zone (\<lambda>sh. ngx_rtc_shm_retransmit_reset sh (Some name)) (me_worker M)));
          let M = M\<lparr>me_worker := W\<rparr>;
          (case ngx_rtmp_rtc_chain_copy chain [] NGX_RTC_MAX_VIDEO_BODY of
             None \<Rightarrow> Some M
           | Some body \<Rightarrow>
               if length body < 5 then Some M
               else do { s \<leftarrow> me_source M q;
                         s \<leftarrow> ngx_rtmp_rtc_parse_avc_header (drop 5 body) s;
                         set_media q (\<lambda>_. s) M }) }"

definition ngx_rtmp_rtc_av ::
  "('w, 'c, 'a, 'u, 'k, 'm, 't) bridge_env \<Rightarrow> rtmp_session \<Rightarrow> rtmp_type \<Rightarrow> u32 \<Rightarrow> rtmp_chain \<Rightarrow> ('w, 'c, 'a, 'u, 'm, 't) bridge
    \<Rightarrow> (int \<times> ('w, 'c, 'a, 'u, 'm, 't) bridge) option" where
  "ngx_rtmp_rtc_av E s type timestamp chain B =
     (case chain of
        Some pos # _ \<Rightarrow>
          if rs_publishing s \<noteq> Some True then Some (NGX_OK, B)
          else if rs_auto_pushed s then Some (NGX_OK, B)
          else if type = Msg_audio then ngx_rtmp_rtc_audio E s timestamp chain B
          else if type \<noteq> Msg_video then Some (NGX_OK, B)
          else if length pos < 5 then Some (NGX_OK, B)
          else if pos ! 0 AND 0x0f \<noteq> NGX_RTC_VIDEO_H264 then Some (NGX_OK, B)
          else do {
            (r, M) \<leftarrow> rtmp_source E s (br_media B);
            (case r of
               Inl rc \<Rightarrow> Some (rc, B\<lparr>br_media := M\<rparr>)
             | Inr (name, q) \<Rightarrow>
                 if pos ! 1 = 0 then map_option (\<lambda>M. (NGX_OK, B\<lparr>br_media := M\<rparr>)) (avc_header q name chain M)
                 else if pos ! 1 = 1
                 then (case ngx_rtmp_rtc_chain_copy chain [] NGX_RTC_MAX_VIDEO_BODY of
                         None \<Rightarrow> Some (NGX_OK, B\<lparr>br_media := M\<rparr>)
                       | Some body \<Rightarrow>
                           if length body < 5 then Some (NGX_OK, B\<lparr>br_media := M\<rparr>)
                           else map_option (\<lambda>M. (NGX_OK, B\<lparr>br_media := M\<rparr>)) (ngx_rtmp_rtc_video (be_media E) q timestamp (drop 5 body) M))
                 else Some (NGX_OK, B\<lparr>br_media := M\<rparr>)) }
      | _ \<Rightarrow> Some (NGX_OK, B))"

text \<open>The end of a session: the checks of \<^verbatim>\<open>ngx_rtmp_rtc_release_publish\<close>, then its teardown; the transcoder goes with the
  claim.\<close>

definition ngx_rtmp_rtc_disconnect ::
  "('w, 'c, 'a, 'u, 'k, 'm, 't) bridge_env \<Rightarrow> rtmp_session \<Rightarrow> ('w, 'c, 'a, 'u, 'm, 't) bridge \<Rightarrow> (int \<times> ('w, 'c, 'a, 'u, 'm, 't) bridge) option" where
  "ngx_rtmp_rtc_disconnect E s B =
     (if rs_auto_pushed s then Some (NGX_OK, B)
      else (case ngx_rtmp_rtc_source_name s (be_stack E) NGX_RTC_SOURCE_NAME_MAX of
              (rc, out) \<Rightarrow>
                if rc \<noteq> NGX_OK then Some (NGX_OK, B)
                else if rs_publishing s \<noteq> Some True then Some (NGX_OK, B)
                else do {
                  name \<leftarrow> name_string out;
                  let W = me_worker (br_media B);
                  found \<leftarrow> ngx_rtc_source_find (we_tree (mv_worker (be_media E))) W (Some name);
                  ctx \<leftarrow> (case found of None \<Rightarrow> Some None | Some q \<Rightarrow> map_option ls_audio_ctx (w_sources W q));
                  W \<leftarrow> Worker.ngx_rtmp_rtc_release_publish (mv_worker (be_media E)) W name;
                  Some (NGX_OK, B\<lparr>br_media := (br_media B)\<lparr>me_worker := W\<rparr>,
                                  br_audio := (case ctx of None \<Rightarrow> br_audio B | Some x \<Rightarrow> (br_audio B)(x := None))\<rparr>) }))"

section \<open>Sender reports\<close>

definition ngx_rtc_rtcp_sr_interval :: "u64 option \<Rightarrow> u64" where
  "ngx_rtc_rtcp_sr_interval conf =
     (let v = (case conf of Some v \<Rightarrow> v | None \<Rightarrow> - 1) in if v = - 1 \<or> v = 0 \<or> v > 60000 then 2000 else v)"

text \<open>\<open>Inl\<close> ends the function, \<open>Inr\<close> is the compound so far and its length.\<close>

definition append_report :: "int \<times> bytes option \<times> u32 option \<Rightarrow> bytes \<times> u32 \<Rightarrow> unit + bytes \<times> u32" where
  "append_report sub acc =
     (case (sub, acc) of
        ((rc, sub, sub_len), compound, out_len) \<Rightarrow>
          if rc \<noteq> NGX_RTC_OK then Inr acc
          else (case ngx_rtc_rtcp_compound_append (Some compound) 1500 (Some out_len) sub (the sub_len) of
                  (rc, c, n) \<Rightarrow> if rc \<noteq> NGX_RTC_OK then Inl () else Inr (the c, the n)))"

definition report_compound :: "(u64 \<times> u64) + u64 \<Rightarrow> ngx_rtc_rtcp_sr \<Rightarrow> unit + bytes \<times> u32" where
  "report_compound clock sr =
     (case append_report (ngx_rtc_rtcp_encode_sr clock (Some sr) (Some (replicate 1500 0)) 1500 (Some 0)) (replicate 1500 0, 0) of
        Inl u \<Rightarrow> Inl u
      | Inr acc \<Rightarrow> append_report (ngx_rtc_rtcp_encode_sdes (sr_ssrc sr) (Some (ascii ''ngx-rtc'')) (Some (replicate 1500 0)) 1500 (Some 0)) acc)"

definition ngx_rtmp_rtc_send_sr_sdes ::
  "('w, 'c, 'a, 'u, 'k, 'm, 't) bridge_env \<Rightarrow> nat \<Rightarrow> nat \<Rightarrow> ('w, 'c, 'a, 'u, 'm) media \<Rightarrow> ('w, 'c, 'a, 'u, 'm) media option" where
  "ngx_rtmp_rtc_send_sr_sdes E p q M =
     do { l \<leftarrow> w_sources (me_worker M) q;
          s \<leftarrow> me_source M q;
          sess \<leftarrow> me_session M p;
          (case report_compound (be_clock E) \<lparr>sr_ssrc = ls_video_ssrc l, sr_ntp = 0, sr_rtp_ts = ms_video_ts s, packet_count = ms_video_pkts s,
                                               octet_count = ms_video_octets s, sr_rb = None\<rparr> of
             Inl _ \<Rightarrow> Some M
           | Inr (compound, out_len) \<Rightarrow>
               if out_len = 0 then Some M
               else (case ngx_rtc_srtp_protect_rtcp (env_lib (mv_core (be_media E))) (Some (srtp sess)) (Some compound) (Some (uint out_len)) (me_world M) of
                       (rc, compound, n, w) \<Rightarrow>
                         if rc \<noteq> 0 then Some (M\<lparr>me_world := w\<rparr>)
                         else (case conn sess of
                                 None \<Rightarrow> Some (M\<lparr>me_world := w\<rparr>)
                               | Some c \<Rightarrow> Some (M\<lparr>me_world := snd (env_send (mv_core (be_media E)) c (the compound) (nat (the n)) w)\<rparr>)))) }"

definition report_session ::
  "('w, 'c, 'a, 'u, 'k, 'm, 't) bridge_env \<Rightarrow> nat \<Rightarrow> nat \<Rightarrow> ('w, 'c, 'a, 'u, 'm) media \<Rightarrow> ('w, 'c, 'a, 'u, 'm) media option" where
  "report_session E q p M =
     do { sess \<leftarrow> me_session M p;
          l \<leftarrow> w_sessions (me_worker M) p;
          ready \<leftarrow> ngx_rtc_session_fsm_is_ready (env_rep (mv_core (be_media E))) (Some (fsm sess));
          if conn sess = None \<or> \<not> ready then Some M
          else do {
            M \<leftarrow> ngx_rtmp_rtc_send_sr_sdes E p q M;
            if w_sh (me_worker M) = None then Some M
            else do { W \<leftarrow> map_option snd (on_zone (\<lambda>sh. ngx_rtc_shm_session_set_stats sh (Some (lse_ice_ufrag l)) (ucast (ngx_rtc_session.twcc_lost sess))
                                (ucast (ngx_rtc_session.twcc_received sess)) (pacer_target_bps sess) (drop_pacer sess) (drop_gop sess)) (me_worker M));
                      Some (M\<lparr>me_worker := W\<rparr>) } } }"

text \<open>Both loops take the successor before the body; the body changes no queue, so they visit what the queues held. The
  measured skew between the timelines is only logged.\<close>

primrec report_sessions ::
  "('w, 'c, 'a, 'u, 'k, 'm, 't) bridge_env \<Rightarrow> nat \<Rightarrow> nat list \<Rightarrow> ('w, 'c, 'a, 'u, 'm) media \<Rightarrow> ('w, 'c, 'a, 'u, 'm) media option" where
  "report_sessions E q [] M = Some M"
| "report_sessions E q (p # ps) M = do { M \<leftarrow> report_session E q p M; report_sessions E q ps M }"

primrec report_sources ::
  "('w, 'c, 'a, 'u, 'k, 'm, 't) bridge_env \<Rightarrow> nat list \<Rightarrow> ('w, 'c, 'a, 'u, 'm) media \<Rightarrow> ('w, 'c, 'a, 'u, 'm) media option" where
  "report_sources E [] M = Some M"
| "report_sources E (q # qs) M =
     do { l \<leftarrow> w_sources (me_worker M) q;
          M \<leftarrow> (if ls_video_ssrc l = 0 then Some M else report_sessions E q (ls_subscribers l) M);
          report_sources E qs M }"

definition ngx_rtmp_rtc_rtcp_timer ::
  "('w, 'c, 'a, 'u, 'k, 'm, 't) bridge_env \<Rightarrow> ('w, 'c, 'a, 'u, 'm) media \<Rightarrow> ('w, 'c, 'a, 'u, 'm) media option" where
  "ngx_rtmp_rtc_rtcp_timer E M = report_sources E (ngx_rtc_source_tree (me_worker M)) M"
end
