(* ===== verification/BridgeSafe.thy ===== *)
theory BridgeSafe
  imports Bridge MediaSafe
begin

text \<open>
  What the RTMP ingest emits for a coded frame: the packetisers commute with any translation of the callback's state, so it is
  enough to know the packets they hand over; those rebuild the units of the tag, whatever way the chain cut its body.
\<close>

section \<open>Packetising under another callback\<close>

definition emit_hom :: "('o \<Rightarrow> 'p) \<Rightarrow> 'o rtp_emit_fn \<Rightarrow> 'p rtp_emit_fn \<Rightarrow> bool" where
  "emit_hom f e1 e2 \<longleftrightarrow> (\<forall>x p. e2 (f x) p = (fst (e1 x p), f (snd (e1 x p))))"

definition on_opaque :: "('o \<Rightarrow> 'p) \<Rightarrow> 'o pkt_result \<Rightarrow> 'p pkt_result" where
  "on_opaque f r = (case r of (rc, sq, scratch, x) \<Rightarrow> (rc, sq, scratch, f x))"

lemma on_opaque_simp [simp]: "on_opaque f (rc, sq, scratch, x) = (rc, sq, scratch, f x)"
  by (simp add: on_opaque_def)

lemma fu_a_loop_hom:
  "emit_hom f e1 e2 \<Longrightarrow>
   fu_a_loop k pp e2 mtu num nt ind i p nb sq scratch (f x) = on_opaque f (fu_a_loop k pp e1 mtu num nt ind i p nb sq scratch x)"
proof (induction k arbitrary: i p nb sq scratch x)
  case (Suc k)
  note IH = Suc.IH [OF Suc.prems]
  have e: "e2 (f x) q = (fst (e1 x q), f (snd (e1 x q)))" for x q using Suc.prems by (simp add: emit_hom_def)
  show ?case
    by (simp only: fu_a_loop.simps Let_def e case_prod_beta fst_conv snd_conv IH if_distrib [of "on_opaque f"] on_opaque_simp)
qed simp

lemma packetize_hom:
  assumes "emit_hom f e1 e2"
  shows "ngx_rtc_h264_packetize nalup len pp sqp scratchp (Some e2) (f x) = on_opaque f (ngx_rtc_h264_packetize nalup len pp sqp scratchp (Some e1) x)"
proof -
  have e: "e2 (f x) q = (fst (e1 x q), f (snd (e1 x q)))" for x q using assms by (simp add: emit_hom_def)
  note loop = fu_a_loop_hom [OF assms]
  show ?thesis
    by (cases nalup; cases sqp; cases scratchp)
      (simp_all add: ngx_rtc_h264_packetize_def ngx_rtc_h264_packetize_single_def ngx_rtc_h264_packetize_fu_a_def Let_def e loop split: prod.splits)
qed

lemma stap_a_hom:
  assumes "emit_hom f e1 e2"
  shows "ngx_rtc_h264_packetize_stap_a ns sizes count pp sqp scratchp (Some e2) (f x)
    = on_opaque f (ngx_rtc_h264_packetize_stap_a ns sizes count pp sqp scratchp (Some e1) x)"
proof -
  have e: "e2 (f x) q = (fst (e1 x q), f (snd (e1 x q)))" for x q using assms by (simp add: emit_hom_def)
  show ?thesis
    by (cases ns; cases sizes; cases sqp; cases scratchp)
      (simp_all add: ngx_rtc_h264_packetize_stap_a_def Let_def e split: prod.splits sum.splits)
qed

lemma emit_sets_hom:
  assumes "\<And>g. emit_hom f (e1 g) (e2 g)"
  shows "emit_sets e2 pp sps pps t sq scratch (f x) =
    (case emit_sets e1 pp sps pps t sq scratch x of (sq, scratch, x) \<Rightarrow> (sq, scratch, f x))"
  by (simp add: emit_sets_def stap_a_hom [OF assms [of True]] on_opaque_def split: prod.splits)

lemma video_nalus_hom:
  assumes "\<And>g. emit_hom f (e1 g) (e2 g)"
  shows "video_nalus e2 pp sps pps ns sq scratch (f x) = map_option (\<lambda>(sq, x). (sq, f x)) (video_nalus e1 pp sps pps ns sq scratch x)"
proof (induction ns arbitrary: sq scratch x)
  case (Cons n ns)
  note ph = packetize_hom [OF assms [of False]] and sh = emit_sets_hom [OF assms]
  show ?case
    by (simp only: video_nalus.simps Let_def) (auto simp: ph sh Cons.IH on_opaque_def split: prod.splits option.splits bind_splits)
qed simp

text \<open>The callback that records the packets and whether they open a GOP.\<close>

definition gop_collect :: "bool \<Rightarrow> (bool \<times> bytes) list rtp_emit_fn" where
  "gop_collect g out p = (0, out @ [(g, p)])"

lemma packetize_collect:
  "ngx_rtc_h264_packetize nalup len pp sqp scratchp (Some (gop_collect g)) out =
     on_opaque (\<lambda>ps. out @ map (Pair g) ps) (ngx_rtc_h264_packetize nalup len pp sqp scratchp (Some rtp_collect) [])"
proof -
  have "emit_hom (\<lambda>ps. out @ map (Pair g) ps) rtp_collect (gop_collect g)" by (simp add: emit_hom_def gop_collect_def rtp_collect_def)
  from packetize_hom [OF this, of nalup len pp sqp scratchp "[]"] show ?thesis by simp
qed

lemma stap_a_collect:
  "ngx_rtc_h264_packetize_stap_a ns sizes count pp sqp scratchp (Some (gop_collect g)) out =
     on_opaque (\<lambda>ps. out @ map (Pair g) ps) (ngx_rtc_h264_packetize_stap_a ns sizes count pp sqp scratchp (Some rtp_collect) [])"
proof -
  have "emit_hom (\<lambda>ps. out @ map (Pair g) ps) rtp_collect (gop_collect g)" by (simp add: emit_hom_def gop_collect_def rtp_collect_def)
  from stap_a_hom [OF this, of ns sizes count pp sqp scratchp "[]"] show ?thesis by simp
qed

section \<open>The packets of a frame\<close>

definition b_frame :: "bytes \<Rightarrow> bool" where
  "b_frame n \<longleftrightarrow> ngx_rtc_h264_is_b_frame (Some n) (word_of_nat (length n)) = Some 1"

definition idr :: "bytes \<Rightarrow> bool" where
  "idr n \<longleftrightarrow> n ! 0 AND 0x1f = 5"

text \<open>
  The packets \<open>ps\<close> carry the units from sequence number \<open>sq\<close> on: nothing for a B frame; for another unit its
  packets, which rebuild it and of which the last has the marker when no unit follows, preceded, for an IDR unit and when
  both parameter sets are known, by one packet that opens a GOP and splits into them.
\<close>

fun frame_ok :: "bytes \<Rightarrow> bytes \<Rightarrow> u16 \<Rightarrow> bytes list \<Rightarrow> (bool \<times> bytes) list \<Rightarrow> bool" where
  "frame_ok sps pps sq [] ps \<longleftrightarrow> ps = []"
| "frame_ok sps pps sq (n # ns) ps \<longleftrightarrow>
     (if b_frame n then frame_ok sps pps sq ns ps
      else \<exists>gs qs rest. ps = map (Pair True) gs @ map (Pair False) qs @ rest \<and>
        (if idr n \<and> sps \<noteq> [] \<and> pps \<noteq> []
         then \<exists>g. gs = [g] \<and> pkt_seq g = sq \<and> \<not> pkt_marker g \<and> g ! 12 AND 0x1f = 24 \<and> stap_split (drop 13 g) = [sps, pps]
         else gs = []) \<and>
        qs \<noteq> [] \<and> depacketize qs = n \<and>
        (\<forall>i<length qs. length (qs ! i) \<le> 1214 \<and> pkt_seq (qs ! i) = sq + word_of_nat (length gs + i) \<and>
           (pkt_marker (qs ! i) \<longleftrightarrow> ns = [] \<and> i = length qs - 1)) \<and>
        frame_ok sps pps (sq + word_of_nat (length gs + length qs)) ns rest)"

lemma b_frame_cases:
  assumes "length n < 2 ^ 32"
  obtains r where "ngx_rtc_h264_is_b_frame (Some n) (word_of_nat (length n)) = Some r" "(r = 1) = b_frame n"
  using b_frame_total [of "word_of_nat (length n)" n] assms by (fastforce simp: b_frame_def unat_of_nat)

lemma nalu_type_of: "n \<noteq> [] \<Longrightarrow> length n < 2 ^ 32 \<Longrightarrow> ngx_rtc_h264_nalu_type (Some n) (word_of_nat (length n)) = Some (n ! 0 AND 0x1f)"
  by (auto simp: ngx_rtc_h264_nalu_type_def rd8_in unat_of_nat word_of_nat_eq_0_iff dest: nat_dvd_not_less)

lemma emit_sets_collect:
  assumes "length sps < 256" "length pps < 256" "pp_scratch_cap pp = 1500" "length scratch = 1500"
  shows "\<exists>gs scratch1. length scratch1 = 1500 \<and>
    (if t = 5 \<and> sps \<noteq> [] \<and> pps \<noteq> []
     then \<exists>g. gs = [g] \<and> pkt_seq g = sq \<and> \<not> pkt_marker g \<and> g ! 12 AND 0x1f = 24 \<and> stap_split (drop 13 g) = [sps, pps] else gs = []) \<and>
    emit_sets gop_collect pp sps pps t sq scratch out = (sq + word_of_nat (length gs), scratch1, out @ map (Pair True) gs)"
proof (cases "t = 5 \<and> sps \<noteq> [] \<and> pps \<noteq> []")
  case True
  have "1 + stap_len [sps, pps] \<le> 1200" using assms(1,2) by (simp add: stap_len_def)
  with stap_a_roundtrip [of "[sps, pps]" "pp\<lparr>pp_marker := 0\<rparr>" scratch sq "[]"] obtain g scratch1 where
    g: "ngx_rtc_h264_packetize_stap_a (Some [sps, pps]) (Some [word_of_nat (length sps), word_of_nat (length pps)]) 2
          (pp\<lparr>pp_marker := 0\<rparr>) (Some sq) (Some scratch) (Some rtp_collect) [] = (NGX_RTC_OK, Some (sq + 1), Some scratch1, [g])"
      "length scratch1 = length scratch" "pkt_seq g = sq" "\<not> pkt_marker g" "g ! 12 AND 0x1f = 24" "stap_split (drop 13 g) = [sps, pps]"
    using True assms by auto
  show ?thesis
    by (intro exI [of _ "[g]"] exI [of _ scratch1]) (use g True assms(4) in \<open>simp add: emit_sets_def stap_a_collect\<close>)
next
  case False
  then show ?thesis using assms(4) by (intro exI [of _ "[]"] exI [of _ scratch]) (auto simp: emit_sets_def)
qed

lemma video_collect:
  assumes "\<forall>n\<in>set ns. n \<noteq> [] \<and> length n < 2 ^ 32 \<and> n ! 0 AND 0x1f < 24" and "length sps < 256" "length pps < 256"
    and "pp_scratch_cap pp = 1500" "length scratch = 1500"
  shows "\<exists>ps. video_nalus gop_collect pp sps pps ns sq scratch out = Some (sq + word_of_nat (length ps), out @ ps) \<and> frame_ok sps pps sq ns ps"
  using assms(1,5)
proof (induction ns arbitrary: sq scratch out)
  case (Cons n ns)
  have n: "n \<noteq> []" "length n < 2 ^ 32" "n ! 0 AND 0x1f < 24" using Cons.prems(1) by simp_all
  obtain r where r: "ngx_rtc_h264_is_b_frame (Some n) (word_of_nat (length n)) = Some r" "(r = 1) = b_frame n"
    using b_frame_cases [OF n(2)] .
  show ?case
  proof (cases "b_frame n")
    case True
    then show ?thesis using r Cons.IH [of scratch sq out] Cons.prems by simp
  next
    case False
    let ?stap = "idr n \<and> sps \<noteq> [] \<and> pps \<noteq> []"
    obtain gs scratch1 where s1: "length scratch1 = 1500"
        "if ?stap then \<exists>g. gs = [g] \<and> pkt_seq g = sq \<and> \<not> pkt_marker g \<and> g ! 12 AND 0x1f = 24 \<and> stap_split (drop 13 g) = [sps, pps] else gs = []"
        "emit_sets gop_collect pp sps pps (n ! 0 AND 0x1f) sq scratch out = (sq + word_of_nat (length gs), scratch1, out @ map (Pair True) gs)"
      using emit_sets_collect [OF assms(2-4) Cons.prems(2), of "n ! 0 AND 0x1f" sq out] unfolding idr_def by blast
    let ?pp = "pp\<lparr>pp_marker := if ns = [] then 1 else 0\<rparr>" and ?sq = "sq + word_of_nat (length gs)" and ?out = "out @ map (Pair True) gs"
    obtain qs scratch2 where q: "ngx_rtc_h264_packetize (Some n) (word_of_nat (length n)) ?pp (Some ?sq) (Some scratch1) (Some rtp_collect) []
        = (NGX_RTC_OK, Some (?sq + word_of_nat (length qs)), Some scratch2, qs)"
      and q2: "length scratch2 = length scratch1" "packets_ok ?pp ?sq qs" "depacketize qs = n"
      using packetize_roundtrip [of n ?pp scratch1 ?sq "[]"] n assms(4) s1(1) by auto
    obtain ps where ps: "video_nalus gop_collect pp sps pps ns (?sq + word_of_nat (length qs)) scratch2 (?out @ map (Pair False) qs)
        = Some (?sq + word_of_nat (length qs) + word_of_nat (length ps), (?out @ map (Pair False) qs) @ ps)"
      and ok: "frame_ok sps pps (?sq + word_of_nat (length qs)) ns ps"
      using Cons.IH [of scratch2 "?sq + word_of_nat (length qs)" "?out @ map (Pair False) qs"] Cons.prems(1) q2(1) s1(1) by auto
    have run: "video_nalus gop_collect pp sps pps (n # ns) sq scratch out
        = Some (?sq + word_of_nat (length qs) + word_of_nat (length ps), (?out @ map (Pair False) qs) @ ps)"
      using r False ps by (simp add: nalu_type_of [OF n(1,2)] s1(3) packetize_collect q split del: if_split)
    have "frame_ok sps pps sq (n # ns) (map (Pair True) gs @ map (Pair False) qs @ ps)"
      using False s1(2) q2(2,3) ok
      by (simp only: frame_ok.simps if_False, intro exI [of _ gs] exI [of _ qs] exI [of _ ps])
        (auto simp: packets_ok_def add.assoc)
    with run show ?thesis by (intro exI [of _ "map (Pair True) gs @ map (Pair False) qs @ ps"]) (simp add: add.assoc)
  qed
qed simp


lemma frame_ok_seq: "frame_ok sps pps sq ns ps \<Longrightarrow> i < length ps \<Longrightarrow> pkt_seq (snd (ps ! i)) = sq + word_of_nat i"
proof (induction ns arbitrary: sq ps i)
  case (Cons n ns)
  show ?case
  proof (cases "b_frame n")
    case True
    then show ?thesis using Cons.IH [of sq ps i] Cons.prems by simp
  next
    case False
    then have "\<exists>gs qs rest. ps = map (Pair True) gs @ map (Pair False) qs @ rest \<and>
        (if idr n \<and> sps \<noteq> [] \<and> pps \<noteq> []
         then \<exists>g. gs = [g] \<and> pkt_seq g = sq \<and> \<not> pkt_marker g \<and> g ! 12 AND 0x1f = 24 \<and> stap_split (drop 13 g) = [sps, pps]
         else gs = []) \<and>
        qs \<noteq> [] \<and> depacketize qs = n \<and>
        (\<forall>i<length qs. length (qs ! i) \<le> 1214 \<and> pkt_seq (qs ! i) = sq + word_of_nat (length gs + i) \<and>
           (pkt_marker (qs ! i) \<longleftrightarrow> ns = [] \<and> i = length qs - 1)) \<and>
        frame_ok sps pps (sq + word_of_nat (length gs + length qs)) ns rest"
      using Cons.prems(1) unfolding frame_ok.simps by (simp only: if_False)
    then obtain gs qs rest where ps: "ps = map (Pair True) gs @ map (Pair False) qs @ rest"
      and g: "if idr n \<and> sps \<noteq> [] \<and> pps \<noteq> []
         then \<exists>g. gs = [g] \<and> pkt_seq g = sq \<and> \<not> pkt_marker g \<and> g ! 12 AND 0x1f = 24 \<and> stap_split (drop 13 g) = [sps, pps] else gs = []"
      and qs: "\<forall>j<length qs. pkt_seq (qs ! j) = sq + word_of_nat (length gs + j)"
      and rest: "frame_ok sps pps (sq + word_of_nat (length gs + length qs)) ns rest"
      by (elim exE conjE) (rule that, assumption+, blast, assumption)
    have gs: "\<forall>j<length gs. pkt_seq (gs ! j) = sq + word_of_nat j" using g by (auto split: if_split_asm)
    have "i < length gs + length qs + length rest" using Cons.prems(2) unfolding ps by simp
    then have "i < length gs \<or> (\<exists>j. i = length gs + j \<and> j < length qs) \<or> (\<exists>j. i = length gs + length qs + j \<and> j < length rest)"
      by presburger
    then consider "i < length gs" | j where "i = length gs + j" "j < length qs" | j where "i = length gs + length qs + j" "j < length rest"
      by blast
    then show ?thesis
      using gs qs Cons.IH [OF rest] by cases (auto simp: ps nth_append)
  qed
qed simp

section \<open>The body of a tag\<close>

text \<open>The octets of a chain, and length-prefixed units.\<close>

definition rtmp_body :: "rtmp_chain \<Rightarrow> bytes" where
  "rtmp_body chain = concat (map (\<lambda>b. case b of None \<Rightarrow> [] | Some x \<Rightarrow> x) chain)"

definition avcc :: "bytes list \<Rightarrow> bytes" where
  "avcc ns = concat (map (\<lambda>n. to_be32 (word_of_nat (length n)) @ n) ns)"

lemma chain_copy_eq:
  "length dst \<le> cap \<Longrightarrow> ngx_rtmp_rtc_chain_copy chain dst cap =
     (if length dst + length (rtmp_body chain) \<le> cap then Some (dst @ rtmp_body chain) else None)"
  by (induction chain dst cap rule: ngx_rtmp_rtc_chain_copy.induct) (auto simp: rtmp_body_def)

lemma collect_avcc:
  "length ns \<le> k \<Longrightarrow> \<forall>n\<in>set ns. length n < 2 ^ 32 \<Longrightarrow> collect_nalus k (pre @ avcc ns) (length pre) = Some ns"
proof (induction ns arbitrary: k pre)
  case Nil
  show ?case by (cases k) (simp_all add: avcc_def)
next
  case (Cons n ns)
  then obtain j where k: "k = Suc j" "length ns \<le> j" by (cases k) auto
  let ?v = "word_of_nat (length n) :: u32" and ?p = "length pre"
  define D where "D = pre @ avcc (n # ns)"
  have data: "D = pre @ to_be32 ?v @ n @ avcc ns" by (simp add: D_def avcc_def)
  have u: "unat ?v = length n" using Cons.prems(2) by (simp add: unat_of_nat)
  have len: "be32 (D ! ?p) (D ! (?p + 1)) (D ! (?p + 2)) (D ! (?p + 3)) = ?v"
    unfolding data by (simp add: nth_append to_be32_def)
  have L: "length D = ?p + 4 + length n + length (avcc ns)" unfolding data by simp
  have unit: "take (length n) (drop (?p + 4) D) = n" unfolding data by simp
  have IH: "collect_nalus j D (?p + 4 + length n) = Some ns"
    using Cons.IH [OF k(2), of "pre @ to_be32 ?v @ n"] Cons.prems(2) unfolding data by (simp add: add.assoc)
  have b: "rd8 D ?p = Some (D ! ?p)" "rd8 D (?p + 1) = Some (D ! (?p + 1))" "rd8 D (?p + 2) = Some (D ! (?p + 2))"
    "rd8 D (?p + 3) = Some (D ! (?p + 3))" "?p + 4 \<le> length D" "\<not> ?p + 4 + length n > length D" using L by simp_all
  show ?case
    unfolding k(1) D_def [symmetric] collect_nalus.simps
    by (simp only: b if_True if_False Let_def bind.bind_lunit len u unit IH option.simps)
qed

section \<open>The property\<close>

text \<open>The packets handed over to \<^verbatim>\<open>ngx_rtmp_rtc_emit\<close>, in order.\<close>

definition emit_all ::
  "('w, 'c, 'a, 'u, 'k, 'm) media_env \<Rightarrow> nat \<Rightarrow> (bool \<times> bytes) list \<Rightarrow> ('w, 'c, 'a, 'u, 'm) media option \<Rightarrow> ('w, 'c, 'a, 'u, 'm) media option" where
  "emit_all E q ps Mp = fold (\<lambda>(g, p) Mp. Option.bind Mp (emit_packet E q True g p)) ps Mp"

lemma video_emits:
  assumes ns: "ns \<noteq> []" "length ns \<le> 16" "\<forall>n\<in>set ns. n \<noteq> [] \<and> length n < 2 ^ 32 \<and> n ! 0 AND 0x1f < 24"
    and src: "me_source M q = Some m" "w_sources (me_worker M) q = Some l" "ms_sps_len m < 256" "ms_pps_len m < 256"
  shows "\<exists>ps. frame_ok (take (unat (ms_sps_len m)) (ms_sps m)) (take (unat (ms_pps_len m)) (ms_pps m)) (ms_video_seq m) ns ps \<and>
    ngx_rtmp_rtc_video E q t (avcc ns) M =
      Option.bind (emit_all E q ps (Some (M\<lparr>me_source := (me_source M)(q \<mapsto>
                     m\<lparr>ms_video_ts := ngx_rtc_h264_timestamp_from_ms t, ms_last_video_rtmp_ms := t\<rparr>)\<rparr>)))
        (set_media q (\<lambda>s. s\<lparr>ms_video_seq := ms_video_seq m + word_of_nat (length ps)\<rparr>))"
proof -
  let ?sps = "take (unat (ms_sps_len m)) (ms_sps m)" and ?pps = "take (unat (ms_pps_len m)) (ms_pps m)"
  let ?M = "M\<lparr>me_source := (me_source M)(q \<mapsto> m\<lparr>ms_video_ts := ngx_rtc_h264_timestamp_from_ms t, ms_last_video_rtmp_ms := t\<rparr>)\<rparr>"
  let ?pp = "\<lparr>pp_timestamp = ngx_rtc_h264_timestamp_from_ms t, pp_ssrc = ls_video_ssrc l, pp_payload_type = ls_video_pt l, pp_marker = 0,
              pp_scratch_cap = 1500\<rparr>"
  have sets: "length ?sps < 256" "length ?pps < 256" using src(3,4) by (simp_all add: word_less_nat_alt min.strict_coboundedI2)
  obtain ps where run: "video_nalus gop_collect ?pp ?sps ?pps ns (ms_video_seq m) (replicate 1500 0) [] = Some (ms_video_seq m + word_of_nat (length ps), ps)"
    and ok: "frame_ok ?sps ?pps (ms_video_seq m) ns ps"
    using video_collect [OF ns(3) sets, of ?pp "replicate 1500 0" "ms_video_seq m" "[]"] by auto
  have hom: "emit_hom (\<lambda>ps. emit_all E q ps (Some ?M)) (gop_collect g) (ngx_rtmp_rtc_emit E q True g)" for g
    by (simp add: emit_hom_def gop_collect_def ngx_rtmp_rtc_emit_def emit_all_def)
  have "video_nalus (ngx_rtmp_rtc_emit E q True) ?pp ?sps ?pps ns (ms_video_seq m) (replicate 1500 0) (Some ?M)
      = Some (ms_video_seq m + word_of_nat (length ps), emit_all E q ps (Some ?M))"
    using video_nalus_hom [where pp = ?pp and sps = ?sps and pps = ?pps and ns = ns and sq = "ms_video_seq m" and scratch = "replicate 1500 0"
        and x = "[]", OF hom] run by (simp add: emit_all_def)
  then have "ngx_rtmp_rtc_video E q t (avcc ns) M =
      Option.bind (emit_all E q ps (Some ?M)) (set_media q (\<lambda>s. s\<lparr>ms_video_seq := ms_video_seq m + word_of_nat (length ps)\<rparr>))"
    using collect_avcc [OF ns(2), of "[]"] ns src by (simp add: ngx_rtmp_rtc_video_def set_media_def)
  with ok show ?thesis by blast
qed


text \<open>A tag of the publisher of \<^verbatim>\<open>a/b\<close> in two chunks, the second in the middle of a unit: an IDR slice and a P slice.\<close>

definition ingest_media :: "(bytes list, nat, nat, nat, nat list) media" where
  "ingest_media = relay_media\<lparr>me_worker := relay_worker\<lparr>w_sources := [1 \<mapsto> relay_source\<lparr>ls_name := [97, 47, 98]\<rparr>], w_sh := None\<rparr>,
     me_source := [1 \<mapsto> media_source_zero\<lparr>ms_video_seq := 65535, ms_sps := 0x67 # 1 # replicate 254 0, ms_sps_len := 2,
                                            ms_pps := 0x68 # replicate 255 0, ms_pps_len := 1\<rparr>]\<rparr>"

definition ingest_env :: "(bytes list, nat, nat, nat, nat, nat list, nat) bridge_env" where
  "ingest_env = \<lparr>be_media = relay_env 0, be_new = None, be_ctx = 0, be_stack = replicate 128 0,
     be_audio = \<lambda>_. \<lparr>ae_calloc = False, ae_mutex = True, ae_cond = True, ae_audio = None, ae_in = True, ae_out = True, ae_thread = True\<rparr>,
     be_clock = Inr 0\<rparr>"

definition ingest :: "(bytes list, nat, nat, nat, nat list, nat) bridge" where
  "ingest = \<lparr>br_media = ingest_media, br_audio = Map.empty\<rparr>"

definition ingest_session :: rtmp_session where
  "ingest_session = \<lparr>rs_app = [97], rs_stream = [98], rs_auto_pushed = False, rs_publishing = Some True\<rparr>"

lemma ingest_source: "rtmp_source ingest_env ingest_session (br_media ingest) = Some (Inr ([97, 47, 98], 1), ingest_media)"
proof -
  have name: "ngx_rtmp_rtc_source_name ingest_session (replicate 128 0) NGX_RTC_SOURCE_NAME_MAX = (NGX_OK, 97 # 47 # 98 # 0 # replicate 124 0)"
    by (simp add: ngx_rtmp_rtc_source_name_def ingest_session_def buf_put_def)
  have str: "name_string (97 # 47 # 98 # 0 # replicate 124 0) = Some [97, 47, 98]"
    by (simp add: name_string_def cstr_def)
  have look: "ngx_rtc_source_get (we_tree (mv_worker (relay_env 0))) None (me_worker ingest_media) (Some [97, 47, 98]) = Some (Some 1, me_worker ingest_media)"
    by (simp add: ngx_rtc_source_get_def ngx_rtc_source_create_def ngx_rtc_source_lookup_def ingest_media_def relay_media_def relay_worker_def
        relay_env_def source_name_def tree_lookup_def str_less_def)
  have w: "w_sources (me_worker ingest_media) 1 \<noteq> None" "w_sh (me_worker ingest_media) = None"
    by (simp_all add: ingest_media_def relay_worker_def)
  show ?thesis
    using w by (auto simp: rtmp_source_def ingest_env_def ingest_def name str look ngx_rtmp_rtc_sync_shm_def)
qed


end
