(* ===== verification/Spec2Isabelle.thy ===== *)
theory Spec2Isabelle
  imports Prelude Ring Jitter AvSync Hsm SessionFsm Rtp Stun Rtcp Srtp Sdp SdpText SdpRoundtrip SdpSafe Core Send Shm ShmRing ShmSafe Registry RegistrySafe Worker WorkerSafe WorkerReach WorkerLife HttpJson Http HttpSafe Feedback FeedbackSafe Media MediaSafe AudioWorker AudioWorkerSafe Bridge BridgeSafe
begin

text \<open>
  A verification development of the nginx-rtc-module.
\<close>

end
